(* ===== verification/Prelude.thy ===== *)
theory Prelude
  imports Complex_Main "HOL-Library.AList" "HOL-Library.Multiset"
begin

section \<open>Shared types, Python primitives and generic lemmas\<close>

text \<open>
  What every component of the development uses: the exceptions of the source as values,
  insertion-ordered dictionaries, the numeric and string primitives of Python that the
  modelled code calls, and generic lemmas about lists, association lists and folds.

  Conventions. A Python \<^verbatim>\<open>float\<close> is a \<^typ>\<open>real\<close>: rounding, NaN and infinities of
  IEEE arithmetic are not modelled (the one infinity the source compares against is written
  out as an option or a constructor where it occurs). A Python \<^verbatim>\<open>int\<close> is an \<^typ>\<open>int\<close>,
  a length or a count a \<^typ>\<open>nat\<close>. A \<^verbatim>\<open>str\<close> is a \<^typ>\<open>string\<close>, one \<^typ>\<open>char\<close> per code
  point below 256. A \<^verbatim>\<open>dict\<close> is an association list in insertion order with distinct keys:
  \<open>map_of\<close> reads it, \<open>AList.update\<close> overwrites in place or appends, \<open>AList.delete\<close> removes,
  which is exactly the iteration order the language guarantees.
\<close>

subsection \<open>Lemma collections\<close>

named_theorems queue_simps \<open>laws of the per-endpoint queue\<close>
named_theorems band_simps \<open>case distinctions over priorities and bands\<close>
named_theorems step_keeps \<open>one step keeps the invariant\<close>

subsection \<open>Exceptions as values\<close>

datatype py_error = TypeError | ValueError | KeyError | IndexError | AttributeError | OverflowError

type_synonym 'a py = "py_error + 'a"

text \<open>Sequencing: an exception skips the rest.\<close>

definition py_bind :: "'a py \<Rightarrow> ('a \<Rightarrow> 'b py) \<Rightarrow> 'b py" where
  "py_bind r f = (case r of Inl e \<Rightarrow> Inl e | Inr x \<Rightarrow> f x)"

lemma py_bind_simps [simp]:
  "py_bind (Inl e) f = Inl e"
  "py_bind (Inr x) f = f x"
  by (simp_all add: py_bind_def)

lemma py_bind_cong [fundef_cong]:
  "r = r' \<Longrightarrow> (\<And>x. r' = Inr x \<Longrightarrow> f x = f' x) \<Longrightarrow> py_bind r f = py_bind r' f'"
  by (cases r') simp_all

lemma py_bind_Inr: "py_bind r f = Inr y \<longleftrightarrow> (\<exists>x. r = Inr x \<and> f x = Inr y)"
  by (cases r) simp_all

type_synonym ('k, 'v) odict = "('k \<times> 'v) list"

abbreviation od_get :: "('k, 'v) odict \<Rightarrow> 'k \<Rightarrow> 'v option" where
  "od_get d k \<equiv> map_of d k"

abbreviation od_put :: "'k \<Rightarrow> 'v \<Rightarrow> ('k, 'v) odict \<Rightarrow> ('k, 'v) odict" where
  "od_put k v d \<equiv> AList.update k v d"

abbreviation od_del :: "'k \<Rightarrow> ('k, 'v) odict \<Rightarrow> ('k, 'v) odict" where
  "od_del k d \<equiv> AList.delete k d"

abbreviation od_keys :: "('k, 'v) odict \<Rightarrow> 'k list" where
  "od_keys d \<equiv> map fst d"

abbreviation od_vals :: "('k, 'v) odict \<Rightarrow> 'v list" where
  "od_vals d \<equiv> map snd d"

abbreviation od_ok :: "('k, 'v) odict \<Rightarrow> bool" where
  "od_ok d \<equiv> distinct (map fst d)"

text \<open>\<^verbatim>\<open>d.get(k, default)\<close>.\<close>

definition od_get_or :: "'v \<Rightarrow> ('k, 'v) odict \<Rightarrow> 'k \<Rightarrow> 'v" where
  "od_get_or v0 d k = (case od_get d k of None \<Rightarrow> v0 | Some v \<Rightarrow> v)"

subsection \<open>Numeric primitives\<close>

text \<open>\<^verbatim>\<open>int(x)\<close> on a float truncates towards zero.\<close>

definition py_int :: "real \<Rightarrow> int" where
  "py_int x = (if 0 \<le> x then \<lfloor>x\<rfloor> else \<lceil>x\<rceil>)"

text \<open>\<^verbatim>\<open>round(x, n)\<close>: to the nearest multiple of \<open>10 ^ -n\<close>, ties to the even one.\<close>

definition round_half_even :: "real \<Rightarrow> int" where
  "round_half_even x =
     (let f = \<lfloor>x\<rfloor>; d = x - of_int f in
      if d < 1 / 2 then f
      else if 1 / 2 < d then f + 1
      else if even f then f else f + 1)"

definition py_round :: "real \<Rightarrow> nat \<Rightarrow> real" where
  "py_round x n = of_int (round_half_even (x * 10 ^ n)) / 10 ^ n"

subsection \<open>String primitives\<close>

text \<open>\<^verbatim>\<open>str.isspace\<close>, \<^verbatim>\<open>str.lower\<close> and \<^verbatim>\<open>str.upper\<close> for the code points below 256
  (the sharp s and the y with diaeresis have no one-character upper case below 256 and do
  not occur in any name the code compares, so they are left as they are).\<close>

definition py_isspace :: "char \<Rightarrow> bool" where
  "py_isspace c = (let n = of_char c :: nat in
     (9 \<le> n \<and> n \<le> 13) \<or> (28 \<le> n \<and> n \<le> 32) \<or> n = 133 \<or> n = 160)"

definition py_strip :: "string \<Rightarrow> string" where
  "py_strip s = rev (dropWhile py_isspace (rev (dropWhile py_isspace s)))"

definition lower_char :: "char \<Rightarrow> char" where
  "lower_char c = (let n = of_char c :: nat in
     if (65 \<le> n \<and> n \<le> 90) \<or> (192 \<le> n \<and> n \<le> 222 \<and> n \<noteq> 215) then char_of (n + 32) else c)"

definition upper_char :: "char \<Rightarrow> char" where
  "upper_char c = (let n = of_char c :: nat in
     if (97 \<le> n \<and> n \<le> 122) \<or> (224 \<le> n \<and> n \<le> 254 \<and> n \<noteq> 247) then char_of (n - 32) else c)"

definition py_lower :: "string \<Rightarrow> string" where
  "py_lower s = map lower_char s"

definition py_upper :: "string \<Rightarrow> string" where
  "py_upper s = map upper_char s"

subsection \<open>Generic lemmas\<close>

lemma od_get_or_simps [simp]:
  "od_get_or v0 [] k = v0"
  "od_get_or v0 (od_put k' v d) k = (if k = k' then v else od_get_or v0 d k)"
  by (simp_all add: od_get_or_def update_conv')

lemma od_get_put [simp]: "od_get (od_put k v d) k' = (if k' = k then Some v else od_get d k')"
  by (simp add: update_conv')

lemma od_get_del [simp]: "od_get (od_del k d) k' = (if k' = k then None else od_get d k')"
  by (simp add: delete_conv')

lemma od_ok_put [simp]: "od_ok d \<Longrightarrow> od_ok (od_put k v d)"
  by (rule distinct_update)

lemma od_ok_del [simp]: "od_ok d \<Longrightarrow> od_ok (od_del k d)"
  by (rule distinct_delete)

lemma set_keys_put [simp]: "fst ` set (od_put k v d) = insert k (fst ` set d)"
  by (simp add: dom_update)

lemma set_keys_del [simp]: "fst ` set (od_del k d) = fst ` set d - {k}"
  by (induction d) auto

lemma set_od_put: "set (od_put k v d) \<subseteq> insert (k, v) (set d)"
  by (induction d) auto

lemma set_od_del: "set (od_del k d) \<subseteq> set d"
  by (induction d) auto

lemma keys_put_new: "k \<notin> fst ` set d \<Longrightarrow> od_put k v d = d @ [(k, v)]"
  by (induction d) auto

lemma map_keys_put_old: "k \<in> fst ` set d \<Longrightarrow> map fst (od_put k v d) = map fst d"
  by (induction d) auto

lemma od_put_put: "od_put k v (od_put k w d) = od_put k v d"
  by (induction d) auto

lemma od_del_notin: "k \<notin> fst ` set d \<Longrightarrow> od_del k d = d"
  by (induction d) auto

lemma od_get_Some_in: "od_get d k = Some v \<Longrightarrow> (k, v) \<in> set d"
  by (rule map_of_SomeD)

lemma od_get_None_iff: "od_get d k = None \<longleftrightarrow> k \<notin> fst ` set d"
  by (simp add: map_of_eq_None_iff)

lemma od_get_in: "od_ok d \<Longrightarrow> (k, v) \<in> set d \<Longrightarrow> od_get d k = Some v"
  by simp

text \<open>The values of a dictionary as a multiset: what an insertion, an overwrite and a
  deletion do to a sum over it.\<close>

lemma od_put_split:
  "od_ok d \<Longrightarrow> od_get d k = Some v0 \<Longrightarrow>
     \<exists>xs ys. d = xs @ (k, v0) # ys \<and> k \<notin> fst ` set xs \<and> k \<notin> fst ` set ys"
proof (induction d)
  case (Cons p d)
  show ?case
  proof (cases "fst p = k")
    case True
    with Cons.prems show ?thesis
      by (intro exI[of _ "[]"] exI[of _ d]) (cases p; auto)
  next
    case False
    with Cons obtain xs ys where "d = xs @ (k, v0) # ys" "k \<notin> fst ` set xs" "k \<notin> fst ` set ys"
      by (cases p) auto
    with False show ?thesis
      by (intro exI[of _ "p # xs"] exI[of _ ys]) auto
  qed
qed simp

lemma od_put_app: "k \<notin> fst ` set xs \<Longrightarrow> od_put k v (xs @ (k, v0) # ys) = xs @ (k, v) # ys"
  by (induction xs) auto

lemma od_del_app:
  "k \<notin> fst ` set xs \<Longrightarrow> k \<notin> fst ` set ys \<Longrightarrow> od_del k (xs @ (k, v0) # ys) = xs @ ys"
  by (induction xs) auto

lemma length_od_put:
  "length (od_put k v d) = (if k \<in> fst ` set d then length d else Suc (length d))"
  by (induction d) auto

lemma sum_list_od_put_new:
  "k \<notin> fst ` set d \<Longrightarrow>
     sum_list (map f (od_put k v d)) = sum_list (map f d) + (f (k, v) :: 'a::comm_monoid_add)"
  by (simp add: keys_put_new)

lemma sum_list_od_put_old:
  assumes "od_ok d" "od_get d k = Some v0"
  shows "sum_list (map f (od_put k v d)) + (f (k, v0) :: 'a::comm_monoid_add)
           = sum_list (map f d) + f (k, v)"
proof -
  obtain xs ys where "d = xs @ (k, v0) # ys" "k \<notin> fst ` set xs"
    using od_put_split[OF assms] by blast
  then show ?thesis by (simp add: od_put_app ac_simps)
qed

lemma sum_list_od_del:
  assumes "od_ok d" "od_get d k = Some v0"
  shows "sum_list (map f (od_del k d)) + (f (k, v0) :: 'a::comm_monoid_add) = sum_list (map f d)"
proof -
  obtain xs ys where "d = xs @ (k, v0) # ys" "k \<notin> fst ` set xs" "k \<notin> fst ` set ys"
    using od_put_split[OF assms] by blast
  then show ?thesis by (simp add: od_del_app ac_simps)
qed

text \<open>\<^const>\<open>py_int\<close> and \<^const>\<open>py_round\<close>.\<close>

lemma py_int_mono: "x \<le> y \<Longrightarrow> py_int x \<le> py_int y"
  unfolding py_int_def using ceiling_le_zero[of x] zero_le_floor[of y]
  by (auto intro: floor_mono ceiling_mono order_trans[of _ 0])

lemma round_half_even_cases: "round_half_even x = \<lfloor>x\<rfloor> \<or> round_half_even x = \<lfloor>x\<rfloor> + 1"
  by (simp add: round_half_even_def Let_def)

lemma round_half_even_mono:
  assumes "x \<le> y" shows "round_half_even x \<le> round_half_even y"
proof (cases "\<lfloor>x\<rfloor> = \<lfloor>y\<rfloor>")
  case True
  with assms show ?thesis by (auto simp: round_half_even_def Let_def)
next
  case False
  with floor_mono[OF assms] have "\<lfloor>x\<rfloor> + 1 \<le> \<lfloor>y\<rfloor>" by linarith
  with round_half_even_cases[of x] round_half_even_cases[of y] show ?thesis by linarith
qed

lemma py_round_mono: "x \<le> y \<Longrightarrow> py_round x n \<le> py_round y n"
  by (simp add: py_round_def divide_right_mono round_half_even_mono mult_right_mono)

lemma round_half_even_error: "\<bar>of_int (round_half_even x) - x\<bar> \<le> 1 / 2"
  unfolding round_half_even_def Let_def by (simp add: abs_le_iff; linarith)

lemma round_half_even_of_int [simp]: "round_half_even (of_int k) = k"
  by (simp add: round_half_even_def)

subsection \<open>Runs of a deterministic component\<close>

text \<open>A component whose operations are events: what every single operation keeps, every
  sequence of operations keeps.\<close>

locale event_system =
  fixes step :: "'s \<Rightarrow> 'e \<Rightarrow> 's"
    and ok :: "'s \<Rightarrow> bool"
    and admissible :: "'e \<Rightarrow> bool"
  assumes step_ok: "ok s \<Longrightarrow> admissible e \<Longrightarrow> ok (step s e)"
begin

lemma run_ok: "ok s \<Longrightarrow> list_all admissible es \<Longrightarrow> ok (foldl step s es)"
  by (induction es arbitrary: s) (auto intro: step_ok)

end

text \<open>A component with a step relation: an invariant of the start states that every step
  keeps holds in every state reachable from them.\<close>

locale step_system =
  fixes step :: "'s \<Rightarrow> 's \<Rightarrow> bool"
    and start :: "'s \<Rightarrow> bool"
    and ok :: "'s \<Rightarrow> bool"
  assumes start_ok: "start s \<Longrightarrow> ok s"
    and steps_ok: "ok s \<Longrightarrow> step s t \<Longrightarrow> ok t"
begin

lemma reachable_ok: "start s \<Longrightarrow> step\<^sup>*\<^sup>* s t \<Longrightarrow> ok t"
  by (rotate_tac, induction rule: rtranclp_induct) (auto intro: start_ok steps_ok)

end

end
