(* ===== verification/Json.thy ===== *)
theory Json
  imports Prelude
begin

section \<open>JSON values as Python holds them\<close>

text \<open>
  Request payloads are decoded JSON. This theory models the values and the four language
  operations the cost model and the gates apply to them: \<^verbatim>\<open>dict.get\<close>, truth value testing,
  \<^verbatim>\<open>json.dumps\<close> with its default separators and ASCII escapes, and \<^verbatim>\<open>str\<close>. A float node
  carries its value together with the text Python prints for it, so that printing needs no
  model of shortest round-trip decimals.
\<close>

datatype json =
    JNull
  | JBool bool
  | JInt int
  | JFloat real string
  | JStr string
  | JList "json list"
  | JObj "(string \<times> json) list"

type_synonym payload = "(string, json) odict"

text \<open>\<^verbatim>\<open>d.get(k)\<close>: a missing key and a JSON null are the same Python value.\<close>

definition jget :: "payload \<Rightarrow> string \<Rightarrow> json" where
  "jget p k = od_get_or JNull p k"

fun truthy :: "json \<Rightarrow> bool" where
  "truthy JNull = False"
| "truthy (JBool b) = b"
| "truthy (JInt i) = (i \<noteq> 0)"
| "truthy (JFloat r _) = (r \<noteq> 0)"
| "truthy (JStr s) = (s \<noteq> [])"
| "truthy (JList xs) = (xs \<noteq> [])"
| "truthy (JObj kvs) = (kvs \<noteq> [])"

subsection \<open>Printing\<close>

definition digit_char :: "nat \<Rightarrow> char" where
  "digit_char d = char_of (if d < 10 then 48 + d else 87 + d)"

fun show_nat :: "nat \<Rightarrow> string" where
  "show_nat n = (if n < 10 then [digit_char n] else show_nat (n div 10) @ [digit_char (n mod 10)])"

declare show_nat.simps [simp del]

definition show_int :: "int \<Rightarrow> string" where
  "show_int i = (if i < 0 then CHR ''-'' # show_nat (nat (- i)) else show_nat (nat i))"

fun join :: "string \<Rightarrow> string list \<Rightarrow> string" where
  "join sep [] = []"
| "join sep [x] = x"
| "join sep (x # y # xs) = x @ sep @ join sep (y # xs)"

definition hex2 :: "nat \<Rightarrow> string" where
  "hex2 n = [digit_char (n div 16), digit_char (n mod 16)]"

text \<open>\<^verbatim>\<open>json.dumps\<close> of one character (\<^verbatim>\<open>ensure_ascii=True\<close>).\<close>

definition esc_json :: "char \<Rightarrow> string" where
  "esc_json c = (let n = of_char c :: nat; bs = char_of (92 :: nat) in
     if n = 34 then [bs, c]
     else if n = 92 then [bs, c]
     else if n = 10 then [bs, CHR ''n'']
     else if n = 13 then [bs, CHR ''r'']
     else if n = 9 then [bs, CHR ''t'']
     else if n = 12 then [bs, CHR ''f'']
     else if n = 8 then [bs, CHR ''b'']
     else if 32 \<le> n \<and> n \<le> 126 then [c]
     else [bs, CHR ''u'', CHR ''0'', CHR ''0''] @ hex2 n)"

definition dumps_str :: "string \<Rightarrow> string" where
  "dumps_str s = [char_of (34 :: nat)] @ concat (map esc_json s) @ [char_of (34 :: nat)]"

fun json_dumps :: "json \<Rightarrow> string"
  and dumps_items :: "json list \<Rightarrow> string list"
  and dumps_pairs :: "(string \<times> json) list \<Rightarrow> string list" where
  "json_dumps JNull = ''null''"
| "json_dumps (JBool b) = (if b then ''true'' else ''false'')"
| "json_dumps (JInt i) = show_int i"
| "json_dumps (JFloat r t) = t"
| "json_dumps (JStr s) = dumps_str s"
| "json_dumps (JList xs) = ''['' @ join '', '' (dumps_items xs) @ '']''"
| "json_dumps (JObj kvs) = ''{'' @ join '', '' (dumps_pairs kvs) @ ''}''"
| "dumps_items [] = []"
| "dumps_items (x # xs) = json_dumps x # dumps_items xs"
| "dumps_pairs [] = []"
| "dumps_pairs ((k, v) # kvs) = (dumps_str k @ '': '' @ json_dumps v) # dumps_pairs kvs"

text \<open>\<^verbatim>\<open>repr\<close> of a string: single quotes unless the text holds one and no double quote.\<close>

definition esc_repr :: "char \<Rightarrow> char \<Rightarrow> string" where
  "esc_repr q c = (let n = of_char c :: nat; bs = char_of (92 :: nat) in
     if c = q \<or> n = 92 then [bs, c]
     else if n = 10 then [bs, CHR ''n'']
     else if n = 13 then [bs, CHR ''r'']
     else if n = 9 then [bs, CHR ''t'']
     else if n < 32 \<or> n = 127 \<or> (128 \<le> n \<and> n \<le> 160) \<or> n = 173 then [bs, CHR ''x''] @ hex2 n
     else [c])"

definition repr_str :: "string \<Rightarrow> string" where
  "repr_str s = (let sq = char_of (39 :: nat); dq = char_of (34 :: nat);
                     q = (if sq \<in> set s \<and> dq \<notin> set s then dq else sq)
                 in [q] @ concat (map (esc_repr q) s) @ [q])"

fun py_repr :: "json \<Rightarrow> string"
  and repr_items :: "json list \<Rightarrow> string list"
  and repr_pairs :: "(string \<times> json) list \<Rightarrow> string list" where
  "py_repr JNull = ''None''"
| "py_repr (JBool b) = (if b then ''True'' else ''False'')"
| "py_repr (JInt i) = show_int i"
| "py_repr (JFloat r t) = t"
| "py_repr (JStr s) = repr_str s"
| "py_repr (JList xs) = ''['' @ join '', '' (repr_items xs) @ '']''"
| "py_repr (JObj kvs) = ''{'' @ join '', '' (repr_pairs kvs) @ ''}''"
| "repr_items [] = []"
| "repr_items (x # xs) = py_repr x # repr_items xs"
| "repr_pairs [] = []"
| "repr_pairs ((k, v) # kvs) = (repr_str k @ '': '' @ py_repr v) # repr_pairs kvs"

text \<open>\<^verbatim>\<open>str(x)\<close> is \<^verbatim>\<open>repr(x)\<close> except on a string, which it returns as it is.\<close>

definition py_str :: "json \<Rightarrow> string" where
  "py_str v = (case v of JStr s \<Rightarrow> s | _ \<Rightarrow> py_repr v)"

text \<open>\<^verbatim>\<open>x or ""\<close>.\<close>

definition or_empty :: "json \<Rightarrow> json" where
  "or_empty v = (if truthy v then v else JStr '''')"

text \<open>A number as the arithmetic operators take it: \<^verbatim>\<open>bool\<close> is a subclass of \<^verbatim>\<open>int\<close>.\<close>

fun as_number :: "json \<Rightarrow> real option" where
  "as_number (JBool b) = Some (if b then 1 else 0)"
| "as_number (JInt i) = Some (of_int i)"
| "as_number (JFloat r _) = Some r"
| "as_number _ = None"

text \<open>\<^verbatim>\<open>isinstance(v, int)\<close>, which a \<^verbatim>\<open>bool\<close> satisfies.\<close>

fun as_int :: "json \<Rightarrow> int option" where
  "as_int (JBool b) = Some (if b then 1 else 0)"
| "as_int (JInt i) = Some i"
| "as_int _ = None"

lemma jget_simps [simp]:
  "jget [] k = JNull"
  "jget ((k', v) # p) k = (if k' = k then v else jget p k)"
  by (simp_all add: jget_def od_get_or_def)

lemma jget_put: "jget (od_put k v p) k' = (if k' = k then v else jget p k')"
  by (simp add: jget_def od_get_or_def)

lemma jget_del: "jget (od_del k p) k' = (if k' = k then JNull else jget p k')"
  by (simp add: jget_def od_get_or_def)

lemma digit_char_code: "d < 16 \<Longrightarrow> of_char (digit_char d) = (if d < 10 then 48 + d else 87 + d)"
  by (simp add: digit_char_def)

lemma as_int_number: "as_int v = Some i \<Longrightarrow> as_number v = Some (of_int i)"
  by (cases v) auto

end
