(* ===== verification/Config.thy ===== *)
theory Config
  imports Json
begin

section \<open>Priorities, bands, endpoint and caller configuration (config.py)\<close>

text \<open>
  \<^verbatim>\<open>LLMPriority\<close> with its tolerant parser \<^verbatim>\<open>coerce\<close>, \<^verbatim>\<open>PriorityBand\<close>,
  \<^verbatim>\<open>normalize_endpoint\<close>, and the operational fields of \<^verbatim>\<open>EndpointConfig\<close>,
  \<^verbatim>\<open>AgentQuotaConfig\<close> and \<^verbatim>\<open>ProxyConfig\<close> that the modelled components read, with the
  derived slot counts. Both enumerations are linear orders, as the integer enumerations of
  the source are. The alias table \<^verbatim>\<open>ROLE_TO_CLASS\<close> is read from a catalog file, so it is an
  argument of \<open>normalize_endpoint\<close>.
\<close>

subsection \<open>Priorities and bands\<close>

datatype llm_priority = P0_REALTIME | P1_TURN_SUPPORT | P2_POST_TURN | P3_INGESTION | P4_HYGIENE

fun prio_int :: "llm_priority \<Rightarrow> int" where
  "prio_int P0_REALTIME = 0"
| "prio_int P1_TURN_SUPPORT = 1"
| "prio_int P2_POST_TURN = 2"
| "prio_int P3_INGESTION = 3"
| "prio_int P4_HYGIENE = 4"

instantiation llm_priority :: linorder
begin
definition less_eq_llm_priority :: "llm_priority \<Rightarrow> llm_priority \<Rightarrow> bool" where
  "p \<le> q \<longleftrightarrow> prio_int p \<le> prio_int q"
definition less_llm_priority :: "llm_priority \<Rightarrow> llm_priority \<Rightarrow> bool" where
  "p < q \<longleftrightarrow> prio_int p < prio_int q"
instance
proof
  fix p q :: llm_priority
  show "p \<le> q \<Longrightarrow> q \<le> p \<Longrightarrow> p = q"
    by (cases p; cases q) (simp_all add: less_eq_llm_priority_def)
qed (auto simp: less_eq_llm_priority_def less_llm_priority_def)
end

datatype priority_band = INTERACTIVE | FOREGROUND | BACKGROUND

fun band_int :: "priority_band \<Rightarrow> int" where
  "band_int INTERACTIVE = 0"
| "band_int FOREGROUND = 1"
| "band_int BACKGROUND = 2"

instantiation priority_band :: linorder
begin
definition less_eq_priority_band :: "priority_band \<Rightarrow> priority_band \<Rightarrow> bool" where
  "a \<le> b \<longleftrightarrow> band_int a \<le> band_int b"
definition less_priority_band :: "priority_band \<Rightarrow> priority_band \<Rightarrow> bool" where
  "a < b \<longleftrightarrow> band_int a < band_int b"
instance
proof
  fix a b :: priority_band
  show "a \<le> b \<Longrightarrow> b \<le> a \<Longrightarrow> a = b"
    by (cases a; cases b) (simp_all add: less_eq_priority_band_def)
qed (auto simp: less_eq_priority_band_def less_priority_band_def)
end

text \<open>\<^verbatim>\<open>for band in PriorityBand\<close> iterates in this order.\<close>

definition all_bands :: "priority_band list" where
  "all_bands = [INTERACTIVE, FOREGROUND, BACKGROUND]"

definition priority_to_band :: "llm_priority \<Rightarrow> priority_band" where
  "priority_to_band p =
     (if p \<le> P1_TURN_SUPPORT then INTERACTIVE
      else if p \<le> P2_POST_TURN then FOREGROUND
      else BACKGROUND)"

subsection \<open>LLMPriority.coerce\<close>

fun prio_of_int :: "int \<Rightarrow> llm_priority option" where
  "prio_of_int n =
     (if n = 0 then Some P0_REALTIME
      else if n = 1 then Some P1_TURN_SUPPORT
      else if n = 2 then Some P2_POST_TURN
      else if n = 3 then Some P3_INGESTION
      else if n = 4 then Some P4_HYGIENE
      else None)"

definition prio_members :: "(string, llm_priority) odict" where
  "prio_members =
     [(''P0_REALTIME'', P0_REALTIME), (''P1_TURN_SUPPORT'', P1_TURN_SUPPORT),
      (''P2_POST_TURN'', P2_POST_TURN), (''P3_INGESTION'', P3_INGESTION),
      (''P4_HYGIENE'', P4_HYGIENE)]"

definition prio_aliases :: "(string, llm_priority) odict" where
  "prio_aliases =
     [(''realtime'', P0_REALTIME), (''turn'', P1_TURN_SUPPORT),
      (''turn_support'', P1_TURN_SUPPORT), (''post_turn'', P2_POST_TURN),
      (''ingestion'', P3_INGESTION), (''hygiene'', P4_HYGIENE),
      (''background'', P3_INGESTION), (''interactive'', P1_TURN_SUPPORT),
      (''foreground'', P2_POST_TURN)]"

text \<open>What a caller may send: a member (internal code), or any JSON value.\<close>

datatype prio_value = PMember llm_priority | PJson json

definition is_digit :: "char \<Rightarrow> bool" where
  "is_digit c = (let n = of_char c :: nat in 48 \<le> n \<and> n \<le> 57)"

definition digits_val :: "string \<Rightarrow> nat" where
  "digits_val ds = foldl (\<lambda>acc c. acc * 10 + (of_char c - 48)) 0 ds"

text \<open>\<^verbatim>\<open>re.match(r"^p(\d+)(?:[_-]|$)", lowered)\<close>: the digits, when the pattern matches. The
  text is stripped, so the dollar sign only matches at its end.\<close>

definition match_pn :: "string \<Rightarrow> nat option" where
  "match_pn s = (case s of
      [] \<Rightarrow> None
    | c # cs \<Rightarrow>
        (let ds = takeWhile is_digit cs; rest = dropWhile is_digit cs in
         if c = CHR ''p'' \<and> ds \<noteq> [] \<and>
            (rest = [] \<or> hd rest = CHR ''_'' \<or> hd rest = CHR ''-'')
         then Some (digits_val ds) else None))"

definition coerce_text :: "string \<Rightarrow> llm_priority option \<Rightarrow> llm_priority py" where
  "coerce_text raw dflt =
     (let txt = py_strip raw; lowered = py_lower txt in
      case od_get prio_members txt of Some p \<Rightarrow> Inr p | None \<Rightarrow>
      (case od_get prio_members (py_upper txt) of Some p \<Rightarrow> Inr p | None \<Rightarrow>
      (case od_get prio_aliases lowered of Some p \<Rightarrow> Inr p | None \<Rightarrow>
      (case Option.bind (match_pn lowered) (\<lambda>n. prio_of_int (int n)) of Some p \<Rightarrow> Inr p | None \<Rightarrow>
      (case dflt of Some p \<Rightarrow> Inr p | None \<Rightarrow> Inl ValueError)))))"

definition coerce :: "prio_value \<Rightarrow> llm_priority option \<Rightarrow> llm_priority py" where
  "coerce v dflt = (case v of
      PMember p \<Rightarrow> Inr p
    | PJson JNull \<Rightarrow> Inr (case dflt of Some p \<Rightarrow> p | None \<Rightarrow> P1_TURN_SUPPORT)
    | PJson (JInt n) \<Rightarrow>
        Inr (case prio_of_int n of Some p \<Rightarrow> p
             | None \<Rightarrow> the (prio_of_int (max 0 (min n 4))))
    | PJson j \<Rightarrow> coerce_text (py_str j) dflt)"

definition normalize_endpoint :: "(string, string) odict \<Rightarrow> string \<Rightarrow> string" where
  "normalize_endpoint role_to_class ep =
     (let txt = py_lower (py_strip ep) in od_get_or txt role_to_class txt)"

subsection \<open>Endpoint and caller configuration\<close>

record endpoint_config =
  endpoint_class :: string
  ep_role :: string
  max_slots :: int
  context_per_slot :: int
  failover_to :: string
  failover_dwell_s :: real
  spill_to :: string
  ep_input_usd :: "real option"
  ep_output_usd :: "real option"
  background_floor_pct :: real
  fast_path_reserve_slots :: int
  dispatch_concurrency_cap :: int
  ep_host :: string
  ep_port :: int
  base_url :: string
  served_model_id :: string
  ep_on_demand :: bool
  dispatcher_capability :: string
  residency_tenant :: string
  ep_vision :: bool

definition effective_max_slots :: "endpoint_config \<Rightarrow> int" where
  "effective_max_slots c =
     (if dispatch_concurrency_cap c > 0 then min (max_slots c) (dispatch_concurrency_cap c)
      else max_slots c)"

definition background_floor_slots :: "endpoint_config \<Rightarrow> int" where
  "background_floor_slots c = max 1 (py_int (of_int (max_slots c) * background_floor_pct c))"

definition background_cap_slots :: "endpoint_config \<Rightarrow> int" where
  "background_cap_slots c =
     (let cap = (if fast_path_reserve_slots c > 0 \<and> effective_max_slots c > 0
                 then effective_max_slots c - fast_path_reserve_slots c
                 else background_floor_slots c)
      in max (background_floor_slots c) cap)"

definition rstrip_slash :: "string \<Rightarrow> string" where
  "rstrip_slash s = rev (dropWhile (\<lambda>c. c = CHR ''/'') (rev s))"

definition backend_url :: "endpoint_config \<Rightarrow> string" where
  "backend_url c =
     (if base_url c \<noteq> [] then rstrip_slash (base_url c)
      else ''http://'' @ ep_host c @ '':'' @ show_int (ep_port c))"

definition effective_model_id :: "endpoint_config \<Rightarrow> string" where
  "effective_model_id c = (if served_model_id c \<noteq> [] then served_model_id c else ep_role c)"

record agent_quota =
  quota_agent_id :: string
  quota_weight :: real
  max_balance_ss :: real
  default_priority :: llm_priority
  degrade_ok :: bool
  spill_ok :: bool
  daily_spend_usd :: "real option"
  requests_per_minute :: "real option"
  content_no_store :: bool

definition default_quota :: "string \<Rightarrow> agent_quota" where
  "default_quota aid =
     \<lparr>quota_agent_id = aid, quota_weight = 1, max_balance_ss = 60,
      default_priority = P1_TURN_SUPPORT, degrade_ok = False, spill_ok = False,
      daily_spend_usd = None, requests_per_minute = None, content_no_store = False\<rparr>"

record proxy_config =
  endpoints :: "(string, endpoint_config) odict"
  agents :: "(string, agent_quota) odict"
  cfg_starvation_timeout_s :: real

definition total_fleet_slots :: "proxy_config \<Rightarrow> int" where
  "total_fleet_slots c = sum_list (map max_slots (od_vals (endpoints c)))"

text \<open>\<^verbatim>\<open>ProxyConfig.agent_config\<close> answers with the configured quota or the default one, and
  stores the default it made up. \<open>agent_config\<close> is the answer, \<open>agent_config_store\<close> the
  configuration it leaves behind; \<open>agent_config_stable\<close> below shows that storing it changes
  no later answer, so the callers of this development read the answer only.\<close>

definition agent_config :: "proxy_config \<Rightarrow> string \<Rightarrow> agent_quota" where
  "agent_config c aid = od_get_or (default_quota aid) (agents c) aid"

definition agent_config_store :: "proxy_config \<Rightarrow> string \<Rightarrow> proxy_config" where
  "agent_config_store c aid =
     (if aid \<in> fst ` set (agents c) then c
      else c\<lparr>agents := od_put aid (default_quota aid) (agents c)\<rparr>)"

subsection \<open>Lemmas\<close>

lemma set_all_bands [simp]: "set all_bands = UNIV"
  using priority_band.exhaust by (auto simp: all_bands_def)

lemma distinct_all_bands [simp]: "distinct all_bands"
  by (simp add: all_bands_def)

lemma agent_config_stable: "agent_config (agent_config_store c a) b = agent_config c b"
  by (cases "od_get (agents c) a")
    (auto simp: agent_config_def agent_config_store_def od_get_or_def od_get_None_iff[symmetric])

lemma prio_of_int_prio_int [simp]: "prio_of_int (prio_int p) = Some p"
  by (cases p) simp_all

lemma prio_of_int_None: "prio_of_int n = None \<longleftrightarrow> n < 0 \<or> 4 < n"
  by auto

lemma prio_int_bounds: "0 \<le> prio_int p" "prio_int p \<le> 4"
  by (cases p; simp)+

lemma prio_clamp_defined: "\<exists>p. prio_of_int (max 0 (min n 4)) = Some p"
  using prio_of_int_None[of "max 0 (min n 4)"] by (cases "prio_of_int (max 0 (min n 4))") auto

lemma priority_to_band_mono [band_simps]:
  "p \<le> q \<Longrightarrow> priority_to_band p \<le> priority_to_band q"
  by (cases p; cases q)
    (simp_all add: priority_to_band_def less_eq_llm_priority_def less_eq_priority_band_def)

lemma effective_le_max: "effective_max_slots c \<le> max_slots c"
  by (simp add: effective_max_slots_def)

lemma background_floor_pos: "1 \<le> background_floor_slots c"
  by (simp add: background_floor_slots_def)

lemma background_cap_ge_floor: "background_floor_slots c \<le> background_cap_slots c"
  by (simp add: background_cap_slots_def Let_def)

text \<open>An endpoint with every optional field at its default, for the witnesses.\<close>

definition demo_endpoint :: "string \<Rightarrow> int \<Rightarrow> endpoint_config" where
  "demo_endpoint ep n =
     \<lparr>endpoint_class = ep, ep_role = ep, max_slots = n, context_per_slot = 8192, failover_to = '''',
      failover_dwell_s = 30, spill_to = '''', ep_input_usd = None, ep_output_usd = None,
      background_floor_pct = 1 / 5, fast_path_reserve_slots = 0, dispatch_concurrency_cap = 0,
      ep_host = ''localhost'', ep_port = 8080, base_url = '''', served_model_id = '''',
      ep_on_demand = False, dispatcher_capability = '''', residency_tenant = '''', ep_vision = False\<rparr>"

end
