(* ===== verification/Cost_Model.thy ===== *)
theory Cost_Model
  imports Config
begin

section \<open>The duration-weighted cost model (cost_model.py)\<close>

text \<open>
  \<^verbatim>\<open>EWMATracker\<close>, \<^verbatim>\<open>EndpointCostModel\<close> with its estimate and its calibration from completions,
  the fleet-wide \<^verbatim>\<open>CostModel\<close>, the token estimator that walks a request payload, and the one
  context-fit predicate. A request's \<^verbatim>\<open>max_tokens\<close> reaches the estimate as the caller sent it,
  so it is a JSON value here and the arithmetic on it can raise.
\<close>

subsection \<open>EWMATracker\<close>

record ewma =
  ew_alpha :: real
  ew_value :: real
  ew_variance :: real
  ew_samples :: nat

definition new_ewma :: "real \<Rightarrow> ewma" where
  "new_ewma a = \<lparr>ew_alpha = a, ew_value = 0, ew_variance = 0, ew_samples = 0\<rparr>"

definition ewma_update :: "real \<Rightarrow> ewma \<Rightarrow> ewma" where
  "ewma_update x e =
     (if ew_samples e = 0 then e\<lparr>ew_value := x, ew_variance := 0, ew_samples := Suc (ew_samples e)\<rparr>
      else let d = x - ew_value e in
        e\<lparr>ew_value := ew_value e + ew_alpha e * d,
          ew_variance := (1 - ew_alpha e) * (ew_variance e + ew_alpha e * d * d),
          ew_samples := Suc (ew_samples e)\<rparr>)"

definition ewma_stddev :: "ewma \<Rightarrow> real" where
  "ewma_stddev e = sqrt (max 0 (ew_variance e))"

text \<open>For evaluation on concrete inputs: a zero variance needs no square root.\<close>

lemma ewma_stddev_code [code]:
  "ewma_stddev e = (if ew_variance e \<le> 0 then 0 else Code.abort (STR ''sqrt'') (\<lambda>_. ewma_stddev e))"
  by (simp add: ewma_stddev_def)

definition ewma_p95 :: "ewma \<Rightarrow> real" where
  "ewma_p95 e = ew_value e + 1645 / 1000 * ewma_stddev e"

subsection \<open>EndpointCostModel\<close>

record endpoint_cost_model =
  em_endpoint :: string
  em_max_slots :: int
  prefill_k :: real
  decode_tps :: "real list"
  output_length_ewma :: "(string, ewma) odict"
  prefill_ewma :: ewma
  decode_tps_ewma :: "(int, ewma) odict"

definition default_decode_curve :: "int \<Rightarrow> real list" where
  "default_decode_curve n =
     (let curve = map (\<lambda>i. 40 * (88 / 100) ^ i) [0 ..< nat n] in if curve = [] then [40] else curve)"

text \<open>\<^verbatim>\<open>EndpointCostModel(endpoint, max_slots, prefill_k)\<close> and \<^verbatim>\<open>__post_init__\<close>.\<close>

definition new_cost_model :: "string \<Rightarrow> int \<Rightarrow> real \<Rightarrow> endpoint_cost_model" where
  "new_cost_model ep n k =
     \<lparr>em_endpoint = ep, em_max_slots = n, prefill_k = k, decode_tps = default_decode_curve n,
      output_length_ewma = [], prefill_ewma = new_ewma (5 / 100), decode_tps_ewma = []\<rparr>"

text \<open>An integer that rounds to a double: the largest one is \<open>2 ^ 1024 - 2 ^ 970 - 1\<close>; beyond it both
  \<^verbatim>\<open>float(i)\<close> and \<^verbatim>\<open>i / y\<close> raise \<^verbatim>\<open>OverflowError\<close>.\<close>

definition double_ok :: "json \<Rightarrow> bool" where
  "double_ok v = (case v of JInt i \<Rightarrow> \<bar>i\<bar> < 2 ^ 1024 - 2 ^ 970 | _ \<Rightarrow> True)"

lemma double_ok_simps [simp]:
  "double_ok JNull" "double_ok (JBool b)" "double_ok (JFloat x t)" "double_ok (JStr s)"
  "\<bar>i\<bar> < 2 ^ 900 \<Longrightarrow> double_ok (JInt i)"
proof -
  assume "\<bar>i\<bar> < 2 ^ 900"
  moreover have "(2 :: int) ^ 900 < 2 ^ 1024 - 2 ^ 970" by simp
  ultimately show "double_ok (JInt i)" unfolding double_ok_def by simp
qed (simp_all add: double_ok_def)

text \<open>For evaluation on concrete inputs: the small integers are compared first.\<close>

lemma double_ok_code [code]:
  "double_ok v = (case v of
      JInt i \<Rightarrow> (if \<bar>i\<bar> < 9007199254740992 then True else \<bar>i\<bar> < 2 ^ 1024 - 2 ^ 970) | _ \<Rightarrow> True)"
  by (cases v) (simp_all add: double_ok_def)

text \<open>\<^verbatim>\<open>x / y\<close> with \<open>x\<close> as the caller sent it: only a number divides, and only one a double can
  hold.\<close>

definition num_div :: "json \<Rightarrow> real \<Rightarrow> real py" where
  "num_div v d =
     (case as_number v of
        None \<Rightarrow> Inl TypeError
      | Some x \<Rightarrow> if double_ok v then Inr (x / d) else Inl OverflowError)"

text \<open>The output length the estimate uses: \<^verbatim>\<open>max(1, min(max_output_tokens, int(p95)))\<close> once the
  call site has five samples, else the declared maximum unchanged.\<close>

definition clip_output :: "json \<Rightarrow> ewma option \<Rightarrow> json py" where
  "clip_output mx e =
     (case e of
        Some t \<Rightarrow>
          if ew_samples t \<ge> 5 then
            (case as_number mx of
               None \<Rightarrow> Inl TypeError
             | Some x \<Rightarrow> Inr (JFloat (max 1 (min x (of_int (py_int (ewma_p95 t))))) ''''))
          else Inr mx
      | None \<Rightarrow> Inr mx)"

definition tps_at :: "real list \<Rightarrow> int \<Rightarrow> real \<Rightarrow> real" where
  "tps_at curve occ other = (if occ \<le> int (length curve) then curve ! nat (occ - 1) else other)"

definition estimate_cost_ss ::
  "endpoint_cost_model \<Rightarrow> int \<Rightarrow> json \<Rightarrow> string \<Rightarrow> int \<Rightarrow> real py" where
  "estimate_cost_ss m input_tokens max_output_tokens call_site current_occupancy =
     (let prefill_s = prefill_k m * of_int input_tokens in
      py_bind (clip_output max_output_tokens (od_get (output_length_ewma m) call_site)) (\<lambda>est_output.
        if decode_tps m = [] \<or> em_max_slots m \<le> 0
        then py_bind (num_div est_output 40) (\<lambda>d. Inr (prefill_s + d))
        else
          let occ = min (max 1 (current_occupancy + 1)) (em_max_slots m);
              tps = tps_at (decode_tps m) occ (last (decode_tps m))
          in py_bind (if tps > 0 then num_div est_output tps else Inr 30) (\<lambda>d. Inr (prefill_s + d))))"

text \<open>The three calibration steps of \<^verbatim>\<open>update_from_completion\<close>, in order.\<close>

definition learn_output :: "string \<Rightarrow> int \<Rightarrow> endpoint_cost_model \<Rightarrow> endpoint_cost_model" where
  "learn_output call_site output_tokens m =
     m\<lparr>output_length_ewma :=
         od_put call_site
           (ewma_update (of_int output_tokens) (od_get_or (new_ewma (1 / 10)) (output_length_ewma m) call_site))
           (output_length_ewma m)\<rparr>"

definition learn_decode :: "real \<Rightarrow> int \<Rightarrow> endpoint_cost_model \<Rightarrow> endpoint_cost_model" where
  "learn_decode observed_tps occ m =
     (let t = ewma_update observed_tps (od_get_or (new_ewma (1 / 10)) (decode_tps_ewma m) occ);
          m1 = m\<lparr>decode_tps_ewma := od_put occ t (decode_tps_ewma m)\<rparr>
      in if ew_samples t \<ge> 3 \<and> occ \<le> int (length (decode_tps m1))
         then m1\<lparr>decode_tps := (decode_tps m1)[nat (occ - 1) := ew_value t]\<rparr>
         else m1)"

definition learn_prefill :: "real \<Rightarrow> endpoint_cost_model \<Rightarrow> endpoint_cost_model" where
  "learn_prefill implied_k m =
     (if implied_k > 0 then
        let t = ewma_update implied_k (prefill_ewma m); m1 = m\<lparr>prefill_ewma := t\<rparr> in
        if ew_samples t \<ge> 10 then m1\<lparr>prefill_k := ew_value t\<rparr> else m1
      else m)"

definition update_from_completion ::
  "string \<Rightarrow> int \<Rightarrow> int \<Rightarrow> real \<Rightarrow> int \<Rightarrow> endpoint_cost_model \<Rightarrow> endpoint_cost_model" where
  "update_from_completion call_site input_tokens output_tokens duration_s occupancy_during m =
     (if duration_s \<le> 0 \<or> output_tokens \<le> 0 then m
      else
        let m1 = learn_output call_site output_tokens m in
        if em_max_slots m1 < 1 \<or> decode_tps m1 = [] then m1
        else
          let est_prefill = prefill_k m1 * of_int input_tokens;
              est_decode = max (1 / 100) (duration_s - est_prefill);
              m2 = (if occupancy_during \<ge> 1
                    then learn_decode (of_int output_tokens / est_decode)
                           (min occupancy_during (em_max_slots m1)) m1
                    else m1)
          in if input_tokens > 100 then
               let occ_idx = min (max occupancy_during 1) (em_max_slots m2);
                   tps_at_occ = tps_at (decode_tps m2) occ_idx 40;
                   implied_decode = (if tps_at_occ > 0 then of_int output_tokens / tps_at_occ else est_decode);
                   implied_prefill = max 0 (duration_s - implied_decode);
                   implied_k = (if input_tokens > 0 then implied_prefill / of_int input_tokens else 0)
               in learn_prefill implied_k m2
             else m2)"

subsection \<open>CostModel\<close>

record cost_model =
  cm_models :: "(string, endpoint_cost_model) odict"

text \<open>\<^verbatim>\<open>if decode_tps\<close>: an empty list, like \<^verbatim>\<open>None\<close>, keeps the default curve.\<close>

definition register_endpoint :: "string \<Rightarrow> int \<Rightarrow> real \<Rightarrow> real list \<Rightarrow> cost_model \<Rightarrow> cost_model" where
  "register_endpoint ep n k curve cm =
     (let m = new_cost_model ep n k;
          m' = (if curve \<noteq> [] then m\<lparr>decode_tps := curve\<rparr> else m)
      in cm\<lparr>cm_models := od_put ep m' (cm_models cm)\<rparr>)"

text \<open>\<^verbatim>\<open>float(x)\<close>: numbers convert, a string goes through the parameter that stands for the
  interpreter's float parser, an integer no double holds overflows, everything else is a \<^verbatim>\<open>TypeError\<close>.\<close>

definition py_float :: "(string \<Rightarrow> real option) \<Rightarrow> json \<Rightarrow> real py" where
  "py_float float_str v =
     (case v of
        JStr s \<Rightarrow> (case float_str s of Some x \<Rightarrow> Inr x | None \<Rightarrow> Inl ValueError)
      | _ \<Rightarrow> (case as_number v of
                None \<Rightarrow> Inl TypeError
              | Some x \<Rightarrow> if double_ok v then Inr x else Inl OverflowError))"

definition estimate_cost ::
  "(string \<Rightarrow> real option) \<Rightarrow> cost_model \<Rightarrow> string \<Rightarrow> int \<Rightarrow> json \<Rightarrow> string \<Rightarrow> int \<Rightarrow> real py" where
  "estimate_cost float_str cm ep input_tokens max_output_tokens call_site occ =
     (case od_get (cm_models cm) ep of
        None \<Rightarrow> py_bind (py_float float_str max_output_tokens) (\<lambda>x. Inr (x / 40))
      | Some m \<Rightarrow> estimate_cost_ss m input_tokens max_output_tokens call_site occ)"

definition record_completion ::
  "string \<Rightarrow> string \<Rightarrow> int \<Rightarrow> int \<Rightarrow> real \<Rightarrow> int \<Rightarrow> cost_model \<Rightarrow> cost_model" where
  "record_completion ep call_site input_tokens output_tokens duration_s occ cm =
     (case od_get (cm_models cm) ep of
        None \<Rightarrow> cm
      | Some m \<Rightarrow> cm\<lparr>cm_models := od_put ep
            (update_from_completion call_site input_tokens output_tokens duration_s occ m) (cm_models cm)\<rparr>)"

definition resize_curve :: "int \<Rightarrow> endpoint_cost_model \<Rightarrow> endpoint_cost_model" where
  "resize_curve new_max m =
     (let old_max = em_max_slots m; m1 = m\<lparr>em_max_slots := new_max\<rparr> in
      if new_max \<le> 0 then m1\<lparr>decode_tps := []\<rparr>
      else if new_max > old_max then
        let last_tps = (if decode_tps m1 \<noteq> [] then last (decode_tps m1) else 40) in
        m1\<lparr>decode_tps := decode_tps m1 @ replicate (nat (new_max - old_max)) (last_tps * (88 / 100))\<rparr>
      else if new_max < old_max then m1\<lparr>decode_tps := take (nat new_max) (decode_tps m1)\<rparr>
      else m1)"

definition update_max_slots :: "string \<Rightarrow> int \<Rightarrow> cost_model \<Rightarrow> cost_model" where
  "update_max_slots ep new_max cm =
     (case od_get (cm_models cm) ep of
        None \<Rightarrow> cm
      | Some m \<Rightarrow> cm\<lparr>cm_models := od_put ep (resize_curve new_max m) (cm_models cm)\<rparr>)"

subsection \<open>Token estimation\<close>

definition non_text_part_types :: "string set" where
  "non_text_part_types =
     {''image'', ''image_url'', ''input_audio'', ''audio'', ''video'', ''file'', ''document''}"

definition json_chars :: "json \<Rightarrow> nat" where
  "json_chars v = (case v of JNull \<Rightarrow> 0 | JStr s \<Rightarrow> length s | _ \<Rightarrow> length (json_dumps v))"

text \<open>\<^verbatim>\<open>x in frozenset\<close> hashes \<open>x\<close>: a list or an object raises.\<close>

definition in_type_set :: "json \<Rightarrow> string set \<Rightarrow> bool py" where
  "in_type_set v S =
     (case v of JStr s \<Rightarrow> Inr (s \<in> S) | JList _ \<Rightarrow> Inl TypeError | JObj _ \<Rightarrow> Inl TypeError | _ \<Rightarrow> Inr False)"

definition str_chars :: "json \<Rightarrow> nat" where
  "str_chars v = length (py_str (or_empty v))"

lemma size_jget: "size (jget kvs k) \<le> size_list (size_prod (\<lambda>_. 0) size) kvs"
  by (induction kvs) auto

function (sequential) content_chars :: "json \<Rightarrow> nat py"
  and parts_chars :: "json list \<Rightarrow> nat py" where
  "content_chars (JStr s) = Inr (length s)"
| "content_chars (JObj kvs) = Inr (json_chars (JObj kvs))"
| "content_chars (JList parts) = parts_chars parts"
| "content_chars _ = Inr 0"
| "parts_chars [] = Inr 0"
| "parts_chars (part # rest) =
     py_bind
       (case part of
          JStr s \<Rightarrow> Inr (length s)
        | JObj kvs \<Rightarrow>
            (case jget kvs ''text'' of
               JStr t \<Rightarrow> Inr (length t)
             | _ \<Rightarrow>
                 if jget kvs ''type'' = JStr ''tool_use''
                 then Inr (str_chars (jget kvs ''name'') + json_chars (jget kvs ''input''))
                 else if jget kvs ''type'' = JStr ''tool_result''
                 then content_chars (jget kvs ''content'')
                 else py_bind (in_type_set (jget kvs ''type'') non_text_part_types) (\<lambda>skip.
                        Inr (if skip then 0 else json_chars part)))
        | _ \<Rightarrow> Inr 0)
       (\<lambda>n. py_bind (parts_chars rest) (\<lambda>m. Inr (n + m)))"
  by pat_completeness auto

termination
  by (relation "measure (case_sum size (size_list size))") (auto simp: less_Suc_eq_le intro: le_trans[OF size_jget])

definition estimate_tokens_from_chars :: "nat \<Rightarrow> int" where
  "estimate_tokens_from_chars n = max 1 (int n div 4)"

text \<open>\<^verbatim>\<open>for x in v\<close>: a list yields its items, an object its keys, a string its characters; a
  number cannot be iterated.\<close>

fun py_iter :: "json \<Rightarrow> json list py" where
  "py_iter (JList xs) = Inr xs"
| "py_iter (JObj kvs) = Inr (map (\<lambda>kv. JStr (fst kv)) kvs)"
| "py_iter (JStr s) = Inr (map (\<lambda>c. JStr [c]) s)"
| "py_iter _ = Inl TypeError"

definition system_chars :: "json \<Rightarrow> nat" where
  "system_chars v =
     (case v of
        JStr s \<Rightarrow> length s
      | JList parts \<Rightarrow> sum_list (map (\<lambda>p. case p of
            JObj kvs \<Rightarrow> length (py_str (od_get_or (JStr []) kvs ''text''))
          | JStr s \<Rightarrow> length s
          | _ \<Rightarrow> 0) parts)
      | _ \<Rightarrow> 0)"

definition call_chars :: "payload \<Rightarrow> nat" where
  "call_chars fn = str_chars (jget fn ''name'') + json_chars (jget fn ''arguments'')"

definition tool_call_chars :: "json \<Rightarrow> nat" where
  "tool_call_chars v =
     (case v of
        JList calls \<Rightarrow> sum_list (map (\<lambda>c. case c of
            JObj kvs \<Rightarrow> (case jget kvs ''function'' of JObj fn \<Rightarrow> call_chars fn | _ \<Rightarrow> call_chars [])
          | _ \<Rightarrow> 0) calls)
      | _ \<Rightarrow> 0)"

definition message_chars :: "json \<Rightarrow> nat py" where
  "message_chars msg =
     (case msg of
        JStr s \<Rightarrow> Inr (length s)
      | JObj kvs \<Rightarrow>
          py_bind (content_chars (jget kvs ''content'')) (\<lambda>n.
            Inr (n + tool_call_chars (jget kvs ''tool_calls'')
                   + (case jget kvs ''function_call'' of JObj fn \<Rightarrow> call_chars fn | _ \<Rightarrow> 0)))
      | _ \<Rightarrow> Inr 0)"

fun messages_chars :: "json list \<Rightarrow> nat py" where
  "messages_chars [] = Inr 0"
| "messages_chars (m # ms) = py_bind (message_chars m) (\<lambda>n. py_bind (messages_chars ms) (\<lambda>k. Inr (n + k)))"

definition estimate_input_tokens :: "payload \<Rightarrow> int py" where
  "estimate_input_tokens p =
     (let tools = jget p ''tools'';
          head = system_chars (jget p ''system'') + (if truthy tools then json_chars tools else 0);
          messages = jget p ''messages''
      in py_bind (if truthy messages then py_iter messages else Inr []) (\<lambda>ms.
         py_bind (messages_chars ms) (\<lambda>n. Inr (estimate_tokens_from_chars (head + n)))))"

subsection \<open>The context-fit predicate\<close>

record context_fit_res =
  fits :: bool
  est_in :: int
  est_out :: int
  fit_limit :: int

definition context_fit :: "payload \<Rightarrow> string \<Rightarrow> int \<Rightarrow> context_fit_res py" where
  "context_fit p payload_type ctx_limit =
     (if payload_type \<noteq> ''chat_completion'' \<or> ctx_limit \<le> 0
      then Inr \<lparr>fits = True, est_in = 0, est_out = 0, fit_limit = ctx_limit\<rparr>
      else
        let out = (case as_int (jget p ''max_tokens'') of Some n \<Rightarrow> (if n > 0 then n else 0) | None \<Rightarrow> 0) in
        py_bind (estimate_input_tokens p) (\<lambda>ein.
          Inr \<lparr>fits = (ein + out \<le> ctx_limit), est_in = ein, est_out = out, fit_limit = ctx_limit\<rparr>))"

definition overflow_detail :: "context_fit_res \<Rightarrow> string \<Rightarrow> string" where
  "overflow_detail r ep =
     ''(est '' @ show_int (est_in r) @ '' input tokens + max_tokens '' @ show_int (est_out r) @
     '') exceeds the available context size ('' @ show_int (fit_limit r) @ ''/slot on '' @ ep @ '')''"

subsection \<open>Lemmas: the averages\<close>

text \<open>An average over samples in an interval stays in it, and its variance is never negative, so
  the clamp under the square root never acts.\<close>

definition ewma_in :: "real \<Rightarrow> real \<Rightarrow> ewma \<Rightarrow> bool" where
  "ewma_in lo hi e = (0 \<le> ew_alpha e \<and> ew_alpha e \<le> 1 \<and> 0 \<le> ew_variance e \<and>
     (ew_samples e > 0 \<longrightarrow> lo \<le> ew_value e \<and> ew_value e \<le> hi))"

lemma convex_step:
  fixes lo :: real
  assumes "0 \<le> a" "a \<le> 1" "lo \<le> v" "v \<le> hi" "lo \<le> x" "x \<le> hi"
  shows "lo \<le> v + a * (x - v) \<and> v + a * (x - v) \<le> hi"
proof -
  have eq: "v + a * (x - v) = (1 - a) * v + a * x" by algebra
  have "(1 - a) * lo + a * lo \<le> (1 - a) * v + a * x"
    using assms by (intro add_mono mult_left_mono) auto
  moreover have "(1 - a) * v + a * x \<le> (1 - a) * hi + a * hi"
    using assms by (intro add_mono mult_left_mono) auto
  ultimately show ?thesis unfolding eq by (simp add: algebra_simps)
qed

lemma ewma_update_in:
  assumes "ewma_in lo hi e" "lo \<le> x" "x \<le> hi" shows "ewma_in lo hi (ewma_update x e)"
proof (cases "ew_samples e = 0")
  case False
  have "0 \<le> (1 - ew_alpha e) * (ew_variance e + ew_alpha e * ((x - ew_value e) * (x - ew_value e)))"
    using assms
    by (intro mult_nonneg_nonneg[OF _ add_nonneg_nonneg[OF _ mult_nonneg_nonneg[OF _ zero_le_square]]])
      (auto simp: ewma_in_def)
  then show ?thesis
    using assms False convex_step[of "ew_alpha e" lo "ew_value e" hi x]
    by (auto simp: ewma_in_def ewma_update_def Let_def mult.assoc)
qed (use assms in \<open>auto simp: ewma_in_def ewma_update_def\<close>)

lemma ewma_update_samples [simp]: "ew_samples (ewma_update x e) = Suc (ew_samples e)"
  by (simp add: ewma_update_def Let_def)

interpretation averages: event_system "\<lambda>e x. ewma_update x e" "ewma_in lo hi" "\<lambda>x. lo \<le> x \<and> x \<le> hi"
  for lo hi by unfold_locales (auto intro: ewma_update_in)

text \<open>The one-sided version the calibration needs: positive samples, positive average.\<close>

definition ewma_pos :: "ewma \<Rightarrow> bool" where
  "ewma_pos e = (0 \<le> ew_alpha e \<and> ew_alpha e < 1 \<and> (ew_samples e > 0 \<longrightarrow> 0 < ew_value e))"

lemma ewma_update_pos:
  assumes "ewma_pos e" "0 < x" shows "ewma_pos (ewma_update x e) \<and> 0 < ew_value (ewma_update x e)"
proof (cases "ew_samples e = 0")
  case False
  have "0 < (1 - ew_alpha e) * ew_value e + ew_alpha e * x"
    using assms False by (intro add_pos_nonneg mult_pos_pos mult_nonneg_nonneg) (auto simp: ewma_pos_def)
  then have "0 < ew_value e + ew_alpha e * (x - ew_value e)" by (simp add: algebra_simps)
  then show ?thesis using assms False by (auto simp: ewma_pos_def ewma_update_def Let_def)
qed (use assms in \<open>auto simp: ewma_pos_def ewma_update_def\<close>)

lemma new_ewma_pos [simp]: "0 \<le> a \<Longrightarrow> a < 1 \<Longrightarrow> ewma_pos (new_ewma a)"
  by (simp add: ewma_pos_def new_ewma_def)

subsection \<open>Lemmas: the calibrated rates stay positive\<close>

definition model_ok :: "endpoint_cost_model \<Rightarrow> bool" where
  "model_ok m = (0 < prefill_k m \<and> (\<forall>t \<in> set (decode_tps m). 0 < t) \<and> ewma_pos (prefill_ewma m) \<and>
     (\<forall>(occ, e) \<in> set (decode_tps_ewma m). ewma_pos e))"

lemma decode_ewma_get:
  "model_ok m \<Longrightarrow> ewma_pos (od_get_or (new_ewma (1 / 10)) (decode_tps_ewma m) occ)"
  by (auto simp: model_ok_def od_get_or_def split: option.split dest!: od_get_Some_in)

lemma learn_decode_ok:
  assumes "model_ok m" "0 < x" shows "model_ok (learn_decode x occ m)"
proof -
  let ?t = "ewma_update x (od_get_or (new_ewma (1 / 10)) (decode_tps_ewma m) occ)"
  have t: "ewma_pos ?t" "0 < ew_value ?t"
    using ewma_update_pos[OF decode_ewma_get[OF assms(1)] assms(2)] by auto
  have "\<forall>(o', e) \<in> set (od_put occ ?t (decode_tps_ewma m)). ewma_pos e"
    using assms(1) t(1) set_od_put[of occ ?t "decode_tps_ewma m"] by (auto simp: model_ok_def)
  moreover have "\<forall>y \<in> set ((decode_tps m)[nat (occ - 1) := ew_value ?t]). 0 < y"
    using assms(1) t(2) set_update_subset_insert[of "decode_tps m" "nat (occ - 1)" "ew_value ?t"]
    by (auto simp: model_ok_def)
  ultimately show ?thesis using assms(1) by (simp add: learn_decode_def model_ok_def Let_def)
qed

lemma learn_prefill_ok: "model_ok m \<Longrightarrow> model_ok (learn_prefill k m)"
  using ewma_update_pos[of "prefill_ewma m" k] by (simp add: learn_prefill_def model_ok_def Let_def)

lemma learn_output_ok: "model_ok m \<Longrightarrow> model_ok (learn_output cs n m)"
  by (simp add: learn_output_def model_ok_def)

lemma update_from_completion_ok [step_keeps]:
  assumes "model_ok m" shows "model_ok (update_from_completion cs i out d occ m)"
proof -
  have "out > 0 \<Longrightarrow> 0 < (of_int out :: real) / max (1 / 100) (d - prefill_k m * of_int i)"
    by (intro divide_pos_pos) auto
  then have "out > 0 \<Longrightarrow> model_ok (learn_decode (of_int out / max (1 / 100) (d - prefill_k m * of_int i)) o' (learn_output cs out m))" for o'
    using assms by (intro learn_decode_ok learn_output_ok) auto
  moreover have "prefill_k (learn_output cs out m) = prefill_k m" by (simp add: learn_output_def)
  ultimately show ?thesis
    using assms learn_output_ok[OF assms]
    by (simp add: update_from_completion_def Let_def learn_prefill_ok)
qed

lemma resize_curve_ok [step_keeps]:
  assumes "model_ok m" shows "model_ok (resize_curve n m)"
proof -
  have "decode_tps m \<noteq> [] \<Longrightarrow> 0 < last (decode_tps m)" using assms by (auto simp: model_ok_def)
  then show ?thesis
    using assms by (auto simp: model_ok_def resize_curve_def Let_def dest: in_set_takeD)
qed

lemma default_curve_pos: "\<forall>t \<in> set (default_decode_curve n). 0 < t"
  by (auto simp: default_decode_curve_def Let_def)

lemma default_curve_ne [simp]: "default_decode_curve n \<noteq> []"
  by (simp add: default_decode_curve_def Let_def)

lemma new_cost_model_ok: "0 < k \<Longrightarrow> model_ok (new_cost_model ep n k)"
  using default_curve_pos by (simp add: model_ok_def new_cost_model_def)

datatype cost_op = Completed string int int real int | Resized int

fun cost_step :: "endpoint_cost_model \<Rightarrow> cost_op \<Rightarrow> endpoint_cost_model" where
  "cost_step m (Completed cs i out d occ) = update_from_completion cs i out d occ m"
| "cost_step m (Resized n) = resize_curve n m"

interpretation calibration: event_system cost_step model_ok "\<lambda>_. True"
proof unfold_locales
  fix m e assume "model_ok m" then show "model_ok (cost_step m e)" by (cases e) (auto intro: step_keeps)
qed

subsection \<open>Lemmas: the estimate\<close>

text \<open>The decode rate the estimate divides by, whatever the occupancy.\<close>

definition rate_used :: "endpoint_cost_model \<Rightarrow> int \<Rightarrow> real" where
  "rate_used m occ =
     (if decode_tps m = [] \<or> em_max_slots m \<le> 0 then 40
      else tps_at (decode_tps m) (min (max 1 (occ + 1)) (em_max_slots m)) (last (decode_tps m)))"

lemma rate_used_pos: "model_ok m \<Longrightarrow> 0 < rate_used m occ"
  by (auto simp: rate_used_def tps_at_def model_ok_def intro!: nth_mem)

text \<open>The clipped output length, on a number.\<close>

definition clipped :: "real \<Rightarrow> ewma option \<Rightarrow> real" where
  "clipped x e = (case e of
      Some t \<Rightarrow> (if ew_samples t \<ge> 5 then max 1 (min x (of_int (py_int (ewma_p95 t)))) else x)
    | None \<Rightarrow> x)"

lemma clipped_mono: "x \<le> y \<Longrightarrow> clipped x e \<le> clipped y e"
  by (auto simp: clipped_def split: option.split)

lemma clipped_le: "1 \<le> x \<Longrightarrow> clipped x e \<le> x"
  by (auto simp: clipped_def split: option.split)

lemma clipped_ge: "1 \<le> x \<Longrightarrow> 1 \<le> clipped x e"
  by (auto simp: clipped_def split: option.split)

lemma estimate_cost_ss_number:
  assumes "model_ok m" "as_number v = Some x" "double_ok v"
  shows "estimate_cost_ss m i v cs occ =
    Inr (prefill_k m * of_int i + clipped x (od_get (output_length_ewma m) cs) / rate_used m occ)"
  using assms rate_used_pos[OF assms(1), of occ]
  by (auto simp: estimate_cost_ss_def clip_output_def clipped_def num_div_def rate_used_def Let_def
      split: option.split)

lemma estimate_cost_ss_returns:
  assumes "model_ok m" "as_number v = Some x" "estimate_cost_ss m i v cs occ = Inr c"
  shows "c = prefill_k m * of_int i + clipped x (od_get (output_length_ewma m) cs) / rate_used m occ"
  using assms rate_used_pos[OF assms(1), of occ]
  by (auto simp: estimate_cost_ss_def clip_output_def clipped_def num_div_def rate_used_def Let_def
      split: option.splits if_splits)

lemma estimate_tokens_mono: "n \<le> k \<Longrightarrow> estimate_tokens_from_chars n \<le> estimate_tokens_from_chars k"
  unfolding estimate_tokens_from_chars_def by (intro max.mono zdiv_mono1) auto

lemma estimate_input_tokens_pos: "estimate_input_tokens p = Inr n \<Longrightarrow> 1 \<le> n"
  by (auto simp: estimate_input_tokens_def Let_def py_bind_Inr estimate_tokens_from_chars_def)

lemma context_fit_number:
  "estimate_input_tokens p = Inr n \<Longrightarrow>
     context_fit p ''chat_completion'' k =
       Inr (if k \<le> 0 then \<lparr>fits = True, est_in = 0, est_out = 0, fit_limit = k\<rparr>
            else let out = (case as_int (jget p ''max_tokens'') of Some n \<Rightarrow> (if n > 0 then n else 0) | None \<Rightarrow> 0)
                 in \<lparr>fits = (n + out \<le> k), est_in = n, est_out = out, fit_limit = k\<rparr>)"
  by (simp add: context_fit_def Let_def)

subsection \<open>Properties\<close>

text \<open>Calibration cannot break the cost model. From a freshly registered endpoint with a
  positive prefill constant, after any sequence of completions (whatever their token counts,
  durations and occupancies) and capacity changes (to zero and back included), every decode rate
  and the prefill constant are positive; so an estimate for any numeric \<^verbatim>\<open>max_tokens\<close> a double can hold returns, is
  the prefill time plus the clipped output length divided by a positive decode rate, never the
  30-second fallback, and never an index error.\<close>

lemma estimate_after_any_calibration:
  assumes "0 < k" "as_number v = Some x" "double_ok v"
    and m_def: "m = foldl cost_step (new_cost_model ep n k) es"
  shows "0 < prefill_k m \<and> (\<forall>t \<in> set (decode_tps m). 0 < t) \<and> 0 < rate_used m occ \<and>
    estimate_cost_ss m i v cs occ =
      Inr (prefill_k m * of_int i + clipped x (od_get (output_length_ewma m) cs) / rate_used m occ)"
proof -
  have "model_ok m"
    unfolding m_def using new_cost_model_ok[OF assms(1)] by (rule calibration.run_ok) (simp add: list_all_iff)
  then show ?thesis
    using rate_used_pos estimate_cost_ss_number[OF _ assms(2,3)] by (auto simp: model_ok_def)
qed

lemma estimate_after_any_calibration_witness:
  "0 < prefill_k (foldl cost_step (new_cost_model ''chat'' 2 (4 / 10000))
      [Completed ''s'' 200 50 3 1, Resized 0, Completed ''s'' 200 50 3 1, Resized 4])"
  by (rule conjunct1[OF estimate_after_any_calibration[of _ "JInt 256" 256, OF _ _ _ refl]]) simp_all

text \<open>The estimate orders requests correctly. On every endpoint whose rates are positive, a
  request with at least as many input tokens and at least as large a \<^verbatim>\<open>max_tokens\<close> is never
  estimated cheaper, and learning a call site's output lengths only ever lowers the estimate below
  the declared upper bound.\<close>

lemma estimate_monotone:
  assumes "model_ok m" "i \<le> i'" "as_number v = Some x" "as_number v' = Some x'" "x \<le> x'"
    "estimate_cost_ss m i v cs occ = Inr c" "estimate_cost_ss m i' v' cs occ = Inr c'"
  shows "c \<le> c' \<and> (1 \<le> x \<longrightarrow> c \<le> prefill_k m * of_int i + x / rate_used m occ)"
proof -
  have pos: "0 < rate_used m occ" "0 < prefill_k m"
    using rate_used_pos assms(1) by (auto simp: model_ok_def)
  let ?e = "od_get (output_length_ewma m) cs"
  have "prefill_k m * of_int i + clipped x ?e / rate_used m occ
      \<le> prefill_k m * of_int i' + clipped x' ?e / rate_used m occ"
    using assms(2,5) pos clipped_mono[OF assms(5), of ?e]
    by (intro add_mono mult_left_mono divide_right_mono) auto
  moreover have "1 \<le> x \<Longrightarrow> clipped x ?e / rate_used m occ \<le> x / rate_used m occ"
    using pos clipped_le[of x ?e] by (intro divide_right_mono) auto
  ultimately show ?thesis
    using estimate_cost_ss_returns[OF assms(1,3,6)] estimate_cost_ss_returns[OF assms(1,4,7)] by simp
qed

lemma estimate_monotone_witness:
  "(4 / 10000) * 100 + (256 :: real) / 40 \<le> (4 / 10000) * 200 + 512 / 40"
proof -
  let ?m = "new_cost_model ''chat'' 2 (4 / 10000)"
  have ok: "model_ok ?m" by (rule new_cost_model_ok) simp
  have r: "rate_used ?m 0 = 40"
    by (simp add: rate_used_def tps_at_def new_cost_model_def default_decode_curve_def upt_rec)
  have e: "estimate_cost_ss ?m i (JInt n) ''s'' 0 = Inr ((4 / 10000) * of_int i + of_int n / 40)"
    if "double_ok (JInt n)" for i n
    using estimate_cost_ss_number[OF ok _ that, of "of_int n" i "''s''" 0] r
    by (simp add: clipped_def new_cost_model_def)
  have "double_ok (JInt 256)" "double_ok (JInt 512)" by simp_all
  from estimate_monotone[OF ok _ _ _ _ e[OF this(1)] e[OF this(2)], of 100 200 256 512]
  show ?thesis by simp
qed

text \<open>The context gate is sound in the direction it may refuse. It answers "does not fit" only
  for a chat completion against a known ceiling that the estimate plus the requested output
  exceeds, an unknown (zero) ceiling admits, and raising the ceiling never turns an admitted
  request into a refused one.\<close>

lemma context_fit_sound:
  assumes "context_fit p ty k = Inr r"
  shows "(\<not> fits r \<longrightarrow> ty = ''chat_completion'' \<and> 0 < k \<and> k < est_in r + est_out r \<and> 1 \<le> est_in r
             \<and> estimate_input_tokens p = Inr (est_in r)) \<and>
         (k \<le> 0 \<longrightarrow> fits r) \<and> fit_limit r = k \<and>
         (fits r \<and> 0 < k \<and> k \<le> k' \<longrightarrow> (\<exists>r'. context_fit p ty k' = Inr r' \<and> fits r'))"
  using assms estimate_input_tokens_pos[of p]
  by (auto simp: context_fit_def Let_def py_bind_Inr split: if_splits)

lemma context_fit_sound_witness:
  "\<exists>r. context_fit [(''messages'', JList [JStr ''0123456789012345'']), (''max_tokens'', JInt 10)]
         ''chat_completion'' 13 = Inr r \<and> \<not> fits r \<and> 13 < est_in r + est_out r"
proof -
  let ?p = "[(''messages'', JList [JStr ''0123456789012345'']), (''max_tokens'', JInt 10)]"
  let ?r = "\<lparr>fits = False, est_in = 4, est_out = 10, fit_limit = 13\<rparr>"
  have r: "context_fit ?p ''chat_completion'' 13 = Inr ?r"
    by (simp add: context_fit_def estimate_input_tokens_def message_chars_def system_chars_def
        estimate_tokens_from_chars_def)
  show ?thesis using context_fit_sound[OF r, of 13] r by auto
qed

text \<open>Two payloads on which the estimator raises although it is documented never to: a
  \<^verbatim>\<open>messages\<close> field that is a number, and a content part whose \<^verbatim>\<open>type\<close> is a list.\<close>

lemma estimator_can_raise:
  "estimate_input_tokens [(''messages'', JInt 5)] = Inl TypeError \<and>
   estimate_input_tokens [(''messages'', JList [JObj [(''content'', JList [JObj [(''type'', JList [])]])]])]
     = Inl TypeError"
  by (simp add: estimate_input_tokens_def message_chars_def in_type_set_def Let_def)

end
