(* ===== verification/Requests.thy ===== *)
theory Requests
  imports Cost_Model
begin

section \<open>Requests and what the scheduler says about them (scheduler.py)\<close>

text \<open>
  \<^verbatim>\<open>QueuedRequest\<close> with every field of the dataclass and its constructor \<^verbatim>\<open>create\<close>,
  \<^verbatim>\<open>ActiveRequest\<close>, \<^verbatim>\<open>DispatchDecision\<close>, \<^verbatim>\<open>CompletionRecord\<close> and \<^verbatim>\<open>Admission\<close>. The fresh
  identifier that \<^verbatim>\<open>uuid4\<close> supplies and the catalog's alias table are arguments of the
  constructor.
\<close>

record queued_request =
  request_id :: string
  agent_id :: string
  rq_endpoint :: string
  rq_priority :: llm_priority
  rq_band :: priority_band
  call_site :: string
  payload_type :: string
  rq_payload :: payload
  timeout_deadline :: real
  enqueued_at :: real
  estimated_cost_ss :: real
  est_input_tokens :: int
  session_id :: "string option"
  turn_id :: "string option"
  caller_id :: "string option"
  declared_agent_id :: string
  asserted_by_key_id :: string
  timeout_s :: real
  rq_stream :: bool
  ctx_per_slot_at_admission :: int
  json_object_stripped :: bool
  forced_tool_schema :: "payload option"
  forced_tool_name :: string
  deadline_is_default :: bool
  degraded_from :: "string option"
  spilled_from :: "string option"
  requested :: string
  routed_to :: string
  allow_degrade :: "bool option"
  allow_spill :: "bool option"
  no_store_outcome :: string

definition rq_no_store :: "queued_request \<Rightarrow> bool" where
  "rq_no_store r = (no_store_outcome r = ''honoured'')"

text \<open>The keyword arguments of \<^verbatim>\<open>create\<close>.\<close>

record create_args =
  ca_agent_id :: string
  ca_endpoint :: string
  ca_priority :: prio_value
  ca_call_site :: string
  ca_payload_type :: string
  ca_payload :: payload
  ca_timeout_s :: real
  ca_session_id :: "string option"
  ca_turn_id :: "string option"
  ca_caller_id :: "string option"
  ca_request_id :: "string option"
  ca_deadline_is_default :: bool
  ca_declared_agent_id :: string
  ca_asserted_by_key_id :: string
  ca_requested :: string
  ca_allow_degrade :: "bool option"
  ca_allow_spill :: "bool option"
  ca_no_store_outcome :: string

definition create :: "(string, string) odict \<Rightarrow> string \<Rightarrow> real \<Rightarrow> create_args \<Rightarrow> queued_request py" where
  "create role_to_class fresh_id ts x =
     py_bind (coerce (ca_priority x) (Some P1_TURN_SUPPORT)) (\<lambda>pri.
       let ep = normalize_endpoint role_to_class (ca_endpoint x) in
       Inr \<lparr>request_id = (case ca_request_id x of Some i \<Rightarrow> (if i \<noteq> [] then i else fresh_id) | None \<Rightarrow> fresh_id),
            agent_id = ca_agent_id x, rq_endpoint = ep, rq_priority = pri,
            rq_band = priority_to_band pri, call_site = ca_call_site x,
            payload_type = ca_payload_type x, rq_payload = ca_payload x,
            timeout_deadline = ts + ca_timeout_s x, enqueued_at = ts, estimated_cost_ss = 0,
            est_input_tokens = 0, session_id = ca_session_id x, turn_id = ca_turn_id x,
            caller_id = ca_caller_id x, declared_agent_id = ca_declared_agent_id x,
            asserted_by_key_id = ca_asserted_by_key_id x, timeout_s = ca_timeout_s x,
            rq_stream = truthy (jget (ca_payload x) ''stream''), ctx_per_slot_at_admission = 0,
            json_object_stripped = False, forced_tool_schema = None, forced_tool_name = [],
            deadline_is_default = ca_deadline_is_default x, degraded_from = None,
            spilled_from = None,
            requested = (if ca_requested x \<noteq> [] then ca_requested x else ca_endpoint x),
            routed_to = ep, allow_degrade = ca_allow_degrade x, allow_spill = ca_allow_spill x,
            no_store_outcome = ca_no_store_outcome x\<rparr>)"

definition fits_context :: "queued_request \<Rightarrow> int \<Rightarrow> bool py" where
  "fits_context r ctx_limit = py_bind (context_fit (rq_payload r) (payload_type r) ctx_limit) (\<lambda>f. Inr (fits f))"

datatype admission = DISPATCH | SPILL | DEFER

record active_request =
  ar_request :: queued_request
  dispatched_at :: real
  estimated_remaining_s :: real

record dispatch_decision =
  dd_request :: queued_request
  queue_wait_ms :: real
  occupancy_at_dispatch :: int

record completion_record =
  cr_request_id :: string
  cr_duration_s :: real
  cr_input_tokens :: int
  cr_output_tokens :: int
  cr_success :: bool
  cr_occupancy_during :: int

subsection \<open>Lemmas\<close>

text \<open>With a default the parser of priorities answers for every value a caller can send.\<close>

lemma coerce_text_default: "\<exists>p. coerce_text s (Some d) = Inr p"
  by (simp add: coerce_text_def Let_def split: option.split)

lemma coerce_default: "\<exists>p. coerce v (Some d) = Inr p"
  using coerce_text_default by (simp add: coerce_def split: prio_value.split json.split)

text \<open>A malformed priority never fails a request. For every JSON value a caller may send as
  its priority, including labels, numbers out of range and structures, construction succeeds with
  the band that belongs to the priority it settled on, the deadline the caller's timeout gives,
  and the normalised endpoint recorded as the one routed to.\<close>

lemma create_never_fails:
  "\<exists>r. create al fresh ts x = Inr r \<and> rq_band r = priority_to_band (rq_priority r) \<and>
       timeout_deadline r = ts + ca_timeout_s x \<and> rq_endpoint r = normalize_endpoint al (ca_endpoint x) \<and>
       routed_to r = rq_endpoint r \<and> spilled_from r = None \<and> degraded_from r = None \<and>
       coerce (ca_priority x) (Some P1_TURN_SUPPORT) = Inr (rq_priority r)"
proof -
  obtain q where "coerce (ca_priority x) (Some P1_TURN_SUPPORT) = Inr q"
    using coerce_default by blast
  then show ?thesis by (simp add: create_def Let_def)
qed

text \<open>A request of the small fleet the witnesses use.\<close>

definition demo_request :: "string \<Rightarrow> queued_request" where
  "demo_request rid =
     \<lparr>request_id = rid, agent_id = ''a'', rq_endpoint = ''chat'', rq_priority = P1_TURN_SUPPORT,
      rq_band = INTERACTIVE, call_site = ''s'', payload_type = ''chat_completion'', rq_payload = [],
      timeout_deadline = 100, enqueued_at = 0, estimated_cost_ss = 0, est_input_tokens = 0,
      session_id = None, turn_id = None, caller_id = None, declared_agent_id = '''', asserted_by_key_id = '''',
      timeout_s = 100, rq_stream = False, ctx_per_slot_at_admission = 0, json_object_stripped = False,
      forced_tool_schema = None, forced_tool_name = '''', deadline_is_default = False, degraded_from = None,
      spilled_from = None, requested = ''chat'', routed_to = ''chat'', allow_degrade = None, allow_spill = None,
      no_store_outcome = ''''\<rparr>"

end
