(* ===== verification/Endpoint_Queue.thy ===== *)
theory Endpoint_Queue
  imports Requests
begin

section \<open>The per-endpoint queue (scheduler.py, EndpointQueue)\<close>

text \<open>
  Per band and per agent a first-in-first-out queue, and per band the round-robin order of the
  agents with work. The contract the scheduler relies on is the locale \<open>agent_queue\<close>: what a
  queue holds for an agent after each operation, that the order of an agent's requests is their
  order of arrival, and that the agents listed for a band are exactly those with work in it. The
  model of the class is its interpretation. The second half is about the whole contents as a
  multiset: nothing is lost or duplicated by any operation.
\<close>

subsection \<open>The contract\<close>

locale agent_queue =
  fixes ok :: "'q \<Rightarrow> bool"
    and content :: "'q \<Rightarrow> priority_band \<Rightarrow> string \<Rightarrow> 'r list"
    and enq :: "'r \<Rightarrow> 'q \<Rightarrow> 'q"
    and deq :: "priority_band \<Rightarrow> string \<Rightarrow> 'q \<Rightarrow> 'q \<times> 'r option"
    and peek :: "priority_band \<Rightarrow> string \<Rightarrow> 'q \<Rightarrow> 'r option"
    and agents_of :: "priority_band \<Rightarrow> 'q \<Rightarrow> string list"
    and band_of :: "'r \<Rightarrow> priority_band"
    and agent_of :: "'r \<Rightarrow> string"
  assumes enq_ok: "ok q \<Longrightarrow> ok (enq r q)"
    and deq_ok: "ok q \<Longrightarrow> ok (fst (deq b a q))"
    and content_enq: "ok q \<Longrightarrow> content (enq r q) b a =
          content q b a @ (if b = band_of r \<and> a = agent_of r then [r] else [])"
    and deq_result: "ok q \<Longrightarrow> snd (deq b a q) = (case content q b a of [] \<Rightarrow> None | r # _ \<Rightarrow> Some r)"
    and content_deq: "ok q \<Longrightarrow> content (fst (deq b a q)) b' a' =
          (if b' = b \<and> a' = a then tl (content q b a) else content q b' a')"
    and peek_result: "ok q \<Longrightarrow> peek b a q = (case content q b a of [] \<Rightarrow> None | r # _ \<Rightarrow> Some r)"
    and agents_with_work: "ok q \<Longrightarrow> set (agents_of b q) = {a. content q b a \<noteq> []} \<and> distinct (agents_of b q)"
begin

lemma peek_is_deq: "ok q \<Longrightarrow> snd (deq b a q) = peek b a q"
  by (simp add: deq_result peek_result)

lemma peek_listed: "ok q \<Longrightarrow> a \<in> set (agents_of b q) \<Longrightarrow> \<exists>r. peek b a q = Some r"
  using agents_with_work[of q b] by (auto simp: peek_result split: list.split)

text \<open>Dequeuing one agent again and again returns its requests in order of arrival.\<close>

fun drain :: "nat \<Rightarrow> priority_band \<Rightarrow> string \<Rightarrow> 'q \<Rightarrow> 'r list" where
  "drain 0 b a q = []"
| "drain (Suc n) b a q = (case deq b a q of (q', None) \<Rightarrow> [] | (q', Some r) \<Rightarrow> r # drain n b a q')"

lemma drain_content: "ok q \<Longrightarrow> drain n b a q = take n (content q b a)"
proof (induction n arbitrary: q)
  case (Suc n)
  obtain q' res where d: "deq b a q = (q', res)" by (cases "deq b a q")
  then have "ok q'" "res = (case content q b a of [] \<Rightarrow> None | r # _ \<Rightarrow> Some r)"
    "content q' b a = tl (content q b a)"
    using deq_ok[OF Suc.prems, of b a] deq_result[OF Suc.prems, of b a]
      content_deq[OF Suc.prems, of b a b a] by simp_all
  with Suc.IH[of q'] d show ?case by (cases "content q b a") simp_all
qed simp

lemma content_fold_enq:
  "ok q \<Longrightarrow> content (fold enq rs q) b a = content q b a @ filter (\<lambda>r. band_of r = b \<and> agent_of r = a) rs"
  by (induction rs arbitrary: q) (auto simp: content_enq enq_ok)

lemma fold_enq_ok: "ok q \<Longrightarrow> ok (fold enq rs q)"
  by (induction rs arbitrary: q) (auto intro: enq_ok)

text \<open>First in, first out, per agent: what arrived comes back in the order it arrived.\<close>

lemma fifo:
  "ok q \<Longrightarrow> content q b a = [] \<Longrightarrow>
     drain n b a (fold enq rs q) = take n (filter (\<lambda>r. band_of r = b \<and> agent_of r = a) rs)"
  by (simp add: drain_content fold_enq_ok content_fold_enq)

end

subsection \<open>The queue\<close>

record endpoint_queue =
  eq_queues :: "priority_band \<Rightarrow> (string, queued_request list) odict"
  eq_robin :: "priority_band \<Rightarrow> string list"

definition new_queue :: endpoint_queue where
  "new_queue = \<lparr>eq_queues = (\<lambda>_. []), eq_robin = (\<lambda>_. [])\<rparr>"

definition put_agent :: "priority_band \<Rightarrow> string \<Rightarrow> queued_request list \<Rightarrow> endpoint_queue \<Rightarrow> endpoint_queue" where
  "put_agent b a rs q = q\<lparr>eq_queues := (eq_queues q)(b := od_put a rs (eq_queues q b))\<rparr>"

text \<open>\<^verbatim>\<open>del band_q[agent_id]\<close> and \<^verbatim>\<open>robin.remove(agent_id)\<close>, a missing entry ignored.\<close>

definition drop_agent :: "priority_band \<Rightarrow> string \<Rightarrow> endpoint_queue \<Rightarrow> endpoint_queue" where
  "drop_agent b a q =
     q\<lparr>eq_queues := (eq_queues q)(b := od_del a (eq_queues q b)),
       eq_robin := (eq_robin q)(b := remove1 a (eq_robin q b))\<rparr>"

text \<open>What is left of an agent's queue is stored back, or the agent is dropped when it is empty.\<close>

definition set_agent :: "priority_band \<Rightarrow> string \<Rightarrow> queued_request list \<Rightarrow> endpoint_queue \<Rightarrow> endpoint_queue" where
  "set_agent b a rs q = (if rs = [] then drop_agent b a q else put_agent b a rs q)"

definition eq_enqueue :: "queued_request \<Rightarrow> endpoint_queue \<Rightarrow> endpoint_queue" where
  "eq_enqueue r q =
     (let b = rq_band r; a = agent_id r;
          q1 = (if a \<in> fst ` set (eq_queues q b) then q
                else (put_agent b a [] q)\<lparr>eq_robin := (eq_robin q)(b := eq_robin q b @ [a])\<rparr>)
      in put_agent b a (od_get_or [] (eq_queues q1 b) a @ [r]) q1)"

definition eq_dequeue :: "priority_band \<Rightarrow> string \<Rightarrow> endpoint_queue \<Rightarrow> endpoint_queue \<times> queued_request option" where
  "eq_dequeue b a q =
     (case od_get (eq_queues q b) a of
        None \<Rightarrow> (q, None)
      | Some [] \<Rightarrow> (q, None)
      | Some (r # rs) \<Rightarrow> (set_agent b a rs q, Some r))"

definition eq_peek :: "priority_band \<Rightarrow> string \<Rightarrow> endpoint_queue \<Rightarrow> queued_request option" where
  "eq_peek b a q =
     (case od_get (eq_queues q b) a of
        None \<Rightarrow> None
      | Some [] \<Rightarrow> None
      | Some (r # rs) \<Rightarrow> Some r)"

definition agents_in_band :: "priority_band \<Rightarrow> endpoint_queue \<Rightarrow> string list" where
  "agents_in_band b q = eq_robin q b"

definition band_depth :: "priority_band \<Rightarrow> endpoint_queue \<Rightarrow> nat" where
  "band_depth b q = sum_list (map length (od_vals (eq_queues q b)))"

definition agent_depth :: "priority_band \<Rightarrow> string \<Rightarrow> endpoint_queue \<Rightarrow> nat" where
  "agent_depth b a q = (case od_get (eq_queues q b) a of None \<Rightarrow> 0 | Some rs \<Rightarrow> length rs)"

definition total_depth :: "endpoint_queue \<Rightarrow> nat" where
  "total_depth q = sum_list (map (\<lambda>b. band_depth b q) all_bands)"

definition rotate_robin :: "priority_band \<Rightarrow> endpoint_queue \<Rightarrow> endpoint_queue" where
  "rotate_robin b q = q\<lparr>eq_robin := (eq_robin q)(b := rotate1 (eq_robin q b))\<rparr>"

definition expire_agent ::
  "real \<Rightarrow> priority_band \<Rightarrow> string \<Rightarrow> endpoint_queue \<times> queued_request list \<Rightarrow> endpoint_queue \<times> queued_request list" where
  "expire_agent deadline b a acc =
     (let (q, expired) = acc;
          rs = od_get_or [] (eq_queues q b) a
      in (set_agent b a (dropWhile (\<lambda>r. timeout_deadline r \<le> deadline) rs) q,
          expired @ takeWhile (\<lambda>r. timeout_deadline r \<le> deadline) rs))"

definition expire_band ::
  "real \<Rightarrow> priority_band \<Rightarrow> endpoint_queue \<times> queued_request list \<Rightarrow> endpoint_queue \<times> queued_request list" where
  "expire_band deadline b acc = fold (expire_agent deadline b) (od_keys (eq_queues (fst acc) b)) acc"

definition expire_before :: "real \<Rightarrow> endpoint_queue \<Rightarrow> endpoint_queue \<times> queued_request list" where
  "expire_before deadline q = fold (expire_band deadline) all_bands (q, [])"

text \<open>The inner loops of \<^verbatim>\<open>Scheduler.cancel\<close> over one queue: the first request with the
  identifier, in band, agent and arrival order, is removed.\<close>

fun remove_first :: "('a \<Rightarrow> bool) \<Rightarrow> 'a list \<Rightarrow> 'a list" where
  "remove_first P [] = []"
| "remove_first P (x # xs) = (if P x then xs else x # remove_first P xs)"

definition queue_slots :: "endpoint_queue \<Rightarrow> (priority_band \<times> string) list" where
  "queue_slots q = concat (map (\<lambda>b. map (\<lambda>a. (b, a)) (od_keys (eq_queues q b))) all_bands)"

definition slot_reqs :: "endpoint_queue \<Rightarrow> priority_band \<Rightarrow> string \<Rightarrow> queued_request list" where
  "slot_reqs q b a = od_get_or [] (eq_queues q b) a"

definition cancel_in_queue :: "string \<Rightarrow> endpoint_queue \<Rightarrow> endpoint_queue \<times> bool" where
  "cancel_in_queue rid q =
     (case List.find (\<lambda>(b, a). \<exists>r \<in> set (slot_reqs q b a). request_id r = rid) (queue_slots q) of
        None \<Rightarrow> (q, False)
      | Some (b, a) \<Rightarrow> (set_agent b a (remove_first (\<lambda>r. request_id r = rid) (slot_reqs q b a)) q, True))"

text \<open>The part of \<^verbatim>\<open>Scheduler.queued_requests\<close> that walks one queue.\<close>

definition bands_requests :: "priority_band list \<Rightarrow> endpoint_queue \<Rightarrow> queued_request list" where
  "bands_requests bands q = concat (map (\<lambda>b. concat (od_vals (eq_queues q b))) bands)"

subsection \<open>The invariant\<close>

definition entry_ok :: "priority_band \<Rightarrow> string \<times> queued_request list \<Rightarrow> bool" where
  "entry_ok b p = (snd p \<noteq> [] \<and> (\<forall>r \<in> set (snd p). rq_band r = b \<and> agent_id r = fst p))"

definition band_ok :: "priority_band \<Rightarrow> (string, queued_request list) odict \<Rightarrow> string list \<Rightarrow> bool" where
  "band_ok b d robin =
     (od_ok d \<and> distinct robin \<and> set robin = fst ` set d \<and> (\<forall>p \<in> set d. entry_ok b p))"

definition queue_ok :: "endpoint_queue \<Rightarrow> bool" where
  "queue_ok q = (\<forall>b. band_ok b (eq_queues q b) (eq_robin q b))"

lemma new_queue_ok [simp]: "queue_ok new_queue"
  by (simp add: queue_ok_def band_ok_def new_queue_def)

lemma band_okD: "queue_ok q \<Longrightarrow> band_ok b (eq_queues q b) (eq_robin q b)"
  by (simp add: queue_ok_def)

lemma queue_ok_od: "queue_ok q \<Longrightarrow> od_ok (eq_queues q b)"
  by (simp add: queue_ok_def band_ok_def)

lemma queue_okI:
  assumes "queue_ok q" "band_ok b d rb"
  shows "queue_ok (q\<lparr>eq_queues := (eq_queues q)(b := d), eq_robin := (eq_robin q)(b := rb)\<rparr>)"
  using assms by (simp add: queue_ok_def)

lemma queue_okI2:
  assumes "queue_ok q" "band_ok b d (eq_robin q b)"
  shows "queue_ok (q\<lparr>eq_queues := (eq_queues q)(b := d)\<rparr>)"
  using assms by (simp add: queue_ok_def)

lemma put_agent_ok:
  assumes "queue_ok q" "a \<in> fst ` set (eq_queues q b)" "rs \<noteq> []"
    "\<forall>r \<in> set rs. rq_band r = b \<and> agent_id r = a"
  shows "queue_ok (put_agent b a rs q)"
proof -
  have "entry_ok b (a, rs)" using assms by (simp add: entry_ok_def)
  then have "\<forall>p \<in> set (od_put a rs (eq_queues q b)). entry_ok b p"
    using band_okD[OF assms(1), of b] set_od_put[of a rs "eq_queues q b"] unfolding band_ok_def by blast
  then have "band_ok b (od_put a rs (eq_queues q b)) (eq_robin q b)"
    using assms(2) band_okD[OF assms(1), of b] by (simp add: band_ok_def insert_absorb)
  then show ?thesis unfolding put_agent_def by (rule queue_okI2[OF assms(1)])
qed

lemma drop_agent_ok: "queue_ok q \<Longrightarrow> queue_ok (drop_agent b a q)"
  unfolding drop_agent_def
  using band_okD[of q b] set_od_del[of a "eq_queues q b"]
  by (intro queue_okI) (auto simp: band_ok_def)

lemma slot_entry:
  "queue_ok q \<Longrightarrow> od_get (eq_queues q b) a = Some rs \<Longrightarrow> entry_ok b (a, rs)"
  using band_okD[of q b] od_get_Some_in[of "eq_queues q b" a rs] by (auto simp: band_ok_def)

lemma slot_ok:
  assumes "queue_ok q" "r \<in> set (slot_reqs q b a)" shows "rq_band r = b \<and> agent_id r = a"
  using assms(2) slot_entry[OF assms(1), of b a]
  by (cases "od_get (eq_queues q b) a") (auto simp: slot_reqs_def od_get_or_def entry_ok_def)

lemma slot_nonempty_iff: "queue_ok q \<Longrightarrow> slot_reqs q b a \<noteq> [] \<longleftrightarrow> a \<in> fst ` set (eq_queues q b)"
  using slot_entry[of q b a] od_get_None_iff[of "eq_queues q b" a]
  by (cases "od_get (eq_queues q b) a") (auto simp: slot_reqs_def od_get_or_def entry_ok_def)

lemma set_agent_ok:
  assumes "queue_ok q" "set rs \<subseteq> set (slot_reqs q b a)" shows "queue_ok (set_agent b a rs q)"
proof (cases "rs = []")
  case False
  then have "slot_reqs q b a \<noteq> []" using assms(2) by auto
  then show ?thesis
    using False assms slot_ok[OF assms(1)] slot_nonempty_iff[OF assms(1)]
    by (auto simp: set_agent_def intro!: put_agent_ok)
qed (simp add: set_agent_def drop_agent_ok assms)

lemma slot_set_agent:
  "slot_reqs (set_agent b a rs q) b' a' = (if b' = b \<and> a' = a then rs else slot_reqs q b' a')"
  by (auto simp: slot_reqs_def set_agent_def put_agent_def drop_agent_def od_get_or_def)

lemma eq_enqueue_ok:
  assumes "queue_ok q" shows "queue_ok (eq_enqueue r q)"
proof (cases "agent_id r \<in> fst ` set (eq_queues q (rq_band r))")
  case True
  have "\<forall>x \<in> set (od_get_or [] (eq_queues q (rq_band r)) (agent_id r) @ [r]).
      rq_band x = rq_band r \<and> agent_id x = agent_id r"
    by (auto dest!: slot_ok[OF assms, unfolded slot_reqs_def])
  from put_agent_ok[OF assms True _ this] True show ?thesis
    by (simp add: eq_enqueue_def Let_def)
next
  case False
  let ?b = "rq_band r" and ?a = "agent_id r"
  have "band_ok ?b (od_put ?a [r] (eq_queues q ?b)) (eq_robin q ?b @ [?a])"
    using False band_okD[OF assms, of ?b] by (auto simp: band_ok_def keys_put_new entry_ok_def)
  then show ?thesis
    using False assms by (simp add: queue_ok_def eq_enqueue_def put_agent_def Let_def od_put_put)
qed

lemma slot_enqueue:
  "slot_reqs (eq_enqueue r q) b a =
     slot_reqs q b a @ (if b = rq_band r \<and> a = agent_id r then [r] else [])"
  using od_get_None_iff[of "eq_queues q (rq_band r)" "agent_id r"]
  by (auto simp: slot_reqs_def eq_enqueue_def put_agent_def Let_def od_get_or_def split: option.split)

lemma dequeue_slot:
  "eq_dequeue b a q =
     (case slot_reqs q b a of [] \<Rightarrow> (q, None) | r # rs \<Rightarrow> (set_agent b a rs q, Some r))"
  by (auto simp: eq_dequeue_def slot_reqs_def od_get_or_def split: option.split list.split)

lemma peek_slot: "eq_peek b a q = (case slot_reqs q b a of [] \<Rightarrow> None | r # _ \<Rightarrow> Some r)"
  by (auto simp: eq_peek_def slot_reqs_def od_get_or_def split: option.split list.split)

lemma eq_dequeue_ok: "queue_ok q \<Longrightarrow> queue_ok (fst (eq_dequeue b a q))"
  by (auto simp: dequeue_slot intro!: set_agent_ok split: list.split)

lemma rotate_robin_ok: "queue_ok q \<Longrightarrow> queue_ok (rotate_robin b q)"
  by (auto simp: queue_ok_def band_ok_def rotate_robin_def)

interpretation fifo: agent_queue queue_ok slot_reqs eq_enqueue eq_dequeue eq_peek agents_in_band rq_band agent_id
proof unfold_locales
  fix q :: endpoint_queue and b a assume ok: "queue_ok q"
  show "set (agents_in_band b q) = {a. slot_reqs q b a \<noteq> []} \<and> distinct (agents_in_band b q)"
    using band_okD[OF ok, of b] slot_nonempty_iff[OF ok, of b]
    by (auto simp: agents_in_band_def band_ok_def)
  show "snd (eq_dequeue b a q) = (case slot_reqs q b a of [] \<Rightarrow> None | r # _ \<Rightarrow> Some r)"
    by (simp add: dequeue_slot split: list.split)
  fix b' a'
  show "slot_reqs (fst (eq_dequeue b a q)) b' a' =
      (if b' = b \<and> a' = a then tl (slot_reqs q b a) else slot_reqs q b' a')"
    by (cases "slot_reqs q b a") (simp_all add: dequeue_slot slot_set_agent)
qed (simp_all add: eq_enqueue_ok eq_dequeue_ok slot_enqueue peek_slot)

subsection \<open>The contents as a multiset\<close>

definition queue_reqs :: "endpoint_queue \<Rightarrow> queued_request multiset" where
  "queue_reqs q = (\<Sum>b\<leftarrow>all_bands. \<Sum>p\<leftarrow>eq_queues q b. mset (snd p))"

lemma queue_reqs_upd:
  "eq_queues q' = (eq_queues q)(b := d) \<Longrightarrow>
     queue_reqs q' + (\<Sum>p\<leftarrow>eq_queues q b. mset (snd p)) = queue_reqs q + (\<Sum>p\<leftarrow>d. mset (snd p))"
  by (cases b) (simp_all add: queue_reqs_def all_bands_def ac_simps)

lemma exchange:
  fixes a :: "'x multiset"
  assumes "a + s = q + d" "d + m = s + r" shows "a + m = q + r"
proof -
  have "(a + m) + s = (a + s) + m" by (simp add: ac_simps)
  also have "\<dots> = q + (d + m)" by (simp only: assms(1) ac_simps)
  also have "\<dots> = (q + r) + s" by (simp only: assms(2) ac_simps)
  finally show ?thesis by simp
qed

lemma queue_reqs_robin [simp]: "queue_reqs (q\<lparr>eq_robin := rb\<rparr>) = queue_reqs q"
  by (simp add: queue_reqs_def)

lemma queue_reqs_put:
  assumes "od_ok (eq_queues q b)"
  shows "queue_reqs (put_agent b a rs q) + mset (slot_reqs q b a) = queue_reqs q + mset rs"
proof -
  let ?d = "eq_queues q b" and ?S = "\<lambda>d. \<Sum>p\<leftarrow>d. mset (snd p)"
  have "?S (od_put a rs ?d) + mset (slot_reqs q b a) = ?S ?d + mset rs"
  proof (cases "od_get ?d a")
    case None
    then show ?thesis
      using sum_list_od_put_new[of a ?d "\<lambda>p. mset (snd p)" rs] od_get_None_iff[of ?d a]
      by (simp add: slot_reqs_def od_get_or_def)
  next
    case (Some v)
    then show ?thesis
      using sum_list_od_put_old[OF assms Some, of "\<lambda>p. mset (snd p)" rs]
      by (simp add: slot_reqs_def od_get_or_def)
  qed
  then show ?thesis
    by (rule exchange[OF queue_reqs_upd[of "put_agent b a rs q" q b "od_put a rs ?d"], rotated])
      (simp add: put_agent_def)
qed

lemma queue_reqs_drop:
  assumes "od_ok (eq_queues q b)"
  shows "queue_reqs (drop_agent b a q) + mset (slot_reqs q b a) = queue_reqs q"
proof -
  let ?d = "eq_queues q b" and ?S = "\<lambda>d. \<Sum>p\<leftarrow>d. mset (snd p)"
  have "?S (od_del a ?d) + mset (slot_reqs q b a) = ?S ?d + {#}"
  proof (cases "od_get ?d a")
    case None
    then show ?thesis
      using od_get_None_iff[of ?d a] by (simp add: slot_reqs_def od_get_or_def od_del_notin)
  next
    case (Some v)
    then show ?thesis
      using sum_list_od_del[OF assms Some, of "\<lambda>p. mset (snd p)"]
      by (simp add: slot_reqs_def od_get_or_def)
  qed
  then have "queue_reqs (drop_agent b a q) + mset (slot_reqs q b a) = queue_reqs q + {#}"
    by (rule exchange[OF queue_reqs_upd[of "drop_agent b a q" q b "od_del a ?d"], rotated])
      (simp add: drop_agent_def)
  then show ?thesis by simp
qed

lemma queue_reqs_set:
  "od_ok (eq_queues q b) \<Longrightarrow>
     queue_reqs (set_agent b a rs q) + mset (slot_reqs q b a) = queue_reqs q + mset rs"
  by (simp add: set_agent_def queue_reqs_put queue_reqs_drop)

lemma queue_reqs_new [simp]: "queue_reqs new_queue = {#}"
  by (simp add: queue_reqs_def new_queue_def all_bands_def)

lemma queue_reqs_rotate [simp]: "queue_reqs (rotate_robin b q) = queue_reqs q"
  by (simp add: rotate_robin_def)

lemma queue_reqs_enqueue [queue_simps]:
  assumes "queue_ok q" shows "queue_reqs (eq_enqueue r q) = add_mset r (queue_reqs q)"
proof -
  let ?b = "rq_band r" and ?a = "agent_id r"
  let ?q1 = "if ?a \<in> fst ` set (eq_queues q ?b) then q
       else (put_agent ?b ?a [] q)\<lparr>eq_robin := (eq_robin q)(?b := eq_robin q ?b @ [?a])\<rparr>"
  have e: "slot_reqs q ?b ?a = [] \<or> ?a \<in> fst ` set (eq_queues q ?b)"
    using slot_nonempty_iff[OF assms] by blast
  then have q1: "queue_reqs ?q1 = queue_reqs q"
    using queue_reqs_put[OF queue_ok_od[OF assms], of ?b ?a "[]"] by auto
  have ok1: "od_ok (eq_queues ?q1 ?b)" using queue_ok_od[OF assms] by (simp add: put_agent_def)
  from queue_reqs_put[OF this, of ?a "od_get_or [] (eq_queues ?q1 ?b) ?a @ [r]"]
  have "queue_reqs (eq_enqueue r q) = queue_reqs ?q1 + {#r#}"
    by (simp add: eq_enqueue_def Let_def slot_reqs_def)
  then show ?thesis using q1 by simp
qed

lemma queue_reqs_dequeue [queue_simps]:
  assumes "queue_ok q" "eq_peek b a q = Some r"
  shows "add_mset r (queue_reqs (fst (eq_dequeue b a q))) = queue_reqs q"
proof -
  obtain rs where s: "slot_reqs q b a = r # rs" using assms(2) by (auto simp: peek_slot split: list.splits)
  then show ?thesis
    using queue_reqs_set[OF queue_ok_od[OF assms(1)], of b a rs] by (simp add: dequeue_slot)
qed

lemma slot_in_reqs: "queue_ok q \<Longrightarrow> r \<in> set (slot_reqs q b a) \<Longrightarrow> r \<in># queue_reqs q"
  using queue_reqs_set[OF queue_ok_od, of q b a "[]"] by (metis UnI2 add.right_neutral mset.simps(1) set_mset_mset set_mset_union)

lemma reqs_in_slot:
  assumes "queue_ok q" "r \<in># queue_reqs q" shows "r \<in> set (slot_reqs q (rq_band r) (agent_id r))"
proof -
  obtain b p where p: "p \<in> set (eq_queues q b)" "r \<in> set (snd p)"
    using assms(2) by (auto simp: queue_reqs_def set_mset_sum_list)
  then have "entry_ok b p" using band_okD[OF assms(1), of b] by (auto simp: band_ok_def)
  then have "rq_band r = b" "agent_id r = fst p" using p by (auto simp: entry_ok_def)
  moreover have "od_get (eq_queues q b) (fst p) = Some (snd p)"
    using p(1) queue_ok_od[OF assms(1), of b] by (simp add: od_get_in)
  ultimately show ?thesis using p(2) by (simp add: slot_reqs_def od_get_or_def)
qed

lemma band_depth_zero_iff: "queue_ok q \<Longrightarrow> band_depth b q = 0 \<longleftrightarrow> agents_in_band b q = []"
  using band_okD[of q b]
  by (cases "eq_queues q b") (auto simp: band_depth_def agents_in_band_def band_ok_def entry_ok_def)

subsection \<open>Expiry\<close>

abbreviation past :: "real \<Rightarrow> queued_request \<Rightarrow> bool" where
  "past deadline r \<equiv> timeout_deadline r \<le> deadline"

definition expiry_inv :: "real \<Rightarrow> endpoint_queue \<Rightarrow> endpoint_queue \<times> queued_request list \<Rightarrow> bool" where
  "expiry_inv deadline q0 acc =
     (queue_ok (fst acc) \<and> queue_reqs (fst acc) + mset (snd acc) = queue_reqs q0 \<and>
      (\<forall>r \<in> set (snd acc). past deadline r))"

lemma expire_agent_inv:
  assumes "expiry_inv t q0 acc" shows "expiry_inv t q0 (expire_agent t b a acc)"
proof -
  obtain q ex where acc: "acc = (q, ex)" by (cases acc)
  let ?rs = "slot_reqs q b a"
  have ok: "queue_ok q" and sum: "queue_reqs q + mset ex = queue_reqs q0"
    using assms by (auto simp: expiry_inv_def acc)
  have split: "mset ?rs = mset (takeWhile (past t) ?rs) + mset (dropWhile (past t) ?rs)"
    by (metis mset_append takeWhile_dropWhile_id)
  have "queue_reqs (set_agent b a (dropWhile (past t) ?rs) q) + mset ?rs
      = queue_reqs q + mset (dropWhile (past t) ?rs)"
    by (rule queue_reqs_set[OF queue_ok_od[OF ok]])
  then have "queue_reqs (set_agent b a (dropWhile (past t) ?rs) q) + mset (takeWhile (past t) ?rs) = queue_reqs q"
    unfolding split by (simp add: add.assoc[symmetric])
  then have "queue_reqs (set_agent b a (dropWhile (past t) ?rs) q) + mset (ex @ takeWhile (past t) ?rs) = queue_reqs q0"
    using sum by (simp add: ac_simps)
  moreover have "queue_ok (set_agent b a (dropWhile (past t) ?rs) q)"
    by (rule set_agent_ok[OF ok]) (auto dest: set_dropWhileD)
  ultimately show ?thesis
    using assms by (auto simp: expire_agent_def acc expiry_inv_def slot_reqs_def Let_def dest: set_takeWhileD)
qed

lemma expire_agent_slot:
  "slot_reqs (fst (expire_agent t b a acc)) b' a' =
     (if b' = b \<and> a' = a then dropWhile (past t) (slot_reqs (fst acc) b a) else slot_reqs (fst acc) b' a')"
  by (cases acc) (simp add: expire_agent_def slot_set_agent Let_def slot_reqs_def[symmetric])

lemma expire_agents_inv: "expiry_inv t q0 acc \<Longrightarrow> expiry_inv t q0 (fold (expire_agent t b) as acc)"
  by (induction as arbitrary: acc) (simp_all add: expire_agent_inv)

lemma expire_agents_slot:
  "slot_reqs (fst (fold (expire_agent t b) as acc)) b' a' =
     (if b' = b \<and> a' \<in> set as then dropWhile (past t) (slot_reqs (fst acc) b' a') else slot_reqs (fst acc) b' a')"
  by (induction as arbitrary: acc) (auto simp: expire_agent_slot)

lemma expire_band_slot:
  "slot_reqs (fst (expire_band t b acc)) b' a' =
     (if b' = b then dropWhile (past t) (slot_reqs (fst acc) b' a') else slot_reqs (fst acc) b' a')"
proof -
  have "a' \<notin> fst ` set (eq_queues (fst acc) b) \<Longrightarrow> slot_reqs (fst acc) b a' = []"
    by (simp add: slot_reqs_def od_get_or_def od_get_None_iff[symmetric])
  then show ?thesis by (auto simp: expire_band_def expire_agents_slot)
qed

lemma expire_before_slot:
  "slot_reqs (fst (expire_before t q)) b a = dropWhile (past t) (slot_reqs q b a)"
  by (cases b) (simp_all add: expire_before_def all_bands_def expire_band_slot)

lemma expire_before_inv: "queue_ok q \<Longrightarrow> expiry_inv t q (expire_before t q)"
  unfolding expire_before_def all_bands_def
  by (simp add: expire_band_def expire_agents_inv expiry_inv_def[of _ _ "(q, [])"])

lemmas expire_before_facts = expire_before_inv[unfolded expiry_inv_def]

subsection \<open>Cancellation\<close>

lemma remove_first_split:
  "\<exists>x \<in> set xs. P x \<Longrightarrow> \<exists>x. P x \<and> mset xs = add_mset x (mset (remove_first P xs))"
  by (induction xs) auto

lemma set_remove_first: "set (remove_first P xs) \<subseteq> set xs"
  by (induction P xs rule: remove_first.induct) auto

lemma cancel_in_queue_facts:
  assumes "queue_ok q"
  shows "queue_ok (fst (cancel_in_queue rid q)) \<and>
    (if snd (cancel_in_queue rid q)
     then \<exists>r. request_id r = rid \<and> queue_reqs q = add_mset r (queue_reqs (fst (cancel_in_queue rid q)))
     else fst (cancel_in_queue rid q) = q \<and> (\<forall>r \<in># queue_reqs q. request_id r \<noteq> rid))"
proof (cases "List.find (\<lambda>(b, a). \<exists>r \<in> set (slot_reqs q b a). request_id r = rid) (queue_slots q)")
  case None
  have "request_id r \<noteq> rid" if r: "r \<in># queue_reqs q" for r
  proof
    assume "request_id r = rid"
    moreover have s: "r \<in> set (slot_reqs q (rq_band r) (agent_id r))" by (rule reqs_in_slot[OF assms r])
    moreover have "(rq_band r, agent_id r) \<in> set (queue_slots q)"
      using slot_nonempty_iff[OF assms, of "rq_band r" "agent_id r"] s by (force simp: queue_slots_def)
    ultimately show False using None by (fastforce simp: find_None_iff)
  qed
  with None assms show ?thesis by (simp add: cancel_in_queue_def)
next
  case (Some ba)
  obtain b a where ba: "ba = (b, a)" by (cases ba)
  let ?P = "\<lambda>r. request_id r = rid"
  have "(case ba of (b, a) \<Rightarrow> \<exists>r \<in> set (slot_reqs q b a). request_id r = rid)"
    using Some unfolding find_Some_iff by metis
  then have "\<exists>r \<in> set (slot_reqs q b a). ?P r" by (simp add: ba)
  from remove_first_split[of "slot_reqs q b a" ?P, OF this]
  obtain r where r: "?P r" "mset (slot_reqs q b a) = add_mset r (mset (remove_first ?P (slot_reqs q b a)))"
    by blast
  let ?q' = "set_agent b a (remove_first ?P (slot_reqs q b a)) q"
  have "queue_ok ?q'" by (rule set_agent_ok[OF assms set_remove_first])
  moreover have "queue_reqs q = add_mset r (queue_reqs ?q')"
    using queue_reqs_set[OF queue_ok_od[OF assms], of b a "remove_first ?P (slot_reqs q b a)"]
    unfolding r(2) by simp
  moreover have "cancel_in_queue rid q = (?q', True)" by (simp add: cancel_in_queue_def Some ba)
  ultimately show ?thesis using r(1) by auto
qed

lemma queue_size: "size (queue_reqs q) = total_depth q"
proof -
  have "size (\<Sum>p\<leftarrow>d. mset (snd p)) = (\<Sum>p\<leftarrow>d. length (snd p))" for d :: "(string, queued_request list) odict"
    by (induction d) simp_all
  then show ?thesis
    by (simp add: queue_reqs_def total_depth_def band_depth_def all_bands_def comp_def)
qed

subsection \<open>Properties\<close>

text \<open>C36: first in, first out, per agent and band. Whatever mixture of requests of all agents and
  bands is enqueued, dequeuing one agent of one band again and again returns that agent's requests
  of that band, all of them, in the order they arrived.\<close>

lemma queue_fifo:
  "agent_queue.drain eq_dequeue (length rs) b a (fold eq_enqueue rs new_queue) =
     filter (\<lambda>r. rq_band r = b \<and> agent_id r = a) rs"
proof -
  have "slot_reqs new_queue b a = []" by (simp add: slot_reqs_def new_queue_def)
  from fifo.fifo[OF new_queue_ok this, of "length rs" rs] show ?thesis
    by (simp add: length_filter_le take_all)
qed

text \<open>Expiry loses nothing and returns only what is late. Expiring a well-formed queue splits
  its contents into what is returned, all of it past the deadline, and what stays; of every agent's
  queue exactly the leading late requests go, so no head that stays is late.\<close>

lemma expiry_partitions:
  assumes "queue_ok q"
  shows "queue_reqs (fst (expire_before t q)) + mset (snd (expire_before t q)) = queue_reqs q \<and>
    (\<forall>r \<in> set (snd (expire_before t q)). timeout_deadline r \<le> t) \<and>
    (\<forall>b a r. eq_peek b a (fst (expire_before t q)) = Some r \<longrightarrow> t < timeout_deadline r) \<and>
    queue_ok (fst (expire_before t q))"
proof -
  have "eq_peek b a (fst (expire_before t q)) = Some r \<Longrightarrow> t < timeout_deadline r" for b a r
    using hd_dropWhile[of "past t" "slot_reqs q b a"]
    by (cases "dropWhile (past t) (slot_reqs q b a)") (simp_all add: peek_slot expire_before_slot dropWhile_eq_Nil_conv not_le del: dropWhile_eq_Nil_conv)
  then show ?thesis using expire_before_facts[OF assms] by blast
qed

lemma expiry_partitions_witness:
  "snd (expire_before 150 (eq_enqueue ((demo_request ''r2'')\<lparr>timeout_deadline := 200\<rparr>) (eq_enqueue (demo_request ''r1'') new_queue)))
     = [demo_request ''r1''] \<and>
   queue_reqs (fst (expire_before 150 (eq_enqueue ((demo_request ''r2'')\<lparr>timeout_deadline := 200\<rparr>) (eq_enqueue (demo_request ''r1'') new_queue))))
     + {#demo_request ''r1''#} =
   queue_reqs (eq_enqueue ((demo_request ''r2'')\<lparr>timeout_deadline := 200\<rparr>) (eq_enqueue (demo_request ''r1'') new_queue))"
proof -
  let ?q = "eq_enqueue ((demo_request ''r2'')\<lparr>timeout_deadline := 200\<rparr>) (eq_enqueue (demo_request ''r1'') new_queue)"
  have one: "snd (expire_before 150 ?q) = [demo_request ''r1'']" by code_simp
  have ok: "queue_ok ?q" by (intro eq_enqueue_ok new_queue_ok)
  show ?thesis using expiry_partitions[OF ok, of 150] unfolding one by simp
qed

end
