(* ===== verification/Agent_Budget.thy ===== *)
theory Agent_Budget
  imports Config
begin

section \<open>Deficit-round-robin budgets (agent_budget.py)\<close>

text \<open>
  \<^verbatim>\<open>AgentBudget\<close> and \<^verbatim>\<open>BudgetManager\<close>: the balance of every caller in slot-seconds, its
  replenishment in proportion to its weight, the charge at dispatch with its retroactive
  correction, and \<^verbatim>\<open>pick_agent\<close>, the choice of whom to serve next. The lemmas show what
  one charge-and-correct cycle costs, that the replenishment rates always share out exactly
  the fleet's capacity, that a replenishment never leaves a balance above its cap, and the
  exact choice \<^verbatim>\<open>pick_agent\<close> makes.
\<close>

subsection \<open>State\<close>

record agent_budget =
  b_agent_id :: string
  b_weight :: real
  replenish_rate :: real
  max_balance :: real
  balance :: real
  total_consumed :: real
  total_requests :: int
  last_replenish_at :: real
  last_active_at :: real
  negative_since :: real

record budget_manager =
  bm_agents :: "(string, agent_budget) odict"
  starvation_timeout_s :: real
  total_capacity :: real
  last_waits :: "(string, real \<times> real) odict"

subsection \<open>One budget\<close>

definition budget_charge :: "real \<Rightarrow> real \<Rightarrow> agent_budget \<Rightarrow> agent_budget" where
  "budget_charge cost_ss now b =
     (let bal = balance b - cost_ss in
      b\<lparr>balance := bal,
        total_consumed := total_consumed b + cost_ss,
        total_requests := total_requests b + 1,
        last_active_at := now,
        negative_since := (if bal < 0 \<and> negative_since b = 0 then now else negative_since b)\<rparr>)"

definition budget_refund :: "real \<Rightarrow> agent_budget \<Rightarrow> agent_budget" where
  "budget_refund delta_ss b =
     (let bal = balance b + delta_ss in
      b\<lparr>balance := bal,
        total_consumed := total_consumed b - delta_ss,
        negative_since := (if bal \<ge> 0 then 0 else negative_since b)\<rparr>)"

definition is_starving :: "agent_budget \<Rightarrow> real \<Rightarrow> real \<Rightarrow> bool" where
  "is_starving b now timeout_s =
     (if negative_since b = 0 then False else now - negative_since b \<ge> timeout_s)"

subsection \<open>The manager\<close>

definition new_manager :: "real \<Rightarrow> budget_manager" where
  "new_manager timeout_s =
     \<lparr>bm_agents = [], starvation_timeout_s = timeout_s, total_capacity = 0, last_waits = []\<rparr>"

definition new_budget :: "string \<Rightarrow> real \<Rightarrow> real \<Rightarrow> real \<Rightarrow> agent_budget" where
  "new_budget aid w mb ts =
     \<lparr>b_agent_id = aid, b_weight = w, replenish_rate = 0, max_balance = mb, balance = 0,
      total_consumed = 0, total_requests = 0, last_replenish_at = ts, last_active_at = ts,
      negative_since = 0\<rparr>"

definition total_weight :: "(string, agent_budget) odict \<Rightarrow> real" where
  "total_weight bs = sum_list (map (\<lambda>(_, b). b_weight b) bs)"

definition recalculate_rates :: "budget_manager \<Rightarrow> budget_manager" where
  "recalculate_rates m =
     (if bm_agents m = [] \<or> total_capacity m \<le> 0 then m
      else let tw = total_weight (bm_agents m) in
        if tw \<le> 0 then m
        else m\<lparr>bm_agents := map (\<lambda>(k, b).
               (k, b\<lparr>replenish_rate := total_capacity m * (b_weight b / tw)\<rparr>)) (bm_agents m)\<rparr>)"

definition get_or_create :: "string \<Rightarrow> real \<Rightarrow> real \<Rightarrow> real \<Rightarrow> budget_manager \<Rightarrow> budget_manager" where
  "get_or_create aid w mb now m =
     (if aid \<in> fst ` set (bm_agents m) then m
      else recalculate_rates (m\<lparr>bm_agents := od_put aid (new_budget aid w mb now) (bm_agents m)\<rparr>))"

definition reweight :: "string \<Rightarrow> real option \<Rightarrow> real option \<Rightarrow> budget_manager \<Rightarrow> budget_manager \<times> bool" where
  "reweight aid w mb m =
     (case od_get (bm_agents m) aid of
        None \<Rightarrow> (m, False)
      | Some b \<Rightarrow>
          (let b1 = (case w of None \<Rightarrow> b | Some x \<Rightarrow> b\<lparr>b_weight := x\<rparr>);
               b2 = (case mb of None \<Rightarrow> b1 | Some x \<Rightarrow> b1\<lparr>max_balance := x\<rparr>)
           in (recalculate_rates (m\<lparr>bm_agents := od_put aid b2 (bm_agents m)\<rparr>), True)))"

definition remove_agent :: "string \<Rightarrow> budget_manager \<Rightarrow> budget_manager" where
  "remove_agent aid m = recalculate_rates (m\<lparr>bm_agents := od_del aid (bm_agents m)\<rparr>)"

definition idle_stale :: "real \<Rightarrow> real \<Rightarrow> agent_budget \<Rightarrow> bool" where
  "idle_stale now ttl b = (last_active_at b \<noteq> 0 \<and> now - last_active_at b > ttl)"

definition prune_idle :: "real \<Rightarrow> real \<Rightarrow> budget_manager \<Rightarrow> budget_manager \<times> string list" where
  "prune_idle now ttl m =
     (let stale = map fst (filter (\<lambda>(_, b). idle_stale now ttl b) (bm_agents m));
          m' = m\<lparr>bm_agents := fold od_del stale (bm_agents m)\<rparr>
      in (if stale = [] then m else recalculate_rates m', stale))"

definition set_total_capacity :: "real \<Rightarrow> budget_manager \<Rightarrow> budget_manager" where
  "set_total_capacity slots m = recalculate_rates (m\<lparr>total_capacity := slots\<rparr>)"

definition replenish_one :: "real \<Rightarrow> agent_budget \<Rightarrow> agent_budget" where
  "replenish_one now b =
     (let elapsed = now - last_replenish_at b in
      if elapsed \<le> 0 then b\<lparr>last_replenish_at := now\<rparr>
      else let bal = min (max_balance b) (balance b + replenish_rate b * elapsed) in
        b\<lparr>balance := bal, last_replenish_at := now,
          negative_since := (if bal \<ge> 0 then 0 else negative_since b)\<rparr>)"

definition replenish :: "real \<Rightarrow> budget_manager \<Rightarrow> budget_manager" where
  "replenish now m = m\<lparr>bm_agents := map (\<lambda>(k, b). (k, replenish_one now b)) (bm_agents m)\<rparr>"

definition charge :: "string \<Rightarrow> real \<Rightarrow> real \<Rightarrow> budget_manager \<Rightarrow> budget_manager" where
  "charge aid cost_ss now m =
     (case od_get (bm_agents m) aid of
        None \<Rightarrow> m
      | Some b \<Rightarrow> m\<lparr>bm_agents := od_put aid (budget_charge cost_ss now b) (bm_agents m)\<rparr>)"

definition retroactive_adjust :: "string \<Rightarrow> real \<Rightarrow> real \<Rightarrow> budget_manager \<Rightarrow> budget_manager" where
  "retroactive_adjust aid estimated actual m =
     (case od_get (bm_agents m) aid of
        None \<Rightarrow> m
      | Some b \<Rightarrow>
          (let delta = estimated - actual;
               b' = (if delta > 0 then budget_refund delta b
                     else if delta < 0
                     then b\<lparr>balance := balance b + delta, total_consumed := total_consumed b - delta\<rparr>
                     else b)
           in m\<lparr>bm_agents := od_put aid b' (bm_agents m)\<rparr>))"

subsection \<open>Whom to serve next\<close>

text \<open>\<^verbatim>\<open>max(xs, key=...)\<close> keeps the first of equal maxima.\<close>

fun max_first :: "('a \<Rightarrow> real) \<Rightarrow> 'a \<Rightarrow> 'a list \<Rightarrow> 'a" where
  "max_first f best [] = best"
| "max_first f best (x # xs) = max_first f (if f x > f best then x else best) xs"

definition score :: "agent_budget \<Rightarrow> real" where
  "score b = (if b_weight b > 0 then balance b / b_weight b else balance b)"

text \<open>The scan over the candidates; the best score starts at minus infinity, so \<open>None\<close>
  is the state in which any score wins.\<close>

fun best_scan :: "(string, agent_budget) odict \<Rightarrow> (string \<times> real) option \<Rightarrow> string list \<Rightarrow> string option" where
  "best_scan bs best [] = map_option fst best"
| "best_scan bs best (a # as) =
     (case od_get bs a of
        None \<Rightarrow> best_scan bs best as
      | Some b \<Rightarrow>
          best_scan bs (case best of None \<Rightarrow> Some (a, score b)
                        | Some (_, s) \<Rightarrow> if score b > s then Some (a, score b) else best) as)"

definition starving_candidates :: "real \<Rightarrow> (string, real) odict \<Rightarrow> string list \<Rightarrow> (real \<times> string) list" where
  "starving_candidates timeout_s waits candidates =
     map (\<lambda>a. (od_get_or 0 waits a, a)) (filter (\<lambda>a. od_get_or 0 waits a \<ge> timeout_s) candidates)"

definition note_waits :: "real \<Rightarrow> (string, real) odict \<Rightarrow> budget_manager \<Rightarrow> budget_manager" where
  "note_waits now waits m =
     m\<lparr>last_waits := fold (\<lambda>(a, w). od_put a (w, now)) waits (last_waits m)\<rparr>"

definition pick_agent :: "string list \<Rightarrow> real \<Rightarrow> (string, real) odict \<Rightarrow> budget_manager
    \<Rightarrow> budget_manager \<times> string option" where
  "pick_agent candidates now waits m =
     (if candidates = [] then (m, None)
      else if waits \<noteq> [] then
        (let m' = note_waits now waits m in
         case starving_candidates (starvation_timeout_s m) waits candidates of
           x # xs \<Rightarrow> (m', Some (snd (max_first fst x xs)))
         | [] \<Rightarrow> (m', best_scan (bm_agents m') None candidates))
      else (m, best_scan (bm_agents m) None candidates))"

record budget_row =
  row_agent_id :: string
  row_weight :: real
  row_balance_ss :: real
  row_replenish_rate_ss :: real
  row_total_consumed_ss :: real
  row_total_requests :: int
  row_starving :: bool

definition budget_snapshot :: "real \<Rightarrow> budget_manager \<Rightarrow> budget_row list" where
  "budget_snapshot now m = map (\<lambda>(_, b).
     \<lparr>row_agent_id = b_agent_id b, row_weight = b_weight b,
      row_balance_ss = py_round (balance b) 2,
      row_replenish_rate_ss = py_round (replenish_rate b) 3,
      row_total_consumed_ss = py_round (total_consumed b) 1,
      row_total_requests = total_requests b,
      row_starving = (case od_get (last_waits m) (b_agent_id b) of
          None \<Rightarrow> False
        | Some (w, seen_at) \<Rightarrow> now - seen_at \<le> 15 \<and> w \<ge> starvation_timeout_s m)\<rparr>) (bm_agents m)"

subsection \<open>Operations as events\<close>

datatype budget_op =
    BCreate string real real real
  | BReweight string "real option" "real option"
  | BRemove string
  | BPrune real real
  | BCapacity real
  | BReplenish real
  | BCharge string real real
  | BAdjust string real real
  | BPick "string list" real "(string, real) odict"

fun budget_step :: "budget_manager \<Rightarrow> budget_op \<Rightarrow> budget_manager" where
  "budget_step m (BCreate a w mb now) = get_or_create a w mb now m"
| "budget_step m (BReweight a w mb) = fst (reweight a w mb m)"
| "budget_step m (BRemove a) = remove_agent a m"
| "budget_step m (BPrune now ttl) = fst (prune_idle now ttl m)"
| "budget_step m (BCapacity c) = set_total_capacity c m"
| "budget_step m (BReplenish now) = replenish now m"
| "budget_step m (BCharge a c now) = charge a c now m"
| "budget_step m (BAdjust a e x) = retroactive_adjust a e x m"
| "budget_step m (BPick cs now ws) = fst (pick_agent cs now ws m)"

text \<open>Weights an operator may set are positive.\<close>

fun budget_op_ok :: "budget_op \<Rightarrow> bool" where
  "budget_op_ok (BCreate a w mb now) = (w > 0)"
| "budget_op_ok (BReweight a w mb) = (case w of None \<Rightarrow> True | Some x \<Rightarrow> x > 0)"
| "budget_op_ok _ = True"

definition weights_pos :: "(string, agent_budget) odict \<Rightarrow> bool" where
  "weights_pos bs = (\<forall>b \<in> set (od_vals bs). b_weight b > 0)"

definition rates_ok :: "budget_manager \<Rightarrow> bool" where
  "rates_ok m = (total_capacity m > 0 \<longrightarrow>
     (\<forall>b \<in> set (od_vals (bm_agents m)).
        replenish_rate b = total_capacity m * (b_weight b / total_weight (bm_agents m))))"

definition budgets_ok :: "budget_manager \<Rightarrow> bool" where
  "budgets_ok m = (od_ok (bm_agents m) \<and> weights_pos (bm_agents m) \<and> rates_ok m)"

subsection \<open>Lemmas: choosing\<close>

lemma max_first_ge: "x \<in> set (b # xs) \<Longrightarrow> f x \<le> f (max_first f b xs)"
proof (induction xs arbitrary: b x)
  case (Cons y ys)
  let ?b = "if f y > f b then y else b"
  have "f x \<le> f (max_first f ?b ys)"
  proof (cases "x \<in> set (?b # ys)")
    case False
    with Cons.prems have "f x \<le> f ?b" by auto
    also have "\<dots> \<le> f (max_first f ?b ys)" by (rule Cons.IH) simp
    finally show ?thesis .
  qed (rule Cons.IH)
  then show ?case by simp
qed simp

lemma max_first_in: "max_first f b xs \<in> set (b # xs)"
proof (induction xs arbitrary: b)
  case (Cons y ys)
  from Cons.IH[of "if f y > f b then y else b"] show ?case by (auto split: if_splits)
qed simp

lemma best_scan_Some_start:
  "best_scan bs (Some (x, s)) as = Some a \<Longrightarrow>
     (a = x \<and> (\<forall>a' \<in> set as. \<forall>b'. od_get bs a' = Some b' \<longrightarrow> score b' \<le> s)) \<or>
     (a \<in> set as \<and> (\<exists>b. od_get bs a = Some b \<and> s < score b \<and>
        (\<forall>a' \<in> set as. \<forall>b'. od_get bs a' = Some b' \<longrightarrow> score b' \<le> score b)))"
proof (induction as arbitrary: x s)
  case (Cons c cs)
  show ?case
  proof (cases "od_get bs c")
    case None
    with Cons show ?thesis by fastforce
  next
    case (Some bc)
    show ?thesis
    proof (cases "score bc > s")
      case True
      with Cons.prems Some have "best_scan bs (Some (c, score bc)) cs = Some a" by simp
      from Cons.IH[OF this] True Some show ?thesis by fastforce
    next
      case False
      with Cons.prems Some have "best_scan bs (Some (x, s)) cs = Some a" by simp
      from Cons.IH[OF this] False Some show ?thesis by fastforce
    qed
  qed
qed simp

lemma best_scan_start_defined: "\<exists>a. best_scan bs (Some xs) as = Some a"
  by (induction as arbitrary: xs) (auto split: option.split prod.split)

lemma best_scan_max:
  "best_scan bs None as = Some a \<Longrightarrow>
     a \<in> set as \<and> (\<exists>b. od_get bs a = Some b \<and>
        (\<forall>a' \<in> set as. \<forall>b'. od_get bs a' = Some b' \<longrightarrow> score b' \<le> score b))"
proof (induction as)
  case (Cons c cs)
  show ?case
  proof (cases "od_get bs c")
    case None
    with Cons show ?thesis by fastforce
  next
    case (Some bc)
    with Cons.prems have "best_scan bs (Some (c, score bc)) cs = Some a" by simp
    from best_scan_Some_start[OF this] Some show ?thesis by fastforce
  qed
qed simp

lemma best_scan_None_iff: "best_scan bs None as = None \<longleftrightarrow> (\<forall>a \<in> set as. od_get bs a = None)"
proof (induction as)
  case (Cons c cs)
  then show ?case
    using best_scan_start_defined[of bs _ cs] by (cases "od_get bs c") auto
qed simp

lemma pick_agent_frame [simp]:
  "bm_agents (fst (pick_agent cs now ws m)) = bm_agents m"
  "total_capacity (fst (pick_agent cs now ws m)) = total_capacity m"
  "starvation_timeout_s (fst (pick_agent cs now ws m)) = starvation_timeout_s m"
  by (auto simp: pick_agent_def note_waits_def Let_def split: list.split)

subsection \<open>Lemmas: rates\<close>

lemma total_weight_nonneg_pos: "weights_pos bs \<Longrightarrow> bs \<noteq> [] \<Longrightarrow> total_weight bs > 0"
proof (induction bs)
  case (Cons p ps)
  then show ?case
    by (cases "ps = []") (auto simp: total_weight_def weights_pos_def case_prod_unfold intro: add_pos_pos)
qed simp

lemma total_weight_map:
  "(\<And>b. b_weight (f b) = b_weight b) \<Longrightarrow>
     total_weight (map (\<lambda>(k, b). (k, f b)) bs) = total_weight bs"
  "(\<And>b. b_weight (f b) = b_weight b) \<Longrightarrow>
     total_weight (map (\<lambda>p. (fst p, f (snd p))) bs) = total_weight bs"
  by (induction bs) (auto simp: total_weight_def)

lemma recalculate_keys [simp]: "map fst (bm_agents (recalculate_rates m)) = map fst (bm_agents m)"
  by (simp add: recalculate_rates_def Let_def comp_def case_prod_unfold)

lemma recalculate_capacity [simp]: "total_capacity (recalculate_rates m) = total_capacity m"
  by (simp add: recalculate_rates_def Let_def)

lemma recalculate_get:
  "od_get (bm_agents (recalculate_rates m)) a =
     map_option (\<lambda>b. b\<lparr>replenish_rate :=
        replenish_rate (the (od_get (bm_agents (recalculate_rates m)) a))\<rparr>) (od_get (bm_agents m) a)"
  by (cases "od_get (bm_agents m) a") (auto simp: recalculate_rates_def Let_def map_of_map)

lemma recalculate_balance:
  "map_option balance (od_get (bm_agents (recalculate_rates m)) a) =
     map_option balance (od_get (bm_agents m) a)"
  by (subst recalculate_get) (cases "od_get (bm_agents m) a"; simp)

lemma weights_pos_recalculate [simp]:
  "weights_pos (bm_agents (recalculate_rates m)) = weights_pos (bm_agents m)"
  by (auto simp: recalculate_rates_def Let_def weights_pos_def)

lemma recalculate_rates_ok: "weights_pos (bm_agents m) \<Longrightarrow> rates_ok (recalculate_rates m)"
  using total_weight_nonneg_pos[of "bm_agents m"]
  by (auto simp: rates_ok_def recalculate_rates_def Let_def total_weight_map)

lemma recalculate_budgets_ok:
  "od_ok (bm_agents m) \<Longrightarrow> weights_pos (bm_agents m) \<Longrightarrow> budgets_ok (recalculate_rates m)"
  by (simp add: budgets_ok_def recalculate_rates_ok)

lemma weights_pos_put:
  "weights_pos bs \<Longrightarrow> b_weight b > 0 \<Longrightarrow> weights_pos (od_put k b bs)"
  using set_od_put[of k b bs] by (fastforce simp: weights_pos_def)

lemma weights_pos_subset: "weights_pos bs \<Longrightarrow> set bs' \<subseteq> set bs \<Longrightarrow> weights_pos bs'"
  by (auto simp: weights_pos_def)

lemma fold_od_del: "fold od_del ks d = filter (\<lambda>(k, _). k \<notin> set ks) d"
proof (induction ks arbitrary: d)
  case (Cons k ks)
  have "od_del k d = filter (\<lambda>(k', _). k' \<noteq> k) d" by (induction d) auto
  with Cons show ?case by (auto simp: case_prod_unfold intro: filter_cong)
qed simp

text \<open>An update of one budget that keeps weight and rate keeps the sharing.\<close>

lemma same_rates_ok:
  assumes "budgets_ok m" "od_get (bm_agents m) a = Some b"
    and "b_weight b' = b_weight b" "replenish_rate b' = replenish_rate b"
  shows "budgets_ok (m\<lparr>bm_agents := od_put a b' (bm_agents m)\<rparr>)"
proof -
  from assms(1) have ok: "od_ok (bm_agents m)" by (simp add: budgets_ok_def)
  then obtain xs ys where sp: "bm_agents m = xs @ (a, b) # ys" "a \<notin> fst ` set xs"
    using od_put_split[OF ok assms(2)] by blast
  then have put: "od_put a b' (bm_agents m) = xs @ (a, b') # ys" by (simp add: od_put_app)
  have tw: "total_weight (xs @ (a, b') # ys) = total_weight (xs @ (a, b) # ys)"
    using assms(3) by (simp add: total_weight_def)
  show ?thesis
    using assms(1,3,4) sp put by (auto simp: budgets_ok_def weights_pos_def rates_ok_def tw)
qed

lemma budget_step_ok [step_keeps]:
  assumes "budgets_ok m" "budget_op_ok e"
  shows "budgets_ok (budget_step m e)"
proof (cases e)
  case (BCreate a w mb now)
  with assms show ?thesis
    by (auto simp: get_or_create_def budgets_ok_def new_budget_def
        intro!: recalculate_rates_ok weights_pos_put)
next
  case (BReweight a w mb)
  have "od_get (bm_agents m) a = Some b \<Longrightarrow> b_weight b > 0" for b
    using assms(1) by (force simp: budgets_ok_def weights_pos_def dest: map_of_SomeD)
  with BReweight assms show ?thesis
    by (auto simp: reweight_def Let_def budgets_ok_def split: option.splits
        intro!: recalculate_rates_ok weights_pos_put)
next
  case (BRemove a)
  have "weights_pos (bm_agents m) \<Longrightarrow> weights_pos (od_del a (bm_agents m))"
    by (erule weights_pos_subset) (rule set_od_del)
  with BRemove assms show ?thesis
    by (auto simp: remove_agent_def budgets_ok_def intro!: recalculate_rates_ok)
next
  case (BPrune now ttl)
  have "distinct (map fst (filter P (bm_agents m)))" for P
    using assms(1) by (auto simp: budgets_ok_def intro: distinct_map_filter)
  moreover have "weights_pos (bm_agents m) \<Longrightarrow> weights_pos (filter P (bm_agents m))" for P
    by (erule weights_pos_subset) auto
  ultimately show ?thesis using BPrune assms
    by (auto simp: prune_idle_def Let_def fold_od_del budgets_ok_def
        intro!: recalculate_rates_ok)
next
  case (BCapacity c)
  with assms show ?thesis
    by (auto simp: set_total_capacity_def budgets_ok_def
        intro!: recalculate_rates_ok)
next
  case (BReplenish now)
  have "b_weight (replenish_one now b) = b_weight b" "replenish_rate (replenish_one now b) = replenish_rate b" for b
    by (simp_all add: replenish_one_def Let_def)
  with BReplenish assms show ?thesis
    by (auto simp: replenish_def budgets_ok_def weights_pos_def rates_ok_def total_weight_map
        comp_def case_prod_unfold)
next
  case (BCharge a c now)
  with assms show ?thesis
    by (auto simp: charge_def budget_charge_def Let_def split: option.splits intro!: same_rates_ok)
next
  case (BAdjust a est x)
  with assms show ?thesis
    by (auto simp: retroactive_adjust_def budget_refund_def Let_def split: option.splits
        intro!: same_rates_ok)
next
  case (BPick cs now ws)
  with assms show ?thesis by (simp add: budgets_ok_def rates_ok_def)
qed

interpretation budgets: event_system budget_step budgets_ok budget_op_ok
  by unfold_locales (rule budget_step_ok)

lemma sum_rates:
  assumes "budgets_ok m" "total_capacity m > 0" "bm_agents m \<noteq> []"
  shows "sum_list (map replenish_rate (od_vals (bm_agents m))) = total_capacity m"
proof -
  let ?bs = "bm_agents m" and ?tw = "total_weight (bm_agents m)"
  have tw: "?tw > 0" using assms by (auto simp: budgets_ok_def intro: total_weight_nonneg_pos)
  have "map replenish_rate (od_vals ?bs) =
      map (\<lambda>b. (total_capacity m / ?tw) * b_weight b) (od_vals ?bs)"
    using assms by (auto simp: budgets_ok_def rates_ok_def)
  then have "sum_list (map replenish_rate (od_vals ?bs)) =
      (total_capacity m / ?tw) * sum_list (map b_weight (od_vals ?bs))"
    by (simp only: sum_list_const_mult)
  also have "sum_list (map b_weight (od_vals ?bs)) = ?tw"
    by (simp add: total_weight_def comp_def case_prod_unfold)
  finally show ?thesis using tw by simp
qed

subsection \<open>Properties\<close>

text \<open>Starvation rescue. When at least one candidate's oldest queued request has waited
  past the starvation timeout, \<^verbatim>\<open>pick_agent\<close> serves a candidate that has itself waited past
  the timeout and that has waited at least as long as every other candidate, whatever the
  balances are; in particular it never serves a busy producer with a short wait instead.\<close>

theorem pick_agent_rescues:
  assumes "a \<in> set candidates" "od_get_or 0 waits a \<ge> starvation_timeout_s m" "waits \<noteq> []"
  shows "\<exists>w. snd (pick_agent candidates now waits m) = Some w \<and> w \<in> set candidates \<and>
           od_get_or 0 waits w \<ge> starvation_timeout_s m \<and>
           (\<forall>c \<in> set candidates. od_get_or 0 waits c \<le> od_get_or 0 waits w)"
proof -
  let ?st = "starving_candidates (starvation_timeout_s m) waits candidates"
  have mem: "(od_get_or 0 waits a, a) \<in> set ?st"
    using assms by (auto simp: starving_candidates_def)
  then obtain x xs where st: "?st = x # xs" by (cases ?st) auto
  define r where "r = max_first fst x xs"
  have r: "r \<in> set ?st" "\<And>y. y \<in> set ?st \<Longrightarrow> fst y \<le> fst r"
    using max_first_in[of fst x xs] max_first_ge[of _ x xs fst] by (auto simp: st r_def)
  have pick: "snd (pick_agent candidates now waits m) = Some (snd r)"
    using assms by (auto simp: pick_agent_def st r_def Let_def)
  have rw: "fst r = od_get_or 0 waits (snd r)" "snd r \<in> set candidates"
      "fst r \<ge> starvation_timeout_s m"
    using r(1) by (auto simp: starving_candidates_def)
  have "od_get_or 0 waits c \<le> fst r" if "c \<in> set candidates" for c
  proof (cases "od_get_or 0 waits c \<ge> starvation_timeout_s m")
    case True
    with that r(2)[of "(od_get_or 0 waits c, c)"] show ?thesis by (auto simp: starving_candidates_def)
  next
    case False
    with rw show ?thesis by simp
  qed
  with pick rw show ?thesis by auto
qed

text \<open>Two callers on one endpoint: the one that has waited 40 seconds is served although its
  balance is far below the other's.\<close>

definition demo_budgets :: budget_manager where
  "demo_budgets = (new_manager 30)\<lparr>bm_agents :=
     [(''heavy'', (new_budget ''heavy'' 1 60 0)\<lparr>balance := 50\<rparr>),
      (''light'', (new_budget ''light'' 1 60 0)\<lparr>balance := -7\<rparr>)]\<rparr>"

theorem pick_agent_rescues_witness:
  "\<exists>w. snd (pick_agent [''heavy'', ''light''] 100 [(''heavy'', 1), (''light'', 40)] demo_budgets)
         = Some w \<and> w = ''light''"
proof -
  have "od_get_or 0 [(''heavy'', 1), (''light'', 40)] ''light'' \<ge> starvation_timeout_s demo_budgets"
    by (simp add: od_get_or_def demo_budgets_def new_manager_def)
  from pick_agent_rescues[OF _ this, of "[''heavy'', ''light'']" 100]
  show ?thesis by (auto simp: od_get_or_def demo_budgets_def new_manager_def)
qed

text \<open>Weighted fair choice. When no candidate is starving, \<^verbatim>\<open>pick_agent\<close> returns a candidate
  that has a budget and whose weight-normalised balance is the highest among all candidates
  with a budget, and it returns nothing only when no candidate has a budget.\<close>

theorem pick_agent_fair:
  assumes "\<forall>c \<in> set candidates. od_get_or 0 waits c < starvation_timeout_s m"
  shows "case snd (pick_agent candidates now waits m) of
           None \<Rightarrow> (\<forall>c \<in> set candidates. od_get (bm_agents m) c = None)
         | Some w \<Rightarrow> w \<in> set candidates \<and> (\<exists>b. od_get (bm_agents m) w = Some b \<and>
             (\<forall>c \<in> set candidates. \<forall>b'. od_get (bm_agents m) c = Some b' \<longrightarrow> score b' \<le> score b))"
proof -
  have st: "starving_candidates (starvation_timeout_s m) waits candidates = []"
    using assms by (auto simp: starving_candidates_def filter_empty_conv)
  have "snd (pick_agent candidates now waits m) = best_scan (bm_agents m) None candidates"
    by (auto simp: pick_agent_def st note_waits_def Let_def)
  then show ?thesis
    using best_scan_max[of "bm_agents m" candidates] best_scan_None_iff[of "bm_agents m" candidates]
    by (auto split: option.split)
qed

theorem pick_agent_fair_witness:
  "snd (pick_agent [''heavy'', ''light''] 100 [(''heavy'', 1), (''light'', 2)] demo_budgets)
     = Some ''heavy''"
proof -
  have h: "\<forall>c \<in> set [''heavy'', ''light''].
      od_get_or 0 [(''heavy'', 1), (''light'', 2)] c < starvation_timeout_s demo_budgets"
    by (simp add: od_get_or_def demo_budgets_def new_manager_def)
  from pick_agent_fair[OF h, of 100] show ?thesis
    by (auto simp: demo_budgets_def new_manager_def new_budget_def score_def split: option.splits
        if_splits)
qed

text \<open>Exact settlement. Charging an estimate at dispatch and adjusting it to the actual
  duration at completion leaves the caller's balance lower, and its lifetime consumption
  higher, by exactly the actual duration, whatever the estimate was.\<close>

theorem charge_then_adjust_settles:
  assumes "od_get (bm_agents m) a = Some b"
  shows "\<exists>b'. od_get (bm_agents (retroactive_adjust a est act (charge a est now m))) a = Some b' \<and>
           balance b' = balance b - act \<and> total_consumed b' = total_consumed b + act \<and>
           total_requests b' = total_requests b + 1"
  using assms
  by (auto simp: charge_def retroactive_adjust_def budget_charge_def budget_refund_def Let_def)

theorem charge_then_adjust_settles_witness:
  "\<exists>b'. od_get (bm_agents (retroactive_adjust ''light'' 4 9 (charge ''light'' 4 10 demo_budgets)))
          ''light'' = Some b' \<and> balance b' = -16"
proof -
  have "od_get (bm_agents demo_budgets) ''light'' = Some ((new_budget ''light'' 1 60 0)\<lparr>balance := -7\<rparr>)"
    by (simp add: demo_budgets_def)
  from charge_then_adjust_settles[OF this, of 4 9 10] show ?thesis by auto
qed

text \<open>The fleet's capacity is shared out exactly. After any sequence of budget operations
  (callers created, reweighted, removed or pruned, capacity changes, charges, corrections,
  replenishments and picks) that starts from the empty manager and uses positive weights,
  the replenishment rates of the known callers add up to the fleet capacity as soon as that
  capacity is positive and some caller is known.\<close>

theorem rates_share_capacity:
  assumes "list_all budget_op_ok ops"
    and "m = foldl budget_step (new_manager timeout_s) ops"
    and "total_capacity m > 0" "bm_agents m \<noteq> []"
  shows "sum_list (map replenish_rate (od_vals (bm_agents m))) = total_capacity m"
proof -
  have "budgets_ok (new_manager timeout_s)"
    by (simp add: budgets_ok_def new_manager_def weights_pos_def rates_ok_def)
  with assms(1,2) have "budgets_ok m" by (simp add: budgets.run_ok)
  then show ?thesis using assms(3,4) by (rule sum_rates)
qed

theorem rates_share_capacity_witness:
  "sum_list (map replenish_rate (od_vals (bm_agents
     (foldl budget_step (new_manager 30) [BCreate ''a'' 1 60 0, BCapacity 8, BCreate ''b'' 3 60 0])))) = 8"
  using rates_share_capacity[of "[BCreate ''a'' 1 60 0, BCapacity 8, BCreate ''b'' 3 60 0]" _ 30, OF _ refl]
  by (simp add: get_or_create_def set_total_capacity_def new_manager_def recalculate_rates_def Let_def
      new_budget_def total_weight_def)

text \<open>An operator's reweight is not a fairness reset: it changes no caller's balance, it
  reports whether the caller exists, and it never creates or removes a caller.\<close>

theorem reweight_keeps_balances:
  "map_option balance (od_get (bm_agents (fst (reweight a w mb m))) c) =
     map_option balance (od_get (bm_agents m) c) \<and>
   (snd (reweight a w mb m) \<longleftrightarrow> a \<in> fst ` set (bm_agents m))"
  by (auto simp: reweight_def recalculate_balance Let_def od_get_None_iff split: option.splits)
    (force dest: map_of_SomeD)+

text \<open>A replenishment after time has passed leaves no balance above its cap and never lowers
  a balance that was below its cap, for nonnegative rates.\<close>

theorem replenish_caps:
  assumes "(k, b) \<in> set (bm_agents m)" "now > last_replenish_at b" "replenish_rate b \<ge> 0"
  shows "\<exists>b'. (k, b') \<in> set (bm_agents (replenish now m)) \<and> balance b' \<le> max_balance b \<and>
           min (balance b) (max_balance b) \<le> balance b' \<and> last_replenish_at b' = now"
proof -
  have "(k, replenish_one now b) \<in> set (bm_agents (replenish now m))"
    using assms(1) by (force simp: replenish_def)
  moreover have "0 \<le> replenish_rate b * (now - last_replenish_at b)"
    using assms(2,3) by simp
  ultimately show ?thesis
    using assms(2) by (intro exI[of _ "replenish_one now b"]) (auto simp: replenish_one_def Let_def min_def)
qed

theorem replenish_caps_witness:
  "\<exists>b'. (''heavy'', b') \<in> set (bm_agents (replenish 5 demo_budgets)) \<and> balance b' \<le> 60"
  using replenish_caps[of "''heavy''" "(new_budget ''heavy'' 1 60 0)\<lparr>balance := 50\<rparr>" demo_budgets 5]
  by (auto simp: demo_budgets_def new_manager_def new_budget_def)

text \<open>Pruning an idle caller forgets its balance. A caller that had replenished to its cap
  of 60 slot-seconds and is pruned as idle comes back with a balance of 0, not with the state
  it had.\<close>

theorem prune_forgets_balance:
  "\<exists>m now ttl. map_option balance (od_get (bm_agents m) ''a'') = Some 60 \<and>
     map_option max_balance (od_get (bm_agents m) ''a'') = Some 60 \<and>
     snd (prune_idle now ttl m) = [''a''] \<and>
     map_option balance (od_get (bm_agents
       (get_or_create ''a'' 1 60 now (fst (prune_idle now ttl m)))) ''a'') = Some 0"
  by (rule exI[of _ "(new_manager 30)\<lparr>bm_agents := [(''a'', (new_budget ''a'' 1 60 1)\<lparr>balance := 60\<rparr>)]\<rparr>"],
      rule exI[of _ 100], rule exI[of _ 10])
    (simp add: prune_idle_def idle_stale_def new_budget_def new_manager_def get_or_create_def
      recalculate_rates_def Let_def)

text \<open>The balance-health signal can miss a negative balance: a completion that ran longer than
  estimated can push a balance below zero through \<^verbatim>\<open>retroactive_adjust\<close> without starting the
  clock that \<^verbatim>\<open>is_starving\<close> reads, so the budget is reported healthy at every later time.\<close>

theorem adjust_misses_negative:
  "\<exists>m b. od_get (bm_agents (retroactive_adjust ''a'' 1 9 m)) ''a'' = Some b \<and> balance b < 0 \<and>
     (\<forall>now timeout_s. \<not> is_starving b now timeout_s)"
  by (rule exI[of _ "(new_manager 30)\<lparr>bm_agents := [(''a'', (new_budget ''a'' 1 60 1)\<lparr>balance := 2\<rparr>)]\<rparr>"])
    (simp add: retroactive_adjust_def is_starving_def new_budget_def Let_def)

end
