(* ===== verification/Scheduler.thy ===== *)
theory Scheduler
  imports Endpoint_Queue Agent_Budget
begin

section \<open>The deficit-round-robin scheduler (scheduler.py, Scheduler)\<close>

text \<open>
  The state of \<^verbatim>\<open>Scheduler\<close>, its operations \<^verbatim>\<open>enqueue\<close>, \<^verbatim>\<open>tick\<close>, \<^verbatim>\<open>complete\<close>,
  \<^verbatim>\<open>cancel\<close> and the read-only views, with the dispatch loop of \<^verbatim>\<open>_dispatch_endpoint\<close>, the
  capacity rule \<^verbatim>\<open>_available_for_band\<close>, the admission decision \<^verbatim>\<open>_admit\<close> and \<^verbatim>\<open>_spill\<close>.

  The dispatch loop runs at most \<^verbatim>\<open>max_attempts\<close> times, which the source computes before it
  starts, so the model recurses on that number. The callbacks \<^verbatim>\<open>on_timeout\<close>, \<^verbatim>\<open>on_dispatch\<close>
  and \<^verbatim>\<open>on_spill\<close> become events in the order they fire; \<^verbatim>\<open>is_endpoint_healthy\<close> and
  \<^verbatim>\<open>may_spend\<close> are predicates that may be absent. An exception that leaves an operation is
  returned next to the state it leaves behind.
\<close>

subsection \<open>State\<close>

type_synonym active_map = "(string, active_request) odict"

record scheduler =
  sc_config :: proxy_config
  sc_cost :: cost_model
  sc_budgets :: budget_manager
  sc_queues :: "(string, endpoint_queue) odict"
  sc_active :: "(string, active_map) odict"
  total_dispatched :: int
  total_timeouts :: int
  total_completed :: int
  total_spilled :: int

record sched_env =
  is_endpoint_healthy :: "(string \<Rightarrow> bool) option"
  may_spend :: "(string \<Rightarrow> bool) option"
  float_str :: "string \<Rightarrow> real option"

datatype event =
    OnTimeout queued_request
  | OnDispatch dispatch_decision
  | OnSpill queued_request string string

definition new_scheduler :: "proxy_config \<Rightarrow> cost_model \<Rightarrow> budget_manager \<Rightarrow> scheduler" where
  "new_scheduler cfg cm bm =
     \<lparr>sc_config = cfg, sc_cost = cm, sc_budgets = bm,
      sc_queues = map (\<lambda>ep. (ep, new_queue)) (od_keys (endpoints cfg)),
      sc_active = map (\<lambda>ep. (ep, [])) (od_keys (endpoints cfg)),
      total_dispatched = 0, total_timeouts = 0, total_completed = 0, total_spilled = 0\<rparr>"

abbreviation queue_of :: "scheduler \<Rightarrow> string \<Rightarrow> endpoint_queue" where
  "queue_of s ep \<equiv> od_get_or new_queue (sc_queues s) ep"

abbreviation active_of :: "scheduler \<Rightarrow> string \<Rightarrow> active_map" where
  "active_of s ep \<equiv> od_get_or [] (sc_active s) ep"

definition set_queue :: "string \<Rightarrow> endpoint_queue \<Rightarrow> scheduler \<Rightarrow> scheduler" where
  "set_queue ep q s = s\<lparr>sc_queues := od_put ep q (sc_queues s)\<rparr>"

definition set_active :: "string \<Rightarrow> active_map \<Rightarrow> scheduler \<Rightarrow> scheduler" where
  "set_active ep m s = s\<lparr>sc_active := od_put ep m (sc_active s)\<rparr>"

definition healthy :: "sched_env \<Rightarrow> string \<Rightarrow> bool" where
  "healthy env ep = (case is_endpoint_healthy env of None \<Rightarrow> True | Some f \<Rightarrow> f ep)"

subsection \<open>enqueue\<close>

text \<open>\<^verbatim>\<open>payload.get("max_tokens", 256)\<close>: the default only replaces a missing key.\<close>

definition max_output_of :: "payload \<Rightarrow> json" where
  "max_output_of p = od_get_or (JInt 256) p ''max_tokens''"

definition ensure_endpoint :: "string \<Rightarrow> scheduler \<Rightarrow> scheduler" where
  "ensure_endpoint ep s =
     (if ep \<in> fst ` set (sc_queues s) then s else set_active ep [] (set_queue ep new_queue s))"

definition ensure_budget :: "queued_request \<Rightarrow> scheduler \<Rightarrow> scheduler" where
  "ensure_budget r s =
     (let c = agent_config (sc_config s) (agent_id r) in
      s\<lparr>sc_budgets := get_or_create (agent_id r) (quota_weight c) (max_balance_ss c) (enqueued_at r) (sc_budgets s)\<rparr>)"

definition sched_enqueue :: "sched_env \<Rightarrow> queued_request \<Rightarrow> scheduler \<Rightarrow> scheduler \<times> queued_request py" where
  "sched_enqueue env r s =
     (let ep = rq_endpoint r;
          s1 = ensure_budget r (ensure_endpoint ep s)
      in case estimate_input_tokens (rq_payload r) of
           Inl e \<Rightarrow> (s1, Inl e)
         | Inr n \<Rightarrow>
             (case estimate_cost (float_str env) (sc_cost s1) ep n (max_output_of (rq_payload r))
                     (call_site r) (int (length (active_of s1 ep))) of
                Inl e \<Rightarrow> (s1, Inl e)
              | Inr cost \<Rightarrow>
                  let r' = r\<lparr>est_input_tokens := n, estimated_cost_ss := cost\<rparr>
                  in (set_queue ep (eq_enqueue r' (queue_of s1 ep)) s1, Inr r')))"

subsection \<open>Capacity and admission\<close>

definition bg_in_flight :: "scheduler \<Rightarrow> string \<Rightarrow> int" where
  "bg_in_flight s ep = int (length (filter (\<lambda>ar. rq_band (ar_request ar) = BACKGROUND) (od_vals (active_of s ep))))"

definition available_for_band :: "scheduler \<Rightarrow> endpoint_config \<Rightarrow> priority_band \<Rightarrow> int \<Rightarrow> endpoint_queue \<Rightarrow> int" where
  "available_for_band s c b current_in_flight q =
     (let total_free = effective_max_slots c - current_in_flight in
      if total_free \<le> 0 then 0
      else if b = BACKGROUND then
        min total_free (max 0 (background_cap_slots c - bg_in_flight s (endpoint_class c)))
      else if band_depth BACKGROUND q > 0 then
        (let ceiling = max 1 (effective_max_slots c - background_floor_slots c);
             non_bg_in_flight = current_in_flight - bg_in_flight s (endpoint_class c)
         in max 0 (ceiling - non_bg_in_flight))
      else total_free)"

definition spill_target :: "sched_env \<Rightarrow> scheduler \<Rightarrow> endpoint_config \<Rightarrow> string" where
  "spill_target env s c =
     (if spill_to c = [] \<or> spill_to c \<notin> fst ` set (endpoints (sc_config s)) then []
      else if spill_to c = endpoint_class c then []
      else if \<not> healthy env (spill_to c) then []
      else spill_to c)"

definition is_set :: "string option \<Rightarrow> bool" where
  "is_set v = (case v of None \<Rightarrow> False | Some t \<Rightarrow> t \<noteq> [])"

definition admit ::
  "sched_env \<Rightarrow> scheduler \<Rightarrow> endpoint_config \<Rightarrow> queued_request \<Rightarrow> int \<Rightarrow> int \<Rightarrow> string \<Rightarrow> admission py" where
  "admit env s c r current_occupancy band_available tgt =
     (if max_slots c \<le> 0 then Inr DEFER
      else if band_available > 0 \<and> current_occupancy < effective_max_slots c then Inr DISPATCH
      else if tgt = [] then Inr DEFER
      else if is_set (spilled_from r) then Inr DEFER
      else if \<not> spill_ok (agent_config (sc_config s) (agent_id r)) then Inr DEFER
      else if allow_spill r = Some False then Inr DEFER
      else if (case may_spend env of None \<Rightarrow> False | Some f \<Rightarrow> \<not> f (agent_id r)) then Inr DEFER
      else
        (case od_get (endpoints (sc_config s)) tgt of
           None \<Rightarrow> Inl KeyError
         | Some tgt_cfg \<Rightarrow>
             py_bind (fits_context r (context_per_slot tgt_cfg)) (\<lambda>ok.
               if \<not> ok then Inr DEFER
               else if int (length (active_of s tgt)) \<ge> effective_max_slots tgt_cfg then Inr DEFER
               else Inr SPILL)))"

text \<open>\<^verbatim>\<open>_spill\<close>: re-point the request, count it, enqueue it at the target, report it.\<close>

definition respill :: "scheduler \<Rightarrow> queued_request \<Rightarrow> string \<Rightarrow> queued_request" where
  "respill s r tgt =
     r\<lparr>spilled_from := Some (rq_endpoint r), rq_endpoint := tgt,
       ctx_per_slot_at_admission := context_per_slot (the (od_get (endpoints (sc_config s)) tgt))\<rparr>"

definition spill :: "sched_env \<Rightarrow> queued_request \<Rightarrow> string \<Rightarrow> scheduler \<Rightarrow> scheduler \<times> event list \<times> py_error option" where
  "spill env r tgt s =
     (let src = rq_endpoint r;
          (s1, res) = sched_enqueue env (respill s r tgt) (s\<lparr>total_spilled := total_spilled s + 1\<rparr>)
      in case res of
           Inl e \<Rightarrow> (s1, [], Some e)
         | Inr r' \<Rightarrow> (s1, [OnSpill r' src tgt], None))"

subsection \<open>The dispatch loop\<close>

record loop_state =
  lp_sched :: scheduler
  lp_decisions :: "dispatch_decision list"
  lp_available :: int
  lp_events :: "event list"
  lp_error :: "py_error option"

definition wait_by_agent :: "real \<Rightarrow> priority_band \<Rightarrow> endpoint_queue \<Rightarrow> string list \<Rightarrow> (string, real) odict" where
  "wait_by_agent now b q candidates =
     foldl (\<lambda>d a. case eq_peek b a q of None \<Rightarrow> d | Some r \<Rightarrow> od_put a (now - enqueued_at r) d) [] candidates"

text \<open>Dispatching the head of the chosen agent.\<close>

definition dispatch_head ::
  "real \<Rightarrow> string \<Rightarrow> priority_band \<Rightarrow> string \<Rightarrow> int \<Rightarrow> loop_state \<Rightarrow> loop_state" where
  "dispatch_head now ep b aid total_occ l =
     (let s = lp_sched l in
      case eq_dequeue b aid (queue_of s ep) of
        (_, None) \<Rightarrow> l
      | (q', Some r) \<Rightarrow>
          let s1 = set_queue ep q' s;
              s2 = s1\<lparr>sc_budgets := charge aid (estimated_cost_ss r) now (sc_budgets s1)\<rparr>;
              ar = \<lparr>ar_request = r, dispatched_at = now, estimated_remaining_s = estimated_cost_ss r\<rparr>;
              s3 = set_active ep (od_put (request_id r) ar (active_of s2 ep)) s2;
              d = \<lparr>dd_request = r, queue_wait_ms = (now - enqueued_at r) * 1000, occupancy_at_dispatch = total_occ\<rparr>;
              s4 = s3\<lparr>total_dispatched := total_dispatched s3 + 1\<rparr>
          in l\<lparr>lp_sched := set_queue ep (rotate_robin b (queue_of s4 ep)) s4,
               lp_decisions := lp_decisions l @ [d],
               lp_available := lp_available l - 1,
               lp_events := lp_events l @ [OnDispatch d]\<rparr>)"

definition spill_head ::
  "sched_env \<Rightarrow> string \<Rightarrow> priority_band \<Rightarrow> string \<Rightarrow> string \<Rightarrow> loop_state \<Rightarrow> loop_state" where
  "spill_head env ep b aid tgt l =
     (let s = lp_sched l;
          (q', res) = eq_dequeue b aid (queue_of s ep);
          s1 = set_queue ep q' s;
          (s2, evs, err) = (case res of None \<Rightarrow> (s1, [], None) | Some r \<Rightarrow> spill env r tgt s1)
      in case err of
           Some e \<Rightarrow> l\<lparr>lp_sched := s2, lp_error := Some e\<rparr>
         | None \<Rightarrow> l\<lparr>lp_sched := set_queue ep (rotate_robin b (queue_of s2 ep)) s2,
                     lp_events := lp_events l @ evs\<rparr>)"

text \<open>One iteration; the flag says whether the loop goes on.\<close>

definition band_step ::
  "sched_env \<Rightarrow> real \<Rightarrow> string \<Rightarrow> endpoint_config \<Rightarrow> priority_band \<Rightarrow> string \<Rightarrow> int \<Rightarrow> loop_state \<Rightarrow> loop_state \<times> bool" where
  "band_step env now ep c b tgt in_flight l =
     (let s = lp_sched l; q = queue_of s ep; candidates = agents_in_band b q in
      if candidates = [] then (l, False)
      else
        let (bm, pick) = pick_agent candidates now (wait_by_agent now b q candidates) (sc_budgets s);
            l1 = l\<lparr>lp_sched := s\<lparr>sc_budgets := bm\<rparr>\<rparr>
        in case pick of
             None \<Rightarrow> (l1, False)
           | Some aid \<Rightarrow>
               (case eq_peek b aid q of
                  None \<Rightarrow> (l1\<lparr>lp_sched := set_queue ep (rotate_robin b q) (lp_sched l1)\<rparr>, True)
                | Some r \<Rightarrow>
                    let total_occ = in_flight + int (length (lp_decisions l1)) in
                    (case admit env (lp_sched l1) c r total_occ (lp_available l1) tgt of
                       Inl e \<Rightarrow> (l1\<lparr>lp_error := Some e\<rparr>, False)
                     | Inr DEFER \<Rightarrow> (l1, False)
                     | Inr SPILL \<Rightarrow>
                         let l2 = spill_head env ep b aid tgt l1 in (l2, lp_error l2 = None)
                     | Inr DISPATCH \<Rightarrow> (dispatch_head now ep b aid total_occ l1, True))))"

fun band_loop ::
  "sched_env \<Rightarrow> real \<Rightarrow> string \<Rightarrow> endpoint_config \<Rightarrow> priority_band \<Rightarrow> string \<Rightarrow> int \<Rightarrow> nat \<Rightarrow> loop_state \<Rightarrow> loop_state" where
  "band_loop env now ep c b tgt in_flight 0 l = l"
| "band_loop env now ep c b tgt in_flight (Suc attempts) l =
     (if band_depth b (queue_of (lp_sched l) ep) = 0 then l
      else let (l', go) = band_step env now ep c b tgt in_flight l in
        if go then band_loop env now ep c b tgt in_flight attempts l' else l')"

text \<open>One turn of \<^verbatim>\<open>for band in PriorityBand\<close>; after an exception nothing more runs.\<close>

definition band_pass ::
  "sched_env \<Rightarrow> real \<Rightarrow> string \<Rightarrow> endpoint_config \<Rightarrow> int \<Rightarrow> priority_band \<Rightarrow> loop_state \<Rightarrow> loop_state" where
  "band_pass env now ep c in_flight b l =
     (let s = lp_sched l; q = queue_of s ep in
      if lp_error l \<noteq> None then l
      else if band_depth b q = 0 then l
      else
        let available = available_for_band s c b (in_flight + int (length (lp_decisions l))) q;
            tgt = spill_target env s c
        in if available \<le> 0 \<and> tgt = [] then l
           else band_loop env now ep c b tgt in_flight
                  (band_depth b q + length (agents_in_band b q)) (l\<lparr>lp_available := available\<rparr>))"

definition dispatch_endpoint ::
  "sched_env \<Rightarrow> real \<Rightarrow> string \<Rightarrow> endpoint_config \<Rightarrow> scheduler \<Rightarrow> loop_state" where
  "dispatch_endpoint env now ep c s =
     (let l0 = \<lparr>lp_sched = s, lp_decisions = [], lp_available = 0, lp_events = [], lp_error = None\<rparr> in
      if ep \<notin> fst ` set (sc_queues s) then l0
      else if \<not> healthy env ep then l0
      else fold (band_pass env now ep c (int (length (active_of s ep)))) all_bands l0)"

subsection \<open>tick\<close>

definition expire_endpoint :: "real \<Rightarrow> string \<Rightarrow> scheduler \<times> event list \<Rightarrow> scheduler \<times> event list" where
  "expire_endpoint now ep acc =
     (let (s, evs) = acc; (q', expired) = expire_before now (queue_of s ep) in
      ((set_queue ep q' s)\<lparr>total_timeouts := total_timeouts s + int (length expired)\<rparr>,
       evs @ map OnTimeout expired))"

definition dispatch_next ::
  "sched_env \<Rightarrow> real \<Rightarrow> string \<times> endpoint_config \<Rightarrow> loop_state \<Rightarrow> loop_state" where
  "dispatch_next env now epc l =
     (if lp_error l \<noteq> None then l
      else let l' = dispatch_endpoint env now (fst epc) (snd epc) (lp_sched l) in
        l\<lparr>lp_sched := lp_sched l', lp_decisions := lp_decisions l @ lp_decisions l',
          lp_events := lp_events l @ lp_events l', lp_error := lp_error l'\<rparr>)"

definition expire_all :: "real \<Rightarrow> scheduler \<Rightarrow> scheduler \<times> event list" where
  "expire_all now s = fold (expire_endpoint now) (od_keys (sc_queues s)) (s, [])"

definition tick :: "sched_env \<Rightarrow> real \<Rightarrow> scheduler \<Rightarrow> loop_state" where
  "tick env now s =
     (let s1 = s\<lparr>sc_budgets := replenish now (sc_budgets s)\<rparr>;
          (s2, evs) = expire_all now s1
      in fold (dispatch_next env now) (endpoints (sc_config s2))
           \<lparr>lp_sched = s2, lp_decisions = [], lp_available = 0, lp_events = evs, lp_error = None\<rparr>)"

subsection \<open>complete and cancel\<close>

definition sched_complete :: "completion_record \<Rightarrow> real \<Rightarrow> scheduler \<Rightarrow> scheduler" where
  "sched_complete rec now s =
     (case List.find (\<lambda>(ep, m). cr_request_id rec \<in> fst ` set m) (sc_active s) of
        None \<Rightarrow> s
      | Some (ep, m) \<Rightarrow>
          (case od_get m (cr_request_id rec) of
             None \<Rightarrow> s
           | Some ar \<Rightarrow>
               let s1 = (set_active ep (od_del (cr_request_id rec) m) s)\<lparr>total_completed := total_completed s + 1\<rparr>;
                   s2 = s1\<lparr>sc_budgets := retroactive_adjust (agent_id (ar_request ar))
                             (estimated_cost_ss (ar_request ar)) (cr_duration_s rec) (sc_budgets s1)\<rparr>
               in if cr_success rec
                  then s2\<lparr>sc_cost := record_completion ep (call_site (ar_request ar)) (cr_input_tokens rec)
                             (cr_output_tokens rec) (cr_duration_s rec) (cr_occupancy_during rec) (sc_cost s2)\<rparr>
                  else s2))"

fun cancel_scan :: "string \<Rightarrow> (string, endpoint_queue) odict \<Rightarrow> (string, endpoint_queue) odict \<times> bool" where
  "cancel_scan rid [] = ([], False)"
| "cancel_scan rid ((ep, q) # qs) =
     (case cancel_in_queue rid q of
        (q', True) \<Rightarrow> ((ep, q') # qs, True)
      | (_, False) \<Rightarrow> (let (qs', found) = cancel_scan rid qs in ((ep, q) # qs', found)))"

definition sched_cancel :: "string \<Rightarrow> scheduler \<Rightarrow> scheduler \<times> bool" where
  "sched_cancel rid s = (let (qs, found) = cancel_scan rid (sc_queues s) in (s\<lparr>sc_queues := qs\<rparr>, found))"

subsection \<open>Views\<close>

definition queued_requests :: "string \<Rightarrow> priority_band list \<Rightarrow> scheduler \<Rightarrow> queued_request list" where
  "queued_requests ep bands s =
     (case od_get (sc_queues s) ep of None \<Rightarrow> [] | Some q \<Rightarrow> bands_requests bands q)"

definition active_count :: "string \<Rightarrow> scheduler \<Rightarrow> nat" where
  "active_count ep s = length (active_of s ep)"

definition queue_depth :: "string \<Rightarrow> scheduler \<Rightarrow> nat" where
  "queue_depth ep s = (case od_get (sc_queues s) ep of None \<Rightarrow> 0 | Some q \<Rightarrow> total_depth q)"

definition degraded_inflight :: "string \<Rightarrow> scheduler \<Rightarrow> nat" where
  "degraded_inflight src s =
     sum_list (map (\<lambda>(_, m). length (filter (\<lambda>ar. degraded_from (ar_request ar) = Some src) (od_vals m))) (sc_active s))
     + sum_list (map (\<lambda>(_, q). length (filter (\<lambda>r. degraded_from r = Some src) (bands_requests all_bands q))) (sc_queues s))"

definition agent_snapshot :: "string \<Rightarrow> scheduler \<Rightarrow> nat \<times> nat" where
  "agent_snapshot aid s =
     (sum_list (map (\<lambda>(_, q). sum_list (map (\<lambda>b. agent_depth b aid q) all_bands)) (sc_queues s)),
      sum_list (map (\<lambda>(_, m). length (filter (\<lambda>ar. agent_id (ar_request ar) = aid) (od_vals m))) (sc_active s)))"

record ep_snapshot =
  sn_max_slots :: int
  sn_in_flight :: nat
  sn_queued :: nat
  sn_queue_by_band :: "(string \<times> nat) list"

definition band_name :: "priority_band \<Rightarrow> string" where
  "band_name b = (case b of INTERACTIVE \<Rightarrow> ''interactive'' | FOREGROUND \<Rightarrow> ''foreground'' | BACKGROUND \<Rightarrow> ''background'')"

definition endpoint_snapshot :: "string \<Rightarrow> scheduler \<Rightarrow> ep_snapshot" where
  "endpoint_snapshot ep s =
     \<lparr>sn_max_slots = (case od_get (endpoints (sc_config s)) ep of None \<Rightarrow> 0 | Some c \<Rightarrow> max_slots c),
      sn_in_flight = length (active_of s ep), sn_queued = queue_depth ep s,
      sn_queue_by_band = map (\<lambda>b. (band_name b,
        case od_get (sc_queues s) ep of None \<Rightarrow> 0 | Some q \<Rightarrow> band_depth b q)) all_bands\<rparr>"

definition background_available :: "string \<Rightarrow> int \<Rightarrow> scheduler \<Rightarrow> int" where
  "background_available ep extra_occupied s =
     (case od_get (sc_queues s) ep of
        None \<Rightarrow> 0
      | Some q \<Rightarrow>
          (case od_get (endpoints (sc_config s)) ep of
             None \<Rightarrow> 0
           | Some c \<Rightarrow> available_for_band s c BACKGROUND (int (length (active_of s ep)) + max 0 extra_occupied) q))"

subsection \<open>A small fleet\<close>

definition demo_config :: proxy_config where
  "demo_config =
     \<lparr>endpoints = [(''chat'', (demo_endpoint ''chat'' 1)\<lparr>spill_to := ''remote''\<rparr>), (''remote'', demo_endpoint ''remote'' 2)],
      agents = [(''a'', (default_quota ''a'')\<lparr>spill_ok := True\<rparr>)], cfg_starvation_timeout_s = 300\<rparr>"

definition demo_env :: sched_env where
  "demo_env = \<lparr>is_endpoint_healthy = None, may_spend = None, float_str = (\<lambda>_. None)\<rparr>"

definition demo_sched :: scheduler where
  "demo_sched = fst (sched_enqueue demo_env (demo_request ''r2'')
     (fst (sched_enqueue demo_env (demo_request ''r1'')
       (new_scheduler demo_config \<lparr>cm_models = []\<rparr> (new_manager 300)))))"

end
