(* ===== verification/Scheduler_Facts.thy ===== *)
theory Scheduler_Facts
  imports Scheduler
begin

section \<open>What the dispatch pass keeps\<close>

text \<open>
  The locale \<open>pass_invariant\<close> is the contract between the dispatch loop and an invariant: the
  elementary moves of one iteration (choosing an agent, rotating the round-robin, dispatching an
  admitted head, spilling one, failing). An invariant that the moves keep is kept by a whole pass
  over an endpoint. Its interpretations below are the well-formedness of the scheduler, the slot
  bound, the conservation of requests and the conditions under which a request leaves the machine.
\<close>

subsection \<open>The contract\<close>

definition target_ok :: "sched_env \<Rightarrow> proxy_config \<Rightarrow> endpoint_config \<Rightarrow> string \<Rightarrow> bool" where
  "target_ok env cfg c tgt \<longleftrightarrow>
     tgt = [] \<or> tgt = spill_to c \<and> tgt \<in> fst ` set (endpoints cfg) \<and> tgt \<noteq> endpoint_class c \<and> healthy env tgt"

lemma spill_target_ok: "target_ok env (sc_config s) c (spill_target env s c)"
  by (simp add: target_ok_def spill_target_def)

lemma agents_key: "agents_in_band b (queue_of s ep) \<noteq> [] \<Longrightarrow> ep \<in> fst ` set (sc_queues s)"
  by (cases "od_get (sc_queues s) ep")
    (auto simp: od_get_or_def agents_in_band_def new_queue_def dest: od_get_Some_in intro: rev_image_eqI)

locale pass_invariant =
  fixes env :: sched_env and now :: real and ep :: string and c :: endpoint_config
    and in_flight :: int and cfg :: proxy_config and P :: "loop_state \<Rightarrow> bool"
  assumes config: "P l \<Longrightarrow> sc_config (lp_sched l) = cfg"
    and picked: "P l \<Longrightarrow> P (l\<lparr>lp_sched := (lp_sched l)\<lparr>sc_budgets := bm\<rparr>\<rparr>)"
    and rotated: "P l \<Longrightarrow> ep \<in> fst ` set (sc_queues (lp_sched l)) \<Longrightarrow> P (l\<lparr>lp_sched := set_queue ep (rotate_robin b (queue_of (lp_sched l) ep)) (lp_sched l)\<rparr>)"
    and failed: "P l \<Longrightarrow> eq_peek b aid (queue_of (lp_sched l) ep) = Some r \<Longrightarrow> target_ok env cfg c tgt \<Longrightarrow>
          admit env (lp_sched l) c r (in_flight + int (length (lp_decisions l))) (lp_available l) tgt = Inl e \<Longrightarrow>
          P (l\<lparr>lp_error := Some e\<rparr>)"
    and opened: "P l \<Longrightarrow> P (l\<lparr>lp_available := n\<rparr>)"
    and dispatched: "P l \<Longrightarrow> eq_peek b aid (queue_of (lp_sched l) ep) = Some r \<Longrightarrow>
          admit env (lp_sched l) c r (in_flight + int (length (lp_decisions l))) (lp_available l) tgt = Inr DISPATCH \<Longrightarrow>
          P (dispatch_head now ep b aid (in_flight + int (length (lp_decisions l))) l)"
    and spilled: "P l \<Longrightarrow> eq_peek b aid (queue_of (lp_sched l) ep) = Some r \<Longrightarrow> target_ok env cfg c tgt \<Longrightarrow>
          admit env (lp_sched l) c r (in_flight + int (length (lp_decisions l))) (lp_available l) tgt = Inr SPILL \<Longrightarrow>
          P (spill_head env ep b aid tgt l)"
begin

lemma band_step_keeps:
  assumes "P l" "target_ok env cfg c tgt"
  shows "P (fst (band_step env now ep c b tgt in_flight l))"
proof -
  let ?q = "queue_of (lp_sched l) ep"
  obtain bm pick where pk: "pick_agent (agents_in_band b ?q) now
      (wait_by_agent now b ?q (agents_in_band b ?q)) (sc_budgets (lp_sched l)) = (bm, pick)" by fastforce
  let ?l1 = "l\<lparr>lp_sched := (lp_sched l)\<lparr>sc_budgets := bm\<rparr>\<rparr>"
  have l1: "P ?l1" by (rule picked[OF assms(1)])
  show ?thesis
    using l1 assms rotated[OF l1, of b] failed[OF l1, of b _ _ tgt] agents_key[of b "lp_sched l" ep]
      dispatched[OF l1, of b] spilled[OF l1, of b _ _ tgt]
    by (auto simp: band_step_def Let_def pk set_queue_def split: option.split sum.split admission.split)
qed

lemma band_loop_keeps:
  "P l \<Longrightarrow> target_ok env cfg c tgt \<Longrightarrow> P (band_loop env now ep c b tgt in_flight n l)"
proof (induction n arbitrary: l)
  case (Suc n)
  then show ?case
    using band_step_keeps[OF Suc.prems, of b]
    by (cases "band_step env now ep c b tgt in_flight l") (simp add: Let_def)
qed simp

lemma band_pass_keeps: "P l \<Longrightarrow> P (band_pass env now ep c in_flight b l)"
  using spill_target_ok[of env "lp_sched l" c] config[of l]
  by (simp add: band_pass_def Let_def band_loop_keeps opened)

lemma bands_keep: "P l \<Longrightarrow> P (fold (band_pass env now ep c in_flight) bs l)"
  by (induction bs arbitrary: l) (auto intro: band_pass_keeps)

end

subsection \<open>The moves, written out\<close>

lemma dispatch_head_eq:
  assumes "eq_peek b aid (queue_of (lp_sched l) ep) = Some r" "queue_ok (queue_of (lp_sched l) ep)"
  shows "dispatch_head now ep b aid occ l =
    (let s = lp_sched l;
         d = \<lparr>dd_request = r, queue_wait_ms = (now - enqueued_at r) * 1000, occupancy_at_dispatch = occ\<rparr>;
         ar = \<lparr>ar_request = r, dispatched_at = now, estimated_remaining_s = estimated_cost_ss r\<rparr>
     in l\<lparr>lp_sched := s\<lparr>sc_queues := od_put ep (rotate_robin b (fst (eq_dequeue b aid (queue_of s ep)))) (sc_queues s),
                         sc_budgets := charge aid (estimated_cost_ss r) now (sc_budgets s),
                         sc_active := od_put ep (od_put (request_id r) ar (active_of s ep)) (sc_active s),
                         total_dispatched := total_dispatched s + 1\<rparr>,
          lp_decisions := lp_decisions l @ [d], lp_available := lp_available l - 1,
          lp_events := lp_events l @ [OnDispatch d]\<rparr>)"
proof -
  obtain q' where "eq_dequeue b aid (queue_of (lp_sched l) ep) = (q', Some r)"
    using fifo.peek_is_deq[OF assms(2), of b aid] assms(1)
    by (cases "eq_dequeue b aid (queue_of (lp_sched l) ep)") auto
  then show ?thesis
    by (simp add: dispatch_head_def Let_def set_queue_def set_active_def od_put_put)
qed

text \<open>An enqueue that succeeds: the queue it lands in, and the fields of the request it sets.\<close>

lemma sched_enqueue_cases:
  obtains e where "sched_enqueue env r s = (ensure_budget r (ensure_endpoint (rq_endpoint r) s), Inl e)"
  | n cost where "sched_enqueue env r s =
      (let s1 = ensure_budget r (ensure_endpoint (rq_endpoint r) s);
           r' = r\<lparr>est_input_tokens := n, estimated_cost_ss := cost\<rparr>
       in (set_queue (rq_endpoint r) (eq_enqueue r' (queue_of s1 (rq_endpoint r))) s1, Inr r'))"
      "estimate_input_tokens (rq_payload r) = Inr n"
proof (cases "estimate_input_tokens (rq_payload r)")
  case (Inr n)
  show thesis
  proof (cases "estimate_cost (float_str env) (sc_cost (ensure_budget r (ensure_endpoint (rq_endpoint r) s)))
      (rq_endpoint r) n (max_output_of (rq_payload r)) (call_site r)
      (int (length (active_of (ensure_budget r (ensure_endpoint (rq_endpoint r) s)) (rq_endpoint r))))")
    case (Inr c)
    then show thesis using that(2) \<open>estimate_input_tokens _ = Inr n\<close>
      by (simp add: sched_enqueue_def Let_def)
  qed (use that(1) Inr in \<open>simp add: sched_enqueue_def Let_def\<close>)
qed (use that(1) in \<open>simp add: sched_enqueue_def Let_def\<close>)

lemma ensure_frames [simp]:
  "sc_config (ensure_endpoint ep s) = sc_config s"
  "sc_config (ensure_budget r s) = sc_config s"
  "sc_queues (ensure_budget r s) = sc_queues s"
  "sc_active (ensure_budget r s) = sc_active s"
  "sc_cost (ensure_budget r s) = sc_cost s"
  "sc_cost (ensure_endpoint ep s) = sc_cost s"
  by (simp_all add: ensure_endpoint_def ensure_budget_def set_queue_def set_active_def Let_def)

lemma set_frames [simp]:
  "sc_config (set_queue ep q s) = sc_config s"
  "sc_config (set_active ep m s) = sc_config s"
  "sc_active (set_queue ep q s) = sc_active s"
  "sc_queues (set_active ep m s) = sc_queues s"
  "sc_queues (set_queue ep q s) = od_put ep q (sc_queues s)"
  "sc_active (set_active ep m s) = od_put ep m (sc_active s)"
  "sc_budgets (set_queue ep q s) = sc_budgets s"
  "sc_budgets (set_active ep m s) = sc_budgets s"
  "sc_cost (set_queue ep q s) = sc_cost s"
  "sc_cost (set_active ep m s) = sc_cost s"
  by (simp_all add: set_queue_def set_active_def)

lemma sched_enqueue_config [simp]: "sc_config (fst (sched_enqueue env r s)) = sc_config s"
  by (rule sched_enqueue_cases[of env r s]) (simp_all add: Let_def)

lemma queue_of_ensure [simp]: "queue_of (ensure_endpoint ep s) ep' = queue_of s ep'"
  by (auto simp: ensure_endpoint_def od_get_or_def od_get_None_iff[symmetric])

subsection \<open>Well-formed scheduler states\<close>

definition queue_entry_ok :: "string \<times> endpoint_queue \<Rightarrow> bool" where
  "queue_entry_ok p = (queue_ok (snd p) \<and> (\<forall>r \<in># queue_reqs (snd p). rq_endpoint r = fst p))"

definition active_entry_ok :: "string \<times> active_map \<Rightarrow> bool" where
  "active_entry_ok p = (od_ok (snd p) \<and>
     (\<forall>x \<in> set (snd p). request_id (ar_request (snd x)) = fst x \<and> rq_endpoint (ar_request (snd x)) = fst p))"

definition sched_ok :: "scheduler \<Rightarrow> bool" where
  "sched_ok s = (od_ok (sc_queues s) \<and> od_ok (sc_active s) \<and>
     fst ` set (sc_queues s) = fst ` set (sc_active s) \<and>
     (\<forall>p \<in> set (sc_queues s). queue_entry_ok p) \<and> (\<forall>p \<in> set (sc_active s). active_entry_ok p))"

lemma sched_ok_queue: "sched_ok s \<Longrightarrow> queue_entry_ok (ep, queue_of s ep)"
proof (cases "od_get (sc_queues s) ep")
  case (Some q)
  assume "sched_ok s"
  then show ?thesis using od_get_Some_in[OF Some] Some by (auto simp: sched_ok_def od_get_or_def)
qed (simp add: od_get_or_def queue_entry_ok_def)

lemma sched_ok_active: "sched_ok s \<Longrightarrow> active_entry_ok (ep, active_of s ep)"
proof (cases "od_get (sc_active s) ep")
  case (Some m)
  assume "sched_ok s"
  then show ?thesis using od_get_Some_in[OF Some] Some by (auto simp: sched_ok_def od_get_or_def)
qed (simp add: od_get_or_def active_entry_ok_def)

lemma sched_ok_queue_ok: "sched_ok s \<Longrightarrow> queue_ok (queue_of s ep)"
  using sched_ok_queue[of s ep] by (simp add: queue_entry_ok_def)

lemma put_entries:
  "\<forall>p \<in> set d. Q p \<Longrightarrow> Q (k, v) \<Longrightarrow> \<forall>p \<in> set (od_put k v d). Q p"
  using set_od_put[of k v d] by blast

lemma sched_ok_put_queue:
  "sched_ok s \<Longrightarrow> ep \<in> fst ` set (sc_queues s) \<Longrightarrow> queue_entry_ok (ep, q) \<Longrightarrow>
     sc_queues s' = od_put ep q (sc_queues s) \<Longrightarrow> sc_active s' = sc_active s \<Longrightarrow> sched_ok s'"
  using put_entries[of "sc_queues s" queue_entry_ok ep q] by (simp add: sched_ok_def insert_absorb)

lemma sched_ok_put_active:
  "sched_ok s \<Longrightarrow> ep \<in> fst ` set (sc_queues s) \<Longrightarrow> active_entry_ok (ep, m) \<Longrightarrow>
     sc_queues s' = sc_queues s \<Longrightarrow> sc_active s' = od_put ep m (sc_active s) \<Longrightarrow> sched_ok s'"
  using put_entries[of "sc_active s" active_entry_ok ep m] by (simp add: sched_ok_def insert_absorb)

lemma sched_ok_cong:
  "sched_ok s \<Longrightarrow> sc_queues s' = sc_queues s \<Longrightarrow> sc_active s' = sc_active s \<Longrightarrow> sched_ok s'"
  by (simp add: sched_ok_def)

lemma ensure_endpoint_ok [step_keeps]:
  assumes "sched_ok s" shows "sched_ok (ensure_endpoint ep s)"
proof (cases "ep \<in> fst ` set (sc_queues s)")
  case False
  then have "ep \<notin> fst ` set (sc_active s)" using assms by (simp add: sched_ok_def)
  then show ?thesis
    using False assms put_entries[of "sc_queues s" queue_entry_ok ep new_queue]
      put_entries[of "sc_active s" active_entry_ok ep "[]"]
    by (simp add: ensure_endpoint_def sched_ok_def queue_entry_ok_def active_entry_ok_def)
qed (use assms in \<open>simp add: ensure_endpoint_def\<close>)

lemma ensure_endpoint_key [simp]: "ep \<in> fst ` set (sc_queues (ensure_endpoint ep s))"
  by (simp add: ensure_endpoint_def)

lemma active_of_ensure: "sched_ok s \<Longrightarrow> active_of (ensure_endpoint ep s) ep' = active_of s ep'"
  by (auto simp: ensure_endpoint_def od_get_or_def sched_ok_def od_get_None_iff[symmetric])

lemma enqueue_entry_ok:
  "queue_entry_ok (ep, q) \<Longrightarrow> rq_endpoint r = ep \<Longrightarrow> queue_entry_ok (ep, eq_enqueue r q)"
  by (simp add: queue_entry_ok_def eq_enqueue_ok queue_reqs_enqueue)

lemma sched_enqueue_ok [step_keeps]:
  assumes "sched_ok s" shows "sched_ok (fst (sched_enqueue env r s))"
proof -
  let ?s1 = "ensure_budget r (ensure_endpoint (rq_endpoint r) s)"
  have s1: "sched_ok ?s1" by (rule sched_ok_cong[OF ensure_endpoint_ok[OF assms]]) simp_all
  show ?thesis
  proof (rule sched_enqueue_cases[of env r s])
    fix n cost
    let ?r' = "r\<lparr>est_input_tokens := n, estimated_cost_ss := cost\<rparr>"
    assume "sched_enqueue env r s = (let s1 = ?s1; r' = ?r' in
        (set_queue (rq_endpoint r) (eq_enqueue r' (queue_of s1 (rq_endpoint r))) s1, Inr r'))"
    then have eq: "fst (sched_enqueue env r s) =
        set_queue (rq_endpoint r) (eq_enqueue ?r' (queue_of ?s1 (rq_endpoint r))) ?s1"
      by (simp add: Let_def)
    show ?thesis unfolding eq
      by (rule sched_ok_put_queue[OF s1 _ enqueue_entry_ok[OF sched_ok_queue[OF s1]]]) simp_all
  qed (simp add: s1)
qed

lemma dequeue_entry_ok:
  assumes "queue_entry_ok (ep, q)" shows "queue_entry_ok (ep, fst (eq_dequeue b a q))"
proof (cases "eq_peek b a q")
  case None
  then show ?thesis using assms by (simp add: dequeue_slot peek_slot split: list.splits)
next
  case (Some r)
  have "queue_ok q" using assms by (simp add: queue_entry_ok_def)
  from queue_reqs_dequeue[OF this Some]
  have "set_mset (queue_reqs (fst (eq_dequeue b a q))) \<subseteq> set_mset (queue_reqs q)" by (metis set_mset_add_mset_insert subset_insertI)
  then show ?thesis using assms eq_dequeue_ok[OF \<open>queue_ok q\<close>] by (auto simp: queue_entry_ok_def)
qed

lemma rotate_entry_ok: "queue_entry_ok (ep, q) \<Longrightarrow> queue_entry_ok (ep, rotate_robin b q)"
  by (simp add: queue_entry_ok_def rotate_robin_ok)

lemma peek_key:
  "eq_peek b a (queue_of s ep) = Some r \<Longrightarrow> ep \<in> fst ` set (sc_queues s)"
  by (cases "od_get (sc_queues s) ep")
    (auto simp: od_get_or_def eq_peek_def new_queue_def dest: od_get_Some_in intro: rev_image_eqI)

lemma peek_in_reqs: "queue_ok q \<Longrightarrow> eq_peek b a q = Some r \<Longrightarrow> r \<in># queue_reqs q"
  using queue_reqs_dequeue[of q b a r] by (metis union_single_eq_member)

subsection \<open>Every move keeps the state well formed\<close>

lemma dispatch_head_ok:
  assumes "sched_ok (lp_sched l)" "eq_peek b aid (queue_of (lp_sched l) ep) = Some r"
  shows "sched_ok (lp_sched (dispatch_head now ep b aid occ l))"
proof -
  let ?s = "lp_sched l"
  have key: "ep \<in> fst ` set (sc_queues ?s)" by (rule peek_key[OF assms(2)])
  have qok: "queue_ok (queue_of ?s ep)" by (rule sched_ok_queue_ok[OF assms(1)])
  have "r \<in># queue_reqs (queue_of ?s ep)" by (rule peek_in_reqs[OF qok assms(2)])
  then have ep: "rq_endpoint r = ep" using sched_ok_queue[OF assms(1), of ep] by (simp add: queue_entry_ok_def)
  let ?ar = "\<lparr>ar_request = r, dispatched_at = now, estimated_remaining_s = estimated_cost_ss r\<rparr>"
  have act: "active_entry_ok (ep, od_put (request_id r) ?ar (active_of ?s ep))"
    using sched_ok_active[OF assms(1), of ep] set_od_put[of "request_id r" ?ar "active_of ?s ep"] ep
    by (auto simp: active_entry_ok_def)
  let ?s1 = "set_queue ep (rotate_robin b (fst (eq_dequeue b aid (queue_of ?s ep)))) ?s"
  have "sched_ok ?s1"
    by (rule sched_ok_put_queue[OF assms(1) key rotate_entry_ok[OF dequeue_entry_ok[OF sched_ok_queue[OF assms(1)]]]]) simp_all
  then show ?thesis
    by (rule sched_ok_put_active[OF _ _ act]) (simp_all add: dispatch_head_eq[OF assms(2) qok] Let_def)
qed

text \<open>The state a spill leaves: the head dequeued, counted, and enqueued at the target.\<close>

definition spilled_state :: "sched_env \<Rightarrow> string \<Rightarrow> priority_band \<Rightarrow> string \<Rightarrow> string \<Rightarrow> queued_request \<Rightarrow> scheduler \<Rightarrow> scheduler \<times> queued_request py" where
  "spilled_state env ep b aid tgt r s =
     (let s1 = set_queue ep (fst (eq_dequeue b aid (queue_of s ep))) s in
      sched_enqueue env (respill s1 r tgt) (s1\<lparr>total_spilled := total_spilled s1 + 1\<rparr>))"

lemma spill_head_eq:
  assumes "eq_peek b aid (queue_of (lp_sched l) ep) = Some r" "queue_ok (queue_of (lp_sched l) ep)"
  shows "spill_head env ep b aid tgt l =
    (case spilled_state env ep b aid tgt r (lp_sched l) of
       (s2, Inl e) \<Rightarrow> l\<lparr>lp_sched := s2, lp_error := Some e\<rparr>
     | (s2, Inr r') \<Rightarrow> l\<lparr>lp_sched := set_queue ep (rotate_robin b (queue_of s2 ep)) s2,
                          lp_events := lp_events l @ [OnSpill r' (rq_endpoint r) tgt]\<rparr>)"
proof -
  obtain q' where "eq_dequeue b aid (queue_of (lp_sched l) ep) = (q', Some r)"
    using fifo.peek_is_deq[OF assms(2), of b aid] assms(1)
    by (cases "eq_dequeue b aid (queue_of (lp_sched l) ep)") auto
  then show ?thesis
    by (simp add: spill_head_def spill_def spilled_state_def Let_def split: prod.split sum.split)
qed

lemma spilled_state_ok:
  assumes "sched_ok s" "eq_peek b aid (queue_of s ep) = Some r"
  shows "sched_ok (fst (spilled_state env ep b aid tgt r s))"
proof -
  let ?s1 = "set_queue ep (fst (eq_dequeue b aid (queue_of s ep))) s"
  have "sched_ok ?s1"
    by (rule sched_ok_put_queue[OF assms(1) peek_key[OF assms(2)] dequeue_entry_ok[OF sched_ok_queue[OF assms(1)]]]) simp_all
  then have "sched_ok (?s1\<lparr>total_spilled := total_spilled ?s1 + 1\<rparr>)" by (rule sched_ok_cong) simp_all
  then show ?thesis unfolding spilled_state_def Let_def by (rule sched_enqueue_ok)
qed

lemma sched_enqueue_keys: "fst ` set (sc_queues s) \<subseteq> fst ` set (sc_queues (fst (sched_enqueue env r s)))"
  by (rule sched_enqueue_cases[of env r s]) (auto simp: Let_def ensure_endpoint_def)

lemma spilled_state_key:
  "ep \<in> fst ` set (sc_queues (fst (spilled_state env ep b aid tgt r s)))"
  unfolding spilled_state_def Let_def
  by (rule subsetD[OF sched_enqueue_keys]) simp

lemma spilled_state_config [simp]: "sc_config (fst (spilled_state env ep b aid tgt r s)) = sc_config s"
  by (simp add: spilled_state_def Let_def)

lemma rotate_ok:
  assumes "sched_ok s" "ep \<in> fst ` set (sc_queues s)"
  shows "sched_ok (set_queue ep (rotate_robin b (queue_of s ep)) s)"
  by (rule sched_ok_put_queue[OF assms rotate_entry_ok[OF sched_ok_queue[OF assms(1)]]]) simp_all

lemma spill_head_ok:
  assumes "sched_ok (lp_sched l)" "eq_peek b aid (queue_of (lp_sched l) ep) = Some r"
  shows "sched_ok (lp_sched (spill_head env ep b aid tgt l)) \<and>
         sc_config (lp_sched (spill_head env ep b aid tgt l)) = sc_config (lp_sched l)"
proof -
  obtain s2 res where st: "spilled_state env ep b aid tgt r (lp_sched l) = (s2, res)" by fastforce
  then have s2: "sched_ok s2" "ep \<in> fst ` set (sc_queues s2)" "sc_config s2 = sc_config (lp_sched l)"
    using spilled_state_ok[OF assms, of env tgt] spilled_state_key[of ep env b aid tgt r "lp_sched l"]
      spilled_state_config[of env ep b aid tgt r "lp_sched l"] by simp_all
  then show ?thesis
    using rotate_ok[OF s2(1,2), of b]
    by (cases res) (simp_all add: spill_head_eq[OF assms(2) sched_ok_queue_ok[OF assms(1)]] st)
qed

definition wf_inv :: "proxy_config \<Rightarrow> loop_state \<Rightarrow> bool" where
  "wf_inv cfg l = (sched_ok (lp_sched l) \<and> sc_config (lp_sched l) = cfg)"

lemma dispatch_head_config [simp]:
  "sc_config (lp_sched (dispatch_head now ep b aid occ l)) = sc_config (lp_sched l)"
  by (simp add: dispatch_head_def Let_def split: prod.split option.split)

interpretation wf: pass_invariant env now ep c n cfg "wf_inv cfg" for env now ep c n cfg
proof unfold_locales
  fix l b assume "wf_inv cfg l" "ep \<in> fst ` set (sc_queues (lp_sched l))"
  then show "wf_inv cfg (l\<lparr>lp_sched := set_queue ep (rotate_robin b (queue_of (lp_sched l) ep)) (lp_sched l)\<rparr>)"
    using rotate_ok by (simp add: wf_inv_def)
qed (auto simp: wf_inv_def intro: sched_ok_cong dispatch_head_ok dest: spill_head_ok)

end
