(* ===== verification/Scheduler_Safety.thy ===== *)
theory Scheduler_Safety
  imports Scheduler_Facts
begin

section \<open>Safety of the scheduler\<close>

text \<open>
  Three more interpretations of the dispatch contract: the slot bound, the conservation of
  requests, and the conditions under which a request is handed to remote capacity. Each is then
  lifted over the endpoints of a tick, and stated as a property of \<^verbatim>\<open>tick\<close>. The scheduler's
  operations as a step relation close the theory: every reachable state is well formed.
\<close>

subsection \<open>The slot bound\<close>

definition cap_inv :: "proxy_config \<Rightarrow> string \<Rightarrow> endpoint_config \<Rightarrow> int \<Rightarrow> scheduler \<Rightarrow> loop_state \<Rightarrow> bool" where
  "cap_inv cfg ep c n s0 l =
     (wf_inv cfg l \<and> (\<forall>ep'. ep' \<noteq> ep \<longrightarrow> active_of (lp_sched l) ep' = active_of s0 ep') \<and>
      int (length (active_of (lp_sched l) ep)) \<le> n + int (length (lp_decisions l)) \<and>
      (lp_decisions l \<noteq> [] \<longrightarrow> n + int (length (lp_decisions l)) \<le> effective_max_slots c))"

lemma admit_dispatch:
  "admit env s c r occ av tgt = Inr DISPATCH \<longleftrightarrow> 0 < max_slots c \<and> 0 < av \<and> occ < effective_max_slots c"
  by (auto simp: admit_def py_bind_Inr split: option.split sum.split)

lemma dispatch_head_fields:
  assumes "sched_ok (lp_sched l)" "eq_peek b aid (queue_of (lp_sched l) ep) = Some r"
  shows "length (lp_decisions (dispatch_head now ep b aid occ l)) = Suc (length (lp_decisions l))"
    "length (active_of (lp_sched (dispatch_head now ep b aid occ l)) ep) \<le> Suc (length (active_of (lp_sched l) ep))"
    "ep' \<noteq> ep \<Longrightarrow> active_of (lp_sched (dispatch_head now ep b aid occ l)) ep' = active_of (lp_sched l) ep'"
  by (simp_all add: dispatch_head_eq[OF assms(2) sched_ok_queue_ok[OF assms(1)]] Let_def length_od_put)

lemma sched_enqueue_active: "sched_ok s \<Longrightarrow> active_of (fst (sched_enqueue env r s)) ep = active_of s ep"
  by (rule sched_enqueue_cases[of env r s]) (simp_all add: Let_def active_of_ensure)

lemma dequeued_ok:
  assumes "sched_ok s" "eq_peek b aid (queue_of s ep) = Some r"
  shows "sched_ok (set_queue ep (fst (eq_dequeue b aid (queue_of s ep))) s)"
  by (rule sched_ok_put_queue[OF assms(1) peek_key[OF assms(2)] dequeue_entry_ok[OF sched_ok_queue[OF assms(1)]]]) simp_all

lemma spilled_state_active:
  assumes "sched_ok s" "eq_peek b aid (queue_of s ep) = Some r"
  shows "active_of (fst (spilled_state env ep b aid tgt r s)) ep' = active_of s ep'"
proof -
  let ?s1 = "set_queue ep (fst (eq_dequeue b aid (queue_of s ep))) s"
  have "sched_ok (?s1\<lparr>total_spilled := total_spilled ?s1 + 1\<rparr>)"
    by (rule sched_ok_cong[OF dequeued_ok[OF assms]]) simp_all
  then show ?thesis by (simp add: spilled_state_def Let_def sched_enqueue_active)
qed

lemma spill_head_fields:
  assumes "sched_ok (lp_sched l)" "eq_peek b aid (queue_of (lp_sched l) ep) = Some r"
  shows "active_of (lp_sched (spill_head env ep b aid tgt l)) ep' = active_of (lp_sched l) ep'"
    "lp_decisions (spill_head env ep b aid tgt l) = lp_decisions l"
  using spilled_state_active[OF assms, of env tgt ep']
  by (simp_all add: spill_head_eq[OF assms(2) sched_ok_queue_ok[OF assms(1)]] split: prod.split sum.split)
    (metis fst_conv)+

interpretation cap: pass_invariant env now ep c n cfg "cap_inv cfg ep c n s0" for env now ep c n cfg s0
proof unfold_locales
  fix l b aid r tgt
  assume P: "cap_inv cfg ep c n s0 l" and pk: "eq_peek b aid (queue_of (lp_sched l) ep) = Some r"
  have ok: "sched_ok (lp_sched l)" and wf: "wf_inv cfg l" using P by (auto simp: cap_inv_def wf_inv_def)
  {
    assume adm: "admit env (lp_sched l) c r (n + int (length (lp_decisions l))) (lp_available l) tgt = Inr DISPATCH"
    let ?l' = "dispatch_head now ep b aid (n + int (length (lp_decisions l))) l"
    have "int (length (active_of (lp_sched ?l') ep)) \<le> 1 + int (length (active_of (lp_sched l) ep))"
      using dispatch_head_fields(2)[OF ok pk, of now "n + int (length (lp_decisions l))"] by linarith
    then have "int (length (active_of (lp_sched ?l') ep)) \<le> n + int (Suc (length (lp_decisions l)))"
      using P by (simp add: cap_inv_def)
    then show "cap_inv cfg ep c n s0 ?l'"
      using P wf.dispatched[OF wf pk adm] adm dispatch_head_fields(1,3)[OF ok pk]
      by (simp add: cap_inv_def admit_dispatch)
  next
    assume adm: "admit env (lp_sched l) c r (n + int (length (lp_decisions l))) (lp_available l) tgt = Inr SPILL"
      "target_ok env cfg c tgt"
    show "cap_inv cfg ep c n s0 (spill_head env ep b aid tgt l)"
      using P wf.spilled[OF wf pk adm(2,1)] spill_head_fields[OF ok pk] by (simp add: cap_inv_def)
  }
qed (auto simp: cap_inv_def dest: wf.config intro: wf.picked wf.rotated wf.failed wf.opened)

subsection \<open>From passes to a tick\<close>

definition start_loop :: "scheduler \<Rightarrow> loop_state" where
  "start_loop s = \<lparr>lp_sched = s, lp_decisions = [], lp_available = 0, lp_events = [], lp_error = None\<rparr>"

lemma start_loop_simps [simp]:
  "lp_sched (start_loop s) = s" "lp_decisions (start_loop s) = []" "lp_events (start_loop s) = []"
  "lp_error (start_loop s) = None"
  by (simp_all add: start_loop_def)

lemma dispatch_endpoint_cases:
  "dispatch_endpoint env now ep c s = start_loop s \<or>
   healthy env ep \<and> dispatch_endpoint env now ep c s =
     fold (band_pass env now ep c (int (length (active_of s ep)))) all_bands (start_loop s)"
  by (auto simp: dispatch_endpoint_def start_loop_def Let_def)

lemma dispatch_endpoint_wf:
  assumes "sched_ok s" shows "wf_inv (sc_config s) (dispatch_endpoint env now ep c s)"
proof -
  have "wf_inv (sc_config s) (start_loop s)" using assms by (simp add: wf_inv_def)
  then show ?thesis
    using dispatch_endpoint_cases[of env now ep c s] wf.bands_keep[of "sc_config s" "start_loop s"] by metis
qed

lemma dispatch_endpoint_cap:
  assumes "sched_ok s"
  shows "int (length (active_of (lp_sched (dispatch_endpoint env now ep c s)) ep))
           \<le> max (int (length (active_of s ep))) (effective_max_slots c)"
    "ep' \<noteq> ep \<Longrightarrow> active_of (lp_sched (dispatch_endpoint env now ep c s)) ep' = active_of s ep'"
proof -
  let ?n = "int (length (active_of s ep))"
  have "cap_inv (sc_config s) ep c ?n s (start_loop s)" using assms by (simp add: cap_inv_def wf_inv_def)
  from cap.bands_keep[OF this, of env now all_bands] dispatch_endpoint_cases[of env now ep c s]
    \<open>cap_inv (sc_config s) ep c ?n s (start_loop s)\<close>
  have "cap_inv (sc_config s) ep c ?n s (dispatch_endpoint env now ep c s)" by metis
  note inv = this[unfolded cap_inv_def]
  show "int (length (active_of (lp_sched (dispatch_endpoint env now ep c s)) ep)) \<le> max ?n (effective_max_slots c)"
    using inv by (cases "lp_decisions (dispatch_endpoint env now ep c s) = []") auto
  show "ep' \<noteq> ep \<Longrightarrow> active_of (lp_sched (dispatch_endpoint env now ep c s)) ep' = active_of s ep'"
    using inv by blast
qed

lemma dispatch_next_sched:
  "lp_sched (dispatch_next env now epc l) =
     (if lp_error l = None then lp_sched (dispatch_endpoint env now (fst epc) (snd epc) (lp_sched l)) else lp_sched l)"
  by (simp add: dispatch_next_def Let_def)

lemma dispatch_next_wf: "wf_inv cfg l \<Longrightarrow> wf_inv cfg (dispatch_next env now epc l)"
  using dispatch_endpoint_wf[of "lp_sched l" env now "fst epc" "snd epc"]
  by (auto simp: wf_inv_def dispatch_next_sched)

lemma dispatch_all_wf: "wf_inv cfg l \<Longrightarrow> wf_inv cfg (fold (dispatch_next env now) eps l)"
  by (induction eps arbitrary: l) (auto intro: dispatch_next_wf)

lemma dispatch_all_cap:
  assumes "wf_inv cfg l" "od_ok eps"
  shows "(\<forall>(ep, c) \<in> set eps. int (length (active_of (lp_sched (fold (dispatch_next env now) eps l)) ep))
            \<le> max (int (length (active_of (lp_sched l) ep))) (effective_max_slots c)) \<and>
         (\<forall>ep. ep \<notin> fst ` set eps \<longrightarrow> active_of (lp_sched (fold (dispatch_next env now) eps l)) ep = active_of (lp_sched l) ep)"
  using assms
proof (induction eps arbitrary: l)
  case (Cons epc eps)
  obtain ep c where epc: "epc = (ep, c)" by (cases epc)
  let ?l1 = "dispatch_next env now epc l"
  have ok: "sched_ok (lp_sched l)" using Cons.prems by (simp add: wf_inv_def)
  have one: "int (length (active_of (lp_sched ?l1) ep)) \<le> max (int (length (active_of (lp_sched l) ep))) (effective_max_slots c)"
    using dispatch_endpoint_cap(1)[OF ok, of env now ep c] by (simp add: dispatch_next_sched epc)
  have oth: "ep' \<noteq> ep \<Longrightarrow> active_of (lp_sched ?l1) ep' = active_of (lp_sched l) ep'" for ep'
    using dispatch_endpoint_cap(2)[OF ok, of ep' ep env now c] by (simp add: dispatch_next_sched epc)
  have IH: "(\<forall>(ep, c) \<in> set eps. int (length (active_of (lp_sched (fold (dispatch_next env now) eps ?l1)) ep))
            \<le> max (int (length (active_of (lp_sched ?l1) ep))) (effective_max_slots c)) \<and>
         (\<forall>ep. ep \<notin> fst ` set eps \<longrightarrow> active_of (lp_sched (fold (dispatch_next env now) eps ?l1)) ep = active_of (lp_sched ?l1) ep)"
    by (rule Cons.IH[OF dispatch_next_wf[OF Cons.prems(1)]]) (use Cons.prems in simp)
  have new: "ep \<notin> fst ` set eps" using Cons.prems(2) epc by simp
  have here: "active_of (lp_sched (fold (dispatch_next env now) eps ?l1)) ep = active_of (lp_sched ?l1) ep"
    using IH new by blast
  have rest: "int (length (active_of (lp_sched (fold (dispatch_next env now) eps ?l1)) ep'))
      \<le> max (int (length (active_of (lp_sched l) ep'))) (effective_max_slots c')" if "(ep', c') \<in> set eps" for ep' c'
  proof -
    have "ep' \<noteq> ep" using that new by force
    with IH that oth show ?thesis by fastforce
  qed
  have out: "active_of (lp_sched (fold (dispatch_next env now) eps ?l1)) ep' = active_of (lp_sched l) ep'"
    if "ep' \<notin> fst ` set (epc # eps)" for ep'
  proof -
    have "ep' \<noteq> ep" "ep' \<notin> fst ` set eps" using that by (simp_all add: epc)
    then show ?thesis using conjunct2[OF IH, rule_format, of ep'] oth[of ep'] by simp
  qed
  have "\<forall>(ep', c') \<in> set (epc # eps). int (length (active_of (lp_sched (fold (dispatch_next env now) eps ?l1)) ep'))
      \<le> max (int (length (active_of (lp_sched l) ep'))) (effective_max_slots c')"
    using rest one here by (simp add: epc case_prod_unfold)
  then show ?case using out by (simp only: fold.simps comp_apply) blast
qed simp

text \<open>Expiry touches queues and counters only.\<close>

definition expiry_ok :: "scheduler \<Rightarrow> scheduler \<times> event list \<Rightarrow> bool" where
  "expiry_ok s0 acc = (sched_ok (fst acc) \<and> sc_config (fst acc) = sc_config s0 \<and>
     sc_active (fst acc) = sc_active s0 \<and> fst ` set (sc_queues (fst acc)) = fst ` set (sc_queues s0) \<and>
     sc_budgets (fst acc) = sc_budgets s0 \<and> sc_cost (fst acc) = sc_cost s0)"

lemma expire_entry_ok:
  assumes "queue_entry_ok (ep, q)" shows "queue_entry_ok (ep, fst (expire_before t q))"
  using assms expire_before_facts[of q t]
  by (auto simp: queue_entry_ok_def) (metis union_iff)

lemma expire_endpoint_ok:
  assumes "expiry_ok s0 acc" "ep \<in> fst ` set (sc_queues s0)"
  shows "expiry_ok s0 (expire_endpoint now ep acc)"
proof -
  obtain s evs where acc: "acc = (s, evs)" by (cases acc)
  have ok: "sched_ok s" and key: "ep \<in> fst ` set (sc_queues s)" using assms by (auto simp: expiry_ok_def acc)
  obtain q' ex where q: "expire_before now (queue_of s ep) = (q', ex)" by fastforce
  have "queue_entry_ok (ep, q')" using expire_entry_ok[OF sched_ok_queue[OF ok], of ep now] q by simp
  then have "sched_ok ((set_queue ep q' s)\<lparr>total_timeouts := total_timeouts s + int (length ex)\<rparr>)"
    by (rule sched_ok_put_queue[OF ok key]) simp_all
  then show ?thesis
    using assms key by (simp add: expire_endpoint_def acc q Let_def expiry_ok_def insert_absorb)
qed

lemma expire_fold_ok:
  "expiry_ok s0 acc \<Longrightarrow> set eps \<subseteq> fst ` set (sc_queues s0) \<Longrightarrow> expiry_ok s0 (fold (expire_endpoint now) eps acc)"
  by (induction eps arbitrary: acc) (simp_all add: expire_endpoint_ok del: split_paired_All)

lemma expire_all_ok: "sched_ok s \<Longrightarrow> expiry_ok s (expire_all now s)"
  unfolding expire_all_def by (rule expire_fold_ok) (simp_all add: expiry_ok_def)

text \<open>A tick, unfolded once: replenish, expire, then the passes.\<close>

definition after_expiry :: "real \<Rightarrow> scheduler \<Rightarrow> scheduler" where
  "after_expiry now s = fst (expire_all now (s\<lparr>sc_budgets := replenish now (sc_budgets s)\<rparr>))"

definition tick_start :: "real \<Rightarrow> scheduler \<Rightarrow> loop_state" where
  "tick_start now s = \<lparr>lp_sched = after_expiry now s, lp_decisions = [], lp_available = 0,
     lp_events = snd (expire_all now (s\<lparr>sc_budgets := replenish now (sc_budgets s)\<rparr>)), lp_error = None\<rparr>"

lemma after_expiry_facts:
  assumes "sched_ok s"
  shows "sched_ok (after_expiry now s)" "sc_config (after_expiry now s) = sc_config s"
    "sc_active (after_expiry now s) = sc_active s" "sc_cost (after_expiry now s) = sc_cost s"
    "fst ` set (sc_queues (after_expiry now s)) = fst ` set (sc_queues s)"
  using expire_all_ok[of "s\<lparr>sc_budgets := replenish now (sc_budgets s)\<rparr>" now] sched_ok_cong[OF assms]
  by (simp_all add: after_expiry_def expiry_ok_def)

lemma tick_eq:
  assumes "sched_ok s"
  shows "tick env now s = fold (dispatch_next env now) (endpoints (sc_config s)) (tick_start now s)"
  using after_expiry_facts(2)[OF assms, of now]
  by (simp add: tick_def tick_start_def after_expiry_def Let_def case_prod_unfold)

lemma tick_start_wf: "sched_ok s \<Longrightarrow> wf_inv (sc_config s) (tick_start now s)"
  by (simp add: wf_inv_def tick_start_def after_expiry_facts)

lemma tick_wf: "sched_ok s \<Longrightarrow> wf_inv (sc_config s) (tick env now s)"
  by (simp add: tick_eq dispatch_all_wf tick_start_wf)

lemma tick_cap:
  assumes "sched_ok s" "od_ok (endpoints (sc_config s))" "(ep, c) \<in> set (endpoints (sc_config s))"
  shows "int (length (active_of (lp_sched (tick env now s)) ep))
           \<le> max (int (length (active_of s ep))) (effective_max_slots c)"
proof -
  have "int (length (active_of (lp_sched (tick env now s)) ep))
      \<le> max (int (length (active_of (lp_sched (tick_start now s)) ep))) (effective_max_slots c)"
    unfolding tick_eq[OF assms(1)]
    using conjunct1[OF dispatch_all_cap[OF tick_start_wf[OF assms(1)] assms(2)]] assms(3) by fast
  then show ?thesis by (simp add: tick_start_def after_expiry_facts(3)[OF assms(1)])
qed

text \<open>Slots are never oversubscribed. For every well-formed state, every environment and every
  mixture of queued work, after a tick the number of requests in flight on each configured endpoint
  is at most its effective slot count, or what it already was when a lowered cap left it above.\<close>

lemma slots_never_oversubscribed:
  assumes "sched_ok s" "od_ok (endpoints (sc_config s))" "(ep, c) \<in> set (endpoints (sc_config s))"
  shows "int (length (active_of (lp_sched (tick env now s)) ep))
           \<le> max (int (length (active_of s ep))) (effective_max_slots c)"
  by (rule tick_cap[OF assms])

lemma demo_sched_ok: "sched_ok demo_sched"
  unfolding demo_sched_def
  by (intro sched_enqueue_ok) (simp add: sched_ok_def new_scheduler_def demo_config_def queue_entry_ok_def active_entry_ok_def)

lemma demo_sched_config [simp]: "sc_config demo_sched = demo_config"
  by (simp add: demo_sched_def new_scheduler_def)

lemma slots_never_oversubscribed_witness:
  "length (active_of (lp_sched (tick demo_env 1 demo_sched)) ''chat'') = 1 \<and>
   int (length (active_of (lp_sched (tick demo_env 1 demo_sched)) ''chat'')) \<le> 1"
proof -
  have "active_of demo_sched ''chat'' = []" by code_simp
  then have "int (length (active_of (lp_sched (tick demo_env 1 demo_sched)) ''chat'')) \<le> 1"
    using slots_never_oversubscribed[OF demo_sched_ok, of "''chat''" "(demo_endpoint ''chat'' 1)\<lparr>spill_to := ''remote''\<rparr>" demo_env 1]
    by (simp add: demo_config_def demo_endpoint_def effective_max_slots_def)
  moreover have "length (active_of (lp_sched (tick demo_env 1 demo_sched)) ''chat'') = 1" by code_simp
  ultimately show ?thesis by blast
qed

subsection \<open>Conservation of requests\<close>

definition queued_reqs :: "scheduler \<Rightarrow> queued_request multiset" where
  "queued_reqs s = (\<Sum>p\<leftarrow>sc_queues s. queue_reqs (snd p))"

definition map_reqs :: "active_map \<Rightarrow> queued_request multiset" where
  "map_reqs m = (\<Sum>x\<leftarrow>m. {#ar_request (snd x)#})"

definition active_reqs :: "scheduler \<Rightarrow> queued_request multiset" where
  "active_reqs s = (\<Sum>p\<leftarrow>sc_active s. map_reqs (snd p))"

text \<open>The identifiers of everything the scheduler holds, queued or in flight.\<close>

definition held_ids :: "scheduler \<Rightarrow> string multiset" where
  "held_ids s = image_mset request_id (queued_reqs s + active_reqs s)"

lemma queued_reqs_put:
  assumes "od_ok (sc_queues s)" "sc_queues s' = od_put ep q (sc_queues s)"
  shows "queued_reqs s' + queue_reqs (queue_of s ep) = queued_reqs s + queue_reqs q"
proof (cases "od_get (sc_queues s) ep")
  case None
  then show ?thesis
    using sum_list_od_put_new[of ep "sc_queues s" "\<lambda>p. queue_reqs (snd p)" q] od_get_None_iff[of "sc_queues s" ep]
    by (simp add: queued_reqs_def assms(2) od_get_or_def)
next
  case (Some q0)
  then show ?thesis
    using sum_list_od_put_old[OF assms(1) Some, of "\<lambda>p. queue_reqs (snd p)" q]
    by (simp add: queued_reqs_def assms(2) od_get_or_def)
qed

lemma active_reqs_put:
  assumes "od_ok (sc_active s)" "sc_active s' = od_put ep m (sc_active s)"
  shows "active_reqs s' + map_reqs (active_of s ep) = active_reqs s + map_reqs m"
proof (cases "od_get (sc_active s) ep")
  case None
  then show ?thesis
    using sum_list_od_put_new[of ep "sc_active s" "\<lambda>p. map_reqs (snd p)" m] od_get_None_iff[of "sc_active s" ep]
    by (simp add: active_reqs_def assms(2) od_get_or_def map_reqs_def)
next
  case (Some m0)
  then show ?thesis
    using sum_list_od_put_old[OF assms(1) Some, of "\<lambda>p. map_reqs (snd p)" m]
    by (simp add: active_reqs_def assms(2) od_get_or_def)
qed

lemma map_reqs_put_new: "k \<notin> fst ` set m \<Longrightarrow> map_reqs (od_put k ar m) = add_mset (ar_request ar) (map_reqs m)"
  by (simp add: map_reqs_def keys_put_new)

lemma queue_of_sub:
  assumes "r \<in># queue_reqs (queue_of s ep)" shows "r \<in># queued_reqs s"
proof (cases "od_get (sc_queues s) ep")
  case (Some q)
  then show ?thesis
    using assms od_get_Some_in[OF Some] by (force simp: queued_reqs_def od_get_or_def)
qed (use assms in \<open>simp add: od_get_or_def\<close>)

lemma active_id_held:
  assumes "sched_ok s" "k \<in> fst ` set (active_of s ep)"
  shows "\<exists>r \<in># active_reqs s. request_id r = k"
proof (cases "od_get (sc_active s) ep")
  case (Some m)
  obtain ar where ar: "(k, ar) \<in> set m" using assms(2) Some by (auto simp: od_get_or_def)
  have "request_id (ar_request ar) = k"
    using sched_ok_active[OF assms(1), of ep] ar Some by (auto simp: active_entry_ok_def od_get_or_def)
  moreover have "ar_request ar \<in># active_reqs s"
    using ar od_get_Some_in[OF Some] by (force simp: active_reqs_def map_reqs_def)
  ultimately show ?thesis by blast
qed (use assms in \<open>simp add: od_get_or_def\<close>)

lemma queued_id_not_active:
  assumes "sched_ok s" "\<forall>x. count (held_ids s) x \<le> 1" "r \<in># queued_reqs s"
  shows "request_id r \<notin> fst ` set (active_of s ep)"
proof
  assume "request_id r \<in> fst ` set (active_of s ep)"
  then obtain r' where r': "r' \<in># active_reqs s" "request_id r' = request_id r"
    using active_id_held[OF assms(1)] by blast
  have "request_id r \<in># image_mset request_id (queued_reqs s)" using assms(3) by simp
  moreover have "request_id r \<in># image_mset request_id (active_reqs s)" using r' by (metis image_eqI set_image_mset)
  ultimately have "2 \<le> count (held_ids s) (request_id r)"
    unfolding held_ids_def image_mset_union count_union
    by (metis add_mono count_greater_eq_one_iff one_add_one)
  with assms(2) show False by (metis numeral_le_one_iff order_trans semiring_norm(69))
qed

lemma dispatch_head_queued:
  assumes "sched_ok (lp_sched l)" "eq_peek b aid (queue_of (lp_sched l) ep) = Some r"
  shows "add_mset r (queued_reqs (lp_sched (dispatch_head now ep b aid occ l))) = queued_reqs (lp_sched l)"
proof -
  let ?s = "lp_sched l" and ?s' = "lp_sched (dispatch_head now ep b aid occ l)"
  have qok: "queue_ok (queue_of ?s ep)" by (rule sched_ok_queue_ok[OF assms(1)])
  let ?q' = "rotate_robin b (fst (eq_dequeue b aid (queue_of ?s ep)))"
  have "queued_reqs ?s' + queue_reqs (queue_of ?s ep) = queued_reqs ?s + queue_reqs ?q'"
    by (rule queued_reqs_put)
      (use assms(1) in \<open>simp_all add: sched_ok_def dispatch_head_eq[OF assms(2) qok] Let_def\<close>)
  then show ?thesis unfolding queue_reqs_dequeue[OF qok assms(2), symmetric] by simp
qed

lemma dispatch_head_active:
  assumes "sched_ok (lp_sched l)" "eq_peek b aid (queue_of (lp_sched l) ep) = Some r"
    and "\<forall>x. count (held_ids (lp_sched l)) x \<le> 1"
  shows "active_reqs (lp_sched (dispatch_head now ep b aid occ l)) = add_mset r (active_reqs (lp_sched l))"
proof -
  let ?s = "lp_sched l" and ?s' = "lp_sched (dispatch_head now ep b aid occ l)"
  have qok: "queue_ok (queue_of ?s ep)" by (rule sched_ok_queue_ok[OF assms(1)])
  let ?ar = "\<lparr>ar_request = r, dispatched_at = now, estimated_remaining_s = estimated_cost_ss r\<rparr>"
  have od: "od_ok (sc_active ?s)" using assms(1) by (simp add: sched_ok_def)
  have sa: "sc_active ?s' = od_put ep (od_put (request_id r) ?ar (active_of ?s ep)) (sc_active ?s)"
    by (simp add: dispatch_head_eq[OF assms(2) qok] Let_def)
  have new: "request_id r \<notin> fst ` set (active_of ?s ep)"
    by (rule queued_id_not_active[OF assms(1,3) queue_of_sub[OF peek_in_reqs[OF qok assms(2)]]])
  have "active_reqs ?s' + map_reqs (active_of ?s ep)
      = active_reqs ?s + map_reqs (od_put (request_id r) ?ar (active_of ?s ep))"
    by (rule active_reqs_put[OF od sa])
  then show ?thesis unfolding map_reqs_put_new[OF new] by simp
qed

lemma dispatch_head_ids:
  assumes "sched_ok (lp_sched l)" "eq_peek b aid (queue_of (lp_sched l) ep) = Some r"
    and "\<forall>x. count (held_ids (lp_sched l)) x \<le> 1"
  shows "held_ids (lp_sched (dispatch_head now ep b aid occ l)) = held_ids (lp_sched l)"
  using arg_cong[OF dispatch_head_queued[OF assms(1,2), of now occ], of "image_mset request_id"]
  by (simp add: held_ids_def dispatch_head_active[OF assms])

lemma ensure_reqs:
  assumes "sched_ok s"
  shows "queued_reqs (ensure_budget r (ensure_endpoint ep s)) = queued_reqs s"
    "active_reqs (ensure_budget r (ensure_endpoint ep s)) = active_reqs s"
proof -
  have "ep \<in> fst ` set (sc_queues s) \<or> ep \<notin> fst ` set (sc_active s)" using assms by (auto simp: sched_ok_def)
  then show "queued_reqs (ensure_budget r (ensure_endpoint ep s)) = queued_reqs s"
    "active_reqs (ensure_budget r (ensure_endpoint ep s)) = active_reqs s"
    by (auto simp: queued_reqs_def active_reqs_def ensure_endpoint_def sum_list_od_put_new map_reqs_def)
qed

lemma sched_enqueue_active_reqs:
  "sched_ok s \<Longrightarrow> active_reqs (fst (sched_enqueue env r s)) = active_reqs s"
  using ensure_reqs(2)[of s r "rq_endpoint r"]
  by (rule_tac sched_enqueue_cases[of env r s]) (simp_all add: active_reqs_def Let_def)

lemma sched_enqueue_failed_ids:
  "sched_ok s \<Longrightarrow> snd (sched_enqueue env r s) = Inl e \<Longrightarrow> held_ids (fst (sched_enqueue env r s)) = held_ids s"
  by (rule sched_enqueue_cases[of env r s]) (simp_all add: Let_def held_ids_def ensure_reqs)

lemma sched_enqueue_ids:
  assumes "sched_ok s" "snd (sched_enqueue env r s) = Inr r'"
  shows "held_ids (fst (sched_enqueue env r s)) = add_mset (request_id r) (held_ids s)"
    "queued_reqs (fst (sched_enqueue env r s)) = add_mset r' (queued_reqs s)"
    "request_id r' = request_id r \<and> agent_id r' = agent_id r \<and> allow_spill r' = allow_spill r \<and>
     spilled_from r' = spilled_from r \<and> rq_endpoint r' = rq_endpoint r \<and> rq_payload r' = rq_payload r \<and>
     payload_type r' = payload_type r"
proof -
  let ?s1 = "ensure_budget r (ensure_endpoint (rq_endpoint r) s)"
  have s1: "sched_ok ?s1" by (rule sched_ok_cong[OF ensure_endpoint_ok[OF assms(1)]]) simp_all
  have h1: "queued_reqs ?s1 = queued_reqs s \<and> active_reqs ?s1 = active_reqs s" by (simp add: ensure_reqs assms(1))
  obtain n cost where e: "sched_enqueue env r s =
      (let s1 = ?s1; r' = r\<lparr>est_input_tokens := n, estimated_cost_ss := cost\<rparr>
       in (set_queue (rq_endpoint r) (eq_enqueue r' (queue_of s1 (rq_endpoint r))) s1, Inr r'))"
    using assms(2) by (rule_tac sched_enqueue_cases[of env r s]) auto
  let ?r = "r\<lparr>est_input_tokens := n, estimated_cost_ss := cost\<rparr>"
  let ?s2 = "set_queue (rq_endpoint r) (eq_enqueue ?r (queue_of ?s1 (rq_endpoint r))) ?s1"
  have "queued_reqs ?s2 + queue_reqs (queue_of ?s1 (rq_endpoint r))
      = queued_reqs ?s1 + queue_reqs (eq_enqueue ?r (queue_of ?s1 (rq_endpoint r)))"
    by (rule queued_reqs_put) (use s1 in \<open>simp_all add: sched_ok_def\<close>)
  then have q2: "queued_reqs ?s2 = add_mset ?r (queued_reqs ?s1)"
    unfolding queue_reqs_enqueue[OF sched_ok_queue_ok[OF s1]] by simp
  have "active_reqs ?s2 = active_reqs ?s1" by (simp add: active_reqs_def)
  with q2 show "held_ids (fst (sched_enqueue env r s)) = add_mset (request_id r) (held_ids s)"
    using h1 by (simp add: e Let_def held_ids_def)
  show "queued_reqs (fst (sched_enqueue env r s)) = add_mset r' (queued_reqs s)"
    using assms(2) q2 h1 by (simp add: e Let_def)
  show "request_id r' = request_id r \<and> agent_id r' = agent_id r \<and> allow_spill r' = allow_spill r \<and>
     spilled_from r' = spilled_from r \<and> rq_endpoint r' = rq_endpoint r \<and> rq_payload r' = rq_payload r \<and>
     payload_type r' = payload_type r"
    using assms(2) by (auto simp: e Let_def)
qed

lemma held_ids_cong:
  "sc_queues s' = sc_queues s \<Longrightarrow> sc_active s' = sc_active s \<Longrightarrow> held_ids s' = held_ids s"
  by (simp add: held_ids_def queued_reqs_def active_reqs_def)

lemma dequeued_ids:
  assumes "sched_ok s" "eq_peek b aid (queue_of s ep) = Some r"
  shows "add_mset (request_id r) (held_ids (set_queue ep (fst (eq_dequeue b aid (queue_of s ep))) s)) = held_ids s"
proof -
  let ?s' = "set_queue ep (fst (eq_dequeue b aid (queue_of s ep))) s"
  have "queued_reqs ?s' + queue_reqs (queue_of s ep) = queued_reqs s + queue_reqs (fst (eq_dequeue b aid (queue_of s ep)))"
    by (rule queued_reqs_put) (use assms(1) in \<open>simp_all add: sched_ok_def\<close>)
  then have "add_mset r (queued_reqs ?s') = queued_reqs s"
    unfolding queue_reqs_dequeue[OF sched_ok_queue_ok[OF assms(1)] assms(2), symmetric] by simp
  moreover have "active_reqs ?s' = active_reqs s" by (simp add: active_reqs_def)
  ultimately show ?thesis by (metis held_ids_def image_mset_add_mset union_mset_add_mset_left)
qed

lemma spilled_state_ids:
  assumes "sched_ok s" "eq_peek b aid (queue_of s ep) = Some r"
    and "snd (spilled_state env ep b aid tgt r s) = Inr r'"
  shows "held_ids (fst (spilled_state env ep b aid tgt r s)) = held_ids s"
proof -
  let ?s1 = "set_queue ep (fst (eq_dequeue b aid (queue_of s ep))) s"
  let ?s2 = "?s1\<lparr>total_spilled := total_spilled ?s1 + 1\<rparr>"
  have "sched_ok ?s2" by (rule sched_ok_cong[OF dequeued_ok[OF assms(1,2)]]) simp_all
  moreover have "snd (sched_enqueue env (respill ?s1 r tgt) ?s2) = Inr r'"
    using assms(3) by (simp add: spilled_state_def Let_def)
  ultimately have "held_ids (fst (sched_enqueue env (respill ?s1 r tgt) ?s2))
      = add_mset (request_id (respill ?s1 r tgt)) (held_ids ?s2)"
    by (rule sched_enqueue_ids(1))
  moreover have "held_ids ?s2 = held_ids ?s1" by (rule held_ids_cong) simp_all
  ultimately show ?thesis
    using dequeued_ids[OF assms(1,2)] by (simp add: spilled_state_def Let_def respill_def)
qed

lemma rotate_ids:
  assumes "sched_ok s" shows "held_ids (set_queue ep (rotate_robin b (queue_of s ep)) s) = held_ids s"
proof -
  let ?s' = "set_queue ep (rotate_robin b (queue_of s ep)) s"
  have "queued_reqs ?s' + queue_reqs (queue_of s ep) = queued_reqs s + queue_reqs (rotate_robin b (queue_of s ep))"
    by (rule queued_reqs_put) (use assms in \<open>simp_all add: sched_ok_def\<close>)
  then show ?thesis by (simp add: held_ids_def active_reqs_def)
qed

lemma spill_head_ids:
  assumes "sched_ok (lp_sched l)" "eq_peek b aid (queue_of (lp_sched l) ep) = Some r"
    and "lp_error (spill_head env ep b aid tgt l) = None"
  shows "held_ids (lp_sched (spill_head env ep b aid tgt l)) = held_ids (lp_sched l)"
proof -
  obtain s2 res where st: "spilled_state env ep b aid tgt r (lp_sched l) = (s2, res)" by fastforce
  note eq = spill_head_eq[OF assms(2) sched_ok_queue_ok[OF assms(1)], of env tgt, unfolded st]
  obtain r' where res: "res = Inr r'" using assms(3) eq by (cases res) auto
  have "sched_ok s2" using spilled_state_ok[OF assms(1,2), of env tgt] st by simp
  moreover have "held_ids s2 = held_ids (lp_sched l)"
    using spilled_state_ids[OF assms(1,2), of env tgt r'] st res by simp
  ultimately show ?thesis using rotate_ids by (simp add: eq res)
qed

definition ids_inv :: "proxy_config \<Rightarrow> string multiset \<Rightarrow> loop_state \<Rightarrow> bool" where
  "ids_inv cfg K l = (wf_inv cfg l \<and> (\<forall>x. count K x \<le> 1) \<and>
     (lp_error l = None \<longrightarrow> held_ids (lp_sched l) = K))"

lemma dispatch_head_error [simp]: "lp_error (dispatch_head now ep b aid occ l) = lp_error l"
  by (simp add: dispatch_head_def Let_def split: prod.split option.split)

lemma spill_head_error: "lp_error (spill_head env ep b aid tgt l) = None \<Longrightarrow> lp_error l = None"
  by (simp add: spill_head_def Let_def split: prod.splits option.splits)

interpretation ids: pass_invariant env now ep c n cfg "ids_inv cfg K" for env now ep c n cfg K
proof unfold_locales
  fix l b aid r tgt
  assume P: "ids_inv cfg K l" and pk: "eq_peek b aid (queue_of (lp_sched l) ep) = Some r"
  have ok: "sched_ok (lp_sched l)" and wf: "wf_inv cfg l" using P by (auto simp: ids_inv_def wf_inv_def)
  {
    assume adm: "admit env (lp_sched l) c r (n + int (length (lp_decisions l))) (lp_available l) tgt = Inr DISPATCH"
    show "ids_inv cfg K (dispatch_head now ep b aid (n + int (length (lp_decisions l))) l)"
      using P wf.dispatched[OF wf pk adm] dispatch_head_ids[OF ok pk] by (auto simp: ids_inv_def)
  next
    assume adm: "admit env (lp_sched l) c r (n + int (length (lp_decisions l))) (lp_available l) tgt = Inr SPILL"
      "target_ok env cfg c tgt"
    show "ids_inv cfg K (spill_head env ep b aid tgt l)"
      using P wf.spilled[OF wf pk adm(2,1)] spill_head_ids[OF ok pk] spill_head_error by (auto simp: ids_inv_def)
  }
next
  fix l b assume "ids_inv cfg K l" "ep \<in> fst ` set (sc_queues (lp_sched l))"
  then show "ids_inv cfg K (l\<lparr>lp_sched := set_queue ep (rotate_robin b (queue_of (lp_sched l) ep)) (lp_sched l)\<rparr>)"
    using wf.rotated[of cfg l ep b] rotate_ids[of "lp_sched l"] by (simp add: ids_inv_def wf_inv_def)
qed (auto simp: ids_inv_def held_ids_def queued_reqs_def active_reqs_def dest: wf.config intro: wf.picked wf.failed wf.opened)

text \<open>Expiry moves identifiers from the queues to the timeout events.\<close>

fun timeout_ids :: "event list \<Rightarrow> string multiset" where
  "timeout_ids [] = {#}"
| "timeout_ids (OnTimeout r # es) = add_mset (request_id r) (timeout_ids es)"
| "timeout_ids (_ # es) = timeout_ids es"

lemma timeout_ids_append [simp]: "timeout_ids (xs @ ys) = timeout_ids xs + timeout_ids ys"
  by (induction xs rule: timeout_ids.induct) simp_all

lemma timeout_ids_map [simp]: "timeout_ids (map OnTimeout rs) = image_mset request_id (mset rs)"
  by (induction rs) simp_all

lemma expire_endpoint_ids:
  assumes "expiry_ok s0 acc" "ep \<in> fst ` set (sc_queues s0)"
  shows "held_ids (fst (expire_endpoint now ep acc)) + timeout_ids (snd (expire_endpoint now ep acc))
       = held_ids (fst acc) + timeout_ids (snd acc)"
proof -
  obtain s evs where acc: "acc = (s, evs)" by (cases acc)
  have ok: "sched_ok s" using assms by (simp add: expiry_ok_def acc)
  obtain q' ex where q: "expire_before now (queue_of s ep) = (q', ex)" by fastforce
  let ?s' = "(set_queue ep q' s)\<lparr>total_timeouts := total_timeouts s + int (length ex)\<rparr>"
  have "queued_reqs ?s' + queue_reqs (queue_of s ep) = queued_reqs s + queue_reqs q'"
    by (rule queued_reqs_put) (use ok in \<open>simp_all add: sched_ok_def\<close>)
  moreover have "queue_reqs q' + mset ex = queue_reqs (queue_of s ep)"
    using expire_before_facts[OF sched_ok_queue_ok[OF ok, of ep], of now] q by simp
  ultimately have "queued_reqs ?s' + mset ex = queued_reqs s"
    by (metis add.assoc add.commute add_right_cancel)
  then have "image_mset request_id (queued_reqs ?s') + image_mset request_id (mset ex) = image_mset request_id (queued_reqs s)"
    by (metis image_mset_union)
  moreover have "active_reqs ?s' = active_reqs s" by (simp add: active_reqs_def)
  ultimately show ?thesis
    by (simp add: expire_endpoint_def acc q Let_def held_ids_def ac_simps)
qed

lemma expire_fold_ids:
  "expiry_ok s0 acc \<Longrightarrow> set eps \<subseteq> fst ` set (sc_queues s0) \<Longrightarrow>
     held_ids (fst (fold (expire_endpoint now) eps acc)) + timeout_ids (snd (fold (expire_endpoint now) eps acc))
       = held_ids (fst acc) + timeout_ids (snd acc)"
proof (induction eps arbitrary: acc)
  case (Cons ep eps)
  then show ?case
    using Cons.IH[OF expire_endpoint_ok[OF Cons.prems(1), of ep now]] expire_endpoint_ids[OF Cons.prems(1), of ep now]
    by simp
qed simp

lemma after_expiry_ids:
  assumes "sched_ok s"
  shows "held_ids (lp_sched (tick_start now s)) + timeout_ids (lp_events (tick_start now s)) = held_ids s"
proof -
  let ?s = "s\<lparr>sc_budgets := replenish now (sc_budgets s)\<rparr>"
  have "sched_ok ?s" by (rule sched_ok_cong[OF assms]) simp_all
  then have "expiry_ok ?s (?s, [])" by (simp add: expiry_ok_def)
  from expire_fold_ids[OF this, of "od_keys (sc_queues ?s)" now]
  show ?thesis
    using held_ids_cong[of ?s s] by (simp add: tick_start_def after_expiry_def expire_all_def)
qed

text \<open>The passes report no timeouts, so the events of a tick name every expired request.\<close>

definition no_timeouts_inv :: "proxy_config \<Rightarrow> loop_state \<Rightarrow> bool" where
  "no_timeouts_inv cfg l = (wf_inv cfg l \<and> timeout_ids (lp_events l) = {#})"

lemma dispatch_head_events:
  assumes "sched_ok (lp_sched l)" "eq_peek b aid (queue_of (lp_sched l) ep) = Some r"
  shows "\<exists>d. lp_events (dispatch_head now ep b aid occ l) = lp_events l @ [OnDispatch d] \<and> dd_request d = r \<and>
     lp_decisions (dispatch_head now ep b aid occ l) = lp_decisions l @ [d]"
  by (simp add: dispatch_head_eq[OF assms(2) sched_ok_queue_ok[OF assms(1)]] Let_def)

lemma spill_head_events:
  assumes "sched_ok (lp_sched l)" "eq_peek b aid (queue_of (lp_sched l) ep) = Some r"
  shows "lp_events (spill_head env ep b aid tgt l) = lp_events l \<or>
    (\<exists>r'. snd (spilled_state env ep b aid tgt r (lp_sched l)) = Inr r' \<and>
          lp_events (spill_head env ep b aid tgt l) = lp_events l @ [OnSpill r' (rq_endpoint r) tgt])"
  by (cases "spilled_state env ep b aid tgt r (lp_sched l)"; cases "snd (spilled_state env ep b aid tgt r (lp_sched l))")
    (simp_all add: spill_head_eq[OF assms(2) sched_ok_queue_ok[OF assms(1)]])

interpretation quiet: pass_invariant env now ep c n cfg "no_timeouts_inv cfg" for env now ep c n cfg
proof unfold_locales
  fix l b aid r tgt
  assume P: "no_timeouts_inv cfg l" and pk: "eq_peek b aid (queue_of (lp_sched l) ep) = Some r"
  have ok: "sched_ok (lp_sched l)" and wf: "wf_inv cfg l" using P by (auto simp: no_timeouts_inv_def wf_inv_def)
  {
    assume adm: "admit env (lp_sched l) c r (n + int (length (lp_decisions l))) (lp_available l) tgt = Inr DISPATCH"
    show "no_timeouts_inv cfg (dispatch_head now ep b aid (n + int (length (lp_decisions l))) l)"
      using P wf.dispatched[OF wf pk adm] dispatch_head_events[OF ok pk, of now "n + int (length (lp_decisions l))"]
      by (auto simp: no_timeouts_inv_def)
  next
    assume adm: "admit env (lp_sched l) c r (n + int (length (lp_decisions l))) (lp_available l) tgt = Inr SPILL"
      "target_ok env cfg c tgt"
    show "no_timeouts_inv cfg (spill_head env ep b aid tgt l)"
      using P wf.spilled[OF wf pk adm(2,1)] spill_head_events[OF ok pk, of env tgt] by (auto simp: no_timeouts_inv_def)
  }
qed (auto simp: no_timeouts_inv_def dest: wf.config intro: wf.picked wf.rotated wf.failed wf.opened)

lemma endpoint_keeps:
  assumes "pass_invariant env now ep c (int (length (active_of s ep))) cfg P" "P (start_loop s)"
  shows "P (dispatch_endpoint env now ep c s)"
  using dispatch_endpoint_cases[of env now ep c s] pass_invariant.bands_keep[OF assms(1) assms(2), of all_bands] assms(2)
  by metis

definition tick_ids_inv :: "proxy_config \<Rightarrow> string multiset \<Rightarrow> loop_state \<Rightarrow> bool" where
  "tick_ids_inv cfg K l = (wf_inv cfg l \<and> (\<forall>x. count K x \<le> 1) \<and>
     (lp_error l = None \<longrightarrow> held_ids (lp_sched l) + timeout_ids (lp_events l) = K))"

lemma dispatch_next_ids:
  assumes "tick_ids_inv cfg K l" shows "tick_ids_inv cfg K (dispatch_next env now epc l)"
proof (cases "lp_error l")
  case None
  let ?s = "lp_sched l" and ?l' = "dispatch_endpoint env now (fst epc) (snd epc) (lp_sched l)"
  have wf: "wf_inv cfg l" and K: "\<forall>x. count K x \<le> 1" "held_ids ?s + timeout_ids (lp_events l) = K"
    using assms None by (auto simp: tick_ids_inv_def)
  have "\<forall>x. count (held_ids ?s) x \<le> 1" using K by (metis count_union le_add1 order_trans)
  then have "ids_inv cfg (held_ids ?s) (start_loop ?s)" "no_timeouts_inv cfg (start_loop ?s)"
    using wf by (simp_all add: ids_inv_def no_timeouts_inv_def wf_inv_def)
  then have "ids_inv cfg (held_ids ?s) ?l'" "no_timeouts_inv cfg ?l'"
    using endpoint_keeps[OF ids.pass_invariant_axioms] endpoint_keeps[OF quiet.pass_invariant_axioms] by blast+
  then show ?thesis
    using None K dispatch_next_wf[OF wf, of env now epc]
    by (auto simp: tick_ids_inv_def ids_inv_def no_timeouts_inv_def dispatch_next_def Let_def)
qed (use assms in \<open>simp add: dispatch_next_def\<close>)

lemma dispatch_all_ids: "tick_ids_inv cfg K l \<Longrightarrow> tick_ids_inv cfg K (fold (dispatch_next env now) eps l)"
  by (induction eps arbitrary: l) (auto intro: dispatch_next_ids)

text \<open>C2: nothing is lost and nothing is served twice. When the identifiers the scheduler holds
  are distinct and the tick completes, the identifiers held before it are exactly those held after
  it (queued, in flight, or moved to remote capacity) together with those it reported as timed
  out, each once.\<close>

lemma tick_conserves_requests:
  assumes "sched_ok s" "\<forall>x. count (held_ids s) x \<le> 1" "lp_error (tick env now s) = None"
  shows "held_ids s = held_ids (lp_sched (tick env now s)) + timeout_ids (lp_events (tick env now s))"
proof -
  have "tick_ids_inv (sc_config s) (held_ids s) (tick_start now s)"
    using tick_start_wf[OF assms(1)] assms(2) after_expiry_ids[OF assms(1), of now] by (simp add: tick_ids_inv_def)
  from dispatch_all_ids[OF this, of env now "endpoints (sc_config s)"]
  show ?thesis using assms(3) by (simp add: tick_ids_inv_def tick_eq[OF assms(1)])
qed

lemma demo_sched_ids: "held_ids demo_sched = {#''r1'', ''r2''#}"
  by code_simp

lemma demo_tick_error: "lp_error (tick demo_env 1 demo_sched) = None"
  by code_simp

lemma tick_conserves_requests_witness:
  "held_ids (lp_sched (tick demo_env 1 demo_sched)) + timeout_ids (lp_events (tick demo_env 1 demo_sched)) = {#''r1'', ''r2''#}"
proof -
  have "\<forall>x. count (held_ids demo_sched) x \<le> 1" by (simp add: demo_sched_ids)
  from tick_conserves_requests[OF demo_sched_ok this demo_tick_error] show ?thesis
    by (simp add: demo_sched_ids)
qed

subsection \<open>Who may leave the machine\<close>

fun spill_event_ok :: "sched_env \<Rightarrow> proxy_config \<Rightarrow> event \<Rightarrow> bool" where
  "spill_event_ok env cfg (OnSpill r src tgt) =
     (spill_ok (agent_config cfg (agent_id r)) \<and> allow_spill r \<noteq> Some False \<and>
      (case may_spend env of None \<Rightarrow> True | Some f \<Rightarrow> f (agent_id r)) \<and>
      healthy env tgt \<and> rq_endpoint r = tgt \<and> spilled_from r = Some src \<and>
      (case od_get (endpoints cfg) tgt of
         None \<Rightarrow> False | Some tc \<Rightarrow> fits_context r (context_per_slot tc) = Inr True))"
| "spill_event_ok env cfg _ = True"

lemma admit_spill:
  assumes "admit env s c r occ av tgt = Inr SPILL"
  shows "0 < max_slots c" "\<not> (0 < av \<and> occ < effective_max_slots c)" "tgt \<noteq> []"
    "\<not> is_set (spilled_from r)" "spill_ok (agent_config (sc_config s) (agent_id r))"
    "allow_spill r \<noteq> Some False" "case may_spend env of None \<Rightarrow> True | Some f \<Rightarrow> f (agent_id r)"
    "\<exists>tc. od_get (endpoints (sc_config s)) tgt = Some tc \<and> fits_context r (context_per_slot tc) = Inr True \<and>
       int (length (active_of s tgt)) < effective_max_slots tc"
  using assms by (auto simp: admit_def py_bind_Inr split: if_splits option.splits)

definition consent_inv :: "sched_env \<Rightarrow> proxy_config \<Rightarrow> loop_state \<Rightarrow> bool" where
  "consent_inv env cfg l = (wf_inv cfg l \<and> list_all (spill_event_ok env cfg) (lp_events l))"

lemma spilled_state_request:
  assumes "sched_ok s" "eq_peek b aid (queue_of s ep) = Some r" "snd (spilled_state env ep b aid tgt r s) = Inr r'"
  shows "agent_id r' = agent_id r \<and> allow_spill r' = allow_spill r \<and> spilled_from r' = Some (rq_endpoint r) \<and>
    rq_endpoint r' = tgt \<and> rq_payload r' = rq_payload r \<and> payload_type r' = payload_type r"
proof -
  let ?s1 = "set_queue ep (fst (eq_dequeue b aid (queue_of s ep))) s"
  let ?s2 = "?s1\<lparr>total_spilled := total_spilled ?s1 + 1\<rparr>"
  have "sched_ok ?s2" by (rule sched_ok_cong[OF dequeued_ok[OF assms(1,2)]]) simp_all
  moreover have "snd (sched_enqueue env (respill ?s1 r tgt) ?s2) = Inr r'"
    using assms(3) by (simp add: spilled_state_def Let_def)
  ultimately show ?thesis using sched_enqueue_ids(3) by (simp add: respill_def)
qed

interpretation consent: pass_invariant env now ep c n cfg "consent_inv env cfg" for env now ep c n cfg
proof unfold_locales
  fix l b aid r tgt
  assume P: "consent_inv env cfg l" and pk: "eq_peek b aid (queue_of (lp_sched l) ep) = Some r"
  have ok: "sched_ok (lp_sched l)" and wf: "wf_inv cfg l" and cfg: "sc_config (lp_sched l) = cfg"
    using P by (auto simp: consent_inv_def wf_inv_def)
  {
    assume adm: "admit env (lp_sched l) c r (n + int (length (lp_decisions l))) (lp_available l) tgt = Inr DISPATCH"
    show "consent_inv env cfg (dispatch_head now ep b aid (n + int (length (lp_decisions l))) l)"
      using P wf.dispatched[OF wf pk adm] dispatch_head_events[OF ok pk, of now "n + int (length (lp_decisions l))"]
      by (auto simp: consent_inv_def)
  next
    assume adm: "admit env (lp_sched l) c r (n + int (length (lp_decisions l))) (lp_available l) tgt = Inr SPILL"
      and tgt: "target_ok env cfg c tgt"
    have "spill_event_ok env cfg (OnSpill r' (rq_endpoint r) tgt)"
      if "snd (spilled_state env ep b aid tgt r (lp_sched l)) = Inr r'" for r'
      using spilled_state_request[OF ok pk that] admit_spill[OF adm] tgt
      by (cases "may_spend env") (auto simp: target_ok_def cfg fits_context_def)
    then show "consent_inv env cfg (spill_head env ep b aid tgt l)"
      using P wf.spilled[OF wf pk tgt adm] spill_head_events[OF ok pk, of env tgt] by (auto simp: consent_inv_def)
  }
qed (auto simp: consent_inv_def dest: wf.config intro: wf.picked wf.rotated wf.failed wf.opened)

lemma expire_events_quiet: "list_all (spill_event_ok env cfg) (snd (expire_all now s))"
proof -
  have "list_all (spill_event_ok env cfg) (snd acc) \<Longrightarrow>
      list_all (spill_event_ok env cfg) (snd (fold (expire_endpoint now) eps acc))" for acc eps
  proof (induction eps arbitrary: acc)
    case (Cons ep eps)
    have "list_all (spill_event_ok env cfg) (snd (expire_endpoint now ep acc))"
      using Cons.prems by (auto simp: expire_endpoint_def Let_def case_prod_unfold list_all_iff)
    then show ?case using Cons.IH by simp
  qed simp
  then show ?thesis by (simp add: expire_all_def)
qed

lemma dispatch_next_consent:
  assumes "consent_inv env cfg l" shows "consent_inv env cfg (dispatch_next env now epc l)"
proof -
  have "consent_inv env cfg (start_loop (lp_sched l))" using assms by (simp add: consent_inv_def wf_inv_def)
  then have "consent_inv env cfg (dispatch_endpoint env now (fst epc) (snd epc) (lp_sched l))"
    by (rule endpoint_keeps[OF consent.pass_invariant_axioms])
  then show ?thesis
    using assms dispatch_next_wf[of cfg l env now epc]
    by (auto simp: consent_inv_def dispatch_next_def Let_def)
qed

lemma spilled_with_consent:
  assumes "sched_ok s" "OnSpill r src tgt \<in> set (lp_events (tick env now s))"
  shows "spill_ok (agent_config (sc_config s) (agent_id r)) \<and> allow_spill r \<noteq> Some False \<and>
    (case may_spend env of None \<Rightarrow> True | Some f \<Rightarrow> f (agent_id r)) \<and> healthy env tgt \<and>
    spilled_from r = Some src \<and> rq_endpoint r = tgt \<and>
    (\<exists>tc. od_get (endpoints (sc_config s)) tgt = Some tc \<and> fits_context r (context_per_slot tc) = Inr True)"
proof -
  have "consent_inv env (sc_config s) (tick_start now s)"
    using tick_start_wf[OF assms(1)] by (simp add: consent_inv_def tick_start_def expire_events_quiet)
  moreover have "consent_inv env (sc_config s) l \<Longrightarrow> consent_inv env (sc_config s) (fold (dispatch_next env now) eps l)" for eps l
    by (induction eps arbitrary: l) (auto intro: dispatch_next_consent)
  ultimately have "consent_inv env (sc_config s) (tick env now s)" by (simp add: tick_eq[OF assms(1)])
  then have "spill_event_ok env (sc_config s) (OnSpill r src tgt)"
    using assms(2) by (auto simp: consent_inv_def list_all_iff)
  then show ?thesis by (auto split: option.splits)
qed

text \<open>C4: nothing is sent to paid remote capacity without consent. Every request a tick spills
  belongs to a caller its operator allowed to spill, did not itself decline, is inside its spend
  threshold when one is wired up, goes to a configured and healthy endpoint that fits it, and
  carries the endpoint it came from.\<close>

lemma spill_needs_consent:
  assumes "sched_ok s" "OnSpill r src tgt \<in> set (lp_events (tick env now s))"
  shows "spill_ok (agent_config (sc_config s) (agent_id r)) \<and> allow_spill r \<noteq> Some False \<and>
    (case may_spend env of None \<Rightarrow> True | Some f \<Rightarrow> f (agent_id r)) \<and> healthy env tgt \<and>
    spilled_from r = Some src \<and> rq_endpoint r = tgt \<and>
    (\<exists>tc. od_get (endpoints (sc_config s)) tgt = Some tc \<and> fits_context r (context_per_slot tc) = Inr True)"
  by (rule spilled_with_consent[OF assms])

lemma spill_needs_consent_witness:
  "\<exists>r. OnSpill r ''chat'' ''remote'' \<in> set (lp_events (tick demo_env 1 demo_sched)) \<and>
       spill_ok (agent_config demo_config (agent_id r)) \<and> spilled_from r = Some ''chat''"
proof -
  have "list_ex (\<lambda>e. case e of OnSpill r s t \<Rightarrow> s = ''chat'' \<and> t = ''remote'' | _ \<Rightarrow> False) (lp_events (tick demo_env 1 demo_sched))"
    by code_simp
  then obtain e where "e \<in> set (lp_events (tick demo_env 1 demo_sched))"
    "case e of OnSpill r s t \<Rightarrow> s = ''chat'' \<and> t = ''remote'' | _ \<Rightarrow> False" by (auto simp: list_ex_iff)
  then obtain r where r: "OnSpill r ''chat'' ''remote'' \<in> set (lp_events (tick demo_env 1 demo_sched))"
    by (cases rule: event.exhaust[of e]) auto
  from spill_needs_consent[OF demo_sched_ok r] r show ?thesis by auto
qed

text \<open>Local capacity first, for everybody, and never a second hop. With a slot free for the
  band the answer is to dispatch whatever the caller's money, permissions and history are; a spill
  is only ever answered when local capacity said no, the endpoint is not misconfigured and the
  target is below its own cap; and a request that has been spilled once from a named endpoint is
  never spilled again, by any endpoint to any target.\<close>

lemma admission_local_first:
  "(admit env s c r occ av tgt = Inr DISPATCH \<longleftrightarrow> 0 < max_slots c \<and> 0 < av \<and> occ < effective_max_slots c) \<and>
   (admit env s c r occ av tgt = Inr SPILL \<longrightarrow>
      \<not> (0 < av \<and> occ < effective_max_slots c) \<and> 0 < max_slots c \<and>
      (\<exists>tc. od_get (endpoints (sc_config s)) tgt = Some tc \<and> int (length (active_of s tgt)) < effective_max_slots tc)) \<and>
   (rq_endpoint r \<noteq> [] \<longrightarrow> admit env' s' c' (respill s r t) occ' av' tgt' \<noteq> Inr SPILL)"
proof -
  have "rq_endpoint r \<noteq> [] \<Longrightarrow> admit env' s' c' (respill s r t) occ' av' tgt' \<noteq> Inr SPILL"
    using admit_spill(4)[of env' s' c' "respill s r t" occ' av' tgt'] by (auto simp: respill_def is_set_def)
  then show ?thesis using admit_dispatch[of env s c r occ av tgt] admit_spill[of env s c r occ av tgt] by blast
qed

lemma admission_local_first_witness:
  "admit demo_env demo_sched (demo_endpoint ''chat'' 1) (demo_request ''r1'') 0 1 [] = Inr DISPATCH \<and>
   admit demo_env demo_sched (demo_endpoint ''x'' 1) (respill demo_sched (demo_request ''r1'') ''remote'') 1 0 ''remote'' \<noteq> Inr SPILL"
  using admission_local_first[of demo_env demo_sched "demo_endpoint ''chat'' 1" "demo_request ''r1''" 0 1 "[]"
      demo_env demo_sched "demo_endpoint ''x'' 1" "''remote''" 1 0 "''remote''"]
  by (simp add: demo_endpoint_def effective_max_slots_def demo_request_def)

end
