(* ===== verification/Scheduler_Runs.thy ===== *)
theory Scheduler_Runs
  imports Scheduler_Safety
begin

section \<open>Completion, cancellation and runs of the scheduler\<close>

text \<open>
  What \<^verbatim>\<open>complete\<close> and \<^verbatim>\<open>cancel\<close> do to the requests the scheduler holds, and the step relation
  of the scheduler: enqueues, ticks, completions, cancellations, budget changes, discovered capacity
  and edits of the endpoint table, in any order from a fresh scheduler, keep the state well formed
  and start no more requests on an endpoint than its slots allow.
\<close>

subsection \<open>complete\<close>

lemma find_active:
  assumes "sched_ok s" "List.find (\<lambda>(ep, m). rid \<in> fst ` set m) (sc_active s) = Some (ep, m)"
  shows "(ep, m) \<in> set (sc_active s)" "rid \<in> fst ` set m" "active_of s ep = m" "ep \<in> fst ` set (sc_queues s)"
proof -
  obtain i where i: "i < length (sc_active s)" "case sc_active s ! i of (ep, m) \<Rightarrow> rid \<in> fst ` set m"
    "(ep, m) = sc_active s ! i"
    using assms(2) unfolding find_Some_iff by metis
  show in_set: "(ep, m) \<in> set (sc_active s)" using i by (metis nth_mem)
  show "rid \<in> fst ` set m" using i(2) unfolding i(3)[symmetric] by simp
  have "od_get (sc_active s) ep = Some m" using in_set assms(1) by (simp add: sched_ok_def)
  then show "active_of s ep = m" by (simp add: od_get_or_def)
  show "ep \<in> fst ` set (sc_queues s)" using in_set assms(1) by (force simp: sched_ok_def)
qed

text \<open>A completion either finds nothing and changes nothing, or removes one in-flight request.\<close>

lemma sched_complete_cases:
  assumes "sched_ok s"
  obtains "sched_complete rec now s = s" "\<forall>p \<in> set (sc_active s). cr_request_id rec \<notin> fst ` set (snd p)"
  | ep ar where "(cr_request_id rec, ar) \<in> set (active_of s ep)" "ep \<in> fst ` set (sc_queues s)"
      "sc_queues (sched_complete rec now s) = sc_queues s" "sc_config (sched_complete rec now s) = sc_config s"
      "sc_active (sched_complete rec now s) = od_put ep (od_del (cr_request_id rec) (active_of s ep)) (sc_active s)"
      "total_completed (sched_complete rec now s) = total_completed s + 1"
proof (cases "List.find (\<lambda>(ep, m). cr_request_id rec \<in> fst ` set m) (sc_active s)")
  case None
  then have "\<forall>p \<in> set (sc_active s). cr_request_id rec \<notin> fst ` set (snd p)"
    unfolding find_None_iff by force
  with None show thesis using that(1) by (simp add: sched_complete_def)
next
  case (Some em)
  obtain ep m where em: "em = (ep, m)" by (cases em)
  note f = find_active[OF assms Some[unfolded em]]
  obtain ar where ar: "od_get m (cr_request_id rec) = Some ar"
    using f(2) od_get_None_iff[of m "cr_request_id rec"] by (cases "od_get m (cr_request_id rec)") auto
  show thesis
    by (rule that(2)[of ar ep])
      (use f od_get_Some_in[OF ar] in \<open>simp_all add: sched_complete_def Some em ar Let_def\<close>)
qed

lemma sched_complete_ok [step_keeps]:
  assumes "sched_ok s" shows "sched_ok (sched_complete rec now s)"
proof (rule sched_complete_cases[OF assms, of rec now])
  fix ep ar
  assume key: "ep \<in> fst ` set (sc_queues s)"
    and q: "sc_queues (sched_complete rec now s) = sc_queues s"
    and a: "sc_active (sched_complete rec now s) = od_put ep (od_del (cr_request_id rec) (active_of s ep)) (sc_active s)"
  have "active_entry_ok (ep, od_del (cr_request_id rec) (active_of s ep))"
    using sched_ok_active[OF assms, of ep] set_od_del[of "cr_request_id rec" "active_of s ep"]
    by (auto simp: active_entry_ok_def)
  from sched_ok_put_active[OF assms key this q a] show ?thesis .
qed (use assms in simp)

lemma map_reqs_del:
  "od_ok m \<Longrightarrow> od_get m k = Some ar \<Longrightarrow> map_reqs m = add_mset (ar_request ar) (map_reqs (od_del k m))"
  using sum_list_od_del[of m k ar "\<lambda>x. {#ar_request (snd x)#}"] by (simp add: map_reqs_def)

lemma sched_complete_ids:
  assumes "sched_ok s" "cr_request_id rec \<in> fst ` set (active_of s ep)"
  shows "held_ids s = add_mset (cr_request_id rec) (held_ids (sched_complete rec now s)) \<and>
    total_completed (sched_complete rec now s) = total_completed s + 1"
proof (rule sched_complete_cases[OF assms(1), of rec now])
  assume none: "\<forall>p \<in> set (sc_active s). cr_request_id rec \<notin> fst ` set (snd p)"
  have "active_of s ep \<noteq> []" using assms(2) by auto
  then obtain m where m: "od_get (sc_active s) ep = Some m" by (auto simp: od_get_or_def split: option.splits)
  have "cr_request_id rec \<in> fst ` set (snd (ep, m))" using assms(2) m by (simp add: od_get_or_def)
  with none od_get_Some_in[OF m] show ?thesis by blast
next
  fix ep' ar
  let ?s' = "sched_complete rec now s" and ?m = "active_of s ep'" and ?id = "cr_request_id rec"
  assume ar: "(?id, ar) \<in> set ?m" and q: "sc_queues ?s' = sc_queues s"
    and a: "sc_active ?s' = od_put ep' (od_del ?id ?m) (sc_active s)"
    and tot: "total_completed ?s' = total_completed s + 1"
  have mok: "od_ok ?m" and rid: "request_id (ar_request ar) = ?id"
    using sched_ok_active[OF assms(1), of ep'] ar by (auto simp: active_entry_ok_def)
  have "od_get ?m ?id = Some ar" using ar mok by simp
  note del = map_reqs_del[OF mok this]
  have "active_reqs ?s' + map_reqs ?m = active_reqs s + map_reqs (od_del ?id ?m)"
    by (rule active_reqs_put[OF _ a]) (use assms(1) in \<open>simp add: sched_ok_def\<close>)
  then have "active_reqs s = add_mset (ar_request ar) (active_reqs ?s')" unfolding del by simp
  moreover have "queued_reqs ?s' = queued_reqs s" by (simp add: queued_reqs_def q)
  ultimately show ?thesis using rid tot by (simp add: held_ids_def)
qed

lemma not_held_complete:
  assumes "sched_ok s" "rid \<notin># held_ids s" "cr_request_id rec = rid"
  shows "sched_complete rec now s = s"
proof (rule sched_complete_cases[OF assms(1), of rec now])
  fix ep ar assume "(cr_request_id rec, ar) \<in> set (active_of s ep)"
  then have "rid \<in> fst ` set (active_of s ep)" using assms(3) by force
  from active_id_held[OF assms(1) this] assms(2) show ?thesis by (auto simp: held_ids_def)
qed simp

text \<open>A completion frees exactly one slot, once. Completing a request that is in flight
  removes it and nothing else from what the scheduler holds and counts one completion; when the
  held identifiers are distinct, reporting the same completion again, at any later time, changes
  nothing at all.\<close>

lemma complete_frees_once:
  assumes "sched_ok s" "\<forall>x. count (held_ids s) x \<le> 1" "cr_request_id rec \<in> fst ` set (active_of s ep)"
  shows "held_ids s = add_mset (cr_request_id rec) (held_ids (sched_complete rec now s)) \<and>
    total_completed (sched_complete rec now s) = total_completed s + 1 \<and>
    sched_complete rec now' (sched_complete rec now s) = sched_complete rec now s"
proof -
  have ids: "held_ids s = add_mset (cr_request_id rec) (held_ids (sched_complete rec now s))"
    using sched_complete_ids[OF assms(1,3)] by blast
  then have "count (held_ids (sched_complete rec now s)) (cr_request_id rec) = 0"
    using assms(2) by (metis count_add_mset Suc_le_mono One_nat_def le_zero_eq)
  then have "cr_request_id rec \<notin># held_ids (sched_complete rec now s)" by (simp add: not_in_iff)
  from not_held_complete[OF sched_complete_ok[OF assms(1)] this refl] show ?thesis
    using sched_complete_ids[OF assms(1,3), of now] by blast
qed

definition demo_done :: completion_record where
  "demo_done = \<lparr>cr_request_id = ''r1'', cr_duration_s = 2, cr_input_tokens = 10, cr_output_tokens = 20,
     cr_success = True, cr_occupancy_during = 1\<rparr>"

lemma complete_frees_once_witness:
  "sched_complete demo_done 9 (sched_complete demo_done 5 (lp_sched (tick demo_env 1 demo_sched)))
     = sched_complete demo_done 5 (lp_sched (tick demo_env 1 demo_sched))"
proof -
  let ?s = "lp_sched (tick demo_env 1 demo_sched)"
  have ok: "sched_ok ?s" using tick_wf[OF demo_sched_ok, of demo_env 1] by (simp add: wf_inv_def)
  have "held_ids ?s = {#''r1'', ''r2''#}" by code_simp
  then have "\<forall>x. count (held_ids ?s) x \<le> 1" by simp
  moreover have "cr_request_id demo_done \<in> fst ` set (active_of ?s ''chat'')" by code_simp
  ultimately show ?thesis using complete_frees_once[OF ok] by blast
qed

subsection \<open>cancel\<close>

lemma cancel_scan_facts:
  assumes "\<forall>p \<in> set qs. queue_entry_ok p"
  shows "map fst (fst (cancel_scan rid qs)) = map fst qs \<and> (\<forall>p \<in> set (fst (cancel_scan rid qs)). queue_entry_ok p) \<and>
    (if snd (cancel_scan rid qs)
     then \<exists>r. request_id r = rid \<and> (\<Sum>p\<leftarrow>qs. queue_reqs (snd p)) = add_mset r (\<Sum>p\<leftarrow>fst (cancel_scan rid qs). queue_reqs (snd p))
     else fst (cancel_scan rid qs) = qs \<and> (\<forall>p \<in> set qs. \<forall>r \<in># queue_reqs (snd p). request_id r \<noteq> rid))"
  using assms
proof (induction qs)
  case (Cons p qs)
  obtain ep q where p: "p = (ep, q)" by (cases p)
  obtain q' found where c: "cancel_in_queue rid q = (q', found)" by fastforce
  have qok: "queue_ok q" and eps: "\<forall>r \<in># queue_reqs q. rq_endpoint r = ep"
    using Cons.prems by (auto simp: p queue_entry_ok_def)
  note f = cancel_in_queue_facts[OF qok, of rid, unfolded c, simplified]
  show ?case
  proof (cases found)
    case True
    then obtain r where r: "request_id r = rid" "queue_reqs q = add_mset r (queue_reqs q')" using f by auto
    have "queue_entry_ok (ep, q')" using f eps r(2) by (auto simp: queue_entry_ok_def)
    then show ?thesis using True c p r Cons.prems by auto
  next
    case False
    then show ?thesis
      using Cons c p f by (cases "cancel_scan rid qs") (auto split: if_splits)
  qed
qed simp

lemma sched_cancel_ok [step_keeps]:
  assumes "sched_ok s" shows "sched_ok (fst (sched_cancel rid s))"
proof -
  have "\<forall>p \<in> set (sc_queues s). queue_entry_ok p" using assms by (simp add: sched_ok_def)
  note f = cancel_scan_facts[OF this, of rid]
  then have "fst ` set (fst (cancel_scan rid (sc_queues s))) = fst ` set (sc_queues s)" by (metis list.set_map)
  then show ?thesis using f assms by (simp add: sched_cancel_def Let_def case_prod_unfold sched_ok_def)
qed

text \<open>Cancelling removes exactly the queued request asked for. It reports success precisely
  when a request with that identifier was queued, then exactly one such request is gone; otherwise
  the state is unchanged. A request already in flight is never touched.\<close>

lemma cancel_exact:
  assumes "sched_ok s"
  shows "(snd (sched_cancel rid s) \<longleftrightarrow> (\<exists>r \<in># queued_reqs s. request_id r = rid)) \<and>
    sc_active (fst (sched_cancel rid s)) = sc_active s \<and>
    (if snd (sched_cancel rid s)
     then held_ids s = add_mset rid (held_ids (fst (sched_cancel rid s)))
     else fst (sched_cancel rid s) = s)"
proof -
  have "\<forall>p \<in> set (sc_queues s). queue_entry_ok p" using assms by (simp add: sched_ok_def)
  note f = cancel_scan_facts[OF this, of rid]
  have eq: "sched_cancel rid s = (s\<lparr>sc_queues := fst (cancel_scan rid (sc_queues s))\<rparr>, snd (cancel_scan rid (sc_queues s)))"
    by (simp add: sched_cancel_def Let_def case_prod_unfold)
  show ?thesis
  proof (cases "snd (cancel_scan rid (sc_queues s))")
    case True
    then obtain r where r: "request_id r = rid"
      "queued_reqs s = add_mset r (\<Sum>p\<leftarrow>fst (cancel_scan rid (sc_queues s)). queue_reqs (snd p))"
      using f by (auto simp: queued_reqs_def)
    then have "queued_reqs s = add_mset r (queued_reqs (fst (sched_cancel rid s)))"
      by (simp add: eq queued_reqs_def)
    moreover have "active_reqs (fst (sched_cancel rid s)) = active_reqs s" by (simp add: eq active_reqs_def)
    ultimately show ?thesis using True r(1) by (auto simp: eq held_ids_def)
  next
    case False
    then show ?thesis using f by (auto simp: eq queued_reqs_def)
  qed
qed

lemma cancel_exact_witness:
  "snd (sched_cancel ''r2'' demo_sched) \<and> held_ids (fst (sched_cancel ''r2'' demo_sched)) = {#''r1''#}"
proof -
  have found: "snd (sched_cancel ''r2'' demo_sched)" by code_simp
  from cancel_exact[OF demo_sched_ok, of "''r2''"]
  have "{#''r1'', ''r2''#} = add_mset ''r2'' (held_ids (fst (sched_cancel ''r2'' demo_sched)))"
    unfolding demo_sched_ids using found by argo
  then have "add_mset ''r2'' {#''r1''#} = add_mset ''r2'' (held_ids (fst (sched_cancel ''r2'' demo_sched)))"
    by (simp add: add_mset_commute[of "''r1''"])
  then show ?thesis using found by (simp only: add_mset_add_mset_same_iff)
qed

subsection \<open>Capacity discovered at run time\<close>

text \<open>What a discovery pass reports: \<^verbatim>\<open>None\<close> means the backend could not tell, and the configured
  value stands. The published price goes to the price book, which the scheduler does not hold.\<close>

record capacity_report =
  cap_slots :: "int option"
  cap_context :: "int option"

definition report_changes :: "int option \<Rightarrow> int \<Rightarrow> int option" where
  "report_changes v old = (case v of None \<Rightarrow> None | Some n \<Rightarrow> if n \<noteq> 0 \<and> n \<noteq> old then Some n else None)"

definition set_endpoint :: "string \<Rightarrow> endpoint_config \<Rightarrow> scheduler \<Rightarrow> scheduler" where
  "set_endpoint ep c s = s\<lparr>sc_config := (sc_config s)\<lparr>endpoints := od_put ep c (endpoints (sc_config s))\<rparr>\<rparr>"

definition apply_discovered_capacity :: "string \<Rightarrow> capacity_report \<Rightarrow> scheduler \<Rightarrow> scheduler" where
  "apply_discovered_capacity ep report s =
     (case od_get (endpoints (sc_config s)) ep of
        None \<Rightarrow> s
      | Some c \<Rightarrow>
          let c1 = (case report_changes (cap_slots report) (max_slots c) of None \<Rightarrow> c | Some n \<Rightarrow> c\<lparr>max_slots := n\<rparr>);
              s1 = (case report_changes (cap_slots report) (max_slots c) of
                      None \<Rightarrow> s
                    | Some n \<Rightarrow>
                        let s' = set_endpoint ep c1 s in
                        s'\<lparr>sc_cost := update_max_slots ep n (sc_cost s'),
                           sc_budgets := set_total_capacity (of_int (total_fleet_slots (sc_config s'))) (sc_budgets s')\<rparr>)
          in case report_changes (cap_context report) (context_per_slot c1) of
               None \<Rightarrow> s1
             | Some k \<Rightarrow> set_endpoint ep (c1\<lparr>context_per_slot := k\<rparr>) s1)"

lemma set_endpoint_frames [simp]:
  "sc_queues (set_endpoint ep c s) = sc_queues s" "sc_active (set_endpoint ep c s) = sc_active s"
  "endpoints (sc_config (set_endpoint ep c s)) = od_put ep c (endpoints (sc_config s))"
  by (simp_all add: set_endpoint_def)

lemma capacity_frames:
  "sc_queues (apply_discovered_capacity ep rep s) = sc_queues s"
  "sc_active (apply_discovered_capacity ep rep s) = sc_active s"
  "od_ok (endpoints (sc_config s)) \<Longrightarrow> od_ok (endpoints (sc_config (apply_discovered_capacity ep rep s)))"
  by (simp_all add: apply_discovered_capacity_def Let_def split: option.split)

subsection \<open>What a tick starts\<close>

text \<open>The scheduler loop starts a task for every decision a tick returns; a tick that raises
  returns none.\<close>

definition started_by :: "loop_state \<Rightarrow> queued_request multiset" where
  "started_by l = (if lp_error l = None then mset (map dd_request (lp_decisions l)) else {#})"

definition start_inv :: "proxy_config \<Rightarrow> string multiset \<Rightarrow> queued_request multiset \<Rightarrow> loop_state \<Rightarrow> bool" where
  "start_inv cfg K A l = (wf_inv cfg l \<and> (\<forall>x. count K x \<le> 1) \<and> held_ids (lp_sched l) \<subseteq># K \<and>
     active_reqs (lp_sched l) = A + mset (map dd_request (lp_decisions l)))"

lemma distinct_sub: "\<forall>x. count K x \<le> 1 \<Longrightarrow> M \<subseteq># K \<Longrightarrow> \<forall>x. count M x \<le> 1"
  by (meson mset_subset_eq_count order_trans)

lemma spilled_state_keeps:
  assumes "sched_ok s" "eq_peek b aid (queue_of s ep) = Some r"
  shows "held_ids (fst (spilled_state env ep b aid tgt r s)) \<subseteq># held_ids s"
    "active_reqs (fst (spilled_state env ep b aid tgt r s)) = active_reqs s"
proof -
  let ?s1 = "set_queue ep (fst (eq_dequeue b aid (queue_of s ep))) s"
  let ?s2 = "?s1\<lparr>total_spilled := total_spilled ?s1 + 1\<rparr>"
  have ok: "sched_ok ?s2" by (rule sched_ok_cong[OF dequeued_ok[OF assms]]) simp_all
  have eq: "spilled_state env ep b aid tgt r s = sched_enqueue env (respill ?s1 r tgt) ?s2"
    by (simp add: spilled_state_def Let_def)
  have "held_ids ?s2 = held_ids ?s1" by (rule held_ids_cong) simp_all
  then have less: "add_mset (request_id r) (held_ids ?s2) = held_ids s" using dequeued_ids[OF assms] by simp
  show "held_ids (fst (spilled_state env ep b aid tgt r s)) \<subseteq># held_ids s"
  proof (cases "snd (sched_enqueue env (respill ?s1 r tgt) ?s2)")
    case (Inl e)
    then show ?thesis
      using sched_enqueue_failed_ids[OF ok Inl] eq mset_subset_eq_add_left[of "held_ids ?s2" "{#request_id r#}"] less by simp
  next
    case (Inr r')
    then show ?thesis using spilled_state_ids[OF assms] eq by (metis subset_mset.order_refl)
  qed
  have "active_reqs ?s2 = active_reqs s" by (simp add: active_reqs_def)
  then show "active_reqs (fst (spilled_state env ep b aid tgt r s)) = active_reqs s"
    unfolding eq by (simp add: sched_enqueue_active_reqs[OF ok])
qed

lemma spill_head_keeps:
  assumes "sched_ok (lp_sched l)" "eq_peek b aid (queue_of (lp_sched l) ep) = Some r"
  shows "held_ids (lp_sched (spill_head env ep b aid tgt l)) \<subseteq># held_ids (lp_sched l)"
    "active_reqs (lp_sched (spill_head env ep b aid tgt l)) = active_reqs (lp_sched l)"
proof -
  obtain s2 res where st: "spilled_state env ep b aid tgt r (lp_sched l) = (s2, res)" by fastforce
  have "sched_ok s2" using spilled_state_ok[OF assms, of env tgt] st by simp
  then have rot: "held_ids (set_queue ep (rotate_robin b (queue_of s2 ep)) s2) = held_ids s2" by (rule rotate_ids)
  have act: "active_reqs (set_queue ep (rotate_robin b (queue_of s2 ep)) s2) = active_reqs s2"
    by (simp add: active_reqs_def)
  note k = spilled_state_keeps[OF assms, of env tgt, unfolded st fst_conv]
  note eq = spill_head_eq[OF assms(2) sched_ok_queue_ok[OF assms(1)], of env tgt, unfolded st]
  show "held_ids (lp_sched (spill_head env ep b aid tgt l)) \<subseteq># held_ids (lp_sched l)"
    "active_reqs (lp_sched (spill_head env ep b aid tgt l)) = active_reqs (lp_sched l)"
    using k rot act by (cases res; simp add: eq)+
qed

interpretation starts: pass_invariant env now ep c n cfg "start_inv cfg K A" for env now ep c n cfg K A
proof unfold_locales
  fix l b aid r tgt
  assume P: "start_inv cfg K A l" and pk: "eq_peek b aid (queue_of (lp_sched l) ep) = Some r"
  have ok: "sched_ok (lp_sched l)" and wf: "wf_inv cfg l" and ids: "\<forall>x. count (held_ids (lp_sched l)) x \<le> 1"
    using P distinct_sub[of K] by (auto simp: start_inv_def wf_inv_def)
  {
    assume adm: "admit env (lp_sched l) c r (n + int (length (lp_decisions l))) (lp_available l) tgt = Inr DISPATCH"
    show "start_inv cfg K A (dispatch_head now ep b aid (n + int (length (lp_decisions l))) l)"
      using P wf.dispatched[OF wf pk adm] dispatch_head_ids[OF ok pk ids] dispatch_head_active[OF ok pk ids]
        dispatch_head_events[OF ok pk, of now "n + int (length (lp_decisions l))"]
      by (auto simp: start_inv_def)
  next
    assume adm: "admit env (lp_sched l) c r (n + int (length (lp_decisions l))) (lp_available l) tgt = Inr SPILL"
      "target_ok env cfg c tgt"
    show "start_inv cfg K A (spill_head env ep b aid tgt l)"
      using P wf.spilled[OF wf pk adm(2,1)] spill_head_keeps[OF ok pk, of env tgt] spill_head_fields(2)[OF ok pk, of env tgt]
      by (auto simp: start_inv_def)
  }
next
  fix l b assume "start_inv cfg K A l" "ep \<in> fst ` set (sc_queues (lp_sched l))"
  then show "start_inv cfg K A (l\<lparr>lp_sched := set_queue ep (rotate_robin b (queue_of (lp_sched l) ep)) (lp_sched l)\<rparr>)"
    using wf.rotated[of cfg l ep b] rotate_ids[of "lp_sched l"] by (simp add: start_inv_def wf_inv_def active_reqs_def)
qed (auto simp: start_inv_def held_ids_def queued_reqs_def active_reqs_def dest: wf.config intro: wf.picked wf.failed wf.opened)

lemma dispatch_next_starts:
  assumes "start_inv cfg K A l" shows "start_inv cfg K A (dispatch_next env now epc l)"
proof (cases "lp_error l")
  case None
  let ?s = "lp_sched l"
  have "start_inv cfg K (active_reqs ?s) (start_loop ?s)" using assms by (simp add: start_inv_def wf_inv_def)
  from endpoint_keeps[OF starts.pass_invariant_axioms this, of env now "fst epc" "snd epc"]
  show ?thesis using assms None by (simp add: start_inv_def dispatch_next_def Let_def wf_inv_def)
qed (use assms in \<open>simp add: dispatch_next_def\<close>)

lemma tick_starts:
  assumes "sched_ok s" "\<forall>x. count (held_ids s) x \<le> 1"
  shows "start_inv (sc_config s) (held_ids s) (active_reqs s) (tick env now s)"
proof -
  have "lp_sched (tick_start now s) = after_expiry now s" by (simp add: tick_start_def)
  then have "held_ids (after_expiry now s) \<subseteq># held_ids s"
    using after_expiry_ids[OF assms(1), of now] mset_subset_eq_add_left by metis
  moreover have "active_reqs (after_expiry now s) = active_reqs s" by (simp add: active_reqs_def after_expiry_facts(3)[OF assms(1)])
  ultimately have "start_inv (sc_config s) (held_ids s) (active_reqs s) (tick_start now s)"
    using tick_start_wf[OF assms(1)] assms(2) by (simp add: start_inv_def tick_start_def)
  moreover have "start_inv cfg K A l \<Longrightarrow> start_inv cfg K A (fold (dispatch_next env now) eps l)" for cfg K A l eps
    by (induction eps arbitrary: l) (auto intro: dispatch_next_starts)
  ultimately show ?thesis by (simp add: tick_eq[OF assms(1)])
qed

subsection \<open>Requests running on an endpoint\<close>

definition on_endpoint :: "string \<Rightarrow> queued_request multiset \<Rightarrow> nat" where
  "on_endpoint ep M = size (filter_mset (\<lambda>r. rq_endpoint r = ep) M)"

lemma on_endpoint_union [simp]: "on_endpoint ep (M + N) = on_endpoint ep M + on_endpoint ep N"
  by (simp add: on_endpoint_def)

lemma on_endpoint_mono: "M \<subseteq># N \<Longrightarrow> on_endpoint ep M \<le> on_endpoint ep N"
  by (simp add: on_endpoint_def multiset_filter_mono size_mset_mono)

lemma on_endpoint_entries:
  "active_entry_ok (k, m) \<Longrightarrow> on_endpoint ep (map_reqs m) = (if k = ep then length m else 0)"
  by (induction m) (auto simp: active_entry_ok_def map_reqs_def on_endpoint_def)

lemma on_endpoint_active:
  assumes "sched_ok s" shows "on_endpoint ep (active_reqs s) = length (active_of s ep)"
proof -
  have "on_endpoint ep (\<Sum>p\<leftarrow>d. map_reqs (snd p)) = length (od_get_or [] d ep)"
    if "od_ok d" "\<forall>p \<in> set d. active_entry_ok p" for d
    using that
  proof (induction d)
    case (Cons p d)
    obtain k m where p: "p = (k, m)" by (cases p)
    have "ep \<notin> fst ` set d \<Longrightarrow> od_get_or [] d ep = []" by (simp add: od_get_or_def od_get_None_iff[symmetric])
    then show ?case using Cons on_endpoint_entries[of k m ep] by (auto simp: p od_get_or_def)
  qed (simp add: on_endpoint_def od_get_or_def)
  then show ?thesis using assms by (simp add: active_reqs_def sched_ok_def)
qed

lemma complete_active:
  assumes "sched_ok s" "\<forall>x. count (held_ids s) x \<le> 1"
  shows "active_reqs (sched_complete rec now s) = filter_mset (\<lambda>r. request_id r \<noteq> cr_request_id rec) (active_reqs s)"
proof (rule sched_complete_cases[OF assms(1), of rec now])
  assume same: "sched_complete rec now s = s" and none: "\<forall>p \<in> set (sc_active s). cr_request_id rec \<notin> fst ` set (snd p)"
  have "request_id r \<noteq> cr_request_id rec" if r: "r \<in># active_reqs s" for r
  proof -
    obtain p x where px: "p \<in> set (sc_active s)" "x \<in> set (snd p)" "r = ar_request (snd x)"
      using r by (auto simp: active_reqs_def map_reqs_def)
    moreover have "request_id (ar_request (snd x)) = fst x"
      using assms(1) px by (auto simp: sched_ok_def active_entry_ok_def)
    ultimately show ?thesis using none by force
  qed
  then have "filter_mset (\<lambda>r. request_id r \<noteq> cr_request_id rec) (active_reqs s) = active_reqs s"
    by (simp add: filter_mset_eq_conv)
  then show ?thesis unfolding same by simp
next
  fix ep ar
  let ?s' = "sched_complete rec now s" and ?m = "active_of s ep" and ?id = "cr_request_id rec"
  assume ar: "(?id, ar) \<in> set ?m"
    and a: "sc_active ?s' = od_put ep (od_del ?id ?m) (sc_active s)"
  have mok: "od_ok ?m" and rid: "request_id (ar_request ar) = ?id"
    using sched_ok_active[OF assms(1), of ep] ar by (auto simp: active_entry_ok_def)
  have "od_get ?m ?id = Some ar" using ar mok by simp
  note del = map_reqs_del[OF mok this]
  have "active_reqs ?s' + map_reqs ?m = active_reqs s + map_reqs (od_del ?id ?m)"
    by (rule active_reqs_put[OF _ a]) (use assms(1) in \<open>simp add: sched_ok_def\<close>)
  then have sum: "active_reqs s = add_mset (ar_request ar) (active_reqs ?s')" unfolding del by simp
  have "request_id r \<noteq> ?id" if r: "r \<in># active_reqs ?s'" for r
  proof
    assume eq: "request_id r = ?id"
    obtain M where "active_reqs ?s' = add_mset r M" using r by (meson multi_member_split)
    then have "2 \<le> count (held_ids s) ?id" by (simp add: held_ids_def sum rid eq)
    then show False using assms(2) by (metis numeral_le_one_iff order_trans semiring_norm(69))
  qed
  then have "filter_mset (\<lambda>r. request_id r \<noteq> ?id) (active_reqs ?s') = active_reqs ?s'" by (simp add: filter_mset_eq_conv)
  then show ?thesis by (simp add: sum rid)
qed

text \<open>A tick raises the number of requests running on an endpoint only to what its slots allow.\<close>

lemma tick_started_bound:
  assumes "sched_ok s" "od_ok (endpoints (sc_config s))" "\<forall>x. count (held_ids s) x \<le> 1" "M \<subseteq># active_reqs s"
  shows "M + started_by (tick env now s) \<subseteq># active_reqs (lp_sched (tick env now s))"
    "0 < on_endpoint ep (started_by (tick env now s)) \<Longrightarrow>
       \<exists>c. (ep, c) \<in> set (endpoints (sc_config s)) \<and>
         int (on_endpoint ep (M + started_by (tick env now s))) \<le> effective_max_slots c"
proof -
  let ?l = "tick env now s" and ?d = "mset (map dd_request (lp_decisions (tick env now s)))"
  have inv: "sched_ok (lp_sched ?l)" "active_reqs (lp_sched ?l) = active_reqs s + ?d"
    using tick_starts[OF assms(1,3), of env now] by (auto simp: start_inv_def wf_inv_def)
  have sub: "started_by ?l \<subseteq># ?d" by (simp add: started_by_def)
  show part: "M + started_by ?l \<subseteq># active_reqs (lp_sched ?l)"
    unfolding inv(2) by (rule subset_mset.add_mono[OF assms(4) sub])
  assume pos: "0 < on_endpoint ep (started_by ?l)"
  have "length (active_of (lp_sched ?l) ep) = length (active_of s ep) + on_endpoint ep ?d"
    using on_endpoint_active[OF inv(1), of ep] on_endpoint_active[OF assms(1), of ep] by (simp add: inv(2))
  then have grew: "length (active_of s ep) < length (active_of (lp_sched ?l) ep)"
    using pos on_endpoint_mono[OF sub, of ep] by linarith
  have "ep \<in> fst ` set (endpoints (sc_config s))"
  proof (rule ccontr)
    assume "ep \<notin> fst ` set (endpoints (sc_config s))"
    then have "active_of (lp_sched ?l) ep = active_of (lp_sched (tick_start now s)) ep"
      unfolding tick_eq[OF assms(1)] using dispatch_all_cap[OF tick_start_wf[OF assms(1)] assms(2), THEN conjunct2] by blast
    then show False using grew by (simp add: tick_start_def after_expiry_facts(3)[OF assms(1)])
  qed
  then obtain c where c: "(ep, c) \<in> set (endpoints (sc_config s))" by force
  have "int (length (active_of (lp_sched ?l) ep)) \<le> effective_max_slots c"
    using tick_cap[OF assms(1,2) c, of env now] grew by linarith
  moreover have "on_endpoint ep (M + started_by ?l) \<le> length (active_of (lp_sched ?l) ep)"
    using on_endpoint_mono[OF part, of ep] on_endpoint_active[OF inv(1), of ep] by simp
  ultimately show "\<exists>c. (ep, c) \<in> set (endpoints (sc_config s)) \<and> int (on_endpoint ep (M + started_by ?l)) \<le> effective_max_slots c"
    using c by (metis of_nat_mono order_trans)
qed

subsection \<open>Runs\<close>

text \<open>A run carries, next to the scheduler, the requests whose task has been started and whose
  completion has not been reported. Every operation may see its own environment (health, spending
  leave, clock); discovery may change an endpoint's slots and an administrator may replace the
  table of endpoints at any moment. A request enters under an identifier that is not held.\<close>

record sched_run =
  run_sched :: scheduler
  run_started :: "queued_request multiset"

inductive sched_step :: "sched_run \<Rightarrow> sched_run \<Rightarrow> bool" where
  step_enqueue: "request_id r \<notin># held_ids (run_sched w) \<Longrightarrow>
     sched_step w (w\<lparr>run_sched := fst (sched_enqueue env r (run_sched w))\<rparr>)"
| step_tick: "sched_step w \<lparr>run_sched = lp_sched (tick env now (run_sched w)),
     run_started = run_started w + started_by (tick env now (run_sched w))\<rparr>"
| step_complete: "sched_step w \<lparr>run_sched = sched_complete rec now (run_sched w),
     run_started = filter_mset (\<lambda>r. request_id r \<noteq> cr_request_id rec) (run_started w)\<rparr>"
| step_cancel: "sched_step w (w\<lparr>run_sched := fst (sched_cancel rid (run_sched w))\<rparr>)"
| step_budgets: "sched_step w (w\<lparr>run_sched := (run_sched w)\<lparr>sc_budgets := budget_step (sc_budgets (run_sched w)) e\<rparr>\<rparr>)"
| step_capacity: "sched_step w (w\<lparr>run_sched := apply_discovered_capacity ep rep (run_sched w)\<rparr>)"
| step_endpoints: "od_ok table \<Longrightarrow>
     sched_step w (w\<lparr>run_sched := (run_sched w)\<lparr>sc_config := (sc_config (run_sched w))\<lparr>endpoints := table\<rparr>\<rparr>\<rparr>)"

inductive_cases sched_stepE: "sched_step w w'"

definition fresh_run :: "sched_run \<Rightarrow> bool" where
  "fresh_run w = (\<exists>cfg cm bm. od_ok (endpoints cfg) \<and> w = \<lparr>run_sched = new_scheduler cfg cm bm, run_started = {#}\<rparr>)"

definition run_ok :: "sched_run \<Rightarrow> bool" where
  "run_ok w = (sched_ok (run_sched w) \<and> od_ok (endpoints (sc_config (run_sched w))) \<and>
     (\<forall>x. count (held_ids (run_sched w)) x \<le> 1) \<and> run_started w \<subseteq># active_reqs (run_sched w))"

lemma new_scheduler_ok: "od_ok (endpoints cfg) \<Longrightarrow> sched_ok (new_scheduler cfg cm bm)"
  by (auto simp: sched_ok_def new_scheduler_def queue_entry_ok_def active_entry_ok_def comp_def image_image)

lemma new_scheduler_ids: "held_ids (new_scheduler cfg cm bm) = {#}"
proof -
  have "(\<Sum>x\<leftarrow>ks. {#}) = {#}" for ks :: "string list" by (induction ks) simp_all
  then show ?thesis
    by (simp add: held_ids_def queued_reqs_def active_reqs_def new_scheduler_def map_reqs_def comp_def
        queue_reqs_def new_queue_def)
qed

lemma run_ok_frame:
  assumes "run_ok w" "sc_queues s = sc_queues (run_sched w)" "sc_active s = sc_active (run_sched w)"
    "od_ok (endpoints (sc_config s))"
  shows "run_ok (w\<lparr>run_sched := s\<rparr>)"
  using assms sched_ok_cong[of "run_sched w" s] held_ids_cong[of s "run_sched w"]
  by (simp add: run_ok_def active_reqs_def)

lemma complete_sub:
  assumes "sched_ok s" shows "held_ids (sched_complete rec now s) \<subseteq># held_ids s"
proof (rule sched_complete_cases[OF assms, of rec now])
  fix ep ar assume "(cr_request_id rec, ar) \<in> set (active_of s ep)"
  then have "cr_request_id rec \<in> fst ` set (active_of s ep)" by force
  from sched_complete_ids[OF assms this, of now]
  have "held_ids s = held_ids (sched_complete rec now s) + {#cr_request_id rec#}" by simp
  then show ?thesis by (metis mset_subset_eq_add_left)
qed simp

lemma cancel_run_ok:
  assumes "run_ok w" shows "run_ok (w\<lparr>run_sched := fst (sched_cancel rid (run_sched w))\<rparr>)"
proof -
  let ?s = "run_sched w"
  have ok: "sched_ok ?s" using assms by (simp add: run_ok_def)
  note c = cancel_exact[OF ok, of rid]
  have "held_ids (fst (sched_cancel rid ?s)) \<subseteq># held_ids ?s"
  proof (cases "snd (sched_cancel rid ?s)")
    case True
    then have "held_ids ?s = held_ids (fst (sched_cancel rid ?s)) + {#rid#}" using c by simp
    then show ?thesis using mset_subset_eq_add_left by metis
  next
    case False
    then show ?thesis using c by simp
  qed
  moreover have "active_reqs (fst (sched_cancel rid ?s)) = active_reqs ?s" using c by (simp add: active_reqs_def)
  moreover have "sc_config (fst (sched_cancel rid ?s)) = sc_config ?s" by (simp add: sched_cancel_def case_prod_unfold Let_def)
  ultimately show ?thesis
    using assms sched_cancel_ok[OF ok, of rid] distinct_sub[of "held_ids ?s"] by (simp add: run_ok_def)
qed

lemma enqueue_run_ok:
  assumes "run_ok w" "request_id r \<notin># held_ids (run_sched w)"
  shows "run_ok (w\<lparr>run_sched := fst (sched_enqueue env r (run_sched w))\<rparr>)"
proof -
  let ?s = "run_sched w"
  have ok: "sched_ok ?s" and d: "\<forall>x. count (held_ids ?s) x \<le> 1" using assms(1) by (auto simp: run_ok_def)
  have "held_ids (fst (sched_enqueue env r ?s)) \<subseteq># add_mset (request_id r) (held_ids ?s)"
    using sched_enqueue_failed_ids[OF ok, of env r] sched_enqueue_ids(1)[OF ok, of env r]
    by (cases "snd (sched_enqueue env r ?s)") simp_all
  moreover have "\<forall>x. count (add_mset (request_id r) (held_ids ?s)) x \<le> 1" using d assms(2) by (auto simp: not_in_iff)
  ultimately have "\<forall>x. count (held_ids (fst (sched_enqueue env r ?s))) x \<le> 1" by (metis distinct_sub)
  then show ?thesis
    using assms(1) sched_enqueue_ok[OF ok, of env r] sched_enqueue_active_reqs[OF ok, of env r]
    by (simp add: run_ok_def)
qed

lemma tick_run_ok:
  assumes "run_ok w"
  shows "run_ok \<lparr>run_sched = lp_sched (tick env now (run_sched w)),
    run_started = run_started w + started_by (tick env now (run_sched w))\<rparr>"
proof -
  have ok: "sched_ok (run_sched w)" "od_ok (endpoints (sc_config (run_sched w)))"
    "\<forall>x. count (held_ids (run_sched w)) x \<le> 1" "run_started w \<subseteq># active_reqs (run_sched w)"
    using assms by (auto simp: run_ok_def)
  have "start_inv (sc_config (run_sched w)) (held_ids (run_sched w)) (active_reqs (run_sched w)) (tick env now (run_sched w))"
    by (rule tick_starts[OF ok(1,3)])
  then show ?thesis
    using ok(2) distinct_sub tick_started_bound(1)[OF ok, of env now] by (auto simp: run_ok_def start_inv_def wf_inv_def)
qed

lemma complete_run_ok:
  assumes "run_ok w"
  shows "run_ok \<lparr>run_sched = sched_complete rec now (run_sched w),
    run_started = filter_mset (\<lambda>r. request_id r \<noteq> cr_request_id rec) (run_started w)\<rparr>"
proof -
  have ok: "sched_ok (run_sched w)" "\<forall>x. count (held_ids (run_sched w)) x \<le> 1"
    using assms by (auto simp: run_ok_def)
  have "sc_config (sched_complete rec now (run_sched w)) = sc_config (run_sched w)"
    by (rule sched_complete_cases[OF ok(1), of rec now]) simp_all
  then show ?thesis
    using assms sched_complete_ok[OF ok(1)] distinct_sub[OF ok(2) complete_sub[OF ok(1)]]
    by (simp add: run_ok_def complete_active[OF ok] multiset_filter_mono)
qed

lemma sched_step_ok:
  assumes "run_ok w" "sched_step w w'" shows "run_ok w'"
  using assms(2)
proof (rule sched_stepE)
  fix e assume "w' = w\<lparr>run_sched := (run_sched w)\<lparr>sc_budgets := budget_step (sc_budgets (run_sched w)) e\<rparr>\<rparr>"
  then show ?thesis using run_ok_frame[OF assms(1)] assms(1) by (simp add: run_ok_def)
next
  fix ep rep assume "w' = w\<lparr>run_sched := apply_discovered_capacity ep rep (run_sched w)\<rparr>"
  then show ?thesis using run_ok_frame[OF assms(1) capacity_frames(1,2)] capacity_frames(3) assms(1) by (simp add: run_ok_def)
next
  fix table :: "(string, endpoint_config) odict"
  assume "od_ok table" "w' = w\<lparr>run_sched := (run_sched w)\<lparr>sc_config := (sc_config (run_sched w))\<lparr>endpoints := table\<rparr>\<rparr>\<rparr>"
  then show ?thesis using run_ok_frame[OF assms(1)] by simp
qed (use assms(1) enqueue_run_ok tick_run_ok complete_run_ok cancel_run_ok in \<open>simp_all\<close>)

interpretation sched: step_system sched_step fresh_run run_ok
proof unfold_locales
  fix w assume "fresh_run w"
  then obtain cfg cm bm where "od_ok (endpoints cfg)" "w = \<lparr>run_sched = new_scheduler cfg cm bm, run_started = {#}\<rparr>"
    by (auto simp: fresh_run_def)
  moreover have "sc_config (new_scheduler cfg cm bm) = cfg" by (simp add: new_scheduler_def)
  ultimately show "run_ok w" by (simp add: run_ok_def new_scheduler_ok new_scheduler_ids)
qed (rule sched_step_ok)

lemma step_growth:
  assumes "run_ok w" "sched_step w w'" "on_endpoint ep (run_started w) < on_endpoint ep (run_started w')"
  shows "\<exists>c. (ep, c) \<in> set (endpoints (sc_config (run_sched w'))) \<and> int (on_endpoint ep (run_started w')) \<le> effective_max_slots c"
  using assms(2)
proof (rule sched_stepE)
  fix env now
  assume w': "w' = \<lparr>run_sched = lp_sched (tick env now (run_sched w)),
    run_started = run_started w + started_by (tick env now (run_sched w))\<rparr>"
  have ok: "sched_ok (run_sched w)" "od_ok (endpoints (sc_config (run_sched w)))"
    "\<forall>x. count (held_ids (run_sched w)) x \<le> 1" "run_started w \<subseteq># active_reqs (run_sched w)"
    using assms(1) by (auto simp: run_ok_def)
  have "sc_config (lp_sched (tick env now (run_sched w))) = sc_config (run_sched w)"
    using tick_wf[OF ok(1), of env now] by (simp add: wf_inv_def)
  then show ?thesis using tick_started_bound(2)[OF ok, of ep env now] assms(3) by (simp add: w')
next
  fix rec now
  assume w': "w' = \<lparr>run_sched = sched_complete rec now (run_sched w),
    run_started = filter_mset (\<lambda>r. request_id r \<noteq> cr_request_id rec) (run_started w)\<rparr>"
  have "on_endpoint ep (run_started w') \<le> on_endpoint ep (run_started w)" by (rule on_endpoint_mono) (simp add: w')
  then show ?thesis using assms(3) by simp
qed (use assms(3) in simp_all)

lemma run_bound:
  assumes "fresh_run w0" "sched_step\<^sup>*\<^sup>* w0 w"
  shows "0 < on_endpoint ep (run_started w) \<Longrightarrow> \<exists>u c. sched_step\<^sup>*\<^sup>* w0 u \<and> sched_step\<^sup>*\<^sup>* u w \<and>
    (ep, c) \<in> set (endpoints (sc_config (run_sched u))) \<and> int (on_endpoint ep (run_started w)) \<le> effective_max_slots c"
  using assms(2)
proof (induction rule: rtranclp_induct)
  case base
  then show ?case using assms(1) by (auto simp: fresh_run_def on_endpoint_def)
next
  case (step w w')
  have run: "sched_step\<^sup>*\<^sup>* w0 w'" using step.hyps by (rule rtranclp.rtrancl_into_rtrancl)
  show ?case
  proof (cases "on_endpoint ep (run_started w) < on_endpoint ep (run_started w')")
    case True
    from step_growth[OF sched.reachable_ok[OF assms(1) step.hyps(1)] step.hyps(2) True] run show ?thesis by blast
  next
    case False
    then have le: "on_endpoint ep (run_started w') \<le> on_endpoint ep (run_started w)" by simp
    then obtain u c where u: "sched_step\<^sup>*\<^sup>* w0 u" "sched_step\<^sup>*\<^sup>* u w" "(ep, c) \<in> set (endpoints (sc_config (run_sched u)))"
      "int (on_endpoint ep (run_started w)) \<le> effective_max_slots c"
      using step.IH step.prems by auto
    have "int (on_endpoint ep (run_started w')) \<le> effective_max_slots c" using u(4) le by linarith
    with u(1,3) rtranclp.rtrancl_into_rtrancl[OF u(2) step.hyps(2)] show ?thesis by blast
  qed
qed

text \<open>C1: the requests running on an endpoint are bounded by its slots in every run. A run starts
  with a fresh scheduler and performs any sequence of enqueues, ticks, completions, cancellations,
  budget operations, discovered capacity changes and replacements of the endpoint table, each under
  its own environment, where a request is enqueued under an identifier not already held. The
  requests started and not yet reported complete are all in the in-flight tables; a step that
  raises their number on an endpoint leaves it at most the effective slots the endpoint has then;
  and so the number is always at most the effective slots the endpoint had at some moment of the
  run. Lowering the slots stops nothing that runs.\<close>

lemma reachable_within_slots:
  assumes "fresh_run w0" "sched_step\<^sup>*\<^sup>* w0 w" "sched_step w w'"
  shows "sched_ok (run_sched w') \<and> run_started w' \<subseteq># active_reqs (run_sched w') \<and>
    (on_endpoint ep (run_started w) < on_endpoint ep (run_started w') \<longrightarrow>
      (\<exists>c. (ep, c) \<in> set (endpoints (sc_config (run_sched w'))) \<and>
           int (on_endpoint ep (run_started w')) \<le> effective_max_slots c)) \<and>
    (0 < on_endpoint ep (run_started w') \<longrightarrow>
      (\<exists>u c. sched_step\<^sup>*\<^sup>* w0 u \<and> sched_step\<^sup>*\<^sup>* u w' \<and> (ep, c) \<in> set (endpoints (sc_config (run_sched u))) \<and>
             int (on_endpoint ep (run_started w')) \<le> effective_max_slots c))"
proof -
  have ok: "run_ok w" by (rule sched.reachable_ok[OF assms(1,2)])
  have run: "sched_step\<^sup>*\<^sup>* w0 w'" using assms(2,3) by (rule rtranclp.rtrancl_into_rtrancl)
  show ?thesis
    using sched_step_ok[OF ok assms(3)] step_growth[OF ok assms(3), of ep] run_bound[OF assms(1) run, of ep]
    by (simp add: run_ok_def)
qed

definition idle_run :: "scheduler \<Rightarrow> sched_run" where
  "idle_run s = \<lparr>run_sched = s, run_started = {#}\<rparr>"

lemma idle_run_simps [simp]: "run_sched (idle_run s) = s" "run_started (idle_run s) = {#}"
  "(idle_run s)\<lparr>run_sched := t\<rparr> = idle_run t"
  by (simp_all add: idle_run_def)

lemma idle_run_reached:
  "fresh_run (idle_run (new_scheduler demo_config \<lparr>cm_models = []\<rparr> (new_manager 300))) \<and>
   sched_step\<^sup>*\<^sup>* (idle_run (new_scheduler demo_config \<lparr>cm_models = []\<rparr> (new_manager 300))) (idle_run demo_sched)"
proof -
  let ?s0 = "new_scheduler demo_config \<lparr>cm_models = []\<rparr> (new_manager 300)"
  let ?s1 = "fst (sched_enqueue demo_env (demo_request ''r1'') ?s0)"
  have "od_ok (endpoints demo_config)" by code_simp
  then have fresh: "fresh_run (idle_run ?s0)" unfolding fresh_run_def idle_run_def by blast
  have a: "sched_step (idle_run ?s0) (idle_run ?s1)"
    using step_enqueue[of "demo_request ''r1''" "idle_run ?s0" demo_env] by (simp add: new_scheduler_ids)
  have "held_ids ?s1 = {#''r1''#}" by code_simp
  then have "sched_step (idle_run ?s1) (idle_run (fst (sched_enqueue demo_env (demo_request ''r2'') ?s1)))"
    using step_enqueue[of "demo_request ''r2''" "idle_run ?s1" demo_env] by (simp add: demo_request_def)
  then have "sched_step (idle_run ?s1) (idle_run demo_sched)" by (simp only: demo_sched_def)
  with a fresh show ?thesis by (meson converse_rtranclp_into_rtranclp rtranclp.rtrancl_refl)
qed

lemma reachable_within_slots_witness:
  "on_endpoint ''chat'' (started_by (tick demo_env 1 demo_sched)) = 1 \<and>
   (\<exists>c. (''chat'', c) \<in> set (endpoints demo_config) \<and>
        int (on_endpoint ''chat'' (started_by (tick demo_env 1 demo_sched))) \<le> effective_max_slots c)"
proof -
  let ?w' = "\<lparr>run_sched = lp_sched (tick demo_env 1 demo_sched), run_started = started_by (tick demo_env 1 demo_sched)\<rparr>"
  have "sched_step (idle_run demo_sched) ?w'" using step_tick[of "idle_run demo_sched" demo_env 1] by simp
  note r = reachable_within_slots[OF conjunct1[OF idle_run_reached] conjunct2[OF idle_run_reached] this, of "''chat''"]
  have one: "on_endpoint ''chat'' (started_by (tick demo_env 1 demo_sched)) = 1" by code_simp
  have "sc_config (lp_sched (tick demo_env 1 demo_sched)) = demo_config"
    using tick_wf[OF demo_sched_ok, of demo_env 1] by (simp add: wf_inv_def)
  with r one show ?thesis by (simp add: on_endpoint_def)
qed

end
