(* ===== verification/Scheduler_Progress.thy ===== *)
theory Scheduler_Progress
  imports Scheduler_Runs
begin

section \<open>Progress of the scheduler\<close>

text \<open>
  That a tick cannot fail when the queued payloads are sane, that a pass over a band hands out
  exactly the slots that are free for it, and that without a spill target nothing about money is
  visible in what a tick does.
\<close>

subsection \<open>A tick does not fail\<close>

definition numeric :: "queued_request \<Rightarrow> bool" where
  "numeric r = ((\<exists>n. estimate_input_tokens (rq_payload r) = Inr n) \<and>
     as_number (max_output_of (rq_payload r)) \<noteq> None \<and> double_ok (max_output_of (rq_payload r)))"

lemma estimate_cost_number:
  assumes "as_number v = Some x" "double_ok v" shows "\<exists>c. estimate_cost f cm ep i v cs occ = Inr c"
proof (cases "od_get (cm_models cm) ep")
  case None
  have "py_float f v = Inr x" using assms by (cases v) (simp_all add: py_float_def)
  then have "estimate_cost f cm ep i v cs occ = Inr (x / 40)" using None by (simp add: estimate_cost_def)
  then show ?thesis by blast
next
  case (Some m)
  have "\<exists>w y. clip_output v e = Inr w \<and> as_number w = Some y \<and> double_ok w" for e
    using assms by (auto simp: clip_output_def split: option.split)
  then obtain w y where "clip_output v (od_get (output_length_ewma m) cs) = Inr w" "as_number w = Some y" "double_ok w" by blast
  then show ?thesis by (simp add: estimate_cost_def Some estimate_cost_ss_def num_div_def Let_def)
qed

lemma sched_enqueue_number:
  assumes "numeric r" shows "\<exists>r'. snd (sched_enqueue env r s) = Inr r' \<and> rq_payload r' = rq_payload r"
proof -
  obtain n x where "estimate_input_tokens (rq_payload r) = Inr n" "as_number (max_output_of (rq_payload r)) = Some x"
      "double_ok (max_output_of (rq_payload r))"
    using assms by (auto simp: numeric_def)
  moreover obtain c where "estimate_cost (float_str env) (sc_cost (ensure_budget r (ensure_endpoint (rq_endpoint r) s)))
      (rq_endpoint r) n (max_output_of (rq_payload r)) (call_site r)
      (int (length (active_of (ensure_budget r (ensure_endpoint (rq_endpoint r) s)) (rq_endpoint r)))) = Inr c"
    using estimate_cost_number[OF calculation(2,3)] by blast
  ultimately show ?thesis by (simp add: sched_enqueue_def Let_def)
qed

definition numeric_inv :: "proxy_config \<Rightarrow> loop_state \<Rightarrow> bool" where
  "numeric_inv cfg l = (wf_inv cfg l \<and> (\<forall>r \<in># queued_reqs (lp_sched l). numeric r) \<and> lp_error l = None)"

lemma rotate_queued:
  assumes "sched_ok s" shows "queued_reqs (set_queue ep (rotate_robin b (queue_of s ep)) s) = queued_reqs s"
proof -
  have "queued_reqs (set_queue ep (rotate_robin b (queue_of s ep)) s) + queue_reqs (queue_of s ep)
      = queued_reqs s + queue_reqs (rotate_robin b (queue_of s ep))"
    by (rule queued_reqs_put) (use assms in \<open>simp_all add: sched_ok_def\<close>)
  then show ?thesis by simp
qed

lemma spilled_state_queued:
  assumes "sched_ok s" "eq_peek b aid (queue_of s ep) = Some r" "snd (spilled_state env ep b aid tgt r s) = Inr r'"
  shows "add_mset r (queued_reqs (fst (spilled_state env ep b aid tgt r s))) = add_mset r' (queued_reqs s)"
proof -
  let ?s1 = "set_queue ep (fst (eq_dequeue b aid (queue_of s ep))) s"
  let ?s2 = "?s1\<lparr>total_spilled := total_spilled ?s1 + 1\<rparr>"
  have ok: "sched_ok ?s2" by (rule sched_ok_cong[OF dequeued_ok[OF assms(1,2)]]) simp_all
  have "snd (sched_enqueue env (respill ?s1 r tgt) ?s2) = Inr r'"
    using assms(3) by (simp add: spilled_state_def Let_def)
  from sched_enqueue_ids(2)[OF ok this]
  have "queued_reqs (fst (spilled_state env ep b aid tgt r s)) = add_mset r' (queued_reqs ?s2)"
    by (simp add: spilled_state_def Let_def)
  moreover have "queued_reqs ?s2 = queued_reqs ?s1" by (simp add: queued_reqs_def)
  moreover have "queued_reqs ?s1 + queue_reqs (queue_of s ep) = queued_reqs s + queue_reqs (fst (eq_dequeue b aid (queue_of s ep)))"
    by (rule queued_reqs_put) (use assms(1) in \<open>simp_all add: sched_ok_def\<close>)
  ultimately show ?thesis
    unfolding queue_reqs_dequeue[OF sched_ok_queue_ok[OF assms(1)] assms(2), symmetric] by simp
qed

lemma spill_head_numeric:
  assumes P: "numeric_inv cfg l" and pk: "eq_peek b aid (queue_of (lp_sched l) ep) = Some r"
  shows "(\<forall>x \<in># queued_reqs (lp_sched (spill_head env ep b aid tgt l)). numeric x) \<and>
         lp_error (spill_head env ep b aid tgt l) = None"
proof -
  let ?s = "lp_sched l"
  have ok: "sched_ok ?s" and num: "\<forall>x \<in># queued_reqs ?s. numeric x" and err: "lp_error l = None"
    using P by (auto simp: numeric_inv_def wf_inv_def)
  let ?s1 = "set_queue ep (fst (eq_dequeue b aid (queue_of ?s ep))) ?s"
  have r: "numeric r" using num queue_of_sub[OF peek_in_reqs[OF sched_ok_queue_ok[OF ok] pk]] by blast
  then have "numeric (respill ?s1 r tgt)" by (simp add: numeric_def respill_def)
  from sched_enqueue_number[OF this]
  obtain r' where r': "snd (spilled_state env ep b aid tgt r ?s) = Inr r'" "rq_payload r' = rq_payload r"
    by (auto simp: spilled_state_def Let_def respill_def)
  obtain s2 where st: "spilled_state env ep b aid tgt r ?s = (s2, Inr r')" using r'(1) by (metis prod.collapse)
  have "set_mset (queued_reqs s2) \<subseteq> insert r' (set_mset (queued_reqs ?s))"
    using arg_cong[OF spilled_state_queued[OF ok pk r'(1)], of set_mset] st by (simp, blast)
  moreover have "numeric r'" using r r'(2) by (simp add: numeric_def)
  ultimately have "\<forall>x \<in># queued_reqs s2. numeric x" using num by blast
  moreover have "sched_ok s2" using spilled_state_ok[OF ok pk, of env tgt] st by simp
  ultimately show ?thesis
    by (simp add: spill_head_eq[OF pk sched_ok_queue_ok[OF ok]] st rotate_queued err)
qed

interpretation total: pass_invariant env now ep c n cfg "numeric_inv cfg" for env now ep c n cfg
proof unfold_locales
  fix l b aid r tgt
  assume P: "numeric_inv cfg l" and pk: "eq_peek b aid (queue_of (lp_sched l) ep) = Some r"
  have ok: "sched_ok (lp_sched l)" and wf: "wf_inv cfg l" and cfg: "sc_config (lp_sched l) = cfg"
    using P by (auto simp: numeric_inv_def wf_inv_def)
  {
    assume adm: "admit env (lp_sched l) c r (n + int (length (lp_decisions l))) (lp_available l) tgt = Inr DISPATCH"
    have "set_mset (queued_reqs (lp_sched (dispatch_head now ep b aid (n + int (length (lp_decisions l))) l)))
        \<subseteq> set_mset (queued_reqs (lp_sched l))"
      using arg_cong[OF dispatch_head_queued[OF ok pk], of set_mset] by (simp, blast)
    then show "numeric_inv cfg (dispatch_head now ep b aid (n + int (length (lp_decisions l))) l)"
      using P wf.dispatched[OF wf pk adm] by (auto simp: numeric_inv_def)
  next
    assume adm: "admit env (lp_sched l) c r (n + int (length (lp_decisions l))) (lp_available l) tgt = Inr SPILL"
      "target_ok env cfg c tgt"
    show "numeric_inv cfg (spill_head env ep b aid tgt l)"
      using wf.spilled[OF wf pk adm(2,1)] spill_head_numeric[OF P pk, of env tgt] by (simp add: numeric_inv_def)
  next
    fix e
    assume adm: "admit env (lp_sched l) c r (n + int (length (lp_decisions l))) (lp_available l) tgt = Inl e"
      and tgt: "target_ok env cfg c tgt"
    have "numeric r"
      using P queue_of_sub[OF peek_in_reqs[OF sched_ok_queue_ok[OF ok] pk]] by (auto simp: numeric_inv_def)
    then have "\<exists>f. fits_context r k = Inr f" for k
      by (auto simp: numeric_def fits_context_def context_fit_def Let_def)
    moreover have "tgt \<noteq> [] \<Longrightarrow> od_get (endpoints cfg) tgt \<noteq> None"
      using tgt by (auto simp: target_ok_def od_get_None_iff)
    ultimately show "numeric_inv cfg (l\<lparr>lp_error := Some e\<rparr>)"
      using adm by (auto simp: admit_def cfg py_bind_def split: if_splits option.splits sum.splits)
        (metis Inl_Inr_False)+
  }
next
  fix l b assume P: "numeric_inv cfg l" and k: "ep \<in> fst ` set (sc_queues (lp_sched l))"
  have "sched_ok (lp_sched l)" using P by (simp add: numeric_inv_def wf_inv_def)
  then show "numeric_inv cfg (l\<lparr>lp_sched := set_queue ep (rotate_robin b (queue_of (lp_sched l) ep)) (lp_sched l)\<rparr>)"
    using P wf.rotated[OF _ k, of cfg b] by (simp add: numeric_inv_def rotate_queued)
qed (auto simp: numeric_inv_def queued_reqs_def dest: wf.config intro: wf.picked wf.opened)

lemma dispatch_all_total:
  "numeric_inv cfg l \<Longrightarrow> numeric_inv cfg (fold (dispatch_next env now) eps l)"
proof (induction eps arbitrary: l)
  case (Cons epc eps)
  have "numeric_inv cfg (start_loop (lp_sched l))" using Cons.prems by (simp add: numeric_inv_def wf_inv_def)
  then have "numeric_inv cfg (dispatch_endpoint env now (fst epc) (snd epc) (lp_sched l))"
    by (rule endpoint_keeps[OF total.pass_invariant_axioms])
  then have "numeric_inv cfg (dispatch_next env now epc l)"
    using Cons.prems by (simp add: numeric_inv_def wf_inv_def dispatch_next_def Let_def)
  then show ?case using Cons.IH by simp
qed simp

lemma after_expiry_queued:
  assumes "sched_ok s" shows "set_mset (queued_reqs (after_expiry now s)) \<subseteq> set_mset (queued_reqs s)"
proof -
  have sub: "set_mset (queued_reqs (fst (expire_endpoint now ep acc))) \<subseteq> set_mset (queued_reqs (fst acc))"
    if "sched_ok (fst acc)" for ep acc
  proof -
    obtain s1 evs where acc: "acc = (s1, evs)" by (cases acc)
    obtain q' ex where q: "expire_before now (queue_of s1 ep) = (q', ex)" by fastforce
    let ?s' = "(set_queue ep q' s1)\<lparr>total_timeouts := total_timeouts s1 + int (length ex)\<rparr>"
    have "queued_reqs ?s' + queue_reqs (queue_of s1 ep) = queued_reqs s1 + queue_reqs q'"
      by (rule queued_reqs_put) (use that in \<open>simp_all add: sched_ok_def acc\<close>)
    moreover have "queue_reqs q' + mset ex = queue_reqs (queue_of s1 ep)"
      using expire_before_facts[OF sched_ok_queue_ok[of s1 ep], of now] that q by (simp add: acc)
    ultimately have "queued_reqs ?s' + mset ex = queued_reqs s1"
      by (metis add.assoc add.commute add_right_cancel)
    then have "set_mset (queued_reqs ?s') \<subseteq> set_mset (queued_reqs s1)" by (metis set_mset_union Un_upper1)
    then show ?thesis by (simp add: expire_endpoint_def acc q Let_def)
  qed
  have "set_mset (queued_reqs (fst (fold (expire_endpoint now) eps acc))) \<subseteq> set_mset (queued_reqs (fst acc))"
    if "expiry_ok s0 acc" "set eps \<subseteq> fst ` set (sc_queues s0)" for s0 eps acc
    using that
  proof (induction eps arbitrary: acc)
    case (Cons ep eps)
    have "sched_ok (fst acc)" using Cons.prems(1) by (simp add: expiry_ok_def)
    with Cons.IH[OF expire_endpoint_ok[OF Cons.prems(1), of ep now]] Cons.prems(2) sub[of acc ep]
    show ?case by simp
  qed simp
  moreover have "expiry_ok (s\<lparr>sc_budgets := replenish now (sc_budgets s)\<rparr>) (s\<lparr>sc_budgets := replenish now (sc_budgets s)\<rparr>, [])"
    using sched_ok_cong[OF assms] by (simp add: expiry_ok_def)
  note start = this
  let ?s = "s\<lparr>sc_budgets := replenish now (sc_budgets s)\<rparr>"
  have "set_mset (queued_reqs (after_expiry now s)) \<subseteq> set_mset (queued_reqs ?s)"
    using calculation[OF start, of "od_keys (sc_queues ?s)"] by (simp add: after_expiry_def expire_all_def)
  then show ?thesis by (simp add: queued_reqs_def)
qed

text \<open>C3: a tick does not fail. When every queued request has a payload the estimator can walk
  and a \<^verbatim>\<open>max_tokens\<close> that is absent or a number a double can hold, a tick returns without an exception, whatever the
  configuration, the health, the money and the amount of spilling; and every request with such a
  payload is accepted by \<^verbatim>\<open>enqueue\<close>.\<close>

lemma tick_total:
  assumes "sched_ok s" "\<forall>r \<in># queued_reqs s. numeric r" "numeric r0"
  shows "lp_error (tick env now s) = None \<and> (\<exists>r'. snd (sched_enqueue env r0 s) = Inr r')"
proof -
  have "numeric_inv (sc_config s) (tick_start now s)"
    using tick_start_wf[OF assms(1)] after_expiry_queued[OF assms(1), of now] assms(2)
    by (auto simp: numeric_inv_def tick_start_def)
  from dispatch_all_total[OF this, of env now "endpoints (sc_config s)"]
  have "lp_error (tick env now s) = None" by (simp add: numeric_inv_def tick_eq[OF assms(1)])
  then show ?thesis using sched_enqueue_number[OF assms(3)] by blast
qed

lemma demo_requests_numeric: "numeric (demo_request rid)"
  by (simp add: numeric_def demo_request_def estimate_input_tokens_def max_output_of_def Let_def od_get_or_def)

lemma demo_sched_numeric: "\<forall>r \<in># queued_reqs demo_sched. numeric r"
proof -
  have "list_all (\<lambda>p. list_all (\<lambda>b. list_all (\<lambda>q. list_all (\<lambda>r. rq_payload r = []) (snd q)) (eq_queues (snd p) b)) all_bands)
      (sc_queues demo_sched)" by code_simp
  then have "\<forall>r \<in># queued_reqs demo_sched. rq_payload r = []"
    by (auto simp: list_all_iff queued_reqs_def queue_reqs_def all_bands_def)
  then show ?thesis
    by (auto simp: numeric_def estimate_input_tokens_def max_output_of_def Let_def od_get_or_def)
qed

lemma tick_total_witness:
  "lp_error (tick demo_env 1 demo_sched) = None"
  using tick_total[OF demo_sched_ok demo_sched_numeric demo_requests_numeric] by blast

text \<open>An explicit null \<^verbatim>\<open>max_tokens\<close> is not the default: the request is refused with a
  \<^verbatim>\<open>TypeError\<close> on an endpoint without a cost model, and on every endpoint whose cost model is
  well formed.\<close>

lemma null_max_tokens_raises:
  assumes "od_get (rq_payload r) ''max_tokens'' = Some JNull" "estimate_input_tokens (rq_payload r) = Inr n"
    "case od_get (cm_models (sc_cost s)) (rq_endpoint r) of None \<Rightarrow> True | Some m \<Rightarrow> model_ok m"
  shows "snd (sched_enqueue env r s) = Inl TypeError"
proof -
  have mx: "max_output_of (rq_payload r) = JNull" using assms(1) by (simp add: max_output_of_def od_get_or_def)
  have "estimate_cost_ss m i JNull cs occ = Inl TypeError" if "model_ok m" for m i cs occ
    using rate_used_pos[OF that, of occ]
    by (auto simp: estimate_cost_ss_def clip_output_def num_div_def rate_used_def Let_def split: option.split)
  then have "estimate_cost (float_str env) (sc_cost s) (rq_endpoint r) n JNull cs occ = Inl TypeError" for cs occ
    using assms(3) by (auto simp: estimate_cost_def py_float_def split: option.splits)
  then show ?thesis by (simp add: sched_enqueue_def assms(2) mx Let_def)
qed

lemma null_max_tokens_raises_witness:
  "snd (sched_enqueue demo_env ((demo_request ''r9'')\<lparr>rq_payload := [(''max_tokens'', JNull)]\<rparr>) demo_sched) = Inl TypeError"
proof (rule null_max_tokens_raises[where n = 1])
  have "od_get (cm_models (sc_cost demo_sched)) ''chat'' = None" by code_simp
  then show "case od_get (cm_models (sc_cost demo_sched))
      (rq_endpoint ((demo_request ''r9'')\<lparr>rq_payload := [(''max_tokens'', JNull)]\<rparr>)) of None \<Rightarrow> True | Some m \<Rightarrow> model_ok m"
    by (simp add: demo_request_def)
qed (simp_all add: estimate_input_tokens_def estimate_tokens_from_chars_def system_chars_def)

text \<open>A whole \<^verbatim>\<open>max_tokens\<close> too large for a double makes \<^verbatim>\<open>enqueue\<close> raise as well, on an endpoint
  without a cost model or whose call site has not yet been seen five times.\<close>

lemma huge_max_tokens_raises:
  assumes "od_get (rq_payload r) ''max_tokens'' = Some (JInt i)" "\<not> double_ok (JInt i)"
    "estimate_input_tokens (rq_payload r) = Inr n"
    "case od_get (cm_models (sc_cost s)) (rq_endpoint r) of
       None \<Rightarrow> True | Some m \<Rightarrow> model_ok m \<and> od_get (output_length_ewma m) (call_site r) = None"
  shows "snd (sched_enqueue env r s) = Inl OverflowError"
proof -
  have mx: "max_output_of (rq_payload r) = JInt i" using assms(1) by (simp add: max_output_of_def od_get_or_def)
  have "estimate_cost_ss m k (JInt i) (call_site r) occ = Inl OverflowError"
    if "model_ok m" "od_get (output_length_ewma m) (call_site r) = None" for m k occ
    using rate_used_pos[OF that(1), of occ] assms(2) that(2)
    by (auto simp: estimate_cost_ss_def clip_output_def num_div_def rate_used_def Let_def split: if_splits)
  then have "estimate_cost (float_str env) (sc_cost s) (rq_endpoint r) n (JInt i) (call_site r) occ = Inl OverflowError" for occ
    using assms(2,4) by (auto simp: estimate_cost_def py_float_def split: option.splits)
  then show ?thesis by (simp add: sched_enqueue_def assms(3) mx Let_def)
qed

subsection \<open>A pass over a band hands out exactly the free slots\<close>

lemma band_depth_set:
  assumes "od_ok (eq_queues q b)"
  shows "band_depth b (set_agent b a rs q) + length (slot_reqs q b a) = band_depth b q + length rs"
proof -
  let ?d = "eq_queues q b" and ?f = "\<lambda>p. length (snd p)"
  have "sum_list (map ?f (od_put a rs ?d)) + length (slot_reqs q b a) = sum_list (map ?f ?d) + length rs"
  proof (cases "od_get ?d a")
    case None
    then show ?thesis
      using sum_list_od_put_new[of a ?d ?f rs] od_get_None_iff[of ?d a] by (simp add: slot_reqs_def od_get_or_def)
  next
    case (Some v)
    then show ?thesis
      using sum_list_od_put_old[OF assms Some, of ?f rs] by (simp add: slot_reqs_def od_get_or_def)
  qed
  moreover have "sum_list (map ?f (od_del a ?d)) + length (slot_reqs q b a) = sum_list (map ?f ?d)"
  proof (cases "od_get ?d a")
    case None
    then show ?thesis
      using od_get_None_iff[of ?d a] by (simp add: slot_reqs_def od_get_or_def od_del_notin)
  next
    case (Some v)
    then show ?thesis using sum_list_od_del[OF assms Some, of ?f] by (simp add: slot_reqs_def od_get_or_def)
  qed
  ultimately show ?thesis
    by (simp add: set_agent_def put_agent_def drop_agent_def band_depth_def comp_def)
qed

lemma band_depth_dequeue:
  assumes "queue_ok q" "eq_peek b a q = Some r"
  shows "band_depth b q = Suc (band_depth b (rotate_robin b (fst (eq_dequeue b a q))))"
proof -
  obtain rs where s: "slot_reqs q b a = r # rs" using assms(2) by (auto simp: peek_slot split: list.splits)
  then show ?thesis
    using band_depth_set[OF queue_ok_od[OF assms(1)], of b a rs]
    by (simp add: dequeue_slot rotate_robin_def band_depth_def)
qed

lemma pick_agent_listed:
  assumes "cands \<noteq> []" "\<forall>a \<in> set cands. a \<in> fst ` set (bm_agents bm)"
  shows "\<exists>a \<in> set cands. snd (pick_agent cands now ws bm) = Some a"
proof -
  have scan: "\<exists>a \<in> set cands. best_scan bs None cands = Some a" if "bs = bm_agents bm" for bs
  proof (cases "best_scan bs None cands")
    case None
    obtain a where "a \<in> set cands" using assms(1) by (cases cands) auto
    with assms(2) have "od_get bs a \<noteq> None" by (auto simp: od_get_None_iff that)
    with None \<open>a \<in> set cands\<close> show ?thesis by (simp add: best_scan_None_iff)
  qed (use best_scan_max in blast)
  show ?thesis
  proof (cases "starving_candidates (starvation_timeout_s bm) ws cands")
    case Nil
    then show ?thesis using scan assms(1) by (auto simp: pick_agent_def Let_def note_waits_def)
  next
    case (Cons x xs)
    have "snd (max_first fst x xs) \<in> snd ` set (starving_candidates (starvation_timeout_s bm) ws cands)"
      using max_first_in[of fst x xs] Cons by auto
    then have "snd (max_first fst x xs) \<in> set cands" by (auto simp: starving_candidates_def)
    then show ?thesis using Cons scan assms(1) by (auto simp: pick_agent_def Let_def)
  qed
qed

text \<open>Every agent with queued work at the endpoint has a budget, as \<^verbatim>\<open>enqueue\<close> ensures.\<close>

definition budgets_known :: "string \<Rightarrow> priority_band \<Rightarrow> scheduler \<Rightarrow> bool" where
  "budgets_known ep b s =
     (\<forall>a \<in> set (agents_in_band b (queue_of s ep)). a \<in> fst ` set (bm_agents (sc_budgets s)))"

lemma charge_keys [simp]: "fst ` set (bm_agents (charge a x t bm)) = fst ` set (bm_agents bm)"
  by (auto simp: charge_def insert_absorb rev_image_eqI split: option.split dest: od_get_Some_in)

lemma agents_after_dequeue:
  assumes "queue_ok q"
  shows "set (agents_in_band b (rotate_robin b (fst (eq_dequeue b a q)))) \<subseteq> set (agents_in_band b q)"
  using fifo.agents_with_work[OF assms, of b] fifo.agents_with_work[OF eq_dequeue_ok[OF assms, of b a], of b]
    fifo.content_deq[OF assms, of b a b]
  by (auto simp: agents_in_band_def rotate_robin_def split: if_splits)

text \<open>One iteration without a spill target, with work queued and every budget known: it dispatches
  one request of the band when the band has a slot and the endpoint room, and stops otherwise.\<close>

definition dispatched_one :: "string \<Rightarrow> priority_band \<Rightarrow> loop_state \<Rightarrow> loop_state \<Rightarrow> bool" where
  "dispatched_one ep b l l' =
     (sched_ok (lp_sched l') \<and> budgets_known ep b (lp_sched l') \<and> lp_error l' = lp_error l \<and>
      lp_available l' = lp_available l - 1 \<and>
      (\<exists>d. lp_decisions l' = lp_decisions l @ [d] \<and> rq_band (dd_request d) = b) \<and>
      band_depth b (queue_of (lp_sched l) ep) = Suc (band_depth b (queue_of (lp_sched l') ep)))"

lemma band_step_local:
  assumes ok: "sched_ok (lp_sched l)" and known: "budgets_known ep b (lp_sched l)"
    and work: "band_depth b (queue_of (lp_sched l) ep) \<noteq> 0"
  shows "\<exists>l'. band_step env now ep c b [] n l =
     (l', 0 < max_slots c \<and> 0 < lp_available l \<and> n + int (length (lp_decisions l)) < effective_max_slots c) \<and>
     (if 0 < max_slots c \<and> 0 < lp_available l \<and> n + int (length (lp_decisions l)) < effective_max_slots c
      then dispatched_one ep b l l'
      else lp_decisions l' = lp_decisions l \<and> lp_error l' = lp_error l \<and>
           sc_queues (lp_sched l') = sc_queues (lp_sched l))"
proof -
  let ?s = "lp_sched l" and ?q = "queue_of (lp_sched l) ep" and ?C = "agents_in_band b (queue_of (lp_sched l) ep)"
  let ?w = "wait_by_agent now b ?q ?C"
  have qok: "queue_ok ?q" by (rule sched_ok_queue_ok[OF ok])
  have ne: "?C \<noteq> []" using work band_depth_zero_iff[OF qok] by simp
  obtain a where a: "a \<in> set ?C" "snd (pick_agent ?C now ?w (sc_budgets ?s)) = Some a"
    using pick_agent_listed[OF ne] known unfolding budgets_known_def by blast
  obtain bm where pk: "pick_agent ?C now ?w (sc_budgets ?s) = (bm, Some a)" using a(2) by (metis prod.collapse)
  have bm: "bm_agents bm = bm_agents (sc_budgets ?s)" using pick_agent_frame(1)[of ?C now ?w "sc_budgets ?s"] pk by simp
  obtain r where r: "eq_peek b a ?q = Some r" using fifo.peek_listed[OF qok a(1)] by blast
  let ?l1 = "l\<lparr>lp_sched := ?s\<lparr>sc_budgets := bm\<rparr>\<rparr>"
  let ?go = "0 < max_slots c \<and> 0 < lp_available l \<and> n + int (length (lp_decisions l)) < effective_max_slots c"
  have ok1: "sched_ok (lp_sched ?l1)" using sched_ok_cong[OF ok] by simp
  have r1: "eq_peek b a (queue_of (lp_sched ?l1) ep) = Some r" using r by simp
  show ?thesis
  proof (cases ?go)
    case True
    let ?l2 = "dispatch_head now ep b a (n + int (length (lp_decisions l))) ?l1"
    have "band_step env now ep c b [] n l = (?l2, True)"
      using True by (simp add: band_step_def Let_def ne pk r admit_def)
    moreover have "dispatched_one ep b l ?l2"
      using dispatch_head_ok[OF ok1 r1] slot_ok[OF qok, of r b a] r agents_after_dequeue[OF qok, of b a] known
        band_depth_dequeue[OF qok r]
      by (auto simp: dispatched_one_def budgets_known_def bm peek_slot dispatch_head_eq[OF r1 sched_ok_queue_ok[OF ok1]] Let_def
          split: list.splits)
    ultimately show ?thesis using True by auto
  next
    case False
    then have "band_step env now ep c b [] n l = (?l1, False)"
      by (auto simp: band_step_def Let_def ne pk r admit_def)
    then show ?thesis using False by auto
  qed
qed

text \<open>How many requests a band gets: as many as it has, as many as the band may use, and as many
  as the endpoint has room for.\<close>

definition grant :: "endpoint_config \<Rightarrow> int \<Rightarrow> int \<Rightarrow> nat \<Rightarrow> nat" where
  "grant c occ av depth = (if 0 < max_slots c then min depth (nat (min av (effective_max_slots c - occ))) else 0)"

lemma band_loop_local:
  assumes "sched_ok (lp_sched l)" "budgets_known ep b (lp_sched l)"
    and "band_depth b (queue_of (lp_sched l) ep) \<le> fuel"
  shows "\<exists>ds. lp_decisions (band_loop env now ep c b [] n fuel l) = lp_decisions l @ ds \<and>
    length ds = grant c (n + int (length (lp_decisions l))) (lp_available l) (band_depth b (queue_of (lp_sched l) ep)) \<and>
    (\<forall>d \<in> set ds. rq_band (dd_request d) = b) \<and>
    band_depth b (queue_of (lp_sched (band_loop env now ep c b [] n fuel l)) ep) + length ds
      = band_depth b (queue_of (lp_sched l) ep) \<and>
    lp_error (band_loop env now ep c b [] n fuel l) = lp_error l"
  using assms
proof (induction fuel arbitrary: l)
  case 0
  then show ?case by (simp add: grant_def)
next
  case (Suc fuel)
  let ?depth = "band_depth b (queue_of (lp_sched l) ep)"
  let ?occ = "n + int (length (lp_decisions l))"
  show ?case
  proof (cases "?depth = 0")
    case True
    then show ?thesis by (simp add: grant_def)
  next
    case False
    obtain l' where st: "band_step env now ep c b [] n l =
        (l', 0 < max_slots c \<and> 0 < lp_available l \<and> ?occ < effective_max_slots c)"
      and res: "if 0 < max_slots c \<and> 0 < lp_available l \<and> ?occ < effective_max_slots c then dispatched_one ep b l l'
        else lp_decisions l' = lp_decisions l \<and> lp_error l' = lp_error l \<and> sc_queues (lp_sched l') = sc_queues (lp_sched l)"
      using band_step_local[OF Suc.prems(1,2) False, of env now c n] by blast
    show ?thesis
    proof (cases "0 < max_slots c \<and> 0 < lp_available l \<and> ?occ < effective_max_slots c")
      case True
      then have one: "dispatched_one ep b l l'" using res by simp
      then obtain d where d: "lp_decisions l' = lp_decisions l @ [d]" "rq_band (dd_request d) = b"
        by (auto simp: dispatched_one_def)
      have depth: "?depth = Suc (band_depth b (queue_of (lp_sched l') ep))" using one by (simp add: dispatched_one_def)
      obtain ds where ds: "lp_decisions (band_loop env now ep c b [] n fuel l') = lp_decisions l' @ ds"
        "length ds = grant c (n + int (length (lp_decisions l'))) (lp_available l') (band_depth b (queue_of (lp_sched l') ep))"
        "\<forall>d \<in> set ds. rq_band (dd_request d) = b"
        "band_depth b (queue_of (lp_sched (band_loop env now ep c b [] n fuel l')) ep) + length ds
           = band_depth b (queue_of (lp_sched l') ep)"
        "lp_error (band_loop env now ep c b [] n fuel l') = lp_error l'"
        using Suc.IH[of l'] one Suc.prems(3) depth by (auto simp: dispatched_one_def)
      have loop: "band_loop env now ep c b [] n (Suc fuel) l = band_loop env now ep c b [] n fuel l'"
        using False st True by simp
      have "Suc (length ds) = grant c ?occ (lp_available l) ?depth"
        using ds(2) True one depth d(1) by (simp add: grant_def dispatched_one_def) linarith
      then show ?thesis
        unfolding loop using ds d depth one
        by (intro exI[of _ "d # ds"]) (simp add: dispatched_one_def)
    next
      case stop: False
      have "band_loop env now ep c b [] n (Suc fuel) l = l'" using False st stop by auto
      moreover have "grant c ?occ (lp_available l) ?depth = 0" using stop by (auto simp: grant_def)
      ultimately show ?thesis using res stop by (auto simp: od_get_or_def)
    qed
  qed
qed

text \<open>A band gets every slot that is free for it and no other. When the endpoint has nowhere
  to spill to and the agents with work have budgets, one turn over a band dispatches exactly
  \<^const>\<open>grant\<close> many requests, all of that band: the smaller of what is queued, what
  \<^const>\<open>available_for_band\<close> allows and what the effective slots leave; the rest stays queued.\<close>

lemma band_pass_grants:
  assumes "sched_ok (lp_sched l)" "budgets_known ep b (lp_sched l)" "lp_error l = None"
    and "spill_target env (lp_sched l) c = []"
    and occ: "occ = n + int (length (lp_decisions l))"
    and q: "q = queue_of (lp_sched l) ep"
  shows "\<exists>ds. lp_decisions (band_pass env now ep c n b l) = lp_decisions l @ ds \<and>
    length ds = grant c occ (available_for_band (lp_sched l) c b occ q) (band_depth b q) \<and>
    (\<forall>d \<in> set ds. rq_band (dd_request d) = b) \<and>
    band_depth b (queue_of (lp_sched (band_pass env now ep c n b l)) ep) + length ds = band_depth b q \<and>
    lp_error (band_pass env now ep c n b l) = None"
proof -
  let ?av = "available_for_band (lp_sched l) c b occ q"
  show ?thesis
  proof (cases "band_depth b q = 0 \<or> ?av \<le> 0")
    case True
    then have "band_pass env now ep c n b l = l" using assms by (auto simp: band_pass_def Let_def)
    then show ?thesis using True assms(3) by (auto simp: grant_def q)
  next
    case False
    let ?l = "l\<lparr>lp_available := ?av\<rparr>"
    have "band_pass env now ep c n b l =
        band_loop env now ep c b [] n (band_depth b q + length (agents_in_band b q)) ?l"
      using False assms by (simp add: band_pass_def Let_def)
    moreover have "sched_ok (lp_sched ?l)" "budgets_known ep b (lp_sched ?l)" using assms(1,2) by simp_all
    ultimately show ?thesis
      using band_loop_local[of ?l ep b "band_depth b q + length (agents_in_band b q)" env now c n] assms(3)
      by (simp add: q occ)
  qed
qed

definition demo_loop :: loop_state where
  "demo_loop = start_loop (demo_sched\<lparr>sc_config := \<lparr>endpoints = [(''chat'', demo_endpoint ''chat'' 1)], agents = [], cfg_starvation_timeout_s = 300\<rparr>\<rparr>)"

lemma band_pass_grants_witness:
  "length (lp_decisions (band_pass demo_env 1 ''chat'' (demo_endpoint ''chat'' 1) 0 INTERACTIVE demo_loop)) = 1"
proof -
  let ?c = "demo_endpoint ''chat'' 1"
  have "sched_ok (lp_sched demo_loop)" using sched_ok_cong[OF demo_sched_ok] by (simp add: demo_loop_def)
  moreover have "budgets_known ''chat'' INTERACTIVE (lp_sched demo_loop)" by code_simp
  moreover have "lp_error demo_loop = None" by (simp add: demo_loop_def)
  moreover have "spill_target demo_env (lp_sched demo_loop) ?c = []" by code_simp
  moreover have "lp_decisions demo_loop = []" by (simp add: demo_loop_def)
  moreover have "grant ?c 0 (available_for_band (lp_sched demo_loop) ?c INTERACTIVE 0 (queue_of (lp_sched demo_loop) ''chat''))
      (band_depth INTERACTIVE (queue_of (lp_sched demo_loop) ''chat'')) = 1" by code_simp
  ultimately show ?thesis
    using band_pass_grants[of demo_loop "''chat''" INTERACTIVE demo_env ?c 0 0 "queue_of (lp_sched demo_loop) ''chat''" 1]
    by auto
qed

subsection \<open>Where the code falls short of its documentation\<close>

definition demo_two :: "queued_request \<Rightarrow> queued_request \<Rightarrow> scheduler" where
  "demo_two r r' = fst (sched_enqueue demo_env r' (fst (sched_enqueue demo_env r
     (new_scheduler \<lparr>endpoints = [(''chat'', demo_endpoint ''chat'' 2)], agents = [], cfg_starvation_timeout_s = 300\<rparr>
        \<lparr>cm_models = []\<rparr> (new_manager 300)))))"

text \<open>Identifiers chosen by callers can hide running work. Two queued requests with the same
  identifier are both dispatched by one tick, but the in-flight table keeps one entry, so a slot in
  use is counted free; the distinctness assumed by the conservation property is needed.\<close>

lemma duplicate_ids_hide_a_slot:
  "length (lp_decisions (tick demo_env 1 (demo_two (demo_request ''r'') (demo_request ''r'')))) = 2 \<and>
   length (active_of (lp_sched (tick demo_env 1 (demo_two (demo_request ''r'') (demo_request ''r'')))) ''chat'') = 1"
  by code_simp

text \<open>An expired request can be dispatched. A request whose deadline has passed, queued behind
  an agent's live head, is not removed by the expiry that opens a tick and is sent to the backend
  by the same tick.\<close>

lemma expired_request_dispatched:
  "map (\<lambda>d. (request_id (dd_request d), timeout_deadline (dd_request d)))
     (lp_decisions (tick demo_env 10 (demo_two (demo_request ''r1'') ((demo_request ''r2'')\<lparr>timeout_deadline := 5\<rparr>))))
   = [(''r1'', 100), (''r2'', 5)]"
  by code_simp

text \<open>The foreground rule can name more slots than are free: with two of four slots taken by
  background work and background work queued, it answers three although two are free. Admission
  checks the occupancy again, so no slot is oversubscribed.\<close>

lemma available_above_free:
  "available_for_band
     ((demo_two (demo_request ''r1'') (demo_request ''r2''))\<lparr>sc_active :=
        [(''chat'', map (\<lambda>i. (i, \<lparr>ar_request = (demo_request i)\<lparr>rq_band := BACKGROUND\<rparr>,
                              dispatched_at = 0, estimated_remaining_s = 0\<rparr>)) [''x'', ''y''])]\<rparr>)
     (demo_endpoint ''chat'' 4) INTERACTIVE 2
     (eq_enqueue ((demo_request ''z'')\<lparr>rq_band := BACKGROUND\<rparr>) new_queue) = 3"
  by code_simp

end
