(* ===== verification/Goodput.thy ===== *)
theory Goodput
  imports Json
begin

section \<open>Goodput-collapse detection (goodput.py, the poller's goodput tick in health.py)\<close>

text \<open>
  The sample rings, the three-valued verdict, the trip latch, and the tick of the capacity poller
  that feeds them and keeps the set of collapsed endpoints. A counter that a scrape did not supply
  is \<open>None\<close> in its sample. The counters come from the backend probes, which are arguments of
  the tick.
\<close>

subsection \<open>Constants and thresholds\<close>

definition gp_min_samples :: nat where "gp_min_samples = 2"
definition min_window_s :: real where "min_window_s = 5"
definition recovery_evaluations_default :: int where "recovery_evaluations_default = 2"
definition max_hold_default :: real where "max_hold_default = 300"

definition cumulative_keys :: "string list" where
  "cumulative_keys = [''iterations'', ''generation'', ''prompt'']"
definition gauge_keys :: "string list" where "gauge_keys = [''running'']"
definition gauge_float_keys :: "string list" where "gauge_float_keys = [''busy'']"

datatype verdict = Healthy | Collapsed | UnknownVerdict
datatype latch_action = NoAction | Trip | Clear

datatype clause = Occupancy | Iterations | Generation | Prefill | EngineIdle

record goodput_thresholds =
  min_running :: int
  sustain_evaluations :: int
  max_iteration_rate :: "real option"
  max_generation_tps_per_request :: "real option"
  max_prefill_tps :: "real option"
  busy_min :: real
  recovery_evaluations :: int
  max_hold_s :: real

definition declared :: "real option \<Rightarrow> bool" where
  "declared v = (case v of None \<Rightarrow> False | Some x \<Rightarrow> x > 0)"

definition progress_clauses :: "goodput_thresholds \<Rightarrow> clause list" where
  "progress_clauses t =
     (if declared (max_iteration_rate t) then [Iterations] else []) @
     (if declared (max_generation_tps_per_request t) then [Generation] else []) @
     (if declared (max_prefill_tps t) then [Prefill] else []) @
     (if busy_min t > 0 then [EngineIdle] else [])"

definition armed :: "goodput_thresholds \<Rightarrow> bool" where
  "armed t \<longleftrightarrow> min_running t \<ge> 1 \<and> sustain_evaluations t \<ge> 1 \<and> progress_clauses t \<noteq> []"

definition effective_recovery_evaluations :: "goodput_thresholds \<Rightarrow> int" where
  "effective_recovery_evaluations t =
     (if recovery_evaluations t \<noteq> 0 then recovery_evaluations t else recovery_evaluations_default)"

definition effective_max_hold_s :: "goodput_thresholds \<Rightarrow> real" where
  "effective_max_hold_s t = (if max_hold_s t \<noteq> 0 then max_hold_s t else max_hold_default)"

subsection \<open>Samples, verdicts and the monitor\<close>

record sample =
  ts :: real
  smp_values :: "(string, real option) odict"

record goodput_verdict =
  outcome :: verdict
  gv_samples :: nat
  gv_window_s :: real
  running_min :: "real option"
  running_mean :: "real option"
  iteration_rate :: "real option"
  generation_tps :: "real option"
  generation_tps_per_request :: "real option"
  prefill_tps :: "real option"
  busy_max :: "real option"
  clauses_held :: "clause list"
  clauses_cleared :: "clause list"
  reason :: string

definition unknown_verdict :: "nat \<Rightarrow> real \<Rightarrow> string \<Rightarrow> goodput_verdict" where
  "unknown_verdict n w why =
     \<lparr>outcome = UnknownVerdict, gv_samples = n, gv_window_s = w, running_min = None, running_mean = None,
      iteration_rate = None, generation_tps = None, generation_tps_per_request = None, prefill_tps = None,
      busy_max = None, clauses_held = [], clauses_cleared = [], reason = why\<rparr>"

record latch_state =
  consecutive_collapsed :: int
  consecutive_healthy :: int
  tripped_at :: real
  trips_count :: int

definition new_latch :: latch_state where
  "new_latch = \<lparr>consecutive_collapsed = 0, consecutive_healthy = 0, tripped_at = 0, trips_count = 0\<rparr>"

record goodput_monitor =
  ring_capacity :: nat
  rate_window_s :: real
  rings :: "(string, sample list) odict"
  latches :: "(string, latch_state) odict"

definition new_monitor :: "int \<Rightarrow> real \<Rightarrow> goodput_monitor" where
  "new_monitor cap w = \<lparr>ring_capacity = nat (max (int gp_min_samples) cap), rate_window_s = w, rings = [], latches = []\<rparr>"

subsection \<open>Observation\<close>

type_synonym counters = "(string, real option) odict"

definition raw_counter :: "counters option \<Rightarrow> string \<Rightarrow> real option" where
  "raw_counter cs k = (case cs of None \<Rightarrow> None | Some d \<Rightarrow> od_get_or None d k)"

definition make_sample :: "real \<Rightarrow> counters option \<Rightarrow> sample" where
  "make_sample t cs =
     \<lparr>ts = t,
      smp_values = map (\<lambda>k. (k, map_option (\<lambda>x. of_int (py_int x)) (raw_counter cs k))) (cumulative_keys @ gauge_keys)
             @ map (\<lambda>k. (k, raw_counter cs k)) gauge_float_keys\<rparr>"

definition observe :: "string \<Rightarrow> real \<Rightarrow> counters option \<Rightarrow> goodput_monitor \<Rightarrow> goodput_monitor" where
  "observe ep t cs m =
     (let ring = od_get_or [] (rings m) ep @ [make_sample t cs]
      in m\<lparr>rings := od_put ep (drop (length ring - ring_capacity m) ring) (rings m)\<rparr>)"

definition gp_forget :: "string \<Rightarrow> goodput_monitor \<Rightarrow> goodput_monitor" where
  "gp_forget ep m = m\<lparr>rings := od_del ep (rings m), latches := od_del ep (latches m)\<rparr>"

definition trips :: "string \<Rightarrow> goodput_monitor \<Rightarrow> int" where
  "trips ep m = (case od_get (latches m) ep of None \<Rightarrow> 0 | Some l \<Rightarrow> trips_count l)"

definition tripped_for_s :: "string \<Rightarrow> real \<Rightarrow> goodput_monitor \<Rightarrow> real option" where
  "tripped_for_s ep now m =
     (case od_get (latches m) ep of
        None \<Rightarrow> None
      | Some l \<Rightarrow> if tripped_at l = 0 then None else Some (max 0 (now - tripped_at l)))"

subsection \<open>The verdict\<close>

definition val :: "sample \<Rightarrow> string \<Rightarrow> real option" where
  "val s k = od_get_or None (smp_values s) k"

text \<open>\<^verbatim>\<open>_reset_detected\<close>: some cumulative counter is below the sample just before it.\<close>

fun went_back :: "real option \<Rightarrow> real option list \<Rightarrow> bool" where
  "went_back prev [] = False"
| "went_back prev (None # vs) = went_back None vs"
| "went_back prev (Some cur # vs) =
     ((case prev of Some p \<Rightarrow> cur < p | None \<Rightarrow> False) \<or> went_back (Some cur) vs)"

definition reset_detected :: "sample list \<Rightarrow> bool" where
  "reset_detected window = list_ex (\<lambda>k. went_back None (map (\<lambda>s. val s k) window)) cumulative_keys"

fun clause_keys :: "clause \<Rightarrow> string list" where
  "clause_keys Occupancy = [''running'']"
| "clause_keys Iterations = [''iterations'']"
| "clause_keys Generation = [''generation'', ''running'']"
| "clause_keys Prefill = [''prompt'']"
| "clause_keys EngineIdle = [''busy'']"

text \<open>\<^verbatim>\<open>dict.fromkeys\<close> keeps the first occurrence of each key.\<close>

definition fromkeys :: "string list \<Rightarrow> string list" where
  "fromkeys ks = rev (remdups (rev ks))"

definition missing_counters :: "sample list \<Rightarrow> clause list \<Rightarrow> string list" where
  "missing_counters window clauses =
     filter (\<lambda>k. list_ex (\<lambda>s. val s k = None) window) (fromkeys (concat (map clause_keys clauses)))"

definition rate_of :: "sample list \<Rightarrow> string \<Rightarrow> real \<Rightarrow> real option" where
  "rate_of window k dt =
     (if dt \<le> 0 then None
      else case (val (hd window) k, val (last window) k) of
             (Some a, Some b) \<Rightarrow> Some ((b - a) / dt)
           | _ \<Rightarrow> None)"

definition max_level :: "sample list \<Rightarrow> string \<Rightarrow> real option" where
  "max_level window k =
     (let vs = map (\<lambda>s. val s k) window in
      if None \<in> set vs then None else Some (fold max (tl (map the vs)) (hd (map the vs))))"

fun clause_value :: "clause \<Rightarrow> real option \<Rightarrow> real option \<Rightarrow> real option \<Rightarrow> real option \<Rightarrow> real option" where
  "clause_value Iterations ir gen pre busy = ir"
| "clause_value Generation ir gen pre busy = gen"
| "clause_value Prefill ir gen pre busy = pre"
| "clause_value EngineIdle ir gen pre busy = busy"
| "clause_value Occupancy ir gen pre busy = None"

fun clause_ceiling :: "goodput_thresholds \<Rightarrow> clause \<Rightarrow> real" where
  "clause_ceiling t Iterations = the (max_iteration_rate t)"
| "clause_ceiling t Generation = the (max_generation_tps_per_request t)"
| "clause_ceiling t Prefill = the (max_prefill_tps t)"
| "clause_ceiling t EngineIdle = busy_min t"
| "clause_ceiling t Occupancy = of_int (min_running t)"

text \<open>The loop over the clauses: the clauses held and cleared, or the first one without a value.\<close>

fun sort_clauses :: "(clause \<Rightarrow> real option) \<Rightarrow> (clause \<Rightarrow> real) \<Rightarrow> clause list \<Rightarrow> clause list \<Rightarrow> clause list
    \<Rightarrow> clause + (clause list \<times> clause list)" where
  "sort_clauses v ceil held cleared [] = Inr (held, cleared)"
| "sort_clauses v ceil held cleared (c # cs) =
     (case v c of
        None \<Rightarrow> Inl c
      | Some x \<Rightarrow> if x < ceil c then sort_clauses v ceil (held @ [c]) cleared cs
                  else sort_clauses v ceil held (cleared @ [c]) cs)"

definition clause_name :: "clause \<Rightarrow> string" where
  "clause_name c = (case c of Occupancy \<Rightarrow> ''occupancy'' | Iterations \<Rightarrow> ''iterations'' | Generation \<Rightarrow> ''generation''
     | Prefill \<Rightarrow> ''prefill'' | EngineIdle \<Rightarrow> ''engine_idle'')"

definition round_opt :: "nat \<Rightarrow> real option \<Rightarrow> real option" where
  "round_opt n v = map_option (\<lambda>x. py_round x n) v"

text \<open>The judgement of a window that has all its counters.\<close>

definition judge :: "goodput_thresholds \<Rightarrow> sample list \<Rightarrow> real \<Rightarrow> goodput_verdict" where
  "judge t window dt =
     (let runnings = map (\<lambda>s. the (val s ''running'')) window;
          rmin = fold min (tl runnings) (hd runnings);
          rmean = sum_list runnings / of_nat (length runnings);
          ir = rate_of window ''iterations'' dt;
          pre = rate_of window ''prompt'' dt;
          gen = rate_of window ''generation'' dt;
          gen_req = (case gen of None \<Rightarrow> None | Some g \<Rightarrow> if rmean \<le> 0 then None else Some (g / rmean));
          busy = max_level window ''busy'';
          base = \<lparr>outcome = Healthy, gv_samples = length window, gv_window_s = py_round dt 3,
             running_min = Some rmin, running_mean = Some (py_round rmean 2), iteration_rate = round_opt 4 ir,
             generation_tps = round_opt 3 gen, generation_tps_per_request = round_opt 3 gen_req,
             prefill_tps = round_opt 2 pre, busy_max = round_opt 2 busy, clauses_held = [],
             clauses_cleared = [], reason = []\<rparr>
      in if rmin < of_int (min_running t) then base\<lparr>clauses_cleared := [Occupancy]\<rparr>
         else
           (case sort_clauses (\<lambda>c. clause_value c ir gen_req pre busy) (clause_ceiling t) [Occupancy] [] (progress_clauses t) of
              Inl c \<Rightarrow> (unknown_verdict (length window) (py_round dt 3) (''rate_unavailable:'' @ clause_name c))
                \<lparr>running_min := Some rmin, running_mean := Some (py_round rmean 2)\<rparr>
            | Inr (held, cleared) \<Rightarrow>
                base\<lparr>outcome := if length held = length (Occupancy # progress_clauses t) then Collapsed else Healthy,
                     clauses_held := held, clauses_cleared := cleared\<rparr>))"

text \<open>\<^verbatim>\<open>evaluate\<close>; a counter reset also drops the history but for the newest sample.\<close>

definition evaluate :: "string \<Rightarrow> goodput_thresholds \<Rightarrow> real \<Rightarrow> goodput_monitor \<Rightarrow> goodput_monitor \<times> goodput_verdict" where
  "evaluate ep t now m =
     (if \<not> armed t then (m, unknown_verdict 0 0 ''not_configured'')
      else
        let ring = od_get_or [] (rings m) ep in
        if ring = [] then (m, unknown_verdict 0 0 ''no_samples'')
        else
          let window = filter (\<lambda>s. now - ts s \<le> rate_window_s m) ring; n = length window in
          if n < gp_min_samples then (m, unknown_verdict n 0 ''too_few_samples'')
          else
            let dt = ts (last window) - ts (hd window) in
            if dt < min_window_s then (m, unknown_verdict n (py_round dt 3) ''window_too_short'')
            else if reset_detected window then
              (m\<lparr>rings := od_put ep [last ring] (rings m)\<rparr>, unknown_verdict n (py_round dt 3) ''counter_reset'')
            else
              let missing = missing_counters window (Occupancy # progress_clauses t) in
              if missing \<noteq> [] then
                (m, unknown_verdict n (py_round dt 3) (''counters_absent:'' @ join '','' missing))
              else (m, judge t window dt))"

subsection \<open>The latch\<close>

definition latch_step :: "goodput_thresholds \<Rightarrow> verdict \<Rightarrow> bool \<Rightarrow> real \<Rightarrow> latch_state \<Rightarrow> latch_state \<times> latch_action" where
  "latch_step t v tripped now l =
     (if tripped \<and> tripped_at l \<noteq> 0 \<and> now - tripped_at l \<ge> effective_max_hold_s t
      then (l\<lparr>tripped_at := 0, consecutive_collapsed := 0, consecutive_healthy := 0\<rparr>, Clear)
      else
        (case v of
           Collapsed \<Rightarrow>
             let cc = min (consecutive_collapsed l + 1) (sustain_evaluations t);
                 l1 = l\<lparr>consecutive_healthy := 0, consecutive_collapsed := cc\<rparr>
             in if \<not> tripped \<and> cc \<ge> sustain_evaluations t
                then (l1\<lparr>tripped_at := now, trips_count := trips_count l + 1, consecutive_collapsed := 0\<rparr>, Trip)
                else (l1, NoAction)
         | Healthy \<Rightarrow>
             let ch = consecutive_healthy l + 1;
                 l1 = l\<lparr>consecutive_collapsed := 0, consecutive_healthy := ch\<rparr>
             in if tripped \<and> ch \<ge> effective_recovery_evaluations t
                then (l1\<lparr>tripped_at := 0, consecutive_healthy := 0\<rparr>, Clear)
                else (l1, NoAction)
         | UnknownVerdict \<Rightarrow> (l\<lparr>consecutive_collapsed := 0, consecutive_healthy := 0\<rparr>, NoAction)))"

definition gp_step ::
  "string \<Rightarrow> goodput_thresholds \<Rightarrow> verdict \<Rightarrow> bool \<Rightarrow> real \<Rightarrow> goodput_monitor \<Rightarrow> goodput_monitor \<times> latch_action" where
  "gp_step ep t v tripped now m =
     (let (l, a) = latch_step t v tripped now (od_get_or new_latch (latches m) ep)
      in (m\<lparr>latches := od_put ep l (latches m)\<rparr>, a))"

subsection \<open>The poller's tick\<close>

record goodput_state =
  gs_monitor :: goodput_monitor
  goodput_verdicts :: "(string, goodput_verdict) odict"
  collapsed_endpoints :: "string list"

definition with_busy :: "goodput_thresholds \<Rightarrow> counters option \<Rightarrow> real option \<Rightarrow> counters option" where
  "with_busy t cs busy =
     (if busy_min t > 0 then Some (od_put ''busy'' busy (case cs of None \<Rightarrow> [] | Some d \<Rightarrow> d)) else cs)"

text \<open>The endpoint name is the normalised one. The last component is the length of the hold the
  recovery log line reports.\<close>

definition goodput_tick ::
  "string \<Rightarrow> goodput_thresholds \<Rightarrow> counters option \<Rightarrow> real option \<Rightarrow> real \<Rightarrow> goodput_state
     \<Rightarrow> goodput_state \<times> latch_action \<times> real option" where
  "goodput_tick ep t cs busy now s =
     (if \<not> armed t then (s, NoAction, None)
      else
        let m1 = observe ep now (with_busy t cs busy) (gs_monitor s);
            (m2, v) = evaluate ep t now m1;
            tripped = (ep \<in> set (collapsed_endpoints s));
            (m3, a) = gp_step ep t (outcome v) tripped now m2;
            s1 = s\<lparr>gs_monitor := m3, goodput_verdicts := od_put ep v (goodput_verdicts s)\<rparr>
        in case a of
             Trip \<Rightarrow> (s1\<lparr>collapsed_endpoints := (if tripped then collapsed_endpoints s else collapsed_endpoints s @ [ep])\<rparr>, a, None)
           | Clear \<Rightarrow> (s1\<lparr>collapsed_endpoints := removeAll ep (collapsed_endpoints s)\<rparr>, a, tripped_for_s ep now m3)
           | NoAction \<Rightarrow> (s1, a, None))"

subsection \<open>Lemmas\<close>

lemma sort_clauses_all:
  "\<forall>c \<in> set cs. v c \<noteq> None \<Longrightarrow>
     sort_clauses v ceil held cleared cs =
       Inr (held @ filter (\<lambda>c. the (v c) < ceil c) cs, cleared @ filter (\<lambda>c. \<not> the (v c) < ceil c) cs)"
  by (induction cs arbitrary: held cleared) (auto split: option.split)

lemma length_filter_all: "length (filter P xs) = length xs \<longleftrightarrow> (\<forall>x \<in> set xs. P x)"
  by (metis filter_id_conv filter_True length_filter_less less_irrefl)

lemma missing_counters_Nil:
  "missing_counters window cs = [] \<longleftrightarrow> (\<forall>c \<in> set cs. \<forall>k \<in> set (clause_keys c). \<forall>s \<in> set window. val s k \<noteq> None)"
  by (auto simp: missing_counters_def fromkeys_def filter_empty_conv list_ex_iff)

lemma fold_min_le_iff: "(a :: real) \<le> fold min xs x \<longleftrightarrow> (\<forall>y \<in> set (x # xs). a \<le> y)"
  by (induction xs arbitrary: x) auto

lemma sum_list_ge_length:
  "\<forall>x \<in> set xs. (1 :: real) \<le> x \<Longrightarrow> of_nat (length xs) \<le> sum_list xs"
  by (induction xs) auto

lemma progress_clauses_no_occupancy: "Occupancy \<notin> set (progress_clauses t)"
  by (simp add: progress_clauses_def)

text \<open>The value a clause is judged on, over a window that spans \<open>dt\<close> seconds.\<close>

definition mean_running :: "sample list \<Rightarrow> real" where
  "mean_running w = sum_list (map (\<lambda>s. the (val s ''running'')) w) / of_nat (length w)"

fun measured :: "sample list \<Rightarrow> real \<Rightarrow> clause \<Rightarrow> real" where
  "measured w dt Iterations = (the (val (last w) ''iterations'') - the (val (hd w) ''iterations'')) / dt"
| "measured w dt Generation = (the (val (last w) ''generation'') - the (val (hd w) ''generation'')) / dt / mean_running w"
| "measured w dt Prefill = (the (val (last w) ''prompt'') - the (val (hd w) ''prompt'')) / dt"
| "measured w dt EngineIdle = fold max (tl (map (\<lambda>s. the (val s ''busy'')) w)) (hd (map (\<lambda>s. the (val s ''busy'')) w))"
| "measured w dt Occupancy = 0"

definition all_present :: "goodput_thresholds \<Rightarrow> sample list \<Rightarrow> bool" where
  "all_present t w \<longleftrightarrow> (\<forall>c \<in> set (Occupancy # progress_clauses t). \<forall>k \<in> set (clause_keys c). \<forall>s \<in> set w. val s k \<noteq> None)"

definition occupied :: "goodput_thresholds \<Rightarrow> sample list \<Rightarrow> bool" where
  "occupied t w \<longleftrightarrow> (\<forall>s \<in> set w. of_int (min_running t) \<le> the (val s ''running''))"

lemma rate_of_present:
  "w \<noteq> [] \<Longrightarrow> 0 < dt \<Longrightarrow> \<forall>s \<in> set w. val s k \<noteq> None \<Longrightarrow>
     rate_of w k dt = Some ((the (val (last w) k) - the (val (hd w) k)) / dt)"
proof -
  assume "w \<noteq> []" "0 < dt" "\<forall>s \<in> set w. val s k \<noteq> None"
  then obtain a b where "val (hd w) k = Some a" "val (last w) k = Some b"
    using last_in_set[of w] hd_in_set[of w] by blast
  with \<open>0 < dt\<close> show ?thesis by (simp add: rate_of_def)
qed

lemma max_level_present:
  "\<forall>s \<in> set w. val s k \<noteq> None \<Longrightarrow>
     max_level w k = Some (fold max (tl (map (\<lambda>s. the (val s k)) w)) (hd (map (\<lambda>s. the (val s k)) w)))"
  by (auto simp: max_level_def Let_def comp_def)

lemma mean_running_pos:
  assumes "w \<noteq> []" "occupied t w" "1 \<le> min_running t"
  shows "0 < mean_running w"
proof -
  have "\<forall>x \<in> set (map (\<lambda>s. the (val s ''running'')) w). (1 :: real) \<le> x"
    using assms(2,3) by (fastforce simp: occupied_def intro: order_trans[of 1 "of_int (min_running t)"])
  then have "of_nat (length w) \<le> sum_list (map (\<lambda>s. the (val s ''running'')) w)"
    using sum_list_ge_length by fastforce
  moreover have "0 < (of_nat (length w) :: real)" using assms(1) by simp
  ultimately show ?thesis unfolding mean_running_def by (intro divide_pos_pos) linarith+
qed

lemma clause_value_measured:
  assumes "w \<noteq> []" "0 < dt" "all_present t w" "0 < mean_running w" "c \<in> set (progress_clauses t)"
  shows "clause_value c (rate_of w ''iterations'' dt)
      (case rate_of w ''generation'' dt of None \<Rightarrow> None | Some g \<Rightarrow> if mean_running w \<le> 0 then None else Some (g / mean_running w))
      (rate_of w ''prompt'' dt) (max_level w ''busy'') = Some (measured w dt c)"
proof -
  have "\<forall>k \<in> set (clause_keys c). \<forall>s \<in> set w. val s k \<noteq> None"
    using assms(3,5) by (simp add: all_present_def)
  then show ?thesis
    using assms(1,2,4,5) progress_clauses_no_occupancy[of t]
    by (cases c) (simp_all add: rate_of_present max_level_present)
qed

lemma running_min_iff:
  "w \<noteq> [] \<Longrightarrow> of_int (min_running t) \<le> fold min (tl (map (\<lambda>s. the (val s ''running'')) w)) (hd (map (\<lambda>s. the (val s ''running'')) w))
     \<longleftrightarrow> occupied t w"
  unfolding fold_min_le_iff occupied_def by (cases w) auto

lemma judge_outcome:
  assumes "w \<noteq> []" "0 < dt" "all_present t w" "1 \<le> min_running t"
  shows "outcome (judge t w dt) =
    (if occupied t w \<and> (\<forall>c \<in> set (progress_clauses t). measured w dt c < clause_ceiling t c) then Collapsed else Healthy)"
proof (cases "occupied t w")
  case False
  then show ?thesis using running_min_iff[OF assms(1), of t] by (simp add: judge_def Let_def not_le)
next
  case True
  let ?v = "\<lambda>c. clause_value c (rate_of w ''iterations'' dt)
      (case rate_of w ''generation'' dt of None \<Rightarrow> None | Some g \<Rightarrow> if mean_running w \<le> 0 then None else Some (g / mean_running w))
      (rate_of w ''prompt'' dt) (max_level w ''busy'')"
  have v: "?v c = Some (measured w dt c)" if "c \<in> set (progress_clauses t)" for c
    by (rule clause_value_measured[OF assms(1-3) mean_running_pos[OF assms(1) True assms(4)] that])
  then have "sort_clauses ?v (clause_ceiling t) [Occupancy] [] (progress_clauses t) =
      Inr (Occupancy # filter (\<lambda>c. the (?v c) < clause_ceiling t c) (progress_clauses t),
           filter (\<lambda>c. \<not> the (?v c) < clause_ceiling t c) (progress_clauses t))"
    by (subst sort_clauses_all) auto
  moreover have "filter (\<lambda>c. the (?v c) < clause_ceiling t c) (progress_clauses t)
      = filter (\<lambda>c. measured w dt c < clause_ceiling t c) (progress_clauses t)"
    using v by (intro filter_cong) auto
  ultimately have sc: "sort_clauses ?v (clause_ceiling t) [Occupancy] [] (progress_clauses t) =
      Inr (Occupancy # filter (\<lambda>c. measured w dt c < clause_ceiling t c) (progress_clauses t),
           filter (\<lambda>c. \<not> the (?v c) < clause_ceiling t c) (progress_clauses t))"
    by simp
  have "\<not> fold min (tl (map (\<lambda>s. the (val s ''running'')) w)) (hd (map (\<lambda>s. the (val s ''running'')) w)) < of_int (min_running t)"
    using running_min_iff[OF assms(1), of t] True by linarith
  with True show ?thesis
    unfolding judge_def Let_def length_map mean_running_def[symmetric] sc
    by (simp add: length_filter_all)
qed

definition window_of :: "string \<Rightarrow> real \<Rightarrow> goodput_monitor \<Rightarrow> sample list" where
  "window_of ep now m = filter (\<lambda>s. now - ts s \<le> rate_window_s m) (od_get_or [] (rings m) ep)"

definition dt_of :: "sample list \<Rightarrow> real" where
  "dt_of w = ts (last w) - ts (hd w)"

text \<open>The window can be judged: enough samples over enough time, no counter went back, and every
  counter a configured clause needs is in every sample.\<close>

definition evaluable :: "goodput_thresholds \<Rightarrow> sample list \<Rightarrow> bool" where
  "evaluable t w \<longleftrightarrow> armed t \<and> gp_min_samples \<le> length w \<and> min_window_s \<le> dt_of w \<and> \<not> reset_detected w \<and> all_present t w"

lemma evaluate_outcome:
  "outcome (snd (evaluate ep t now m)) =
     (if evaluable t (window_of ep now m) then outcome (judge t (window_of ep now m) (dt_of (window_of ep now m)))
      else UnknownVerdict)"
proof -
  have "window_of ep now m = [] \<Longrightarrow> \<not> gp_min_samples \<le> length (window_of ep now m)" by (simp add: gp_min_samples_def)
  moreover have "od_get_or [] (rings m) ep = [] \<Longrightarrow> window_of ep now m = []" by (simp add: window_of_def)
  moreover have "missing_counters w (Occupancy # progress_clauses t) = [] \<longleftrightarrow> all_present t w" for w
    unfolding missing_counters_Nil all_present_def ..
  ultimately show ?thesis
    unfolding evaluate_def evaluable_def Let_def window_of_def[symmetric] dt_of_def[symmetric]
    by (auto simp: unknown_verdict_def not_le)
qed

lemma evaluable_shape:
  assumes "evaluable t w" shows "w \<noteq> []" "0 < dt_of w" "all_present t w" "1 \<le> min_running t"
  using assms by (auto simp: evaluable_def armed_def gp_min_samples_def min_window_s_def)

lemma make_sample_failed: "val (make_sample t None) ''running'' = None"
  by (simp add: val_def make_sample_def raw_counter_def cumulative_keys_def gauge_keys_def gauge_float_keys_def od_get_or_def)

lemma observed_in_ring:
  assumes "2 \<le> ring_capacity m"
  shows "make_sample t cs \<in> set (od_get_or [] (rings (observe ep t cs m)) ep)"
proof -
  let ?r = "od_get_or [] (rings m) ep @ [make_sample t cs]"
  have "length ?r - ring_capacity m \<le> length (od_get_or [] (rings m) ep)" using assms by simp
  then have "last ?r \<in> set (drop (length ?r - ring_capacity m) ?r)" by simp
  then show ?thesis by (simp add: observe_def Let_def)
qed

text \<open>The run of one endpoint through the poller.\<close>

definition tick_run ::
  "string \<Rightarrow> goodput_state \<Rightarrow> goodput_thresholds \<times> counters option \<times> real option \<times> real \<Rightarrow> goodput_state" where
  "tick_run ep s x = (case x of (t, cs, busy, now) \<Rightarrow> fst (goodput_tick ep t cs busy now s))"


lemma evaluate_latches [simp]: "latches (fst (evaluate ep t now m)) = latches m"
  by (simp add: evaluate_def Let_def)

lemma observe_latches [simp]: "latches (observe ep now cs m) = latches m"
  by (simp add: observe_def Let_def)








subsection \<open>Properties\<close>

text \<open>Blindness never reads as collapse, and collapse is exactly the documented conjunction. An
  endpoint is judged collapsed if and only if the detector is configured, the window has at least
  two samples over at least five seconds with no counter going backwards, every counter that a
  configured clause needs is present in every sample of it, the engine was occupied in every
  sample, and every configured progress clause is measured below its threshold.\<close>

lemma collapse_exactly:
  "outcome (snd (evaluate ep t now m)) = Collapsed \<longleftrightarrow>
    (let w = window_of ep now m in
     armed t \<and> 2 \<le> length w \<and> 5 \<le> dt_of w \<and> \<not> reset_detected w \<and>
     (\<forall>c \<in> set (Occupancy # progress_clauses t). \<forall>k \<in> set (clause_keys c). \<forall>s \<in> set w. val s k \<noteq> None) \<and>
     (\<forall>s \<in> set w. of_int (min_running t) \<le> the (val s ''running'')) \<and>
     (\<forall>c \<in> set (progress_clauses t). measured w (dt_of w) c < clause_ceiling t c))"
proof (cases "evaluable t (window_of ep now m)")
  case True
  note sh = evaluable_shape[OF True]
  show ?thesis
    using True judge_outcome[OF sh]
    unfolding evaluate_outcome Let_def all_present_def[symmetric] occupied_def[symmetric]
    by (simp add: evaluable_def gp_min_samples_def min_window_s_def)
next
  case False
  then have "\<not> (armed t \<and> 2 \<le> length (window_of ep now m) \<and> 5 \<le> dt_of (window_of ep now m)
      \<and> \<not> reset_detected (window_of ep now m) \<and> all_present t (window_of ep now m))"
    by (auto simp: evaluable_def gp_min_samples_def min_window_s_def)
  with False show ?thesis
    unfolding evaluate_outcome Let_def all_present_def[symmetric] by auto
qed

definition demo_thresholds :: goodput_thresholds where
  "demo_thresholds = \<lparr>min_running = 4, sustain_evaluations = 3, max_iteration_rate = Some 1,
     max_generation_tps_per_request = Some 1, max_prefill_tps = Some 300, busy_min = 0,
     recovery_evaluations = 0, max_hold_s = 0\<rparr>"

definition wedged :: "real \<Rightarrow> counters option" where
  "wedged x = Some [(''running'', Some 6), (''iterations'', Some x), (''generation'', Some (10 + x)), (''prompt'', Some 50)]"

definition demo_monitor :: goodput_monitor where
  "demo_monitor = observe ''tier3'' 20 (wedged 4) (observe ''tier3'' 10 (wedged 2) (new_monitor 6 25))"

lemma collapse_exactly_witness:
  "outcome (snd (evaluate ''tier3'' demo_thresholds 20 demo_monitor)) = Collapsed \<and>
   list_all (\<lambda>s. 4 \<le> the (val s ''running'')) (window_of ''tier3'' 20 demo_monitor)"
proof -
  have c: "outcome (snd (evaluate ''tier3'' demo_thresholds 20 demo_monitor)) = Collapsed" by code_simp
  then show ?thesis
    using collapse_exactly[of "''tier3''" demo_thresholds 20 demo_monitor]
    by (simp add: Let_def demo_thresholds_def list_all_iff)
qed

text \<open>A failed scrape blinds the detector at once. Whatever the ring held before, the verdict
  right after a scrape that failed is unknown, for every configuration and for as long as that
  sample is in the window.\<close>

lemma failed_scrape_is_unknown:
  assumes "2 \<le> ring_capacity m" "now - t0 \<le> rate_window_s m"
  shows "outcome (snd (evaluate ep t now (observe ep t0 None m))) = UnknownVerdict"
proof -
  let ?w = "window_of ep now (observe ep t0 None m)"
  have "make_sample t0 None \<in> set ?w"
    using observed_in_ring[OF assms(1), of t0 None ep] assms(2)
    by (simp add: window_of_def) (simp add: make_sample_def observe_def Let_def)
  then have "\<not> all_present t ?w" using make_sample_failed[of t0] by (force simp: all_present_def)
  then show ?thesis by (simp add: evaluate_outcome evaluable_def)
qed

lemma failed_scrape_is_unknown_witness:
  "outcome (snd (evaluate ''tier3'' demo_thresholds 25 (observe ''tier3'' 25 None demo_monitor))) = UnknownVerdict"
  by (rule failed_scrape_is_unknown) code_simp+

text \<open>The breaker trips only on sustained evidence. Along any sequence of verdicts, with any
  thresholds and any state of the breaker, the step that trips it is the last of at least as many
  uninterrupted collapsed verdicts as the endpoint requires; one healthy or unknown verdict starts
  the count again.\<close>

lemma trip_needs_sustained:
  assumes "l = foldl (\<lambda>l (t, v, tripped, now). fst (latch_step t v tripped now l)) new_latch hist"
    and "snd (latch_step t v tripped now l) = Trip"
  shows "sustain_evaluations t \<le>
    int (length (takeWhile (\<lambda>(t, v, tripped, now). v = Collapsed) (rev (hist @ [(t, v, tripped, now)]))))"
proof -
  let ?run = "foldl (\<lambda>l (t, v, tripped, now). fst (latch_step t v tripped now l)) new_latch"
    and ?n = "\<lambda>h. int (length (takeWhile (\<lambda>(t :: goodput_thresholds, v, tripped :: bool, now :: real). v = Collapsed) (rev h)))"
  have step: "consecutive_collapsed (fst (latch_step t v tripped now l)) \<le>
      (if v = Collapsed then max 0 (consecutive_collapsed l + 1) else 0)" for t v tripped now l
    by (cases v) (auto simp: latch_step_def Let_def)
  have "consecutive_collapsed (?run hist) \<le> ?n hist" for hist
  proof (induction hist rule: rev_induct)
    case (snoc x hist)
    obtain t v tripped now where x: "x = (t, v, tripped, now)" by (cases x) auto
    show ?case using snoc step[of t v tripped now "?run hist"] by (auto simp: x split: if_splits)
  qed (simp add: new_latch_def)
  then have "consecutive_collapsed l \<le> ?n hist" using assms(1) by simp
  moreover have "v = Collapsed \<and> sustain_evaluations t \<le> consecutive_collapsed l + 1"
    using assms(2) by (cases v) (auto simp: latch_step_def Let_def split: if_splits)
  ultimately show ?thesis by simp
qed

lemma trip_needs_sustained_witness:
  "sustain_evaluations demo_thresholds \<le>
    int (length (takeWhile (\<lambda>(t, v, tripped, now). v = Collapsed)
      (rev ([(demo_thresholds, UnknownVerdict, False, 1), (demo_thresholds, Collapsed, False, 2), (demo_thresholds, Collapsed, False, 3)]
        @ [(demo_thresholds, Collapsed, False, 4 :: real)]))))"
  by (rule trip_needs_sustained[OF refl]) code_simp




text \<open>Two gaps. A tick whose thresholds no longer arm the detector returns before the latch, so an
  endpoint that is disarmed while held stays held; and the recovery log line asks for the length of
  a hold that the latch has already forgotten.\<close>

lemma disarmed_endpoint_stays_held:
  assumes "ep \<in> set (collapsed_endpoints s)" "\<forall>(t, cs, busy, now) \<in> set hist. \<not> armed t"
  shows "ep \<in> set (collapsed_endpoints (foldl (tick_run ep) s hist))"
  using assms by (induction hist arbitrary: s) (auto simp: tick_run_def goodput_tick_def)

lemma recovery_reports_no_hold: "snd (snd (goodput_tick ep t cs busy now s)) = None"
proof -
  have "tripped_at (fst (latch_step t v tripped now l)) = 0" if "snd (latch_step t v tripped now l) = Clear" for v tripped l
    using that by (cases v) (auto simp: latch_step_def Let_def split: if_splits)
  then show ?thesis
    by (auto simp: goodput_tick_def gp_step_def tripped_for_s_def Let_def case_prod_unfold split: latch_action.split)
qed

end
