(* ===== verification/Intent.thy ===== *)
theory Intent
  imports Json "HOL-Library.Multiset" "HOL-Library.List_Lexorder" "HOL-Library.Product_Lexorder" "HOL-Library.Char_ord"
begin

section \<open>Intent resolution (intent.py)\<close>

text \<open>
  What a caller asked for, parsed from the request body (\<open>parse_intent\<close>) and resolved against a
  snapshot of the candidate endpoints (\<open>resolve\<close>). The alias table is the argument
  \<^verbatim>\<open>normalize\<close> of the source. A refusal carries the names its message would show; the wording of
  the messages is not modelled, except for the details of a rejection.
\<close>

subsection \<open>Vocabulary\<close>

definition known_capabilities :: "string set" where
  "known_capabilities = set [''vision'', ''reasoning'', ''streaming'', ''tool_calling'', ''structured_output'']"

definition known_kinds :: "string set" where
  "known_kinds = set [''chat'', ''embed'', ''rerank'']"

definition preferences :: "string set" where
  "preferences = set [''balanced'', ''latency'', ''capacity'', ''context'', ''cost'']"

definition default_preference :: string where "default_preference = ''balanced''"

record profile =
  pf_name :: string
  pf_kind :: string
  pf_requires :: "string set"
  pf_prefer :: string

definition mk_profile :: "string \<Rightarrow> string \<Rightarrow> string list \<Rightarrow> string \<Rightarrow> string \<times> profile" where
  "mk_profile n k reqs p = (n, \<lparr>pf_name = n, pf_kind = k, pf_requires = set reqs, pf_prefer = p\<rparr>)"

definition builtin_profiles :: "(string, profile) odict" where
  "builtin_profiles =
     [mk_profile ''fast-chat'' ''chat'' [] ''latency'',
      mk_profile ''chat'' ''chat'' [] ''balanced'',
      mk_profile ''reasoning'' ''chat'' [''reasoning''] ''balanced'',
      mk_profile ''vision'' ''chat'' [''vision''] ''balanced'',
      mk_profile ''tools'' ''chat'' [''tool_calling''] ''balanced'',
      mk_profile ''structured'' ''chat'' [''structured_output''] ''balanced'',
      mk_profile ''long-context'' ''chat'' [] ''context'',
      mk_profile ''embed'' ''embed'' [] ''balanced'',
      mk_profile ''rerank'' ''rerank'' [] ''balanced'']"

subsection \<open>Facts and keys\<close>

text \<open>A float that may be \<^verbatim>\<open>math.inf\<close>.\<close>

datatype fnum = Fin real | Inf

instantiation fnum :: linorder
begin

fun less_eq_fnum :: "fnum \<Rightarrow> fnum \<Rightarrow> bool" where
  "less_eq_fnum (Fin x) (Fin y) = (x \<le> y)"
| "less_eq_fnum (Fin x) Inf = True"
| "less_eq_fnum Inf (Fin y) = False"
| "less_eq_fnum Inf Inf = True"

definition less_fnum :: "fnum \<Rightarrow> fnum \<Rightarrow> bool" where
  "less_fnum x y \<longleftrightarrow> x \<le> y \<and> \<not> y \<le> x"

instance
proof
  fix x y z :: fnum
  show "x < y \<longleftrightarrow> x \<le> y \<and> \<not> y \<le> x" by (simp add: less_fnum_def)
  show "x \<le> x" by (cases x) simp_all
  show "x \<le> y \<Longrightarrow> y \<le> z \<Longrightarrow> x \<le> z" by (cases x; cases y; cases z) simp_all
  show "x \<le> y \<Longrightarrow> y \<le> x \<Longrightarrow> x = y" by (cases x; cases y) simp_all
  show "x \<le> y \<or> y \<le> x" by (cases x; cases y) auto
qed

end

record model_facts =
  mf_endpoint :: string
  mf_kind :: string
  mf_context :: int
  mf_capabilities :: "string set"
  mf_routed :: bool
  mf_healthy :: bool
  mf_max_slots :: int
  mf_in_flight :: int
  mf_queued :: int
  typical_ms :: real
  input_usd_per_mtok :: real
  output_usd_per_mtok :: real
  real_cost :: bool

definition free_slots :: "model_facts \<Rightarrow> int" where
  "free_slots f = max 0 (mf_max_slots f - mf_in_flight f)"

definition latency_key :: "model_facts \<Rightarrow> fnum" where
  "latency_key f = (if typical_ms f > 0 then Fin (typical_ms f) else Inf)"

definition price_key :: "model_facts \<Rightarrow> real" where
  "price_key f = input_usd_per_mtok f + output_usd_per_mtok f"

subsection \<open>The request\<close>

record intent =
  it_pin :: string
  pin_as_written :: string
  it_profile :: string
  it_requires :: "string set"
  it_kind :: string
  min_context :: int
  it_prefer :: string
  it_exclude :: "string set"
  exclude_pairs :: "(string \<times> string) list"

definition exclude_as_written :: "intent \<Rightarrow> string list" where
  "exclude_as_written it = map snd (exclude_pairs it)"

definition declared_as :: "intent \<Rightarrow> string" where
  "declared_as it =
     (if pin_as_written it \<noteq> [] then pin_as_written it
      else if it_pin it \<noteq> [] then it_pin it
      else if it_profile it \<noteq> [] then it_profile it
      else if it_requires it \<noteq> {} then join ''+'' (sorted_list_of_set (it_requires it))
      else it_kind it)"

datatype intent_error =
    UnknownIntent string
  | ExcludeNotAList
  | NothingDeclared
  | PinExcluded string string
  | RequiresNotAList
  | UnknownCapability string
  | UnknownKind string
  | UnknownPreference string
  | BadMinContext
  | NegativeMinContext

text \<open>\<^verbatim>\<open>str(v or "").strip()\<close>.\<close>

definition text_field :: "payload \<Rightarrow> string \<Rightarrow> string" where
  "text_field body k = py_strip (py_str (or_empty (jget body k)))"

text \<open>\<^verbatim>\<open>int(s)\<close> on a string: white space around it, a sign, digits with single underscores between
  them.\<close>

definition is_dec :: "char \<Rightarrow> bool" where
  "is_dec c = (let n = of_char c :: nat in 48 \<le> n \<and> n \<le> 57)"

fun int_digits :: "bool \<Rightarrow> int \<Rightarrow> string \<Rightarrow> int option" where
  "int_digits after_digit acc [] = (if after_digit then Some acc else None)"
| "int_digits after_digit acc (c # cs) =
     (if is_dec c then int_digits True (acc * 10 + int (of_char c - 48)) cs
      else if c = CHR ''_'' \<and> after_digit then int_digits False acc cs
      else None)"

definition py_int_text :: "string \<Rightarrow> int option" where
  "py_int_text s =
     (case py_strip s of
        [] \<Rightarrow> None
      | c # cs \<Rightarrow> if c = CHR ''-'' then map_option uminus (int_digits False 0 cs)
                  else if c = CHR ''+'' then int_digits False 0 cs
                  else int_digits False 0 (c # cs))"

definition int_or_zero :: "json \<Rightarrow> int option" where
  "int_or_zero v =
     (if \<not> truthy v then Some 0
      else case v of
             JBool _ \<Rightarrow> Some 1
           | JInt n \<Rightarrow> Some n
           | JFloat r _ \<Rightarrow> Some (py_int r)
           | JStr s \<Rightarrow> py_int_text s
           | _ \<Rightarrow> None)"

text \<open>A JSON string stands for a list of one.\<close>

definition string_list :: "json \<Rightarrow> json list option" where
  "string_list v = (case v of JStr s \<Rightarrow> Some [v] | JList xs \<Rightarrow> Some xs | _ \<Rightarrow> None)"

definition resolve_profile :: "string \<Rightarrow> (string, profile) odict \<Rightarrow> intent_error + profile" where
  "resolve_profile name table =
     (case od_get table (py_strip name) of Some p \<Rightarrow> Inr p | None \<Rightarrow> Inl (UnknownIntent (py_strip name)))"

definition parse_exclude :: "payload \<Rightarrow> intent_error + string list" where
  "parse_exclude body =
     (case jget body ''exclude'' of
        JNull \<Rightarrow> Inr []
      | v \<Rightarrow> (case string_list v of
                None \<Rightarrow> Inl ExcludeNotAList
              | Some xs \<Rightarrow> Inr (filter (\<lambda>n. n \<noteq> []) (map (\<lambda>x. py_strip (py_str x)) xs))))"

fun add_requires :: "json list \<Rightarrow> string set \<Rightarrow> intent_error + string set" where
  "add_requires [] S = Inr S"
| "add_requires (c # cs) S =
     (let name = py_strip (py_str c) in
      if name \<notin> known_capabilities then Inl (UnknownCapability name)
      else add_requires cs (insert name S))"

definition parse_requires :: "payload \<Rightarrow> string set \<Rightarrow> intent_error + string set" where
  "parse_requires body S =
     (case jget body ''requires'' of
        JNull \<Rightarrow> Inr S
      | v \<Rightarrow> (case string_list v of None \<Rightarrow> Inl RequiresNotAList | Some xs \<Rightarrow> add_requires xs S))"

text \<open>The binding of the error monad of this module.\<close>

definition it_bind :: "intent_error + 'a \<Rightarrow> ('a \<Rightarrow> intent_error + 'b) \<Rightarrow> intent_error + 'b" where
  "it_bind r f = (case r of Inl e \<Rightarrow> Inl e | Inr x \<Rightarrow> f x)"

definition check :: "bool \<Rightarrow> intent_error \<Rightarrow> intent_error + unit" where
  "check b e = (if b then Inr () else Inl e)"

definition or_else :: "string \<Rightarrow> string \<Rightarrow> string" where
  "or_else s d = (if s \<noteq> [] then s else d)"

definition parse_intent ::
  "(string, profile) odict option \<Rightarrow> (string \<Rightarrow> string) option \<Rightarrow> payload \<Rightarrow> intent_error + intent" where
  "parse_intent profiles nrm body =
     (let table = (case profiles of None \<Rightarrow> builtin_profiles | Some t \<Rightarrow> t);
          raw_pin = text_field body ''model'';
          pin = (case nrm of Some f \<Rightarrow> (if raw_pin \<noteq> [] then f raw_pin else raw_pin) | None \<Rightarrow> raw_pin);
          profile_name = text_field body ''intent''
      in
      it_bind (parse_exclude body) (\<lambda>written.
      let pairs = map (\<lambda>n. (case nrm of Some f \<Rightarrow> f n | None \<Rightarrow> n, n)) written;
          exclude = set (map fst pairs)
      in
      it_bind (check (\<not> (pin = [] \<and> profile_name = [] \<and> jget body ''requires'' = JNull \<and> exclude = {})) NothingDeclared) (\<lambda>_.
      it_bind (check (\<not> (pin \<noteq> [] \<and> pin \<in> exclude)) (PinExcluded raw_pin pin)) (\<lambda>_.
      it_bind (if profile_name \<noteq> [] then (case resolve_profile profile_name table of Inl e \<Rightarrow> Inl e | Inr p \<Rightarrow> Inr (Some p))
               else Inr None) (\<lambda>prof.
      let kind0 = text_field body ''kind'';
          prefer0 = text_field body ''prefer'';
          kind1 = (case prof of Some p \<Rightarrow> or_else kind0 (pf_kind p) | None \<Rightarrow> kind0);
          prefer1 = (case prof of Some p \<Rightarrow> or_else prefer0 (pf_prefer p) | None \<Rightarrow> prefer0)
      in
      it_bind (parse_requires body (case prof of Some p \<Rightarrow> pf_requires p | None \<Rightarrow> {})) (\<lambda>requires.
      let kind = or_else kind1 ''chat''; prefer = or_else prefer1 default_preference in
      it_bind (check (kind \<in> known_kinds) (UnknownKind kind)) (\<lambda>_.
      it_bind (check (prefer \<in> preferences) (UnknownPreference prefer)) (\<lambda>_.
      it_bind (case int_or_zero (jget body ''min_context'') of Some n \<Rightarrow> Inr n | None \<Rightarrow> Inl BadMinContext) (\<lambda>mc.
      it_bind (check (mc \<ge> 0) NegativeMinContext) (\<lambda>_.
      Inr \<lparr>it_pin = pin, pin_as_written = raw_pin, it_profile = (case prof of Some p \<Rightarrow> pf_name p | None \<Rightarrow> []),
           it_requires = requires, it_kind = kind, min_context = mc, it_prefer = prefer,
           it_exclude = exclude, exclude_pairs = pairs\<rparr>))))))))))"

subsection \<open>The answer\<close>

datatype reject_reason =
  NotRouted | WrongKind | MissingCapability | ContextTooSmall | Excluded | UnknownEndpoint

record rejection =
  rj_endpoint :: string
  rj_reason :: reject_reason
  rj_detail :: string

record resolution =
  rs_endpoint :: "string option"
  ranked :: "string list"
  rejected :: "rejection list"
  unmatched_exclusions :: "string list"

definition reject :: "string \<Rightarrow> reject_reason \<Rightarrow> string \<Rightarrow> rejection" where
  "reject ep why detail = \<lparr>rj_endpoint = ep, rj_reason = why, rj_detail = detail\<rparr>"

definition near_misses :: "resolution \<Rightarrow> rejection list" where
  "near_misses r = filter (\<lambda>x. rj_reason x \<noteq> WrongKind) (rejected r)"

definition preference_key :: "string \<Rightarrow> model_facts \<Rightarrow> fnum list" where
  "preference_key prefer f =
     (if prefer = ''latency'' then [latency_key f, Fin (of_int (- free_slots f))]
      else if prefer = ''capacity'' then [Fin (of_int (- free_slots f)), latency_key f]
      else if prefer = ''context'' then [Fin (of_int (- mf_context f)), latency_key f]
      else if prefer = ''cost'' then [Fin (price_key f), latency_key f]
      else [Fin (if free_slots f > 0 then 0 else 1), latency_key f, Fin (of_int (- free_slots f))])"

definition rank_key :: "string \<Rightarrow> model_facts \<Rightarrow> int \<times> int \<times> fnum list \<times> string" where
  "rank_key prefer f =
     (if real_cost f then 1 else 0, if mf_healthy f then 0 else 1, preference_key prefer f, mf_endpoint f)"

text \<open>The body of the loop over the candidates: why a candidate cannot serve, if it cannot.\<close>

definition refusal :: "intent \<Rightarrow> model_facts \<Rightarrow> rejection option" where
  "refusal it f =
     (let missing = sorted_list_of_set (it_requires it - mf_capabilities f) in
      if mf_endpoint f \<in> it_exclude it then Some (reject (mf_endpoint f) Excluded ''excluded by the request'')
      else if \<not> mf_routed f then Some (reject (mf_endpoint f) NotRouted ''endpoint is not routed'')
      else if mf_kind f \<noteq> it_kind it then
        Some (reject (mf_endpoint f) WrongKind (''kind is '' @ repr_str (mf_kind f) @ '', not '' @ repr_str (it_kind it)))
      else if missing \<noteq> [] then
        Some (reject (mf_endpoint f) MissingCapability (''does not declare '' @ join '', '' missing))
      else if min_context it \<noteq> 0 \<and> mf_context f \<noteq> 0 \<and> mf_context f < min_context it then
        Some (reject (mf_endpoint f) ContextTooSmall
          (''context '' @ show_int (mf_context f) @ '' < required '' @ show_int (min_context it)))
      else None)"

definition resolve :: "intent \<Rightarrow> model_facts list \<Rightarrow> resolution" where
  "resolve it facts =
     (let pin = py_strip (it_pin it);
          present = set (map mf_endpoint facts);
          unmatched = map snd (filter (\<lambda>p. fst p \<notin> present) (exclude_pairs it))
      in if unmatched \<noteq> [] then
           \<lparr>rs_endpoint = None, ranked = [],
            rejected = map (\<lambda>n. reject n UnknownEndpoint ''no such endpoint to exclude'') unmatched,
            unmatched_exclusions = unmatched\<rparr>
         else
           let candidates = (if pin \<noteq> [] then filter (\<lambda>f. mf_endpoint f = pin) facts else facts) in
           if pin \<noteq> [] \<and> candidates = [] then
             \<lparr>rs_endpoint = None, ranked = [],
              rejected = [reject (or_else (pin_as_written it) pin) UnknownEndpoint ''no such endpoint''],
              unmatched_exclusions = []\<rparr>
           else
             let eligible = filter (\<lambda>f. refusal it f = None) candidates;
                 rej = map (\<lambda>f. the (refusal it f)) (filter (\<lambda>f. refusal it f \<noteq> None) candidates)
             in if eligible = [] then
                  \<lparr>rs_endpoint = None, ranked = [], rejected = rej, unmatched_exclusions = []\<rparr>
                else
                  let order = sort_key (rank_key (it_prefer it)) eligible in
                  \<lparr>rs_endpoint = Some (mf_endpoint (hd order)), ranked = map mf_endpoint order,
                   rejected = rej, unmatched_exclusions = []\<rparr>)"

subsection \<open>Lemmas\<close>

definition pin_ok :: "intent \<Rightarrow> model_facts \<Rightarrow> bool" where
  "pin_ok it f \<longleftrightarrow> py_strip (it_pin it) = [] \<or> mf_endpoint f = py_strip (it_pin it)"

text \<open>The constraints of a request on an endpoint, all of them.\<close>

definition can_serve :: "intent \<Rightarrow> model_facts \<Rightarrow> bool" where
  "can_serve it f \<longleftrightarrow> pin_ok it f \<and> mf_endpoint f \<notin> it_exclude it \<and> mf_routed f \<and> mf_kind f = it_kind it \<and>
     it_requires it \<subseteq> mf_capabilities f \<and> (min_context it = 0 \<or> mf_context f = 0 \<or> min_context it \<le> mf_context f)"

definition exclusions_known :: "intent \<Rightarrow> model_facts list \<Rightarrow> bool" where
  "exclusions_known it facts \<longleftrightarrow> (\<forall>p \<in> set (exclude_pairs it). fst p \<in> mf_endpoint ` set facts)"

definition eligible_facts :: "intent \<Rightarrow> model_facts list \<Rightarrow> model_facts list" where
  "eligible_facts it facts = filter (\<lambda>f. pin_ok it f \<and> refusal it f = None) facts"

lemma refusal_None:
  "finite (it_requires it) \<Longrightarrow> pin_ok it f \<Longrightarrow> refusal it f = None \<longleftrightarrow> can_serve it f"
  by (auto simp: refusal_def can_serve_def Let_def)

lemma set_eligible:
  "finite (it_requires it) \<Longrightarrow> set (eligible_facts it facts) = {f \<in> set facts. can_serve it f}"
proof -
  assume fin: "finite (it_requires it)"
  have "can_serve it f \<longleftrightarrow> pin_ok it f \<and> refusal it f = None" for f
    using refusal_None[OF fin, of f] by (cases "pin_ok it f") (auto simp: can_serve_def)
  then show ?thesis by (auto simp: eligible_facts_def)
qed

lemma unmatched_Nil: "exclusions_known it facts \<longleftrightarrow> filter (\<lambda>p. fst p \<notin> set (map mf_endpoint facts)) (exclude_pairs it) = []"
  by (auto simp: exclusions_known_def filter_empty_conv)

lemma resolve_unknown_exclusion: "\<not> exclusions_known it facts \<Longrightarrow> rs_endpoint (resolve it facts) = None \<and> ranked (resolve it facts) = []"
  using unmatched_Nil[of it facts] by (auto simp: resolve_def Let_def)

lemma resolve_known:
  assumes "exclusions_known it facts"
  shows "ranked (resolve it facts) = map mf_endpoint (sort_key (rank_key (it_prefer it)) (eligible_facts it facts))"
    and "rs_endpoint (resolve it facts) =
      (if eligible_facts it facts = [] then None else Some (mf_endpoint (hd (sort_key (rank_key (it_prefer it)) (eligible_facts it facts)))))"
proof -
  have "eligible_facts it facts =
      filter (\<lambda>f. refusal it f = None) (if py_strip (it_pin it) \<noteq> [] then filter (\<lambda>f. mf_endpoint f = py_strip (it_pin it)) facts else facts)"
    by (auto simp: eligible_facts_def pin_ok_def intro: filter_cong)
  moreover have "map snd (filter (\<lambda>p. fst p \<notin> set (map mf_endpoint facts)) (exclude_pairs it)) = []"
    using assms unmatched_Nil by simp
  ultimately show
    "ranked (resolve it facts) = map mf_endpoint (sort_key (rank_key (it_prefer it)) (eligible_facts it facts))"
    "rs_endpoint (resolve it facts) =
      (if eligible_facts it facts = [] then None else Some (mf_endpoint (hd (sort_key (rank_key (it_prefer it)) (eligible_facts it facts)))))"
    unfolding resolve_def Let_def by (auto simp: filter_empty_conv)
qed

lemma hd_sort_key_least:
  assumes "xs \<noteq> []" "y \<in> set xs" shows "k (hd (sort_key k xs)) \<le> k y"
proof -
  have "sort_key k xs \<noteq> []" using assms(1) by (metis set_empty set_sort)
  then obtain z zs where z: "sort_key k xs = z # zs" by (cases "sort_key k xs") auto
  then have "\<forall>x \<in> set zs. k z \<le> k x" using sorted_sort_key[of k xs] by simp
  moreover have "y \<in> set (z # zs)" using assms(2) z by (metis set_sort)
  ultimately show ?thesis using z by auto
qed

lemma hd_sort_key_in: "xs \<noteq> [] \<Longrightarrow> hd (sort_key k xs) \<in> set xs"
  by (metis hd_in_set set_empty set_sort)

text \<open>The chosen endpoint is a least one for the ranking key among those that can serve.\<close>

lemma resolve_least:
  assumes "finite (it_requires it)" "rs_endpoint (resolve it facts) = Some e"
  obtains f where "f \<in> set facts" "can_serve it f" "mf_endpoint f = e" "exclusions_known it facts"
    "\<And>g. g \<in> set facts \<Longrightarrow> can_serve it g \<Longrightarrow> rank_key (it_prefer it) f \<le> rank_key (it_prefer it) g"
proof -
  have known: "exclusions_known it facts" using resolve_unknown_exclusion assms(2) by fastforce
  let ?E = "eligible_facts it facts"
  have ne: "?E \<noteq> []" and e: "mf_endpoint (hd (sort_key (rank_key (it_prefer it)) ?E)) = e"
    using assms(2) resolve_known(2)[OF known] by (auto split: if_splits)
  note s = set_eligible[OF assms(1), of facts]
  show thesis
  proof (rule that[OF _ _ e known])
    show "hd (sort_key (rank_key (it_prefer it)) ?E) \<in> set facts" "can_serve it (hd (sort_key (rank_key (it_prefer it)) ?E))"
      using hd_sort_key_in[OF ne] s by auto
    show "rank_key (it_prefer it) (hd (sort_key (rank_key (it_prefer it)) ?E)) \<le> rank_key (it_prefer it) g"
      if "g \<in> set facts" "can_serve it g" for g
      using hd_sort_key_least[OF ne] that s by auto
  qed
qed

lemma rank_key_inj: "distinct (map mf_endpoint facts) \<Longrightarrow> inj_on (rank_key p) (set facts)"
  by (auto simp: inj_on_def rank_key_def distinct_map)

lemma it_bind_Inr: "it_bind r f = Inr y \<longleftrightarrow> (\<exists>x. r = Inr x \<and> f x = Inr y)"
  by (cases r) (auto simp: it_bind_def)

lemma check_Inr: "check b e = Inr u \<longleftrightarrow> b"
  by (simp add: check_def)

lemma add_requires_known: "add_requires cs S = Inr R \<Longrightarrow> S \<subseteq> R \<and> R \<subseteq> S \<union> known_capabilities \<and> (finite S \<longrightarrow> finite R)"
proof (induction cs arbitrary: S)
  case (Cons c cs)
  let ?n = "py_strip (py_str c)"
  have "?n \<in> known_capabilities" "add_requires cs (insert ?n S) = Inr R"
    using Cons.prems by (auto simp: Let_def split: if_splits)
  with Cons.IH[of "insert ?n S"] show ?case by auto
qed simp

lemma parse_requires_known:
  "parse_requires body S = Inr R \<Longrightarrow> S \<subseteq> R \<and> R \<subseteq> S \<union> known_capabilities \<and> (finite S \<longrightarrow> finite R)"
  using add_requires_known by (auto simp: parse_requires_def split: json.splits option.splits)

lemma parse_intent_parts:
  assumes "parse_intent profiles nrm body = Inr it"
  shows "it_kind it \<in> known_kinds \<and> it_prefer it \<in> preferences \<and> 0 \<le> min_context it"
    and "it_exclude it = set (map fst (exclude_pairs it)) \<and> (it_pin it = [] \<or> it_pin it \<notin> it_exclude it)"
    and "\<exists>prof. (if text_field body ''intent'' \<noteq> []
        then (case resolve_profile (text_field body ''intent'') (case profiles of None \<Rightarrow> builtin_profiles | Some t \<Rightarrow> t) of
                Inl e \<Rightarrow> Inl e | Inr p \<Rightarrow> Inr (Some p))
        else Inr None) = Inr prof \<and>
      parse_requires body (case prof of Some p \<Rightarrow> pf_requires p | None \<Rightarrow> {}) = Inr (it_requires it)"
proof -
  obtain written prof R mc where
    pieces: "\<not> ((case nrm of Some f \<Rightarrow> (if text_field body ''model'' \<noteq> [] then f (text_field body ''model'') else text_field body ''model'')
        | None \<Rightarrow> text_field body ''model'') \<noteq> [] \<and>
      (case nrm of Some f \<Rightarrow> (if text_field body ''model'' \<noteq> [] then f (text_field body ''model'') else text_field body ''model'')
        | None \<Rightarrow> text_field body ''model'') \<in> set (map fst (map (\<lambda>n. (case nrm of Some f \<Rightarrow> f n | None \<Rightarrow> n, n)) written)))"
    "(if text_field body ''intent'' \<noteq> []
        then (case resolve_profile (text_field body ''intent'') (case profiles of None \<Rightarrow> builtin_profiles | Some t \<Rightarrow> t) of
                Inl e \<Rightarrow> Inl e | Inr p \<Rightarrow> Inr (Some p))
        else Inr None) = Inr prof"
    "parse_requires body (case prof of Some p \<Rightarrow> pf_requires p | None \<Rightarrow> {}) = Inr R" "0 \<le> mc"
    "it_kind it \<in> known_kinds" "it_prefer it \<in> preferences" "min_context it = mc" "it_requires it = R"
    "it_pin it = (case nrm of Some f \<Rightarrow> (if text_field body ''model'' \<noteq> [] then f (text_field body ''model'') else text_field body ''model'')
        | None \<Rightarrow> text_field body ''model'')"
    "exclude_pairs it = map (\<lambda>n. (case nrm of Some f \<Rightarrow> f n | None \<Rightarrow> n, n)) written"
    "it_exclude it = set (map fst (map (\<lambda>n. (case nrm of Some f \<Rightarrow> f n | None \<Rightarrow> n, n)) written))"
    using assms unfolding parse_intent_def Let_def it_bind_Inr check_Inr Inr_Inl_False sum.inject
    by (elim exE conjE, hypsubst) (rule that, assumption+, simp_all)
  show "it_kind it \<in> known_kinds \<and> it_prefer it \<in> preferences \<and> 0 \<le> min_context it"
    using pieces(4-7) by simp
  show "it_exclude it = set (map fst (exclude_pairs it)) \<and> (it_pin it = [] \<or> it_pin it \<notin> it_exclude it)"
    unfolding pieces(9-11) using pieces(1) by blast
  show "\<exists>prof. (if text_field body ''intent'' \<noteq> []
        then (case resolve_profile (text_field body ''intent'') (case profiles of None \<Rightarrow> builtin_profiles | Some t \<Rightarrow> t) of
                Inl e \<Rightarrow> Inl e | Inr p \<Rightarrow> Inr (Some p))
        else Inr None) = Inr prof \<and>
      parse_requires body (case prof of Some p \<Rightarrow> pf_requires p | None \<Rightarrow> {}) = Inr (it_requires it)"
    unfolding pieces(8) using pieces(2,3) by (intro exI conjI)
qed

subsection \<open>Properties\<close>

text \<open>The resolver answers exactly when it can, and truthfully. For a request whose required
  capabilities are finitely many, it names an endpoint if and only if every exclusion names an
  endpoint of the fleet and some endpoint satisfies the pin, the exclusions, the kind, the
  capabilities and the context; the endpoint it names is one that does, and the ranking lists
  precisely the endpoints that do.\<close>

lemma resolve_sound_complete:
  assumes "finite (it_requires it)"
  shows "(rs_endpoint (resolve it facts) \<noteq> None \<longleftrightarrow> exclusions_known it facts \<and> (\<exists>f \<in> set facts. can_serve it f)) \<and>
    (\<forall>e. rs_endpoint (resolve it facts) = Some e \<longrightarrow>
       (\<exists>f \<in> set facts. mf_endpoint f = e \<and> can_serve it f) \<and> hd (ranked (resolve it facts)) = e \<and>
       mset (ranked (resolve it facts)) = image_mset mf_endpoint (mset (filter (can_serve it) facts)))"
proof (cases "exclusions_known it facts")
  case False
  then show ?thesis using resolve_unknown_exclusion by simp
next
  case True
  have serve: "can_serve it f \<longleftrightarrow> pin_ok it f \<and> refusal it f = None" for f
    using refusal_None[OF assms, of f] by (cases "pin_ok it f") (auto simp: can_serve_def)
  have el: "eligible_facts it facts = filter (can_serve it) facts"
    unfolding eligible_facts_def serve ..
  let ?S = "sort_key (rank_key (it_prefer it)) (filter (can_serve it) facts)"
  have ne: "?S \<noteq> []" if "filter (can_serve it) facts \<noteq> []" using that by (metis set_empty set_sort)
  note rk = resolve_known[OF True, unfolded el]
  have "rs_endpoint (resolve it facts) \<noteq> None \<longleftrightarrow> (\<exists>f \<in> set facts. can_serve it f)"
    unfolding rk(2) by (auto simp: filter_empty_conv)
  moreover have "(\<exists>f \<in> set facts. mf_endpoint f = e \<and> can_serve it f) \<and> hd (ranked (resolve it facts)) = e \<and>
       mset (ranked (resolve it facts)) = image_mset mf_endpoint (mset (filter (can_serve it) facts))"
    if "rs_endpoint (resolve it facts) = Some e" for e
    using that ne hd_sort_key_in[of "filter (can_serve it) facts" "rank_key (it_prefer it)"]
    unfolding rk by (auto simp: hd_map split: if_splits)
  ultimately show ?thesis using True by blast
qed

definition demo_facts :: "string \<Rightarrow> real \<Rightarrow> bool \<Rightarrow> model_facts" where
  "demo_facts n ms costs =
     \<lparr>mf_endpoint = n, mf_kind = ''chat'', mf_context = 8192, mf_capabilities = {''vision''}, mf_routed = True,
      mf_healthy = True, mf_max_slots = 2, mf_in_flight = 1, mf_queued = 0, typical_ms = ms,
      input_usd_per_mtok = 0, output_usd_per_mtok = 0, real_cost = costs\<rparr>"

definition demo_intent :: intent where
  "demo_intent = \<lparr>it_pin = [], pin_as_written = [], it_profile = ''vision'', it_requires = {''vision''}, it_kind = ''chat'',
     min_context = 0, it_prefer = ''latency'', it_exclude = {''tier1''}, exclude_pairs = [(''tier1'', ''Router'')]\<rparr>"

abbreviation demo_snapshot :: "model_facts list" where
  "demo_snapshot \<equiv> [demo_facts ''tier1'' 10 False, demo_facts ''cloud'' 5 True, demo_facts ''tier2'' 400 False, demo_facts ''new'' 0 False]"

lemma resolve_sound_complete_witness:
  "rs_endpoint (resolve demo_intent demo_snapshot) = Some ''tier2'' \<and>
   (\<exists>f \<in> set demo_snapshot. mf_endpoint f = ''tier2'' \<and> can_serve demo_intent f)"
proof -
  have r: "rs_endpoint (resolve demo_intent demo_snapshot) = Some ''tier2''" by code_simp
  have "finite (it_requires demo_intent)" by (simp add: demo_intent_def)
  from resolve_sound_complete[OF this, of demo_snapshot] r show ?thesis by blast
qed

text \<open>C33: money is asked before the preference. Under every preference, an endpoint that costs real
  money is chosen only when no endpoint that can serve is free of charge; and among those of the
  same kind of cost an unhealthy one only when no healthy one can serve.\<close>

lemma local_first:
  assumes "finite (it_requires it)" "rs_endpoint (resolve it facts) = Some e" "distinct (map mf_endpoint facts)"
    and "f \<in> set facts" "mf_endpoint f = e" "g \<in> set facts" "can_serve it g"
  shows "(real_cost f \<longrightarrow> real_cost g) \<and> (real_cost f = real_cost g \<and> \<not> mf_healthy f \<longrightarrow> \<not> mf_healthy g)"
proof -
  obtain h where h: "h \<in> set facts" "mf_endpoint h = e" "rank_key (it_prefer it) h \<le> rank_key (it_prefer it) g"
    using resolve_least[OF assms(1,2)] assms(6,7) by metis
  have "h = f" using h(1,2) assms(3-5) by (auto simp: distinct_map inj_on_def)
  with h(3) show ?thesis by (auto simp: rank_key_def less_eq_prod_def less_prod_def split: if_splits)
qed

lemma local_first_witness:
  "rs_endpoint (resolve demo_intent demo_snapshot) = Some ''tier2'' \<and> \<not> real_cost (demo_facts ''tier2'' 400 False)"
proof -
  have r: "rs_endpoint (resolve demo_intent demo_snapshot) = Some ''tier2''"
    and d: "distinct (map mf_endpoint demo_snapshot)" by code_simp+
  have "(real_cost (demo_facts ''tier2'' 400 False) \<longrightarrow> real_cost (demo_facts ''new'' 0 False))"
    using local_first[OF _ r d, of "demo_facts ''tier2'' 400 False" "demo_facts ''new'' 0 False"]
    by (simp add: demo_intent_def demo_facts_def can_serve_def pin_ok_def py_strip_def)
  moreover have "\<not> real_cost (demo_facts ''new'' 0 False)" by (simp add: demo_facts_def)
  ultimately show ?thesis using r by blast
qed

text \<open>No evidence is not speed. When the preference is latency, an endpoint with no measured
  latency is chosen over a measured one that can serve only if the measured one costs real money
  and it does not, or is unhealthy and it is not.\<close>

lemma unmeasured_sorts_last:
  assumes "finite (it_requires it)" "rs_endpoint (resolve it facts) = Some e" "distinct (map mf_endpoint facts)"
    and "it_prefer it = ''latency''" "f \<in> set facts" "mf_endpoint f = e" "typical_ms f \<le> 0"
    and "g \<in> set facts" "can_serve it g" "0 < typical_ms g"
  shows "(real_cost g \<and> \<not> real_cost f) \<or> (mf_healthy f \<and> \<not> mf_healthy g)"
proof -
  obtain h where h: "h \<in> set facts" "mf_endpoint h = e" "rank_key (it_prefer it) h \<le> rank_key (it_prefer it) g"
    using resolve_least[OF assms(1,2)] assms(8,9) by metis
  have "h = f" using h(1,2) assms(3,5,6) by (auto simp: distinct_map inj_on_def)
  with h(3) assms(4,7,10) show ?thesis
    by (auto simp: rank_key_def preference_key_def latency_key_def less_fnum_def split: if_splits)
qed

lemma unmeasured_sorts_last_witness:
  "rs_endpoint (resolve demo_intent [demo_facts ''new'' 0 False, demo_facts ''tier1'' 10 False, demo_facts ''cloud'' 5 True]) = Some ''new'' \<and>
   (real_cost (demo_facts ''cloud'' 5 True) \<and> \<not> real_cost (demo_facts ''new'' 0 False)
     \<or> mf_healthy (demo_facts ''new'' 0 False) \<and> \<not> mf_healthy (demo_facts ''cloud'' 5 True))"
proof -
  let ?fs = "[demo_facts ''new'' 0 False, demo_facts ''tier1'' 10 False, demo_facts ''cloud'' 5 True]"
  have r: "rs_endpoint (resolve demo_intent ?fs) = Some ''new''" and d: "distinct (map mf_endpoint ?fs)"
    and p: "it_prefer demo_intent = ''latency''" by code_simp+
  have "finite (it_requires demo_intent)" by (simp add: demo_intent_def)
  from unmeasured_sorts_last[OF this r d p, of "demo_facts ''new'' 0 False" "demo_facts ''cloud'' 5 True"] r
  show ?thesis by (simp add: demo_facts_def demo_intent_def can_serve_def pin_ok_def py_strip_def)
qed

text \<open>The answer does not depend on the order of the snapshot. Two snapshots with the same
  endpoints in any order, each endpoint once, give the same endpoint and the same ranking, so a plan
  and the call that follows it agree.\<close>

lemma resolve_order_independent:
  assumes "mset facts = mset facts'" "distinct (map mf_endpoint facts)"
  shows "rs_endpoint (resolve it facts) = rs_endpoint (resolve it facts') \<and>
    ranked (resolve it facts) = ranked (resolve it facts')"
proof -
  have same: "set facts = set facts'" using assms(1) by (rule mset_eq_setD)
  then have ek: "exclusions_known it facts = exclusions_known it facts'" by (simp add: exclusions_known_def)
  let ?E = "eligible_facts it facts" and ?E' = "eligible_facts it facts'" and ?k = "rank_key (it_prefer it)"
  have m: "mset ?E = mset ?E'" using assms(1) by (simp add: eligible_facts_def)
  have "inj_on ?k (set ?E)"
    by (rule inj_on_subset[OF rank_key_inj[OF assms(2)]]) (auto simp: eligible_facts_def)
  then have s: "sort_key ?k ?E = sort_key ?k ?E'"
    using m by (intro sort_key_inj_key_eq) simp_all
  have "?E = [] \<longleftrightarrow> ?E' = []" using m by (metis mset_zero_iff)
  with s ek show ?thesis
    using resolve_known[of it facts] resolve_known[of it facts'] resolve_unknown_exclusion[of it]
    by (cases "exclusions_known it facts") simp_all
qed

lemma resolve_order_independent_witness:
  "ranked (resolve demo_intent demo_snapshot) = ranked (resolve demo_intent (rev demo_snapshot))"
proof -
  have "distinct (map mf_endpoint demo_snapshot)" by code_simp
  with resolve_order_independent[of demo_snapshot "rev demo_snapshot" demo_intent] show ?thesis by simp
qed

text \<open>A parsed intent is well formed. Whatever the body, the profiles (with finitely many
  requirements each) and the aliases, a request that parses has a known kind, a known preference, a
  context bound that is not negative, requirements that come from its profile or the known
  capabilities, exclusions that are the normalised forms of what the caller wrote, and never a pin
  that it also excludes.\<close>

lemma parse_intent_well_formed:
  assumes "parse_intent profiles nrm body = Inr it"
    and "\<forall>p \<in> snd ` set (case profiles of None \<Rightarrow> builtin_profiles | Some t \<Rightarrow> t). finite (pf_requires p)"
  shows "it_kind it \<in> known_kinds \<and> it_prefer it \<in> preferences \<and> 0 \<le> min_context it \<and> finite (it_requires it) \<and>
    it_requires it \<subseteq> known_capabilities \<union>
      \<Union> (pf_requires ` snd ` set (case profiles of None \<Rightarrow> builtin_profiles | Some t \<Rightarrow> t)) \<and>
    it_exclude it = set (map fst (exclude_pairs it)) \<and> (it_pin it = [] \<or> it_pin it \<notin> it_exclude it)"
proof -
  let ?T = "case profiles of None \<Rightarrow> builtin_profiles | Some t \<Rightarrow> t"
  note parts = parse_intent_parts[OF assms(1)]
  obtain prof where prof: "prof = None \<or> (\<exists>p n. prof = Some p \<and> resolve_profile n ?T = Inr p)"
    and R: "parse_requires body (case prof of Some p \<Rightarrow> pf_requires p | None \<Rightarrow> {}) = Inr (it_requires it)"
  proof -
    from parts(3) obtain prof where
      p: "(if text_field body ''intent'' \<noteq> [] then (case resolve_profile (text_field body ''intent'') ?T of Inl e \<Rightarrow> Inl e | Inr p \<Rightarrow> Inr (Some p))
           else Inr None) = Inr prof"
      and r: "parse_requires body (case prof of Some p \<Rightarrow> pf_requires p | None \<Rightarrow> {}) = Inr (it_requires it)" by blast
    have "prof = None \<or> (\<exists>p n. prof = Some p \<and> resolve_profile n ?T = Inr p)"
      using p by (auto split: if_splits sum.splits)
    from that[OF this r] show thesis .
  qed
  have S: "(case prof of Some p \<Rightarrow> pf_requires p | None \<Rightarrow> {}) \<subseteq> \<Union> (pf_requires ` snd ` set ?T)"
    "finite (case prof of Some p \<Rightarrow> pf_requires p | None \<Rightarrow> {})"
  proof -
    have "p \<in> snd ` set ?T" if "resolve_profile n ?T = Inr p" for p n
      using that od_get_Some_in[of ?T "py_strip n" p] by (force simp: resolve_profile_def split: option.splits)
    then have "prof = None \<or> (\<exists>p. prof = Some p \<and> p \<in> snd ` set ?T)" using prof by blast
    then show "(case prof of Some p \<Rightarrow> pf_requires p | None \<Rightarrow> {}) \<subseteq> \<Union> (pf_requires ` snd ` set ?T)"
      "finite (case prof of Some p \<Rightarrow> pf_requires p | None \<Rightarrow> {})"
      using assms(2) by (elim disjE exE conjE; simp; blast)+
  qed
  from parse_requires_known[OF R] S parts(1,2) show ?thesis by blast
qed

lemma parse_intent_well_formed_witness:
  "\<exists>it. parse_intent None None [(''intent'', JStr '' reasoning ''), (''exclude'', JStr ''tier2''), (''requires'', JList [JStr ''vision''])] = Inr it
     \<and> it_requires it = {''reasoning'', ''vision''} \<and> it_kind it \<in> known_kinds"
proof -
  let ?b = "[(''intent'', JStr '' reasoning ''), (''exclude'', JStr ''tier2''), (''requires'', JList [JStr ''vision''])]"
  have "case parse_intent None None ?b of Inl _ \<Rightarrow> False | Inr it \<Rightarrow> it_requires it = {''reasoning'', ''vision''}" by code_simp
  then obtain it where it: "parse_intent None None ?b = Inr it" "it_requires it = {''reasoning'', ''vision''}"
    by (auto split: sum.splits)
  have "\<forall>p \<in> snd ` set (case None of None \<Rightarrow> builtin_profiles | Some t \<Rightarrow> t). finite (pf_requires p)"
    by (simp add: builtin_profiles_def mk_profile_def)
  from parse_intent_well_formed[OF it(1) this] it show ?thesis by blast
qed

end
