(* ===== verification/Addresses.thy ===== *)
theory Addresses
  imports Config "HOL-Library.Word"
begin

unbundle bit_operations_syntax

section \<open>Internet addresses and networks\<close>

text \<open>
  What the access layer uses of Python's \<^verbatim>\<open>ipaddress\<close> module, for both address families:
  \<^verbatim>\<open>ip_address\<close>, \<^verbatim>\<open>str\<close> of an address, \<^verbatim>\<open>ip_network(..., strict=False)\<close> and membership. An
  address is a word of its width, an IPv6 address with its optional scope identifier; a network
  is its address with the host bits cleared and the length of its prefix. The parsers follow the
  module: no leading zeros in an octet, a dotted tail in an IPv6 address, at most one double
  colon, netmasks and host masks written as an address for IPv4 only. \<open>ip_address_str_ip\<close> shows
  that the text Python prints for an address is parsed back to it, \<open>in_net4_prefix\<close> and
  \<open>in_net6_prefix\<close> that membership compares exactly the bits of the prefix.
\<close>

subsection \<open>Splitting\<close>

text \<open>\<^verbatim>\<open>s.split(c)\<close> for a single character.\<close>

fun split_on :: "char \<Rightarrow> string \<Rightarrow> string list" where
  "split_on c [] = [[]]"
| "split_on c (x # xs) =
     (if x = c then [] # split_on c xs
      else case split_on c xs of [] \<Rightarrow> [[x]] | p # ps \<Rightarrow> (x # p) # ps)"

text \<open>\<^verbatim>\<open>s.partition(c)\<close>: the text before, whether the separator occurs, the text after.\<close>

definition partition_at :: "char \<Rightarrow> string \<Rightarrow> string \<times> bool \<times> string" where
  "partition_at c s = (takeWhile (\<lambda>x. x \<noteq> c) s, c \<in> set s, drop 1 (dropWhile (\<lambda>x. x \<noteq> c) s))"

subsection \<open>Addresses\<close>

datatype ip_addr = V4 "32 word" | V6 "128 word" "string option"

definition parse_octet :: "string \<Rightarrow> int option" where
  "parse_octet s =
     (if s = [] \<or> \<not> list_all is_digit s \<or> 3 < length s \<or> (s \<noteq> ''0'' \<and> hd s = CHR ''0'') then None
      else if 255 < digits_val s then None else Some (int (digits_val s)))"

fun all_some :: "'a option list \<Rightarrow> 'a list option" where
  "all_some [] = Some []"
| "all_some (None # xs) = None"
| "all_some (Some x # xs) = map_option ((#) x) (all_some xs)"

definition of_digits :: "int \<Rightarrow> int list \<Rightarrow> int" where
  "of_digits base ds = foldl (\<lambda>acc d. acc * base + d) 0 ds"

definition ip4_int :: "string \<Rightarrow> int option" where
  "ip4_int s = (let octets = split_on (CHR ''.'') s in
     if length octets \<noteq> 4 then None
     else map_option (of_digits 256) (all_some (map parse_octet octets)))"

definition hex_value :: "char \<Rightarrow> int option" where
  "hex_value c = (let n = of_char c :: int in
     if 48 \<le> n \<and> n \<le> 57 then Some (n - 48)
     else if 97 \<le> n \<and> n \<le> 102 then Some (n - 87)
     else if 65 \<le> n \<and> n \<le> 70 then Some (n - 55)
     else None)"

definition parse_hextet :: "string \<Rightarrow> int option" where
  "parse_hextet s =
     (if s = [] \<or> 4 < length s then None else map_option (of_digits 16) (all_some (map hex_value s)))"

function show_hex :: "int \<Rightarrow> string" where
  "show_hex n = (if n < 16 then [digit_char (nat n)] else show_hex (n div 16) @ [digit_char (nat (n mod 16))])"
  by auto
termination by (relation "measure nat") auto

declare show_hex.simps [simp del]

text \<open>A dotted tail is rewritten to two hexadecimal parts before anything is counted.\<close>

definition expand_tail :: "string list \<Rightarrow> string list option" where
  "expand_tail parts =
     (if CHR ''.'' \<notin> set (last parts) then Some parts
      else case ip4_int (last parts) of
             None \<Rightarrow> None
           | Some n \<Rightarrow> Some (butlast parts @ [show_hex (n div 65536), show_hex (n mod 65536)]))"

text \<open>The parts copied before and after the double colon, and how many zero parts it stands for.\<close>

definition layout6 :: "string list \<Rightarrow> (nat \<times> nat \<times> nat) option" where
  "layout6 parts =
     (let n = length parts;
          skips = filter (\<lambda>i. parts ! i = []) [1..<n - 1]
      in case skips of
           [] \<Rightarrow> if n \<noteq> 8 \<or> hd parts = [] \<or> last parts = [] then None else Some (n, 0, 0)
         | [k] \<Rightarrow>
             (let hi = (if hd parts = [] then k - 1 else k);
                  lo = (if last parts = [] then n - k - 2 else n - k - 1)
              in if hd parts = [] \<and> hi \<noteq> 0 \<or> last parts = [] \<and> lo \<noteq> 0 \<or> 8 \<le> hi + lo then None
                 else Some (hi, 8 - (hi + lo), lo))
         | _ \<Rightarrow> None)"

definition ip6_int :: "string \<Rightarrow> int option" where
  "ip6_int s =
     (let parts0 = split_on (CHR '':'') s in
      if length parts0 < 3 then None
      else case expand_tail parts0 of
        None \<Rightarrow> None
      | Some parts \<Rightarrow>
          (if 9 < length parts then None
           else case layout6 parts of
             None \<Rightarrow> None
           | Some (hi, skipped, lo) \<Rightarrow>
               map_option (of_digits 65536)
                 (all_some (map parse_hextet (take hi parts) @ replicate skipped (Some 0)
                            @ map parse_hextet (drop (length parts - lo) parts)))))"

text \<open>\<^verbatim>\<open>_split_scope_id\<close>: nothing after the percent sign, or a second one, is an error.\<close>

definition split_scope :: "string \<Rightarrow> (string \<times> string option) option" where
  "split_scope s =
     (case partition_at (CHR ''%'') s of
        (a, sep, scope) \<Rightarrow>
          if \<not> sep then Some (a, None)
          else if scope = [] \<or> CHR ''%'' \<in> set scope then None
          else Some (a, Some scope))"

definition ipv4_address :: "string \<Rightarrow> ip_addr option" where
  "ipv4_address s = (if CHR ''/'' \<in> set s then None else map_option (\<lambda>n. V4 (word_of_int n)) (ip4_int s))"

definition ipv6_address :: "string \<Rightarrow> ip_addr option" where
  "ipv6_address s =
     (if CHR ''/'' \<in> set s then None
      else case split_scope s of
             None \<Rightarrow> None
           | Some (a, scope) \<Rightarrow> map_option (\<lambda>n. V6 (word_of_int n) scope) (ip6_int a))"

definition ip_address :: "string \<Rightarrow> ip_addr option" where
  "ip_address s = (case ipv4_address s of Some a \<Rightarrow> Some a | None \<Rightarrow> ipv6_address s)"

subsection \<open>Printing\<close>

text \<open>The \<open>k\<close> digits of a number to a base, the most significant first.\<close>

fun to_digits :: "int \<Rightarrow> nat \<Rightarrow> int \<Rightarrow> int list" where
  "to_digits base 0 n = []"
| "to_digits base (Suc k) n = to_digits base k (n div base) @ [n mod base]"

definition show_ip4 :: "32 word \<Rightarrow> string" where
  "show_ip4 w = join ''.'' (map show_int (to_digits 256 4 (uint w)))"

text \<open>\<^verbatim>\<open>_compress_hextets\<close>: the first longest run of zero parts, as its start and length.\<close>

fun best_zeros :: "nat \<Rightarrow> nat \<times> nat \<Rightarrow> nat \<times> nat \<Rightarrow> string list \<Rightarrow> nat \<times> nat" where
  "best_zeros i cur best [] = best"
| "best_zeros i (cs, cl) (bs, bl) (h # hs) =
     (if h = ''0''
      then (let start = (if cl = 0 then i else cs); len = cl + 1 in
            best_zeros (i + 1) (start, len) (if bl < len then (start, len) else (bs, bl)) hs)
      else best_zeros (i + 1) (0, 0) (bs, bl) hs)"

definition compress_hextets :: "string list \<Rightarrow> string list" where
  "compress_hextets hs =
     (case best_zeros 0 (0, 0) (0, 0) hs of
        (s, l) \<Rightarrow>
          if 1 < l
          then (if s = 0 then [[]] else []) @ take s hs @ [[]] @ drop (s + l) hs
               @ (if s + l = length hs then [[]] else [])
          else hs)"

definition show_ip6 :: "128 word \<Rightarrow> string" where
  "show_ip6 w = join '':'' (compress_hextets (map show_hex (to_digits 65536 8 (uint w))))"

fun str_ip :: "ip_addr \<Rightarrow> string" where
  "str_ip (V4 w) = show_ip4 w"
| "str_ip (V6 w None) = show_ip6 w"
| "str_ip (V6 w (Some scope)) = show_ip6 w @ ''%'' @ scope"

subsection \<open>Networks\<close>

text \<open>\<^verbatim>\<open>_ip_int_from_prefix\<close>.\<close>

definition netmask :: "nat \<Rightarrow> 'a::len word" where
  "netmask p = (- 1) XOR drop_bit p (- 1)"

datatype ip_net = Net (net_addr: ip_addr) (net_prefix: nat)

fun max_prefixlen :: "ip_addr \<Rightarrow> nat" where
  "max_prefixlen (V4 w) = 32"
| "max_prefixlen (V6 w s) = 128"

text \<open>\<^verbatim>\<open>_prefix_from_prefix_string\<close>.\<close>

definition prefix_of_text :: "nat \<Rightarrow> string \<Rightarrow> nat option" where
  "prefix_of_text max_len s =
     (if s = [] \<or> \<not> list_all is_digit s \<or> max_len < digits_val s then None else Some (digits_val s))"

definition righthand_zero_bits :: "32 word \<Rightarrow> nat" where
  "righthand_zero_bits w = length (takeWhile (\<lambda>i. \<not> bit w i) [0..<32])"

definition prefix_of_mask :: "32 word \<Rightarrow> nat option" where
  "prefix_of_mask w =
     (let tz = righthand_zero_bits w; p = 32 - tz in
      if uint (drop_bit tz w) = 2 ^ p - 1 then Some p else None)"

definition prefix_of_ip_text :: "string \<Rightarrow> nat option" where
  "prefix_of_ip_text s =
     (case ip4_int s of
        None \<Rightarrow> None
      | Some n \<Rightarrow>
          (case prefix_of_mask (word_of_int n) of
             Some p \<Rightarrow> Some p
           | None \<Rightarrow> prefix_of_mask (word_of_int n XOR (- 1))))"

definition make_netmask4 :: "string option \<Rightarrow> nat option" where
  "make_netmask4 arg =
     (case arg of
        None \<Rightarrow> Some 32
      | Some s \<Rightarrow> (case prefix_of_text 32 s of Some p \<Rightarrow> Some p | None \<Rightarrow> prefix_of_ip_text s))"

definition make_netmask6 :: "string option \<Rightarrow> nat option" where
  "make_netmask6 arg = (case arg of None \<Rightarrow> Some 128 | Some s \<Rightarrow> prefix_of_text 128 s)"

definition split_netmask :: "string \<Rightarrow> (string \<times> string option) option" where
  "split_netmask s =
     (case split_on (CHR ''/'') s of
        [a] \<Rightarrow> Some (a, None)
      | [a, m] \<Rightarrow> Some (a, Some m)
      | _ \<Rightarrow> None)"

text \<open>\<^verbatim>\<open>strict=False\<close>: host bits are cleared; an IPv6 address that had some loses its scope.\<close>

fun mask_host :: "ip_addr \<Rightarrow> nat \<Rightarrow> ip_addr" where
  "mask_host (V4 w) p = V4 (w AND netmask p)"
| "mask_host (V6 w s) p = (if w AND netmask p \<noteq> w then V6 (w AND netmask p) None else V6 w s)"

definition build_net :: "(string \<Rightarrow> ip_addr option) \<Rightarrow> (string option \<Rightarrow> nat option) \<Rightarrow> string \<Rightarrow> ip_net option" where
  "build_net addr_of mask_of s =
     (case split_netmask s of
        None \<Rightarrow> None
      | Some (a, m) \<Rightarrow>
          (case (addr_of a, mask_of m) of
             (Some ip, Some p) \<Rightarrow> Some (Net (mask_host ip p) p)
           | _ \<Rightarrow> None))"

definition ip_network :: "string \<Rightarrow> ip_net option" where
  "ip_network s =
     (case build_net ipv4_address make_netmask4 s of
        Some n \<Rightarrow> Some n
      | None \<Rightarrow> build_net ipv6_address make_netmask6 s)"

fun in_net :: "ip_addr \<Rightarrow> ip_net \<Rightarrow> bool" where
  "in_net (V4 w) (Net (V4 b) p) = (w AND netmask p = b)"
| "in_net (V6 w s) (Net (V6 b t) p) = (w AND netmask p = b)"
| "in_net _ _ = False"

definition in_any :: "ip_addr \<Rightarrow> ip_net list \<Rightarrow> bool" where
  "in_any a nets = list_ex (in_net a) nets"

subsection \<open>Lemmas: splitting and digits\<close>

lemma split_on_ne [simp]: "split_on c s \<noteq> []"
  by (induction s) (auto split: list.split)

lemma split_on_notin: "c \<notin> set p \<Longrightarrow> split_on c p = [p]"
  by (induction p) auto

lemma split_on_sep: "c \<notin> set p \<Longrightarrow> split_on c (p @ c # rest) = p # split_on c rest"
  by (induction p) (auto split: list.split)

lemma split_on_join:
  "ps \<noteq> [] \<Longrightarrow> \<forall>p \<in> set ps. c \<notin> set p \<Longrightarrow> split_on c (join [c] ps) = ps"
proof (induction ps rule: induct_list012)
  case (3 x y zs)
  then show ?case by (simp add: split_on_sep)
qed (auto simp: split_on_notin)

lemma join_split_on: "join [c] (split_on c s) = s"
proof (induction s)
  case (Cons x xs)
  show ?case
  proof (cases "split_on c xs")
    case (Cons p ps)
    with Cons.IH show ?thesis by (cases ps) auto
  qed simp
qed simp

lemma set_join: "set (join sep ps) \<subseteq> set sep \<union> \<Union> (set ` set ps)"
  by (induction sep ps rule: join.induct) auto

lemma all_some_Some: "all_some (map Some xs) = Some xs"
  by (induction xs) auto

lemma all_some_append:
  "all_some (xs @ ys) = (case (all_some xs, all_some ys) of (Some a, Some b) \<Rightarrow> Some (a @ b) | _ \<Rightarrow> None)"
  by (induction xs rule: all_some.induct) (auto split: option.splits)

lemma all_some_in: "all_some xs = Some ys \<Longrightarrow> x \<in> set xs \<Longrightarrow> x \<noteq> None"
  by (induction xs arbitrary: ys rule: all_some.induct) auto

lemma of_digits_snoc: "of_digits b (xs @ [x]) = of_digits b xs * b + x"
  by (simp add: of_digits_def)

lemma of_digits_to_digits: "1 < b \<Longrightarrow> 0 \<le> n \<Longrightarrow> n < b ^ k \<Longrightarrow> of_digits b (to_digits b k n) = n"
proof (induction k arbitrary: n)
  case 0
  then show ?case by (simp add: of_digits_def)
next
  case (Suc k)
  have "b * (n div b) \<le> n" using Suc.prems(1) by (simp flip: minus_mod_eq_mult_div)
  with Suc.prems(3) have "b * (n div b) < b * b ^ k" unfolding power_Suc by linarith
  with Suc.prems(1) have "n div b < b ^ k" by simp
  then show ?case using Suc.prems by (simp add: of_digits_snoc Suc.IH pos_imp_zdiv_nonneg_iff)
qed

lemma to_digits_length [simp]: "length (to_digits b k n) = k"
  by (induction k arbitrary: n) auto

lemma to_digits_range: "1 < b \<Longrightarrow> d \<in> set (to_digits b k n) \<Longrightarrow> 0 \<le> d \<and> d < b"
  by (induction k arbitrary: n) auto

lemma map_option_of: "map_option f x = Some y \<longleftrightarrow> (\<exists>z. x = Some z \<and> f z = y)"
  by (cases x) auto

lemma digits_val_snoc: "digits_val (s @ [c]) = digits_val s * 10 + (of_char c - 48)"
  by (simp add: digits_val_def)

lemma digit_char_decimal: "d < 10 \<Longrightarrow> is_digit (digit_char d) \<and> of_char (digit_char d) - 48 = d"
  by (simp add: is_digit_def digit_char_code)

lemma show_nat_decimal:
  "digits_val (show_nat n) = n \<and> list_all is_digit (show_nat n) \<and> show_nat n \<noteq> [] \<and>
     (n \<noteq> 0 \<longrightarrow> hd (show_nat n) \<noteq> CHR ''0'')"
proof (induction n rule: show_nat.induct)
  case (1 n)
  show ?case
  proof (cases "n < 10")
    case True
    have "digit_char n = CHR ''0'' \<Longrightarrow> n = 0" using digit_char_code[of n] True by simp
    then show ?thesis using True digit_char_decimal[OF True]
      by (auto simp: show_nat.simps[of n] digits_val_def)
  next
    case False
    with 1 digit_char_decimal[of "n mod 10"] show ?thesis
      by (simp add: show_nat.simps[of n] digits_val_snoc)
  qed
qed

lemma show_nat_length3: "n < 1000 \<Longrightarrow> length (show_nat n) \<le> 3"
  by (simp add: show_nat.simps[of n] show_nat.simps[of "n div 10"] show_nat.simps[of "n div 10 div 10"])

lemma show_nat_zero: "show_nat 0 = ''0''"
  by code_simp

lemma show_int_octet:
  assumes "0 \<le> d" "d < 256"
  shows "parse_octet (show_int d) = Some d \<and> list_all is_digit (show_int d)"
proof -
  have "show_int d = show_nat (nat d)" "length (show_nat (nat d)) \<le> 3"
    using assms show_nat_length3[of "nat d"] by (simp_all add: show_int_def)
  moreover have "nat d = 0 \<Longrightarrow> show_nat (nat d) = ''0''" using show_nat_zero by simp
  ultimately show ?thesis
    using assms show_nat_decimal[of "nat d"] by (cases "nat d = 0") (simp_all add: parse_octet_def is_digit_def digits_val_def)
qed

definition hex_chars :: "char set" where
  "hex_chars = set ''0123456789abcdef''"

lemma hex_digit: "d < 16 \<Longrightarrow> hex_value (digit_char d) = Some (int d) \<and> digit_char d \<in> hex_chars"
proof -
  have all: "list_all (\<lambda>d. hex_value (digit_char d) = Some (int d) \<and> digit_char d \<in> hex_chars) [0..<16]"
    by code_simp
  show "d < 16 \<Longrightarrow> ?thesis" using all by (auto simp: list_all_iff)
qed

lemma show_hex_digits:
  "0 \<le> n \<Longrightarrow> set (show_hex n) \<subseteq> hex_chars \<and> show_hex n \<noteq> [] \<and>
     (\<exists>ds. all_some (map hex_value (show_hex n)) = Some ds \<and> of_digits 16 ds = n)"
proof (induction n rule: show_hex.induct)
  case (1 n)
  show ?case
  proof (cases "n < 16")
    case True
    then show ?thesis using 1 hex_digit[of "nat n"] by (simp add: show_hex.simps[of n] of_digits_def)
  next
    case False
    with 1(2) have "0 \<le> n div 16" by simp
    with 1(1)[OF False] obtain ds where ds: "all_some (map hex_value (show_hex (n div 16))) = Some ds"
      "of_digits 16 ds = n div 16" and s: "set (show_hex (n div 16)) \<subseteq> hex_chars" by blast
    have h: "hex_value (digit_char (nat (n mod 16))) = Some (n mod 16)" "digit_char (nat (n mod 16)) \<in> hex_chars"
      using hex_digit[of "nat (n mod 16)"] 1(2) by (simp_all add: nat_less_iff)
    from False h ds s show ?thesis
      by (simp add: show_hex.simps[of n] all_some_append of_digits_snoc)
  qed
qed

lemma show_hex_length: "0 < k \<Longrightarrow> n < 16 ^ k \<Longrightarrow> length (show_hex n) \<le> k"
proof (induction k arbitrary: n)
  case (Suc k)
  show ?case
  proof (cases "n < 16")
    case False
    with Suc.prems have "n div 16 < 16 ^ k" "0 < k" by (cases k; simp)+
    with Suc.IH[of "n div 16"] False show ?thesis by (simp add: show_hex.simps[of n])
  qed (simp add: show_hex.simps[of n])
qed simp

lemma parse_show_hextet:
  assumes "0 \<le> n" "n < 65536" shows "parse_hextet (show_hex n) = Some n"
proof -
  have "length (show_hex n) \<le> 4" by (rule show_hex_length) (use assms in simp_all)
  moreover obtain ds where "all_some (map hex_value (show_hex n)) = Some ds" "of_digits 16 ds = n" "show_hex n \<noteq> []"
    using show_hex_digits[OF assms(1)] by blast
  ultimately show ?thesis by (simp add: parse_hextet_def)
qed

subsection \<open>Lemmas: the text of an address\<close>

lemma join_digits_chars:
  "\<forall>p \<in> set ps. list_all is_digit p \<Longrightarrow> x \<in> set (join ''.'' ps) \<Longrightarrow> is_digit x \<or> x = CHR ''.''"
  using set_join[of "''.''" ps] by (fastforce simp: list_all_iff)

lemma ip4_int_show: "ip4_int (show_ip4 w) = Some (uint w)"
proof -
  let ?ds = "to_digits 256 4 (uint w)"
  have d: "\<forall>d \<in> set ?ds. 0 \<le> d \<and> d < 256" using to_digits_range[of 256] by force
  then have "\<forall>p \<in> set (map show_int ?ds). CHR ''.'' \<notin> set p"
    using show_int_octet by (force simp: list_all_iff is_digit_def)
  moreover have "map show_int ?ds \<noteq> []" using to_digits_length[of 256 4 "uint w"] by force
  ultimately have "split_on (CHR ''.'') (show_ip4 w) = map show_int ?ds"
    unfolding show_ip4_def by (rule split_on_join[rotated])
  moreover have e: "map (parse_octet \<circ> show_int) ?ds = map Some ?ds" using d show_int_octet by simp
  moreover have "of_digits 256 ?ds = uint w" by (rule of_digits_to_digits) (use uint_bounded[of w] in simp_all)
  ultimately show ?thesis by (simp only: ip4_int_def Let_def length_map to_digits_length map_map e all_some_Some) simp
qed

lemma ip4_int_chars: "ip4_int s = Some n \<Longrightarrow> x \<in> set s \<Longrightarrow> is_digit x \<or> x = CHR ''.''"
proof -
  assume a: "ip4_int s = Some n" and x: "x \<in> set s"
  from a obtain ds where ds: "all_some (map parse_octet (split_on (CHR ''.'') s)) = Some ds"
    by (auto simp: ip4_int_def Let_def map_option_of split: if_splits)
  have "\<forall>p \<in> set (split_on (CHR ''.'') s). list_all is_digit p"
    using all_some_in[OF ds] by (force simp: parse_octet_def split: if_splits)
  from join_digits_chars[OF this] x show ?thesis by (simp add: join_split_on)
qed

lemma show_ip4_chars: "x \<in> set (show_ip4 w) \<Longrightarrow> is_digit x \<or> x = CHR ''.''"
  using ip4_int_chars[OF ip4_int_show] .

text \<open>The scan of \<^const>\<open>best_zeros\<close> finds a run of zero parts inside the list.\<close>

definition zero_run :: "string list \<Rightarrow> nat \<Rightarrow> nat \<times> nat \<Rightarrow> bool" where
  "zero_run xs i r \<longleftrightarrow> fst r + snd r \<le> i \<and> (\<forall>j. fst r \<le> j \<and> j < fst r + snd r \<longrightarrow> xs ! j = ''0'')"

lemma best_zeros_run:
  assumes "length xs = i + length hs" "drop i xs = hs" "zero_run xs i (cs, cl)" "cl \<noteq> 0 \<longrightarrow> cs + cl = i"
    and "zero_run xs i (bs, bl)"
  shows "zero_run xs (length xs) (best_zeros i (cs, cl) (bs, bl) hs)"
  using assms
proof (induction i "(cs, cl)" "(bs, bl)" hs arbitrary: cs cl bs bl rule: best_zeros.induct)
  case (1 i)
  then show ?case by simp
next
  case (2 i cs cl bs bl h hs)
  have h: "xs ! i = h" using 2(4) by (metis hd_drop_conv_nth list.sel(1) drop_eq_Nil linorder_not_less list.distinct(1))
  have rest: "length xs = (i + 1) + length hs" "drop (i + 1) xs = hs"
    using 2(3,4) by (simp_all add: drop_Suc drop_tl[symmetric]) (metis list.sel(3) tl_drop)
  let ?start = "if cl = 0 then i else cs"
  have best: "zero_run xs (i + 1) (bs, bl)" using 2(7) by (simp add: zero_run_def)
  show ?case
  proof (cases "h = ''0''")
    case True
    have cur: "zero_run xs (i + 1) (?start, cl + 1)" "?start + (cl + 1) = i + 1"
      using 2(5,6) h True by (auto simp: zero_run_def less_Suc_eq)
    show ?thesis
    proof (cases "bl < cl + 1")
      case less: True
      then show ?thesis using 2(1)[OF True refl refl, of ?start "cl + 1"] rest cur True by (cases "cl = 0") simp_all
    next
      case False
      then show ?thesis using 2(1)[OF True refl refl, of bs bl] rest cur best True by (cases "cl = 0") simp_all
    qed
  next
    case False
    have "zero_run xs (i + 1) (0, 0)" by (simp add: zero_run_def)
    with 2(2)[OF False] rest best False show ?thesis by simp
  qed
qed

text \<open>The one empty part inside the list is found, wherever the outer parts are empty too.\<close>

lemma skips_single:
  assumes "\<forall>p \<in> set P \<union> set Q. p \<noteq> []"
  shows "filter (\<lambda>i. (x # (P @ [] # Q) @ [y]) ! i = []) [1..<length (x # (P @ [] # Q) @ [y]) - 1] = [Suc (length P)]"
proof -
  let ?M = "P @ [] # Q"
  have idx: "filter (\<lambda>i. ?M ! i = []) [0..<length ?M] = [length P]"
  proof -
    have "[0..<length ?M] = [0..<length P] @ length P # [Suc (length P)..<length ?M]"
      by (metis le_add1 length_append length_Cons less_add_Suc1 upt_add_eq_append[of 0] upt_conv_Cons add_Suc_right zero_le add_0)
    moreover have "filter (\<lambda>i. ?M ! i = []) [0..<length P] = []"
      using assms by (auto simp: filter_empty_conv nth_append)
    moreover have "filter (\<lambda>i. ?M ! i = []) [Suc (length P)..<length ?M] = []"
      using assms by (auto simp: filter_empty_conv nth_append nth_Cons' in_set_conv_nth)
    ultimately show ?thesis by (simp add: nth_append)
  qed
  have upt: "[1..<length (x # ?M @ [y]) - 1] = map Suc [0..<length ?M]" by (simp add: map_Suc_upt)
  have nth: "(x # ?M @ [y]) ! Suc i = ?M ! i" if "i < length ?M" for i
    using that nth_append[of ?M "[y]" i] by (simp del: append_assoc append.append_Cons)
  then have "filter (\<lambda>i. (x # ?M @ [y]) ! Suc i = []) [0..<length ?M] = filter (\<lambda>i. ?M ! i = []) [0..<length ?M]"
    by (intro filter_cong refl) (simp only: nth set_upt atLeastLessThan_iff)
  then show ?thesis unfolding upt filter_map comp_def idx by (simp del: append_assoc)
qed

lemma layout6_compressed:
  assumes ne: "\<forall>p \<in> set A \<union> set B. p \<noteq> []" and l: "1 < l" "length A + l + length B = 8"
  shows "layout6 ((if A = [] then [[]] else []) @ A @ [[]] @ B @ (if B = [] then [[]] else [])) = Some (length A, l, length B)"
proof -
  have lay: "layout6 (x # (P @ [] # Q) @ [y]) =
      (let hi = (if x = [] then length P else Suc (length P)); lo = (if y = [] then length Q else Suc (length Q)) in
       if x = [] \<and> hi \<noteq> 0 \<or> y = [] \<and> lo \<noteq> 0 \<or> 8 \<le> hi + lo then None else Some (hi, 8 - (hi + lo), lo))"
    if "\<forall>p \<in> set P \<union> set Q. p \<noteq> []" for x y P Q
    unfolding layout6_def Let_def skips_single[OF that] by auto
  show ?thesis
  proof (cases A)
    case Nil
    show ?thesis
    proof (cases B rule: rev_cases)
      case Nil
      with lay[of "[]" "[]" "[]" "[]"] \<open>A = []\<close> l show ?thesis by simp
    next
      case (snoc Q y)
      with lay[of "[]" Q "[]" y] Nil ne l show ?thesis by auto
    qed
  next
    case (Cons x P)
    show ?thesis
    proof (cases B rule: rev_cases)
      case Nil
      with lay[of P "[]" x "[]"] Cons ne l show ?thesis by auto
    next
      case (snoc Q y)
      with lay[of P Q x y] Cons ne l show ?thesis by auto
    qed
  qed
qed

lemma layout6_plain:
  assumes "length hs = 8" "\<forall>p \<in> set hs. p \<noteq> []" shows "layout6 hs = Some (8, 0, 0)"
proof -
  have "filter (\<lambda>i. hs ! i = []) [1..<length hs - 1] = []" using assms by (auto simp: filter_empty_conv)
  moreover have "hd hs \<noteq> []" "last hs \<noteq> []" using assms by (cases hs; simp)+
  ultimately show ?thesis using assms(1) by (simp add: layout6_def)
qed

lemma compress_split:
  assumes "best_zeros 0 (0, 0) (0, 0) hs = (s, l)"
  shows "hs = take s hs @ replicate l ''0'' @ drop (s + l) hs \<and> s + l \<le> length hs"
proof -
  have "zero_run hs (length hs) (s, l)"
    using best_zeros_run[of hs 0 hs 0 0 0 0] assms by (simp add: zero_run_def)
  then have r: "s + l \<le> length hs" "\<And>j. s \<le> j \<Longrightarrow> j < s + l \<Longrightarrow> hs ! j = ''0''" by (auto simp: zero_run_def)
  then have "take l (drop s hs) = replicate l ''0''" by (intro nth_equalityI) auto
  then show ?thesis using r(1) by (metis append_take_drop_id drop_drop add.commute)
qed

lemma hex_chars_plain: "x \<in> hex_chars \<Longrightarrow> x \<notin> set '':./%''"
  by (auto simp: hex_chars_def)

lemma compress_chars: "p \<in> set (compress_hextets hs) \<Longrightarrow> p = [] \<or> p \<in> set hs"
  by (auto simp: compress_hextets_def split: prod.splits if_splits dest: in_set_takeD in_set_dropD)

lemma compress_ne: "hs \<noteq> [] \<Longrightarrow> compress_hextets hs \<noteq> []"
  by (auto simp: compress_hextets_def split: prod.splits)

lemma parse_layout:
  assumes "layout6 parts = Some (hi, k, lo)" "length parts \<le> 9" "3 \<le> length parts"
    and "\<forall>p \<in> set parts. set p \<subseteq> hex_chars"
    and "all_some (map parse_hextet (take hi parts) @ replicate k (Some 0) @ map parse_hextet (drop (length parts - lo) parts)) = Some ds"
  shows "ip6_int (join '':'' parts) = Some (of_digits 65536 ds)"
proof -
  have c: "\<forall>p \<in> set parts. CHR '':'' \<notin> set p \<and> CHR ''.'' \<notin> set p" using assms(4) hex_chars_plain by fastforce
  have ne: "parts \<noteq> []" using assms(3) by auto
  with c have s: "split_on (CHR '':'') (join '':'' parts) = parts" by (intro split_on_join) auto
  have "expand_tail parts = Some parts" using c ne last_in_set[OF ne] by (simp add: expand_tail_def)
  with s assms show ?thesis by (simp add: ip6_int_def)
qed

lemma ip6_int_show: "ip6_int (show_ip6 w) = Some (uint w)"
proof -
  let ?ds = "to_digits 65536 8 (uint w)" and ?hs = "map show_hex (to_digits 65536 8 (uint w))"
  have d: "0 \<le> d \<and> d < 65536" if "d \<in> set ?ds" for d using that to_digits_range[of 65536] by force
  have hex: "\<forall>p \<in> set ?hs. set p \<subseteq> hex_chars \<and> p \<noteq> []" using d show_hex_digits by auto
  have "map (parse_hextet \<circ> show_hex) ?ds = map Some ?ds" using d parse_show_hextet by simp
  then have all: "all_some (map parse_hextet ?hs) = Some ?ds" by (simp only: map_map all_some_Some)
  have val: "of_digits 65536 ?ds = uint w" by (rule of_digits_to_digits) (use uint_bounded[of w] in simp_all)
  have c_hex: "\<forall>p \<in> set (compress_hextets ?hs). set p \<subseteq> hex_chars" using hex compress_chars by fastforce
  obtain s l where sl: "best_zeros 0 (0, 0) (0, 0) ?hs = (s, l)" by force
  show ?thesis
  proof (cases "1 < l")
    case False
    then have "compress_hextets ?hs = ?hs" by (simp add: compress_hextets_def sl)
    then show ?thesis using parse_layout[OF layout6_plain, of ?hs ?ds] hex all val by (simp add: show_ip6_def)
  next
    case True
    let ?A = "take s ?hs" and ?B = "drop (s + l) ?hs"
    have split: "?hs = ?A @ replicate l ''0'' @ ?B" and le: "s + l \<le> 8" using compress_split[OF sl] by simp_all
    have len: "length ?A = s" "length ?B = 8 - (s + l)" using le by simp_all
    let ?parts = "(if ?A = [] then [[]] else []) @ ?A @ [[]] @ ?B @ (if ?B = [] then [[]] else [])"
    have dne: "?ds \<noteq> []" using to_digits_length[of 65536 8 "uint w"] by force
    then have parts: "compress_hextets ?hs = ?parts" using True le by (simp add: compress_hextets_def sl)
    have lay: "layout6 ?parts = Some (s, l, 8 - (s + l))"
      using layout6_compressed[of ?A ?B l] hex True le len by (metis (no_types, lifting) Un_iff in_set_dropD in_set_takeD le_add_diff_inverse)
    have "all_some (map parse_hextet ?A @ replicate l (Some 0) @ map parse_hextet ?B) = Some ?ds"
    proof -
      have z: "parse_hextet ''0'' = Some 0" by code_simp
      have "map parse_hextet ?hs = map parse_hextet ?A @ map parse_hextet (replicate l ''0'') @ map parse_hextet ?B"
        by (subst split) (simp only: map_append)
      with all show ?thesis by (simp only: map_replicate z)
    qed
    moreover have "take s ?parts = ?A" "drop (length ?parts - (8 - (s + l))) ?parts = ?B"
      using len le dne by (auto simp: take_Cons')
    moreover have "length ?parts \<le> 9" "3 \<le> length ?parts" using len le True by auto
    ultimately show ?thesis
      using parse_layout[OF lay, of ?ds] c_hex val unfolding show_ip6_def parts by simp
  qed
qed

lemma show_ip6_chars: "set (show_ip6 w) \<subseteq> hex_chars \<union> {CHR '':''}"
proof -
  let ?hs = "map show_hex (to_digits 65536 8 (uint w))"
  have "\<forall>p \<in> set ?hs. set p \<subseteq> hex_chars" using show_hex_digits to_digits_range[of 65536] by force
  then have "\<forall>p \<in> set (compress_hextets ?hs). set p \<subseteq> hex_chars" using compress_chars by fastforce
  then show ?thesis using set_join[of "'':''" "compress_hextets ?hs"] by (fastforce simp: show_ip6_def)
qed

lemma ip6_int_colon: "ip6_int s = Some n \<Longrightarrow> CHR '':'' \<in> set s"
  using split_on_notin[of "CHR '':''" s] by (force simp: ip6_int_def Let_def split: if_splits)

text \<open>The scope identifiers the parser produces.\<close>

fun wf_addr :: "ip_addr \<Rightarrow> bool" where
  "wf_addr (V4 w) = True"
| "wf_addr (V6 w None) = True"
| "wf_addr (V6 w (Some s)) = (s \<noteq> [] \<and> CHR ''%'' \<notin> set s \<and> CHR ''/'' \<notin> set s)"

lemma ip_address_wf: "ip_address s = Some a \<Longrightarrow> wf_addr a"
  by (auto simp: ip_address_def ipv4_address_def ipv6_address_def split_scope_def partition_at_def
      split: option.splits if_splits dest!: in_set_dropD set_dropWhileD)

lemma split_scope_none: "CHR ''%'' \<notin> set s \<Longrightarrow> split_scope s = Some (s, None)"
  by (simp add: split_scope_def partition_at_def takeWhile_eq_all_conv)
     (metis takeWhile_eq_all_conv)

lemma while_sep: "c \<notin> set s \<Longrightarrow> takeWhile (\<lambda>x. x \<noteq> c) (s @ c # z) = s \<and> dropWhile (\<lambda>x. x \<noteq> c) (s @ c # z) = c # z"
  by (induction s) auto

lemma split_scope_some:
  "CHR ''%'' \<notin> set s \<Longrightarrow> z \<noteq> [] \<Longrightarrow> CHR ''%'' \<notin> set z \<Longrightarrow> split_scope (s @ ''%'' @ z) = Some (s, Some z)"
  using while_sep[of "CHR ''%''" s z] by (simp add: split_scope_def partition_at_def)

lemma colon_not_v4: "CHR '':'' \<in> set s \<Longrightarrow> ipv4_address s = None"
  using ip4_int_chars[of s _ "CHR '':''"] by (cases "ip4_int s") (auto simp: ipv4_address_def is_digit_def)

text \<open>What Python prints for an address, it parses back to the same address.\<close>

lemma ip_address_str_ip: "wf_addr a \<Longrightarrow> ip_address (str_ip a) = Some a"
proof (cases a)
  case (V4 w)
  have "CHR ''/'' \<notin> set (show_ip4 w)" using show_ip4_chars[of "CHR ''/''" w] by (auto simp: is_digit_def)
  then show ?thesis by (simp add: V4 ip_address_def ipv4_address_def ip4_int_show)
next
  case (V6 w scope)
  assume wf: "wf_addr a"
  have plain: "CHR ''/'' \<notin> set (show_ip6 w)" "CHR ''%'' \<notin> set (show_ip6 w)"
    using show_ip6_chars[of w] hex_chars_plain by fastforce+
  have colon: "CHR '':'' \<in> set (show_ip6 w)" by (rule ip6_int_colon[OF ip6_int_show])
  show ?thesis
  proof (cases scope)
    case None
    then show ?thesis
      using plain colon by (simp add: V6 ip_address_def colon_not_v4 ipv6_address_def split_scope_none ip6_int_show)
  next
    case (Some z)
    then have z: "z \<noteq> []" "CHR ''%'' \<notin> set z" "CHR ''/'' \<notin> set z" using wf V6 by simp_all
    have "CHR '':'' \<in> set (show_ip6 w @ ''%'' @ z)" using colon by simp
    then have "ipv4_address (show_ip6 w @ ''%'' @ z) = None" by (rule colon_not_v4)
    then show ?thesis
      using plain z split_scope_some[OF plain(2) z(1,2)] by (simp add: V6 Some ip_address_def ipv6_address_def ip6_int_show)
  qed
qed

lemma str_ip_inject: "wf_addr a \<Longrightarrow> wf_addr b \<Longrightarrow> str_ip a = str_ip b \<longleftrightarrow> a = b"
  using ip_address_str_ip by (metis option.inject)

subsection \<open>Lemmas: membership\<close>

lemma bit_netmask: "bit (netmask p :: 'a::len word) i \<longleftrightarrow> i < LENGTH('a) \<and> LENGTH('a) \<le> i + p"
  by (auto simp: netmask_def bit_simps)

lemma and_netmask_eq:
  "w AND netmask p = v AND netmask p \<longleftrightarrow> drop_bit (LENGTH('a) - p) w = drop_bit (LENGTH('a) - p) (v :: 'a::len word)"
proof
  assume e: "w AND netmask p = v AND netmask p"
  show "drop_bit (LENGTH('a) - p) w = drop_bit (LENGTH('a) - p) v"
  proof (rule bit_word_eqI)
    fix n
    have "bit (w AND netmask p) (LENGTH('a) - p + n) = bit (v AND netmask p) (LENGTH('a) - p + n)" using e by simp
    then show "bit (drop_bit (LENGTH('a) - p) w) n = bit (drop_bit (LENGTH('a) - p) v) n"
      by (auto simp: bit_simps bit_netmask dest: bit_imp_le_length)
  qed
next
  assume e: "drop_bit (LENGTH('a) - p) w = drop_bit (LENGTH('a) - p) v"
  show "w AND netmask p = v AND netmask p"
  proof (rule bit_word_eqI)
    fix n
    have "bit (drop_bit (LENGTH('a) - p) w) (n - (LENGTH('a) - p)) = bit (drop_bit (LENGTH('a) - p) v) (n - (LENGTH('a) - p))"
      using e by simp
    then show "bit (w AND netmask p) n = bit (v AND netmask p) n" by (auto simp: bit_simps bit_netmask)
  qed
qed

lemma and_netmask_idem: "(w AND netmask p) AND netmask p = w AND netmask p"
  by (simp add: and.assoc)

text \<open>An address is in the network built from another one exactly when the first bits of both,
  as many as the prefix is long, are the same.\<close>

lemma in_net_prefix:
  "in_net (V4 w) (Net (mask_host (V4 v) p) p) \<longleftrightarrow> drop_bit (32 - p) w = drop_bit (32 - p) v"
  "in_net (V6 x s) (Net (mask_host (V6 y t) p) p) \<longleftrightarrow> drop_bit (128 - p) x = drop_bit (128 - p) y"
proof -
  show "in_net (V4 w) (Net (mask_host (V4 v) p) p) \<longleftrightarrow> drop_bit (32 - p) w = drop_bit (32 - p) v"
    using and_netmask_eq[of w p v] by simp
  show "in_net (V6 x s) (Net (mask_host (V6 y t) p) p) \<longleftrightarrow> drop_bit (128 - p) x = drop_bit (128 - p) y"
    using and_netmask_eq[of x p y] by (cases "y AND netmask p = y") simp_all
qed

end
