(* ===== verification/Access_Control.thy ===== *)
theory Access_Control
  imports Addresses
begin

section \<open>Address-based access control (acl.py)\<close>

text \<open>
  The identity grammar that keys and addresses share (\<open>parse_identity_spec\<close> of \<^verbatim>\<open>identity.py\<close>) and
  \<^verbatim>\<open>IPIdentityMap\<close>: registrations of single hosts and of subnets, the built-in internal networks,
  the networks from which the admin plane may be reached, and the read-only narrowing. The map is
  a record; every method that changes it is a function to the changed record. The environment
  variables \<^verbatim>\<open>from_env\<close> reads are its arguments. Log lines are not modelled.
\<close>

subsection \<open>float() on a string\<close>

datatype pyfloat = Finite real | PosInf | NegInf | NotANumber

text \<open>Digits with single underscores between them; the result has the underscores removed.\<close>

fun strip_underscores :: "bool \<Rightarrow> string \<Rightarrow> string option" where
  "strip_underscores after_digit [] = (if after_digit then Some [] else None)"
| "strip_underscores after_digit (c # cs) =
     (if is_digit c then map_option ((#) c) (strip_underscores True cs)
      else if c = CHR ''_'' \<and> after_digit then strip_underscores False cs
      else None)"

definition digit_part :: "string \<Rightarrow> string option" where
  "digit_part s = strip_underscores False s"

definition opt_digit_part :: "string \<Rightarrow> string option" where
  "opt_digit_part s = (if s = [] then Some [] else digit_part s)"

definition split_sign :: "string \<Rightarrow> bool \<times> string" where
  "split_sign s = (case s of
      [] \<Rightarrow> (False, [])
    | c # cs \<Rightarrow> if c = CHR ''-'' then (True, cs) else if c = CHR ''+'' then (False, cs) else (False, c # cs))"

definition exponent_of :: "bool \<Rightarrow> string \<Rightarrow> int option" where
  "exponent_of has_e s =
     (if \<not> has_e then Some 0
      else case split_sign s of (neg, ds) \<Rightarrow>
        map_option (\<lambda>d. if neg then - int (digits_val d) else int (digits_val d)) (digit_part ds))"

definition scale10 :: "nat \<Rightarrow> int \<Rightarrow> real" where
  "scale10 m e = (if 0 \<le> e then real m * 10 ^ nat e else real m / 10 ^ nat (- e))"

definition py_float_text :: "string \<Rightarrow> pyfloat option" where
  "py_float_text s =
     (case split_sign (py_strip s) of
        (neg, body) \<Rightarrow>
          (let low = py_lower body in
           if low = ''inf'' \<or> low = ''infinity'' then Some (if neg then NegInf else PosInf)
           else if low = ''nan'' then Some NotANumber
           else case partition_at (CHR ''e'') low of
             (mant, has_e, ex) \<Rightarrow>
               (case partition_at (CHR ''.'') mant of
                  (ip, has_dot, fp) \<Rightarrow>
                    if ip = [] \<and> fp = [] then None
                    else case (opt_digit_part ip, opt_digit_part fp, exponent_of has_e ex) of
                      (Some i, Some f, Some e) \<Rightarrow>
                        (let v = scale10 (digits_val (i @ f)) (e - int (length f))
                         in Some (Finite (if neg then - v else v)))
                    | _ \<Rightarrow> None)))"

subsection \<open>The identity grammar\<close>

record identity_spec =
  is_agent_id :: string
  is_priority :: llm_priority
  is_min_timeout_s :: "pyfloat option"
  is_admin_flag :: bool
  is_readonly_flag :: bool
  is_priority_declared :: bool

definition spec_step :: "identity_spec \<Rightarrow> string \<Rightarrow> identity_spec" where
  "spec_step r segment =
     (if segment = [] then r
      else if py_lower segment = ''admin'' then r\<lparr>is_admin_flag := True\<rparr>
      else if py_lower segment = ''readonly'' then r\<lparr>is_readonly_flag := True\<rparr>
      else case py_float_text segment of
             Some x \<Rightarrow> r\<lparr>is_min_timeout_s := Some x\<rparr>
           | None \<Rightarrow>
               (case coerce (PJson (JStr segment)) None of
                  Inr p \<Rightarrow> r\<lparr>is_priority := p, is_priority_declared := True\<rparr>
                | Inl _ \<Rightarrow> r))"

definition parse_identity_spec :: "string \<Rightarrow> llm_priority \<Rightarrow> identity_spec" where
  "parse_identity_spec spec dflt =
     (let parts = map py_strip (split_on (CHR '':'') spec) in
      foldl spec_step
        \<lparr>is_agent_id = hd parts, is_priority = dflt, is_min_timeout_s = None, is_admin_flag = False,
         is_readonly_flag = False, is_priority_declared = False\<rparr>
        (tl parts))"

subsection \<open>The map\<close>

record registration =
  reg_agent_id :: string
  reg_priority :: llm_priority
  reg_min_timeout_s :: "pyfloat option"
  reg_priority_declared :: bool

record ip_identity_map =
  acl_exact :: "(string, registration) odict"
  acl_subnets :: "(ip_net \<times> registration) list"
  acl_admin_nets :: "ip_net list"
  acl_operator_admin_nets :: "ip_net list"
  acl_readonly_admin_nets :: "ip_net list"
  acl_reach_nets :: "ip_net list"

definition nets_of :: "string list \<Rightarrow> ip_net list" where
  "nets_of ss = concat (map (\<lambda>s. case ip_network s of Some n \<Rightarrow> [n] | None \<Rightarrow> []) ss)"

definition internal_nets :: "ip_net list" where
  "internal_nets = nets_of [''127.0.0.0/8'', ''172.16.0.0/12'', ''::1/128'']"

definition loopback_nets :: "ip_net list" where
  "loopback_nets = nets_of [''127.0.0.0/8'', ''::1/128'']"

definition docker_nets :: "ip_net list" where
  "docker_nets = nets_of [''172.16.0.0/12'']"

definition empty_acl :: ip_identity_map where
  "empty_acl =
     \<lparr>acl_exact = [], acl_subnets = [], acl_admin_nets = internal_nets, acl_operator_admin_nets = [],
      acl_readonly_admin_nets = [], acl_reach_nets = loopback_nets @ docker_nets\<rparr>"

definition rebuild_reach :: "ip_identity_map \<Rightarrow> ip_identity_map" where
  "rebuild_reach m =
     m\<lparr>acl_reach_nets := loopback_nets @
        (if acl_operator_admin_nets m \<noteq> []
         then filter (\<lambda>n. n \<notin> set loopback_nets) (acl_operator_admin_nets m)
         else docker_nets)\<rparr>"

definition acl_register ::
  "string \<Rightarrow> string \<Rightarrow> llm_priority \<Rightarrow> pyfloat option \<Rightarrow> bool \<Rightarrow> ip_identity_map \<Rightarrow> ip_identity_map" where
  "acl_register ip_or_subnet aid prio floor_s declared m =
     (let reg = \<lparr>reg_agent_id = aid, reg_priority = prio, reg_min_timeout_s = floor_s, reg_priority_declared = declared\<rparr>
      in case ip_network ip_or_subnet of
           None \<Rightarrow> m
         | Some net \<Rightarrow>
             if net_prefix net = max_prefixlen (net_addr net)
             then m\<lparr>acl_exact := od_put (str_ip (net_addr net)) reg (acl_exact m)\<rparr>
             else m\<lparr>acl_subnets := acl_subnets m @ [(net, reg)]\<rparr>)"

definition register_admin_net :: "string \<Rightarrow> bool \<Rightarrow> ip_identity_map \<Rightarrow> ip_identity_map" where
  "register_admin_net ip_or_subnet readonly m =
     (case ip_network ip_or_subnet of
        None \<Rightarrow> m
      | Some net \<Rightarrow>
          rebuild_reach (m\<lparr>acl_admin_nets := acl_admin_nets m @ [net],
                           acl_operator_admin_nets := acl_operator_admin_nets m @ [net],
                           acl_readonly_admin_nets := acl_readonly_admin_nets m @ (if readonly then [net] else [])\<rparr>))"

definition internal_registration :: registration where
  "internal_registration =
     \<lparr>reg_agent_id = ''internal'', reg_priority = P1_TURN_SUPPORT, reg_min_timeout_s = None, reg_priority_declared = False\<rparr>"

definition acl_lookup :: "ip_identity_map \<Rightarrow> string \<Rightarrow> registration option" where
  "acl_lookup m remote_ip =
     (case od_get (acl_exact m) remote_ip of
        Some reg \<Rightarrow> Some reg
      | None \<Rightarrow>
          (case ip_address remote_ip of
             None \<Rightarrow> None
           | Some addr \<Rightarrow>
               if in_any addr internal_nets then Some internal_registration
               else map_option snd (List.find (\<lambda>(net, reg). in_net addr net) (acl_subnets m))))"

definition address_identities :: "ip_identity_map \<Rightarrow> string set" where
  "address_identities m =
     {''internal''} \<union> reg_agent_id ` set (od_vals (acl_exact m)) \<union> reg_agent_id ` set (map snd (acl_subnets m))"

definition identify :: "ip_identity_map \<Rightarrow> string \<Rightarrow> (string \<times> llm_priority) option" where
  "identify m remote_ip = map_option (\<lambda>reg. (reg_agent_id reg, reg_priority reg)) (acl_lookup m remote_ip)"

definition acl_priority_declared :: "ip_identity_map \<Rightarrow> string \<Rightarrow> bool" where
  "acl_priority_declared m remote_ip =
     (case acl_lookup m remote_ip of None \<Rightarrow> False | Some reg \<Rightarrow> reg_priority_declared reg)"

definition acl_min_timeout_s :: "ip_identity_map \<Rightarrow> string \<Rightarrow> pyfloat option" where
  "acl_min_timeout_s m remote_ip =
     (case acl_lookup m remote_ip of None \<Rightarrow> None | Some reg \<Rightarrow> reg_min_timeout_s reg)"

definition is_allowed :: "ip_identity_map \<Rightarrow> string \<Rightarrow> bool" where
  "is_allowed m remote_ip = (identify m remote_ip \<noteq> None)"

definition is_internal :: "string \<Rightarrow> bool" where
  "is_internal remote_ip =
     (case ip_address remote_ip of None \<Rightarrow> False | Some addr \<Rightarrow> in_any addr internal_nets)"

definition may_reach_admin :: "ip_identity_map \<Rightarrow> string \<Rightarrow> bool \<Rightarrow> bool" where
  "may_reach_admin m remote_ip trust_builtin_nets =
     (case ip_address remote_ip of
        None \<Rightarrow> False
      | Some addr \<Rightarrow>
          in_any addr (if trust_builtin_nets then acl_reach_nets m else acl_operator_admin_nets m @ loopback_nets))"

definition acl_is_admin :: "ip_identity_map \<Rightarrow> string \<Rightarrow> bool \<Rightarrow> bool" where
  "acl_is_admin m remote_ip trust_builtin_nets =
     (case ip_address remote_ip of
        None \<Rightarrow> False
      | Some addr \<Rightarrow> in_any addr (if trust_builtin_nets then acl_admin_nets m else acl_operator_admin_nets m))"

definition is_admin_readonly :: "ip_identity_map \<Rightarrow> string \<Rightarrow> bool" where
  "is_admin_readonly m remote_ip =
     (case ip_address remote_ip of None \<Rightarrow> False | Some addr \<Rightarrow> in_any addr (acl_readonly_admin_nets m))"

subsection \<open>Loading\<close>

definition acl_entry :: "ip_identity_map \<Rightarrow> string \<Rightarrow> ip_identity_map" where
  "acl_entry m raw =
     (let entry = py_strip raw in
      if entry = [] \<or> CHR ''='' \<notin> set entry then m
      else case partition_at (CHR ''='') entry of
        (ip_part0, _, spec) \<Rightarrow>
          (let s = parse_identity_spec (py_strip spec) P3_INGESTION;
               ip_part = py_strip ip_part0;
               m1 = acl_register ip_part (is_agent_id s) (is_priority s) (is_min_timeout_s s) (is_priority_declared s) m
           in if is_admin_flag s then register_admin_net ip_part (is_readonly_flag s) m1 else m1))"

definition admin_net_entry :: "ip_identity_map \<Rightarrow> string \<Rightarrow> ip_identity_map" where
  "admin_net_entry m raw =
     (let net = py_strip raw in if net \<noteq> [] then register_admin_net net False m else m)"

definition acl_from_env :: "string \<Rightarrow> string \<Rightarrow> string \<Rightarrow> ip_identity_map" where
  "acl_from_env llm_proxy_acl roadstead_acl admin_nets =
     foldl admin_net_entry
       (foldl acl_entry (foldl acl_entry empty_acl (split_on (CHR '','') llm_proxy_acl)) (split_on (CHR '','') roadstead_acl))
       (split_on (CHR '','') admin_nets)"

subsection \<open>Lemmas: the grammar\<close>

text \<open>What a segment is read as, by its shape.\<close>

definition seg_floor :: "string \<Rightarrow> pyfloat option" where
  "seg_floor s = (if s = [] \<or> py_lower s = ''admin'' \<or> py_lower s = ''readonly'' then None else py_float_text s)"

definition seg_priority :: "string \<Rightarrow> llm_priority option" where
  "seg_priority s =
     (if s = [] \<or> py_lower s = ''admin'' \<or> py_lower s = ''readonly'' \<or> py_float_text s \<noteq> None then None
      else case coerce (PJson (JStr s)) None of Inr p \<Rightarrow> Some p | Inl _ \<Rightarrow> None)"

lemma spec_step_fields:
  "is_agent_id (spec_step r s) = is_agent_id r"
  "is_min_timeout_s (spec_step r s) = (case seg_floor s of None \<Rightarrow> is_min_timeout_s r | Some x \<Rightarrow> Some x)"
  "is_priority (spec_step r s) = (case seg_priority s of None \<Rightarrow> is_priority r | Some p \<Rightarrow> p)"
  "is_priority_declared (spec_step r s) \<longleftrightarrow> is_priority_declared r \<or> seg_priority s \<noteq> None"
  "is_admin_flag (spec_step r s) \<longleftrightarrow> is_admin_flag r \<or> py_lower s = ''admin''"
  "is_readonly_flag (spec_step r s) \<longleftrightarrow> is_readonly_flag r \<or> py_lower s = ''readonly''"
  by (auto simp: spec_step_def seg_floor_def seg_priority_def py_lower_def split: option.splits sum.splits)

lemma spec_fold_fields:
  "is_agent_id (foldl spec_step r ss) = is_agent_id r"
  "is_min_timeout_s (foldl spec_step r ss) =
     (case rev (List.map_filter seg_floor ss) of [] \<Rightarrow> is_min_timeout_s r | x # _ \<Rightarrow> Some x)"
  "is_priority (foldl spec_step r ss) =
     (case rev (List.map_filter seg_priority ss) of [] \<Rightarrow> is_priority r | p # _ \<Rightarrow> p)"
  "is_priority_declared (foldl spec_step r ss) \<longleftrightarrow>
     is_priority_declared r \<or> (\<exists>s \<in> set ss. seg_priority s \<noteq> None)"
  "is_admin_flag (foldl spec_step r ss) \<longleftrightarrow> is_admin_flag r \<or> ''admin'' \<in> py_lower ` set ss"
  "is_readonly_flag (foldl spec_step r ss) \<longleftrightarrow> is_readonly_flag r \<or> ''readonly'' \<in> py_lower ` set ss"
  by (induction ss arbitrary: r)
    (auto simp: spec_step_fields map_filter_simps split: option.splits list.splits)

text \<open>A list with at most one element that means something is read the same in every order.\<close>

lemma map_filter_mset: "mset xs = mset ys \<Longrightarrow> mset (List.map_filter f xs) = mset (List.map_filter f ys)"
  by (simp add: List.map_filter_def mset_filter)

lemma map_filter_perm:
  assumes "mset xs = mset ys" "length (List.map_filter f xs) \<le> 1"
  shows "List.map_filter f ys = List.map_filter f xs"
proof -
  note m = map_filter_mset[OF assms(1), of f]
  show ?thesis
  proof (cases "List.map_filter f xs")
    case Nil
    with m show ?thesis by simp
  next
    case (Cons a as)
    with assms(2) m have "mset (List.map_filter f ys) = {#a#}" by simp
    then have "List.map_filter f ys = [a]" by simp
    with Cons assms(2) show ?thesis by simp
  qed
qed

text \<open>The segments of an identity are recognised by shape, not by position. As long as no two of
  them are deadline floors and no two are priorities, writing them in another order gives the same
  identity.\<close>

lemma spec_order_irrelevant:
  assumes "mset segs = mset segs'" "\<forall>s \<in> set (aid # segs). CHR '':'' \<notin> set s"
    and "length (List.map_filter (seg_floor \<circ> py_strip) segs) \<le> 1"
    and "length (List.map_filter (seg_priority \<circ> py_strip) segs) \<le> 1"
  shows "parse_identity_spec (join '':'' (aid # segs)) p = parse_identity_spec (join '':'' (aid # segs')) p"
proof -
  have set: "set segs' = set segs" using assms(1) by (metis set_mset_mset)
  have sp: "split_on (CHR '':'') (join '':'' (aid # segs)) = aid # segs"
    "split_on (CHR '':'') (join '':'' (aid # segs')) = aid # segs'"
    by (rule split_on_join; use assms(2) set in simp)+
  have mf: "List.map_filter f (map py_strip ss) = List.map_filter (f \<circ> py_strip) ss" for f :: "string \<Rightarrow> 'a option" and ss
    by (induction ss) (auto simp: map_filter_simps split: option.splits)
  have fl: "List.map_filter seg_floor (map py_strip segs') = List.map_filter seg_floor (map py_strip segs)"
    unfolding mf by (rule map_filter_perm[OF assms(1,3)])
  have pr: "List.map_filter seg_priority (map py_strip segs') = List.map_filter seg_priority (map py_strip segs)"
    unfolding mf by (rule map_filter_perm[OF assms(1,4)])
  show ?thesis
    unfolding parse_identity_spec_def Let_def sp
    by (rule identity_spec.equality) (simp_all add: spec_fold_fields fl pr set)
qed

lemma spec_order_irrelevant_witness:
  "parse_identity_spec ''ops:admin:30:turn'' P3_INGESTION = parse_identity_spec ''ops:turn:30:admin'' P3_INGESTION"
proof -
  have s: "List.map_filter (seg_floor \<circ> py_strip) [''admin'', ''30'', ''turn''] = [Finite 30]"
    "List.map_filter (seg_priority \<circ> py_strip) [''admin'', ''30'', ''turn''] = [P1_TURN_SUPPORT]" by code_simp+
  show ?thesis
    using spec_order_irrelevant[of "[''admin'', ''30'', ''turn'']" "[''turn'', ''30'', ''admin'']" "''ops''" P3_INGESTION] s
    by simp
qed

subsection \<open>Lemmas: registrations\<close>

datatype acl_event = AclRegister string string llm_priority "pyfloat option" bool | AclAdminNet string bool

fun acl_step :: "ip_identity_map \<Rightarrow> acl_event \<Rightarrow> ip_identity_map" where
  "acl_step m (AclRegister net aid p fl d) = acl_register net aid p fl d m"
| "acl_step m (AclAdminNet net ro) = register_admin_net net ro m"

lemma wf_mask_host: "wf_addr a \<Longrightarrow> wf_addr (mask_host a p)"
  by (cases a; cases "case a of V6 _ s \<Rightarrow> s | _ \<Rightarrow> None") auto

lemma ipv_address_wf: "ipv4_address s = Some a \<Longrightarrow> wf_addr a" "ipv6_address s = Some a \<Longrightarrow> wf_addr a"
  by (auto simp: ipv4_address_def ipv6_address_def split_scope_def partition_at_def
      split: option.splits if_splits dest!: in_set_dropD set_dropWhileD)

lemma ip_network_wf: "ip_network s = Some n \<Longrightarrow> wf_addr (net_addr n)"
  by (auto simp: ip_network_def build_net_def split: option.splits prod.splits dest!: ipv_address_wf intro: wf_mask_host)

text \<open>What every sequence of registrations keeps: the reach set is derived from the operator's
  networks, and a read-only grant is always also an admin grant.\<close>

definition acl_ok :: "ip_identity_map \<Rightarrow> bool" where
  "acl_ok m \<longleftrightarrow> acl_reach_nets m = acl_reach_nets (rebuild_reach m) \<and> acl_admin_nets m = internal_nets @ acl_operator_admin_nets m \<and>
     set (acl_readonly_admin_nets m) \<subseteq> set (acl_operator_admin_nets m)"

lemma acl_step_ok [step_keeps]: "acl_ok m \<Longrightarrow> acl_ok (acl_step m e)"
  by (cases e) (auto simp: acl_ok_def acl_register_def register_admin_net_def rebuild_reach_def Let_def split: option.splits)

interpretation acl_runs: event_system acl_step acl_ok "\<lambda>_. True"
  by unfold_locales (rule acl_step_ok)

lemma acl_reachable_ok: "acl_ok (foldl acl_step empty_acl es)"
  by (rule acl_runs.run_ok) (simp_all add: acl_ok_def empty_acl_def rebuild_reach_def list_all_iff)

lemma in_any_append: "in_any a (xs @ ys) \<longleftrightarrow> in_any a xs \<or> in_any a ys"
  by (auto simp: in_any_def list_ex_iff)

lemma in_any_reach:
  assumes "acl_ok m"
  shows "in_any a (acl_reach_nets m) \<longleftrightarrow> in_any a loopback_nets \<or> in_any a (acl_operator_admin_nets m) \<or>
           acl_operator_admin_nets m = [] \<and> in_any a docker_nets"
proof -
  have r: "acl_reach_nets m = acl_reach_nets (rebuild_reach m)" using assms by (simp add: acl_ok_def)
  show ?thesis unfolding r by (auto simp: rebuild_reach_def in_any_append) (auto simp: in_any_def list_ex_iff)
qed

text \<open>Who may reach the admin plane. After any sequence of registrations, an address may reach it
  exactly when it is loopback, or in a network the operator named, or, on a connection the
  transport vouches for and while the operator has named none, in the container network. So
  loopback can never be configured out, and naming one network drops the container default.\<close>

lemma reach_exactly:
  "may_reach_admin (foldl acl_step empty_acl es) ip trusted \<longleftrightarrow>
     (\<exists>a. ip_address ip = Some a \<and>
        (in_any a loopback_nets \<or> in_any a (acl_operator_admin_nets (foldl acl_step empty_acl es)) \<or>
         trusted \<and> acl_operator_admin_nets (foldl acl_step empty_acl es) = [] \<and> in_any a docker_nets))"
  by (auto simp: may_reach_admin_def in_any_append in_any_reach[OF acl_reachable_ok] split: option.splits)

text \<open>A read-only narrowing never stands alone: whoever matches it has an admin grant, which also
  holds for a forwarded address.\<close>

lemma readonly_is_admin:
  "is_admin_readonly (foldl acl_step empty_acl es) ip \<Longrightarrow> acl_is_admin (foldl acl_step empty_acl es) ip trusted"
  using acl_reachable_ok[of es]
  by (auto simp: is_admin_readonly_def acl_is_admin_def acl_ok_def in_any_append split: option.splits)
     (auto simp: in_any_def list_ex_iff)

text \<open>A host registration is for one host. Registering the text of a single address, however it
  is spelled, changes the answer for that address (asked for by the text Python prints for it) and
  for no other address.\<close>

lemma host_registration_exact:
  assumes "ip_network t = Some n" "net_prefix n = max_prefixlen (net_addr n)" "wf_addr b"
  shows "acl_lookup (acl_register t aid p fl d m) (str_ip b) =
           (if b = net_addr n
            then Some \<lparr>reg_agent_id = aid, reg_priority = p, reg_min_timeout_s = fl, reg_priority_declared = d\<rparr>
            else acl_lookup m (str_ip b))"
proof -
  have "str_ip b = str_ip (net_addr n) \<longleftrightarrow> b = net_addr n"
    using assms(3) ip_network_wf[OF assms(1)] by (rule str_ip_inject)
  then show ?thesis using assms(1,2)
    by (cases "b = net_addr n") (simp_all add: acl_lookup_def acl_register_def split: option.split)
qed

lemma host_registration_exact_witness:
  "acl_lookup (acl_register ''2001:0db8:0:0::1'' ''ops'' P3_INGESTION None False empty_acl) ''2001:db8::1'' =
     Some \<lparr>reg_agent_id = ''ops'', reg_priority = P3_INGESTION, reg_min_timeout_s = None, reg_priority_declared = False\<rparr>"
proof -
  let ?a = "V6 42540766411282592856903984951653826561 None"
  have n: "ip_network ''2001:0db8:0:0::1'' = Some (Net ?a 128)" "str_ip ?a = ''2001:db8::1''" by code_simp+
  show ?thesis using host_registration_exact[OF n(1), of ?a] n(2) by simp
qed

text \<open>Of the subnets that contain an address the first registered one answers. The two lists of
  \<^verbatim>\<open>from_env\<close> are read in order, so for a subnet the older spelling wins a collision, whereas for
  a host the newer one does.\<close>

lemma first_subnet_wins:
  "identify (acl_from_env ''10.0.0.0/8=old'' ''10.0.0.0/8=new'' '''') ''10.1.2.3'' = Some (''old'', P3_INGESTION)"
  "identify (acl_from_env ''10.1.2.3=old'' ''10.1.2.3=new'' '''') ''10.1.2.3'' = Some (''new'', P3_INGESTION)"
  by code_simp+

end
