(* ===== verification/Identity.thy ===== *)
theory Identity
  imports Access_Control
begin

section \<open>Caller identity (identity.py)\<close>

text \<open>
  \<^verbatim>\<open>KeyRegistry\<close>, \<^verbatim>\<open>BearerPlaceholders\<close>, \<^verbatim>\<open>TrustedProxies\<close> and \<^verbatim>\<open>IdentityResolver\<close>: who a request is
  from, and what it may do on the admin plane. The hash function, the clock (\<open>now\<close>) and the UTC
  date (\<open>today\<close>) are arguments. A request is the part of it the module reads: its \<^verbatim>\<open>headers.get\<close>,
  the host of its peer, its method, and the marker \<^verbatim>\<open>_NOTED_ATTR\<close> that the module sets on it. The
  wording of a denial is not modelled; the constructor of \<open>denial_why\<close> says which of the messages
  it carries. Resolving counts the placeholder bearers it meets, so the operations return the
  resolver and the request they leave behind.
\<close>

subsection \<open>Principals and denials\<close>

record principal =
  p_agent_id :: string
  p_priority :: llm_priority
  p_priority_declared :: bool
  p_min_timeout_s :: "pyfloat option"
  p_admin :: bool
  p_admin_readonly :: bool
  p_calls_push :: bool
  p_source :: string
  p_key_id :: "string option"
  p_may_assert :: "string set"

definition authenticated :: "principal \<Rightarrow> bool" where
  "authenticated p = (p_source p = ''api_key'')"

definition may_admin_write :: "principal \<Rightarrow> bool" where
  "may_admin_write p = (p_admin p \<and> \<not> p_admin_readonly p)"

definition address_in_any :: "string \<Rightarrow> string list \<Rightarrow> bool" where
  "address_in_any ip cidrs =
     (case ip_address ip of
        None \<Rightarrow> False
      | Some addr \<Rightarrow> list_ex (\<lambda>raw. case ip_network raw of None \<Rightarrow> False | Some net \<Rightarrow> in_net addr net) cidrs)"

definition safe_methods :: "string set" where
  "safe_methods = set [''GET'', ''HEAD'', ''OPTIONS'']"

datatype denial_why =
    ExpiredKey | UnknownKey | KeyRequired | BoundElsewhere | AddressDenied
  | NotAdmin | ReadOnlyScope | NetworkRefused | IngestOnly
  | WrongMediaType | CrossSite | CsrfHeaderMissing | MayNotAssert

record denial =
  dn_code :: string
  dn_status :: int
  dn_why :: denial_why

definition deny :: "string \<Rightarrow> int \<Rightarrow> denial_why \<Rightarrow> denial" where
  "deny c s w = \<lparr>dn_code = c, dn_status = s, dn_why = w\<rparr>"

definition openai_type :: "denial \<Rightarrow> string" where
  "openai_type d = (if dn_code d = ''access_denied'' then ''access_denied'' else ''invalid_request_error'')"

text \<open>\<^verbatim>\<open>Resolution\<close>: exactly one half is set.\<close>

datatype id_resolution = Granted principal | Denied denial

subsection \<open>The key registry\<close>

record credential =
  cr_source :: string
  cr_created_at :: "real option"
  cr_expires_at :: "real option"
  cr_bind :: "string list"

record key_registry =
  by_digest :: "(string, principal) odict"
  kr_credential :: "(string, credential) odict"
  kr_bootstrap :: "string set"

definition empty_registry :: key_registry where
  "empty_registry = \<lparr>by_digest = [], kr_credential = [], kr_bootstrap = {}\<rparr>"

text \<open>\<^verbatim>\<open>self._credential.get(d, {})\<close>, read with the defaults its readers use.\<close>

definition cred_of :: "key_registry \<Rightarrow> string \<Rightarrow> credential" where
  "cred_of reg d = od_get_or \<lparr>cr_source = ''file'', cr_created_at = None, cr_expires_at = None, cr_bind = []\<rparr> (kr_credential reg) d"

definition is_bootstrap :: "(string \<Rightarrow> string) \<Rightarrow> key_registry \<Rightarrow> string \<Rightarrow> bool" where
  "is_bootstrap sha reg secret = (sha secret \<in> kr_bootstrap reg)"

definition configured :: "key_registry \<Rightarrow> bool" where
  "configured reg = list_ex (\<lambda>d. d \<notin> kr_bootstrap reg) (od_keys (by_digest reg))"

text \<open>The arguments of \<^verbatim>\<open>register\<close>.\<close>

record key_entry =
  ke_agent_id :: string
  ke_secret :: "string option"
  ke_sha256 :: "string option"
  ke_priority :: llm_priority
  ke_priority_declared :: bool
  ke_min_timeout_s :: "pyfloat option"
  ke_admin :: bool
  ke_admin_readonly :: bool
  ke_calls_push :: bool
  ke_expires_at :: "real option"
  ke_bind :: "string list"
  ke_may_assert :: "string list"
  ke_key_id :: "string option"
  ke_source :: string
  ke_bootstrap :: bool

definition given :: "string option \<Rightarrow> bool" where
  "given s = (s \<noteq> None \<and> s \<noteq> Some [])"

definition hex_digest_ok :: "string \<Rightarrow> bool" where
  "hex_digest_ok d = (length d = 64 \<and> list_all (\<lambda>c. c \<in> set ''0123456789abcdef'') d)"

text \<open>The digest an entry names, if it names exactly one. A secret that is given wins, and so does
  one that is the empty string.\<close>

definition entry_digest :: "(string \<Rightarrow> string) \<Rightarrow> key_entry \<Rightarrow> string option" where
  "entry_digest sha e =
     (if given (ke_secret e) = given (ke_sha256 e) then None
      else case ke_secret e of
             Some s \<Rightarrow> Some (sha s)
           | None \<Rightarrow>
               (let d = py_lower (py_strip (the (ke_sha256 e))) in if hex_digest_ok d then Some d else None))"

definition key_label :: "key_entry \<Rightarrow> string \<Rightarrow> string" where
  "key_label e digest = (case ke_key_id e of Some k \<Rightarrow> (if k \<noteq> [] then k else take 8 digest) | None \<Rightarrow> take 8 digest)"

definition entry_principal :: "key_entry \<Rightarrow> string \<Rightarrow> principal" where
  "entry_principal e digest =
     \<lparr>p_agent_id = ke_agent_id e, p_priority = ke_priority e, p_priority_declared = ke_priority_declared e,
      p_min_timeout_s = ke_min_timeout_s e, p_admin = ke_admin e, p_admin_readonly = ke_admin_readonly e,
      p_calls_push = ke_calls_push e, p_source = ''api_key'', p_key_id = Some (key_label e digest),
      p_may_assert = set (filter (\<lambda>n. n \<noteq> []) (map py_strip (ke_may_assert e)))\<rparr>"

definition kr_register :: "(string \<Rightarrow> string) \<Rightarrow> real \<Rightarrow> key_entry \<Rightarrow> key_registry \<Rightarrow> key_registry \<times> string option" where
  "kr_register sha now e reg =
     (case entry_digest sha e of
        None \<Rightarrow> (reg, None)
      | Some digest \<Rightarrow>
          if ke_agent_id e = [] then (reg, None)
          else if ke_calls_push e \<and> ke_admin e then (reg, None)
          else if digest \<in> fst ` set (by_digest reg) then (reg, None)
          else (reg\<lparr>by_digest := od_put digest (entry_principal e digest) (by_digest reg),
                    kr_bootstrap := (if ke_bootstrap e then insert digest (kr_bootstrap reg) else kr_bootstrap reg),
                    kr_credential := od_put digest
                      \<lparr>cr_source = ke_source e, cr_created_at = Some now, cr_expires_at = ke_expires_at e, cr_bind = ke_bind e\<rparr>
                      (kr_credential reg)\<rparr>,
                Some (key_label e digest)))"

text \<open>The first digest under a label, in the order of registration.\<close>

definition digest_of_label :: "key_registry \<Rightarrow> string \<Rightarrow> string option" where
  "digest_of_label reg k = map_option fst (List.find (\<lambda>(d, p). p_key_id p = Some k) (by_digest reg))"

definition kr_revoke :: "string \<Rightarrow> key_registry \<Rightarrow> key_registry \<times> bool" where
  "kr_revoke k reg =
     (case digest_of_label reg k of
        None \<Rightarrow> (reg, False)
      | Some d \<Rightarrow> (reg\<lparr>by_digest := od_del d (by_digest reg), kr_credential := od_del d (kr_credential reg)\<rparr>, True))"

definition kr_is_expired :: "key_registry \<Rightarrow> string \<Rightarrow> real \<Rightarrow> bool" where
  "kr_is_expired reg d now = (case cr_expires_at (cred_of reg d) of None \<Rightarrow> False | Some t \<Rightarrow> now \<ge> t)"

definition kr_binding :: "key_registry \<Rightarrow> string \<Rightarrow> string list" where
  "kr_binding reg k = (case digest_of_label reg k of None \<Rightarrow> [] | Some d \<Rightarrow> cr_bind (cred_of reg d))"

record key_lookup =
  kl_principal :: "principal option"
  kl_expired_at :: "real option"
  kl_key_id :: "string option"
  kl_bind :: "string list"

definition no_lookup :: key_lookup where
  "no_lookup = \<lparr>kl_principal = None, kl_expired_at = None, kl_key_id = None, kl_bind = []\<rparr>"

definition kr_lookup :: "(string \<Rightarrow> string) \<Rightarrow> real \<Rightarrow> key_registry \<Rightarrow> string \<Rightarrow> key_lookup" where
  "kr_lookup sha now reg presented =
     (if presented = [] then no_lookup
      else let d = sha presented in
        case od_get (by_digest reg) d of
          None \<Rightarrow> no_lookup
        | Some p \<Rightarrow>
            if kr_is_expired reg d now
            then no_lookup\<lparr>kl_expired_at := cr_expires_at (cred_of reg d), kl_key_id := p_key_id p\<rparr>
            else no_lookup\<lparr>kl_principal := Some p, kl_key_id := p_key_id p, kl_bind := cr_bind (cred_of reg d)\<rparr>)"

definition kr_set_expiry :: "string \<Rightarrow> real option \<Rightarrow> key_registry \<Rightarrow> key_registry \<times> bool" where
  "kr_set_expiry k t reg =
     (case digest_of_label reg k of
        None \<Rightarrow> (reg, False)
      | Some d \<Rightarrow> (reg\<lparr>kr_credential := od_put d ((cred_of reg d)\<lparr>cr_expires_at := t\<rparr>) (kr_credential reg)\<rparr>, True))"

text \<open>Loading from \<^verbatim>\<open>ROADSTEAD_API_KEYS\<close>.\<close>

definition env_key_entry :: "string \<Rightarrow> identity_spec \<Rightarrow> key_entry" where
  "env_key_entry secret s =
     \<lparr>ke_agent_id = is_agent_id s, ke_secret = Some secret, ke_sha256 = None, ke_priority = is_priority s,
      ke_priority_declared = is_priority_declared s, ke_min_timeout_s = is_min_timeout_s s,
      ke_admin = is_admin_flag s, ke_admin_readonly = is_readonly_flag s, ke_calls_push = False,
      ke_expires_at = None, ke_bind = [], ke_may_assert = [], ke_key_id = None, ke_source = ''env'', ke_bootstrap = False\<rparr>"

definition kr_load_env_entry :: "(string \<Rightarrow> string) \<Rightarrow> real \<Rightarrow> key_registry \<Rightarrow> string \<Rightarrow> key_registry" where
  "kr_load_env_entry sha now reg raw =
     (let entry = py_strip raw in
      if entry = [] \<or> CHR ''='' \<notin> set entry then reg
      else case partition_at (CHR ''='') entry of
        (secret, _, spec) \<Rightarrow>
          fst (kr_register sha now (env_key_entry (py_strip secret) (parse_identity_spec (py_strip spec) P3_INGESTION)) reg))"

definition kr_load_env :: "(string \<Rightarrow> string) \<Rightarrow> real \<Rightarrow> string \<Rightarrow> key_registry \<Rightarrow> key_registry" where
  "kr_load_env sha now raw reg = foldl (kr_load_env_entry sha now) reg (split_on (CHR '','') raw)"

subsection \<open>Lemmas: the registry over time\<close>

text \<open>What every principal of a registry satisfies: it came from a key, it is labelled, it names a
  caller, and the ingest scope never stands beside the admin scope.\<close>

definition principal_ok :: "principal \<Rightarrow> bool" where
  "principal_ok p \<longleftrightarrow> authenticated p \<and> p_key_id p \<noteq> None \<and> p_agent_id p \<noteq> [] \<and> \<not> (p_admin p \<and> p_calls_push p)"

definition registry_ok :: "key_registry \<Rightarrow> bool" where
  "registry_ok reg \<longleftrightarrow> od_ok (by_digest reg) \<and> od_keys (kr_credential reg) = od_keys (by_digest reg) \<and>
     list_all principal_ok (od_vals (by_digest reg))"

datatype key_event = KRegister key_entry real | KRevoke string | KExpire string "real option"

fun key_step :: "(string \<Rightarrow> string) \<Rightarrow> key_registry \<Rightarrow> key_event \<Rightarrow> key_registry" where
  "key_step sha reg (KRegister e now) = fst (kr_register sha now e reg)"
| "key_step sha reg (KRevoke k) = fst (kr_revoke k reg)"
| "key_step sha reg (KExpire k t) = fst (kr_set_expiry k t reg)"

lemma od_keys_del: "od_keys d = od_keys e \<Longrightarrow> od_keys (od_del k d) = od_keys (od_del k e)"
proof (induction d arbitrary: e)
  case (Cons p d)
  then obtain q e' where "e = q # e'" "fst q = fst p" "od_keys d = od_keys e'" by (cases e) auto
  with Cons.IH[of e'] show ?case by (cases p; cases q) auto
qed auto

lemma digest_of_label_in:
  assumes "digest_of_label reg k = Some d" shows "\<exists>p. (d, p) \<in> set (by_digest reg) \<and> p_key_id p = Some k"
  using assms by (auto simp: digest_of_label_def find_Some_iff) (metis nth_mem)

lemma kr_register_cases:
  obtains "kr_register sha now e reg = (reg, None)"
  | d where "entry_digest sha e = Some d" "d \<notin> fst ` set (by_digest reg)" "ke_agent_id e \<noteq> []" "\<not> (ke_calls_push e \<and> ke_admin e)"
    "by_digest (fst (kr_register sha now e reg)) = by_digest reg @ [(d, entry_principal e d)]"
    "snd (kr_register sha now e reg) = Some (key_label e d)"
    "od_keys (kr_credential (fst (kr_register sha now e reg))) =
       (if d \<in> set (od_keys (kr_credential reg)) then od_keys (kr_credential reg) else od_keys (kr_credential reg) @ [d])"
proof (cases "entry_digest sha e")
  case None
  then show ?thesis using that(1) by (simp add: kr_register_def)
next
  case (Some d)
  show ?thesis
  proof (cases "ke_agent_id e = [] \<or> ke_calls_push e \<and> ke_admin e \<or> d \<in> fst ` set (by_digest reg)")
    case True
    then have "kr_register sha now e reg = (reg, None)" using Some by (auto simp: kr_register_def)
    then show ?thesis by (rule that(1))
  next
    case False
    then show ?thesis
      by (intro that(2)[OF Some]) (auto simp: kr_register_def Some keys_put_new map_keys_put_old)
  qed
qed

lemma entry_principal_ok:
  "ke_agent_id e \<noteq> [] \<Longrightarrow> \<not> (ke_calls_push e \<and> ke_admin e) \<Longrightarrow> principal_ok (entry_principal e d)"
  by (auto simp: principal_ok_def entry_principal_def authenticated_def)

lemma register_ok [step_keeps]: "registry_ok reg \<Longrightarrow> registry_ok (fst (kr_register sha now e reg))"
proof (cases rule: kr_register_cases[of sha now e reg])
  case (2 d)
  assume ok: "registry_ok reg"
  then have "d \<notin> set (od_keys (kr_credential reg))" using 2(2) by (simp add: registry_ok_def)
  then show ?thesis using ok 2 by (simp add: registry_ok_def entry_principal_ok)
qed simp

lemma revoke_ok [step_keeps]: "registry_ok reg \<Longrightarrow> registry_ok (fst (kr_revoke k reg))"
proof (cases "digest_of_label reg k")
  case (Some d)
  assume ok: "registry_ok reg"
  then have "list_all principal_ok (od_vals (od_del d (by_digest reg)))"
    using set_od_del[of d "by_digest reg"] by (auto simp: registry_ok_def list_all_iff)
  then show ?thesis using ok Some od_keys_del[of "kr_credential reg" "by_digest reg" d]
    by (simp add: kr_revoke_def registry_ok_def)
qed (simp add: kr_revoke_def)

lemma expiry_ok [step_keeps]: "registry_ok reg \<Longrightarrow> registry_ok (fst (kr_set_expiry k t reg))"
proof (cases "digest_of_label reg k")
  case (Some d)
  assume ok: "registry_ok reg"
  from digest_of_label_in[OF Some] have "d \<in> set (od_keys (by_digest reg))" by force
  with ok have "d \<in> fst ` set (kr_credential reg)" by (metis registry_ok_def list.set_map)
  with ok Some show ?thesis by (simp add: kr_set_expiry_def registry_ok_def map_keys_put_old)
qed (simp add: kr_set_expiry_def)

lemma key_step_ok: "registry_ok reg \<Longrightarrow> registry_ok (key_step sha reg e)"
  by (cases e) (simp_all add: step_keeps)

interpretation key_runs: event_system "key_step sha" registry_ok "\<lambda>_. True" for sha
  by unfold_locales (rule key_step_ok)

lemma registry_reachable_ok: "registry_ok (foldl (key_step sha) empty_registry es)"
  by (rule key_runs.run_ok) (simp_all add: registry_ok_def empty_registry_def list_all_iff)

lemma registry_principal_ok: "registry_ok reg \<Longrightarrow> od_get (by_digest reg) d = Some p \<Longrightarrow> principal_ok p"
  by (auto simp: registry_ok_def list_all_iff dest!: od_get_Some_in)

text \<open>A step that does not revoke the label of a key leaves its identity as it is.\<close>

lemma key_step_stable:
  assumes "registry_ok reg" "od_get (by_digest reg) d = Some p" "\<forall>k. ev = KRevoke k \<longrightarrow> p_key_id p \<noteq> Some k"
  shows "od_get (by_digest (key_step sha reg ev)) d = Some p"
proof (cases ev)
  case (KRegister e now)
  then show ?thesis using assms(2) by (cases rule: kr_register_cases[of sha now e reg]) (simp_all add: map_add_def)
next
  case (KRevoke k)
  show ?thesis
  proof (cases "digest_of_label reg k")
    case (Some d')
    then obtain q where q: "(d', q) \<in> set (by_digest reg)" "p_key_id q = Some k" using digest_of_label_in by blast
    then have "od_get (by_digest reg) d' = Some q" using assms(1) by (simp add: registry_ok_def)
    then have "d' \<noteq> d" using assms(2,3) q(2) KRevoke by auto
    then show ?thesis using assms(2) KRevoke Some by (simp add: kr_revoke_def)
  qed (use assms(2) KRevoke in \<open>simp add: kr_revoke_def\<close>)
next
  case (KExpire k t)
  then show ?thesis using assms(2) by (simp add: kr_set_expiry_def split: option.split)
qed

text \<open>A credential keeps its meaning. From any reachable registry, through any sequence of
  registrations, expiry changes and revocations of other labels, a key that is registered keeps the
  identity it was registered with: a second registration of the same digest never replaces it.\<close>

lemma registration_is_stable:
  assumes "od_get (by_digest (foldl (key_step sha) empty_registry es0)) d = Some p"
    and "\<forall>k. KRevoke k \<in> set es \<longrightarrow> p_key_id p \<noteq> Some k"
  shows "od_get (by_digest (foldl (key_step sha) empty_registry (es0 @ es))) d = Some p"
  using assms(2)
proof (induction es rule: rev_induct)
  case Nil
  then show ?case using assms(1) by simp
next
  case (snoc e es)
  have "od_get (by_digest (foldl (key_step sha) empty_registry (es0 @ es))) d = Some p"
    using snoc by simp
  from key_step_stable[OF registry_reachable_ok this, of e sha] snoc.prems show ?case by simp
qed

definition demo_key :: "string \<Rightarrow> string \<Rightarrow> key_entry" where
  "demo_key secret aid =
     \<lparr>ke_agent_id = aid, ke_secret = Some secret, ke_sha256 = None, ke_priority = P3_INGESTION, ke_priority_declared = False,
      ke_min_timeout_s = None, ke_admin = False, ke_admin_readonly = False, ke_calls_push = False, ke_expires_at = None,
      ke_bind = [], ke_may_assert = [], ke_key_id = None, ke_source = ''file'', ke_bootstrap = False\<rparr>"

lemma registration_is_stable_witness:
  "od_get (by_digest (foldl (key_step id) empty_registry
     ([KRegister (demo_key ''s1'' ''chat'') 0] @ [KRegister (demo_key ''s1'' ''evil'') 1, KRevoke ''s2'']))) ''s1'' =
     Some (entry_principal (demo_key ''s1'' ''chat'') ''s1'')"
  by (rule registration_is_stable) (code_simp, simp add: entry_principal_def key_label_def demo_key_def)

text \<open>Revoking works at once, whatever the source of the key. When no two keys carry the label,
  no secret resolves to an identity with that label afterwards, at any time.\<close>

lemma revoked_label_never_resolves:
  assumes "\<forall>d d' p p'. (d, p) \<in> set (by_digest reg) \<and> (d', p') \<in> set (by_digest reg) \<and>
             p_key_id p = Some k \<and> p_key_id p' = Some k \<longrightarrow> d = d'"
    and "od_ok (by_digest reg)"
  shows "map_option p_key_id (kl_principal (kr_lookup sha now (fst (kr_revoke k reg)) secret)) \<noteq> Some (Some k)"
proof
  assume "map_option p_key_id (kl_principal (kr_lookup sha now (fst (kr_revoke k reg)) secret)) = Some (Some k)"
  then obtain p where p: "kl_principal (kr_lookup sha now (fst (kr_revoke k reg)) secret) = Some p" and k: "p_key_id p = Some k"
    by auto
  from p have g: "od_get (by_digest (fst (kr_revoke k reg))) (sha secret) = Some p"
    by (auto simp: kr_lookup_def no_lookup_def Let_def split: if_splits option.splits)
  have sub: "(sha secret, p) \<in> set (by_digest reg)"
    using od_get_Some_in[OF g] set_od_del[of _ "by_digest reg"]
    by (auto simp: kr_revoke_def split: option.splits)
  show False
  proof (cases "digest_of_label reg k")
    case None
    then show ?thesis using sub k by (auto simp: digest_of_label_def find_None_iff)
  next
    case (Some d)
    then obtain q where "(d, q) \<in> set (by_digest reg)" "p_key_id q = Some k" using digest_of_label_in by blast
    with assms(1) sub k have "sha secret = d" by blast
    with g Some show ?thesis by (simp add: kr_revoke_def)
  qed
qed

lemma revoked_label_never_resolves_witness:
  "map_option p_key_id (kl_principal (kr_lookup id 5
      (fst (kr_revoke ''s1'' (key_step id empty_registry (KRegister (demo_key ''s1'' ''chat'') 0)))) ''s1'')) \<noteq> Some (Some ''s1'')"
proof -
  let ?reg = "key_step id empty_registry (KRegister (demo_key ''s1'' ''chat'') 0)"
  have r: "by_digest ?reg = [(''s1'', entry_principal (demo_key ''s1'' ''chat'') ''s1'')]"
    by (simp add: kr_register_def entry_digest_def given_def demo_key_def empty_registry_def)
  show ?thesis by (rule revoked_label_never_resolves) (unfold r, simp_all)
qed

text \<open>Labels are not checked for uniqueness: of two keys enrolled under one label, revoking the
  label removes the first and the second goes on working.\<close>

lemma duplicate_label_survives_revocation:
  "kl_key_id (kr_lookup id 5
     (fst (kr_revoke ''ops''
        (fst (kr_register id 1 ((demo_key ''second'' ''chat'')\<lparr>ke_key_id := Some ''ops''\<rparr>)
          (fst (kr_register id 0 ((demo_key ''first'' ''chat'')\<lparr>ke_key_id := Some ''ops''\<rparr>) empty_registry)))))) ''second'')
     = Some ''ops''"
  by code_simp

text \<open>An empty secret beside a digest is hashed instead of the digest being used: the key that was
  meant is not registered.\<close>

lemma empty_secret_shadows_digest:
  "given (ke_sha256 e) \<Longrightarrow> ke_secret e = Some [] \<Longrightarrow> entry_digest sha e = Some (sha [])"
  by (simp add: entry_digest_def given_def)

end
