(* ===== verification/Key_Admin.thy ===== *)
theory Key_Admin
  imports Identity "HOL-Library.List_Lexorder" "HOL-Library.Product_Lexorder" "HOL-Library.Char_ord"
begin

section \<open>Managing credentials at run time (management.py)\<close>

text \<open>
  The credential half of the management plane: validation of the bodies of an enrolment and of a
  rotation, the three handlers that enrol, revoke and rotate a key, and the part of \<^verbatim>\<open>AdminOverlay\<close>
  that remembers them across a restart (\<open>ov_keys\<close>, \<open>ov_revoked\<close>, \<open>ov_retired\<close>, with \<open>overlay_apply\<close>
  the replay at startup). A handler takes the registry and the overlay and returns them changed,
  together with its outcome. The random part of a generated secret, the hash function and the clock
  are arguments. The gate in front of the handlers is \<open>admin_denial\<close> of \<open>Resolver\<close>; audit records,
  warnings and the file itself are not modelled.
\<close>

subsection \<open>The write boundary\<close>

text \<open>\<^verbatim>\<open>Invalid\<close>, with the field it complains about.\<close>

datatype invalid = Invalid string

type_synonym 'a checked = "invalid + 'a"

definition ck_bind :: "'a checked \<Rightarrow> ('a \<Rightarrow> 'b checked) \<Rightarrow> 'b checked" where
  "ck_bind r f = (case r of Inl e \<Rightarrow> Inl e | Inr x \<Rightarrow> f x)"

definition require :: "bool \<Rightarrow> string \<Rightarrow> unit checked" where
  "require b field = (if b then Inr () else Inl (Invalid field))"

definition positive_number :: "string \<Rightarrow> json \<Rightarrow> bool \<Rightarrow> real checked" where
  "positive_number name v allow_zero =
     (case v of
        JBool _ \<Rightarrow> Inl (Invalid name)
      | _ \<Rightarrow> (case as_number v of
                None \<Rightarrow> Inl (Invalid name)
              | Some x \<Rightarrow> if x < 0 \<or> (x = 0 \<and> \<not> allow_zero) then Inl (Invalid name) else Inr x))"

definition opt_number :: "payload \<Rightarrow> string \<Rightarrow> bool \<Rightarrow> real option checked" where
  "opt_number body name allow_zero =
     (case jget body name of JNull \<Rightarrow> Inr None | v \<Rightarrow> ck_bind (positive_number name v allow_zero) (\<lambda>x. Inr (Some x)))"

fun check_nets :: "json list \<Rightarrow> string list checked" where
  "check_nets [] = Inr []"
| "check_nets (v # vs) =
     (let s = py_strip (py_str v) in
      if s = [] then check_nets vs
      else if ip_network s = None then Inl (Invalid ''bind'')
      else ck_bind (check_nets vs) (\<lambda>rest. Inr (s # rest)))"

definition binding :: "json \<Rightarrow> string list checked" where
  "binding raw =
     ck_bind (check_nets (case raw of JList vs \<Rightarrow> vs | _ \<Rightarrow> [raw]))
       (\<lambda>out. if out = [] then Inl (Invalid ''bind'') else Inr out)"

fun check_names :: "string \<Rightarrow> string list \<Rightarrow> json list \<Rightarrow> string list checked" where
  "check_names aid out [] = Inr out"
| "check_names aid out (v # vs) =
     (case v of
        JStr s \<Rightarrow>
          (let name = py_strip s in
           if name = [] \<or> name = aid then Inl (Invalid ''may_assert'')
           else check_names aid (if name \<in> set out then out else out @ [name]) vs)
      | _ \<Rightarrow> Inl (Invalid ''may_assert''))"

definition check_may_assert :: "json \<Rightarrow> string \<Rightarrow> string list checked" where
  "check_may_assert raw aid =
     (case raw of
        JStr s \<Rightarrow> check_names aid [] [raw]
      | JList vs \<Rightarrow> check_names aid [] vs
      | _ \<Rightarrow> Inl (Invalid ''may_assert''))"

definition check_id :: "payload \<Rightarrow> string option checked" where
  "check_id body =
     (case jget body ''id'' of
        JNull \<Rightarrow> Inr None
      | v \<Rightarrow> let k = py_strip (py_str v) in if k = [] then Inl (Invalid ''id'') else Inr (Some k))"

definition check_digest :: "payload \<Rightarrow> string option checked" where
  "check_digest body =
     (case jget body ''key_sha256'' of
        JNull \<Rightarrow> Inr None
      | v \<Rightarrow> let d = py_lower (py_strip (py_str v)) in if hex_digest_ok d then Inr (Some d) else Inl (Invalid ''key_sha256''))"

text \<open>A field that, if it is there at all, must be a JSON boolean.\<close>

definition check_flag :: "payload \<Rightarrow> string \<Rightarrow> bool checked" where
  "check_flag body name =
     (case od_get body name of
        None \<Rightarrow> Inr False
      | Some (JBool b) \<Rightarrow> Inr b
      | Some _ \<Rightarrow> Inl (Invalid name))"

record key_spec =
  sp_agent_id :: string
  sp_priority :: "string option"
  sp_min_timeout_s :: "real option"
  sp_admin :: bool
  sp_admin_readonly :: bool
  sp_calls_push :: bool
  sp_expires_in_s :: "real option"
  sp_bind :: "string list"
  sp_may_assert :: "string list"
  sp_id :: "string option"
  sp_sha256 :: "string option"

definition prio_name :: "llm_priority \<Rightarrow> string" where
  "prio_name p = (case p of
      P0_REALTIME \<Rightarrow> ''P0_REALTIME'' | P1_TURN_SUPPORT \<Rightarrow> ''P1_TURN_SUPPORT'' | P2_POST_TURN \<Rightarrow> ''P2_POST_TURN''
    | P3_INGESTION \<Rightarrow> ''P3_INGESTION'' | P4_HYGIENE \<Rightarrow> ''P4_HYGIENE'')"

definition check_priority :: "payload \<Rightarrow> string option checked" where
  "check_priority body =
     (case jget body ''priority'' of
        JNull \<Rightarrow> Inr None
      | v \<Rightarrow> (case coerce (PJson v) None of Inr p \<Rightarrow> Inr (Some (prio_name p)) | Inl _ \<Rightarrow> Inl (Invalid ''priority'')))"

definition key_create_fields :: "string list" where
  "key_create_fields =
     [''agent_id'', ''priority'', ''min_timeout_s'', ''admin'', ''admin_readonly'', ''calls_push'', ''expires_in_s'',
      ''bind'', ''may_assert'', ''id'', ''key_sha256'']"

definition validate_key_create :: "json \<Rightarrow> key_spec checked" where
  "validate_key_create raw =
     (case raw of
        JObj body \<Rightarrow>
          ck_bind (require (set (od_keys body) \<subseteq> set key_create_fields) ''unknown'') (\<lambda>_.
          let aid = py_strip (py_str (or_empty (jget body ''agent_id''))) in
          ck_bind (require (aid \<noteq> []) ''agent_id'') (\<lambda>_.
          ck_bind (check_priority body) (\<lambda>prio.
          ck_bind (opt_number body ''min_timeout_s'' False) (\<lambda>mt.
          ck_bind (check_flag body ''admin'') (\<lambda>adm.
          ck_bind (check_flag body ''admin_readonly'') (\<lambda>ro.
          ck_bind (require (\<not> (ro \<and> \<not> adm)) ''admin_readonly'') (\<lambda>_.
          ck_bind (check_flag body ''calls_push'') (\<lambda>push.
          ck_bind (require (\<not> (push \<and> adm)) ''calls_push'') (\<lambda>_.
          ck_bind (opt_number body ''expires_in_s'' False) (\<lambda>ex.
          ck_bind (case jget body ''bind'' of JNull \<Rightarrow> Inr [] | v \<Rightarrow> binding v) (\<lambda>bnd.
          ck_bind (case jget body ''may_assert'' of JNull \<Rightarrow> Inr [] | v \<Rightarrow> check_may_assert v aid) (\<lambda>ma.
          ck_bind (check_id body) (\<lambda>kid.
          ck_bind (check_digest body) (\<lambda>dig.
          Inr \<lparr>sp_agent_id = aid, sp_priority = prio, sp_min_timeout_s = mt, sp_admin = adm, sp_admin_readonly = ro,
               sp_calls_push = push, sp_expires_in_s = ex, sp_bind = bnd, sp_may_assert = ma, sp_id = kid,
               sp_sha256 = dig\<rparr>))))))))))))))
      | _ \<Rightarrow> Inl (Invalid ''body''))"

record rotate_spec =
  rt_id :: "string option"
  rt_sha256 :: "string option"
  rt_overlap_s :: "real option"
  rt_expires_in_s :: "real option"

definition key_rotate_fields :: "string list" where
  "key_rotate_fields = [''id'', ''key_sha256'', ''overlap_s'', ''expires_in_s'']"

definition validate_key_rotate :: "json \<Rightarrow> rotate_spec checked" where
  "validate_key_rotate raw =
     (case (case raw of JNull \<Rightarrow> JObj [] | _ \<Rightarrow> raw) of
        JObj body \<Rightarrow>
          ck_bind (require (set (od_keys body) \<subseteq> set key_rotate_fields) ''unknown'') (\<lambda>_.
          ck_bind (opt_number body ''overlap_s'' True) (\<lambda>ov.
          ck_bind (opt_number body ''expires_in_s'' False) (\<lambda>ex.
          ck_bind (check_id body) (\<lambda>kid.
          ck_bind (check_digest body) (\<lambda>dig.
          Inr \<lparr>rt_id = kid, rt_sha256 = dig, rt_overlap_s = ov, rt_expires_in_s = ex\<rparr>)))))
      | _ \<Rightarrow> Inl (Invalid ''body''))"

subsection \<open>The overlay\<close>

record key_record =
  kc_id :: string
  kc_agent_id :: string
  kc_sha256 :: string
  kc_priority :: string
  kc_min_timeout_s :: "pyfloat option"
  kc_admin :: bool
  kc_admin_readonly :: bool
  kc_calls_push :: bool
  kc_expires_at :: "real option"
  kc_bind :: "string list"
  kc_may_assert :: "string list"

record overlay =
  ov_keys :: "key_record list"
  ov_revoked :: "string list"
  ov_retired :: "(string, real) odict"

definition empty_overlay :: overlay where
  "empty_overlay = \<lparr>ov_keys = [], ov_revoked = [], ov_retired = []\<rparr>"

definition add_key :: "key_record \<Rightarrow> overlay \<Rightarrow> overlay" where
  "add_key rec ov =
     ov\<lparr>ov_keys := ov_keys ov @ [rec], ov_retired := od_del (kc_id rec) (ov_retired ov),
        ov_revoked := filter (\<lambda>k. k \<noteq> kc_id rec) (ov_revoked ov)\<rparr>"

fun expire_first :: "string \<Rightarrow> real \<Rightarrow> key_record list \<Rightarrow> key_record list" where
  "expire_first k t [] = []"
| "expire_first k t (e # es) = (if kc_id e = k then e\<lparr>kc_expires_at := Some t\<rparr> # es else e # expire_first k t es)"

definition expire_key :: "string \<Rightarrow> real \<Rightarrow> overlay \<Rightarrow> overlay" where
  "expire_key k t ov =
     (if k \<in> kc_id ` set (ov_keys ov) then ov\<lparr>ov_keys := expire_first k t (ov_keys ov)\<rparr>
      else ov\<lparr>ov_retired := od_put k t (ov_retired ov)\<rparr>)"

definition revoke_key :: "string \<Rightarrow> overlay \<Rightarrow> overlay" where
  "revoke_key k ov =
     ov\<lparr>ov_keys := filter (\<lambda>e. kc_id e \<noteq> k) (ov_keys ov), ov_retired := od_del k (ov_retired ov),
        ov_revoked := (if k \<in> set (ov_revoked ov) then ov_revoked ov else ov_revoked ov @ [k])\<rparr>"

definition coerce_priority :: "string option \<Rightarrow> llm_priority" where
  "coerce_priority raw =
     (case raw of
        None \<Rightarrow> P3_INGESTION
      | Some s \<Rightarrow> (case coerce (PJson (JStr s)) None of Inr p \<Rightarrow> p | Inl _ \<Rightarrow> P3_INGESTION))"

definition record_entry :: "key_record \<Rightarrow> key_entry" where
  "record_entry e =
     \<lparr>ke_agent_id = kc_agent_id e, ke_secret = None,
      ke_sha256 = (if kc_sha256 e = [] then None else Some (kc_sha256 e)),
      ke_priority = coerce_priority (Some (kc_priority e)), ke_priority_declared = False,
      ke_min_timeout_s = kc_min_timeout_s e, ke_admin = kc_admin e, ke_admin_readonly = kc_admin_readonly e,
      ke_calls_push = kc_calls_push e, ke_expires_at = kc_expires_at e, ke_bind = kc_bind e,
      ke_may_assert = kc_may_assert e, ke_key_id = (if kc_id e = [] then None else Some (kc_id e)),
      ke_source = ''runtime'', ke_bootstrap = False\<rparr>"

definition overlay_apply :: "(string \<Rightarrow> string) \<Rightarrow> real \<Rightarrow> overlay \<Rightarrow> key_registry \<Rightarrow> key_registry" where
  "overlay_apply sha now ov reg =
     (let r1 = foldl (\<lambda>r e. fst (kr_register sha now (record_entry e) r)) reg (ov_keys ov);
          r2 = foldl (\<lambda>r (k, t). fst (kr_set_expiry k (Some t) r)) r1 (ov_retired ov)
      in foldl (\<lambda>r k. fst (kr_revoke k r)) r2 (ov_revoked ov))"

subsection \<open>The handlers\<close>

text \<open>The registry and the overlay a handler leaves behind, with the status of its answer and, on
  success, the label of the key.\<close>

type_synonym admin_state = "key_registry \<times> overlay"
type_synonym 'a answer = "(int + 'a) \<times> admin_state"

definition secret_of :: "string \<Rightarrow> string option \<Rightarrow> string option" where
  "secret_of token digest = (case digest of None \<Rightarrow> Some (''rs-'' @ token) | Some _ \<Rightarrow> None)"

definition digest_or :: "(string \<Rightarrow> string) \<Rightarrow> string option \<Rightarrow> string option \<Rightarrow> string" where
  "digest_or sha digest secret =
     (case digest of Some d \<Rightarrow> (if d \<noteq> [] then d else sha (case secret of Some s \<Rightarrow> s | None \<Rightarrow> []))
      | None \<Rightarrow> sha (case secret of Some s \<Rightarrow> s | None \<Rightarrow> []))"

definition spec_entry :: "key_spec \<Rightarrow> string \<Rightarrow> real \<Rightarrow> key_entry" where
  "spec_entry sp token now =
     \<lparr>ke_agent_id = sp_agent_id sp, ke_secret = secret_of token (sp_sha256 sp), ke_sha256 = sp_sha256 sp,
      ke_priority = coerce_priority (sp_priority sp), ke_priority_declared = False,
      ke_min_timeout_s = map_option Finite (sp_min_timeout_s sp), ke_admin = sp_admin sp,
      ke_admin_readonly = sp_admin_readonly sp, ke_calls_push = sp_calls_push sp,
      ke_expires_at = map_option (\<lambda>x. now + x) (sp_expires_in_s sp), ke_bind = sp_bind sp,
      ke_may_assert = sp_may_assert sp, ke_key_id = sp_id sp, ke_source = ''runtime'', ke_bootstrap = False\<rparr>"

definition record_of :: "(string \<Rightarrow> string) \<Rightarrow> string \<Rightarrow> string \<Rightarrow> key_entry \<Rightarrow> key_record" where
  "record_of sha k prio e =
     \<lparr>kc_id = k, kc_agent_id = ke_agent_id e, kc_sha256 = digest_or sha (ke_sha256 e) (ke_secret e),
      kc_priority = prio, kc_min_timeout_s = ke_min_timeout_s e, kc_admin = ke_admin e,
      kc_admin_readonly = ke_admin_readonly e, kc_calls_push = ke_calls_push e, kc_expires_at = ke_expires_at e,
      kc_bind = ke_bind e, kc_may_assert = ke_may_assert e\<rparr>"

definition handle_enrol :: "(string \<Rightarrow> string) \<Rightarrow> real \<Rightarrow> string \<Rightarrow> key_spec \<Rightarrow> admin_state \<Rightarrow> string answer" where
  "handle_enrol sha now token sp st =
     (case st of (reg, ov) \<Rightarrow>
        let e = spec_entry sp token now;
            prio = (case sp_priority sp of Some p \<Rightarrow> p | None \<Rightarrow> prio_name P3_INGESTION)
        in case kr_register sha now e reg of
             (reg', None) \<Rightarrow> (Inl 409, reg', ov)
           | (reg', Some k) \<Rightarrow> (Inr k, reg', add_key (record_of sha k prio e) ov))"

definition handle_revoke :: "string \<Rightarrow> admin_state \<Rightarrow> string answer" where
  "handle_revoke k st =
     (case st of (reg, ov) \<Rightarrow>
        case kr_revoke k reg of
          (reg', False) \<Rightarrow> (Inl 404, reg', ov)
        | (reg', True) \<Rightarrow> (Inr k, reg', revoke_key k ov))"

text \<open>The row of a key in the sorted snapshot of the registry.\<close>

definition snapshot_row :: "key_registry \<Rightarrow> string \<Rightarrow> (string \<times> principal) option" where
  "snapshot_row reg k =
     List.find (\<lambda>(d, p). p_key_id p = Some k)
       (sort_key (\<lambda>(d, p). (p_agent_id p, case p_key_id p of Some l \<Rightarrow> l | None \<Rightarrow> ''None'')) (by_digest reg))"

definition successor_entry :: "key_registry \<Rightarrow> string \<times> principal \<Rightarrow> string \<Rightarrow> rotate_spec \<Rightarrow> string \<Rightarrow> real \<Rightarrow> key_entry" where
  "successor_entry reg row k sp token now =
     (case row of (d, p) \<Rightarrow>
     \<lparr>ke_agent_id = p_agent_id p, ke_secret = secret_of token (rt_sha256 sp), ke_sha256 = rt_sha256 sp,
      ke_priority = coerce_priority (Some (prio_name (p_priority p))), ke_priority_declared = False,
      ke_min_timeout_s = p_min_timeout_s p, ke_admin = p_admin p, ke_admin_readonly = p_admin_readonly p,
      ke_calls_push = p_calls_push p, ke_expires_at = map_option (\<lambda>x. now + x) (rt_expires_in_s sp),
      ke_bind = cr_bind (cred_of reg d), ke_may_assert = sorted_list_of_set (p_may_assert p),
      ke_key_id = Some (case rt_id sp of Some i \<Rightarrow> i | None \<Rightarrow> k @ ''-r'' @ show_int (py_int now)),
      ke_source = ''runtime'', ke_bootstrap = False\<rparr>)"

text \<open>An overlap never lengthens the life of the predecessor.\<close>

definition retires_at :: "real \<Rightarrow> real \<Rightarrow> real option \<Rightarrow> real" where
  "retires_at now overlap_s old = (case old of Some t \<Rightarrow> (if now + overlap_s > t then t else now + overlap_s) | None \<Rightarrow> now + overlap_s)"

definition handle_rotate :: "(string \<Rightarrow> string) \<Rightarrow> real \<Rightarrow> string \<Rightarrow> string \<Rightarrow> rotate_spec \<Rightarrow> admin_state \<Rightarrow> string answer" where
  "handle_rotate sha now token k sp st =
     (case st of (reg, ov) \<Rightarrow>
        case snapshot_row reg k of
          None \<Rightarrow> (Inl 404, reg, ov)
        | Some (d, p) \<Rightarrow>
            let e = successor_entry reg (d, p) k sp token now in
            case kr_register sha now e reg of
              (reg1, None) \<Rightarrow> (Inl 409, reg1, ov)
            | (reg1, Some new_id) \<Rightarrow>
                let ov1 = add_key (record_of sha new_id (prio_name (p_priority p)) e) ov;
                    overlap = (case rt_overlap_s sp of Some x \<Rightarrow> x | None \<Rightarrow> 0);
                    t = retires_at now overlap (cr_expires_at (cred_of reg d))
                in if overlap > 0
                   then (Inr new_id, fst (kr_set_expiry k (Some t) reg1), expire_key k t ov1)
                   else (Inr new_id, fst (kr_revoke k reg1), revoke_key k ov1))"

subsection \<open>Lemmas: validation\<close>

lemma ck_bind_Inr: "ck_bind r f = Inr y \<longleftrightarrow> (\<exists>x. r = Inr x \<and> f x = Inr y)"
  by (cases r) (simp_all add: ck_bind_def)

lemma require_Inr: "require b f = Inr u \<longleftrightarrow> b"
  by (simp add: require_def)

lemma check_nets_ok: "check_nets vs = Inr out \<Longrightarrow> s \<in> set out \<Longrightarrow> ip_network s \<noteq> None"
  by (induction vs arbitrary: out) (auto simp: Let_def ck_bind_Inr split: if_splits)

lemma check_names_ok:
  "check_names aid acc vs = Inr out \<Longrightarrow> distinct acc \<Longrightarrow> aid \<notin> set acc \<Longrightarrow> [] \<notin> set acc \<Longrightarrow>
     distinct out \<and> aid \<notin> set out \<and> [] \<notin> set out"
proof (induction vs arbitrary: acc)
  case (Cons v vs)
  then show ?case by (cases v) (auto simp: Let_def split: if_splits)
qed simp

text \<open>What a coherent enrolment is.\<close>

definition spec_ok :: "key_spec \<Rightarrow> bool" where
  "spec_ok sp \<longleftrightarrow> sp_agent_id sp \<noteq> [] \<and> (sp_admin_readonly sp \<longrightarrow> sp_admin sp) \<and> \<not> (sp_calls_push sp \<and> sp_admin sp) \<and>
     (\<forall>s \<in> set (sp_bind sp). ip_network s \<noteq> None) \<and>
     distinct (sp_may_assert sp) \<and> sp_agent_id sp \<notin> set (sp_may_assert sp) \<and> [] \<notin> set (sp_may_assert sp) \<and>
     sp_id sp \<noteq> Some [] \<and> (\<forall>d. sp_sha256 sp = Some d \<longrightarrow> hex_digest_ok d)"

lemma check_id_ok: "check_id body = Inr k \<Longrightarrow> k \<noteq> Some []"
  by (auto simp: check_id_def Let_def split: json.splits if_splits)

lemma check_digest_ok: "check_digest body = Inr (Some d) \<Longrightarrow> hex_digest_ok d"
  by (auto simp: check_digest_def Let_def split: json.splits if_splits)

lemma binding_ok: "binding v = Inr out \<Longrightarrow> s \<in> set out \<Longrightarrow> ip_network s \<noteq> None"
  by (auto simp: binding_def ck_bind_Inr split: if_splits dest: check_nets_ok)

lemma check_may_assert_ok: "check_may_assert v aid = Inr out \<Longrightarrow> distinct out \<and> aid \<notin> set out \<and> [] \<notin> set out"
  using check_names_ok[of aid "[]"] by (auto simp: check_may_assert_def split: json.splits simp del: check_names.simps)

text \<open>C38: only a coherent credential is accepted. Every body that passes the validation of an
  enrolment names a caller, narrows only an admin scope, never combines the ingest scope with the
  admin scope, binds to networks that parse, delegates to other names only, each once, and carries
  a digest of the right form if it carries one.\<close>

lemma enrolment_is_coherent:
  assumes "validate_key_create raw = Inr sp" shows "spec_ok sp"
proof -
  from assms obtain body prio mt adm ro push ex bnd ma kid dig where
    ok: "\<not> (ro \<and> \<not> adm)" "\<not> (push \<and> adm)" "py_strip (py_str (or_empty (jget body ''agent_id''))) \<noteq> []"
    and b: "(case jget body ''bind'' of JNull \<Rightarrow> Inr [] | v \<Rightarrow> binding v) = Inr bnd"
    and m: "(case jget body ''may_assert'' of JNull \<Rightarrow> Inr []
             | v \<Rightarrow> check_may_assert v (py_strip (py_str (or_empty (jget body ''agent_id''))))) = Inr ma"
    and i: "check_id body = Inr kid" and d: "check_digest body = Inr dig"
    and sp: "sp = \<lparr>sp_agent_id = py_strip (py_str (or_empty (jget body ''agent_id''))), sp_priority = prio,
       sp_min_timeout_s = mt, sp_admin = adm, sp_admin_readonly = ro, sp_calls_push = push, sp_expires_in_s = ex,
       sp_bind = bnd, sp_may_assert = ma, sp_id = kid, sp_sha256 = dig\<rparr>"
    unfolding validate_key_create_def Let_def
    by (cases raw) (simp_all only: json.case ck_bind_Inr require_Inr sum.inject sum.distinct, blast)
  have "ip_network s \<noteq> None" if "s \<in> set bnd" for s
    using b binding_ok[of _ bnd s] that by (cases "jget body ''bind''") auto
  moreover have "distinct ma \<and> py_strip (py_str (or_empty (jget body ''agent_id''))) \<notin> set ma \<and> [] \<notin> set ma"
    using m check_may_assert_ok by (cases "jget body ''may_assert''") auto
  ultimately show ?thesis using ok check_id_ok[OF i] check_digest_ok d by (auto simp: spec_ok_def sp)
qed

lemma enrolment_is_coherent_witness:
  "\<exists>sp. validate_key_create (JObj [(''agent_id'', JStr '' chat ''), (''bind'', JStr ''10.0.0.0/8''),
          (''may_assert'', JList [JStr ''forum'', JStr ''forum''])]) = Inr sp \<and> spec_ok sp"
proof -
  have "\<exists>sp. validate_key_create (JObj [(''agent_id'', JStr '' chat ''), (''bind'', JStr ''10.0.0.0/8''),
          (''may_assert'', JList [JStr ''forum'', JStr ''forum''])]) = Inr sp"
    by (rule exI[of _ "\<lparr>sp_agent_id = ''chat'', sp_priority = None, sp_min_timeout_s = None, sp_admin = False,
      sp_admin_readonly = False, sp_calls_push = False, sp_expires_in_s = None, sp_bind = [''10.0.0.0/8''],
      sp_may_assert = [''forum''], sp_id = None, sp_sha256 = None\<rparr>"]) code_simp
  then show ?thesis using enrolment_is_coherent by blast
qed

subsection \<open>Lemmas: the registry as a list of labelled keys\<close>

abbreviation label_of :: "principal \<Rightarrow> string" where
  "label_of p \<equiv> the (p_key_id p)"

definition labels :: "key_registry \<Rightarrow> string list" where
  "labels reg = map (\<lambda>(d, p). label_of p) (by_digest reg)"

text \<open>A registry in which a label names one key.\<close>

definition labelled :: "key_registry \<Rightarrow> bool" where
  "labelled reg \<longleftrightarrow> registry_ok reg \<and> distinct (labels reg)"

lemma labelled_entry: "labelled reg \<Longrightarrow> (d, p) \<in> set (by_digest reg) \<Longrightarrow> p_key_id p = Some (label_of p)"
  by (auto simp: labelled_def registry_ok_def list_all_iff principal_ok_def)

lemma labelled_unique:
  assumes "labelled reg" "(d, p) \<in> set (by_digest reg)" "(d', p') \<in> set (by_digest reg)" "label_of p = label_of p'"
  shows "d = d' \<and> p = p'"
proof -
  have "inj_on (\<lambda>(d, p). label_of p) (set (by_digest reg))"
    using assms(1) by (simp add: labelled_def labels_def distinct_map)
  from inj_onD[OF this, of "(d, p)" "(d', p')"] assms(2-4) show ?thesis by simp
qed

lemma digest_of_label_iff:
  assumes "labelled reg" "(d, p) \<in> set (by_digest reg)"
  shows "digest_of_label reg (label_of p) = Some d"
proof -
  have "List.find (\<lambda>(d, q). p_key_id q = Some (label_of p)) (by_digest reg) \<noteq> None"
    using assms labelled_entry[OF assms] by (auto simp: find_None_iff)
  then obtain d' q where f: "List.find (\<lambda>(d, q). p_key_id q = Some (label_of p)) (by_digest reg) = Some (d', q)" by auto
  then have "(d', q) \<in> set (by_digest reg)" "label_of q = label_of p"
    by (auto simp: find_Some_iff) (metis nth_mem)
  with labelled_unique[OF assms(1) _ assms(2)] have "d' = d" by blast
  with f show ?thesis by (simp add: digest_of_label_def)
qed

lemma digest_of_label_None:
  "labelled reg \<Longrightarrow> digest_of_label reg k = None \<longleftrightarrow> k \<notin> set (labels reg)"
proof -
  assume l: "labelled reg"
  have "(\<exists>dp \<in> set (by_digest reg). p_key_id (snd dp) = Some k) \<longleftrightarrow> k \<in> set (labels reg)"
    using labelled_entry[OF l] by (force simp: labels_def)
  then show ?thesis by (fastforce simp: digest_of_label_def find_None_iff split: prod.splits)
qed

lemma digest_unique:
  "labelled reg \<Longrightarrow> (d, p) \<in> set (by_digest reg) \<Longrightarrow> (d, q) \<in> set (by_digest reg) \<Longrightarrow> p = q"
  unfolding labelled_def registry_ok_def by (metis eq_key_imp_eq_value)

lemma od_del_filter: "od_ok xs \<Longrightarrow> (d, p) \<in> set xs \<Longrightarrow> (\<And>d' p'. (d', p') \<in> set xs \<Longrightarrow> (d' = d) = (\<not> P (d', p'))) \<Longrightarrow> od_del d xs = filter P xs"
  unfolding AList.delete_eq by (rule filter_cong) auto

lemma revoke_filter:
  assumes "labelled reg"
  shows "by_digest (fst (kr_revoke k reg)) = filter (\<lambda>(d, p). label_of p \<noteq> k) (by_digest reg)"
proof (cases "digest_of_label reg k")
  case None
  then have "k \<notin> set (labels reg)" using digest_of_label_None[OF assms] by simp
  then have "\<forall>(d, p) \<in> set (by_digest reg). label_of p \<noteq> k" by (force simp: labels_def)
  then show ?thesis using None by (auto simp: kr_revoke_def intro!: filter_True[symmetric])
next
  case (Some d)
  then obtain p where p: "(d, p) \<in> set (by_digest reg)" "p_key_id p = Some k" using digest_of_label_in by blast
  have "(d' = d) = (\<not> (case (d', q) of (d, p) \<Rightarrow> label_of p \<noteq> k))" if q: "(d', q) \<in> set (by_digest reg)" for d' q
  proof
    assume "d' = d"
    then have "q = p" using q p(1) digest_unique[OF assms] by simp
    then show "\<not> (case (d', q) of (d, p) \<Rightarrow> label_of p \<noteq> k)" using p(2) by simp
  next
    assume "\<not> (case (d', q) of (d, p) \<Rightarrow> label_of p \<noteq> k)"
    then show "d' = d" using labelled_unique[OF assms q p(1)] p(2) by simp
  qed
  from od_del_filter[OF _ p(1) this] Some assms show ?thesis
    by (simp add: kr_revoke_def labelled_def registry_ok_def)
qed

lemma revoke_labelled: "labelled reg \<Longrightarrow> labelled (fst (kr_revoke k reg))"
  using revoke_ok[of reg k]
  by (auto simp: labelled_def labels_def revoke_filter[unfolded labelled_def labels_def] distinct_map_filter)

lemma expiry_by_digest: "by_digest (fst (kr_set_expiry k t reg)) = by_digest reg"
  by (simp add: kr_set_expiry_def split: option.split)

lemma expiry_labelled: "labelled reg \<Longrightarrow> labelled (fst (kr_set_expiry k t reg))"
  using expiry_ok[of reg k t] by (simp add: labelled_def labels_def expiry_by_digest)

text \<open>What these operations do to the conditions on the keys that stay.\<close>

lemma cred_of_revoke:
  assumes "labelled reg" "(d, p) \<in> set (by_digest reg)" "label_of p \<noteq> k"
  shows "cred_of (fst (kr_revoke k reg)) d = cred_of reg d"
proof (cases "digest_of_label reg k")
  case (Some d')
  then obtain q where q: "(d', q) \<in> set (by_digest reg)" "p_key_id q = Some k" using digest_of_label_in by blast
  then have "d' \<noteq> d" using assms(2,3) digest_unique[OF assms(1,2)] by force
  then show ?thesis using Some by (simp add: kr_revoke_def cred_of_def od_get_or_def)
qed (simp add: kr_revoke_def)

lemma cred_of_expiry:
  assumes "labelled reg" "(d, p) \<in> set (by_digest reg)"
  shows "cred_of (fst (kr_set_expiry k t reg)) d =
    (if label_of p = k then (cred_of reg d)\<lparr>cr_expires_at := t\<rparr> else cred_of reg d)"
proof (cases "digest_of_label reg k")
  case None
  then have "label_of p \<noteq> k" using digest_of_label_iff[OF assms] by auto
  then show ?thesis using None by (simp add: kr_set_expiry_def)
next
  case (Some d')
  then obtain q where q: "(d', q) \<in> set (by_digest reg)" "p_key_id q = Some k" using digest_of_label_in by blast
  have "label_of p = k \<longleftrightarrow> d' = d"
    using labelled_unique[OF assms q(1)] q digest_unique[OF assms(1,2)] by auto
  then show ?thesis using Some by (auto simp: kr_set_expiry_def cred_of_def od_get_or_def)
qed

end
