(* ===== verification/Key_Restart.thy ===== *)
theory Key_Restart
  imports Key_Admin
begin

section \<open>Credentials across a restart\<close>

text \<open>
  The overlay of \<open>Key_Admin\<close> is replayed over the registry that the environment and the keys file
  declare. This theory relates the two: \<open>live_ok\<close> says what the running registry and the overlay
  have to do with each other and is kept by every handler, \<open>replay_reproduces\<close> shows that under it
  the replay gives the running registry back. Both hold as long as labels and digests are not used
  twice; the lemmas at the end show what happens otherwise.
\<close>

subsection \<open>Replaying\<close>

definition rec_digest :: "(string \<Rightarrow> string) \<Rightarrow> key_record \<Rightarrow> string" where
  "rec_digest sha e = the (entry_digest sha (record_entry e))"

definition rec_pair :: "(string \<Rightarrow> string) \<Rightarrow> key_record \<Rightarrow> string \<times> principal" where
  "rec_pair sha e = (rec_digest sha e, entry_principal (record_entry e) (rec_digest sha e))"

text \<open>A record that will register.\<close>

definition rec_ok :: "(string \<Rightarrow> string) \<Rightarrow> key_record \<Rightarrow> bool" where
  "rec_ok sha e \<longleftrightarrow> entry_digest sha (record_entry e) \<noteq> None \<and> kc_id e \<noteq> [] \<and> kc_agent_id e \<noteq> [] \<and>
     \<not> (kc_calls_push e \<and> kc_admin e)"

lemma rec_label: "rec_ok sha e \<Longrightarrow> p_key_id (snd (rec_pair sha e)) = Some (kc_id e)"
  by (simp add: rec_ok_def rec_pair_def entry_principal_def key_label_def record_entry_def)

definition rec_cred :: "real \<Rightarrow> key_record \<Rightarrow> credential" where
  "rec_cred now e = \<lparr>cr_source = ''runtime'', cr_created_at = Some now, cr_expires_at = kc_expires_at e, cr_bind = kc_bind e\<rparr>"

lemma register_record:
  assumes "rec_ok sha e" "rec_digest sha e \<notin> fst ` set (by_digest reg)"
  shows "by_digest (fst (kr_register sha now (record_entry e) reg)) = by_digest reg @ [rec_pair sha e]"
    and "cred_of (fst (kr_register sha now (record_entry e) reg)) d =
           (if d = rec_digest sha e then rec_cred now e else cred_of reg d)"
proof -
  obtain d0 where d0: "entry_digest sha (record_entry e) = Some d0" "rec_digest sha e = d0"
    using assms(1) by (auto simp: rec_ok_def rec_digest_def)
  have f: "ke_agent_id (record_entry e) \<noteq> []" "\<not> (ke_calls_push (record_entry e) \<and> ke_admin (record_entry e))"
    "ke_source (record_entry e) = ''runtime''" "ke_expires_at (record_entry e) = kc_expires_at e" "ke_bind (record_entry e) = kc_bind e"
    using assms(1) by (auto simp: rec_ok_def record_entry_def)
  show "by_digest (fst (kr_register sha now (record_entry e) reg)) = by_digest reg @ [rec_pair sha e]"
    using assms(2) f by (auto simp: kr_register_def d0 keys_put_new rec_pair_def)
  show "cred_of (fst (kr_register sha now (record_entry e) reg)) d =
           (if d = rec_digest sha e then rec_cred now e else cred_of reg d)"
    using assms(2) f by (auto simp: kr_register_def d0 cred_of_def od_get_or_def rec_cred_def)
qed

abbreviation digests :: "key_registry \<Rightarrow> string set" where
  "digests reg \<equiv> fst ` set (by_digest reg)"

lemma enrol_all:
  fixes now :: real
  assumes "\<forall>e \<in> set es. rec_ok sha e \<and> rec_digest sha e \<notin> digests reg" "distinct (map (rec_digest sha) es)"
  defines "r1 \<equiv> foldl (\<lambda>r e. fst (kr_register sha now (record_entry e) r)) reg es"
  shows "by_digest r1 = by_digest reg @ map (rec_pair sha) es"
    and "d \<in> digests reg \<Longrightarrow> cred_of r1 d = cred_of reg d"
    and "e \<in> set es \<Longrightarrow> cred_of r1 (rec_digest sha e) = rec_cred now e"
proof -
  have "by_digest (foldl (\<lambda>r e. fst (kr_register sha now (record_entry e) r)) reg es) = by_digest reg @ map (rec_pair sha) es \<and>
    (\<forall>d \<in> digests reg. cred_of (foldl (\<lambda>r e. fst (kr_register sha now (record_entry e) r)) reg es) d = cred_of reg d) \<and>
    (\<forall>e \<in> set es. cred_of (foldl (\<lambda>r e. fst (kr_register sha now (record_entry e) r)) reg es) (rec_digest sha e) = rec_cred now e)"
    using assms(1,2)
  proof (induction es rule: rev_induct)
    case (snoc e es)
    let ?r = "foldl (\<lambda>r e. fst (kr_register sha now (record_entry e) r)) reg es"
    have ih: "by_digest ?r = by_digest reg @ map (rec_pair sha) es" "\<forall>d \<in> digests reg. cred_of ?r d = cred_of reg d"
      "\<forall>e \<in> set es. cred_of ?r (rec_digest sha e) = rec_cred now e" using snoc by auto
    have new: "rec_digest sha e \<notin> digests ?r" and ok: "rec_ok sha e"
      using snoc.prems ih(1) by (auto simp: rec_pair_def)
    have ne: "\<forall>e' \<in> set es. rec_digest sha e' \<noteq> rec_digest sha e" "rec_digest sha e \<notin> digests reg"
      using snoc.prems by (auto simp: image_iff)
    note rr = register_record[OF ok new, of now]
    have "cred_of (fst (kr_register sha now (record_entry e) ?r)) d = cred_of reg d" if "d \<in> digests reg" for d
      using rr(2)[of d] ih(2) ne(2) that by metis
    moreover have "cred_of (fst (kr_register sha now (record_entry e) ?r)) (rec_digest sha e') = rec_cred now e'"
      if "e' \<in> set (es @ [e])" for e'
      using rr(2)[of "rec_digest sha e'"] ih(3) ne(1) that by (cases "e' \<in> set es") auto
    ultimately show ?case using rr(1) ih(1) by simp
  qed simp
  then show "by_digest r1 = by_digest reg @ map (rec_pair sha) es"
    "d \<in> digests reg \<Longrightarrow> cred_of r1 d = cred_of reg d"
    "e \<in> set es \<Longrightarrow> cred_of r1 (rec_digest sha e) = rec_cred now e" unfolding r1_def by blast+
qed

lemma enrol_all_ok:
  "registry_ok reg \<Longrightarrow> registry_ok (foldl (\<lambda>r e. fst (kr_register sha now (record_entry e) r)) reg es)"
  by (induction es arbitrary: reg) (simp_all add: register_ok)

lemma retire_all_keys:
  "labelled reg \<Longrightarrow> by_digest (foldl (\<lambda>r (k, t). fst (kr_set_expiry k (Some t) r)) reg ts) = by_digest reg \<and>
     labelled (foldl (\<lambda>r (k, t). fst (kr_set_expiry k (Some t) r)) reg ts)"
  by (induction ts arbitrary: reg) (auto simp: expiry_by_digest expiry_labelled)

lemma retire_all:
  assumes "labelled reg" "od_ok ts" "(d, p) \<in> set (by_digest reg)"
  defines "r2 \<equiv> foldl (\<lambda>r (k, t). fst (kr_set_expiry k (Some t) r)) reg ts"
  shows "cr_expires_at (cred_of r2 d) = (case od_get ts (label_of p) of Some t \<Rightarrow> Some t | None \<Rightarrow> cr_expires_at (cred_of reg d))"
    and "cr_bind (cred_of r2 d) = cr_bind (cred_of reg d)"
proof -
  have "cr_expires_at (cred_of (foldl (\<lambda>r (k, t). fst (kr_set_expiry k (Some t) r)) reg ts) d) =
      (case od_get ts (label_of p) of Some t \<Rightarrow> Some t | None \<Rightarrow> cr_expires_at (cred_of reg d)) \<and>
    cr_bind (cred_of (foldl (\<lambda>r (k, t). fst (kr_set_expiry k (Some t) r)) reg ts) d) = cr_bind (cred_of reg d)"
    using assms(1-3)
  proof (induction ts arbitrary: reg)
    case (Cons kt ts)
    obtain k t where kt: "kt = (k, t)" by force
    let ?r = "fst (kr_set_expiry k (Some t) reg)"
    have m: "(d, p) \<in> set (by_digest ?r)" using Cons.prems(3) by (simp add: expiry_by_digest)
    note ih = Cons.IH[OF expiry_labelled[OF Cons.prems(1)] _ m]
    have c: "cred_of ?r d = (if label_of p = k then (cred_of reg d)\<lparr>cr_expires_at := Some t\<rparr> else cred_of reg d)"
      by (rule cred_of_expiry[OF Cons.prems(1,3)])
    have "label_of p = k \<Longrightarrow> od_get ts k = None" using Cons.prems(2) kt by (simp add: od_get_None_iff)
    with ih c Cons.prems(2) kt show ?case by (auto simp: expiry_by_digest split: option.split)
  qed simp
  then show "cr_expires_at (cred_of r2 d) = (case od_get ts (label_of p) of Some t \<Rightarrow> Some t | None \<Rightarrow> cr_expires_at (cred_of reg d))"
    "cr_bind (cred_of r2 d) = cr_bind (cred_of reg d)" unfolding r2_def by blast+
qed

lemma revoke_all:
  fixes ks :: "string list"
  assumes "labelled reg"
  defines "r3 \<equiv> foldl (\<lambda>r k. fst (kr_revoke k r)) reg ks"
  shows "by_digest r3 = filter (\<lambda>(d, p). label_of p \<notin> set ks) (by_digest reg)"
    and "(d, p) \<in> set (by_digest reg) \<Longrightarrow> label_of p \<notin> set ks \<Longrightarrow> cred_of r3 d = cred_of reg d"
proof -
  have "by_digest (foldl (\<lambda>r k. fst (kr_revoke k r)) reg ks) = filter (\<lambda>(d, p). label_of p \<notin> set ks) (by_digest reg) \<and>
    (\<forall>(d, p) \<in> set (by_digest reg). label_of p \<notin> set ks \<longrightarrow> cred_of (foldl (\<lambda>r k. fst (kr_revoke k r)) reg ks) d = cred_of reg d)"
    using assms(1)
  proof (induction ks arbitrary: reg)
    case Nil
    then show ?case by simp
  next
    case (Cons k ks)
    note f = revoke_filter[OF Cons.prems, of k] and ih = Cons.IH[OF revoke_labelled[OF Cons.prems], of k]
    have "cred_of (foldl (\<lambda>r k. fst (kr_revoke k r)) (fst (kr_revoke k reg)) ks) d = cred_of reg d"
      if "(d, p) \<in> set (by_digest reg)" "label_of p \<notin> set (k # ks)" for d p
      using ih that cred_of_revoke[OF Cons.prems that(1)] f by fastforce
    then show ?case using ih by (auto simp: f intro!: filter_cong)
  qed
  then show "by_digest r3 = filter (\<lambda>(d, p). label_of p \<notin> set ks) (by_digest reg)"
    "(d, p) \<in> set (by_digest reg) \<Longrightarrow> label_of p \<notin> set ks \<Longrightarrow> cred_of r3 d = cred_of reg d" unfolding r3_def by blast+
qed

subsection \<open>What the running registry and the overlay have to do with each other\<close>

text \<open>\<open>R0\<close> is the declared registry, \<open>U\<close> and \<open>D\<close> the labels and digests used so far.\<close>

definition live_ok :: "(string \<Rightarrow> string) \<Rightarrow> key_registry \<Rightarrow> string set \<Rightarrow> string set \<Rightarrow> admin_state \<Rightarrow> bool" where
  "live_ok sha R0 U D st \<longleftrightarrow> (case st of (reg, ov) \<Rightarrow>
     labelled R0 \<and> labelled reg \<and>
     by_digest reg = filter (\<lambda>(d, p). label_of p \<notin> set (ov_revoked ov)) (by_digest R0) @ map (rec_pair sha) (ov_keys ov) \<and>
     (\<forall>e \<in> set (ov_keys ov). rec_ok sha e \<and> kc_id e \<in> U - set (labels R0) - set (ov_revoked ov) \<and>
        rec_digest sha e \<in> D - digests R0 \<and>
        cr_expires_at (cred_of reg (rec_digest sha e)) = kc_expires_at e \<and> cr_bind (cred_of reg (rec_digest sha e)) = kc_bind e) \<and>
     (\<forall>d p. (d, p) \<in> set (by_digest R0) \<longrightarrow> label_of p \<notin> set (ov_revoked ov) \<longrightarrow>
        cr_expires_at (cred_of reg d) = (case od_get (ov_retired ov) (label_of p) of Some t \<Rightarrow> Some t | None \<Rightarrow> cr_expires_at (cred_of R0 d)) \<and>
        cr_bind (cred_of reg d) = cr_bind (cred_of R0 d)) \<and>
     od_ok (ov_retired ov) \<and> fst ` set (ov_retired ov) \<subseteq> set (labels R0) \<and>
     set (ov_revoked ov) \<subseteq> U \<and> set (labels R0) \<subseteq> U \<and> digests R0 \<subseteq> D)"

lemma live_okD:
  assumes "live_ok sha R0 U D (reg, ov)"
  shows "labelled R0" "labelled reg"
    "by_digest reg = filter (\<lambda>(d, p). label_of p \<notin> set (ov_revoked ov)) (by_digest R0) @ map (rec_pair sha) (ov_keys ov)"
    "\<And>e. e \<in> set (ov_keys ov) \<Longrightarrow> rec_ok sha e \<and> kc_id e \<in> U - set (labels R0) - set (ov_revoked ov) \<and> rec_digest sha e \<in> D - digests R0"
    "\<And>e. e \<in> set (ov_keys ov) \<Longrightarrow> cr_expires_at (cred_of reg (rec_digest sha e)) = kc_expires_at e \<and> cr_bind (cred_of reg (rec_digest sha e)) = kc_bind e"
    "\<And>d p. (d, p) \<in> set (by_digest R0) \<Longrightarrow> label_of p \<notin> set (ov_revoked ov) \<Longrightarrow>
        cr_expires_at (cred_of reg d) = (case od_get (ov_retired ov) (label_of p) of Some t \<Rightarrow> Some t | None \<Rightarrow> cr_expires_at (cred_of R0 d)) \<and>
        cr_bind (cred_of reg d) = cr_bind (cred_of R0 d)"
    "od_ok (ov_retired ov)" "fst ` set (ov_retired ov) \<subseteq> set (labels R0)" "set (ov_revoked ov) \<subseteq> U"
    "set (labels R0) \<subseteq> U" "digests R0 \<subseteq> D"
  using assms unfolding live_ok_def prod.case by blast+

lemma rec_label_of: "rec_ok sha e \<Longrightarrow> label_of (snd (rec_pair sha e)) = kc_id e"
  by (simp add: rec_label)

lemma overlay_labels_distinct:
  assumes "live_ok sha R0 U D (reg, ov)"
  shows "distinct (map kc_id (ov_keys ov))" "distinct (map (rec_digest sha) (ov_keys ov))"
proof -
  note l = live_okD[OF assms]
  have d: "distinct (map (\<lambda>(d, p). label_of p) (map (rec_pair sha) (ov_keys ov)))" "distinct (map fst (map (rec_pair sha) (ov_keys ov)))"
    using l(2,3) unfolding labelled_def labels_def registry_ok_def by auto
  have m1: "map (\<lambda>(d, p). label_of p) (map (rec_pair sha) (ov_keys ov)) = map kc_id (ov_keys ov)"
    using l(4) rec_label_of by (auto simp: case_prod_beta)
  have m2: "map fst (map (rec_pair sha) (ov_keys ov)) = map (rec_digest sha) (ov_keys ov)" by (simp add: rec_pair_def)
  show "distinct (map kc_id (ov_keys ov))" "distinct (map (rec_digest sha) (ov_keys ov))"
    using d unfolding m1 m2 by blast+
qed

text \<open>The replay gives the running registry back: the same keys in the same order, with the same
  expiry and binding.\<close>

lemma replay_reproduces:
  assumes "live_ok sha R0 U D (reg, ov)"
  shows "by_digest (overlay_apply sha now ov R0) = by_digest reg"
    and "(d, p) \<in> set (by_digest reg) \<Longrightarrow>
      cr_expires_at (cred_of (overlay_apply sha now ov R0) d) = cr_expires_at (cred_of reg d) \<and>
      cr_bind (cred_of (overlay_apply sha now ov R0) d) = cr_bind (cred_of reg d)"
proof -
  note l = live_okD[OF assms]
  let ?r1 = "foldl (\<lambda>r e. fst (kr_register sha now (record_entry e) r)) R0 (ov_keys ov)"
  let ?r2 = "foldl (\<lambda>r (k, t). fst (kr_set_expiry k (Some t) r)) ?r1 (ov_retired ov)"
  have all: "\<forall>e \<in> set (ov_keys ov). rec_ok sha e \<and> rec_digest sha e \<notin> digests R0" using l(4) by blast
  note e1 = enrol_all[OF all overlay_labels_distinct(2)[OF assms], where now = now]
  have ok1: "labelled ?r1"
  proof -
    have "registry_ok ?r1"
      using l(1) by (intro enrol_all_ok) (simp add: labelled_def)
    moreover have "labels ?r1 = labels R0 @ map kc_id (ov_keys ov)"
      using l(4) rec_label_of by (auto simp: labels_def e1(1) case_prod_beta)
    ultimately show ?thesis using l(1,4) overlay_labels_distinct(1)[OF assms] by (auto simp: labelled_def)
  qed
  have b2: "by_digest ?r2 = by_digest ?r1" "labelled ?r2"
    using retire_all_keys[OF ok1, of "ov_retired ov"] by blast+
  note e3 = revoke_all[OF b2(2), where ks = "ov_revoked ov"]
  have keep: "filter (\<lambda>(d, p). label_of p \<notin> set (ov_revoked ov)) (map (rec_pair sha) (ov_keys ov)) = map (rec_pair sha) (ov_keys ov)"
    using l(4) rec_label_of by (auto simp: case_prod_beta)
  have ap: "overlay_apply sha now ov R0 = foldl (\<lambda>r k. fst (kr_revoke k r)) ?r2 (ov_revoked ov)"
    by (simp add: overlay_apply_def Let_def)
  show b: "by_digest (overlay_apply sha now ov R0) = by_digest reg"
    unfolding ap e3(1) b2(1) e1(1) l(3) by (simp only: filter_append keep)
  assume m: "(d, p) \<in> set (by_digest reg)"
  have "(d, p) \<in> set (filter (\<lambda>(d, p). label_of p \<notin> set (ov_revoked ov)) (by_digest ?r1))"
    using m unfolding b[symmetric] ap e3(1) b2(1) .
  then have m1: "(d, p) \<in> set (by_digest ?r1)" and nr: "label_of p \<notin> set (ov_revoked ov)" by simp_all
  have c3: "cred_of (overlay_apply sha now ov R0) d = cred_of ?r2 d"
    unfolding ap using e3(2)[of d p] m1 nr b2(1) by simp
  note c2 = retire_all[OF ok1 l(7) m1]
  show "cr_expires_at (cred_of (overlay_apply sha now ov R0) d) = cr_expires_at (cred_of reg d) \<and>
      cr_bind (cred_of (overlay_apply sha now ov R0) d) = cr_bind (cred_of reg d)"
  proof (cases "(d, p) \<in> set (by_digest R0)")
    case True
    then have "cred_of ?r1 d = cred_of R0 d" using e1(2)[of d] by force
    with l(6)[OF True nr] c2 c3 show ?thesis by (simp split: option.split)
  next
    case False
    with m l(3) obtain e where e: "e \<in> set (ov_keys ov)" "(d, p) = rec_pair sha e" by auto
    then have "label_of p = kc_id e" "d = rec_digest sha e" using l(4)[OF e(1)] rec_label_of by (auto simp: rec_pair_def)
    moreover have "od_get (ov_retired ov) (kc_id e) = None" using l(4)[OF e(1)] l(8) by (auto simp: od_get_None_iff)
    ultimately show ?thesis using c2 c3 e1(3)[OF e(1)] l(5)[OF e(1)] by (simp add: rec_cred_def)
  qed
qed

subsection \<open>The handlers keep it\<close>

text \<open>A record that stands for an entry: replaying it registers the same key.\<close>

definition stands_for :: "(string \<Rightarrow> string) \<Rightarrow> key_record \<Rightarrow> key_entry \<Rightarrow> string \<Rightarrow> bool" where
  "stands_for sha rec e d \<longleftrightarrow> entry_digest sha e = Some d \<and> entry_digest sha (record_entry rec) = Some d \<and>
     entry_principal (record_entry rec) d = entry_principal e d \<and> kc_id rec = key_label e d \<and> kc_id rec \<noteq> [] \<and>
     kc_expires_at rec = ke_expires_at e \<and> kc_bind rec = ke_bind e"

lemma live_labels: "live_ok sha R0 U D (reg, ov) \<Longrightarrow> set (labels reg) \<subseteq> U"
proof -
  assume a: "live_ok sha R0 U D (reg, ov)"
  note l = live_okD[OF a]
  have "label_of p \<in> U" if m: "(d, p) \<in> set (by_digest reg)" for d p
  proof (cases "(d, p) \<in> set (by_digest R0)")
    case True
    then have "label_of p \<in> set (labels R0)" by (force simp: labels_def)
    then show ?thesis using l(10) by blast
  next
    case False
    then obtain e where "e \<in> set (ov_keys ov)" "(d, p) = rec_pair sha e" using m l(3) by auto
    then show ?thesis using l(4) rec_label_of[of sha e] by (metis Diff_iff snd_conv)
  qed
  then show ?thesis by (auto simp: labels_def)
qed

lemma live_digests: "live_ok sha R0 U D (reg, ov) \<Longrightarrow> digests reg \<subseteq> D"
  using live_okD(3,4,11)[of sha R0 U D reg ov] by (fastforce simp: rec_pair_def)

lemma register_new:
  assumes "kr_register sha now e reg = (reg', Some k)" "entry_digest sha e = Some d"
  shows "by_digest reg' = by_digest reg @ [(d, entry_principal e d)]" "k = key_label e d" "d \<notin> digests reg"
    "ke_agent_id e \<noteq> []" "\<not> (ke_calls_push e \<and> ke_admin e)"
    "cr_expires_at (cred_of reg' d') = (if d' = d then ke_expires_at e else cr_expires_at (cred_of reg d'))"
    "cr_bind (cred_of reg' d') = (if d' = d then ke_bind e else cr_bind (cred_of reg d'))"
  using assms by (auto simp: kr_register_def keys_put_new cred_of_def od_get_or_def split: if_splits)

lemma entry_principal_fields:
  "p_agent_id (entry_principal e d) = ke_agent_id e" "p_admin (entry_principal e d) = ke_admin e"
  "p_calls_push (entry_principal e d) = ke_calls_push e" "p_key_id (entry_principal e d) = Some (key_label e d)"
  by (simp_all add: entry_principal_def)

lemma enrol_keeps:
  assumes "live_ok sha R0 U D (reg, ov)" "kr_register sha now e reg = (reg', Some k)" "stands_for sha rec e d"
    and "k \<notin> U" "d \<notin> D"
  shows "live_ok sha R0 (insert k U) (insert d D) (reg', add_key rec ov)"
proof -
  note l = live_okD[OF assms(1)]
  have s: "entry_digest sha e = Some d" "entry_digest sha (record_entry rec) = Some d" "kc_id rec = k" "k = key_label e d" "k \<noteq> []"
    "entry_principal (record_entry rec) d = entry_principal e d" "kc_expires_at rec = ke_expires_at e" "kc_bind rec = ke_bind e"
    using assms(3) register_new(2)[OF assms(2)] by (auto simp: stands_for_def)
  note r = register_new[OF assms(2) s(1)]
  have rd: "rec_digest sha rec = d" "rec_pair sha rec = (d, entry_principal e d)"
    using s by (simp_all add: rec_digest_def rec_pair_def)
  have fields: "kc_agent_id rec = ke_agent_id e" "kc_admin rec = ke_admin e" "kc_calls_push rec = ke_calls_push e"
    using arg_cong[OF s(6), of p_agent_id] arg_cong[OF s(6), of p_admin] arg_cong[OF s(6), of p_calls_push]
    by (simp_all add: entry_principal_fields) (simp_all add: record_entry_def)
  have ok: "rec_ok sha rec" using s r(4,5) fields by (simp add: rec_ok_def)
  have kr: "k \<notin> set (ov_revoked ov)" "k \<notin> set (labels R0)" "d \<notin> digests R0" using assms(4,5) l(9,10,11) by blast+
  have ov: "add_key rec ov = ov\<lparr>ov_keys := ov_keys ov @ [rec]\<rparr>"
  proof -
    have "od_del k (ov_retired ov) = ov_retired ov" using l(8) kr(2) by (intro od_del_notin) blast
    moreover have "filter (\<lambda>x. x \<noteq> k) (ov_revoked ov) = ov_revoked ov" using kr(1) by (auto simp: filter_id_conv)
    ultimately show ?thesis by (simp add: add_key_def s(3))
  qed
  have "registry_ok reg'" using register_ok[of reg sha now e] l(2) assms(2) by (simp add: labelled_def)
  moreover have "labels reg' = labels reg @ [k]" by (simp add: labels_def r(1) entry_principal_fields s(4))
  ultimately have lab: "labelled reg'" using l(2) live_labels[OF assms(1)] assms(4) by (auto simp: labelled_def)
  have old: "rec_digest sha e' \<noteq> d" if "e' \<in> set (ov_keys ov)" for e' using l(4)[OF that] assms(5) by auto
  have old0: "d' \<noteq> d" if "(d', p) \<in> set (by_digest R0)" for d' p using that kr(3) by force
  show ?thesis
    unfolding live_ok_def prod.case ov
  proof (intro conjI)
    show "\<forall>x \<in> set (ov_keys (ov\<lparr>ov_keys := ov_keys ov @ [rec]\<rparr>)).
       rec_ok sha x \<and> kc_id x \<in> insert k U - set (labels R0) - set (ov_revoked (ov\<lparr>ov_keys := ov_keys ov @ [rec]\<rparr>)) \<and>
       rec_digest sha x \<in> insert d D - digests R0 \<and> cr_expires_at (cred_of reg' (rec_digest sha x)) = kc_expires_at x \<and>
       cr_bind (cred_of reg' (rec_digest sha x)) = kc_bind x"
      using l(4,5) ok s(3,7,8) rd kr r(6,7) old by auto
  qed (use l lab rd r old0 in auto)
qed

lemma set_labels: "k \<in> set (labels reg) \<longleftrightarrow> (\<exists>d p. (d, p) \<in> set (by_digest reg) \<and> label_of p = k)"
  by (force simp: labels_def)

lemma kr_revoke_True: "kr_revoke k reg = (reg', True) \<Longrightarrow> digest_of_label reg k \<noteq> None \<and> reg' = fst (kr_revoke k reg)"
  by (auto simp: kr_revoke_def split: option.splits)

lemma map_filter_rec:
  "\<forall>e \<in> set es. rec_ok sha e \<Longrightarrow>
     filter (\<lambda>(d, p). label_of p \<noteq> k) (map (rec_pair sha) es) = map (rec_pair sha) (filter (\<lambda>e. kc_id e \<noteq> k) es)"
  by (induction es) (auto simp: rec_label_of case_prod_beta)

lemma revoke_keeps:
  assumes "live_ok sha R0 U D (reg, ov)" "kr_revoke k reg = (reg', True)"
  shows "live_ok sha R0 U D (reg', revoke_key k ov)"
proof -
  note l = live_okD[OF assms(1)]
  have reg': "reg' = fst (kr_revoke k reg)" and "digest_of_label reg k \<noteq> None" using kr_revoke_True[OF assms(2)] by auto
  then have kU: "k \<in> U" using digest_of_label_None[OF l(2), of k] live_labels[OF assms(1)] by auto
  have rev: "set (ov_revoked (revoke_key k ov)) = insert k (set (ov_revoked ov))" by (auto simp: revoke_key_def)
  have keys: "ov_keys (revoke_key k ov) = filter (\<lambda>e. kc_id e \<noteq> k) (ov_keys ov)"
    "ov_retired (revoke_key k ov) = od_del k (ov_retired ov)" by (simp_all add: revoke_key_def)
  have lab: "labelled reg'" using revoke_labelled[OF l(2)] reg' by simp
  have byd: "by_digest reg' = filter (\<lambda>(d, p). label_of p \<notin> insert k (set (ov_revoked ov))) (by_digest R0)
              @ map (rec_pair sha) (filter (\<lambda>e. kc_id e \<noteq> k) (ov_keys ov))"
    using l(4) map_filter_rec[of "ov_keys ov" sha k]
    by (auto simp: reg' revoke_filter[OF l(2)] l(3) intro!: filter_cong)
  have cr: "cred_of reg' d = cred_of reg d" if "(d, p) \<in> set (by_digest reg)" "label_of p \<noteq> k" for d p
    using cred_of_revoke[OF l(2) that] reg' by simp
  have inreg: "(d, p) \<in> set (by_digest reg)" if "(d, p) \<in> set (by_digest R0)" "label_of p \<notin> set (ov_revoked ov)" for d p
    using that l(3) by simp
  have cr0: "cred_of reg' d = cred_of reg d"
    if "(d, p) \<in> set (by_digest R0)" "label_of p \<notin> insert k (set (ov_revoked ov))" for d p
    using that cr[OF inreg, of d p] by simp
  have crk: "cred_of reg' (rec_digest sha e) = cred_of reg (rec_digest sha e)" if "e \<in> set (ov_keys ov)" "kc_id e \<noteq> k" for e
  proof -
    have "rec_pair sha e \<in> set (by_digest reg)" using that(1) l(3) by simp
    moreover have "label_of (snd (rec_pair sha e)) \<noteq> k" using rec_label_of[of sha e] l(4)[OF that(1)] that(2) by simp
    ultimately show ?thesis using cr[of "rec_digest sha e" "snd (rec_pair sha e)"] by (simp add: rec_pair_def)
  qed
  show ?thesis
    unfolding live_ok_def prod.case rev keys
  proof (intro conjI)
    show "by_digest reg' = filter (\<lambda>(d, p). label_of p \<notin> insert k (set (ov_revoked ov))) (by_digest R0)
              @ map (rec_pair sha) (filter (\<lambda>e. kc_id e \<noteq> k) (ov_keys ov))" by (rule byd)
    show "\<forall>e \<in> set (filter (\<lambda>e. kc_id e \<noteq> k) (ov_keys ov)). rec_ok sha e \<and>
        kc_id e \<in> U - set (labels R0) - insert k (set (ov_revoked ov)) \<and> rec_digest sha e \<in> D - digests R0 \<and>
        cr_expires_at (cred_of reg' (rec_digest sha e)) = kc_expires_at e \<and> cr_bind (cred_of reg' (rec_digest sha e)) = kc_bind e"
      using l(4,5) crk by auto
    show "\<forall>d p. (d, p) \<in> set (by_digest R0) \<longrightarrow> label_of p \<notin> insert k (set (ov_revoked ov)) \<longrightarrow>
        cr_expires_at (cred_of reg' d) = (case od_get (od_del k (ov_retired ov)) (label_of p) of None \<Rightarrow> cr_expires_at (cred_of R0 d) | Some t \<Rightarrow> Some t) \<and>
        cr_bind (cred_of reg' d) = cr_bind (cred_of R0 d)"
      using l(6) cr0 by simp
  qed (use l lab kU in auto)
qed

lemma expire_first_same:
  "map (rec_pair sha) (expire_first k t es) = map (rec_pair sha) es"
  "map kc_id (expire_first k t es) = map kc_id es" "map (rec_digest sha) (expire_first k t es) = map (rec_digest sha) es"
  by (induction es)
    (simp_all add: rec_pair_def rec_digest_def record_entry_def entry_digest_def entry_principal_def key_label_def given_def)

lemma expire_first_in:
  assumes "distinct (map kc_id es)" "x \<in> set (expire_first k t es)"
  shows "\<exists>e \<in> set es. x = (if kc_id e = k then e\<lparr>kc_expires_at := Some t\<rparr> else e)"
  using assms
proof (induction es)
  case (Cons a es)
  show ?case
  proof (cases "kc_id a = k")
    case True
    with Cons.prems(1) have "\<forall>e \<in> set es. kc_id e \<noteq> k" by (auto simp: image_iff)
    with True Cons.prems(2) show ?thesis by auto
  next
    case False
    then have "x = a \<or> x \<in> set (expire_first k t es)" using Cons.prems(2) by simp
    then show ?thesis
    proof
      assume "x = a"
      with False show ?thesis by (intro bexI[of _ a]) simp_all
    next
      assume "x \<in> set (expire_first k t es)"
      with Cons.IH Cons.prems(1) show ?thesis by (metis distinct.simps(2) list.set_intros(2) list.simps(9))
    qed
  qed
qed simp

lemma rec_expiry_irrelevant:
  "rec_ok sha (e\<lparr>kc_expires_at := v\<rparr>) = rec_ok sha e" "rec_digest sha (e\<lparr>kc_expires_at := v\<rparr>) = rec_digest sha e"
  by (simp_all add: rec_ok_def rec_digest_def record_entry_def entry_digest_def given_def)

lemma expire_keeps:
  assumes "live_ok sha R0 U D (reg, ov)" "k \<in> set (labels reg)"
  shows "live_ok sha R0 U D (fst (kr_set_expiry k (Some t) reg), expire_key k t ov)"
proof -
  note l = live_okD[OF assms(1)]
  let ?reg' = "fst (kr_set_expiry k (Some t) reg)"
  have lab: "labelled ?reg'" by (rule expiry_labelled[OF l(2)])
  have cr: "cred_of ?reg' d = (if label_of p = k then (cred_of reg d)\<lparr>cr_expires_at := Some t\<rparr> else cred_of reg d)"
    if "(d, p) \<in> set (by_digest reg)" for d p
    by (rule cred_of_expiry[OF l(2) that])
  have inreg: "(d, p) \<in> set (by_digest reg)" if "(d, p) \<in> set (by_digest R0)" "label_of p \<notin> set (ov_revoked ov)" for d p
    using that l(3) by simp
  have cr0: "cred_of ?reg' d = (if label_of p = k then (cred_of reg d)\<lparr>cr_expires_at := Some t\<rparr> else cred_of reg d)"
    if "(d, p) \<in> set (by_digest R0)" "label_of p \<notin> set (ov_revoked ov)" for d p
    by (rule cr[OF inreg[OF that]])
  have crk: "cred_of ?reg' (rec_digest sha e) =
      (if kc_id e = k then (cred_of reg (rec_digest sha e))\<lparr>cr_expires_at := Some t\<rparr> else cred_of reg (rec_digest sha e))"
    if "e \<in> set (ov_keys ov)" for e
  proof -
    have "rec_pair sha e \<in> set (by_digest reg)" using that l(3) by simp
    then show ?thesis
      using cr[of "rec_digest sha e" "snd (rec_pair sha e)"] rec_label_of[of sha e] l(4)[OF that] by (simp add: rec_pair_def)
  qed
  show ?thesis
  proof (cases "k \<in> kc_id ` set (ov_keys ov)")
    case True
    then have kR: "k \<notin> set (labels R0)" using l(4) by auto
    have ov: "expire_key k t ov = ov\<lparr>ov_keys := expire_first k t (ov_keys ov)\<rparr>" using True by (simp add: expire_key_def)
    have "rec_ok sha x \<and> kc_id x \<in> U - set (labels R0) - set (ov_revoked ov) \<and> rec_digest sha x \<in> D - digests R0 \<and>
        cr_expires_at (cred_of ?reg' (rec_digest sha x)) = kc_expires_at x \<and> cr_bind (cred_of ?reg' (rec_digest sha x)) = kc_bind x"
      if x: "x \<in> set (expire_first k t (ov_keys ov))" for x
    proof -
      obtain e where e: "e \<in> set (ov_keys ov)" "x = (if kc_id e = k then e\<lparr>kc_expires_at := Some t\<rparr> else e)"
        using expire_first_in[OF overlay_labels_distinct(1)[OF assms(1)] x] by blast
      then show ?thesis using l(4,5)[OF e(1)] crk[OF e(1)] by (cases "kc_id e = k") (auto simp: rec_expiry_irrelevant)
    qed
    moreover have "cr_expires_at (cred_of ?reg' d) = (case od_get (ov_retired ov) (label_of p) of None \<Rightarrow> cr_expires_at (cred_of R0 d) | Some t \<Rightarrow> Some t)
        \<and> cr_bind (cred_of ?reg' d) = cr_bind (cred_of R0 d)"
      if m: "(d, p) \<in> set (by_digest R0)" "label_of p \<notin> set (ov_revoked ov)" for d p
    proof -
      have "label_of p \<noteq> k" using kR m(1) by (auto simp: set_labels)
      then show ?thesis using cr0[OF m] l(6)[OF m] by simp
    qed
    ultimately show ?thesis
      unfolding live_ok_def prod.case ov using l(1-3,7-11) lab by (simp add: expiry_by_digest expire_first_same)
  next
    case False
    obtain d p where dp: "(d, p) \<in> set (by_digest reg)" "label_of p = k" using assms(2) by (auto simp: set_labels)
    have "k \<in> set (labels R0)"
    proof (rule ccontr)
      assume "k \<notin> set (labels R0)"
      then have "(d, p) \<notin> set (by_digest R0)" using dp(2) by (auto simp: set_labels)
      then obtain e where "e \<in> set (ov_keys ov)" "(d, p) = rec_pair sha e" using dp(1) l(3) by auto
      then show False using False dp(2) l(4) rec_label_of[of sha e] by (metis imageI snd_conv)
    qed
    moreover have ov: "expire_key k t ov = ov\<lparr>ov_retired := od_put k t (ov_retired ov)\<rparr>" using False by (simp add: expire_key_def)
    moreover have "kc_id e \<noteq> k" if "e \<in> set (ov_keys ov)" for e using False that by auto
    moreover have "cr_expires_at (cred_of ?reg' d) =
          (case od_get (od_put k t (ov_retired ov)) (label_of p) of None \<Rightarrow> cr_expires_at (cred_of R0 d) | Some t \<Rightarrow> Some t)
        \<and> cr_bind (cred_of ?reg' d) = cr_bind (cred_of R0 d)"
      if m: "(d, p) \<in> set (by_digest R0)" "label_of p \<notin> set (ov_revoked ov)" for d p
      using cr0[OF m] l(6)[OF m] by simp
    ultimately show ?thesis
      unfolding live_ok_def prod.case ov using l(1-5,7-11) lab crk by (simp add: expiry_by_digest)
  qed
qed

subsection \<open>Sequences of administrative operations\<close>

datatype admin_op = Enrol key_spec string real | Revoke string | Rotate string rotate_spec string real

fun admin_do :: "(string \<Rightarrow> string) \<Rightarrow> admin_state \<Rightarrow> admin_op \<Rightarrow> admin_state" where
  "admin_do sha st (Enrol sp token now) = snd (handle_enrol sha now token sp st)"
| "admin_do sha st (Revoke k) = snd (handle_revoke k st)"
| "admin_do sha st (Rotate k sp token now) = snd (handle_rotate sha now token k sp st)"

text \<open>The label and the digest an operation would introduce.\<close>

definition new_digest :: "(string \<Rightarrow> string) \<Rightarrow> string \<Rightarrow> string option \<Rightarrow> string option" where
  "new_digest sha token dig =
     (case dig of
        None \<Rightarrow> Some (sha (''rs-'' @ token))
      | Some x \<Rightarrow> if x = [] then None else let d = py_lower (py_strip x) in if hex_digest_ok d then Some d else None)"

lemma entry_digest_new:
  "ke_secret e = secret_of token (ke_sha256 e) \<Longrightarrow> entry_digest sha e = new_digest sha token (ke_sha256 e)"
  by (auto simp: entry_digest_def new_digest_def secret_of_def given_def split: option.split)

fun new_key :: "(string \<Rightarrow> string) \<Rightarrow> admin_op \<Rightarrow> (string \<times> string) option" where
  "new_key sha (Enrol sp token now) =
     map_option (\<lambda>d. (case sp_id sp of Some k \<Rightarrow> (if k \<noteq> [] then k else take 8 d) | None \<Rightarrow> take 8 d, d)) (new_digest sha token (sp_sha256 sp))"
| "new_key sha (Revoke k) = None"
| "new_key sha (Rotate k sp token now) =
     map_option (\<lambda>d. (let l = (case rt_id sp of Some i \<Rightarrow> i | None \<Rightarrow> k @ ''-r'' @ show_int (py_int now)) in
                      if l \<noteq> [] then l else take 8 d, d)) (new_digest sha token (rt_sha256 sp))"

text \<open>No label and no digest is used twice.\<close>

fun fresh_ops :: "(string \<Rightarrow> string) \<Rightarrow> string set \<Rightarrow> string set \<Rightarrow> admin_op list \<Rightarrow> bool" where
  "fresh_ops sha U D [] = True"
| "fresh_ops sha U D (op # ops) =
     (case new_key sha op of
        None \<Rightarrow> fresh_ops sha U D ops
      | Some (k, d) \<Rightarrow> k \<notin> U \<and> d \<notin> D \<and> fresh_ops sha (insert k U) (insert d D) ops)"

lemma hex_char_plain: "c \<in> set ''0123456789abcdef'' \<Longrightarrow> lower_char c = c \<and> \<not> py_isspace c"
  by (auto simp: lower_char_def py_isspace_def)

lemma strip_plain: "\<forall>c \<in> set s. \<not> py_isspace c \<Longrightarrow> py_strip s = s"
proof -
  assume a: "\<forall>c \<in> set s. \<not> py_isspace c"
  have d: "dropWhile py_isspace t = t" if "set t \<subseteq> set s" for t using a that by (cases t) auto
  show ?thesis by (simp add: py_strip_def d)
qed

lemma hex_digest_plain: "hex_digest_ok d \<Longrightarrow> py_lower (py_strip d) = d \<and> d \<noteq> [] \<and> take 8 d \<noteq> []"
proof -
  assume h: "hex_digest_ok d"
  then have c: "\<forall>c \<in> set d. lower_char c = c \<and> \<not> py_isspace c"
    unfolding hex_digest_ok_def list_all_iff using hex_char_plain by blast
  then have "py_strip d = d" "map lower_char d = d" using strip_plain by (auto simp: map_idI)
  then show ?thesis using h by (auto simp: py_lower_def hex_digest_ok_def)
qed

lemma coerce_prio_name: "coerce_priority (Some (prio_name p)) = p"
  by (cases p; simp add: prio_name_def; code_simp)

lemma record_stands:
  assumes "\<forall>s. hex_digest_ok (sha s)" "entry_digest sha e = Some d" "ke_secret e = secret_of token (ke_sha256 e)"
    and "coerce_priority (Some prio) = ke_priority e" "\<not> ke_priority_declared e"
  shows "stands_for sha (record_of sha (key_label e d) prio e) e d"
proof -
  let ?rec = "record_of sha (key_label e d) prio e"
  have n: "new_digest sha token (ke_sha256 e) = Some d" using entry_digest_new[OF assms(3)] assms(2) by simp
  have hd: "hex_digest_ok d"
    using n assms(1) by (auto simp: new_digest_def Let_def split: option.splits if_splits)
  have kl: "key_label e d \<noteq> []" using hex_digest_plain[OF hd] by (auto simp: key_label_def split: option.split)
  have "entry_digest sha (record_entry ?rec) = Some d"
  proof (cases "ke_sha256 e")
    case None
    then have "d = sha (''rs-'' @ token)" using n by (simp add: new_digest_def)
    then show ?thesis using hd hex_digest_plain[OF hd] assms(3) None
      by (simp add: entry_digest_def record_entry_def record_of_def digest_or_def given_def secret_of_def)
  next
    case (Some x)
    then show ?thesis using n
      by (auto simp: entry_digest_def record_entry_def record_of_def digest_or_def given_def new_digest_def Let_def split: if_splits)
  qed
  moreover have "entry_principal (record_entry ?rec) d = entry_principal e d"
    using assms(4,5) kl by (simp add: entry_principal_def record_entry_def record_of_def) (simp add: key_label_def)
  ultimately show ?thesis using assms(2) kl by (simp add: stands_for_def record_of_def)
qed

lemma live_mono:
  assumes "live_ok sha R0 U D st" "U \<subseteq> U'" "D \<subseteq> D'" shows "live_ok sha R0 U' D' st"
proof -
  obtain reg ov where st: "st = (reg, ov)" by force
  note l = live_okD[OF assms(1)[unfolded st]]
  have "kc_id e \<in> U' - set (labels R0) - set (ov_revoked ov)" "rec_digest sha e \<in> D' - digests R0"
    if "e \<in> set (ov_keys ov)" for e using l(4)[OF that] assms(2,3) by blast+
  then show ?thesis unfolding st live_ok_def prod.case using l assms(2,3) by blast
qed

lemma register_None: "kr_register sha now e reg = (reg', None) \<Longrightarrow> reg' = reg"
  by (auto simp: kr_register_def split: option.splits if_splits)

lemma register_Some_digest: "kr_register sha now e reg = (reg', Some k) \<Longrightarrow> \<exists>d. entry_digest sha e = Some d \<and> k = key_label e d"
  by (auto simp: kr_register_def split: option.splits if_splits)

lemma spec_entry_fields:
  "ke_secret (spec_entry sp token now) = secret_of token (ke_sha256 (spec_entry sp token now))"
  "ke_sha256 (spec_entry sp token now) = sp_sha256 sp" "\<not> ke_priority_declared (spec_entry sp token now)"
  "ke_priority (spec_entry sp token now) = coerce_priority (sp_priority sp)" "ke_key_id (spec_entry sp token now) = sp_id sp"
  by (simp_all add: spec_entry_def)

lemma successor_entry_fields:
  "ke_secret (successor_entry reg (d, p) k sp token now) = secret_of token (ke_sha256 (successor_entry reg (d, p) k sp token now))"
  "ke_sha256 (successor_entry reg (d, p) k sp token now) = rt_sha256 sp"
  "\<not> ke_priority_declared (successor_entry reg (d, p) k sp token now)"
  "ke_priority (successor_entry reg (d, p) k sp token now) = p_priority p"
  "ke_key_id (successor_entry reg (d, p) k sp token now) = Some (case rt_id sp of Some i \<Rightarrow> i | None \<Rightarrow> k @ ''-r'' @ show_int (py_int now))"
  by (simp_all add: successor_entry_def coerce_prio_name)

lemma find_in: "List.find P xs = Some x \<Longrightarrow> x \<in> set xs \<and> P x"
  by (induction xs) (auto split: if_splits)

lemma snapshot_row_in: "snapshot_row reg k = Some (d, p) \<Longrightarrow> (d, p) \<in> set (by_digest reg) \<and> p_key_id p = Some k"
  using find_in[of "\<lambda>(d, p). p_key_id p = Some k"] by (fastforce simp: snapshot_row_def)

lemma enrol_step:
  assumes "live_ok sha R0 U D (reg, ov)" "\<forall>s. hex_digest_ok (sha s)"
    and "new_key sha (Enrol sp token now) = Some (k, d)" "k \<notin> U" "d \<notin> D"
  shows "live_ok sha R0 (insert k U) (insert d D) (admin_do sha (reg, ov) (Enrol sp token now))"
proof -
  let ?e = "spec_entry sp token now"
  obtain reg' r where r: "kr_register sha now ?e reg = (reg', r)" by force
  show ?thesis
  proof (cases r)
    case None
    then have "admin_do sha (reg, ov) (Enrol sp token now) = (reg, ov)"
      using r register_None[of sha now ?e reg reg'] by (simp add: handle_enrol_def Let_def)
    then show ?thesis using live_mono[OF assms(1) subset_insertI subset_insertI] by simp
  next
    case (Some k')
    from register_Some_digest[OF r[unfolded Some]] obtain d' where d': "entry_digest sha ?e = Some d'" "k' = key_label ?e d'" by blast
    have eq: "d' = d" "k' = k"
      using assms(3) d' entry_digest_new[OF spec_entry_fields(1), of sha sp token now]
      by (auto simp: spec_entry_fields(2,5) key_label_def split: option.splits)
    let ?prio = "case sp_priority sp of Some p \<Rightarrow> p | None \<Rightarrow> prio_name P3_INGESTION"
    have p: "coerce_priority (Some ?prio) = ke_priority ?e"
      using coerce_prio_name by (auto simp: spec_entry_fields(4) coerce_priority_def split: option.split)
    have "stands_for sha (record_of sha k ?prio ?e) ?e d"
      using record_stands[OF assms(2) d'(1) spec_entry_fields(1) p spec_entry_fields(3)] d'(2) eq by simp
    from enrol_keeps[OF assms(1) r[unfolded Some eq] this assms(4,5)] show ?thesis
      by (simp add: handle_enrol_def Let_def r Some eq)
  qed
qed

lemma rotate_step:
  assumes "live_ok sha R0 U D (reg, ov)" "\<forall>s. hex_digest_ok (sha s)"
    and "new_key sha (Rotate k0 sp token now) = Some (k, d)" "k \<notin> U" "d \<notin> D"
  shows "live_ok sha R0 (insert k U) (insert d D) (admin_do sha (reg, ov) (Rotate k0 sp token now))"
proof (cases "snapshot_row reg k0")
  case None
  then show ?thesis using live_mono[OF assms(1) subset_insertI subset_insertI] by (simp add: handle_rotate_def)
next
  case (Some row)
  then obtain d0 p where row: "snapshot_row reg k0 = Some (d0, p)" by (cases row) auto
  let ?e = "successor_entry reg (d0, p) k0 sp token now"
  obtain reg1 r where r: "kr_register sha now ?e reg = (reg1, r)" by force
  show ?thesis
  proof (cases r)
    case None
    then have "admin_do sha (reg, ov) (Rotate k0 sp token now) = (reg, ov)"
      using r register_None[of sha now ?e reg reg1] by (simp add: handle_rotate_def row Let_def)
    then show ?thesis using live_mono[OF assms(1) subset_insertI subset_insertI] by simp
  next
    case (Some k')
    from register_Some_digest[OF r[unfolded Some]] obtain d' where d': "entry_digest sha ?e = Some d'" "k' = key_label ?e d'" by blast
    have eq: "d' = d" "k' = k"
      using assms(3) d' entry_digest_new[OF successor_entry_fields(1), of sha reg d0 p k0 sp token now]
      by (auto simp: successor_entry_fields(2,5) key_label_def Let_def split: option.splits)
    have "stands_for sha (record_of sha k (prio_name (p_priority p)) ?e) ?e d"
      using record_stands[OF assms(2) d'(1) successor_entry_fields(1), of "prio_name (p_priority p)"]
        coerce_prio_name successor_entry_fields(3,4)[of reg d0 p k0 sp token now] d'(2) eq by auto
    note live = enrol_keeps[OF assms(1) r[unfolded Some eq] this assms(4,5)]
    have "(d0, p) \<in> set (by_digest reg1)" "p_key_id p = Some k0"
      using snapshot_row_in[OF row] register_new(1)[OF r[unfolded Some] d'(1)] by auto
    then have k0: "k0 \<in> set (labels reg1)" by (force simp: set_labels)
    then obtain reg2 where rev: "kr_revoke k0 reg1 = (reg2, True)"
      using digest_of_label_None[OF live_okD(2)[OF live], of k0] by (auto simp: kr_revoke_def split: option.splits)
    show ?thesis
      using revoke_keeps[OF live rev] expire_keeps[OF live k0] by (simp add: handle_rotate_def row r Some eq Let_def rev)
  qed
qed

lemma revoke_step:
  assumes "live_ok sha R0 U D (reg, ov)" shows "live_ok sha R0 U D (admin_do sha (reg, ov) (Revoke k))"
proof -
  obtain reg' b where r: "kr_revoke k reg = (reg', b)" by force
  show ?thesis
  proof (cases b)
    case True
    then show ?thesis using revoke_keeps[OF assms] r by (simp add: handle_revoke_def)
  next
    case False
    then have "reg' = reg" using r by (auto simp: kr_revoke_def split: option.splits)
    then show ?thesis using assms r False by (simp add: handle_revoke_def)
  qed
qed

lemma live_run:
  assumes "\<forall>s. hex_digest_ok (sha s)"
  shows "live_ok sha R0 U D st \<Longrightarrow> fresh_ops sha U D ops \<Longrightarrow> \<exists>U' D'. live_ok sha R0 U' D' (foldl (admin_do sha) st ops)"
proof (induction ops arbitrary: U D st)
  case (Cons op ops)
  obtain reg ov where st: "st = (reg, ov)" by force
  show ?case
  proof (cases "new_key sha op")
    case None
    have "live_ok sha R0 U D (admin_do sha st op)"
    proof (cases op)
      case (Revoke k)
      then show ?thesis using revoke_step Cons.prems(1) st by simp
    next
      case (Enrol sp token now)
      then have "entry_digest sha (spec_entry sp token now) = None"
        using None entry_digest_new[OF spec_entry_fields(1)] by (auto simp: spec_entry_fields(2))
      then show ?thesis using Cons.prems(1) st Enrol by (simp add: handle_enrol_def kr_register_def Let_def)
    next
      case (Rotate k sp token now)
      then have "entry_digest sha (successor_entry reg (d, p) k sp token now) = None" for d p
        using None entry_digest_new[OF successor_entry_fields(1)] by (auto simp: successor_entry_fields(2))
      then show ?thesis using Cons.prems(1) st Rotate
        by (auto simp: handle_rotate_def kr_register_def Let_def split: option.split)
    qed
    with Cons.IH Cons.prems(2) None show ?thesis by simp
  next
    case (Some kd)
    obtain k d where kd: "kd = (k, d)" by force
    have f: "k \<notin> U" "d \<notin> D" "fresh_ops sha (insert k U) (insert d D) ops" using Cons.prems(2) Some kd by simp_all
    have "live_ok sha R0 (insert k U) (insert d D) (admin_do sha st op)"
      using enrol_step rotate_step Cons.prems(1) assms f(1,2) Some kd st by (cases op) auto
    with Cons.IH f(3) show ?thesis by simp
  qed
qed auto

subsection \<open>The theorem\<close>

lemma live_start: "labelled R0 \<Longrightarrow> live_ok sha R0 (set (labels R0)) (digests R0) (R0, empty_overlay)"
  by (simp add: live_ok_def empty_overlay_def labelled_def)

lemma lookup_cong:
  assumes "by_digest r1 = by_digest r2"
    and "\<And>d p. (d, p) \<in> set (by_digest r2) \<Longrightarrow> cr_expires_at (cred_of r1 d) = cr_expires_at (cred_of r2 d) \<and> cr_bind (cred_of r1 d) = cr_bind (cred_of r2 d)"
  shows "kr_lookup sha now r1 s = kr_lookup sha now r2 s"
proof -
  have "cr_expires_at (cred_of r1 d) = cr_expires_at (cred_of r2 d) \<and> cr_bind (cred_of r1 d) = cr_bind (cred_of r2 d)"
    if "od_get (by_digest r2) d = Some p" for d p
    using assms(2)[OF map_of_SomeD[OF that]] .
  then show ?thesis using assms(1) by (auto simp: kr_lookup_def kr_is_expired_def Let_def split: option.split)
qed

text \<open>C5: a restart changes nobody's credentials. Whatever sequence of enrolments, revocations and
  rotations an operator has performed on a registry in which a label names one key, if no
  operation reused a label or a digest, then replaying the stored overlay over the declarations
  answers every presented secret, at every instant, exactly as the running registry did.\<close>

theorem restart_reproduces_keys:
  assumes "\<forall>s. hex_digest_ok (sha s)" "labelled R0" "fresh_ops sha (set (labels R0)) (digests R0) ops"
    and "foldl (admin_do sha) (R0, empty_overlay) ops = (reg, ov)"
  shows "kr_lookup sha now (overlay_apply sha t ov R0) s = kr_lookup sha now reg s"
proof -
  obtain U D where l: "live_ok sha R0 U D (reg, ov)"
    using live_run[OF assms(1) live_start[OF assms(2)] assms(3)] assms(4) by auto
  show ?thesis by (rule lookup_cong[OF replay_reproduces(1)[OF l] replay_reproduces(2)[OF l]])
qed

text \<open>A digest function to compute with, and a registry with one key from the keys file.\<close>

definition last_digest :: "string \<Rightarrow> string" where
  "last_digest s = replicate 64 (if s \<noteq> [] \<and> last s \<in> set ''0123456789abcdef'' then last s else CHR ''0'')"

definition file_key :: key_entry where
  "file_key = \<lparr>ke_agent_id = ''chat'', ke_secret = Some ''rs-a'', ke_sha256 = None, ke_priority = P1_TURN_SUPPORT,
     ke_priority_declared = True, ke_min_timeout_s = None, ke_admin = False, ke_admin_readonly = False, ke_calls_push = False,
     ke_expires_at = None, ke_bind = [], ke_may_assert = [], ke_key_id = Some ''k'', ke_source = ''file'', ke_bootstrap = False\<rparr>"

definition file_registry :: key_registry where
  "file_registry = fst (kr_register last_digest 0 file_key empty_registry)"

definition plain_spec :: "string \<Rightarrow> key_spec" where
  "plain_spec k = \<lparr>sp_agent_id = ''chat'', sp_priority = Some ''P1_TURN_SUPPORT'', sp_min_timeout_s = None, sp_admin = False,
     sp_admin_readonly = False, sp_calls_push = False, sp_expires_in_s = None, sp_bind = [], sp_may_assert = [],
     sp_id = Some k, sp_sha256 = None\<rparr>"

definition plain_rotation :: "string \<Rightarrow> rotate_spec" where
  "plain_rotation k = \<lparr>rt_id = Some k, rt_sha256 = None, rt_overlap_s = None, rt_expires_in_s = None\<rparr>"

lemma last_digest_ok: "\<forall>s. hex_digest_ok (last_digest s)"
proof
  fix s
  define c where "c = (if s \<noteq> [] \<and> last s \<in> set ''0123456789abcdef'' then last s else CHR ''0'')"
  have "CHR ''0'' \<in> set ''0123456789abcdef''" by simp
  then have "c \<in> set ''0123456789abcdef''" unfolding c_def by presburger
  then have "hex_digest_ok (replicate 64 c)"
    unfolding hex_digest_ok_def list_all_iff by (metis in_set_replicate length_replicate)
  then show "hex_digest_ok (last_digest s)" unfolding last_digest_def c_def .
qed

lemma file_registry_labelled: "labelled file_registry"
proof -
  have "labels file_registry = [''k'']" by code_simp
  moreover have "registry_ok file_registry"
    unfolding file_registry_def by (rule register_ok) (simp add: registry_ok_def empty_registry_def)
  ultimately show ?thesis by (simp add: labelled_def)
qed

abbreviation witness_ops :: "admin_op list" where
  "witness_ops \<equiv> [Enrol (plain_spec ''n'') ''b'' 5, Rotate ''k'' (plain_rotation ''m'') ''c'' 6, Revoke ''n'']"

lemma restart_reproduces_keys_witness:
  "kr_lookup last_digest 9 (overlay_apply last_digest 8 (snd (foldl (admin_do last_digest) (file_registry, empty_overlay) witness_ops)) file_registry) ''rs-c'' =
   kr_lookup last_digest 9 (fst (foldl (admin_do last_digest) (file_registry, empty_overlay) witness_ops)) ''rs-c'' \<and>
   kl_principal (kr_lookup last_digest 9 (fst (foldl (admin_do last_digest) (file_registry, empty_overlay) witness_ops)) ''rs-c'') \<noteq> None"
proof -
  have f: "fresh_ops last_digest (set (labels file_registry)) (digests file_registry) witness_ops" by code_simp
  have "kl_principal (kr_lookup last_digest 9 (fst (foldl (admin_do last_digest) (file_registry, empty_overlay) witness_ops)) ''rs-c'') \<noteq> None"
    by code_simp
  with restart_reproduces_keys[OF last_digest_ok file_registry_labelled f prod.collapse[symmetric]] show ?thesis by blast
qed

subsection \<open>Labels used twice\<close>

text \<open>Enrolling a new key under the label of a revoked declared key clears the tombstone of the old
  one: the running service refuses the revoked secret, and after a restart it is accepted again.\<close>

lemma reenrolment_revives_revoked_key:
  defines "st \<equiv> foldl (admin_do last_digest) (file_registry, empty_overlay) [Revoke ''k'', Enrol (plain_spec ''k'') ''b'' 5]"
  shows "kl_principal (kr_lookup last_digest 9 (fst st) ''rs-a'') = None \<and>
    kl_principal (kr_lookup last_digest 9 (overlay_apply last_digest 8 (snd st) file_registry) ''rs-a'') \<noteq> None"
  unfolding st_def by code_simp

text \<open>A rotation that names its successor like the predecessor: the running service accepts the new
  secret, and after a restart neither secret works.\<close>

lemma rotation_to_same_label_is_lost:
  defines "st \<equiv> foldl (admin_do last_digest) (file_registry, empty_overlay) [Rotate ''k'' (plain_rotation ''k'') ''c'' 6]"
  shows "kl_principal (kr_lookup last_digest 9 (fst st) ''rs-c'') \<noteq> None \<and>
    kl_principal (kr_lookup last_digest 9 (overlay_apply last_digest 8 (snd st) file_registry) ''rs-c'') = None"
  unfolding st_def by code_simp

end
