(* ===== verification/On_Demand.thy ===== *)
theory On_Demand
  imports Config
begin

section \<open>On-demand leases and residency (on_demand.py, residency.py)\<close>

text \<open>
  The lease lifecycle of \<^verbatim>\<open>OnDemandManager\<close> and the read-only \<^verbatim>\<open>ResidencyReader\<close>.

  The dispatcher is a service outside the repository: what it answers is an argument
  (\<open>dispatcher_reply\<close>, \<open>status_read\<close>). A coroutine of the manager can be interrupted only at an
  \<^verbatim>\<open>await\<close>, so \<^verbatim>\<open>ensure_loaded\<close> is two steps, \<open>ensure_enter\<close> up to the POST and
  \<open>ensure_reply\<close> after it, and the visit of the background loop takes the list of
  request-path steps that ran while it waited for the heartbeat. The per-endpoint lock is the flag
  \<open>ls_locked\<close>, held from one half of \<^verbatim>\<open>ensure_loaded\<close> to the other. A lease id is whatever JSON
  value the dispatcher sent; \<open>JNull\<close> is \<^verbatim>\<open>None\<close>.
\<close>

subsection \<open>The lease of one endpoint\<close>

record lease_state =
  ls_capability :: string
  ls_locked :: bool
  lease_id :: json
  inflight :: int
  last_activity :: real
  last_heartbeat :: real

definition heartbeat_s :: real where "heartbeat_s = 60"
definition default_hold_idle_s :: real where "default_hold_idle_s = 60"
definition stuck_inflight_s :: real where "stuck_inflight_s = 1200"

datatype dispatcher_reply = HttpError | Reply int "json option"

datatype ensure_outcome = NotManaged | Waiting | Ready | Posting
datatype ensure_error = OnDemandUnavailable | NotJson | NoGet

definition new_lease :: "string \<Rightarrow> lease_state" where
  "new_lease cap = \<lparr>ls_capability = cap, ls_locked = False, lease_id = JNull, inflight = 0,
     last_activity = 0, last_heartbeat = 0\<rparr>"

text \<open>\<^verbatim>\<open>ensure_loaded\<close> up to the POST. While another call holds the lock this one waits.\<close>

definition ensure_enter :: "real \<Rightarrow> lease_state \<Rightarrow> lease_state \<times> ensure_outcome" where
  "ensure_enter now st =
     (if ls_locked st then (st, Waiting)
      else
        let st1 = st\<lparr>last_activity := now, inflight := inflight st + 1\<rparr>
        in if lease_id st1 \<noteq> JNull then (st1, Ready) else (st1\<lparr>ls_locked := True\<rparr>, Posting))"

definition uncount :: "lease_state \<Rightarrow> lease_state" where
  "uncount st = st\<lparr>inflight := max 0 (inflight st - 1)\<rparr>"

text \<open>\<^verbatim>\<open>ensure_loaded\<close> after the POST: the lock is released on every path.\<close>

definition ensure_reply :: "dispatcher_reply \<Rightarrow> real \<Rightarrow> lease_state \<Rightarrow> lease_state \<times> ensure_error option" where
  "ensure_reply reply now st =
     (let st0 = st\<lparr>ls_locked := False\<rparr> in
      case reply of
        HttpError \<Rightarrow> (uncount st0, Some OnDemandUnavailable)
      | Reply status body \<Rightarrow>
          if status \<noteq> 200 then (uncount st0, Some OnDemandUnavailable)
          else
            (case body of
               None \<Rightarrow> (st0, Some NotJson)
             | Some (JObj kvs) \<Rightarrow> (st0\<lparr>lease_id := jget kvs ''lease_id'', last_heartbeat := now\<rparr>, None)
             | Some _ \<Rightarrow> (st0, Some NoGet)))"

definition request_done :: "real \<Rightarrow> lease_state \<Rightarrow> lease_state" where
  "request_done now st = (uncount st)\<lparr>last_activity := now\<rparr>"

text \<open>What the request path can do to an endpoint, one step per uninterrupted stretch.\<close>

datatype request_step = Enter real | Answer dispatcher_reply real | Done real

fun request_path :: "lease_state \<Rightarrow> request_step \<Rightarrow> lease_state" where
  "request_path st (Enter now) = fst (ensure_enter now st)"
| "request_path st (Answer reply now) = (if ls_locked st then fst (ensure_reply reply now st) else st)"
| "request_path st (Done now) = request_done now st"

subsection \<open>The background loop\<close>

definition leak_guard :: "real \<Rightarrow> lease_state \<Rightarrow> lease_state" where
  "leak_guard now st =
     (if inflight st > 0 \<and> now - last_activity st \<ge> stuck_inflight_s then st\<lparr>inflight := 0\<rparr> else st)"

text \<open>\<^verbatim>\<open>_heartbeat\<close> after the POST.\<close>

definition heartbeat_reply :: "dispatcher_reply \<Rightarrow> real \<Rightarrow> lease_state \<Rightarrow> lease_state" where
  "heartbeat_reply reply now st =
     (case reply of
        HttpError \<Rightarrow> st
      | Reply status _ \<Rightarrow> if status = 200 then st\<lparr>last_heartbeat := now\<rparr> else st\<lparr>lease_id := JNull\<rparr>)"

text \<open>\<^verbatim>\<open>_release\<close> drops the handle before it tells the dispatcher, and ignores the answer.\<close>

definition release :: "lease_state \<Rightarrow> lease_state" where
  "release st = st\<lparr>lease_id := JNull\<rparr>"

definition beats :: "real \<Rightarrow> lease_state \<Rightarrow> bool" where
  "beats now st = (now - last_heartbeat st \<ge> heartbeat_s \<and> truthy (lease_id st))"

text \<open>One endpoint in one pass: \<open>steps\<close> is what the request path did during the heartbeat, which
  the dispatcher answered with \<open>reply\<close> at \<open>t\<close>.\<close>

definition loop_visit ::
  "real \<Rightarrow> real \<Rightarrow> request_step list \<Rightarrow> dispatcher_reply \<Rightarrow> real \<Rightarrow> lease_state \<Rightarrow> lease_state" where
  "loop_visit hold now steps reply t st =
     (if lease_id st = JNull then st
      else
        let st1 = leak_guard now st;
            st2 = (if beats now st1 then heartbeat_reply reply t (foldl request_path st1 steps) else st1)
        in if lease_id st2 \<noteq> JNull \<and> inflight st2 \<le> 0 \<and> now - last_activity st2 \<ge> hold
           then release st2 else st2)"

datatype lease_step =
    OnRequest request_step
  | OnVisit real "request_step list" dispatcher_reply real

fun lease_run :: "real \<Rightarrow> lease_state \<Rightarrow> lease_step \<Rightarrow> lease_state" where
  "lease_run hold st (OnRequest r) = request_path st r"
| "lease_run hold st (OnVisit now steps reply t) = loop_visit hold now steps reply t st"

subsection \<open>The manager\<close>

record on_demand_manager =
  od_url :: string
  hold_idle_s :: real
  od_states :: "(string, lease_state) odict"

definition new_on_demand :: "(string, endpoint_config) odict \<Rightarrow> string \<Rightarrow> real \<Rightarrow> on_demand_manager" where
  "new_on_demand eps url hold =
     \<lparr>od_url = rstrip_slash url, hold_idle_s = hold,
      od_states = map (\<lambda>(n, c). (n, new_lease (dispatcher_capability c)))
        (filter (\<lambda>(n, c). ep_on_demand c \<and> dispatcher_capability c \<noteq> []) eps)\<rparr>"

definition od_active :: "on_demand_manager \<Rightarrow> bool" where
  "od_active m = (od_states m \<noteq> [])"

definition manages :: "on_demand_manager \<Rightarrow> string \<Rightarrow> bool" where
  "manages m ep = (ep \<in> fst ` set (od_states m))"

definition is_loaded :: "on_demand_manager \<Rightarrow> string \<Rightarrow> bool" where
  "is_loaded m ep = (case od_get (od_states m) ep of None \<Rightarrow> False | Some st \<Rightarrow> lease_id st \<noteq> JNull)"

definition od_ensure_enter :: "string \<Rightarrow> real \<Rightarrow> on_demand_manager \<Rightarrow> on_demand_manager \<times> ensure_outcome" where
  "od_ensure_enter ep now m =
     (case od_get (od_states m) ep of
        None \<Rightarrow> (m, NotManaged)
      | Some st \<Rightarrow> let (st', res) = ensure_enter now st in (m\<lparr>od_states := od_put ep st' (od_states m)\<rparr>, res))"

definition od_request_done :: "string \<Rightarrow> real \<Rightarrow> on_demand_manager \<Rightarrow> on_demand_manager" where
  "od_request_done ep now m =
     (case od_get (od_states m) ep of
        None \<Rightarrow> m
      | Some st \<Rightarrow> m\<lparr>od_states := od_put ep (request_done now st) (od_states m)\<rparr>)"

text \<open>\<^verbatim>\<open>close\<close>: every lease with a usable id is given back.\<close>

definition od_close :: "on_demand_manager \<Rightarrow> on_demand_manager" where
  "od_close m = m\<lparr>od_states := map (\<lambda>(n, st). (n, if truthy (lease_id st) then release st else st)) (od_states m)\<rparr>"

subsection \<open>Residency\<close>

record residency_reader =
  rd_url :: string
  rd_tenants :: "(string, string) odict"
  rd_intent :: "(string, string) odict option"
  rd_read_at :: real
  rd_last_error :: string

definition resident :: string where "resident = ''resident''"
definition evicted :: string where "evicted = ''evicted''"
definition unknown :: string where "unknown = ''unknown''"
definition stale_s :: real where "stale_s = 60"

text \<open>One answer to \<^verbatim>\<open>GET /status\<close>: the client raised (with the text it logs), or a status with a
  body that either is not JSON (again with the text) or decodes.\<close>

datatype status_read = ReadRaised string | ReadReply int "string + json"

definition new_residency :: "(string, endpoint_config) odict \<Rightarrow> string \<Rightarrow> residency_reader" where
  "new_residency eps url =
     \<lparr>rd_url = rstrip_slash url,
      rd_tenants = map (\<lambda>(n, c). (n, py_strip (residency_tenant c)))
        (filter (\<lambda>(n, c). py_strip (residency_tenant c) \<noteq> []) eps),
      rd_intent = None, rd_read_at = 0, rd_last_error = []\<rparr>"

definition tracks :: "residency_reader \<Rightarrow> bool" where
  "tracks r = (rd_tenants r \<noteq> [])"

definition declares :: "residency_reader \<Rightarrow> string \<Rightarrow> bool" where
  "declares r ep = (ep \<in> fst ` set (rd_tenants r))"

fun py_type :: "json \<Rightarrow> string" where
  "py_type JNull = ''NoneType''"
| "py_type (JBool _) = ''bool''"
| "py_type (JInt _) = ''int''"
| "py_type (JFloat _ _) = ''float''"
| "py_type (JStr _) = ''str''"
| "py_type (JList _) = ''list''"
| "py_type (JObj _) = ''dict''"

definition read_intent :: "status_read \<Rightarrow> string + (string, string) odict" where
  "read_intent res =
     (case res of
        ReadRaised msg \<Rightarrow> Inl msg
      | ReadReply status body \<Rightarrow>
          if status \<noteq> 200 then Inl (''ValueError: HTTP '' @ show_int status)
          else
            (case body of
               Inl msg \<Rightarrow> Inl msg
             | Inr (JObj kvs) \<Rightarrow>
                 (case jget kvs ''intended_state'' of
                    JObj intent \<Rightarrow> Inr (foldl (\<lambda>d (k, v). od_put k (py_str v) d) [] intent)
                  | _ \<Rightarrow> Inl ''ValueError: no intended_state map in the response'')
             | Inr v \<Rightarrow> Inl (''AttributeError: '' @ repr_str (py_type v) @ '' object has no attribute '' @ repr_str ''get'')))"

text \<open>\<^verbatim>\<open>refresh\<close>; the flag says whether a warning is logged.\<close>

definition rd_refresh :: "status_read \<Rightarrow> real \<Rightarrow> residency_reader \<Rightarrow> residency_reader \<times> bool" where
  "rd_refresh res now r =
     (if \<not> tracks r then (r, False)
      else if rd_url r = [] then (r\<lparr>rd_intent := None, rd_last_error := ''no dispatcher URL configured''\<rparr>, False)
      else
        (case read_intent res of
           Inr intent \<Rightarrow> (r\<lparr>rd_intent := Some intent, rd_read_at := now, rd_last_error := []\<rparr>, False)
         | Inl msg \<Rightarrow> (r\<lparr>rd_intent := None, rd_last_error := msg\<rparr>, msg \<noteq> rd_last_error r)))"

definition rd_state :: "string \<Rightarrow> real \<Rightarrow> residency_reader \<Rightarrow> string option" where
  "rd_state ep now r =
     (case od_get (rd_tenants r) ep of
        None \<Rightarrow> None
      | Some tenant \<Rightarrow>
          (case rd_intent r of
             None \<Rightarrow> Some unknown
           | Some intent \<Rightarrow>
               if now - rd_read_at r > stale_s then Some unknown
               else
                 (case od_get intent tenant of
                    Some w \<Rightarrow> Some (if w = resident \<or> w = evicted then w else unknown)
                  | None \<Rightarrow> Some unknown)))"

definition age_s :: "real \<Rightarrow> residency_reader \<Rightarrow> real option" where
  "age_s now r = (case rd_intent r of None \<Rightarrow> None | Some _ \<Rightarrow> Some (py_round (now - rd_read_at r) 1))"

subsection \<open>Lemmas\<close>

text \<open>The count is never negative, and while a POST is outstanding no lease is held: so one POST at
  a time, and none while the model is loaded.\<close>

definition lease_ok :: "lease_state \<Rightarrow> bool" where
  "lease_ok st \<longleftrightarrow> 0 \<le> inflight st \<and> (ls_locked st \<longrightarrow> lease_id st = JNull)"

lemma new_lease_ok [simp]: "lease_ok (new_lease cap)"
  by (simp add: lease_ok_def new_lease_def)









lemma residency_frame:
  "rd_tenants (fst (rd_refresh res now r)) = rd_tenants r" "rd_url (fst (rd_refresh res now r)) = rd_url r"
  by (simp_all add: rd_refresh_def split: sum.split)

definition rd_replay :: "residency_reader \<Rightarrow> (status_read \<times> real) list \<Rightarrow> residency_reader" where
  "rd_replay r reads = foldl (\<lambda>r (res, t). fst (rd_refresh res t r)) r reads"

lemma rd_replay_frame: "rd_tenants (rd_replay r reads) = rd_tenants r"
  by (induction reads arbitrary: r) (auto simp: rd_replay_def residency_frame split: prod.split)

lemma read_intent_Inr:
  "read_intent res = Inr d \<Longrightarrow> \<exists>kvs intent. res = ReadReply 200 (Inr (JObj kvs)) \<and> jget kvs ''intended_state'' = JObj intent"
  by (auto simp: read_intent_def split: status_read.splits if_splits sum.splits json.splits)

subsection \<open>Properties\<close>




text \<open>An idle endpoint gives its slot back. In any state with a lease, the next pass of the
  loop releases it once nothing has happened for the hold time and no request is counted, and also
  when requests are still counted but the endpoint has been silent for twenty minutes (given a hold
  time within that), whether or not the dispatcher answers the heartbeat.\<close>

lemma idle_lease_released:
  assumes "hold \<le> stuck_inflight_s"
    and "inflight st \<le> 0 \<and> hold \<le> now - last_activity st \<or> stuck_inflight_s \<le> now - last_activity st"
  shows "lease_id (loop_visit hold now [] reply t st) = JNull"
proof -
  have "inflight (leak_guard now st) \<le> 0" "hold \<le> now - last_activity (leak_guard now st)"
    using assms by (auto simp: leak_guard_def)
  then show ?thesis
    by (auto simp: loop_visit_def Let_def release_def heartbeat_reply_def split: dispatcher_reply.split)
qed

lemma idle_lease_released_witness:
  "lease_id (loop_visit 60 1300 [] HttpError 1300 ((new_lease ''c'')\<lparr>lease_id := JStr ''L1'', inflight := 2\<rparr>)) = JNull"
  by (rule idle_lease_released) (simp_all add: stuck_inflight_s_def new_lease_def)

text \<open>A leaked count is only forgotten after twenty silent minutes, and any request in between
  restarts the clock: with one request every thousand seconds a single lost completion keeps the
  lease for ever, though the endpoint idles far longer than the hold time each round.\<close>

definition quiet_round :: "real \<Rightarrow> lease_step list" where
  "quiet_round t = [OnVisit (t + 1000) [] (Reply 200 None) (t + 1000), OnRequest (Enter (t + 1000)), OnRequest (Done (t + 1000))]"

lemma leaked_count_pins_lease:
  "lease_id (foldl (lease_run default_hold_idle_s)
      \<lparr>ls_capability = cap, ls_locked = False, lease_id = JStr (c # cs), inflight = 1, last_activity = 0, last_heartbeat = 0\<rparr>
      (concat (map (\<lambda>k. quiet_round (of_nat k * 1000)) [0..<n]))) = JStr (c # cs)"
proof -
  have "foldl (lease_run default_hold_idle_s)
      \<lparr>ls_capability = cap, ls_locked = False, lease_id = JStr (c # cs), inflight = 1, last_activity = 0, last_heartbeat = 0\<rparr>
      (concat (map (\<lambda>k. quiet_round (of_nat k * 1000)) [0..<n]))
    = \<lparr>ls_capability = cap, ls_locked = False, lease_id = JStr (c # cs), inflight = 1,
       last_activity = of_nat n * 1000, last_heartbeat = of_nat n * 1000\<rparr>"
  proof (induction n)
    case (Suc n)
    then show ?case
      by (simp add: quiet_round_def loop_visit_def leak_guard_def beats_def heartbeat_reply_def heartbeat_s_def
          stuck_inflight_s_def default_hold_idle_s_def ensure_enter_def request_done_def uncount_def Let_def algebra_simps)
  qed simp
  then show ?thesis by simp
qed

text \<open>Residency is only ever asserted on fresh evidence. After any sequence of reads of the
  dispatcher, an endpoint that is reported resident or evicted declares a tenant, the last read
  came back with status 200 and a map of intended states that gives that tenant that very word,
  and it is at most a minute old; any failed or malformed read, a missing tenant, an unknown word
  or a stale reading is reported as unknown.\<close>

lemma residency_on_evidence:
  assumes "r = rd_replay (new_residency eps url) reads" "rd_state ep now r = Some w" "w \<noteq> unknown"
  shows "(w = resident \<or> w = evicted) \<and>
    (\<exists>tenant kvs intent t prev. od_get (rd_tenants (new_residency eps url)) ep = Some tenant \<and>
       reads = prev @ [(ReadReply 200 (Inr (JObj kvs)), t)] \<and> now - t \<le> stale_s \<and>
       jget kvs ''intended_state'' = JObj intent \<and>
       od_get (foldl (\<lambda>d (k, v). od_put k (py_str v) d) [] intent) tenant = Some w)"
proof (cases reads rule: rev_cases)
  case Nil
  with assms show ?thesis by (simp add: rd_replay_def new_residency_def rd_state_def split: option.splits)
next
  case (snoc prev x)
  obtain res t where x: "x = (res, t)" by (cases x)
  let ?p = "rd_replay (new_residency eps url) prev"
  have r: "r = fst (rd_refresh res t ?p)" using assms(1) snoc x by (simp add: rd_replay_def)
  obtain tenant intent where ti: "od_get (rd_tenants r) ep = Some tenant" "rd_intent r = Some intent"
    "now - rd_read_at r \<le> stale_s" "od_get intent tenant = Some w" "w = resident \<or> w = evicted"
    using assms(2,3) by (auto simp: rd_state_def split: option.splits if_splits)
  have ten: "rd_tenants r = rd_tenants (new_residency eps url)"
    unfolding assms(1) by (rule rd_replay_frame)
  then have tr: "tracks ?p" using ti(1) by (auto simp: tracks_def rd_replay_frame)
  then have ri: "read_intent res = Inr intent" "rd_read_at r = t"
    using ti(2) r by (auto simp: rd_refresh_def split: if_splits sum.splits)
  from read_intent_Inr[OF ri(1)] obtain kvs im where
    k: "res = ReadReply 200 (Inr (JObj kvs))" "jget kvs ''intended_state'' = JObj im" by blast
  then have "intent = foldl (\<lambda>d (k, v). od_put k (py_str v) d) [] im"
    using ri(1) by (simp add: read_intent_def)
  with ti ten ri k snoc x show ?thesis by auto
qed

lemma residency_on_evidence_witness:
  "rd_state ''creative'' 30 (rd_replay (new_residency [(''creative'', (demo_endpoint ''creative'' 1)\<lparr>residency_tenant := ''vl''\<rparr>)] ''http://h'')
      [(ReadReply 200 (Inr (JObj [(''intended_state'', JObj [(''vl'', JStr ''evicted'')])])), 10)]) = Some evicted \<and>
   (\<exists>kvs t prev. [(ReadReply 200 (Inr (JObj [(''intended_state'', JObj [(''vl'', JStr ''evicted'')])])), 10 :: real)]
      = prev @ [(ReadReply 200 (Inr (JObj kvs)), t)] \<and> 30 - t \<le> stale_s)"
proof -
  let ?r = "rd_replay (new_residency [(''creative'', (demo_endpoint ''creative'' 1)\<lparr>residency_tenant := ''vl''\<rparr>)] ''http://h'')
      [(ReadReply 200 (Inr (JObj [(''intended_state'', JObj [(''vl'', JStr ''evicted'')])])), 10)]"
  have st: "rd_state ''creative'' 30 ?r = Some evicted" by code_simp
  have "evicted \<noteq> unknown" by (simp add: evicted_def unknown_def)
  from residency_on_evidence[OF refl st this] st show ?thesis by blast
qed

end
