(* ===== verification/Failover.thy ===== *)
theory Failover
  imports Scheduler On_Demand
begin

section \<open>Degraded routing (failover.py)\<close>

text \<open>
  \<^verbatim>\<open>Failover\<close>: which endpoints may stand in for which, the degraded-mode state machine
  (\<open>fo_refresh\<close>), the two gates a request passes before it is rerouted (\<open>fo_plan\<close>), the rerouting
  (\<open>fo_apply\<close>) and the refusal counters. What it reads of the rest of the proxy is the record
  \<open>fo_env\<close>: the configuration and the scheduler, the on-demand manager and the health signal.
\<close>

record failover_state =
  degraded_endpoints :: "string list"
  degraded_since :: "(string, real) odict"
  degraded_rerouted :: "(string, int) odict"
  degraded_refused :: "(string, (string, int) odict) odict"

record fo_env =
  fo_sched :: scheduler
  fo_on_demand :: on_demand_manager
  fo_healthy :: "string \<Rightarrow> bool"
  fo_roles :: "(string, string) odict"

abbreviation fo_endpoints :: "fo_env \<Rightarrow> (string, endpoint_config) odict" where
  "fo_endpoints e \<equiv> endpoints (sc_config (fo_sched e))"

definition no_failover :: failover_state where
  "no_failover = \<lparr>degraded_endpoints = [], degraded_since = [], degraded_rerouted = [], degraded_refused = []\<rparr>"

definition usable_target :: "fo_env \<Rightarrow> string \<Rightarrow> bool" where
  "usable_target e tgt \<longleftrightarrow> tgt \<noteq> [] \<and> tgt \<in> fst ` set (fo_endpoints e) \<and> \<not> manages (fo_on_demand e) tgt"

definition fo_pairs :: "fo_env \<Rightarrow> (string, string) odict" where
  "fo_pairs e = map (\<lambda>(ep, c). (ep, failover_to c)) (filter (\<lambda>(ep, c). usable_target e (failover_to c)) (fo_endpoints e))"

definition is_degraded :: "fo_env \<Rightarrow> failover_state \<Rightarrow> string \<Rightarrow> bool" where
  "is_degraded e st ep = (normalize_endpoint (fo_roles e) ep \<in> set (degraded_endpoints st))"

subsection \<open>The degraded-mode state machine\<close>

definition leave_degraded :: "string \<Rightarrow> failover_state \<Rightarrow> failover_state" where
  "leave_degraded src st =
     st\<lparr>degraded_endpoints := removeAll src (degraded_endpoints st), degraded_since := od_del src (degraded_since st)\<rparr>"

definition enter_degraded :: "real \<Rightarrow> string \<Rightarrow> failover_state \<Rightarrow> failover_state" where
  "enter_degraded now src st =
     st\<lparr>degraded_endpoints := degraded_endpoints st @ [src], degraded_since := od_put src now (degraded_since st)\<rparr>"

definition dwell_of :: "fo_env \<Rightarrow> string \<Rightarrow> real" where
  "dwell_of e src = (case od_get (fo_endpoints e) src of Some c \<Rightarrow> failover_dwell_s c | None \<Rightarrow> 0)"

definition fo_step :: "fo_env \<Rightarrow> real \<Rightarrow> failover_state \<Rightarrow> string \<times> string \<Rightarrow> failover_state" where
  "fo_step e now st p =
     (let (src, tgt) = p; src_healthy = fo_healthy e src in
      if src \<in> set (degraded_endpoints st) then
        if \<not> src_healthy then st
        else
          let since = od_get_or now (degraded_since st) src in
          if degraded_inflight src (fo_sched e) \<noteq> 0 then st
          else if now - since < dwell_of e src then st
          else leave_degraded src st
      else if src_healthy \<or> \<not> fo_healthy e tgt then st
      else enter_degraded now src st)"

definition fo_refresh :: "fo_env \<Rightarrow> real \<Rightarrow> failover_state \<Rightarrow> failover_state" where
  "fo_refresh e now st = foldl (fo_step e now) st (fo_pairs e)"

subsection \<open>The gates\<close>

definition code_not_opted_in :: string where "code_not_opted_in = ''degraded_not_opted_in''"
definition code_context_overflow :: string where "code_context_overflow = ''degraded_context_overflow''"

record failover_plan =
  fp_target :: "string option"
  refusal_code :: "string option"
  refusal_detail :: string

definition rerouted :: "failover_plan \<Rightarrow> bool" where
  "rerouted p = (fp_target p \<noteq> None)"

definition no_plan :: failover_plan where
  "no_plan = \<lparr>fp_target = None, refusal_code = None, refusal_detail = []\<rparr>"

definition serving_clause :: "string \<Rightarrow> string" where
  "serving_clause tgt = ''; it is serving from '' @ tgt @ '' for opted-in callers, ''"

definition fo_plan :: "fo_env \<Rightarrow> failover_state \<Rightarrow> queued_request \<Rightarrow> failover_plan py" where
  "fo_plan e st req =
     (let src = normalize_endpoint (fo_roles e) (rq_endpoint req);
          tgt = od_get_or [] (fo_pairs e) src
      in if tgt = [] \<or> src \<notin> set (degraded_endpoints st) then Inr no_plan
         else if \<not> fo_healthy e tgt then Inr no_plan
         else if \<not> degrade_ok (agent_config (sc_config (fo_sched e)) (agent_id req)) then
           Inr (no_plan\<lparr>refusal_code := Some code_not_opted_in,
             refusal_detail := serving_clause tgt @ ''and agent '' @ repr_str (agent_id req) @
               '' is not opted in (`degrade_ok` in the agents config)''\<rparr>)
         else if allow_degrade req = Some False then
           Inr (no_plan\<lparr>refusal_code := Some code_not_opted_in,
             refusal_detail := serving_clause tgt @ ''and this request declared `substitution.degrade: false`''\<rparr>)
         else
           (case od_get (fo_endpoints e) tgt of
              None \<Rightarrow> Inl KeyError
            | Some tgt_cfg \<Rightarrow>
                py_bind (context_fit (rq_payload req) (payload_type req) (context_per_slot tgt_cfg)) (\<lambda>fit.
                  if \<not> fits fit then
                    Inr (no_plan\<lparr>refusal_code := Some code_context_overflow,
                      refusal_detail := serving_clause tgt @ ''but this request '' @ overflow_detail fit tgt\<rparr>)
                  else Inr (no_plan\<lparr>fp_target := Some tgt\<rparr>))))"

text \<open>\<^verbatim>\<open>apply\<close>: the counter is not reached when the target is not configured.\<close>

definition fo_apply ::
  "fo_env \<Rightarrow> queued_request \<Rightarrow> string \<Rightarrow> failover_state \<Rightarrow> queued_request \<times> failover_state \<times> py_error option" where
  "fo_apply e req tgt st =
     (let src = normalize_endpoint (fo_roles e) (rq_endpoint req);
          req1 = req\<lparr>degraded_from := Some src, rq_endpoint := tgt\<rparr>
      in case od_get (fo_endpoints e) tgt of
           None \<Rightarrow> (req1, st, Some KeyError)
         | Some c \<Rightarrow>
             (req1\<lparr>ctx_per_slot_at_admission := context_per_slot c\<rparr>,
              st\<lparr>degraded_rerouted := od_put src (od_get_or 0 (degraded_rerouted st) src + 1) (degraded_rerouted st)\<rparr>,
              None))"

definition record_refusal :: "fo_env \<Rightarrow> queued_request \<Rightarrow> failover_plan \<Rightarrow> failover_state \<Rightarrow> failover_state" where
  "record_refusal e req plan st =
     (case refusal_code plan of
        None \<Rightarrow> st
      | Some code \<Rightarrow>
          if code = [] then st
          else
            let src = (case degraded_from req of
                         Some d \<Rightarrow> (if d \<noteq> [] then d else normalize_endpoint (fo_roles e) (rq_endpoint req))
                       | None \<Rightarrow> normalize_endpoint (fo_roles e) (rq_endpoint req));
                by_code = od_get_or [] (degraded_refused st) src
            in st\<lparr>degraded_refused := od_put src (od_put code (od_get_or 0 by_code code + 1) by_code) (degraded_refused st)\<rparr>)"

subsection \<open>Lemmas\<close>

lemma fo_pairs_distinct: "od_ok (fo_endpoints e) \<Longrightarrow> od_ok (fo_pairs e)"
  by (induction "fo_endpoints e") (auto simp: fo_pairs_def case_prod_unfold comp_def distinct_map_filter)

lemma fo_pairs_usable: "(src, tgt) \<in> set (fo_pairs e) \<Longrightarrow> usable_target e tgt"
  by (auto simp: fo_pairs_def)

lemma fo_pairs_get_usable: "od_get (fo_pairs e) src = Some tgt \<Longrightarrow> usable_target e tgt"
  by (rule fo_pairs_usable) (rule od_get_Some_in)

text \<open>A step moves only its own source; what it decides about it needs no second look.\<close>

lemma fo_step_other:
  assumes "s \<noteq> fst p"
  shows "s \<in> set (degraded_endpoints (fo_step e now st p)) \<longleftrightarrow> s \<in> set (degraded_endpoints st)"
    "od_get (degraded_since (fo_step e now st p)) s = od_get (degraded_since st) s"
  using assms by (cases p; simp add: fo_step_def leave_degraded_def enter_degraded_def Let_def)+

definition settled :: "fo_env \<Rightarrow> real \<Rightarrow> failover_state \<Rightarrow> string \<times> string \<Rightarrow> bool" where
  "settled e now st p \<longleftrightarrow>
     (if fst p \<in> set (degraded_endpoints st)
      then \<not> fo_healthy e (fst p) \<or> degraded_inflight (fst p) (fo_sched e) \<noteq> 0
           \<or> now - od_get_or now (degraded_since st) (fst p) < dwell_of e (fst p)
      else fo_healthy e (fst p) \<or> \<not> fo_healthy e (snd p))"

lemma settled_id: "settled e now st p \<Longrightarrow> fo_step e now st p = st"
  by (cases p) (auto simp: settled_def fo_step_def Let_def split: if_splits)

lemma fo_step_settles: "settled e now (fo_step e now st p) p"
  by (cases p) (auto simp: settled_def fo_step_def leave_degraded_def enter_degraded_def Let_def)

lemma settled_other: "fst q \<noteq> fst p \<Longrightarrow> settled e now (fo_step e now st p) q = settled e now st q"
  using fo_step_other[of "fst q" p e now st] by (simp add: settled_def od_get_or_def)

lemma fo_steps_other:
  "s \<notin> fst ` set ps \<Longrightarrow> s \<in> set (degraded_endpoints (foldl (fo_step e now) st ps)) \<longleftrightarrow> s \<in> set (degraded_endpoints st)"
  by (induction ps arbitrary: st) (auto simp: fo_step_other)

lemma fo_steps_since_other:
  "s \<notin> fst ` set ps \<Longrightarrow> od_get (degraded_since (foldl (fo_step e now) st ps)) s = od_get (degraded_since st) s"
  by (induction ps arbitrary: st) (auto simp: fo_step_other)

lemma fo_steps_settled_keep:
  "fst q \<notin> fst ` set ps \<Longrightarrow> settled e now (foldl (fo_step e now) st ps) q = settled e now st q"
  by (induction ps arbitrary: st) (auto simp: settled_other)

lemma fo_steps_settle:
  "distinct (map fst ps) \<Longrightarrow> q \<in> set ps \<Longrightarrow> settled e now (foldl (fo_step e now) st ps) q"
proof (induction ps arbitrary: st)
  case (Cons p ps)
  then show ?case by (cases "q = p") (auto simp: fo_steps_settled_keep fo_step_settles)
qed simp

lemma settled_all_id: "\<forall>q \<in> set ps. settled e now st q \<Longrightarrow> foldl (fo_step e now) st ps = st"
  by (induction ps) (auto simp: settled_id)

text \<open>What a refresh decides about one source, seen from outside.\<close>

lemma fo_refresh_source:
  assumes "od_ok (fo_endpoints e)" "od_get (fo_pairs e) src = Some tgt"
  shows "src \<in> set (degraded_endpoints (fo_refresh e now st)) \<longleftrightarrow> src \<in> set (degraded_endpoints (fo_step e now st (src, tgt)))"
    "od_get (degraded_since (fo_refresh e now st)) src = od_get (degraded_since (fo_step e now st (src, tgt))) src"
proof -
  have "(src, tgt) \<in> set (fo_pairs e)" using assms(2) by (rule od_get_Some_in)
  then obtain as bs where ps: "fo_pairs e = as @ (src, tgt) # bs" by (meson split_list)
  then have notin: "src \<notin> fst ` set as" "src \<notin> fst ` set bs"
    using fo_pairs_distinct[OF assms(1)] by auto
  let ?m = "foldl (fo_step e now) st as"
  have m: "src \<in> set (degraded_endpoints ?m) \<longleftrightarrow> src \<in> set (degraded_endpoints st)"
    "od_get (degraded_since ?m) src = od_get (degraded_since st) src"
    using notin(1) by (simp_all add: fo_steps_other fo_steps_since_other)
  have "src \<in> set (degraded_endpoints (fo_step e now ?m (src, tgt))) \<longleftrightarrow> src \<in> set (degraded_endpoints (fo_step e now st (src, tgt)))"
    "od_get (degraded_since (fo_step e now ?m (src, tgt))) src = od_get (degraded_since (fo_step e now st (src, tgt))) src"
    using m by (simp_all add: fo_step_def leave_degraded_def enter_degraded_def Let_def od_get_or_def)
  then show "src \<in> set (degraded_endpoints (fo_refresh e now st)) \<longleftrightarrow> src \<in> set (degraded_endpoints (fo_step e now st (src, tgt)))"
    "od_get (degraded_since (fo_refresh e now st)) src = od_get (degraded_since (fo_step e now st (src, tgt))) src"
    using notin(2) by (simp_all add: fo_refresh_def ps fo_steps_other fo_steps_since_other)
qed

text \<open>Requests a failover moved, wherever they are now.\<close>

lemma degraded_inflight_pos:
  assumes "(ep, m) \<in> set (sc_active s) \<and> ar \<in> set (od_vals m) \<and> degraded_from (ar_request ar) = Some src
    \<or> (ep, q) \<in> set (sc_queues s) \<and> r \<in> set (bands_requests all_bands q) \<and> degraded_from r = Some src"
  shows "degraded_inflight src s \<noteq> 0"
proof -
  have "(\<exists>p \<in> set (sc_active s). filter (\<lambda>ar. degraded_from (ar_request ar) = Some src) (od_vals (snd p)) \<noteq> [])
    \<or> (\<exists>p \<in> set (sc_queues s). filter (\<lambda>r. degraded_from r = Some src) (bands_requests all_bands (snd p)) \<noteq> [])"
    using assms by (fastforce simp: filter_empty_conv)
  then show ?thesis
    unfolding degraded_inflight_def
    by (auto simp: case_prod_unfold sum_list_eq_0_iff image_iff filter_empty_conv simp del: filter_map)
qed


lemma fo_refresh_no_pair:
  assumes "src \<notin> fst ` set (fo_pairs e)"
  shows "src \<in> set (degraded_endpoints (fo_refresh e now st)) \<longleftrightarrow> src \<in> set (degraded_endpoints st)"
    "od_get (degraded_since (fo_refresh e now st)) src = od_get (degraded_since st) src"
  using assms by (simp_all add: fo_refresh_def fo_steps_other fo_steps_since_other)



subsection \<open>Properties\<close>

text \<open>The state machine does exactly what it promises. With unique endpoint names, a refresh
  puts a source with a usable stand-in into degraded mode exactly when the source is unhealthy and
  the stand-in healthy, takes it out exactly when the source is healthy, nothing moved is left in
  the scheduler and the dwell has passed, and leaves every other endpoint alone.\<close>

lemma refresh_decides_exactly:
  assumes "od_ok (fo_endpoints e)"
  shows "src \<in> set (degraded_endpoints (fo_refresh e now st)) \<longleftrightarrow>
    (case od_get (fo_pairs e) src of
       None \<Rightarrow> src \<in> set (degraded_endpoints st)
     | Some tgt \<Rightarrow>
         if src \<in> set (degraded_endpoints st)
         then \<not> (fo_healthy e src \<and> degraded_inflight src (fo_sched e) = 0
                \<and> dwell_of e src \<le> now - od_get_or now (degraded_since st) src)
         else \<not> fo_healthy e src \<and> fo_healthy e tgt)"
proof (cases "od_get (fo_pairs e) src")
  case None
  then have "src \<notin> fst ` set (fo_pairs e)" by (simp add: od_get_None_iff)
  from fo_refresh_no_pair(1)[OF this] None show ?thesis by simp
next
  case (Some tgt)
  then show ?thesis
    using fo_refresh_source[OF assms Some, of now st]
    by (auto simp: fo_step_def leave_degraded_def enter_degraded_def Let_def)
qed

definition demo_fleet :: "(string \<Rightarrow> bool) \<Rightarrow> fo_env" where
  "demo_fleet h =
     \<lparr>fo_sched = new_scheduler
        \<lparr>endpoints = [(''tier3'', (demo_endpoint ''tier3'' 1)\<lparr>failover_to := ''tier2'', failover_dwell_s := 300\<rparr>),
                      (''tier2'', demo_endpoint ''tier2'' 2)],
         agents = [(''a'', (default_quota ''a'')\<lparr>degrade_ok := True\<rparr>)], cfg_starvation_timeout_s = 300\<rparr>
        \<lparr>cm_models = []\<rparr> (new_manager 300),
      fo_on_demand = new_on_demand [] [] 60, fo_healthy = h, fo_roles = []\<rparr>"

abbreviation tier3_down :: fo_env where
  "tier3_down \<equiv> demo_fleet (\<lambda>ep. ep \<noteq> ''tier3'')"

lemma demo_fleet_ok: "od_ok (fo_endpoints (demo_fleet h))"
  by (simp add: demo_fleet_def new_scheduler_def)

lemma refresh_decides_exactly_witness:
  "''tier3'' \<in> set (degraded_endpoints (fo_refresh tier3_down 10 no_failover))"
proof -
  have "od_get (fo_pairs tier3_down) ''tier3'' = Some ''tier2''" by code_simp
  with refresh_decides_exactly[OF demo_fleet_ok, of "''tier3''" "\<lambda>ep. ep \<noteq> ''tier3''" 10 no_failover]
  show ?thesis by (simp add: no_failover_def demo_fleet_def)
qed

text \<open>Refreshing is idempotent: a second refresh under the same conditions, on the poller's tick
  or on the submit path, changes nothing.\<close>

lemma refresh_idempotent:
  assumes "od_ok (fo_endpoints e)"
  shows "fo_refresh e now (fo_refresh e now st) = fo_refresh e now st"
  unfolding fo_refresh_def
  by (rule settled_all_id) (auto intro: fo_steps_settle fo_pairs_distinct[OF assms])

lemma refresh_idempotent_witness:
  "fo_refresh tier3_down 10 (fo_refresh tier3_down 10 no_failover) = fo_refresh tier3_down 10 no_failover"
  by (rule refresh_idempotent[OF demo_fleet_ok])



text \<open>No conversation spans two models. While any request that failover moved off an endpoint
  is still queued or in flight anywhere in the scheduler, a refresh does not take the endpoint out
  of degraded mode.\<close>

lemma moved_work_blocks_return:
  assumes "od_ok (fo_endpoints e)" "src \<in> set (degraded_endpoints st)"
    and "(ep, m) \<in> set (sc_active (fo_sched e)) \<and> ar \<in> set (od_vals m) \<and> degraded_from (ar_request ar) = Some src
      \<or> (ep, q) \<in> set (sc_queues (fo_sched e)) \<and> r \<in> set (bands_requests all_bands q) \<and> degraded_from r = Some src"
  shows "src \<in> set (degraded_endpoints (fo_refresh e now st))"
proof (cases "od_get (fo_pairs e) src")
  case None
  then show ?thesis using fo_refresh_no_pair assms(2) by (simp add: od_get_None_iff)
next
  case (Some tgt)
  then show ?thesis
    using fo_refresh_source(1)[OF assms(1) Some, of now st] degraded_inflight_pos[OF assms(3)] assms(2)
    by (simp add: fo_step_def Let_def)
qed

lemma moved_work_blocks_return_witness:
  "\<exists>e. fo_healthy e ''tier3'' \<and>
     ''tier3'' \<in> set (degraded_endpoints (fo_refresh e 1000 (no_failover\<lparr>degraded_endpoints := [''tier3''], degraded_since := [(''tier3'', 10)]\<rparr>)))"
proof -
  let ?s = "fst (sched_enqueue demo_env ((demo_request ''r1'')\<lparr>rq_endpoint := ''tier2'', degraded_from := Some ''tier3''\<rparr>)
      (fo_sched (demo_fleet (\<lambda>_. True))))"
  let ?e = "(demo_fleet (\<lambda>_. True))\<lparr>fo_sched := ?s\<rparr>"
  have ok: "od_ok (fo_endpoints ?e)" by code_simp
  have "list_ex (\<lambda>(ep, q). list_ex (\<lambda>r. degraded_from r = Some ''tier3'') (bands_requests all_bands q)) (sc_queues ?s)"
    by code_simp
  then obtain ep q r where "(ep, q) \<in> set (sc_queues ?s) \<and> r \<in> set (bands_requests all_bands q) \<and> degraded_from r = Some ''tier3''"
    by (auto simp: list_ex_iff)
  then show ?thesis
    by (intro exI[of _ ?e] conjI moved_work_blocks_return[OF ok, of "''tier3''" _ ep _ _ q r]) (simp_all add: demo_fleet_def)
qed

text \<open>A request is rerouted exactly when everyone agrees and it fits. When the plan is made, it
  names a target if and only if the source is in degraded mode and has a usable stand-in that is
  healthy, the operator opted the caller in, the caller did not decline, and the payload fits the
  stand-in's context; and the target is then configured, never an on-demand endpoint.\<close>

lemma reroute_exactly_when_agreed:
  assumes "fo_plan e st req = Inr p"
  shows "(fp_target p = Some tgt) \<longleftrightarrow>
    (let src = normalize_endpoint (fo_roles e) (rq_endpoint req) in
     od_get (fo_pairs e) src = Some tgt \<and> src \<in> set (degraded_endpoints st) \<and> fo_healthy e tgt \<and>
     degrade_ok (agent_config (sc_config (fo_sched e)) (agent_id req)) \<and> allow_degrade req \<noteq> Some False \<and>
     usable_target e tgt \<and>
     (\<exists>c fit. od_get (fo_endpoints e) tgt = Some c \<and>
        context_fit (rq_payload req) (payload_type req) (context_per_slot c) = Inr fit \<and> fits fit))"
proof (cases "od_get (fo_pairs e) (normalize_endpoint (fo_roles e) (rq_endpoint req))")
  case None
  with assms show ?thesis by (auto simp: fo_plan_def od_get_or_def no_plan_def)
next
  case (Some t)
  have "usable_target e t" using Some by (rule fo_pairs_get_usable)
  moreover have "t \<noteq> []" using calculation by (simp add: usable_target_def)
  moreover obtain c where "od_get (fo_endpoints e) t = Some c"
    using calculation(1) by (cases "od_get (fo_endpoints e) t") (auto simp: usable_target_def od_get_None_iff)
  ultimately show ?thesis
    using assms Some
    by (auto simp: fo_plan_def od_get_or_def no_plan_def Let_def py_bind_Inr split: if_splits)
qed

lemma reroute_exactly_when_agreed_witness:
  "\<exists>p. fo_plan tier3_down (no_failover\<lparr>degraded_endpoints := [''tier3'']\<rparr>) ((demo_request ''r1'')\<lparr>rq_endpoint := ''tier3''\<rparr>) = Inr p
     \<and> fp_target p = Some ''tier2'' \<and> degrade_ok (agent_config (sc_config (fo_sched tier3_down)) ''a'')"
proof -
  let ?plan = "fo_plan tier3_down (no_failover\<lparr>degraded_endpoints := [''tier3'']\<rparr>) ((demo_request ''r1'')\<lparr>rq_endpoint := ''tier3''\<rparr>)"
  have p: "?plan = Inr (no_plan\<lparr>fp_target := Some ''tier2''\<rparr>)" by code_simp
  from reroute_exactly_when_agreed[OF this, of "''tier2''"] p show ?thesis
    by (simp add: Let_def no_plan_def demo_request_def)
qed

end
