(* ===== verification/Health.thy ===== *)
theory Health
  imports Failover Scheduler_Runs
begin

section \<open>Circuit breaker, cooldown and fast failing (health.py)\<close>

text \<open>
  The health of an endpoint as admission sees it: an operator's pause, the cooldown after a burst of
  backend faults, a goodput collapse and the circuit breaker the poller drives. When an endpoint
  turns sick its queued interactive and foreground requests are released or rerouted. The record
  \<open>proxy\<close> holds the part of the shared state these operations read and write; errors handed to
  waiting callers are collected in \<open>px_released\<close>, and \<open>px_wake\<close> is the dispatch event. The answers of
  the probes and the clock are arguments; the five environment switches and the runtime flag of
  the goodput gate are the record \<open>health_env\<close>.
\<close>

record ep_health =
  eh_healthy :: bool
  eh_failures :: int
  eh_unhealthy_since :: "real option"

record health_env =
  he_roles :: "(string, string) odict"
  he_cooldown_enabled :: bool
  he_cooldown_shadow :: bool
  he_allowed_fails :: int
  he_window_s :: real
  he_duration_s :: real
  he_goodput_enforce :: bool
  he_sched_env :: sched_env

record proxy =
  px_sched :: scheduler
  px_on_demand :: on_demand_manager
  px_residency :: residency_reader
  px_failover :: failover_state
  px_paused :: "string list"
  px_collapsed :: "string list"
  px_health :: "(string, ep_health) odict"
  px_fail_threshold :: int
  px_reachable :: "(string, bool) odict"
  px_cooldown_until :: "(string, real) odict"
  px_failure_times :: "(string, real list) odict"
  px_cooldown_trips :: "(string, int) odict"
  px_cooldown_skips :: "(string, int) odict"
  px_released :: "(string \<times> string) list"
  px_wake :: bool

subsection \<open>Reading the state of an endpoint\<close>

definition endpoint_healthy :: "health_env \<Rightarrow> real \<Rightarrow> proxy \<Rightarrow> string \<Rightarrow> bool" where
  "endpoint_healthy e now p endpoint =
     (let ep = normalize_endpoint (he_roles e) endpoint; until_t = od_get_or 0 (px_cooldown_until p) ep in
      if ep \<in> set (px_paused p) then False
      else if he_cooldown_enabled e \<and> until_t \<noteq> 0 \<and> now < until_t then False
      else if ep \<in> set (px_collapsed p) \<and> he_goodput_enforce e then False
      else if manages (px_on_demand p) ep then True
      else case od_get (px_health p) ep of Some h \<Rightarrow> eh_healthy h | None \<Rightarrow> True)"

definition expected_unloaded :: "real \<Rightarrow> proxy \<Rightarrow> string \<Rightarrow> bool" where
  "expected_unloaded now p ep \<longleftrightarrow> rd_state ep now (px_residency p) = Some evicted \<and> od_get (px_reachable p) ep = Some False"

definition availability_states :: "string list" where
  "availability_states = [''healthy'', ''paused'', ''unloaded'', ''unreachable'', ''unhealthy'', ''unknown'']"

record ep_status =
  es_residency :: "string option"
  es_residency_age_s :: "real option"
  es_reachable :: "bool option"
  es_state :: string

definition endpoint_status :: "health_env \<Rightarrow> real \<Rightarrow> proxy \<Rightarrow> string \<Rightarrow> ep_status" where
  "endpoint_status e now p ep =
     (let residency = rd_state ep now (px_residency p); reachable = od_get (px_reachable p) ep;
          on_demand = (case od_get (endpoints (sc_config (px_sched p))) ep of Some c \<Rightarrow> ep_on_demand c | None \<Rightarrow> False)
      in \<lparr>es_residency = residency,
          es_residency_age_s = (if residency \<noteq> None then age_s now (px_residency p) else None),
          es_reachable = reachable,
          es_state =
            (if ep \<in> set (px_paused p) then ''paused''
             else if \<not> endpoint_healthy e now p ep
               then (if expected_unloaded now p ep then ''unloaded'' else ''unhealthy'')
             else if on_demand \<or> residency \<noteq> None
               then (case reachable of
                       None \<Rightarrow> ''unknown''
                     | Some r \<Rightarrow> if r then ''healthy'' else if expected_unloaded now p ep then ''unloaded'' else ''unreachable'')
             else ''healthy'')\<rparr>)"

text \<open>The percentile of the recent latencies is an argument.\<close>

definition retry_after_s :: "real \<Rightarrow> int" where
  "retry_after_s p95 = max 5 (min 60 (py_int ((if p95 \<noteq> 0 then p95 else 10000) / 1000)))"

subsection \<open>Releasing the queue of a sick endpoint\<close>

definition plan_env :: "health_env \<Rightarrow> real \<Rightarrow> proxy \<Rightarrow> fo_env" where
  "plan_env e now p =
     \<lparr>fo_sched = px_sched p, fo_on_demand = px_on_demand p, fo_healthy = endpoint_healthy e now p, fo_roles = he_roles e\<rparr>"

definition unavailable_text :: "string \<Rightarrow> string \<Rightarrow> string" where
  "unavailable_text ep reason = ''backend '' @ ep @ '' unavailable ('' @ reason @ '')''"

definition move_to :: "health_env \<Rightarrow> real \<Rightarrow> queued_request \<Rightarrow> string \<Rightarrow> proxy \<Rightarrow> proxy \<times> py_error option" where
  "move_to e now req tgt p =
     (case fo_apply (plan_env e now p) req tgt (px_failover p) of
        (req1, fo, Some x) \<Rightarrow> (p\<lparr>px_failover := fo\<rparr>, Some x)
      | (req1, fo, None) \<Rightarrow>
          (case sched_enqueue (he_sched_env e) req1 (px_sched p) of
             (s, Inl x) \<Rightarrow> (p\<lparr>px_failover := fo, px_sched := s\<rparr>, Some x)
           | (s, Inr _) \<Rightarrow> (p\<lparr>px_failover := fo, px_sched := s, px_wake := True\<rparr>, None)))"

definition release_with :: "health_env \<Rightarrow> real \<Rightarrow> string \<Rightarrow> string \<Rightarrow> queued_request \<Rightarrow> failover_plan \<Rightarrow> proxy \<Rightarrow> proxy" where
  "release_with e now ep reason req plan p =
     (case refusal_code plan of
        Some _ \<Rightarrow>
          p\<lparr>px_failover := record_refusal (plan_env e now p) req plan (px_failover p),
            px_released := px_released p @ [(request_id req, unavailable_text ep reason @ refusal_detail plan)]\<rparr>
      | None \<Rightarrow> p\<lparr>px_released := px_released p @ [(request_id req, unavailable_text ep reason)]\<rparr>)"

definition fail_one :: "health_env \<Rightarrow> real \<Rightarrow> string \<Rightarrow> string \<Rightarrow> queued_request \<Rightarrow> proxy \<Rightarrow> proxy \<times> py_error option" where
  "fail_one e now ep reason req p =
     (case fo_plan (plan_env e now p) (px_failover p) req of
        Inl x \<Rightarrow> (p, Some x)
      | Inr plan \<Rightarrow>
          (let p1 = p\<lparr>px_sched := fst (sched_cancel (request_id req) (px_sched p))\<rparr> in
           case fp_target plan of
             Some tgt \<Rightarrow> move_to e now req tgt p1
           | None \<Rightarrow> (release_with e now ep reason req plan p1, None)))"

text \<open>An exception leaves the loop.\<close>

fun fail_all :: "health_env \<Rightarrow> real \<Rightarrow> string \<Rightarrow> string \<Rightarrow> queued_request list \<Rightarrow> proxy \<Rightarrow> proxy \<times> py_error option" where
  "fail_all e now ep reason [] p = (p, None)"
| "fail_all e now ep reason (r # rs) p =
     (case fail_one e now ep reason r p of
        (p1, None) \<Rightarrow> fail_all e now ep reason rs p1
      | (p1, Some x) \<Rightarrow> (p1, Some x))"

definition fast_fail_interactive :: "health_env \<Rightarrow> real \<Rightarrow> string \<Rightarrow> string \<Rightarrow> proxy \<Rightarrow> proxy \<times> py_error option" where
  "fast_fail_interactive e now ep reason p =
     (let p1 = p\<lparr>px_failover := fo_refresh (plan_env e now p) now (px_failover p)\<rparr>
      in fail_all e now ep reason (queued_requests ep [INTERACTIVE, FOREGROUND] (px_sched p1)) p1)"

subsection \<open>The circuit breaker\<close>

definition fresh_health :: ep_health where
  "fresh_health = \<lparr>eh_healthy = True, eh_failures = 0, eh_unhealthy_since = None\<rparr>"

text \<open>One probe result. \<open>alive\<close> is what \<^verbatim>\<open>probe_health\<close> answers if it is asked.\<close>

definition update_endpoint_health :: "health_env \<Rightarrow> real \<Rightarrow> string \<Rightarrow> bool \<Rightarrow> bool \<Rightarrow> proxy \<Rightarrow> proxy \<times> py_error option" where
  "update_endpoint_health e now ep probe_ok alive p =
     (let h = od_get_or fresh_health (px_health p) ep; put = (\<lambda>h' q. q\<lparr>px_health := od_put ep h' (px_health q)\<rparr>) in
      if probe_ok then (put fresh_health p\<lparr>px_wake := px_wake p \<or> \<not> eh_healthy h\<rparr>, None)
      else if \<not> eh_healthy h then
        (if alive then put fresh_health p\<lparr>px_wake := True\<rparr> else put h p, None)
      else
        let h1 = h\<lparr>eh_failures := eh_failures h + 1\<rparr> in
        if eh_failures h1 \<ge> px_fail_threshold p then
          if \<not> alive
          then fast_fail_interactive e now ep ''circuit open'' (put (h1\<lparr>eh_healthy := False, eh_unhealthy_since := Some now\<rparr>) p)
          else (put (h1\<lparr>eh_failures := 0\<rparr>) p, None)
        else (put h1 p, None))"

text \<open>The health of a poll: the quiet look at an unloaded on-demand endpoint, whether the endpoint is
  there, and the breaker. The four flags are the answers of the probes in the order they are
  asked; an exception of the update is logged and dropped.\<close>

record probes =
  pr_quiet :: bool
  pr_ok :: bool
  pr_reach :: bool
  pr_alive :: bool

definition poll_health :: "health_env \<Rightarrow> real \<Rightarrow> string \<Rightarrow> endpoint_config \<Rightarrow> probes \<Rightarrow> proxy \<Rightarrow> proxy" where
  "poll_health e now ep cfg pr p =
     (let unloaded = (ep_on_demand cfg \<and> \<not> is_loaded (px_on_demand p) ep);
          p1 = (if unloaded then p\<lparr>px_reachable := od_put ep (pr_quiet pr) (px_reachable p)\<rparr> else p)
      in if unloaded \<and> \<not> pr_quiet pr
         then (case od_get (px_health p1) ep of
                 Some h \<Rightarrow> if eh_healthy h then p1 else p1\<lparr>px_health := od_put ep fresh_health (px_health p1)\<rparr>
               | None \<Rightarrow> p1)
         else fst (update_endpoint_health e now ep (pr_ok pr) (pr_alive pr)
                (p1\<lparr>px_reachable := od_put ep (pr_ok pr \<or> pr_reach pr) (px_reachable p1)\<rparr>)))"

subsection \<open>The cooldown\<close>

text \<open>\<open>status\<close> is the status of a \<^verbatim>\<open>BackendError\<close>, none for any other exception.\<close>

definition record_dispatch_failure ::
  "health_env \<Rightarrow> real \<Rightarrow> string \<Rightarrow> int option \<Rightarrow> bool \<Rightarrow> proxy \<Rightarrow> proxy \<times> py_error option" where
  "record_dispatch_failure e now endpoint status best_effort p =
     (let ep = normalize_endpoint (he_roles e) endpoint in
      if \<not> (he_cooldown_shadow e \<or> he_cooldown_enabled e) then (p, None)
      else if \<not> (case status of Some c \<Rightarrow> c \<ge> 500 | None \<Rightarrow> False) then (p, None)
      else if best_effort
        then (p\<lparr>px_cooldown_skips := od_put ep (od_get_or 0 (px_cooldown_skips p) ep + 1) (px_cooldown_skips p)\<rparr>, None)
      else
        let times = dropWhile (\<lambda>t. t < now - he_window_s e) (od_get_or [] (px_failure_times p) ep @ [now]) in
        if int (length times) < he_allowed_fails e
        then (p\<lparr>px_failure_times := od_put ep times (px_failure_times p)\<rparr>, None)
        else
          let p1 = p\<lparr>px_failure_times := od_put ep [] (px_failure_times p),
                     px_cooldown_trips := od_put ep (od_get_or 0 (px_cooldown_trips p) ep + 1) (px_cooldown_trips p)\<rparr>
          in if he_cooldown_enabled e
             then fast_fail_interactive e now ep ''circuit open''
                    (p1\<lparr>px_cooldown_until := od_put ep (now + he_duration_s e) (px_cooldown_until p1)\<rparr>)
             else (p1, None))"

subsection \<open>Lemmas: what fast failing leaves alone\<close>

lemma move_to_frame [simp]:
  "px_health (fst (move_to e now r tgt p)) = px_health p"
  "px_on_demand (fst (move_to e now r tgt p)) = px_on_demand p"
  "px_paused (fst (move_to e now r tgt p)) = px_paused p"
  "px_collapsed (fst (move_to e now r tgt p)) = px_collapsed p"
  "px_cooldown_until (fst (move_to e now r tgt p)) = px_cooldown_until p"
  "px_fail_threshold (fst (move_to e now r tgt p)) = px_fail_threshold p"
  "px_released (fst (move_to e now r tgt p)) = px_released p"
  by (simp_all add: move_to_def split: prod.split option.split sum.split)

lemma release_with_frame [simp]:
  "px_health (release_with e now ep reason r plan p) = px_health p"
  "px_on_demand (release_with e now ep reason r plan p) = px_on_demand p"
  "px_paused (release_with e now ep reason r plan p) = px_paused p"
  "px_collapsed (release_with e now ep reason r plan p) = px_collapsed p"
  "px_cooldown_until (release_with e now ep reason r plan p) = px_cooldown_until p"
  "px_fail_threshold (release_with e now ep reason r plan p) = px_fail_threshold p"
  "px_sched (release_with e now ep reason r plan p) = px_sched p"
  by (simp_all add: release_with_def split: option.split)

lemma release_with_ids: "map fst (px_released (release_with e now ep reason r plan p)) = map fst (px_released p) @ [request_id r]"
  by (simp add: release_with_def split: option.split)

definition same_gates :: "proxy \<Rightarrow> proxy \<Rightarrow> bool" where
  "same_gates p q \<longleftrightarrow> px_health q = px_health p \<and> px_on_demand q = px_on_demand p \<and> px_paused q = px_paused p \<and>
     px_collapsed q = px_collapsed p \<and> px_cooldown_until q = px_cooldown_until p \<and> px_fail_threshold q = px_fail_threshold p"

lemma same_gates_trans: "same_gates p q \<Longrightarrow> same_gates q r \<Longrightarrow> same_gates p r"
  by (simp add: same_gates_def)

lemma same_gates_healthy: "same_gates p q \<Longrightarrow> endpoint_healthy e now q ep = endpoint_healthy e now p ep"
  by (simp add: same_gates_def endpoint_healthy_def Let_def)

lemma fail_one_gates: "same_gates p (fst (fail_one e now ep reason r p))"
  by (simp add: fail_one_def same_gates_def Let_def split: sum.split option.split)

lemma fail_all_gates: "same_gates p (fst (fail_all e now ep reason rs p))"
proof (induction rs arbitrary: p)
  case (Cons r rs)
  obtain p1 x where x: "fail_one e now ep reason r p = (p1, x)" by force
  with fail_one_gates[of p e now ep reason r] have "same_gates p p1" by simp
  with x Cons.IH[of p1] show ?case by (auto intro: same_gates_trans split: option.split)
qed (simp add: same_gates_def)

lemma fast_fail_gates: "same_gates p (fst (fast_fail_interactive e now ep reason p))"
  using fail_all_gates[of "p\<lparr>px_failover := fo_refresh (plan_env e now p) now (px_failover p)\<rparr>" e now ep reason]
  by (simp add: fast_fail_interactive_def same_gates_def)

subsection \<open>Nobody is lost when a queue is released\<close>

abbreviation queued_ids :: "scheduler \<Rightarrow> string multiset" where
  "queued_ids s \<equiv> image_mset request_id (queued_reqs s)"

lemma enqueue_queued_ids:
  assumes "sched_ok s" "sched_enqueue env r s = (s', Inr r')"
  shows "queued_ids s' = add_mset (request_id r) (queued_ids s)" "held_ids s' = add_mset (request_id r) (held_ids s)" "sched_ok s'"
  using sched_enqueue_ids[OF assms(1), of env r r'] sched_enqueue_ok[OF assms(1), of env r] assms(2) by simp_all

lemma cancel_queued_ids:
  assumes "sched_ok s" "rid \<in># queued_ids s"
  shows "queued_ids s = add_mset rid (queued_ids (fst (sched_cancel rid s)))"
    "held_ids s = add_mset rid (held_ids (fst (sched_cancel rid s)))"
proof -
  have f: "snd (sched_cancel rid s)" using cancel_exact[OF assms(1), of rid] assms(2) by auto
  then show h: "held_ids s = add_mset rid (held_ids (fst (sched_cancel rid s)))" using cancel_exact[OF assms(1), of rid] by simp
  have "active_reqs (fst (sched_cancel rid s)) = active_reqs s" using cancel_exact[OF assms(1), of rid] by (simp add: active_reqs_def)
  with h show "queued_ids s = add_mset rid (queued_ids (fst (sched_cancel rid s)))" by (simp add: held_ids_def)
qed

definition all_ids :: "proxy \<Rightarrow> string multiset" where
  "all_ids p = held_ids (px_sched p) + mset (map fst (px_released p))"

lemma move_to_ids:
  assumes "sched_ok (px_sched p)" "move_to e now r tgt p = (p', None)"
  shows "sched_ok (px_sched p')" "all_ids p' = add_mset (request_id r) (all_ids p)"
    "queued_ids (px_sched p') = add_mset (request_id r) (queued_ids (px_sched p))"
proof -
  obtain r1 fo x where a: "fo_apply (plan_env e now p) r tgt (px_failover p) = (r1, fo, x)" by (metis prod_cases3)
  then have i: "request_id r1 = request_id r" by (auto simp: fo_apply_def Let_def split: option.splits)
  from a assms(2) obtain s r2 where q: "sched_enqueue (he_sched_env e) r1 (px_sched p) = (s, Inr r2)" "px_sched p' = s" "px_released p' = px_released p"
    by (auto simp: move_to_def split: option.splits prod.splits sum.splits)
  note enqueue_queued_ids[OF assms(1) q(1)]
  with q i show "sched_ok (px_sched p')" "all_ids p' = add_mset (request_id r) (all_ids p)"
    "queued_ids (px_sched p') = add_mset (request_id r) (queued_ids (px_sched p))" by (simp_all add: all_ids_def)
qed

lemma fail_one_ids:
  assumes "sched_ok (px_sched p)" "request_id r \<in># queued_ids (px_sched p)" "fail_one e now ep reason r p = (p', None)"
  shows "sched_ok (px_sched p')" "all_ids p' = all_ids p"
    "set_mset (queued_ids (px_sched p)) - {request_id r} \<subseteq> set_mset (queued_ids (px_sched p'))"
proof -
  obtain plan where plan: "fo_plan (plan_env e now p) (px_failover p) r = Inr plan"
    using assms(3) by (auto simp: fail_one_def split: sum.splits)
  let ?p1 = "p\<lparr>px_sched := fst (sched_cancel (request_id r) (px_sched p))\<rparr>"
  note c = cancel_queued_ids[OF assms(1,2)] sched_cancel_ok[OF assms(1), of "request_id r"]
  have r1: "set_mset (queued_ids (px_sched p)) - {request_id r} \<subseteq> set_mset (queued_ids (px_sched ?p1))"
    using arg_cong[OF c(1), of set_mset] by auto
  have "sched_ok (px_sched p') \<and> all_ids p' = all_ids p \<and> set_mset (queued_ids (px_sched ?p1)) \<subseteq> set_mset (queued_ids (px_sched p'))"
  proof (cases "fp_target plan")
    case (Some tgt)
    then have "move_to e now r tgt ?p1 = (p', None)" using assms(3) plan by (simp add: fail_one_def Let_def)
    from move_to_ids[OF _ this] c show ?thesis by (auto simp: all_ids_def)
  next
    case None
    then have "p' = release_with e now ep reason r plan ?p1" using assms(3) plan by (simp add: fail_one_def Let_def)
    with c release_with_ids[of e now ep reason r plan ?p1] show ?thesis by (simp add: all_ids_def)
  qed
  with r1 show "sched_ok (px_sched p')" "all_ids p' = all_ids p"
    "set_mset (queued_ids (px_sched p)) - {request_id r} \<subseteq> set_mset (queued_ids (px_sched p'))" by blast+
qed

lemma fail_all_ids:
  assumes "sched_ok (px_sched p)" "distinct (map request_id rs)" "request_id ` set rs \<subseteq> set_mset (queued_ids (px_sched p))"
    "fail_all e now ep reason rs p = (p', None)"
  shows "sched_ok (px_sched p') \<and> all_ids p' = all_ids p"
  using assms
proof (induction rs arbitrary: p)
  case (Cons r rs)
  from Cons.prems(4) obtain p1 where p1: "fail_one e now ep reason r p = (p1, None)" "fail_all e now ep reason rs p1 = (p', None)"
    by (auto split: prod.splits option.splits)
  have "request_id r \<in># queued_ids (px_sched p)" using Cons.prems(3) by auto
  note f = fail_one_ids[OF Cons.prems(1) this p1(1)]
  have "request_id ` set rs \<subseteq> set_mset (queued_ids (px_sched p)) - {request_id r}"
    using Cons.prems(2,3) unfolding list.simps distinct.simps list.set set_map image_insert by blast
  then have "request_id ` set rs \<subseteq> set_mset (queued_ids (px_sched p1))" using f(3) by (rule subset_trans)
  from Cons.IH[OF f(1) _ this p1(2)] f(2) Cons.prems(2) show ?case by simp
qed simp

lemma queued_requests_held:
  assumes "sched_ok s" shows "set (queued_requests ep bands s) \<subseteq> set_mset (queued_reqs s)"
proof (cases "od_get (sc_queues s) ep")
  case (Some q)
  then have "(ep, q) \<in> set (sc_queues s)" by (rule od_get_Some_in)
  then have "set_mset (queue_reqs q) \<subseteq> set_mset (queued_reqs s)" by (force simp: queued_reqs_def set_mset_sum_list)
  moreover have "set (bands_requests bands q) \<subseteq> set_mset (queue_reqs q)"
    by (auto simp: bands_requests_def queue_reqs_def)
  ultimately show ?thesis using Some by (auto simp: queued_requests_def)
qed (simp add: queued_requests_def)

lemma released_queue_sub: "mset (queued_requests ep [INTERACTIVE, FOREGROUND] s) \<subseteq># queued_reqs s"
proof (cases "od_get (sc_queues s) ep")
  case (Some q)
  have vals: "mset (concat (od_vals d)) = (\<Sum>p\<leftarrow>d. mset (snd p))" for d :: "(string, queued_request list) odict"
    by (induction d) auto
  obtain xs ys where "sc_queues s = xs @ (ep, q) # ys" using od_get_Some_in[OF Some] by (meson split_list)
  then have "queue_reqs q \<subseteq># queued_reqs s" by (simp add: queued_reqs_def)
  moreover have "mset (bands_requests [INTERACTIVE, FOREGROUND] q) \<subseteq># queue_reqs q"
    by (simp add: bands_requests_def queue_reqs_def all_bands_def vals)
  ultimately show ?thesis using Some by (simp add: queued_requests_def)
qed (simp add: queued_requests_def)

lemma distinct_if_counted: "\<forall>x. count (mset xs) x \<le> 1 \<Longrightarrow> distinct xs"
proof (induction xs)
  case (Cons a xs)
  have "count (mset (a # xs)) a \<le> 1" using Cons.prems by blast
  then have "a \<notin> set xs" by (simp add: count_eq_zero_iff)
  moreover have "\<forall>x. count (mset xs) x \<le> 1"
  proof
    fix x
    have "count (mset xs) x \<le> count (mset (a # xs)) x" by simp
    also have "\<dots> \<le> 1" using Cons.prems by blast
    finally show "count (mset xs) x \<le> 1" .
  qed
  ultimately show ?case using Cons.IH by simp
qed simp

text \<open>C10: when an endpoint turns sick, no waiting request is lost and none is answered twice. When the
  identifiers the scheduler holds, queued and in flight, are distinct, so that an identifier is one
  request, and the release raises nothing, the requests the scheduler holds together with those that
  were released with an error are the same before and after; each queued interactive or foreground
  request of the endpoint is either released once or still held.\<close>

theorem fast_fail_conserves:
  assumes "sched_ok (px_sched p)" "\<forall>x. count (held_ids (px_sched p)) x \<le> 1"
    "fast_fail_interactive e now ep reason p = (p', None)"
  shows "held_ids (px_sched p') + mset (map fst (px_released p')) = held_ids (px_sched p) + mset (map fst (px_released p))"
proof -
  let ?rs = "queued_requests ep [INTERACTIVE, FOREGROUND] (px_sched p)"
  have "mset (map request_id ?rs) \<subseteq># held_ids (px_sched p)"
    using image_mset_subseteq_mono[OF released_queue_sub[of ep "px_sched p"], of request_id] by (simp add: held_ids_def subset_mset.add_increasing2)
  from distinct_if_counted[OF distinct_sub[OF assms(2) this]] have d: "distinct (map request_id ?rs)" .
  let ?p1 = "p\<lparr>px_failover := fo_refresh (plan_env e now p) now (px_failover p)\<rparr>"
  have "request_id ` set (queued_requests ep [INTERACTIVE, FOREGROUND] (px_sched p)) \<subseteq> set_mset (queued_ids (px_sched p))"
    using queued_requests_held[OF assms(1), of ep "[INTERACTIVE, FOREGROUND]"] by auto
  with fail_all_ids[of ?p1 _ e now ep reason p'] assms d show ?thesis
    by (simp add: fast_fail_interactive_def all_ids_def)
qed

definition demo_proxy :: proxy where
  "demo_proxy =
     \<lparr>px_sched = fst (sched_enqueue demo_env ((demo_request ''r1'')\<lparr>rq_endpoint := ''tier3''\<rparr>) (fo_sched tier3_down)),
      px_on_demand = new_on_demand [] [] 60, px_residency = new_residency [] [], px_failover = no_failover, px_paused = [],
      px_collapsed = [], px_health = [], px_fail_threshold = 3, px_reachable = [], px_cooldown_until = [], px_failure_times = [],
      px_cooldown_trips = [], px_cooldown_skips = [], px_released = [], px_wake = False\<rparr>"

definition demo_health :: health_env where
  "demo_health = \<lparr>he_roles = [], he_cooldown_enabled = True, he_cooldown_shadow = False, he_allowed_fails = 4, he_window_s = 60,
     he_duration_s = 30, he_goodput_enforce = False, he_sched_env = demo_env\<rparr>"

lemma demo_proxy_ok: "sched_ok (px_sched demo_proxy)"
  unfolding demo_proxy_def proxy.simps by (rule sched_enqueue_ok) (simp add: demo_fleet_def new_scheduler_ok)

text \<open>The request of an agent that did not agree to be degraded is released.\<close>

lemma fast_fail_conserves_witness:
  "held_ids (px_sched (fst (fast_fail_interactive demo_health 5 ''tier3'' ''circuit open'' demo_proxy))) +
     mset (map fst (px_released (fst (fast_fail_interactive demo_health 5 ''tier3'' ''circuit open'' demo_proxy)))) =
   held_ids (px_sched demo_proxy) + mset (map fst (px_released demo_proxy))"
proof -
  let ?x = "fast_fail_interactive demo_health 5 ''tier3'' ''circuit open'' demo_proxy"
  have "snd ?x = None" by code_simp
  then have x: "?x = (fst ?x, None)" by (metis prod.collapse)
  have "held_ids (px_sched demo_proxy) = {#''r1''#}" by code_simp
  then have "\<forall>x. count (held_ids (px_sched demo_proxy)) x \<le> 1" by simp
  from fast_fail_conserves[OF demo_proxy_ok this x] show ?thesis .
qed

subsection \<open>The breaker\<close>

abbreviation breaker_closed :: "string \<Rightarrow> proxy \<Rightarrow> bool" where
  "breaker_closed ep p \<equiv> eh_healthy (od_get_or fresh_health (px_health p) ep)"

lemma fresh_health_sel [simp]:
  "eh_healthy fresh_health" "eh_failures fresh_health = 0" "eh_unhealthy_since fresh_health = None"
  by (simp_all add: fresh_health_def)

lemma update_health:
  "od_get_or fresh_health (px_health (fst (update_endpoint_health e now ep ok alive p))) ep =
     (let h = od_get_or fresh_health (px_health p) ep; h1 = h\<lparr>eh_failures := eh_failures h + 1\<rparr> in
      if ok then fresh_health
      else if \<not> eh_healthy h then (if alive then fresh_health else h)
      else if eh_failures h1 < px_fail_threshold p then h1
      else if alive then h1\<lparr>eh_failures := 0\<rparr> else h1\<lparr>eh_healthy := False, eh_unhealthy_since := Some now\<rparr>)"
  using fast_fail_gates[of _ e now ep "''circuit open''"]
  by (simp add: update_endpoint_health_def Let_def same_gates_def od_get_or_def)

lemma update_threshold [simp]: "px_fail_threshold (fst (update_endpoint_health e now ep ok alive p)) = px_fail_threshold p"
  using fast_fail_gates[of _ e now ep "''circuit open''"]
  by (simp add: update_endpoint_health_def Let_def same_gates_def)

text \<open>A sequence of probes of one endpoint: for each the clock, the result of discovery and the answer of
  the liveness probe.\<close>

definition probe_run :: "health_env \<Rightarrow> string \<Rightarrow> (real \<times> bool \<times> bool) list \<Rightarrow> proxy \<Rightarrow> proxy" where
  "probe_run e ep xs p = foldl (\<lambda>q (now, ok, alive). fst (update_endpoint_health e now ep ok alive q)) p xs"

text \<open>C11: the breaker is no latch. Whatever state it is in, after a probe of a backend that answers its
  liveness check it is closed, and it stays closed as long as the backend answers, whatever
  capacity discovery says: load alone never trips it.\<close>

theorem live_backend_never_latched:
  assumes "xs \<noteq> []" "list_all (\<lambda>(now, ok, alive). alive) xs"
  shows "breaker_closed ep (probe_run e ep xs p)"
  using assms
proof (induction xs rule: rev_induct)
  case (snoc x xs)
  obtain now ok where "x = (now, ok, True)" using snoc.prems(2) by (cases x) simp
  then show ?case by (simp add: probe_run_def update_health Let_def)
qed simp

lemma live_backend_never_latched_witness:
  "breaker_closed ''tier3'' (probe_run demo_health ''tier3'' [(1, False, True), (2, False, True), (3, False, True), (4, False, True)] demo_proxy)"
  by (rule live_backend_never_latched) simp_all

lemma probe_run_threshold [simp]: "px_fail_threshold (probe_run e ep xs p) = px_fail_threshold p"
  by (induction xs rule: rev_induct) (simp_all add: probe_run_def split: prod.split)

text \<open>The breaker opens exactly at its threshold. A fresh endpoint whose discovery and liveness
  probes all fail is refused traffic from the probe on that makes the failures as many as the threshold,
  not before, and the first successful probe readmits it.\<close>

theorem dead_backend_trips_at_threshold:
  assumes "od_get_or fresh_health (px_health p) ep = fresh_health" "px_fail_threshold p > 0" "list_all (\<lambda>(now, ok, alive). \<not> ok \<and> \<not> alive) xs"
  shows "breaker_closed ep (probe_run e ep xs p) = (int (length xs) < px_fail_threshold p) \<and>
    breaker_closed ep (probe_run e ep (xs @ [(now, True, False)]) p)"
proof -
  have "if int (length xs) < px_fail_threshold p
        then od_get_or fresh_health (px_health (probe_run e ep xs p)) ep = fresh_health\<lparr>eh_failures := int (length xs)\<rparr>
        else \<not> breaker_closed ep (probe_run e ep xs p)"
    using assms(3)
  proof (induction xs rule: rev_induct)
    case Nil
    then show ?case using assms(1,2) by (simp add: probe_run_def)
  next
    case (snoc x xs)
    obtain t where x: "x = (t, False, False)" using snoc.prems by (cases x) simp
    have "probe_run e ep (xs @ [x]) p = fst (update_endpoint_health e t ep False False (probe_run e ep xs p))"
      by (simp add: probe_run_def x)
    moreover have "px_fail_threshold (probe_run e ep xs p) = px_fail_threshold p" by simp
    ultimately show ?case using snoc by (auto simp: update_health Let_def split: if_splits)
  qed
  then show ?thesis
    by (auto simp: probe_run_def update_health Let_def split: if_splits)
qed

lemma dead_backend_trips_at_threshold_witness:
  "\<not> breaker_closed ''tier3'' (probe_run demo_health ''tier3'' [(1, False, False), (2, False, False), (3, False, False)] demo_proxy)"
  using dead_backend_trips_at_threshold[of demo_proxy "''tier3''" "[(1, False, False), (2, False, False), (3, False, False)]" demo_health 4]
  by (simp add: demo_proxy_def od_get_or_def)

subsection \<open>The cooldown\<close>

definition backend_fault :: "int option \<Rightarrow> bool \<Rightarrow> bool" where
  "backend_fault status best_effort \<longleftrightarrow> (case status of Some c \<Rightarrow> 500 \<le> c | None \<Rightarrow> False) \<and> \<not> best_effort"

definition recent_failures :: "health_env \<Rightarrow> real \<Rightarrow> string \<Rightarrow> proxy \<Rightarrow> real list" where
  "recent_failures e now endpoint p =
     dropWhile (\<lambda>t. t < now - he_window_s e)
       (od_get_or [] (px_failure_times p) (normalize_endpoint (he_roles e) endpoint) @ [now])"

lemma failure_effect:
  assumes "he_cooldown_enabled e"
  shows "\<exists>q. same_gates (if backend_fault status best_effort \<and> \<not> int (length (recent_failures e now endpoint p)) < he_allowed_fails e
                then q\<lparr>px_cooldown_until := od_put (normalize_endpoint (he_roles e) endpoint) (now + he_duration_s e) (px_cooldown_until p)\<rparr>
                else q)
              (fst (record_dispatch_failure e now endpoint status best_effort p)) \<and> same_gates p q"
proof (cases "backend_fault status best_effort \<and> \<not> int (length (recent_failures e now endpoint p)) < he_allowed_fails e")
  case True
  let ?ep = "normalize_endpoint (he_roles e) endpoint"
  let ?q = "p\<lparr>px_failure_times := od_put ?ep [] (px_failure_times p),
              px_cooldown_trips := od_put ?ep (od_get_or 0 (px_cooldown_trips p) ?ep + 1) (px_cooldown_trips p)\<rparr>"
  have "fst (record_dispatch_failure e now endpoint status best_effort p) =
      fst (fast_fail_interactive e now ?ep ''circuit open'' (?q\<lparr>px_cooldown_until := od_put ?ep (now + he_duration_s e) (px_cooldown_until p)\<rparr>))"
    using True assms by (auto simp: record_dispatch_failure_def backend_fault_def recent_failures_def Let_def)
  with fast_fail_gates[of "?q\<lparr>px_cooldown_until := od_put ?ep (now + he_duration_s e) (px_cooldown_until p)\<rparr>" e now ?ep "''circuit open''"] True
  show ?thesis by (intro exI[of _ ?q]) (simp add: same_gates_def)
next
  case False
  then have "same_gates p (fst (record_dispatch_failure e now endpoint status best_effort p))"
    using assms by (auto simp: record_dispatch_failure_def backend_fault_def recent_failures_def Let_def same_gates_def split: option.splits)
  with False show ?thesis by (intro exI[of _ p]) (auto simp: same_gates_def)
qed

text \<open>What a failed dispatch does to the health of its endpoint. The endpoint is refused traffic for the
  duration of the cooldown exactly when the failure was a fault of the backend, with a deadline that
  gave it a fair chance, and completes the configured number of such failures within the window.
  In every other case, and once the time is over, its health is what it was: a caller's own
  fault never cools a backend.\<close>

theorem cooldown_trips_exactly:
  assumes "he_cooldown_enabled e" "0 < now" "0 < he_duration_s e" "now \<le> t"
    "od_get_or 0 (px_cooldown_until p) (normalize_endpoint (he_roles e) endpoint) \<le> now + he_duration_s e"
  shows "endpoint_healthy e t (fst (record_dispatch_failure e now endpoint status best_effort p)) endpoint =
    (endpoint_healthy e t p endpoint \<and>
     (\<not> backend_fault status best_effort \<or> int (length (recent_failures e now endpoint p)) < he_allowed_fails e \<or> now + he_duration_s e \<le> t))"
proof -
  obtain q where q: "same_gates (if backend_fault status best_effort \<and> \<not> int (length (recent_failures e now endpoint p)) < he_allowed_fails e
                then q\<lparr>px_cooldown_until := od_put (normalize_endpoint (he_roles e) endpoint) (now + he_duration_s e) (px_cooldown_until p)\<rparr>
                else q) (fst (record_dispatch_failure e now endpoint status best_effort p))" "same_gates p q"
    using failure_effect[OF assms(1)] by blast
  show ?thesis unfolding same_gates_healthy[OF q(1)]
    using q(2) assms by (auto simp: same_gates_def endpoint_healthy_def Let_def od_get_or_def)
qed

lemma cooldown_trips_exactly_witness:
  "\<not> endpoint_healthy demo_health 20
       (fst (record_dispatch_failure demo_health 10 ''tier3'' (Some 503) False (demo_proxy\<lparr>px_failure_times := [(''tier3'', [7, 8, 9])]\<rparr>))) ''tier3''"
proof -
  let ?p = "demo_proxy\<lparr>px_failure_times := [(''tier3'', [7, 8, 9])]\<rparr>"
  have n: "normalize_endpoint (he_roles demo_health) ''tier3'' = ''tier3''" by code_simp
  have "length (recent_failures demo_health 10 ''tier3'' ?p) = 4"
    by (simp add: recent_failures_def n) (simp add: od_get_or_def demo_health_def)
  then show ?thesis
    using cooldown_trips_exactly[of demo_health 10 20 ?p "''tier3''" "Some 503" False]
    by (simp add: n demo_health_def demo_proxy_def backend_fault_def od_get_or_def)
qed

subsection \<open>What is reported\<close>

text \<open>The status of an endpoint is one of the six states, and an endpoint that is reported healthy is one
  that admission would accept traffic for; if it is loaded on demand or placed by a dispatcher it
  was also seen to answer.\<close>

theorem reported_healthy_is_admitted:
  "es_state (endpoint_status e now p ep) \<in> set availability_states \<and>
   (es_state (endpoint_status e now p ep) = ''healthy'' \<longrightarrow>
      ep \<notin> set (px_paused p) \<and> endpoint_healthy e now p ep \<and>
      (rd_state ep now (px_residency p) \<noteq> None \<longrightarrow> od_get (px_reachable p) ep = Some True) \<and>
      ((\<exists>c. od_get (endpoints (sc_config (px_sched p))) ep = Some c \<and> ep_on_demand c) \<longrightarrow> od_get (px_reachable p) ep = Some True))"
  by (auto simp: endpoint_status_def Let_def availability_states_def split: if_splits option.splits)

lemma reported_healthy_is_admitted_witness:
  "es_state (endpoint_status demo_health 5 demo_proxy ''tier2'') = ''healthy'' \<and> endpoint_healthy demo_health 5 demo_proxy ''tier2''"
proof -
  have "es_state (endpoint_status demo_health 5 demo_proxy ''tier2'') = ''healthy''" by code_simp
  with reported_healthy_is_admitted[of demo_health 5 demo_proxy "''tier2''"] show ?thesis by blast
qed

subsection \<open>Where the code falls short\<close>

text \<open>An endpoint that is neither loaded on demand nor placed by a dispatcher is reported healthy before
  any probe has reached it, and after one that did not answer.\<close>

lemma healthy_without_a_probe:
  "px_reachable demo_proxy = [] \<and> es_state (endpoint_status demo_health 5 demo_proxy ''tier2'') = ''healthy''"
  "es_state (endpoint_status demo_health 5 (demo_proxy\<lparr>px_reachable := [(''tier2'', False)]\<rparr>) ''tier2'') = ''healthy''"
  by code_simp+

text \<open>Releasing or moving the queue of an endpoint that is loaded on demand leaves its count of requests
  in flight where it was, although those requests will never complete there.\<close>

lemma fast_fail_keeps_lease_count: "px_on_demand (fst (fast_fail_interactive e now ep reason p)) = px_on_demand p"
  using fast_fail_gates[of p e now ep reason] by (simp add: same_gates_def)

end
