(* ===== verification/Resolver.thy ===== *)
theory Resolver
  imports Identity
begin

section \<open>Resolving a request to a caller (identity.py)\<close>

text \<open>
  The request side of the identity layer: the credential a request presents (\<open>presented_key\<close>, with
  the base64 and UTF-8 decoding of HTTP Basic), the placeholder bearers, the address a request is
  from behind trusted proxies (\<open>client_address\<close>), and \<open>IdentityResolver\<close> with its decisions
  (\<open>id_resolve\<close>, \<open>delegate\<close>, \<open>admin_denial\<close>, \<open>calls_push_denial\<close>, \<open>csrf_denial\<close>).
\<close>

subsection \<open>Requests and their headers\<close>

record request =
  rq_get :: "string \<Rightarrow> string option"
  rq_host :: "string option"
  rq_method :: "string option"
  rq_noted :: bool

text \<open>\<^verbatim>\<open>str.title\<close>.\<close>

definition is_letter :: "char \<Rightarrow> bool" where
  "is_letter c = (let n = of_char c :: nat in (65 \<le> n \<and> n \<le> 90) \<or> (97 \<le> n \<and> n \<le> 122))"

fun title_from :: "bool \<Rightarrow> string \<Rightarrow> string" where
  "title_from after_letter [] = []"
| "title_from after_letter (c # cs) =
     (if after_letter then lower_char c else upper_char c) # title_from (is_letter c) cs"

definition py_title :: "string \<Rightarrow> string" where
  "py_title s = title_from False s"

fun first_given :: "string option list \<Rightarrow> string" where
  "first_given [] = []"
| "first_given (v # vs) = (case v of Some s \<Rightarrow> (if s \<noteq> [] then s else first_given vs) | None \<Rightarrow> first_given vs)"

definition header :: "request \<Rightarrow> string \<Rightarrow> string" where
  "header r name = first_given (map (rq_get r) [name, py_lower name, py_title name, py_upper name])"

subsection \<open>HTTP Basic\<close>

definition b64_value :: "char \<Rightarrow> nat option" where
  "b64_value c = (let n = of_char c :: nat in
     if 65 \<le> n \<and> n \<le> 90 then Some (n - 65)
     else if 97 \<le> n \<and> n \<le> 122 then Some (n - 71)
     else if 48 \<le> n \<and> n \<le> 57 then Some (n + 4)
     else if n = 43 then Some 62
     else if n = 47 then Some 63
     else None)"

text \<open>\<^verbatim>\<open>binascii.a2b_base64\<close> in strict mode: the position in the quadruple, the bits left over, the
  pads seen since the last data character, whether padding has started.\<close>

fun a2b_base64 :: "nat \<Rightarrow> nat \<Rightarrow> nat \<Rightarrow> bool \<Rightarrow> string \<Rightarrow> nat list option" where
  "a2b_base64 quad left pads padding [] = (if quad = 0 then Some [] else None)"
| "a2b_base64 quad left pads padding (c # cs) =
     (if c = CHR ''='' then
        (if quad \<ge> 2 \<and> quad + Suc pads \<ge> 4 then (if cs = [] then Some [] else None)
         else a2b_base64 quad left (if quad \<ge> 2 then Suc pads else pads) True cs)
      else case b64_value c of
        None \<Rightarrow> None
      | Some v \<Rightarrow>
          if padding then None
          else if quad = 0 then a2b_base64 1 v 0 padding cs
          else if quad = 1 then map_option ((#) (left * 4 + v div 16)) (a2b_base64 2 (v mod 16) 0 padding cs)
          else if quad = 2 then map_option ((#) (left * 16 + v div 4)) (a2b_base64 3 (v mod 4) 0 padding cs)
          else map_option ((#) (left * 64 + v)) (a2b_base64 0 0 0 padding cs))"

definition b64decode :: "string \<Rightarrow> nat list option" where
  "b64decode s = (if s \<noteq> [] \<and> hd s = CHR ''='' then None else a2b_base64 0 0 0 False s)"

text \<open>UTF-8, for the texts of this development (code points below 256).\<close>

fun utf8_decode :: "nat list \<Rightarrow> string option" where
  "utf8_decode [] = Some []"
| "utf8_decode (b # bs) =
     (if b < 128 then map_option ((#) (char_of b)) (utf8_decode bs)
      else case bs of
        [] \<Rightarrow> None
      | b2 # rest \<Rightarrow>
          if (b = 194 \<or> b = 195) \<and> 128 \<le> b2 \<and> b2 < 192
          then map_option ((#) (char_of ((b - 192) * 64 + (b2 - 128)))) (utf8_decode rest)
          else None)"

definition basic_password :: "string \<Rightarrow> string" where
  "basic_password blob =
     (case Option.bind (b64decode blob) utf8_decode of
        None \<Rightarrow> []
      | Some decoded \<Rightarrow>
          (case partition_at (CHR '':'') decoded of
             (user, sep, password) \<Rightarrow> if sep then py_strip password else []))"

subsection \<open>The presented credential\<close>

definition bearer_prefix :: string where "bearer_prefix = ''bearer ''"
definition basic_prefix :: string where "basic_prefix = ''basic ''"

definition starts_with :: "string \<Rightarrow> string \<Rightarrow> bool" where
  "starts_with s p = (take (length p) s = p)"

definition presented_bearer :: "request \<Rightarrow> string" where
  "presented_bearer r =
     (let auth = py_strip (header r ''Authorization'') in
      if starts_with (py_lower auth) bearer_prefix then py_strip (drop (length bearer_prefix) auth) else [])"

definition api_key_header :: "request \<Rightarrow> string" where
  "api_key_header r = py_strip (header r ''X-API-Key'')"

definition presented_key :: "request \<Rightarrow> string" where
  "presented_key r =
     (let auth = py_strip (header r ''Authorization'') in
      if starts_with (py_lower auth) bearer_prefix then py_strip (drop (length bearer_prefix) auth)
      else if starts_with (py_lower auth) basic_prefix then basic_password (py_strip (drop (length basic_prefix) auth))
      else api_key_header r)"

definition unknown_address :: string where "unknown_address = ''unknown''"

definition peer_ip :: "request \<Rightarrow> string" where
  "peer_ip r = (case rq_host r of Some h \<Rightarrow> (if h \<noteq> [] then h else unknown_address) | None \<Rightarrow> unknown_address)"

subsection \<open>Placeholder bearers\<close>

definition max_tracked :: nat where "max_tracked = 256"

record placeholders =
  ph_values :: "string list"
  ph_count :: int
  ph_by_address :: "(string, int) odict"
  ph_notified :: "((string \<times> string), string) odict"

definition new_placeholders :: "string list \<Rightarrow> placeholders" where
  "new_placeholders vals =
     \<lparr>ph_values = od_keys (foldl (\<lambda>seen t. od_put t () seen) [] (filter (\<lambda>t. t \<noteq> []) (map py_strip vals))),
      ph_count = 0, ph_by_address = [], ph_notified = []\<rparr>"

definition ph_declares :: "placeholders \<Rightarrow> string \<Rightarrow> bool" where
  "ph_declares ph token = (token \<noteq> [] \<and> token \<in> set (ph_values ph))"

definition placeholder_is_key :: "(string \<Rightarrow> string) \<Rightarrow> real \<Rightarrow> placeholders \<Rightarrow> key_registry \<Rightarrow> bool" where
  "placeholder_is_key sha now ph keys = list_ex (\<lambda>v. kl_key_id (kr_lookup sha now keys v) \<noteq> None) (ph_values ph)"

definition ph_note :: "string \<Rightarrow> string \<Rightarrow> string \<Rightarrow> placeholders \<times> request \<Rightarrow> placeholders \<times> request" where
  "ph_note today val address st =
     (case st of (ph, r) \<Rightarrow>
        if rq_noted r then (ph, r)
        else
          let counts = (if address \<in> fst ` set (ph_by_address ph) \<or> length (ph_by_address ph) < max_tracked
                        then od_put address (od_get_or 0 (ph_by_address ph) address + 1) (ph_by_address ph)
                        else ph_by_address ph);
              marks = (if od_get (ph_notified ph) (val, address) = Some today then ph_notified ph
                       else od_put (val, address) today
                              (if length (ph_notified ph) \<ge> max_tracked then [] else ph_notified ph))
          in (ph\<lparr>ph_count := ph_count ph + 1, ph_by_address := counts, ph_notified := marks\<rparr>, r\<lparr>rq_noted := True\<rparr>))"

subsection \<open>Forwarded addresses\<close>

definition max_forwarded_hops :: nat where "max_forwarded_hops = 32"

definition trusts :: "ip_net list \<Rightarrow> string \<Rightarrow> bool" where
  "trusts nets address =
     (nets \<noteq> [] \<and> address \<noteq> [] \<and> (case ip_address address of None \<Rightarrow> False | Some a \<Rightarrow> in_any a nets))"

definition parse_trusted :: "string \<Rightarrow> ip_net list" where
  "parse_trusted raw = nets_of (filter (\<lambda>e. e \<noteq> []) (map py_strip (split_on (CHR '','') raw)))"

record client_addr =
  ca_ip :: string
  ca_forwarded :: bool

definition forwarded_hop :: "string \<Rightarrow> string option" where
  "forwarded_hop raw =
     (let txt = py_strip raw;
          body = (if txt \<noteq> [] \<and> hd txt = CHR ''['' then
                    (if CHR '']'' \<in> set txt then Some (takeWhile (\<lambda>c. c \<noteq> CHR '']'') (tl txt)) else None)
                  else if length (filter (\<lambda>c. c = CHR '':'') txt) = 1 then Some (takeWhile (\<lambda>c. c \<noteq> CHR '':'') txt)
                  else Some txt)
      in case body of None \<Rightarrow> None | Some s \<Rightarrow> map_option str_ip (ip_address s))"

text \<open>The loop over \<^verbatim>\<open>reversed(chain)\<close>, with the last hop seen.\<close>

fun walk_hops :: "ip_net list \<Rightarrow> string \<Rightarrow> string list \<Rightarrow> string" where
  "walk_hops trusted seen [] = seen"
| "walk_hops trusted seen (raw # rest) =
     (case forwarded_hop raw of
        None \<Rightarrow> unknown_address
      | Some hop \<Rightarrow> if \<not> trusts trusted hop then hop else walk_hops trusted hop rest)"

definition hop_chain :: "request \<Rightarrow> string list" where
  "hop_chain r = filter (\<lambda>part. py_strip part \<noteq> []) (split_on (CHR '','') (header r ''X-Forwarded-For''))"

definition client_address :: "ip_net list \<Rightarrow> request \<Rightarrow> client_addr" where
  "client_address trusted r =
     (let peer = peer_ip r in
      if trusted = [] \<or> \<not> trusts trusted peer then \<lparr>ca_ip = peer, ca_forwarded = False\<rparr>
      else
        let chain = hop_chain r in
        if chain = [] then \<lparr>ca_ip = peer, ca_forwarded = True\<rparr>
        else if length chain > max_forwarded_hops then \<lparr>ca_ip = unknown_address, ca_forwarded = True\<rparr>
        else \<lparr>ca_ip = walk_hops trusted [] (rev chain), ca_forwarded = True\<rparr>)"

subsection \<open>The resolver\<close>

record resolver =
  rs_acl :: ip_identity_map
  rs_keys :: key_registry
  rs_proxies :: "ip_net list"
  rs_placeholders :: placeholders
  rs_require_key :: bool

definition make_resolver ::
  "(string \<Rightarrow> string) \<Rightarrow> real \<Rightarrow> ip_identity_map \<Rightarrow> key_registry \<Rightarrow> ip_net list \<Rightarrow> placeholders \<Rightarrow> bool \<Rightarrow> resolver py" where
  "make_resolver sha now acl keys proxies ph require_key =
     (if placeholder_is_key sha now ph keys then Inl ValueError
      else Inr \<lparr>rs_acl = acl, rs_keys = keys, rs_proxies = proxies, rs_placeholders = ph, rs_require_key = require_key\<rparr>)"

definition client_ip :: "resolver \<Rightarrow> request \<Rightarrow> string" where
  "client_ip rs r = ca_ip (client_address (rs_proxies rs) r)"

text \<open>The key that counts: a declared placeholder is read as an absent \<^verbatim>\<open>Authorization\<close> header.\<close>

definition is_placeholder :: "resolver \<Rightarrow> request \<Rightarrow> bool" where
  "is_placeholder rs r = (presented_key r \<noteq> [] \<and> ph_declares (rs_placeholders rs) (presented_bearer r))"

definition effective_key :: "resolver \<Rightarrow> request \<Rightarrow> string" where
  "effective_key rs r = (if is_placeholder rs r then api_key_header r else presented_key r)"

definition note_placeholder :: "string \<Rightarrow> resolver \<Rightarrow> request \<Rightarrow> resolver \<times> request" where
  "note_placeholder today rs r =
     (if is_placeholder rs r
      then (case ph_note today (presented_key r) (client_ip rs r) (rs_placeholders rs, r) of
              (ph, r') \<Rightarrow> (rs\<lparr>rs_placeholders := ph\<rparr>, r'))
      else (rs, r))"

definition binding_denial :: "resolver \<Rightarrow> request \<Rightarrow> key_lookup \<Rightarrow> denial option" where
  "binding_denial rs r found =
     (if kl_bind found = [] then None
      else if address_in_any (ca_ip (client_address (rs_proxies rs) r)) (kl_bind found) then None
      else Some (deny ''invalid_api_key'' 401 BoundElsewhere))"

definition address_principal :: "ip_identity_map \<Rightarrow> string \<Rightarrow> string \<times> llm_priority \<Rightarrow> principal" where
  "address_principal acl ip identity =
     \<lparr>p_agent_id = fst identity, p_priority = snd identity, p_priority_declared = acl_priority_declared acl ip,
      p_min_timeout_s = acl_min_timeout_s acl ip, p_admin = False, p_admin_readonly = False, p_calls_push = False,
      p_source = ''ip'', p_key_id = None, p_may_assert = {}\<rparr>"

definition decide :: "(string \<Rightarrow> string) \<Rightarrow> real \<Rightarrow> resolver \<Rightarrow> request \<Rightarrow> id_resolution" where
  "decide sha now rs r =
     (let key = effective_key rs r; keys = rs_keys rs in
      if key \<noteq> [] \<and> (configured keys \<or> is_bootstrap sha keys key) then
        (let found = kr_lookup sha now keys key in
         case kl_principal found of
           Some p \<Rightarrow> (case binding_denial rs r found of Some d \<Rightarrow> Denied d | None \<Rightarrow> Granted p)
         | None \<Rightarrow>
             if kl_expired_at found \<noteq> None then Denied (deny ''invalid_api_key'' 401 ExpiredKey)
             else Denied (deny ''invalid_api_key'' 401 UnknownKey))
      else if rs_require_key rs then Denied (deny ''invalid_api_key'' 401 KeyRequired)
      else let ip = client_ip rs r in
        case identify (rs_acl rs) ip of
          None \<Rightarrow> Denied (deny ''access_denied'' 403 AddressDenied)
        | Some identity \<Rightarrow> Granted (address_principal (rs_acl rs) ip identity))"

definition id_resolve ::
  "(string \<Rightarrow> string) \<Rightarrow> real \<Rightarrow> string \<Rightarrow> resolver \<Rightarrow> request \<Rightarrow> id_resolution \<times> resolver \<times> request" where
  "id_resolve sha now today rs r = (decide sha now rs r, note_placeholder today rs r)"

definition delegate :: "principal \<Rightarrow> json \<Rightarrow> id_resolution" where
  "delegate p declared =
     (let name = py_strip (py_str (or_empty declared)) in
      if name = [] \<or> name = p_agent_id p then Granted p
      else if p_may_assert p = {} then Granted p
      else if name \<notin> p_may_assert p then Denied (deny ''access_denied'' 403 MayNotAssert)
      else Granted (p\<lparr>p_agent_id := name\<rparr>))"

definition id_min_timeout_s ::
  "(string \<Rightarrow> string) \<Rightarrow> real \<Rightarrow> string \<Rightarrow> resolver \<Rightarrow> request \<Rightarrow> pyfloat option \<times> resolver \<times> request" where
  "id_min_timeout_s sha now today rs r =
     (case id_resolve sha now today rs r of
        (res, rs', r') \<Rightarrow> (case res of Granted p \<Rightarrow> p_min_timeout_s p | Denied _ \<Rightarrow> None, rs', r'))"

subsection \<open>The admin plane\<close>

definition request_method :: "request \<Rightarrow> string" where
  "request_method r = py_upper (case rq_method r of Some m \<Rightarrow> (if m \<noteq> [] then m else ''GET'') | None \<Rightarrow> ''GET'')"

definition admin_reach_denial :: "resolver \<Rightarrow> request \<Rightarrow> denial option" where
  "admin_reach_denial rs r =
     (let address = client_address (rs_proxies rs) r in
      if may_reach_admin (rs_acl rs) (ca_ip address) (\<not> ca_forwarded address) then None
      else Some (deny ''access_denied'' 403 NetworkRefused))"

definition csrf_denial :: "request \<Rightarrow> denial option" where
  "csrf_denial r =
     (let media_type = py_lower (py_strip (takeWhile (\<lambda>c. c \<noteq> CHR '';'') (header r ''Content-Type''))) in
      if media_type \<noteq> ''application/json'' then Some (deny ''invalid_request_error'' 415 WrongMediaType)
      else if py_lower (py_strip (header r ''Sec-Fetch-Site'')) = ''cross-site'' then Some (deny ''access_denied'' 403 CrossSite)
      else if starts_with (py_lower (py_strip (header r ''Authorization''))) basic_prefix
              \<and> py_strip (header r ''X-Roadstead-Request'') \<noteq> ''1''
           then Some (deny ''access_denied'' 403 CsrfHeaderMissing)
      else None)"

definition admin_denial ::
  "(string \<Rightarrow> string) \<Rightarrow> real \<Rightarrow> string \<Rightarrow> resolver \<Rightarrow> request \<Rightarrow> denial option \<times> resolver \<times> request" where
  "admin_denial sha now today rs r =
     (case admin_reach_denial rs r of
        Some d \<Rightarrow> (Some d, rs, r)
      | None \<Rightarrow>
          (case id_resolve sha now today rs r of
             (Denied d, st) \<Rightarrow> (Some d, st)
           | (Granted p, rs', r') \<Rightarrow>
               (if \<not> p_admin p then Some (deny ''access_denied'' 403 NotAdmin)
                else if request_method r' \<notin> safe_methods \<and> \<not> may_admin_write p
                  then Some (deny ''access_denied'' 403 ReadOnlyScope)
                else if request_method r' \<notin> safe_methods then csrf_denial r'
                else None, rs', r')))"

definition calls_push_denial ::
  "(string \<Rightarrow> string) \<Rightarrow> real \<Rightarrow> string \<Rightarrow> resolver \<Rightarrow> request \<Rightarrow> denial option \<times> resolver \<times> request" where
  "calls_push_denial sha now today rs r =
     (case admin_reach_denial rs r of
        Some d \<Rightarrow> (Some d, rs, r)
      | None \<Rightarrow>
          (case id_resolve sha now today rs r of
             (Granted p, rs', r') \<Rightarrow>
               if p_admin p \<or> \<not> p_calls_push p then admin_denial sha now today rs' r'
               else (if request_method r' \<noteq> ''POST'' then Some (deny ''access_denied'' 403 IngestOnly) else csrf_denial r', rs', r')
           | (Denied _, rs', r') \<Rightarrow> admin_denial sha now today rs' r'))"

text \<open>\<^verbatim>\<open>legacy.may_self_declare\<close>.\<close>

definition may_self_declare :: "resolver \<Rightarrow> request \<Rightarrow> bool" where
  "may_self_declare rs r =
     (let address = client_address (rs_proxies rs) r in \<not> ca_forwarded address \<and> is_internal (ca_ip address))"

subsection \<open>Lemmas: what a resolution leaves alone\<close>

text \<open>The marker on a request and the tally of the placeholders are written by a resolution and read
  by no decision.\<close>

lemma noted_irrelevant [simp]:
  "header (r\<lparr>rq_noted := b\<rparr>) n = header r n"
  "peer_ip (r\<lparr>rq_noted := b\<rparr>) = peer_ip r"
  "request_method (r\<lparr>rq_noted := b\<rparr>) = request_method r"
  by (simp_all add: header_def peer_ip_def request_method_def)

lemma noted_irrelevant2 [simp]:
  "presented_bearer (r\<lparr>rq_noted := b\<rparr>) = presented_bearer r"
  "presented_key (r\<lparr>rq_noted := b\<rparr>) = presented_key r"
  "api_key_header (r\<lparr>rq_noted := b\<rparr>) = api_key_header r"
  "client_address nets (r\<lparr>rq_noted := b\<rparr>) = client_address nets r"
  "csrf_denial (r\<lparr>rq_noted := b\<rparr>) = csrf_denial r"
  by (simp_all add: presented_bearer_def presented_key_def api_key_header_def client_address_def hop_chain_def csrf_denial_def Let_def)

definition same_decisions :: "resolver \<times> request \<Rightarrow> resolver \<times> request \<Rightarrow> bool" where
  "same_decisions a b \<longleftrightarrow>
     (\<exists>n ph. ph_values ph = ph_values (rs_placeholders (fst a)) \<and>
        b = ((fst a)\<lparr>rs_placeholders := ph\<rparr>, (snd a)\<lparr>rq_noted := n\<rparr>))"

lemma note_same_decisions: "same_decisions (rs, r) (note_placeholder today rs r)"
proof (cases "is_placeholder rs r")
  case True
  show ?thesis
  proof (cases "rq_noted r")
    case True
    then have "note_placeholder today rs r = (rs, r)" by (simp add: note_placeholder_def ph_note_def)
    then show ?thesis
      by (auto simp: same_decisions_def intro!: exI[of _ "rq_noted r"] exI[of _ "rs_placeholders rs"])
  next
    case False
    let ?ph = "fst (ph_note today (presented_key r) (client_ip rs r) (rs_placeholders rs, r))"
    have "ph_values ?ph = ph_values (rs_placeholders rs)" by (simp add: ph_note_def Let_def)
    moreover have "note_placeholder today rs r = (rs\<lparr>rs_placeholders := ?ph\<rparr>, r\<lparr>rq_noted := True\<rparr>)"
      using \<open>is_placeholder rs r\<close> False by (simp add: note_placeholder_def ph_note_def Let_def)
    ultimately show ?thesis unfolding same_decisions_def by auto
  qed
next
  case False
  then show ?thesis
    by (auto simp: same_decisions_def note_placeholder_def intro!: exI[of _ "rq_noted r"] exI[of _ "rs_placeholders rs"])
qed

lemma same_decisions_facts:
  assumes "same_decisions (rs, r) (rs', r')"
  shows "decide sha now rs' r' = decide sha now rs r" "request_method r' = request_method r"
    "csrf_denial r' = csrf_denial r" "admin_reach_denial rs' r' = admin_reach_denial rs r"
proof -
  from assms obtain n ph where e: "ph_values ph = ph_values (rs_placeholders rs)"
    "rs' = rs\<lparr>rs_placeholders := ph\<rparr>" "r' = r\<lparr>rq_noted := n\<rparr>" by (auto simp: same_decisions_def)
  have ip: "is_placeholder rs' r' = is_placeholder rs r" by (simp add: is_placeholder_def ph_declares_def e)
  then have k: "effective_key rs' r' = effective_key rs r" by (simp add: effective_key_def e)
  have c: "client_ip rs' r' = client_ip rs r" by (simp add: client_ip_def e)
  have b: "binding_denial rs' r' = binding_denial rs r" by (rule ext) (simp add: binding_denial_def e)
  have o: "rs_keys rs' = rs_keys rs" "rs_acl rs' = rs_acl rs" "rs_require_key rs' = rs_require_key rs" by (simp_all add: e)
  show "decide sha now rs' r' = decide sha now rs r" unfolding decide_def Let_def k c b o ..
  show "request_method r' = request_method r" "csrf_denial r' = csrf_denial r"
    "admin_reach_denial rs' r' = admin_reach_denial rs r" by (simp_all add: e admin_reach_denial_def)
qed

lemma note_facts:
  assumes "note_placeholder today rs r = (rs', r')"
  shows "decide sha now rs' r' = decide sha now rs r" "request_method r' = request_method r"
    "csrf_denial r' = csrf_denial r" "admin_reach_denial rs' r' = admin_reach_denial rs r"
  using same_decisions_facts[of rs r rs' r'] note_same_decisions[of rs r today] assms by simp_all

subsection \<open>Lemmas: credentials\<close>

text \<open>What it takes for a request to be the holder of a key: it presents one that is registered, in
  play, not expired, and not bound to other addresses.\<close>

definition key_grants :: "(string \<Rightarrow> string) \<Rightarrow> real \<Rightarrow> resolver \<Rightarrow> request \<Rightarrow> principal \<Rightarrow> bool" where
  "key_grants sha now rs r p \<longleftrightarrow>
     (let key = effective_key rs r; keys = rs_keys rs; d = sha key in
      key \<noteq> [] \<and> (configured keys \<or> is_bootstrap sha keys key) \<and> od_get (by_digest keys) d = Some p \<and>
      \<not> kr_is_expired keys d now \<and>
      (cr_bind (cred_of keys d) = [] \<or> address_in_any (client_ip rs r) (cr_bind (cred_of keys d))))"

lemma decide_with_key:
  assumes "effective_key rs r \<noteq> []" "configured (rs_keys rs) \<or> is_bootstrap sha (rs_keys rs) (effective_key rs r)"
  shows "decide sha now rs r = Granted p \<longleftrightarrow> key_grants sha now rs r p"
    and "decide sha now rs r = Denied d \<Longrightarrow> dn_status d = 401 \<and> dn_code d = ''invalid_api_key''"
proof -
  show "decide sha now rs r = Granted p \<longleftrightarrow> key_grants sha now rs r p"
    using assms
    by (auto simp: decide_def key_grants_def Let_def kr_lookup_def no_lookup_def binding_denial_def client_ip_def
        split: option.splits if_splits)
  show "decide sha now rs r = Denied d \<Longrightarrow> dn_status d = 401 \<and> dn_code d = ''invalid_api_key''"
    using assms
    by (auto simp: decide_def Let_def binding_denial_def deny_def split: option.splits if_splits)
qed

lemma decide_without_key:
  assumes "\<not> (effective_key rs r \<noteq> [] \<and> (configured (rs_keys rs) \<or> is_bootstrap sha (rs_keys rs) (effective_key rs r)))"
  shows "decide sha now rs r =
    (if rs_require_key rs then Denied (deny ''invalid_api_key'' 401 KeyRequired)
     else case identify (rs_acl rs) (client_ip rs r) of
       None \<Rightarrow> Denied (deny ''access_denied'' 403 AddressDenied)
     | Some identity \<Rightarrow> Granted (address_principal (rs_acl rs) (client_ip rs r) identity))"
  unfolding decide_def Let_def using assms by (simp only: if_False)

lemma decide_granted_cases:
  assumes "decide sha now rs r = Granted p"
  shows "key_grants sha now rs r p \<or> (\<exists>ident. p = address_principal (rs_acl rs) (client_ip rs r) ident)"
proof (cases "effective_key rs r \<noteq> [] \<and> (configured (rs_keys rs) \<or> is_bootstrap sha (rs_keys rs) (effective_key rs r))")
  case True
  then show ?thesis using decide_with_key(1)[of rs r sha now p] assms by blast
next
  case False
  show ?thesis using assms unfolding decide_without_key[OF False] by (auto split: if_splits option.splits)
qed

text \<open>C30: a wrong credential never becomes another identity. Once a key is configured, a request that
  presents one is either the holder of exactly that key or refused with 401; its address is never
  consulted for who it is.\<close>

lemma wrong_key_never_falls_back:
  assumes "configured (rs_keys rs)" "effective_key rs r \<noteq> []"
  shows "case fst (id_resolve sha now today rs r) of
           Granted p \<Rightarrow> key_grants sha now rs r p
         | Denied d \<Rightarrow> dn_status d = 401 \<and> dn_code d = ''invalid_api_key''"
proof (cases "decide sha now rs r")
  case (Granted p)
  then have "key_grants sha now rs r p" using decide_with_key(1)[of rs r sha now p] assms by blast
  then show ?thesis by (simp add: id_resolve_def Granted)
next
  case (Denied d)
  then have "dn_status d = 401 \<and> dn_code d = ''invalid_api_key''" using decide_with_key(2)[of rs r sha now d] assms by blast
  then show ?thesis by (simp add: id_resolve_def Denied)
qed

text \<open>C31: the admin plane. A request is let through exactly when its address may reach the plane and
  it holds a key with the admin scope, and, unless its method only reads, the scope is not narrowed
  to reads and the request passes the cross-site checks. No address, however it is registered,
  stands in for the key.\<close>

lemma admin_exactly:
  "fst (admin_denial sha now today rs r) = None \<longleftrightarrow>
     admin_reach_denial rs r = None \<and>
     (\<exists>p. key_grants sha now rs r p \<and> p_admin p \<and>
        (request_method r \<in> safe_methods \<or> may_admin_write p \<and> csrf_denial r = None))"
proof -
  obtain rs' r' where n: "note_placeholder today rs r = (rs', r')" by force
  note f = note_facts[OF n]
  show ?thesis
  proof (cases "decide sha now rs r")
    case (Denied d)
    then have "\<not> key_grants sha now rs r p" for p
      using decide_with_key(1)[of rs r sha now p] by (auto simp: key_grants_def Let_def)
    then show ?thesis by (auto simp: admin_denial_def id_resolve_def n Denied split: option.splits)
  next
    case (Granted p)
    have "key_grants sha now rs r q \<Longrightarrow> q = p" for q
      using decide_with_key(1)[of rs r sha now q] Granted by (auto simp: key_grants_def Let_def)
    moreover have "p_admin p \<Longrightarrow> key_grants sha now rs r p"
      using decide_granted_cases[OF Granted] by (auto simp: address_principal_def)
    ultimately show ?thesis
      by (auto simp: admin_denial_def id_resolve_def n Granted f may_admin_write_def split: option.splits)
  qed
qed

text \<open>The ingest scope opens one door. On a reachable registry, the holder of a key with the
  ingest scope is refused by the admin gate for every method, and passes the ingest gate exactly
  with a POST from a reachable network that passes the cross-site checks.\<close>

lemma ingest_scope_contained:
  assumes "registry_ok (rs_keys rs)" "key_grants sha now rs r p" "p_calls_push p"
  shows "fst (admin_denial sha now today rs r) \<noteq> None \<and>
    (fst (calls_push_denial sha now today rs r) = None \<longleftrightarrow>
       admin_reach_denial rs r = None \<and> request_method r = ''POST'' \<and> csrf_denial r = None)"
proof
  have "principal_ok p" using registry_principal_ok[OF assms(1)] assms(2) by (auto simp: key_grants_def Let_def)
  then have na: "\<not> p_admin p" using assms(3) by (simp add: principal_ok_def)
  have g: "decide sha now rs r = Granted p"
    using decide_with_key(1)[of rs r sha now p] assms(2) by (auto simp: key_grants_def Let_def)
  have "q = p" if "key_grants sha now rs r q" for q
    using assms(2) that by (simp add: key_grants_def Let_def)
  then show "fst (admin_denial sha now today rs r) \<noteq> None" unfolding admin_exactly using na by blast
  obtain rs' r' where n: "note_placeholder today rs r = (rs', r')" by force
  show "fst (calls_push_denial sha now today rs r) = None \<longleftrightarrow>
       admin_reach_denial rs r = None \<and> request_method r = ''POST'' \<and> csrf_denial r = None"
    using na assms(3) note_facts[OF n] by (auto simp: calls_push_denial_def id_resolve_def n g split: option.splits)
qed

text \<open>A small deployment for the witnesses: an ingest key and an admin key, a request with JSON
  content from the local machine.\<close>

definition demo_keys :: key_registry where
  "demo_keys = foldl (key_step id) empty_registry
     [KRegister ((demo_key ''push'' ''logger'')\<lparr>ke_calls_push := True\<rparr>) 0,
      KRegister ((demo_key ''root'' ''ops'')\<lparr>ke_admin := True\<rparr>) 0]"

definition demo_resolver :: "ip_net list \<Rightarrow> resolver" where
  "demo_resolver nets = \<lparr>rs_acl = empty_acl, rs_keys = demo_keys, rs_proxies = nets,
     rs_placeholders = new_placeholders [''not-needed''], rs_require_key = False\<rparr>"

definition demo_call :: "(string \<times> string) list \<Rightarrow> string \<Rightarrow> request" where
  "demo_call hs host = \<lparr>rq_get = map_of ((''Content-Type'', ''application/json'') # hs), rq_host = Some host,
     rq_method = Some ''POST'', rq_noted = False\<rparr>"

lemma wrong_key_never_falls_back_witness:
  "case fst (id_resolve id 1 ''d'' (demo_resolver []) (demo_call [(''Authorization'', ''Bearer wrong'')] ''127.0.0.1'')) of
     Granted p \<Rightarrow> key_grants id 1 (demo_resolver []) (demo_call [(''Authorization'', ''Bearer wrong'')] ''127.0.0.1'') p
   | Denied d \<Rightarrow> dn_status d = 401 \<and> dn_code d = ''invalid_api_key''"
  by (rule wrong_key_never_falls_back) code_simp+

lemma ingest_scope_contained_witness:
  "fst (admin_denial id 1 ''d'' (demo_resolver []) (demo_call [(''Authorization'', ''Bearer push'')] ''127.0.0.1'')) \<noteq> None \<and>
   fst (calls_push_denial id 1 ''d'' (demo_resolver []) (demo_call [(''Authorization'', ''Bearer push'')] ''127.0.0.1'')) = None"
proof -
  let ?r = "demo_call [(''Authorization'', ''Bearer push'')] ''127.0.0.1''"
  let ?p = "entry_principal ((demo_key ''push'' ''logger'')\<lparr>ke_calls_push := True\<rparr>) ''push''"
  have ok: "registry_ok (rs_keys (demo_resolver []))"
    unfolding demo_resolver_def demo_keys_def resolver.select_convs by (rule registry_reachable_ok)
  have k: "effective_key (demo_resolver []) ?r = ''push''" "configured demo_keys" "\<not> kr_is_expired demo_keys ''push'' 1"
    "cr_bind (cred_of demo_keys ''push'') = []" by code_simp+
  have d: "od_get (by_digest demo_keys) ''push'' = Some ?p"
    by (simp add: demo_keys_def kr_register_def entry_digest_def given_def demo_key_def empty_registry_def)
  have g: "key_grants id 1 (demo_resolver []) ?r ?p"
    using k d by (simp add: key_grants_def Let_def demo_resolver_def)
  have "admin_reach_denial (demo_resolver []) ?r = None" "request_method ?r = ''POST''" "csrf_denial ?r = None" by code_simp+
  then show ?thesis
    using ingest_scope_contained[OF ok g, of "''d''"] by (simp add: entry_principal_def)
qed

subsection \<open>Lemmas: forwarded addresses\<close>

text \<open>A hop at which the walk from the right stops: not a trusted proxy, or not an address.\<close>

definition stops :: "ip_net list \<Rightarrow> string \<Rightarrow> bool" where
  "stops nets raw = (case forwarded_hop raw of None \<Rightarrow> True | Some hop \<Rightarrow> \<not> trusts nets hop)"

lemma walk_stops: "\<exists>h \<in> set xs. stops nets h \<Longrightarrow> walk_hops nets a (xs @ ys) = walk_hops nets b xs"
proof (induction xs arbitrary: a b)
  case (Cons x xs)
  then show ?case by (cases "stops nets x") (auto simp: stops_def split: option.split)
qed simp

lemma walk_result:
  "\<exists>h \<in> set xs. stops nets h \<Longrightarrow> walk_hops nets a xs = unknown_address \<or>
     (\<exists>h \<in> set xs. forwarded_hop h = Some (walk_hops nets a xs) \<and> \<not> trusts nets (walk_hops nets a xs))"
  by (induction xs arbitrary: a) (auto simp: stops_def split: option.split)

text \<open>C37: a forwarded address cannot be claimed by the caller. When the peer is not a trusted proxy,
  the address of a request is the peer, whatever its headers say. When it is, and the part of the
  chain that the proxies appended holds an untrusted hop, then whatever the caller wrote in front
  of it either changes nothing or makes the caller unknown.\<close>

lemma forwarding_cannot_be_spoofed:
  assumes "peer_ip forged = peer_ip r" "hop_chain forged = fake @ hop_chain r"
    and "trusts nets (peer_ip r) \<longrightarrow> (\<exists>h \<in> set (hop_chain r). stops nets h)"
  shows "(\<not> trusts nets (peer_ip r) \<longrightarrow> client_address nets forged = \<lparr>ca_ip = peer_ip r, ca_forwarded = False\<rparr>) \<and>
    (client_address nets forged = client_address nets r \<or> client_address nets forged = \<lparr>ca_ip = unknown_address, ca_forwarded = True\<rparr>)"
proof (cases "trusts nets (peer_ip r)")
  case False
  then show ?thesis using assms(1) by (simp add: client_address_def)
next
  case True
  with assms(3) have ex: "\<exists>h \<in> set (rev (hop_chain r)). stops nets h" by simp
  then have "walk_hops nets [] (rev (hop_chain forged)) = walk_hops nets [] (rev (hop_chain r))"
    using walk_stops[of "rev (hop_chain r)" nets "[]" "rev fake" "[]"] assms(2) by simp
  then show ?thesis
    using True assms(1,2) ex by (auto simp: client_address_def Let_def)
qed

lemma forwarding_cannot_be_spoofed_witness:
  "client_address (parse_trusted ''10.0.0.0/8'') (demo_call [(''X-Forwarded-For'', ''127.0.0.1, 192.0.2.7, 10.0.0.2'')] ''10.0.0.1'')
     = \<lparr>ca_ip = ''192.0.2.7'', ca_forwarded = True\<rparr>"
proof -
  let ?nets = "parse_trusted ''10.0.0.0/8''"
  let ?forged = "demo_call [(''X-Forwarded-For'', ''127.0.0.1, 192.0.2.7, 10.0.0.2'')] ''10.0.0.1''"
  let ?r = "demo_call [(''X-Forwarded-For'', '' 192.0.2.7, 10.0.0.2'')] ''10.0.0.1''"
  have c: "hop_chain ?forged = [''127.0.0.1'', '' 192.0.2.7'', '' 10.0.0.2'']" "hop_chain ?r = ['' 192.0.2.7'', '' 10.0.0.2'']"
    "stops ?nets '' 192.0.2.7''" "peer_ip ?forged = peer_ip ?r"
    "client_address ?nets ?r = \<lparr>ca_ip = ''192.0.2.7'', ca_forwarded = True\<rparr>"
    "client_address ?nets ?forged \<noteq> \<lparr>ca_ip = unknown_address, ca_forwarded = True\<rparr>" by code_simp+
  show ?thesis using forwarding_cannot_be_spoofed[of ?forged ?r "[''127.0.0.1'']" ?nets] c by simp
qed

text \<open>An unknown caller is refused: no registration answers for it and it reaches no admin plane.\<close>

lemma unknown_not_address: "ip_address unknown_address = None"
  by code_simp

lemma unknown_reaches_nothing:
  "\<not> may_reach_admin m unknown_address t" "\<not> trusts nets unknown_address" "\<not> is_internal unknown_address"
  by (simp_all add: may_reach_admin_def trusts_def is_internal_def unknown_not_address)

subsection \<open>Lemmas: delegation and placeholders\<close>

text \<open>Delegation moves the name and nothing else. Whatever a request declares, the answer is the
  caller itself, the caller under a name its operator listed, or a refusal, which only a credential
  with a list can meet; a caller without a list is never refused and never renamed.\<close>

lemma delegate_only_renames:
  "case delegate p declared of
     Granted q \<Rightarrow> q = p \<or> (\<exists>name \<in> p_may_assert p. q = p\<lparr>p_agent_id := name\<rparr>)
   | Denied d \<Rightarrow> p_may_assert p \<noteq> {} \<and> dn_status d = 403"
  by (auto simp: delegate_def Let_def deny_def)

lemma note_once:
  assumes "rq_noted r" shows "note_placeholder today rs r = (rs, r)"
  using assms by (simp add: note_placeholder_def ph_note_def)

lemma note_counts:
  assumes "is_placeholder rs r" "\<not> rq_noted r" "note_placeholder today rs r = (rs', r')"
  shows "rq_noted r' \<and> ph_count (rs_placeholders rs') = ph_count (rs_placeholders rs) + 1"
  using assms by (auto simp: note_placeholder_def ph_note_def Let_def)

definition resolve_again :: "(string \<Rightarrow> string) \<Rightarrow> resolver \<times> request \<Rightarrow> real \<times> string \<Rightarrow> resolver \<times> request" where
  "resolve_again sha st t = snd (id_resolve sha (fst t) (snd t) (fst st) (snd st))"

lemma resolve_again_noted: "rq_noted (snd st) \<Longrightarrow> foldl (resolve_again sha) st ts = st"
  by (induction ts) (simp_all add: resolve_again_def id_resolve_def note_once)

text \<open>A placeholder is counted once per request. However often a request is resolved, the tally
  of placeholder bearers grows by one at most, and by exactly one when it carries a placeholder
  that was not counted before and is resolved at all.\<close>

lemma placeholder_counted_once:
  "ph_count (rs_placeholders (fst (foldl (resolve_again sha) (rs, r) ts))) =
     ph_count (rs_placeholders rs) + (if is_placeholder rs r \<and> \<not> rq_noted r \<and> ts \<noteq> [] then 1 else 0)"
proof (cases ts)
  case (Cons t ts')
  obtain rs' r' where n: "note_placeholder (snd t) rs r = (rs', r')" by force
  have step: "resolve_again sha (rs, r) t = (rs', r')" by (simp add: resolve_again_def id_resolve_def n)
  show ?thesis
  proof (cases "is_placeholder rs r \<and> \<not> rq_noted r")
    case True
    with note_counts[OF _ _ n] have "rq_noted r'" "ph_count (rs_placeholders rs') = ph_count (rs_placeholders rs) + 1" by auto
    then show ?thesis using True resolve_again_noted[of "(rs', r')"] by (simp add: Cons step)
  next
    case False
    then have id: "note_placeholder today rs r = (rs, r)" for today
      by (auto simp: note_placeholder_def ph_note_def)
    have "foldl (resolve_again sha) (rs, r) us = (rs, r)" for us
      by (induction us) (simp_all add: resolve_again_def id_resolve_def id)
    then show ?thesis using False by auto
  qed
qed simp

text \<open>The tally never tracks more addresses than its bound, and a placeholder is never a key: a
  resolver that starts has no placeholder that is the secret of a registered key.\<close>

lemma tally_bounded:
  "length (ph_by_address ph) \<le> max_tracked \<Longrightarrow> length (ph_by_address (fst (ph_note today v a (ph, r)))) \<le> max_tracked"
  by (auto simp: ph_note_def Let_def length_od_put)

lemma placeholder_never_demotes:
  assumes "make_resolver sha now acl keys proxies ph req = Inr rs" "kl_key_id (kr_lookup sha now keys (presented_bearer r)) \<noteq> None"
  shows "effective_key rs r = presented_key r"
  using assms by (auto simp: make_resolver_def placeholder_is_key_def effective_key_def is_placeholder_def ph_declares_def list_ex_iff split: if_splits)

end
