(* ===== verification/Response_Cache.thy ===== *)
theory Response_Cache
  imports Json "HOL-Library.List_Lexorder" "HOL-Library.Char_ord"
begin

section \<open>The deterministic response cache (coalesce.py)\<close>

text \<open>
  The least-recently-used cache of responses to deterministic requests and the key it files them
  under: the SHA-256 of the canonical JSON text of the whole payload. The hash is the argument
  \<open>sha\<close>; the canonical text (sorted keys, compact separators, ASCII escapes) is modelled in full.
\<close>

subsection \<open>The cache\<close>

record det_cache =
  dc_cache :: "(string, real \<times> json) odict"
  dc_max_size :: int
  dc_ttl_s :: real
  dc_hits :: int
  dc_misses :: int

definition new_cache :: "int \<Rightarrow> real \<Rightarrow> det_cache" where
  "new_cache size_max ttl = \<lparr>dc_cache = [], dc_max_size = size_max, dc_ttl_s = ttl, dc_hits = 0, dc_misses = 0\<rparr>"

text \<open>\<^verbatim>\<open>move_to_end\<close>.\<close>

definition move_to_end :: "string \<Rightarrow> (string, 'v) odict \<Rightarrow> (string, 'v) odict" where
  "move_to_end k d = (case od_get d k of None \<Rightarrow> d | Some v \<Rightarrow> od_del k d @ [(k, v)])"

definition cache_get :: "string \<Rightarrow> real \<Rightarrow> det_cache \<Rightarrow> det_cache \<times> json option" where
  "cache_get k now c =
     (case od_get (dc_cache c) k of
        None \<Rightarrow> (c\<lparr>dc_misses := dc_misses c + 1\<rparr>, None)
      | Some (expires_at, response) \<Rightarrow>
          if now > expires_at then (c\<lparr>dc_cache := od_del k (dc_cache c), dc_misses := dc_misses c + 1\<rparr>, None)
          else (c\<lparr>dc_cache := move_to_end k (dc_cache c), dc_hits := dc_hits c + 1\<rparr>, Some response))"

text \<open>\<^verbatim>\<open>while len(self._cache) > self._max_size: popitem(last=False)\<close>. A negative bound would pop from
  the empty cache and raise; the shipped bound is 256.\<close>

definition evict :: "int \<Rightarrow> (string, 'v) odict \<Rightarrow> (string, 'v) odict" where
  "evict size_max d = drop (length d - nat size_max) d"

definition cache_put :: "string \<Rightarrow> json \<Rightarrow> real \<Rightarrow> det_cache \<Rightarrow> det_cache" where
  "cache_put k response now c =
     (let d1 = (if k \<in> fst ` set (dc_cache c) then move_to_end k (dc_cache c) else dc_cache c);
          d2 = od_put k (now + dc_ttl_s c, response) d1
      in c\<lparr>dc_cache := evict (dc_max_size c) d2\<rparr>)"

definition hit_rate_pct :: "det_cache \<Rightarrow> real" where
  "hit_rate_pct c =
     (let total = dc_hits c + dc_misses c in
      if total = 0 then 0 else of_int (dc_hits c) / of_int total * 100)"

subsection \<open>The key\<close>

lemma size_kv_less: "kv \<in> set kvs \<Longrightarrow> size (snd kv) < Suc (size_list (size_prod (\<lambda>_. 0) size) kvs)"
  by (induction kvs) auto

text \<open>\<^verbatim>\<open>sort_keys=True\<close>: every object in key order.\<close>

function canonical :: "json \<Rightarrow> json" where
  "canonical JNull = JNull"
| "canonical (JBool b) = JBool b"
| "canonical (JInt i) = JInt i"
| "canonical (JFloat r t) = JFloat r t"
| "canonical (JStr s) = JStr s"
| "canonical (JList xs) = JList (map canonical xs)"
| "canonical (JObj kvs) = JObj (sort_key fst (map (\<lambda>kv. (fst kv, canonical (snd kv))) kvs))"
  by pat_completeness auto

termination
  by (relation "measure size") (auto simp: size_kv_less size_list_estimation' less_Suc_eq_le dest: size_kv_less)

fun compact_text :: "json \<Rightarrow> string"
  and compact_items :: "json list \<Rightarrow> string list"
  and compact_pairs :: "(string \<times> json) list \<Rightarrow> string list" where
  "compact_text JNull = ''null''"
| "compact_text (JBool b) = (if b then ''true'' else ''false'')"
| "compact_text (JInt i) = show_int i"
| "compact_text (JFloat r t) = t"
| "compact_text (JStr s) = dumps_str s"
| "compact_text (JList xs) = ''['' @ join '','' (compact_items xs) @ '']''"
| "compact_text (JObj kvs) = ''{'' @ join '','' (compact_pairs kvs) @ ''}''"
| "compact_items [] = []"
| "compact_items (x # xs) = compact_text x # compact_items xs"
| "compact_pairs [] = []"
| "compact_pairs ((k, v) # kvs) = (dumps_str k @ '':'' @ compact_text v) # compact_pairs kvs"

definition canonical_text :: "string \<Rightarrow> payload \<Rightarrow> string" where
  "canonical_text ep p = compact_text (canonical (JObj [(''endpoint'', JStr ep), (''payload'', JObj p)]))"

definition cache_key :: "(string \<Rightarrow> string) \<Rightarrow> string \<Rightarrow> payload \<Rightarrow> string option" where
  "cache_key sha ep p =
     (if as_number (jget p ''temperature'') \<noteq> Some 0 then None
      else if truthy (jget p ''stream'') then None
      else Some (sha (canonical_text ep p)))"

subsection \<open>Lemmas: the cache\<close>

lemma od_del_all_other: "set (od_del k d) = {p \<in> set d. fst p \<noteq> k}"
  by (induction d) auto

lemma move_to_end_get: "od_get (move_to_end k d) k' = od_get d k'"
  by (auto simp: move_to_end_def map_add_def split: option.split)

lemma move_to_end_ok: "od_ok d \<Longrightarrow> od_ok (move_to_end k d)"
  by (auto simp: move_to_end_def od_del_all_other split: option.split)

lemma evict_ok: "od_ok d \<Longrightarrow> od_ok (evict n d)"
  by (simp add: evict_def drop_map[symmetric] distinct_drop)

lemma evict_get:
  assumes "od_ok d" "od_get (evict n d) k = Some v" shows "od_get d k = Some v"
proof -
  have "(k, v) \<in> set d" using od_get_Some_in[OF assms(2)] set_drop_subset[of "length d - nat n" d] by (auto simp: evict_def)
  then show ?thesis using assms(1) by (rule od_get_in[rotated])
qed

text \<open>What a history of operations last stored under a key, and when.\<close>

datatype cache_op = Get string real | Put string json real

fun cache_step :: "det_cache \<Rightarrow> cache_op \<Rightarrow> det_cache" where
  "cache_step c (Get k now) = fst (cache_get k now c)"
| "cache_step c (Put k r now) = cache_put k r now c"

fun last_put :: "string \<Rightarrow> cache_op list \<Rightarrow> (json \<times> real) option" where
  "last_put k [] = None"
| "last_put k (op # ops) =
     (case last_put k ops of
        Some x \<Rightarrow> Some x
      | None \<Rightarrow> (case op of Put k' r t \<Rightarrow> if k' = k then Some (r, t) else None | Get _ _ \<Rightarrow> None))"

lemma last_put_snoc:
  "last_put k (ops @ [op]) = (case op of Put k' r t \<Rightarrow> if k' = k then Some (r, t) else last_put k ops | Get _ _ \<Rightarrow> last_put k ops)"
  by (induction ops) (auto split: option.splits cache_op.splits)

definition cache_ok :: "det_cache \<Rightarrow> bool" where
  "cache_ok c \<longleftrightarrow> od_ok (dc_cache c) \<and> int (length (dc_cache c)) \<le> max 0 (dc_max_size c)"

lemma length_move_to_end: "od_ok d \<Longrightarrow> length (move_to_end k d) = length d"
proof (cases "od_get d k")
  case (Some v)
  assume ok: "od_ok d"
  have "(k, v) \<in> set d" using Some by (rule od_get_Some_in)
  then obtain as bs where d: "d = as @ (k, v) # bs" by (meson split_list)
  with ok have "k \<notin> fst ` set as" "k \<notin> fst ` set bs" by auto
  then have "od_del k d = as @ bs" unfolding d by (simp add: od_del_app)
  with Some d show ?thesis by (simp add: move_to_end_def)
qed (simp add: move_to_end_def)

lemma length_od_del_le: "length (od_del k d) \<le> length d"
  by (simp add: length_delete_le)

lemma cache_step_ok: "cache_ok c \<Longrightarrow> cache_ok (cache_step c op)"
proof (cases op)
  case (Get k now)
  assume "cache_ok c"
  then show ?thesis
    using length_od_del_le[of k "dc_cache c"]
    by (auto simp: Get cache_ok_def cache_get_def length_move_to_end move_to_end_ok split: option.split)
next
  case (Put k r now)
  assume "cache_ok c"
  then show ?thesis
    by (auto simp: Put cache_ok_def cache_put_def Let_def evict_ok move_to_end_ok) (auto simp: evict_def)
qed

interpretation cache: event_system cache_step cache_ok "\<lambda>_. True"
  by unfold_locales (rule cache_step_ok)

lemma cache_step_frame: "dc_ttl_s (cache_step c op) = dc_ttl_s c \<and> dc_max_size (cache_step c op) = dc_max_size c"
  by (cases op) (auto simp: cache_get_def cache_put_def Let_def split: option.split)

lemma cache_run_frame:
  "dc_ttl_s (foldl cache_step c ops) = dc_ttl_s c \<and> dc_max_size (foldl cache_step c ops) = dc_max_size c"
  by (induction ops arbitrary: c) (simp_all add: cache_step_frame)

text \<open>An entry is the last response stored under its key, with the expiry it was given then.\<close>

definition cache_inv :: "cache_op list \<Rightarrow> det_cache \<Rightarrow> bool" where
  "cache_inv ops c \<longleftrightarrow> cache_ok c \<and>
     (\<forall>k x r. od_get (dc_cache c) k = Some (x, r) \<longrightarrow> (\<exists>t. last_put k ops = Some (r, t) \<and> x = t + dc_ttl_s c))"

lemma cache_inv_step: "cache_inv ops c \<Longrightarrow> cache_inv (ops @ [op]) (cache_step c op)"
proof (cases op)
  case (Get k now)
  assume "cache_inv ops c"
  then show ?thesis
    using cache_step_ok[of c op]
    by (auto simp: cache_inv_def Get cache_get_def last_put_snoc move_to_end_get split: option.splits if_splits)
next
  case (Put k r now)
  assume inv: "cache_inv ops c"
  let ?d1 = "if k \<in> fst ` set (dc_cache c) then move_to_end k (dc_cache c) else dc_cache c"
  let ?d2 = "od_put k (now + dc_ttl_s c, r) ?d1"
  have ok: "od_ok ?d2" using inv by (simp add: cache_inv_def cache_ok_def move_to_end_ok)
  have "od_get ?d2 k' = Some (x, r') \<Longrightarrow> \<exists>t. last_put k' (ops @ [op]) = Some (r', t) \<and> x = t + dc_ttl_s c" for k' x r'
    using inv by (auto simp: Put cache_inv_def last_put_snoc move_to_end_get split: if_splits)
  then show ?thesis
    using inv cache_step_ok[of c op] evict_get[OF ok]
    by (fastforce simp: cache_inv_def Put cache_put_def Let_def)
qed

lemma cache_run_inv: "cache_inv ops (foldl cache_step (new_cache n ttl) ops)"
proof (induction ops rule: rev_induct)
  case Nil
  show ?case by (simp add: cache_inv_def cache_ok_def new_cache_def)
qed (simp add: cache_inv_step)

subsection \<open>Lemmas: the canonical text is unambiguous\<close>

text \<open>Reading one escaped character back.\<close>

definition unhex :: "char \<Rightarrow> nat" where
  "unhex c = (let n = of_char c in if n < 58 then n - 48 else n - 87)"

definition read_char :: "string \<Rightarrow> (char \<times> string) option" where
  "read_char s =
     (case s of
        [] \<Rightarrow> None
      | c # cs \<Rightarrow>
          if of_char c \<noteq> (92 :: nat) then Some (c, cs)
          else (case cs of
                  [] \<Rightarrow> None
                | e # es \<Rightarrow>
                    if e = CHR ''n'' then Some (char_of (10 :: nat), es)
                    else if e = CHR ''r'' then Some (char_of (13 :: nat), es)
                    else if e = CHR ''t'' then Some (char_of (9 :: nat), es)
                    else if e = CHR ''f'' then Some (char_of (12 :: nat), es)
                    else if e = CHR ''b'' then Some (char_of (8 :: nat), es)
                    else if e = CHR ''u'' then Some (char_of (unhex (es ! 2) * 16 + unhex (es ! 3)), drop 4 es)
                    else Some (e, es)))"

lemma char_of_iff: "n < 256 \<Longrightarrow> c = char_of n \<longleftrightarrow> of_char c = (n :: nat)"
  by (metis char_of_char mod_less of_char_of)

lemma char_lits:
  "char_of (34 :: nat) = CHR 0x22" "char_of (92 :: nat) = CHR 0x5C" "char_of (10 :: nat) = CHR 0x0A"
  "char_of (13 :: nat) = CHR 0x0D" "char_of (9 :: nat) = CHR 0x09" "char_of (12 :: nat) = CHR 0x0C"
  "char_of (8 :: nat) = CHR 0x08"
  by code_simp+

lemma unhex_digit: "d < 16 \<Longrightarrow> unhex (digit_char d) = d"
  by (simp add: unhex_def Let_def digit_char_code)

lemma read_esc: "read_char (esc_json c @ X) = Some (c, X)"
proof -
  have n: "of_char c < (256 :: nat)" by (rule nat_of_char_less_256)
  have h: "unhex (digit_char (of_char c div 16)) * 16 + unhex (digit_char (of_char c mod 16)) = of_char c"
    using n unhex_digit[of "of_char c div 16"] unhex_digit[of "of_char c mod 16"] by (simp add: less_mult_imp_div_less)
  show ?thesis
  proof (cases "of_char c \<in> {34 :: nat, 92, 10, 13, 9, 12, 8}")
    case True
    then have "c \<in> {char_of (34 :: nat), char_of (92 :: nat), char_of (10 :: nat), char_of (13 :: nat),
        char_of (9 :: nat), char_of (12 :: nat), char_of (8 :: nat)}"
      by (simp add: char_of_iff)
    then show ?thesis
      unfolding char_lits by (elim insertE emptyE; hypsubst; simp add: esc_json_def read_char_def Let_def char_lits)
  next
    case False
    then show ?thesis
    proof (cases "32 \<le> (of_char c :: nat) \<and> (of_char c :: nat) \<le> 126")
      case True
      then show ?thesis using False by (simp add: esc_json_def read_char_def Let_def)
    next
      case out: False
      then have "esc_json c = [char_of (92 :: nat), CHR ''u'', CHR ''0'', CHR ''0''] @ hex2 (of_char c)"
        using False by (auto simp: esc_json_def Let_def)
      then show ?thesis using h by (simp add: read_char_def hex2_def numeral_3_eq_3)
    qed
  qed
qed

lemma esc_not_quote: "esc_json c @ X \<noteq> char_of (34 :: nat) # Y"
  by (auto simp: esc_json_def Let_def char_of_eq_iff split: if_splits)

lemma dumps_str_inj:
  "dumps_str s @ X = dumps_str s' @ Y \<Longrightarrow> s = s' \<and> X = Y"
proof -
  have "concat (map esc_json s) @ char_of (34 :: nat) # X = concat (map esc_json s') @ char_of (34 :: nat) # Y \<Longrightarrow> s = s' \<and> X = Y"
  proof (induction s arbitrary: s')
    case Nil
    then show ?case using esc_not_quote by (cases s') (auto, metis)
  next
    case (Cons c cs)
    then obtain c' cs' where s': "s' = c' # cs'"
      using esc_not_quote by (cases s') auto
    have "read_char (esc_json c @ concat (map esc_json cs) @ char_of (34 :: nat) # X)
        = read_char (esc_json c' @ concat (map esc_json cs') @ char_of (34 :: nat) # Y)"
      using Cons.prems by (simp add: s')
    then have "c = c'" "concat (map esc_json cs) @ char_of (34 :: nat) # X = concat (map esc_json cs') @ char_of (34 :: nat) # Y"
      by (simp_all only: read_esc option.inject prod.inject)
    with Cons.IH show ?case by (simp add: s')
  qed
  then show "dumps_str s @ X = dumps_str s' @ Y \<Longrightarrow> s = s' \<and> X = Y" by (simp add: dumps_str_def)
qed

text \<open>Where a value ends: at a separator, a closing bracket, or the end.\<close>

definition closes :: "char \<Rightarrow> bool" where
  "closes c \<longleftrightarrow> c = CHR '','' \<or> c = CHR '']'' \<or> c = CHR ''}''"

definition ended :: "string \<Rightarrow> bool" where
  "ended X \<longleftrightarrow> X = [] \<or> closes (hd X)"

text \<open>A number prints without closing characters and starts with none of the characters the other
  values start with. Floats carry their text; \<open>fl\<close> is the value a text denotes, and Python's float
  texts are never those of an integer.\<close>

definition number_text :: "string \<Rightarrow> bool" where
  "number_text t \<longleftrightarrow> t \<noteq> [] \<and> list_all (\<lambda>c. \<not> closes c) t \<and> hd t \<notin> set ''ntf[{'' \<and> hd t \<noteq> char_of (34 :: nat)"

fun json_ok :: "(string \<Rightarrow> real) \<Rightarrow> json \<Rightarrow> bool" where
  "json_ok fl (JFloat r t) \<longleftrightarrow> r = fl t \<and> number_text t \<and> (\<forall>i. t \<noteq> show_int i)"
| "json_ok fl (JList xs) \<longleftrightarrow> (\<forall>x \<in> set xs. json_ok fl x)"
| "json_ok fl (JObj kvs) \<longleftrightarrow> (\<forall>kv \<in> set kvs. json_ok fl (snd kv))"
| "json_ok fl _ \<longleftrightarrow> True"

lemma number_split:
  assumes "t @ X = t' @ Y" "number_text t" "number_text t'" "ended X" "ended Y"
  shows "t = t' \<and> X = Y"
proof -
  have "takeWhile (\<lambda>c. \<not> closes c) (t @ X) = t" if "number_text t" "ended X" for t X
    using that by (cases X) (auto simp: number_text_def ended_def list_all_iff takeWhile_append2)
  with assms show ?thesis by (metis append_same_eq same_append_eq)
qed

lemma digit_char_inj: "d < 10 \<Longrightarrow> e < 10 \<Longrightarrow> digit_char d = digit_char e \<longleftrightarrow> d = e"
proof -
  assume "d < 10" "e < 10"
  then have "of_char (digit_char d) = 48 + d" "of_char (digit_char e) = 48 + e" by (simp_all add: digit_char_code)
  then show ?thesis by (metis add_left_cancel)
qed

lemma digit_char_plain: "d < 10 \<Longrightarrow> \<not> closes (digit_char d) \<and> digit_char d \<notin> set ''ntf[{-'' \<and> digit_char d \<noteq> char_of (34 :: nat)"
proof -
  assume "d < 10"
  then have "of_char (digit_char d) = 48 + d" by (simp add: digit_char_code)
  then have "digit_char d \<noteq> c" if "of_char c < (48 :: nat) \<or> (57 :: nat) < of_char c" for c
    using that \<open>d < 10\<close> by auto
  then show ?thesis by (simp add: closes_def)
qed

lemma show_nat_digits: "\<exists>ds. show_nat n = map digit_char ds \<and> ds \<noteq> [] \<and> (\<forall>d \<in> set ds. d < 10)"
proof (induction n rule: show_nat.induct)
  case (1 n)
  show ?case
  proof (cases "n < 10")
    case True
    then show ?thesis by (intro exI[of _ "[n]"]) (simp add: show_nat.simps)
  next
    case False
    with 1 obtain ds where "show_nat (n div 10) = map digit_char ds" "ds \<noteq> []" "\<forall>d \<in> set ds. d < 10" by blast
    then show ?thesis using False by (intro exI[of _ "ds @ [n mod 10]"]) (auto simp: show_nat.simps[of n])
  qed
qed

lemma show_nat_inj: "show_nat m = show_nat n \<Longrightarrow> m = n"
proof (induction m arbitrary: n rule: show_nat.induct)
  case (1 m)
  have len: "show_nat k \<noteq> []" for k using show_nat_digits[of k] by auto
  show ?case
  proof (cases "m < 10")
    case True
    then show ?thesis
      using 1(2) len[of "n div 10"] digit_char_inj[of m n] by (auto simp: show_nat.simps[of m] show_nat.simps[of n] split: if_splits)
  next
    case False
    then have n: "\<not> n < 10" using 1(2) len[of "m div 10"] by (auto simp: show_nat.simps[of m] show_nat.simps[of n] split: if_splits)
    have "show_nat (m div 10) = show_nat (n div 10)" "digit_char (m mod 10) = digit_char (n mod 10)"
      using 1(2) False n by (auto simp: show_nat.simps[of m] show_nat.simps[of n])
    with 1(1)[OF False] digit_char_inj[of "m mod 10" "n mod 10"] show ?thesis
      by (metis div_mult_mod_eq mod_less_divisor zero_less_numeral)
  qed
qed

lemma show_int_number: "number_text (show_int i)"
proof -
  have "number_text (show_nat k)" for k
  proof -
    obtain d ds where "show_nat k = map digit_char (d # ds)" "\<forall>d \<in> set (d # ds). d < 10"
      using show_nat_digits[of k] by (metis list.exhaust)
    with digit_char_plain show ?thesis by (auto simp: number_text_def list_all_iff)
  qed
  then have "number_text (show_nat k)" "list_all (\<lambda>c. \<not> closes c) (show_nat k)" for k by (auto simp: number_text_def)
  then show ?thesis by (auto simp: show_int_def number_text_def closes_def char_of_iff)
qed

lemma show_int_inj: "show_int i = show_int j \<Longrightarrow> i = j"
proof -
  have neg: "show_nat k \<noteq> CHR ''-'' # s" for k s
  proof
    assume "show_nat k = CHR ''-'' # s"
    moreover obtain d ds where "show_nat k = map digit_char (d # ds)" "d < 10"
      using show_nat_digits[of k] by (metis list.exhaust list.set_intros(1))
    ultimately show False using digit_char_plain[of d] by simp
  qed
  assume "show_int i = show_int j"
  then show ?thesis
    using neg show_nat_inj[of "nat i" "nat j"] show_nat_inj[of "nat (- i)" "nat (- j)"]
    by (auto simp: show_int_def split: if_splits) (metis neg)
qed

lemma join_Cons: "join sep (x # xs) = x @ concat (map (\<lambda>s. sep @ s) xs)"
  by (induction xs arbitrary: x) auto

lemma compact_items_map: "compact_items xs = map compact_text xs"
  by (induction xs) auto

abbreviation pair_text :: "string \<times> json \<Rightarrow> string" where
  "pair_text kv \<equiv> dumps_str (fst kv) @ '':'' @ compact_text (snd kv)"

lemma compact_pairs_map: "compact_pairs kvs = map pair_text kvs"
  by (induction kvs) auto

text \<open>A bracketed sequence of values can be read back when each value can.\<close>

lemma tail_inj:
  assumes "\<And>x y X Y. x \<in> set xs \<Longrightarrow> y \<in> set ys \<Longrightarrow> ended X \<Longrightarrow> ended Y \<Longrightarrow> pr x @ X = pr y @ Y \<Longrightarrow> x = y \<and> X = Y"
    and "e \<noteq> CHR '',''" "closes e"
    and "concat (map (\<lambda>x. CHR '','' # pr x) xs) @ e # X = concat (map (\<lambda>x. CHR '','' # pr x) ys) @ e # Y"
  shows "xs = ys \<and> X = Y"
  using assms(1,4)
proof (induction xs arbitrary: ys)
  case Nil
  then show ?case using assms(2) by (cases ys) auto
next
  case (Cons x xs)
  then obtain y ys' where ys: "ys = y # ys'" using assms(2) by (cases ys) auto
  let ?T = "\<lambda>zs Z. concat (map (\<lambda>x. CHR '','' # pr x) zs) @ e # Z"
  have ends: "ended (?T zs Z)" for zs Z using assms(3) by (cases zs) (auto simp: ended_def closes_def)
  have "pr x @ ?T xs X = pr y @ ?T ys' Y" using Cons.prems(2) ys by simp
  from Cons.prems(1)[OF _ _ ends ends this] have "x = y" "?T xs X = ?T ys' Y" by (simp_all add: ys)
  moreover have "xs = ys' \<and> X = Y"
    by (rule Cons.IH[OF Cons.prems(1) calculation(2)]) (simp_all add: ys)
  ultimately show ?case by (simp add: ys)
qed

lemma seq_inj:
  assumes "\<And>x y X Y. x \<in> set xs \<Longrightarrow> y \<in> set ys \<Longrightarrow> ended X \<Longrightarrow> ended Y \<Longrightarrow> pr x @ X = pr y @ Y \<Longrightarrow> x = y \<and> X = Y"
    and "\<And>x. x \<in> set xs \<union> set ys \<Longrightarrow> pr x \<noteq> [] \<and> \<not> closes (hd (pr x))"
    and "e \<noteq> CHR '',''" "closes e"
    and "join '','' (map pr xs) @ e # X = join '','' (map pr ys) @ e # Y"
  shows "xs = ys \<and> X = Y"
proof (cases "xs = [] \<or> ys = []")
  case True
  have "pr z @ Z \<noteq> e # W" if "z \<in> set xs \<union> set ys" for z Z W
    using assms(2)[OF that] assms(4) by (cases "pr z") auto
  moreover have "e # W \<noteq> pr z @ Z" if "z \<in> set xs \<union> set ys" for z Z W
    using calculation[OF that] by metis
  ultimately show ?thesis using True assms(5) by (cases xs; cases ys) (simp_all add: join_Cons)
next
  case False
  then obtain x xs' y ys' where xy: "xs = x # xs'" "ys = y # ys'" by (cases xs; cases ys) auto
  let ?T = "\<lambda>zs Z. concat (map (\<lambda>x. CHR '','' # pr x) zs) @ e # Z"
  have ends: "ended (?T zs Z)" for zs Z using assms(4) by (cases zs) (auto simp: ended_def closes_def)
  have "pr x @ ?T xs' X = pr y @ ?T ys' Y" using assms(5) by (simp add: xy join_Cons comp_def)
  from assms(1)[OF _ _ ends ends this] have "x = y" and t: "?T xs' X = ?T ys' Y" by (simp_all add: xy)
  moreover have "xs' = ys' \<and> X = Y"
    by (rule tail_inj[OF _ assms(3,4) t]) (use assms(1) xy in auto)
  ultimately show ?thesis by (simp add: xy)
qed

lemma dumps_str_hd: "dumps_str s \<noteq> [] \<and> hd (dumps_str s @ Z) = CHR 0x22"
  by (simp add: dumps_str_def char_lits)

lemma number_text_hd: "number_text t \<Longrightarrow> t \<noteq> [] \<and> \<not> closes (hd t) \<and> hd t \<notin> set ''ntf[{'' \<and> hd t \<noteq> CHR 0x22"
  by (cases t) (simp_all add: number_text_def char_lits)

lemma compact_hd: "json_ok fl v \<Longrightarrow> compact_text v \<noteq> [] \<and> \<not> closes (hd (compact_text v))"
proof (cases v)
  case (JInt i)
  then show ?thesis using number_text_hd[OF show_int_number[of i]] by simp
next
  case (JStr s)
  then show ?thesis using dumps_str_hd[of s "[]"] by (simp add: closes_def)
next
  case (JFloat r t)
  assume "json_ok fl v"
  then show ?thesis using number_text_hd[of t] JFloat by simp
qed (simp_all add: closes_def)

text \<open>What the text of a value starts with.\<close>

fun starts :: "json \<Rightarrow> char \<Rightarrow> bool" where
  "starts JNull c = (c = CHR ''n'')"
| "starts (JBool b) c = (c = (if b then CHR ''t'' else CHR ''f''))"
| "starts (JInt i) c = (c \<notin> set ''ntf[{'' \<and> c \<noteq> CHR 0x22)"
| "starts (JFloat r t) c = (c \<notin> set ''ntf[{'' \<and> c \<noteq> CHR 0x22)"
| "starts (JStr s) c = (c = CHR 0x22)"
| "starts (JList xs) c = (c = CHR ''['')"
| "starts (JObj kvs) c = (c = CHR ''{'')"

lemma compact_starts: "json_ok fl v \<Longrightarrow> starts v (hd (compact_text v @ X))"
proof (cases v)
  case (JInt i)
  then show ?thesis using number_text_hd[OF show_int_number[of i]] by simp
next
  case (JFloat r t)
  assume "json_ok fl v"
  then show ?thesis using number_text_hd[of t] JFloat by simp
next
  case (JStr s)
  then show ?thesis using dumps_str_hd[of s X] by simp
qed simp_all

lemma compact_inj:
  "json_ok fl v \<Longrightarrow> json_ok fl w \<Longrightarrow> ended X \<Longrightarrow> ended Y \<Longrightarrow> compact_text v @ X = compact_text w @ Y \<Longrightarrow> v = w \<and> X = Y"
proof (induction v arbitrary: w X Y)
  case (JList xs)
  have "starts w CHR ''[''" using compact_starts[OF JList.prems(2), of Y] JList.prems(5) by (metis compact_starts[OF JList.prems(1), of X] starts.simps(6))
  then obtain ys where w: "w = JList ys" by (cases w) (auto split: if_splits)
  have "join '','' (map compact_text xs) @ CHR '']'' # X = join '','' (map compact_text ys) @ CHR '']'' # Y"
    using JList.prems(5) by (simp add: w compact_items_map)
  then have "xs = ys \<and> X = Y"
    by (rule seq_inj[rotated 4]) (use JList w compact_hd in \<open>auto simp: closes_def\<close>)
  then show ?case by (simp add: w)
next
  case (JObj kvs)
  have "starts w CHR ''{''" using compact_starts[OF JObj.prems(2), of Y] JObj.prems(5) by (metis compact_starts[OF JObj.prems(1), of X] starts.simps(7))
  then obtain ys where w: "w = JObj ys" by (cases w) (auto split: if_splits)
  have "join '','' (map pair_text kvs) @ CHR ''}'' # X = join '','' (map pair_text ys) @ CHR ''}'' # Y"
    using JObj.prems(5) by (simp add: w compact_pairs_map)
  moreover have "x = y \<and> Z = Z'"
    if "x \<in> set kvs" "y \<in> set ys" "ended Z" "ended Z'" and eq: "pair_text x @ Z = pair_text y @ Z'" for x y Z Z'
  proof -
    have "dumps_str (fst x) @ CHR '':'' # compact_text (snd x) @ Z = dumps_str (fst y) @ CHR '':'' # compact_text (snd y) @ Z'"
      using eq by simp
    from dumps_str_inj[OF this] have "fst x = fst y" and v: "compact_text (snd x) @ Z = compact_text (snd y) @ Z'" by simp_all
    moreover have "snd x = snd y \<and> Z = Z'"
      by (rule JObj.IH[OF that(1) _ _ _ that(3,4) v]) (use JObj.prems(1,2) w that(1,2) in \<open>auto simp: snds.simps\<close>)
    ultimately show ?thesis by (simp add: prod_eq_iff)
  qed
  ultimately have "kvs = ys \<and> X = Y"
    using dumps_str_hd by (intro seq_inj[of kvs ys pair_text "CHR ''}''" X Y]) (auto simp: closes_def)
  then show ?case by (simp add: w)
next
  case (JStr s)
  have "starts w CHR 0x22" using compact_starts[OF JStr.prems(2), of Y] JStr.prems(5) by (metis compact_starts[OF JStr.prems(1), of X] starts.simps(5))
  then obtain s' where "w = JStr s'" by (cases w) (auto split: if_splits)
  then show ?case using dumps_str_inj[of s X s' Y] JStr.prems(5) by simp
next
  case (JInt i)
  have "starts (JInt i) (hd (compact_text w @ Y))" using compact_starts[OF JInt.prems(1), of X] JInt.prems(5) by simp
  then have "(\<exists>j. w = JInt j) \<or> (\<exists>r t. w = JFloat r t)"
    using compact_starts[OF JInt.prems(2), of Y] by (cases w) (auto split: if_splits)
  then show ?case
    using JInt.prems number_split[of "show_int i" X _ Y] show_int_number show_int_inj by auto
next
  case (JFloat r t)
  have "starts (JFloat r t) (hd (compact_text w @ Y))" using compact_starts[OF JFloat.prems(1), of X] JFloat.prems(5) by simp
  then have "(\<exists>j. w = JInt j) \<or> (\<exists>r t. w = JFloat r t)"
    using compact_starts[OF JFloat.prems(2), of Y] by (cases w) (auto split: if_splits)
  then show ?case
    using JFloat.prems number_split[of t X _ Y] show_int_number by auto
next
  case JNull
  have "starts w CHR ''n''" using compact_starts[OF JNull.prems(2), of Y] unfolding JNull.prems(5)[symmetric] by simp
  then show ?case using JNull.prems(5) by (cases w) (auto split: if_splits)
next
  case (JBool b)
  have "starts w (if b then CHR ''t'' else CHR ''f'')" using compact_starts[OF JBool.prems(2), of Y] unfolding JBool.prems(5)[symmetric] by (cases b) simp_all
  then show ?case using JBool.prems(5) by (cases w) (auto split: if_splits)
qed

lemma canonical_ok: "json_ok fl v \<Longrightarrow> json_ok fl (canonical v)"
  by (induction v rule: canonical.induct) auto

subsection \<open>Properties\<close>

text \<open>A hit is the answer to the same question, and fresh. After any history of lookups and
  stores, a lookup that hits returns the response that was last stored under that key, no longer
  ago than the time to live; and the cache never holds more entries than its bound.\<close>

lemma cache_hits_are_fresh:
  assumes "c = foldl cache_step (new_cache size_max ttl) ops"
  shows "(snd (cache_get k now c) = Some r \<longrightarrow> (\<exists>t. last_put k ops = Some (r, t) \<and> now \<le> t + ttl)) \<and>
    int (length (dc_cache c)) \<le> max 0 size_max"
proof -
  have inv: "cache_inv ops c" unfolding assms by (rule cache_run_inv)
  have fr: "dc_ttl_s c = ttl" "dc_max_size c = size_max"
    using cache_run_frame[of "new_cache size_max ttl" ops] by (simp_all add: assms new_cache_def)
  have "\<exists>t. last_put k ops = Some (r, t) \<and> now \<le> t + ttl" if hit: "snd (cache_get k now c) = Some r"
  proof -
    obtain x where x: "od_get (dc_cache c) k = Some (x, r)" "\<not> now > x"
      using hit by (auto simp: cache_get_def split: option.splits if_splits)
    with inv fr show ?thesis unfolding cache_inv_def by fastforce
  qed
  with inv fr show ?thesis by (auto simp: cache_inv_def cache_ok_def)
qed

lemma cache_hits_are_fresh_witness:
  "snd (cache_get ''k'' 300 (foldl cache_step (new_cache 1 300) [Put ''j'' JNull 0, Put ''k'' (JInt 7) 5, Get ''j'' 6])) = Some (JInt 7) \<and>
   int (length (dc_cache (foldl cache_step (new_cache 1 300) [Put ''j'' JNull 0, Put ''k'' (JInt 7) 5, Get ''j'' 6]))) \<le> 1"
proof -
  have "snd (cache_get ''k'' 300 (foldl cache_step (new_cache 1 300) [Put ''j'' JNull 0, Put ''k'' (JInt 7) 5, Get ''j'' 6])) = Some (JInt 7)"
    by code_simp
  with cache_hits_are_fresh[OF refl, of "''k''" 300 1 300 "[Put ''j'' JNull 0, Put ''k'' (JInt 7) 5, Get ''j'' 6]" "JInt 7"]
  show ?thesis by simp
qed

text \<open>C39: two requests share a cache key only if they ask the same. If the hash does not collide on
  their two canonical texts, two cacheable requests with the same key name the same endpoint and
  have equal payloads up to the order of object keys, at every depth, for any payloads whose floats
  print the way Python prints them.\<close>

lemma cache_key_identifies_payload:
  assumes "cache_key sha ep p = Some k" "cache_key sha ep' p' = Some k"
    and "inj_on sha {canonical_text ep p, canonical_text ep' p'}"
    and "json_ok fl (JObj p)" "json_ok fl (JObj p')"
  shows "ep = ep' \<and> canonical (JObj p) = canonical (JObj p')"
proof -
  have same: "canonical_text ep p = canonical_text ep' p'"
    using assms(1-3) by (auto simp: cache_key_def inj_on_def split: if_splits)
  have ok: "json_ok fl (canonical (JObj [(''endpoint'', JStr e), (''payload'', JObj q)]))" if "json_ok fl (JObj q)" for e q
    by (rule canonical_ok) (use that in simp)
  have "canonical (JObj [(''endpoint'', JStr ep), (''payload'', JObj p)]) = canonical (JObj [(''endpoint'', JStr ep'), (''payload'', JObj p')])"
    using compact_inj[OF ok[OF assms(4)] ok[OF assms(5)], of "[]" "[]"] same by (simp add: canonical_text_def ended_def)
  then show ?thesis by simp
qed

lemma cache_key_identifies_payload_witness:
  "canonical (JObj [(''temperature'', JInt 0), (''a'', JNull)]) = canonical (JObj [(''a'', JNull), (''temperature'', JInt 0)])"
proof -
  have "cache_key (\<lambda>t. t) ''chat'' [(''temperature'', JInt 0), (''a'', JNull)] = cache_key (\<lambda>t. t) ''chat'' [(''a'', JNull), (''temperature'', JInt 0)]"
    "cache_key (\<lambda>t. t) ''chat'' [(''temperature'', JInt 0), (''a'', JNull)] \<noteq> None" by code_simp+
  then obtain k where k: "cache_key (\<lambda>t. t) ''chat'' [(''temperature'', JInt 0), (''a'', JNull)] = Some k"
    "cache_key (\<lambda>t. t) ''chat'' [(''a'', JNull), (''temperature'', JInt 0)] = Some k" by auto
  from cache_key_identifies_payload[OF k, of "\<lambda>_. 0"] show ?thesis by simp
qed

end
