(* ===== verification/No_Store.thy ===== *)
theory No_Store
  imports Resolver Response_Cache
begin

section \<open>Requests whose content is not kept (no_store.py)\<close>

text \<open>
  The header a request asks with, the three conditions under which it is honoured, and the summary
  that is kept instead of the content. A regular expression of the source is a predicate on
  characters; \<^verbatim>\<open>$\<close> also matches before a newline at the end, and so does the predicate.
\<close>

subsection \<open>Asking\<close>

definition no_store_header :: string where "no_store_header = ''X-Roadstead-No-Store''"

fun first_present :: "string option list \<Rightarrow> string option" where
  "first_present [] = None"
| "first_present (v # vs) = (case v of Some s \<Rightarrow> Some s | None \<Rightarrow> first_present vs)"

definition read_header :: "request \<Rightarrow> string option" where
  "read_header r = first_present (map (rq_get r) [no_store_header, py_lower no_store_header, py_upper no_store_header])"

definition ns_parse_header :: "string option \<Rightarrow> bool py" where
  "ns_parse_header raw =
     (case raw of
        None \<Rightarrow> Inr False
      | Some s \<Rightarrow>
          (let v = py_lower (py_strip s) in
           if v = [] then Inr False else if v = ''content'' then Inr True else Inl ValueError))"

record ns_decision =
  ns_outcome :: string
  ns_reason :: string

definition not_requested :: ns_decision where
  "not_requested = \<lparr>ns_outcome = [], ns_reason = []\<rparr>"

definition ns_requested :: "ns_decision \<Rightarrow> bool" where
  "ns_requested d = (ns_outcome d \<noteq> [])"

definition ns_honoured :: "ns_decision \<Rightarrow> bool" where
  "ns_honoured d = (ns_outcome d = ''honoured'')"

definition ns_refused :: "string \<Rightarrow> ns_decision" where
  "ns_refused reason = \<lparr>ns_outcome = ''refused:'' @ reason, ns_reason = reason\<rparr>"

definition ns_decide :: "bool \<Rightarrow> bool \<Rightarrow> string \<Rightarrow> bool \<Rightarrow> string set \<Rightarrow> ns_decision" where
  "ns_decide asked authd aid granted shared =
     (if \<not> asked then not_requested
      else if \<not> authd then ns_refused ''not_authenticated''
      else if aid \<in> shared then ns_refused ''shared_identity''
      else if \<not> granted then ns_refused ''not_granted''
      else \<lparr>ns_outcome = ''honoured'', ns_reason = []\<rparr>)"

definition withheld :: string where "withheld = ''<withheld: no-store>''"

definition redact :: "bool \<Rightarrow> string \<Rightarrow> string" where
  "redact no_store text = (if no_store then withheld else text)"

subsection \<open>Counting\<close>

record ns_tally =
  nt_honoured :: int
  nt_refused :: int
  nt_by_agent :: "(string, (string, int) odict) odict"

definition bump :: "string \<Rightarrow> (string, int) odict \<Rightarrow> (string, int) odict" where
  "bump k d = od_put k (od_get_or 0 d k + 1) d"

definition note_no_store :: "ns_decision \<Rightarrow> string \<Rightarrow> ns_tally \<Rightarrow> ns_tally" where
  "note_no_store d aid t =
     (let row = od_get_or [] (nt_by_agent t) aid in
      if ns_honoured d
      then t\<lparr>nt_honoured := nt_honoured t + 1, nt_by_agent := od_put aid (bump ''honoured'' row) (nt_by_agent t)\<rparr>
      else t\<lparr>nt_refused := nt_refused t + 1,
             nt_by_agent := od_put aid (bump (ns_reason d) (bump ''refused'' row)) (nt_by_agent t)\<rparr>)"

subsection \<open>What is still recorded\<close>

definition known_roles :: "string list" where
  "known_roles = [''system'', ''developer'', ''user'', ''assistant'', ''tool'', ''function'']"

definition word_char :: "char \<Rightarrow> bool" where
  "word_char c = (let n = of_char c :: nat in (48 \<le> n \<and> n \<le> 57) \<or> (65 \<le> n \<and> n \<le> 90) \<or> (97 \<le> n \<and> n \<le> 122))"

definition name_char :: "char \<Rightarrow> bool" where
  "name_char c = (word_char c \<or> c \<in> set ''_.:-'')"

definition model_char :: "char \<Rightarrow> bool" where
  "model_char c = (word_char c \<or> c \<in> set ''_.:/@+-'')"

definition re_match :: "(char \<Rightarrow> bool) \<Rightarrow> nat \<Rightarrow> string \<Rightarrow> bool" where
  "re_match P n s =
     (let w = (if s \<noteq> [] \<and> last s = char_of (10 :: nat) then butlast s else s)
      in w \<noteq> [] \<and> length w \<le> n \<and> list_all P w)"

definition clean_name :: "json \<Rightarrow> string" where
  "clean_name v = (case v of JStr s \<Rightarrow> (if re_match name_char 64 s then s else ''other'') | _ \<Rightarrow> ''other'')"

definition dict_get :: "json \<Rightarrow> string \<Rightarrow> json" where
  "dict_get v k = (case v of JObj d \<Rightarrow> jget d k | _ \<Rightarrow> JNull)"

definition list_of :: "json \<Rightarrow> json list" where
  "list_of v = (case v of JList xs \<Rightarrow> xs | _ \<Rightarrow> [])"

definition max_names :: nat where "max_names = 64"

definition function_names :: "json \<Rightarrow> string list" where
  "function_names items =
     take max_names (sort (remdups (map clean_name
       (filter (\<lambda>v. v \<noteq> JNull) (map (\<lambda>item. dict_get (dict_get item ''function'') ''name'') (list_of items))))))"

definition json_size :: "json \<Rightarrow> int" where
  "json_size v = int (length (compact_text v))"

text \<open>\<^verbatim>\<open>role in _ROLES\<close> hashes the role, which a list or a dict does not allow.\<close>

definition role_key :: "json \<Rightarrow> string py" where
  "role_key m =
     (case dict_get m ''role'' of
        JStr s \<Rightarrow> Inr (if s \<in> set known_roles then s else ''other'')
      | JList _ \<Rightarrow> Inl TypeError
      | JObj _ \<Rightarrow> Inl TypeError
      | _ \<Rightarrow> Inr ''other'')"

fun count_roles :: "json list \<Rightarrow> (string, int) odict \<Rightarrow> (string, int) odict py" where
  "count_roles [] d = Inr d"
| "count_roles (m # ms) d = py_bind (role_key m) (\<lambda>k. count_roles ms (bump k d))"

definition string_list :: "string list \<Rightarrow> json" where
  "string_list xs = JList (map JStr xs)"

definition messages_part :: "json \<Rightarrow> payload py" where
  "messages_part v =
     (case v of
        JList ms \<Rightarrow> py_bind (count_roles ms []) (\<lambda>roles.
          Inr [(''message_count'', JInt (int (length ms))), (''roles'', JObj (map (\<lambda>(k, n). (k, JInt n)) roles))])
      | _ \<Rightarrow> Inr [])"

definition input_part :: "payload \<Rightarrow> payload" where
  "input_part p =
     (case (jget p ''texts'', jget p ''input'') of
        (JList xs, _) \<Rightarrow> [(''input_count'', JInt (int (length xs)))]
      | (_, JList xs) \<Rightarrow> [(''input_count'', JInt (int (length xs)))]
      | _ \<Rightarrow> [])"

definition payload_part :: "json \<Rightarrow> payload py" where
  "payload_part v =
     (case v of
        JObj p \<Rightarrow> py_bind (messages_part (jget p ''messages'')) (\<lambda>ms.
          let tools = function_names (jget p ''tools'') in
          Inr ([(''payload_bytes'', JInt (json_size v))] @ ms @
               (if tools \<noteq> [] then [(''tools_declared'', string_list tools)] else []) @ input_part p))
      | _ \<Rightarrow> Inr [])"

definition model_part :: "payload \<Rightarrow> payload" where
  "model_part r =
     concat (map (\<lambda>k. case jget r k of JStr s \<Rightarrow> (if re_match model_char 128 s then [(k, JStr s)] else []) | _ \<Rightarrow> [])
       [''model'', ''model_source''])"

definition called_names :: "json list \<Rightarrow> string list" where
  "called_names choices =
     take max_names (sort (remdups (concat (map (\<lambda>ch. function_names (dict_get (dict_get ch ''message'') ''tool_calls'')) choices))))"

definition response_part :: "json \<Rightarrow> payload" where
  "response_part v =
     (case v of
        JObj r \<Rightarrow>
          model_part r @
          (case jget r ''choices'' of
             JList cs \<Rightarrow> [(''response_bytes'', JInt (json_size v)), (''choice_count'', JInt (int (length cs)))] @
               (if called_names cs \<noteq> [] then [(''tool_calls'', string_list (called_names cs))] else [])
           | _ \<Rightarrow> [])
      | _ \<Rightarrow> [])"

definition content_summary :: "json \<Rightarrow> json \<Rightarrow> payload py" where
  "content_summary payload response =
     py_bind (payload_part payload) (\<lambda>pp. Inr ([(''v'', JInt 1)] @ pp @ response_part response))"

subsection \<open>Lemmas: who is honoured\<close>

lemma honoured_exactly:
  "ns_honoured (ns_decide asked authd aid granted shared) \<longleftrightarrow> asked \<and> authd \<and> aid \<notin> shared \<and> granted"
  by (simp add: ns_honoured_def ns_decide_def not_requested_def ns_refused_def)

lemma requested_exactly: "ns_requested (ns_decide asked authd aid granted shared) \<longleftrightarrow> asked"
  by (simp add: ns_requested_def ns_decide_def not_requested_def ns_refused_def)

subsection \<open>Lemmas: the summary carries no content\<close>

text \<open>Other content in the messages of a dict: the content of every message replaced.\<close>

definition reword :: "(json \<Rightarrow> json) \<Rightarrow> json \<Rightarrow> json" where
  "reword f m = (case m of JObj d \<Rightarrow> JObj (od_put ''content'' (f (jget d ''content'')) d) | _ \<Rightarrow> m)"

definition reword_messages :: "(json \<Rightarrow> json) \<Rightarrow> json \<Rightarrow> json" where
  "reword_messages f p =
     (case p of
        JObj d \<Rightarrow> JObj (case jget d ''messages'' of JList ms \<Rightarrow> od_put ''messages'' (JList (map (reword f) ms)) d | _ \<Rightarrow> d)
      | _ \<Rightarrow> p)"

definition reword_choice :: "(json \<Rightarrow> json) \<Rightarrow> json \<Rightarrow> json" where
  "reword_choice f ch =
     (case ch of JObj d \<Rightarrow> JObj (case jget d ''message'' of JObj m \<Rightarrow> od_put ''message'' (reword f (JObj m)) d | _ \<Rightarrow> d) | _ \<Rightarrow> ch)"

definition reword_choices :: "(json \<Rightarrow> json) \<Rightarrow> json \<Rightarrow> json" where
  "reword_choices f r =
     (case r of
        JObj d \<Rightarrow> JObj (case jget d ''choices'' of JList cs \<Rightarrow> od_put ''choices'' (JList (map (reword_choice f) cs)) d | _ \<Rightarrow> d)
      | _ \<Rightarrow> r)"

text \<open>The summary without the two sizes.\<close>

definition shape :: "payload \<Rightarrow> payload" where
  "shape s = filter (\<lambda>(k, v). k \<notin> {''payload_bytes'', ''response_bytes''}) s"

lemma shape_append: "shape (a @ b) = shape a @ shape b"
  by (simp add: shape_def)

lemma reword_role [simp]: "dict_get (reword f m) ''role'' = dict_get m ''role''"
  by (cases m) (simp_all add: reword_def dict_get_def jget_put)

lemma reword_calls: "dict_get (dict_get (reword_choice f ch) ''message'') ''tool_calls'' = dict_get (dict_get ch ''message'') ''tool_calls''"
proof (cases ch)
  case (JObj d)
  then show ?thesis
    by (cases "jget d ''message''") (simp_all add: reword_choice_def reword_def dict_get_def jget_put)
qed (simp_all add: reword_choice_def dict_get_def)

lemma count_roles_reword: "count_roles (map (reword f) ms) d = count_roles ms d"
  by (induction ms arbitrary: d) (simp_all add: role_key_def)

lemma called_names_reword: "called_names (map (reword_choice f) cs) = called_names cs"
  by (simp add: called_names_def comp_def reword_calls)

lemma payload_part_reword:
  "map_sum id shape (payload_part (reword_messages f p)) = map_sum id shape (payload_part p)"
proof (cases p)
  case (JObj d)
  show ?thesis
  proof (cases "jget d ''messages''")
    case (JList ms)
    then show ?thesis
      by (cases "count_roles ms []")
        (simp_all add: JObj payload_part_def reword_messages_def messages_part_def jget_put count_roles_reword input_part_def
          Let_def shape_def)
  qed (simp_all add: JObj reword_messages_def)
qed (simp_all add: reword_messages_def)

lemma response_part_reword: "shape (response_part (reword_choices f r)) = shape (response_part r)"
proof (cases r)
  case (JObj d)
  show ?thesis
  proof (cases "jget d ''choices''")
    case (JList cs)
    then show ?thesis
      by (simp add: JObj response_part_def reword_choices_def jget_put called_names_reword shape_append)
        (simp add: model_part_def jget_put shape_def)
  qed (simp_all add: JObj reword_choices_def)
qed (simp_all add: reword_choices_def)

text \<open>What is recorded of a request that is not stored does not depend on its content. Replacing
  the content of every message of the request and of every choice of the response by anything at
  all changes nothing in the summary but the two sizes.\<close>

theorem summary_ignores_content:
  "map_sum id shape (content_summary (reword_messages f p) (reword_choices g r)) = map_sum id shape (content_summary p r)"
proof -
  have "content_summary p r = py_bind (payload_part p) (\<lambda>pp. Inr ([(''v'', JInt 1)] @ pp @ response_part r))" for p r
    by (simp add: content_summary_def)
  then have c: "map_sum id shape (content_summary p r) =
      py_bind (map_sum id shape (payload_part p)) (\<lambda>pp. Inr ([(''v'', JInt 1)] @ pp @ shape (response_part r)))" for p r
    by (cases "payload_part p") (simp_all add: shape_def)
  show ?thesis unfolding c payload_part_reword response_part_reword ..
qed

text \<open>The names that do survive are short words: at most 128 characters of an identifier alphabet, with
  at most one newline behind them.\<close>

definition short_word :: "string \<Rightarrow> bool" where
  "short_word s \<longleftrightarrow> length s \<le> 129 \<and> list_all (\<lambda>c. model_char c \<or> c = char_of (10 :: nat)) s"

lemma re_match_short:
  assumes "re_match P n s" "n \<le> 128" "\<And>c. P c \<Longrightarrow> model_char c" shows "short_word s"
proof (cases "s \<noteq> [] \<and> last s = char_of (10 :: nat)")
  case True
  then have "s = butlast s @ [char_of (10 :: nat)]" by (metis append_butlast_last_id)
  moreover have "length (butlast s) \<le> n" "list_all P (butlast s)" using assms(1) True by (auto simp: re_match_def Let_def)
  moreover obtain w where "w = butlast s" by simp
  ultimately have "s = w @ [char_of (10 :: nat)]" "length w \<le> n" "list_all P w" by simp_all
  then show ?thesis using assms(2,3) by (auto simp: short_word_def list_all_iff)
next
  case False
  then have "length s \<le> n" "list_all P s" using assms(1) by (auto simp: re_match_def Let_def)
  then show ?thesis using assms(2,3) by (auto simp: short_word_def elim: list.pred_mono_strong)
qed

lemma clean_name_short: "short_word (clean_name v)"
proof -
  have "short_word ''other''" by code_simp
  moreover have "name_char c \<Longrightarrow> model_char c" for c by (auto simp: name_char_def model_char_def)
  ultimately show ?thesis using re_match_short[of name_char 64] by (auto simp: clean_name_def split: json.split)
qed

lemma function_names_short: "s \<in> set (function_names items) \<Longrightarrow> short_word s"
  using in_set_takeD[of s max_names] clean_name_short by (fastforce simp: function_names_def)

lemma called_names_short: "s \<in> set (called_names cs) \<Longrightarrow> short_word s"
  using in_set_takeD[of s max_names] function_names_short by (fastforce simp: called_names_def)

subsection \<open>Where the code falls short\<close>

text \<open>A role that is a list makes the summary raise, on a request that was already answered.\<close>

lemma odd_role_raises:
  "content_summary (JObj [(''messages'', JList [JObj [(''role'', JList []), (''content'', JStr ''hi'')]])]) JNull = Inl TypeError"
  by code_simp

text \<open>A name with a newline at its end passes the pattern that is meant to admit 64 characters of its
  alphabet only.\<close>

lemma newline_passes: "clean_name (JStr (''abc'' @ [char_of (10 :: nat)])) = ''abc'' @ [char_of (10 :: nat)]"
  by code_simp

end
