(* ===== verification/Rate.thy ===== *)
theory Rate
  imports Config "HOL-Library.List_Lexorder" "HOL-Library.Char_ord"
begin

section \<open>Request-rate thresholds (rate.py) and the contract of a threshold\<close>

text \<open>
  \<^verbatim>\<open>RateLedger\<close> with its sliding window and \<^verbatim>\<open>RateStanding\<close>. The locale
  \<open>threshold_standing\<close> states what crossing any threshold may cost a caller; the rate and the
  spend standing are both interpretations of it, so the consequences (never a promotion, at
  most one step, floored at the lowest priority) are proved once.
\<close>

subsection \<open>The contract of a threshold\<close>

locale threshold_standing =
  fixes over :: "'st \<Rightarrow> bool"
    and may_spill :: "'st \<Rightarrow> bool"
    and effective :: "'st \<Rightarrow> llm_priority \<Rightarrow> llm_priority"
  assumes spill_iff: "may_spill st \<longleftrightarrow> \<not> over st"
    and within_keeps: "\<not> over st \<Longrightarrow> effective st p = p"
    and over_steps: "over st \<Longrightarrow> prio_int (effective st p) = min (prio_int p + 1) 4"
begin

lemma never_promotes: "p \<le> effective st p"
  using prio_int_bounds[of p] within_keeps[of st p] over_steps[of st p]
  by (cases "over st") (auto simp: less_eq_llm_priority_def)

lemma at_most_one_step: "prio_int (effective st p) \<le> prio_int p + 1"
  using within_keeps[of st p] over_steps[of st p] by (cases "over st") auto

lemma at_most_one_band:
  "priority_to_band p \<le> priority_to_band (effective st p) \<and>
   band_int (priority_to_band (effective st p)) \<le> band_int (priority_to_band p) + 1"
  using at_most_one_step[of st p] priority_to_band_mono[OF never_promotes[of p st]]
  by (cases p; cases "effective st p") (auto simp: priority_to_band_def less_eq_llm_priority_def)

end

subsection \<open>The ledger\<close>

definition window_s :: real where
  "window_s = 60"

definition max_samples :: nat where
  "max_samples = 4096"

record rate_ledger =
  windows :: "(string, real list) odict"

definition trim :: "real \<Rightarrow> real list \<Rightarrow> real list" where
  "trim now w = dropWhile (\<lambda>t. t < now - window_s) w"

definition rate_record :: "string \<Rightarrow> real \<Rightarrow> rate_ledger \<Rightarrow> rate_ledger" where
  "rate_record aid now l =
     (let w = od_get_or [] (windows l) aid @ [now];
          w' = (if length w > max_samples then tl w else w)
      in l\<lparr>windows := od_put aid (trim now w') (windows l)\<rparr>)"

definition observed :: "string \<Rightarrow> real \<Rightarrow> rate_ledger \<Rightarrow> rate_ledger \<times> real" where
  "observed aid now l =
     (case od_get (windows l) aid of
        None \<Rightarrow> (l, 0)
      | Some w \<Rightarrow>
          if w = [] then (l, 0)
          else let w' = trim now w in
            (l\<lparr>windows := od_put aid w' (windows l)\<rparr>, of_nat (length w') * (60 / window_s)))"

definition rate_forget :: "string \<Rightarrow> rate_ledger \<Rightarrow> rate_ledger" where
  "rate_forget aid l = l\<lparr>windows := od_del aid (windows l)\<rparr>"

definition rate_prune :: "real \<Rightarrow> rate_ledger \<Rightarrow> rate_ledger \<times> nat" where
  "rate_prune now l =
     (let ws = map (\<lambda>(a, w). (a, trim now w)) (windows l);
          stale = map fst (filter (\<lambda>(_, w). w = []) ws)
      in (l\<lparr>windows := fold od_del stale ws\<rparr>, length stale))"

definition rate_snapshot :: "real \<Rightarrow> rate_ledger \<Rightarrow> (string \<times> real) list" where
  "rate_snapshot now l =
     sort_key fst (map (\<lambda>a. (a, py_round (snd (observed a now l)) 2)) (od_keys (windows l)))"

subsection \<open>The standing\<close>

record rate_standing =
  rs_agent_id :: string
  observed_per_min :: real
  limit_per_min :: "real option"

definition rate_over :: "rate_standing \<Rightarrow> bool" where
  "rate_over st = (case limit_per_min st of None \<Rightarrow> False | Some cap_pm \<Rightarrow> observed_per_min st > cap_pm)"

definition rate_may_spill :: "rate_standing \<Rightarrow> bool" where
  "rate_may_spill st = (\<not> rate_over st)"

text \<open>\<^verbatim>\<open>LLMPriority.coerce(min(int(declared) + 1, int(P4_HYGIENE)))\<close>.\<close>

definition one_step_down :: "llm_priority \<Rightarrow> llm_priority" where
  "one_step_down declared =
     projr (coerce (PJson (JInt (min (prio_int declared + 1) (prio_int P4_HYGIENE)))) None)"

definition rate_effective_priority :: "rate_standing \<Rightarrow> llm_priority \<Rightarrow> llm_priority" where
  "rate_effective_priority st declared = (if \<not> rate_over st then declared else one_step_down declared)"

definition rate_standing_of :: "rate_ledger \<Rightarrow> string \<Rightarrow> real option \<Rightarrow> real \<Rightarrow> rate_ledger \<times> rate_standing" where
  "rate_standing_of l aid cap_pm now =
     (let (l', r) = observed aid now l in
      (l', \<lparr>rs_agent_id = aid, observed_per_min = r, limit_per_min = cap_pm\<rparr>))"

subsection \<open>Lemmas\<close>

lemma prio_int_one_step_down [simp]: "prio_int (one_step_down p) = min (prio_int p + 1) 4"
  by (cases p) (simp_all add: one_step_down_def coerce_def)

interpretation rate: threshold_standing rate_over rate_may_spill rate_effective_priority
  by unfold_locales (simp_all add: rate_may_spill_def rate_effective_priority_def)

text \<open>A window is kept sorted by a clock that does not run backwards, and trimming it keeps
  exactly the requests of the last minute.\<close>

definition ledger_ok :: "real \<Rightarrow> rate_ledger \<Rightarrow> bool" where
  "ledger_ok now l = (od_ok (windows l) \<and>
     (\<forall>w \<in> set (od_vals (windows l)).
        sorted w \<and> length w \<le> max_samples \<and> (\<forall>t \<in> set w. t \<le> now)))"

lemma trim_filter: "sorted w \<Longrightarrow> trim now w = filter (\<lambda>t. t \<ge> now - window_s) w"
proof (induction w)
  case (Cons t ts)
  then show ?case
    by (auto simp: trim_def intro!: filter_True[symmetric])
qed (simp add: trim_def)

lemma length_trim: "length (trim now w) \<le> length w"
  by (simp add: trim_def length_dropWhile_le)

lemma set_trim: "set (trim now w) \<subseteq> set w"
  by (auto simp: trim_def dest: set_dropWhileD)

lemma sorted_trim: "sorted w \<Longrightarrow> sorted (trim now w)"
  by (simp add: trim_filter sorted_wrt_filter)

lemma od_vals_put: "set (od_vals (od_put k v d)) \<subseteq> insert v (set (od_vals d))"
  using set_od_put[of k v d] by auto

lemma ledger_ok_get:
  assumes "ledger_ok now l"
  shows "sorted (od_get_or [] (windows l) a) \<and> length (od_get_or [] (windows l) a) \<le> max_samples \<and>
         (\<forall>t \<in> set (od_get_or [] (windows l) a). t \<le> now)"
proof (cases "od_get (windows l) a")
  case (Some w)
  then have "w \<in> set (od_vals (windows l))" by (force dest: map_of_SomeD)
  with assms Some show ?thesis by (auto simp: ledger_ok_def od_get_or_def)
qed (simp add: od_get_or_def)

lemma ledger_ok_put:
  assumes "ledger_ok now l" "now \<le> now'" "sorted w" "length w \<le> max_samples" "\<forall>t \<in> set w. t \<le> now'"
  shows "ledger_ok now' (l\<lparr>windows := od_put a w (windows l)\<rparr>)"
  using assms od_vals_put[of a w "windows l"] by (fastforce simp: ledger_ok_def)

lemma sorted_snoc_le: "sorted w \<Longrightarrow> \<forall>t \<in> set w. t \<le> (x :: real) \<Longrightarrow> sorted (w @ [x])"
  by (simp add: sorted_append)

lemma push_bounded:
  fixes w :: "real list"
  assumes "sorted w" "length w \<le> max_samples" "\<forall>t \<in> set w. t \<le> now"
  defines "v \<equiv> w @ [now]"
  shows "sorted (trim now (if length v > max_samples then tl v else v))"
    "length (trim now (if length v > max_samples then tl v else v)) \<le> max_samples"
    "\<forall>t \<in> set (trim now (if length v > max_samples then tl v else v)). t \<le> now"
proof -
  let ?w = "if length v > max_samples then tl v else v"
  have g: "sorted v" "length v \<le> Suc max_samples" "\<forall>t \<in> set v. t \<le> now"
    using assms by (auto simp: v_def intro!: sorted_snoc_le)
  have "sorted ?w" "length ?w \<le> max_samples" "\<forall>t \<in> set ?w. t \<le> now"
    using g by (auto simp: sorted_tl dest: list.set_sel(2)[rotated])
  then show "sorted (trim now ?w)" "length (trim now ?w) \<le> max_samples"
    "\<forall>t \<in> set (trim now ?w). t \<le> now"
    using length_trim[of now ?w] set_trim[of now ?w] by (auto intro: sorted_trim)
qed

lemma rate_record_ok [step_keeps]:
  assumes "ledger_ok now l" "now \<le> now'"
  shows "ledger_ok now' (rate_record a now' l)"
proof -
  have "sorted (od_get_or [] (windows l) a)" "length (od_get_or [] (windows l) a) \<le> max_samples"
    "\<forall>t \<in> set (od_get_or [] (windows l) a). t \<le> now'"
    using ledger_ok_get[OF assms(1), of a] assms(2) by auto
  from push_bounded[OF this] show ?thesis
    unfolding rate_record_def Let_def by (intro ledger_ok_put[OF assms])
qed

subsection \<open>What the window measures\<close>

text \<open>The last \<open>n\<close> entries of a list.\<close>

definition last_n :: "nat \<Rightarrow> 'a list \<Rightarrow> 'a list" where
  "last_n n xs = drop (length xs - n) xs"

lemma length_last_n: "length (last_n n xs) = min n (length xs)"
  by (auto simp: last_n_def)

lemma last_n_snoc:
  "0 < n \<Longrightarrow> last_n n (xs @ [x]) =
     (if length (last_n n xs @ [x]) > n then tl (last_n n xs @ [x]) else last_n n xs @ [x])"
  by (auto simp: last_n_def Suc_diff_le drop_Suc tl_drop[symmetric] tl_append split: list.split)

lemma filter_tl_sorted:
  assumes "sorted w" "length (filter (\<lambda>t. (c :: real) \<le> t) w) < length w"
  shows "filter (\<lambda>t. c \<le> t) (tl w) = filter (\<lambda>t. c \<le> t) w"
proof (cases w)
  case (Cons x xs)
  have "\<not> c \<le> x"
  proof
    assume "c \<le> x"
    with assms(1) Cons have "\<forall>t \<in> set w. c \<le> t" by auto
    then have "filter (\<lambda>t. c \<le> t) w = w" by (simp add: filter_id_conv)
    with assms(2) show False by simp
  qed
  with Cons show ?thesis by simp
qed simp

lemma length_filter_last_n:
  assumes "sorted w"
  shows "length (filter (\<lambda>t. (c :: real) \<le> t) (last_n n w)) = min n (length (filter (\<lambda>t. c \<le> t) w))"
proof -
  let ?m = "length w - n"
  have split: "filter (\<lambda>t. c \<le> t) w = filter (\<lambda>t. c \<le> t) (take ?m w) @ filter (\<lambda>t. c \<le> t) (drop ?m w)"
    by (metis append_take_drop_id filter_append)
  show ?thesis
  proof (cases "\<exists>t \<in> set (take ?m w). c \<le> t")
    case True
    have "sorted (take ?m w @ drop ?m w)" using assms by simp
    with True have "\<forall>t \<in> set (drop ?m w). c \<le> t"
      by (simp only: sorted_append) (meson order_trans)
    moreover have "n < length w" using True by (cases "n < length w") auto
    ultimately show ?thesis using split by (simp add: last_n_def)
  next
    case False
    then have "filter (\<lambda>t. c \<le> t) (take ?m w) = []" by (auto simp: filter_empty_conv not_le)
    moreover have "length (filter (\<lambda>t. c \<le> t) (drop ?m w)) \<le> n"
      by (rule order_trans[OF length_filter_le]) simp
    ultimately show ?thesis using split by (simp add: last_n_def)
  qed
qed

text \<open>The times at which one caller was recorded, in a log of \<open>(caller, time)\<close> records.\<close>

definition times_of :: "string \<Rightarrow> (string \<times> real) list \<Rightarrow> real list" where
  "times_of a evs = map snd (filter (\<lambda>e. fst e = a) evs)"

definition replay_rate :: "(string \<times> real) list \<Rightarrow> rate_ledger" where
  "replay_rate evs = foldl (\<lambda>l (a, t). rate_record a t l) \<lparr>windows = []\<rparr> evs"

lemma times_of_snoc: "times_of a (evs @ [(b, t)]) = times_of a evs @ (if a = b then [t] else [])"
  by (simp add: times_of_def)

lemma replay_rate_snoc: "replay_rate (evs @ [(a, t)]) = rate_record a t (replay_rate evs)"
  by (simp add: replay_rate_def)

lemma sorted_times_of: "sorted (map snd evs) \<Longrightarrow> sorted (times_of a evs)"
  by (simp add: times_of_def sorted_filter)

lemma push_window:
  assumes "sorted (ts @ [t])"
    and w: "w = (if ts = [] then [] else filter (\<lambda>x. x \<ge> last ts - window_s) (last_n max_samples ts))"
  shows "trim t (if length (w @ [t]) > max_samples then tl (w @ [t]) else w @ [t])
           = filter (\<lambda>x. x \<ge> t - window_s) (last_n max_samples (ts @ [t]))"
proof -
  let ?L = "last_n max_samples ts" and ?P = "\<lambda>x. x \<ge> t - window_s"
  have pos: "0 < max_samples" by (simp add: max_samples_def)
  have le: "ts \<noteq> [] \<Longrightarrow> last ts \<le> t" using assms(1) by (auto simp: sorted_append)
  have sL: "sorted ?L" using assms(1) by (simp add: last_n_def sorted_append)
  have sL1: "sorted (?L @ [t])"
    using assms(1) by (auto simp: last_n_def sorted_append dest: in_set_dropD)
  have tl_eq: "last_n max_samples (ts @ [t]) = (if length (?L @ [t]) > max_samples then tl (?L @ [t]) else ?L @ [t])"
    by (rule last_n_snoc[OF pos])
  show ?thesis
  proof (cases "w = ?L")
    case True
    have "sorted (if length (w @ [t]) > max_samples then tl (w @ [t]) else w @ [t])"
      using sL1 True by (simp add: sorted_tl)
    then show ?thesis unfolding tl_eq by (simp add: trim_filter True)
  next
    case False
    then have ne: "ts \<noteq> []" using w by (auto simp: last_n_def)
    have wf: "w = filter (\<lambda>x. x \<ge> last ts - window_s) ?L" using w ne by simp
    have short: "length w < length ?L"
      using False wf by (metis filter_True length_filter_less linorder_neqE_nat length_filter_le leD order_le_less filter_id_conv)
    have lw: "length (w @ [t]) \<le> max_samples" using short by (simp add: length_last_n)
    have sw: "sorted (w @ [t])" using sL1 wf by (simp add: sorted_append sorted_wrt_filter)
    have "filter ?P w = filter ?P ?L"
      using le[OF ne] by (auto simp: wf intro!: filter_cong)
    moreover have "filter ?P (tl (?L @ [t])) = filter ?P (?L @ [t])"
    proof (rule filter_tl_sorted[OF sL1])
      have "length (filter ?P ?L) < length ?L"
        using short calculation length_filter_le[of ?P w] by simp
      then show "length (filter ?P (?L @ [t])) < length (?L @ [t])" by simp
    qed
    ultimately show ?thesis using lw sw unfolding tl_eq by (simp add: trim_filter)
  qed
qed

lemma replay_rate_window:
  "sorted (map snd evs) \<Longrightarrow>
     od_get_or [] (windows (replay_rate evs)) a =
       (if times_of a evs = [] then []
        else filter (\<lambda>x. x \<ge> last (times_of a evs) - window_s) (last_n max_samples (times_of a evs)))"
proof (induction evs rule: rev_induct)
  case Nil
  then show ?case by (simp add: replay_rate_def times_of_def)
next
  case (snoc e evs)
  obtain b t where e: "e = (b, t)" by (cases e)
  have IH: "od_get_or [] (windows (replay_rate evs)) a =
       (if times_of a evs = [] then []
        else filter (\<lambda>x. x \<ge> last (times_of a evs) - window_s) (last_n max_samples (times_of a evs)))"
    using snoc by (simp add: sorted_append)
  show ?case
  proof (cases "a = b")
    case True
    have "sorted (times_of a evs @ [t])"
      using sorted_times_of[OF snoc.prems, of a] by (simp add: e True times_of_snoc)
    from push_window[OF this IH] show ?thesis
      by (simp add: e True[symmetric] replay_rate_snoc rate_record_def Let_def times_of_snoc)
  next
    case False
    then show ?thesis
      using IH by (simp add: e replay_rate_snoc rate_record_def Let_def times_of_snoc)
  qed
qed

lemma observed_get_or:
  "snd (observed a now l) = real (length (trim now (od_get_or [] (windows l) a)))"
  by (auto simp: observed_def od_get_or_def window_s_def trim_def Let_def split: option.split)

text \<open>What the rate ledger measures. Replaying any log of requests in time order, the
  observed rate of a caller at a later moment is exactly the number of its own requests within
  the last minute (the boundary included), saturating at the 4096 samples a window holds; no
  other caller's traffic contributes.\<close>

lemma observed_counts_last_minute:
  assumes "sorted (map snd evs)" and "\<forall>e \<in> set evs. snd e \<le> now"
  shows "snd (observed a now (replay_rate evs)) =
           real (min max_samples (length (filter (\<lambda>e. fst e = a \<and> now - window_s \<le> snd e) evs)))"
proof -
  let ?ts = "times_of a evs"
  have st: "sorted ?ts" by (rule sorted_times_of[OF assms(1)])
  have cnt: "length (filter (\<lambda>e. fst e = a \<and> now - window_s \<le> snd e) evs)
      = length (filter (\<lambda>x. now - window_s \<le> x) ?ts)"
    by (simp add: times_of_def filter_map o_def conj_commute)
  have "snd (observed a now (replay_rate evs)) =
      real (length (filter (\<lambda>x. now - window_s \<le> x) (last_n max_samples ?ts)))"
  proof (cases "?ts = []")
    case True
    then show ?thesis using replay_rate_window[OF assms(1), of a]
      by (simp add: observed_get_or trim_def last_n_def)
  next
    case False
    then have "last ?ts \<le> now"
      using assms(2) last_in_set[OF False] by (auto simp: times_of_def)
    then show ?thesis
      using False st replay_rate_window[OF assms(1), of a]
      by (auto simp: observed_get_or trim_filter last_n_def sorted_wrt_filter sorted_wrt_drop
          intro!: arg_cong[where f = length] filter_cong)
  qed
  then show ?thesis by (simp add: cnt length_filter_last_n[OF st])
qed

lemma observed_counts_last_minute_witness:
  "snd (observed ''a'' 100 (replay_rate [(''a'', 10), (''b'', 41), (''a'', 41), (''a'', 99)])) = 2"
  using observed_counts_last_minute[of "[(''a'', 10), (''b'', 41), (''a'', 41), (''a'', 99)]" 100 "''a''"]
  by (simp add: window_s_def max_samples_def)

end
