(* ===== verification/Usage_Rates.thy ===== *)
theory Usage_Rates
  imports Json
begin

section \<open>The avoided-cost rate table (usage_rates.py)\<close>

text \<open>
  What renting the class of model behind a local endpoint would have cost: the tables of the
  source, the resolution of an endpoint name to its rate key, the cost of one completion
  (\<^verbatim>\<open>cloud_cost_usd\<close>) and the token rate (\<^verbatim>\<open>cloud_rate\<close>) that the price book falls back to.
  None of these numbers is money owed; that is what \<open>Spend\<close> keeps apart.
\<close>

definition rates_by_class :: "(string, real \<times> real) odict" where
  "rates_by_class =
     [
      (''tier3'', (7 / 50, 7 / 25)), (''tier2'', (3 / 20, 11 / 20)),
      (''tier1'', (1 / 25, 2 / 25)), (''embed'', (1 / 100, 0)), (''rerank'', (1 / 50, 1 / 50))
     ]"

definition audio_hour_rate :: "(string, real) odict" where
  "audio_hour_rate =
     [
      (''stt'', 111 / 1000), (''diarize'', 3 / 25), (''stem'', 3 / 4)
     ]"

definition hours_per_input_token :: real where
  "hours_per_input_token = 1 / (100 * 3600)"

definition tts_char_rate :: real where
  "tts_char_rate = 15"

definition endpoint_rate_class :: "(string, string option) odict" where
  "endpoint_rate_class =
     [
      (''tier3'', Some ''tier3''), (''reasoner'', Some ''tier3''),
      (''thinker'', Some ''tier3''), (''composer'', Some ''tier3''),
      (''creative'', Some ''tier3''), (''vision'', Some ''tier3''),
      (''tier2'', Some ''tier2''), (''chat'', Some ''tier2''), (''analyst'', Some ''tier2''),
      (''tier2-chat'', Some ''tier2''), (''tier2-analyst'', Some ''tier2''),
      (''tier2-flash'', Some ''tier2''), (''halogen'', Some ''tier2''),
      (''flash'', Some ''tier2''), (''tier1'', Some ''tier1''), (''router'', Some ''tier1''),
      (''small'', Some ''tier1''), (''fast-chat'', Some ''tier1''),
      (''classify'', Some ''tier1''), (''classifier'', Some ''tier1''),
      (''gemma'', Some ''tier1''), (''gemma-router'', Some ''tier1''),
      (''gemma-greeter'', Some ''tier1''), (''usersim'', Some ''tier1''),
      (''embed'', Some ''embed''), (''embeddings'', Some ''embed''),
      (''embed-mm'', Some ''embed''), (''eg2-embed'', Some ''embed''),
      (''rerank'', Some ''rerank''), (''spill-chat'', None), (''spill-reasoning'', None),
      (''stt'', Some ''stt''), (''whisper-1'', Some ''stt''), (''transcribe'', Some ''stt''),
      (''diarize'', Some ''diarize''), (''stem'', Some ''stem''),
      (''cortex-diarize'', Some ''diarize''), (''cortex-diarize-offline'', Some ''diarize''),
      (''diarize-gpu'', Some ''diarize''), (''unraid-whisper'', Some ''stt''),
      (''unraid-whisper-lyrics'', Some ''stt''), (''unraid-diarize'', Some ''diarize''),
      (''unraid-htdemucs'', Some ''stem''), (''tts'', Some ''tts''), (''speak'', Some ''tts''),
      (''orpheus-tts'', Some ''tts''), (''chatterbox-tts'', Some ''tts''),
      (''cortex-orpheus-tts'', Some ''tts''), (''cortex-chatterbox-tts'', Some ''tts''),
      (''stream'', None), (''cortex-stream'', None), (''ocr'', None), (''musicgen'', None),
      (''imagegen'', None), (''video'', None), (''comfyui'', None), (''meshgen'', None),
      (''videogen'', None), (''probe'', None), (''asr'', None), (''cortex-asr'', None),
      (''got-ocr'', None)
     ]"

definition is_declared_endpoint :: "string \<Rightarrow> bool" where
  "is_declared_endpoint ep = (py_lower (py_strip ep) \<in> fst ` set endpoint_rate_class)"

definition capability :: "string \<Rightarrow> string option" where
  "capability ep = od_get_or None endpoint_rate_class (py_lower (py_strip ep))"

definition cloud_cost_usd :: "string \<Rightarrow> int \<Rightarrow> int \<Rightarrow> real" where
  "cloud_cost_usd ep ti to =
     (case capability ep of
        None \<Rightarrow> 0
      | Some cap \<Rightarrow>
          (case od_get rates_by_class cap of
             Some (rin, rout) \<Rightarrow> (of_int ti / 1000000) * rin + (of_int to / 1000000) * rout
           | None \<Rightarrow>
               (case od_get audio_hour_rate cap of
                  Some hr \<Rightarrow> of_int ti * hours_per_input_token * hr
                | None \<Rightarrow>
                    if cap = ''tts'' then (of_int ti / 1000000) * tts_char_rate else 0)))"

definition cloud_rate :: "string \<Rightarrow> real \<times> real" where
  "cloud_rate ep =
     (case capability ep of
        Some cap \<Rightarrow> (if cap \<noteq> [] \<and> cap \<in> fst ` set rates_by_class
                    then the (od_get rates_by_class cap) else (0, 0))
      | None \<Rightarrow> (0, 0))"

text \<open>Every rate key a name resolves to is priced by one of the three regimes, so no declared
  name falls through to the last branch of \<^const>\<open>cloud_cost_usd\<close> by a misspelt key.\<close>

lemma rate_keys_known:
  "(n, Some cap) \<in> set endpoint_rate_class \<Longrightarrow>
     cap \<in> fst ` set rates_by_class \<or> cap \<in> fst ` set audio_hour_rate \<or> cap = ''tts''"
  by (auto simp: endpoint_rate_class_def rates_by_class_def audio_hour_rate_def)

lemma rates_nonneg: "od_get rates_by_class cap = Some r \<Longrightarrow> 0 \<le> fst r \<and> 0 \<le> snd r"
  by (auto simp: rates_by_class_def split: if_splits)

lemma cloud_rate_nonneg: "0 \<le> fst (cloud_rate ep) \<and> 0 \<le> snd (cloud_rate ep)"
  using rates_nonneg
  by (auto simp: cloud_rate_def split: option.splits dest!: weak_map_of_SomeI)

text \<open>Where the name is priced per token, the rate pair and the cost function agree.\<close>

lemma cloud_cost_from_rate:
  assumes "capability ep = Some cap" "cap \<in> fst ` set rates_by_class"
  shows "cloud_cost_usd ep ti to =
    (of_int ti / 1000000) * fst (cloud_rate ep) + (of_int to / 1000000) * snd (cloud_rate ep)"
proof -
  have "cap \<noteq> []" using assms(2) by (auto simp: rates_by_class_def)
  moreover obtain r where "od_get rates_by_class cap = Some r"
    using assms(2) by (cases "od_get rates_by_class cap") (auto simp: od_get_None_iff)
  ultimately show ?thesis
    using assms by (simp add: cloud_cost_usd_def cloud_rate_def case_prod_unfold)
qed

end
