(* ===== verification/Spend.thy ===== *)
theory Spend
  imports Rate Usage_Rates
begin

section \<open>Prices, the spend ledger and the spend standing (spend.py)\<close>

text \<open>
  \<^verbatim>\<open>TokenPrice\<close>, \<^verbatim>\<open>PriceBook\<close> (declared over discovered over imputed), \<^verbatim>\<open>SpendLedger\<close>
  with \<^verbatim>\<open>charge\<close> and its lazy day roll-over, and \<^verbatim>\<open>SpendStanding\<close>, the second
  interpretation of the threshold contract. The lemmas show that the two kinds of money never
  mix, that the per-endpoint breakdown always sums to the lifetime total, and that the number
  a cap is compared with is the real spend of the current day and of nothing else.
\<close>

subsection \<open>Prices\<close>

datatype price_source = SOURCE_PROVIDER | SOURCE_CONFIG | SOURCE_IMPUTED

record token_price =
  input_usd_per_mtok :: real
  output_usd_per_mtok :: real
  price_source :: price_source
  price_detail :: string

definition price_real :: "token_price \<Rightarrow> bool" where
  "price_real p = (price_source p = SOURCE_PROVIDER \<or> price_source p = SOURCE_CONFIG)"

definition price_cost_usd :: "token_price \<Rightarrow> int \<Rightarrow> int \<Rightarrow> real" where
  "price_cost_usd p input_tokens output_tokens =
     (let ti = max 0 input_tokens; tout = max 0 output_tokens in
      (of_int ti / 1000000) * input_usd_per_mtok p + (of_int tout / 1000000) * output_usd_per_mtok p)"

record price_book =
  pb_declared :: "(string, token_price) odict"
  pb_discovered :: "(string, token_price) odict"

definition empty_book :: price_book where
  "empty_book = \<lparr>pb_declared = [], pb_discovered = []\<rparr>"

definition pb_declare :: "string \<Rightarrow> token_price \<Rightarrow> price_book \<Rightarrow> price_book" where
  "pb_declare ep p b = b\<lparr>pb_declared := od_put ep p (pb_declared b)\<rparr>"

definition pb_observe :: "string \<Rightarrow> token_price \<Rightarrow> price_book \<Rightarrow> price_book" where
  "pb_observe ep p b = b\<lparr>pb_discovered := od_put ep p (pb_discovered b)\<rparr>"

definition imputed_price :: "string \<Rightarrow> token_price" where
  "imputed_price ep =
     (let (rate_in, rate_out) = cloud_rate ep in
      \<lparr>input_usd_per_mtok = rate_in, output_usd_per_mtok = rate_out,
       price_source = SOURCE_IMPUTED,
       price_detail = ''usage_rates avoided-cost for '' @ repr_str ep\<rparr>)"

definition pb_price :: "price_book \<Rightarrow> string \<Rightarrow> token_price" where
  "pb_price b endpoint =
     (let ep = py_strip endpoint in
      case od_get (pb_declared b) ep of Some p \<Rightarrow> p
      | None \<Rightarrow> (case od_get (pb_discovered b) ep of Some p \<Rightarrow> p | None \<Rightarrow> imputed_price ep))"

definition pb_cost_usd :: "price_book \<Rightarrow> string \<Rightarrow> int \<Rightarrow> int \<Rightarrow> real" where
  "pb_cost_usd b ep ti tout = price_cost_usd (pb_price b ep) ti tout"

text \<open>\<^verbatim>\<open>float(price or 0.0)\<close> on an absent half is zero.\<close>

definition declared_price :: "string \<Rightarrow> endpoint_config \<Rightarrow> token_price option" where
  "declared_price ep c =
     (if ep_input_usd c = None \<and> ep_output_usd c = None then None
      else Some \<lparr>input_usd_per_mtok = (case ep_input_usd c of Some x \<Rightarrow> x | None \<Rightarrow> 0),
                 output_usd_per_mtok = (case ep_output_usd c of Some x \<Rightarrow> x | None \<Rightarrow> 0),
                 price_source = SOURCE_CONFIG,
                 price_detail = ''declared in the catalog for '' @ repr_str ep\<rparr>)"

subsection \<open>The ledger\<close>

record agent_spend =
  as_agent_id :: string
  as_tokens_in :: int
  as_tokens_out :: int
  spent_usd :: real
  avoided_usd :: real
  as_requests :: int
  as_day :: int
  day_spent_usd :: real
  by_endpoint :: "(string, real) odict"

record spend_ledger =
  sl_prices :: price_book
  sl_agents :: "(string, agent_spend) odict"

definition fresh_account :: "string \<Rightarrow> agent_spend" where
  "fresh_account aid =
     \<lparr>as_agent_id = aid, as_tokens_in = 0, as_tokens_out = 0, spent_usd = 0, avoided_usd = 0,
      as_requests = 0, as_day = 0, day_spent_usd = 0, by_endpoint = []\<rparr>"

definition day_bucket :: "real \<Rightarrow> int" where
  "day_bucket now = \<lfloor>now / 86400\<rfloor>"

definition day_start :: "real \<Rightarrow> real" where
  "day_start now = of_int (day_bucket now) * 86400"

text \<open>The account after one real charge: lifetime, breakdown, and the day's window, which a new
  day resets before the amount is added.\<close>

definition book_real :: "string \<Rightarrow> real \<Rightarrow> real \<Rightarrow> agent_spend \<Rightarrow> agent_spend" where
  "book_real ep amount now a =
     (let a1 = a\<lparr>spent_usd := spent_usd a + amount,
                 by_endpoint := od_put ep (od_get_or 0 (by_endpoint a) ep + amount) (by_endpoint a)\<rparr>;
          d = day_bucket now;
          a2 = (if as_day a1 \<noteq> d then a1\<lparr>as_day := d, day_spent_usd := 0\<rparr> else a1)
      in a2\<lparr>day_spent_usd := day_spent_usd a2 + amount\<rparr>)"

definition spend_charge ::
  "string \<Rightarrow> string \<Rightarrow> int \<Rightarrow> int \<Rightarrow> real \<Rightarrow> int \<Rightarrow> spend_ledger \<Rightarrow> spend_ledger \<times> real" where
  "spend_charge aid endpoint input_tokens output_tokens now reqs l =
     (let acct = od_get_or (fresh_account aid) (sl_agents l) aid;
          ti = max 0 input_tokens;
          tout = max 0 output_tokens;
          acct = acct\<lparr>as_tokens_in := as_tokens_in acct + ti,
                      as_tokens_out := as_tokens_out acct + tout,
                      as_requests := as_requests acct + max 0 reqs\<rparr>;
          price = pb_price (sl_prices l) endpoint;
          amount = price_cost_usd price ti tout
      in if \<not> price_real price
         then (l\<lparr>sl_agents := od_put aid (acct\<lparr>avoided_usd := avoided_usd acct + amount\<rparr>) (sl_agents l)\<rparr>, 0)
         else (l\<lparr>sl_agents := od_put aid (book_real endpoint amount now acct) (sl_agents l)\<rparr>, amount))"

definition spent_today :: "string \<Rightarrow> real \<Rightarrow> spend_ledger \<Rightarrow> real" where
  "spent_today aid now l =
     (case od_get (sl_agents l) aid of
        None \<Rightarrow> 0
      | Some a \<Rightarrow> (if as_day a = day_bucket now then day_spent_usd a else 0))"

subsection \<open>The standing\<close>

record spend_standing =
  ss_agent_id :: string
  spent_today_usd :: real
  cap_usd :: "real option"

definition spend_over :: "spend_standing \<Rightarrow> bool" where
  "spend_over st = (case cap_usd st of None \<Rightarrow> False | Some cap \<Rightarrow> spent_today_usd st \<ge> cap)"

definition spend_may_spill_st :: "spend_standing \<Rightarrow> bool" where
  "spend_may_spill_st st = (\<not> spend_over st)"

definition spend_effective_priority :: "spend_standing \<Rightarrow> llm_priority \<Rightarrow> llm_priority" where
  "spend_effective_priority st declared = (if \<not> spend_over st then declared else one_step_down declared)"

definition spend_standing_of :: "spend_ledger \<Rightarrow> string \<Rightarrow> real option \<Rightarrow> real \<Rightarrow> spend_standing" where
  "spend_standing_of l aid cap now =
     \<lparr>ss_agent_id = aid, spent_today_usd = spent_today aid now l, cap_usd = cap\<rparr>"

interpretation spend: threshold_standing spend_over spend_may_spill_st spend_effective_priority
  by unfold_locales (simp_all add: spend_may_spill_st_def spend_effective_priority_def)

subsection \<open>Lemmas\<close>

lemma imputed_not_real [simp]: "\<not> price_real (imputed_price ep)"
  by (simp add: price_real_def imputed_price_def case_prod_unfold Let_def)

lemma pb_price_declared: "od_get (pb_declared b) (py_strip ep) = Some p \<Longrightarrow> pb_price b ep = p"
  by (simp add: pb_price_def)

lemma price_cost_max [simp]: "price_cost_usd p (max 0 i) (max 0 j) = price_cost_usd p i j"
  by (simp add: price_cost_usd_def)

lemma price_cost_nonneg:
  "0 \<le> input_usd_per_mtok p \<Longrightarrow> 0 \<le> output_usd_per_mtok p \<Longrightarrow> 0 \<le> price_cost_usd p i j"
  by (simp add: price_cost_usd_def Let_def)

lemma day_start_bounds: "day_start now \<le> now" "now < day_start now + 86400"
  unfolding day_start_def day_bucket_def by linarith+

lemma day_bucket_mono: "s \<le> t \<Longrightarrow> day_bucket s \<le> day_bucket t"
  unfolding day_bucket_def by (intro floor_mono) simp

lemma spend_charge_amount:
  "snd (spend_charge a ep ti tout now r l) =
     (if price_real (pb_price (sl_prices l) ep) then price_cost_usd (pb_price (sl_prices l) ep) ti tout else 0)"
  by (simp add: spend_charge_def Let_def)

lemma spend_charge_prices [simp]: "sl_prices (fst (spend_charge a ep ti tout now r l)) = sl_prices l"
  by (simp add: spend_charge_def Let_def)

text \<open>What a ledger always satisfies: the accounts are keyed by their own agent and every
  account's breakdown sums to its lifetime total.\<close>

definition account_ok :: "agent_spend \<Rightarrow> bool" where
  "account_ok a = (od_ok (by_endpoint a) \<and> sum_list (od_vals (by_endpoint a)) = spent_usd a)"

definition spend_ok :: "spend_ledger \<Rightarrow> bool" where
  "spend_ok l = (od_ok (sl_agents l) \<and>
     (\<forall>(k, a) \<in> set (sl_agents l). as_agent_id a = k \<and> account_ok a))"

lemma fresh_account_ok [simp]: "account_ok (fresh_account a)" "as_agent_id (fresh_account a) = a"
  by (simp_all add: account_ok_def fresh_account_def)

lemma sum_od_add:
  assumes "od_ok d"
  shows "sum_list (od_vals (od_put k (od_get_or 0 d k + x) d)) = sum_list (od_vals d) + (x :: real)"
proof (cases "od_get d k")
  case None
  then have "k \<notin> fst ` set d" by (simp add: od_get_None_iff)
  from sum_list_od_put_new[OF this, of snd] None show ?thesis
    by (simp add: od_get_or_def)
next
  case (Some v)
  from sum_list_od_put_old[OF assms Some, of snd "v + x"] Some show ?thesis
    by (simp add: od_get_or_def)
qed

lemma book_real_ok:
  assumes "account_ok a" shows "account_ok (book_real ep x now a)"
proof -
  have "sum_list (od_vals (od_put ep (od_get_or 0 (by_endpoint a) ep + x) (by_endpoint a)))
      = spent_usd a + x"
    using assms sum_od_add[of "by_endpoint a" ep x] by (simp add: account_ok_def)
  then show ?thesis using assms by (simp add: account_ok_def book_real_def Let_def)
qed

lemma book_real_simps [simp]:
  "as_agent_id (book_real ep x now a) = as_agent_id a"
  "avoided_usd (book_real ep x now a) = avoided_usd a"
  "spent_usd (book_real ep x now a) = spent_usd a + x"
  "as_day (book_real ep x now a) = day_bucket now"
  "day_spent_usd (book_real ep x now a) = (if as_day a = day_bucket now then day_spent_usd a else 0) + x"
  by (simp_all add: book_real_def Let_def)

lemma spend_ok_get:
  "spend_ok l \<Longrightarrow> account_ok (od_get_or (fresh_account a) (sl_agents l) a) \<and>
     as_agent_id (od_get_or (fresh_account a) (sl_agents l) a) = a"
  by (auto simp: spend_ok_def od_get_or_def split: option.split dest!: od_get_Some_in)

lemma spend_ok_put:
  assumes "spend_ok l" "account_ok x" "as_agent_id x = a"
  shows "spend_ok (l\<lparr>sl_agents := od_put a x (sl_agents l)\<rparr>)"
  using assms set_od_put[of a x "sl_agents l"] by (auto simp: spend_ok_def)

lemma account_ok_tokens [simp]:
  "account_ok (a\<lparr>as_tokens_in := i, as_tokens_out := j, as_requests := r\<rparr>) = account_ok a"
  "account_ok (a\<lparr>avoided_usd := x\<rparr>) = account_ok a"
  by (simp_all add: account_ok_def)

lemma spend_charge_ok [step_keeps]:
  assumes "spend_ok l" shows "spend_ok (fst (spend_charge a ep ti tout now r l))"
  using spend_ok_get[OF assms, of a]
  by (simp add: spend_charge_def Let_def spend_ok_put[OF assms] book_real_ok)

subsection \<open>Replaying a log of completions\<close>

record completion =
  c_agent :: string
  c_endpoint :: string
  c_in :: int
  c_out :: int
  c_now :: real

definition charge_completion :: "spend_ledger \<Rightarrow> completion \<Rightarrow> spend_ledger" where
  "charge_completion l c = fst (spend_charge (c_agent c) (c_endpoint c) (c_in c) (c_out c) (c_now c) 1 l)"

definition replay_spend :: "price_book \<Rightarrow> completion list \<Rightarrow> spend_ledger" where
  "replay_spend b cs = foldl charge_completion \<lparr>sl_prices = b, sl_agents = []\<rparr> cs"

interpretation ledger: event_system charge_completion spend_ok "\<lambda>_. True"
  by unfold_locales (simp add: charge_completion_def spend_charge_ok)

text \<open>What one completion costs in real money, and what it avoids.\<close>

definition real_cost :: "price_book \<Rightarrow> completion \<Rightarrow> real" where
  "real_cost b c = (let p = pb_price b (c_endpoint c) in
     if price_real p then price_cost_usd p (c_in c) (c_out c) else 0)"

definition avoided_cost :: "price_book \<Rightarrow> completion \<Rightarrow> real" where
  "avoided_cost b c = (let p = pb_price b (c_endpoint c) in
     if price_real p then 0 else price_cost_usd p (c_in c) (c_out c))"

lemma replay_spend_snoc: "replay_spend b (cs @ [c]) = charge_completion (replay_spend b cs) c"
  by (simp add: replay_spend_def)

lemma replay_spend_prices [simp]: "sl_prices (replay_spend b cs) = b"
  by (induction cs rule: rev_induct)
    (simp add: replay_spend_def, simp add: replay_spend_snoc charge_completion_def)

definition account_of :: "string \<Rightarrow> spend_ledger \<Rightarrow> agent_spend" where
  "account_of a l = od_get_or (fresh_account a) (sl_agents l) a"

lemma account_of_charge:
  "account_of a (charge_completion l c) =
     (let acct = account_of a l;
          acct' = acct\<lparr>as_tokens_in := as_tokens_in acct + max 0 (c_in c),
                       as_tokens_out := as_tokens_out acct + max 0 (c_out c),
                       as_requests := as_requests acct + 1\<rparr>;
          p = pb_price (sl_prices l) (c_endpoint c);
          amount = price_cost_usd p (c_in c) (c_out c)
      in if a \<noteq> c_agent c then acct
         else if price_real p then book_real (c_endpoint c) amount (c_now c) acct'
         else acct'\<lparr>avoided_usd := avoided_usd acct + amount\<rparr>)"
  by (simp add: account_of_def charge_completion_def spend_charge_def Let_def)

lemma spent_today_account:
  "spent_today a now l = (if as_day (account_of a l) = day_bucket now then day_spent_usd (account_of a l) else 0)"
  by (auto simp: spent_today_def account_of_def od_get_or_def fresh_account_def split: option.split)

lemma replay_totals:
  "spent_usd (account_of a (replay_spend b cs)) =
     sum_list (map (real_cost b) (filter (\<lambda>c. c_agent c = a) cs))"
  "avoided_usd (account_of a (replay_spend b cs)) =
     sum_list (map (avoided_cost b) (filter (\<lambda>c. c_agent c = a) cs))"
proof (induction cs rule: rev_induct)
  case Nil
  show "spent_usd (account_of a (replay_spend b [])) = sum_list (map (real_cost b) (filter (\<lambda>c. c_agent c = a) []))"
    "avoided_usd (account_of a (replay_spend b [])) = sum_list (map (avoided_cost b) (filter (\<lambda>c. c_agent c = a) []))"
    by (simp_all add: replay_spend_def account_of_def fresh_account_def)
next
  case (snoc c cs)
  then show "spent_usd (account_of a (replay_spend b (cs @ [c]))) =
      sum_list (map (real_cost b) (filter (\<lambda>c. c_agent c = a) (cs @ [c])))"
    "avoided_usd (account_of a (replay_spend b (cs @ [c]))) =
      sum_list (map (avoided_cost b) (filter (\<lambda>c. c_agent c = a) (cs @ [c])))"
    by (auto simp: replay_spend_snoc account_of_charge Let_def real_cost_def[of b c] avoided_cost_def[of b c])
qed

text \<open>The day window: after a replay in time order it holds the real spend of its own day, and
  no real completion is later than it.\<close>

definition real_on :: "price_book \<Rightarrow> string \<Rightarrow> int \<Rightarrow> completion list \<Rightarrow> real" where
  "real_on b a d cs = sum_list (map (real_cost b) (filter (\<lambda>c. c_agent c = a \<and> day_bucket (c_now c) = d) cs))"

lemma real_on_snoc:
  "real_on b a d (cs @ [c]) = real_on b a d cs
     + (if c_agent c = a \<and> day_bucket (c_now c) = d then real_cost b c else 0)"
  by (simp add: real_on_def)

lemma real_on_later:
  assumes "\<forall>c \<in> set cs. c_now c \<le> now" "day_bucket now < d" shows "real_on b a d cs = 0"
proof -
  have "\<forall>c \<in> set cs. day_bucket (c_now c) \<noteq> d"
    using assms day_bucket_mono[of _ now] by fastforce
  then have "filter (\<lambda>c. c_agent c = a \<and> day_bucket (c_now c) = d) cs = []"
    by (auto simp: filter_empty_conv)
  then show ?thesis by (simp add: real_on_def)
qed

definition day_inv :: "price_book \<Rightarrow> string \<Rightarrow> completion list \<Rightarrow> agent_spend \<Rightarrow> bool" where
  "day_inv b a cs acc \<longleftrightarrow>
     day_spent_usd acc = real_on b a (as_day acc) cs \<and>
     (\<forall>d > as_day acc. real_on b a d cs = 0) \<and>
     (\<forall>now. 0 \<le> now \<and> (\<forall>c \<in> set cs. c_now c \<le> now) \<longrightarrow> as_day acc \<le> day_bucket now)"

lemma day_inv_today:
  assumes "day_inv b a cs acc" "0 \<le> now" "\<forall>c \<in> set cs. c_now c \<le> now"
  shows "(if as_day acc = day_bucket now then day_spent_usd acc else 0) = real_on b a (day_bucket now) cs"
proof -
  have "as_day acc \<le> day_bucket now" using assms unfolding day_inv_def by blast
  then show ?thesis using assms(1) unfolding day_inv_def by auto
qed

lemma day_inv_real:
  assumes inv: "day_inv b a cs acc" and t: "0 \<le> c_now c" "\<forall>x \<in> set cs. c_now x \<le> c_now c"
    and c: "c_agent c = a" and same: "as_day acc' = as_day acc" "day_spent_usd acc' = day_spent_usd acc"
  shows "day_inv b a (cs @ [c]) (book_real ep (real_cost b c) (c_now c) acc')"
  using day_inv_today[OF inv t] real_on_later[OF t(2)] c same day_bucket_mono
  by (auto simp: day_inv_def real_on_snoc)

lemma day_inv_other:
  assumes "day_inv b a cs acc" "c_agent c \<noteq> a \<or> real_cost b c = 0"
    "as_day acc' = as_day acc" "day_spent_usd acc' = day_spent_usd acc"
  shows "day_inv b a (cs @ [c]) acc'"
  using assms by (auto simp: day_inv_def real_on_snoc)

lemma replay_day:
  assumes "sorted (map c_now cs)" "\<forall>c \<in> set cs. 0 \<le> c_now c"
  shows "day_inv b a cs (account_of a (replay_spend b cs))"
  using assms
proof (induction cs rule: rev_induct)
  case Nil
  then show ?case
    by (auto simp: replay_spend_def account_of_def fresh_account_def real_on_def day_inv_def day_bucket_def)
next
  case (snoc c cs)
  let ?acc = "account_of a (replay_spend b cs)"
  have IH: "day_inv b a cs ?acc" and t: "0 \<le> c_now c" "\<forall>x \<in> set cs. c_now x \<le> c_now c"
    using snoc by (auto simp: sorted_append)
  show ?case
  proof (cases "c_agent c = a \<and> price_real (pb_price b (c_endpoint c))")
    case True
    then have "real_cost b c = price_cost_usd (pb_price b (c_endpoint c)) (c_in c) (c_out c)"
      by (simp add: real_cost_def)
    with True show ?thesis
      using day_inv_real[OF IH t, of "?acc\<lparr>as_tokens_in := as_tokens_in ?acc + max 0 (c_in c),
          as_tokens_out := as_tokens_out ?acc + max 0 (c_out c), as_requests := as_requests ?acc + 1\<rparr>" "c_endpoint c"]
      by (simp add: replay_spend_snoc account_of_charge Let_def)
  next
    case False
    then have "c_agent c \<noteq> a \<or> real_cost b c = 0" by (auto simp: real_cost_def)
    then show ?thesis
      by (rule day_inv_other[OF IH]) (use False in \<open>auto simp: replay_spend_snoc account_of_charge Let_def\<close>)
  qed
qed

subsection \<open>Properties\<close>

text \<open>The number a daily cap is compared with. Replaying any log of completions in time
  order under a fixed price book, a caller's spend today is exactly the sum of the costs of its
  own completions of the current UTC day on endpoints whose price is real money: imputed prices,
  other callers and other days contribute nothing, and a cap crossed yesterday is over today.\<close>

lemma spent_today_exact:
  assumes "sorted (map c_now cs)" "\<forall>c \<in> set cs. 0 \<le> c_now c \<and> c_now c \<le> now" "0 \<le> now"
  shows "spent_today a now (replay_spend b cs) =
    sum_list (map (real_cost b) (filter (\<lambda>c. c_agent c = a \<and> day_bucket (c_now c) = day_bucket now) cs))"
proof -
  have "day_inv b a cs (account_of a (replay_spend b cs))"
    using replay_day assms by blast
  from day_inv_today[OF this assms(3)] assms(2) show ?thesis
    by (simp add: spent_today_account real_on_def)
qed

definition demo_book :: price_book where
  "demo_book = pb_declare ''paid'' \<lparr>input_usd_per_mtok = 2, output_usd_per_mtok = 4,
     price_source = SOURCE_CONFIG, price_detail = ''''\<rparr> empty_book"

definition demo_completions :: "completion list" where
  "demo_completions =
     [\<lparr>c_agent = ''a'', c_endpoint = ''paid'', c_in = 1000000, c_out = 0, c_now = 86000\<rparr>,
      \<lparr>c_agent = ''a'', c_endpoint = ''paid'', c_in = 0, c_out = 500000, c_now = 87000\<rparr>,
      \<lparr>c_agent = ''a'', c_endpoint = ''chat'', c_in = 1000000, c_out = 0, c_now = 87001\<rparr>]"

lemma spent_today_exact_witness:
  "spent_today ''a'' 90000 (replay_spend demo_book demo_completions) = 2"
  using spent_today_exact[of demo_completions 90000 "''a''" demo_book]
  by (simp add: demo_completions_def demo_book_def empty_book_def pb_declare_def real_cost_def
      pb_price_def py_strip_def py_isspace_def price_real_def price_cost_usd_def day_bucket_def
      floor_eq_iff Let_def imputed_price_def case_prod_unfold)

text \<open>Two kinds of money that never mix. For every log of completions, a caller's lifetime
  spend is the sum of the real costs alone, its avoided cost the sum of the imputed ones alone,
  and the per-endpoint breakdown sums to the lifetime spend.\<close>

lemma real_and_avoided_never_mix:
  "spent_usd (account_of a (replay_spend b cs)) =
     sum_list (map (real_cost b) (filter (\<lambda>c. c_agent c = a) cs)) \<and>
   avoided_usd (account_of a (replay_spend b cs)) =
     sum_list (map (avoided_cost b) (filter (\<lambda>c. c_agent c = a) cs)) \<and>
   sum_list (od_vals (by_endpoint (account_of a (replay_spend b cs)))) =
     spent_usd (account_of a (replay_spend b cs))"
proof -
  have "spend_ok (replay_spend b cs)"
    unfolding replay_spend_def by (rule ledger.run_ok) (simp_all add: spend_ok_def list_all_iff)
  then have "account_ok (account_of a (replay_spend b cs))"
    using spend_ok_get by (simp add: account_of_def)
  then show ?thesis using replay_totals[of a b cs] by (simp add: account_ok_def)
qed

text \<open>An operator's declaration wins. After declaring a price for an endpoint, no later
  discovery for any endpoint changes the price charged for it, and half a declaration is a whole
  one: a config with either half set prices as real money with the other half zero.\<close>

lemma declared_price_wins:
  assumes "declared_price ep c = Some p" and "py_strip ep = ep"
  shows "pb_price (foldl (\<lambda>b (e, q). pb_observe e q b) (pb_declare ep p b0) obs) ep = p \<and> price_real p \<and>
         input_usd_per_mtok p = (case ep_input_usd c of Some x \<Rightarrow> x | None \<Rightarrow> 0) \<and>
         output_usd_per_mtok p = (case ep_output_usd c of Some x \<Rightarrow> x | None \<Rightarrow> 0)"
proof -
  have "pb_declared (foldl (\<lambda>b (e, q). pb_observe e q b) b1 obs) = pb_declared b1" for b1
    by (induction obs arbitrary: b1) (auto simp: pb_observe_def)
  then have "pb_price (foldl (\<lambda>b (e, q). pb_observe e q b) (pb_declare ep p b0) obs) ep = p"
    by (simp add: pb_price_def pb_declare_def assms(2))
  then show ?thesis using assms(1) by (auto simp: declared_price_def price_real_def split: if_splits)
qed

lemma declared_price_wins_witness:
  "\<exists>p. declared_price ''paid'' (demo_endpoint ''paid'' 4\<lparr>ep_input_usd := Some 3\<rparr>) = Some p \<and>
       price_real (pb_price (foldl (\<lambda>b (e, q). pb_observe e q b) (pb_declare ''paid'' p empty_book)
         [(''paid'', imputed_price ''paid'')]) ''paid'') \<and> output_usd_per_mtok p = 0"
proof -
  obtain p where p: "declared_price ''paid'' (demo_endpoint ''paid'' 4\<lparr>ep_input_usd := Some 3\<rparr>) = Some p"
    by (simp add: declared_price_def)
  have "py_strip ''paid'' = ''paid''" by (simp add: py_strip_def py_isspace_def)
  from declared_price_wins[OF p this, of empty_book "[(''paid'', imputed_price ''paid'')]"] p
  show ?thesis by (auto simp: demo_endpoint_def)
qed

text \<open>The ledger prices the per-unit capabilities at zero. For a speech-to-text completion
  the avoided-cost model \<^const>\<open>cloud_cost_usd\<close> reports a positive cost, while the amount the
  ledger adds to the caller's avoided cost is zero, because the price book falls back to the
  token rate alone.\<close>

lemma avoided_misses_audio:
  "cloud_cost_usd ''stt'' 360000 0 = 111 / 1000 \<and>
   avoided_usd (account_of ''a'' (replay_spend empty_book
     [\<lparr>c_agent = ''a'', c_endpoint = ''stt'', c_in = 360000, c_out = 0, c_now = 0\<rparr>])) = 0"
proof -
  have cap: "capability ''stt'' = Some ''stt''"
    by (simp add: capability_def endpoint_rate_class_def py_strip_def py_isspace_def py_lower_def
        lower_char_def od_get_or_def)
  have "cloud_cost_usd ''stt'' 360000 0 = 111 / 1000"
    by (simp add: cloud_cost_usd_def cap rates_by_class_def audio_hour_rate_def hours_per_input_token_def)
  moreover have "cloud_rate ''stt'' = (0, 0)"
    by (simp add: cloud_rate_def cap rates_by_class_def)
  ultimately show ?thesis
    by (simp add: replay_totals avoided_cost_def empty_book_def pb_price_def
        imputed_price_def price_cost_usd_def py_strip_def py_isspace_def Let_def)
qed

end
