(* ===== verification/Standing.thy ===== *)
theory Standing
  imports Spend
begin

section \<open>Thresholds joined with the ledgers (state.py)\<close>

text \<open>
  The part of \<^verbatim>\<open>ProxyState\<close> that turns the two ledgers and the caller's configuration into
  a decision: the spend and the rate standing, whether paid spill is allowed, the band a caller
  actually gets, and the once-a-day notices. Every operation reads the clock; the model passes
  the reading in as \<open>now\<close>, one reading per operation. Reading a rate trims the window, so the
  reads return the state as well.
\<close>

record standing_state =
  st_config :: proxy_config
  st_spend :: spend_ledger
  st_rate :: rate_ledger
  spend_demotion_noted :: "(string, int) odict"
  rate_demotion_noted :: "(string, int) odict"

definition spend_standing_at :: "string \<Rightarrow> real \<Rightarrow> standing_state \<Rightarrow> spend_standing" where
  "spend_standing_at aid now s =
     spend_standing_of (st_spend s) aid (daily_spend_usd (agent_config (st_config s) aid)) now"

definition rate_standing_at :: "string \<Rightarrow> real \<Rightarrow> standing_state \<Rightarrow> standing_state \<times> rate_standing" where
  "rate_standing_at aid now s =
     (let (l, st) = rate_standing_of (st_rate s) aid (requests_per_minute (agent_config (st_config s) aid)) now
      in (s\<lparr>st_rate := l\<rparr>, st))"

definition record_request :: "string \<Rightarrow> real \<Rightarrow> standing_state \<Rightarrow> standing_state" where
  "record_request aid now s = s\<lparr>st_rate := rate_record aid now (st_rate s)\<rparr>"

definition prune_rate_state :: "real \<Rightarrow> standing_state \<Rightarrow> standing_state \<times> nat" where
  "prune_rate_state now s =
     (let (l, dropped) = rate_prune now (st_rate s);
          s1 = s\<lparr>st_rate := l\<rparr>
      in (if dropped \<noteq> 0
          then s1\<lparr>rate_demotion_noted :=
                   fold od_del (filter (\<lambda>a. a \<notin> fst ` set (windows l)) (od_keys (rate_demotion_noted s1)))
                     (rate_demotion_noted s1)\<rparr>
          else s1, dropped))"

text \<open>\<^verbatim>\<open>and\<close> does not evaluate its right operand, and so does not trim, when the left is false.\<close>

definition spend_may_spill :: "string \<Rightarrow> real \<Rightarrow> standing_state \<Rightarrow> standing_state \<times> bool" where
  "spend_may_spill aid now s =
     (if \<not> spend_may_spill_st (spend_standing_at aid now s) then (s, False)
      else let (s1, r) = rate_standing_at aid now s in (s1, rate_may_spill r))"

definition effective_priority ::
  "string \<Rightarrow> llm_priority \<Rightarrow> real \<Rightarrow> standing_state \<Rightarrow> standing_state \<times> llm_priority" where
  "effective_priority aid declared now s =
     (let spend_st = spend_standing_at aid now s in
      if spend_over spend_st then (s, spend_effective_priority spend_st declared)
      else let (s1, rate_st) = rate_standing_at aid now s in
        if rate_over rate_st then (s1, rate_effective_priority rate_st declared)
        else (s1, declared))"

text \<open>What \<^verbatim>\<open>hooks.degradation\<close> is told, by component.\<close>

datatype notice =
    SpendNotice string real "real option" llm_priority llm_priority
  | RateNotice string real "real option" llm_priority llm_priority

definition spend_demote ::
  "string \<Rightarrow> llm_priority \<Rightarrow> real \<Rightarrow> standing_state \<Rightarrow> standing_state \<times> llm_priority \<times> notice list" where
  "spend_demote aid declared now s =
     (let spend_st = spend_standing_at aid now s;
          (s1, rate_st) = rate_standing_at aid now s;
          (s2, effective) = effective_priority aid declared now s1
      in if effective = declared then (s2, declared, [])
         else
           let today = day_bucket now;
               (s3, n1) =
                 (if spend_over spend_st \<and> od_get (spend_demotion_noted s2) aid \<noteq> Some today
                  then (s2\<lparr>spend_demotion_noted := od_put aid today (spend_demotion_noted s2)\<rparr>,
                        [SpendNotice aid (py_round (spent_today_usd spend_st) 6) (cap_usd spend_st) declared effective])
                  else (s2, []));
               (s4, n2) =
                 (if rate_over rate_st \<and> od_get (rate_demotion_noted s3) aid \<noteq> Some today
                  then (s3\<lparr>rate_demotion_noted := od_put aid today (rate_demotion_noted s3)\<rparr>,
                        [RateNotice aid (py_round (observed_per_min rate_st) 2) (limit_per_min rate_st) declared effective])
                  else (s3, []))
           in (s4, effective, n1 @ n2))"

subsection \<open>Lemmas\<close>

lemma trim_idem [simp]: "trim now (trim now w) = trim now w"
  by (simp add: trim_def)

lemma observed_window:
  "od_get_or [] (windows (fst (observed b now l))) a =
     (if a = b then trim now (od_get_or [] (windows l) b) else od_get_or [] (windows l) a)"
  by (cases "od_get (windows l) b")
    (auto simp: observed_def Let_def od_get_or_def trim_def)

lemma observed_again [simp]: "snd (observed a now (fst (observed b now l))) = snd (observed a now l)"
  by (simp add: observed_get_or observed_window)

lemma observed_keys [simp]: "fst ` set (windows (fst (observed b now l))) = fst ` set (windows l)"
  by (cases "od_get (windows l) b") (auto simp: observed_def Let_def dest: od_get_Some_in intro: rev_image_eqI)

lemma observed_pos_key: "0 < snd (observed a now l) \<Longrightarrow> a \<in> fst ` set (windows l)"
  by (cases "od_get (windows l) a") (auto simp: observed_def dest: od_get_Some_in intro: rev_image_eqI)

lemma rate_standing_value:
  "snd (rate_standing_at a now s) =
     \<lparr>rs_agent_id = a, observed_per_min = snd (observed a now (st_rate s)),
      limit_per_min = requests_per_minute (agent_config (st_config s) a)\<rparr>"
  by (simp add: rate_standing_at_def rate_standing_of_def case_prod_unfold Let_def)

lemma rate_standing_state:
  "fst (rate_standing_at a now s) = s\<lparr>st_rate := fst (observed a now (st_rate s))\<rparr>"
  by (simp add: rate_standing_at_def rate_standing_of_def case_prod_unfold Let_def)

lemma spend_standing_rate [simp]:
  "spend_standing_at a now (s\<lparr>st_rate := l\<rparr>) = spend_standing_at a now s"
  by (simp add: spend_standing_at_def)

text \<open>Whether a caller is over at least one of its thresholds.\<close>

definition over_any :: "string \<Rightarrow> real \<Rightarrow> standing_state \<Rightarrow> bool" where
  "over_any a now s =
     (spend_over (spend_standing_at a now s) \<or> rate_over (snd (rate_standing_at a now s)))"

lemma effective_priority_value:
  "snd (effective_priority a p now s) = (if over_any a now s then one_step_down p else p)"
  by (simp add: effective_priority_def over_any_def spend_effective_priority_def
      rate_effective_priority_def case_prod_unfold Let_def)

lemma effective_priority_state:
  "fst (effective_priority a p now s) = s \<or>
   fst (effective_priority a p now s) = s\<lparr>st_rate := fst (observed a now (st_rate s))\<rparr>"
  by (simp add: effective_priority_def rate_standing_state case_prod_unfold Let_def)

lemma standing_reads_frame [simp]:
  "spend_demotion_noted (fst (rate_standing_at a now s)) = spend_demotion_noted s"
  "rate_demotion_noted (fst (rate_standing_at a now s)) = rate_demotion_noted s"
  "spend_demotion_noted (fst (effective_priority a p now s)) = spend_demotion_noted s"
  "rate_demotion_noted (fst (effective_priority a p now s)) = rate_demotion_noted s"
  using effective_priority_state[of a p now s] by (auto simp: rate_standing_state)

lemma over_any_after_read [simp]: "over_any a now (fst (rate_standing_at b now s)) = over_any a now s"
  by (simp add: over_any_def rate_standing_value rate_standing_state)

lemma spend_may_spill_value: "snd (spend_may_spill a now s) = (\<not> over_any a now s)"
  by (simp add: spend_may_spill_def over_any_def rate.spill_iff spend.spill_iff case_prod_unfold Let_def)

lemma spend_demote_value:
  "fst (snd (spend_demote a p now s)) = (if over_any a now s then one_step_down p else p)"
  by (simp add: spend_demote_def effective_priority_value case_prod_unfold Let_def)

lemma one_step_down_iff: "one_step_down p = p \<longleftrightarrow> p = P4_HYGIENE"
  by (cases p) (simp_all add: one_step_down_def coerce_def)

text \<open>Where a demotion leaves the notebooks, and what it reports.\<close>

definition note_if :: "bool \<Rightarrow> string \<Rightarrow> int \<Rightarrow> (string, int) odict \<Rightarrow> (string, int) odict" where
  "note_if b a today noted = (if b \<and> od_get noted a \<noteq> Some today then od_put a today noted else noted)"

definition report_if :: "bool \<Rightarrow> string \<Rightarrow> int \<Rightarrow> (string, int) odict \<Rightarrow> notice \<Rightarrow> notice list" where
  "report_if b a today noted n = (if b \<and> od_get noted a \<noteq> Some today then [n] else [])"

lemma spend_demote_eq:
  fixes s :: standing_state and a p now
  defines "s2 \<equiv> fst (effective_priority a p now (fst (rate_standing_at a now s)))"
    and "st \<equiv> spend_standing_at a now s" and "rt \<equiv> snd (rate_standing_at a now s)"
  shows "spend_demote a p now s =
    (s2\<lparr>spend_demotion_noted := note_if (spend_over st \<and> p \<noteq> P4_HYGIENE) a (day_bucket now) (spend_demotion_noted s),
        rate_demotion_noted := note_if (rate_over rt \<and> p \<noteq> P4_HYGIENE) a (day_bucket now) (rate_demotion_noted s)\<rparr>,
     if over_any a now s then one_step_down p else p,
     report_if (spend_over st \<and> p \<noteq> P4_HYGIENE) a (day_bucket now) (spend_demotion_noted s)
       (SpendNotice a (py_round (spent_today_usd st) 6) (cap_usd st) p (one_step_down p)) @
     report_if (rate_over rt \<and> p \<noteq> P4_HYGIENE) a (day_bucket now) (rate_demotion_noted s)
       (RateNotice a (py_round (observed_per_min rt) 2) (limit_per_min rt) p (one_step_down p)))"
proof -
  have s2: "spend_demotion_noted s2 = spend_demotion_noted s" "rate_demotion_noted s2 = rate_demotion_noted s"
    by (simp_all add: s2_def)
  have keep: "s2\<lparr>spend_demotion_noted := spend_demotion_noted s, rate_demotion_noted := rate_demotion_noted s\<rparr> = s2"
    using s2 by (cases s2) simp
  have eff: "effective_priority a p now (fst (rate_standing_at a now s)) =
      (s2, if over_any a now s then one_step_down p else p)"
    by (simp add: s2_def prod_eq_iff effective_priority_value)
  have over: "over_any a now s = (spend_over st \<or> rate_over rt)"
    by (simp add: over_any_def st_def rt_def)
  have rs: "rate_standing_at a now s = (fst (rate_standing_at a now s), rt)"
    by (simp add: rt_def)
  show ?thesis
    unfolding spend_demote_def st_def[symmetric] Let_def
    by (subst rs, simp only: prod.case eff over)
      (cases "spend_over st"; cases "rate_over rt"; cases "p = P4_HYGIENE";
        simp add: note_if_def report_if_def one_step_down_iff one_step_down_iff[THEN iffD2] s2 keep)
qed

lemma standing_after_reads:
  fixes s :: standing_state and a p now
  defines "s2 \<equiv> fst (effective_priority a p now (fst (rate_standing_at a now s)))"
  shows "st_config s2 = st_config s" "st_spend s2 = st_spend s"
    "fst ` set (windows (st_rate s2)) = fst ` set (windows (st_rate s))"
  unfolding s2_def
  by (rule disjE[OF effective_priority_state[of a p now "fst (rate_standing_at a now s)"]];
      simp add: rate_standing_state)+

lemma spend_demote_frame:
  "st_config (fst (spend_demote a p now s)) = st_config s"
  "st_spend (fst (spend_demote a p now s)) = st_spend s"
  "fst ` set (windows (st_rate (fst (spend_demote a p now s)))) = fst ` set (windows (st_rate s))"
  using standing_after_reads[of a p now s] by (simp_all add: spend_demote_eq note_if_def report_if_def)

lemma spend_demote_notes:
  "spend_demotion_noted (fst (spend_demote a p now s)) =
     (if spend_over (spend_standing_at a now s) \<and> p \<noteq> P4_HYGIENE
         \<and> od_get (spend_demotion_noted s) a \<noteq> Some (day_bucket now)
      then od_put a (day_bucket now) (spend_demotion_noted s) else spend_demotion_noted s)"
  "rate_demotion_noted (fst (spend_demote a p now s)) =
     (if rate_over (snd (rate_standing_at a now s)) \<and> p \<noteq> P4_HYGIENE
         \<and> od_get (rate_demotion_noted s) a \<noteq> Some (day_bucket now)
      then od_put a (day_bucket now) (rate_demotion_noted s) else rate_demotion_noted s)"
  by (simp_all add: spend_demote_eq note_if_def report_if_def)

fun is_spend_notice :: "string \<Rightarrow> notice \<Rightarrow> bool" where
  "is_spend_notice a (SpendNotice b _ _ _ _) = (a = b)"
| "is_spend_notice a (RateNotice _ _ _ _ _) = False"

fun is_rate_notice :: "string \<Rightarrow> notice \<Rightarrow> bool" where
  "is_rate_notice a (RateNotice b _ _ _ _) = (a = b)"
| "is_rate_notice a (SpendNotice _ _ _ _ _) = False"

lemma spend_demote_reports:
  "length (filter (is_spend_notice b) (snd (snd (spend_demote a p now s)))) =
     (if a = b \<and> spend_over (spend_standing_at a now s) \<and> p \<noteq> P4_HYGIENE
         \<and> od_get (spend_demotion_noted s) a \<noteq> Some (day_bucket now) then 1 else 0)"
  "length (filter (is_rate_notice b) (snd (snd (spend_demote a p now s)))) =
     (if a = b \<and> rate_over (snd (rate_standing_at a now s)) \<and> p \<noteq> P4_HYGIENE
         \<and> od_get (rate_demotion_noted s) a \<noteq> Some (day_bucket now) then 1 else 0)"
  by (simp_all add: spend_demote_eq note_if_def report_if_def)

subsection \<open>Runs\<close>

datatype standing_op =
    OpRecord string real
  | OpDemote string llm_priority real
  | OpCharge string string int int real
  | OpMaySpill string real
  | OpPrune real

fun op_now :: "standing_op \<Rightarrow> real" where
  "op_now (OpRecord _ t) = t"
| "op_now (OpDemote _ _ t) = t"
| "op_now (OpCharge _ _ _ _ t) = t"
| "op_now (OpMaySpill _ t) = t"
| "op_now (OpPrune t) = t"

fun standing_step :: "standing_state \<Rightarrow> standing_op \<Rightarrow> standing_state \<times> notice list" where
  "standing_step s (OpRecord a t) = (record_request a t s, [])"
| "standing_step s (OpDemote a p t) = (let (s', _, ns) = spend_demote a p t s in (s', ns))"
| "standing_step s (OpCharge a ep ti tout t) =
     (s\<lparr>st_spend := fst (spend_charge a ep ti tout t 1 (st_spend s))\<rparr>, [])"
| "standing_step s (OpMaySpill a t) = (fst (spend_may_spill a t s), [])"
| "standing_step s (OpPrune t) = (fst (prune_rate_state t s), [])"

fun run_standing :: "standing_state \<Rightarrow> standing_op list \<Rightarrow> standing_state \<times> notice list" where
  "run_standing s [] = (s, [])"
| "run_standing s (e # es) =
     (let (s1, ns) = standing_step s e; (s2, ns2) = run_standing s1 es in (s2, ns @ ns2))"

lemma standing_step_noted:
  "(\<forall>p t. e \<noteq> OpDemote a p t) \<Longrightarrow>
     od_get (spend_demotion_noted (fst (standing_step s e))) a = od_get (spend_demotion_noted s) a \<and>
     filter (is_spend_notice a) (snd (standing_step s e)) = []"
proof (cases e)
  case (OpDemote b p t)
  assume "\<forall>p t. e \<noteq> OpDemote a p t"
  with OpDemote show ?thesis
    using spend_demote_notes(1)[of b p t s] spend_demote_reports(1)[of a b p t s]
    by (auto simp: case_prod_unfold Let_def)
qed (auto simp: record_request_def spend_may_spill_def rate_standing_state prune_rate_state_def
    case_prod_unfold Let_def)

lemma standing_run_spend_notices:
  assumes "\<forall>e \<in> set es. day_bucket (op_now e) = d"
  shows "length (filter (is_spend_notice a) (snd (run_standing s es)))
           \<le> (if od_get (spend_demotion_noted s) a = Some d then 0 else 1)"
  using assms
proof (induction es arbitrary: s)
  case (Cons e es)
  let ?s1 = "fst (standing_step s e)"
  have IH: "length (filter (is_spend_notice a) (snd (run_standing ?s1 es)))
      \<le> (if od_get (spend_demotion_noted ?s1) a = Some d then 0 else 1)"
    using Cons by simp
  have split: "length (filter (is_spend_notice a) (snd (run_standing s (e # es)))) =
      length (filter (is_spend_notice a) (snd (standing_step s e))) +
      length (filter (is_spend_notice a) (snd (run_standing ?s1 es)))"
    by (simp add: case_prod_unfold Let_def)
  show ?case
  proof (cases "\<exists>p t. e = OpDemote a p t")
    case True
    then obtain p t where e: "e = OpDemote a p t" by blast
    have "day_bucket t = d" using Cons.prems e by auto
    then show ?thesis
      using IH split spend_demote_notes(1)[of a p t s] spend_demote_reports(1)[of a a p t s]
      by (auto simp: e case_prod_unfold Let_def split: if_splits)
  next
    case False
    then show ?thesis using IH split standing_step_noted[of e a s] by auto
  qed
qed simp

subsection \<open>What pruning bounds\<close>

lemma fold_od_del_keys: "fst ` set (fold od_del ks d) = fst ` set d - set ks"
  by (induction ks arbitrary: d) auto

lemma fold_od_del_get: "od_get (fold od_del ks d) k = (if k \<in> set ks then None else od_get d k)"
  by (induction ks arbitrary: d) auto

lemma rate_prune_keys:
  "fst ` set (windows (fst (rate_prune now l))) =
     {a \<in> fst ` set (windows l). \<exists>w. (a, w) \<in> set (windows l) \<and> trim now w \<noteq> [] \<and> (\<forall>w'. (a, w') \<in> set (windows l) \<longrightarrow> trim now w' \<noteq> [])}"
  by (auto simp: rate_prune_def Let_def fold_od_del_keys image_iff) force+

lemma rate_prune_zero:
  "snd (rate_prune now l) = 0 \<Longrightarrow> fst ` set (windows (fst (rate_prune now l))) = fst ` set (windows l)"
  by (auto simp: rate_prune_def Let_def fold_od_del_keys image_iff filter_empty_conv) force+

definition noted_live :: "standing_state \<Rightarrow> bool" where
  "noted_live s = (od_ok (rate_demotion_noted s) \<and>
     fst ` set (rate_demotion_noted s) \<subseteq> fst ` set (windows (st_rate s)))"

definition limits_nonneg :: "proxy_config \<Rightarrow> bool" where
  "limits_nonneg c = (\<forall>a. case requests_per_minute (agent_config c a) of None \<Rightarrow> True | Some r \<Rightarrow> 0 \<le> r)"

lemma rate_over_live:
  assumes "limits_nonneg (st_config s)" "rate_over (snd (rate_standing_at a now s))"
  shows "a \<in> fst ` set (windows (st_rate s))"
proof -
  have "0 < snd (observed a now (st_rate s))"
    using assms spec[OF assms(1)[unfolded limits_nonneg_def], of a]
    by (auto simp: rate_over_def rate_standing_value split: option.splits)
  then show ?thesis by (rule observed_pos_key)
qed

lemma rate_prune_ok: "od_ok (windows l) \<Longrightarrow> od_ok (windows (fst (rate_prune now l)))"
proof -
  have "od_ok d \<Longrightarrow> od_ok (fold od_del ks d)" for ks and d :: "(string, real list) odict"
    by (induction ks arbitrary: d) auto
  then show "od_ok (windows l) \<Longrightarrow> ?thesis"
    by (simp add: rate_prune_def Let_def case_prod_unfold comp_def)
qed

lemma fold_od_del_ok: "od_ok d \<Longrightarrow> od_ok (fold od_del ks d)"
  by (induction ks arbitrary: d) auto

lemma prune_rate_state_windows: "st_rate (fst (prune_rate_state now s)) = fst (rate_prune now (st_rate s))"
  by (simp add: prune_rate_state_def Let_def case_prod_unfold)

lemma prune_rate_state_live: "noted_live s \<Longrightarrow> noted_live (fst (prune_rate_state now s))"
  using rate_prune_zero[of now "st_rate s"]
  by (auto simp: noted_live_def prune_rate_state_def Let_def case_prod_unfold fold_od_del_keys
      fold_od_del_ok)

text \<open>What the run invariant is: the notebook of rate notices names only callers that still have
  a window, and the configuration's thresholds are not negative.\<close>

definition standing_ok :: "standing_state \<Rightarrow> bool" where
  "standing_ok s = (noted_live s \<and> limits_nonneg (st_config s))"

lemma standing_step_ok [step_keeps]:
  assumes "standing_ok s" shows "standing_ok (fst (standing_step s e))"
proof (cases e)
  case (OpDemote a p t)
  have "rate_over (snd (rate_standing_at a t s)) \<Longrightarrow> a \<in> fst ` set (windows (st_rate s))"
    using assms rate_over_live by (simp add: standing_ok_def)
  then show ?thesis
    using assms spend_demote_frame[of a p t s] spend_demote_notes(2)[of a p t s]
    by (simp add: OpDemote standing_ok_def noted_live_def case_prod_unfold Let_def)
next
  case (OpPrune t)
  have "st_config (fst (prune_rate_state t s)) = st_config s"
    by (simp add: prune_rate_state_def Let_def case_prod_unfold)
  then show ?thesis using assms prune_rate_state_live by (simp add: OpPrune standing_ok_def)
next
  case (OpRecord a t)
  then show ?thesis using assms
    by (auto simp: standing_ok_def noted_live_def record_request_def rate_record_def Let_def)
next
  case (OpMaySpill a t)
  then show ?thesis using assms
    by (simp add: standing_ok_def noted_live_def spend_may_spill_def rate_standing_state
        case_prod_unfold Let_def)
next
  case (OpCharge a ep ti tout t)
  then show ?thesis using assms by (simp add: standing_ok_def noted_live_def)
qed

interpretation thresholds: event_system "\<lambda>s e. fst (standing_step s e)" standing_ok "\<lambda>_. True"
  by unfold_locales (rule standing_step_ok)

lemma run_standing_fst: "fst (run_standing s es) = foldl (\<lambda>s e. fst (standing_step s e)) s es"
  by (induction es arbitrary: s) (simp_all add: case_prod_unfold Let_def)

subsection \<open>Properties\<close>

text \<open>Crossing thresholds never stacks and never refuses. In every state and for every caller
  the band \<^const>\<open>spend_demote\<close> answers is the declared one when neither threshold is crossed and
  exactly one step down, floored at the lowest, when one or both are; it is the answer the
  read-only \<^const>\<open>effective_priority\<close> gives, it is never a promotion, and paid spill is allowed
  exactly when neither is crossed.\<close>

lemma demotion_never_stacks:
  "prio_int (fst (snd (spend_demote a p now s))) =
     (if over_any a now s then min (prio_int p + 1) 4 else prio_int p) \<and>
   fst (snd (spend_demote a p now s)) = snd (effective_priority a p now s) \<and>
   p \<le> fst (snd (spend_demote a p now s)) \<and>
   (snd (spend_may_spill a now s) \<longleftrightarrow>
      \<not> spend_over (spend_standing_at a now s) \<and> \<not> rate_over (snd (rate_standing_at a now s)))"
  using prio_int_bounds[of p]
  by (simp add: spend_demote_value effective_priority_value spend_may_spill_value
      less_eq_llm_priority_def over_any_def)

definition demo_standing :: standing_state where
  "demo_standing =
     \<lparr>st_config = \<lparr>endpoints = [], agents = [(''a'', (default_quota ''a'')\<lparr>daily_spend_usd := Some 0\<rparr>)],
                   cfg_starvation_timeout_s = 300\<rparr>,
      st_spend = \<lparr>sl_prices = empty_book, sl_agents = []\<rparr>, st_rate = \<lparr>windows = []\<rparr>,
      spend_demotion_noted = [], rate_demotion_noted = []\<rparr>"

lemma demo_standing_over: "spend_over (spend_standing_at ''a'' now demo_standing)"
  by (simp add: demo_standing_def spend_over_def spend_standing_at_def spend_standing_of_def
      agent_config_def od_get_or_def spent_today_def default_quota_def)

text \<open>A crossing is reported at most once a day. Within one UTC day, whatever sequence of
  requests, charges, demotions, spill checks and prunings the proxy performs, at most one spend
  notice is issued for a caller, and none when one was noted before.\<close>

lemma spend_notice_once_a_day:
  assumes "\<forall>e \<in> set es. day_bucket (op_now e) = d"
  shows "length (filter (is_spend_notice a) (snd (run_standing s es)))
           \<le> (if od_get (spend_demotion_noted s) a = Some d then 0 else 1)"
  using assms by (rule standing_run_spend_notices)

lemma spend_notice_once_a_day_witness:
  "length (filter (is_spend_notice ''a'') (snd (run_standing demo_standing
     [OpDemote ''a'' P0_REALTIME 5, OpPrune 6, OpDemote ''a'' P0_REALTIME 7]))) = 1"
proof -
  let ?es = "[OpPrune 6, OpDemote ''a'' P0_REALTIME 7]"
  let ?s = "fst (spend_demote ''a'' P0_REALTIME 5 demo_standing)"
  have "od_get (spend_demotion_noted ?s) ''a'' = Some 0"
    using spend_demote_notes(1)[of "''a''" P0_REALTIME 5 demo_standing] demo_standing_over[of 5]
    by (simp add: demo_standing_def day_bucket_def)
  then have "length (filter (is_spend_notice ''a'') (snd (run_standing ?s ?es))) = 0"
    using spend_notice_once_a_day[of ?es 0 "''a''" ?s] by (simp add: day_bucket_def)
  moreover have "length (filter (is_spend_notice ''a'') (snd (snd (spend_demote ''a'' P0_REALTIME 5 demo_standing)))) = 1"
    using demo_standing_over[of 5] by (simp add: spend_demote_reports(1)) (simp add: demo_standing_def)
  ultimately show ?thesis by (simp add: case_prod_unfold Let_def)
qed

text \<open>The memory the rate threshold keeps is bounded by live traffic. In every state reached
  from a fresh start by requests, charges, demotions, spill checks and prunings, a pruning leaves
  exactly the callers with a request inside the trimmed window, and the notebook of rate notices
  names no caller outside them.\<close>

lemma prune_bounds_memory:
  assumes "limits_nonneg (st_config s0)" "rate_demotion_noted s0 = []"
    and "s = fst (run_standing s0 es)"
  shows "fst ` set (rate_demotion_noted (fst (prune_rate_state now s)))
           \<subseteq> fst ` set (windows (st_rate (fst (prune_rate_state now s)))) \<and>
         (\<forall>(a, w) \<in> set (windows (st_rate s)).
            a \<in> fst ` set (windows (st_rate (fst (prune_rate_state now s)))) \<longrightarrow> trim now w \<noteq> [])"
proof -
  have "standing_ok s0" using assms by (simp add: standing_ok_def noted_live_def)
  then have "standing_ok s"
    unfolding assms(3) run_standing_fst by (rule thresholds.run_ok) (simp add: list_all_iff)
  then have "noted_live (fst (prune_rate_state now s))"
    using prune_rate_state_live by (simp add: standing_ok_def)
  then show ?thesis
    by (auto simp: noted_live_def prune_rate_state_windows rate_prune_keys)
qed

lemma prune_bounds_memory_witness:
  "fst ` set (rate_demotion_noted (fst (prune_rate_state 100
      (fst (run_standing demo_standing [OpRecord ''a'' 1, OpRecord ''b'' 90])))))
     \<subseteq> fst ` set (windows (st_rate (fst (prune_rate_state 100
      (fst (run_standing demo_standing [OpRecord ''a'' 1, OpRecord ''b'' 90]))))))"
proof -
  have "limits_nonneg (st_config demo_standing)"
    by (simp add: limits_nonneg_def demo_standing_def agent_config_def od_get_or_def default_quota_def)
  moreover have "rate_demotion_noted demo_standing = []" by (simp add: demo_standing_def)
  ultimately show ?thesis using prune_bounds_memory[OF _ _ refl] by blast
qed

text \<open>A caller already at the lowest priority crosses its thresholds silently: for a
  declaration of \<^const>\<open>P4_HYGIENE\<close> no notice is ever issued and no notebook is touched, although
  an over-threshold caller has just lost paid spill.\<close>

lemma lowest_priority_crosses_silently:
  "snd (snd (spend_demote a P4_HYGIENE now s)) = [] \<and>
   spend_demotion_noted (fst (spend_demote a P4_HYGIENE now s)) = spend_demotion_noted s \<and>
   (over_any a now s \<longleftrightarrow> \<not> snd (spend_may_spill a now s))"
proof -
  have "one_step_down P4_HYGIENE = P4_HYGIENE" by (simp add: one_step_down_iff)
  then show ?thesis
    by (simp add: spend_demote_notes spend_may_spill_value)
      (simp add: spend_demote_def effective_priority_value case_prod_unfold Let_def)
qed

end
