(* ===== verification/Timeout_Model.thy ===== *)
theory Timeout_Model
  imports Config
begin

section \<open>Empirical timeout advice (timeout_model.py)\<close>

text \<open>
  The cells of measured latencies, the fallback ladder, the monotonicity guard over the lattice of
  size buckets, the decode-rate floor, the size stretch, the load surge and the ceilings. The memo
  of \<^verbatim>\<open>_collect\<close> results inside one \<^verbatim>\<open>advise\<close> call is not modelled: it returns what
  \<^verbatim>\<open>_collect\<close> would. The catalog's alias table is the argument \<open>rc\<close>.
\<close>

subsection \<open>Floors and ceilings\<close>

definition floor_s_table :: "(string, real) odict" where
  "floor_s_table = [(''tier3'', 180), (''tier2'', 120), (''tier1'', 60), (''embed'', 15), (''rerank'', 10)]"

definition default_floor_s :: real where "default_floor_s = 60"
definition interactive_ceiling_s :: real where "interactive_ceiling_s = 600"
definition background_ceiling_s :: real where "background_ceiling_s = 1800"
definition decode_floor_margin :: real where "decode_floor_margin = 125 / 100"

definition resolve_ceiling_s ::
  "(string, string) odict \<Rightarrow> string \<Rightarrow> bool \<Rightarrow> (string, real) odict \<Rightarrow> real \<Rightarrow> real \<Rightarrow> real \<Rightarrow> real" where
  "resolve_ceiling_s rc ep interactive role_ceilings floor_s interactive_s background_s =
     (let band = (if interactive then interactive_s else background_s);
          ceiling = (case od_get role_ceilings (normalize_endpoint rc ep) of
                       Some ov \<Rightarrow> (if ov > 0 then ov else band) | None \<Rightarrow> band)
      in max ceiling floor_s)"

definition decode_rate_floor_ms :: "int \<Rightarrow> real \<Rightarrow> real" where
  "decode_rate_floor_ms est_out decode_tok_s =
     (if decode_tok_s \<le> 0 \<or> est_out \<le> 0 then 0
      else min (of_int est_out / decode_tok_s * decode_floor_margin) background_ceiling_s * 1000)"

subsection \<open>Load and size\<close>

definition surge_factor :: "int \<Rightarrow> int \<Rightarrow> int \<Rightarrow> real \<Rightarrow> real \<Rightarrow> real" where
  "surge_factor in_flight queued n_slots k_load surge_max =
     (if n_slots \<le> 0 then 1
      else 1 + k_load * min (max 0 (of_int (in_flight + queued - n_slots) / of_int n_slots)) surge_max)"

definition ref_tokens :: int where "ref_tokens = 16384"

definition size_unit_ratio :: real where
  "size_unit_ratio = (700000 / 16384) powr (1 / 4)"

text \<open>The exponent, the reference and the unit are never overridden by a caller; the exponent is
  two.\<close>

definition size_stretch :: "int \<Rightarrow> real \<Rightarrow> real \<Rightarrow> real" where
  "size_stretch n k_size size_max =
     (if n \<le> ref_tokens then 1
      else
        let linear = min (of_int (n - ref_tokens) / of_int ref_tokens) size_max;
            units = ln (of_int n / of_int ref_tokens) / ln size_unit_ratio;
            superlinear = (min units size_max) ^ 2
        in 1 + k_size * max linear superlinear)"

definition apply_load_and_ceiling ::
  "real \<Rightarrow> int \<Rightarrow> int \<Rightarrow> int \<Rightarrow> int \<Rightarrow> real \<Rightarrow> real \<Rightarrow> real \<Rightarrow> real \<Rightarrow> real \<Rightarrow> real \<times> real \<times> real" where
  "apply_load_and_ceiling recommended_ms in_flight queued n_slots n_in ceiling_ms k_load surge_max k_size size_max =
     (let surge = surge_factor in_flight queued n_slots k_load surge_max;
          stretch = size_stretch n_in k_size size_max
      in (min (recommended_ms * surge * stretch) ceiling_ms, surge, stretch))"

subsection \<open>Buckets and percentiles\<close>

definition out_edges :: "int list" where "out_edges = [128, 512, 2048, 8192]"
definition in_edges :: "int list" where "in_edges = [1024, 4096, 16384, 32768, 65536, 131072, 262144]"

text \<open>\<^verbatim>\<open>bisect_left\<close> on ascending edges: how many edges are below.\<close>

definition bucket :: "int \<Rightarrow> int list \<Rightarrow> nat" where
  "bucket n edges = length (takeWhile (\<lambda>e. e < max 0 n) edges)"

definition unknown_out_fallback_bucket :: nat where
  "unknown_out_fallback_bucket = length out_edges div 2"

definition percentile :: "real list \<Rightarrow> nat \<Rightarrow> real" where
  "percentile sorted_values pct =
     (if sorted_values = [] then 0
      else sorted_values ! min (length sorted_values * pct div 100) (length sorted_values - 1))"

subsection \<open>The model\<close>

type_synonym cell_key = "string \<times> int \<times> nat \<times> nat"

record timeout_model =
  tm_margin :: real
  tm_window_s :: real
  tm_min_samples :: nat
  tm_max_per_cell :: nat
  tm_floors :: "(string, real) odict"
  tm_decode_rates :: "(string, real) odict"
  tm_cells :: "(cell_key, (real \<times> real) list) odict"

definition new_timeout_model :: "(string, real) odict option \<Rightarrow> (string, real) odict \<Rightarrow> timeout_model" where
  "new_timeout_model floors rates =
     \<lparr>tm_margin = 3 / 2, tm_window_s = 7 * 86400, tm_min_samples = 30, tm_max_per_cell = 2000,
      tm_floors = (case floors of None \<Rightarrow> floor_s_table | Some f \<Rightarrow> f), tm_decode_rates = rates, tm_cells = []\<rparr>"

text \<open>\<^verbatim>\<open>deque(maxlen=m).append\<close>.\<close>

definition push_bounded_deque :: "nat \<Rightarrow> 'a list \<Rightarrow> 'a \<Rightarrow> 'a list" where
  "push_bounded_deque m w x = drop (length (w @ [x]) - m) (w @ [x])"

definition tm_record ::
  "(string, string) odict \<Rightarrow> string \<Rightarrow> int \<Rightarrow> int \<Rightarrow> int \<Rightarrow> real \<Rightarrow> string \<Rightarrow> real \<Rightarrow> timeout_model \<Rightarrow> timeout_model" where
  "tm_record rc ep pri input_tokens output_tokens end_to_end_ms status now m =
     (if status \<noteq> ''ok'' \<or> end_to_end_ms \<le> 0 then m
      else
        let key = (normalize_endpoint rc ep, pri, bucket input_tokens in_edges, bucket output_tokens out_edges);
            cell = od_get_or [] (tm_cells m) key
        in m\<lparr>tm_cells := od_put key (push_bounded_deque (tm_max_per_cell m) cell (now, end_to_end_ms)) (tm_cells m)\<rparr>)"

definition tm_prune :: "real \<Rightarrow> timeout_model \<Rightarrow> timeout_model" where
  "tm_prune now m =
     m\<lparr>tm_cells := filter (\<lambda>p. snd p \<noteq> [])
        (map (\<lambda>(k, cell). (k, dropWhile (\<lambda>s. fst s < now - tm_window_s m) cell)) (tm_cells m))\<rparr>"

definition matches :: "'a option \<Rightarrow> 'a \<Rightarrow> bool" where
  "matches f x = (case f of None \<Rightarrow> True | Some y \<Rightarrow> x = y)"

text \<open>The scan over every cell.\<close>

definition collect_scan :: "timeout_model \<Rightarrow> string \<Rightarrow> int option \<Rightarrow> nat option \<Rightarrow> nat option \<Rightarrow> real list" where
  "collect_scan m ep pri in_b out_b =
     concat (map (\<lambda>((k_ep, k_pri, k_in, k_out), cell).
       if k_ep = ep \<and> matches pri k_pri \<and> matches in_b k_in \<and> matches out_b k_out
       then map snd cell else []) (tm_cells m))"

text \<open>\<^verbatim>\<open>_collect\<close>: one lookup when everything is specified, the scan otherwise.\<close>

definition collect :: "timeout_model \<Rightarrow> string \<Rightarrow> int option \<Rightarrow> nat option \<Rightarrow> nat option \<Rightarrow> real list" where
  "collect m ep pri in_b out_b =
     (case (pri, in_b, out_b) of
        (Some p, Some i, Some out) \<Rightarrow> map snd (od_get_or [] (tm_cells m) (ep, p, i, out))
      | _ \<Rightarrow> collect_scan m ep pri in_b out_b)"

definition tm_floor_ms :: "(string, string) odict \<Rightarrow> timeout_model \<Rightarrow> string \<Rightarrow> real" where
  "tm_floor_ms rc m ep = od_get_or default_floor_s (tm_floors m) (normalize_endpoint rc ep) * 1000"

definition decode_floor_ms :: "(string, string) odict \<Rightarrow> timeout_model \<Rightarrow> string \<Rightarrow> int \<Rightarrow> real" where
  "decode_floor_ms rc m ep n_out = decode_rate_floor_ms n_out (od_get_or 0 (tm_decode_rates m) (normalize_endpoint rc ep))"

text \<open>How many samples the matching cells hold per output bucket.\<close>

definition out_counts :: "timeout_model \<Rightarrow> string \<Rightarrow> int option \<Rightarrow> (nat, nat) odict" where
  "out_counts m ep pri =
     foldl (\<lambda>d ((k_ep, k_pri, k_in, k_out), cell).
       if k_ep = ep \<and> matches pri k_pri then od_put k_out (od_get_or 0 d k_out + length cell) d else d)
       [] (tm_cells m)"

fun first_reaching :: "(nat, nat) odict \<Rightarrow> real \<Rightarrow> nat \<Rightarrow> nat list \<Rightarrow> nat option" where
  "first_reaching counts target cum [] = None"
| "first_reaching counts target cum (b # bs) =
     (let cum' = cum + od_get_or 0 counts b in
      if of_nat cum' \<ge> target then Some b else first_reaching counts target cum' bs)"

definition resolve_unknown_out_bucket :: "timeout_model \<Rightarrow> string \<Rightarrow> int \<Rightarrow> nat" where
  "resolve_unknown_out_bucket m ep pri =
     (let c1 = out_counts m ep (Some pri);
          counts = (if c1 = [] then out_counts m ep None else c1)
      in if counts = [] then unknown_out_fallback_bucket
         else
           let target = of_nat (sum_list (od_vals counts)) * 95 / 100;
               ks = sort (od_keys counts)
           in case first_reaching counts target 0 ks of Some b \<Rightarrow> b | None \<Rightarrow> last ks)"

datatype source_level = CellLevel | TierOutLevel | TierLevel | EndpointLevel | FloorLevel

record advice_at =
  aa_min :: real
  aa_median :: real
  aa_p95 :: real
  aa_recommended :: real
  aa_n :: nat
  aa_source :: source_level

definition ladder :: "timeout_model \<Rightarrow> string \<Rightarrow> int \<Rightarrow> nat \<Rightarrow> nat \<Rightarrow> (source_level \<times> real list) list" where
  "ladder m ep pri in_b out_b =
     [(CellLevel, collect m ep (Some pri) (Some in_b) (Some out_b)),
      (TierOutLevel, collect m ep (Some pri) None (Some out_b)),
      (TierLevel, collect m ep (Some pri) None None),
      (EndpointLevel, collect m ep None None None)]"

definition advise_at :: "timeout_model \<Rightarrow> string \<Rightarrow> int \<Rightarrow> nat \<Rightarrow> nat \<Rightarrow> real \<Rightarrow> advice_at" where
  "advise_at m ep pri in_b out_b fl =
     (let (source, samples) =
            (case List.find (\<lambda>lv. length (snd lv) \<ge> tm_min_samples m) (ladder m ep pri in_b out_b) of
               Some lv \<Rightarrow> lv | None \<Rightarrow> (FloorLevel, []))
      in if samples \<noteq> [] then
           let ss = sort samples in
           \<lparr>aa_min = hd ss, aa_median = percentile ss 50, aa_p95 = percentile ss 95,
            aa_recommended = max (percentile ss 99 * tm_margin m) fl, aa_n = length ss, aa_source = source\<rparr>
         else \<lparr>aa_min = fl, aa_median = fl, aa_p95 = fl, aa_recommended = fl, aa_n = 0, aa_source = source\<rparr>)"

text \<open>The monotonicity guard: the lattice of lower cells, row by row; a strictly larger candidate
  lifts the recommendation and records where it came from.\<close>

definition lower_cells :: "nat \<Rightarrow> nat \<Rightarrow> (nat \<times> nat) list" where
  "lower_cells in_b out_b =
     filter (\<lambda>p. p \<noteq> (in_b, out_b)) (concat (map (\<lambda>i. map (\<lambda>j. (i, j)) [0 ..< Suc out_b]) [0 ..< Suc in_b]))"

definition lift_step ::
  "timeout_model \<Rightarrow> string \<Rightarrow> int \<Rightarrow> real \<Rightarrow> nat \<Rightarrow> nat \<Rightarrow> real \<times> nat option \<times> nat option \<Rightarrow> nat \<times> nat
     \<Rightarrow> real \<times> nat option \<times> nat option" where
  "lift_step m ep pri fl in_b out_b acc lo =
     (let (recommended, _, _) = acc; (lo_in, lo_out) = lo;
          cand = aa_recommended (advise_at m ep pri lo_in lo_out fl)
      in if cand > recommended
         then (cand, if lo_out < out_b then Some lo_out else None, if lo_in < in_b then Some lo_in else None)
         else acc)"

record advice =
  min_ms :: real
  median_ms :: real
  p95_ms :: real
  recommended_ms :: real
  recommended_timeout_s :: int
  sample_count :: nat
  adv_source :: source_level
  out_bucket_unknown_resolved_to :: "nat option"
  monotonic_lift_from_out_bucket :: "nat option"
  monotonic_lift_from_in_bucket :: "nat option"
  decode_floor_applied_ms :: "real option"

definition out_bucket_of :: "timeout_model \<Rightarrow> string \<Rightarrow> int \<Rightarrow> int \<Rightarrow> nat" where
  "out_bucket_of m ep pri n_out =
     (if n_out \<le> 0 then resolve_unknown_out_bucket m ep pri else bucket n_out out_edges)"

text \<open>The guarded recommendation before the decode floor, with the cells that lifted it.\<close>

definition guarded :: "(string, string) odict \<Rightarrow> timeout_model \<Rightarrow> string \<Rightarrow> int \<Rightarrow> nat \<Rightarrow> nat \<Rightarrow> real \<times> nat option \<times> nat option" where
  "guarded rc m ep pri in_b out_b =
     (let fl = tm_floor_ms rc m ep in
      foldl (lift_step m ep pri fl in_b out_b)
        (aa_recommended (advise_at m ep pri in_b out_b fl), None, None) (lower_cells in_b out_b))"

definition advise :: "(string, string) odict \<Rightarrow> timeout_model \<Rightarrow> string \<Rightarrow> int \<Rightarrow> int \<Rightarrow> int \<Rightarrow> advice" where
  "advise rc m endpoint pri n_in n_out =
     (let ep = normalize_endpoint rc endpoint;
          in_b = bucket n_in in_edges;
          out_b = out_bucket_of m ep pri n_out;
          base = advise_at m ep pri in_b out_b (tm_floor_ms rc m ep);
          (rec0, lifted_from, lifted_from_in) = guarded rc m ep pri in_b out_b;
          dfloor = decode_floor_ms rc m ep n_out;
          rec1 = (if dfloor > rec0 then dfloor else rec0)
      in \<lparr>min_ms = py_round (aa_min base) 1, median_ms = py_round (aa_median base) 1,
          p95_ms = py_round (aa_p95 base) 1, recommended_ms = py_round rec1 1,
          recommended_timeout_s = \<lceil>rec1 / 1000\<rceil>, sample_count = aa_n base, adv_source = aa_source base,
          out_bucket_unknown_resolved_to = (if n_out \<le> 0 then Some out_b else None),
          monotonic_lift_from_out_bucket = lifted_from, monotonic_lift_from_in_bucket = lifted_from_in,
          decode_floor_applied_ms = (if dfloor > rec0 then Some (py_round dfloor 1) else None)\<rparr>)"

subsection \<open>Lemmas\<close>

lemma bucket_mono: "n \<le> n' \<Longrightarrow> bucket n edges \<le> bucket n' edges"
proof -
  assume le: "n \<le> n'"
  have "length (takeWhile (\<lambda>e. e < max 0 n) edges) \<le> length (takeWhile (\<lambda>e. e < max 0 n') edges)"
    using le by (induction edges) auto
  then show ?thesis by (simp add: bucket_def)
qed

lemma bucket_le: "bucket n edges \<le> length edges"
  by (simp add: bucket_def length_takeWhile_le)

text \<open>The guard computes a maximum over the lattice.\<close>

definition cand :: "timeout_model \<Rightarrow> string \<Rightarrow> int \<Rightarrow> real \<Rightarrow> nat \<times> nat \<Rightarrow> real" where
  "cand m ep pri fl lo = aa_recommended (advise_at m ep pri (fst lo) (snd lo) fl)"

lemma lift_step_fst: "fst (lift_step m ep pri fl i j acc lo) = max (fst acc) (cand m ep pri fl lo)"
  by (auto simp: lift_step_def cand_def Let_def case_prod_unfold)

lemma lift_fold_fst:
  "fst (foldl (lift_step m ep pri fl i j) acc los) = fold max (map (cand m ep pri fl) los) (fst acc)"
  by (induction los arbitrary: acc) (simp_all add: lift_step_fst max.commute)

lemma fold_max_ge: "(x :: real) \<le> fold max xs x"
proof (induction xs arbitrary: x)
  case (Cons y ys)
  then show ?case using order_trans[OF max.cobounded2 Cons.IH[of "max y x"]] by simp
qed simp

lemma fold_max_mem: "y \<in> set xs \<Longrightarrow> (y :: real) \<le> fold max xs x"
proof (induction xs arbitrary: x)
  case (Cons z zs)
  then show ?case using order_trans[OF max.cobounded1 fold_max_ge[of "max z x" zs]] by auto
qed simp

lemma fold_max_in: "fold max xs (x :: real) \<in> set (x # xs)"
proof (induction xs arbitrary: x)
  case (Cons y ys)
  from Cons[of "max y x"] show ?case by (auto simp: max_def split: if_splits)
qed simp

lemma set_lower_cells: "insert (i, j) (set (lower_cells i j)) = {(a, b). a \<le> i \<and> b \<le> j}"
proof -
  have "set (lower_cells i j) = {p. fst p \<le> i \<and> snd p \<le> j \<and> p \<noteq> (i, j)}"
  proof (intro set_eqI iffI)
    fix p assume "p \<in> {p. fst p \<le> i \<and> snd p \<le> j \<and> p \<noteq> (i, j)}"
    then have "fst p \<in> {0 ..< Suc i}" "snd p \<in> {0 ..< Suc j}" "p \<noteq> (i, j)" by simp_all
    then have "p \<in> (\<Union>a \<in> {0 ..< Suc i}. (\<lambda>b. (a, b)) ` {0 ..< Suc j}) \<and> p \<noteq> (i, j)"
      by (intro conjI UN_I[of "fst p"] image_eqI[of _ _ "snd p"]) simp_all
    then show "p \<in> set (lower_cells i j)" by (simp add: lower_cells_def del: upt_Suc)
  qed (auto simp: lower_cells_def simp del: upt_Suc)
  then show ?thesis by fastforce
qed

lemma guarded_is_max:
  "(\<forall>a \<le> in_b. \<forall>b \<le> out_b. cand m ep pri (tm_floor_ms rc m ep) (a, b) \<le> fst (guarded rc m ep pri in_b out_b)) \<and>
   (\<exists>a \<le> in_b. \<exists>b \<le> out_b. fst (guarded rc m ep pri in_b out_b) = cand m ep pri (tm_floor_ms rc m ep) (a, b))"
proof -
  let ?c = "cand m ep pri (tm_floor_ms rc m ep)" and ?L = "lower_cells in_b out_b"
  have g: "fst (guarded rc m ep pri in_b out_b) = fold max (map ?c ?L) (?c (in_b, out_b))"
    by (simp add: guarded_def Let_def lift_fold_fst cand_def)
  have up: "?c lo \<le> fold max (map ?c ?L) (?c (in_b, out_b))" if "lo \<in> insert (in_b, out_b) (set ?L)" for lo
    using that fold_max_ge[of "?c (in_b, out_b)"] fold_max_mem[of "?c lo" "map ?c ?L"] by auto
  have "fold max (map ?c ?L) (?c (in_b, out_b)) \<in> ?c ` insert (in_b, out_b) (set ?L)"
    using fold_max_in[of "map ?c ?L" "?c (in_b, out_b)"] by simp
  with up show ?thesis unfolding g set_lower_cells by auto
qed

lemma guarded_mono:
  assumes "i \<le> i'" "j \<le> j'"
  shows "fst (guarded rc m ep pri i j) \<le> fst (guarded rc m ep pri i' j')"
proof -
  obtain a b where ab: "a \<le> i" "b \<le> j" "fst (guarded rc m ep pri i j) = cand m ep pri (tm_floor_ms rc m ep) (a, b)"
    using guarded_is_max[where in_b = i and out_b = j] by blast
  have "cand m ep pri (tm_floor_ms rc m ep) (a, b) \<le> fst (guarded rc m ep pri i' j')"
    using conjunct1[OF guarded_is_max[of i' j' m ep pri rc]] ab assms by (meson le_trans)
  then show ?thesis using ab(3) by simp
qed

lemma advise_at_floor: "fl \<le> aa_recommended (advise_at m ep pri i j fl)"
  by (simp add: advise_at_def Let_def case_prod_unfold split: option.split)

lemma guarded_floor: "tm_floor_ms rc m ep \<le> fst (guarded rc m ep pri i j)"
  using guarded_is_max[of i j m ep pri rc] advise_at_floor[of "tm_floor_ms rc m ep" m ep pri] by (metis cand_def)

lemma decode_rate_floor_mono: "0 < n \<Longrightarrow> n \<le> n' \<Longrightarrow> decode_rate_floor_ms n r \<le> decode_rate_floor_ms n' r"
proof (cases "r \<le> 0")
  case False
  assume "0 < n" "n \<le> n'"
  moreover have "of_int n / r * decode_floor_margin \<le> of_int n' / r * decode_floor_margin"
    using False \<open>n \<le> n'\<close> by (intro mult_right_mono divide_right_mono) (auto simp: decode_floor_margin_def)
  ultimately show ?thesis
    using False by (simp add: decode_rate_floor_ms_def)
qed (simp add: decode_rate_floor_ms_def)

lemma decode_rate_floor_bounds: "0 \<le> decode_rate_floor_ms n r" "decode_rate_floor_ms n r \<le> 1800000"
  by (auto simp: decode_rate_floor_ms_def background_ceiling_s_def decode_floor_margin_def)

lemma decode_floor_ms_mono: "0 < n \<Longrightarrow> n \<le> n' \<Longrightarrow> decode_floor_ms rc m ep n \<le> decode_floor_ms rc m ep n'"
  by (simp add: decode_floor_ms_def decode_rate_floor_mono)

text \<open>The unrounded recommendation.\<close>

definition advised :: "(string, string) odict \<Rightarrow> timeout_model \<Rightarrow> string \<Rightarrow> int \<Rightarrow> int \<Rightarrow> int \<Rightarrow> real" where
  "advised rc m endpoint pri n_in n_out =
     (let ep = normalize_endpoint rc endpoint in
      max (fst (guarded rc m ep pri (bucket n_in in_edges) (out_bucket_of m ep pri n_out))) (decode_floor_ms rc m ep n_out))"

lemma advise_recommended:
  "recommended_ms (advise rc m ep pri i out) = py_round (advised rc m ep pri i out) 1"
  "recommended_timeout_s (advise rc m ep pri i out) = \<lceil>advised rc m ep pri i out / 1000\<rceil>"
  by (simp_all add: advise_def advised_def Let_def case_prod_unfold max_def)

lemma py_round_error: "\<bar>py_round x 1 - x\<bar> \<le> 1 / 20"
proof -
  have "py_round x 1 - x = (of_int (round_half_even (x * 10)) - x * 10) / 10" by (simp add: py_round_def)
  then have "\<bar>py_round x 1 - x\<bar> = \<bar>of_int (round_half_even (x * 10)) - x * 10\<bar> / 10" by (simp only: abs_divide abs_numeral)
  moreover have "\<bar>of_int (round_half_even (x * 10)) - x * 10\<bar> / 10 \<le> (1 / 2) / (10 :: real)"
    by (rule divide_right_mono[OF round_half_even_error]) simp
  ultimately show ?thesis by simp
qed

lemma ceiling_thousand: "x \<le> 1000 * of_int \<lceil>x / 1000\<rceil>"
  using le_of_int_ceiling[of "x / 1000"] by linarith

lemma size_unit_ratio_gt: "1 < size_unit_ratio"
  unfolding size_unit_ratio_def by (rule gr_one_powr) simp_all

lemma size_stretch_mono_term:
  fixes x y :: real
  assumes "0 \<le> x" "x \<le> y" "0 \<le> c" shows "(min x c) ^ 2 \<le> (min y c) ^ 2"
  using assms by (intro power_mono) auto

lemma units_nonneg: "ref_tokens < n \<Longrightarrow> 0 \<le> ln (of_int n / of_int ref_tokens :: real) / ln size_unit_ratio"
  using size_unit_ratio_gt by (simp add: ref_tokens_def)

lemma size_stretch_ge: "0 \<le> k \<Longrightarrow> 0 \<le> c \<Longrightarrow> 1 \<le> size_stretch n k c"
  by (auto simp: size_stretch_def Let_def intro!: mult_nonneg_nonneg max.coboundedI2)

lemma size_stretch_mono:
  assumes "n \<le> n'" "0 \<le> k" "0 \<le> c" shows "size_stretch n k c \<le> size_stretch n' k c"
proof (cases "n \<le> ref_tokens")
  case True
  then show ?thesis using size_stretch_ge[OF assms(2,3), of n'] by (simp add: size_stretch_def)
next
  case False
  have pos: "0 < ln size_unit_ratio" using size_unit_ratio_gt by simp
  have ln_le: "ln (of_int n / of_int ref_tokens :: real) / ln size_unit_ratio
      \<le> ln (of_int n' / of_int ref_tokens) / ln size_unit_ratio"
    using False assms(1) pos by (intro divide_right_mono) (auto simp: ref_tokens_def)
  have nn: "0 \<le> ln (of_int n / of_int ref_tokens :: real) / ln size_unit_ratio"
    using False by (intro units_nonneg) simp
  have "max (min (of_int (n - ref_tokens) / of_int ref_tokens) c) ((min (ln (of_int n / of_int ref_tokens) / ln size_unit_ratio) c) ^ 2)
      \<le> max (min (of_int (n' - ref_tokens) / of_int ref_tokens) c) ((min (ln (of_int n' / of_int ref_tokens) / ln size_unit_ratio) c) ^ 2)"
    using size_stretch_mono_term[OF nn ln_le assms(3)] assms(1)
    by (intro max.mono min.mono divide_right_mono) (auto simp: ref_tokens_def)
  then show ?thesis
    using False assms by (simp add: size_stretch_def Let_def mult_left_mono)
qed

lemma surge_ge: "0 \<le> k \<Longrightarrow> 0 \<le> c \<Longrightarrow> 1 \<le> surge_factor a b n k c"
  by (simp add: surge_factor_def)

lemma collect_fast_path:
  assumes "od_ok (tm_cells m)" shows "collect m ep pri in_b out_b = collect_scan m ep pri in_b out_b"
proof -
  have "map snd (od_get_or [] d (ep, p, i, out)) =
      concat (map (\<lambda>((k_ep, k_pri, k_in, k_out), cell).
        if k_ep = ep \<and> k_pri = p \<and> k_in = i \<and> k_out = out then map snd cell else []) d)"
    if "od_ok d" for p i out and d :: "(cell_key, (real \<times> real) list) odict"
    using that
  proof (induction d)
    case (Cons x d)
    obtain ke kp ki ko cell where x: "x = ((ke, kp, ki, ko), cell)" by (cases x) auto
    have "od_get d (ep, p, i, out) = None" if "(ke, kp, ki, ko) = (ep, p, i, out)"
      using Cons.prems that by (simp add: od_get_None_iff x)
    with Cons show ?case by (auto simp: x od_get_or_def)
  qed simp
  then show ?thesis
    using assms by (auto simp: collect_def collect_scan_def matches_def split: option.split)
qed

lemma tm_record_ok: "od_ok (tm_cells m) \<Longrightarrow> od_ok (tm_cells (tm_record rc ep pri i out ms st now m))"
  by (simp add: tm_record_def Let_def)

subsection \<open>Percentiles and the reservoir\<close>

lemma percentile_mono:
  assumes "sorted xs" "p \<le> p'" shows "percentile xs p \<le> percentile xs p'"
proof (cases "xs = []")
  case False
  have "min (length xs * p div 100) (length xs - 1) \<le> min (length xs * p' div 100) (length xs - 1)"
    using assms(2) by (intro min.mono div_le_mono mult_le_mono) auto
  then have "xs ! min (length xs * p div 100) (length xs - 1) \<le> xs ! min (length xs * p' div 100) (length xs - 1)"
    using False by (intro sorted_nth_mono[OF assms(1)]) (auto simp: min_less_iff_disj)
  then show ?thesis using False by (simp only: percentile_def if_False)
qed (simp add: percentile_def)

lemma percentile_hd: "sorted xs \<Longrightarrow> xs \<noteq> [] \<Longrightarrow> hd xs \<le> percentile xs p"
  by (cases xs) (auto simp: percentile_def nth_Cons split: nat.split)

lemma advise_at_ordered:
  assumes "1 \<le> tm_margin m" "\<forall>p \<in> set (tm_cells m). \<forall>s \<in> set (snd p). 0 < snd s" "0 \<le> fl"
  shows "aa_min (advise_at m ep pri i j fl) \<le> aa_median (advise_at m ep pri i j fl) \<and>
    aa_median (advise_at m ep pri i j fl) \<le> aa_p95 (advise_at m ep pri i j fl) \<and>
    aa_p95 (advise_at m ep pri i j fl) \<le> aa_recommended (advise_at m ep pri i j fl)"
proof (cases "List.find (\<lambda>lv. length (snd lv) \<ge> tm_min_samples m) (ladder m ep pri i j)")
  case (Some lv)
  have "\<forall>v \<in> set (snd lv). 0 < v"
  proof -
    have scan: "\<forall>v \<in> set (collect_scan m ep a b c). 0 < v" for a b c
      using assms(2) by (auto simp: collect_scan_def split: if_splits) fastforce
    have "\<forall>v \<in> set (map snd (od_get_or [] (tm_cells m) k)). 0 < v" for k
    proof (cases "od_get (tm_cells m) k")
      case (Some cell)
      then have "(k, cell) \<in> set (tm_cells m)" by (rule od_get_Some_in)
      with assms(2) have "\<forall>s \<in> set cell. 0 < snd s" by fastforce
      with Some show ?thesis by (simp add: od_get_or_def)
    qed (simp add: od_get_or_def)
    then have "\<forall>v \<in> set (collect m ep a b c). 0 < v" for a b c
      using scan by (auto simp: collect_def split: option.splits)
    moreover have "lv \<in> set (ladder m ep pri i j)"
      using Some by (auto simp: find_Some_iff)
    ultimately show ?thesis by (auto simp: ladder_def)
  qed
  then have "\<forall>v \<in> set (sort (snd lv)). 0 < v" by simp
  moreover have "snd lv \<noteq> [] \<Longrightarrow> percentile (sort (snd lv)) 99 \<in> set (sort (snd lv))"
  proof -
    assume "snd lv \<noteq> []"
    then have "0 < length (sort (snd lv))" by simp
    then have "min (length (sort (snd lv)) * 99 div 100) (length (sort (snd lv)) - 1) < length (sort (snd lv))" by linarith
    with \<open>snd lv \<noteq> []\<close> show ?thesis
      unfolding percentile_def by (metis length_0_conv nat_less_le nth_mem length_sort)
  qed
  ultimately have "snd lv \<noteq> [] \<Longrightarrow> percentile (sort (snd lv)) 99 \<le> percentile (sort (snd lv)) 99 * tm_margin m"
    using assms(1) by (fastforce simp: mult_le_cancel_left1)
  then show ?thesis
  proof (cases "snd lv = []")
    case False
    then have "sort (snd lv) \<noteq> []" by (metis length_0_conv length_sort)
    with False show ?thesis
      using \<open>snd lv \<noteq> [] \<Longrightarrow> percentile (sort (snd lv)) 99 \<le> percentile (sort (snd lv)) 99 * tm_margin m\<close> Some
        percentile_mono[of "sort (snd lv)" 50 95] percentile_mono[of "sort (snd lv)" 95 99]
        percentile_hd[of "sort (snd lv)" 50]
      by (simp add: advise_at_def Let_def case_prod_unfold le_max_iff_disj)
  qed (use Some in \<open>simp add: advise_at_def Let_def case_prod_unfold\<close>)
qed (simp add: advise_at_def)

subsection \<open>Properties\<close>

lemma advised_mono:
  assumes "n_in \<le> n_in'" "0 < n_out" "n_out \<le> n_out'"
  shows "advised rc m ep pri n_in n_out \<le> advised rc m ep pri n_in' n_out'"
proof -
  let ?e = "normalize_endpoint rc ep"
  have "out_bucket_of m ?e pri n_out \<le> out_bucket_of m ?e pri n_out'"
    using assms bucket_mono by (simp add: out_bucket_of_def)
  then show ?thesis
    unfolding advised_def Let_def
    by (intro max.mono guarded_mono decode_floor_ms_mono bucket_mono assms)
qed

text \<open>C35: asking for more never buys less time. For every state of the model, however sparse or
  skewed its cells, a request with at least as many input tokens and at least as large a positive
  output budget is advised at least as long a timeout, in milliseconds and in whole seconds.\<close>

lemma advice_monotone:
  assumes "n_in \<le> n_in'" "0 < n_out" "n_out \<le> n_out'"
  shows "recommended_ms (advise rc m ep pri n_in n_out) \<le> recommended_ms (advise rc m ep pri n_in' n_out') \<and>
    recommended_timeout_s (advise rc m ep pri n_in n_out) \<le> recommended_timeout_s (advise rc m ep pri n_in' n_out')"
  using advised_mono[OF assms, of rc m ep pri]
  by (simp add: advise_recommended py_round_mono ceiling_mono divide_right_mono)

definition demo_timeouts :: timeout_model where
  "demo_timeouts = (new_timeout_model None [(''tier3'', 20)])\<lparr>tm_min_samples := 1,
     tm_cells := [((''tier3'', 3, 0, 3), [(0, 400000)]), ((''tier3'', 3, 0, 0), [(0, 1000), (1, 1000)])]\<rparr>"

lemma advice_monotone_witness:
  "recommended_timeout_s (advise [] demo_timeouts ''tier3'' 3 10 8192) = 600 \<and>
   600 \<le> recommended_timeout_s (advise [] demo_timeouts ''tier3'' 3 10 9000)"
proof -
  have "recommended_timeout_s (advise [] demo_timeouts ''tier3'' 3 10 8192) = 600" by code_simp
  with advice_monotone[of 10 10 8192 9000 "[]" demo_timeouts "''tier3''" 3] show ?thesis by simp
qed

text \<open>The advice is never below what the call physically needs. For every query the advised
  whole seconds cover both the floor of the endpoint class and the time decoding the requested
  output takes at the measured rate, and the decode floor never exceeds 1800 seconds.\<close>

lemma advice_covers_floors:
  "tm_floor_ms rc m (normalize_endpoint rc ep) \<le> 1000 * of_int (recommended_timeout_s (advise rc m ep pri n_in n_out)) \<and>
   decode_floor_ms rc m (normalize_endpoint rc ep) n_out \<le> 1000 * of_int (recommended_timeout_s (advise rc m ep pri n_in n_out)) \<and>
   decode_floor_ms rc m (normalize_endpoint rc ep) n_out \<le> 1800000"
proof -
  have "tm_floor_ms rc m (normalize_endpoint rc ep) \<le> advised rc m ep pri n_in n_out"
    "decode_floor_ms rc m (normalize_endpoint rc ep) n_out \<le> advised rc m ep pri n_in n_out"
    using guarded_floor by (auto simp: advised_def Let_def max.coboundedI1)
  moreover have "decode_floor_ms rc m (normalize_endpoint rc ep) n_out \<le> 1800000"
    by (simp add: decode_floor_ms_def decode_rate_floor_bounds)
  ultimately show ?thesis
    using ceiling_thousand[of "advised rc m ep pri n_in n_out"] unfolding advise_recommended by linarith
qed

text \<open>The size stretch is a continuous lengthening only: with non-negative settings it is at
  least one, exactly one up to the reference size, and never shrinks as the prompt grows.\<close>

lemma size_stretch_lengthens:
  assumes "0 \<le> k" "0 \<le> c" "n \<le> n'"
  shows "1 \<le> size_stretch n k c \<and> size_stretch n k c \<le> size_stretch n' k c \<and>
    (n \<le> ref_tokens \<longrightarrow> size_stretch n k c = 1)"
  using size_stretch_ge[OF assms(1,2)] size_stretch_mono[OF assms(3,1,2)] by (simp add: size_stretch_def)

lemma size_stretch_lengthens_witness:
  "1 \<le> size_stretch 20000 (1 / 2) 4 \<and> size_stretch 20000 (1 / 2) 4 \<le> size_stretch 700000 (1 / 2) 4"
  using size_stretch_lengthens[of "1 / 2" 4 20000 700000] by simp

text \<open>The one-lookup path of the sample collection returns exactly what the full scan over the
  cells would, in the same order, in every state reached by recording completions.\<close>

lemma collect_lookup_is_scan:
  "collect (foldl (\<lambda>m (ep, pri, i, out, ms, st, now). tm_record rc ep pri i out ms st now m) (new_timeout_model fl rates) evs)
     ep pri in_b out_b =
   collect_scan (foldl (\<lambda>m (ep, pri, i, out, ms, st, now). tm_record rc ep pri i out ms st now m) (new_timeout_model fl rates) evs)
     ep pri in_b out_b"
proof -
  have "od_ok (tm_cells m) \<Longrightarrow> od_ok (tm_cells (foldl (\<lambda>m (ep, pri, i, out, ms, st, now). tm_record rc ep pri i out ms st now m) m evs))" for m
    by (induction evs arbitrary: m) (auto simp: tm_record_ok)
  then show ?thesis by (intro collect_fast_path) (simp add: new_timeout_model_def)
qed

end
