(* ===== verification/Deadlines.thy ===== *)
theory Deadlines
  imports Timeout_Model Scheduler
begin

section \<open>The deadline a caller is advised (state.py)\<close>

text \<open>
  \<^verbatim>\<open>AppState.effective_timeout_advice\<close>: the empirical advice of the timeout model, widened for
  the load the scheduler reports and for the size of the prompt, and bounded by the ceiling of the
  caller's class. Every step is total on the model's types, so the fallback to the raw advice when
  the uplift raises is not a branch here.
\<close>

record deadline_config =
  timeout_surge_k :: real
  timeout_surge_max :: real
  timeout_size_k :: real
  timeout_size_max :: real
  timeout_ceiling_interactive_s :: real
  timeout_ceiling_background_s :: real
  timeout_ceilings :: "(string, real) odict"

definition default_deadline_config :: deadline_config where
  "default_deadline_config =
     \<lparr>timeout_surge_k = 1 / 2, timeout_surge_max = 3, timeout_size_k = 1 / 2, timeout_size_max = 4,
      timeout_ceiling_interactive_s = interactive_ceiling_s, timeout_ceiling_background_s = 1800,
      timeout_ceilings = []\<rparr>"

record effective_advice = advice +
  ea_surge :: real
  ea_size_stretch :: real
  ea_ceiling_s :: real

definition deadline_ceiling_s ::
  "(string, string) odict \<Rightarrow> deadline_config \<Rightarrow> timeout_model \<Rightarrow> string \<Rightarrow> int \<Rightarrow> int \<Rightarrow> real" where
  "deadline_ceiling_s rc dc m ep pri n_out =
     (let floor_s = tm_floor_ms rc m ep / 1000;
          decode_floor_s = decode_floor_ms rc m ep n_out / 1000
      in resolve_ceiling_s rc ep (pri \<le> 2) (timeout_ceilings dc) (max floor_s decode_floor_s)
           (timeout_ceiling_interactive_s dc) (timeout_ceiling_background_s dc))"

definition uplift ::
  "(string, string) odict \<Rightarrow> deadline_config \<Rightarrow> timeout_model \<Rightarrow> scheduler \<Rightarrow> string \<Rightarrow> int \<Rightarrow> int \<Rightarrow> int
     \<Rightarrow> real \<times> real \<times> real" where
  "uplift rc dc m s ep pri n_in n_out =
     (let snap = endpoint_snapshot (normalize_endpoint rc ep) s
      in apply_load_and_ceiling (recommended_ms (advise rc m ep pri n_in n_out))
           (int (sn_in_flight snap)) (int (sn_queued snap)) (sn_max_slots snap) n_in
           (deadline_ceiling_s rc dc m ep pri n_out * 1000)
           (timeout_surge_k dc) (timeout_surge_max dc) (timeout_size_k dc) (timeout_size_max dc))"

definition effective_timeout_advice ::
  "(string, string) odict \<Rightarrow> deadline_config \<Rightarrow> timeout_model \<Rightarrow> scheduler \<Rightarrow> string \<Rightarrow> int \<Rightarrow> int \<Rightarrow> int
     \<Rightarrow> effective_advice" where
  "effective_timeout_advice rc dc m s ep pri n_in n_out =
     (let adv = advise rc m ep pri n_in n_out;
          (effective_ms, surge, stretch) = uplift rc dc m s ep pri n_in n_out;
          ceiling_s = deadline_ceiling_s rc dc m ep pri n_out
      in advice.extend
           (adv\<lparr>recommended_ms := py_round effective_ms 1, recommended_timeout_s := \<lceil>effective_ms / 1000\<rceil>\<rparr>)
           (effective_advice.fields (py_round surge 3) (py_round stretch 3) (py_round ceiling_s 1)))"

subsection \<open>Lemmas\<close>

definition stretches_only :: "deadline_config \<Rightarrow> bool" where
  "stretches_only dc \<longleftrightarrow> 0 \<le> timeout_surge_k dc \<and> 0 \<le> timeout_surge_max dc \<and>
     0 \<le> timeout_size_k dc \<and> 0 \<le> timeout_size_max dc"

lemma default_stretches_only: "stretches_only default_deadline_config"
  by (simp add: stretches_only_def default_deadline_config_def)

definition load_factor :: "(string, string) odict \<Rightarrow> deadline_config \<Rightarrow> scheduler \<Rightarrow> string \<Rightarrow> real" where
  "load_factor rc dc s ep =
     (let snap = endpoint_snapshot (normalize_endpoint rc ep) s
      in surge_factor (int (sn_in_flight snap)) (int (sn_queued snap)) (sn_max_slots snap)
           (timeout_surge_k dc) (timeout_surge_max dc))"

lemma uplift_fst:
  "fst (uplift rc dc m s ep pri n_in n_out) =
     min (recommended_ms (advise rc m ep pri n_in n_out) * load_factor rc dc s ep
            * size_stretch n_in (timeout_size_k dc) (timeout_size_max dc))
       (deadline_ceiling_s rc dc m ep pri n_out * 1000)"
  by (simp add: uplift_def load_factor_def apply_load_and_ceiling_def Let_def)

lemma effective_seconds:
  "recommended_timeout_s (effective_timeout_advice rc dc m s ep pri n_in n_out)
     = \<lceil>fst (uplift rc dc m s ep pri n_in n_out) / 1000\<rceil>"
  by (simp add: effective_timeout_advice_def Let_def case_prod_unfold advice.extend_def effective_advice.fields_def)

lemma advised_nonneg: "0 \<le> advised rc m ep pri n_in n_out"
  using decode_rate_floor_bounds by (simp add: advised_def Let_def decode_floor_ms_def le_max_iff_disj)

lemma recommended_ms_nonneg: "0 \<le> recommended_ms (advise rc m ep pri n_in n_out)"
  using py_round_mono[OF advised_nonneg, of 1 rc m ep pri n_in n_out]
  by (simp add: advise_recommended py_round_def round_half_even_def)

lemma load_factor_ge: "stretches_only dc \<Longrightarrow> 1 \<le> load_factor rc dc s ep"
  by (simp add: load_factor_def stretches_only_def surge_ge Let_def)

lemma ceiling_ge_floors:
  "tm_floor_ms rc m ep \<le> deadline_ceiling_s rc dc m ep pri n_out * 1000"
  "decode_floor_ms rc m ep n_out \<le> deadline_ceiling_s rc dc m ep pri n_out * 1000"
  by (auto simp: deadline_ceiling_s_def resolve_ceiling_s_def Let_def)

lemma ceiling_mono:
  assumes "0 < n" "n \<le> n'"
  shows "deadline_ceiling_s rc dc m ep pri n \<le> deadline_ceiling_s rc dc m ep pri n'"
proof -
  have "decode_floor_ms rc m ep n / 1000 \<le> decode_floor_ms rc m ep n' / 1000"
    by (intro divide_right_mono decode_floor_ms_mono assms) simp
  then show ?thesis
    unfolding deadline_ceiling_s_def resolve_ceiling_s_def Let_def by (intro max.mono order_refl)
qed

lemma uplift_ge_base:
  assumes "stretches_only dc"
  shows "recommended_ms (advise rc m ep pri n_in n_out) \<le>
    recommended_ms (advise rc m ep pri n_in n_out) * load_factor rc dc s ep
      * size_stretch n_in (timeout_size_k dc) (timeout_size_max dc)"
proof -
  let ?r = "recommended_ms (advise rc m ep pri n_in n_out)"
  have "?r * 1 \<le> ?r * load_factor rc dc s ep"
    by (intro mult_left_mono load_factor_ge assms recommended_ms_nonneg)
  also have "\<dots> \<le> ?r * load_factor rc dc s ep * size_stretch n_in (timeout_size_k dc) (timeout_size_max dc)"
    using mult_left_mono[OF size_stretch_ge, of "timeout_size_k dc" "timeout_size_max dc" "?r * load_factor rc dc s ep" n_in]
      assms load_factor_ge[OF assms, of rc s ep] recommended_ms_nonneg[of rc m ep pri n_in n_out]
    by (simp add: stretches_only_def mult_nonneg_nonneg)
  finally show ?thesis by simp
qed

subsection \<open>Properties\<close>

text \<open>The deadline a caller is advised is physically possible and bounded. With the uplift
  factors not negative and an alias table that maps to canonical names, the advised seconds never
  exceed the ceiling rounded up, cover the class floor and the decode time of the requested output
  (up to the twentieth of a millisecond the recommendation is rounded by), and the ceiling itself
  is the band's or the role's unless a floor above it raises it.\<close>

lemma effective_deadline_bounded:
  assumes "stretches_only dc" "normalize_endpoint rc (normalize_endpoint rc ep) = normalize_endpoint rc ep"
    and "a = effective_timeout_advice rc dc m s ep pri n_in n_out"
  shows "recommended_timeout_s a \<le> \<lceil>deadline_ceiling_s rc dc m ep pri n_out\<rceil> \<and>
    max (tm_floor_ms rc m ep) (decode_floor_ms rc m ep n_out) - 1 / 20 \<le> 1000 * of_int (recommended_timeout_s a) \<and>
    deadline_ceiling_s rc dc m ep pri n_out =
      max (case od_get (timeout_ceilings dc) (normalize_endpoint rc ep) of
             Some ov \<Rightarrow> if ov > 0 then ov
               else if pri \<le> 2 then timeout_ceiling_interactive_s dc else timeout_ceiling_background_s dc
           | None \<Rightarrow> if pri \<le> 2 then timeout_ceiling_interactive_s dc else timeout_ceiling_background_s dc)
        (max (tm_floor_ms rc m ep / 1000) (decode_floor_ms rc m ep n_out / 1000))"
proof (intro conjI)
  let ?u = "fst (uplift rc dc m s ep pri n_in n_out)" and ?r = "recommended_ms (advise rc m ep pri n_in n_out)"
  have "?u / 1000 \<le> deadline_ceiling_s rc dc m ep pri n_out" by (simp add: uplift_fst)
  then show "recommended_timeout_s a \<le> \<lceil>deadline_ceiling_s rc dc m ep pri n_out\<rceil>"
    unfolding assms(3) effective_seconds by (rule Archimedean_Field.ceiling_mono)
  have floors: "tm_floor_ms rc m ep \<le> advised rc m ep pri n_in n_out"
      "decode_floor_ms rc m ep n_out \<le> advised rc m ep pri n_in n_out"
    using guarded_floor[of rc m "normalize_endpoint rc ep" pri] assms(2)
    by (simp_all add: advised_def Let_def tm_floor_ms_def decode_floor_ms_def le_max_iff_disj)
  have "advised rc m ep pri n_in n_out - 1 / 20 \<le> ?r"
    using py_round_error[of "advised rc m ep pri n_in n_out"] unfolding advise_recommended by linarith
  with floors have "max (tm_floor_ms rc m ep) (decode_floor_ms rc m ep n_out) - 1 / 20 \<le> ?u"
    using uplift_ge_base[OF assms(1), of rc m ep pri n_in n_out s]
      ceiling_ge_floors(1)[of rc m ep dc pri n_out] ceiling_ge_floors(2)[of rc m ep n_out dc pri]
    unfolding uplift_fst by linarith
  with ceiling_thousand[of ?u]
  show "max (tm_floor_ms rc m ep) (decode_floor_ms rc m ep n_out) - 1 / 20 \<le> 1000 * of_int (recommended_timeout_s a)"
    unfolding assms(3) effective_seconds by linarith
qed (auto simp: deadline_ceiling_s_def resolve_ceiling_s_def Let_def split: option.split)

lemma effective_deadline_bounded_witness:
  "recommended_timeout_s (effective_timeout_advice [] default_deadline_config demo_timeouts demo_sched ''tier3'' 3 10 8192)
     \<le> \<lceil>deadline_ceiling_s [] default_deadline_config demo_timeouts ''tier3'' 3 8192\<rceil>"
proof -
  have n: "normalize_endpoint [] (normalize_endpoint [] ''tier3'') = normalize_endpoint [] ''tier3''" by code_simp
  show ?thesis by (rule conjunct1[OF effective_deadline_bounded[OF default_stretches_only n refl]])
qed

text \<open>Under the same load, asking for more never brings the advised deadline forward: a larger
  prompt and a larger positive output budget are advised at least as many seconds, through the
  stretch and the ceiling as well.\<close>

lemma effective_deadline_monotone:
  assumes "stretches_only dc" "n_in \<le> n_in'" "0 < n_out" "n_out \<le> n_out'"
  shows "recommended_timeout_s (effective_timeout_advice rc dc m s ep pri n_in n_out)
    \<le> recommended_timeout_s (effective_timeout_advice rc dc m s ep pri n_in' n_out')"
proof -
  let ?st = "\<lambda>n. size_stretch n (timeout_size_k dc) (timeout_size_max dc)"
  have lf: "0 \<le> load_factor rc dc s ep" using load_factor_ge[OF assms(1), of rc s ep] by simp
  have st: "0 \<le> ?st n_in" using size_stretch_ge[of "timeout_size_k dc" "timeout_size_max dc" n_in] assms(1)
    by (simp add: stretches_only_def)
  have st': "?st n_in \<le> ?st n_in'" using assms(1,2) by (intro size_stretch_mono) (simp_all add: stretches_only_def)
  have r: "recommended_ms (advise rc m ep pri n_in n_out) \<le> recommended_ms (advise rc m ep pri n_in' n_out')"
    using advised_mono[OF assms(2-4), of rc m ep pri] by (simp add: advise_recommended py_round_mono)
  have "fst (uplift rc dc m s ep pri n_in n_out) \<le> fst (uplift rc dc m s ep pri n_in' n_out')"
    unfolding uplift_fst using lf st st' r recommended_ms_nonneg
    by (intro min.mono mult_mono ceiling_mono assms mult_right_mono) (auto intro: mult_nonneg_nonneg)
  then show ?thesis
    unfolding effective_seconds by (intro Archimedean_Field.ceiling_mono divide_right_mono) simp_all
qed

lemma effective_deadline_monotone_witness:
  "recommended_timeout_s (effective_timeout_advice [] default_deadline_config demo_timeouts demo_sched ''tier3'' 3 10 8192)
    \<le> recommended_timeout_s (effective_timeout_advice [] default_deadline_config demo_timeouts demo_sched ''tier3'' 3 50000 9000)"
  using effective_deadline_monotone[OF default_stretches_only, of 10 50000 8192 9000] by simp

end
