(* ===== verification/Submit.thy ===== *)
theory Submit
  imports Health No_Store Standing Deadlines
begin

section \<open>Admission of a request (lifecycle.py, handle_submit)\<close>

text \<open>
  \<^verbatim>\<open>Lifecycle.handle_submit\<close> from its first line to the point where the request has passed every gate
  (the corrections that follow, and the deadline they may lengthen, are in \<open>Deadline_Grant\<close>):
  identity, priority, the no-store grant, endpoint, vision, deadline, construction, message shape, grammar,
  context, cache, on-demand load, circuit and load shedding. Each gate is a definition; \<open>gate_bind\<close>
  composes them, an early return skips the rest. The body is the JSON object a door hands over.

  An outcome is the refusal with its status and code, a cached answer, an exception, or the
  admitted request. The serialisations of one outcome for the three wires differ in bytes only and are
  left out. \<open>Suspended\<close> is a request that waits for another one's load of the same model. \<open>Beyond\<close>
  marks the two inputs the model does not follow: an envelope with fields of types no door
  produces, and a deadline that is not finite. The grammar gate of \<^verbatim>\<open>correction.py\<close> is an argument, as
  are the clocks, the hash functions and the dispatcher's answer.
\<close>

subsection \<open>State\<close>

datatype wire = WireOpenAI | WireEnriched | WireLegacy

datatype outcome =
    Refused int string
  | RefusedRetry int string int "string option"
  | CacheHit json
  | Raised py_error
  | Suspended
  | Beyond

type_synonym caller_tally = "int \<times> (string, int) odict"

record smart_tally =
  sm_count :: int
  sm_sum :: real
  sm_min :: "real option"
  sm_max :: "real option"

record gateway =
  gw_draining :: bool
  gw_resolver :: resolver
  gw_standing :: standing_state
  gw_no_store :: ns_tally
  gw_unknown_endpoints :: "(string, caller_tally) odict"
  gw_vision_violations :: "(string, caller_tally) odict"
  gw_context_overflows :: "(string, caller_tally \<times> int) odict"
  gw_smart_shadow :: "(string, smart_tally) odict"
  gw_cache :: det_cache
  gw_timeouts :: timeout_model
  gw_proxy :: proxy
  gw_shed_depth :: int
  gw_flags :: "string \<Rightarrow> bool"

abbreviation gw_config :: "gateway \<Rightarrow> proxy_config" where
  "gw_config g \<equiv> sc_config (px_sched (gw_proxy g))"

record submit_env =
  sv_sha :: "string \<Rightarrow> string"
  sv_health :: health_env
  sv_deadlines :: deadline_config
  sv_now :: real
  sv_wall :: real
  sv_today :: string
  sv_fresh_id :: string
  sv_reply :: dispatcher_reply
  sv_p95 :: "string \<Rightarrow> real"
  sv_grammar :: "payload \<Rightarrow> payload \<times> bool"

abbreviation sv_roles :: "submit_env \<Rightarrow> (string, string) odict" where
  "sv_roles e \<equiv> he_roles (sv_health e)"

type_synonym 'a gated = "gateway \<times> (outcome + 'a)"

definition gate_bind :: "'a gated \<Rightarrow> (gateway \<Rightarrow> 'a \<Rightarrow> 'b gated) \<Rightarrow> 'b gated" where
  "gate_bind x f = (case x of (g, Inl out) \<Rightarrow> (g, Inl out) | (g, Inr a) \<Rightarrow> f g a)"

subsection \<open>Reading the body\<close>

text \<open>\<^verbatim>\<open>a or b\<close>.\<close>

definition j_or :: "json \<Rightarrow> json \<Rightarrow> json" where
  "j_or a b = (if truthy a then a else b)"

definition named_caller :: "payload \<Rightarrow> string" where
  "named_caller body = py_str (j_or (jget body ''caller_id'') (j_or (jget body ''agent_id'') (JStr ''unknown'')))"

definition tally_caller :: "string \<Rightarrow> string \<Rightarrow> (string, caller_tally) odict \<Rightarrow> (string, caller_tally) odict" where
  "tally_caller ep caller d =
     (let (n, cs) = od_get_or (0, []) d ep in od_put ep (n + 1, od_put caller (od_get_or 0 cs caller + 1) cs) d)"

fun parts_image :: "json list \<Rightarrow> bool py" where
  "parts_image [] = Inr False"
| "parts_image (JObj d # ps) =
     (case jget d ''type'' of
        JStr s \<Rightarrow> if s = ''image'' \<or> s = ''image_url'' then Inr True else parts_image ps
      | JList _ \<Rightarrow> Inl TypeError
      | JObj _ \<Rightarrow> Inl TypeError
      | _ \<Rightarrow> parts_image ps)"
| "parts_image (_ # ps) = parts_image ps"

fun messages_image :: "json list \<Rightarrow> bool py" where
  "messages_image [] = Inr False"
| "messages_image (m # ms) =
     (case m of
        JObj d \<Rightarrow>
          (case jget d ''content'' of
             JList ps \<Rightarrow> py_bind (parts_image ps) (\<lambda>b. if b then Inr True else messages_image ms)
           | _ \<Rightarrow> messages_image ms)
      | _ \<Rightarrow> messages_image ms)"

definition source_image :: "payload \<Rightarrow> bool py" where
  "source_image d = (case jget d ''messages'' of JList ms \<Rightarrow> messages_image ms | _ \<Rightarrow> Inr False)"

definition carries_image :: "payload \<Rightarrow> bool" where
  "carries_image body =
     (case py_bind (source_image body) (\<lambda>b. if b then Inr True
             else case jget body ''payload'' of JObj p \<Rightarrow> source_image p | _ \<Rightarrow> Inr False) of
        Inl _ \<Rightarrow> False
      | Inr b \<Rightarrow> b)"

definition resolve_endpoint :: "(string, string) odict \<Rightarrow> proxy_config \<Rightarrow> payload \<Rightarrow> string py" where
  "resolve_endpoint roles cfg body =
     (let submit_ep = normalize_endpoint roles (py_str (od_get_or (JStr ''chat'') body ''endpoint'')) in
      if od_get_or (JStr ''chat_completion'') body ''payload_type'' \<noteq> JStr ''chat_completion'' then Inr submit_ep
      else case j_or (jget body ''payload'') (JObj []) of
        JObj p \<Rightarrow>
          (if \<not> truthy (jget p ''model'') then Inr submit_ep
           else let model_ep = normalize_endpoint roles (py_str (jget p ''model'')) in
             Inr (if model_ep \<in> fst ` set (endpoints cfg) \<and> model_ep \<noteq> submit_ep then model_ep else submit_ep))
      | _ \<Rightarrow> Inl AttributeError)"

text \<open>Step 3 always finds a priority, because \<^verbatim>\<open>agent_config\<close> makes up a quota that has one; the fourth
  step of the source is never reached.\<close>

definition resolve_declared_priority :: "proxy_config \<Rightarrow> payload \<Rightarrow> string \<Rightarrow> principal \<Rightarrow> llm_priority py" where
  "resolve_declared_priority cfg body aid p =
     coerce (if jget body ''priority'' \<noteq> JNull then PJson (jget body ''priority'')
             else if p_priority_declared p then PMember (p_priority p)
             else PMember (default_priority (agent_config cfg aid)))
       (Some P1_TURN_SUPPORT)"

subsection \<open>Identity\<close>

definition g_identity :: "submit_env \<Rightarrow> wire \<Rightarrow> payload \<Rightarrow> request \<Rightarrow> gateway \<Rightarrow> (principal \<times> string \<times> string \<times> request) gated" where
  "g_identity e w body rq g =
     (if gw_draining g then (g, Inl (Refused 503 ''draining''))
      else case id_resolve (sv_sha e) (sv_wall e) (sv_today e) (gw_resolver g) rq of
        (Denied d, rs, _) \<Rightarrow> (g\<lparr>gw_resolver := rs\<rparr>, Inl (Refused (dn_status d) (dn_code d)))
      | (Granted p, rs, rq1) \<Rightarrow>
          (let g1 = g\<lparr>gw_resolver := rs\<rparr> in
           if authenticated p then
             (case delegate p (jget body ''agent_id'') of
                Denied d \<Rightarrow> (g1, Inl (Refused (dn_status d) (dn_code d)))
              | Granted p1 \<Rightarrow> (g1, Inr (p1, p_agent_id p, p_agent_id p1, rq1)))
           else if w = WireLegacy \<and> \<not> may_self_declare rs rq1 then (g1, Inr (p, p_agent_id p, p_agent_id p, rq1))
           else (g1, Inr (p, p_agent_id p, py_str (j_or (jget body ''agent_id'') (JStr (p_agent_id p))), rq1))))"

text \<open>The priority, with the request recorded before the standing is taken.\<close>

definition g_priority :: "submit_env \<Rightarrow> payload \<Rightarrow> principal \<Rightarrow> string \<Rightarrow> gateway \<Rightarrow> llm_priority gated" where
  "g_priority e body p aid g =
     (case resolve_declared_priority (gw_config g) body aid p of
        Inl x \<Rightarrow> (g, Inl (Raised x))
      | Inr declared \<Rightarrow>
          (case spend_demote aid declared (sv_wall e) (record_request aid (sv_wall e) (gw_standing g)) of
             (st, effective, _) \<Rightarrow> (g\<lparr>gw_standing := st\<rparr>, Inr effective)))"

definition g_no_store :: "principal \<Rightarrow> string \<Rightarrow> request \<Rightarrow> gateway \<Rightarrow> ns_decision gated" where
  "g_no_store p aid rq g =
     (case ns_parse_header (read_header rq) of
        Inl _ \<Rightarrow> (g, Inl (Refused 400 ''invalid_request_error''))
      | Inr asked \<Rightarrow>
          (let granted = (case od_get (agents (gw_config g)) aid of Some c \<Rightarrow> content_no_store c | None \<Rightarrow> False);
               d = ns_decide asked (authenticated p) aid granted (address_identities (rs_acl (gw_resolver g)))
           in (if ns_requested d then g\<lparr>gw_no_store := note_no_store d aid (gw_no_store g)\<rparr> else g, Inr d)))"

subsection \<open>Endpoint and vision\<close>

definition g_endpoint :: "submit_env \<Rightarrow> payload \<Rightarrow> gateway \<Rightarrow> string gated" where
  "g_endpoint e body g =
     (case resolve_endpoint (sv_roles e) (gw_config g) body of
        Inl x \<Rightarrow> (g, Inl (Raised x))
      | Inr ep \<Rightarrow>
          if ep \<in> fst ` set (endpoints (gw_config g)) then (g, Inr ep)
          else
            let g1 = g\<lparr>gw_unknown_endpoints := tally_caller ep (named_caller body) (gw_unknown_endpoints g)\<rparr>
            in if gw_flags g ''unknown_endpoint_enforce'' then (g1, Inl (Refused 404 ''unknown_endpoint'')) else (g1, Inr ep))"

definition g_vision :: "payload \<Rightarrow> string \<Rightarrow> gateway \<Rightarrow> unit gated" where
  "g_vision body ep g =
     (if carries_image body then
        (case od_get (endpoints (gw_config g)) ep of
           None \<Rightarrow> (g, Inr ())
         | Some c \<Rightarrow>
             if ep_vision c then (g, Inr ())
             else
               let g1 = g\<lparr>gw_vision_violations := tally_caller ep (named_caller body) (gw_vision_violations g)\<rparr>
               in if gw_flags g ''vision_capability_enforce'' then (g1, Inl (Refused 400 ''vision_not_supported'')) else (g1, Inr ()))
      else (g, Inr ()))"

subsection \<open>The deadline\<close>

definition default_timeout_s :: real where "default_timeout_s = 180"
definition smart_default_cap_s :: real where "smart_default_cap_s = 1800"

definition smart_default :: "submit_env \<Rightarrow> string \<Rightarrow> payload \<Rightarrow> gateway \<Rightarrow> real" where
  "smart_default e ep body g =
     (case py_bind (coerce (PJson (jget body ''priority'')) (Some P1_TURN_SUPPORT)) (\<lambda>pri.
             py_bind (case j_or (jget body ''payload'') (JObj []) of
                 JObj p \<Rightarrow>
                   py_bind (estimate_input_tokens p) (\<lambda>n.
                     Inr (n, case as_int (jget p ''max_tokens'') of Some m \<Rightarrow> (if m > 0 then m else 0) | None \<Rightarrow> 0))
               | _ \<Rightarrow> Inr (0, 0)) (\<lambda>(n_in, n_out).
               Inr (recommended_timeout_s
                 (effective_timeout_advice (sv_roles e) (sv_deadlines e) (gw_timeouts g) (px_sched (gw_proxy g)) ep (prio_int pri) n_in n_out)))) of
        Inl _ \<Rightarrow> default_timeout_s
      | Inr rec \<Rightarrow> if rec > 0 then min (of_int rec) smart_default_cap_s else default_timeout_s)"

definition tally_smart :: "string \<Rightarrow> real \<Rightarrow> (string, smart_tally) odict \<Rightarrow> (string, smart_tally) odict" where
  "tally_smart ep s d =
     (let t = od_get_or \<lparr>sm_count = 0, sm_sum = 0, sm_min = None, sm_max = None\<rparr> d ep in
      od_put ep \<lparr>sm_count = sm_count t + 1, sm_sum = sm_sum t + s,
                 sm_min = Some (case sm_min t of None \<Rightarrow> s | Some m \<Rightarrow> min m s),
                 sm_max = Some (case sm_max t of None \<Rightarrow> s | Some m \<Rightarrow> max m s)\<rparr> d)"

definition resolve_default_timeout :: "submit_env \<Rightarrow> string \<Rightarrow> payload \<Rightarrow> gateway \<Rightarrow> gateway \<times> real" where
  "resolve_default_timeout e ep body g =
     (let s = smart_default e ep body g in
      (g\<lparr>gw_smart_shadow := tally_smart (normalize_endpoint (sv_roles e) ep) s (gw_smart_shadow g)\<rparr>,
       if gw_flags g ''smart_default_timeout'' then s else default_timeout_s))"

text \<open>\<^verbatim>\<open>float(x)\<close> of a JSON value. An integer too large for a double raises.\<close>

definition float_of_json :: "json \<Rightarrow> pyfloat py" where
  "float_of_json v =
     (case v of
        JBool b \<Rightarrow> Inr (Finite (if b then 1 else 0))
      | JInt i \<Rightarrow> if \<bar>i\<bar> \<ge> 2 ^ 1024 - 2 ^ 970 then Inl OverflowError else Inr (Finite (of_int i))
      | JFloat r _ \<Rightarrow> Inr (Finite r)
      | JStr s \<Rightarrow> (case py_float_text s of Some x \<Rightarrow> Inr x | None \<Rightarrow> Inl ValueError)
      | _ \<Rightarrow> Inl TypeError)"

text \<open>The deadline of the caller, if it sent one that can be used.\<close>

definition caller_timeout :: "json \<Rightarrow> real option py" where
  "caller_timeout raw =
     (if raw = JNull then Inr None
      else case float_of_json raw of
        Inl OverflowError \<Rightarrow> Inl OverflowError
      | Inr (Finite t) \<Rightarrow> Inr (if t > 0 then Some t else None)
      | _ \<Rightarrow> Inr None)"

definition pf_less :: "pyfloat \<Rightarrow> pyfloat \<Rightarrow> bool" where
  "pf_less a b =
     (case (a, b) of
        (Finite x, Finite y) \<Rightarrow> x < y
      | (Finite _, PosInf) \<Rightarrow> True
      | (NegInf, Finite _) \<Rightarrow> True
      | (NegInf, PosInf) \<Rightarrow> True
      | _ \<Rightarrow> False)"

definition floor_at :: "pyfloat \<Rightarrow> pyfloat \<Rightarrow> pyfloat" where
  "floor_at lo t = (if pf_less t lo then lo else t)"

text \<open>The deadline and whether it is the proxy's own choice.\<close>

definition g_deadline :: "submit_env \<Rightarrow> payload \<Rightarrow> principal \<Rightarrow> string \<Rightarrow> gateway \<Rightarrow> (pyfloat \<times> bool) gated" where
  "g_deadline e body p ep g =
     (case caller_timeout (jget body ''timeout_s'') of
        Inl x \<Rightarrow> (g, Inl (Raised x))
      | Inr own \<Rightarrow>
          (let (g1, t1) = (case own of
                 Some t \<Rightarrow> (g, Finite t)
               | None \<Rightarrow> (case resolve_default_timeout e ep body g of (g1, t) \<Rightarrow>
                            (g1, case p_min_timeout_s p of Some m \<Rightarrow> floor_at m (Finite t) | None \<Rightarrow> Finite t)));
               t2 = (if manages (px_on_demand (gw_proxy g1)) ep
                     then floor_at (Finite (tm_floor_ms (sv_roles e) (gw_timeouts g1) ep / 1000)) t1 else t1)
           in (g1, Inr (t2, own = None))))"

subsection \<open>Construction\<close>

definition absent_or :: "(json \<Rightarrow> bool) \<Rightarrow> payload \<Rightarrow> string \<Rightarrow> bool" where
  "absent_or P body k = (case od_get body k of None \<Rightarrow> True | Some v \<Rightarrow> P v)"

fun is_jstr :: "json \<Rightarrow> bool" where
  "is_jstr (JStr _) = True"
| "is_jstr _ = False"

fun is_jbool :: "json \<Rightarrow> bool" where
  "is_jbool (JBool _) = True"
| "is_jbool _ = False"

fun is_jobj :: "json \<Rightarrow> bool" where
  "is_jobj (JObj _) = True"
| "is_jobj _ = False"

text \<open>The types the doors give the fields that are handed on as they are.\<close>

definition envelope_ok :: "payload \<Rightarrow> bool" where
  "envelope_ok body \<longleftrightarrow>
     list_all (absent_or is_jstr body) [''call_site'', ''payload_type''] \<and>
     list_all (absent_or (\<lambda>v. v = JNull \<or> is_jstr v) body) [''session_id'', ''turn_id'', ''caller_id'', ''request_id''] \<and>
     list_all (absent_or (\<lambda>v. v = JNull \<or> is_jbool v) body) [''allow_degrade'', ''allow_spill''] \<and>
     absent_or is_jobj body ''payload''"

definition str_field :: "payload \<Rightarrow> string \<Rightarrow> string option" where
  "str_field body k = (case jget body k of JStr s \<Rightarrow> Some s | _ \<Rightarrow> None)"

definition bool_field :: "payload \<Rightarrow> string \<Rightarrow> bool option" where
  "bool_field body k = (case jget body k of JBool b \<Rightarrow> Some b | _ \<Rightarrow> None)"

definition dict_or_nil :: "json \<Rightarrow> payload" where
  "dict_or_nil v = (case v of JObj d \<Rightarrow> d | _ \<Rightarrow> [])"

definition the_str :: "string \<Rightarrow> string option \<Rightarrow> string" where
  "the_str d x = (case x of Some s \<Rightarrow> s | None \<Rightarrow> d)"

definition submit_args ::
  "payload \<Rightarrow> principal \<Rightarrow> string \<Rightarrow> string \<Rightarrow> llm_priority \<Rightarrow> ns_decision \<Rightarrow> string \<Rightarrow> real \<Rightarrow> bool \<Rightarrow> create_args" where
  "submit_args body p credential_agent_id aid pri ns ep ts is_default =
     \<lparr>ca_agent_id = aid, ca_endpoint = ep, ca_priority = PMember pri,
      ca_call_site = the_str ''unknown'' (str_field body ''call_site''),
      ca_payload_type = the_str ''chat_completion'' (str_field body ''payload_type''),
      ca_payload = dict_or_nil (jget body ''payload''), ca_timeout_s = ts,
      ca_session_id = str_field body ''session_id'', ca_turn_id = str_field body ''turn_id'',
      ca_caller_id = str_field body ''caller_id'', ca_request_id = str_field body ''request_id'',
      ca_deadline_is_default = is_default,
      ca_declared_agent_id = py_str (or_empty (jget body ''declared_agent_id'')),
      ca_asserted_by_key_id = (if aid \<noteq> credential_agent_id then the_str [] (p_key_id p) else []),
      ca_requested = py_str (or_empty (jget body ''requested'')),
      ca_allow_degrade = bool_field body ''allow_degrade'',
      ca_allow_spill = (if ns_honoured ns then Some False else bool_field body ''allow_spill''),
      ca_no_store_outcome = ns_outcome ns\<rparr>"

definition g_create ::
  "submit_env \<Rightarrow> payload \<Rightarrow> principal \<Rightarrow> string \<Rightarrow> string \<Rightarrow> llm_priority \<Rightarrow> ns_decision \<Rightarrow> string \<Rightarrow> pyfloat \<Rightarrow> bool
     \<Rightarrow> gateway \<Rightarrow> queued_request gated" where
  "g_create e body p credential_agent_id aid pri ns ep t is_default g =
     (case t of
        Finite ts \<Rightarrow>
          if \<not> envelope_ok body then (g, Inl Beyond)
          else
            (case create (sv_roles e) (sv_fresh_id e) (sv_now e) (submit_args body p credential_agent_id aid pri ns ep ts is_default) of
               Inl x \<Rightarrow> (g, Inl (Raised x))
             | Inr r \<Rightarrow> (g, Inr r))
      | _ \<Rightarrow> (g, Inl Beyond))"

subsection \<open>The shape of the request\<close>

definition messages_valid :: "json \<Rightarrow> bool" where
  "messages_valid v = (case v of JNull \<Rightarrow> True | JList ms \<Rightarrow> list_all is_jobj ms | _ \<Rightarrow> False)"

definition g_messages :: "queued_request \<Rightarrow> gateway \<Rightarrow> unit gated" where
  "g_messages r g =
     (if payload_type r = ''chat_completion'' \<and> \<not> messages_valid (jget (rq_payload r) ''messages'')
      then (g, Inl (Refused 400 ''invalid_messages'')) else (g, Inr ()))"

definition g_grammar :: "submit_env \<Rightarrow> queued_request \<Rightarrow> gateway \<Rightarrow> queued_request gated" where
  "g_grammar e r g =
     (if payload_type r = ''chat_completion''
      then (case sv_grammar e (rq_payload r) of
              (p, bad) \<Rightarrow> if bad then (g, Inl (Refused 422 ''invalid_grammar'')) else (g, Inr (r\<lparr>rq_payload := p\<rparr>)))
      else (g, Inr r))"

definition g_context :: "payload \<Rightarrow> queued_request \<Rightarrow> gateway \<Rightarrow> queued_request gated" where
  "g_context body r g =
     (if payload_type r = ''chat_completion'' then
        (let ctx_limit = (case od_get (endpoints (gw_config g)) (rq_endpoint r) of Some c \<Rightarrow> context_per_slot c | None \<Rightarrow> 0);
             r1 = r\<lparr>ctx_per_slot_at_admission := ctx_limit\<rparr>
         in case context_fit (rq_payload r1) (payload_type r1) ctx_limit of
              Inl x \<Rightarrow> (g, Inl (Raised x))
            | Inr fit \<Rightarrow>
                if fits fit then (g, Inr r1)
                else
                  let caller = py_str (j_or (jget body ''caller_id'') (JStr (agent_id r1)));
                      (row, worst) = od_get_or ((0, []), 0) (gw_context_overflows g) (rq_endpoint r1);
                      row1 = (fst row + 1, od_put caller (od_get_or 0 (snd row) caller + 1) (snd row));
                      g1 = g\<lparr>gw_context_overflows := od_put (rq_endpoint r1) (row1, max worst (est_in fit)) (gw_context_overflows g)\<rparr>
                  in if gw_flags g ''context_gate_enforce'' then (g1, Inl (Refused 422 ''context_overflow'')) else (g1, Inr r1))
      else (g, Inr r))"

subsection \<open>Cache and model load\<close>

text \<open>\<^verbatim>\<open>no_store.engaged\<close>.\<close>

definition engaged :: "queued_request \<Rightarrow> bool" where
  "engaged r = (no_store_outcome r = ''honoured'')"

definition g_cache :: "submit_env \<Rightarrow> queued_request \<Rightarrow> gateway \<Rightarrow> string option gated" where
  "g_cache e r g =
     (case (if engaged r then None else cache_key (sv_sha e) (rq_endpoint r) (rq_payload r)) of
        None \<Rightarrow> (g, Inr None)
      | Some k \<Rightarrow>
          (case cache_get k (sv_now e) (gw_cache g) of
             (c, Some v) \<Rightarrow> if truthy v then (g\<lparr>gw_cache := c\<rparr>, Inl (CacheHit v)) else (g\<lparr>gw_cache := c\<rparr>, Inr (Some k))
           | (c, None) \<Rightarrow> (g\<lparr>gw_cache := c\<rparr>, Inr (Some k))))"

definition with_on_demand :: "(on_demand_manager \<Rightarrow> on_demand_manager) \<Rightarrow> gateway \<Rightarrow> gateway" where
  "with_on_demand f g = g\<lparr>gw_proxy := (gw_proxy g)\<lparr>px_on_demand := f (px_on_demand (gw_proxy g))\<rparr>\<rparr>"

text \<open>\<^verbatim>\<open>ensure_loaded\<close>, with the dispatcher's answer.\<close>

definition ensure_loaded :: "string \<Rightarrow> real \<Rightarrow> dispatcher_reply \<Rightarrow> on_demand_manager \<Rightarrow> on_demand_manager \<times> (ensure_error option) option" where
  "ensure_loaded ep now reply m =
     (case od_ensure_enter ep now m of
        (m1, Waiting) \<Rightarrow> (m1, None)
      | (m1, Posting) \<Rightarrow>
          (case od_get (od_states m1) ep of
             Some st \<Rightarrow> (case ensure_reply reply now st of (st1, x) \<Rightarrow> (m1\<lparr>od_states := od_put ep st1 (od_states m1)\<rparr>, Some x))
           | None \<Rightarrow> (m1, Some None))
      | (m1, _) \<Rightarrow> (m1, Some None))"

definition g_load :: "submit_env \<Rightarrow> queued_request \<Rightarrow> gateway \<Rightarrow> unit gated" where
  "g_load e r g =
     (if manages (px_on_demand (gw_proxy g)) (rq_endpoint r) then
        (case ensure_loaded (rq_endpoint r) (sv_now e) (sv_reply e) (px_on_demand (gw_proxy g)) of
           (m, res) \<Rightarrow>
             (let g1 = with_on_demand (\<lambda>_. m) g in
              case res of
                None \<Rightarrow> (g1, Inl Suspended)
              | Some None \<Rightarrow> (g1, Inr ())
              | Some (Some OnDemandUnavailable) \<Rightarrow> (g1, Inl (Refused 503 ''on_demand_unavailable''))
              | Some (Some NotJson) \<Rightarrow> (g1, Inl (Raised ValueError))
              | Some (Some NoGet) \<Rightarrow> (g1, Inl (Raised AttributeError))))
      else (g, Inr ()))"

subsection \<open>Circuit and load shedding\<close>

definition lease_back :: "submit_env \<Rightarrow> string \<Rightarrow> gateway \<Rightarrow> gateway" where
  "lease_back e ep g = with_on_demand (od_request_done ep (sv_now e)) g"

definition set_failover :: "failover_state \<Rightarrow> gateway \<Rightarrow> gateway" where
  "set_failover fo g = g\<lparr>gw_proxy := (gw_proxy g)\<lparr>px_failover := fo\<rparr>\<rparr>"

abbreviation gw_fo_env :: "submit_env \<Rightarrow> gateway \<Rightarrow> fo_env" where
  "gw_fo_env e g \<equiv> plan_env (sv_health e) (sv_now e) (gw_proxy g)"

definition circuit_code :: "submit_env \<Rightarrow> string \<Rightarrow> proxy \<Rightarrow> string" where
  "circuit_code e src p =
     (if src \<in> set (px_paused p) then ''draining''
      else if src \<in> set (px_collapsed p) \<and> he_goodput_enforce (sv_health e) then ''goodput_collapse''
      else ''circuit_open'')"

definition refuse_circuit :: "submit_env \<Rightarrow> queued_request \<Rightarrow> string \<Rightarrow> failover_plan \<Rightarrow> gateway \<Rightarrow> queued_request gated" where
  "refuse_circuit e r src plan g =
     (let g1 = (if refusal_code plan \<noteq> None
                then set_failover (record_refusal (gw_fo_env e g) r plan (px_failover (gw_proxy g))) g else g)
      in (lease_back e (rq_endpoint r) g1,
          Inl (RefusedRetry 503 (circuit_code e src (gw_proxy g)) (retry_after_s (sv_p95 e src)) (refusal_code plan))))"

definition g_circuit :: "submit_env \<Rightarrow> queued_request \<Rightarrow> gateway \<Rightarrow> queued_request gated" where
  "g_circuit e r g =
     (if endpoint_healthy (sv_health e) (sv_now e) (gw_proxy g) (rq_endpoint r) then (g, Inr r)
      else
        let src = normalize_endpoint (sv_roles e) (rq_endpoint r);
            g1 = set_failover (fo_refresh (gw_fo_env e g) (sv_now e) (px_failover (gw_proxy g))) g
        in case fo_plan (gw_fo_env e g1) (px_failover (gw_proxy g1)) r of
             Inl x \<Rightarrow> (g1, Inl (Raised x))
           | Inr plan \<Rightarrow>
               (case fp_target plan of
                  Some tgt \<Rightarrow>
                    (let g2 = lease_back e (rq_endpoint r) g1 in
                     case fo_apply (gw_fo_env e g2) r tgt (px_failover (gw_proxy g2)) of
                       (r1, fo, x) \<Rightarrow> (set_failover fo g2, case x of Some err \<Rightarrow> Inl (Raised err) | None \<Rightarrow> Inr r1))
                | None \<Rightarrow> if rq_band r \<noteq> BACKGROUND then refuse_circuit e r src plan g1 else (g1, Inr r)))"

definition g_shed :: "submit_env \<Rightarrow> queued_request \<Rightarrow> gateway \<Rightarrow> unit gated" where
  "g_shed e r g =
     (if rq_band r \<noteq> INTERACTIVE \<and>
         int (od_get_or 0 (sn_queue_by_band (endpoint_snapshot (rq_endpoint r) (px_sched (gw_proxy g)))) (band_name (rq_band r))) \<ge> gw_shed_depth g
      then (lease_back e (rq_endpoint r) g, Inl (RefusedRetry 429 ''backpressure'' (retry_after_s (sv_p95 e (rq_endpoint r))) None))
      else (g, Inr ()))"

subsection \<open>The handler\<close>

text \<open>Who calls, at which priority and with which grant.\<close>

definition submit_caller :: "submit_env \<Rightarrow> wire \<Rightarrow> payload \<Rightarrow> request \<Rightarrow> gateway
    \<Rightarrow> (principal \<times> string \<times> string \<times> llm_priority \<times> ns_decision) gated" where
  "submit_caller e w body rq g =
     gate_bind (g_identity e w body rq g) (\<lambda>g1 (p, cred, aid, rq1).
     gate_bind (g_priority e body p aid g1) (\<lambda>g2 pri.
     gate_bind (g_no_store p aid rq1 g2) (\<lambda>g3 ns. (g3, Inr (p, cred, aid, pri, ns)))))"

text \<open>The request it makes.\<close>

definition submit_request :: "submit_env \<Rightarrow> payload \<Rightarrow> principal \<Rightarrow> string \<Rightarrow> string \<Rightarrow> llm_priority \<Rightarrow> ns_decision
    \<Rightarrow> gateway \<Rightarrow> queued_request gated" where
  "submit_request e body p cred aid pri ns g =
     gate_bind (g_endpoint e body g) (\<lambda>g1 ep.
     gate_bind (g_vision body ep g1) (\<lambda>g2 _.
     gate_bind (g_deadline e body p ep g2) (\<lambda>g3 (t, is_default).
     gate_bind (g_create e body p cred aid pri ns ep t is_default g3) (\<lambda>g4 r.
     gate_bind (g_messages r g4) (\<lambda>g5 _.
     gate_bind (g_grammar e r g5) (\<lambda>g6 r1. g_context body r1 g6))))))"

text \<open>Whether and where it may run.\<close>

definition submit_gates :: "submit_env \<Rightarrow> queued_request \<Rightarrow> gateway \<Rightarrow> (queued_request \<times> string option) gated" where
  "submit_gates e r g =
     gate_bind (g_cache e r g) (\<lambda>g1 key.
     gate_bind (g_load e r g1) (\<lambda>g2 _.
     gate_bind (g_circuit e r g2) (\<lambda>g3 r1.
     gate_bind (g_shed e r1 g3) (\<lambda>g4 _. (g4, Inr (r1, key))))))"

definition handle_submit :: "submit_env \<Rightarrow> wire \<Rightarrow> payload \<Rightarrow> request \<Rightarrow> gateway \<Rightarrow> (queued_request \<times> string option) gated" where
  "handle_submit e w body rq g =
     gate_bind (submit_caller e w body rq g) (\<lambda>g1 (p, cred, aid, pri, ns).
     gate_bind (submit_request e body p cred aid pri ns g1) (\<lambda>g2 r. submit_gates e r g2))"

subsection \<open>Lemmas: composing gates\<close>

lemma gate_bind_simps [simp]:
  "gate_bind (g, Inl out) f = (g, Inl out)"
  "gate_bind (g, Inr a) f = f g a"
  by (simp_all add: gate_bind_def)

lemma gate_bind_Inr: "gate_bind x f = (g', Inr b) \<longleftrightarrow> (\<exists>g a. x = (g, Inr a) \<and> f g a = (g', Inr b))"
  by (cases x; cases "snd x") (auto simp: gate_bind_def)

lemma gate_bind_Inl:
  "gate_bind x f = (g', Inl out) \<longleftrightarrow> x = (g', Inl out) \<or> (\<exists>g a. x = (g, Inr a) \<and> f g a = (g', Inl out))"
  by (cases x; cases "snd x") (auto simp: gate_bind_def)

text \<open>A property of the state that every gate keeps is kept by their composition.\<close>

lemma gate_bind_keeps:
  assumes "P (fst x)" "\<And>g a. x = (g, Inr a) \<Longrightarrow> P g \<Longrightarrow> P (fst (f g a))" shows "P (fst (gate_bind x f))"
  using assms by (cases x; cases "snd x") (auto simp: gate_bind_def)

text \<open>The gates before the cache touch neither the cache nor the part of the state the last gates
  work on.\<close>

definition front_only :: "gateway \<Rightarrow> gateway \<Rightarrow> bool" where
  "front_only g g' \<longleftrightarrow> gw_cache g' = gw_cache g \<and> gw_proxy g' = gw_proxy g \<and> gw_timeouts g' = gw_timeouts g \<and> gw_flags g' = gw_flags g
     \<and> gw_shed_depth g' = gw_shed_depth g"

lemma front_refl [simp]: "front_only g g"
  by (simp add: front_only_def)

lemma front_trans: "front_only g h \<Longrightarrow> front_only h k \<Longrightarrow> front_only g k"
  by (simp add: front_only_def)

lemma front_identity: "front_only g (fst (g_identity e w body rq g))"
  by (cases "id_resolve (sv_sha e) (sv_wall e) (sv_today e) (gw_resolver g) rq")
    (simp add: g_identity_def front_only_def Let_def split: id_resolution.split)

lemma front_priority: "front_only g (fst (g_priority e body p aid g))"
  by (simp add: g_priority_def front_only_def split: sum.split prod.split)

lemma front_no_store: "front_only g (fst (g_no_store p aid rq g))"
  by (simp add: g_no_store_def front_only_def Let_def split: sum.split)

lemma front_endpoint: "front_only g (fst (g_endpoint e body g))"
  by (simp add: g_endpoint_def front_only_def Let_def split: sum.split)

lemma front_vision: "front_only g (fst (g_vision body ep g))"
  by (simp add: g_vision_def front_only_def Let_def split: option.split)

lemma front_deadline: "front_only g (fst (g_deadline e body p ep g))"
  by (simp add: g_deadline_def front_only_def resolve_default_timeout_def Let_def split: sum.split option.split)

lemma front_create: "front_only g (fst (g_create e body p cred aid pri ns ep t d g))"
  by (simp add: g_create_def front_only_def split: pyfloat.split sum.split)

lemma front_messages: "front_only g (fst (g_messages r g))"
  by (simp add: g_messages_def)

lemma front_grammar: "front_only g (fst (g_grammar e r g))"
  by (simp add: g_grammar_def split: prod.split)

lemma front_context: "front_only g (fst (g_context body r g))"
  by (simp add: g_context_def front_only_def Let_def split: sum.split prod.split)

lemmas front_gates = front_identity front_priority front_no_store front_endpoint front_vision front_deadline front_create
  front_messages front_grammar front_context

lemma front_bind:
  assumes "front_only g (fst x)" "\<And>h a. front_only h (fst (f h a))" shows "front_only g (fst (gate_bind x f))"
  by (rule gate_bind_keeps[of "front_only g"]) (use assms in \<open>auto intro: front_trans\<close>)

lemma front_submit_caller: "front_only g (fst (submit_caller e w body rq g))"
  unfolding submit_caller_def by (intro front_bind front_gates) (auto intro!: front_bind front_gates)

lemma front_submit_request: "front_only g (fst (submit_request e body p cred aid pri ns g))"
  unfolding submit_request_def by (auto intro!: front_bind front_gates split: prod.split)

text \<open>What the later gates leave of a request as it was created.\<close>

definition same_terms :: "queued_request \<Rightarrow> queued_request \<Rightarrow> bool" where
  "same_terms r s \<longleftrightarrow> agent_id s = agent_id r \<and> rq_priority s = rq_priority r \<and> rq_band s = rq_band r \<and> allow_spill s = allow_spill r \<and>
     allow_degrade s = allow_degrade r \<and> no_store_outcome s = no_store_outcome r \<and> timeout_s s = timeout_s r \<and>
     timeout_deadline s = timeout_deadline r \<and> deadline_is_default s = deadline_is_default r \<and> request_id s = request_id r"

lemma same_terms_refl [simp]: "same_terms r r"
  by (simp add: same_terms_def)

lemma same_terms_trans: "same_terms r s \<Longrightarrow> same_terms s t \<Longrightarrow> same_terms r t"
  by (simp add: same_terms_def)

lemma g_grammar_terms: "g_grammar e r g = (g', Inr s) \<Longrightarrow> same_terms r s"
  by (auto simp: g_grammar_def same_terms_def split: if_splits prod.splits)

lemma g_context_terms: "g_context body r g = (g', Inr s) \<Longrightarrow> same_terms r s"
  by (auto simp: g_context_def same_terms_def Let_def split: if_splits sum.splits prod.splits)

lemma fo_apply_terms: "fo_apply e r tgt st = (s, st', x) \<Longrightarrow> same_terms r s"
  by (auto simp: fo_apply_def same_terms_def Let_def split: option.splits)

lemma g_circuit_terms: "g_circuit e r g = (g', Inr s) \<Longrightarrow> same_terms r s"
  by (auto simp: g_circuit_def refuse_circuit_def Let_def split: if_splits sum.splits option.splits prod.splits dest: fo_apply_terms)

lemma submit_request_created:
  assumes "submit_request e body p cred aid pri ns g = (g', Inr r)"
  obtains ep t d g3 r0 where "g_deadline e body p ep g3 = (fst (g_deadline e body p ep g3), Inr (t, d))" "front_only g g3"
    "g_create e body p cred aid pri ns ep t d (fst (g_deadline e body p ep g3)) = (fst (g_deadline e body p ep g3), Inr r0)" "same_terms r0 r"
proof -
  from assms obtain g1 ep g2 g3 t d g4 r0 g5 g6 r1 where s:
    "g_endpoint e body g = (g1, Inr ep)" "g_vision body ep g1 = (g2, Inr ())" "g_deadline e body p ep g2 = (g3, Inr (t, d))"
    "g_create e body p cred aid pri ns ep t d g3 = (g4, Inr r0)" "g_grammar e r0 g5 = (g6, Inr r1)" "g_context body r1 g6 = (g', Inr r)"
    by (auto simp: submit_request_def gate_bind_Inr)
  have "front_only g g2" using front_gates(4)[of g e body] front_gates(5)[of g1 body ep] s(1,2) by (auto intro: front_trans)
  moreover have "g4 = g3" using s(4) by (auto simp: g_create_def split: pyfloat.splits if_splits sum.splits)
  moreover have "same_terms r0 r" using g_grammar_terms[OF s(5)] g_context_terms[OF s(6)] by (rule same_terms_trans)
  ultimately show ?thesis using that[of ep g2 t d r0] s(3,4) by simp
qed

lemma handle_submit_admitted:
  assumes "handle_submit e w body rq g = (g', Inr (r, key))"
  obtains p cred aid rq1 g1 pri ns g3 g4 g5 r0 where
    "g_identity e w body rq g = (g1, Inr (p, cred, aid, rq1))" "submit_caller e w body rq g = (g3, Inr (p, cred, aid, pri, ns))"
    "submit_request e body p cred aid pri ns g3 = (g4, Inr r0)" "submit_gates e r0 g4 = (g', Inr (r, key))"
    "front_only g g4" "same_terms r0 r"
proof -
  from assms obtain g3 p cred aid pri ns g4 r0 where s: "submit_caller e w body rq g = (g3, Inr (p, cred, aid, pri, ns))"
    "submit_request e body p cred aid pri ns g3 = (g4, Inr r0)" "submit_gates e r0 g4 = (g', Inr (r, key))"
    by (auto simp: handle_submit_def gate_bind_Inr)
  from s(1) obtain g1 rq1 where i: "g_identity e w body rq g = (g1, Inr (p, cred, aid, rq1))"
    by (auto simp: submit_caller_def gate_bind_Inr)
  have "front_only g g4" using front_submit_caller[of g e w body rq] front_submit_request[of g3 e body p cred aid pri ns] s by (auto intro: front_trans)
  moreover have "same_terms r0 r" using s(3) by (auto simp: submit_gates_def gate_bind_Inr dest: g_circuit_terms)
  ultimately show ?thesis using that[OF i s] by blast
qed

subsection \<open>Who an admitted request belongs to\<close>

lemma read_header_noted: "read_header (r\<lparr>rq_noted := n\<rparr>) = read_header r"
  by (cases r) (simp add: read_header_def)

lemma note_request_facts:
  assumes "note_placeholder today rs r = (rs', r')"
  shows "may_self_declare rs' r' = may_self_declare rs r" "read_header r' = read_header r" "rs_acl rs' = rs_acl rs"
  using note_same_decisions[of rs r today] assms
  by (auto simp: same_decisions_def may_self_declare_def read_header_noted)

lemma delegate_cases:
  assumes "delegate q v = Granted p"
  shows "p = q \<or> (\<exists>n \<in> p_may_assert q. p = q\<lparr>p_agent_id := n\<rparr>)"
  using assms by (auto simp: delegate_def Let_def split: if_splits)

lemma g_identity_admits:
  assumes "g_identity e w body rq g = (g1, Inr (p, cred, aid, rq1))"
  shows "\<exists>q. decide (sv_sha e) (sv_wall e) (gw_resolver g) rq = Granted q \<and> cred = p_agent_id q \<and> authenticated p = authenticated q \<and>
      read_header rq1 = read_header rq \<and> rs_acl (gw_resolver g1) = rs_acl (gw_resolver g) \<and>
      (if authenticated q then aid = p_agent_id q \<or> aid \<in> p_may_assert q
       else aid = p_agent_id q \<or> aid = py_str (jget body ''agent_id'') \<and> (w = WireLegacy \<longrightarrow> may_self_declare (gw_resolver g) rq))"
proof -
  obtain d rs rq2 where d: "id_resolve (sv_sha e) (sv_wall e) (sv_today e) (gw_resolver g) rq = (d, rs, rq2)" by (metis prod_cases3)
  then have q: "d = decide (sv_sha e) (sv_wall e) (gw_resolver g) rq" and n: "note_placeholder (sv_today e) (gw_resolver g) rq = (rs, rq2)"
    by (simp_all add: id_resolve_def)
  note f = note_request_facts[OF n]
  obtain q where "d = Granted q" using assms d by (cases d) (auto simp: g_identity_def split: if_splits)
  with d q have r: "id_resolve (sv_sha e) (sv_wall e) (sv_today e) (gw_resolver g) rq = (Granted q, rs, rq2)"
    and dq: "decide (sv_sha e) (sv_wall e) (gw_resolver g) rq = Granted q" by simp_all
  show ?thesis
  proof (cases "authenticated q")
    case True
    then obtain p1 where "delegate q (jget body ''agent_id'') = Granted p1" "p = p1" "aid = p_agent_id p1" "cred = p_agent_id q"
        "rq1 = rq2" "gw_resolver g1 = rs"
      using assms r by (auto simp: g_identity_def Let_def split: if_splits id_resolution.splits)
    with delegate_cases[of q "jget body ''agent_id''" p1] show ?thesis
      using dq f True by (intro exI[of _ q]) (auto simp: authenticated_def)
  next
    case False
    then have "p = q" "cred = p_agent_id q" "rq1 = rq2" "gw_resolver g1 = rs"
        "aid = (if w = WireLegacy \<and> \<not> may_self_declare rs rq2 then p_agent_id q else py_str (j_or (jget body ''agent_id'') (JStr (p_agent_id q))))"
      using assms r by (auto simp: g_identity_def Let_def split: if_splits)
    with False dq f show ?thesis by (intro exI[of _ q]) (simp add: j_or_def py_str_def)
  qed
qed

lemma g_create_fields:
  assumes "g_create e body p cred aid pri ns ep t d g = (g', Inr r)"
  shows "t = Finite (timeout_s r) \<and> agent_id r = aid \<and> rq_priority r = pri \<and> rq_band r = priority_to_band pri \<and>
    no_store_outcome r = ns_outcome ns \<and> allow_spill r = (if ns_honoured ns then Some False else bool_field body ''allow_spill'') \<and>
    deadline_is_default r = d \<and> timeout_deadline r = sv_now e + timeout_s r"
proof -
  obtain ts where ts: "t = Finite ts" using assms by (cases t) (simp_all add: g_create_def)
  obtain x where "create (sv_roles e) (sv_fresh_id e) (sv_now e) (submit_args body p cred aid pri ns ep ts d) = Inr x" "x = r"
    using assms ts by (auto simp: g_create_def split: if_splits sum.splits)
  then show ?thesis unfolding ts create_def submit_args_def by (auto simp: coerce_def Let_def)
qed

lemma admitted_agent:
  assumes "submit_request e body p cred aid pri ns g = (g', Inr r)"
  shows "agent_id r = aid" "rq_priority r = pri" "rq_band r = priority_to_band pri" "no_store_outcome r = ns_outcome ns"
    "allow_spill r = (if ns_honoured ns then Some False else bool_field body ''allow_spill'')"
  by (rule submit_request_created[OF assms]; drule g_create_fields; simp add: same_terms_def)+

text \<open>C6: no request is admitted for a caller that was not identified, nor under a name that is not
  the caller's to use. The resolver granted an identity; if it came from a credential, the request runs as
  that identity or as a name the operator listed for it, whatever the body claims; if it came from
  an address the body may fill in a name, on the legacy door only from an unforwarded internal
  address.\<close>

theorem admitted_only_as_identified:
  assumes "handle_submit e w body rq g = (g', Inr (r, key))"
  shows "\<exists>p. decide (sv_sha e) (sv_wall e) (gw_resolver g) rq = Granted p \<and>
    (if authenticated p then agent_id r = p_agent_id p \<or> agent_id r \<in> p_may_assert p
     else agent_id r = p_agent_id p \<or>
       agent_id r = py_str (jget body ''agent_id'') \<and> (w = WireLegacy \<longrightarrow> may_self_declare (gw_resolver g) rq))"
proof -
  obtain p cred aid rq1 g1 pri ns g3 g4 r0 where i: "g_identity e w body rq g = (g1, Inr (p, cred, aid, rq1))"
    and s: "submit_request e body p cred aid pri ns g3 = (g4, Inr r0)" and r: "same_terms r0 r"
    by (rule handle_submit_admitted[OF assms]) blast
  have "agent_id r = aid" using admitted_agent(1)[OF s] r by (simp add: same_terms_def)
  with g_identity_admits[OF i] show ?thesis by blast
qed

subsection \<open>A request that is not to be stored\<close>

lemma g_no_store_decides:
  assumes "g_no_store p aid rq g = (g', Inr ns)"
  shows "\<exists>asked. ns_parse_header (read_header rq) = Inr asked \<and>
    ns = ns_decide asked (authenticated p) aid (case od_get (agents (gw_config g)) aid of Some c \<Rightarrow> content_no_store c | None \<Rightarrow> False)
           (address_identities (rs_acl (gw_resolver g)))"
  using assms by (auto simp: g_no_store_def Let_def split: sum.splits)

lemma submit_caller_steps:
  assumes "submit_caller e w body rq g = (g3, Inr (p, cred, aid, pri, ns))"
  obtains g1 g2 rq1 where "g_identity e w body rq g = (g1, Inr (p, cred, aid, rq1))" "g_priority e body p aid g1 = (g2, Inr pri)"
    "g_no_store p aid rq1 g2 = (g3, Inr ns)" "gw_resolver g2 = gw_resolver g1"
proof -
  from assms obtain g1 g2 rq1 where s: "g_identity e w body rq g = (g1, Inr (p, cred, aid, rq1))" "g_priority e body p aid g1 = (g2, Inr pri)"
    "g_no_store p aid rq1 g2 = (g3, Inr ns)"
    by (auto simp: submit_caller_def gate_bind_Inr)
  moreover have "gw_resolver g2 = gw_resolver g1" using s(2) by (auto simp: g_priority_def split: sum.splits prod.splits)
  ultimately show ?thesis using that by blast
qed

lemma engaged_exactly:
  assumes "handle_submit e w body rq g = (g', Inr (r, key))" "decide (sv_sha e) (sv_wall e) (gw_resolver g) rq = Granted q"
  shows "engaged r \<longleftrightarrow> ns_parse_header (read_header rq) = Inr True \<and> authenticated q \<and>
    agent_id r \<notin> address_identities (rs_acl (gw_resolver g)) \<and>
    (\<exists>c. od_get (agents (gw_config g)) (agent_id r) = Some c \<and> content_no_store c)"
proof -
  obtain p cred aid g3 g4 r0 pri ns where c: "submit_caller e w body rq g = (g3, Inr (p, cred, aid, pri, ns))"
    and s: "submit_request e body p cred aid pri ns g3 = (g4, Inr r0)" and r: "same_terms r0 r"
    by (rule handle_submit_admitted[OF assms(1)]) blast
  from submit_caller_steps[OF c] obtain g1 g2 rq1 where i: "g_identity e w body rq g = (g1, Inr (p, cred, aid, rq1))"
    and pr: "g_priority e body p aid g1 = (g2, Inr pri)" and n: "g_no_store p aid rq1 g2 = (g3, Inr ns)" and v: "gw_resolver g2 = gw_resolver g1" .
  have "front_only g g2" using front_identity[of g e w body rq] front_priority[of g1 e body p aid] i pr by (auto intro: front_trans)
  then have cfg: "gw_config g2 = gw_config g" by (simp add: front_only_def)
  have f: "authenticated p = authenticated q" "read_header rq1 = read_header rq" "rs_acl (gw_resolver g2) = rs_acl (gw_resolver g)"
    using g_identity_admits[OF i] assms(2) v by auto
  obtain asked where a: "ns_parse_header (read_header rq) = Inr asked"
    "ns = ns_decide asked (authenticated q) aid (case od_get (agents (gw_config g)) aid of Some c \<Rightarrow> content_no_store c | None \<Rightarrow> False)
        (address_identities (rs_acl (gw_resolver g)))"
    using g_no_store_decides[OF n] by (auto simp: f cfg)
  have "agent_id r = aid" "no_store_outcome r = ns_outcome ns" using admitted_agent[OF s] r by (simp_all add: same_terms_def)
  then show ?thesis using a by (auto simp: engaged_def ns_decide_def not_requested_def ns_refused_def split: option.splits if_splits)
qed

lemma with_on_demand_keeps [simp]:
  "gw_cache (with_on_demand f g) = gw_cache g" "gw_shed_depth (with_on_demand f g) = gw_shed_depth g"
  "px_sched (gw_proxy (with_on_demand f g)) = px_sched (gw_proxy g)"
  "px_on_demand (gw_proxy (with_on_demand f g)) = f (px_on_demand (gw_proxy g))"
  by (simp_all add: with_on_demand_def)

lemma set_failover_keeps [simp]:
  "gw_cache (set_failover fo g) = gw_cache g" "gw_shed_depth (set_failover fo g) = gw_shed_depth g"
  "px_sched (gw_proxy (set_failover fo g)) = px_sched (gw_proxy g)" "px_on_demand (gw_proxy (set_failover fo g)) = px_on_demand (gw_proxy g)"
  by (simp_all add: set_failover_def)

lemma g_load_cache: "gw_cache (fst (g_load e r g)) = gw_cache g"
  by (simp add: g_load_def Let_def split: prod.split option.split ensure_error.split)

lemma g_circuit_cache: "gw_cache (fst (g_circuit e r g)) = gw_cache g"
  by (simp add: g_circuit_def refuse_circuit_def lease_back_def Let_def split: sum.split option.split prod.split)

lemma g_shed_cache: "gw_cache (fst (g_shed e r g)) = gw_cache g"
  by (simp add: g_shed_def lease_back_def)

lemma submit_gates_cache:
  assumes "g_cache e r g = (g1, Inr key)" shows "gw_cache (fst (submit_gates e r g)) = gw_cache g1"
proof -
  have "gw_cache (fst (gate_bind (g_load e r g1) (\<lambda>g2 _. gate_bind (g_circuit e r g2) (\<lambda>g3 r1. gate_bind (g_shed e r1 g3) (\<lambda>g4 _. (g4, Inr (r1, key))))))) = gw_cache g1"
    by (rule gate_bind_keeps[of "\<lambda>h. gw_cache h = gw_cache g1"]; (intro gate_bind_keeps[of "\<lambda>h. gw_cache h = gw_cache g1"])?;
        simp add: g_load_cache g_circuit_cache g_shed_cache)
  then show ?thesis by (simp add: submit_gates_def assms)
qed

text \<open>C8: a request whose content must not be kept leaves no copy behind. The wish is honoured exactly
  for a caller with a credential of its own that its operator granted it to. Such a request
  bypasses the response cache in both directions, and it declines to be spilled, so no tick of
  any scheduler sends it, or any request with its terms, to a remote provider.\<close>

theorem no_store_leaves_no_copy:
  assumes "handle_submit e w body rq g = (g', Inr (r, key))" "decide (sv_sha e) (sv_wall e) (gw_resolver g) rq = Granted q"
    "ns_parse_header (read_header rq) = Inr True" "authenticated q" "agent_id r \<notin> address_identities (rs_acl (gw_resolver g))"
    "od_get (agents (gw_config g)) (agent_id r) = Some c" "content_no_store c"
  shows "key = None \<and> gw_cache g' = gw_cache g \<and> no_store_outcome r = ''honoured'' \<and>
    (sched_ok s \<and> OnSpill x src tgt \<in> set (lp_events (tick env now s)) \<longrightarrow> allow_spill x \<noteq> allow_spill r)"
proof -
  have en: "engaged r" using engaged_exactly[OF assms(1,2)] assms(3-7) by blast
  obtain p cred aid g3 g4 r0 pri ns where sr: "submit_request e body p cred aid pri ns g3 = (g4, Inr r0)"
    and sg: "submit_gates e r0 g4 = (g', Inr (r, key))" and fr: "front_only g g4" and st: "same_terms r0 r"
    by (rule handle_submit_admitted[OF assms(1)]) blast
  have en0: "engaged r0" "allow_spill r = Some False"
    using en st admitted_agent[OF sr] by (auto simp: engaged_def same_terms_def ns_honoured_def)
  then have "g_cache e r0 g4 = (g4, Inr None)" by (simp add: g_cache_def)
  with submit_gates_cache[of e r0 g4] sg have "key = None" "gw_cache g' = gw_cache g4" by (auto simp: submit_gates_def gate_bind_Inr)
  moreover have "gw_cache g4 = gw_cache g" using fr by (simp add: front_only_def)
  ultimately show ?thesis using en en0(2) spilled_with_consent[of s x src tgt env now] by (auto simp: engaged_def)
qed

subsection \<open>The count of an on-demand model\<close>

definition lease_counts :: "gateway \<Rightarrow> string \<Rightarrow> int" where
  "lease_counts g ep = (case od_get (od_states (px_on_demand (gw_proxy g))) ep of None \<Rightarrow> 0 | Some st \<Rightarrow> inflight st)"

definition manager_counts :: "on_demand_manager \<Rightarrow> string \<Rightarrow> int" where
  "manager_counts m ep = (case od_get (od_states m) ep of None \<Rightarrow> 0 | Some st \<Rightarrow> inflight st)"

lemma lease_counts_manager: "lease_counts g = manager_counts (px_on_demand (gw_proxy g))"
  by (rule ext) (simp add: lease_counts_def manager_counts_def)

lemma manages_iff: "manages m ep \<longleftrightarrow> od_get (od_states m) ep \<noteq> None"
  by (simp add: manages_def od_get_None_iff)

lemma ensure_loaded_counts:
  assumes "ensure_loaded ep now reply m = (m', res)" "manages m ep" "0 \<le> manager_counts m ep"
  shows "manages m' = manages m"
    "res = Some None \<Longrightarrow> manager_counts m' = (manager_counts m)(ep := manager_counts m ep + 1)"
    "res = None \<or> res = Some (Some OnDemandUnavailable) \<Longrightarrow> manager_counts m' = manager_counts m"
proof -
  obtain st where st: "od_get (od_states m) ep = Some st" using assms(2) by (auto simp: manages_iff)
  then have n: "0 \<le> inflight st" using assms(3) by (simp add: manager_counts_def)
  show "manages m' = manages m" "res = Some None \<Longrightarrow> manager_counts m' = (manager_counts m)(ep := manager_counts m ep + 1)"
    "res = None \<or> res = Some (Some OnDemandUnavailable) \<Longrightarrow> manager_counts m' = manager_counts m"
    using assms(1) st n
    by (auto simp: ensure_loaded_def od_ensure_enter_def ensure_enter_def ensure_reply_def uncount_def manager_counts_def manages_iff Let_def fun_eq_iff
        split: if_splits dispatcher_reply.splits option.splits json.splits)
qed

lemma request_done_counts:
  "manager_counts (od_request_done ep now m) = (manager_counts m)(ep := if manages m ep then max 0 (manager_counts m ep - 1) else 0)"
  "manages (od_request_done ep now m) = manages m"
  by (auto simp: od_request_done_def request_done_def uncount_def manager_counts_def manages_iff fun_eq_iff split: option.split)

lemma fo_plan_target:
  assumes "fo_plan e st r = Inr plan" "fp_target plan = Some tgt" shows "\<not> manages (fo_on_demand e) tgt"
proof -
  let ?src = "normalize_endpoint (fo_roles e) (rq_endpoint r)"
  have "od_get_or [] (fo_pairs e) ?src = tgt" "tgt \<noteq> []"
    using assms by (auto simp: fo_plan_def no_plan_def Let_def py_bind_Inr split: if_splits option.splits)
  then have "od_get (fo_pairs e) ?src = Some tgt" by (auto simp: od_get_or_def split: option.splits)
  from fo_pairs_get_usable[OF this] show ?thesis by (simp add: usable_target_def)
qed

abbreviation gw_manages :: "gateway \<Rightarrow> string \<Rightarrow> bool" where
  "gw_manages g \<equiv> manages (px_on_demand (gw_proxy g))"

text \<open>The counts with one more request on an endpoint that is loaded on demand.\<close>

definition one_more :: "gateway \<Rightarrow> string \<Rightarrow> string \<Rightarrow> int" where
  "one_more g ep = (lease_counts g)(ep := lease_counts g ep + (if gw_manages g ep then 1 else 0))"

lemma unmanaged_count: "\<not> gw_manages g ep \<Longrightarrow> lease_counts g ep = 0"
  by (simp add: lease_counts_def manages_iff)

lemma one_more_unmanaged: "\<not> gw_manages g ep \<Longrightarrow> one_more g ep = lease_counts g"
  by (simp add: one_more_def)

lemma lease_back_counts:
  assumes "lease_counts h = one_more g ep" "gw_manages h = gw_manages g" "0 \<le> lease_counts g ep"
  shows "lease_counts (lease_back e ep h) = lease_counts g" "gw_manages (lease_back e ep h) = gw_manages g"
proof -
  have "lease_counts (lease_back e ep h) = (lease_counts h)(ep := if gw_manages h ep then max 0 (lease_counts h ep - 1) else 0)"
    by (simp add: lease_back_def lease_counts_manager request_done_counts)
  then show "lease_counts (lease_back e ep h) = lease_counts g"
    using assms unmanaged_count[of g ep] by (auto simp: one_more_def fun_eq_iff)
  show "gw_manages (lease_back e ep h) = gw_manages g" using assms(2) by (simp add: lease_back_def request_done_counts)
qed

lemma g_load_counts:
  assumes "g_load e r g = (h, res)" "0 \<le> lease_counts g (rq_endpoint r)"
  shows "gw_manages h = gw_manages g" "res = Inr () \<Longrightarrow> lease_counts h = one_more g (rq_endpoint r)"
    "res = Inl out \<Longrightarrow> \<nexists>x. out = Raised x \<Longrightarrow> lease_counts h = lease_counts g"
proof -
  obtain m l where l: "ensure_loaded (rq_endpoint r) (sv_now e) (sv_reply e) (px_on_demand (gw_proxy g)) = (m, l)" by force
  have "gw_manages h = gw_manages g \<and> (res = Inr () \<longrightarrow> lease_counts h = one_more g (rq_endpoint r)) \<and>
      (res = Inl out \<and> (\<nexists>x. out = Raised x) \<longrightarrow> lease_counts h = lease_counts g)"
  proof (cases "gw_manages g (rq_endpoint r)")
    case True
    note c = ensure_loaded_counts[OF l True assms(2)[unfolded lease_counts_manager]]
    show ?thesis using assms(1) True l c
      by (auto simp: g_load_def lease_counts_manager one_more_def Let_def split: option.splits ensure_error.splits)
  next
    case False
    then show ?thesis using assms(1) by (auto simp: g_load_def one_more_unmanaged)
  qed
  then show "gw_manages h = gw_manages g" "res = Inr () \<Longrightarrow> lease_counts h = one_more g (rq_endpoint r)"
    "res = Inl out \<Longrightarrow> \<nexists>x. out = Raised x \<Longrightarrow> lease_counts h = lease_counts g" by blast+
qed

lemma set_failover_counts [simp]: "lease_counts (set_failover fo g) = lease_counts g"
  by (simp add: lease_counts_manager)

lemma g_circuit_counts:
  assumes "g_circuit e r h = (k, res)" "lease_counts h = one_more g (rq_endpoint r)" "gw_manages h = gw_manages g"
    "0 \<le> lease_counts g (rq_endpoint r)"
  shows "gw_manages k = gw_manages g" "res = Inr s \<Longrightarrow> lease_counts k = one_more g (rq_endpoint s)"
    "res = Inl out \<Longrightarrow> \<nexists>x. out = Raised x \<Longrightarrow> lease_counts k = lease_counts g"
proof -
  let ?h1 = "set_failover (fo_refresh (gw_fo_env e h) (sv_now e) (px_failover (gw_proxy h))) h"
  have lb: "lease_counts (lease_back e (rq_endpoint r) (set_failover fo h)) = lease_counts g"
    "lease_counts (lease_back e (rq_endpoint r) (set_failover fo' (set_failover fo h))) = lease_counts g"
    "gw_manages (lease_back e (rq_endpoint r) (set_failover fo h)) = gw_manages g"
    "gw_manages (lease_back e (rq_endpoint r) (set_failover fo' (set_failover fo h))) = gw_manages g" for fo fo'
    using lease_back_counts[of "set_failover fo h" g] lease_back_counts[of "set_failover fo' (set_failover fo h)" g] assms by simp_all
  have "gw_manages k = gw_manages g \<and> (res = Inr s \<longrightarrow> lease_counts k = one_more g (rq_endpoint s)) \<and>
    (res = Inl out \<and> (\<nexists>x. out = Raised x) \<longrightarrow> lease_counts k = lease_counts g)"
  proof (cases "endpoint_healthy (sv_health e) (sv_now e) (gw_proxy h) (rq_endpoint r)")
    case False
    show ?thesis
    proof (cases "fo_plan (gw_fo_env e ?h1) (px_failover (gw_proxy ?h1)) r")
      case (Inl x)
      then show ?thesis using assms False by (auto simp: g_circuit_def Let_def)
    next
      case (Inr plan)
      show ?thesis
      proof (cases "fp_target plan")
        case None
        then show ?thesis using assms False Inr lb by (auto simp: g_circuit_def refuse_circuit_def Let_def split: if_splits)
      next
        case (Some tgt)
        have "\<not> gw_manages g tgt" using fo_plan_target[OF Inr Some] assms(3) by (simp add: plan_env_def)
        then have t: "one_more g tgt = lease_counts g" by (rule one_more_unmanaged)
        obtain r1 fo x where a: "fo_apply (gw_fo_env e (lease_back e (rq_endpoint r) ?h1)) r tgt (px_failover (gw_proxy (lease_back e (rq_endpoint r) ?h1))) = (r1, fo, x)"
          by (metis prod_cases3)
        then have "rq_endpoint r1 = tgt" by (auto simp: fo_apply_def Let_def split: option.splits)
        then show ?thesis using assms False Inr Some a lb t by (auto simp: g_circuit_def Let_def split: option.splits)
      qed
    qed
  qed (use assms in \<open>auto simp: g_circuit_def\<close>)
  then show "gw_manages k = gw_manages g" "res = Inr s \<Longrightarrow> lease_counts k = one_more g (rq_endpoint s)"
    "res = Inl out \<Longrightarrow> \<nexists>x. out = Raised x \<Longrightarrow> lease_counts k = lease_counts g" by blast+
qed

lemma front_counts: "front_only g h \<Longrightarrow> lease_counts h = lease_counts g \<and> gw_manages h = gw_manages g"
  by (simp add: front_only_def lease_counts_manager)

lemma g_cache_counts: "lease_counts (fst (g_cache e r g)) = lease_counts g \<and> gw_manages (fst (g_cache e r g)) = gw_manages g"
  by (simp add: g_cache_def lease_counts_manager split: option.split prod.split)

lemma submit_gates_counts:
  assumes "submit_gates e r g = (g', res)" "\<forall>ep. 0 \<le> lease_counts g ep"
  shows "res = Inr (s, key) \<Longrightarrow> lease_counts g' = one_more g (rq_endpoint s)"
    "res = Inl out \<Longrightarrow> \<nexists>x. out = Raised x \<Longrightarrow> lease_counts g' = lease_counts g"
proof -
  have "(res = Inr (s, key) \<longrightarrow> lease_counts g' = one_more g (rq_endpoint s)) \<and>
    (res = Inl out \<and> (\<nexists>x. out = Raised x) \<longrightarrow> lease_counts g' = lease_counts g)"
  proof (cases "g_cache e r g")
    case (Pair g1 c)
    then have g1: "lease_counts g1 = lease_counts g" "gw_manages g1 = gw_manages g" using g_cache_counts[of e r g] by simp_all
    then have om: "one_more g1 = one_more g" by (simp add: one_more_def fun_eq_iff)
    show ?thesis
    proof (cases c)
      case (Inl x)
      then show ?thesis using assms(1) Pair g1 by (auto simp: submit_gates_def)
    next
      case (Inr k)
      obtain g2 l where l: "g_load e r g1 = (g2, l)" by force
      have n: "0 \<le> lease_counts g1 (rq_endpoint r)" using assms(2) g1 by simp
      note lc = g_load_counts[OF l n]
      show ?thesis
      proof (cases l)
        case (Inl x)
        then show ?thesis using assms(1) Pair Inr l lc g1 by (auto simp: submit_gates_def)
      next
        case (Inr u)
        obtain g3 y where y: "g_circuit e r g2 = (g3, y)" by force
        note cc = g_circuit_counts[OF y _ _ n] 
        have h: "lease_counts g2 = one_more g1 (rq_endpoint r)" "gw_manages g2 = gw_manages g1" using lc Inr by simp_all
        show ?thesis
        proof (cases y)
          case (Inl x)
          then show ?thesis using assms(1) Pair \<open>c = Inr k\<close> l Inr y cc(3)[OF h] g1 by (auto simp: submit_gates_def)
        next
          case (Inr r1)
          have k1: "lease_counts g3 = one_more g (rq_endpoint r1)" "gw_manages g3 = gw_manages g" using cc(1,2)[OF h] Inr om g1(2) by simp_all
          moreover have "0 \<le> lease_counts g (rq_endpoint r1)" using assms(2) by simp
          note lease_back_counts(1)[OF k1 this, of e]
          ultimately show ?thesis using assms(1) Pair \<open>c = Inr k\<close> l \<open>l = Inr u\<close> y Inr
            by (auto simp: submit_gates_def g_shed_def split: if_splits)
        qed
      qed
    qed
  qed
  then show "res = Inr (s, key) \<Longrightarrow> lease_counts g' = one_more g (rq_endpoint s)"
    "res = Inl out \<Longrightarrow> \<nexists>x. out = Raised x \<Longrightarrow> lease_counts g' = lease_counts g" by blast+
qed

text \<open>C7: the count that keeps an on-demand model loaded is exact. A request that is refused, answered from
  the cache or left waiting leaves every count as it was, also when the refusal comes after the
  model was loaded for it; one that is admitted counts once, on the endpoint it will run on, if that
  is loaded on demand, and nowhere else, even if it was moved away from the endpoint it
  was first counted on.\<close>

theorem lease_count_exact:
  assumes "\<forall>ep. 0 \<le> lease_counts g ep" "handle_submit e w body rq g = (g', res)" "\<nexists>x. res = Inl (Raised x)"
  shows "lease_counts g' = (case res of Inr (r, key) \<Rightarrow> one_more g (rq_endpoint r) | Inl out \<Rightarrow> lease_counts g)"
proof (cases "submit_caller e w body rq g")
  case (Pair g1 a)
  then have f1: "front_only g g1" using front_submit_caller[of g e w body rq] by simp
  show ?thesis
  proof (cases a)
    case (Inl x)
    then show ?thesis using assms(2) Pair front_counts[OF f1] by (auto simp: handle_submit_def)
  next
    case (Inr b)
    obtain p cred aid pri ns where b: "b = (p, cred, aid, pri, ns)" by (cases b)
    obtain g2 c where c: "submit_request e body p cred aid pri ns g1 = (g2, c)" by force
    then have f2: "front_only g g2" using front_submit_request[of g1 e body p cred aid pri ns] f1 by (auto intro: front_trans)
    note k = front_counts[OF f2]
    then have om: "one_more g2 = one_more g" by (simp add: one_more_def fun_eq_iff)
    show ?thesis
    proof (cases c)
      case (Inl x)
      then show ?thesis using assms(2) Pair Inr b c k by (auto simp: handle_submit_def)
    next
      case (Inr r0)
      then have "submit_gates e r0 g2 = (g', res)" using assms(2) Pair \<open>a = Inr b\<close> b c by (simp add: handle_submit_def)
      note sc = submit_gates_counts[OF this]
      have n: "\<forall>ep. 0 \<le> lease_counts g2 ep" using assms(1) k by simp
      show ?thesis
      proof (cases res)
        case (Inl out)
        then show ?thesis using sc(2)[OF n, of out] assms(3) k by simp
      next
        case (Inr q)
        then show ?thesis using sc(1)[OF n, of "fst q" "snd q"] om by (simp add: case_prod_unfold)
      qed
    qed
  qed
qed

subsection \<open>The deadline of an admitted request\<close>

lemma smart_default_pos: "0 < smart_default e ep body g"
  by (simp add: smart_default_def default_timeout_s_def smart_default_cap_s_def split: sum.split)

lemma resolve_default_pos: "0 < snd (resolve_default_timeout e ep body g)"
  by (simp add: resolve_default_timeout_def Let_def smart_default_pos default_timeout_s_def)

text \<open>The deadline a request is admitted with. If the caller sent a positive finite number, that is
  the deadline, at least, and it is marked as the caller's; only an endpoint that first has to be loaded
  may lengthen it. Otherwise the deadline is marked as the proxy's own choice. It is
  always positive, and the request expires exactly that long after it was admitted.\<close>

lemma admission_deadline:
  assumes "handle_submit e w body rq g = (g', Inr (r, key))"
  shows "0 < timeout_s r \<and> timeout_deadline r = sv_now e + timeout_s r \<and>
    (\<exists>own. caller_timeout (jget body ''timeout_s'') = Inr own \<and> deadline_is_default r = (own = None) \<and>
       (case own of None \<Rightarrow> True | Some t \<Rightarrow> t \<le> timeout_s r \<and> ((\<forall>ep. \<not> gw_manages g ep) \<longrightarrow> timeout_s r = t)))"
proof -
  obtain p cred aid g3 g4 r0 pri ns where sc: "submit_caller e w body rq g = (g3, Inr (p, cred, aid, pri, ns))"
    and sr: "submit_request e body p cred aid pri ns g3 = (g4, Inr r0)" and st: "same_terms r0 r"
    by (rule handle_submit_admitted[OF assms]) blast
  obtain ep t d g5 r1 where dl: "g_deadline e body p ep g5 = (fst (g_deadline e body p ep g5), Inr (t, d))" "front_only g3 g5"
    and cr: "g_create e body p cred aid pri ns ep t d (fst (g_deadline e body p ep g5)) = (fst (g_deadline e body p ep g5), Inr r1)" "same_terms r1 r0"
    by (rule submit_request_created[OF sr]) blast
  have "front_only g g3" using front_submit_caller[of g e w body rq] sc by simp
  then have m: "gw_manages g5 = gw_manages g" using front_counts[OF front_trans[OF _ dl(2)]] by simp
  note f = g_create_fields[OF cr(1)]
  obtain own where own: "caller_timeout (jget body ''timeout_s'') = Inr own" "d = (own = None)"
    using dl(1) by (auto simp: g_deadline_def Let_def split: sum.splits prod.splits)
  have pos: "own = Some t' \<Longrightarrow> 0 < t'" for t'
    using own(1) by (auto simp: caller_timeout_def split: if_splits sum.splits py_error.splits pyfloat.splits)
  have fin: "t = Finite (timeout_s r1)" using f by simp
  have "0 < timeout_s r1 \<and> (case own of None \<Rightarrow> True | Some t' \<Rightarrow> t' \<le> timeout_s r1 \<and> ((\<forall>ep. \<not> gw_manages g ep) \<longrightarrow> timeout_s r1 = t'))"
    using dl(1) fin own pos m resolve_default_pos[of e ep body g5] unfolding g_deadline_def Let_def
    by (auto simp: case_prod_unfold floor_at_def pf_less_def split: option.splits if_splits pyfloat.splits)
  moreover have "timeout_s r = timeout_s r1" "timeout_deadline r = timeout_deadline r1" "deadline_is_default r = deadline_is_default r1"
    using st cr(2) by (simp_all add: same_terms_def)
  ultimately show ?thesis using f own by (cases own) simp_all
qed

subsection \<open>A small gateway\<close>

definition demo_fleet_config :: "real option \<Rightarrow> proxy_config" where
  "demo_fleet_config cap =
     \<lparr>endpoints = [(''tier3'', (demo_endpoint ''tier3'' 1)\<lparr>failover_to := ''tier2'', failover_dwell_s := 300\<rparr>), (''tier2'', demo_endpoint ''tier2'' 2)],
      agents = [(''logger'', (default_quota ''logger'')\<lparr>content_no_store := True, daily_spend_usd := cap\<rparr>)], cfg_starvation_timeout_s = 300\<rparr>"

definition demo_gateway :: "real option \<Rightarrow> gateway" where
  "demo_gateway cap =
     \<lparr>gw_draining = False, gw_resolver = demo_resolver [],
      gw_standing = demo_standing\<lparr>st_config := demo_fleet_config cap\<rparr>,
      gw_no_store = \<lparr>nt_honoured = 0, nt_refused = 0, nt_by_agent = []\<rparr>, gw_unknown_endpoints = [], gw_vision_violations = [],
      gw_context_overflows = [], gw_smart_shadow = [], gw_cache = new_cache 256 60, gw_timeouts = new_timeout_model None [],
      gw_proxy = demo_proxy\<lparr>px_sched := new_scheduler (demo_fleet_config cap) \<lparr>cm_models = []\<rparr> (new_manager 300)\<rparr>,
      gw_shed_depth = 50, gw_flags = (\<lambda>_. False)\<rparr>"

definition demo_submit :: submit_env where
  "demo_submit =
     \<lparr>sv_sha = id, sv_health = demo_health, sv_deadlines = default_deadline_config, sv_now = 5, sv_wall = 5, sv_today = ''d'',
      sv_fresh_id = ''r1'', sv_reply = HttpError, sv_p95 = (\<lambda>_. 0), sv_grammar = (\<lambda>p. (p, False))\<rparr>"

definition demo_body :: payload where
  "demo_body = [(''endpoint'', JStr ''tier2''), (''timeout_s'', JInt 30), (''payload'', JObj [(''messages'', JList [])])]"

abbreviation demo_private :: request where
  "demo_private \<equiv> demo_call [(''Authorization'', ''Bearer push''), (''X-Roadstead-No-Store'', ''content'')] ''127.0.0.1''"

text \<open>The size of a prompt enters the advised deadline through a logarithm, which does not evaluate; the
  examples bring their own deadline.\<close>

declare smart_default_def [code del]

lemma demo_admitted:
  "case handle_submit demo_submit WireEnriched demo_body demo_private (demo_gateway None) of
     (_, Inr (r, key)) \<Rightarrow> agent_id r = ''logger'' \<and> timeout_s r = 30 \<and> key = None \<and> rq_endpoint r = ''tier2'' | _ \<Rightarrow> False"
  by code_simp

abbreviation demo_run :: "gateway \<times> (outcome + queued_request \<times> string option)" where
  "demo_run \<equiv> handle_submit demo_submit WireEnriched demo_body demo_private (demo_gateway None)"

lemma demo_runs:
  obtains r where "demo_run = (fst demo_run, Inr (r, None))" "agent_id r = ''logger''" "timeout_s r = 30" "rq_endpoint r = ''tier2''"
  using demo_admitted by (cases demo_run) (auto split: sum.splits)

lemma demo_identity:
  obtains q where "decide (sv_sha demo_submit) (sv_wall demo_submit) (gw_resolver (demo_gateway None)) demo_private = Granted q"
    "authenticated q" "p_agent_id q = ''logger''" "p_may_assert q = {}"
proof -
  have "case decide (sv_sha demo_submit) (sv_wall demo_submit) (gw_resolver (demo_gateway None)) demo_private of
      Granted q \<Rightarrow> authenticated q \<and> p_agent_id q = ''logger'' \<and> p_may_assert q = {} | Denied _ \<Rightarrow> False" by code_simp
  then show ?thesis using that by (auto split: id_resolution.splits)
qed

lemma admitted_only_as_identified_witness:
  "\<exists>p. decide (sv_sha demo_submit) (sv_wall demo_submit) (gw_resolver (demo_gateway None)) demo_private = Granted p \<and>
     (p_agent_id p = ''logger'' \<or> ''logger'' \<in> p_may_assert p)"
proof -
  obtain r where "demo_run = (fst demo_run, Inr (r, None))" "agent_id r = ''logger''" by (rule demo_runs)
  moreover obtain q where "decide (sv_sha demo_submit) (sv_wall demo_submit) (gw_resolver (demo_gateway None)) demo_private = Granted q" "authenticated q"
    by (rule demo_identity)
  ultimately show ?thesis
    using admitted_only_as_identified[of demo_submit WireEnriched demo_body demo_private "demo_gateway None" "fst demo_run" r None] by auto
qed

lemma no_store_leaves_no_copy_witness:
  "\<exists>r. demo_run = (fst demo_run, Inr (r, None)) \<and> gw_cache (fst demo_run) = gw_cache (demo_gateway None) \<and> no_store_outcome r = ''honoured''"
proof -
  obtain r where r: "demo_run = (fst demo_run, Inr (r, None))" "agent_id r = ''logger''" by (rule demo_runs)
  obtain q where q: "decide (sv_sha demo_submit) (sv_wall demo_submit) (gw_resolver (demo_gateway None)) demo_private = Granted q" "authenticated q"
    by (rule demo_identity)
  have h: "ns_parse_header (read_header demo_private) = Inr True"
    "''logger'' \<notin> address_identities (rs_acl (gw_resolver (demo_gateway None)))" by code_simp+
  have "od_get (agents (gw_config (demo_gateway None))) ''logger'' = Some ((default_quota ''logger'')\<lparr>content_no_store := True, daily_spend_usd := None\<rparr>)"
    by (simp add: demo_gateway_def demo_fleet_config_def new_scheduler_def)
  with no_store_leaves_no_copy[OF r(1) q(1) h(1) q(2), of "(default_quota ''logger'')\<lparr>content_no_store := True, daily_spend_usd := None\<rparr>"] h(2) r
  show ?thesis by auto
qed

lemma demo_deadline:
  "\<exists>r. demo_run = (fst demo_run, Inr (r, None)) \<and> timeout_s r = 30 \<and> timeout_deadline r = 35 \<and> \<not> deadline_is_default r"
proof -
  obtain r where r: "demo_run = (fst demo_run, Inr (r, None))" "timeout_s r = 30" by (rule demo_runs)
  have "caller_timeout (jget demo_body ''timeout_s'') = Inr (Some 30)" by code_simp
  with admission_deadline[OF r(1)] r show ?thesis by (auto simp: demo_submit_def)
qed

text \<open>An endpoint that is loaded on demand and paused: the model is loaded for the request, which is
  then refused.\<close>

definition demo_paused :: gateway where
  "demo_paused = (let g = demo_gateway None in
     g\<lparr>gw_proxy := (gw_proxy g)\<lparr>px_paused := [''tier2''],
         px_on_demand := \<lparr>od_url = ''http://d'', hold_idle_s = 60, od_states = [(''tier2'', new_lease ''tier2'')]\<rparr>\<rparr>\<rparr>)"

abbreviation demo_load :: "json option \<Rightarrow> submit_env" where
  "demo_load b \<equiv> demo_submit\<lparr>sv_reply := Reply 200 b\<rparr>"

lemma lease_count_exact_witness:
  "snd (handle_submit (demo_load (Some (JObj [(''lease_id'', JStr ''l'')]))) WireEnriched demo_body demo_private demo_paused) =
     Inl (RefusedRetry 503 ''draining'' 10 None) \<and>
   lease_counts (fst (handle_submit (demo_load (Some (JObj [(''lease_id'', JStr ''l'')]))) WireEnriched demo_body demo_private demo_paused)) =
     lease_counts demo_paused"
proof -
  let ?x = "handle_submit (demo_load (Some (JObj [(''lease_id'', JStr ''l'')]))) WireEnriched demo_body demo_private demo_paused"
  have s: "snd ?x = Inl (RefusedRetry 503 ''draining'' 10 None)" by code_simp
  then have x: "?x = (fst ?x, Inl (RefusedRetry 503 ''draining'' 10 None))" by (metis prod.collapse)
  have "\<forall>ep. 0 \<le> lease_counts demo_paused ep"
    by (simp add: lease_counts_def demo_paused_def new_lease_def Let_def)
  from lease_count_exact[OF this x] s show ?thesis by simp
qed

subsection \<open>Where the code falls short\<close>

text \<open>An exception of the dispatcher's answer is not caught, and the request stays counted.\<close>

lemma unreadable_lease_leaks:
  "snd (handle_submit (demo_load None) WireEnriched demo_body demo_private demo_paused) = Inl (Raised ValueError)"
  "lease_counts (fst (handle_submit (demo_load None) WireEnriched demo_body demo_private demo_paused)) ''tier2'' = 1"
  by code_simp+

text \<open>A caller over its threshold drops from the interactive to the foreground band, which is shed: the
  request that is admitted without a cap is refused with it.\<close>

definition demo_busy :: "real option \<Rightarrow> gateway" where
  "demo_busy cap = (let g = demo_gateway cap in
     g\<lparr>gw_shed_depth := 1,
       gw_proxy := (gw_proxy g)\<lparr>px_sched := fst (sched_enqueue demo_env
         ((demo_request ''q'')\<lparr>rq_endpoint := ''tier2'', rq_priority := P2_POST_TURN, rq_band := FOREGROUND\<rparr>) (px_sched (gw_proxy g)))\<rparr>\<rparr>)"

lemma over_threshold_is_shed:
  "case snd (handle_submit demo_submit WireEnriched demo_body demo_private (demo_busy None)) of Inr _ \<Rightarrow> True | Inl _ \<Rightarrow> False"
  "snd (handle_submit demo_submit WireEnriched demo_body demo_private (demo_busy (Some 0))) = Inl (RefusedRetry 429 ''backpressure'' 10 None)"
  by code_simp+

text \<open>A priority that is not marked as declared is never used, and keys enrolled at run time are never
  marked.\<close>

lemma undeclared_priority_is_ignored:
  "\<not> p_priority_declared p \<Longrightarrow> jget body ''priority'' = JNull \<Longrightarrow>
     resolve_declared_priority cfg body aid p = Inr (default_priority (agent_config cfg aid))"
  by (simp add: resolve_declared_priority_def coerce_def)

text \<open>A registration with an infinite floor gives a request that sent no deadline an infinite one.\<close>

lemma infinite_floor:
  assumes "\<not> gw_manages g ep" "p_min_timeout_s p = Some PosInf"
  shows "snd (g_deadline e [] p ep g) = Inr (PosInf, True)"
  using assms by (simp add: g_deadline_def caller_timeout_def resolve_default_timeout_def floor_at_def pf_less_def Let_def)

text \<open>An integer no double can hold is not defaulted like other malformed deadlines.\<close>

lemma huge_timeout_raises: "caller_timeout (JInt (2 ^ 1024)) = Inl OverflowError"
  by (simp add: caller_timeout_def float_of_json_def)

text \<open>A part whose type is a list hides the images behind it.\<close>

lemma odd_part_hides_image:
  "\<not> carries_image [(''messages'', JList [JObj [(''content'', JList [JObj [(''type'', JList [])], JObj [(''type'', JStr ''image_url'')]])]])]"
  by code_simp

end
