(* ===== verification/Degeneration.thy ===== *)
theory Degeneration
  imports Prelude
begin

text \<open>
  Detection of degenerate model output (\<open>src/roadstead/correction.py\<close>, lines 83--553): the egress
  arms that judge a finished body (word shingles, blank tail, distinct character shingles) and the
  two detectors that watch a live stream, \<open>ReasoningLoopDetector\<close> for the reasoning channel and
  \<open>StructuredBlankRunDetector\<close> for the content channel.

  Text is a list of Unicode code points here, because the blank characters the code counts include
  zero-width ones outside Latin-1. A Python float is a real number, as elsewhere. A delta that is not
  a string is \<open>None\<close>; the empty string is falsy and \<open>Some []\<close>. None of the operations on strings can
  raise, so the fail-open handlers around them are unreachable and have no counterpart.

  The streaming detectors keep bounded memory. The lemmas show that nothing is lost by it: the loop
  detector decides exactly as a detector that kept the whole stream, it never holds more than twice
  its window, it keeps the head of the stream, and a stream that cycles with a short period is
  reported within one check interval; the blank-run detector fires exactly when the stream, however
  it was cut into deltas, contains a run of the threshold length.
\<close>

section \<open>Measures over a finished text\<close>

type_synonym utext = "nat list"

definition degen_gram :: nat where "degen_gram = 6"
definition degen_min_words :: nat where "degen_min_words = 40"
definition degen_min_reps :: nat where "degen_min_reps = 6"
definition degen_min_fraction :: real where "degen_min_fraction = 1 / 10"
definition degen_tail_chars :: int where "degen_tail_chars = 2000"
definition degen_tail_min_chars :: nat where "degen_tail_min_chars = 200"
definition degen_blank_ratio :: real where "degen_blank_ratio = 9 / 10"
definition degen_tail_gram :: nat where "degen_tail_gram = 24"
definition degen_tail_min_distinct :: real where "degen_tail_min_distinct = 8 / 100"

definition blank_char :: "nat \<Rightarrow> bool" where
  "blank_char c \<longleftrightarrow> c \<in> set [32, 9, 10, 13, 11, 12, 0xA0, 0x200B, 0x200C, 0x200D, 0x2060, 0xFEFF]"

text \<open>\<open>xs[-w:]\<close>: the last \<open>w\<close> elements, everything for \<open>w = 0\<close>, and \<open>xs[k:]\<close> for \<open>w = -k\<close>.\<close>

definition last_slice :: "int \<Rightarrow> 'a list \<Rightarrow> 'a list" where
  "last_slice w xs = (if w > 0 then drop (length xs - nat w) xs else drop (nat (- w)) xs)"

definition degen_tail :: "utext \<Rightarrow> utext" where
  "degen_tail t = last_slice degen_tail_chars t"

definition blank_ratio :: "utext \<Rightarrow> real" where
  "blank_ratio t = (let tail = degen_tail t in
     if tail = [] then 0 else real (length (filter blank_char tail)) / real (length tail))"

definition grams_of :: "nat \<Rightarrow> 'a list \<Rightarrow> 'a list list" where
  "grams_of g xs = map (\<lambda>i. take g (drop i xs)) [0 ..< length xs + 1 - g]"

definition distinct_gram_ratio_over :: "utext \<Rightarrow> int \<Rightarrow> nat \<Rightarrow> real" where
  "distinct_gram_ratio_over t window gram = (let tail = last_slice window t;
       n = int (length tail) - int gram + 1 in
     if n \<le> 0 then 1 else real (card (set (grams_of gram tail))) / real_of_int n)"

definition distinct_gram_ratio :: "utext \<Rightarrow> real" where
  "distinct_gram_ratio t = distinct_gram_ratio_over t degen_tail_chars degen_tail_gram"

text \<open>\<open>str.split()\<close>: the maximal runs of characters that are not Unicode white space.\<close>

definition uspace :: "nat \<Rightarrow> bool" where
  "uspace c \<longleftrightarrow> 9 \<le> c \<and> c \<le> 13 \<or> 28 \<le> c \<and> c \<le> 32 \<or> c \<in> set [0x85, 0xA0, 0x1680] \<or>
     0x2000 \<le> c \<and> c \<le> 0x200A \<or> c \<in> set [0x2028, 0x2029, 0x202F, 0x205F, 0x3000]"

function usplit :: "utext \<Rightarrow> utext list" where
  "usplit t = (case dropWhile uspace t of [] \<Rightarrow> []
     | c # cs \<Rightarrow> (c # takeWhile (\<lambda>x. \<not> uspace x) cs) # usplit (dropWhile (\<lambda>x. \<not> uspace x) cs))"
  by pat_completeness auto
termination
proof (relation "measure length", simp)
  fix t :: utext and c cs
  assume "dropWhile uspace t = c # cs"
  then have "length (c # cs) \<le> length t" by (metis length_dropWhile_le)
  moreover have "length (dropWhile (\<lambda>x. \<not> uspace x) cs) \<le> length cs" by (rule length_dropWhile_le)
  ultimately show "(dropWhile (\<lambda>x. \<not> uspace x) cs, t) \<in> measure length" by simp
qed

text \<open>\<open>Counter(...).most_common(1)[0][1]\<close> is the largest multiplicity.\<close>

definition top_shingle_reps :: "utext \<Rightarrow> nat \<times> nat" where
  "top_shingle_reps t = (let gs = grams_of degen_gram (usplit t) in
     if gs = [] then (0, 0) else (fold max (map (count_list gs) gs) 0, length gs))"

datatype degen_arm = WordShingle | BlankRatio | DistinctGram

definition degenerate_text_arm :: "utext \<Rightarrow> degen_arm option" where
  "degenerate_text_arm t =
     (if length (usplit t) \<ge> degen_min_words \<and>
         (case top_shingle_reps t of (reps, n) \<Rightarrow> n > 0 \<and> reps \<ge> degen_min_reps \<and>
            real reps / real n \<ge> degen_min_fraction)
      then Some WordShingle
      else if length t < degen_tail_min_chars then None
      else if blank_ratio t \<ge> degen_blank_ratio then Some BlankRatio
      else if distinct_gram_ratio t \<le> degen_tail_min_distinct then Some DistinctGram
      else None)"

definition is_degenerate_text :: "utext \<Rightarrow> bool" where
  "is_degenerate_text t \<longleftrightarrow> degenerate_text_arm t \<noteq> None"

record degen_evidence =
  ev_measurable :: bool
  ev_blank_ratio :: "real option"
  ev_distinct_gram :: "real option"
  ev_tail_chars :: nat

definition degeneracy_evidence :: "utext \<Rightarrow> degen_evidence" where
  "degeneracy_evidence t = (let tail = degen_tail t;
       measurable = (length t \<ge> degen_tail_min_chars \<and> tail \<noteq> []) in
     \<lparr>ev_measurable = measurable,
      ev_blank_ratio = (if measurable then Some (blank_ratio t) else None),
      ev_distinct_gram = (if measurable \<and> length tail \<ge> degen_tail_gram
         then Some (distinct_gram_ratio t) else None),
      ev_tail_chars = length tail\<rparr>)"

definition strip_trailing_blank_chars :: "utext \<Rightarrow> utext" where
  "strip_trailing_blank_chars t = rev (dropWhile blank_char (rev t))"

section \<open>The reasoning-loop detector\<close>

definition reasoning_loop_window_chars :: int where "reasoning_loop_window_chars = 20000"
definition reasoning_loop_min_chars :: int where "reasoning_loop_min_chars = 20000"
definition reasoning_loop_max_distinct :: real where "reasoning_loop_max_distinct = 4 / 10"
definition reasoning_loop_check_every_chars :: int where "reasoning_loop_check_every_chars = 4000"
definition reasoning_loop_head_chars :: int where "reasoning_loop_head_chars = 12000"

record loop_verdict =
  lv_ratio :: real
  lv_window :: int
  lv_threshold :: real
  lv_seen :: int

record loop_detector =
  ld_window :: int
  ld_min_chars :: int
  ld_max_distinct :: real
  ld_check_every :: int
  ld_buf :: "utext list"
  ld_buf_len :: int
  ld_seen :: int
  ld_next_check :: int
  ld_verdict :: "loop_verdict option"
  ld_head :: "utext list"
  ld_head_len :: int
  ld_head_cap :: int

definition loop_detector_init :: "int \<Rightarrow> int \<Rightarrow> real \<Rightarrow> int \<Rightarrow> loop_detector" where
  "loop_detector_init window min_chars max_distinct check_every =
     \<lparr>ld_window = window, ld_min_chars = min_chars, ld_max_distinct = max_distinct,
      ld_check_every = check_every, ld_buf = [], ld_buf_len = 0, ld_seen = 0,
      ld_next_check = max min_chars 1, ld_verdict = None, ld_head = [], ld_head_len = 0,
      ld_head_cap = reasoning_loop_head_chars\<rparr>"

definition loop_armed :: "loop_detector \<Rightarrow> bool" where
  "loop_armed d \<longleftrightarrow> ld_window d > 0 \<and> ld_min_chars d > 0 \<and> ld_check_every d > 0 \<and>
     0 < ld_max_distinct d \<and> ld_max_distinct d < 1"

definition loop_head :: "loop_detector \<Rightarrow> utext" where
  "loop_head d = concat (ld_head d)"

definition loop_keep_head :: "utext \<Rightarrow> loop_detector \<Rightarrow> loop_detector" where
  "loop_keep_head delta d = (if ld_head_len d < ld_head_cap d then
     (let room = ld_head_cap d - ld_head_len d in
        d\<lparr>ld_head := ld_head d @ [take (nat room) delta],
          ld_head_len := ld_head_len d + min (int (length delta)) room\<rparr>) else d)"

definition loop_buffer :: "utext \<Rightarrow> loop_detector \<Rightarrow> loop_detector" where
  "loop_buffer delta d = (let
       d = d\<lparr>ld_buf := ld_buf d @ [delta], ld_buf_len := ld_buf_len d + int (length delta),
             ld_seen := ld_seen d + int (length delta)\<rparr> in
     if ld_buf_len d > ld_window d * 2 then
       (let tail = last_slice (ld_window d) (concat (ld_buf d)) in
          d\<lparr>ld_buf := [tail], ld_buf_len := int (length tail)\<rparr>)
     else d)"

definition loop_check :: "loop_detector \<Rightarrow> loop_detector \<times> loop_verdict option" where
  "loop_check d = (if ld_seen d < ld_min_chars d \<or> ld_seen d < ld_next_check d then (d, None)
     else (let d = d\<lparr>ld_next_check := ld_seen d + ld_check_every d\<rparr>;
               ratio = distinct_gram_ratio_over (concat (ld_buf d)) (ld_window d) degen_tail_gram in
       if ratio > ld_max_distinct d then (d, None)
       else (let v = \<lparr>lv_ratio = py_round ratio 4, lv_window = ld_window d,
                      lv_threshold = ld_max_distinct d, lv_seen = ld_seen d\<rparr>
             in (d\<lparr>ld_verdict := Some v\<rparr>, Some v))))"

definition loop_feed :: "utext option \<Rightarrow> loop_detector \<Rightarrow> loop_detector \<times> loop_verdict option" where
  "loop_feed delta d = (if \<not> loop_armed d \<or> ld_verdict d \<noteq> None then (d, None)
     else (case delta of None \<Rightarrow> (d, None) | Some [] \<Rightarrow> (d, None)
       | Some t \<Rightarrow> loop_check (loop_buffer t (loop_keep_head t d))))"

section \<open>The blank-run detector\<close>

record blank_verdict =
  bv_run :: int
  bv_threshold :: int
  bv_content_chars :: int

record blank_detector =
  bd_threshold :: int
  bd_run :: int
  bd_content_chars :: int
  bd_verdict :: "blank_verdict option"

definition blank_detector_init :: "int \<Rightarrow> blank_detector" where
  "blank_detector_init threshold =
     \<lparr>bd_threshold = threshold, bd_run = 0, bd_content_chars = 0, bd_verdict = None\<rparr>"

definition blank_armed :: "blank_detector \<Rightarrow> bool" where
  "blank_armed d \<longleftrightarrow> bd_threshold d > 0"

fun blank_scan :: "utext \<Rightarrow> blank_detector \<Rightarrow> blank_detector \<times> blank_verdict option" where
  "blank_scan [] d = (d, None)"
| "blank_scan (c # cs) d =
     (if blank_char c then
        (let d = d\<lparr>bd_run := bd_run d + 1\<rparr> in
         if bd_run d \<ge> bd_threshold d then
           (let v = \<lparr>bv_run = bd_run d, bv_threshold = bd_threshold d,
                     bv_content_chars = bd_content_chars d\<rparr>
            in (d\<lparr>bd_verdict := Some v\<rparr>, Some v))
         else blank_scan cs d)
      else blank_scan cs (d\<lparr>bd_run := 0\<rparr>))"

definition blank_feed :: "utext option \<Rightarrow> blank_detector \<Rightarrow> blank_detector \<times> blank_verdict option" where
  "blank_feed delta d = (if \<not> blank_armed d \<or> bd_verdict d \<noteq> None then (d, None)
     else (case delta of None \<Rightarrow> (d, None) | Some [] \<Rightarrow> (d, None)
       | Some t \<Rightarrow> blank_scan t (d\<lparr>bd_content_chars := bd_content_chars d + int (length t)\<rparr>)))"


section \<open>What the loop detector decides\<close>

text \<open>
  The text a sequence of deltas carries, and the detector that keeps all of it: it has the same
  schedule of checks and judges the whole stream at each.
\<close>

definition deltas_text :: "utext option list \<Rightarrow> utext" where
  "deltas_text ds = concat (map (\<lambda>x. case x of None \<Rightarrow> [] | Some t \<Rightarrow> t) ds)"

definition loop_feeds :: "utext option list \<Rightarrow> loop_detector \<Rightarrow> loop_detector" where
  "loop_feeds ds d = fold (\<lambda>x d. fst (loop_feed x d)) ds d"

fun loop_reference :: "loop_detector \<Rightarrow> utext \<Rightarrow> int \<Rightarrow> utext option list \<Rightarrow> loop_verdict option" where
  "loop_reference c seen due [] = None"
| "loop_reference c seen due (x # ds) = (case x of None \<Rightarrow> loop_reference c seen due ds
     | Some t \<Rightarrow> (let seen = seen @ t; n = int (length seen);
                      ratio = distinct_gram_ratio_over seen (ld_window c) degen_tail_gram in
         if t = [] \<or> n < ld_min_chars c \<or> n < due then loop_reference c seen due ds
         else if ratio > ld_max_distinct c then loop_reference c seen (n + ld_check_every c) ds
         else Some \<lparr>lv_ratio = py_round ratio 4, lv_window = ld_window c,
                    lv_threshold = ld_max_distinct c, lv_seen = n\<rparr>))"

definition loop_tracks :: "utext \<Rightarrow> loop_detector \<Rightarrow> bool" where
  "loop_tracks T d \<longleftrightarrow> ld_seen d = int (length T) \<and> ld_buf_len d = int (length (concat (ld_buf d))) \<and>
     (\<exists>p. T = p @ concat (ld_buf d) \<and> (p = [] \<or> ld_window d \<le> ld_buf_len d)) \<and>
     ld_buf_len d \<le> 2 * ld_window d"

definition loop_keeps_head :: "utext \<Rightarrow> loop_detector \<Rightarrow> bool" where
  "loop_keeps_head T d \<longleftrightarrow> ld_head_cap d = reasoning_loop_head_chars \<and>
     loop_head d = take (nat reasoning_loop_head_chars) T \<and>
     ld_head_len d = int (length (loop_head d))"

definition loop_config_eq :: "loop_detector \<Rightarrow> loop_detector \<Rightarrow> bool" where
  "loop_config_eq c d \<longleftrightarrow> ld_window d = ld_window c \<and> ld_min_chars d = ld_min_chars c \<and>
     ld_max_distinct d = ld_max_distinct c \<and> ld_check_every d = ld_check_every c"

lemma last_slice_append: "0 < w \<Longrightarrow> w \<le> int (length ys) \<Longrightarrow> last_slice w (xs @ ys) = last_slice w ys"
  by (simp add: last_slice_def)

lemma last_slice_long: "0 < w \<Longrightarrow> w \<le> int (length xs) \<Longrightarrow> length (last_slice w xs) = nat w"
  by (simp add: last_slice_def)

lemma last_slice_suffix: "0 < w \<Longrightarrow> \<exists>p. xs = p @ last_slice w xs"
  by (metis append_take_drop_id last_slice_def)

lemma loop_tracks_slice:
  "loop_tracks T d \<Longrightarrow> 0 < ld_window d \<Longrightarrow>
   last_slice (ld_window d) (concat (ld_buf d)) = last_slice (ld_window d) T"
  by (auto simp: loop_tracks_def last_slice_append)

lemma loop_tracks_ratio:
  "loop_tracks T d \<Longrightarrow> 0 < ld_window d \<Longrightarrow>
   distinct_gram_ratio_over (concat (ld_buf d)) (ld_window d) g
     = distinct_gram_ratio_over T (ld_window d) g"
  by (simp add: distinct_gram_ratio_over_def loop_tracks_slice)

lemma loop_tracks_buffer:
  assumes "loop_tracks T d" "0 < ld_window d"
  shows "loop_tracks (T @ t) (loop_buffer t d)"
proof -
  obtain p where p: "T = p @ concat (ld_buf d)" "p = [] \<or> ld_window d \<le> ld_buf_len d"
    using assms(1) by (auto simp: loop_tracks_def)
  define B where "B = concat (ld_buf d) @ t"
  have split: "T @ t = p @ B" by (simp add: B_def p(1))
  have len: "ld_buf_len d + int (length t) = int (length B)" "ld_seen d = int (length T)"
    using assms(1) by (simp_all add: loop_tracks_def B_def)
  have total_len: "int (length T) + int (length t) = int (length p) + int (length B)"
    using arg_cong [OF split, of length] by simp
  show ?thesis
  proof (cases "int (length B) > ld_window d * 2")
    case True
    obtain q where q: "B = q @ last_slice (ld_window d) B"
      using last_slice_suffix [OF assms(2)] by blast
    have "length (last_slice (ld_window d) B) = nat (ld_window d)"
      using True assms(2) by (intro last_slice_long) auto
    with True q show ?thesis using assms(2) len split total_len
      by (auto simp: loop_tracks_def loop_buffer_def Let_def B_def [symmetric]
          intro!: exI [of _ "p @ q"])
  next
    case False
    with p show ?thesis using len split total_len
      by (auto simp: loop_tracks_def loop_buffer_def Let_def B_def [symmetric]
          intro!: exI [of _ p])
  qed
qed

lemma loop_keeps_head_step:
  assumes "loop_keeps_head T d"
  shows "loop_keeps_head (T @ t) (loop_keep_head t d)"
proof -
  define c where "c = reasoning_loop_head_chars"
  have c0: "0 < c" by (simp add: c_def reasoning_loop_head_chars_def)
  have d: "ld_head_cap d = c" "concat (ld_head d) = take (nat c) T"
    "ld_head_len d = int (min (length T) (nat c))"
    using assms by (auto simp: loop_keeps_head_def loop_head_def c_def)
  show ?thesis
  proof (cases "int (length T) < c")
    case True
    then have m: "ld_head_len d = int (length T)" "take (nat c) T = T" using d by auto
    have "nat (c - int (length T)) = nat c - length T" using True by simp
    with True m d c0 show ?thesis
      by (auto simp: loop_keeps_head_def loop_keep_head_def loop_head_def Let_def c_def [symmetric])
  next
    case False
    then have "ld_head_len d = c" "\<not> ld_head_len d < ld_head_cap d" using d c0 by auto
    with False d c0 show ?thesis
      by (auto simp: loop_keeps_head_def loop_keep_head_def loop_head_def c_def [symmetric])
  qed
qed

lemma loop_keep_head_frame [simp]:
  "ld_window (loop_keep_head t d) = ld_window d" "ld_buf (loop_keep_head t d) = ld_buf d"
  "ld_buf_len (loop_keep_head t d) = ld_buf_len d" "ld_seen (loop_keep_head t d) = ld_seen d"
  "ld_min_chars (loop_keep_head t d) = ld_min_chars d"
  "ld_max_distinct (loop_keep_head t d) = ld_max_distinct d"
  "ld_check_every (loop_keep_head t d) = ld_check_every d"
  "ld_next_check (loop_keep_head t d) = ld_next_check d"
  "ld_verdict (loop_keep_head t d) = ld_verdict d"
  by (simp_all add: loop_keep_head_def Let_def)

lemma loop_buffer_frame [simp]:
  "ld_window (loop_buffer t d) = ld_window d" "ld_min_chars (loop_buffer t d) = ld_min_chars d"
  "ld_max_distinct (loop_buffer t d) = ld_max_distinct d"
  "ld_check_every (loop_buffer t d) = ld_check_every d"
  "ld_next_check (loop_buffer t d) = ld_next_check d"
  "ld_verdict (loop_buffer t d) = ld_verdict d"
  "ld_seen (loop_buffer t d) = ld_seen d + int (length t)"
  "ld_head (loop_buffer t d) = ld_head d" "ld_head_len (loop_buffer t d) = ld_head_len d"
  "ld_head_cap (loop_buffer t d) = ld_head_cap d"
  by (simp_all add: loop_buffer_def Let_def)

lemma loop_tracks_keep_head [simp]: "loop_tracks T (loop_keep_head t d) = loop_tracks T d"
  by (simp add: loop_tracks_def)

lemma loop_check_frame [simp]:
  "ld_window (fst (loop_check d)) = ld_window d" "ld_min_chars (fst (loop_check d)) = ld_min_chars d"
  "ld_max_distinct (fst (loop_check d)) = ld_max_distinct d"
  "ld_check_every (fst (loop_check d)) = ld_check_every d"
  "ld_buf (fst (loop_check d)) = ld_buf d" "ld_buf_len (fst (loop_check d)) = ld_buf_len d"
  "ld_seen (fst (loop_check d)) = ld_seen d" "ld_head (fst (loop_check d)) = ld_head d"
  "ld_head_len (fst (loop_check d)) = ld_head_len d" "ld_head_cap (fst (loop_check d)) = ld_head_cap d"
  by (simp_all add: loop_check_def Let_def)

lemma loop_tracks_check [simp]: "loop_tracks T (fst (loop_check d)) = loop_tracks T d"
  by (simp add: loop_tracks_def)

lemma loop_keeps_head_later [simp]:
  "loop_keeps_head T (fst (loop_check d)) = loop_keeps_head T d"
  "loop_keeps_head T (loop_buffer t d) = loop_keeps_head T d"
  by (simp_all add: loop_keeps_head_def loop_head_def)

definition loop_ok :: "loop_detector \<Rightarrow> utext \<Rightarrow> loop_detector \<Rightarrow> bool" where
  "loop_ok c T d \<longleftrightarrow> loop_config_eq c d \<and> loop_tracks T d \<and> loop_keeps_head T d"

lemma loop_ok_config:
  "loop_ok c T d \<Longrightarrow> ld_window d = ld_window c \<and> ld_min_chars d = ld_min_chars c \<and>
     ld_max_distinct d = ld_max_distinct c \<and> ld_check_every d = ld_check_every c"
  by (simp add: loop_ok_def loop_config_eq_def)

lemma loop_ok_fresh:
  "0 < w \<Longrightarrow> loop_ok (loop_detector_init w m r e) [] (loop_detector_init w m r e)"
  by (simp add: loop_ok_def loop_config_eq_def loop_tracks_def loop_keeps_head_def
      loop_detector_init_def loop_head_def)

lemma loop_ok_feed_text:
  assumes "loop_ok c T d" "0 < ld_window c"
  shows "loop_ok c (T @ t) (loop_buffer t (loop_keep_head t d))"
    and "loop_ok c (T @ t) (fst (loop_check (loop_buffer t (loop_keep_head t d))))"
  using assms loop_tracks_buffer [of T "loop_keep_head t d" t] loop_keeps_head_step [of T d t]
  by (simp_all add: loop_ok_def loop_config_eq_def)

text \<open>One delta: what the detector does and what the reference does with the whole stream.\<close>

lemma loop_check_whole:
  assumes "loop_ok c T d" "0 < ld_window c" "ld_verdict d = None"
  shows "ld_verdict (fst (loop_check d)) = snd (loop_check d)"
    and "snd (loop_check d) = (if int (length T) < ld_min_chars c \<or> int (length T) < ld_next_check d
       \<or> distinct_gram_ratio_over T (ld_window c) degen_tail_gram > ld_max_distinct c then None
       else Some \<lparr>lv_ratio = py_round (distinct_gram_ratio_over T (ld_window c) degen_tail_gram) 4,
          lv_window = ld_window c, lv_threshold = ld_max_distinct c, lv_seen = int (length T)\<rparr>)"
    and "ld_next_check (fst (loop_check d)) = (if int (length T) < ld_min_chars c
       \<or> int (length T) < ld_next_check d then ld_next_check d else int (length T) + ld_check_every c)"
proof -
  have cfg: "ld_window d = ld_window c" "ld_min_chars d = ld_min_chars c"
    "ld_max_distinct d = ld_max_distinct c" "ld_check_every d = ld_check_every c"
    using assms(1) by (simp_all add: loop_ok_def loop_config_eq_def)
  have tr: "loop_tracks T d" using assms(1) by (simp add: loop_ok_def)
  have seen: "ld_seen d = int (length T)" using tr by (simp add: loop_tracks_def)
  have ratio: "distinct_gram_ratio_over (concat (ld_buf d)) (ld_window c) g
      = distinct_gram_ratio_over T (ld_window c) g" for g
    using loop_tracks_ratio [OF tr] assms(2) cfg by simp
  show "ld_verdict (fst (loop_check d)) = snd (loop_check d)"
    using assms(3) by (simp add: loop_check_def Let_def)
  show "snd (loop_check d) = (if int (length T) < ld_min_chars c \<or> int (length T) < ld_next_check d
       \<or> distinct_gram_ratio_over T (ld_window c) degen_tail_gram > ld_max_distinct c then None
       else Some \<lparr>lv_ratio = py_round (distinct_gram_ratio_over T (ld_window c) degen_tail_gram) 4,
          lv_window = ld_window c, lv_threshold = ld_max_distinct c, lv_seen = int (length T)\<rparr>)"
    by (simp add: loop_check_def Let_def cfg seen ratio)
  show "ld_next_check (fst (loop_check d)) = (if int (length T) < ld_min_chars c
       \<or> int (length T) < ld_next_check d then ld_next_check d else int (length T) + ld_check_every c)"
    by (simp add: loop_check_def Let_def cfg seen)
qed


lemma loop_feed_fired: "ld_verdict d \<noteq> None \<Longrightarrow> loop_feeds ds d = d"
  by (induction ds) (simp_all add: loop_feeds_def loop_feed_def)

lemma loop_feeds_simps [simp]:
  "loop_feeds [] d = d" "loop_feeds (x # ds) d = loop_feeds ds (fst (loop_feed x d))"
  by (simp_all add: loop_feeds_def)

lemma loop_ok_armed: "loop_ok c T d \<Longrightarrow> loop_armed d = loop_armed c"
  by (simp add: loop_ok_def loop_config_eq_def loop_armed_def)

lemma loop_feed_text:
  "loop_armed d \<Longrightarrow> ld_verdict d = None \<Longrightarrow> t \<noteq> [] \<Longrightarrow>
   loop_feed (Some t) d = loop_check (loop_buffer t (loop_keep_head t d))"
  by (cases t) (simp_all add: loop_feed_def)

lemma loop_feed_nothing: "x = None \<or> x = Some [] \<Longrightarrow> loop_feed x d = (d, None)"
  by (auto simp: loop_feed_def)

lemma loop_feeds_reference:
  assumes "loop_armed c"
  shows "loop_ok c T d \<Longrightarrow> ld_verdict d = None \<Longrightarrow>
    ld_verdict (loop_feeds ds d) = loop_reference c T (ld_next_check d) ds"
proof (induction ds arbitrary: T d)
  case (Cons x ds)
  have w: "0 < ld_window c" using assms by (simp add: loop_armed_def)
  show ?case
  proof (cases "x = None \<or> x = Some []")
    case True
    then show ?thesis using Cons by (auto simp: loop_feed_nothing)
  next
    case False
    then obtain t where t: "x = Some t" "t \<noteq> []" by auto
    define d' where "d' = loop_buffer t (loop_keep_head t d)"
    have ok: "loop_ok c (T @ t) d'" "loop_ok c (T @ t) (fst (loop_check d'))"
      using loop_ok_feed_text [OF Cons.prems(1) w] by (simp_all add: d'_def)
    have none: "ld_verdict d' = None" "ld_next_check d' = ld_next_check d"
      using Cons.prems(2) by (simp_all add: d'_def)
    have feed: "fst (loop_feed (Some t) d) = fst (loop_check d')"
      using t Cons.prems assms by (simp add: loop_feed_text loop_ok_armed d'_def)
    note chk = loop_check_whole [OF ok(1) w none(1)]
    show ?thesis
    proof (cases "snd (loop_check d')")
      case None
      then have "ld_verdict (fst (loop_check d')) = None" by (simp add: chk(1))
      from Cons.IH [OF ok(2) this] show ?thesis
        using t None by (auto simp: feed chk(2,3) none(2) Let_def split: if_splits)
    next
      case (Some v)
      then have "ld_verdict (fst (loop_check d')) = Some v" by (simp add: chk(1))
      then have "ld_verdict (loop_feeds (x # ds) d) = Some v"
        using t loop_feed_fired [of "fst (loop_check d')" ds] by (simp add: feed)
      moreover have "loop_reference c T (ld_next_check d) (x # ds) = Some v"
        using t Some by (simp add: chk(2) none(2) Let_def split: if_splits)
      ultimately show ?thesis by simp
    qed
  qed
qed simp

lemma loop_feeds_ok:
  assumes "loop_armed c"
  shows "loop_ok c T d \<Longrightarrow> \<exists>T'. loop_ok c T' (loop_feeds ds d) \<and>
    (ld_verdict (loop_feeds ds d) = None \<longrightarrow> T' = T @ deltas_text ds)"
proof (induction ds arbitrary: T d)
  case Nil
  then show ?case by (auto simp: deltas_text_def)
next
  case (Cons x ds)
  have w: "0 < ld_window c" using assms by (simp add: loop_armed_def)
  consider "ld_verdict d \<noteq> None" | "x = None \<or> x = Some []"
    | t where "x = Some t" "t \<noteq> []" "ld_verdict d = None" by (cases x) auto
  then show ?case
  proof cases
    case 1
    then show ?thesis using Cons.prems loop_feed_fired [OF 1, of "x # ds"] by auto
  next
    case 2
    then have "deltas_text (x # ds) = deltas_text ds" by (auto simp: deltas_text_def)
    with 2 show ?thesis using Cons by (simp add: loop_feed_nothing)
  next
    case 3
    then have "loop_ok c (T @ t) (fst (loop_feed x d))"
      using Cons.prems assms w by (simp add: loop_feed_text loop_ok_armed loop_ok_feed_text)
    moreover have "deltas_text (x # ds) = t @ deltas_text ds" using 3 by (simp add: deltas_text_def)
    ultimately show ?thesis using Cons.IH by (metis append_assoc loop_feeds_simps(2))
  qed
qed

text \<open>C23: bounding the memory of the reasoning-loop detector costs nothing. Over any sequence of deltas
  an armed detector reports the verdict of the detector that keeps the whole stream and judges its
  last window at every check; it holds at most two windows of text between deltas, and until it
  fires the head it kept for the re-ask is exactly the beginning of the stream.
\<close>

theorem loop_detector_exact:
  assumes "loop_armed (loop_detector_init w m r e)"
  defines "c \<equiv> loop_detector_init w m r e"
  shows "ld_verdict (loop_feeds ds c) = loop_reference c [] (max m 1) ds \<and>
    int (length (concat (ld_buf (loop_feeds ds c)))) \<le> 2 * w \<and>
    int (length (loop_head (loop_feeds ds c))) \<le> reasoning_loop_head_chars \<and>
    (ld_verdict (loop_feeds ds c) = None \<longrightarrow>
       loop_head (loop_feeds ds c) = take (nat reasoning_loop_head_chars) (deltas_text ds))"
proof -
  have armed: "loop_armed c" and w: "0 < w"
    using assms by (simp_all add: loop_armed_def loop_detector_init_def)
  have ok: "loop_ok c [] c" unfolding c_def using w by (rule loop_ok_fresh)
  obtain T where T: "loop_ok c T (loop_feeds ds c)"
    "ld_verdict (loop_feeds ds c) = None \<longrightarrow> T = deltas_text ds"
    using loop_feeds_ok [OF armed ok, of ds] by auto
  have "ld_window c = w" "ld_next_check c = max m 1" "ld_verdict c = None"
    by (simp_all add: c_def loop_detector_init_def)
  with T loop_feeds_reference [OF armed ok, of ds] show ?thesis
    by (auto simp: loop_ok_def loop_config_eq_def loop_tracks_def loop_keeps_head_def
        reasoning_loop_head_chars_def)
qed

theorem loop_detector_exact_witness:
  "loop_armed (loop_detector_init 30 30 (1 / 2) 5) \<and>
   ld_verdict (loop_feeds [Some (replicate 30 7)] (loop_detector_init 30 30 (1 / 2) 5))
     = loop_reference (loop_detector_init 30 30 (1 / 2) 5) [] 30 [Some (replicate 30 7)]"
  using loop_detector_exact [of 30 30 "1 / 2" 5 "[Some (replicate 30 7)]"]
  by (simp add: loop_armed_def loop_detector_init_def)

section \<open>A cycle is reported\<close>

definition periodic :: "nat \<Rightarrow> 'a list \<Rightarrow> bool" where
  "periodic p xs \<longleftrightarrow> 0 < p \<and> (\<forall>i < length xs - p. xs ! i = xs ! (i + p))"

lemma length_grams_of [simp]: "length (grams_of g xs) = length xs + 1 - g"
  by (simp add: grams_of_def)

lemma periodic_gram:
  assumes "periodic p xs" "p \<le> i" "i + g \<le> length xs"
  shows "take g (drop i xs) = take g (drop (i - p) xs)"
proof (rule nth_equalityI)
  show "length (take g (drop i xs)) = length (take g (drop (i - p) xs))" using assms by simp
next
  fix j assume "j < length (take g (drop i xs))"
  then have j: "j < g" "i + j < length xs" using assms(3) by auto
  then have "i - p + j < length xs - p" using assms(2) by simp
  then have "xs ! (i - p + j) = xs ! (i - p + j + p)" using assms(1) by (simp add: periodic_def)
  then show "take g (drop i xs) ! j = take g (drop (i - p) xs) ! j" using j assms(2) by simp
qed

lemma periodic_gram_mod:
  "periodic p xs \<Longrightarrow> i + g \<le> length xs \<Longrightarrow> take g (drop i xs) = take g (drop (i mod p) xs)"
proof (induction i rule: less_induct)
  case (less i)
  show ?case
  proof (cases "i < p")
    case False
    have p: "0 < p" using less.prems by (simp add: periodic_def)
    have "take g (drop i xs) = take g (drop (i - p) xs)"
      using less.prems False by (intro periodic_gram) auto
    also have "\<dots> = take g (drop ((i - p) mod p) xs)" using less p False by simp
    also have "(i - p) mod p = i mod p" using False by (simp add: le_mod_geq)
    finally show ?thesis .
  qed simp
qed

lemma periodic_few_grams:
  assumes "periodic p xs"
  shows "card (set (grams_of g xs)) \<le> p"
proof -
  have "set (grams_of g xs) \<subseteq> (\<lambda>i. take g (drop i xs)) ` {..<p}"
  proof
    fix t assume "t \<in> set (grams_of g xs)"
    then obtain i where "i < length xs + 1 - g" and t: "t = take g (drop i xs)"
      by (auto simp: grams_of_def)
    then have i: "i + g \<le> length xs" by linarith
    have "i mod p \<in> {..<p}" using assms by (simp add: periodic_def)
    then show "t \<in> (\<lambda>i. take g (drop i xs)) ` {..<p}"
      using t periodic_gram_mod [OF assms i] by auto
  qed
  then have "card (set (grams_of g xs)) \<le> card ((\<lambda>i. take g (drop i xs)) ` {..<p})"
    by (intro card_mono) auto
  also have "\<dots> \<le> p" using card_image_le [of "{..<p}"] by auto
  finally show ?thesis .
qed

lemma periodic_ratio:
  assumes "periodic p (last_slice w t)" "int g \<le> int (length (last_slice w t))"
  shows "distinct_gram_ratio_over t w g \<le> real p / real_of_int (int (length (last_slice w t)) - int g + 1)"
proof -
  define n where "n = int (length (last_slice w t)) - int g + 1"
  have "0 < n" using assms(2) by (simp add: n_def)
  moreover have "real (card (set (grams_of g (last_slice w t)))) \<le> real p"
    using periodic_few_grams [OF assms(1)] by simp
  ultimately show ?thesis
    by (simp add: distinct_gram_ratio_over_def Let_def n_def [symmetric] divide_right_mono)
qed


lemma periodic_sub:
  assumes "periodic p (a @ b @ c)"
  shows "periodic p b"
  unfolding periodic_def
proof (intro conjI allI impI)
  show "0 < p" using assms by (simp add: periodic_def)
  fix i assume i: "i < length b - p"
  then have "length a + i < length (a @ b @ c) - p" by simp
  then have "(a @ b @ c) ! (length a + i) = (a @ b @ c) ! (length a + i + p)"
    using assms unfolding periodic_def by blast
  moreover have "i < length b" "i + p < length b" using i by auto
  ultimately show "b ! i = b ! (i + p)" by (simp add: nth_append add.assoc)
qed

lemma deltas_text_simps [simp]:
  "deltas_text [] = []" "deltas_text (x # ds) = (case x of None \<Rightarrow> [] | Some t \<Rightarrow> t) @ deltas_text ds"
  "deltas_text (ds @ es) = deltas_text ds @ deltas_text es"
  by (simp_all add: deltas_text_def)

lemma loop_reference_append:
  assumes "0 < ld_check_every c"
  shows "loop_reference c T due ds = None \<Longrightarrow>
    \<exists>due'. due' \<le> max due (int (length (T @ deltas_text ds)) + ld_check_every c) \<and>
      loop_reference c T due (ds @ es) = loop_reference c (T @ deltas_text ds) due' es"
proof (induction ds arbitrary: T due)
  case Nil
  then show ?case by (intro exI [of _ due]) simp
next
  case (Cons x ds)
  show ?case
  proof (cases x)
    case None
    then show ?thesis using Cons by simp
  next
    case (Some t)
    let ?n = "int (length (T @ t))"
    let ?due = "if t = [] \<or> ?n < ld_min_chars c \<or> ?n < due then due else ?n + ld_check_every c"
    have step: "loop_reference c T due (x # zs) = loop_reference c (T @ t) ?due zs" for zs
      using Cons.prems Some by (auto simp: Let_def split: if_splits)
    have "loop_reference c (T @ t) ?due ds = None" using Cons.prems step by simp
    from Cons.IH [OF this] obtain due' where
      d: "due' \<le> max ?due (int (length ((T @ t) @ deltas_text ds)) + ld_check_every c)"
        "loop_reference c (T @ t) ?due (ds @ es) = loop_reference c ((T @ t) @ deltas_text ds) due' es"
      by auto
    have "due' \<le> max due (int (length (T @ deltas_text (x # ds))) + ld_check_every c)"
      using d(1) Some by (auto split: if_splits)
    with d(2) show ?thesis using step [of "ds @ es"] Some by (intro exI [of _ due']) simp
  qed
qed

lemma loop_reference_fires:
  assumes "\<And>k. distinct_gram_ratio_over (T @ deltas_text (take k es)) (ld_window c) degen_tail_gram
      \<le> ld_max_distinct c"
    and "deltas_text es \<noteq> []" "due \<le> int (length (T @ deltas_text es))"
    and "ld_min_chars c \<le> int (length (T @ deltas_text es))"
  shows "loop_reference c T due es \<noteq> None"
  using assms
proof (induction es arbitrary: T)
  case (Cons x es)
  have later: "distinct_gram_ratio_over ((T @ deltas_text [x]) @ deltas_text (take k es))
      (ld_window c) degen_tail_gram \<le> ld_max_distinct c" for k
    using Cons.prems(1) [of "Suc k"] by simp
  have now: "distinct_gram_ratio_over (T @ deltas_text [x]) (ld_window c) degen_tail_gram
      \<le> ld_max_distinct c"
    using Cons.prems(1) [of 1] by simp
  have rec: "loop_reference c (T @ deltas_text [x]) due es \<noteq> None" if "deltas_text es \<noteq> []"
    using Cons.IH [OF later that] Cons.prems(3,4) by (simp split: option.splits)
  show ?case
  proof (cases x)
    case None
    then show ?thesis using rec Cons.prems(2) by simp
  next
    case (Some t)
    show ?thesis
    proof (cases "t = [] \<or> int (length (T @ t)) < ld_min_chars c \<or> int (length (T @ t)) < due")
      case True
      then have "deltas_text es \<noteq> []" using Cons.prems(2,3,4) Some by auto
      with rec True Some show ?thesis by (auto simp: Let_def)
    next
      case False
      then show ?thesis using now Some by (auto simp: Let_def)
    qed
  qed
qed simp

lemma last_slice_of_append:
  assumes "0 < w" "w \<le> int (length xs)"
  shows "\<exists>a. last_slice w xs @ ys = a @ last_slice w (xs @ ys)"
proof -
  have "last_slice w (xs @ ys) = last_slice w (last_slice w xs @ ys)"
  proof -
    obtain p where "xs = p @ last_slice w xs" using last_slice_suffix [OF assms(1)] by blast
    then have "xs @ ys = p @ (last_slice w xs @ ys)" by (metis append_assoc)
    moreover have "w \<le> int (length (last_slice w xs @ ys))" using last_slice_long [OF assms] assms by simp
    ultimately show ?thesis using last_slice_append [OF assms(1)] by metis
  qed
  then show ?thesis using last_slice_suffix [OF assms(1)] by metis
qed

text \<open>C24: a reasoning stream that has fallen into a cycle is reported within one check interval. If the
  window is filled by a text of period \<open>p\<close>, the cycle goes on for at least the check interval, the
  stream has reached the minimal length, and the period is at most the threshold share of the
  shingles in the window, the detector has fired, however the stream was cut into deltas.
\<close>

theorem cycle_is_reported:
  assumes "loop_armed (loop_detector_init w m r e)"
    and "w \<le> int (length (deltas_text ds))" "int degen_tail_gram \<le> w"
    and "periodic p (last_slice w (deltas_text ds) @ deltas_text es)"
    and "e \<le> int (length (deltas_text es))" "m \<le> int (length (deltas_text (ds @ es)))"
    and "real p \<le> r * real_of_int (w - int degen_tail_gram + 1)"
  shows "ld_verdict (loop_feeds (ds @ es) (loop_detector_init w m r e)) \<noteq> None"
proof -
  define c where "c = loop_detector_init w m r e"
  have armed: "loop_armed c" and pos: "0 < w" "0 < e"
    and cfg: "ld_window c = w" "ld_check_every c = e" "ld_max_distinct c = r" "ld_min_chars c = m"
      "ld_next_check c = max m 1" "ld_verdict c = None"
    using assms(1) by (simp_all add: c_def loop_armed_def loop_detector_init_def)
  have ok: "loop_ok c [] c" unfolding c_def using pos(1) by (rule loop_ok_fresh)
  note ref = loop_feeds_reference [OF armed ok cfg(6), of "ds @ es", unfolded cfg]
  have ratio: "distinct_gram_ratio_over (deltas_text ds @ deltas_text (take k es)) w degen_tail_gram \<le> r" for k
  proof -
    let ?T = "deltas_text ds @ deltas_text (take k es)"
    obtain a where a: "last_slice w (deltas_text ds) @ deltas_text (take k es) = a @ last_slice w ?T"
      using last_slice_of_append [OF pos(1) assms(2)] by blast
    have "deltas_text es = deltas_text (take k es) @ deltas_text (drop k es)"
      by (metis append_take_drop_id deltas_text_simps(3))
    then have "last_slice w (deltas_text ds) @ deltas_text es = a @ last_slice w ?T @ deltas_text (drop k es)"
      by (metis a append_assoc)
    then have per: "periodic p (last_slice w ?T)" using assms(4) periodic_sub by metis
    have len: "int (length (last_slice w ?T)) = w" using pos(1) assms(2) by (simp add: last_slice_long)
    have "distinct_gram_ratio_over ?T w degen_tail_gram \<le> real p / real_of_int (w - int degen_tail_gram + 1)"
      using periodic_ratio [OF per, of degen_tail_gram] assms(3) len by simp
    also have "\<dots> \<le> r" using assms(3,7) by (simp add: divide_le_eq)
    finally show ?thesis .
  qed
  show ?thesis
  proof (cases "loop_reference c [] (max m 1) ds")
    case None
    obtain due where due: "due \<le> max (max m 1) (int (length (deltas_text ds)) + e)"
      "loop_reference c [] (max m 1) (ds @ es) = loop_reference c (deltas_text ds) due es"
      using loop_reference_append [of c "[]" "max m 1" ds es] None pos cfg by auto
    have "loop_reference c (deltas_text ds) due es \<noteq> None"
      using ratio due(1) assms(5,6) pos by (intro loop_reference_fires) (auto simp: cfg)
    then show ?thesis using ref due(2) by (simp add: c_def)
  next
    case (Some v)
    then have "ld_verdict (loop_feeds ds c) = Some v"
      using loop_feeds_reference [OF armed ok cfg(6), of ds, unfolded cfg] by simp
    then have "loop_feeds es (loop_feeds ds c) = loop_feeds ds c" by (simp add: loop_feed_fired)
    then show ?thesis using \<open>ld_verdict (loop_feeds ds c) = Some v\<close>
      by (simp add: loop_feeds_def c_def)
  qed
qed


theorem cycle_is_reported_witness:
  "ld_verdict (loop_feeds ([Some (replicate 30 7)] @ [Some (replicate 5 7)])
     (loop_detector_init 30 30 (1 / 2) 5)) \<noteq> None"
  by (rule cycle_is_reported [where p = 1])
    (simp_all add: loop_armed_def loop_detector_init_def degen_tail_gram_def last_slice_def
      periodic_def replicate_add [symmetric] del: replicate_Suc replicate.simps(2))

section \<open>What the blank-run detector decides\<close>

definition blank_feeds :: "utext option list \<Rightarrow> blank_detector \<Rightarrow> blank_detector" where
  "blank_feeds ds d = fold (\<lambda>x d. fst (blank_feed x d)) ds d"

text \<open>The text contains a run of \<open>n\<close> blank characters.\<close>

definition blank_run_in :: "nat \<Rightarrow> utext \<Rightarrow> bool" where
  "blank_run_in n t \<longleftrightarrow> (\<exists>a b c. t = a @ b @ c \<and> length b = n \<and> list_all blank_char b)"

definition trailing_blanks :: "utext \<Rightarrow> nat" where
  "trailing_blanks t = length (takeWhile blank_char (rev t))"

lemma trailing_blanks_simps [simp]:
  "trailing_blanks [] = 0"
  "trailing_blanks (t @ [c]) = (if blank_char c then Suc (trailing_blanks t) else 0)"
  by (simp_all add: trailing_blanks_def)

lemma trailing_blanks_ge:
  "n \<le> trailing_blanks t \<longleftrightarrow> (\<exists>a b. t = a @ b \<and> length b = n \<and> list_all blank_char b)"
proof
  assume n: "n \<le> trailing_blanks t"
  define k where "k = takeWhile blank_char (rev t)"
  have "rev t = take n k @ (drop n k @ dropWhile blank_char (rev t))"
    by (metis append_assoc append_take_drop_id k_def takeWhile_dropWhile_id)
  then have "t = rev (drop n k @ dropWhile blank_char (rev t)) @ rev (take n k)"
    by (metis rev_append rev_rev_ident)
  moreover have "length (rev (take n k)) = n" using n by (simp add: k_def trailing_blanks_def)
  moreover have "list_all blank_char (rev (take n k))"
    by (auto simp: list_all_iff k_def dest!: in_set_takeD set_takeWhileD)
  ultimately show "\<exists>a b. t = a @ b \<and> length b = n \<and> list_all blank_char b" by blast
next
  assume "\<exists>a b. t = a @ b \<and> length b = n \<and> list_all blank_char b"
  then obtain a b where "t = a @ b" "length b = n" "list_all blank_char b" by blast
  then have "takeWhile blank_char (rev t) = rev b @ takeWhile blank_char (rev a)"
    by (auto simp: list_all_iff intro!: takeWhile_append2)
  then show "n \<le> trailing_blanks t" using \<open>length b = n\<close> by (simp add: trailing_blanks_def)
qed

lemma blank_run_snoc:
  "0 < n \<Longrightarrow> blank_run_in n (t @ [c]) \<longleftrightarrow> blank_run_in n t \<or> n \<le> trailing_blanks (t @ [c])"
proof
  assume "0 < n" "blank_run_in n (t @ [c])"
  then obtain x y z where xyz: "t @ [c] = x @ y @ z" "length y = n" "list_all blank_char y"
    by (auto simp: blank_run_in_def)
  show "blank_run_in n t \<or> n \<le> trailing_blanks (t @ [c])"
  proof (cases z rule: rev_cases)
    case Nil
    then have "n \<le> trailing_blanks (t @ [c])" using xyz by (subst trailing_blanks_ge) auto
    then show ?thesis ..
  next
    case (snoc z' c')
    then have "t = x @ y @ z'" using xyz(1) by (metis append_assoc butlast_snoc)
    then show ?thesis using xyz by (auto simp: blank_run_in_def)
  qed
next
  assume "0 < n" and or: "blank_run_in n t \<or> n \<le> trailing_blanks (t @ [c])"
  from or show "blank_run_in n (t @ [c])"
  proof
    assume "blank_run_in n t"
    then show ?thesis unfolding blank_run_in_def by (metis append_assoc)
  next
    assume "n \<le> trailing_blanks (t @ [c])"
    then show ?thesis unfolding blank_run_in_def by (subst (asm) trailing_blanks_ge) (metis append_Nil2)
  qed
qed

lemma blank_run_extends: "blank_run_in n t \<Longrightarrow> blank_run_in n (t @ u)"
  unfolding blank_run_in_def by (metis append_assoc)

definition blank_tracks :: "utext \<Rightarrow> blank_detector \<Rightarrow> bool" where
  "blank_tracks T d \<longleftrightarrow> bd_run d = int (trailing_blanks T) \<and> \<not> blank_run_in (nat (bd_threshold d)) T"

lemma blank_scan_step:
  "blank_armed d \<Longrightarrow> bd_verdict d = None \<Longrightarrow> blank_tracks T d \<Longrightarrow>
   bd_threshold (fst (blank_scan t d)) = bd_threshold d \<and>
   (if blank_run_in (nat (bd_threshold d)) (T @ t) then bd_verdict (fst (blank_scan t d)) \<noteq> None
    else bd_verdict (fst (blank_scan t d)) = None \<and> blank_tracks (T @ t) (fst (blank_scan t d)))"
proof (induction t arbitrary: T d)
  case Nil
  then show ?case by (simp add: blank_tracks_def)
next
  case (Cons c cs)
  define n where "n = nat (bd_threshold d)"
  have n: "0 < n" "bd_threshold d = int n" using Cons.prems(1) by (simp_all add: blank_armed_def n_def)
  have run: "bd_run d = int (trailing_blanks T)" "\<not> blank_run_in n T"
    using Cons.prems(3) by (simp_all add: blank_tracks_def n_def)
  note snoc = blank_run_snoc [OF n(1), of T c]
  show ?case
  proof (cases "blank_char c \<and> n \<le> Suc (trailing_blanks T)")
    case True
    then have "blank_run_in n (T @ [c])" using snoc by simp
    then have "blank_run_in n (T @ c # cs)" using blank_run_extends [of n "T @ [c]" cs] by simp
    then show ?thesis using True n run by (simp add: Let_def)
  next
    case False
    define d' where "d' = d\<lparr>bd_run := if blank_char c then bd_run d + 1 else 0\<rparr>"
    have step: "blank_scan (c # cs) d = blank_scan cs d'"
      using False n run by (auto simp: Let_def d'_def)
    have "blank_tracks (T @ [c]) d'"
      using False n run snoc by (auto simp: blank_tracks_def d'_def)
    moreover have "blank_armed d'" "bd_verdict d' = None" "bd_threshold d' = bd_threshold d"
      using Cons.prems by (simp_all add: d'_def blank_armed_def)
    ultimately show ?thesis using Cons.IH [of d' "T @ [c]"] step
      by (simp del: blank_scan.simps split: if_split_asm)
  qed
qed

lemma blank_feed_step:
  fixes x :: "utext option"
  assumes "blank_armed d" "bd_verdict d = None" "blank_tracks T d"
  defines "T' \<equiv> T @ deltas_text [x]"
  shows "bd_threshold (fst (blank_feed x d)) = bd_threshold d"
    and "blank_run_in (nat (bd_threshold d)) T' \<Longrightarrow> bd_verdict (fst (blank_feed x d)) \<noteq> None"
    and "\<not> blank_run_in (nat (bd_threshold d)) T' \<Longrightarrow>
      bd_verdict (fst (blank_feed x d)) = None \<and> blank_tracks T' (fst (blank_feed x d))"
proof -
  have "bd_threshold (fst (blank_feed x d)) = bd_threshold d \<and>
   (if blank_run_in (nat (bd_threshold d)) T' then bd_verdict (fst (blank_feed x d)) \<noteq> None
    else bd_verdict (fst (blank_feed x d)) = None \<and> blank_tracks T' (fst (blank_feed x d)))"
  proof (cases "x = None \<or> x = Some []")
    case True
    then show ?thesis using assms by (auto simp: blank_feed_def blank_tracks_def)
  next
    case False
    then obtain t where t: "x = Some t" "t \<noteq> []" by auto
    define d' where "d' = d\<lparr>bd_content_chars := bd_content_chars d + int (length t)\<rparr>"
    have "fst (blank_feed x d) = fst (blank_scan t d')"
      using t assms(1,2) by (cases t) (auto simp: blank_feed_def d'_def)
    moreover have "blank_armed d'" "bd_verdict d' = None" "blank_tracks T d'" "bd_threshold d' = bd_threshold d"
      using assms by (simp_all add: d'_def blank_armed_def blank_tracks_def)
    ultimately show ?thesis using blank_scan_step [of d' T t] t by (simp add: T'_def)
  qed
  then show "bd_threshold (fst (blank_feed x d)) = bd_threshold d"
    and "blank_run_in (nat (bd_threshold d)) T' \<Longrightarrow> bd_verdict (fst (blank_feed x d)) \<noteq> None"
    and "\<not> blank_run_in (nat (bd_threshold d)) T' \<Longrightarrow>
      bd_verdict (fst (blank_feed x d)) = None \<and> blank_tracks T' (fst (blank_feed x d))"
    by (auto split: if_splits)
qed

lemma blank_feeds_fired: "bd_verdict d \<noteq> None \<Longrightarrow> blank_feeds ds d = d"
  by (induction ds) (simp_all add: blank_feeds_def blank_feed_def)

lemma blank_feeds_exact:
  "blank_armed d \<Longrightarrow> bd_verdict d = None \<Longrightarrow> blank_tracks T d \<Longrightarrow>
   bd_verdict (blank_feeds ds d) \<noteq> None \<longleftrightarrow> blank_run_in (nat (bd_threshold d)) (T @ deltas_text ds)"
proof (induction ds arbitrary: T d)
  case Nil
  then show ?case by (simp add: blank_feeds_def blank_tracks_def)
next
  case (Cons x ds)
  define d' where "d' = fst (blank_feed x d)"
  define T' where "T' = T @ deltas_text [x]"
  note step = blank_feed_step [OF Cons.prems, of x, folded d'_def T'_def]
  have feeds: "blank_feeds (x # ds) d = blank_feeds ds d'" by (simp add: blank_feeds_def d'_def)
  have whole: "T @ deltas_text (x # ds) = T' @ deltas_text ds" by (simp add: T'_def)
  show ?case
  proof (cases "blank_run_in (nat (bd_threshold d)) T'")
    case True
    then show ?thesis unfolding feeds whole
      using step(2) blank_feeds_fired [of d' ds] blank_run_extends [OF True] by simp
  next
    case False
    then have "blank_armed d'" using step(1) Cons.prems(1) by (simp add: blank_armed_def)
    then show ?thesis unfolding feeds whole
      using Cons.IH [of d' T'] step(1) step(3) [OF False] by simp
  qed
qed

text \<open>The blank-run detector cuts a structured stream off exactly when the content contains a run of
  the configured number of blank characters, however the run is spread over the deltas; a threshold
  that is not positive never cuts anything.
\<close>

theorem blank_run_exact:
  "bd_verdict (blank_feeds ds (blank_detector_init n)) \<noteq> None
     \<longleftrightarrow> 0 < n \<and> blank_run_in (nat n) (deltas_text ds)"
proof (cases "0 < n")
  case True
  have "\<not> blank_run_in (nat n) []" using True by (auto simp: blank_run_in_def)
  then show ?thesis using True blank_feeds_exact [of "blank_detector_init n" "[]" ds]
    by (simp add: blank_armed_def blank_detector_init_def blank_tracks_def)
next
  case False
  then have "blank_feeds ds (blank_detector_init n) = blank_detector_init n"
    by (induction ds) (simp_all add: blank_feeds_def blank_feed_def blank_armed_def blank_detector_init_def)
  then show ?thesis using False by (simp add: blank_detector_init_def)
qed

section \<open>The verdict on a finished text\<close>

text \<open>What the tail arm claims is what the evidence reports, and short replies are never judged.\<close>

lemma evidence_supports_arm:
  "degenerate_text_arm t = Some BlankRatio \<Longrightarrow>
     ev_blank_ratio (degeneracy_evidence t) = Some (blank_ratio t) \<and> degen_blank_ratio \<le> blank_ratio t"
  "degenerate_text_arm t = Some DistinctGram \<Longrightarrow>
     ev_distinct_gram (degeneracy_evidence t) = Some (distinct_gram_ratio t) \<and>
     distinct_gram_ratio t \<le> degen_tail_min_distinct"
  by (auto simp: degenerate_text_arm_def degeneracy_evidence_def Let_def degen_tail_def last_slice_def
      degen_tail_chars_def degen_tail_min_chars_def degen_tail_gram_def split: if_splits)

lemma short_reply_not_judged:
  "length t < degen_tail_min_chars \<Longrightarrow> length (usplit t) < degen_min_words \<Longrightarrow> \<not> is_degenerate_text t"
  by (simp add: is_degenerate_text_def degenerate_text_arm_def)

lemma strip_trailing_blank_chars_prefix:
  "\<exists>b. t = strip_trailing_blank_chars t @ b \<and> list_all blank_char b"
proof (intro exI conjI)
  show "t = strip_trailing_blank_chars t @ rev (takeWhile blank_char (rev t))"
    by (metis rev_append rev_rev_ident strip_trailing_blank_chars_def takeWhile_dropWhile_id)
  show "list_all blank_char (rev (takeWhile blank_char (rev t)))"
    by (auto simp: list_all_iff dest: set_takeWhileD)
qed

end
