(* ===== verification/Think_Switch.thy ===== *)
theory Think_Switch
  imports Json
begin

section \<open>Thinking switches in a payload (think_bleed.py, first half)\<close>

text \<open>
  \<^verbatim>\<open>strip_thinking_switch\<close> and \<^verbatim>\<open>rename_thinking_switch\<close> of \<^verbatim>\<open>think_bleed.py\<close>, what \<^verbatim>\<open>backend.py\<close>
  does with them, and the tallies. The source works copy-on-write and reports by identity whether
  it copied; here the result is a new value, and \<open>untouched_without_switch\<close> shows when it is the old
  one. The logging interval reads a clock that is an argument.
\<close>

subsection \<open>Removing a switch\<close>

definition thinking_kwarg_names :: "string list" where
  "thinking_kwarg_names = [''thinking'', ''enable_thinking'']"

text \<open>\<^verbatim>\<open>type(value).__name__\<close> for what JSON decodes to.\<close>

fun value_label :: "json \<Rightarrow> string" where
  "value_label JNull = ''null''"
| "value_label (JBool b) = (if b then ''true'' else ''false'')"
| "value_label (JInt _) = ''int''"
| "value_label (JFloat _ _) = ''float''"
| "value_label (JStr _) = ''str''"
| "value_label (JList _) = ''list''"
| "value_label (JObj _) = ''dict''"

fun is_none_effort :: "json \<Rightarrow> bool" where
  "is_none_effort (JStr s) = (py_lower (py_strip s) = ''none'')"
| "is_none_effort _ = False"

definition ctk :: string where "ctk = ''chat_template_kwargs''"

text \<open>The keyword arguments without the switch, and what was found in them.\<close>

definition strip_kwargs :: "string \<Rightarrow> payload \<Rightarrow> payload \<times> string list" where
  "strip_kwargs pre ck =
     (let found = map (\<lambda>(k, v). pre @ ctk @ ''.'' @ k @ ''='' @ value_label v) (filter (\<lambda>(k, v). k \<in> set thinking_kwarg_names) ck);
          new_ck = filter (\<lambda>(k, v). k \<notin> set thinking_kwarg_names) ck
      in if is_none_effort (jget new_ck ''reasoning_effort'')
         then (od_del ''reasoning_effort'' new_ck, found @ [pre @ ctk @ ''.reasoning_effort=none''])
         else (new_ck, found))"

definition put_or_del :: "string \<Rightarrow> payload \<Rightarrow> payload \<Rightarrow> payload" where
  "put_or_del k v p = (if v \<noteq> [] then od_put k (JObj v) p else od_del k p)"

definition strip_container :: "string \<Rightarrow> payload \<Rightarrow> payload \<times> string list" where
  "strip_container pre c =
     (let (out1, f1) = (case jget c ctk of
              JObj ck \<Rightarrow> (let (new_ck, f) = strip_kwargs pre ck in
                          (if length new_ck \<noteq> length ck then put_or_del ctk new_ck c else c, f))
            | _ \<Rightarrow> (c, []));
          (out2, f2) = (if is_none_effort (jget c ''reasoning_effort'')
                        then (od_del ''reasoning_effort'' out1, [pre @ ''reasoning_effort=none'']) else (out1, []));
          (out3, f3) = (case jget c ''reasoning'' of
              JObj r \<Rightarrow> if is_none_effort (jget r ''effort'')
                        then (put_or_del ''reasoning'' (filter (\<lambda>(k, v). k \<noteq> ''effort'') r) out2, [pre @ ''reasoning.effort=none''])
                        else (out2, [])
            | _ \<Rightarrow> (out2, []))
      in (out3, f1 @ f2 @ f3))"

definition strip_thinking_switch :: "json \<Rightarrow> json \<times> string list" where
  "strip_thinking_switch p =
     (case p of
        JObj c \<Rightarrow>
          (let (out, f1) = strip_container [] c in
           case jget out ''extra_body'' of
             JObj eb \<Rightarrow> (let (new_eb, f2) = strip_container ''extra_body.'' eb in
                         (JObj (if f2 \<noteq> [] then od_put ''extra_body'' (JObj new_eb) out else out), f1 @ f2))
           | _ \<Rightarrow> (JObj out, f1))
      | _ \<Rightarrow> (p, []))"

subsection \<open>Renaming a switch\<close>

definition as_switch_value :: "json \<Rightarrow> bool option" where
  "as_switch_value v =
     (case v of
        JBool b \<Rightarrow> Some b
      | JObj d \<Rightarrow>
          (let kind = py_lower (py_strip (py_str (or_empty (jget d ''type'')))) in
           if kind = ''enabled'' \<or> kind = ''adaptive'' then Some True
           else if kind = ''disabled'' then Some False else None)
      | _ \<Rightarrow> None)"

definition land_on :: "string list \<Rightarrow> json \<Rightarrow> payload \<Rightarrow> payload \<times> string list" where
  "land_on declared v ck =
     foldl (\<lambda>(ck, landed) key. if key \<in> set (od_keys ck) then (ck, landed) else (od_put key v ck, landed @ [key])) (ck, []) declared"

definition rename_container :: "string \<Rightarrow> string list \<Rightarrow> payload \<Rightarrow> payload \<times> string list" where
  "rename_container pre declared c =
     (case jget c ctk of
        JObj ck \<Rightarrow>
          (let foreign = filter (\<lambda>k. k \<in> set (od_keys ck) \<and> k \<notin> set declared) thinking_kwarg_names in
           if foreign = [] then (c, [])
           else let vals = map (\<lambda>k. as_switch_value (jget ck k)) foreign;
                    agreed = (hd vals \<noteq> None \<and> list_all (\<lambda>v. v = hd vals) vals);
                    rest = filter (\<lambda>(k, v). k \<notin> set foreign) ck;
                    (new_ck, landed) = (if agreed then land_on declared (JBool (the (hd vals))) rest else (rest, []));
                    label = join ''+'' foreign @ ''->'' @ (if landed \<noteq> [] then join ''+'' landed else ''dropped'')
                in (od_put ctk (JObj new_ck) c,
                    [pre @ ctk @ ''.'' @ label @ (if landed \<noteq> [] then ''='' @ value_label (JBool (the (hd vals))) else [])]))
      | _ \<Rightarrow> (c, []))"

definition rename_thinking_switch :: "json \<Rightarrow> string list \<Rightarrow> json \<times> string list" where
  "rename_thinking_switch p declared =
     (case p of
        JObj c \<Rightarrow>
          if declared = [] then (p, [])
          else (let (out, f1) = rename_container [] declared c in
                case jget out ''extra_body'' of
                  JObj eb \<Rightarrow> (let (new_eb, f2) = rename_container ''extra_body.'' declared eb in
                              (JObj (if f2 \<noteq> [] then od_put ''extra_body'' (JObj new_eb) out else out), f1 @ f2))
                | _ \<Rightarrow> (JObj out, f1))
      | _ \<Rightarrow> (p, []))"

subsection \<open>Counting and the last hop\<close>

type_synonym spelling_row = "int \<times> (string, int) odict"

record think_stats =
  ts_stripped :: int
  ts_stripped_by :: "(string, spelling_row) odict"
  ts_renamed :: int
  ts_renamed_by :: "(string, spelling_row) odict"
  ts_repaired :: int
  ts_repaired_by :: "(string, spelling_row \<times> int \<times> int) odict"
  ts_logged :: "(string \<times> string, real \<times> int) odict"

definition new_think_stats :: think_stats where
  "new_think_stats = \<lparr>ts_stripped = 0, ts_stripped_by = [], ts_renamed = 0, ts_renamed_by = [],
     ts_repaired = 0, ts_repaired_by = [], ts_logged = []\<rparr>"

definition log_interval_s :: real where "log_interval_s = 60"

text \<open>How many events the line stands for that is to be written now; 0 if none is.\<close>

definition should_log :: "real \<Rightarrow> string \<Rightarrow> string \<Rightarrow> think_stats \<Rightarrow> int \<times> think_stats" where
  "should_log now kind endpoint st =
     (let pending = (case od_get (ts_logged st) (kind, endpoint) of Some (_, n) \<Rightarrow> n | None \<Rightarrow> 0) + 1 in
      case od_get (ts_logged st) (kind, endpoint) of
        Some (t, _) \<Rightarrow>
          if now - t < log_interval_s then (0, st\<lparr>ts_logged := od_put (kind, endpoint) (t, pending) (ts_logged st)\<rparr>)
          else (pending, st\<lparr>ts_logged := od_put (kind, endpoint) (now, 0) (ts_logged st)\<rparr>)
      | None \<Rightarrow> (pending, st\<lparr>ts_logged := od_put (kind, endpoint) (now, 0) (ts_logged st)\<rparr>))"

definition count_row :: "string list \<Rightarrow> spelling_row \<Rightarrow> spelling_row" where
  "count_row ss row = (fst row + 1, foldl (\<lambda>d s. od_put s (od_get_or 0 d s + 1) d) (snd row) ss)"

definition note_stripped :: "real \<Rightarrow> string \<Rightarrow> string list \<Rightarrow> think_stats \<Rightarrow> int \<times> think_stats" where
  "note_stripped now endpoint spellings st =
     should_log now ''stripped'' endpoint
       (st\<lparr>ts_stripped := ts_stripped st + 1,
           ts_stripped_by := od_put endpoint (count_row spellings (od_get_or (0, []) (ts_stripped_by st) endpoint)) (ts_stripped_by st)\<rparr>)"

definition note_renamed :: "real \<Rightarrow> string \<Rightarrow> string list \<Rightarrow> think_stats \<Rightarrow> int \<times> think_stats" where
  "note_renamed now endpoint renames st =
     should_log now ''renamed'' endpoint
       (st\<lparr>ts_renamed := ts_renamed st + 1,
           ts_renamed_by := od_put endpoint (count_row renames (od_get_or (0, []) (ts_renamed_by st) endpoint)) (ts_renamed_by st)\<rparr>)"

text \<open>The row of an endpoint counts its repairs by shape, and those of streams and of whole responses.\<close>

definition note_repaired :: "real \<Rightarrow> string \<Rightarrow> string \<Rightarrow> bool \<Rightarrow> think_stats \<Rightarrow> int \<times> think_stats" where
  "note_repaired now endpoint shape stream st =
     (case od_get_or ((0, []), 0, 0) (ts_repaired_by st) endpoint of
        (row, streams, syncs) \<Rightarrow>
          should_log now ''repaired'' endpoint
            (st\<lparr>ts_repaired := ts_repaired st + 1,
                ts_repaired_by := od_put endpoint
                  (count_row [shape] row, if stream then streams + 1 else streams, if stream then syncs else syncs + 1)
                  (ts_repaired_by st)\<rparr>))"

record switch_config =
  sw_name :: string
  no_thinking_switch :: bool
  thinking_kwargs :: "string list"

definition canonical_switch :: "switch_config \<Rightarrow> real \<Rightarrow> json \<Rightarrow> think_stats \<Rightarrow> json \<times> think_stats" where
  "canonical_switch c now p st =
     (if no_thinking_switch c
      then (case strip_thinking_switch p of
              (out, found) \<Rightarrow> (out, if found \<noteq> [] then snd (note_stripped now (sw_name c) found st) else st))
      else if thinking_kwargs c \<noteq> []
      then (case rename_thinking_switch p (thinking_kwargs c) of
              (out, found) \<Rightarrow> (out, if found \<noteq> [] then snd (note_renamed now (sw_name c) found st) else st))
      else (p, st))"

definition thinking_switched_off :: "json \<Rightarrow> bool" where
  "thinking_switched_off p =
     (case p of
        JObj c \<Rightarrow> (case jget c ctk of JObj ck \<Rightarrow> list_ex (\<lambda>n. jget ck n = JBool False) thinking_kwarg_names | _ \<Rightarrow> False)
      | _ \<Rightarrow> False)"

text \<open>Whether a closing tag alone may be believed, from the opt-in and the forced reasoning of the
  endpoint.\<close>

definition close_only_expected :: "bool \<Rightarrow> bool \<Rightarrow> json \<Rightarrow> bool \<Rightarrow> bool" where
  "close_only_expected opted_in forces_reasoning p stream =
     (if thinking_switched_off p then False else if stream then opted_in else opted_in \<or> forces_reasoning)"

text \<open>Repair acts only on chat completions of an endpoint that declares the capability.\<close>

definition repairs_bleed :: "string list \<Rightarrow> string \<Rightarrow> bool" where
  "repairs_bleed caps payload_type = (payload_type = ''chat_completion'' \<and> ''reasoning'' \<in> set caps)"

subsection \<open>Lemmas: what is left of a switch\<close>

text \<open>Every spelling of the switch that one dict can hold.\<close>

definition switch_in :: "payload \<Rightarrow> bool" where
  "switch_in c \<longleftrightarrow>
     (case jget c ctk of
        JObj ck \<Rightarrow> list_ex (\<lambda>(k, v). k \<in> set thinking_kwarg_names) ck \<or> is_none_effort (jget ck ''reasoning_effort'')
      | _ \<Rightarrow> False) \<or>
     is_none_effort (jget c ''reasoning_effort'') \<or>
     (case jget c ''reasoning'' of JObj r \<Rightarrow> is_none_effort (jget r ''effort'') | _ \<Rightarrow> False)"

definition has_switch :: "json \<Rightarrow> bool" where
  "has_switch p \<longleftrightarrow>
     (case p of JObj c \<Rightarrow> switch_in c \<or> (case jget c ''extra_body'' of JObj eb \<Rightarrow> switch_in eb | _ \<Rightarrow> False) | _ \<Rightarrow> False)"

declare jget_put [simp] jget_del [simp]

lemma jget_put_or_del [simp]: "jget (put_or_del k v p) k' = (if k' = k then (if v \<noteq> [] then JObj v else JNull) else jget p k')"
  by (simp add: put_or_del_def)

lemma jget_filter: "P k \<Longrightarrow> jget (filter (\<lambda>(k, v). P k) p) k = jget p k"
  by (induction p) auto

lemma jget_filter_out: "\<not> P k \<Longrightarrow> jget (filter (\<lambda>(k, v). P k) p) k = JNull"
  by (induction p) auto


lemma del_shorter: "jget p k \<noteq> JNull \<Longrightarrow> length (od_del k p) < length p"
  by (induction p) (auto simp: le_imp_less_Suc length_delete_le)

definition kwargs_switch :: "payload \<Rightarrow> bool" where
  "kwargs_switch ck \<longleftrightarrow> list_ex (\<lambda>(k, v). k \<in> set thinking_kwarg_names) ck \<or> is_none_effort (jget ck ''reasoning_effort'')"

lemma none_effort_not_null: "is_none_effort v \<Longrightarrow> v \<noteq> JNull"
  by auto

lemma effort_not_a_name: "''reasoning_effort'' \<notin> set thinking_kwarg_names"
  by (simp add: thinking_kwarg_names_def)

lemma strip_kwargs_clean:
  assumes "strip_kwargs pre ck = (new_ck, f)"
  shows "\<not> kwargs_switch new_ck" "f \<noteq> [] \<longleftrightarrow> kwargs_switch ck" "length new_ck \<noteq> length ck \<longleftrightarrow> kwargs_switch ck"
    "f = [] \<Longrightarrow> new_ck = ck"
proof -
  let ?n = "filter (\<lambda>(k, v). k \<notin> set thinking_kwarg_names) ck"
  let ?h = "filter (\<lambda>(k, v). k \<in> set thinking_kwarg_names) ck"
  have e: "jget ?n ''reasoning_effort'' = jget ck ''reasoning_effort''"
    using jget_filter[of "\<lambda>k. k \<notin> set thinking_kwarg_names" "''reasoning_effort''" ck] effort_not_a_name by simp
  have h: "?h \<noteq> [] \<longleftrightarrow> list_ex (\<lambda>(k, v). k \<in> set thinking_kwarg_names) ck"
    by (auto simp: filter_empty_conv list_ex_iff)
  have len: "length ?n + length ?h = length ck"
    using sum_length_filter_compl[of "\<lambda>p. fst p \<in> set thinking_kwarg_names" ck] by (simp add: case_prod_beta')
  have same: "?h = [] \<Longrightarrow> ?n = ck"
    by (auto simp: filter_empty_conv intro!: filter_True)
  have no: "\<not> list_ex (\<lambda>(k, v). k \<in> set thinking_kwarg_names) ?n"
    "\<not> list_ex (\<lambda>(k, v). k \<in> set thinking_kwarg_names) (od_del ''reasoning_effort'' ?n)"
    using set_od_del[of "''reasoning_effort''" ?n] by (auto simp: list_ex_iff)
  show "\<not> kwargs_switch new_ck" "f \<noteq> [] \<longleftrightarrow> kwargs_switch ck" "length new_ck \<noteq> length ck \<longleftrightarrow> kwargs_switch ck"
    "f = [] \<Longrightarrow> new_ck = ck"
    using assms no h len same e del_shorter[of ?n "''reasoning_effort''"] none_effort_not_null[of "jget ?n ''reasoning_effort''"]
    by (auto simp: strip_kwargs_def Let_def kwargs_switch_def split: if_splits)
qed

definition switch_keys :: "string set" where
  "switch_keys = {ctk, ''reasoning_effort'', ''reasoning''}"

lemma strip_container_clean:
  assumes "strip_container pre c = (out, f)"
  shows "\<not> switch_in out" "f \<noteq> [] \<longleftrightarrow> switch_in c" "f = [] \<Longrightarrow> out = c" "k \<notin> switch_keys \<Longrightarrow> jget out k = jget c k"
proof -
  obtain o1 f1 where s1: "(case jget c ctk of
              JObj ck \<Rightarrow> (let (new_ck, f) = strip_kwargs pre ck in
                          (if length new_ck \<noteq> length ck then put_or_del ctk new_ck c else c, f))
            | _ \<Rightarrow> (c, [])) = (o1, f1)" by force
  have k1: "\<not> (case jget o1 ctk of JObj ck \<Rightarrow> kwargs_switch ck | _ \<Rightarrow> False) \<and>
      (f1 \<noteq> [] \<longleftrightarrow> (case jget c ctk of JObj ck \<Rightarrow> kwargs_switch ck | _ \<Rightarrow> False)) \<and> (f1 = [] \<longrightarrow> o1 = c) \<and>
      (\<forall>k. k \<noteq> ctk \<longrightarrow> jget o1 k = jget c k)"
  proof (cases "jget c ctk")
    case (JObj ck)
    obtain new_ck f' where sk: "strip_kwargs pre ck = (new_ck, f')" by force
    then have o1: "o1 = (if kwargs_switch ck then put_or_del ctk new_ck c else c)" "f1 = f'"
      using s1 strip_kwargs_clean(3)[OF sk] by (auto simp: JObj)
    show ?thesis using strip_kwargs_clean[OF sk] by (auto simp: o1 JObj kwargs_switch_def)
  qed (use s1 in auto)
  obtain o2 f2 where s2: "(if is_none_effort (jget c ''reasoning_effort'')
      then (od_del ''reasoning_effort'' o1, [pre @ ''reasoning_effort=none'']) else (o1, [])) = (o2, f2)" by force
  have n: "ctk \<noteq> ''reasoning_effort''" "ctk \<noteq> ''reasoning''" by (simp_all add: ctk_def)
  have k2: "\<not> is_none_effort (jget o2 ''reasoning_effort'')" "f2 \<noteq> [] \<longleftrightarrow> is_none_effort (jget c ''reasoning_effort'')"
    "f2 = [] \<Longrightarrow> o2 = o1" "k \<noteq> ''reasoning_effort'' \<Longrightarrow> jget o2 k = jget o1 k" for k
    using s2 k1 n by (auto split: if_splits)
  obtain o3 f3 where s3: "(case jget c ''reasoning'' of
              JObj r \<Rightarrow> if is_none_effort (jget r ''effort'')
                        then (put_or_del ''reasoning'' (filter (\<lambda>(k, v). k \<noteq> ''effort'') r) o2, [pre @ ''reasoning.effort=none''])
                        else (o2, [])
            | _ \<Rightarrow> (o2, [])) = (o3, f3)" by force
  have out: "out = o3" "f = f1 @ f2 @ f3"
    using assms unfolding strip_container_def Let_def s1[unfolded Let_def] prod.case s2 s3 by simp_all
  have r2: "jget o2 ''reasoning'' = jget c ''reasoning''" using k1 k2(4)[of "''reasoning''"] n by auto
  have eff: "jget (filter (\<lambda>(k, v). k \<noteq> ''effort'') r) ''effort'' = JNull" for r
    using jget_filter_out[of "\<lambda>k. k \<noteq> ''effort''"] by simp
  have k3: "\<not> (case jget o3 ''reasoning'' of JObj r \<Rightarrow> is_none_effort (jget r ''effort'') | _ \<Rightarrow> False) \<and>
      (f3 \<noteq> [] \<longleftrightarrow> (case jget c ''reasoning'' of JObj r \<Rightarrow> is_none_effort (jget r ''effort'') | _ \<Rightarrow> False)) \<and>
      (f3 = [] \<longrightarrow> o3 = o2) \<and> (\<forall>k. k \<noteq> ''reasoning'' \<longrightarrow> jget o3 k = jget o2 k)"
    using s3 r2 eff by (cases "jget c ''reasoning''") (auto split: if_splits)
  have same: "jget o3 ctk = jget o1 ctk" "jget o3 ''reasoning_effort'' = jget o2 ''reasoning_effort''"
    using k2(4)[of ctk] k3 n by auto
  show "\<not> switch_in out" unfolding switch_in_def out same using k1 k2(1) k3 unfolding kwargs_switch_def by blast
  show "f \<noteq> [] \<longleftrightarrow> switch_in c" unfolding switch_in_def out using k1 k2(2) k3 unfolding kwargs_switch_def by blast
  show "f = [] \<Longrightarrow> out = c" using out k1 k2(3) k3 by simp
  show "k \<notin> switch_keys \<Longrightarrow> jget out k = jget c k" using out k1 k2(4)[of k] k3 by (simp add: switch_keys_def)
qed

subsection \<open>No switch reaches a model without one\<close>

text \<open>What the two containers of a payload keep: every key but the extra body, and every key of the
  extra body, outside the given set.\<close>

definition same_outside :: "string set \<Rightarrow> json \<Rightarrow> json \<Rightarrow> bool" where
  "same_outside K p q \<longleftrightarrow>
     (case (p, q) of
        (JObj a, JObj b) \<Rightarrow>
          (\<forall>k. k \<notin> insert ''extra_body'' K \<longrightarrow> jget b k = jget a k) \<and>
          (case jget a ''extra_body'' of
             JObj ea \<Rightarrow> (\<exists>eb. jget b ''extra_body'' = JObj eb \<and> (\<forall>k. k \<notin> K \<longrightarrow> jget eb k = jget ea k))
           | v \<Rightarrow> jget b ''extra_body'' = v)
      | _ \<Rightarrow> q = p)"

lemma extra_body_not_switch_key: "''extra_body'' \<notin> switch_keys" "''extra_body'' \<noteq> ctk"
  by (simp_all add: switch_keys_def ctk_def)

lemma switch_in_put_extra: "switch_in (od_put ''extra_body'' v c) = switch_in c"
  by (simp add: switch_in_def ctk_def)

text \<open>A container of which only the switch is gone, entry by entry: every other field of it is as it
  was, an effort other than none is kept, and inside the template arguments and the reasoning
  object every entry that is not a spelling of the switch keeps its value; a field without a switch
  in it is the same value.\<close>

definition fields_at :: "string \<Rightarrow> payload \<Rightarrow> payload" where
  "fields_at k c = (case jget c k of JObj d \<Rightarrow> d | _ \<Rightarrow> [])"

definition kwarg_gone :: "payload \<Rightarrow> string \<Rightarrow> bool" where
  "kwarg_gone ck k \<longleftrightarrow> k \<in> set thinking_kwarg_names \<or> k = ''reasoning_effort'' \<and> is_none_effort (jget ck k)"

definition only_switch_gone :: "payload \<Rightarrow> payload \<Rightarrow> bool" where
  "only_switch_gone c out \<longleftrightarrow>
     (\<forall>k. k \<notin> switch_keys \<longrightarrow> jget out k = jget c k) \<and>
     jget out ''reasoning_effort'' =
       (if is_none_effort (jget c ''reasoning_effort'') then JNull else jget c ''reasoning_effort'') \<and>
     (\<forall>k. jget (fields_at ctk out) k = (if kwarg_gone (fields_at ctk c) k then JNull else jget (fields_at ctk c) k)) \<and>
     (\<not> kwargs_switch (fields_at ctk c) \<longrightarrow> jget out ctk = jget c ctk) \<and>
     (\<forall>k. jget (fields_at ''reasoning'' out) k =
        (if k = ''effort'' \<and> is_none_effort (jget (fields_at ''reasoning'' c) k) then JNull
         else jget (fields_at ''reasoning'' c) k)) \<and>
     (\<not> is_none_effort (jget (fields_at ''reasoning'' c) ''effort'') \<longrightarrow> jget out ''reasoning'' = jget c ''reasoning'')"

lemma only_switch_gone_cong:
  "only_switch_gone c out \<Longrightarrow> (\<And>k. k \<in> switch_keys \<Longrightarrow> jget out' k = jget out k) \<Longrightarrow>
     (\<And>k. k \<notin> switch_keys \<Longrightarrow> jget out' k = jget c k) \<Longrightarrow> only_switch_gone c out'"
  by (simp add: only_switch_gone_def fields_at_def switch_keys_def)

lemma strip_kwargs_exact:
  assumes "strip_kwargs pre ck = (new_ck, f)"
  shows "jget new_ck k = (if kwarg_gone ck k then JNull else jget ck k)"
proof -
  let ?n = "filter (\<lambda>(k, v). k \<notin> set thinking_kwarg_names) ck"
  have n: "jget ?n j = (if j \<in> set thinking_kwarg_names then JNull else jget ck j)" for j
    using jget_filter[of "\<lambda>k. k \<notin> set thinking_kwarg_names" j ck]
      jget_filter_out[of "\<lambda>k. k \<notin> set thinking_kwarg_names" j ck] by simp
  have "new_ck = (if is_none_effort (jget ck ''reasoning_effort'') then od_del ''reasoning_effort'' ?n else ?n)"
    using assms effort_not_a_name by (auto simp: strip_kwargs_def Let_def n split: if_splits)
  then show ?thesis by (auto simp: kwarg_gone_def n)
qed

lemma jget_absent: "\<not> list_ex (\<lambda>(k, v). k \<in> set ns) ck \<Longrightarrow> k \<in> set ns \<Longrightarrow> jget ck k = JNull"
  by (induction ck) auto

text \<open>The three fields of a stripped container, one by one.\<close>

lemma strip_container_fields:
  assumes "strip_container pre c = (out, f)"
  shows "jget out ctk = (case jget c ctk of
      JObj ck \<Rightarrow> if kwargs_switch ck then (if fst (strip_kwargs pre ck) = [] then JNull else JObj (fst (strip_kwargs pre ck)))
                 else JObj ck
    | v \<Rightarrow> v)"
    "jget out ''reasoning_effort'' =
      (if is_none_effort (jget c ''reasoning_effort'') then JNull else jget c ''reasoning_effort'')"
    "jget out ''reasoning'' = (case jget c ''reasoning'' of
      JObj r \<Rightarrow> let r' = filter (\<lambda>(k, v). k \<noteq> ''effort'') r in
                if is_none_effort (jget r ''effort'') then (if r' = [] then JNull else JObj r') else JObj r
    | v \<Rightarrow> v)"
proof -
  let ?o1 = "case jget c ctk of
      JObj ck \<Rightarrow> if kwargs_switch ck then put_or_del ctk (fst (strip_kwargs pre ck)) c else c | _ \<Rightarrow> c"
  let ?o2 = "if is_none_effort (jget c ''reasoning_effort'') then od_del ''reasoning_effort'' ?o1 else ?o1"
  let ?o3 = "case jget c ''reasoning'' of
      JObj r \<Rightarrow> if is_none_effort (jget r ''effort'') then put_or_del ''reasoning'' (filter (\<lambda>(k, v). k \<noteq> ''effort'') r) ?o2 else ?o2
    | _ \<Rightarrow> ?o2"
  have len: "length (fst (strip_kwargs pre ck)) \<noteq> length ck \<longleftrightarrow> kwargs_switch ck" for ck
    using strip_kwargs_clean(3)[of pre ck] by (cases "strip_kwargs pre ck") simp
  have "fst (strip_container pre c) = ?o3"
    by (cases "jget c ctk"; cases "jget c ''reasoning''")
      (simp_all add: strip_container_def Let_def case_prod_unfold len)
  then have out: "out = ?o3" by (simp add: assms)
  have n: "ctk \<noteq> ''reasoning_effort''" "ctk \<noteq> ''reasoning''" by (simp_all add: ctk_def)
  have o1: "jget ?o1 k = (if k = ctk then (case jget c ctk of
      JObj ck \<Rightarrow> if kwargs_switch ck then (if fst (strip_kwargs pre ck) = [] then JNull else JObj (fst (strip_kwargs pre ck)))
                 else JObj ck
    | v \<Rightarrow> v) else jget c k)" for k
    by (cases "jget c ctk") auto
  have o2: "jget ?o2 k = (if k = ''reasoning_effort'' \<and> is_none_effort (jget c k) then JNull else jget ?o1 k)" for k
    by auto
  have o3: "k \<noteq> ''reasoning'' \<Longrightarrow> jget ?o3 k = jget ?o2 k" for k
    by (cases "jget c ''reasoning''") simp_all
  show "jget out ctk = (case jget c ctk of
      JObj ck \<Rightarrow> if kwargs_switch ck then (if fst (strip_kwargs pre ck) = [] then JNull else JObj (fst (strip_kwargs pre ck)))
                 else JObj ck
    | v \<Rightarrow> v)"
    unfolding out o3[OF n(2)] o2 using n by (simp add: o1)
  show "jget out ''reasoning_effort'' =
      (if is_none_effort (jget c ''reasoning_effort'') then JNull else jget c ''reasoning_effort'')"
    unfolding out using o3[of "''reasoning_effort''"] n by (simp add: o2 o1)
  have "jget ?o2 ''reasoning'' = jget c ''reasoning''" unfolding o2 o1 using n by simp
  then show "jget out ''reasoning'' = (case jget c ''reasoning'' of
      JObj r \<Rightarrow> let r' = filter (\<lambda>(k, v). k \<noteq> ''effort'') r in
                if is_none_effort (jget r ''effort'') then (if r' = [] then JNull else JObj r') else JObj r
    | v \<Rightarrow> v)"
    unfolding out by (cases "jget c ''reasoning''") (simp_all add: Let_def)
qed

lemma strip_container_exact:
  assumes "strip_container pre c = (out, f)" shows "only_switch_gone c out"
proof -
  note s = strip_container_fields[OF assms]
  have "jget (fields_at ctk out) k = (if kwarg_gone (fields_at ctk c) k then JNull else jget (fields_at ctk c) k)" for k
  proof (cases "jget c ctk")
    case (JObj ck)
    obtain nk g where sk: "strip_kwargs pre ck = (nk, g)" by force
    have "\<not> kwargs_switch ck \<Longrightarrow> kwarg_gone ck k \<Longrightarrow> jget ck k = JNull"
      using jget_absent[of thinking_kwarg_names ck k] by (auto simp: kwargs_switch_def kwarg_gone_def)
    then show ?thesis
      using strip_kwargs_exact[OF sk, of k] by (auto simp: fields_at_def s(1) JObj sk)
  qed (simp_all add: fields_at_def s(1) kwarg_gone_def)
  moreover have "\<not> kwargs_switch (fields_at ctk c) \<Longrightarrow> jget out ctk = jget c ctk"
    by (cases "jget c ctk") (simp_all add: s(1) fields_at_def)
  moreover have "jget (filter (\<lambda>(k, v). k \<noteq> ''effort'') r) k = (if k = ''effort'' then JNull else jget r k)" for r k
    using jget_filter[of "\<lambda>k. k \<noteq> ''effort''" k r] jget_filter_out[of "\<lambda>k. k \<noteq> ''effort''" k r] by simp
  then have "jget (fields_at ''reasoning'' out) k = (if k = ''effort'' \<and> is_none_effort (jget (fields_at ''reasoning'' c) k)
      then JNull else jget (fields_at ''reasoning'' c) k)" for k
    by (cases "jget c ''reasoning''") (auto simp: s(3) fields_at_def Let_def split: if_splits, metis jget_simps(1))
  moreover have "\<not> is_none_effort (jget (fields_at ''reasoning'' c) ''effort'') \<Longrightarrow> jget out ''reasoning'' = jget c ''reasoning''"
    by (cases "jget c ''reasoning''") (simp_all add: s(3) fields_at_def Let_def)
  ultimately show ?thesis
    unfolding only_switch_gone_def using s(2) strip_container_clean(4)[OF assms] by blast
qed

text \<open>A payload of which only the switch is gone, in both containers.\<close>

definition same_but_switch :: "json \<Rightarrow> json \<Rightarrow> bool" where
  "same_but_switch p q \<longleftrightarrow>
     (case (p, q) of
        (JObj a, JObj b) \<Rightarrow>
          (case jget a ''extra_body'' of
             JObj ea \<Rightarrow> (\<exists>eb. jget b ''extra_body'' = JObj eb \<and> only_switch_gone ea eb \<and>
                             only_switch_gone a (od_put ''extra_body'' (JObj ea) b))
           | _ \<Rightarrow> only_switch_gone a b)
      | _ \<Rightarrow> q = p)"

text \<open>C26: an endpoint that declares it has no thinking switch is never sent one. Whatever payload a
  caller sends, the one that leaves the proxy carries no spelling of the switch, at the top or in
  the extra body, and apart from it every field reads as the caller sent it: those outside, the
  other entries of the template arguments and of the reasoning object, and an effort other than
  none. The switch is reported exactly if there was one.\<close>

theorem no_switch_on_the_wire:
  assumes "no_thinking_switch c"
  shows "\<not> has_switch (fst (canonical_switch c now p st)) \<and>
    same_but_switch p (fst (canonical_switch c now p st)) \<and>
    (if has_switch p then ts_stripped (snd (canonical_switch c now p st)) = ts_stripped st + 1
     else canonical_switch c now p st = (p, st))"
proof (cases p)
  case (JObj d)
  obtain o1 f1 where s1: "strip_container [] d = (o1, f1)" by force
  note c1 = strip_container_clean[OF s1] and x1 = strip_container_exact[OF s1]
  have eb: "jget o1 ''extra_body'' = jget d ''extra_body''" using c1(4) extra_body_not_switch_key by simp
  have logged: "ts_stripped (snd (note_stripped now n f st)) = ts_stripped st + 1" for n f
    by (auto simp: note_stripped_def should_log_def Let_def split: option.split)
  show ?thesis
  proof (cases "\<exists>b. jget d ''extra_body'' = JObj b")
    case True
    then obtain b where b: "jget d ''extra_body'' = JObj b" by blast
    obtain nb f2 where s2: "strip_container ''extra_body.'' b = (nb, f2)" by force
    note c2 = strip_container_clean[OF s2] and x2 = strip_container_exact[OF s2]
    let ?q = "if f2 \<noteq> [] then od_put ''extra_body'' (JObj nb) o1 else o1"
    have st: "strip_thinking_switch (JObj d) = (JObj ?q, f1 @ f2)"
      using eb b by (simp add: strip_thinking_switch_def JObj s1 s2)
    have "only_switch_gone d (od_put ''extra_body'' (JObj b) ?q)"
      by (rule only_switch_gone_cong[OF x1]) (use c1(4) b extra_body_not_switch_key in \<open>auto simp: eb\<close>)
    moreover have "jget ?q ''extra_body'' = JObj nb" using c2(3) eb b by simp
    ultimately have "same_but_switch (JObj d) (JObj ?q)" using x2 by (simp add: same_but_switch_def b)
    then show ?thesis
      using assms c1 c2 eb b logged
      by (auto simp: canonical_switch_def st has_switch_def JObj switch_in_put_extra)
  next
    case False
    then have st: "strip_thinking_switch (JObj d) = (JObj o1, f1)"
      using eb by (auto simp: strip_thinking_switch_def JObj s1 split: json.split)
    have "same_but_switch (JObj d) (JObj o1)"
      using x1 False by (cases "jget d ''extra_body''") (simp_all add: same_but_switch_def)
    then show ?thesis
      using assms c1 eb logged False
      by (auto simp: canonical_switch_def st has_switch_def JObj split: json.split)
  qed
qed (use assms in \<open>simp_all add: canonical_switch_def strip_thinking_switch_def has_switch_def same_but_switch_def\<close>)

lemma no_switch_on_the_wire_witness:
  "fst (canonical_switch \<lparr>sw_name = ''glm'', no_thinking_switch = True, thinking_kwargs = []\<rparr> 0
      (JObj [(''model'', JStr ''m''), (''extra_body'', JObj [(''chat_template_kwargs'', JObj [(''thinking'', JBool False), (''k'', JInt 1)])])]) new_think_stats) =
    JObj [(''model'', JStr ''m''), (''extra_body'', JObj [(''chat_template_kwargs'', JObj [(''k'', JInt 1)])])] \<and>
   \<not> has_switch (fst (canonical_switch \<lparr>sw_name = ''glm'', no_thinking_switch = True, thinking_kwargs = []\<rparr> 0
      (JObj [(''model'', JStr ''m''), (''extra_body'', JObj [(''chat_template_kwargs'', JObj [(''thinking'', JBool False), (''k'', JInt 1)])])]) new_think_stats))"
  (is "?a \<and> ?b")
proof
  show ?a by code_simp
  show ?b using no_switch_on_the_wire[of "\<lparr>sw_name = ''glm'', no_thinking_switch = True, thinking_kwargs = []\<rparr>" 0] by simp
qed

subsection \<open>Lemmas: renaming\<close>

lemma land_on_get:
  "od_get (fst (land_on declared v ck)) k =
     (case od_get ck k of Some x \<Rightarrow> Some x | None \<Rightarrow> if k \<in> set declared then Some v else None)"
proof (induction declared rule: rev_induct)
  case Nil
  then show ?case by (simp add: land_on_def split: option.split)
next
  case (snoc d ds)
  obtain ck' l where l: "land_on ds v ck = (ck', l)" by force
  have s: "land_on (ds @ [d]) v ck = (if d \<in> set (od_keys ck') then (ck', l) else (od_put d v ck', l @ [d]))"
    using l by (simp add: land_on_def)
  have "od_get ck' k = (case od_get ck k of Some x \<Rightarrow> Some x | None \<Rightarrow> if k \<in> set ds then Some v else None)" using snoc.IH l by simp
  then show ?case using od_get_None_iff[of ck' d] by (auto simp: s split: option.splits if_splits)
qed

definition foreign_spellings :: "string list \<Rightarrow> payload \<Rightarrow> string list" where
  "foreign_spellings declared ck = filter (\<lambda>k. k \<in> set (od_keys ck) \<and> k \<notin> set declared) thinking_kwarg_names"

text \<open>The value the foreign spellings agree on.\<close>

definition agreed_value :: "string list \<Rightarrow> payload \<Rightarrow> bool option" where
  "agreed_value declared ck =
     (let vals = map (\<lambda>k. as_switch_value (jget ck k)) (foreign_spellings declared ck) in
      if vals \<noteq> [] \<and> list_all (\<lambda>v. v = hd vals) vals then hd vals else None)"

lemma od_get_filter: "od_get (filter (\<lambda>(k, v). P k) d) k = (if P k then od_get d k else None)"
  by (induction d) auto

text \<open>What renaming does to one dict: a foreign spelling is gone; a key the caller set keeps its
  value; a declared key it did not set gets the value the foreign spellings agree on, if they do.\<close>

lemma rename_container_exact:
  assumes "jget c ctk = JObj ck" "rename_container pre declared c = (out, f)"
  shows "\<exists>ck'. jget out ctk = JObj ck' \<and>
    (\<forall>k. od_get ck' k =
       (if k \<in> set (foreign_spellings declared ck) then None
        else case od_get ck k of
               Some x \<Rightarrow> Some x
             | None \<Rightarrow> if k \<in> set declared then map_option JBool (agreed_value declared ck) else None))"
    and "k \<noteq> ctk \<Longrightarrow> jget out k = jget c k"
proof -
  let ?fs = "foreign_spellings declared ck"
  let ?vals = "map (\<lambda>k. as_switch_value (jget ck k)) ?fs"
  let ?rest = "filter (\<lambda>(k, v). k \<notin> set ?fs) ck"
  have g: "od_get ?rest k = (if k \<in> set ?fs then None else od_get ck k)" for k
    using od_get_filter[of "\<lambda>k. k \<notin> set ?fs" ck k] by simp
  have nf: "k \<in> set declared \<Longrightarrow> k \<notin> set ?fs" for k by (simp add: foreign_spellings_def)
  have av: "agreed_value declared ck = (if ?fs \<noteq> [] \<and> hd ?vals \<noteq> None \<and> list_all (\<lambda>v. v = hd ?vals) ?vals then hd ?vals else None)"
    by (auto simp: agreed_value_def Let_def)
  show "\<exists>ck'. jget out ctk = JObj ck' \<and>
    (\<forall>k. od_get ck' k =
       (if k \<in> set ?fs then None
        else case od_get ck k of
               Some x \<Rightarrow> Some x
             | None \<Rightarrow> if k \<in> set declared then map_option JBool (agreed_value declared ck) else None))"
  proof (cases "?fs = []")
    case True
    then have "out = c" using assms by (simp add: rename_container_def foreign_spellings_def)
    then show ?thesis using assms(1) True by (intro exI[of _ ck]) (auto simp: av split: option.split)
  next
    case False
    let ?ok = "hd ?vals \<noteq> None \<and> list_all (\<lambda>v. v = hd ?vals) ?vals"
    define new where "new = (if ?ok then fst (land_on declared (JBool (the (hd ?vals))) ?rest) else ?rest)"
    have "jget out ctk = JObj new"
      using assms False unfolding rename_container_def foreign_spellings_def[symmetric] new_def
      by (auto simp: Let_def split: prod.splits if_splits)
    moreover have "od_get new k = (if k \<in> set ?fs then None
        else case od_get ck k of
               Some x \<Rightarrow> Some x
             | None \<Rightarrow> if k \<in> set declared then map_option JBool (agreed_value declared ck) else None)" for k
      using False nf[of k] by (auto simp: new_def land_on_get g av split: option.split)
    ultimately show ?thesis by blast
  qed
  show "k \<noteq> ctk \<Longrightarrow> jget out k = jget c k"
    using assms by (auto simp: rename_container_def Let_def split: if_splits prod.splits)
qed

subsection \<open>Lemmas: the log lines\<close>

text \<open>A line stands for the events since the last one: of any number of events of one kind on one
  endpoint, every one is counted by a line that was written or is still pending.\<close>

definition log_many :: "string \<Rightarrow> string \<Rightarrow> real list \<Rightarrow> think_stats \<Rightarrow> int \<times> think_stats" where
  "log_many kind ep ts st = foldl (\<lambda>(n, s) t. case should_log t kind ep s of (m, s') \<Rightarrow> (n + m, s')) (0, st) ts"

definition pending_of :: "string \<Rightarrow> string \<Rightarrow> think_stats \<Rightarrow> int" where
  "pending_of kind ep st = (case od_get (ts_logged st) (kind, ep) of Some (_, n) \<Rightarrow> n | None \<Rightarrow> 0)"

lemma log_lines_add_up:
  "fst (log_many kind ep ts st) + pending_of kind ep (snd (log_many kind ep ts st)) = pending_of kind ep st + int (length ts)"
proof (induction ts rule: rev_induct)
  case (snoc t ts)
  have "fst (should_log t kind ep s) + pending_of kind ep (snd (should_log t kind ep s)) = pending_of kind ep s + 1" for s
    by (auto simp: should_log_def pending_of_def Let_def split: option.split)
  moreover obtain n s where "log_many kind ep ts st = (n, s)" by force
  moreover obtain m s' where "should_log t kind ep s = (m, s')" by force
  ultimately show ?case using snoc by (simp add: log_many_def) (metis add.assoc add.commute fst_conv snd_conv)
qed (simp add: log_many_def)

end
