(* ===== verification/Think_Stream.thy ===== *)
theory Think_Stream
  imports Think_Switch
begin

section \<open>Moving a reasoning trace out of the answer (think_bleed.py, second half)\<close>

text \<open>
  \<^verbatim>\<open>repair_message\<close> for whole responses and \<^verbatim>\<open>StreamRepair\<close> for streams. A frame is the parsed chunk
  with the text to relay. Feeding can raise only where the source indexes \<^verbatim>\<open>choices\<close> of a chunk in
  which it is neither a list nor a string. The text machine of the second half of the theory is the
  abstraction of \<^verbatim>\<open>StreamRepair\<close> to what its frames say; \<open>think_split\<close> is what a stream as a whole
  should be turned into.
\<close>

subsection \<open>Text primitives\<close>

definition py_lstrip :: "string \<Rightarrow> string" where
  "py_lstrip s = dropWhile py_isspace s"

definition startswith :: "string \<Rightarrow> string \<Rightarrow> bool" where
  "startswith s p = (take (length p) s = p)"

text \<open>The text before and after the first occurrence of a non-empty pattern: \<^verbatim>\<open>s.find(p)\<close> with the
  two slices the source takes.\<close>

fun cut_at :: "string \<Rightarrow> string \<Rightarrow> (string \<times> string) option" where
  "cut_at p [] = None"
| "cut_at p (c # cs) =
     (if startswith (c # cs) p then Some ([], drop (length p) (c # cs))
      else map_option (\<lambda>(a, b). (c # a, b)) (cut_at p cs))"

definition think_open :: string where "think_open = ''<think>''"
definition think_close :: string where "think_close = ''</think>''"
definition hold_limit_chars :: nat where "hold_limit_chars = 65536"
definition prefix_hold_chars :: nat where "prefix_hold_chars = 16"
definition reasoning_keys :: "string list" where "reasoning_keys = [''reasoning'', ''reasoning_content'']"

definition default_reasoning_key :: "string \<Rightarrow> string" where
  "default_reasoning_key engine = (if engine = ''vllm'' then ''reasoning'' else ''reasoning_content'')"

definition cr :: char where "cr = char_of (13 :: nat)"
definition lf :: char where "lf = char_of (10 :: nat)"

definition after_tag :: "string \<Rightarrow> string" where
  "after_tag s = (if startswith s [cr, lf] then drop 2 s else if startswith s [lf] then drop 1 s else s)"

subsection \<open>Whole responses\<close>

definition split_think :: "string \<Rightarrow> bool \<Rightarrow> (string \<times> string \<times> string) option" where
  "split_think content close_only =
     (let lead = py_lstrip content in
      if startswith lead think_open then
        (let body = drop (length think_open) lead in
         case cut_at think_close body of
           None \<Rightarrow> Some (py_strip body, [], ''unclosed'')
         | Some (a, b) \<Rightarrow> Some (py_strip a, after_tag b, ''open_tag''))
      else if close_only then
        (case cut_at think_close content of
           None \<Rightarrow> None
         | Some (a, b) \<Rightarrow> Some (py_strip a, after_tag b, ''close_only''))
      else None)"

definition repair_message :: "json \<Rightarrow> bool \<Rightarrow> string \<Rightarrow> json \<times> (string \<times> nat \<times> nat) option" where
  "repair_message msg close_only default_key =
     (case msg of
        JObj m \<Rightarrow>
          (case jget m ''content'' of
             JStr content \<Rightarrow>
               if content = [] \<or> list_ex (\<lambda>k. py_strip (py_str (or_empty (jget m k))) \<noteq> []) reasoning_keys then (msg, None)
               else (case split_think content close_only of
                       None \<Rightarrow> (msg, None)
                     | Some (r, a, shape) \<Rightarrow>
                         (let key = (case List.find (\<lambda>k. k \<in> set (od_keys m)) reasoning_keys of Some k \<Rightarrow> k | None \<Rightarrow> default_key)
                          in (JObj (od_put ''content'' (JStr a) (od_put key (JStr r) m)), Some (shape, length r, length a))))
           | _ \<Rightarrow> (msg, None))
      | _ \<Rightarrow> (msg, None))"

text \<open>\<^verbatim>\<open>body["choices"][0]["message"]\<close>, repaired in place; every other shape is left alone.\<close>

definition repair_body :: "json \<Rightarrow> bool \<Rightarrow> string \<Rightarrow> json \<times> (string \<times> nat \<times> nat) option" where
  "repair_body body close_only default_key =
     (case body of
        JObj b \<Rightarrow>
          (case jget b ''choices'' of
             JList (JObj ch # others) \<Rightarrow>
               if ''message'' \<in> set (od_keys ch)
               then (case repair_message (jget ch ''message'') close_only default_key of
                       (m, r) \<Rightarrow> (JObj (od_put ''choices'' (JList (JObj (od_put ''message'' m ch) # others)) b), r))
               else (body, None)
           | _ \<Rightarrow> (body, None))
      | _ \<Rightarrow> (body, None))"

subsection \<open>Streams\<close>

datatype sr_phase = Undecided | InThink | AnswerLead | Pass

type_synonym frame = "json \<times> string"

record stream_repair =
  sr_hold_close :: bool
  sr_key :: string
  sr_limit :: nat
  sr_state :: sr_phase
  sr_buf :: string
  sr_strip_lead :: bool
  sr_last :: payload
  sr_shape :: "string option"
  sr_reasoning_chars :: nat
  sr_answer_chars :: nat

definition new_stream_repair :: "bool \<Rightarrow> string \<Rightarrow> nat \<Rightarrow> stream_repair" where
  "new_stream_repair hold key bound =
     \<lparr>sr_hold_close = hold, sr_key = key, sr_limit = bound, sr_state = Undecided, sr_buf = [], sr_strip_lead = False,
      sr_last = [], sr_shape = None, sr_reasoning_chars = 0, sr_answer_chars = 0\<rparr>"

text \<open>The longest suffix that is a proper prefix of the closing tag.\<close>

fun longest_partial :: "nat \<Rightarrow> string \<Rightarrow> nat" where
  "longest_partial 0 s = 0"
| "longest_partial (Suc k) s =
     (if startswith think_close (drop (length s - Suc k) s) then Suc k else longest_partial k s)"

definition partial_close_len :: "string \<Rightarrow> nat" where
  "partial_close_len s = longest_partial (min (length think_close - 1) (length s)) s"

definition sr_frame :: "stream_repair \<Rightarrow> payload \<Rightarrow> frame" where
  "sr_frame s delta =
     (let base = JObj (filter (\<lambda>(k, v). k \<notin> {''choices'', ''usage''}) (sr_last s) @
                       [(''choices'', JList [JObj [(''index'', JInt 0), (''delta'', JObj delta), (''finish_reason'', JNull)]])])
      in (base, json_dumps base))"

definition reasoning_out :: "string \<Rightarrow> stream_repair \<Rightarrow> frame list \<times> stream_repair" where
  "reasoning_out text s =
     (let text1 = (if sr_strip_lead s then py_lstrip text else text);
          s1 = (if sr_strip_lead s \<and> text1 \<noteq> [] then s\<lparr>sr_strip_lead := False\<rparr> else s)
      in if text1 = [] then ([], s1)
         else ([sr_frame s1 [(sr_key s1, JStr text1)]], s1\<lparr>sr_reasoning_chars := sr_reasoning_chars s1 + length text1\<rparr>))"

definition content_out :: "string \<Rightarrow> stream_repair \<Rightarrow> frame list" where
  "content_out text s = (if text = [] then [] else [sr_frame s [(''content'', JStr text)]])"

definition answer_out :: "string \<Rightarrow> stream_repair \<Rightarrow> frame list \<times> stream_repair" where
  "answer_out rest s =
     (if rest = [] \<or> rest = [cr] then ([], s\<lparr>sr_state := AnswerLead, sr_buf := rest\<rparr>)
      else let s1 = s\<lparr>sr_state := Pass, sr_answer_chars := sr_answer_chars s + length (after_tag rest)\<rparr>
           in (content_out (after_tag rest) s1, s1))"

definition think_in :: "string \<Rightarrow> stream_repair \<Rightarrow> frame list \<times> stream_repair" where
  "think_in piece s0 =
     (let text = sr_buf s0 @ piece; s = s0\<lparr>sr_buf := []\<rparr> in
      case cut_at think_close text of
        Some (a, b) \<Rightarrow>
          (case reasoning_out a s of (f1, s1) \<Rightarrow> case answer_out b s1 of (f2, s2) \<Rightarrow> (f1 @ f2, s2))
      | None \<Rightarrow>
          (let keep = partial_close_len text in
           if keep \<noteq> 0
           then reasoning_out (take (length text - keep) text) (s\<lparr>sr_buf := drop (length text - keep) text\<rparr>)
           else reasoning_out text s))"

text \<open>\<^verbatim>\<open>_consume\<close>; the last component is the flag \<^verbatim>\<open>_whole\<close>.\<close>

definition sr_consume :: "string \<Rightarrow> bool \<Rightarrow> stream_repair \<Rightarrow> frame list \<times> stream_repair \<times> bool" where
  "sr_consume piece held_before s =
     (case sr_state s of
        InThink \<Rightarrow> (case think_in piece s of (f, s1) \<Rightarrow> (f, s1, False))
      | AnswerLead \<Rightarrow>
          (let text = sr_buf s @ piece; s1 = s\<lparr>sr_buf := []\<rparr> in
           if text = [cr] then ([], s1\<lparr>sr_buf := text\<rparr>, False)
           else let s2 = s1\<lparr>sr_state := Pass, sr_answer_chars := sr_answer_chars s1 + length (after_tag text)\<rparr>
                in (content_out (after_tag text) s2, s2, False))
      | _ \<Rightarrow>
          (let buf = sr_buf s @ piece; lead = py_lstrip buf;
               release = (let s1 = s\<lparr>sr_buf := [], sr_state := Pass\<rparr> in
                          if held_before then (content_out buf s1, s1, False) else ([], s1, True))
           in if startswith lead think_open
              then (case think_in (drop (length think_open) lead)
                           (s\<lparr>sr_state := InThink, sr_shape := Some ''open_tag'', sr_strip_lead := True, sr_buf := []\<rparr>) of
                      (f, s1) \<Rightarrow> (f, s1, False))
              else if sr_hold_close s then
                (case cut_at think_close buf of
                   Some (a, b) \<Rightarrow>
                     (case reasoning_out a (s\<lparr>sr_shape := Some ''close_only'', sr_buf := [], sr_strip_lead := True\<rparr>) of
                        (f1, s1) \<Rightarrow> case answer_out b s1 of (f2, s2) \<Rightarrow> (f1 @ f2, s2, False))
                 | None \<Rightarrow> if length buf \<le> sr_limit s then ([], s\<lparr>sr_buf := buf\<rparr>, False) else release)
              else if (lead = [] \<or> startswith think_open lead) \<and> length buf \<le> prefix_hold_chars
                   then ([], s\<lparr>sr_buf := buf\<rparr>, False)
                   else release))"

definition sr_settle :: "stream_repair \<Rightarrow> frame list \<times> stream_repair" where
  "sr_settle s =
     (case (case sr_state s of
              Undecided \<Rightarrow> (if sr_buf s \<noteq> [] then content_out (sr_buf s) s else [], s)
            | AnswerLead \<Rightarrow> (content_out (sr_buf s) s, s)
            | InThink \<Rightarrow> reasoning_out (sr_buf s) (if sr_shape s = Some ''open_tag'' then s\<lparr>sr_shape := Some ''unclosed''\<rparr> else s)
            | Pass \<Rightarrow> ([], s)) of
        (f, s1) \<Rightarrow> (f, s1\<lparr>sr_buf := [], sr_state := Pass\<rparr>))"

text \<open>\<^verbatim>\<open>choices[0]\<close> of a true value.\<close>

fun first_choice :: "json \<Rightarrow> json py" where
  "first_choice (JList (x # _)) = Inr x"
| "first_choice (JStr (c # _)) = Inr (JStr [c])"
| "first_choice (JObj _) = Inl KeyError"
| "first_choice _ = Inl TypeError"

definition dict_or_empty :: "json \<Rightarrow> payload" where
  "dict_or_empty v = (case v of JObj d \<Rightarrow> d | _ \<Rightarrow> [])"

definition str_or_empty :: "json \<Rightarrow> string" where
  "str_or_empty v = (case v of JStr s \<Rightarrow> s | _ \<Rightarrow> [])"

definition feed_choice :: "payload \<Rightarrow> string \<Rightarrow> payload \<Rightarrow> json list \<Rightarrow> stream_repair \<Rightarrow> frame list \<times> stream_repair" where
  "feed_choice p data choice others s0 =
     (let s = s0\<lparr>sr_last := p\<rparr>; delta = dict_or_empty (jget choice ''delta''); fin = truthy (jget choice ''finish_reason'') in
      if list_ex (\<lambda>k. str_or_empty (jget delta k) \<noteq> []) reasoning_keys
      then (case (if sr_buf s \<noteq> [] then sr_settle s else ([], s)) of (f, s1) \<Rightarrow> (f @ [(JObj p, data)], s1\<lparr>sr_state := Pass\<rparr>))
      else let piece = str_or_empty (jget delta ''content'') in
        case (if piece \<noteq> [] then sr_consume piece (sr_buf s \<noteq> []) s else ([], s, False)) of
          (f1, s1, whole) \<Rightarrow>
            if whole then ([(JObj p, data)], s1)
            else (case (if truthy (jget delta ''tool_calls'') \<or> fin then sr_settle s1 else ([], s1)) of
                    (f2, s2) \<Rightarrow>
                      if piece = [] then (f1 @ f2 @ [(JObj p, data)], s2)
                      else (let residual = filter (\<lambda>(k, v). k \<noteq> ''content'') delta;
                                res = JObj (od_put ''choices'' (JList (JObj (od_put ''delta'' (JObj residual) choice) # others)) p)
                            in (f1 @ f2 @ (if residual \<noteq> [] \<or> fin then [(res, json_dumps res)] else []), s2))))"

definition sr_feed :: "json \<Rightarrow> string \<Rightarrow> stream_repair \<Rightarrow> (frame list \<times> stream_repair) py" where
  "sr_feed parsed data s =
     (if sr_state s = Pass then Inr ([(parsed, data)], s)
      else case parsed of
        JObj p \<Rightarrow>
          if ''error'' \<in> set (od_keys p) then (case sr_settle s of (f, s1) \<Rightarrow> Inr (f @ [(parsed, data)], s1))
          else if \<not> truthy (jget p ''choices'') then Inr ([(parsed, data)], s)
          else py_bind (first_choice (jget p ''choices'')) (\<lambda>c.
            case (c, jget p ''choices'') of
              (JObj choice, JList (_ # others)) \<Rightarrow>
                if as_number (od_get_or (JInt 0) choice ''index'') \<noteq> Some 0 then Inr ([(parsed, data)], s)
                else Inr (feed_choice p data choice others s)
            | _ \<Rightarrow> Inr ([(parsed, data)], s))
      | _ \<Rightarrow> Inr ([(parsed, data)], s))"

definition sr_finish :: "stream_repair \<Rightarrow> frame list \<times> stream_repair" where
  "sr_finish s = sr_settle s"

subsection \<open>Lemmas: searching for a tag\<close>

lemma startswith_iff: "startswith s p \<longleftrightarrow> (\<exists>r. s = p @ r)"
  unfolding startswith_def by (metis append_eq_conv_conj append_take_drop_id)

lemma startswith_append [simp]: "startswith (p @ r) p"
  by (auto simp: startswith_iff)

lemma startswith_longer: "length p \<le> length s \<Longrightarrow> startswith (s @ x) p = startswith s p"
  by (simp add: startswith_def)

lemma startswith_shorter: "startswith (s @ x) p \<Longrightarrow> length s \<le> length p \<Longrightarrow> startswith p s"
  unfolding startswith_def by (metis append_eq_conv_conj take_all_iff take_take min.absorb1 min.absorb2)

lemma cut_at_None: "p \<noteq> [] \<Longrightarrow> cut_at p s = None \<longleftrightarrow> (\<forall>i. \<not> startswith (drop i s) p)"
proof (induction s)
  case Nil
  then show ?case by (simp add: startswith_def)
next
  case (Cons c s)
  have "(\<forall>i. \<not> startswith (drop i (c # s)) p) \<longleftrightarrow> \<not> startswith (c # s) p \<and> (\<forall>i. \<not> startswith (drop i s) p)"
    by (metis drop0 drop_Suc_Cons not0_implies_Suc)
  with Cons show ?case by simp
qed

lemma cut_at_Some:
  "p \<noteq> [] \<Longrightarrow> cut_at p s = Some (a, b) \<longleftrightarrow> s = a @ p @ b \<and> (\<forall>i < length a. \<not> startswith (drop i s) p)"
proof (induction s arbitrary: a)
  case (Cons c s)
  show ?case
  proof (cases "startswith (c # s) p")
    case True
    then obtain r where r: "c # s = p @ r" by (auto simp: startswith_iff)
    have "drop (length p) (c # s) = r" unfolding r by simp
    then have "cut_at p (c # s) = Some ([], r)" using True by simp
    moreover have "a = []" if "\<forall>i < length a. \<not> startswith (drop i (c # s)) p" using that True by force
    ultimately show ?thesis using r by auto
  next
    case False
    then have l: "cut_at p (c # s) = Some (a, b) \<longleftrightarrow> (\<exists>a'. a = c # a' \<and> cut_at p s = Some (a', b))" by (cases "cut_at p s") auto
    have "c # s = a @ p @ b \<and> (\<forall>i < length a. \<not> startswith (drop i (c # s)) p) \<longleftrightarrow>
        (\<exists>a'. a = c # a' \<and> s = a' @ p @ b \<and> (\<forall>i < length a'. \<not> startswith (drop i s) p))"
    proof (cases a)
      case Nil
      then show ?thesis using False by (auto simp: startswith_iff)
    next
      case (Cons x a')
      have "(\<forall>i < length a. \<not> startswith (drop i (c # s)) p) \<longleftrightarrow> (\<forall>i < length a'. \<not> startswith (drop i s) p)"
        unfolding Cons using False by (auto simp: less_Suc_eq_0_disj)
      with Cons show ?thesis by auto
    qed
    with l Cons show ?thesis by simp
  qed
qed simp

lemma cut_at_extend: "p \<noteq> [] \<Longrightarrow> cut_at p s = Some (a, b) \<Longrightarrow> cut_at p (s @ x) = Some (a, b @ x)"
proof -
  assume p: "p \<noteq> []" and c: "cut_at p s = Some (a, b)"
  then have s: "s = a @ p @ b" "\<forall>i < length a. \<not> startswith (drop i s) p" using cut_at_Some by blast+
  have "\<not> startswith (drop i (s @ x)) p" if "i < length a" for i
    using s(2) that startswith_longer[of p "drop i s" x] s(1) by auto
  then show ?thesis using p s(1) cut_at_Some[of p "s @ x" a "b @ x"] by simp
qed

lemma longest_partial_spec:
  assumes "n \<le> length s"
  shows "longest_partial n s \<le> n" "startswith think_close (drop (length s - longest_partial n s) s)"
    "\<lbrakk>longest_partial n s < j; j \<le> n\<rbrakk> \<Longrightarrow> \<not> startswith think_close (drop (length s - j) s)"
proof -
  have "longest_partial n s \<le> n \<and> startswith think_close (drop (length s - longest_partial n s) s) \<and>
    (\<forall>j. longest_partial n s < j \<and> j \<le> n \<longrightarrow> \<not> startswith think_close (drop (length s - j) s))"
    using assms
  proof (induction n)
    case (Suc n)
    then show ?case by (auto simp: le_Suc_eq)
  qed (auto simp: startswith_def)
  then show "longest_partial n s \<le> n" "startswith think_close (drop (length s - longest_partial n s) s)"
    "\<lbrakk>longest_partial n s < j; j \<le> n\<rbrakk> \<Longrightarrow> \<not> startswith think_close (drop (length s - j) s)" by blast+
qed

text \<open>\<open>held x buf\<close>: of the text \<open>x @ buf\<close>, which holds no closing tag, \<open>buf\<close> is the longest suffix that
  may still become one.\<close>

definition held :: "string \<Rightarrow> string \<Rightarrow> bool" where
  "held x buf \<longleftrightarrow> cut_at think_close (x @ buf) = None \<and> startswith think_close buf \<and> length buf < length think_close \<and>
     (\<forall>u v. x @ buf = u @ v \<longrightarrow> startswith think_close v \<longrightarrow> length v < length think_close \<longrightarrow> length v \<le> length buf)"

lemma think_close_ne: "think_close \<noteq> []" "length think_close = 8" "length think_open = 7"
  by (simp_all add: think_close_def think_open_def)

lemma held_partial:
  assumes "cut_at think_close s = None"
  shows "held (take (length s - partial_close_len s) s) (drop (length s - partial_close_len s) s)"
proof -
  let ?n = "min (length think_close - 1) (length s)"
  note sp = longest_partial_spec[of ?n s, folded partial_close_len_def]
  have n: "?n \<le> length s" by simp
  have "length v \<le> partial_close_len s" if "s = u @ v" "startswith think_close v" "length v < length think_close" for u v
  proof (rule ccontr)
    assume "\<not> length v \<le> partial_close_len s"
    then have "\<not> startswith think_close (drop (length s - length v) s)" using sp(3)[OF n, of "length v"] that(1,3) by auto
    then show False using that by simp
  qed
  then show ?thesis using sp(1,2)[OF n] assms unfolding held_def by (auto simp: think_close_ne)
qed

lemma held_longest:
  "held x buf \<Longrightarrow> x @ buf = u @ v \<Longrightarrow> startswith think_close v \<Longrightarrow> length v < length think_close \<Longrightarrow> length v \<le> length buf"
  unfolding held_def by blast

lemma held_no_start:
  assumes "held x buf" "i < length x" shows "\<not> startswith (drop i (x @ buf @ p)) think_close"
proof
  let ?u = "drop i (x @ buf)"
  assume "startswith (drop i (x @ buf @ p)) think_close"
  then have st: "startswith (?u @ p) think_close" using assms(2) by simp
  have u: "x @ buf = take i x @ ?u" "length buf < length ?u" using assms(2) by auto
  show False
  proof (cases "length think_close \<le> length ?u")
    case True
    then show False using st startswith_longer[OF True] assms(1) cut_at_None[OF think_close_ne(1)] by (auto simp: held_def)
  next
    case False
    then have "startswith think_close ?u" using startswith_shorter[OF st] by simp
    then show False using assms(1) u False unfolding held_def by (metis not_le)
  qed
qed

lemma held_cut_Some:
  assumes "held x buf" "cut_at think_close (buf @ p) = Some (a, b)"
  shows "cut_at think_close (x @ buf @ p) = Some (x @ a, b)"
proof -
  have s: "buf @ p = a @ think_close @ b" "\<forall>i < length a. \<not> startswith (drop i (buf @ p)) think_close"
    using assms(2) cut_at_Some[OF think_close_ne(1)] by blast+
  have "\<not> startswith (drop i (x @ buf @ p)) think_close" if "i < length (x @ a)" for i
  proof (cases "i < length x")
    case True
    then show ?thesis using held_no_start[OF assms(1)] by blast
  next
    case False
    then have "drop i (x @ buf @ p) = drop (i - length x) (buf @ p)" by simp
    moreover have "i - length x < length a" using that False by auto
    ultimately show ?thesis using s(2) by metis
  qed
  then show ?thesis using s(1) cut_at_Some[OF think_close_ne(1), of "x @ buf @ p" "x @ a" b] by simp
qed

lemma held_cut_None:
  assumes "held x buf" "held y buf'" "y @ buf' = buf @ p"
  shows "held (x @ y) buf'"
proof -
  have none: "cut_at think_close (x @ buf @ p) = None"
  proof -
    have "\<not> startswith (drop i (x @ buf @ p)) think_close" for i
    proof (cases "i < length x")
      case True
      then show ?thesis using held_no_start[OF assms(1)] by blast
    next
      case False
      then have "drop i (x @ buf @ p) = drop (i - length x) (y @ buf')" using assms(3) by simp
      then show ?thesis using assms(2) cut_at_None[OF think_close_ne(1)] unfolding held_def by metis
    qed
    then show ?thesis using cut_at_None[OF think_close_ne(1)] by blast
  qed
  have "length v \<le> length buf'"
    if v: "x @ buf @ p = u @ v" "startswith think_close v" "length v < length think_close" for u v
  proof (cases "length v \<le> length (buf @ p)")
    case True
    then have "length x \<le> length u" using arg_cong[OF v(1), of length] by simp
    then have "buf @ p = drop (length x) u @ v" using arg_cong[OF v(1), of "drop (length x)"] by simp
    then obtain w where "buf @ p = w @ v" by blast
    then show ?thesis using assms(2,3) v(2,3) unfolding held_def by metis
  next
    case False
    then have "length u < length x" using arg_cong[OF v(1), of length] by simp
    then have "drop (length u) x @ buf @ p = v" "take (length u) x = u" "drop (length u) x \<noteq> []"
      using arg_cong[OF v(1), of "drop (length u)"] arg_cong[OF v(1), of "take (length u)"] by simp_all
    then obtain w where w: "v = w @ buf @ p" "x = u @ w" "w \<noteq> []" by (metis append_take_drop_id)
    have "startswith think_close (w @ buf)"
      using v(2) w(1) by (auto simp: startswith_iff)
    moreover have "length (w @ buf) < length think_close" using v(3) w(1) by simp
    ultimately have "length (w @ buf) \<le> length buf" using held_longest[OF assms(1), of u "w @ buf"] w(2) by simp
    then show ?thesis using w(3) by simp
  qed
  then show ?thesis using none assms(2,3) unfolding held_def by auto
qed

subsection \<open>What frames say\<close>

definition delta_of :: "json \<Rightarrow> payload" where
  "delta_of parsed =
     (case parsed of
        JObj p \<Rightarrow>
          (case jget p ''choices'' of
             JList (JObj choice # _) \<Rightarrow>
               if as_number (od_get_or (JInt 0) choice ''index'') = Some 0 then dict_or_empty (jget choice ''delta'') else []
           | _ \<Rightarrow> [])
      | _ \<Rightarrow> [])"

definition says :: "string \<Rightarrow> frame list \<Rightarrow> string" where
  "says key fs = concat (map (\<lambda>(parsed, data). str_or_empty (jget (delta_of parsed) key)) fs)"

lemma says_append [simp]: "says key (fs @ gs) = says key fs @ says key gs"
  by (simp add: says_def)

lemma says_Nil [simp]: "says key [] = []"
  by (simp add: says_def)

lemma jget_filter_app:
  "\<not> P k \<Longrightarrow> jget (filter (\<lambda>(k, v). P k) d @ [(k, v)]) k = v"
  by (induction d) auto

lemma says_frame [simp]: "says key [sr_frame s [(k, JStr t)]] = (if key = k then t else [])"
  using jget_filter_app[of "\<lambda>k. k \<notin> {''choices'', ''usage''}" "''choices''"]
  by (simp add: says_def sr_frame_def Let_def delta_of_def dict_or_empty_def str_or_empty_def od_get_or_def)

text \<open>The parts of the state the text depends on.\<close>

definition lead_strip :: "bool \<Rightarrow> string \<Rightarrow> string" where
  "lead_strip b s = (if b then py_lstrip s else s)"

definition same_config :: "stream_repair \<Rightarrow> stream_repair \<Rightarrow> bool" where
  "same_config s s' \<longleftrightarrow> sr_hold_close s' = sr_hold_close s \<and> sr_key s' = sr_key s \<and> sr_limit s' = sr_limit s"

lemma reasoning_out_view:
  assumes "reasoning_out t s = (f, s')" "sr_key s \<noteq> ''content''"
  shows "says (sr_key s) f = lead_strip (sr_strip_lead s) t" "says ''content'' f = []"
    "sr_strip_lead s' = (sr_strip_lead s \<and> py_lstrip t = [])" "sr_state s' = sr_state s" "sr_buf s' = sr_buf s" "same_config s s'"
  using assms by (auto simp: reasoning_out_def lead_strip_def same_config_def Let_def split: if_splits)

lemma content_out_view: "says ''content'' (content_out t s) = t" "k \<noteq> ''content'' \<Longrightarrow> says k (content_out t s) = []"
  by (simp_all add: content_out_def)

lemma answer_out_view:
  assumes "answer_out t s = (f, s')"
  shows "k \<noteq> ''content'' \<Longrightarrow> says k f = []" "same_config s s'"
    "if t = [] \<or> t = [cr] then sr_state s' = AnswerLead \<and> sr_buf s' = t \<and> says ''content'' f = []
     else sr_state s' = Pass \<and> says ''content'' f = after_tag t"
  using assms by (auto simp: answer_out_def Let_def content_out_view same_config_def split: if_splits)

lemma same_config_trans: "same_config a b \<Longrightarrow> same_config b c \<Longrightarrow> same_config a c"
  by (simp add: same_config_def)

lemma lstrip_append: "py_lstrip (x @ y) = py_lstrip x @ lead_strip (py_lstrip x = []) y"
  by (induction x) (simp_all add: py_lstrip_def lead_strip_def)

subsection \<open>What a stream is turned into\<close>

definition think_split :: "bool \<Rightarrow> string \<Rightarrow> string \<times> string" where
  "think_split hold t =
     (if startswith (py_lstrip t) think_open then
        (let body = drop (length think_open) (py_lstrip t) in
         case cut_at think_close body of None \<Rightarrow> (py_lstrip body, []) | Some (a, b) \<Rightarrow> (py_lstrip a, after_tag b))
      else if hold then
        (case cut_at think_close t of None \<Rightarrow> ([], t) | Some (a, b) \<Rightarrow> (py_lstrip a, after_tag b))
      else ([], t))"

text \<open>A marker has been seen: \<open>a\<close> is the trace and \<open>b\<close> what follows it.\<close>

definition marked :: "bool \<Rightarrow> string \<Rightarrow> string \<Rightarrow> string \<Rightarrow> bool" where
  "marked hold t a b \<longleftrightarrow>
     (\<exists>ws body. list_all py_isspace ws \<and> t = ws @ think_open @ body \<and> cut_at think_close body = Some (a, b)) \<or>
     (hold \<and> \<not> startswith (py_lstrip t) think_open \<and> cut_at think_close t = Some (a, b))"

lemma lstrip_ws: "list_all py_isspace ws \<Longrightarrow> py_lstrip (ws @ think_open @ x) = think_open @ x"
  by (induction ws) (auto simp: py_lstrip_def think_open_def py_isspace_def)

lemma lstrip_split: "\<exists>ws. list_all py_isspace ws \<and> t = ws @ py_lstrip t"
  unfolding py_lstrip_def by (rule exI[of _ "takeWhile py_isspace t"]) (auto simp: list_all_iff dest: set_takeWhileD)

lemma marked_split: "marked hold t a b \<Longrightarrow> think_split hold t = (py_lstrip a, after_tag b)"
  by (auto simp: marked_def think_split_def lstrip_ws)

lemma close_not_space: "list_ex (\<lambda>c. \<not> py_isspace c) think_close"
  by code_simp

lemma lstrip_keeps_close: "length think_close \<le> length (py_lstrip (a @ think_close @ b))"
proof -
  have d: "py_lstrip (think_close @ b) = think_close @ b"
    by (simp add: py_lstrip_def think_close_def py_isspace_def)
  show ?thesis by (subst lstrip_append) (simp add: lead_strip_def d)
qed

lemma marked_extend: "marked hold t a b \<Longrightarrow> marked hold (t @ p) a (b @ p)"
proof -
  assume m: "marked hold t a b"
  show ?thesis
  proof (cases "startswith (py_lstrip t) think_open")
    case True
    with m obtain ws body where "list_all py_isspace ws" "t = ws @ think_open @ body" "cut_at think_close body = Some (a, b)"
      by (auto simp: marked_def)
    then show ?thesis unfolding marked_def using cut_at_extend[OF think_close_ne(1)] by (metis append.assoc)
  next
    case False
    with m have h: "hold" "cut_at think_close t = Some (a, b)" by (auto simp: marked_def lstrip_ws)
    then have t: "t = a @ think_close @ b" using cut_at_Some[OF think_close_ne(1)] by blast
    have long: "length think_open \<le> length (py_lstrip t)" using lstrip_keeps_close[of a b] t think_close_ne by simp
    have "py_lstrip (t @ p) = py_lstrip t @ p"
      using long lstrip_append[of t p] think_close_ne by (auto simp: lead_strip_def)
    then have "\<not> startswith (py_lstrip (t @ p)) think_open" using False startswith_longer[OF long] by simp
    then show ?thesis using h cut_at_extend[OF think_close_ne(1) h(2)] by (simp add: marked_def)
  qed
qed

lemma after_tag_extend: "r \<noteq> [] \<Longrightarrow> r \<noteq> [cr] \<Longrightarrow> after_tag (r @ p) = after_tag r @ p"
  by (cases r rule: list.exhaust; cases "tl r") (auto simp: after_tag_def startswith_def cr_def lf_def)

subsection \<open>The invariant of a stream\<close>

text \<open>\<open>T\<close> is all the text the stream will carry, \<open>t\<close> the part consumed, \<open>R\<close> and \<open>C\<close> what was said as
  reasoning and as content. The last case of \<open>Pass\<close> is text that turned out to have no marker.\<close>

definition stream_inv :: "string \<Rightarrow> string \<Rightarrow> string \<Rightarrow> string \<Rightarrow> stream_repair \<Rightarrow> bool" where
  "stream_inv T t R C s \<longleftrightarrow>
     (case sr_state s of
        Undecided \<Rightarrow> R = [] \<and> C = [] \<and> sr_buf s = t \<and> \<not> startswith (py_lstrip t) think_open \<and>
          (if sr_hold_close s then cut_at think_close t = None else py_lstrip t = [] \<or> startswith think_open (py_lstrip t))
      | InThink \<Rightarrow> C = [] \<and> (\<exists>ws x. list_all py_isspace ws \<and> t = ws @ think_open @ x @ sr_buf s \<and> held x (sr_buf s) \<and>
          R = py_lstrip x \<and> sr_strip_lead s = (py_lstrip x = []))
      | AnswerLead \<Rightarrow> C = [] \<and> (sr_buf s = [] \<or> sr_buf s = [cr]) \<and> (\<exists>a. R = py_lstrip a \<and> marked (sr_hold_close s) t a (sr_buf s))
      | Pass \<Rightarrow> (\<exists>a b. R = py_lstrip a \<and> C = after_tag b \<and> marked (sr_hold_close s) t a b \<and> b \<noteq> [] \<and> b \<noteq> [cr]) \<or>
          R = [] \<and> C = t \<and> \<not> sr_hold_close s \<and> \<not> startswith (py_lstrip T) think_open)"

text \<open>Text that the machine can decide however it is cut: with the opt-in it fits the hold, without it
  an opening tag comes after at most ten blanks.\<close>

definition decidable_text :: "bool \<Rightarrow> nat \<Rightarrow> string \<Rightarrow> bool" where
  "decidable_text hold n T \<longleftrightarrow>
     (if hold then length T \<le> n else startswith (py_lstrip T) think_open \<longrightarrow> length (takeWhile py_isspace T) \<le> 10)"

lemma held_Nil: "held [] []"
  by (simp add: held_def startswith_def think_close_ne)

lemma answer_inv:
  assumes "answer_out b s = (f, s')" "marked (sr_hold_close s) t a b" "R = py_lstrip a"
  shows "stream_inv T t R (says ''content'' f) s'" "same_config s s'" "k \<noteq> ''content'' \<Longrightarrow> says k f = []"
proof -
  note v = answer_out_view[OF assms(1)]
  show "stream_inv T t R (says ''content'' f) s'"
  proof (cases "b = [] \<or> b = [cr]")
    case True
    then show ?thesis using v(2,3) assms(2,3) by (auto simp: stream_inv_def same_config_def)
  next
    case False
    then have "sr_state s' = Pass" "says ''content'' f = after_tag b" "sr_hold_close s' = sr_hold_close s"
      using v(2,3) by (simp_all add: same_config_def)
    then show ?thesis using assms(2,3) False unfolding stream_inv_def by auto
  qed
qed (use answer_out_view[OF assms(1)] in auto)

lemma think_in_inv:
  assumes "think_in p s = (f, s')" "sr_state s = InThink" "sr_key s \<noteq> ''content''"
    and "list_all py_isspace ws" "t = ws @ think_open @ x @ sr_buf s" "held x (sr_buf s)" "sr_strip_lead s = (py_lstrip x = [])"
  shows "stream_inv T (t @ p) (py_lstrip x @ says (sr_key s) f) (says ''content'' f) s'" "same_config s s'"
proof -
  let ?text = "sr_buf s @ p" and ?s = "s\<lparr>sr_buf := []\<rparr>"
  have goal: "stream_inv T (t @ p) (py_lstrip x @ says (sr_key s) f) (says ''content'' f) s' \<and> same_config s s'"
  proof (cases "cut_at think_close ?text")
    case (Some ab)
    obtain a b where ab: "ab = (a, b)" by force
    obtain f1 s1 where r: "reasoning_out a ?s = (f1, s1)" by force
    obtain f2 s2 where an: "answer_out b s1 = (f2, s2)" by force
    have f: "f = f1 @ f2" "s' = s2" using assms(1) Some ab r an by (simp_all add: think_in_def Let_def)
    note v = reasoning_out_view[OF r]
    have cfg: "same_config s s1" using v(6) assms(3) by (simp add: same_config_def)
    have "marked (sr_hold_close s1) (t @ p) (x @ a) b"
      using held_cut_Some[OF assms(6), of p a b] Some ab assms(4,5) cfg unfolding marked_def same_config_def by auto
    from answer_inv[OF an this refl] have "stream_inv T (t @ p) (py_lstrip (x @ a)) (says ''content'' f2) s2"
      "same_config s1 s2" "\<And>k. k \<noteq> ''content'' \<Longrightarrow> says k f2 = []" by blast+
    moreover have "py_lstrip (x @ a) = py_lstrip x @ says (sr_key s) f1" using v(1) assms(3,7) lstrip_append[of x a] by simp
    moreover have "says ''content'' f1 = []" using v(2) assms(3) by simp
    ultimately show ?thesis using f cfg same_config_trans assms(3) by auto
  next
    case None
    define y where "y = take (length ?text - partial_close_len ?text) ?text"
    define b where "b = drop (length ?text - partial_close_len ?text) ?text"
    have yb: "y @ b = ?text" unfolding y_def b_def by (rule append_take_drop_id)
    have h: "held (x @ y) b" using held_cut_None[OF assms(6) held_partial[OF None]] yb by (simp add: y_def b_def)
    have r: "reasoning_out y (s\<lparr>sr_buf := b\<rparr>) = (f, s')"
      using assms(1) None by (cases "partial_close_len ?text = 0") (auto simp: think_in_def Let_def y_def b_def)
    note v = reasoning_out_view[OF r]
    have "py_lstrip (x @ y) = py_lstrip x @ says (sr_key s) f" using v(1) assms(3,7) lstrip_append[of x y] by simp
    moreover have "sr_strip_lead s' = (py_lstrip (x @ y) = [])"
      using v(3) assms(3,7) lstrip_append[of x y] by (auto simp: lead_strip_def)
    moreover have "t @ p = ws @ think_open @ (x @ y) @ sr_buf s'" using v(5) assms(3,5) yb by simp
    moreover have "held (x @ y) (sr_buf s')" using v(5) assms(3) h by simp
    moreover have "sr_state s' = InThink" "says ''content'' f = []" "same_config s s'"
      using v(2,4,6) assms(2,3) by (simp_all add: same_config_def)
    ultimately show ?thesis using assms(4) unfolding stream_inv_def by auto
  qed
  then show "stream_inv T (t @ p) (py_lstrip x @ says (sr_key s) f) (says ''content'' f) s'" "same_config s s'" by blast+
qed

text \<open>Text that is released without a decision has no opening tag to come.\<close>

lemma release_ok:
  assumes "decidable_text False n T" "T = u @ rest" "\<not> startswith (py_lstrip u) think_open"
    and "\<not> ((py_lstrip u = [] \<or> startswith think_open (py_lstrip u)) \<and> length u \<le> prefix_hold_chars)"
  shows "\<not> startswith (py_lstrip T) think_open"
proof
  assume op: "startswith (py_lstrip T) think_open"
  obtain ws where ws: "list_all py_isspace ws" "u = ws @ py_lstrip u" using lstrip_split by blast
  have "T = ws @ py_lstrip u @ rest" using assms(2) ws(2) by (metis append.assoc)
  then have "takeWhile py_isspace T = ws @ takeWhile py_isspace (py_lstrip u @ rest)"
    using ws(1) takeWhile_append2[of ws py_isspace "py_lstrip u @ rest"] by (simp add: list_all_iff)
  then have few: "length ws \<le> 10" using assms(1) op by (simp add: decidable_text_def)
  show False
  proof (cases "length think_open \<le> length (py_lstrip u)")
    case True
    then have "py_lstrip T = py_lstrip u @ rest" using assms(2) lstrip_append[of u rest] think_close_ne by (auto simp: lead_strip_def)
    then show False using op assms(3) startswith_longer[OF True] by simp
  next
    case False
    have "py_lstrip u = [] \<or> startswith think_open (py_lstrip u)"
      using op assms(2) lstrip_append[of u rest] startswith_shorter[of "py_lstrip u" rest think_open] False
      by (auto simp: lead_strip_def split: if_splits)
    then have "prefix_hold_chars < length u" using assms(4) by simp
    moreover have "length u = length ws + length (py_lstrip u)" using arg_cong[OF ws(2), of length] by simp
    ultimately show False using few False by (simp add: prefix_hold_chars_def think_close_ne)
  qed
qed

subsection \<open>Every step keeps it\<close>

lemma consume_inv:
  assumes "sr_consume p (sr_buf s \<noteq> []) s = (f, s', whole)" "sr_state s \<noteq> Pass" "p \<noteq> []" "sr_key s \<noteq> ''content''"
    and inv: "stream_inv T t R C s" and T: "T = t @ p @ rest" and dec: "decidable_text (sr_hold_close s) (sr_limit s) T"
  shows "if whole then f = [] \<and> stream_inv T (t @ p) R (C @ p) s'
         else stream_inv T (t @ p) (R @ says (sr_key s) f) (C @ says ''content'' f) s'" "same_config s s'"
proof -
  have "(if whole then f = [] \<and> stream_inv T (t @ p) R (C @ p) s'
         else stream_inv T (t @ p) (R @ says (sr_key s) f) (C @ says ''content'' f) s') \<and> same_config s s'"
  proof (cases "sr_state s")
    case InThink
    obtain g s1 where g: "think_in p s = (g, s1)" by force
    then have w: "f = g" "s' = s1" "\<not> whole" using assms(1) InThink by (simp_all add: sr_consume_def)
    from inv InThink obtain ws x where "list_all py_isspace ws" "t = ws @ think_open @ x @ sr_buf s" "held x (sr_buf s)"
      "R = py_lstrip x" "sr_strip_lead s = (py_lstrip x = [])" "C = []" by (auto simp: stream_inv_def)
    with think_in_inv(1)[OF g InThink assms(4), of ws t x T] think_in_inv(2)[OF g InThink assms(4), of ws t x]
    show ?thesis using w by simp
  next
    case AnswerLead
    from inv AnswerLead obtain a where a: "C = []" "sr_buf s = [] \<or> sr_buf s = [cr]" "R = py_lstrip a"
      "marked (sr_hold_close s) t a (sr_buf s)" by (auto simp: stream_inv_def)
    have m: "marked (sr_hold_close s) (t @ p) a (sr_buf s @ p)" by (rule marked_extend[OF a(4)])
    have ne: "sr_buf s @ p \<noteq> []" using assms(3) by simp
    show ?thesis
    proof (cases "sr_buf s @ p = [cr]")
      case True
      then show ?thesis using assms(1) AnswerLead a m by (auto simp: sr_consume_def Let_def stream_inv_def same_config_def)
    next
      case False
      then have v: "\<not> whole" "sr_state s' = Pass" "says ''content'' f = after_tag (sr_buf s @ p)" "says (sr_key s) f = []" "same_config s s'"
        using assms(1,4) AnswerLead by (auto simp: sr_consume_def Let_def content_out_view same_config_def)
      moreover have "stream_inv T (t @ p) R (after_tag (sr_buf s @ p)) s'"
        using v(2,5) m ne False a(3) unfolding stream_inv_def same_config_def by auto
      ultimately show ?thesis using a(1) by simp
    qed
  next
    case Undecided
    from inv Undecided have u: "R = []" "C = []" "sr_buf s = t" "\<not> startswith (py_lstrip t) think_open" by (auto simp: stream_inv_def)
    let ?u = "t @ p" and ?l = "py_lstrip (t @ p)"
    show ?thesis
    proof (cases "startswith ?l think_open")
      case True
      then obtain body where body: "?l = think_open @ body" by (auto simp: startswith_iff)
      obtain ws where ws: "list_all py_isspace ws" "?u = ws @ ?l" using lstrip_split by blast
      let ?s = "s\<lparr>sr_state := InThink, sr_shape := Some ''open_tag'', sr_strip_lead := True, sr_buf := []\<rparr>"
      obtain g s1 where g: "think_in body ?s = (g, s1)" by force
      then have w: "f = g" "s' = s1" "\<not> whole" using assms(1) Undecided True u(3) body by (simp_all add: sr_consume_def Let_def)
      have "stream_inv T ((ws @ think_open) @ body) (py_lstrip [] @ says (sr_key ?s) g) (says ''content'' g) s1 \<and> same_config ?s s1"
        using think_in_inv(1)[OF g _ _ ws(1), of "ws @ think_open" "[]" T] think_in_inv(2)[OF g _ _ ws(1), of "ws @ think_open" "[]"]
          assms(4) held_Nil by (simp add: py_lstrip_def)
      then show ?thesis using w u ws(2) body by (simp add: py_lstrip_def same_config_def)
    next
      case no: False
      show ?thesis
      proof (cases "sr_hold_close s")
        case True
        show ?thesis
        proof (cases "cut_at think_close ?u")
          case None
          have "length ?u \<le> sr_limit s" using dec True T by (simp add: decidable_text_def)
          then show ?thesis using assms(1) Undecided no True None u by (auto simp: sr_consume_def Let_def stream_inv_def same_config_def)
        next
          case (Some ab)
          obtain a b where ab: "ab = (a, b)" by force
          let ?s = "s\<lparr>sr_shape := Some ''close_only'', sr_buf := [], sr_strip_lead := True\<rparr>"
          obtain f1 s1 where r: "reasoning_out a ?s = (f1, s1)" by force
          obtain f2 s2 where an: "answer_out b s1 = (f2, s2)" by force
          have w: "f = f1 @ f2" "s' = s2" "\<not> whole"
            using assms(1) Undecided no True Some ab r an u(3) by (simp_all add: sr_consume_def Let_def)
          note v = reasoning_out_view[OF r]
          have cfg: "same_config s s1" using v(6) assms(4) by (simp add: same_config_def)
          have m: "marked (sr_hold_close s1) ?u a b" using Some ab no True cfg by (simp add: marked_def same_config_def)
          have "says (sr_key s) f = py_lstrip a" "says ''content'' f = says ''content'' f2"
            using v(1,2) w(1) assms(4) answer_inv(3)[OF an m refl, of "sr_key s"] by (simp_all add: lead_strip_def)
          then show ?thesis
            using answer_inv(1)[OF an m refl, of T] w u same_config_trans[OF cfg answer_inv(2)[OF an m refl]] by simp
        qed
      next
        case False
        show ?thesis
        proof (cases "(?l = [] \<or> startswith think_open ?l) \<and> length ?u \<le> prefix_hold_chars")
          case True
          then show ?thesis using assms(1) Undecided no False u by (auto simp: sr_consume_def Let_def stream_inv_def same_config_def)
        next
          case rel: False
          have "\<not> startswith (py_lstrip T) think_open"
            using release_ok[of "sr_limit s" T ?u rest] dec False T no rel by simp
          then show ?thesis using assms(1,4) Undecided no False rel u
            by (auto simp: sr_consume_def Let_def stream_inv_def same_config_def content_out_view split: if_splits)
        qed
      qed
    qed
  qed (use assms(2) in simp)
  then show "if whole then f = [] \<and> stream_inv T (t @ p) R (C @ p) s'
         else stream_inv T (t @ p) (R @ says (sr_key s) f) (C @ says ''content'' f) s'" "same_config s s'" by blast+
qed

lemma settle_final:
  assumes "stream_inv T T R C s" "sr_settle s = (f, s')" "sr_key s \<noteq> ''content''"
  shows "(R @ says (sr_key s) f, C @ says ''content'' f) = think_split (sr_hold_close s) T" "sr_state s' = Pass"
proof -
  show "sr_state s' = Pass" using assms(2) by (auto simp: sr_settle_def split: prod.splits)
  show "(R @ says (sr_key s) f, C @ says ''content'' f) = think_split (sr_hold_close s) T"
  proof (cases "sr_state s")
    case Undecided
    then show ?thesis using assms
      by (auto simp: stream_inv_def sr_settle_def think_split_def content_out_view split: if_splits)
  next
    case InThink
    from assms(1) InThink obtain ws x where x: "list_all py_isspace ws" "T = ws @ think_open @ x @ sr_buf s" "held x (sr_buf s)"
      "R = py_lstrip x" "sr_strip_lead s = (py_lstrip x = [])" "C = []" by (auto simp: stream_inv_def)
    let ?s = "if sr_shape s = Some ''open_tag'' then s\<lparr>sr_shape := Some ''unclosed''\<rparr> else s"
    obtain s1 where r: "reasoning_out (sr_buf s) ?s = (f, s1)" using assms(2) InThink by (auto simp: sr_settle_def split: prod.splits)
    have "says (sr_key s) f = lead_strip (py_lstrip x = []) (sr_buf s)" "says ''content'' f = []"
      using reasoning_out_view(1,2)[OF r] assms(3) x(5) by (cases "sr_shape s = Some ''open_tag''"; simp)+
    moreover have "think_split (sr_hold_close s) T = (py_lstrip (x @ sr_buf s), [])"
      using x(1-3) by (simp add: think_split_def lstrip_ws held_def)
    ultimately show ?thesis using x(4,6) by (simp add: lstrip_append)
  next
    case AnswerLead
    then obtain a where a: "R = py_lstrip a" "marked (sr_hold_close s) T a (sr_buf s)" "sr_buf s = [] \<or> sr_buf s = [cr]" "C = []"
      using assms(1) by (auto simp: stream_inv_def)
    have "after_tag (sr_buf s) = sr_buf s" using a(3) by (auto simp: after_tag_def startswith_def cr_def lf_def)
    then show ?thesis using assms(2,3) AnswerLead a marked_split[OF a(2)] by (auto simp: sr_settle_def content_out_view)
  next
    case Pass
    then have f: "f = []" using assms(2) by (simp add: sr_settle_def)
    from assms(1) Pass have "(R, C) = think_split (sr_hold_close s) T"
      unfolding stream_inv_def using marked_split[of "sr_hold_close s" T] by (auto simp: think_split_def[of False])
    then show ?thesis using f by simp
  qed
qed

subsection \<open>Frames\<close>

definition piece_of :: "json \<Rightarrow> string" where
  "piece_of parsed = str_or_empty (jget (delta_of parsed) ''content'')"

text \<open>A chunk of an engine that does not split the reasoning off itself: no error, no reasoning text,
  and choices that can be indexed.\<close>

definition plain :: "json \<Rightarrow> bool" where
  "plain parsed \<longleftrightarrow>
     (case parsed of
        JObj p \<Rightarrow> ''error'' \<notin> set (od_keys p) \<and> (\<exists>cs. jget p ''choices'' = JList cs) \<and>
          list_all (\<lambda>k. str_or_empty (jget (delta_of parsed) k) = []) reasoning_keys
      | _ \<Rightarrow> True)"

text \<open>A chunk that closes the turn: a tool call or a finish reason on the first choice.\<close>

definition closes :: "json \<Rightarrow> bool" where
  "closes parsed \<longleftrightarrow>
     (case parsed of
        JObj p \<Rightarrow>
          (case jget p ''choices'' of
             JList (JObj choice # _) \<Rightarrow>
               as_number (od_get_or (JInt 0) choice ''index'') = Some 0 \<and>
               (truthy (jget (delta_of parsed) ''tool_calls'') \<or> truthy (jget choice ''finish_reason''))
           | _ \<Rightarrow> False)
      | _ \<Rightarrow> False)"

lemma inv_last: "stream_inv T t R C (s\<lparr>sr_last := p\<rparr>) = stream_inv T t R C s"
  by (simp add: stream_inv_def cong: sr_phase.case_cong)

lemma pass_inv:
  assumes "stream_inv T t R C s" "sr_state s = Pass" shows "stream_inv T (t @ p) R (C @ p) s"
proof (cases "\<exists>a b. R = py_lstrip a \<and> C = after_tag b \<and> marked (sr_hold_close s) t a b \<and> b \<noteq> [] \<and> b \<noteq> [cr]")
  case True
  then obtain a b where "R = py_lstrip a" "C = after_tag b" "marked (sr_hold_close s) t a b" "b \<noteq> []" "b \<noteq> [cr]" by blast
  then have "R = py_lstrip a" "C @ p = after_tag (b @ p)" "marked (sr_hold_close s) (t @ p) a (b @ p)" "b @ p \<noteq> []" "b @ p \<noteq> [cr]"
    by (auto simp: after_tag_extend marked_extend append_eq_Cons_conv)
  then show ?thesis using assms(2) unfolding stream_inv_def by auto
next
  case False
  then show ?thesis using assms unfolding stream_inv_def by auto
qed

lemma says_relay: "says k [(parsed, d)] = str_or_empty (jget (delta_of parsed) k)"
  by (simp add: says_def)

lemma plain_silent: "plain parsed \<Longrightarrow> k \<in> set reasoning_keys \<Longrightarrow> says k [(parsed, d)] = []"
  by (cases parsed) (auto simp: says_relay plain_def delta_of_def str_or_empty_def list_all_iff)

text \<open>The chunk that is relayed with its content taken out.\<close>

lemma says_residual:
  assumes "jget p ''choices'' = JList (JObj choice # others)" "as_number (od_get_or (JInt 0) choice ''index'') = Some 0"
    and "delta = dict_or_empty (jget choice ''delta'')"
  shows "says k [(JObj (od_put ''choices'' (JList (JObj (od_put ''delta'' (JObj (filter (\<lambda>(k, v). k \<noteq> ''content'') delta)) choice) # others)) p), d)] =
    (if k = ''content'' then [] else str_or_empty (jget delta k))"
  using assms(2) jget_filter[of "\<lambda>k. k \<noteq> ''content''" k delta] jget_filter_out[of "\<lambda>k. k \<noteq> ''content''" k delta]
  by (auto simp: says_relay delta_of_def dict_or_empty_def str_or_empty_def)

text \<open>What one chunk has to achieve.\<close>

definition chunk_ok :: "string \<Rightarrow> string \<Rightarrow> string \<Rightarrow> string \<Rightarrow> stream_repair \<Rightarrow> json \<Rightarrow> frame list \<times> stream_repair \<Rightarrow> bool" where
  "chunk_ok T t R C s parsed res \<longleftrightarrow>
     (case res of (f, s') \<Rightarrow>
        same_config s s' \<and>
        (if closes parsed
         then t @ piece_of parsed = T \<longrightarrow> sr_state s' = Pass \<and> (R @ says (sr_key s) f, C @ says ''content'' f) = think_split (sr_hold_close s) T
         else stream_inv T (t @ piece_of parsed) (R @ says (sr_key s) f) (C @ says ''content'' f) s'))"

lemma pass_final:
  assumes "stream_inv T T R C s" "sr_state s = Pass" "sr_key s \<noteq> ''content''" shows "(R, C) = think_split (sr_hold_close s) T"
  using settle_final(1)[OF assms(1) _ assms(3)] assms(2) by (auto simp: sr_settle_def)

lemma feed_choice_ok:
  assumes p: "jget p ''choices'' = JList (JObj choice # others)" "as_number (od_get_or (JInt 0) choice ''index'') = Some 0"
    and pl: "plain (JObj p)" and inv: "stream_inv T t R C s" and T: "T = t @ piece_of (JObj p) @ rest"
    and dec: "decidable_text (sr_hold_close s) (sr_limit s) T" and key: "sr_key s \<in> set reasoning_keys" and np: "sr_state s \<noteq> Pass"
  shows "chunk_ok T t R C s (JObj p) (feed_choice p d choice others s)"
proof -
  let ?delta = "dict_or_empty (jget choice ''delta'')" and ?s = "s\<lparr>sr_last := p\<rparr>"
  let ?fin = "truthy (jget choice ''finish_reason'')" and ?tc = "truthy (jget ?delta ''tool_calls'')"
  have del: "delta_of (JObj p) = ?delta" using p by (simp add: delta_of_def)
  have k: "sr_key s \<noteq> ''content''" using key by (auto simp: reasoning_keys_def)
  have nor: "\<not> list_ex (\<lambda>k. str_or_empty (jget ?delta k) \<noteq> []) reasoning_keys" using pl del by (auto simp: plain_def list_ex_iff list_all_iff)
  have quiet: "says (sr_key s) [(JObj p, d)] = []" by (rule plain_silent[OF pl key])
  have silent: "str_or_empty (jget ?delta (sr_key s)) = []" using quiet del by (simp add: says_relay)
  have cl: "closes (JObj p) \<longleftrightarrow> ?tc \<or> ?fin" using p del by (simp add: closes_def)
  define piece where "piece = piece_of (JObj p)"
  have piece: "str_or_empty (jget ?delta ''content'') = piece" by (simp add: piece_def piece_of_def del)
  obtain f1 s1 w where c: "(if piece \<noteq> [] then sr_consume piece (sr_buf ?s \<noteq> []) ?s else ([], ?s, False)) = (f1, s1, w)" by (metis prod_cases3)
  have step: "(if w then f1 = [] \<and> stream_inv T (t @ piece) R (C @ piece) s1
         else stream_inv T (t @ piece) (R @ says (sr_key s) f1) (C @ says ''content'' f1) s1) \<and> same_config s s1 \<and> (w \<longrightarrow> sr_state s1 = Pass \<and> piece \<noteq> [])"
  proof (cases "piece = []")
    case True
    then show ?thesis using c inv by (auto simp: inv_last same_config_def)
  next
    case False
    then have co: "sr_consume piece (sr_buf ?s \<noteq> []) ?s = (f1, s1, w)" using c by simp
    have "w \<longrightarrow> sr_state s1 = Pass"
      using co by (auto simp: sr_consume_def Let_def split: sr_phase.splits if_splits option.splits prod.splits)
    moreover have "T = t @ piece @ rest" using T by (simp add: piece_def)
    note ci = consume_inv[OF co _ False _ _ this]
    have "sr_state ?s \<noteq> Pass" "sr_key ?s \<noteq> ''content''" "stream_inv T t R C ?s" "decidable_text (sr_hold_close ?s) (sr_limit ?s) T"
      using np k inv dec by (simp_all add: inv_last)
    note ci = ci(1)[OF this] ci(2)[OF this]
    ultimately show ?thesis using False by (cases w) (simp_all add: same_config_def)
  qed
  obtain f2 s2 where st: "(if ?tc \<or> ?fin then sr_settle s1 else ([], s1)) = (f2, s2)" by force
  define rs where "rs = (if piece = [] then [(JObj p, d)]
     else let res = JObj (od_put ''choices'' (JList (JObj (od_put ''delta'' (JObj (filter (\<lambda>(k, v). k \<noteq> ''content'') ?delta)) choice) # others)) p)
          in if filter (\<lambda>(k, v). k \<noteq> ''content'') ?delta \<noteq> [] \<or> ?fin then [(res, json_dumps res)] else [])"
  have rsays: "says (sr_key s) rs = []" "says ''content'' rs = []"
    using quiet silent k says_residual[OF p refl] piece del by (auto simp: rs_def Let_def says_relay)
  have fc: "feed_choice p d choice others s = (if w then ([(JObj p, d)], s1) else (f1 @ f2 @ rs, s2))"
    unfolding feed_choice_def Let_def rs_def using nor c st piece by (auto split: prod.splits)
  have cfg2: "same_config s1 s2" using st
    by (auto simp: sr_settle_def same_config_def reasoning_out_def Let_def split: sr_phase.splits if_splits prod.splits)
  show ?thesis
  proof (cases w)
    case True
    then have i: "stream_inv T (t @ piece) R (C @ piece) s1" "sr_state s1 = Pass" "same_config s s1" using step by auto
    moreover have "(R, C @ piece) = think_split (sr_hold_close s) T" if "t @ piece = T"
      using pass_final[of T R "C @ piece" s1] i that k by (simp add: same_config_def)
    ultimately show ?thesis using True fc quiet piece del by (auto simp: chunk_ok_def says_relay piece_def)
  next
    case False
    then have i: "stream_inv T (t @ piece) (R @ says (sr_key s) f1) (C @ says ''content'' f1) s1" "same_config s s1" using step by auto
    show ?thesis
    proof (cases "?tc \<or> ?fin")
      case True
      then have se: "sr_settle s1 = (f2, s2)" using st by simp
      have "sr_state s2 = Pass \<and> ((R @ says (sr_key s) f1) @ says (sr_key s) f2, (C @ says ''content'' f1) @ says ''content'' f2) = think_split (sr_hold_close s) T"
        if e: "t @ piece = T"
      proof -
        have "sr_key s1 = sr_key s" "sr_hold_close s1 = sr_hold_close s" using i(2) by (simp_all add: same_config_def)
        with settle_final[OF i(1)[unfolded e] se] k show ?thesis by simp
      qed
      then show ?thesis using False True fc cl rsays i(2) cfg2 by (auto simp: chunk_ok_def same_config_def piece_def)
    next
      case open_: False
      then show ?thesis using False fc cl rsays i st by (auto simp: chunk_ok_def piece_def)
    qed
  qed
qed

lemma feed_ok:
  assumes "plain parsed" "stream_inv T t R C s" "T = t @ piece_of parsed @ rest"
    and "decidable_text (sr_hold_close s) (sr_limit s) T" "sr_key s \<in> set reasoning_keys"
  shows "\<exists>res. sr_feed parsed d s = Inr res \<and> chunk_ok T t R C s parsed res"
proof -
  have k: "sr_key s \<noteq> ''content''" using assms(5) by (auto simp: reasoning_keys_def)
  have quiet: "says (sr_key s) [(parsed, d)] = []" by (rule plain_silent[OF assms(1,5)])
  have relay: "chunk_ok T t R C s parsed ([(parsed, d)], s)" if "delta_of parsed = []" "\<not> closes parsed"
    using that quiet assms(2) by (simp add: chunk_ok_def same_config_def says_relay piece_of_def str_or_empty_def)
  show ?thesis
  proof (cases "sr_state s = Pass")
    case True
    have i: "stream_inv T (t @ piece_of parsed) R (C @ piece_of parsed) s" by (rule pass_inv[OF assms(2) True])
    have "(R, C @ piece_of parsed) = think_split (sr_hold_close s) T" if "t @ piece_of parsed = T"
      using pass_final[of T R "C @ piece_of parsed" s] i that k True by simp
    then have "chunk_ok T t R C s parsed ([(parsed, d)], s)"
      using i True quiet by (auto simp: chunk_ok_def same_config_def says_relay piece_of_def)
    then show ?thesis using True by (simp add: sr_feed_def)
  next
    case np: False
    show ?thesis
    proof (cases "\<exists>p choice others. parsed = JObj p \<and> jget p ''choices'' = JList (JObj choice # others) \<and>
        as_number (od_get_or (JInt 0) choice ''index'') = Some 0")
      case True
      then obtain p choice others where c: "parsed = JObj p" "jget p ''choices'' = JList (JObj choice # others)"
        "as_number (od_get_or (JInt 0) choice ''index'') = Some 0" by blast
      have "''error'' \<notin> set (od_keys p)" using assms(1) c(1) by (simp add: plain_def)
      then have "sr_feed parsed d s = Inr (feed_choice p d choice others s)" using np c by (simp add: sr_feed_def)
      with feed_choice_ok[OF c(2,3)] assms np c(1) show ?thesis by blast
    next
      case False
      have "delta_of parsed = [] \<and> \<not> closes parsed \<and> sr_feed parsed d s = Inr ([(parsed, d)], s)"
        using False np assms(1)
        by (cases parsed) (auto simp: delta_of_def closes_def plain_def sr_feed_def image_iff split: json.split list.split)
      then show ?thesis using relay by blast
    qed
  qed
qed

subsection \<open>The theorems\<close>

fun feed_all :: "frame list \<Rightarrow> stream_repair \<Rightarrow> (frame list \<times> stream_repair) py" where
  "feed_all [] s = Inr ([], s)"
| "feed_all (fr # frs) s =
     py_bind (sr_feed (fst fr) (snd fr) s) (\<lambda>(f, s1). py_bind (feed_all frs s1) (\<lambda>(g, s2). Inr (f @ g, s2)))"

definition relay_stream :: "frame list \<Rightarrow> stream_repair \<Rightarrow> frame list py" where
  "relay_stream frs s = py_bind (feed_all frs s) (\<lambda>(f, s1). Inr (f @ fst (sr_finish s1)))"

lemma says_Cons: "says k (fr # frs) = says k [fr] @ says k frs"
  by (simp add: says_def)

lemma says_piece: "says ''content'' [fr] = piece_of (fst fr)"
  by (cases fr) (simp add: says_relay piece_of_def)

lemma finish_pass: "sr_state s = Pass \<Longrightarrow> fst (sr_finish s) = []"
  by (simp add: sr_finish_def sr_settle_def)

lemma relay_ok:
  assumes "stream_inv T t R C s" "T = t @ says ''content'' frs" "sr_key s \<in> set reasoning_keys"
    and "decidable_text (sr_hold_close s) (sr_limit s) T" "list_all (plain \<circ> fst) frs" "\<forall>fr \<in> set (butlast frs). \<not> closes (fst fr)"
  shows "\<exists>out. relay_stream frs s = Inr out \<and>
    (R @ says (sr_key s) out, C @ says ''content'' out) = think_split (sr_hold_close s) T"
  using assms
proof (induction frs arbitrary: t R C s)
  case Nil
  have k: "sr_key s \<noteq> ''content''" using Nil.prems(3) by (auto simp: reasoning_keys_def)
  have "stream_inv T T R C s" using Nil.prems(1,2) by simp
  from settle_final(1)[OF this surjective_pairing k] show ?case by (simp add: relay_stream_def sr_finish_def)
next
  case (Cons fr frs)
  have T: "T = t @ piece_of (fst fr) @ says ''content'' frs"
    using Cons.prems(2) by (simp only: says_Cons[of _ fr frs] says_piece)
  have pl: "plain (fst fr)" using Cons.prems(5) by simp
  obtain f s1 where fd: "sr_feed (fst fr) (snd fr) s = Inr (f, s1)" and ok: "chunk_ok T t R C s (fst fr) (f, s1)"
    using feed_ok[OF pl Cons.prems(1) T Cons.prems(4,3), of "snd fr"] by auto
  have cfg: "sr_key s1 = sr_key s" "sr_hold_close s1 = sr_hold_close s" "sr_limit s1 = sr_limit s"
    using ok by (auto simp: chunk_ok_def same_config_def)
  have run: "relay_stream (fr # frs) s = py_bind (relay_stream frs s1) (\<lambda>out. Inr (f @ out))"
    by (cases "feed_all frs s1") (auto simp: relay_stream_def fd)
  show ?case
  proof (cases "closes (fst fr)")
    case True
    then have "frs = []" using Cons.prems(6) by (cases frs) auto
    then have "t @ piece_of (fst fr) = T" using T by simp
    then show ?thesis using ok True \<open>frs = []\<close> run by (auto simp: chunk_ok_def relay_stream_def finish_pass)
  next
    case False
    then have inv: "stream_inv T (t @ piece_of (fst fr)) (R @ says (sr_key s) f) (C @ says ''content'' f) s1"
      using ok by (simp add: chunk_ok_def)
    have "\<forall>fr \<in> set (butlast frs). \<not> closes (fst fr)" using Cons.prems(6) by (cases frs) auto
    then obtain out where "relay_stream frs s1 = Inr out"
      "((R @ says (sr_key s) f) @ says (sr_key s) out, (C @ says ''content'' f) @ says ''content'' out) = think_split (sr_hold_close s) T"
      using Cons.IH[OF inv] T Cons.prems(3,4,5) cfg by auto
    then show ?thesis using run by auto
  qed
qed

text \<open>C25: a stream of plain content frames is repaired the same however it is cut into chunks. For an engine that leaves the
  trace in the content, relaying never raises, and what the frames say as reasoning and as content
  is the split of the whole text at its tags, whatever the chunks were and even if a tag is cut in
  two. The text has to be one the machine may decide: with the opt-in it fits the hold, without it
  an opening tag comes after at most ten blanks.\<close>

theorem stream_chunking_irrelevant:
  assumes "list_all (plain \<circ> fst) frs" "\<forall>fr \<in> set (butlast frs). \<not> closes (fst fr)"
    and "key \<in> set reasoning_keys" "decidable_text hold n (says ''content'' frs)"
  shows "\<exists>out. relay_stream frs (new_stream_repair hold key n) = Inr out \<and>
    (says key out, says ''content'' out) = think_split hold (says ''content'' frs)"
proof -
  have "stream_inv (says ''content'' frs) [] [] [] (new_stream_repair hold key n)"
    by (simp add: stream_inv_def new_stream_repair_def startswith_def think_close_ne py_lstrip_def think_open_def)
  from relay_ok[OF this, of frs] assms show ?thesis by (simp add: new_stream_repair_def)
qed

text \<open>Two chunks that cut both tags.\<close>

definition demo_chunk :: "string \<Rightarrow> frame" where
  "demo_chunk t = (JObj [(''choices'', JList [JObj [(''index'', JInt 0), (''delta'', JObj [(''content'', JStr t)])]])], [])"

lemma stream_chunking_irrelevant_witness:
  "\<exists>out. relay_stream [demo_chunk ''<thi'', demo_chunk ''nk> so</th'', demo_chunk ''ink>42''] (new_stream_repair False ''reasoning'' 65536) = Inr out \<and>
    (says ''reasoning'' out, says ''content'' out) = (''so'', ''42'')"
proof -
  let ?f = "[demo_chunk ''<thi'', demo_chunk ''nk> so</th'', demo_chunk ''ink>42'']"
  have "list_all (plain \<circ> fst) ?f"
    by (simp add: plain_def demo_chunk_def reasoning_keys_def delta_of_def dict_or_empty_def str_or_empty_def od_get_or_def)
  moreover have "\<forall>fr \<in> set (butlast ?f). \<not> closes (fst fr)"
    by (simp add: closes_def demo_chunk_def delta_of_def dict_or_empty_def od_get_or_def)
  moreover have s: "says ''content'' ?f = ''<think> so</think>42''" by code_simp
  moreover have "decidable_text False 65536 ''<think> so</think>42''" by (simp add: decidable_text_def) code_simp
  moreover have "think_split False ''<think> so</think>42'' = (''so'', ''42'')" by code_simp
  ultimately show ?thesis using stream_chunking_irrelevant[of ?f "''reasoning''" False 65536] by (simp add: reasoning_keys_def s)
qed

text \<open>The repair of a whole response gives the same answer, and the same trace up to blanks at its end.\<close>

lemma strip_lstrip: "py_strip (py_lstrip s) = py_strip s"
  by (simp add: py_strip_def py_lstrip_def)

lemma stream_agrees_with_whole_response:
  "split_think t hold = Some (r, a, shape) \<Longrightarrow> snd (think_split hold t) = a \<and> py_strip (fst (think_split hold t)) = r"
  "split_think t hold = None \<Longrightarrow> think_split hold t = ([], t)"
  by (auto simp: split_think_def think_split_def Let_def strip_lstrip split: if_splits option.splits)

text \<open>Outside that text the chunks do matter: with eleven blanks in front of the tag, a stream that is
  cut inside the tag is relayed as it is, while the same text in one chunk is repaired.\<close>

lemma long_lead_depends_on_chunks:
  "map_sum id (says ''reasoning'') (relay_stream [demo_chunk (replicate 11 (CHR '' '') @ ''<think>so</think>42'')] (new_stream_repair False ''reasoning'' 9)) = Inr ''so''"
  "map_sum id (says ''reasoning'') (relay_stream [demo_chunk (replicate 11 (CHR '' '') @ ''<think''), demo_chunk ''>so</think>42''] (new_stream_repair False ''reasoning'' 9)) = Inr []"
  by code_simp+

subsection \<open>How much is held back\<close>

definition hold_bound :: "stream_repair \<Rightarrow> nat" where
  "hold_bound s = (if sr_hold_close s then max prefix_hold_chars (sr_limit s) else prefix_hold_chars)"

definition hold_ok :: "stream_repair \<Rightarrow> bool" where
  "hold_ok s \<longleftrightarrow> length (sr_buf s) \<le> hold_bound s"

lemma partial_le: "partial_close_len s \<le> 7" "partial_close_len s \<le> length s"
  using longest_partial_spec(1)[of "min (length think_close - 1) (length s)" s]
  by (auto simp: partial_close_len_def think_close_ne)

lemma reasoning_out_buf:
  "reasoning_out t s = (f, s') \<Longrightarrow> sr_buf s' = sr_buf s \<and> same_config s s'"
  by (auto simp: reasoning_out_def Let_def same_config_def split: if_splits)

lemma answer_out_buf: "answer_out t s = (f, s') \<Longrightarrow> (sr_buf s' = sr_buf s \<or> length (sr_buf s') \<le> 1) \<and> same_config s s'"
  by (auto simp: answer_out_def Let_def same_config_def split: if_splits)

lemma think_in_buf: "think_in p s = (f, s') \<Longrightarrow> length (sr_buf s') \<le> 7 \<and> same_config s s'"
  using partial_le[of "sr_buf s @ p"]
  by (auto simp: think_in_def Let_def same_config_def split: option.splits prod.splits if_splits
      dest!: reasoning_out_buf answer_out_buf)

lemma small_ok: "length (sr_buf s') \<le> 16 \<Longrightarrow> hold_ok s'"
  by (auto simp: hold_ok_def hold_bound_def prefix_hold_chars_def)

lemma consume_hold:
  assumes "sr_consume p h s = (f, s', w)" shows "hold_ok s' \<and> same_config s s'"
proof (cases "sr_state s")
  case InThink
  then show ?thesis using assms think_in_buf[of p s] by (auto simp: sr_consume_def split: prod.splits intro!: small_ok)
next
  case AnswerLead
  then show ?thesis using assms by (auto simp: sr_consume_def Let_def same_config_def split: if_splits intro!: small_ok)
next
  case Undecided
  then show ?thesis using assms
    by (auto simp: sr_consume_def Let_def same_config_def hold_ok_def hold_bound_def prefix_hold_chars_def
        split: if_splits option.splits prod.splits dest!: think_in_buf reasoning_out_buf answer_out_buf)
next
  case Pass
  then show ?thesis using assms
    by (auto simp: sr_consume_def Let_def same_config_def hold_ok_def hold_bound_def prefix_hold_chars_def
        split: if_splits option.splits prod.splits dest!: think_in_buf reasoning_out_buf answer_out_buf)
qed

lemma settle_hold: "sr_settle s = (f, s') \<Longrightarrow> sr_buf s' = [] \<and> same_config s s'"
  by (auto simp: sr_settle_def same_config_def split: prod.splits sr_phase.splits if_splits dest!: reasoning_out_buf)

lemma feed_hold:
  assumes "sr_feed parsed d s = Inr (f, s')" "hold_ok s"
  shows "hold_ok s' \<and> same_config s s'"
proof -
  have "hold_ok s2 \<and> same_config s s2" if "feed_choice p d c os s = (f2, s2)" for p c os f2 s2
  proof -
    have e: "hold_ok (s\<lparr>sr_last := p\<rparr>)" "same_config s (s\<lparr>sr_last := p\<rparr>)" using assms(2) by (cases "sr_hold_close s"; simp add: hold_ok_def hold_bound_def same_config_def)+
    show ?thesis using that e
      by (auto simp: feed_choice_def Let_def same_config_def hold_ok_def hold_bound_def split: if_splits prod.splits
          dest!: settle_hold consume_hold)
  qed
  moreover have "s' = s \<or> (\<exists>g. sr_settle s = (g, s')) \<or> (\<exists>p c os. feed_choice p d c os s = (f, s'))"
  proof (cases "sr_state s = Pass \<or> (\<forall>p. parsed \<noteq> JObj p)")
    case True
    then show ?thesis using assms(1) by (cases "sr_state s = Pass"; cases parsed) (auto simp: sr_feed_def)
  next
    case False
    then obtain p where p: "parsed = JObj p" "sr_state s \<noteq> Pass" by blast
    show ?thesis
    proof (cases "''error'' \<in> set (od_keys p) \<or> \<not> truthy (jget p ''choices'')")
      case True
      then show ?thesis using assms(1) p by (cases "sr_settle s") (auto simp: sr_feed_def simp del: set_map split: if_splits)
    next
      case ok: False
      then obtain c where c: "first_choice (jget p ''choices'') = Inr c"
        using assms(1) p by (cases "first_choice (jget p ''choices'')") (auto simp: sr_feed_def simp del: set_map)
      have "(case (c, jget p ''choices'') of
              (JObj choice, JList (_ # others)) \<Rightarrow>
                if as_number (od_get_or (JInt 0) choice ''index'') \<noteq> Some 0 then Inr ([(JObj p, d)], s)
                else Inr (feed_choice p d choice others s)
            | _ \<Rightarrow> Inr ([(JObj p, d)], s)) = (Inr (f, s') :: (frame list \<times> stream_repair) py)"
        using assms(1) p ok c by (simp add: sr_feed_def del: set_map)
      then show ?thesis
        by (cases c; cases "jget p ''choices''"; simp split: list.splits if_splits) blast+
    qed
  qed
  ultimately consider "s' = s" | g where "sr_settle s = (g, s')" | "hold_ok s' \<and> same_config s s'" by blast
  then show ?thesis
  proof cases
    case 1
    then show ?thesis using assms(2) by (simp add: same_config_def)
  next
    case 2
    then show ?thesis using settle_hold[OF 2] by (simp add: hold_ok_def)
  qed
qed

text \<open>However a stream goes, no more than sixteen characters of it are held back, or with the opt-in
  no more than its limit.\<close>

lemma held_text_bounded:
  "feed_all frs (new_stream_repair hold key n) = Inr (out, s) \<Longrightarrow>
     length (sr_buf s) \<le> (if hold then max prefix_hold_chars n else prefix_hold_chars)"
proof -
  have "feed_all frs s0 = Inr (out, s) \<Longrightarrow> hold_ok s0 \<Longrightarrow> hold_ok s \<and> same_config s0 s" for s0
  proof (induction frs arbitrary: s0 out)
    case (Cons fr frs)
    then obtain f s1 g where "sr_feed (fst fr) (snd fr) s0 = Inr (f, s1)" "feed_all frs s1 = Inr (g, s)"
      by (auto simp: py_bind_Inr)
    then show ?case using feed_hold[of "fst fr" "snd fr" s0 f s1] Cons.IH[of s1 g] Cons.prems(2) same_config_trans by blast
  qed (simp add: same_config_def)
  then show "feed_all frs (new_stream_repair hold key n) = Inr (out, s) \<Longrightarrow> ?thesis"
    by (fastforce simp: hold_ok_def hold_bound_def same_config_def new_stream_repair_def)
qed

end
