(* ===== verification/Grammar.thy ===== *)
theory Grammar
  imports Think_Stream "HOL-Library.List_Lexorder" "HOL-Library.Char_ord"
begin

section \<open>The grammar authority (grammar.py)\<close>

text \<open>
  Normalisation and validation of GBNF grammars before dispatch, the memo around them
  (\<^verbatim>\<open>Correction.process_grammar\<close>), and the two checks of a structured answer that read a grammar.
  A regular expression of the source is a scanner: in each of them neighbouring classes are
  disjoint, so greedy matching never has to back up. An error keeps the code and the values its
  message quotes, not the prose. \<^verbatim>\<open>int\<close> of more than 4300 digits raises \<^verbatim>\<open>ValueError\<close>, as in CPython.
  The JSON decoder is an argument where an answer is decoded: what is shown holds for every one.
\<close>

subsection \<open>Tokens\<close>

definition max_repetition_threshold :: nat where "max_repetition_threshold = 2000"

definition ascii_alpha :: "char \<Rightarrow> bool" where
  "ascii_alpha c = (let n = of_char c :: nat in 65 \<le> n \<and> n \<le> 90 \<or> 97 \<le> n \<and> n \<le> 122)"

definition ascii_digit :: "char \<Rightarrow> bool" where
  "ascii_digit c = (let n = of_char c :: nat in 48 \<le> n \<and> n \<le> 57)"

definition rule_name_char :: "char \<Rightarrow> bool" where
  "rule_name_char c \<longleftrightarrow> ascii_alpha c \<or> ascii_digit c \<or> c = CHR ''-''"

definition header_name_char :: "char \<Rightarrow> bool" where
  "header_name_char c \<longleftrightarrow> rule_name_char c \<or> c = CHR ''_''"

definition bslash :: char where "bslash = char_of (92 :: nat)"
definition dquote :: char where "dquote = char_of (34 :: nat)"
definition tab_char :: char where "tab_char = char_of (9 :: nat)"

datatype tok_kind = KName | KDefine | KString | KCharclass | KLparen | KRparen | KPipe | KOp | KRepeat | KNewline

record gtok =
  tk_kind :: tok_kind
  tk_text :: string
  tk_pos :: nat

definition gtok_of :: "tok_kind \<Rightarrow> string \<Rightarrow> nat \<Rightarrow> gtok" where
  "gtok_of k t p = \<lparr>tk_kind = k, tk_text = t, tk_pos = p\<rparr>"

text \<open>The loop that looks for the closing character of a literal: what it passes over, and the rest
  from the closing character on. A backslash takes the next character with it.\<close>

fun until_close :: "char \<Rightarrow> string \<Rightarrow> string \<times> string" where
  "until_close q [] = ([], [])"
| "until_close q [c] = (if c = q then ([], [c]) else ([c], []))"
| "until_close q (c # d # r) =
     (if c = bslash then (case until_close q r of (a, b) \<Rightarrow> (c # d # a, b))
      else if c = q then ([], c # d # r)
      else (case until_close q (d # r) of (a, b) \<Rightarrow> (c # a, b)))"

lemma until_close_append: "until_close q s = (a, b) \<Longrightarrow> s = a @ b"
  by (induction q s arbitrary: a b rule: until_close.induct) (auto split: if_splits prod.splits)

lemma until_close_rest_le: "length (snd (until_close q s)) \<le> length s"
  using until_close_append [of q s "fst (until_close q s)" "snd (until_close q s)"]
  by (metis add.commute le_add1 length_append prod.collapse)

lemma until_close_at: "until_close q s = (a, b) \<Longrightarrow> b = [] \<or> hd b = q"
  by (induction q s arbitrary: a b rule: until_close.induct) (auto split: if_splits prod.splits)

definition literal_text :: "char \<Rightarrow> char \<Rightarrow> string \<Rightarrow> string" where
  "literal_text opener q cs = (case until_close q cs of (a, b) \<Rightarrow> opener # a @ take 1 b)"

definition literal_rest :: "char \<Rightarrow> string \<Rightarrow> string" where
  "literal_rest q cs = drop 1 (snd (until_close q cs))"

lemma literal_rest_length [simp]: "length (literal_rest q cs) < Suc (length cs)"
  using until_close_rest_le [of q cs] by (simp add: literal_rest_def)

function tokenize_from :: "nat \<Rightarrow> string \<Rightarrow> gtok list" where
  "tokenize_from i [] = []"
| "tokenize_from i (c # cs) =
     (if c = CHR ''#'' then
        (let skipped = takeWhile (\<lambda>x. x \<noteq> lf) cs in
         tokenize_from (i + 1 + length skipped) (drop (length skipped) cs))
      else if c = lf then gtok_of KNewline [lf] i # tokenize_from (i + 1) cs
      else if c \<in> {CHR '' '', tab_char, cr} then tokenize_from (i + 1) cs
      else if c = dquote then
        (let t = literal_text c dquote cs in
         gtok_of KString t i # tokenize_from (i + length t) (literal_rest dquote cs))
      else if c = CHR ''['' then
        (let t = literal_text c (CHR '']'') cs in
         gtok_of KCharclass t i # tokenize_from (i + length t) (literal_rest (CHR '']'') cs))
      else if startswith (c # cs) ''::='' then
        gtok_of KDefine ''::='' i # tokenize_from (i + 3) (drop 2 cs)
      else if c = CHR ''('' then gtok_of KLparen [c] i # tokenize_from (i + 1) cs
      else if c = CHR '')'' then gtok_of KRparen [c] i # tokenize_from (i + 1) cs
      else if c = CHR ''|'' then gtok_of KPipe [c] i # tokenize_from (i + 1) cs
      else if c \<in> {CHR ''*'', CHR ''+'', CHR ''?''} then gtok_of KOp [c] i # tokenize_from (i + 1) cs
      else if c = CHR ''{'' then
        (case cut_at ''}'' cs of
           None \<Rightarrow> gtok_of KOp [c] i # tokenize_from (i + 1) cs
         | Some (a, b) \<Rightarrow> gtok_of KRepeat (c # a @ ''}'') i # tokenize_from (i + length a + 2)
             (drop (length a + 1) cs))
      else if ascii_alpha c then
        (let t = takeWhile rule_name_char cs in
         gtok_of KName (c # t) i # tokenize_from (i + 1 + length t) (drop (length t) cs))
      else tokenize_from (i + 1) cs)"
  by pat_completeness auto
termination
  by (relation "measure (length \<circ> snd)") auto

definition tokenize :: "string \<Rightarrow> gtok list" where
  "tokenize src = tokenize_from 0 src"

fun defined_in :: "gtok list \<Rightarrow> string list" where
  "defined_in (a # b # ts) =
     (if tk_kind b = KDefine \<and> tk_kind a = KName then tk_text a # defined_in (b # ts)
      else defined_in (b # ts))"
| "defined_in _ = []"

fun referenced_in :: "gtok list \<Rightarrow> string list" where
  "referenced_in [] = []"
| "referenced_in (t # ts) =
     (if tk_kind t = KName \<and> \<not> (ts \<noteq> [] \<and> tk_kind (hd ts) = KDefine) then tk_text t # referenced_in ts
      else referenced_in ts)"

definition defined_and_referenced :: "string \<Rightarrow> string list \<times> string list" where
  "defined_and_referenced src = (defined_in (tokenize src), referenced_in (tokenize src))"

definition charclass_spans :: "string \<Rightarrow> string list" where
  "charclass_spans src =
     map (\<lambda>t. butlast (drop 1 (tk_text t))) (filter (\<lambda>t. tk_kind t = KCharclass) (tokenize src))"

subsection \<open>Validation\<close>

datatype grammar_error =
    RepetitionOverThreshold string "string option" nat
  | BadRuleName string
  | UnknownEscape char
  | Unparseable string
  | NoRoot
  | UndefinedRule string

definition digits_value :: "string \<Rightarrow> nat" where
  "digits_value ds = foldl (\<lambda>n c. 10 * n + (of_char c - 48)) 0 ds"

definition py_int_of_digits :: "string \<Rightarrow> nat py" where
  "py_int_of_digits ds = (if length ds > 4300 then Inl ValueError else Inr (digits_value ds))"

text \<open>\<^verbatim>\<open>_REPETITION_RE\<close> at a position: the two groups and the rest of the text.\<close>

definition repetition_end :: "string option \<Rightarrow> string \<Rightarrow> (string option \<times> string) option" where
  "repetition_end hi s = (let r = dropWhile py_isspace s in
     if r = [] \<or> hd r \<noteq> CHR ''}'' then None else Some (hi, tl r))"

definition repetition_upper :: "string \<Rightarrow> (string option \<times> string) option" where
  "repetition_upper s = (if s \<noteq> [] \<and> hd s = CHR '','' then
     (let s3 = dropWhile py_isspace (tl s); hi = takeWhile ascii_digit s3 in
      repetition_end (if hi = [] then None else Some hi) (dropWhile ascii_digit s3))
     else repetition_end None s)"

definition repetition_at :: "string \<Rightarrow> (string \<times> string option \<times> string) option" where
  "repetition_at s = (if s = [] \<or> hd s \<noteq> CHR ''{'' then None else
     (let s1 = dropWhile py_isspace (tl s); lo = takeWhile ascii_digit s1 in
      if lo = [] then None
      else map_option (Pair lo) (repetition_upper (dropWhile py_isspace (dropWhile ascii_digit s1)))))"

text \<open>Reading on without passing an opening brace.\<close>

definition reads_past :: "string \<Rightarrow> string \<Rightarrow> bool" where
  "reads_past s r \<longleftrightarrow> (\<exists>q. s = q @ r \<and> CHR ''{'' \<notin> set q)"

lemma reads_past_trans: "reads_past a b \<Longrightarrow> reads_past b c \<Longrightarrow> reads_past a c"
  unfolding reads_past_def by (metis Un_iff append_assoc set_append)

lemma reads_past_dropWhile: "\<not> P (CHR ''{'') \<Longrightarrow> reads_past s (dropWhile P s)"
  unfolding reads_past_def by (metis set_takeWhileD takeWhile_dropWhile_id)

lemma reads_past_space: "reads_past s (dropWhile py_isspace s)"
  by (rule reads_past_dropWhile) (simp add: py_isspace_def)

lemma reads_past_digits: "reads_past s (dropWhile ascii_digit s)"
  by (rule reads_past_dropWhile) (simp add: ascii_digit_def)

lemma reads_past_tl: "s \<noteq> [] \<Longrightarrow> hd s \<noteq> CHR ''{'' \<Longrightarrow> reads_past s (tl s)"
  unfolding reads_past_def by (cases s) auto

lemma repetition_end_past: "repetition_end hi s = Some (h, r) \<Longrightarrow> reads_past s r"
proof -
  assume "repetition_end hi s = Some (h, r)"
  then have "dropWhile py_isspace s \<noteq> []" "hd (dropWhile py_isspace s) = CHR ''}''" "r = tl (dropWhile py_isspace s)"
    by (simp_all add: repetition_end_def Let_def split: if_splits)
  then have "reads_past (dropWhile py_isspace s) r" by (simp add: reads_past_tl)
  with reads_past_space show ?thesis by (rule reads_past_trans)
qed

lemma repetition_upper_past: "repetition_upper s = Some (h, r) \<Longrightarrow> reads_past s r"
proof (cases "s \<noteq> [] \<and> hd s = CHR '',''")
  case True
  assume "repetition_upper s = Some (h, r)"
  then have "reads_past (dropWhile ascii_digit (dropWhile py_isspace (tl s))) r"
    using True repetition_end_past by (auto simp: repetition_upper_def Let_def)
  then have "reads_past (tl s) r"
    using reads_past_trans reads_past_digits reads_past_space by meson
  moreover have "reads_past s (tl s)" using True by (intro reads_past_tl) auto
  ultimately show ?thesis using reads_past_trans by blast
qed (auto simp: repetition_upper_def dest: repetition_end_past)

lemma repetition_at_past:
  assumes "repetition_at s = Some (lo, hi, r)"
  shows "\<exists>q. s = CHR ''{'' # q \<and> reads_past q r"
proof -
  have s: "s = CHR ''{'' # tl s" using assms by (cases s) (auto simp: repetition_at_def split: if_splits)
  have "repetition_upper (dropWhile py_isspace (dropWhile ascii_digit (dropWhile py_isspace (tl s)))) = Some (hi, r)"
    using assms by (auto simp: repetition_at_def Let_def split: if_splits)
  then have "reads_past (tl s) r"
    using repetition_upper_past reads_past_trans reads_past_digits reads_past_space by meson
  with s show ?thesis by blast
qed

lemma repetition_at_rest: "repetition_at s = Some (lo, hi, r) \<Longrightarrow> length r < length s"
  by (auto dest!: repetition_at_past simp: reads_past_def)

text \<open>\<^verbatim>\<open>finditer\<close>: matches do not overlap.\<close>

function repetitions_in :: "string \<Rightarrow> (string \<times> string option) list" where
  "repetitions_in s = (case s of [] \<Rightarrow> [] | c # cs \<Rightarrow>
     (case repetition_at s of None \<Rightarrow> repetitions_in cs
      | Some (lo, hi, r) \<Rightarrow> (lo, hi) # repetitions_in r))"
  by pat_completeness auto
termination
  by (relation "measure length") (auto dest: repetition_at_rest)

declare repetitions_in.simps [simp del]

definition repetition_bound :: "string \<times> string option \<Rightarrow> nat py" where
  "repetition_bound m = (case m of (lo, hi) \<Rightarrow>
     py_bind (py_int_of_digits lo) (\<lambda>l.
     py_bind (case hi of None \<Rightarrow> Inr l | Some h \<Rightarrow> py_int_of_digits h) (\<lambda>h. Inr (max l h))))"

fun repetition_errors :: "(string \<times> string option) list \<Rightarrow> grammar_error list py" where
  "repetition_errors [] = Inr []"
| "repetition_errors (m # ms) =
     py_bind (repetition_bound m) (\<lambda>b. py_bind (repetition_errors ms) (\<lambda>es.
       Inr (if b \<ge> max_repetition_threshold then RepetitionOverThreshold (fst m) (snd m) b # es else es)))"

text \<open>A header at the beginning of a line: blanks, a name, blanks, \<^verbatim>\<open>::=\<close>.\<close>

definition line_blank :: "char \<Rightarrow> bool" where
  "line_blank c \<longleftrightarrow> c = CHR '' '' \<or> c = tab_char"

definition header_at :: "(char \<Rightarrow> bool) \<Rightarrow> (char \<Rightarrow> bool) \<Rightarrow> string \<Rightarrow> string option" where
  "header_at first tail_ok s = (let s1 = dropWhile line_blank s in
     if s1 = [] \<or> \<not> first (hd s1) then None
     else (let name = takeWhile tail_ok (tl s1); r = dropWhile line_blank (drop (length name) (tl s1)) in
           if startswith r ''::='' then Some (hd s1 # name) else None))"

fun headers_from :: "(char \<Rightarrow> bool) \<Rightarrow> (char \<Rightarrow> bool) \<Rightarrow> nat \<Rightarrow> bool \<Rightarrow> string \<Rightarrow> (nat \<times> string) list" where
  "headers_from first tail_ok i bol [] = []"
| "headers_from first tail_ok i bol (c # cs) =
     (case (if bol then header_at first tail_ok (c # cs) else None) of
        None \<Rightarrow> headers_from first tail_ok (i + 1) (c = lf) cs
      | Some n \<Rightarrow> (i, n) # headers_from first tail_ok (i + 1) (c = lf) cs)"

definition rule_headers :: "string \<Rightarrow> (nat \<times> string) list" where
  "rule_headers src = headers_from ascii_alpha rule_name_char 0 True src"

definition bad_name_errors :: "string \<Rightarrow> grammar_error list" where
  "bad_name_errors src = map BadRuleName (filter (\<lambda>n. CHR ''_'' \<in> set n)
     (map snd (headers_from header_name_char header_name_char 0 True src)))"

definition valid_class_escapes :: string where
  "valid_class_escapes = [bslash, CHR '']'', CHR ''['', dquote] @ ''nrt'' @ ''xuU''"

fun escape_errors :: "string \<Rightarrow> grammar_error list" where
  "escape_errors (c # d # r) =
     (if c = bslash then (if d \<in> set valid_class_escapes then [] else [UnknownEscape d]) @ escape_errors r
      else escape_errors (d # r))"
| "escape_errors _ = []"

definition validate :: "string \<Rightarrow> grammar_error list py" where
  "validate src = py_bind (repetition_errors (repetitions_in src)) (\<lambda>es.
     let es = es @ bad_name_errors src @ concat (map escape_errors (charclass_spans src)) in
     case defined_and_referenced src of (defined, referenced) \<Rightarrow>
     if defined = [] then Inr (es @ [Unparseable ''no rule definitions found''])
     else Inr (es @ (if ''root'' \<in> set defined then [] else [NoRoot]) @
            map UndefinedRule (sort (remdups (filter (\<lambda>n. n \<notin> set defined) referenced)))))"

subsection \<open>Normalisation\<close>

text \<open>\<^verbatim>\<open>inner.replace("\\-", "")\<close>.\<close>

fun drop_escaped_hyphens :: "string \<Rightarrow> string" where
  "drop_escaped_hyphens (c # d # r) =
     (if c = bslash \<and> d = CHR ''-'' then drop_escaped_hyphens r else c # drop_escaped_hyphens (d # r))"
| "drop_escaped_hyphens s = s"

fun has_escaped_hyphen :: "string \<Rightarrow> bool" where
  "has_escaped_hyphen (c # d # r) = (c = bslash \<and> d = CHR ''-'' \<or> has_escaped_hyphen (d # r))"
| "has_escaped_hyphen _ = False"

definition fix_class :: "string \<Rightarrow> string" where
  "fix_class inner = (if has_escaped_hyphen inner then
     (let s = drop_escaped_hyphens inner in
      if s \<noteq> [] \<and> last s = CHR ''-'' then s else s @ ''-'') else inner)"

function fix_charclass_hyphens :: "string \<Rightarrow> string" where
  "fix_charclass_hyphens [] = []"
| "fix_charclass_hyphens (c # cs) =
     (if c = dquote then literal_text c dquote cs @ fix_charclass_hyphens (literal_rest dquote cs)
      else if c = CHR ''#'' then
        (let t = takeWhile (\<lambda>x. x \<noteq> lf) cs in c # t @ fix_charclass_hyphens (drop (length t) cs))
      else if c = CHR ''['' then
        ''['' @ fix_class (fst (until_close (CHR '']'') cs)) @ '']'' @
        fix_charclass_hyphens (literal_rest (CHR '']'') cs)
      else c # fix_charclass_hyphens cs)"
  by pat_completeness auto
termination
  by (relation "measure length") auto

fun paren_group_from :: "int \<Rightarrow> string \<Rightarrow> bool" where
  "paren_group_from depth [] = (depth = 0)"
| "paren_group_from depth (c # cs) =
     (if c = CHR ''('' then paren_group_from (depth + 1) cs
      else if c = CHR '')'' then
        (if depth - 1 = 0 \<and> cs \<noteq> [] then False else paren_group_from (depth - 1) cs)
      else paren_group_from depth cs)"

definition is_single_paren_group :: "string \<Rightarrow> bool" where
  "is_single_paren_group body \<longleftrightarrow>
     body \<noteq> [] \<and> hd body = CHR ''('' \<and> last body = CHR '')'' \<and> paren_group_from 0 body"

definition py_rstrip :: "string \<Rightarrow> string" where
  "py_rstrip s = rev (dropWhile py_isspace (rev s))"

definition rewrite_block :: "string \<Rightarrow> string" where
  "rewrite_block block = (case cut_at ''::='' block of None \<Rightarrow> block | Some (a, rhs) \<Rightarrow>
     (let stripped = py_rstrip rhs; trailer = drop (length stripped) rhs; body = py_strip stripped in
      if lf \<in> set body \<and> \<not> is_single_paren_group body \<and> body \<noteq> []
      then a @ ''::='' @ '' ('' @ [lf] @ body @ [lf] @ '')'' @ trailer
      else block))"

fun header_blocks :: "string \<Rightarrow> nat list \<Rightarrow> string list" where
  "header_blocks src [] = []"
| "header_blocks src [h] = [drop h src]"
| "header_blocks src (h # k # hs) = take (k - h) (drop h src) # header_blocks src (k # hs)"

definition normalize_grammar :: "string \<Rightarrow> string" where
  "normalize_grammar src = (let src = fix_charclass_hyphens src; hs = map fst (rule_headers src) in
     if hs = [] then src
     else take (hd hs) src @ concat (map rewrite_block (header_blocks src hs)))"

record grammar_result =
  gr_ok :: bool
  gr_grammar :: string
  gr_errors :: "grammar_error list"
  gr_normalized :: bool

definition normalize_and_validate :: "string \<Rightarrow> grammar_result py" where
  "normalize_and_validate src =
     (if py_strip src = [] then Inr \<lparr>gr_ok = False, gr_grammar = src,
        gr_errors = [Unparseable ''empty grammar''], gr_normalized = False\<rparr>
      else (let normalized = normalize_grammar src in py_bind (validate normalized) (\<lambda>es.
        Inr \<lparr>gr_ok = (es = []), gr_grammar = (if es = [] then normalized else src), gr_errors = es,
             gr_normalized = (normalized \<noteq> src)\<rparr>)))"


subsection \<open>The gate a request passes\<close>

datatype grammar_place = TopLevel | InExtraBody

definition extract_grammar :: "payload \<Rightarrow> (string \<times> grammar_place) option" where
  "extract_grammar p = (case jget p ''grammar'' of
       JStr g \<Rightarrow> if py_strip g \<noteq> [] then Some (g, TopLevel) else
         (case jget p ''extra_body'' of JObj eb \<Rightarrow>
            (case jget eb ''grammar'' of JStr h \<Rightarrow> if py_strip h \<noteq> [] then Some (h, InExtraBody) else None
             | _ \<Rightarrow> None)
          | _ \<Rightarrow> None)
     | _ \<Rightarrow>
         (case jget p ''extra_body'' of JObj eb \<Rightarrow>
            (case jget eb ''grammar'' of JStr h \<Rightarrow> if py_strip h \<noteq> [] then Some (h, InExtraBody) else None
             | _ \<Rightarrow> None)
          | _ \<Rightarrow> None))"

definition write_grammar :: "grammar_place \<Rightarrow> string \<Rightarrow> payload \<Rightarrow> payload" where
  "write_grammar w g p = (case w of TopLevel \<Rightarrow> od_put ''grammar'' (JStr g) p
     | InExtraBody \<Rightarrow> (case jget p ''extra_body'' of
          JObj eb \<Rightarrow> od_put ''extra_body'' (JObj (od_put ''grammar'' (JStr g) eb)) p
        | _ \<Rightarrow> p))"

record grammar_memo =
  gm_cache :: "(string, grammar_result) odict"
  gm_alerted :: "string list"

text \<open>What the request becomes: its payload, or the errors it is refused with.\<close>

definition settle_grammar :: "grammar_result \<Rightarrow> grammar_place \<Rightarrow> payload \<Rightarrow> grammar_error list + payload" where
  "settle_grammar r w p = (if \<not> gr_ok r then Inl (gr_errors r)
     else Inr (if gr_normalized r then write_grammar w (gr_grammar r) p else p))"

definition alert_once :: "bool \<Rightarrow> string \<Rightarrow> grammar_result \<Rightarrow> grammar_memo \<Rightarrow> grammar_memo" where
  "alert_once no_store h r m = (if \<not> gr_ok r \<and> \<not> no_store \<and> h \<notin> set (gm_alerted m)
     then m\<lparr>gm_alerted := h # gm_alerted m\<rparr> else m)"

definition process_grammar ::
    "(string \<Rightarrow> string) \<Rightarrow> bool \<Rightarrow> payload \<Rightarrow> grammar_memo \<Rightarrow> ((grammar_error list + payload) \<times> grammar_memo) py" where
  "process_grammar sha no_store p m = (case extract_grammar p of None \<Rightarrow> Inr (Inr p, m)
     | Some (g, w) \<Rightarrow>
       (case (if no_store then None else od_get (gm_cache m) (sha g)) of
          Some r \<Rightarrow> Inr (settle_grammar r w p, alert_once no_store (sha g) r m)
        | None \<Rightarrow> py_bind (normalize_and_validate g) (\<lambda>r.
            let m = (if no_store then m else m\<lparr>gm_cache := od_put (sha g) r (gm_cache m)\<rparr>) in
            Inr (settle_grammar r w p, alert_once no_store (sha g) r m))))"

subsection \<open>Reading a structured answer against a grammar\<close>

definition key_char :: "char \<Rightarrow> bool" where
  "key_char c \<longleftrightarrow> ascii_alpha c \<or> ascii_digit c \<or> c = CHR ''_''"

text \<open>The literal of a JSON key in a rule: a backslash and a quote, a name, a backslash and a quote.\<close>

definition json_key_literal :: "string \<Rightarrow> string option" where
  "json_key_literal inner = (let q = [bslash, dquote]; k = takeWhile key_char (drop 2 inner) in
     if startswith inner q \<and> k \<noteq> [] \<and> startswith (drop (length k) (drop 2 inner)) q then Some k else None)"

fun root_block :: "string \<Rightarrow> (nat \<times> string) list \<Rightarrow> string option" where
  "root_block src [] = None"
| "root_block src ((s, n) # hs) = (if n = ''root''
     then Some (take ((case hs of [] \<Rightarrow> length src | (e, _) # _ \<Rightarrow> e) - s) (drop s src))
     else root_block src hs)"

definition root_object_keys :: "string \<Rightarrow> string list" where
  "root_object_keys src = (case root_block src (rule_headers src) of None \<Rightarrow> []
     | Some block \<Rightarrow> (let rhs = (case cut_at ''::='' block of None \<Rightarrow> block | Some (_, b) \<Rightarrow> b) in
         List.map_filter (\<lambda>t. if tk_kind t = KString then json_key_literal (butlast (drop 1 (tk_text t))) else None)
           (tokenize rhs)))"

datatype conformance = OkNonObjectRoot | OkObject | MarkdownFenced | ForbiddenField string | NotJson
  | NotObject | UnexpectedKeys "string list"

fun contains_text :: "string \<Rightarrow> string \<Rightarrow> bool" where
  "contains_text s t = (startswith t s \<or> (case t of [] \<Rightarrow> False | _ # r \<Rightarrow> contains_text s r))"

declare contains_text.simps [simp del]

definition forbidden_in :: "string option \<Rightarrow> (string \<Rightarrow> bool) \<Rightarrow> string option" where
  "forbidden_in forbid P = (case forbid of None \<Rightarrow> None
     | Some f \<Rightarrow> if f \<noteq> [] \<and> P f then Some f else None)"

definition verify_conformance ::
    "(string \<Rightarrow> json option) \<Rightarrow> string \<Rightarrow> string \<Rightarrow> string option \<Rightarrow> conformance" where
  "verify_conformance loads answer grammar forbid =
     (let s = py_strip answer; keys = root_object_keys grammar in
      if startswith s ''`'' then MarkdownFenced
      else if keys = [] then
        (case forbidden_in forbid (\<lambda>f. contains_text f s) of Some f \<Rightarrow> ForbiddenField f | None \<Rightarrow> OkNonObjectRoot)
      else (case loads s of None \<Rightarrow> NotJson
        | Some (JObj obj) \<Rightarrow>
            (case forbidden_in forbid (\<lambda>f. f \<in> fst ` set obj) of Some f \<Rightarrow> ForbiddenField f
             | None \<Rightarrow> (let extra = sort (remdups (filter (\<lambda>k. k \<notin> set keys) (map fst obj))) in
                 if extra \<noteq> [] then UnexpectedKeys extra else OkObject))
        | Some _ \<Rightarrow> NotObject))"

definition esc_json_raw :: "char \<Rightarrow> string" where
  "esc_json_raw c = (let n = of_char c :: nat in
     if n = 34 \<or> n = 92 \<or> n < 32 then esc_json c else [c])"

definition dumps_str_raw :: "string \<Rightarrow> string" where
  "dumps_str_raw s = [dquote] @ concat (map esc_json_raw s) @ [dquote]"

text \<open>\<^verbatim>\<open>json.dumps(obj, ensure_ascii=False)\<close>.\<close>

fun json_dumps_raw :: "json \<Rightarrow> string"
  and raw_items :: "json list \<Rightarrow> string list"
  and raw_pairs :: "(string \<times> json) list \<Rightarrow> string list" where
  "json_dumps_raw (JStr s) = dumps_str_raw s"
| "json_dumps_raw (JList xs) = ''['' @ join '', '' (raw_items xs) @ '']''"
| "json_dumps_raw (JObj kvs) = ''{'' @ join '', '' (raw_pairs kvs) @ ''}''"
| "json_dumps_raw v = json_dumps v"
| "raw_items [] = []"
| "raw_items (x # xs) = json_dumps_raw x # raw_items xs"
| "raw_pairs [] = []"
| "raw_pairs ((k, v) # kvs) = (dumps_str_raw k @ '': '' @ json_dumps_raw v) # raw_pairs kvs"

text \<open>The scan over the positions of \<^verbatim>\<open>{\<close>; the decoder sees the text from there on.\<close>

fun recover_scan :: "(string \<Rightarrow> json option) \<Rightarrow> string list \<Rightarrow> string \<Rightarrow> string option" where
  "recover_scan decode allowed [] = None"
| "recover_scan decode allowed (c # cs) =
     (if c = CHR ''{'' then
        (case decode (c # cs) of
           Some (JObj obj) \<Rightarrow> if obj \<noteq> [] \<and> set (map fst obj) \<subseteq> set allowed
              then Some (json_dumps_raw (JObj obj)) else recover_scan decode allowed cs
         | _ \<Rightarrow> recover_scan decode allowed cs)
      else recover_scan decode allowed cs)"

definition recover_structured_object ::
    "(string \<Rightarrow> json option) \<Rightarrow> string \<Rightarrow> string option \<Rightarrow> string list option \<Rightarrow> string option" where
  "recover_structured_object decode answer grammar allowed_keys =
     (let allowed = (case allowed_keys of Some ks \<Rightarrow> ks
          | None \<Rightarrow> (case grammar of Some g \<Rightarrow> root_object_keys g | None \<Rightarrow> [])) in
      if allowed = [] then None else recover_scan decode allowed answer)"


subsection \<open>A grammar that passes is one the backend can parse\<close>

text \<open>The rules the validator encodes, said of the text: a root, no dangling reference, no
  repetition bound at or over the threshold anywhere, no unknown class escape, no underscore in the
  name a rule is defined by.\<close>

definition bounds_below :: "nat \<Rightarrow> string \<Rightarrow> bool" where
  "bounds_below n g \<longleftrightarrow> (\<forall>a u lo hi r. g = a @ u \<longrightarrow> repetition_at u = Some (lo, hi, r) \<longrightarrow>
     digits_value lo < n \<and> (\<forall>h. hi = Some h \<longrightarrow> digits_value h < n))"

definition grammar_sound :: "string \<Rightarrow> bool" where
  "grammar_sound g \<longleftrightarrow> ''root'' \<in> set (fst (defined_and_referenced g)) \<and>
     set (snd (defined_and_referenced g)) \<subseteq> set (fst (defined_and_referenced g)) \<and>
     bounds_below max_repetition_threshold g \<and>
     (\<forall>cc \<in> set (charclass_spans g). escape_errors cc = []) \<and>
     (\<forall>h \<in> set (headers_from header_name_char header_name_char 0 True g). CHR ''_'' \<notin> set (snd h))"

lemma repetitions_in_complete:
  "repetition_at u = Some (lo, hi, r) \<Longrightarrow> s = a @ u \<Longrightarrow> (lo, hi) \<in> set (repetitions_in s)"
proof (induction s arbitrary: a rule: repetitions_in.induct)
  case (1 s)
  have "u \<noteq> []" using 1(3) by (auto simp: repetition_at_def)
  then have "s \<noteq> []" using 1(4) by simp
  then obtain c cs where s: "s = c # cs" by (cases s) auto
  show ?case
  proof (cases a)
    case Nil
    then show ?thesis using 1(3,4) s by (subst repetitions_in.simps) auto
  next
    case (Cons x a')
    then have cs: "cs = a' @ u" using 1(4) s by simp
    show ?thesis
    proof (cases "repetition_at s")
      case None
      then have "(lo, hi) \<in> set (repetitions_in cs)" using 1(1) [OF s] 1(3) cs by blast
      then show ?thesis using None s by (subst repetitions_in.simps) simp
    next
      case (Some m)
      obtain lo' hi' r' where m: "m = (lo', hi', r')" by (cases m)
      obtain q where "s = CHR ''{'' # q" "reads_past q r'"
        using repetition_at_past Some m by blast
      then obtain q' where q': "cs = q' @ r'" "CHR ''{'' \<notin> set q'" using s by (auto simp: reads_past_def)
      have "hd u = CHR ''{''" using 1(3) by (auto simp: repetition_at_def split: if_splits)
      then have "CHR ''{'' \<in> set u" using \<open>u \<noteq> []\<close> by (metis list.set_sel(1))
      then have "\<exists>a''. r' = a'' @ u"
        using cs q' \<open>hd u = CHR ''{''\<close> \<open>u \<noteq> []\<close>
        by (auto simp: append_eq_append_conv2) (metis Cons_eq_appendI hd_append2 list.exhaust_sel list.set_intros(1) self_append_conv2)+
      then have "(lo, hi) \<in> set (repetitions_in r')" using 1(2) [OF s _ m [symmetric]] Some m 1(3) by blast
      then show ?thesis using Some m s by (subst repetitions_in.simps) simp
    qed
  qed
qed

lemma repetition_errors_none:
  "repetition_errors ms = Inr [] \<Longrightarrow> (lo, hi) \<in> set ms \<Longrightarrow>
   digits_value lo < max_repetition_threshold \<and> (\<forall>h. hi = Some h \<longrightarrow> digits_value h < max_repetition_threshold)"
  by (induction ms)
    (auto simp: py_bind_Inr repetition_bound_def py_int_of_digits_def split: if_splits option.splits)

lemma sort_empty [simp]: "sort (xs :: string list) = [] \<longleftrightarrow> xs = []"
  by (metis length_0_conv length_sort)

lemma validate_sound:
  assumes "validate g = Inr []"
  shows "grammar_sound g"
proof -
  obtain es where es: "repetition_errors (repetitions_in g) = Inr es"
    using assms by (auto simp: validate_def py_bind_Inr)
  have parts: "es = []" "bad_name_errors g = []" "concat (map escape_errors (charclass_spans g)) = []"
    "''root'' \<in> set (fst (defined_and_referenced g))"
    "filter (\<lambda>n. n \<notin> set (fst (defined_and_referenced g))) (snd (defined_and_referenced g)) = []"
    using assms es by (simp_all add: validate_def Let_def split: prod.splits if_splits)
  have "bounds_below max_repetition_threshold g"
    unfolding bounds_below_def using repetition_errors_none [of "repetitions_in g"] repetitions_in_complete es parts(1)
    by blast
  with parts show ?thesis
    by (auto simp: grammar_sound_def bad_name_errors_def filter_empty_conv)
qed

lemma blank_tokens:
  "list_all py_isspace s \<Longrightarrow> t \<in> set (tokenize_from i s) \<Longrightarrow> tk_kind t = KNewline"
proof (induction s arbitrary: i)
  case (Cons c cs)
  have c: "py_isspace c" using Cons.prems by simp
  have "c \<noteq> CHR ''#''" "c \<noteq> dquote" "c \<noteq> CHR ''[''" "\<not> startswith (c # cs) ''::=''" "c \<noteq> CHR ''(''"
    "c \<noteq> CHR '')''" "c \<noteq> CHR ''|''" "c \<noteq> CHR ''*''" "c \<noteq> CHR ''+''" "c \<noteq> CHR ''?''" "c \<noteq> CHR ''{''"
    "\<not> ascii_alpha c"
    using c by (auto simp: py_isspace_def dquote_def startswith_def ascii_alpha_def Let_def)
  then have "set (tokenize_from i (c # cs)) \<subseteq> insert (gtok_of KNewline [lf] i) (set (tokenize_from (i + 1) cs))"
    by auto
  with Cons show ?case by (auto simp: gtok_of_def)
qed simp

lemma no_name_no_definition: "(\<And>t. t \<in> set ts \<Longrightarrow> tk_kind t \<noteq> KName) \<Longrightarrow> defined_in ts = []"
  by (induction ts rule: defined_in.induct) auto

lemma py_strip_empty: "py_strip s = [] \<longleftrightarrow> list_all py_isspace s"
  unfolding py_strip_def list_all_iff
  by (metis dropWhile_eq_Nil_conv dropWhile_idem rev_is_Nil_conv set_rev)

lemma sound_not_blank:
  assumes "grammar_sound g"
  shows "py_strip g \<noteq> []"
proof
  assume "py_strip g = []"
  then have "defined_in (tokenize g) = []"
    using blank_tokens by (intro no_name_no_definition) (fastforce simp: py_strip_empty tokenize_def)
  with assms show False by (simp add: grammar_sound_def defined_and_referenced_def)
qed

lemma accepted_sound:
  assumes "normalize_and_validate g = Inr r" "gr_ok r"
  shows "grammar_sound (gr_grammar r) \<and> (\<not> gr_normalized r \<longrightarrow> gr_grammar r = g)"
  using assms by (auto simp: normalize_and_validate_def Let_def py_bind_Inr validate_sound split: if_splits)

lemma extract_written:
  assumes "extract_grammar p = Some (g, w)" "py_strip h \<noteq> []"
  shows "extract_grammar (write_grammar w h p) = Some (h, w)"
proof (cases w)
  case TopLevel
  then show ?thesis using assms(2) by (simp add: write_grammar_def extract_grammar_def jget_put)
next
  case InExtraBody
  then obtain eb where "jget p ''extra_body'' = JObj eb"
    using assms(1) by (auto simp: extract_grammar_def split: json.splits if_splits)
  then show ?thesis using assms InExtraBody
    by (auto simp: write_grammar_def extract_grammar_def jget_put split: json.splits if_splits)
qed

definition memo_coherent :: "(string \<Rightarrow> string) \<Rightarrow> grammar_memo \<Rightarrow> bool" where
  "memo_coherent sha m \<longleftrightarrow> (\<forall>g r. od_get (gm_cache m) (sha g) = Some r \<longrightarrow> normalize_and_validate g = Inr r)"

lemma alert_once_cache [simp]: "gm_cache (alert_once ns h r m) = gm_cache m"
  by (simp add: alert_once_def)

lemma process_grammar_result:
  assumes "memo_coherent sha m" "extract_grammar p = Some (g, w)" "process_grammar sha ns p m = Inr (x, m')"
  shows "\<exists>r. normalize_and_validate g = Inr r \<and> x = settle_grammar r w p"
  using assms
  by (auto simp: process_grammar_def memo_coherent_def py_bind_Inr Let_def split: option.splits if_splits)

lemma process_grammar_coherent:
  assumes "memo_coherent sha m" "inj sha" "process_grammar sha ns p m = Inr (x, m')"
  shows "memo_coherent sha m'"
proof -
  have put: "memo_coherent sha (m\<lparr>gm_cache := od_put (sha g) r (gm_cache m)\<rparr>)"
    if "normalize_and_validate g = Inr r" for g r
    using assms(1,2) that by (auto simp: memo_coherent_def inj_eq split: if_splits)
  have alert: "memo_coherent sha (alert_once b h r k) = memo_coherent sha k" for b h r k
    by (simp add: memo_coherent_def)
  show ?thesis using assms(1,3) put
    by (auto simp: process_grammar_def py_bind_Inr Let_def alert split: option.splits if_splits prod.splits)
qed


text \<open>C22: a grammar-bearing request is dispatched only with a grammar the encoded rules of the backend's
  parser accept: it defines \<^verbatim>\<open>root\<close> and every rule it refers to, no repetition anywhere in it reaches
  the threshold, no class escape is unknown and no rule name has an underscore. This holds with the
  memo too, which stays coherent for the next request (the digest is taken to be collision free),
  and what is sent is what the memo-less check of the same request would send.
\<close>

theorem dispatched_grammar_sound:
  assumes "inj sha" "memo_coherent sha m"
    and "process_grammar sha no_store p m = Inr (Inr q, m')"
  shows "(case extract_grammar q of None \<Rightarrow> q = p | Some (g, w) \<Rightarrow> grammar_sound g) \<and>
    memo_coherent sha m' \<and>
    (\<exists>m''. process_grammar sha True p \<lparr>gm_cache = [], gm_alerted = []\<rparr> = Inr (Inr q, m''))"
proof (cases "extract_grammar p")
  case None
  then show ?thesis using assms by (auto simp: process_grammar_def)
next
  case (Some gw)
  obtain g w where gw: "extract_grammar p = Some (g, w)" using Some by (cases gw) auto
  obtain r where r: "normalize_and_validate g = Inr r" "Inr q = settle_grammar r w p"
    using process_grammar_result [OF assms(2) gw assms(3)] by blast
  then have ok: "gr_ok r" "q = (if gr_normalized r then write_grammar w (gr_grammar r) p else p)"
    by (auto simp: settle_grammar_def split: if_splits)
  note snd = accepted_sound [OF r(1) ok(1)]
  have "extract_grammar q = Some (gr_grammar r, w)"
    using ok(2) gw snd extract_written [OF gw] sound_not_blank by auto
  moreover have "\<exists>m''. process_grammar sha True p \<lparr>gm_cache = [], gm_alerted = []\<rparr> = Inr (Inr q, m'')"
    using gw r by (simp add: process_grammar_def Let_def)
  ultimately show ?thesis using snd process_grammar_coherent [OF assms(2,1,3)] by simp
qed

theorem dispatched_grammar_sound_witness:
  "process_grammar id False [(''grammar'', JStr ''root ::= item{1,5}'' ), (''x'', JNull)]
       \<lparr>gm_cache = [], gm_alerted = []\<rparr>
     = Inr (Inl [UndefinedRule ''item''], \<lparr>gm_cache = [(''root ::= item{1,5}'',
         \<lparr>gr_ok = False, gr_grammar = ''root ::= item{1,5}'', gr_errors = [UndefinedRule ''item''],
          gr_normalized = False\<rparr>)], gm_alerted = [''root ::= item{1,5}'']\<rparr>) \<and>
   grammar_sound ''root ::= [a]{1,5}''"
proof (rule conjI)
  show "process_grammar id False [(''grammar'', JStr ''root ::= item{1,5}'' ), (''x'', JNull)]
       \<lparr>gm_cache = [], gm_alerted = []\<rparr>
     = Inr (Inl [UndefinedRule ''item''], \<lparr>gm_cache = [(''root ::= item{1,5}'',
         \<lparr>gr_ok = False, gr_grammar = ''root ::= item{1,5}'', gr_errors = [UndefinedRule ''item''],
          gr_normalized = False\<rparr>)], gm_alerted = [''root ::= item{1,5}'']\<rparr>)"
    by code_simp
  let ?p = "[(''grammar'', JStr ''root ::= [a]{1,5}'')]"
  have run: "process_grammar id True ?p \<lparr>gm_cache = [], gm_alerted = []\<rparr>
      = Inr (Inr ?p, \<lparr>gm_cache = [], gm_alerted = []\<rparr>)" by code_simp
  have ext: "extract_grammar ?p = Some (''root ::= [a]{1,5}'', TopLevel)" by code_simp
  show "grammar_sound ''root ::= [a]{1,5}''"
    using dispatched_grammar_sound [OF inj_on_id _ run] ext by (simp add: memo_coherent_def)
qed

definition object_here :: "(string \<Rightarrow> json option) \<Rightarrow> string list \<Rightarrow> string \<Rightarrow> (string \<times> json) list \<Rightarrow> bool" where
  "object_here decode allowed u obj \<longleftrightarrow> u \<noteq> [] \<and> hd u = CHR ''{'' \<and> decode u = Some (JObj obj) \<and>
     obj \<noteq> [] \<and> fst ` set obj \<subseteq> set allowed"

definition first_object :: "(string \<Rightarrow> json option) \<Rightarrow> string list \<Rightarrow> string \<Rightarrow> (string \<times> json) list \<Rightarrow> bool" where
  "first_object decode allowed answer obj \<longleftrightarrow> (\<exists>a u. answer = a @ u \<and> object_here decode allowed u obj \<and>
     (\<forall>b v obj'. answer = b @ v \<longrightarrow> length b < length a \<longrightarrow> \<not> object_here decode allowed v obj'))"

lemma first_object_cons:
  assumes "\<And>obj. \<not> object_here decode allowed (c # cs) obj" "first_object decode allowed cs obj"
  shows "first_object decode allowed (c # cs) obj"
proof -
  obtain a u where au: "cs = a @ u" "object_here decode allowed u obj"
    "\<And>b v obj'. cs = b @ v \<Longrightarrow> length b < length a \<Longrightarrow> \<not> object_here decode allowed v obj'"
    using assms(2) by (auto simp: first_object_def)
  have "\<not> object_here decode allowed v obj'" if "c # cs = b @ v" "length b < length (c # a)" for b v obj'
    using that assms(1) au(3) by (cases b) auto
  then show ?thesis unfolding first_object_def using au(1,2) by (metis append_Cons)
qed

lemma recover_scan_exact:
  "case recover_scan decode allowed answer of
     None \<Rightarrow> \<forall>a u obj. answer = a @ u \<longrightarrow> \<not> object_here decode allowed u obj
   | Some s \<Rightarrow> \<exists>obj. s = json_dumps_raw (JObj obj) \<and> first_object decode allowed answer obj"
proof (induction answer)
  case Nil
  then show ?case by (simp add: object_here_def)
next
  case (Cons c cs)
  show ?case
  proof (cases "\<exists>obj. object_here decode allowed (c # cs) obj")
    case True
    then obtain obj where obj: "object_here decode allowed (c # cs) obj" by blast
    then have "recover_scan decode allowed (c # cs) = Some (json_dumps_raw (JObj obj))"
      by (auto simp: object_here_def)
    moreover have "first_object decode allowed (c # cs) obj"
      unfolding first_object_def using obj by (intro exI [of _ "[]"] exI [of _ "c # cs"]) simp
    ultimately show ?thesis by auto
  next
    case False
    then have "recover_scan decode allowed (c # cs) = recover_scan decode allowed cs"
      by (auto simp: object_here_def split: option.splits json.splits)
    moreover have "\<not> object_here decode allowed u obj" if "c # cs = a @ u"
        "\<forall>a u obj. cs = a @ u \<longrightarrow> \<not> object_here decode allowed u obj" for a u obj
      using that False by (cases a) auto
    ultimately show ?thesis using Cons False first_object_cons [of decode allowed c cs]
      by (auto split: option.splits)
  qed
qed

text \<open>Recovery of a structured object from a noisy answer never guesses and never misses: for every
  decoder it returns the text of the object that decodes at the first opening brace where a
  non-empty object with allowed keys decodes, and nothing exactly when there is no such brace.
\<close>

theorem recovery_exact:
  fixes decode :: "string \<Rightarrow> json option" and grammar :: "string option" and allowed_keys :: "string list option"
  defines "allowed \<equiv> (case allowed_keys of Some ks \<Rightarrow> ks
     | None \<Rightarrow> (case grammar of Some g \<Rightarrow> root_object_keys g | None \<Rightarrow> []))"
  shows "case recover_structured_object decode answer grammar allowed_keys of
     None \<Rightarrow> \<forall>a u obj. answer = a @ u \<longrightarrow> \<not> object_here decode allowed u obj
   | Some s \<Rightarrow> \<exists>obj. s = json_dumps_raw (JObj obj) \<and> first_object decode allowed answer obj"
proof (cases "allowed = []")
  case True
  then show ?thesis
    by (auto simp: recover_structured_object_def Let_def allowed_def [symmetric] object_here_def)
next
  case False
  then show ?thesis using recover_scan_exact [where decode = decode and allowed = allowed and answer = answer]
    by (simp add: recover_structured_object_def Let_def allowed_def [symmetric])
qed

theorem recovery_exact_witness:
  "first_object (\<lambda>u. if u = ''{a}'' then Some (JObj [(''a'', JInt 1)]) else None) [''a''] ''{{a}'' [(''a'', JInt 1)]"
  using recovery_exact [where decode = "\<lambda>u. if u = ''{a}'' then Some (JObj [(''a'', JInt 1)]) else None" and answer = "''{{a}''" and grammar = None and allowed_keys = "Some [''a'']"]
  by (auto simp: recover_structured_object_def first_object_def object_here_def split: if_splits)


subsection \<open>What normalisation does to a character class\<close>

text \<open>The members of an ordinary class. A single character or range bound is not a backslash, a
  hyphen, a bracket or a caret, and an escaped character is not a backslash or a hyphen.\<close>

datatype class_item = Single char | Span char char | Escaped char | EscapedHyphen

fun render_item :: "class_item \<Rightarrow> string" where
  "render_item (Single c) = [c]"
| "render_item (Span a b) = [a, CHR ''-'', b]"
| "render_item (Escaped c) = [bslash, c]"
| "render_item EscapedHyphen = [bslash, CHR ''-'']"

definition plain_char :: "char \<Rightarrow> bool" where
  "plain_char c \<longleftrightarrow> c \<noteq> bslash \<and> c \<noteq> CHR ''-'' \<and> c \<noteq> CHR '']'' \<and> c \<noteq> CHR ''^''"

fun plain_item :: "class_item \<Rightarrow> bool" where
  "plain_item (Single c) = plain_char c"
| "plain_item (Span a b) = (plain_char a \<and> plain_char b)"
| "plain_item (Escaped c) = (c \<noteq> bslash \<and> c \<noteq> CHR ''-'')"
| "plain_item EscapedHyphen = True"

definition render_class :: "bool \<Rightarrow> class_item list \<Rightarrow> string" where
  "render_class negated items = (if negated then ''^'' else []) @ concat (map render_item items)"

text \<open>The same members with one literal hyphen, at the end, for the escaped ones.\<close>

definition hyphen_last :: "class_item list \<Rightarrow> class_item list" where
  "hyphen_last items = (if EscapedHyphen \<in> set items
     then filter (\<lambda>i. i \<noteq> EscapedHyphen) items @ [Single (CHR ''-'')] else items)"

lemma until_close_plain: "c \<noteq> bslash \<Longrightarrow> c \<noteq> q \<Longrightarrow>
  until_close q (c # s) = (c # fst (until_close q s), snd (until_close q s))"
  by (cases s) (simp_all add: split_beta)

lemma until_close_pair: "until_close q (bslash # d # s) = (bslash # d # fst (until_close q s), snd (until_close q s))"
  by (simp add: split_beta)

lemma drop_hyphens_plain: "c \<noteq> bslash \<Longrightarrow> drop_escaped_hyphens (c # s) = c # drop_escaped_hyphens s"
  by (cases s) simp_all

lemma has_hyphen_plain: "c \<noteq> bslash \<Longrightarrow> has_escaped_hyphen (c # s) = has_escaped_hyphen s"
  by (cases s) simp_all

lemma bslash_neq [simp]: "bslash \<noteq> CHR ''-''" "CHR ''-'' \<noteq> bslash" "bslash \<noteq> CHR '']''"
  "CHR '']'' \<noteq> bslash" "CHR ''^'' \<noteq> bslash" "CHR ''['' \<noteq> dquote"
  by code_simp+

lemmas class_scan = until_close_plain until_close_pair drop_hyphens_plain has_hyphen_plain plain_char_def

lemma class_items_scanned:
  assumes "list_all plain_item items"
  shows "until_close (CHR '']'') (concat (map render_item items) @ '']'' @ s)
       = (concat (map render_item items), '']'' @ s)"
    and "drop_escaped_hyphens (concat (map render_item items))
       = concat (map render_item (filter (\<lambda>i. i \<noteq> EscapedHyphen) items))"
    and "has_escaped_hyphen (concat (map render_item items)) \<longleftrightarrow> EscapedHyphen \<in> set items"
proof -
  show "until_close (CHR '']'') (concat (map render_item items) @ '']'' @ s)
       = (concat (map render_item items), '']'' @ s)"
    using assms
  proof (induction items)
    case Nil
    then show ?case by (cases s) simp_all
  next
    case (Cons i items)
    then show ?case by (cases i) (simp_all add: class_scan)
  qed
  show "drop_escaped_hyphens (concat (map render_item items))
       = concat (map render_item (filter (\<lambda>i. i \<noteq> EscapedHyphen) items))"
    using assms
  proof (induction items)
    case (Cons i items)
    then show ?case by (cases i) (simp_all add: class_scan)
  qed simp
  show "has_escaped_hyphen (concat (map render_item items)) \<longleftrightarrow> EscapedHyphen \<in> set items"
    using assms
  proof (induction items)
    case (Cons i items)
    then show ?case by (cases i) (simp_all add: class_scan)
  qed simp
qed

lemma render_not_hyphen_last:
  assumes "list_all plain_item items" "EscapedHyphen \<notin> set items" "items \<noteq> []"
  shows "last (concat (map render_item items)) \<noteq> CHR ''-''"
  using assms
proof (induction items rule: rev_induct)
  case (snoc i items)
  then show ?case by (cases i) (auto simp: plain_char_def)
qed simp

lemma fix_class_plain:
  assumes "list_all plain_item items"
  shows "fix_class (render_class negated items) = render_class negated (hyphen_last items)"
proof -
  let ?neg = "if negated then ''^'' else []"
  let ?kept = "filter (\<lambda>i. i \<noteq> EscapedHyphen) items"
  have has: "has_escaped_hyphen (render_class negated items) \<longleftrightarrow> EscapedHyphen \<in> set items"
    using class_items_scanned(3) [OF assms] by (simp add: render_class_def has_hyphen_plain)
  have drp: "drop_escaped_hyphens (render_class negated items) = render_class negated ?kept"
    using class_items_scanned(2) [OF assms] by (simp add: render_class_def drop_hyphens_plain)
  have "list_all plain_item ?kept" "EscapedHyphen \<notin> set ?kept" using assms by (auto simp: list_all_iff)
  then have last: "last (render_class negated ?kept) \<noteq> CHR ''-''" if "render_class negated ?kept \<noteq> []"
    using that render_not_hyphen_last [of ?kept]
    by (cases "?kept = []") (auto simp: render_class_def last_append concat_eq_Nil_conv split: if_splits)
  have "fix_class (render_class negated items) = render_class negated ?kept @ ''-''"
    if "EscapedHyphen \<in> set items"
    using that has drp last by (auto simp: fix_class_def Let_def)
  moreover have "fix_class (render_class negated items) = render_class negated items"
    if "EscapedHyphen \<notin> set items" using that has by (simp add: fix_class_def)
  ultimately show ?thesis by (auto simp: hyphen_last_def render_class_def)
qed

text \<open>The fix rewrites an ordinary class member by member: the escaped hyphens become one literal
  hyphen before the bracket, everything else of the class and the rest of the grammar stays.\<close>

lemma hyphen_fix_keeps_members:
  assumes "list_all plain_item items"
  shows "fix_charclass_hyphens (''['' @ render_class negated items @ '']'' @ s)
     = ''['' @ render_class negated (hyphen_last items) @ '']'' @ fix_charclass_hyphens s"
proof -
  have "until_close (CHR '']'') (render_class negated items @ '']'' @ s) = (render_class negated items, '']'' @ s)"
    using class_items_scanned(1) [OF assms, of s]
    by (simp add: render_class_def until_close_plain)
  then show ?thesis using fix_class_plain [OF assms]
    by (simp add: literal_rest_def)
qed

text \<open>An escaped backslash before a hyphen is not ordinary: the range from the backslash to \<^verbatim>\<open>n\<close> comes
  out as the class of a newline and a hyphen, and passes validation.\<close>

lemma escaped_backslash_changes_class:
  "normalize_and_validate (''root ::= ['' @ [bslash, bslash] @ ''-n]'')
     = Inr \<lparr>gr_ok = True, gr_grammar = ''root ::= ['' @ [bslash] @ ''n-]'', gr_errors = [], gr_normalized = True\<rparr>"
  by code_simp

text \<open>A parenthesis inside a literal is counted: this body is two groups in sequence over two lines
  and is taken for one group, so it is not wrapped.\<close>

lemma literal_parenthesis_counted:
  "is_single_paren_group (''('' @ [dquote] @ ''('' @ [dquote] @ '')'' @ [lf] @ ''('' @ [dquote] @ '')'' @ [dquote] @ '')'')"
  by code_simp

text \<open>Neither an unterminated literal nor an unbalanced group is an error.\<close>

lemma broken_grammars_pass:
  "normalize_and_validate (''root ::= ('' @ [dquote] @ ''a'' @ [dquote])
     = Inr \<lparr>gr_ok = True, gr_grammar = ''root ::= ('' @ [dquote] @ ''a'' @ [dquote], gr_errors = [], gr_normalized = False\<rparr>"
  "normalize_and_validate (''root ::= '' @ [dquote] @ ''a'')
     = Inr \<lparr>gr_ok = True, gr_grammar = ''root ::= '' @ [dquote] @ ''a'', gr_errors = [], gr_normalized = False\<rparr>"
  by code_simp+

end
