(* ===== verification/Json_Scan.thy ===== *)
theory Json_Scan
  imports Json
begin

section \<open>Where a JSON value ends\<close>

text \<open>
  What the code uses of \<^verbatim>\<open>json.JSONDecoder.raw_decode\<close>: whether a text begins with a complete value,
  and where it ends. The scanner follows CPython's: no blank is skipped before the value, strings
  are strict (no control characters), \<^verbatim>\<open>NaN\<close> and the infinities are values, and an integer literal of
  more than 4300 digits is refused. The interpreter's recursion limit is not modelled. The fuel of
  \<open>jscan\<close> counts nested calls; twice the length of the text and one is always enough
  (\<open>jscan_fuel\<close>), and \<open>raw_decode_end\<close> supplies it.
\<close>

definition json_ws :: "char \<Rightarrow> bool" where
  "json_ws c \<longleftrightarrow> (of_char c :: nat) \<in> {32, 9, 10, 13}"

definition skip_ws :: "string \<Rightarrow> string" where
  "skip_ws s = dropWhile json_ws s"

definition json_digit :: "char \<Rightarrow> bool" where
  "json_digit c = (let n = of_char c :: nat in 48 \<le> n \<and> n \<le> 57)"

definition hex_digit :: "char \<Rightarrow> bool" where
  "hex_digit c = (let n = of_char c :: nat in 48 \<le> n \<and> n \<le> 57 \<or> 65 \<le> n \<and> n \<le> 70 \<or> 97 \<le> n \<and> n \<le> 102)"

definition eat :: "string \<Rightarrow> string \<Rightarrow> string option" where
  "eat p s = (if take (length p) s = p then Some (drop (length p) s) else None)"

lemma eat_append: "eat p s = Some r \<longleftrightarrow> s = p @ r"
  by (auto simp: eat_def) (metis append_take_drop_id)

text \<open>What follows a backslash in a string, and a string after its opening quote.\<close>

definition simple_escape :: "char \<Rightarrow> bool" where
  "simple_escape c \<longleftrightarrow> of_char c \<in> {34 :: nat, 92, 47} \<or> c \<in> set ''bfnrt''"

definition after_escape :: "string \<Rightarrow> string option" where
  "after_escape s = (if s = [] then None
     else if simple_escape (hd s) then Some (tl s)
     else if hd s = CHR ''u'' \<and> length s \<ge> 5 \<and> list_all hex_digit (take 4 (tl s)) then Some (drop 5 s)
     else None)"

lemma after_escape_length: "after_escape s = Some r \<Longrightarrow> length r < length s"
  by (auto simp: after_escape_def split: if_splits)

function scan_string :: "string \<Rightarrow> string option" where
  "scan_string [] = None"
| "scan_string (c # s) = (let n = of_char c :: nat in
     if n = 34 then Some s
     else if n < 32 then None
     else if n = 92 then (case after_escape s of None \<Rightarrow> None | Some t \<Rightarrow> scan_string t)
     else scan_string s)"
  by pat_completeness auto
termination
  by (relation "measure length") (auto dest: after_escape_length)

text \<open>An optional part of a number: a prefix that must be followed by a digit, and all digits.\<close>

definition scan_frac :: "string \<Rightarrow> string" where
  "scan_frac s = (if s \<noteq> [] \<and> hd s = CHR ''.'' \<and> tl s \<noteq> [] \<and> json_digit (hd (tl s))
     then dropWhile json_digit (tl s) else s)"

definition scan_exp :: "string \<Rightarrow> string" where
  "scan_exp s = (if s \<noteq> [] \<and> hd s \<in> set ''eE'' then
     (let t = tl s; u = (if t \<noteq> [] \<and> hd t \<in> set ''+-'' then tl t else t) in
      if u \<noteq> [] \<and> json_digit (hd u) then dropWhile json_digit u else s) else s)"

definition scan_number :: "string \<Rightarrow> string option" where
  "scan_number s = (let t = (if s \<noteq> [] \<and> hd s = CHR ''-'' then tl s else s) in
     if t = [] \<or> \<not> json_digit (hd t) then None
     else (let u = (if hd t = CHR ''0'' then tl t else dropWhile json_digit t); r = scan_exp (scan_frac u) in
       if r = u \<and> length t - length u > 4300 then None else Some r))"

datatype jmode = JValue | JMembers | JElements

fun jscan :: "nat \<Rightarrow> jmode \<Rightarrow> string \<Rightarrow> string option" where
  "jscan 0 m s = None"
| "jscan (Suc n) JValue s = (case s of [] \<Rightarrow> None | c # t \<Rightarrow>
     if of_char c = (34 :: nat) then scan_string t
     else if c = CHR ''{'' then (case eat ''}'' (skip_ws t) of Some r \<Rightarrow> Some r | None \<Rightarrow> jscan n JMembers (skip_ws t))
     else if c = CHR ''['' then (case eat '']'' (skip_ws t) of Some r \<Rightarrow> Some r | None \<Rightarrow> jscan n JElements (skip_ws t))
     else (case eat ''null'' s of Some r \<Rightarrow> Some r | None \<Rightarrow>
       (case eat ''true'' s of Some r \<Rightarrow> Some r | None \<Rightarrow>
       (case eat ''false'' s of Some r \<Rightarrow> Some r | None \<Rightarrow>
       (case scan_number s of Some r \<Rightarrow> Some r | None \<Rightarrow>
       (case eat ''NaN'' s of Some r \<Rightarrow> Some r | None \<Rightarrow>
       (case eat ''Infinity'' s of Some r \<Rightarrow> Some r | None \<Rightarrow> eat ''-Infinity'' s)))))))"
| "jscan (Suc n) JMembers s = (case s of [] \<Rightarrow> None | c # t \<Rightarrow>
     if of_char c \<noteq> (34 :: nat) then None
     else Option.bind (scan_string t) (\<lambda>u. Option.bind (eat '':'' (skip_ws u)) (\<lambda>v.
       Option.bind (jscan n JValue (skip_ws v)) (\<lambda>w. case eat ''}'' (skip_ws w) of Some r \<Rightarrow> Some r
         | None \<Rightarrow> Option.bind (eat '','' (skip_ws w)) (\<lambda>x. jscan n JMembers (skip_ws x))))))"
| "jscan (Suc n) JElements s =
     Option.bind (jscan n JValue s) (\<lambda>w. case eat '']'' (skip_ws w) of Some r \<Rightarrow> Some r
       | None \<Rightarrow> Option.bind (eat '','' (skip_ws w)) (\<lambda>x. jscan n JElements (skip_ws x)))"

definition raw_decode_end :: "string \<Rightarrow> string option" where
  "raw_decode_end s = jscan (2 * length s + 1) JValue s"

subsection \<open>The scanner reads on\<close>

lemma eat_length: "eat p s = Some r \<Longrightarrow> length s = length p + length r"
  by (simp add: eat_append)

lemma skip_ws_le: "length (skip_ws s) \<le> length s"
  by (simp add: skip_ws_def length_dropWhile_le)

lemma scan_string_length: "scan_string s = Some r \<Longrightarrow> length r < length s"
proof (induction s arbitrary: r rule: scan_string.induct)
  case (2 c s)
  consider "of_char c = (34 :: nat)" | t where "of_char c = (92 :: nat)" "after_escape s = Some t" "scan_string t = Some r"
    | "of_char c \<noteq> (34 :: nat)" "\<not> of_char c < (32 :: nat)" "of_char c \<noteq> (92 :: nat)" "scan_string s = Some r"
    using 2(3) by (auto simp: Let_def split: if_splits option.splits)
  then show ?case
  proof cases
    case 1
    then show ?thesis using 2(3) by simp
  next
    case 2
    then show ?thesis using "2.IH"(1) [of "of_char c" t r] after_escape_length [of s t] by simp
  next
    case 3
    then show ?thesis using "2.IH"(2) [of "of_char c" r] by simp
  qed
qed simp

lemma scan_frac_le: "length (scan_frac s) \<le> length s"
  using length_dropWhile_le [of json_digit "tl s"] by (cases s) (auto simp: scan_frac_def)

lemma scan_exp_le: "length (scan_exp s) \<le> length s"
proof -
  define t where "t = tl s"
  define u where "u = (if t \<noteq> [] \<and> hd t \<in> set ''+-'' then tl t else t)"
  have "length u \<le> length s" by (simp add: u_def t_def)
  moreover have "length (dropWhile json_digit u) \<le> length u" by (rule length_dropWhile_le)
  ultimately show ?thesis unfolding scan_exp_def Let_def t_def [symmetric] u_def [symmetric] by auto
qed

lemma scan_number_length:
  assumes "scan_number s = Some r"
  shows "length r < length s"
proof -
  define t where "t = (if s \<noteq> [] \<and> hd s = CHR ''-'' then tl s else s)"
  define u where "u = (if hd t = CHR ''0'' then tl t else dropWhile json_digit t)"
  have t: "t \<noteq> []" "json_digit (hd t)" and r: "r = scan_exp (scan_frac u)"
    using assms by (auto simp: scan_number_def Let_def t_def [symmetric] u_def [symmetric] split: if_splits)
  have "length u < length t" using t length_dropWhile_le [of json_digit "tl t"]
    by (cases t) (auto simp: u_def less_Suc_eq_le)
  moreover have "length t \<le> length s" by (simp add: t_def)
  moreover have "length r \<le> length u" unfolding r using scan_exp_le scan_frac_le order_trans by blast
  ultimately show ?thesis by simp
qed


text \<open>The scalar literals, as one function.\<close>

definition scan_literal :: "string \<Rightarrow> string option" where
  "scan_literal s = (case eat ''null'' s of Some r \<Rightarrow> Some r | None \<Rightarrow>
       (case eat ''true'' s of Some r \<Rightarrow> Some r | None \<Rightarrow>
       (case eat ''false'' s of Some r \<Rightarrow> Some r | None \<Rightarrow>
       (case scan_number s of Some r \<Rightarrow> Some r | None \<Rightarrow>
       (case eat ''NaN'' s of Some r \<Rightarrow> Some r | None \<Rightarrow>
       (case eat ''Infinity'' s of Some r \<Rightarrow> Some r | None \<Rightarrow> eat ''-Infinity'' s))))))"

lemma scan_literal_length: "scan_literal s = Some r \<Longrightarrow> length r < length s"
  by (auto simp: scan_literal_def dest!: eat_length scan_number_length split: option.splits)

text \<open>What follows a value inside a list of members or elements.\<close>

definition after_item :: "string \<Rightarrow> (string \<Rightarrow> string option) \<Rightarrow> string \<Rightarrow> string option" where
  "after_item close next_item w = (case eat close (skip_ws w) of Some r \<Rightarrow> Some r
     | None \<Rightarrow> Option.bind (eat '','' (skip_ws w)) (\<lambda>x. next_item (skip_ws x)))"

lemma jscan_value:
  "jscan (Suc n) JValue [] = None"
  "jscan (Suc n) JValue (c # t) =
     (if of_char c = (34 :: nat) then scan_string t
      else if c = CHR ''{'' then (case eat ''}'' (skip_ws t) of Some r \<Rightarrow> Some r | None \<Rightarrow> jscan n JMembers (skip_ws t))
      else if c = CHR ''['' then (case eat '']'' (skip_ws t) of Some r \<Rightarrow> Some r | None \<Rightarrow> jscan n JElements (skip_ws t))
      else scan_literal (c # t))"
  by (simp_all add: scan_literal_def)

lemma jscan_members:
  "jscan (Suc n) JMembers [] = None"
  "jscan (Suc n) JMembers (c # t) = (if of_char c \<noteq> (34 :: nat) then None
     else Option.bind (scan_string t) (\<lambda>u. Option.bind (eat '':'' (skip_ws u)) (\<lambda>v.
       Option.bind (jscan n JValue (skip_ws v)) (after_item ''}'' (jscan n JMembers)))))"
  by (simp_all add: after_item_def [abs_def])

lemma jscan_elements:
  "jscan (Suc n) JElements s = Option.bind (jscan n JValue s) (after_item '']'' (jscan n JElements))"
  by (simp add: after_item_def [abs_def])

declare jscan.simps(2,3,4) [simp del]

lemmas jscan_steps = jscan_value jscan_members jscan_elements

lemma after_item_length:
  assumes "after_item close f w = Some r" "\<And>x. f x = Some r \<Longrightarrow> length r < length x"
  shows "length r \<le> length w"
proof (cases "eat close (skip_ws w)")
  case (Some q)
  then show ?thesis using assms(1) skip_ws_le [of w] eat_length [OF Some] by (simp add: after_item_def)
next
  case None
  then obtain x where x: "eat '','' (skip_ws w) = Some x" "f (skip_ws x) = Some r"
    using assms(1) by (auto simp: after_item_def bind_eq_Some_conv)
  then show ?thesis using assms(2) [OF x(2)] skip_ws_le [of w] skip_ws_le [of x] eat_length [OF x(1)] by simp
qed

lemma jscan_length: "jscan n m s = Some r \<Longrightarrow> length r < length s"
proof (induction n arbitrary: m s r)
  case (Suc n)
  note ws = skip_ws_le
  show ?case
  proof (cases m)
    case JValue
    then obtain c t where s: "s = c # t" using Suc.prems by (cases s) (auto simp: jscan_steps)
    consider "scan_string t = Some r" | p where "eat p (skip_ws t) = Some r"
      | m' where "jscan n m' (skip_ws t) = Some r" | "scan_literal s = Some r"
      using Suc.prems JValue s by (auto simp: jscan_steps split: if_splits option.splits)
    then show ?thesis
      using Suc.IH ws [of t] s
      by cases (fastforce dest: scan_string_length eat_length scan_literal_length)+
  next
    case JMembers
    then obtain c t where s: "s = c # t" using Suc.prems by (cases s) (auto simp: jscan_steps)
    then obtain u v w where uvw: "scan_string t = Some u" "eat '':'' (skip_ws u) = Some v"
      "jscan n JValue (skip_ws v) = Some w" "after_item ''}'' (jscan n JMembers) w = Some r"
      using Suc.prems JMembers by (auto simp: jscan_steps bind_eq_Some_conv split: if_splits)
    have "length r \<le> length w" using after_item_length [OF uvw(4)] Suc.IH by blast
    then show ?thesis using Suc.IH [OF uvw(3)] scan_string_length [OF uvw(1)] eat_length [OF uvw(2)]
      ws [of u] ws [of v] s by simp
  next
    case JElements
    then obtain w where w: "jscan n JValue s = Some w" "after_item '']'' (jscan n JElements) w = Some r"
      using Suc.prems by (auto simp: jscan_steps bind_eq_Some_conv)
    have "length r \<le> length w" using after_item_length [OF w(2)] Suc.IH by blast
    then show ?thesis using Suc.IH [OF w(1)] by simp
  qed
qed simp

text \<open>Enough fuel: any amount over the length of the text gives the same answer.\<close>

lemma after_item_cong:
  "(\<And>x. length x < length w \<Longrightarrow> f x = g x) \<Longrightarrow> after_item close f w = after_item close g w"
proof -
  assume fg: "\<And>x. length x < length w \<Longrightarrow> f x = g x"
  have "f (skip_ws x) = g (skip_ws x)" if "eat '','' (skip_ws w) = Some x" for x
    using fg [of "skip_ws x"] eat_length [OF that] skip_ws_le [of w] skip_ws_le [of x] by simp
  then show ?thesis by (auto simp: after_item_def split: option.splits bind_splits)
qed

definition fuel_need :: "jmode \<Rightarrow> string \<Rightarrow> nat" where
  "fuel_need m s = 2 * length s + (if m = JElements then 2 else 1)"

lemma fuel_need_less: "length x < length s \<Longrightarrow> fuel_need m' x \<le> fuel_need m s - 1"
  by (simp add: fuel_need_def)

lemma jscan_fuel: "fuel_need m s \<le> n \<Longrightarrow> fuel_need m s \<le> k \<Longrightarrow> jscan n m s = jscan k m s"
proof (induction "fuel_need m s" arbitrary: n k m s rule: less_induct)
  case less
  have "0 < fuel_need m s" by (simp add: fuel_need_def)
  then obtain n' k' where nk: "n = Suc n'" "k = Suc k'" using less.prems by (metis gr0_implies_Suc less_le_trans)
  have IH: "jscan n' m' x = jscan k' m' x" if "fuel_need m' x \<le> fuel_need m s - 1" for m' x
    using less.hyps [of m' x n' k'] less.prems that nk \<open>0 < fuel_need m s\<close> by simp
  note IHl = IH [OF fuel_need_less]
  show ?case
  proof (cases m)
    case JValue
    have "length (skip_ws t) < Suc (length t)" for t using skip_ws_le [of t] by simp
    then show ?thesis unfolding nk JValue using IHl by (cases s) (auto simp: jscan_steps split: option.splits)
  next
    case JMembers
    show ?thesis
    proof (cases s)
      case (Cons c t)
      have inner: "jscan n' JValue (skip_ws v) = jscan k' JValue (skip_ws v)"
        and rest: "jscan k' JValue (skip_ws v) = Some w \<Longrightarrow>
          after_item ''}'' (jscan n' JMembers) w = after_item ''}'' (jscan k' JMembers) w"
        if "scan_string t = Some u" "eat '':'' (skip_ws u) = Some v" for u v w
      proof -
        have len: "length (skip_ws v) < length s"
          using scan_string_length [OF that(1)] eat_length [OF that(2)] skip_ws_le [of u] skip_ws_le [of v] Cons by simp
        then show "jscan n' JValue (skip_ws v) = jscan k' JValue (skip_ws v)" by (rule IHl)
        assume "jscan k' JValue (skip_ws v) = Some w"
        then have "length w < length s" using jscan_length len by fastforce
        then show "after_item ''}'' (jscan n' JMembers) w = after_item ''}'' (jscan k' JMembers) w"
          by (intro after_item_cong IHl) simp
      qed
      show ?thesis unfolding nk JMembers Cons
        using inner rest by (auto simp: jscan_steps intro!: Option.bind_cong)
    qed (simp add: nk JMembers jscan_steps)
  next
    case JElements
    have "jscan n' JValue s = jscan k' JValue s" by (rule IH) (simp add: JElements fuel_need_def)
    moreover have "after_item '']'' (jscan n' JElements) w = after_item '']'' (jscan k' JElements) w"
      if "jscan k' JValue s = Some w" for w
      using jscan_length [OF that] by (intro after_item_cong IHl) simp
    ultimately show ?thesis unfolding nk JElements jscan_steps by (auto intro!: Option.bind_cong)
  qed
qed

subsection \<open>The value alone\<close>

text \<open>Cutting \<open>k\<close> characters off the end of a text. A scan that leaves at least \<open>k\<close> characters unread
  goes the same way on the shorter text.\<close>

definition short :: "nat \<Rightarrow> string \<Rightarrow> string" where
  "short k s = take (length s - k) s"

lemma short_simps [simp]: "length (short k s) = length s - k" "short k [] = []" "short (length s) s = []"
  by (simp_all add: short_def)

lemma short_Cons: "k \<le> length s \<Longrightarrow> short k (c # s) = c # short k s"
  by (simp add: short_def Suc_diff_le)

lemma short_append: "k \<le> length s \<Longrightarrow> short k (p @ s) = p @ short k s"
  by (simp add: short_def)

lemma short_tl: "k < length s \<Longrightarrow> tl (short k s) = short k (tl s) \<and> short k s \<noteq> [] \<and> hd (short k s) = hd s"
  by (cases s) (auto simp: short_Cons)

lemma short_dropWhile: "k \<le> length (dropWhile P s) \<Longrightarrow> dropWhile P (short k s) = short k (dropWhile P s)"
proof (induction s)
  case (Cons c s)
  have "length (dropWhile P s) \<le> length s" by (rule length_dropWhile_le)
  show ?case
  proof (cases "P c")
    case True
    then have "k \<le> length s" using Cons.prems \<open>length (dropWhile P s) \<le> length s\<close> by simp
    then show ?thesis using Cons True by (simp add: short_Cons)
  next
    case False
    show ?thesis
    proof (cases "k \<le> length s")
      case True
      then show ?thesis using False by (simp add: short_Cons)
    next
      case False
      then have "short k (c # s) = []" by (simp add: short_def)
      then show ?thesis using \<open>\<not> P c\<close> by simp
    qed
  qed
qed simp

lemma short_skip_ws: "k \<le> length (skip_ws s) \<Longrightarrow> skip_ws (short k s) = short k (skip_ws s)"
  by (simp add: skip_ws_def short_dropWhile)

lemma short_eat: "eat p s = Some r \<Longrightarrow> k \<le> length r \<Longrightarrow> eat p (short k s) = Some (short k r)"
  by (simp add: eat_append short_append)

lemma short_eat_None: "eat p s = None \<Longrightarrow> eat p (short k s) = None"
proof (rule ccontr)
  assume "eat p s = None" "eat p (short k s) \<noteq> None"
  then obtain r where "short k s = p @ r" by (auto simp: eat_append)
  then have "s = p @ (r @ drop (length s - k) s)"
    unfolding short_def by (metis append_assoc append_take_drop_id)
  then show False using \<open>eat p s = None\<close> by (metis eat_append not_None_eq)
qed


lemma short_after_escape:
  assumes "after_escape s = Some r" "k \<le> length r"
  shows "after_escape (short k s) = Some (short k r)"
proof -
  have ne: "s \<noteq> []" using assms(1) by (auto simp: after_escape_def)
  then obtain c t where s: "s = c # t" by (cases s) auto
  have k: "k \<le> length t" using assms after_escape_length [OF assms(1)] s by simp
  consider "simple_escape c" "r = t"
    | "\<not> simple_escape c" "c = CHR ''u''" "4 \<le> length t" "list_all hex_digit (take 4 t)" "r = drop 4 t"
  proof (cases "simple_escape c")
    case True
    then show ?thesis using that(1) assms(1) by (simp add: s after_escape_def)
  next
    case False
    then have "c = CHR ''u'' \<and> 4 \<le> length t \<and> list_all hex_digit (take 4 t)"
      using assms(1) by - (rule ccontr, auto simp: s after_escape_def)
    then show ?thesis using False that(2) assms(1) by (simp add: s after_escape_def)
  qed
  then show ?thesis
  proof cases
    case 1
    then show ?thesis using k by (auto simp: s short_Cons after_escape_def)
  next
    case 2
    then have split: "t = take 4 t @ r" by simp
    have "short k t = take 4 t @ short k r" using assms(2) by (subst split) (rule short_append)
    moreover have "length (take 4 t) = 4" using 2 by simp
    ultimately show ?thesis using 2 k by (simp add: s short_Cons after_escape_def)
  qed
qed

lemma short_scan_string: "scan_string s = Some r \<Longrightarrow> k \<le> length r \<Longrightarrow> scan_string (short k s) = Some (short k r)"
proof (induction s arbitrary: r rule: scan_string.induct)
  case (2 c s)
  have k: "k \<le> length s" using 2(4) scan_string_length [OF 2(3)] by simp
  consider "of_char c = (34 :: nat)" "r = s"
    | t where "of_char c = (92 :: nat)" "after_escape s = Some t" "scan_string t = Some r"
    | "of_char c \<noteq> (34 :: nat)" "\<not> of_char c < (32 :: nat)" "of_char c \<noteq> (92 :: nat)" "scan_string s = Some r"
    using 2(3) by (auto simp: Let_def split: if_splits option.splits)
  then show ?case
  proof cases
    case 1
    then show ?thesis using k by (simp add: short_Cons)
  next
    case 2
    have "k \<le> length t" using 2 scan_string_length \<open>k \<le> length r\<close> by fastforce
    then have "after_escape (short k s) = Some (short k t)" using 2 short_after_escape by blast
    moreover have "scan_string (short k t) = Some (short k r)"
      using "2.IH"(1) [of "of_char c" t r] 2 \<open>k \<le> length r\<close> by simp
    ultimately show ?thesis using 2 k by (simp add: short_Cons)
  next
    case 3
    then have "scan_string (short k s) = Some (short k r)"
      using "2.IH"(2) [of "of_char c" r] \<open>k \<le> length r\<close> by simp
    then show ?thesis using 3 k by (simp add: short_Cons)
  qed
qed simp

definition digit_next :: "string \<Rightarrow> bool" where
  "digit_next s \<longleftrightarrow> s \<noteq> [] \<and> json_digit (hd s)"

lemma short_digit_next: "digit_next (short k s) \<Longrightarrow> digit_next s"
  using short_tl [of k s] by (cases "k < length s") (auto simp: digit_next_def short_def)

lemma short_digits:
  assumes "digit_next s" "k \<le> length (dropWhile json_digit s)"
  shows "digit_next (short k s) \<and> dropWhile json_digit (short k s) = short k (dropWhile json_digit s)"
proof -
  have "length (dropWhile json_digit s) < length s"
    using assms(1) length_dropWhile_le [of json_digit "tl s"] by (cases s) (auto simp: digit_next_def less_Suc_eq_le)
  then have "k < length s" using assms(2) by simp
  then show ?thesis using assms short_tl short_dropWhile by (auto simp: digit_next_def)
qed

lemma scan_frac_alt: "scan_frac s = (if s \<noteq> [] \<and> hd s = CHR ''.'' \<and> digit_next (tl s) then dropWhile json_digit (tl s) else s)"
  by (simp add: scan_frac_def digit_next_def)

definition skip_sign :: "string \<Rightarrow> string" where
  "skip_sign t = (if t \<noteq> [] \<and> hd t \<in> set ''+-'' then tl t else t)"

lemma scan_exp_alt: "scan_exp s = (if s \<noteq> [] \<and> hd s \<in> set ''eE'' \<and> digit_next (skip_sign (tl s))
   then dropWhile json_digit (skip_sign (tl s)) else s)"
  unfolding scan_exp_def Let_def digit_next_def skip_sign_def by auto

lemma short_skip_sign: "digit_next (skip_sign (short k t)) \<Longrightarrow> digit_next (skip_sign t)"
proof -
  assume d: "digit_next (skip_sign (short k t))"
  then have "k < length t" by (cases "k < length t") (auto simp: skip_sign_def digit_next_def short_def)
  with d short_tl [OF this] short_digit_next show ?thesis unfolding skip_sign_def by (auto split: if_splits)
qed

lemma short_skip_sign_eq: "digit_next (skip_sign t) \<Longrightarrow> k < length (skip_sign t) \<Longrightarrow> skip_sign (short k t) = short k (skip_sign t)"
proof -
  assume "digit_next (skip_sign t)" and k: "k < length (skip_sign t)"
  have "k < length t" using k by (auto simp: skip_sign_def split: if_splits)
  then show ?thesis using short_tl by (auto simp: skip_sign_def)
qed

lemma short_cases:
  obtains "short k s = []" | "short k s \<noteq> []" "s \<noteq> []" "hd (short k s) = hd s" "tl (short k s) = short k (tl s)"
proof (cases "k < length s")
  case True
  then have "s \<noteq> []" by auto
  then show ?thesis using that(2) short_tl [OF True] by auto
next
  case False
  then show ?thesis using that(1) by (simp add: short_def)
qed

lemma short_scan_frac:
  assumes "k \<le> length (scan_frac s)"
  shows "scan_frac (short k s) = short k (scan_frac s)"
proof (cases "s \<noteq> [] \<and> hd s = CHR ''.'' \<and> digit_next (tl s)")
  case True
  then have le: "k \<le> length (dropWhile json_digit (tl s))" using assms by (simp add: scan_frac_alt)
  have "length (dropWhile json_digit (tl s)) < length s"
    using True length_dropWhile_le [of json_digit "tl s"] by (cases s) auto
  then have "k < length s" using le by simp
  then show ?thesis using True short_digits [OF _ le] short_tl by (simp add: scan_frac_alt)
next
  case False
  then have "scan_frac s = s" unfolding scan_frac_alt by auto
  moreover have "\<not> (short k s \<noteq> [] \<and> hd (short k s) = CHR ''.'' \<and> digit_next (tl (short k s)))"
    by (cases k s rule: short_cases) (use False short_digit_next in auto)
  ultimately show ?thesis unfolding scan_frac_alt [of "short k s"] by metis
qed

lemma short_scan_exp:
  assumes "k \<le> length (scan_exp s)"
  shows "scan_exp (short k s) = short k (scan_exp s)"
proof (cases "s \<noteq> [] \<and> hd s \<in> set ''eE'' \<and> digit_next (skip_sign (tl s))")
  case True
  let ?u = "skip_sign (tl s)"
  have r: "scan_exp s = dropWhile json_digit ?u" using True unfolding scan_exp_alt by simp
  then have le: "k \<le> length (dropWhile json_digit ?u)" using assms by simp
  have "length (dropWhile json_digit ?u) < length ?u"
    using True length_dropWhile_le [of json_digit "tl ?u"] by (cases ?u) (auto simp: digit_next_def less_Suc_eq_le)
  then have ku: "k < length ?u" using le by simp
  moreover have "length ?u \<le> length (tl s)" by (auto simp: skip_sign_def)
  ultimately have "k < length s" using True by (cases s) auto
  then have hd: "short k s \<noteq> []" "hd (short k s) = hd s" "tl (short k s) = short k (tl s)" using short_tl by auto
  have sg: "skip_sign (tl (short k s)) = short k ?u" using hd short_skip_sign_eq True ku by simp
  show ?thesis using True hd short_digits [OF _ le] unfolding scan_exp_alt sg r [unfolded scan_exp_alt] by auto
next
  case False
  then have "scan_exp s = s" unfolding scan_exp_alt by auto
  moreover have "\<not> (short k s \<noteq> [] \<and> hd (short k s) \<in> set ''eE'' \<and> digit_next (skip_sign (tl (short k s))))"
    by (cases k s rule: short_cases) (use False short_skip_sign [of k "tl s"] in auto)
  ultimately show ?thesis unfolding scan_exp_alt [of "short k s"] by metis
qed


definition skip_minus :: "string \<Rightarrow> string" where
  "skip_minus s = (if s \<noteq> [] \<and> hd s = CHR ''-'' then tl s else s)"

definition int_rest :: "string \<Rightarrow> string" where
  "int_rest t = (if hd t = CHR ''0'' then tl t else dropWhile json_digit t)"

lemma scan_number_alt:
  "scan_number s = (if digit_next (skip_minus s) then
     (let u = int_rest (skip_minus s); r = scan_exp (scan_frac u) in
      if r = u \<and> length (skip_minus s) - length u > 4300 then None else Some r) else None)"
  unfolding scan_number_def Let_def skip_minus_def int_rest_def digit_next_def by auto

lemma int_rest_shorter: "digit_next t \<Longrightarrow> length (int_rest t) < length t"
  using length_dropWhile_le [of json_digit "tl t"] by (cases t) (auto simp: int_rest_def digit_next_def less_Suc_eq_le)

lemma short_int_rest:
  assumes "digit_next t" "k \<le> length (int_rest t)"
  shows "digit_next (short k t) \<and> int_rest (short k t) = short k (int_rest t)"
proof -
  have k: "k < length t" using assms int_rest_shorter by fastforce
  show ?thesis using short_tl [OF k] assms short_dropWhile [of k json_digit t]
    by (auto simp: int_rest_def digit_next_def)
qed

lemma short_scan_number:
  assumes "scan_number s = Some r" "k \<le> length r"
  shows "scan_number (short k s) = Some (short k r)"
proof -
  define t where "t = skip_minus s"
  define u where "u = int_rest t"
  define f where "f = scan_frac u"
  have t: "digit_next t" and r: "r = scan_exp f" and big: "\<not> (r = u \<and> length t - length u > 4300)"
    using assms(1) unfolding scan_number_alt Let_def t_def u_def f_def by (auto split: if_splits)
  have kf: "k \<le> length f" using assms(2) scan_exp_le [of f] r by simp
  have ku: "k \<le> length u" using kf scan_frac_le [of u] by (simp add: f_def)
  have kt: "k < length t" using ku int_rest_shorter [OF t] by (simp add: u_def)
  have ks: "k < length s" using kt by (auto simp: t_def skip_minus_def split: if_splits)
  have t': "skip_minus (short k s) = short k t"
    using short_tl [OF ks] ks by (auto simp: t_def skip_minus_def)
  have u': "digit_next (short k t)" "int_rest (short k t) = short k u"
    using short_int_rest [OF t] ku by (auto simp: u_def)
  have f': "scan_frac (short k u) = short k f" using short_scan_frac kf by (simp add: f_def)
  have r': "scan_exp (short k f) = short k r" using short_scan_exp assms(2) r by simp
  have "short k r = short k u \<Longrightarrow> r = u"
  proof (rule ccontr)
    assume eq: "short k r = short k u" and ne: "r \<noteq> u"
    have "length r - k = length u - k" using arg_cong [OF eq, of length] by simp
    then have len: "length r = length u" using assms(2) ku by simp
    have "length f = length u" using len r scan_exp_le [of f] scan_frac_le [of u] by (simp add: f_def)
    have "f = u" using \<open>length f = length u\<close> length_dropWhile_le [of json_digit "tl u"]
      by (cases u) (auto simp: f_def scan_frac_alt split: if_splits)
    moreover have "r = f"
    proof (cases "f \<noteq> [] \<and> hd f \<in> set ''eE'' \<and> digit_next (skip_sign (tl f))")
      case True
      have "length (dropWhile json_digit (skip_sign (tl f))) \<le> length (skip_sign (tl f))" by (rule length_dropWhile_le)
      also have "\<dots> \<le> length (tl f)" by (auto simp: skip_sign_def)
      also have "\<dots> < length f" using True by simp
      finally have "length r < length f" using True unfolding r scan_exp_alt [of f] by simp
      then show ?thesis using len \<open>length f = length u\<close> by simp
    next
      case False
      then show ?thesis unfolding r scan_exp_alt [of f] by metis
    qed
    ultimately show False using ne by simp
  qed
  moreover have "length (short k t) - length (short k u) = length t - length u" using ku kt by simp
  ultimately show ?thesis using big u'(1) unfolding scan_number_alt [of "short k s"] Let_def t' u' f' r' by auto
qed

lemma short_scan_literal:
  assumes "scan_literal s = Some r" "k \<le> length r"
  shows "scan_literal (short k s) = Some (short k r)"
proof -
  note none = short_eat_None [of _ s k]
  have num: "scan_number (short k s) = None" if "eat p s = Some r" "p \<in> {''NaN'', ''Infinity'', ''-Infinity''}" for p
  proof -
    have "short k s = p @ short k r" using that(1) assms(2) by (simp add: eat_append short_append)
    then show ?thesis using that(2)
      by (auto simp: scan_number_alt skip_minus_def digit_next_def json_digit_def)
  qed
  consider "eat ''null'' s = Some r" | "eat ''null'' s = None" "eat ''true'' s = Some r"
    | "eat ''null'' s = None" "eat ''true'' s = None" "eat ''false'' s = Some r"
    | "eat ''null'' s = None" "eat ''true'' s = None" "eat ''false'' s = None" "scan_number s = Some r"
    | "eat ''null'' s = None" "eat ''true'' s = None" "eat ''false'' s = None" "eat ''NaN'' s = Some r"
    | "eat ''null'' s = None" "eat ''true'' s = None" "eat ''false'' s = None" "eat ''NaN'' s = None"
      "eat ''Infinity'' s = Some r"
    | "eat ''null'' s = None" "eat ''true'' s = None" "eat ''false'' s = None" "eat ''NaN'' s = None"
      "eat ''Infinity'' s = None" "eat ''-Infinity'' s = Some r"
    using assms(1) by (auto simp: scan_literal_def split: option.splits)
  then show ?thesis
    using assms(2)
    by cases (simp_all add: scan_literal_def none short_eat short_scan_number num)
qed

lemma short_after_item:
  assumes "after_item close f w = Some r" "k \<le> length r"
    and stable: "\<And>x. f x = Some r \<Longrightarrow> f (short k x) = Some (short k r) \<and> length r < length x"
  shows "after_item close f (short k w) = Some (short k r)"
proof (cases "eat close (skip_ws w)")
  case (Some q)
  then have "q = r" using assms(1) by (simp add: after_item_def)
  then show ?thesis using Some assms(2) eat_length [OF Some] by (simp add: after_item_def short_skip_ws short_eat)
next
  case None
  then obtain x where x: "eat '','' (skip_ws w) = Some x" "f (skip_ws x) = Some r"
    using assms(1) by (auto simp: after_item_def bind_eq_Some_conv)
  have "length r < length (skip_ws x)" using stable [OF x(2)] by simp
  then have k: "k \<le> length (skip_ws x)" "k \<le> length x" "k \<le> length (skip_ws w)"
    using assms(2) skip_ws_le [of x] eat_length [OF x(1)] by auto
  show ?thesis using x stable [OF x(2)] None k
    by (simp add: after_item_def short_skip_ws short_eat short_eat_None)
qed

lemma short_jscan: "jscan n m s = Some r \<Longrightarrow> k \<le> length r \<Longrightarrow> jscan n m (short k s) = Some (short k r)"
proof (induction n arbitrary: m s r)
  case (Suc n)
  have stable: "jscan n m' (short k x) = Some (short k r) \<and> length r < length x" if "jscan n m' x = Some r" for m' x
    using Suc.IH [OF that Suc.prems(2)] jscan_length [OF that] by simp
  show ?case
  proof (cases m)
    case JValue
    then obtain c t where s: "s = c # t" using Suc.prems by (cases s) (auto simp: jscan_steps)
    have "length r < length s" using jscan_length [OF Suc.prems(1)] .
    then have sh: "short k s = c # short k t" using Suc.prems(2) s by (simp add: short_Cons)
    have ws: "skip_ws (short k t) = short k (skip_ws t)" if "length r \<le> length (skip_ws t)"
      using that Suc.prems(2) by (simp add: short_skip_ws)
    consider "of_char c = (34 :: nat)" "scan_string t = Some r"
      | "of_char c \<noteq> (34 :: nat)" "c = CHR ''{''" "eat ''}'' (skip_ws t) = Some r"
      | "of_char c \<noteq> (34 :: nat)" "c = CHR ''{''" "eat ''}'' (skip_ws t) = None" "jscan n JMembers (skip_ws t) = Some r"
      | "of_char c \<noteq> (34 :: nat)" "c = CHR ''[''" "eat '']'' (skip_ws t) = Some r"
      | "of_char c \<noteq> (34 :: nat)" "c = CHR ''[''" "eat '']'' (skip_ws t) = None" "jscan n JElements (skip_ws t) = Some r"
      | "of_char c \<noteq> (34 :: nat)" "c \<noteq> CHR ''{''" "c \<noteq> CHR ''[''" "scan_literal s = Some r"
      using Suc.prems(1) JValue s by (auto simp: jscan_steps split: if_splits option.splits)
    then show ?thesis
    proof cases
      case 1
      then show ?thesis using Suc.prems(2) by (simp add: JValue sh jscan_steps short_scan_string)
    next
      case 2
      then show ?thesis using Suc.prems(2) ws eat_length [OF 2(3)]
        by (simp add: JValue sh jscan_steps short_eat)
    next
      case 3
      then show ?thesis using ws stable [OF 3(4)] by (simp add: JValue sh jscan_steps short_eat_None)
    next
      case 4
      then show ?thesis using Suc.prems(2) ws eat_length [OF 4(3)]
        by (simp add: JValue sh jscan_steps short_eat)
    next
      case 5
      then show ?thesis using ws stable [OF 5(4)] by (simp add: JValue sh jscan_steps short_eat_None)
    next
      case 6
      then show ?thesis using short_scan_literal [OF 6(4) Suc.prems(2)] by (simp add: JValue sh jscan_steps)
    qed
  next
    case JMembers
    then obtain c t where s: "s = c # t" using Suc.prems by (cases s) (auto simp: jscan_steps)
    then obtain u v w where uvw: "of_char c = (34 :: nat)" "scan_string t = Some u" "eat '':'' (skip_ws u) = Some v"
      "jscan n JValue (skip_ws v) = Some w" "after_item ''}'' (jscan n JMembers) w = Some r"
      using Suc.prems JMembers by (auto simp: jscan_steps bind_eq_Some_conv split: if_splits)
    have rw: "length r \<le> length w" using after_item_length [OF uvw(5)] jscan_length by blast
    then have k: "k \<le> length w" "k \<le> length (skip_ws v)" "k \<le> length v" "k \<le> length (skip_ws u)" "k \<le> length u" "k \<le> length t"
      using Suc.prems(2) jscan_length [OF uvw(4)] skip_ws_le [of v] skip_ws_le [of u] eat_length [OF uvw(3)]
        scan_string_length [OF uvw(2)] by auto
    have "jscan n JValue (short k (skip_ws v)) = Some (short k w)" using Suc.IH [OF uvw(4) k(1)] .
    moreover have "after_item ''}'' (jscan n JMembers) (short k w) = Some (short k r)"
      using short_after_item [OF uvw(5) Suc.prems(2)] stable by blast
    ultimately show ?thesis using uvw k
      by (simp add: JMembers s short_Cons jscan_steps short_scan_string short_skip_ws short_eat)
  next
    case JElements
    then obtain w where w: "jscan n JValue s = Some w" "after_item '']'' (jscan n JElements) w = Some r"
      using Suc.prems by (auto simp: jscan_steps bind_eq_Some_conv)
    have "length r \<le> length w" using after_item_length [OF w(2)] jscan_length by blast
    then have "jscan n JValue (short k s) = Some (short k w)" using Suc.IH [OF w(1)] Suc.prems(2) by simp
    moreover have "after_item '']'' (jscan n JElements) (short k w) = Some (short k r)"
      using short_after_item [OF w(2) Suc.prems(2)] stable by blast
    ultimately show ?thesis by (simp add: JElements jscan_steps)
  qed
qed simp

text \<open>The value a text begins with is a complete value by itself.\<close>

lemma raw_decode_prefix:
  assumes "raw_decode_end s = Some r"
  shows "raw_decode_end (take (length s - length r) s) = Some []"
proof -
  have "jscan (2 * length s + 1) JValue (short (length r) s) = Some (short (length r) r)"
    using assms by (intro short_jscan) (simp_all add: raw_decode_end_def)
  moreover have "jscan (2 * length s + 1) JValue (short (length r) s)
      = jscan (2 * length (short (length r) s) + 1) JValue (short (length r) s)"
    by (intro jscan_fuel) (simp_all add: fuel_need_def)
  ultimately show ?thesis by (simp add: raw_decode_end_def short_def)
qed

end
