(* ===== verification/Tool_Stream.thy ===== *)
theory Tool_Stream
  imports Json_Scan
begin

section \<open>Tool calls in a stream (correction.py, lifecycle.py)\<close>

text \<open>
  \<^verbatim>\<open>_ToolCallStreamSanitizer\<close>: per stream, the argument fragments of each tool call are held back
  until they form one complete JSON value, and the call is sent whole. A chunk is given by its decoded
  value (\<open>None\<close> when it does not decode) and by whether its text mentions \<^verbatim>\<open>"tool_calls"\<close>, which is
  all the fast path looks at. An exception inside \<^verbatim>\<open>feed\<close> passes the chunk on and keeps what the
  slots had become, so the functions below return the slots beside the error; the only operation
  that can raise is the hash of an index that is a list or an object. With it the predicates on
  finished tool calls, and \<^verbatim>\<open>_split_coalesced_finish_chunk\<close>.
\<close>

subsection \<open>Predicates on finished calls\<close>

definition complete_value :: "string \<Rightarrow> string option" where
  "complete_value s = (if py_strip s = [] then None
     else map_option (\<lambda>r. take (length s - length r) s) (raw_decode_end s))"

text \<open>Whether \<^verbatim>\<open>json.loads\<close> accepts a text.\<close>

definition loads_ok :: "string \<Rightarrow> bool" where
  "loads_ok s = (case raw_decode_end (skip_ws s) of None \<Rightarrow> False | Some r \<Rightarrow> skip_ws r = [])"

definition loads_object :: "string \<Rightarrow> bool" where
  "loads_object s \<longleftrightarrow> loads_ok s \<and> skip_ws s \<noteq> [] \<and> hd (skip_ws s) = CHR ''{''"

text \<open>\<^verbatim>\<open>(tc.get("function") or {}).get("arguments")\<close>; \<open>None\<close> when it raises.\<close>

definition call_arguments :: "json \<Rightarrow> json option" where
  "call_arguments tc = (case tc of
     JObj o' \<Rightarrow> (case jget o' ''function'' of JObj f \<Rightarrow> Some (jget f ''arguments'')
                | v \<Rightarrow> if truthy v then None else Some JNull)
   | _ \<Rightarrow> None)"

definition arg_str_valid :: "json \<Rightarrow> bool" where
  "arg_str_valid tc = (case call_arguments tc of
     Some (JStr a) \<Rightarrow> py_strip a = [] \<or> loads_ok a
   | _ \<Rightarrow> True)"

definition call_function :: "json \<Rightarrow> payload option" where
  "call_function tc = (case tc of JObj o' \<Rightarrow>
     (case jget o' ''function'' of JObj f \<Rightarrow> Some f | _ \<Rightarrow> None) | _ \<Rightarrow> None)"

definition call_named :: "payload \<Rightarrow> bool" where
  "call_named f = (case jget f ''name'' of JStr n \<Rightarrow> py_strip n \<noteq> [] | _ \<Rightarrow> False)"

definition is_cut_call :: "json \<Rightarrow> bool" where
  "is_cut_call tc = (case call_function tc of None \<Rightarrow> False
     | Some f \<Rightarrow> call_named f \<and> (case jget f ''arguments'' of
         JStr a \<Rightarrow> py_strip a \<noteq> [] \<and> complete_value a = None | _ \<Rightarrow> False))"

definition has_cut_tool_call :: "json list \<Rightarrow> bool" where
  "has_cut_tool_call tcs \<longleftrightarrow> list_ex is_cut_call tcs"

definition request_declares_tools :: "json \<Rightarrow> bool" where
  "request_declares_tools p = (case p of JObj o' \<Rightarrow>
     (case jget o' ''tools'' of JList ts \<Rightarrow> ts \<noteq> [] | _ \<Rightarrow> False) | _ \<Rightarrow> False)"

definition tool_call_is_complete :: "json \<Rightarrow> bool" where
  "tool_call_is_complete tc = (case call_function tc of None \<Rightarrow> False
     | Some f \<Rightarrow> call_named f \<and> (case jget f ''arguments'' of
         JObj _ \<Rightarrow> True | JStr a \<Rightarrow> py_strip a \<noteq> [] \<and> loads_object a | _ \<Rightarrow> False))"

subsection \<open>The sanitizer\<close>

record call_slot =
  sl_id :: "string option"
  sl_type :: "string option"
  sl_name :: "string option"
  sl_buf :: string
  sl_done :: bool

definition empty_slot :: call_slot where
  "empty_slot = \<lparr>sl_id = None, sl_type = None, sl_name = None, sl_buf = [], sl_done = False\<rparr>"

type_synonym slot_key = "json \<times> json"
type_synonym slots = "(slot_key, call_slot) odict"
type_synonym emission = "slot_key \<times> string"

definition slots_pending :: "slots \<Rightarrow> bool" where
  "slots_pending sl \<longleftrightarrow> list_ex (\<lambda>(k, st). \<not> sl_done st) sl"

fun hashable :: "json \<Rightarrow> bool" where
  "hashable (JList _) = False"
| "hashable (JObj _) = False"
| "hashable _ = True"

definition str_of :: "json \<Rightarrow> string option" where
  "str_of v = (case v of JStr s \<Rightarrow> Some s | _ \<Rightarrow> None)"

definition first_known :: "'a option \<Rightarrow> 'a option \<Rightarrow> 'a option" where
  "first_known a b = (if a = None then b else a)"

text \<open>What one fragment adds to its slot.\<close>

definition absorb :: "payload \<Rightarrow> call_slot \<Rightarrow> call_slot" where
  "absorb tc st = (let f = (case jget tc ''function'' of JObj f \<Rightarrow> f | _ \<Rightarrow> []);
       nm = (case jget f ''name'' of JStr s \<Rightarrow> if s \<noteq> [] then Some s else None | _ \<Rightarrow> None) in
     st\<lparr>sl_id := first_known (sl_id st) (str_of (jget tc ''id'')),
        sl_type := first_known (sl_type st) (str_of (jget tc ''type'')),
        sl_name := first_known (sl_name st) nm,
        sl_buf := sl_buf st @ (case jget f ''arguments'' of JStr a \<Rightarrow> a | _ \<Rightarrow> [])\<rparr>)"

definition feed_fragment :: "json \<Rightarrow> payload \<Rightarrow> slots \<Rightarrow> slots \<times> emission list py" where
  "feed_fragment ci tc sl = (let key = (ci, jget tc ''index'') in
     if \<not> hashable (fst key) \<or> \<not> hashable (snd key) then (sl, Inl TypeError)
     else (let st = absorb tc (od_get_or empty_slot sl key) in
       if sl_done st \<or> sl_name st = None then (od_put key st sl, Inr [])
       else (case complete_value (sl_buf st) of
               None \<Rightarrow> (od_put key st sl, Inr [])
             | Some args \<Rightarrow> (od_put key (st\<lparr>sl_done := True\<rparr>) sl, Inr [(key, args)]))))"

fun feed_fragments :: "json \<Rightarrow> json list \<Rightarrow> slots \<Rightarrow> slots \<times> emission list py" where
  "feed_fragments ci [] sl = (sl, Inr [])"
| "feed_fragments ci (JObj tc # tcs) sl = (case feed_fragment ci tc sl of
     (sl1, Inl e) \<Rightarrow> (sl1, Inl e)
   | (sl1, Inr es) \<Rightarrow> (case feed_fragments ci tcs sl1 of
       (sl2, Inl e) \<Rightarrow> (sl2, Inl e) | (sl2, Inr es2) \<Rightarrow> (sl2, Inr (es @ es2))))"
| "feed_fragments ci (_ # tcs) sl = feed_fragments ci tcs sl"

text \<open>The finish chunk settles every slot of its choice: a named slot without arguments is a call
  without arguments, a named one with incomplete arguments was lost, a nameless one is dropped.\<close>

fun finish_slots :: "json \<Rightarrow> slots \<Rightarrow> slots \<times> emission list \<times> bool" where
  "finish_slots ci [] = ([], [], False)"
| "finish_slots ci ((k, st) # sl) = (case finish_slots ci sl of (sl', es, lost) \<Rightarrow>
     if fst k \<noteq> ci \<or> sl_done st then ((k, st) # sl', es, lost)
     else ((k, st\<lparr>sl_done := True\<rparr>) # sl',
           if sl_name st \<noteq> None \<and> py_strip (sl_buf st) = [] then (k, ''{}'') # es else es,
           lost \<or> sl_name st \<noteq> None \<and> py_strip (sl_buf st) \<noteq> []))"

definition opt_json :: "string option \<Rightarrow> json" where
  "opt_json v = (case v of None \<Rightarrow> JNull | Some s \<Rightarrow> JStr s)"

definition call_json :: "slots \<Rightarrow> emission \<Rightarrow> json" where
  "call_json sl e = (let st = od_get_or empty_slot sl (fst e) in
     JObj [(''index'', snd (fst e)), (''id'', opt_json (sl_id st)),
       (''type'', JStr (case sl_type st of Some (c # cs) \<Rightarrow> c # cs | _ \<Rightarrow> ''function'')),
       (''function'', JObj [(''name'', opt_json (sl_name st)), (''arguments'', JStr (snd e))])])"

definition choice_delta :: "payload \<Rightarrow> payload option" where
  "choice_delta ch = (case jget ch ''delta'' of JObj d \<Rightarrow> Some d | _ \<Rightarrow> None)"

definition choice_index :: "payload \<Rightarrow> json" where
  "choice_index ch = od_get_or (JInt 0) ch ''index''"

definition delta_fragments :: "payload \<Rightarrow> json list option" where
  "delta_fragments ch = (case choice_delta ch of None \<Rightarrow> None
     | Some d \<Rightarrow> (case jget d ''tool_calls'' of JList tcs \<Rightarrow> Some tcs | _ \<Rightarrow> None))"

text \<open>What a choice of a chunk does to the slots, the calls to send with it, and whether a call was
  lost: steps 1 and 2 of the loop body.\<close>

definition choice_emits :: "payload \<Rightarrow> slots \<Rightarrow> slots \<times> (emission list \<times> bool) py" where
  "choice_emits ch sl =
     (case feed_fragments (choice_index ch) (case delta_fragments ch of None \<Rightarrow> [] | Some tcs \<Rightarrow> tcs) sl of
        (sl1, Inl e) \<Rightarrow> (sl1, Inl e)
      | (sl1, Inr es) \<Rightarrow>
          if jget ch ''finish_reason'' = JNull then (sl1, Inr (es, False))
          else (case finish_slots (choice_index ch) sl1 of (sl2, es2, lost) \<Rightarrow> (sl2, Inr (es @ es2, lost))))"

definition relabel :: "bool \<Rightarrow> payload \<Rightarrow> payload \<times> bool" where
  "relabel lost ch = (if lost \<and> jget ch ''finish_reason'' \<in> {JStr ''tool_calls'', JStr ''stop''}
     then (od_put ''finish_reason'' (JStr ''length'') ch, True) else (ch, False))"

definition rebuild :: "slots \<Rightarrow> emission list \<Rightarrow> payload \<Rightarrow> payload \<times> bool" where
  "rebuild sl es ch = (case choice_delta ch of None \<Rightarrow> (ch, False)
     | Some d \<Rightarrow>
         if es \<noteq> [] then (od_put ''delta'' (JObj (od_put ''tool_calls'' (JList (map (call_json sl) es)) d)) ch, True)
         else if od_get d ''tool_calls'' \<noteq> None then (od_put ''delta'' (JObj (od_del ''tool_calls'' d)) ch, True)
         else (ch, False))"

definition sanitize_choice :: "payload \<Rightarrow> slots \<Rightarrow> slots \<times> (payload \<times> bool) py" where
  "sanitize_choice ch sl = (case choice_emits ch sl of
     (sl1, Inl e) \<Rightarrow> (sl1, Inl e)
   | (sl1, Inr (es, lost)) \<Rightarrow>
       (let (ch1, c1) = relabel lost ch; (ch2, c2) = rebuild sl1 es ch1 in
        (sl1, Inr (ch2, delta_fragments ch \<noteq> None \<or> c1 \<or> c2))))"

fun sanitize_choices :: "json list \<Rightarrow> slots \<Rightarrow> slots \<times> (json list \<times> bool) py" where
  "sanitize_choices [] sl = (sl, Inr ([], False))"
| "sanitize_choices (JObj ch # chs) sl = (case sanitize_choice ch sl of
     (sl1, Inl e) \<Rightarrow> (sl1, Inl e)
   | (sl1, Inr (ch', c)) \<Rightarrow> (case sanitize_choices chs sl1 of
       (sl2, Inl e) \<Rightarrow> (sl2, Inl e) | (sl2, Inr (chs', c')) \<Rightarrow> (sl2, Inr (JObj ch' # chs', c \<or> c'))))"
| "sanitize_choices (v # chs) sl = (case sanitize_choices chs sl of
     (sl2, Inl e) \<Rightarrow> (sl2, Inl e) | (sl2, Inr (chs', c')) \<Rightarrow> (sl2, Inr (v # chs', c')))"

record sse_chunk =
  sse_mentions :: bool
  sse_value :: "json option"

datatype fed = PassThrough | Rebuilt json

definition sanitizer_feed :: "sse_chunk \<Rightarrow> slots \<Rightarrow> slots \<times> fed" where
  "sanitizer_feed c sl = (if \<not> sse_mentions c \<and> \<not> slots_pending sl then (sl, PassThrough)
     else (case sse_value c of
       Some (JObj o') \<Rightarrow> (case jget o' ''choices'' of
           JList chs \<Rightarrow> (case sanitize_choices chs sl of
               (sl1, Inr (chs', True)) \<Rightarrow> (sl1, Rebuilt (JObj (od_put ''choices'' (JList chs') o')))
             | (sl1, _) \<Rightarrow> (sl1, PassThrough))
         | _ \<Rightarrow> (sl, PassThrough))
     | _ \<Rightarrow> (sl, PassThrough)))"

subsection \<open>A finish that came with content\<close>

definition coalesced :: "payload \<Rightarrow> bool" where
  "coalesced ch \<longleftrightarrow> jget ch ''finish_reason'' \<noteq> JNull \<and>
     (case choice_delta ch of None \<Rightarrow> False | Some d \<Rightarrow> truthy (jget d ''content''))"

definition as_obj :: "json \<Rightarrow> payload option" where
  "as_obj v = (case v of JObj o' \<Rightarrow> Some o' | _ \<Rightarrow> None)"

definition split_coalesced_finish_chunk :: "payload \<Rightarrow> (payload \<times> payload) option" where
  "split_coalesced_finish_chunk parsed = (case jget parsed ''choices'' of
     JList chs \<Rightarrow>
       (let os = List.map_filter as_obj chs in
        if chs = [] \<or> length os \<noteq> length chs \<or> \<not> list_ex coalesced os then None
        else Some
          (od_put ''choices'' (JList (map (\<lambda>ch. JObj (od_put ''finish_reason'' JNull ch)) os)) parsed,
           od_del ''usage'' (od_put ''choices'' (JList (map (\<lambda>ch. JObj (od_put ''delta'' (JObj []) ch)) os)) parsed)))
   | _ \<Rightarrow> None)"


subsection \<open>What reaches the client\<close>

text \<open>A call a client can act on: a name and one complete JSON value as its arguments.\<close>

definition whole_call :: "json \<Rightarrow> bool" where
  "whole_call tc = (case call_function tc of None \<Rightarrow> False
     | Some f \<Rightarrow> (case (jget f ''name'', jget f ''arguments'') of
         (JStr n, JStr a) \<Rightarrow> n \<noteq> [] \<and> raw_decode_end a = Some [] | _ \<Rightarrow> False))"

definition safe_choice :: "json \<Rightarrow> bool" where
  "safe_choice v = (case v of JObj ch \<Rightarrow> (case choice_delta ch of None \<Rightarrow> True
       | Some d \<Rightarrow> (case od_get d ''tool_calls'' of None \<Rightarrow> True
           | Some (JList tcs) \<Rightarrow> list_all whole_call tcs | Some _ \<Rightarrow> False))
     | _ \<Rightarrow> True)"

definition chunk_choices :: "json \<Rightarrow> json list" where
  "chunk_choices v = (case v of JObj o' \<Rightarrow> (case jget o' ''choices'' of JList chs \<Rightarrow> chs | _ \<Rightarrow> []) | _ \<Rightarrow> [])"

definition client_sees :: "sse_chunk \<Rightarrow> fed \<Rightarrow> json list" where
  "client_sees c out = (case out of Rebuilt v \<Rightarrow> chunk_choices v
     | PassThrough \<Rightarrow> (case sse_value c of None \<Rightarrow> [] | Some v \<Rightarrow> chunk_choices v))"

text \<open>A chunk whose indices can be hashed, and whose decoded value has tool calls only if its text
  mentions them.\<close>

definition regular_choice :: "json \<Rightarrow> bool" where
  "regular_choice v = (case v of JObj ch \<Rightarrow> hashable (choice_index ch) \<and>
       list_all (\<lambda>tc. case tc of JObj t \<Rightarrow> hashable (jget t ''index'') | _ \<Rightarrow> True)
         (case delta_fragments ch of None \<Rightarrow> [] | Some tcs \<Rightarrow> tcs)
     | _ \<Rightarrow> True)"

definition regular_chunk :: "sse_chunk \<Rightarrow> bool" where
  "regular_chunk c \<longleftrightarrow> (case sse_value c of None \<Rightarrow> True | Some v \<Rightarrow>
     list_all regular_choice (chunk_choices v) \<and> (sse_mentions c \<or> list_all safe_choice (chunk_choices v)))"

fun sanitizer_run :: "sse_chunk list \<Rightarrow> slots \<Rightarrow> (sse_chunk \<times> fed) list" where
  "sanitizer_run [] sl = []"
| "sanitizer_run (c # cs) sl = (case sanitizer_feed c sl of (sl', out) \<Rightarrow> (c, out) # sanitizer_run cs sl')"

definition done_in :: "slots \<Rightarrow> slot_key \<Rightarrow> bool" where
  "done_in sl k \<longleftrightarrow> (\<exists>st. od_get sl k = Some st \<and> sl_done st)"

definition named_in :: "slots \<Rightarrow> slot_key \<Rightarrow> bool" where
  "named_in sl k \<longleftrightarrow> (\<exists>st n. od_get sl k = Some st \<and> sl_name st = Some n \<and> n \<noteq> [])"

definition slots_ok :: "slots \<Rightarrow> bool" where
  "slots_ok sl \<longleftrightarrow> od_ok sl \<and> (\<forall>k st. od_get sl k = Some st \<longrightarrow> sl_name st \<noteq> Some [])"

definition slots_grow :: "slots \<Rightarrow> slots \<Rightarrow> bool" where
  "slots_grow sl sl' \<longleftrightarrow> (\<forall>k. (done_in sl k \<longrightarrow> done_in sl' k) \<and> (named_in sl k \<longrightarrow> named_in sl' k))"

definition emits_between :: "slots \<Rightarrow> emission list \<Rightarrow> slots \<Rightarrow> bool" where
  "emits_between sl es sl' \<longleftrightarrow> slots_grow sl sl' \<and> slots_ok sl' \<and> distinct (map fst es) \<and>
     (\<forall>(k, a) \<in> set es. \<not> done_in sl k \<and> done_in sl' k \<and> named_in sl' k \<and> raw_decode_end a = Some [])"

lemma slots_grow_refl [simp]: "slots_grow sl sl"
  by (simp add: slots_grow_def)

lemma emits_between_none: "slots_grow sl sl' \<Longrightarrow> slots_ok sl' \<Longrightarrow> emits_between sl [] sl'"
  by (simp add: emits_between_def)

lemma emits_between_append:
  assumes "emits_between sl es sl1" "emits_between sl1 fs sl2"
  shows "emits_between sl (es @ fs) sl2"
proof -
  have "fst ` set es \<inter> fst ` set fs = {}"
    using assms by (fastforce simp: emits_between_def)
  then show ?thesis using assms by (fastforce simp: emits_between_def slots_grow_def)
qed

lemma complete_value_whole: "complete_value s = Some a \<Longrightarrow> raw_decode_end a = Some []"
  by (auto simp: complete_value_def raw_decode_prefix split: if_splits)

lemma absorb_simps:
  "sl_done (absorb tc st) = sl_done st"
  "sl_name st = Some n \<Longrightarrow> sl_name (absorb tc st) = Some n"
  "sl_name st \<noteq> Some [] \<Longrightarrow> sl_name (absorb tc st) \<noteq> Some []"
  by (auto simp: absorb_def Let_def first_known_def split: json.splits if_splits)

lemma slot_put:
  assumes "slots_ok sl" "sl_name st \<noteq> Some []"
    and "\<And>st0. od_get sl k = Some st0 \<Longrightarrow> (sl_done st0 \<longrightarrow> sl_done st) \<and> (\<forall>n. sl_name st0 = Some n \<longrightarrow> sl_name st = Some n)"
  shows "slots_ok (od_put k st sl)" "slots_grow sl (od_put k st sl)"
  using assms by (auto simp: slots_ok_def slots_grow_def done_in_def named_in_def)

lemma feed_fragment_emits:
  assumes "feed_fragment ci tc sl = (sl', r)" "slots_ok sl"
  shows "case r of Inl _ \<Rightarrow> sl' = sl | Inr es \<Rightarrow> emits_between sl es sl'"
proof (cases "\<not> hashable ci \<or> \<not> hashable (jget tc ''index'')")
  case True
  then show ?thesis using assms by (auto simp: feed_fragment_def Let_def)
next
  case False
  define key where "key = (ci, jget tc ''index'')"
  define st where "st = absorb tc (od_get_or empty_slot sl key)"
  have name: "sl_name (od_get_or empty_slot sl key) \<noteq> Some []"
  proof (cases "od_get sl key")
    case (Some a)
    then have "sl_name a \<noteq> Some []" using assms(2) unfolding slots_ok_def by blast
    then show ?thesis using Some by (simp add: od_get_or_def)
  qed (simp add: od_get_or_def empty_slot_def)
  have st: "sl_name st \<noteq> Some []" unfolding st_def by (rule absorb_simps(3) [OF name])
  have mono: "(sl_done st0 \<longrightarrow> sl_done st) \<and> (\<forall>n. sl_name st0 = Some n \<longrightarrow> sl_name st = Some n)"
    if "od_get sl key = Some st0" for st0
    using that by (auto simp: st_def od_get_or_def absorb_simps)
  have undone: "\<not> done_in sl key" if "\<not> sl_done st"
    using that mono by (auto simp: done_in_def)
  have shape: "(sl', r) = (if sl_done st \<or> sl_name st = None then (od_put key st sl, Inr [])
       else (case complete_value (sl_buf st) of None \<Rightarrow> (od_put key st sl, Inr [])
             | Some args \<Rightarrow> (od_put key (st\<lparr>sl_done := True\<rparr>) sl, Inr [(key, args)])))"
    using assms(1) False unfolding feed_fragment_def Let_def key_def st_def by auto
  have put: "emits_between sl [] (od_put key st sl)"
    using slot_put [OF assms(2) st mono] by (simp add: emits_between_none)
  have emit: "emits_between sl [(key, args)] (od_put key (st\<lparr>sl_done := True\<rparr>) sl)"
    if nd: "\<not> sl_done st" and nm: "sl_name st \<noteq> None" and cv: "complete_value (sl_buf st) = Some args" for args
  proof -
    obtain n where "sl_name st = Some n" "n \<noteq> []" using nm st by (cases "sl_name st") auto
    then have "done_in (od_put key (st\<lparr>sl_done := True\<rparr>) sl) key" "named_in (od_put key (st\<lparr>sl_done := True\<rparr>) sl) key"
      by (auto simp: done_in_def named_in_def)
    then show ?thesis
      using undone [OF nd] complete_value_whole [OF cv] mono st
        slot_put [OF assms(2), of "st\<lparr>sl_done := True\<rparr>" key]
      by (simp add: emits_between_def)
  qed
  show ?thesis using shape put emit by (auto split: if_splits option.splits)
qed

lemma feed_fragments_emits:
  "feed_fragments ci tcs sl = (sl', r) \<Longrightarrow> slots_ok sl \<Longrightarrow>
   case r of Inl _ \<Rightarrow> slots_ok sl' \<and> slots_grow sl sl' | Inr es \<Rightarrow> emits_between sl es sl'"
proof (induction ci tcs sl arbitrary: sl' r rule: feed_fragments.induct)
  case (1 ci sl)
  then show ?case by (auto simp: emits_between_none)
next
  case (2 ci tc tcs sl)
  obtain sl1 r1 where f: "feed_fragment ci tc sl = (sl1, r1)" by fastforce
  note one = feed_fragment_emits [OF f "2.prems"(2)]
  show ?case
  proof (cases r1)
    case (Inl e)
    then show ?thesis using one f 2 by auto
  next
    case (Inr es)
    then have e1: "emits_between sl es sl1" using one by simp
    obtain sl2 r2 where f2: "feed_fragments ci tcs sl1 = (sl2, r2)" by fastforce
    have "slots_ok sl1" using e1 by (simp add: emits_between_def)
    note rest = "2.IH" [OF f [symmetric] Inr f2 this]
    have out: "sl' = sl2" "r = (case r2 of Inl e \<Rightarrow> Inl e | Inr es2 \<Rightarrow> Inr (es @ es2))"
      using "2.prems"(1) f f2 Inr by (auto split: sum.splits)
    show ?thesis
    proof (cases r2)
      case (Inl e)
      then show ?thesis using rest out e1 by (auto simp: emits_between_def slots_grow_def)
    next
      case (Inr es2)
      then show ?thesis using rest out emits_between_append [OF e1] by simp
    qed
  qed
qed simp_all


lemma finish_slots_get:
  "finish_slots ci sl = (sl', es, lost) \<Longrightarrow> od_ok sl \<Longrightarrow>
   map fst sl' = map fst sl \<and>
   od_get sl' k = map_option (\<lambda>st. if fst k \<noteq> ci then st else st\<lparr>sl_done := True\<rparr>) (od_get sl k)"
proof (induction ci sl arbitrary: sl' es lost rule: finish_slots.induct)
  case (2 ci j st sl)
  obtain sl1 es1 l1 where f: "finish_slots ci sl = (sl1, es1, l1)" by (cases "finish_slots ci sl") auto
  have IH: "map fst sl1 = map fst sl"
    "od_get sl1 k = map_option (\<lambda>st. if fst k \<noteq> ci then st else st\<lparr>sl_done := True\<rparr>) (od_get sl k)"
    using "2.IH" [OF f] "2.prems"(2) by auto
  have same: "st\<lparr>sl_done := True\<rparr> = st" if "sl_done st" using that by simp
  show ?case using "2.prems" f IH same by (auto split: if_splits)
qed simp

lemma finish_slots_emits:
  "finish_slots ci sl = (sl', es, lost) \<Longrightarrow> od_ok sl \<Longrightarrow> (k, a) \<in> set es \<Longrightarrow>
   a = ''{}'' \<and> fst k = ci \<and> (\<exists>st. od_get sl k = Some st \<and> \<not> sl_done st \<and> sl_name st \<noteq> None)"
proof (induction ci sl arbitrary: sl' es lost rule: finish_slots.induct)
  case (2 ci j st sl)
  obtain sl1 es1 l1 where f: "finish_slots ci sl = (sl1, es1, l1)" by (cases "finish_slots ci sl") auto
  have keys: "k \<noteq> j" if "od_get sl k = Some x" for x
    using that "2.prems"(2) od_get_None_iff [of sl j] by auto
  consider "(k, a) \<in> set es1" | "k = j" "a = ''{}''" "fst j = ci" "\<not> sl_done st" "sl_name st \<noteq> None"
    using "2.prems" f by (auto split: if_splits)
  then show ?case
  proof cases
    case 1
    then show ?thesis using "2.IH" [OF f] "2.prems"(2) keys by auto
  qed auto
qed simp

lemma finish_slots_distinct:
  "finish_slots ci sl = (sl', es, lost) \<Longrightarrow> od_ok sl \<Longrightarrow> distinct (map fst es)"
proof (induction ci sl arbitrary: sl' es lost rule: finish_slots.induct)
  case (2 ci j st sl)
  obtain sl1 es1 l1 where f: "finish_slots ci sl = (sl1, es1, l1)" by (cases "finish_slots ci sl") auto
  have ok: "od_ok sl" using "2.prems"(2) by simp
  have "j \<notin> fst ` set es1"
  proof
    assume "j \<in> fst ` set es1"
    then obtain a where "(j, a) \<in> set es1" by auto
    then obtain st' where "od_get sl j = Some st'" using finish_slots_emits [OF f ok] by blast
    then show False using "2.prems"(2) od_get_None_iff [of sl j] by auto
  qed
  then show ?case using "2.prems"(1) f "2.IH" [OF f ok] by (auto split: if_splits)
qed simp

lemma empty_object_whole: "raw_decode_end ''{}'' = Some []"
  by code_simp

lemma finish_slots_between:
  assumes "finish_slots ci sl = (sl', es, lost)" "slots_ok sl"
  shows "emits_between sl es sl'"
proof -
  have ok: "od_ok sl" using assms(2) by (simp add: slots_ok_def)
  note get = finish_slots_get [OF assms(1) ok]
  have ok': "slots_ok sl'"
  proof -
    have "od_ok sl'" using get [of undefined] ok by simp
    moreover have "sl_name st \<noteq> Some []" if st: "od_get sl' k = Some st" for k st
    proof -
      obtain st0 where "od_get sl k = Some st0" "sl_name st = sl_name st0"
        using get [of k] st by (cases "od_get sl k") (auto split: if_splits)
      then show ?thesis using assms(2) unfolding slots_ok_def by metis
    qed
    ultimately show ?thesis unfolding slots_ok_def by blast
  qed
  have grow: "slots_grow sl sl'" unfolding slots_grow_def done_in_def named_in_def using get by fastforce
  have "\<not> done_in sl k \<and> done_in sl' k \<and> named_in sl' k \<and> raw_decode_end a = Some []" if mem: "(k, a) \<in> set es" for k a
  proof -
    obtain st where st: "a = ''{}''" "fst k = ci" "od_get sl k = Some st" "\<not> sl_done st" "sl_name st \<noteq> None"
      using finish_slots_emits [OF assms(1) ok mem] by blast
    obtain n where n: "sl_name st = Some n" using st(5) by auto
    have "n \<noteq> []" using assms(2) st(3) n unfolding slots_ok_def by metis
    then show ?thesis using get [of k] st n by (auto simp: done_in_def named_in_def empty_object_whole)
  qed
  then show ?thesis unfolding emits_between_def using grow ok' finish_slots_distinct [OF assms(1) ok] by blast
qed

lemma choice_emits_between:
  assumes "choice_emits ch sl = (sl', r)" "slots_ok sl"
  shows "case r of Inl _ \<Rightarrow> slots_ok sl' \<and> slots_grow sl sl' | Inr (es, _) \<Rightarrow> emits_between sl es sl'"
proof -
  obtain sl1 r1 where f: "feed_fragments (choice_index ch) (case delta_fragments ch of None \<Rightarrow> [] | Some tcs \<Rightarrow> tcs) sl = (sl1, r1)"
    by fastforce
  note one = feed_fragments_emits [OF f assms(2)]
  show ?thesis
  proof (cases r1)
    case (Inl e)
    then show ?thesis using assms(1) f one by (auto simp: choice_emits_def)
  next
    case (Inr es)
    then have e1: "emits_between sl es sl1" using one by simp
    show ?thesis
    proof (cases "jget ch ''finish_reason'' = JNull")
      case True
      then show ?thesis using assms(1) f Inr e1 by (auto simp: choice_emits_def)
    next
      case False
      obtain sl2 es2 l where g: "finish_slots (choice_index ch) sl1 = (sl2, es2, l)" by (metis prod_cases3)
      have "emits_between sl1 es2 sl2" using e1 g by (intro finish_slots_between) (auto simp: emits_between_def)
      then show ?thesis using assms(1) f Inr g False emits_between_append [OF e1]
        by (auto simp: choice_emits_def)
    qed
  qed
qed


lemma call_json_whole: "named_in sl k \<Longrightarrow> raw_decode_end a = Some [] \<Longrightarrow> whole_call (call_json sl (k, a))"
  by (auto simp: named_in_def call_json_def Let_def whole_call_def call_function_def od_get_or_def
      opt_json_def jget_def)

lemma choice_delta_put: "k \<noteq> ''delta'' \<Longrightarrow> choice_delta (od_put k v ch) = choice_delta ch"
  "choice_delta (od_put ''delta'' (JObj d) ch) = Some d"
  by (simp_all add: choice_delta_def jget_put)

lemma rebuild_safe:
  assumes "\<And>k a. (k, a) \<in> set es \<Longrightarrow> named_in sl k \<and> raw_decode_end a = Some []"
  shows "safe_choice (JObj (fst (rebuild sl es ch)))"
proof (cases "choice_delta ch")
  case (Some d)
  have "list_all whole_call (map (call_json sl) es)"
    using assms call_json_whole by (auto simp: list_all_iff)
  then show ?thesis using Some by (auto simp: rebuild_def safe_choice_def choice_delta_put)
qed (simp add: rebuild_def safe_choice_def)

lemma rebuild_unchanged: "\<not> snd (rebuild sl es ch) \<Longrightarrow> fst (rebuild sl es ch) = ch"
  by (auto simp: rebuild_def split: option.splits if_splits)

lemma relabel_unchanged: "\<not> snd (relabel lost ch) \<Longrightarrow> fst (relabel lost ch) = ch"
  by (auto simp: relabel_def split: if_splits)

lemma feed_fragment_regular:
  "hashable ci \<Longrightarrow> hashable (jget tc ''index'') \<Longrightarrow> \<exists>sl' es. feed_fragment ci tc sl = (sl', Inr es)"
  unfolding feed_fragment_def Let_def
  by (cases "complete_value (sl_buf (absorb tc (od_get_or empty_slot sl (ci, jget tc ''index''))))") auto

lemma feed_fragments_regular:
  "hashable ci \<Longrightarrow> list_all (\<lambda>tc. case tc of JObj t \<Rightarrow> hashable (jget t ''index'') | _ \<Rightarrow> True) tcs \<Longrightarrow>
   \<exists>sl' es. feed_fragments ci tcs sl = (sl', Inr es)"
proof (induction ci tcs sl rule: feed_fragments.induct)
  case (2 ci tc tcs sl)
  obtain sl1 es where f: "feed_fragment ci tc sl = (sl1, Inr es)"
    using feed_fragment_regular [of ci tc sl] 2(2,3) by auto
  then show ?case using "2.IH" [OF f [symmetric]] 2(2,3) by fastforce
qed simp_all

lemma choice_emits_regular: "regular_choice (JObj ch) \<Longrightarrow> \<exists>sl' es lost. choice_emits ch sl = (sl', Inr (es, lost))"
proof -
  assume "regular_choice (JObj ch)"
  then obtain sl1 es where "feed_fragments (choice_index ch) (case delta_fragments ch of None \<Rightarrow> [] | Some tcs \<Rightarrow> tcs) sl = (sl1, Inr es)"
    using feed_fragments_regular [of "choice_index ch"] unfolding regular_choice_def by fastforce
  then show ?thesis by (cases "finish_slots (choice_index ch) sl1") (auto simp: choice_emits_def)
qed

lemma sanitize_choice_safe:
  assumes "regular_choice (JObj ch)" "slots_ok sl"
  shows "\<exists>sl' ch' c. sanitize_choice ch sl = (sl', Inr (ch', c)) \<and> slots_ok sl' \<and> safe_choice (JObj ch') \<and>
    (\<not> c \<longrightarrow> ch' = ch)"
proof -
  obtain sl1 es lost where e: "choice_emits ch sl = (sl1, Inr (es, lost))"
    using choice_emits_regular [OF assms(1)] by blast
  have eb: "emits_between sl es sl1" using choice_emits_between [OF e assms(2)] by simp
  define ch1 where "ch1 = fst (relabel lost ch)"
  define ch2 where "ch2 = fst (rebuild sl1 es ch1)"
  define c where "c = (delta_fragments ch \<noteq> None \<or> snd (relabel lost ch) \<or> snd (rebuild sl1 es ch1))"
  have feed: "sanitize_choice ch sl = (sl1, Inr (ch2, c))"
    by (simp add: sanitize_choice_def e Let_def split_beta ch1_def ch2_def c_def)
  have safe: "safe_choice (JObj ch2)"
    unfolding ch2_def using eb by (intro rebuild_safe) (auto simp: emits_between_def)
  have "ch2 = ch" if "\<not> c"
    using that rebuild_unchanged [of sl1 es ch1] relabel_unchanged [of lost ch] by (auto simp: c_def ch1_def ch2_def)
  moreover have "slots_ok sl1" using eb by (simp add: emits_between_def)
  ultimately show ?thesis using feed safe by blast
qed

lemma sanitize_choices_safe:
  "list_all regular_choice chs \<Longrightarrow> slots_ok sl \<Longrightarrow>
   \<exists>sl' chs' c. sanitize_choices chs sl = (sl', Inr (chs', c)) \<and> slots_ok sl' \<and> list_all safe_choice chs' \<and>
     (\<not> c \<longrightarrow> chs' = chs)"
proof (induction chs sl rule: sanitize_choices.induct)
  case (2 ch chs sl)
  obtain sl1 ch' c where f: "sanitize_choice ch sl = (sl1, Inr (ch', c))" "slots_ok sl1" "safe_choice (JObj ch')" "\<not> c \<longrightarrow> ch' = ch"
    using sanitize_choice_safe [of ch sl] 2(2,3) by auto
  obtain sl2 chs' c' where "sanitize_choices chs sl1 = (sl2, Inr (chs', c'))" "slots_ok sl2" "list_all safe_choice chs'" "\<not> c' \<longrightarrow> chs' = chs"
    using "2.IH" [OF f(1) [symmetric], of "(ch', c)" ch' c] 2(2) f(2) by auto
  then show ?case using f by auto
qed (fastforce simp: safe_choice_def)+

lemma sanitizer_feed_safe:
  assumes "regular_chunk c" "slots_ok sl" "sanitizer_feed c sl = (sl', out)"
  shows "slots_ok sl' \<and> list_all safe_choice (client_sees c out)"
proof (cases "\<not> sse_mentions c \<and> \<not> slots_pending sl")
  case True
  then show ?thesis using assms
    by (auto simp: sanitizer_feed_def client_sees_def regular_chunk_def split: option.splits)
next
  case False
  show ?thesis
  proof (cases "\<exists>o' chs. sse_value c = Some (JObj o') \<and> jget o' ''choices'' = JList chs")
    case True
    then obtain o' chs where o: "sse_value c = Some (JObj o')" "jget o' ''choices'' = JList chs" by blast
    have "list_all regular_choice chs" using assms(1) o by (simp add: regular_chunk_def chunk_choices_def)
    then obtain sl1 chs' b where f: "sanitize_choices chs sl = (sl1, Inr (chs', b))" "slots_ok sl1"
      "list_all safe_choice chs'" "\<not> b \<longrightarrow> chs' = chs"
      using sanitize_choices_safe [OF _ assms(2)] by blast
    then show ?thesis using assms(3) False o
      by (cases b) (auto simp: sanitizer_feed_def client_sees_def chunk_choices_def jget_put)
  next
    case no: False
    then have "sl' = sl" "out = PassThrough"
      using assms(3) False by (auto simp: sanitizer_feed_def split: option.splits json.splits)
    moreover have "(case sse_value c of None \<Rightarrow> [] | Some v \<Rightarrow> chunk_choices v) = []"
      using no by (auto simp: chunk_choices_def split: option.splits json.splits)
    ultimately show ?thesis using assms(2) by (simp add: client_sees_def)
  qed
qed

lemma sanitizer_run_safe:
  "list_all regular_chunk cs \<Longrightarrow> slots_ok sl \<Longrightarrow>
   list_all (\<lambda>(c, out). list_all safe_choice (client_sees c out)) (sanitizer_run cs sl)"
proof (induction cs arbitrary: sl)
  case (Cons c cs)
  obtain sl' out where "sanitizer_feed c sl = (sl', out)" by fastforce
  then show ?case using Cons sanitizer_feed_safe [of c sl sl' out] by auto
qed simp

text \<open>C15: no half of a tool call reaches a client. However a backend cuts and orders its calls, in every
  chunk that is relayed each tool call carries a name and arguments that are one complete JSON value;
  fragments, calls cut short and nameless openers are held back. The chunks are regular: their
  indices are no lists or objects, on which the sanitizer gives up, and a chunk that has tool calls
  spells \<^verbatim>\<open>tool_calls\<close> literally, since the sanitizer relays a chunk without that text as it came.
\<close>

theorem relayed_calls_are_whole:
  assumes "list_all regular_chunk chunks" "(c, out) \<in> set (sanitizer_run chunks [])"
    and "choice \<in> set (client_sees c out)"
  shows "safe_choice choice"
proof -
  have "slots_ok []" by (simp add: slots_ok_def)
  from sanitizer_run_safe [OF assms(1) this] show ?thesis using assms(2,3) by (auto simp: list_all_iff)
qed


definition one_call_chunk :: sse_chunk where
  "one_call_chunk = \<lparr>sse_mentions = True, sse_value = Some (JObj [(''choices'', JList [JObj [(''index'', JInt 0),
     (''delta'', JObj [(''tool_calls'', JList [JObj [(''index'', JInt 0), (''id'', JStr ''c1''),
        (''function'', JObj [(''name'', JStr ''ls''), (''arguments'', JStr ''{}}'')])]])])]])])\<rparr>"

definition one_call_choice :: json where
  "one_call_choice = JObj [(''index'', JInt 0), (''delta'', JObj [(''tool_calls'', JList
     [JObj [(''index'', JInt 0), (''id'', JStr ''c1''), (''type'', JStr ''function''),
        (''function'', JObj [(''name'', JStr ''ls''), (''arguments'', JStr ''{}'')])]])])]"

theorem relayed_calls_are_whole_witness: "safe_choice one_call_choice"
proof (rule relayed_calls_are_whole)
  show "list_all regular_chunk [one_call_chunk]" by code_simp
  have "sanitizer_run [one_call_chunk] [] = [(one_call_chunk, Rebuilt (JObj [(''choices'', JList [one_call_choice])]))]"
    by code_simp
  then show "(one_call_chunk, Rebuilt (JObj [(''choices'', JList [one_call_choice])])) \<in> set (sanitizer_run [one_call_chunk] [])"
    by simp
  show "one_call_choice \<in> set (client_sees one_call_chunk (Rebuilt (JObj [(''choices'', JList [one_call_choice])])))"
    by (simp add: client_sees_def chunk_choices_def)
qed

text \<open>The calls sent over a sequence of choices.\<close>

fun emitted_over :: "payload list \<Rightarrow> slots \<Rightarrow> emission list" where
  "emitted_over [] sl = []"
| "emitted_over (ch # chs) sl = (case choice_emits ch sl of
     (sl', Inl _) \<Rightarrow> emitted_over chs sl'
   | (sl', Inr (es, _)) \<Rightarrow> es @ emitted_over chs sl')"

lemma emitted_over_once:
  "slots_ok sl \<Longrightarrow> distinct (map fst (emitted_over chs sl)) \<and>
     (\<forall>k \<in> fst ` set (emitted_over chs sl). \<not> done_in sl k)"
proof (induction chs arbitrary: sl)
  case (Cons ch chs)
  obtain sl' r where e: "choice_emits ch sl = (sl', r)" by fastforce
  note between = choice_emits_between [OF e Cons.prems]
  show ?case
  proof (cases r)
    case (Inl x)
    then have "slots_ok sl'" "slots_grow sl sl'" using between by simp_all
    then show ?thesis using Cons.IH [of sl'] e Inl by (auto simp: slots_grow_def)
  next
    case (Inr p)
    obtain es l where p: "p = (es, l)" by fastforce
    then have b: "emits_between sl es sl'" using between Inr by simp
    then have ok: "slots_ok sl'" by (simp add: emits_between_def)
    note IH = Cons.IH [OF ok]
    have disj: "fst ` set es \<inter> fst ` set (emitted_over chs sl') = {}"
      using IH b by (fastforce simp: emits_between_def)
    have eq: "emitted_over (ch # chs) sl = es @ emitted_over chs sl'" using e Inr p by simp
    have "\<not> done_in sl (fst x)" if "x \<in> set es \<union> set (emitted_over chs sl')" for x
      using that
    proof
      assume "x \<in> set es"
      then show ?thesis using b by (cases x) (auto simp: emits_between_def)
    next
      assume "x \<in> set (emitted_over chs sl')"
      then have "\<not> done_in sl' (fst x)" using IH by blast
      then show ?thesis using b unfolding emits_between_def slots_grow_def by blast
    qed
    moreover have "distinct (map fst (es @ emitted_over chs sl'))"
      using b IH disj by (simp add: emits_between_def)
    ultimately show ?thesis unfolding eq by (metis imageE set_append)
  qed
qed simp

text \<open>No call is sent twice, over any sequence of choices.\<close>

lemma calls_sent_once: "distinct (map fst (emitted_over chs []))"
  using emitted_over_once [of "[]" chs] by (simp add: slots_ok_def)

text \<open>A named call whose arguments are not complete when its choice finishes turns a normal finish
  into a truncation.\<close>

lemma finish_slots_lost:
  "finish_slots ci sl = (sl', es, lost) \<Longrightarrow>
   lost \<longleftrightarrow> (\<exists>(k, st) \<in> set sl. fst k = ci \<and> \<not> sl_done st \<and> sl_name st \<noteq> None \<and> py_strip (sl_buf st) \<noteq> [])"
proof (induction ci sl arbitrary: sl' es lost rule: finish_slots.induct)
  case (2 ci j st sl)
  obtain sl1 es1 l1 where f: "finish_slots ci sl = (sl1, es1, l1)" by (cases "finish_slots ci sl") auto
  then show ?case using "2.IH" [OF f] "2.prems" by (auto split: if_splits)
qed simp

lemma rebuild_finish: "jget (fst (rebuild sl es ch)) ''finish_reason'' = jget ch ''finish_reason''"
  by (auto simp: rebuild_def jget_put split: option.splits)

lemma cut_call_reported_as_length:
  assumes "feed_fragments (choice_index ch) (case delta_fragments ch of None \<Rightarrow> [] | Some tcs \<Rightarrow> tcs) sl = (sl1, Inr es)"
    and "jget ch ''finish_reason'' \<in> {JStr ''tool_calls'', JStr ''stop''}"
    and "(k, st) \<in> set sl1" "fst k = choice_index ch" "\<not> sl_done st" "sl_name st \<noteq> None" "py_strip (sl_buf st) \<noteq> []"
    and "sanitize_choice ch sl = (sl2, Inr (ch', c))"
  shows "jget ch' ''finish_reason'' = JStr ''length'' \<and> c"
proof -
  obtain sl' es' lost where f: "finish_slots (choice_index ch) sl1 = (sl', es', lost)" by (metis prod_cases3)
  have lost using finish_slots_lost [OF f] assms(3-7) by blast
  then have "choice_emits ch sl = (sl', Inr (es @ es', True))"
    using assms(1,2) f by (auto simp: choice_emits_def)
  then have "ch' = fst (rebuild sl' (es @ es') (fst (relabel True ch)))" "snd (relabel True ch) \<longrightarrow> c"
    using assms(8) by (auto simp: sanitize_choice_def Let_def split_beta)
  moreover have "relabel True ch = (od_put ''finish_reason'' (JStr ''length'') ch, True)"
    using assms(2) by (auto simp: relabel_def)
  ultimately show ?thesis by (simp add: rebuild_finish jget_put)
qed

text \<open>Leading white space is not skipped: arguments that begin with a blank never count as complete.\<close>

lemma leading_blank_never_complete: "complete_value (CHR '' '' # s) = None"
proof -
  have "scan_literal (CHR '' '' # s) = None"
    by (simp add: scan_literal_def eat_def scan_number_alt skip_minus_def digit_next_def json_digit_def)
  then show ?thesis by (simp add: complete_value_def raw_decode_end_def jscan_value)
qed

lemma leading_blank_call_is_cut:
  "tool_call_is_complete (JObj [(''function'', JObj [(''name'', JStr ''ls''), (''arguments'', JStr '' {}'')])])"
  "has_cut_tool_call [JObj [(''function'', JObj [(''name'', JStr ''ls''), (''arguments'', JStr '' {}'')])]]"
  by code_simp+

subsection \<open>Splitting a coalesced finish\<close>

lemma as_obj_simps [simp]:
  "as_obj (JObj x) = Some x" "as_obj JNull = None" "as_obj (JBool b) = None" "as_obj (JInt i) = None"
  "as_obj (JFloat r s) = None" "as_obj (JStr s) = None" "as_obj (JList xs) = None"
  by (simp_all add: as_obj_def)

lemma map_filter_as_obj:
  "length (List.map_filter as_obj chs) = length chs \<Longrightarrow> chs = map JObj (List.map_filter as_obj chs)"
proof (induction chs)
  case (Cons v chs)
  have "length (List.map_filter as_obj chs) \<le> length chs"
    by (simp add: List.map_filter_def)
  then show ?case using Cons by (cases v) (auto simp: List.map_filter_simps)
qed (simp add: List.map_filter_simps)

text \<open>Content and finish arrive in the same order as before and none of either is lost: the first
  chunk has every choice with its delta and no finish, the second every choice with its finish and an
  empty delta; usage stays with the content.\<close>

lemma split_keeps_content_and_finish:
  assumes "split_coalesced_finish_chunk p = Some (h, t)"
  obtains chs where "jget p ''choices'' = JList (map JObj chs)"
    and "jget h ''choices'' = JList (map (\<lambda>ch. JObj (od_put ''finish_reason'' JNull ch)) chs)"
    and "jget t ''choices'' = JList (map (\<lambda>ch. JObj (od_put ''delta'' (JObj []) ch)) chs)"
    and "\<And>k. k \<noteq> ''choices'' \<Longrightarrow> jget h k = jget p k"
    and "\<And>k. k \<noteq> ''choices'' \<Longrightarrow> jget t k = (if k = ''usage'' then JNull else jget p k)"
proof -
  obtain vs where vs: "jget p ''choices'' = JList vs" "length (List.map_filter as_obj vs) = length vs"
    using assms by (auto simp: split_coalesced_finish_chunk_def Let_def split: json.splits if_splits)
  define chs where "chs = List.map_filter as_obj vs"
  have ht: "h = od_put ''choices'' (JList (map (\<lambda>ch. JObj (od_put ''finish_reason'' JNull ch)) chs)) p"
    "t = od_del ''usage'' (od_put ''choices'' (JList (map (\<lambda>ch. JObj (od_put ''delta'' (JObj []) ch)) chs)) p)"
    using assms vs by (auto simp: split_coalesced_finish_chunk_def Let_def chs_def split: if_splits)
  show ?thesis
  proof (rule that [of chs])
    show "jget p ''choices'' = JList (map JObj chs)" using vs map_filter_as_obj chs_def by metis
  qed (simp_all add: ht jget_put jget_del)
qed

end
