(* ===== verification/Replay.thy ===== *)
theory Replay
  imports Response_Cache
begin

section \<open>Reasoning replay (reasoning_replay.py)\<close>

text \<open>
  The reasoning of an assistant turn is kept under a key made of the whole conversation before it,
  and put back when a later request replays the turn without it. The store is bounded by entries,
  bytes and age. The JSON decoder of the standard library and the digest are arguments. The two
  methods of \<^verbatim>\<open>Correction\<close> that use the store are given the outcome of their gate (the payload type,
  the no-store decision and the endpoint's declaration) as a truth value. No operation inside their
  fail-open handlers can raise on JSON values.
\<close>

subsection \<open>The key\<close>

definition normalize_message :: "json \<Rightarrow> json" where
  "normalize_message m = (case m of
     JObj kvs \<Rightarrow> JObj (filter (\<lambda>(k, v). k \<noteq> ''reasoning'' \<and> k \<noteq> ''reasoning_content'') kvs)
   | _ \<Rightarrow> m)"

definition canonical_str :: "json \<Rightarrow> string" where
  "canonical_str v = compact_text (canonical v)"

definition normalize_call :: "(string \<Rightarrow> json option) \<Rightarrow> json \<Rightarrow> json" where
  "normalize_call loads tc = (case tc of
     JObj kvs \<Rightarrow> (case jget kvs ''function'' of
         JObj f \<Rightarrow> JList [jget f ''name'', case jget f ''arguments'' of
             JStr a \<Rightarrow> (case loads a of Some v \<Rightarrow> v | None \<Rightarrow> JStr (py_strip a))
           | v \<Rightarrow> v]
       | _ \<Rightarrow> JStr (canonical_str tc))
   | _ \<Rightarrow> JStr (canonical_str tc))"

definition normalize_tool_calls :: "(string \<Rightarrow> json option) \<Rightarrow> json \<Rightarrow> json" where
  "normalize_tool_calls loads v = (case v of
     JList tcs \<Rightarrow> if tcs = [] then JNull else JList (map (normalize_call loads) tcs)
   | _ \<Rightarrow> JNull)"

definition stripped_content :: "json \<Rightarrow> json" where
  "stripped_content v = (case v of JStr s \<Rightarrow> JStr (py_strip s) | _ \<Rightarrow> JStr [])"

definition replay_turn :: "(string \<Rightarrow> json option) \<Rightarrow> json list \<Rightarrow> json \<Rightarrow> json \<Rightarrow> json \<Rightarrow> json" where
  "replay_turn loads before system content tool_calls =
     JObj ([(''messages'', JList (map normalize_message before)), (''content'', stripped_content content),
            (''tool_calls'', normalize_tool_calls loads tool_calls)] @
           (if system \<noteq> JNull then [(''system'', system)] else []))"

definition replay_key ::
    "(string \<Rightarrow> string) \<Rightarrow> (string \<Rightarrow> json option) \<Rightarrow> json list \<Rightarrow> json \<Rightarrow> json \<Rightarrow> json \<Rightarrow> string" where
  "replay_key sha loads before system content tool_calls =
     sha (canonical_str (replay_turn loads before system content tool_calls))"

subsection \<open>The store\<close>

record replay_entry =
  re_reasoning :: string
  re_expires_at :: real
  re_size :: int

record replay_store =
  rs_cache :: "(string, replay_entry) odict"
  rs_max_entries :: int
  rs_max_bytes :: int
  rs_ttl_s :: real
  rs_total_bytes :: int

definition default_max_entries :: int where "default_max_entries = 50000"
definition default_max_bytes :: int where "default_max_bytes = 256 * 1024 * 1024"
definition default_ttl_s :: real where "default_ttl_s = 24 * 3600"

definition new_replay_store :: "int \<Rightarrow> int \<Rightarrow> real \<Rightarrow> replay_store" where
  "new_replay_store entries bytes ttl = \<lparr>rs_cache = [], rs_max_entries = entries, rs_max_bytes = bytes,
     rs_ttl_s = ttl, rs_total_bytes = 0\<rparr>"

text \<open>Bytes of the UTF-8 encoding of characters below 256.\<close>

definition utf8_size :: "string \<Rightarrow> int" where
  "utf8_size s = int (length s + length (filter (\<lambda>c. (of_char c :: nat) \<ge> 128) s))"

fun replay_evict :: "int \<Rightarrow> int \<Rightarrow> (string, replay_entry) odict \<Rightarrow> int \<Rightarrow> (string, replay_entry) odict \<times> int" where
  "replay_evict me mb [] total_b = ([], total_b)"
| "replay_evict me mb ((k, v) # d) total_b =
     (if int (length ((k, v) # d)) > me \<or> total_b > mb then replay_evict me mb d (total_b - re_size v)
      else ((k, v) # d, total_b))"

definition replay_put :: "string \<Rightarrow> string \<Rightarrow> real \<Rightarrow> replay_store \<Rightarrow> replay_store" where
  "replay_put key reasoning now s =
     (let size' = utf8_size reasoning in
      if reasoning = [] \<or> size' > rs_max_bytes s then s
      else (let old = (case od_get (rs_cache s) key of None \<Rightarrow> 0 | Some e \<Rightarrow> re_size e);
                d = od_del key (rs_cache s) @ [(key, \<lparr>re_reasoning = reasoning,
                      re_expires_at = now + rs_ttl_s s, re_size = size'\<rparr>)];
                r = replay_evict (rs_max_entries s) (rs_max_bytes s) d (rs_total_bytes s - old + size')
            in s\<lparr>rs_cache := fst r, rs_total_bytes := snd r\<rparr>))"

definition replay_get :: "string \<Rightarrow> real \<Rightarrow> replay_store \<Rightarrow> replay_store \<times> string option" where
  "replay_get key now s = (case od_get (rs_cache s) key of None \<Rightarrow> (s, None)
     | Some e \<Rightarrow> if now > re_expires_at e
         then (s\<lparr>rs_cache := od_del key (rs_cache s), rs_total_bytes := rs_total_bytes s - re_size e\<rparr>, None)
         else (s\<lparr>rs_cache := move_to_end key (rs_cache s)\<rparr>, Some (re_reasoning e)))"

subsection \<open>Storing a turn and restoring it\<close>

record replay_tally =
  rt_stored :: int
  rt_restored :: int
  rt_miss :: int
  rt_skipped :: int

definition zero_tally :: replay_tally where
  "zero_tally = \<lparr>rt_stored = 0, rt_restored = 0, rt_miss = 0, rt_skipped = 0\<rparr>"

record replay_state =
  rp_store :: replay_store
  rp_totals :: replay_tally
  rp_by_endpoint :: "(string, replay_tally) odict"

definition tally_both :: "string \<Rightarrow> (replay_tally \<Rightarrow> replay_tally) \<Rightarrow> replay_state \<Rightarrow> replay_state" where
  "tally_both ep f st = st\<lparr>rp_totals := f (rp_totals st),
     rp_by_endpoint := od_put ep (f (od_get_or zero_tally (rp_by_endpoint st) ep)) (rp_by_endpoint st)\<rparr>"

definition open_tally :: "string \<Rightarrow> replay_state \<Rightarrow> replay_state" where
  "open_tally ep st = st\<lparr>rp_by_endpoint := od_put ep (od_get_or zero_tally (rp_by_endpoint st) ep) (rp_by_endpoint st)\<rparr>"

definition count_stored :: "replay_tally \<Rightarrow> replay_tally" where "count_stored t = t\<lparr>rt_stored := rt_stored t + 1\<rparr>"
definition count_restored :: "replay_tally \<Rightarrow> replay_tally" where "count_restored t = t\<lparr>rt_restored := rt_restored t + 1\<rparr>"
definition count_miss :: "replay_tally \<Rightarrow> replay_tally" where "count_miss t = t\<lparr>rt_miss := rt_miss t + 1\<rparr>"
definition count_skipped :: "replay_tally \<Rightarrow> replay_tally" where "count_skipped t = t\<lparr>rt_skipped := rt_skipped t + 1\<rparr>"

text \<open>One message of the history, with the messages before it as the caller sent them.\<close>

definition restore_message ::
    "(string \<Rightarrow> string) \<Rightarrow> (string \<Rightarrow> json option) \<Rightarrow> string \<Rightarrow> json \<Rightarrow> real \<Rightarrow> json list \<Rightarrow> json \<Rightarrow> replay_state
     \<Rightarrow> json \<times> replay_state" where
  "restore_message sha loads ep system now before m st = (case m of
     JObj kvs \<Rightarrow>
       if jget kvs ''role'' \<noteq> JStr ''assistant'' then (m, st)
       else if truthy (jget kvs ''reasoning'') \<or> truthy (jget kvs ''reasoning_content'')
       then (m, tally_both ep count_skipped st)
       else (case replay_get (replay_key sha loads before system (jget kvs ''content'') (jget kvs ''tool_calls''))
                    now (rp_store st) of
               (store, None) \<Rightarrow> (m, tally_both ep count_miss (st\<lparr>rp_store := store\<rparr>))
             | (store, Some r) \<Rightarrow> (JObj (od_put ''reasoning_content'' (JStr r) kvs),
                                 tally_both ep count_restored (st\<lparr>rp_store := store\<rparr>)))
   | _ \<Rightarrow> (m, st))"

fun restore_from ::
    "(string \<Rightarrow> string) \<Rightarrow> (string \<Rightarrow> json option) \<Rightarrow> string \<Rightarrow> json \<Rightarrow> real \<Rightarrow> json list \<Rightarrow> json list \<Rightarrow> replay_state
     \<Rightarrow> json list \<times> replay_state" where
  "restore_from sha loads ep system now before [] st = ([], st)"
| "restore_from sha loads ep system now before (m # ms) st =
     (case restore_message sha loads ep system now before m st of (m', st1) \<Rightarrow>
      case restore_from sha loads ep system now (before @ [m]) ms st1 of (ms', st2) \<Rightarrow> (m' # ms', st2))"

text \<open>The payload is replaced only if a message was restored; with the order of its keys kept that is
  putting the new messages in place.\<close>

definition apply_reasoning_replay_restore ::
    "(string \<Rightarrow> string) \<Rightarrow> (string \<Rightarrow> json option) \<Rightarrow> bool \<Rightarrow> string \<Rightarrow> real \<Rightarrow> payload \<Rightarrow> replay_state
     \<Rightarrow> payload \<times> replay_state" where
  "apply_reasoning_replay_restore sha loads gate ep now p st =
     (if \<not> gate then (p, st)
      else (case jget p ''messages'' of
        JList ms \<Rightarrow> (case restore_from sha loads ep (jget p ''system'') now [] ms (open_tally ep st) of
            (ms', st') \<Rightarrow> (if ms' = ms then p else od_put ''messages'' (JList ms') p, st'))
      | _ \<Rightarrow> (p, st)))"

definition store_reasoning_replay ::
    "(string \<Rightarrow> string) \<Rightarrow> (string \<Rightarrow> json option) \<Rightarrow> bool \<Rightarrow> string \<Rightarrow> real \<Rightarrow> payload \<Rightarrow> json \<Rightarrow> json \<Rightarrow> json \<Rightarrow> replay_state
     \<Rightarrow> replay_state" where
  "store_reasoning_replay sha loads gate ep now p content tool_calls reasoning st =
     (if \<not> gate then st
      else (let st = open_tally ep st in
        case reasoning of
          JStr r \<Rightarrow> if py_strip r = [] then tally_both ep count_skipped st
            else (case jget p ''messages'' of
                JList ms \<Rightarrow> tally_both ep count_stored (st\<lparr>rp_store :=
                    replay_put (replay_key sha loads ms (jget p ''system'') content tool_calls) r now (rp_store st)\<rparr>)
              | _ \<Rightarrow> tally_both ep count_skipped st)
        | _ \<Rightarrow> tally_both ep count_skipped st))"

subsection \<open>The pieces of a streamed call\<close>

record call_acc =
  ca_index :: int
  ca_id :: json
  ca_type :: json
  ca_name :: string
  ca_arguments :: string

definition empty_acc :: "int \<Rightarrow> call_acc" where
  "empty_acc i = \<lparr>ca_index = i, ca_id = JStr [], ca_type = JStr ''function'', ca_name = [], ca_arguments = []\<rparr>"

definition delta_index :: "payload \<Rightarrow> int" where
  "delta_index d = (case od_get_or (JInt 0) d ''index'' of JInt i \<Rightarrow> i | JBool b \<Rightarrow> (if b then 1 else 0) | _ \<Rightarrow> 0)"

definition fold_delta :: "payload \<Rightarrow> call_acc \<Rightarrow> call_acc" where
  "fold_delta d a = (let f = (case jget d ''function'' of JObj f \<Rightarrow> f | _ \<Rightarrow> []) in
     a\<lparr>ca_id := (if truthy (jget d ''id'') then jget d ''id'' else ca_id a),
       ca_type := (if truthy (jget d ''type'') then jget d ''type'' else ca_type a),
       ca_name := ca_name a @ (case jget f ''name'' of JStr s \<Rightarrow> s | _ \<Rightarrow> []),
       ca_arguments := ca_arguments a @ (case jget f ''arguments'' of JStr s \<Rightarrow> s | _ \<Rightarrow> [])\<rparr>)"

fun accumulate_tool_call_deltas :: "json list \<Rightarrow> (int, call_acc) odict \<Rightarrow> (int, call_acc) odict" where
  "accumulate_tool_call_deltas [] acc = acc"
| "accumulate_tool_call_deltas (JObj d # ds) acc = (let i = delta_index d in
     accumulate_tool_call_deltas ds (od_put i (fold_delta d (od_get_or (empty_acc i) acc i)) acc))"
| "accumulate_tool_call_deltas (_ # ds) acc = accumulate_tool_call_deltas ds acc"


subsection \<open>Bounds of the store\<close>

definition bytes_of :: "(string, replay_entry) odict \<Rightarrow> int" where
  "bytes_of d = sum_list (map (\<lambda>kv. re_size (snd kv)) d)"

definition replay_ok :: "replay_store \<Rightarrow> bool" where
  "replay_ok s \<longleftrightarrow> od_ok (rs_cache s) \<and> rs_total_bytes s = bytes_of (rs_cache s) \<and>
     rs_total_bytes s \<le> rs_max_bytes s \<and> int (length (rs_cache s)) \<le> rs_max_entries s \<and>
     (\<forall>kv \<in> set (rs_cache s). 0 < re_size (snd kv))"

lemma bytes_of_simps [simp]:
  "bytes_of [] = 0" "bytes_of (kv # d) = re_size (snd kv) + bytes_of d" "bytes_of (c @ d) = bytes_of c + bytes_of d"
  by (simp_all add: bytes_of_def)

lemma bytes_of_del:
  "od_ok d \<Longrightarrow> bytes_of (od_del k d) = bytes_of d - (case od_get d k of None \<Rightarrow> 0 | Some e \<Rightarrow> re_size e)"
proof (induction d)
  case (Cons kv d)
  obtain j e where kv: "kv = (j, e)" by fastforce
  show ?case
  proof (cases "j = k")
    case True
    then have "od_del k d = d" using Cons.prems kv by (intro od_del_notin) auto
    then show ?thesis using True kv by simp
  next
    case False
    then show ?thesis using Cons kv by simp
  qed
qed simp

lemma replay_evict_suffix:
  "replay_evict me mb d t = (d', t') \<Longrightarrow> \<exists>p. d = p @ d' \<and> t' = t - bytes_of p"
proof (induction me mb d t rule: replay_evict.induct)
  case (2 me mb k v d t)
  show ?case
  proof (cases "int (length ((k, v) # d)) > me \<or> t > mb")
    case True
    then obtain p where "d = p @ d'" "t' = t - re_size v - bytes_of p" using 2 by auto
    then show ?thesis by (intro exI [of _ "(k, v) # p"]) simp
  next
    case False
    then show ?thesis using "2.prems" by auto
  qed
qed simp

lemma replay_evict_bounds:
  "replay_evict me mb d t = (d', t') \<Longrightarrow> t = bytes_of d \<Longrightarrow> 0 \<le> me \<Longrightarrow> 0 \<le> mb \<Longrightarrow>
   int (length d') \<le> me \<and> t' \<le> mb \<and> t' = bytes_of d'"
  by (induction me mb d t rule: replay_evict.induct) (auto split: if_splits)

lemma replay_evict_last:
  "replay_evict me mb (d @ [(k, e)]) t = (d', t') \<Longrightarrow> t = bytes_of (d @ [(k, e)]) \<Longrightarrow> 1 \<le> me \<Longrightarrow> re_size e \<le> mb \<Longrightarrow>
   \<exists>p. d' = p @ [(k, e)]"
proof (induction d arbitrary: t)
  case (Cons kv d)
  obtain j v where kv: "kv = (j, v)" by fastforce
  show ?case using Cons.IH [of "t - re_size v"] Cons.prems kv
    by (auto split: if_splits)
qed (auto split: if_splits)

lemma utf8_size_pos: "s \<noteq> [] \<Longrightarrow> 0 < utf8_size s"
  by (cases s) (auto simp: utf8_size_def)

text \<open>What a put leaves: the store unchanged, or the entry at the end of what was kept of the rest.\<close>

lemma replay_put_cases:
  assumes "replay_ok s" "0 \<le> rs_max_entries s" "0 \<le> rs_max_bytes s"
  obtains "replay_put k r now s = s" | d where
    "r \<noteq> []" "utf8_size r \<le> rs_max_bytes s"
    "rs_cache (replay_put k r now s) = d" "\<exists>p. od_del k (rs_cache s) @ [(k, \<lparr>re_reasoning = r,
        re_expires_at = now + rs_ttl_s s, re_size = utf8_size r\<rparr>)] = p @ d"
    "rs_total_bytes (replay_put k r now s) = bytes_of d" "int (length d) \<le> rs_max_entries s"
    "bytes_of d \<le> rs_max_bytes s"
proof (cases "r = [] \<or> utf8_size r > rs_max_bytes s")
  case True
  then show ?thesis using that(1) by (auto simp: replay_put_def Let_def)
next
  case False
  define e where "e = \<lparr>re_reasoning = r, re_expires_at = now + rs_ttl_s s, re_size = utf8_size r\<rparr>"
  define d0 where "d0 = od_del k (rs_cache s) @ [(k, e)]"
  define t where "t = rs_total_bytes s - (case od_get (rs_cache s) k of None \<Rightarrow> 0 | Some e \<Rightarrow> re_size e) + utf8_size r"
  obtain d t' where ev: "replay_evict (rs_max_entries s) (rs_max_bytes s) d0 t = (d, t')" by fastforce
  have t: "t = bytes_of d0" using assms(1) by (simp add: t_def d0_def e_def replay_ok_def bytes_of_del)
  have put: "replay_put k r now s = s\<lparr>rs_cache := d, rs_total_bytes := t'\<rparr>"
    using False ev unfolding replay_put_def Let_def e_def [symmetric] d0_def [symmetric] t_def [symmetric] by auto
  have "int (length d) \<le> rs_max_entries s \<and> t' \<le> rs_max_bytes s \<and> t' = bytes_of d"
    using replay_evict_bounds [OF ev t assms(2,3)] .
  then show ?thesis using that(2) [of d] False put replay_evict_suffix [OF ev] by (auto simp: d0_def e_def)
qed

lemma replay_put_frame [simp]:
  "rs_max_entries (replay_put k r now s) = rs_max_entries s" "rs_max_bytes (replay_put k r now s) = rs_max_bytes s"
  "rs_ttl_s (replay_put k r now s) = rs_ttl_s s"
  by (simp_all add: replay_put_def Let_def)

lemma replay_get_frame [simp]:
  "rs_max_entries (fst (replay_get k now s)) = rs_max_entries s" "rs_max_bytes (fst (replay_get k now s)) = rs_max_bytes s"
  "rs_ttl_s (fst (replay_get k now s)) = rs_ttl_s s"
  by (simp_all add: replay_get_def split: option.split)

lemma od_ok_del_snoc: "od_ok d \<Longrightarrow> od_ok (od_del k d @ [(k, v)])"
  by auto

lemma replay_put_ok:
  assumes "replay_ok s" "0 \<le> rs_max_entries s" "0 \<le> rs_max_bytes s"
  shows "replay_ok (replay_put k r now s)"
proof (rule replay_put_cases [OF assms, of k r now])
  fix d
  assume r: "r \<noteq> []" and c: "rs_cache (replay_put k r now s) = d"
    and p: "\<exists>p. od_del k (rs_cache s) @ [(k, \<lparr>re_reasoning = r,
        re_expires_at = now + rs_ttl_s s, re_size = utf8_size r\<rparr>)] = p @ d"
    and b: "rs_total_bytes (replay_put k r now s) = bytes_of d" "int (length d) \<le> rs_max_entries s"
      "bytes_of d \<le> rs_max_bytes s"
  obtain p where p: "od_del k (rs_cache s) @ [(k, \<lparr>re_reasoning = r,
        re_expires_at = now + rs_ttl_s s, re_size = utf8_size r\<rparr>)] = p @ d" using p by blast
  have "od_ok (p @ d)" unfolding p [symmetric] using assms(1) by (intro od_ok_del_snoc) (simp add: replay_ok_def)
  then have "od_ok d" by simp
  moreover have "0 < re_size (snd kv)" if "kv \<in> set d" for kv
  proof -
    have "kv \<in> set (od_del k (rs_cache s) @ [(k, \<lparr>re_reasoning = r,
        re_expires_at = now + rs_ttl_s s, re_size = utf8_size r\<rparr>)])" unfolding p using that by simp
    then show ?thesis using assms(1) r set_od_del [of k "rs_cache s"]
      by (auto simp: replay_ok_def utf8_size_pos)
  qed
  ultimately show ?thesis using c b by (simp add: replay_ok_def)
qed (use assms in simp)

lemma replay_get_ok:
  assumes "replay_ok s"
  shows "replay_ok (fst (replay_get k now s))"
proof (cases "od_get (rs_cache s) k")
  case (Some e)
  have pos: "0 < re_size e" using assms od_get_Some_in [OF Some] by (auto simp: replay_ok_def)
  have ok: "od_ok (rs_cache s)" using assms by (simp add: replay_ok_def)
  show ?thesis
  proof (cases "now > re_expires_at e")
    case True
    have "length (od_del k (rs_cache s)) \<le> length (rs_cache s)" by (rule length_od_del_le)
    then show ?thesis using assms Some True pos set_od_del [of k "rs_cache s"]
      by (auto simp: replay_get_def replay_ok_def bytes_of_del)
  next
    case False
    have "bytes_of (move_to_end k (rs_cache s)) = bytes_of (rs_cache s)"
      using ok Some by (simp add: move_to_end_def bytes_of_del)
    moreover have "set (move_to_end k (rs_cache s)) \<subseteq> set (rs_cache s)"
      using Some od_get_Some_in [OF Some] set_od_del [of k "rs_cache s"] by (auto simp: move_to_end_def)
    ultimately show ?thesis using assms Some False length_move_to_end [OF ok] move_to_end_ok [OF ok]
      by (auto simp: replay_get_def replay_ok_def)
  qed
qed (use assms in \<open>simp add: replay_get_def\<close>)


subsection \<open>Reasoning goes back to its own turn\<close>

text \<open>A history: answered turns, whose reasoning may be stored, and requests, whose messages may be
  restored, each with the outcome of its gate, its endpoint, its time and its payload.\<close>

datatype replay_event =
    Answered bool string real payload json json json
  | Asked bool string real payload

fun replay_step ::
    "(string \<Rightarrow> string) \<Rightarrow> (string \<Rightarrow> json option) \<Rightarrow> replay_state \<Rightarrow> replay_event \<Rightarrow> replay_state" where
  "replay_step sha loads st (Answered gate ep now p content tool_calls reasoning) =
     store_reasoning_replay sha loads gate ep now p content tool_calls reasoning st"
| "replay_step sha loads st (Asked gate ep now p) = snd (apply_reasoning_replay_restore sha loads gate ep now p st)"

definition replay_fresh :: "int \<Rightarrow> int \<Rightarrow> real \<Rightarrow> replay_state" where
  "replay_fresh entries bytes ttl = \<lparr>rp_store = new_replay_store entries bytes ttl, rp_totals = zero_tally, rp_by_endpoint = []\<rparr>"

text \<open>A turn of the history was answered with this reasoning, no longer ago than the time to live, and
  is stored under the key.\<close>

definition came_from ::
    "(string \<Rightarrow> string) \<Rightarrow> (string \<Rightarrow> json option) \<Rightarrow> replay_event list \<Rightarrow> string \<Rightarrow> string \<Rightarrow> real \<Rightarrow> real \<Rightarrow> bool" where
  "came_from sha loads hist key r expires ttl \<longleftrightarrow> (\<exists>ep t p content tool_calls ms.
     Answered True ep t p content tool_calls (JStr r) \<in> set hist \<and> jget p ''messages'' = JList ms \<and>
     replay_key sha loads ms (jget p ''system'') content tool_calls = key \<and> expires = t + ttl)"

definition replay_inv ::
    "(string \<Rightarrow> string) \<Rightarrow> (string \<Rightarrow> json option) \<Rightarrow> replay_event list \<Rightarrow> int \<Rightarrow> int \<Rightarrow> real \<Rightarrow> replay_store \<Rightarrow> bool" where
  "replay_inv sha loads hist entries bytes ttl s \<longleftrightarrow> replay_ok s \<and> rs_max_entries s = entries \<and> rs_max_bytes s = bytes \<and>
     rs_ttl_s s = ttl \<and> (\<forall>k e. od_get (rs_cache s) k = Some e \<longrightarrow>
       came_from sha loads hist k (re_reasoning e) (re_expires_at e) ttl)"

lemma came_from_mono: "came_from sha loads hist k r e ttl \<Longrightarrow> set hist \<subseteq> set hist' \<Longrightarrow> came_from sha loads hist' k r e ttl"
  unfolding came_from_def by blast

lemma replay_get_sub: "od_get (rs_cache (fst (replay_get k now s))) j = Some e \<Longrightarrow> od_get (rs_cache s) j = Some e"
  by (auto simp: replay_get_def move_to_end_get split: option.splits if_splits)

lemma replay_inv_get:
  "replay_inv sha loads hist entries bytes ttl s \<Longrightarrow> replay_inv sha loads hist entries bytes ttl (fst (replay_get k now s))"
  unfolding replay_inv_def using replay_get_ok [of s k now] replay_get_sub [of k now s] by (simp only: replay_get_frame) blast

lemma tally_store [simp]: "rp_store (tally_both ep f st) = rp_store st" "rp_store (open_tally ep st) = rp_store st"
  by (simp_all add: tally_both_def open_tally_def)

lemma restore_message_store:
  "rp_store (snd (restore_message sha loads ep system now before m st)) = rp_store st \<or>
   (\<exists>k. rp_store (snd (restore_message sha loads ep system now before m st)) = fst (replay_get k now (rp_store st)))"
  by (auto simp: restore_message_def split: json.splits option.splits prod.splits) (metis fst_conv)+

lemma restore_from_inv:
  "replay_inv sha loads hist entries bytes ttl (rp_store st) \<Longrightarrow>
   replay_inv sha loads hist entries bytes ttl (rp_store (snd (restore_from sha loads ep system now before ms st)))"
proof (induction ms arbitrary: before st)
  case (Cons m ms)
  obtain m' st1 where r: "restore_message sha loads ep system now before m st = (m', st1)" by fastforce
  have "replay_inv sha loads hist entries bytes ttl (rp_store st1)"
    using restore_message_store [of sha loads ep system now before m st] r Cons.prems replay_inv_get by auto
  from Cons.IH [OF this, of "before @ [m]"] show ?case using r by (simp add: split_beta)
qed simp

lemma replay_inv_put:
  assumes "replay_inv sha loads hist entries bytes ttl s" "0 \<le> entries" "0 \<le> bytes"
    and "came_from sha loads hist k r (now + ttl) ttl"
  shows "replay_inv sha loads hist entries bytes ttl (replay_put k r now s)"
proof -
  have ok: "replay_ok s" "0 \<le> rs_max_entries s" "0 \<le> rs_max_bytes s" using assms by (simp_all add: replay_inv_def)
  have "came_from sha loads hist j (re_reasoning e) (re_expires_at e) ttl"
    if "od_get (rs_cache (replay_put k r now s)) j = Some e" for j e
  proof (rule replay_put_cases [OF ok, of k r now])
    assume "replay_put k r now s = s"
    then show ?thesis using that assms(1) by (simp add: replay_inv_def)
  next
    fix d
    assume c: "rs_cache (replay_put k r now s) = d" and "\<exists>p. od_del k (rs_cache s) @ [(k, \<lparr>re_reasoning = r,
        re_expires_at = now + rs_ttl_s s, re_size = utf8_size r\<rparr>)] = p @ d"
    then obtain p where p: "od_del k (rs_cache s) @ [(k, \<lparr>re_reasoning = r,
        re_expires_at = now + rs_ttl_s s, re_size = utf8_size r\<rparr>)] = p @ d" by blast
    have "(j, e) \<in> set (p @ d)" using that od_get_Some_in c by fastforce
    then have "(j, e) \<in> set (rs_cache s) \<or> j = k \<and> e = \<lparr>re_reasoning = r, re_expires_at = now + rs_ttl_s s, re_size = utf8_size r\<rparr>"
      unfolding p [symmetric] using set_od_del [of k "rs_cache s"] by auto
    then show ?thesis
    proof
      assume "(j, e) \<in> set (rs_cache s)"
      then have "od_get (rs_cache s) j = Some e" using ok(1) by (intro od_get_in) (simp_all add: replay_ok_def)
      then show ?thesis using assms(1) unfolding replay_inv_def by blast
    qed (use assms(1,4) in \<open>simp add: replay_inv_def\<close>)
  qed
  then show ?thesis using assms(1) replay_put_ok [OF ok] by (simp add: replay_inv_def)
qed

lemma replay_inv_mono:
  "replay_inv sha loads hist entries bytes ttl s \<Longrightarrow> set hist \<subseteq> set hist' \<Longrightarrow> replay_inv sha loads hist' entries bytes ttl s"
  unfolding replay_inv_def using came_from_mono by blast

lemma replay_step_inv:
  assumes "replay_inv sha loads hist entries bytes ttl (rp_store st)" "0 \<le> entries" "0 \<le> bytes"
  shows "replay_inv sha loads (hist @ [ev]) entries bytes ttl (rp_store (replay_step sha loads st ev))"
proof -
  have old: "replay_inv sha loads (hist @ [ev]) entries bytes ttl (rp_store st)"
    by (rule replay_inv_mono [OF assms(1)]) auto
  show ?thesis
  proof (cases ev)
    case (Answered gate ep now p content tc reasoning)
    show ?thesis
    proof (cases "gate \<and> (\<exists>r ms. reasoning = JStr r \<and> py_strip r \<noteq> [] \<and> jget p ''messages'' = JList ms)")
      case True
      then obtain r ms where r: "gate" "reasoning = JStr r" "py_strip r \<noteq> []" "jget p ''messages'' = JList ms" by blast
      have "came_from sha loads (hist @ [ev]) (replay_key sha loads ms (jget p ''system'') content tc) r (now + ttl) ttl"
      proof -
        have "Answered True ep now p content tc (JStr r) \<in> set (hist @ [ev])" using r Answered by simp
        then show ?thesis unfolding came_from_def using r(4) by blast
      qed
      then show ?thesis using replay_inv_put [OF old assms(2,3)] r Answered
        by (simp add: store_reasoning_replay_def Let_def)
    next
      case False
      then have "rp_store (replay_step sha loads st ev) = rp_store st"
        using Answered by (auto simp: store_reasoning_replay_def Let_def split: json.splits)
      then show ?thesis using old by simp
    qed
  next
    case (Asked gate ep now p)
    have "replay_inv sha loads (hist @ [ev]) entries bytes ttl
        (rp_store (snd (restore_from sha loads ep (jget p ''system'') now [] ms (open_tally ep st))))" for ms
      using restore_from_inv old by simp
    moreover have "rp_store (replay_step sha loads st ev) = rp_store st \<or> (\<exists>ms. rp_store (replay_step sha loads st ev)
        = rp_store (snd (restore_from sha loads ep (jget p ''system'') now [] ms (open_tally ep st))))"
      using Asked by (auto simp: apply_reasoning_replay_restore_def split_beta split: json.splits)
    ultimately show ?thesis using old by metis
  qed
qed

lemma replay_run_inv:
  assumes "0 \<le> entries" "0 \<le> bytes"
  shows "replay_inv sha loads hist entries bytes ttl (rp_store (foldl (replay_step sha loads) (replay_fresh entries bytes ttl) hist))"
proof (induction hist rule: rev_induct)
  case Nil
  then show ?case using assms by (simp add: replay_inv_def replay_fresh_def new_replay_store_def replay_ok_def)
next
  case (snoc ev hist)
  then show ?case using replay_step_inv [OF snoc assms] by simp
qed


text \<open>What may happen to a message.\<close>

definition restored_as :: "json \<Rightarrow> string \<Rightarrow> json \<Rightarrow> bool" where
  "restored_as m r m' \<longleftrightarrow> (\<exists>kvs. m = JObj kvs \<and> jget kvs ''role'' = JStr ''assistant'' \<and>
     m' = JObj (od_put ''reasoning_content'' (JStr r) kvs))"

definition message_turn :: "(string \<Rightarrow> json option) \<Rightarrow> json list \<Rightarrow> json \<Rightarrow> json \<Rightarrow> json" where
  "message_turn loads before system m = (case m of
     JObj kvs \<Rightarrow> replay_turn loads before system (jget kvs ''content'') (jget kvs ''tool_calls'') | _ \<Rightarrow> JNull)"

lemma replay_get_hit:
  "replay_get k now s = (s', Some r) \<Longrightarrow> \<exists>e. od_get (rs_cache s) k = Some e \<and> re_reasoning e = r \<and> now \<le> re_expires_at e"
  by (auto simp: replay_get_def split: option.splits if_splits)

lemma restore_message_cases:
  assumes "restore_message sha loads ep system now before m st = (m', st')"
  shows "m' = m \<or> (\<exists>r e. restored_as m r m' \<and>
    od_get (rs_cache (rp_store st)) (sha (canonical_str (message_turn loads before system m))) = Some e \<and>
    re_reasoning e = r \<and> now \<le> re_expires_at e)"
proof (cases m)
  case (JObj kvs)
  define k where "k = replay_key sha loads before system (jget kvs ''content'') (jget kvs ''tool_calls'')"
  obtain s' x where g: "replay_get k now (rp_store st) = (s', x)" by fastforce
  show ?thesis
  proof (cases "m' = m")
    case False
    then obtain r where "x = Some r" "jget kvs ''role'' = JStr ''assistant''"
      "m' = JObj (od_put ''reasoning_content'' (JStr r) kvs)"
      using assms g JObj by (auto simp: restore_message_def k_def [symmetric] split: if_splits option.splits)
    then show ?thesis using replay_get_hit [of k now "rp_store st" s' r] g JObj
      by (auto simp: restored_as_def message_turn_def k_def replay_key_def)
  qed simp
qed (use assms in \<open>simp_all add: restore_message_def\<close>)

lemma restore_from_nth:
  "replay_inv sha loads hist entries bytes ttl (rp_store st) \<Longrightarrow>
   restore_from sha loads ep system now before ms st = (ms', st') \<Longrightarrow>
   length ms' = length ms \<and> (\<forall>i < length ms. ms' ! i = ms ! i \<or> (\<exists>r t. restored_as (ms ! i) r (ms' ! i) \<and>
     came_from sha loads hist (sha (canonical_str (message_turn loads (before @ take i ms) system (ms ! i)))) r t ttl \<and> now \<le> t))"
proof (induction ms arbitrary: before st ms' st')
  case (Cons m ms)
  obtain m1 st1 where r: "restore_message sha loads ep system now before m st = (m1, st1)" by fastforce
  obtain ms1 st2 where rest: "restore_from sha loads ep system now (before @ [m]) ms st1 = (ms1, st2)" by fastforce
  have ms': "ms' = m1 # ms1" using Cons.prems(2) r rest by simp
  have inv1: "replay_inv sha loads hist entries bytes ttl (rp_store st1)"
    using restore_message_store [of sha loads ep system now before m st] r Cons.prems(1) replay_inv_get by auto
  note IH = Cons.IH [OF inv1 rest]
  have head: "m1 = m \<or> (\<exists>r t. restored_as m r m1 \<and>
     came_from sha loads hist (sha (canonical_str (message_turn loads before system m))) r t ttl \<and> now \<le> t)"
    using restore_message_cases [OF r] Cons.prems(1) unfolding replay_inv_def by metis
  show ?case
  proof (intro conjI allI impI)
    show "length ms' = length (m # ms)" using ms' IH by simp
    fix i assume "i < length (m # ms)"
    then show "ms' ! i = (m # ms) ! i \<or> (\<exists>r t. restored_as ((m # ms) ! i) r (ms' ! i) \<and>
      came_from sha loads hist (sha (canonical_str (message_turn loads (before @ take i (m # ms)) system ((m # ms) ! i)))) r t ttl \<and> now \<le> t)"
      using head IH ms' by (cases i) auto
  qed
qed simp

lemma canonical_str_inj:
  "json_ok fl v \<Longrightarrow> json_ok fl w \<Longrightarrow> canonical_str v = canonical_str w \<Longrightarrow> canonical v = canonical w"
  using compact_inj [OF canonical_ok canonical_ok, of fl v w "[]" "[]"] by (simp add: canonical_str_def ended_def)

text \<open>A conversation and its last turn as one text: every message without its reasoning, the content
  stripped, the tool calls normalised, the system prompt if there is one.\<close>

definition turn_text :: "(string \<Rightarrow> json option) \<Rightarrow> json list \<Rightarrow> json \<Rightarrow> json \<Rightarrow> json \<Rightarrow> string" where
  "turn_text loads before system content tool_calls = canonical_str (JObj
     ((''messages'', JList (map normalize_message before)) # (''content'', stripped_content content) #
      (''tool_calls'', normalize_tool_calls loads tool_calls) #
      (if system = JNull then [] else [(''system'', system)])))"

lemma turn_text_replay: "canonical_str (replay_turn loads before system content tool_calls) = turn_text loads before system content tool_calls"
  by (simp add: replay_turn_def turn_text_def)

text \<open>C27: Reasoning is only ever put back on the turn it came from. After any history of answers and
  requests, a message of a request is relayed as it was sent, or it is an assistant message and has
  got the reasoning some earlier answer was stored with, no longer ago than the time to live, whose
  conversation prefix, system prompt, content and tool calls have the same canonical text as those
  of this message; the store stays within its two bounds. The digest is taken to be collision free.\<close>

theorem replayed_to_its_own_turn:
  assumes "inj sha" "0 \<le> entries" "0 \<le> bytes"
    and "st = foldl (replay_step sha loads) (replay_fresh entries bytes ttl) hist"
    and "jget p ''messages'' = JList ms"
    and "apply_reasoning_replay_restore sha loads gate ep now p st = (q, st')"
  shows "\<exists>ms'. jget q ''messages'' = JList ms' \<and> length ms' = length ms \<and>
    (\<forall>i < length ms. ms' ! i = ms ! i \<or> (\<exists>r ep' t p' content tool_calls before.
       restored_as (ms ! i) r (ms' ! i) \<and> now \<le> t + ttl \<and>
       Answered True ep' t p' content tool_calls (JStr r) \<in> set hist \<and> jget p' ''messages'' = JList before \<and>
       (\<exists>kvs. ms ! i = JObj kvs \<and> turn_text loads before (jget p' ''system'') content tool_calls
         = turn_text loads (take i ms) (jget p ''system'') (jget kvs ''content'') (jget kvs ''tool_calls'')))) \<and>
    int (length (rs_cache (rp_store st))) \<le> entries \<and> bytes_of (rs_cache (rp_store st)) \<le> bytes"
proof -
  have inv: "replay_inv sha loads hist entries bytes ttl (rp_store st)"
    unfolding assms(4) by (rule replay_run_inv [OF assms(2,3)])
  then have bounds: "int (length (rs_cache (rp_store st))) \<le> entries" "bytes_of (rs_cache (rp_store st)) \<le> bytes"
    by (auto simp: replay_inv_def replay_ok_def)
  show ?thesis
  proof (cases gate)
    case True
    obtain ms' st2 where r: "restore_from sha loads ep (jget p ''system'') now [] ms (open_tally ep st) = (ms', st2)" by fastforce
    have q: "jget q ''messages'' = JList ms'"
      using assms(5,6) r True by (auto simp: apply_reasoning_replay_restore_def jget_put split: if_splits)
    have "replay_inv sha loads hist entries bytes ttl (rp_store (open_tally ep st))" using inv by simp
    note nth = restore_from_nth [OF this r]
    have "\<exists>ep' t p' content tool_calls before. now \<le> t + ttl \<and>
       Answered True ep' t p' content tool_calls (JStr x) \<in> set hist \<and> jget p' ''messages'' = JList before \<and>
       canonical_str (replay_turn loads before (jget p' ''system'') content tool_calls) = turn"
      if "came_from sha loads hist (sha turn) x t ttl" "now \<le> t" for x t turn
      using that assms(1) unfolding came_from_def replay_key_def inj_def by metis
    note origin = this
    have "\<exists>ep' t p' content tool_calls before. now \<le> t + ttl \<and>
       Answered True ep' t p' content tool_calls (JStr x) \<in> set hist \<and> jget p' ''messages'' = JList before \<and>
       (\<exists>kvs. ms ! i = JObj kvs \<and> turn_text loads before (jget p' ''system'') content tool_calls
         = turn_text loads (take i ms) (jget p ''system'') (jget kvs ''content'') (jget kvs ''tool_calls''))"
      if res: "restored_as (ms ! i) x m'" and src: "now \<le> t"
        "came_from sha loads hist (sha (canonical_str (message_turn loads (take i ms) (jget p ''system'') (ms ! i)))) x t ttl" for x t i m'
    proof -
      obtain kvs where kvs: "ms ! i = JObj kvs" using res by (auto simp: restored_as_def)
      have "canonical_str (message_turn loads (take i ms) (jget p ''system'') (ms ! i))
          = turn_text loads (take i ms) (jget p ''system'') (jget kvs ''content'') (jget kvs ''tool_calls'')"
        by (simp add: kvs message_turn_def turn_text_replay)
      then show ?thesis using origin [OF src(2,1)] kvs unfolding turn_text_replay by metis
    qed
    then show ?thesis using q nth bounds by (metis append_Nil)
  next
    case False
    then show ?thesis using assms(5,6) bounds by (simp add: apply_reasoning_replay_restore_def)
  qed
qed


definition replay_demo_ask :: payload where
  "replay_demo_ask = [(''messages'', JList [JObj [(''role'', JStr ''user''), (''content'', JStr ''hi'')]])]"

definition replay_demo_next :: payload where
  "replay_demo_next = [(''messages'', JList [JObj [(''role'', JStr ''user''), (''content'', JStr ''hi'')],
     JObj [(''role'', JStr ''assistant''), (''content'', JStr ''ok '')]])]"

definition replay_demo_hist :: "replay_event list" where
  "replay_demo_hist = [Answered True ''chat'' 0 replay_demo_ask (JStr ''ok'') JNull (JStr ''hm'')]"

definition replay_demo_state :: replay_state where
  "replay_demo_state = foldl (replay_step id (\<lambda>_. None)) (replay_fresh 2 10 60) replay_demo_hist"

theorem replayed_to_its_own_turn_witness:
  "jget (fst (apply_reasoning_replay_restore id (\<lambda>_. None) True ''chat'' 5 replay_demo_next replay_demo_state)) ''messages''
     = JList [JObj [(''role'', JStr ''user''), (''content'', JStr ''hi'')],
         JObj [(''role'', JStr ''assistant''), (''content'', JStr ''ok ''), (''reasoning_content'', JStr ''hm'')]] \<and>
   int (length (rs_cache (rp_store replay_demo_state))) \<le> 2 \<and> bytes_of (rs_cache (rp_store replay_demo_state)) \<le> 10"
proof -
  have "jget (fst (apply_reasoning_replay_restore id (\<lambda>_. None) True ''chat'' 5 replay_demo_next replay_demo_state)) ''messages''
     = JList [JObj [(''role'', JStr ''user''), (''content'', JStr ''hi'')],
         JObj [(''role'', JStr ''assistant''), (''content'', JStr ''ok ''), (''reasoning_content'', JStr ''hm'')]]"
    by code_simp
  moreover have msgs: "jget replay_demo_next ''messages'' = JList [JObj [(''role'', JStr ''user''), (''content'', JStr ''hi'')],
     JObj [(''role'', JStr ''assistant''), (''content'', JStr ''ok '')]]" by code_simp
  moreover obtain q st' where q: "apply_reasoning_replay_restore id (\<lambda>_. None) True ''chat'' 5 replay_demo_next replay_demo_state = (q, st')"
    by fastforce
  ultimately show ?thesis
    using replayed_to_its_own_turn [OF inj_on_id _ _ replay_demo_state_def msgs q] by simp
qed

subsection \<open>A stored turn comes back\<close>

lemma replay_key_same:
  "map normalize_message before = map normalize_message before' \<Longrightarrow>
   stripped_content c = stripped_content c' \<Longrightarrow> normalize_tool_calls loads tc = normalize_tool_calls loads tc' \<Longrightarrow>
   replay_key sha loads before system c tc = replay_key sha loads before' system c' tc'"
  by (simp add: replay_key_def replay_turn_def)

text \<open>Restoring changes no key: an enriched message is normalised to the message it was.\<close>

lemma restored_normalizes:
  "restored_as m r m' \<Longrightarrow> normalize_message m' = normalize_message m"
proof -
  have "filter (\<lambda>(k, v). k \<noteq> ''reasoning'' \<and> k \<noteq> ''reasoning_content'') (od_put ''reasoning_content'' w kvs)
      = filter (\<lambda>(k, v). k \<noteq> ''reasoning'' \<and> k \<noteq> ''reasoning_content'') kvs" for w :: json and kvs
    by (induction kvs) auto
  then show "restored_as m r m' \<Longrightarrow> normalize_message m' = normalize_message m"
    by (auto simp: restored_as_def normalize_message_def)
qed

lemma replay_put_get:
  assumes "replay_ok s" "1 \<le> rs_max_entries s" "r \<noteq> []" "utf8_size r \<le> rs_max_bytes s"
  shows "od_get (rs_cache (replay_put k r now s)) k
    = Some \<lparr>re_reasoning = r, re_expires_at = now + rs_ttl_s s, re_size = utf8_size r\<rparr>"
proof -
  define e where "e = \<lparr>re_reasoning = r, re_expires_at = now + rs_ttl_s s, re_size = utf8_size r\<rparr>"
  define d0 where "d0 = od_del k (rs_cache s) @ [(k, e)]"
  define t where "t = rs_total_bytes s - (case od_get (rs_cache s) k of None \<Rightarrow> 0 | Some e \<Rightarrow> re_size e) + utf8_size r"
  obtain d t' where ev: "replay_evict (rs_max_entries s) (rs_max_bytes s) d0 t = (d, t')" by fastforce
  have t: "t = bytes_of d0" using assms(1) by (simp add: t_def d0_def e_def replay_ok_def bytes_of_del)
  have put: "rs_cache (replay_put k r now s) = d"
    using assms(3,4) ev unfolding replay_put_def Let_def e_def [symmetric] d0_def [symmetric] t_def [symmetric] by simp
  obtain p where "d = p @ [(k, e)]"
    using replay_evict_last [OF ev [unfolded d0_def] t [unfolded d0_def]] assms(2,4) by (auto simp: e_def)
  moreover obtain c where "d0 = c @ d" using replay_evict_suffix [OF ev] by blast
  moreover have "od_ok d0" using assms(1) unfolding d0_def by (intro od_ok_del_snoc) (simp add: replay_ok_def)
  ultimately have "od_ok d" "(k, e) \<in> set d" by auto
  then show ?thesis using put by (simp add: e_def)
qed

lemma replay_get_keeps:
  "od_get (rs_cache s) k = Some e \<Longrightarrow> now \<le> re_expires_at e \<Longrightarrow> od_get (rs_cache (fst (replay_get j now s))) k = Some e"
  by (auto simp: replay_get_def move_to_end_get split: option.split)

lemma restore_from_keeps:
  "od_get (rs_cache (rp_store st)) k = Some e \<Longrightarrow> now \<le> re_expires_at e \<Longrightarrow>
   od_get (rs_cache (rp_store (snd (restore_from sha loads ep system now before ms st)))) k = Some e"
proof (induction ms arbitrary: before st)
  case (Cons m ms)
  obtain m' st1 where r: "restore_message sha loads ep system now before m st = (m', st1)" by fastforce
  have "od_get (rs_cache (rp_store st1)) k = Some e"
    using restore_message_store [of sha loads ep system now before m st] r Cons.prems replay_get_keeps by auto
  from Cons.IH [OF this Cons.prems(2), of "before @ [m]"] show ?case using r by (simp add: split_beta)
qed simp

lemma restore_from_append:
  "restore_from sha loads ep system now before (ms @ ns) st =
     (case restore_from sha loads ep system now before ms st of (ms', st1) \<Rightarrow>
      case restore_from sha loads ep system now (before @ ms) ns st1 of (ns', st2) \<Rightarrow> (ms' @ ns', st2))"
  by (induction ms arbitrary: before st) (simp_all add: split_beta)

lemma restore_from_length: "length (fst (restore_from sha loads ep system now before ms st)) = length ms"
  by (induction ms arbitrary: before st) (simp_all add: split_beta)

text \<open>What may happen between a store and the request that replays it: other turns are stored and other
  requests are restored. What an event may add to the store, and whether it stores under a key.\<close>

fun event_entries :: "replay_event \<Rightarrow> int" where
  "event_entries (Answered _ _ _ _ _ _ _) = 1"
| "event_entries (Asked _ _ _ _) = 0"

fun event_bytes :: "replay_event \<Rightarrow> int" where
  "event_bytes (Answered _ _ _ _ _ _ (JStr r)) = utf8_size r"
| "event_bytes _ = 0"

fun leaves_alone :: "(string \<Rightarrow> string) \<Rightarrow> (string \<Rightarrow> json option) \<Rightarrow> string \<Rightarrow> real \<Rightarrow> replay_event \<Rightarrow> bool" where
  "leaves_alone sha loads k expires (Answered _ _ _ p content tool_calls _) =
     (case jget p ''messages'' of JList ms \<Rightarrow> replay_key sha loads ms (jget p ''system'') content tool_calls \<noteq> k | _ \<Rightarrow> True)"
| "leaves_alone sha loads k expires (Asked _ _ now _) = (now \<le> expires)"

text \<open>An entry in a store with room for \<open>n\<close> more entries and \<open>b\<close> more bytes.\<close>

definition kept_with_room :: "string \<Rightarrow> replay_entry \<Rightarrow> int \<Rightarrow> int \<Rightarrow> replay_store \<Rightarrow> bool" where
  "kept_with_room k e n b s \<longleftrightarrow> replay_ok s \<and> od_get (rs_cache s) k = Some e \<and>
     int (length (rs_cache s)) + n \<le> rs_max_entries s \<and> rs_total_bytes s + b \<le> rs_max_bytes s"

lemma utf8_size_nonneg: "0 \<le> utf8_size r"
  by (simp add: utf8_size_def)

lemma replay_evict_room: "int (length d) \<le> me \<Longrightarrow> t \<le> mb \<Longrightarrow> replay_evict me mb d t = (d, t)"
  by (cases d) auto

lemma put_keeps_room:
  assumes "kept_with_room k e (1 + n) (utf8_size r + b) s" "j \<noteq> k" "0 \<le> n" "0 \<le> b"
  shows "kept_with_room k e n b (replay_put j r now s)"
proof (cases "r = [] \<or> utf8_size r > rs_max_bytes s")
  case True
  then show ?thesis
    using assms(1) utf8_size_nonneg[of r] by (auto simp: replay_put_def Let_def kept_with_room_def)
next
  case False
  define x where "x = \<lparr>re_reasoning = r, re_expires_at = now + rs_ttl_s s, re_size = utf8_size r\<rparr>"
  define d where "d = od_del j (rs_cache s) @ [(j, x)]"
  define t where "t = rs_total_bytes s - (case od_get (rs_cache s) j of None \<Rightarrow> 0 | Some e \<Rightarrow> re_size e) + utf8_size r"
  have ok: "replay_ok s" using assms(1) by (simp add: kept_with_room_def)
  have old: "0 \<le> (case od_get (rs_cache s) j of None \<Rightarrow> 0 | Some e \<Rightarrow> re_size e)"
    using ok by (auto simp: replay_ok_def dest: od_get_Some_in split: option.split)
  have len: "int (length d) + n \<le> rs_max_entries s" and bytes: "t + b \<le> rs_max_bytes s"
    using assms(1) old length_od_del_le[of j "rs_cache s"] by (auto simp: d_def t_def kept_with_room_def)
  have "replay_evict (rs_max_entries s) (rs_max_bytes s) d t = (d, t)"
    by (rule replay_evict_room) (use len bytes assms(3,4) in linarith)+
  then have put: "replay_put j r now s = s\<lparr>rs_cache := d, rs_total_bytes := t\<rparr>"
    using False unfolding replay_put_def Let_def x_def [symmetric] d_def [symmetric] t_def [symmetric] by auto
  have pos: "0 \<le> rs_max_entries s" "0 \<le> rs_max_bytes s" using len bytes False assms(3,4) utf8_size_nonneg[of r] by linarith+
  have "od_get d k = od_get (rs_cache s) k" using assms(2) unfolding d_def by (simp add: map_add_def split: option.split)
  then show ?thesis
    using replay_put_ok[OF ok pos, of j r now] assms(1) len bytes unfolding put by (simp add: kept_with_room_def)
qed

lemma get_keeps_room:
  assumes "kept_with_room k e n b s" "now \<le> re_expires_at e"
  shows "kept_with_room k e n b (fst (replay_get j now s))"
proof -
  have ok: "replay_ok s" using assms(1) by (simp add: kept_with_room_def)
  have "length (rs_cache (fst (replay_get j now s))) \<le> length (rs_cache s)"
    using length_od_del_le[of j "rs_cache s"] length_move_to_end[of "rs_cache s" j] ok
    by (auto simp: replay_get_def replay_ok_def split: option.split)
  moreover have "rs_total_bytes (fst (replay_get j now s)) \<le> rs_total_bytes s"
    using ok by (auto simp: replay_get_def replay_ok_def dest!: od_get_Some_in split: option.split)
  ultimately show ?thesis
    using assms replay_get_ok[OF ok, of j now] replay_get_keeps[of s k e now j] by (simp add: kept_with_room_def)
qed

lemma restore_keeps_room:
  "kept_with_room k e n b (rp_store st) \<Longrightarrow> now \<le> re_expires_at e \<Longrightarrow>
   kept_with_room k e n b (rp_store (snd (restore_from sha loads ep system now before ms st)))"
proof (induction ms arbitrary: before st)
  case (Cons m ms)
  obtain m' st1 where r: "restore_message sha loads ep system now before m st = (m', st1)" by fastforce
  have "kept_with_room k e n b (rp_store st1)"
    using restore_message_store [of sha loads ep system now before m st] r Cons.prems get_keeps_room by auto
  from Cons.IH [OF this Cons.prems(2), of "before @ [m]"] show ?case using r by (simp add: split_beta)
qed simp

lemma step_keeps_room:
  assumes "kept_with_room k e (event_entries ev + n) (event_bytes ev + b) (rp_store st)" "leaves_alone sha loads k (re_expires_at e) ev"
    "0 \<le> n" "0 \<le> b"
  shows "kept_with_room k e n b (rp_store (replay_step sha loads st ev))"
proof (cases ev)
  case (Answered gate ep now p content tool_calls reasoning)
  have "0 \<le> event_bytes ev" using utf8_size_nonneg by (cases ev rule: event_bytes.cases) simp_all
  then have weaker: "kept_with_room k e n b (rp_store st)" using assms(1) by (simp add: kept_with_room_def Answered)
  show ?thesis
  proof (cases reasoning)
    case (JStr r)
    have "kept_with_room k e n b (replay_put j r now (rp_store st))" if "j \<noteq> k" for j
      by (rule put_keeps_room) (use assms(1,3,4) that in \<open>simp_all add: Answered JStr\<close>)
    then show ?thesis using weaker assms(2)
      by (auto simp: Answered JStr store_reasoning_replay_def Let_def split: json.splits)
  qed (use weaker in \<open>simp_all add: Answered store_reasoning_replay_def Let_def\<close>)
next
  case (Asked gate ep now p)
  then show ?thesis
    using assms(1,2) restore_keeps_room[of k e n b "open_tally ep st" now]
    by (auto simp: apply_reasoning_replay_restore_def split_beta split: json.split)
qed

lemma event_costs_nonneg: "0 \<le> sum_list (map event_entries evs)" "0 \<le> sum_list (map event_bytes evs)"
proof -
  have "0 \<le> event_entries ev" for ev by (cases ev) simp_all
  moreover have "0 \<le> event_bytes ev" for ev by (cases ev rule: event_bytes.cases) (simp_all add: utf8_size_nonneg)
  ultimately show "0 \<le> sum_list (map event_entries evs)" "0 \<le> sum_list (map event_bytes evs)"
    by (induction evs) (simp_all add: add_nonneg_nonneg)
qed

lemma run_keeps_room:
  "kept_with_room k e (sum_list (map event_entries evs)) (sum_list (map event_bytes evs)) (rp_store st) \<Longrightarrow>
   list_all (leaves_alone sha loads k (re_expires_at e)) evs \<Longrightarrow>
   od_get (rs_cache (rp_store (foldl (replay_step sha loads) st evs))) k = Some e"
proof (induction evs arbitrary: st)
  case (Cons ev evs)
  have "kept_with_room k e (sum_list (map event_entries evs)) (sum_list (map event_bytes evs)) (rp_store (replay_step sha loads st ev))"
    by (rule step_keeps_room) (use Cons.prems event_costs_nonneg in simp_all)
  from Cons.IH[OF this] Cons.prems(2) show ?case by simp
qed (simp add: kept_with_room_def)

text \<open>C28: A stored turn is restored by a later request. Let the answer to a request be stored, and let
  other turns be stored and other requests be restored after it, none of them under the same key and
  none after the entry expires, in a store that has room for all of them. Then a request within the
  time to live that replays the messages, enriched or not, followed by the answer without its
  reasoning (its content up to surrounding blanks, its tool calls up to ids and the spelling of their
  arguments), gets the stored reasoning in that message. The answer has to fit the store.\<close>

theorem stored_turn_is_restored:
  assumes "replay_ok (rp_store st)" "1 \<le> rs_max_entries (rp_store st)"
    and "py_strip r \<noteq> []" "utf8_size r \<le> rs_max_bytes (rp_store st)"
    and "jget p ''messages'' = JList ms" "jget q ''messages'' = JList (ms' @ JObj kvs # later)"
    and "map normalize_message ms' = map normalize_message ms" "jget q ''system'' = jget p ''system''"
    and "jget kvs ''role'' = JStr ''assistant''" "\<not> truthy (jget kvs ''reasoning'')" "\<not> truthy (jget kvs ''reasoning_content'')"
    and "stripped_content (jget kvs ''content'') = stripped_content content"
    and "normalize_tool_calls loads (jget kvs ''tool_calls'') = normalize_tool_calls loads tool_calls"
    and "now' \<le> now + rs_ttl_s (rp_store st)"
    and "st1 = store_reasoning_replay sha loads True ep now p content tool_calls (JStr r) st"
    and "list_all (leaves_alone sha loads (replay_key sha loads ms (jget p ''system'') content tool_calls) (now + rs_ttl_s (rp_store st))) evs"
    and "int (length (rs_cache (rp_store st1))) + sum_list (map event_entries evs) \<le> rs_max_entries (rp_store st)"
    and "rs_total_bytes (rp_store st1) + sum_list (map event_bytes evs) \<le> rs_max_bytes (rp_store st)"
    and "st2 = foldl (replay_step sha loads) st1 evs"
  shows "\<exists>before after. jget (fst (apply_reasoning_replay_restore sha loads True ep' now' q st2)) ''messages''
      = JList (before @ JObj (od_put ''reasoning_content'' (JStr r) kvs) # after) \<and> length before = length ms'"
proof -
  define k where "k = replay_key sha loads ms' (jget q ''system'') (jget kvs ''content'') (jget kvs ''tool_calls'')"
  define e where "e = \<lparr>re_reasoning = r, re_expires_at = now + rs_ttl_s (rp_store st), re_size = utf8_size r\<rparr>"
  have key: "replay_key sha loads ms (jget p ''system'') content tool_calls = k"
    unfolding k_def assms(8) by (rule replay_key_same) (simp_all add: assms)
  have r: "r \<noteq> []" using assms(3) by (auto simp: py_strip_def)
  have st1: "rp_store st1 = replay_put k r now (rp_store st)"
    using assms(3,5,15) key by (simp add: store_reasoning_replay_def Let_def)
  have "od_get (rs_cache (rp_store st1)) k = Some e"
    unfolding st1 e_def by (rule replay_put_get [OF assms(1,2) r assms(4)])
  moreover have "replay_ok (rp_store st1)"
    unfolding st1 by (rule replay_put_ok [OF assms(1)]) (use assms(2,4) utf8_size_nonneg[of r] in linarith)+
  ultimately have "kept_with_room k e (sum_list (map event_entries evs)) (sum_list (map event_bytes evs)) (rp_store st1)"
    using assms(17,18) by (simp add: kept_with_room_def st1)
  from run_keeps_room[OF this, of sha loads] assms(16,19) key
  have "od_get (rs_cache (rp_store st2)) k = Some e" by (simp add: e_def)
  moreover have fresh: "now' \<le> re_expires_at e" using assms(14) by (simp add: e_def)
  moreover obtain bef s2 where b: "restore_from sha loads ep' (jget q ''system'') now' [] ms' (open_tally ep' st2) = (bef, s2)"
    by fastforce
  ultimately have "od_get (rs_cache (rp_store s2)) k = Some e"
    using restore_from_keeps [of "open_tally ep' st2" k e now' sha loads ep' "jget q ''system''" "[]" ms'] by simp
  then have "fst (restore_message sha loads ep' (jget q ''system'') now' ms' (JObj kvs) s2)
      = JObj (od_put ''reasoning_content'' (JStr r) kvs)"
    using assms(9-11) fresh
    by (simp add: restore_message_def k_def [symmetric] replay_get_def e_def)
  then obtain aft where "fst (restore_from sha loads ep' (jget q ''system'') now' [] (ms' @ JObj kvs # later) (open_tally ep' st2))
      = bef @ JObj (od_put ''reasoning_content'' (JStr r) kvs) # aft"
    using b by (simp add: restore_from_append split_beta)
  moreover have "length bef = length ms'" using b restore_from_length by (metis fst_conv)
  ultimately show ?thesis using assms(6)
    by (intro exI [of _ bef] exI [of _ aft])
       (auto simp: apply_reasoning_replay_restore_def split_beta jget_put)
qed

theorem stored_turn_is_restored_witness:
  "\<exists>before after. jget (fst (apply_reasoning_replay_restore id (\<lambda>_. None) True ''chat'' 5 replay_demo_next
       (foldl (replay_step id (\<lambda>_. None))
         (store_reasoning_replay id (\<lambda>_. None) True ''chat'' 0 replay_demo_ask (JStr ''ok'') JNull (JStr ''hm'') (replay_fresh 2 10 60))
         [Asked True ''chat'' 3 replay_demo_next]))) ''messages''
     = JList (before @ JObj (od_put ''reasoning_content'' (JStr ''hm'') [(''role'', JStr ''assistant''), (''content'', JStr ''ok '')]) # after)
     \<and> length before = 1"
proof -
  have "replay_ok (rp_store (replay_fresh 2 10 60))" by (simp add: replay_fresh_def new_replay_store_def replay_ok_def)
  from stored_turn_is_restored [OF this, of "''hm''" replay_demo_ask "[JObj [(''role'', JStr ''user''), (''content'', JStr ''hi'')]]"
      replay_demo_next "[JObj [(''role'', JStr ''user''), (''content'', JStr ''hi'')]]"
      "[(''role'', JStr ''assistant''), (''content'', JStr ''ok '')]" "[]" "JStr ''ok''" "\<lambda>_. None" JNull 5 0 _ id "''chat''"
      "[Asked True ''chat'' 3 replay_demo_next]" _ "''chat''"]
  show ?thesis
    by (simp add: replay_demo_ask_def replay_demo_next_def replay_fresh_def new_replay_store_def py_strip_def py_isspace_def
        utf8_size_def stripped_content_def store_reasoning_replay_def replay_put_def Let_def)
qed

text \<open>Streaming and not streaming agree on the key: however the fragments of a call are spread over
  chunks, the accumulated text is the concatenation of its fragments.\<close>

lemma accumulate_append:
  "accumulate_tool_call_deltas (ds @ es) acc = accumulate_tool_call_deltas es (accumulate_tool_call_deltas ds acc)"
  by (induction ds acc rule: accumulate_tool_call_deltas.induct) (simp_all add: Let_def)

end
