(* ===== verification/Observability.thy ===== *)
theory Observability
  imports Json "HOL-Library.Multiset" "HOL-Library.List_Lexorder" "HOL-Library.Product_Lexorder" "HOL-Library.Char_ord"
begin

section \<open>Metrics, the request log and alerts (observability.py)\<close>

text \<open>
  The rolling window of samples with its reads, Jain's fairness index, the window of structured
  answers that carried nothing, the alert conditions, and the size-bounded request log. A detail of
  an alert keeps the subject and the numbers it quotes, not its prose. An endpoint snapshot has the
  fields the alerts read. The file system of the log is a map from the number of a file (0 is the
  live one) to its lines; what the disk answers to a write is an argument, and a write or a rotation
  that raises may leave any files behind.
\<close>

subsection \<open>Rolling metrics\<close>

record metrics_sample =
  ms_timestamp :: real
  ms_endpoint :: string
  ms_agent_id :: string
  ms_priority :: string
  ms_queue_wait_ms :: real
  ms_backend_latency_ms :: real
  ms_status :: string
  ms_slot_seconds :: real
  ms_premature :: bool
  ms_best_effort :: bool
  ms_call_site :: string

record rolling_metrics =
  rm_window_s :: real
  rm_samples :: "metrics_sample list"

definition rm_prune :: "real \<Rightarrow> rolling_metrics \<Rightarrow> rolling_metrics" where
  "rm_prune now m = m\<lparr>rm_samples := dropWhile (\<lambda>s. ms_timestamp s < now - rm_window_s m) (rm_samples m)\<rparr>"

definition rm_record :: "metrics_sample \<Rightarrow> rolling_metrics \<Rightarrow> rolling_metrics" where
  "rm_record s m = rm_prune (ms_timestamp s) (m\<lparr>rm_samples := rm_samples m @ [s]\<rparr>)"

text \<open>\<^verbatim>\<open>if now: self._prune(now)\<close>.\<close>

definition rm_at :: "real option \<Rightarrow> rolling_metrics \<Rightarrow> rolling_metrics" where
  "rm_at now m = (case now of None \<Rightarrow> m | Some t \<Rightarrow> if t = 0 then m else rm_prune t m)"

text \<open>A filter on a name: \<^verbatim>\<open>None\<close> and the empty string select everything.\<close>

definition name_matches :: "string option \<Rightarrow> string \<Rightarrow> bool" where
  "name_matches f x \<longleftrightarrow> (case f of None \<Rightarrow> True | Some n \<Rightarrow> n = [] \<or> x = n)"

definition flag_matches :: "bool option \<Rightarrow> bool \<Rightarrow> bool" where
  "flag_matches f x \<longleftrightarrow> (case f of None \<Rightarrow> True | Some b \<Rightarrow> x = b)"

text \<open>\<^verbatim>\<open>values[idx]\<close> of a list, with Python's negative indices.\<close>

definition py_index :: "'a list \<Rightarrow> int \<Rightarrow> 'a py" where
  "py_index xs i = (if 0 \<le> i \<and> i < int (length xs) then Inr (xs ! nat i)
     else if i < 0 \<and> - i \<le> int (length xs) then Inr (xs ! nat (int (length xs) + i))
     else Inl IndexError)"

definition metrics_percentile ::
    "(metrics_sample \<Rightarrow> real) \<Rightarrow> real \<Rightarrow> string option \<Rightarrow> string option \<Rightarrow> rolling_metrics \<Rightarrow> real py" where
  "metrics_percentile field pct endpoint agent m =
     (let vs = map field (filter (\<lambda>s. name_matches endpoint (ms_endpoint s) \<and> name_matches agent (ms_agent_id s)) (rm_samples m)) in
      if vs = [] then Inr 0
      else py_index (sort vs) (min (py_int (real (length vs) * pct / 100)) (int (length vs) - 1)))"

record count_filter =
  cf_endpoint :: "string option"
  cf_agent_id :: "string option"
  cf_status :: "string option"
  cf_premature :: "bool option"
  cf_best_effort :: "bool option"

definition any_sample :: count_filter where
  "any_sample = \<lparr>cf_endpoint = None, cf_agent_id = None, cf_status = None, cf_premature = None, cf_best_effort = None\<rparr>"

definition sample_matches :: "count_filter \<Rightarrow> metrics_sample \<Rightarrow> bool" where
  "sample_matches f s \<longleftrightarrow> name_matches (cf_endpoint f) (ms_endpoint s) \<and> name_matches (cf_agent_id f) (ms_agent_id s) \<and>
     name_matches (cf_status f) (ms_status s) \<and> flag_matches (cf_premature f) (ms_premature s) \<and>
     flag_matches (cf_best_effort f) (ms_best_effort s)"

definition metrics_count :: "count_filter \<Rightarrow> rolling_metrics \<Rightarrow> int" where
  "metrics_count f m = int (length (filter (sample_matches f) (rm_samples m)))"

definition bump_tally :: "string \<Rightarrow> (string, int) odict \<Rightarrow> (string, int) odict" where
  "bump_tally k d = od_put k (od_get_or 0 d k + 1) d"

definition background_priority_names :: "string list" where
  "background_priority_names = [''P3_INGESTION'', ''P4_HYGIENE'']"

definition premature_background :: "metrics_sample \<Rightarrow> bool" where
  "premature_background s \<longleftrightarrow> ms_status s = ''timeout'' \<and> ms_premature s \<and> ms_priority s \<in> set background_priority_names"

definition site_of :: "metrics_sample \<Rightarrow> string" where
  "site_of s = (if ms_call_site s = [] then ''unknown'' else ms_call_site s)"

definition premature_background_by_call_site :: "rolling_metrics \<Rightarrow> (string, int) odict" where
  "premature_background_by_call_site m =
     fold (\<lambda>s. bump_tally (site_of s)) (filter premature_background (rm_samples m)) []"

definition throughput_rps :: "string option \<Rightarrow> rolling_metrics \<Rightarrow> real" where
  "throughput_rps endpoint m = (let n = metrics_count (any_sample\<lparr>cf_endpoint := endpoint\<rparr>) m;
       elapsed = (if rm_samples m = [] then rm_window_s m
                  else max 1 (ms_timestamp (last (rm_samples m)) - ms_timestamp (hd (rm_samples m)))) in
     if elapsed > 0 then of_int n / elapsed else 0)"

definition slot_seconds_consumed :: "string option \<Rightarrow> rolling_metrics \<Rightarrow> real" where
  "slot_seconds_consumed endpoint m =
     sum_list (map ms_slot_seconds (filter (\<lambda>s. name_matches endpoint (ms_endpoint s)) (rm_samples m)))"

definition per_agent_consumed :: "rolling_metrics \<Rightarrow> (string, real) odict" where
  "per_agent_consumed m = fold (\<lambda>s d. od_put (ms_agent_id s) (od_get_or 0 d (ms_agent_id s) + ms_slot_seconds s) d) (rm_samples m) []"

subsection \<open>Fairness\<close>

definition jains_fairness_index :: "real list \<Rightarrow> real" where
  "jains_fairness_index shares = (if shares = [] then 1
     else (let tot = sum_list shares; sum_sq = sum_list (map (\<lambda>x. x * x) shares) in
       if sum_sq = 0 then 1 else (tot * tot) / (real (length shares) * sum_sq)))"

subsection \<open>Structured answers that carried nothing\<close>

definition structured_empty_window_s :: real where "structured_empty_window_s = 1800"
definition structured_empty_min_samples :: nat where "structured_empty_min_samples = 20"
definition structured_empty_alert_rate :: real where "structured_empty_alert_rate = 15 / 100"
definition structured_empty_max_samples :: nat where "structured_empty_max_samples = 4000"

type_synonym outcome_window = "(string, (real \<times> bool \<times> string) list) odict"

text \<open>Appending to a deque with a maximal length drops from the left.\<close>

definition push_bounded :: "nat \<Rightarrow> 'a \<Rightarrow> 'a list \<Rightarrow> 'a list" where
  "push_bounded n x xs = (let ys = xs @ [x] in drop (length ys - n) ys)"

definition record_structured_outcome :: "string \<Rightarrow> bool \<Rightarrow> string \<Rightarrow> real \<Rightarrow> outcome_window \<Rightarrow> outcome_window" where
  "record_structured_outcome endpoint was_empty call_site now w =
     od_put endpoint (dropWhile (\<lambda>x. fst x < now - structured_empty_window_s)
       (push_bounded structured_empty_max_samples (now, was_empty, if call_site = [] then ''?'' else call_site)
         (od_get_or [] w endpoint))) w"

record empty_rate =
  er_n :: nat
  er_empty :: nat
  er_rate :: real
  er_top_call_site :: "string option"
  er_evaluated :: bool

text \<open>\<^verbatim>\<open>max(items, key=count)\<close>: the first of the largest.\<close>

fun top_item :: "(string, int) odict \<Rightarrow> (string \<times> int) option" where
  "top_item [] = None"
| "top_item (x # xs) = (case top_item xs of None \<Rightarrow> Some x | Some y \<Rightarrow> Some (if snd y > snd x then y else x))"

definition empty_rate_of :: "real \<Rightarrow> (real \<times> bool \<times> string) list \<Rightarrow> empty_rate option" where
  "empty_rate_of now dq = (let live = filter (\<lambda>x. \<not> fst x < now - structured_empty_window_s) dq;
       empties = filter (\<lambda>x. fst (snd x)) live in
     if live = [] then None
     else Some \<lparr>er_n = length live, er_empty = length empties,
        er_rate = py_round (real (length empties) / real (length live)) 4,
        er_top_call_site = map_option fst (top_item (fold (\<lambda>x. bump_tally (snd (snd x))) empties [])),
        er_evaluated = (length live \<ge> structured_empty_min_samples)\<rparr>)"

definition structured_empty_rates :: "outcome_window \<Rightarrow> real \<Rightarrow> (string, empty_rate) odict" where
  "structured_empty_rates w now = List.map_filter (\<lambda>(ep, dq). map_option (Pair ep) (empty_rate_of now dq)) w"

definition rate_alarms :: "empty_rate \<Rightarrow> bool" where
  "rate_alarms r \<longleftrightarrow> er_evaluated r \<and> \<not> er_rate r < structured_empty_alert_rate"

subsection \<open>Alerts\<close>

datatype severity = INFO | WARNING | ERROR | CRITICAL

record alert_condition =
  al_name :: string
  al_severity :: severity
  al_subject :: string
  al_number :: int

definition raise_alert :: "string \<Rightarrow> severity \<Rightarrow> string \<Rightarrow> int \<Rightarrow> alert_condition" where
  "raise_alert n sev subj k = \<lparr>al_name = n, al_severity = sev, al_subject = subj, al_number = k\<rparr>"

text \<open>The endpoints are visited in the order of their names.\<close>

definition structured_empty_alerts :: "outcome_window \<Rightarrow> real \<Rightarrow> alert_condition list" where
  "structured_empty_alerts w now =
     map (\<lambda>(ep, r). raise_alert ''structured_empty_rate'' ERROR ep (int (er_empty r)))
       (filter (\<lambda>(ep, r). rate_alarms r) (sort_key fst (structured_empty_rates w now)))"

record goodput_snapshot =
  gs_tripped :: bool
  gs_enforced :: bool
  gs_unknown :: bool

record alert_snapshot =
  sn_max_slots :: int
  sn_queued :: int
  sn_in_flight :: int
  sn_paused :: bool
  sn_goodput :: "goodput_snapshot option"

definition endpoint_stall_min_timeouts :: int where "endpoint_stall_min_timeouts = 8"
definition endpoint_stall_warn_endpoints :: "string list" where "endpoint_stall_warn_endpoints = [''tier1'']"
definition premature_callsite_min_timeouts :: int where "premature_callsite_min_timeouts = 6"

definition timeout_alerts :: "rolling_metrics \<Rightarrow> alert_condition list" where
  "timeout_alerts m = (let n = metrics_count (any_sample\<lparr>cf_status := Some ''timeout''\<rparr>) m in
     if n > 5 then [raise_alert ''admission_timeout_spike'' WARNING [] n] else [])"

definition fair_timeouts :: "string \<Rightarrow> rolling_metrics \<Rightarrow> int" where
  "fair_timeouts ep m = metrics_count (any_sample\<lparr>cf_endpoint := Some ep, cf_status := Some ''timeout'',
     cf_premature := Some False, cf_best_effort := Some False\<rparr>) m"

definition stall_alert :: "rolling_metrics \<Rightarrow> string \<times> alert_snapshot \<Rightarrow> alert_condition list" where
  "stall_alert m es = (case es of (ep, sn) \<Rightarrow>
     if fair_timeouts ep m \<ge> endpoint_stall_min_timeouts \<and> sn_queued sn = 0 \<and>
        (sn_max_slots sn = 0 \<or> sn_in_flight sn < sn_max_slots sn)
     then [raise_alert ''endpoint_stalled'' (if ep \<in> set endpoint_stall_warn_endpoints then WARNING else ERROR) ep (fair_timeouts ep m)]
     else [])"

definition goodput_alert :: "string \<times> alert_snapshot \<Rightarrow> alert_condition list" where
  "goodput_alert es = (case es of (ep, sn) \<Rightarrow> (case sn_goodput sn of None \<Rightarrow> []
     | Some g \<Rightarrow> if gs_tripped g then [raise_alert ''endpoint_goodput_collapse'' (if gs_enforced g then CRITICAL else WARNING) ep 0]
         else if gs_unknown g then [raise_alert ''endpoint_goodput_blind'' WARNING ep 0] else []))"

definition tight_alerts :: "rolling_metrics \<Rightarrow> alert_condition list" where
  "tight_alerts m = map (\<lambda>(cs, n). raise_alert ''callsite_timeout_too_tight'' WARNING cs n)
     (filter (\<lambda>(cs, n). n \<ge> premature_callsite_min_timeouts) (premature_background_by_call_site m))"

definition paused_alert :: "string \<times> alert_snapshot \<Rightarrow> alert_condition list" where
  "paused_alert es = (if sn_paused (snd es) then [raise_alert ''endpoint_paused'' ERROR (fst es) 0] else [])"

definition depth_alert :: "string \<times> alert_snapshot \<Rightarrow> alert_condition list" where
  "depth_alert es = (if sn_queued (snd es) > 10 then [raise_alert ''queue_depth_excessive'' WARNING (fst es) (sn_queued (snd es))] else [])"

definition imbalance_alerts :: "(string, alert_snapshot) odict \<Rightarrow> rolling_metrics \<Rightarrow> alert_condition list" where
  "imbalance_alerts sns m = (let shares = od_vals (per_agent_consumed m) in
     if list_ex (\<lambda>es. sn_queued (snd es) > 0) sns \<and> length shares \<ge> 2 \<and> jains_fairness_index shares < 7 / 10
     then [raise_alert ''drr_imbalance'' WARNING [] (round_half_even (jains_fairness_index shares * 10))] else [])"

definition stale_alert :: "string \<times> int \<Rightarrow> alert_condition list" where
  "stale_alert ec = (if snd ec < 10 then [raise_alert ''cost_model_stale'' INFO (fst ec) (snd ec)] else [])"

text \<open>One pass over all the conditions; every read of the window prunes it to the time of the pass first.\<close>

definition check_alerts ::
    "(string, alert_snapshot) odict \<Rightarrow> rolling_metrics \<Rightarrow> (string, int) odict \<Rightarrow> int \<Rightarrow> real \<Rightarrow> alert_condition list" where
  "check_alerts sns m samples wal now = (let m = rm_at (Some now) m in
     timeout_alerts m @ concat (map (stall_alert m) sns) @ concat (map goodput_alert sns) @ tight_alerts m @
     concat (map paused_alert sns) @ concat (map depth_alert sns) @ imbalance_alerts sns m @
     concat (map stale_alert samples) @
     (if wal > 10 * 1024 * 1024 then [raise_alert ''wal_growth'' WARNING [] wal] else []))"

subsection \<open>The request log\<close>

record request_logger =
  lg_open :: bool
  lg_max_bytes :: int
  lg_backups :: nat
  lg_size :: int
  lg_write_failed :: bool
  lg_files :: "nat \<Rightarrow> string list option"

definition file_bytes :: "string list \<Rightarrow> int" where
  "file_bytes ls = sum_list (map (\<lambda>l. int (length l) + 1) ls)"

text \<open>Opening for append creates the file; the size starts from what is on disk.\<close>

definition live_file :: "(nat \<Rightarrow> string list option) \<Rightarrow> string list" where
  "live_file fs = (case fs 0 of None \<Rightarrow> [] | Some b \<Rightarrow> b)"

definition open_log :: "request_logger \<Rightarrow> request_logger" where
  "open_log l = l\<lparr>lg_open := True, lg_files := (lg_files l)(0 \<mapsto> live_file (lg_files l)),
     lg_size := file_bytes (live_file (lg_files l))\<rparr>"

definition default_request_log_max_bytes :: int where "default_request_log_max_bytes = 64 * 1024 * 1024"
definition default_request_log_backups :: int where "default_request_log_backups = 7"

text \<open>Without a path the logger stays closed.\<close>

definition new_logger :: "bool \<Rightarrow> int \<Rightarrow> int \<Rightarrow> (nat \<Rightarrow> string list option) \<Rightarrow> request_logger" where
  "new_logger has_path max_bytes backups files =
     (let l = \<lparr>lg_open = False, lg_max_bytes = max 0 max_bytes, lg_backups = nat (max 0 backups), lg_size = 0,
         lg_write_failed = False, lg_files = files\<rparr> in
      if has_path then open_log l else l)"

text \<open>The rotation of the files: the oldest is removed, then from the highest number down every file
  that exists moves up by one, last the live file becomes the first backup.\<close>

definition replace_file :: "nat \<Rightarrow> (nat \<Rightarrow> string list option) \<Rightarrow> nat \<Rightarrow> string list option" where
  "replace_file i fs = (case fs i of None \<Rightarrow> fs | Some b \<Rightarrow> fs(i := None, Suc i := Some b))"

definition shifted :: "nat \<Rightarrow> (nat \<Rightarrow> string list option) \<Rightarrow> nat \<Rightarrow> string list option" where
  "shifted n fs = (let fs1 = fold replace_file (rev [1..<n]) (fs(n := None)) in fs1(0 := None, 1 := fs1 0))"

definition rotate_log :: "request_logger \<Rightarrow> request_logger" where
  "rotate_log l = open_log (l\<lparr>lg_open := False, lg_files :=
     (if lg_backups l = 0 then (lg_files l)(0 \<mapsto> []) else shifted (lg_backups l) (lg_files l))\<rparr>)"

text \<open>What the disk does with one record: it takes the line (and the rotation, if one is due), or the
  write or the rotation raises and leaves some files.\<close>

datatype disk_answer = Disk_ok | Write_raises "nat \<Rightarrow> string list option" | Rotate_raises "nat \<Rightarrow> string list option"

definition unwritable :: "(nat \<Rightarrow> string list option) \<Rightarrow> request_logger \<Rightarrow> request_logger" where
  "unwritable fs l = l\<lparr>lg_write_failed := True, lg_open := False, lg_files := fs\<rparr>"

definition take_line :: "string \<Rightarrow> request_logger \<Rightarrow> request_logger" where
  "take_line line l = l\<lparr>lg_files := (lg_files l)(0 \<mapsto> live_file (lg_files l) @ [line]),
     lg_size := lg_size l + int (length line) + 1\<rparr>"

definition rotation_due :: "request_logger \<Rightarrow> bool" where
  "rotation_due l \<longleftrightarrow> lg_max_bytes l \<noteq> 0 \<and> lg_size l \<ge> lg_max_bytes l"

definition log_line :: "disk_answer \<Rightarrow> string \<Rightarrow> request_logger \<Rightarrow> request_logger" where
  "log_line disk line l = (if \<not> lg_open l then l
     else case disk of
       Write_raises fs \<Rightarrow> unwritable fs l
     | Disk_ok \<Rightarrow> (let l = take_line line l in if rotation_due l then rotate_log l else l)
     | Rotate_raises fs \<Rightarrow> (let l = take_line line l in if rotation_due l then unwritable fs l else l))"

definition close_log :: "request_logger \<Rightarrow> request_logger" where
  "close_log l = l\<lparr>lg_open := False\<rparr>"

subsection \<open>The window holds exactly the recent samples\<close>

lemma dropWhile_older: "sorted (map f xs) \<Longrightarrow> dropWhile (\<lambda>x. f x < (c :: real)) xs = filter (\<lambda>x. \<not> f x < c) xs"
proof (induction xs)
  case (Cons a xs)
  show ?case
  proof (cases "f a < c")
    case False
    with Cons.prems have "\<forall>x \<in> set xs. \<not> f x < c" by auto
    with False show ?thesis by (simp add: filter_id_conv)
  qed (use Cons in simp)
qed simp

lemma filter_older_twice: "d \<le> c \<Longrightarrow> filter (\<lambda>x. \<not> f x < d \<and> \<not> f x < (c :: real)) xs = filter (\<lambda>x. \<not> f x < c) xs"
  by (auto intro!: filter_cong)

lemma sorted_filter_map: "sorted (map f xs) \<Longrightarrow> sorted (map f (filter P xs))"
  by (induction xs) auto

text \<open>Pruning again at a later time reads the history through the later window only.\<close>

definition recent :: "real \<Rightarrow> real \<Rightarrow> metrics_sample list \<Rightarrow> metrics_sample list" where
  "recent win now h = filter (\<lambda>s. \<not> ms_timestamp s < now - win) h"

lemma rm_prune_recent:
  assumes "sorted (map ms_timestamp h)" "rm_samples m = recent (rm_window_s m) t h" "t \<le> now"
  shows "rm_samples (rm_prune now m) = recent (rm_window_s m) now h"
  using assms by (simp add: rm_prune_def recent_def dropWhile_older sorted_filter_map filter_older_twice)

lemma rm_window_prune [simp]: "rm_window_s (rm_prune now m) = rm_window_s m"
  by (simp add: rm_prune_def)

lemma rm_window_record [simp]: "rm_window_s (rm_record s m) = rm_window_s m"
  by (simp add: rm_record_def)

lemma recorded_window:
  assumes "sorted (map ms_timestamp h)" "h \<noteq> []" "rm_samples m = []" "0 \<le> rm_window_s m"
  shows "rm_window_s (fold rm_record h m) = rm_window_s m
    \<and> rm_samples (fold rm_record h m) = recent (rm_window_s m) (ms_timestamp (last h)) h"
  using assms(1,2)
proof (induction h rule: rev_induct)
  case (snoc s h)
  let ?m = "fold rm_record h m" and ?t = "if h = [] then ms_timestamp s else ms_timestamp (last h)"
  have le: "ms_timestamp x \<le> ms_timestamp s" if "x \<in> set h" for x
    using snoc.prems that by (auto simp: sorted_append)
  have m: "rm_window_s ?m = rm_window_s m" "rm_samples ?m = recent (rm_window_s m) ?t h"
    using snoc assms(3) by (cases "h = []"; simp add: sorted_append recent_def)+
  have le_t: "?t \<le> ms_timestamp s" using le by auto
  have "rm_samples ?m @ [s] = recent (rm_window_s m) ?t (h @ [s])"
    using m le_t assms(4) by (simp add: recent_def)
  then have "rm_samples (rm_record s ?m) = recent (rm_window_s m) (ms_timestamp s) (h @ [s])"
    using rm_prune_recent[of "h @ [s]" "?m\<lparr>rm_samples := rm_samples ?m @ [s]\<rparr>" ?t "ms_timestamp s"]
      snoc.prems le_t m by (simp add: rm_record_def)
  with m show ?case by simp
qed simp

lemma window_at:
  assumes "sorted (map ms_timestamp h)" "h \<noteq> []" "ms_timestamp (last h) \<le> now" "now \<noteq> 0" "0 \<le> win"
  shows "rm_samples (rm_at (Some now) (fold rm_record h \<lparr>rm_window_s = win, rm_samples = []\<rparr>)) = recent win now h"
proof -
  let ?m = "\<lparr>rm_window_s = win, rm_samples = []\<rparr>"
  have w: "rm_window_s (fold rm_record h ?m) = win" and
    "rm_samples (fold rm_record h ?m) = recent win (ms_timestamp (last h)) h"
    using recorded_window[OF assms(1,2), of ?m] assms(5) by simp_all
  with rm_prune_recent[of h "fold rm_record h ?m" "ms_timestamp (last h)" now] assms
  show ?thesis by (simp add: rm_at_def)
qed

subsection \<open>The alerts\<close>

text \<open>The groups of conditions raise alerts of different names, so an alert belongs to one group.\<close>

lemma alert_names:
  "a \<in> set (timeout_alerts m) \<Longrightarrow> al_name a = ''admission_timeout_spike''"
  "a \<in> set (stall_alert m es) \<Longrightarrow> al_name a = ''endpoint_stalled''"
  "a \<in> set (goodput_alert es) \<Longrightarrow> al_name a \<in> {''endpoint_goodput_collapse'', ''endpoint_goodput_blind''}"
  "a \<in> set (tight_alerts m) \<Longrightarrow> al_name a = ''callsite_timeout_too_tight''"
  "a \<in> set (paused_alert es) \<Longrightarrow> al_name a = ''endpoint_paused''"
  "a \<in> set (depth_alert es) \<Longrightarrow> al_name a = ''queue_depth_excessive''"
  "a \<in> set (imbalance_alerts sns m) \<Longrightarrow> al_name a = ''drr_imbalance''"
  "a \<in> set (stale_alert ec) \<Longrightarrow> al_name a = ''cost_model_stale''"
  by (auto simp: timeout_alerts_def stall_alert_def goodput_alert_def tight_alerts_def paused_alert_def
      depth_alert_def imbalance_alerts_def stale_alert_def raise_alert_def Let_def split: if_splits option.splits)

lemma stalled_in_check_alerts:
  assumes "al_name a = ''endpoint_stalled''"
  shows "a \<in> set (check_alerts sns m samples wal now) \<longleftrightarrow> (\<exists>es \<in> set sns. a \<in> set (stall_alert (rm_at (Some now) m) es))"
  using assms by (fastforce simp: check_alerts_def Let_def raise_alert_def dest: alert_names)

text \<open>The timeouts that gave a backend fair time, in a history of samples.\<close>

definition fair_timeout_in :: "string \<Rightarrow> metrics_sample \<Rightarrow> bool" where
  "fair_timeout_in ep s \<longleftrightarrow> (ep = [] \<or> ms_endpoint s = ep) \<and> ms_status s = ''timeout'' \<and> \<not> ms_premature s \<and> \<not> ms_best_effort s"

lemma fair_timeouts_alt: "fair_timeouts ep m = int (length (filter (fair_timeout_in ep) (rm_samples m)))"
  unfolding fair_timeouts_def metrics_count_def
  by (rule arg_cong[where f = "\<lambda>P. int (length (filter P (rm_samples m)))"])
    (auto simp: fun_eq_iff sample_matches_def fair_timeout_in_def any_sample_def name_matches_def flag_matches_def)

definition stalled :: "metrics_sample list \<Rightarrow> real \<Rightarrow> string \<Rightarrow> alert_snapshot \<Rightarrow> bool" where
  "stalled h now ep sn \<longleftrightarrow> 8 \<le> length (filter (fair_timeout_in ep) (recent 300 now h)) \<and>
     sn_queued sn = 0 \<and> (sn_max_slots sn = 0 \<or> sn_in_flight sn < sn_max_slots sn)"

lemma stall_alert_in:
  assumes "rm_samples m = recent 300 now h"
  shows "a \<in> set (stall_alert m (ep, sn)) \<longleftrightarrow> stalled h now ep sn \<and>
    a = raise_alert ''endpoint_stalled'' (if ep = ''tier1'' then WARNING else ERROR) ep
          (int (length (filter (fair_timeout_in ep) (recent 300 now h))))"
  using assms by (auto simp: stall_alert_def stalled_def fair_timeouts_alt endpoint_stall_min_timeouts_def
      endpoint_stall_warn_endpoints_def)

definition stock_metrics :: rolling_metrics where
  "stock_metrics = \<lparr>rm_window_s = 300, rm_samples = []\<rparr>"

text \<open>The stall alert tells the truth about the last five minutes. For samples recorded in the order
  of their times and a pass at a later time, an endpoint is reported as stalled exactly when at least
  eight of all the timeouts ever recorded on it lie in the last 300 seconds, gave the backend fair time
  (neither premature nor best effort), nothing is queued there and a slot is free; the report quotes
  that number, and only \<^verbatim>\<open>tier1\<close> is reported as a warning.\<close>

theorem stall_alert_exact:
  assumes "sorted (map ms_timestamp h)" "h \<noteq> []" "ms_timestamp (last h) \<le> now" "0 < now" "od_ok sns"
  shows "\<lparr>al_name = ''endpoint_stalled'', al_severity = sev, al_subject = ep, al_number = n\<rparr>
      \<in> set (check_alerts sns (fold rm_record h stock_metrics) samples wal now) \<longleftrightarrow>
    (\<exists>sn. od_get sns ep = Some sn \<and> stalled h now ep sn \<and> sev = (if ep = ''tier1'' then WARNING else ERROR) \<and>
       n = int (length (filter (fair_timeout_in ep) (recent 300 now h))))"
proof -
  let ?a = "\<lparr>al_name = ''endpoint_stalled'', al_severity = sev, al_subject = ep, al_number = n\<rparr>"
  let ?m = "rm_at (Some now) (fold rm_record h stock_metrics)"
  have m: "rm_samples ?m = recent 300 now h"
    using window_at[OF assms(1-3)] assms(4) by (simp add: stock_metrics_def)
  have "?a \<in> set (check_alerts sns (fold rm_record h stock_metrics) samples wal now) \<longleftrightarrow>
      (\<exists>es \<in> set sns. ?a \<in> set (stall_alert ?m es))" by (rule stalled_in_check_alerts) simp
  also have "\<dots> \<longleftrightarrow> (\<exists>sn. (ep, sn) \<in> set sns \<and> ?a \<in> set (stall_alert ?m (ep, sn)))"
    by (fastforce simp: stall_alert_in[OF m] raise_alert_def)
  also have "\<dots> \<longleftrightarrow> (\<exists>sn. od_get sns ep = Some sn \<and> ?a \<in> set (stall_alert ?m (ep, sn)))"
    using assms(5) by (meson od_get_Some_in od_get_in)
  finally show ?thesis by (auto simp: stall_alert_in[OF m] raise_alert_def)
qed

definition fair_timeout_sample :: "real \<Rightarrow> metrics_sample" where
  "fair_timeout_sample t = \<lparr>ms_timestamp = t, ms_endpoint = ''chat'', ms_agent_id = ''a'', ms_priority = ''P1'',
     ms_queue_wait_ms = 0, ms_backend_latency_ms = 0, ms_status = ''timeout'', ms_slot_seconds = 1,
     ms_premature = False, ms_best_effort = False, ms_call_site = []\<rparr>"

theorem stall_alert_exact_witness:
  "\<lparr>al_name = ''endpoint_stalled'', al_severity = ERROR, al_subject = ''chat'', al_number = 8\<rparr>
     \<in> set (check_alerts [(''chat'', \<lparr>sn_max_slots = 4, sn_queued = 0, sn_in_flight = 1, sn_paused = False, sn_goodput = None\<rparr>)]
        (fold rm_record (map fair_timeout_sample [10, 101, 102, 103, 104, 105, 106, 107, 108]) stock_metrics) [] 0 400)"
  by (subst stall_alert_exact)
    (simp_all add: fair_timeout_sample_def stalled_def recent_def fair_timeout_in_def)

subsection \<open>The fairness index\<close>

definition square_sum :: "real list \<Rightarrow> real" where
  "square_sum xs = sum_list (map (\<lambda>x. x * x) xs)"

lemma square_sum_Cons [simp]: "square_sum (x # xs) = x * x + square_sum xs" "square_sum [] = 0"
  by (simp_all add: square_sum_def)

lemma square_sum_nonneg: "0 \<le> square_sum xs"
  by (induction xs) auto

lemma square_sum_0: "square_sum xs = 0 \<longleftrightarrow> (\<forall>x \<in> set xs. x = 0)"
  by (induction xs) (auto simp: add_nonneg_eq_0_iff square_sum_nonneg)

text \<open>The spread of a list around a value, and the identity that makes the index a fraction.\<close>

lemma spread_around: "square_sum (map (\<lambda>x. x - a) xs) = square_sum xs - 2 * a * sum_list xs + real (length xs) * (a * a)"
  by (induction xs) (simp_all add: algebra_simps)

lemma square_of_sum_step:
  "real (length (a # xs)) * square_sum (a # xs) - sum_list (a # xs) * sum_list (a # xs)
     = (real (length xs) * square_sum xs - sum_list xs * sum_list xs) + square_sum (map (\<lambda>x. x - a) xs)"
  by (simp add: spread_around algebra_simps)

lemma square_of_sum_le: "sum_list xs * sum_list xs \<le> real (length xs) * square_sum xs"
proof (induction xs)
  case (Cons a xs)
  then show ?case using square_of_sum_step[of a xs] square_sum_nonneg[of "map (\<lambda>x. x - a) xs"] by linarith
qed simp

lemma square_of_sum_eq: "sum_list xs * sum_list xs = real (length xs) * square_sum xs \<longleftrightarrow> (\<forall>x \<in> set xs. \<forall>y \<in> set xs. x = y)"
proof (induction xs)
  case (Cons a xs)
  have "sum_list (a # xs) * sum_list (a # xs) = real (length (a # xs)) * square_sum (a # xs) \<longleftrightarrow>
      sum_list xs * sum_list xs = real (length xs) * square_sum xs \<and> square_sum (map (\<lambda>x. x - a) xs) = 0"
    using square_of_sum_step[of a xs] square_of_sum_le[of xs] square_sum_nonneg[of "map (\<lambda>x. x - a) xs"] by linarith
  also have "\<dots> \<longleftrightarrow> (\<forall>x \<in> set (a # xs). \<forall>y \<in> set (a # xs). x = y)"
    using Cons.IH by (auto simp: square_sum_0)
  finally show ?case .
qed simp

lemma square_sum_le_square: "\<forall>x \<in> set xs. 0 \<le> x \<Longrightarrow> 0 \<le> sum_list xs \<and> square_sum xs \<le> sum_list xs * sum_list xs"
proof (induction xs)
  case (Cons a xs)
  then have ih: "0 \<le> sum_list xs" "square_sum xs \<le> sum_list xs * sum_list xs" and "0 \<le> a" by simp_all
  then have "0 \<le> a * sum_list xs" by simp
  moreover have "sum_list (a # xs) * sum_list (a # xs) = a * a + 2 * (a * sum_list xs) + sum_list xs * sum_list xs"
    by (simp add: algebra_simps)
  ultimately have "square_sum (a # xs) \<le> sum_list (a # xs) * sum_list (a # xs)"
    using ih(2) unfolding square_sum_Cons by linarith
  with ih(1) \<open>0 \<le> a\<close> show ?case by simp
qed simp

lemma jains_alt: "xs \<noteq> [] \<Longrightarrow> square_sum xs \<noteq> 0 \<Longrightarrow>
    jains_fairness_index xs = (sum_list xs * sum_list xs) / (real (length xs) * square_sum xs)"
  by (simp add: jains_fairness_index_def square_sum_def Let_def)

text \<open>The fairness index lies between one share in \<open>n\<close> and one. For \<open>n\<close> consumers with non-negative
  shares Jain's index is at least \<open>1/n\<close> and at most 1, and it is 1 exactly when all the shares are
  equal, the case of no consumption at all included.\<close>

theorem jains_index_bounds:
  assumes "xs \<noteq> []" "\<forall>x \<in> set xs. 0 \<le> x"
  shows "1 / real (length xs) \<le> jains_fairness_index xs \<and> jains_fairness_index xs \<le> 1 \<and>
    (jains_fairness_index xs = 1 \<longleftrightarrow> (\<forall>x \<in> set xs. \<forall>y \<in> set xs. x = y))"
proof (cases "square_sum xs = 0")
  case True
  then have "jains_fairness_index xs = 1" by (simp add: jains_fairness_index_def square_sum_def Let_def)
  moreover have "1 / real (length xs) \<le> 1" using assms(1) by (cases xs) simp_all
  moreover have "\<forall>x \<in> set xs. \<forall>y \<in> set xs. x = y" using True unfolding square_sum_0 by metis
  ultimately show ?thesis by simp
next
  case False
  with square_sum_nonneg[of xs] have pos: "0 < square_sum xs" by linarith
  have n: "0 < real (length xs)" using assms(1) by simp
  with pos have den: "0 < real (length xs) * square_sum xs" by simp
  have "1 / real (length xs) = square_sum xs / (real (length xs) * square_sum xs)" using pos n by simp
  also have "\<dots> \<le> jains_fairness_index xs"
    unfolding jains_alt[OF assms(1) False] using square_sum_le_square[OF assms(2)] den by (intro divide_right_mono) simp_all
  finally have lower: "1 / real (length xs) \<le> jains_fairness_index xs" .
  have "jains_fairness_index xs \<le> 1"
    using square_of_sum_le[of xs] den unfolding jains_alt[OF assms(1) False] by (simp add: divide_le_eq_1)
  moreover have "jains_fairness_index xs = 1 \<longleftrightarrow> sum_list xs * sum_list xs = real (length xs) * square_sum xs"
    using den unfolding jains_alt[OF assms(1) False] by (auto simp: divide_eq_1_iff)
  ultimately show ?thesis using lower square_of_sum_eq[of xs] by blast
qed

theorem jains_index_bounds_witness:
  "1 / 3 \<le> jains_fairness_index [4, 0, 2] \<and> jains_fairness_index [4, 0, 2] \<le> 1 \<and> jains_fairness_index [4, 0, 2] \<noteq> 1"
  using jains_index_bounds[of "[4, 0, 2]"] by simp

subsection \<open>Structured answers: the window and the alarm\<close>

definition last_n :: "nat \<Rightarrow> 'a list \<Rightarrow> 'a list" where
  "last_n n xs = drop (length xs - n) xs"

lemma push_bounded_last: "push_bounded n x xs = last_n n (xs @ [x])"
  by (simp add: push_bounded_def last_n_def)

lemma last_n_push: "0 < n \<Longrightarrow> last_n n (last_n n xs @ [x]) = last_n n (xs @ [x])"
  by (cases "length xs \<le> n") (auto simp: last_n_def drop_Cons' Suc_diff_le)

lemma sorted_last_n: "sorted (map f xs) \<Longrightarrow> sorted (map f (last_n n xs))"
  by (simp add: last_n_def drop_map[symmetric] sorted_wrt_drop)

text \<open>On samples in time order the recent ones are a suffix, so the two bounds commute.\<close>

lemma last_n_recent:
  assumes "sorted (map f xs)"
  shows "last_n n (filter (\<lambda>x. \<not> f x < (c :: real)) xs) = filter (\<lambda>x. \<not> f x < c) (last_n n xs)"
proof -
  define old new where "old = takeWhile (\<lambda>x. f x < c) xs" and "new = filter (\<lambda>x. \<not> f x < c) xs"
  have xs: "xs = old @ new"
    unfolding old_def new_def dropWhile_older[OF assms, symmetric] by simp
  have "\<forall>x \<in> set old. f x < c" "\<forall>x \<in> set new. \<not> f x < c"
    unfolding old_def new_def by (auto dest: set_takeWhileD)
  then have "filter (\<lambda>x. \<not> f x < c) old = []" "filter (\<lambda>x. \<not> f x < c) new = new"
      "filter (\<lambda>x. \<not> f x < c) (drop k old) = []" "filter (\<lambda>x. \<not> f x < c) (drop j new) = drop j new" for k j
    by (auto simp: filter_empty_conv filter_id_conv dest: in_set_dropD)
  then show ?thesis
    unfolding new_def[symmetric] xs last_n_def by (cases "length new \<le> n") auto
qed

text \<open>The outcomes of one endpoint, as the window stores them.\<close>

record structured_outcome =
  so_endpoint :: string
  so_empty :: bool
  so_call_site :: string
  so_time :: real

definition record_outcome :: "structured_outcome \<Rightarrow> outcome_window \<Rightarrow> outcome_window" where
  "record_outcome x = record_structured_outcome (so_endpoint x) (so_empty x) (so_call_site x) (so_time x)"

definition stored_outcome :: "structured_outcome \<Rightarrow> real \<times> bool \<times> string" where
  "stored_outcome x = (so_time x, so_empty x, if so_call_site x = [] then ''?'' else so_call_site x)"

definition outcomes_of :: "string \<Rightarrow> structured_outcome list \<Rightarrow> (real \<times> bool \<times> string) list" where
  "outcomes_of ep h = map stored_outcome (filter (\<lambda>x. so_endpoint x = ep) h)"

lemma record_outcome_get:
  "od_get_or [] (record_outcome x w) ep = (if so_endpoint x = ep
     then dropWhile (\<lambda>y. fst y < so_time x - structured_empty_window_s)
            (last_n structured_empty_max_samples (od_get_or [] w ep @ [stored_outcome x]))
     else od_get_or [] w ep)"
  by (auto simp: record_outcome_def record_structured_outcome_def stored_outcome_def push_bounded_last)

lemma sorted_outcomes: "sorted (map so_time h) \<Longrightarrow> sorted (map fst (outcomes_of ep h))"
  by (simp add: outcomes_of_def stored_outcome_def o_def sorted_filter_map)

text \<open>One more outcome: both bounds move on together.\<close>

lemma window_step:
  assumes "sorted (map fst (xs @ [x]))" "t \<le> fst x" "0 \<le> (w :: real)" "0 < n"
  shows "dropWhile (\<lambda>y. fst y < fst x - w) (last_n n (filter (\<lambda>y. \<not> fst y < t - w) (last_n n xs) @ [x]))
    = filter (\<lambda>y. \<not> fst y < fst x - w) (last_n n (xs @ [x]))"
proof -
  have srt: "sorted (map fst (last_n n xs @ [x]))"
    using sorted_wrt_drop[OF assms(1), of "length xs - n"] by (simp add: last_n_def drop_map)
  have "filter (\<lambda>y. \<not> fst y < t - w) (last_n n xs) @ [x] = filter (\<lambda>y. \<not> fst y < t - w) (last_n n xs @ [x])"
    using assms(2,3) by simp
  then have "last_n n (filter (\<lambda>y. \<not> fst y < t - w) (last_n n xs) @ [x])
      = filter (\<lambda>y. \<not> fst y < t - w) (last_n n (xs @ [x]))"
    by (simp only: last_n_recent[OF srt] last_n_push[OF assms(4)])
  then show ?thesis
    using assms(1,2) by (simp add: dropWhile_older sorted_filter_map sorted_last_n filter_older_twice del: map_append)
qed

text \<open>What an endpoint's window holds: of its last 4000 outcomes those after some cutoff that is no
  later than half an hour before the latest one.\<close>

lemma outcome_window_exact:
  assumes "sorted (map so_time h)" "\<forall>x \<in> set h. so_time x \<le> u"
  shows "\<exists>t \<le> u. od_get_or [] (fold record_outcome h []) ep
    = filter (\<lambda>y. \<not> fst y < t - structured_empty_window_s) (last_n structured_empty_max_samples (outcomes_of ep h))"
  using assms
proof (induction h arbitrary: u rule: rev_induct)
  case Nil
  show ?case by (auto simp: outcomes_of_def last_n_def)
next
  case (snoc x h)
  let ?n = structured_empty_max_samples and ?w = structured_empty_window_s
  have s: "sorted (map so_time h)" "\<forall>y \<in> set h. so_time y \<le> so_time x"
    using snoc.prems(1) by (auto simp: sorted_append)
  show ?case
  proof (cases "so_endpoint x = ep")
    case False
    with snoc.IH[OF s(1), of u] snoc.prems(2) show ?thesis
      by (auto simp: record_outcome_get outcomes_of_def)
  next
    case True
    obtain t where t: "t \<le> so_time x"
        "od_get_or [] (fold record_outcome h []) ep = filter (\<lambda>y. \<not> fst y < t - ?w) (last_n ?n (outcomes_of ep h))"
      using snoc.IH[OF s] by blast
    have o: "outcomes_of ep (h @ [x]) = outcomes_of ep h @ [stored_outcome x]" and f: "fst (stored_outcome x) = so_time x"
      using True by (simp_all add: outcomes_of_def stored_outcome_def)
    have "od_get_or [] (fold record_outcome (h @ [x]) []) ep = filter (\<lambda>y. \<not> fst y < so_time x - ?w) (last_n ?n (outcomes_of ep (h @ [x])))"
      using window_step[of "outcomes_of ep h" "stored_outcome x" t ?w ?n] t(1) sorted_outcomes[OF snoc.prems(1), of ep] True
      by (simp add: record_outcome_get t(2) o f structured_empty_window_s_def structured_empty_max_samples_def del: map_append)
    with snoc.prems(2) show ?thesis by auto
  qed
qed

definition live_outcomes :: "string \<Rightarrow> real \<Rightarrow> structured_outcome list \<Rightarrow> (real \<times> bool \<times> string) list" where
  "live_outcomes ep now h =
     filter (\<lambda>y. \<not> fst y < now - structured_empty_window_s) (last_n structured_empty_max_samples (outcomes_of ep h))"

lemma empty_rate_of_window:
  assumes "sorted (map so_time h)" "\<forall>x \<in> set h. so_time x \<le> now"
  shows "empty_rate_of now (od_get_or [] (fold record_outcome h []) ep) = empty_rate_of now (live_outcomes ep now h)"
proof -
  obtain t where "t \<le> now" "od_get_or [] (fold record_outcome h []) ep
      = filter (\<lambda>y. \<not> fst y < t - structured_empty_window_s) (last_n structured_empty_max_samples (outcomes_of ep h))"
    using outcome_window_exact[OF assms] by blast
  then show ?thesis by (simp add: empty_rate_of_def live_outcomes_def filter_older_twice)
qed

lemma outcome_window_ok: "od_ok (fold record_outcome h [])"
  by (induction h rule: rev_induct) (simp_all add: record_outcome_def record_structured_outcome_def)

lemma rates_in:
  assumes "od_ok w"
  shows "(ep, r) \<in> set (structured_empty_rates w now) \<longleftrightarrow> empty_rate_of now (od_get_or [] w ep) = Some r"
proof -
  have "(ep, r) \<in> set (structured_empty_rates w now) \<longleftrightarrow> (\<exists>dq. (ep, dq) \<in> set w \<and> empty_rate_of now dq = Some r)"
    by (force simp: structured_empty_rates_def List.map_filter_def image_iff)
  also have "\<dots> \<longleftrightarrow> (\<exists>dq. od_get w ep = Some dq \<and> empty_rate_of now dq = Some r)"
    using assms by (meson od_get_Some_in od_get_in)
  also have "\<dots> \<longleftrightarrow> empty_rate_of now (od_get_or [] w ep) = Some r"
    by (auto simp: od_get_or_def empty_rate_of_def split: option.splits)
  finally show ?thesis .
qed

text \<open>Rounding to the nearest, ties to even, reaches an even number from half below it.\<close>

lemma even_le_round: "even k \<Longrightarrow> k \<le> round_half_even y \<longleftrightarrow> of_int k - 1 / 2 \<le> y"
proof (cases "k \<le> \<lfloor>y\<rfloor>")
  case True
  then have "of_int k \<le> y" by (simp add: le_floor_iff)
  with True round_half_even_cases[of y] show ?thesis by linarith
next
  case False
  assume k: "even k"
  show ?thesis
  proof (cases "k = \<lfloor>y\<rfloor> + 1")
    case True
    then have "of_int k = (of_int \<lfloor>y\<rfloor> :: real) + 1" "odd \<lfloor>y\<rfloor>" using k by simp_all
    with True show ?thesis by (auto simp: round_half_even_def Let_def)
  next
    case other: False
    with False have "\<lfloor>y\<rfloor> + 2 \<le> k" by simp
    then have "(of_int (\<lfloor>y\<rfloor> + 2) :: real) \<le> of_int k" by (simp only: of_int_le_iff)
    then have "\<not> of_int k - 1 / 2 \<le> y" using floor_correct[of y] by simp linarith
    with \<open>\<lfloor>y\<rfloor> + 2 \<le> k\<close> round_half_even_cases[of y] show ?thesis by linarith
  qed
qed

lemma alarm_rate:
  assumes "0 < n"
  shows "\<not> py_round (real e / real n) 4 < structured_empty_alert_rate \<longleftrightarrow> 2999 * n \<le> 20000 * e"
proof -
  have "\<not> py_round (real e / real n) 4 < structured_empty_alert_rate \<longleftrightarrow> 1500 \<le> round_half_even (real e / real n * 10000)"
    by (simp add: py_round_def structured_empty_alert_rate_def not_less)
  also have "\<dots> \<longleftrightarrow> 1499.5 \<le> real e / real n * 10000"
    using even_le_round[of 1500] by simp
  also have "\<dots> \<longleftrightarrow> real (2999 * n) \<le> real (20000 * e)"
    using assms by (simp add: field_simps)
  finally show ?thesis by (simp only: of_nat_le_iff)
qed

text \<open>The alarm on structured answers that carry nothing is exact. For outcomes recorded in the order
  of their times, an endpoint alarms exactly when its last 4000 outcomes have at least twenty in the last
  half hour and the empty ones among those are a share that rounds to 15 percent or more, that is at
  least 2999 of 20000; the alarm is an error and quotes the number of empty answers.\<close>

theorem structured_alert_exact:
  assumes "sorted (map so_time h)" "\<forall>x \<in> set h. so_time x \<le> now"
  shows "\<lparr>al_name = ''structured_empty_rate'', al_severity = sev, al_subject = ep, al_number = k\<rparr>
      \<in> set (structured_empty_alerts (fold record_outcome h []) now) \<longleftrightarrow>
    sev = ERROR \<and> k = int (length (filter (\<lambda>y. fst (snd y)) (live_outcomes ep now h))) \<and>
    20 \<le> length (live_outcomes ep now h) \<and>
    2999 * length (live_outcomes ep now h) \<le> 20000 * length (filter (\<lambda>y. fst (snd y)) (live_outcomes ep now h))"
    (is "?a \<in> _ \<longleftrightarrow> _")
proof -
  let ?w = "fold record_outcome h []" and ?l = "live_outcomes ep now h"
  have idem: "filter (\<lambda>x. \<not> fst x < now - structured_empty_window_s) ?l = ?l" by (simp add: live_outcomes_def)
  have "?a \<in> set (structured_empty_alerts ?w now) \<longleftrightarrow>
      (\<exists>r. (ep, r) \<in> set (structured_empty_rates ?w now) \<and> rate_alarms r \<and> sev = ERROR \<and> k = int (er_empty r))"
    by (auto simp: structured_empty_alerts_def raise_alert_def image_iff)
  also have "\<dots> \<longleftrightarrow> (\<exists>r. empty_rate_of now ?l = Some r \<and> rate_alarms r \<and> sev = ERROR \<and> k = int (er_empty r))"
    by (simp add: rates_in outcome_window_ok empty_rate_of_window[OF assms])
  also have "\<dots> \<longleftrightarrow> ?l \<noteq> [] \<and> sev = ERROR \<and> k = int (length (filter (\<lambda>y. fst (snd y)) ?l)) \<and> 20 \<le> length ?l \<and>
      \<not> py_round (real (length (filter (\<lambda>y. fst (snd y)) ?l)) / real (length ?l)) 4 < structured_empty_alert_rate"
    by (auto simp: empty_rate_of_def idem Let_def rate_alarms_def structured_empty_min_samples_def)
  also have "\<dots> \<longleftrightarrow> sev = ERROR \<and> k = int (length (filter (\<lambda>y. fst (snd y)) ?l)) \<and> 20 \<le> length ?l \<and>
      2999 * length ?l \<le> 20000 * length (filter (\<lambda>y. fst (snd y)) ?l)"
    by (cases "?l = []") (simp_all add: alarm_rate)
  finally show ?thesis .
qed

definition twenty_outcomes :: "nat \<Rightarrow> structured_outcome list" where
  "twenty_outcomes k = map (\<lambda>i. \<lparr>so_endpoint = ''chat'', so_empty = (i < k), so_call_site = ''s'', so_time = real i\<rparr>) [0..<20]"

theorem structured_alert_exact_witness:
  "\<lparr>al_name = ''structured_empty_rate'', al_severity = ERROR, al_subject = ''chat'', al_number = 3\<rparr>
     \<in> set (structured_empty_alerts (fold record_outcome (twenty_outcomes 3) []) 60)"
  by (subst structured_alert_exact)
    (simp_all add: twenty_outcomes_def upt_rec live_outcomes_def outcomes_of_def stored_outcome_def last_n_def
      structured_empty_window_s_def structured_empty_max_samples_def)

subsection \<open>The request log stays bounded and keeps the newest lines\<close>

lemma file_bytes_simps [simp]:
  "file_bytes [] = 0" "file_bytes (l # ls) = int (length l) + 1 + file_bytes ls"
  "file_bytes (ls @ ms) = file_bytes ls + file_bytes ms"
  by (simp_all add: file_bytes_def)

lemma file_bytes_nonneg: "0 \<le> file_bytes ls"
  by (induction ls) simp_all

definition numbered :: "request_logger \<Rightarrow> nat \<Rightarrow> string list" where
  "numbered l j = (case lg_files l j of None \<Rightarrow> [] | Some b \<Rightarrow> b)"

text \<open>What the file set holds, the oldest line first.\<close>

definition retained :: "request_logger \<Rightarrow> string list" where
  "retained l = concat (map (numbered l) (rev [0..<Suc (lg_backups l)]))"

text \<open>The bookkeeping of an open logger whose lines take at most \<open>w\<close> bytes: the size is that of the
  live file and below the limit, every backup is full, the backups are numbered without a gap, and once
  lines were dropped the oldest backup exists.\<close>

definition live_ok :: "request_logger \<Rightarrow> bool" where
  "live_ok l \<longleftrightarrow> lg_open l \<and> lg_size l = file_bytes (numbered l 0) \<and> lg_size l < lg_max_bytes l"

definition backups_ok :: "int \<Rightarrow> request_logger \<Rightarrow> bool" where
  "backups_ok w l \<longleftrightarrow> (\<forall>j b. 0 < j \<and> j \<le> lg_backups l \<and> lg_files l j = Some b \<longrightarrow>
     lg_max_bytes l \<le> file_bytes b \<and> file_bytes b < lg_max_bytes l + w)"

definition gap_free :: "request_logger \<Rightarrow> bool" where
  "gap_free l \<longleftrightarrow> (\<forall>j. 0 < j \<and> j < lg_backups l \<and> lg_files l j = None \<longrightarrow> lg_files l (Suc j) = None)"

definition drops_ok :: "string list \<Rightarrow> request_logger \<Rightarrow> bool" where
  "drops_ok dropped l \<longleftrightarrow> (dropped \<noteq> [] \<and> 0 < lg_backups l \<longrightarrow> lg_files l (lg_backups l) \<noteq> None)"

definition log_ok :: "int \<Rightarrow> string list \<Rightarrow> request_logger \<Rightarrow> bool" where
  "log_ok w dropped l \<longleftrightarrow> live_ok l \<and> backups_ok w l \<and> gap_free l \<and> drops_ok dropped l"

lemma retained_0: "lg_backups l = 0 \<Longrightarrow> retained l = numbered l 0"
  by (simp add: retained_def)

lemma retained_live: "retained l = concat (map (numbered l) (rev [1..<Suc (lg_backups l)])) @ numbered l 0"
  by (simp add: retained_def upt_conv_Cons del: upt_Suc)

lemma take_line_files [simp]:
  "lg_files (take_line x l) 0 = Some (numbered l 0 @ [x])" "0 < j \<Longrightarrow> lg_files (take_line x l) j = lg_files l j"
  "lg_backups (take_line x l) = lg_backups l" "lg_max_bytes (take_line x l) = lg_max_bytes l" "lg_open (take_line x l) = lg_open l"
  "lg_size (take_line x l) = lg_size l + int (length x) + 1"
  by (simp_all add: take_line_def live_file_def numbered_def)

lemma retained_take_line: "retained (take_line x l) = retained l @ [x]"
proof -
  have "numbered (take_line x l) j = numbered l j" if "0 < j" for j using that by (simp add: numbered_def)
  then have "map (numbered (take_line x l)) (rev [1..<k]) = map (numbered l) (rev [1..<k])" for k
    by (intro map_cong) auto
  moreover have "numbered (take_line x l) 0 = numbered l 0 @ [x]" by (simp add: numbered_def)
  ultimately show ?thesis unfolding retained_live take_line_files(3) by (simp only: append_assoc)
qed

lemma replace_files:
  assumes "m \<le> n" "fs n = None"
  shows "fold replace_file (rev [m..<n]) fs j = (if j < m then fs j else if j = m then None else if j \<le> n then fs (j - 1) else fs j)"
  using assms
proof (induction m arbitrary: j rule: inc_induct)
  case (step m)
  have "rev [m..<n] = rev [Suc m..<n] @ [m]" using step.hyps by (simp add: upt_conv_Cons)
  then show ?case using step.IH[OF step.prems] by (auto simp: replace_file_def split: option.split)
qed auto

text \<open>A file that does not exist moves nothing, but its target has moved up before it: after a rotation
  every backup is the file that had the number below.\<close>

lemma shifted_eq:
  "0 < n \<Longrightarrow> shifted n fs j = (if j = 0 then None else if j \<le> n then fs (j - 1) else fs j)"
  using replace_files[of 1 n "fs(n := None)"] by (auto simp: shifted_def Let_def)

lemma rotate_log_fields [simp]:
  "lg_backups (rotate_log l) = lg_backups l" "lg_max_bytes (rotate_log l) = lg_max_bytes l" "lg_open (rotate_log l)"
  "lg_size (rotate_log l) = 0" "lg_files (rotate_log l) 0 = Some []"
  "0 < j \<Longrightarrow> j \<le> lg_backups l \<Longrightarrow> lg_files (rotate_log l) j = lg_files l (j - 1)"
  by (auto simp: rotate_log_def open_log_def live_file_def shifted_eq)

lemma retained_rotate:
  "retained l = (if lg_backups l = 0 then retained l else numbered l (lg_backups l)) @ retained (rotate_log l)"
proof (cases "lg_backups l = 0")
  case True
  then show ?thesis by (simp add: retained_0 numbered_def)
next
  case False
  have up: "[0..<Suc (lg_backups l)] = 0 # map Suc [0..<lg_backups l]"
    by (simp add: upt_conv_Cons map_Suc_upt del: upt_Suc)
  have "numbered (rotate_log l) (Suc j) = numbered l j" if "j < lg_backups l" for j using that by (simp add: numbered_def)
  then have "map (numbered (rotate_log l) \<circ> Suc) (rev [0..<lg_backups l]) = map (numbered l) (rev [0..<lg_backups l])"
    by (intro map_cong) auto
  moreover have "retained (rotate_log l) = concat (map (numbered (rotate_log l) \<circ> Suc) (rev [0..<lg_backups l]))"
    by (simp add: retained_def up rev_map numbered_def del: upt_Suc)
  ultimately have "retained (rotate_log l) = concat (map (numbered l) (rev [0..<lg_backups l]))" by (simp only:)
  with False show ?thesis by (simp add: retained_def)
qed

lemma live_ok_limit: "live_ok l \<Longrightarrow> 0 < lg_max_bytes l"
  using file_bytes_nonneg[of "numbered l 0"] by (simp add: live_ok_def)

lemma take_line_ok:
  assumes "log_ok w dropped l" "\<not> rotation_due (take_line x l)"
  shows "log_ok w dropped (take_line x l)"
  using assms live_ok_limit[of l] by (auto simp: log_ok_def live_ok_def backups_ok_def gap_free_def drops_ok_def rotation_due_def numbered_def)

lemma rotated_backups_ok:
  assumes "live_ok l" "backups_ok w l" "rotation_due (take_line x l)" "int (length x) + 1 \<le> w"
  shows "backups_ok w (rotate_log (take_line x l))"
  unfolding backups_ok_def
proof (intro allI impI)
  fix j b assume a: "0 < j \<and> j \<le> lg_backups (rotate_log (take_line x l)) \<and> lg_files (rotate_log (take_line x l)) j = Some b"
  then have j: "0 < j" "j \<le> lg_backups l" and b: "lg_files (take_line x l) (j - 1) = Some b" by (auto simp del: One_nat_def)
  show "lg_max_bytes (rotate_log (take_line x l)) \<le> file_bytes b \<and> file_bytes b < lg_max_bytes (rotate_log (take_line x l)) + w"
  proof (cases "j = 1")
    case True
    with b have "b = numbered l 0 @ [x]" by simp
    with assms show ?thesis by (simp add: live_ok_def rotation_due_def)
  next
    case False
    with j b have "0 < j - 1" "j - 1 \<le> lg_backups l" "lg_files l (j - 1) = Some b" by simp_all
    with assms(2) show ?thesis unfolding backups_ok_def rotate_log_fields take_line_files by blast
  qed
qed

lemma rotated_gap_free: "gap_free l \<Longrightarrow> gap_free (rotate_log (take_line x l))"
  unfolding gap_free_def
proof (intro allI impI)
  fix j assume g: "\<forall>j. 0 < j \<and> j < lg_backups l \<and> lg_files l j = None \<longrightarrow> lg_files l (Suc j) = None"
    and a: "0 < j \<and> j < lg_backups (rotate_log (take_line x l)) \<and> lg_files (rotate_log (take_line x l)) j = None"
  then have j: "0 < j" "j < lg_backups l" and n: "lg_files (take_line x l) (j - 1) = None" by (auto simp del: One_nat_def)
  have "j \<noteq> 1" using n by auto
  with j n have "0 < j - 1" "j - 1 < lg_backups l" "lg_files l (j - 1) = None" by simp_all
  with g have "lg_files l (Suc (j - 1)) = None" by blast
  with j show "lg_files (rotate_log (take_line x l)) (Suc j) = None" by simp
qed

lemma rotated_drops_ok:
  assumes "gap_free l" "drops_ok dropped l"
  shows "drops_ok (dropped @ numbered l (lg_backups l)) (rotate_log (take_line x l))"
proof (cases "lg_backups l \<le> 1")
  case True
  then show ?thesis by (cases "lg_backups l") (simp_all add: drops_ok_def)
next
  case False
  have "lg_files l (lg_backups l - 1) \<noteq> None" if "lg_files l (lg_backups l) \<noteq> None"
    using assms(1) False that unfolding gap_free_def by (auto dest!: spec[of _ "lg_backups l - 1"])
  with assms(2) False show ?thesis by (auto simp: drops_ok_def numbered_def split: option.splits)
qed

text \<open>One line: what is kept and what is dropped together are what was kept and the line.\<close>

lemma log_line_step:
  assumes "log_ok w dropped l" "int (length x) + 1 \<le> w"
  shows "\<exists>e. log_ok w (dropped @ e) (log_line Disk_ok x l) \<and> retained l @ [x] = e @ retained (log_line Disk_ok x l)"
proof (cases "rotation_due (take_line x l)")
  case False
  then have "log_line Disk_ok x l = take_line x l" using assms(1) by (simp add: log_line_def log_ok_def live_ok_def)
  with take_line_ok[OF assms(1) False] show ?thesis by (intro exI[of _ "[]"]) (simp add: retained_take_line)
next
  case True
  let ?t = "take_line x l"
  let ?e = "if lg_backups l = 0 then retained ?t else numbered ?t (lg_backups l)"
  have l': "log_line Disk_ok x l = rotate_log ?t" using assms True by (simp add: log_line_def log_ok_def live_ok_def)
  have "live_ok (rotate_log ?t)" using live_ok_limit[of l] assms(1) by (simp add: live_ok_def log_ok_def numbered_def)
  moreover have "drops_ok (dropped @ ?e) (rotate_log ?t)"
    using rotated_drops_ok[of l dropped x] assms(1) by (cases "lg_backups l = 0") (simp_all add: log_ok_def drops_ok_def numbered_def)
  ultimately have "log_ok w (dropped @ ?e) (rotate_log ?t)"
    using rotated_backups_ok[OF _ _ True assms(2)] rotated_gap_free assms(1) by (simp add: log_ok_def)
  moreover have "retained ?t = ?e @ retained (rotate_log ?t)" using retained_rotate[of ?t] by (simp only: take_line_files(3))
  ultimately show ?thesis unfolding l' retained_take_line[symmetric] by blast
qed

lemma log_lines_ok:
  assumes "log_ok w [] l0" "retained l0 = []" "\<forall>x \<in> set ls. int (length x) + 1 \<le> w"
  shows "\<exists>dropped. log_ok w dropped (fold (log_line Disk_ok) ls l0) \<and> ls = dropped @ retained (fold (log_line Disk_ok) ls l0)"
  using assms(3)
proof (induction ls rule: rev_induct)
  case Nil
  then show ?case using assms(1,2) by simp
next
  case (snoc x ls)
  let ?l = "fold (log_line Disk_ok) ls l0"
  obtain d where d: "log_ok w d ?l" "ls = d @ retained ?l" using snoc by auto
  obtain e where e: "log_ok w (d @ e) (log_line Disk_ok x ?l)" "retained ?l @ [x] = e @ retained (log_line Disk_ok x ?l)"
    using log_line_step[OF d(1)] snoc.prems by auto
  have "ls @ [x] = d @ (retained ?l @ [x])" using d(2) by (metis append_assoc)
  then have "ls @ [x] = (d @ e) @ retained (log_line Disk_ok x ?l)" using e(2) by simp
  moreover have "fold (log_line Disk_ok) (ls @ [x]) l0 = log_line Disk_ok x ?l" by simp
  ultimately show ?case using e(1) by metis
qed

lemma new_logger_ok:
  assumes "0 < max_bytes"
  shows "log_ok w [] (new_logger True max_bytes backups (\<lambda>_. None))" "retained (new_logger True max_bytes backups (\<lambda>_. None)) = []"
  using assms by (auto simp: new_logger_def open_log_def live_file_def log_ok_def live_ok_def backups_ok_def gap_free_def
      drops_ok_def numbered_def retained_def)

lemma sum_between: "(\<And>j. j \<in> set js \<Longrightarrow> a \<le> f j \<and> f j \<le> b) \<Longrightarrow>
    int (length js) * a \<le> sum_list (map f js) \<and> sum_list (map f js) \<le> int (length js) * (b :: int)"
  by (induction js) (force simp: algebra_simps)+

lemma file_bytes_concat: "file_bytes (concat (map f js)) = sum_list (map (\<lambda>j. file_bytes (f j)) js)"
  by (induction js) simp_all

lemma backup_exists:
  assumes "gap_free l" "lg_files l (lg_backups l) \<noteq> None" "0 < j" "j \<le> lg_backups l"
  shows "lg_files l j \<noteq> None"
  using assms(4,3)
proof (induction j rule: inc_induct)
  case base
  then show ?case using assms(2) by simp
next
  case (step j)
  then show ?case using assms(1) unfolding gap_free_def by auto
qed

lemma retained_bytes:
  "file_bytes (retained l) = sum_list (map (\<lambda>j. file_bytes (numbered l j)) (rev [1..<Suc (lg_backups l)])) + file_bytes (numbered l 0)"
  unfolding retained_live by (simp only: file_bytes_simps(3) file_bytes_concat)

lemma backups_okD:
  "backups_ok w l \<Longrightarrow> 0 < j \<Longrightarrow> j \<le> lg_backups l \<Longrightarrow> lg_files l j = Some b \<Longrightarrow>
     lg_max_bytes l \<le> file_bytes b \<and> file_bytes b < lg_max_bytes l + w"
  by (simp add: backups_ok_def)

lemma retained_bounds:
  assumes "log_ok w dropped l" "0 \<le> w"
  shows "file_bytes (retained l) < int (Suc (lg_backups l)) * (lg_max_bytes l + w)"
    and "dropped \<noteq> [] \<Longrightarrow> int (lg_backups l) * lg_max_bytes l \<le> file_bytes (retained l)"
proof -
  let ?b = "\<lambda>j. file_bytes (numbered l j)" and ?js = "rev [1..<Suc (lg_backups l)]"
  have ok: "live_ok l" "backups_ok w l" "gap_free l" "drops_ok dropped l" using assms(1) by (simp_all add: log_ok_def)
  have up: "?b j \<le> lg_max_bytes l + w" if "j \<in> set ?js" for j
    using that backups_okD[OF ok(2), of j] live_ok_limit[OF ok(1)] assms(2)
    by (cases "lg_files l j") (auto simp: numbered_def less_imp_le simp del: upt_Suc)
  have lo: "0 \<le> ?b j" for j by (rule file_bytes_nonneg)
  have len: "length ?js = lg_backups l" by simp
  have "sum_list (map ?b ?js) \<le> int (lg_backups l) * (lg_max_bytes l + w)"
    using sum_between[of ?js 0 ?b "lg_max_bytes l + w"] up lo unfolding len by blast
  moreover have "?b 0 < lg_max_bytes l + w" using ok(1) assms(2) by (simp add: live_ok_def)
  ultimately show "file_bytes (retained l) < int (Suc (lg_backups l)) * (lg_max_bytes l + w)"
    unfolding retained_bytes by (simp add: algebra_simps del: upt_Suc)
  assume d: "dropped \<noteq> []"
  have "lg_max_bytes l \<le> ?b j" if "j \<in> set ?js" for j
    using backup_exists[OF ok(3), of j] backups_okD[OF ok(2), of j] ok(4) d that unfolding drops_ok_def
    by (cases "lg_files l j") (auto simp: numbered_def simp del: upt_Suc)
  then have "int (lg_backups l) * lg_max_bytes l \<le> sum_list (map ?b ?js)"
    using sum_between[of ?js "lg_max_bytes l" ?b "lg_max_bytes l + w"] up unfolding len by blast
  with lo[of 0] show "int (lg_backups l) * lg_max_bytes l \<le> file_bytes (retained l)"
    unfolding retained_bytes by linarith
qed

text \<open>C29: The request log is bounded and keeps the newest records. A logger with a limit of \<open>M > 0\<close> bytes
  per file and \<open>B\<close> backups that starts on an empty directory and writes lines of at most \<open>w\<close> bytes, line
  feed included, holds at every moment a suffix of what was logged, in order, of fewer than
  \<open>(B + 1) * (M + w)\<close> bytes; and it has dropped something only if it still holds \<open>B * M\<close> bytes.\<close>

theorem request_log_bounded:
  assumes "0 < M" "\<forall>x \<in> set ls. int (length x) + 1 \<le> w" "0 \<le> w"
  shows "\<exists>dropped. ls = dropped @ retained (fold (log_line Disk_ok) ls (new_logger True M (int B) (\<lambda>_. None))) \<and>
    file_bytes (retained (fold (log_line Disk_ok) ls (new_logger True M (int B) (\<lambda>_. None)))) < int (Suc B) * (M + w) \<and>
    (dropped \<noteq> [] \<longrightarrow> int B * M \<le> file_bytes (retained (fold (log_line Disk_ok) ls (new_logger True M (int B) (\<lambda>_. None)))))"
proof -
  let ?l = "fold (log_line Disk_ok) ls (new_logger True M (int B) (\<lambda>_. None))"
  have f: "lg_backups ?l = B \<and> lg_max_bytes ?l = M"
    using assms(1) by (induction ls rule: rev_induct) (simp_all add: new_logger_def open_log_def log_line_def Let_def)
  obtain dropped where d: "log_ok w dropped ?l" "ls = dropped @ retained ?l"
    using log_lines_ok[OF new_logger_ok(1)[OF assms(1)] new_logger_ok(2)[OF assms(1)] assms(2)] by blast
  with retained_bounds[OF d(1) assms(3)] f show ?thesis by metis
qed

theorem request_log_bounded_witness:
  "\<exists>dropped. [''ab'', ''c'', ''de'', ''f''] = dropped @ retained (fold (log_line Disk_ok) [''ab'', ''c'', ''de'', ''f''] (new_logger True 4 (int 1) (\<lambda>_. None))) \<and>
    file_bytes (retained (fold (log_line Disk_ok) [''ab'', ''c'', ''de'', ''f''] (new_logger True 4 (int 1) (\<lambda>_. None)))) < int (Suc 1) * (4 + 3) \<and>
    (dropped \<noteq> [] \<longrightarrow> int 1 * 4 \<le> file_bytes (retained (fold (log_line Disk_ok) [''ab'', ''c'', ''de'', ''f''] (new_logger True 4 (int 1) (\<lambda>_. None)))))"
  by (rule request_log_bounded) simp_all

text \<open>A disk that refuses never raises into the request: the logger closes itself, says so, and
  ignores every later line.\<close>

lemma unwritable_log_is_silent: "\<not> lg_open l \<Longrightarrow> fold (\<lambda>(d, x). log_line d x) dls l = l"
  by (induction dls) (auto simp: log_line_def)

text \<open>For a percentage that is not negative the percentile of some samples is one of the sorted values,
  the largest from one hundred on.\<close>

lemma percentile_order_statistic:
  assumes "0 \<le> pct" and vs: "vs = map field (filter (\<lambda>s. name_matches ep (ms_endpoint s) \<and> name_matches ag (ms_agent_id s)) (rm_samples m))"
    and "vs \<noteq> []"
  shows "metrics_percentile field pct ep ag m = Inr (sort vs ! min (nat \<lfloor>real (length vs) * pct / 100\<rfloor>) (length vs - 1))"
proof -
  let ?i = "min \<lfloor>real (length vs) * pct / 100\<rfloor> (int (length vs) - 1)"
  have "0 < length vs" using assms(3) by simp
  moreover have "0 \<le> \<lfloor>real (length vs) * pct / 100\<rfloor>" using assms(1) by simp
  ultimately have "0 \<le> ?i" "?i < int (length (sort vs))" "nat ?i = min (nat \<lfloor>real (length vs) * pct / 100\<rfloor>) (length vs - 1)"
    by auto
  then have "py_index (sort vs) ?i = Inr (sort vs ! min (nat \<lfloor>real (length vs) * pct / 100\<rfloor>) (length vs - 1))"
    by (simp only: py_index_def) simp
  then show ?thesis using assms(1,3) unfolding metrics_percentile_def vs[symmetric] Let_def by (simp add: py_int_def)
qed

end
