(* ===== verification/Persist.thy ===== *)
theory Persist
  imports No_Store Requests Spend "HOL-Library.Sublist" "HOL-Library.Multiset" "HOL-Library.List_Lexorder" "HOL-Library.Product_Lexorder" "HOL-Library.Char_ord"
begin

section \<open>The persistent queue (queue.py)\<close>

text \<open>
  The tables of the SQLite database as lists of rows in insertion order, one constructor per
  statement the program writes with and its effect on the tables, the thread that applies the
  writes, the operations that submit them, and recovery after a restart. A column that holds JSON
  has the value its text encodes; the payload of a queued row is \<open>None\<close> if its text does not parse.
  Wall-clock times, whether the disk takes a statement and whether a dead writer can be restarted
  are arguments. Statements that run before the writer is started are taken to succeed: an error
  there stops the boot.
\<close>

subsection \<open>Rows\<close>

record queue_row =
  qw_request_id :: string
  qw_agent_id :: string
  qw_endpoint :: string
  qw_priority :: int
  qw_call_site :: string
  qw_payload_type :: string
  qw_payload :: "payload option"
  qw_status :: string
  qw_enqueued_at :: real
  qw_timeout_deadline :: real
  qw_estimated_cost :: "real option"
  qw_session_id :: "string option"
  qw_turn_id :: "string option"
  qw_stream :: bool
  qw_enqueued_wall :: "real option"
  qw_timeout_s :: "real option"
  qw_caller_id :: "string option"

record completion_row =
  cp_request_id :: string
  cp_agent_id :: string
  cp_endpoint :: string
  cp_call_site :: string
  cp_priority :: int
  cp_input_tokens :: "int option"
  cp_output_tokens :: "int option"
  cp_cached_tokens :: "int option"
  cp_duration_s :: "real option"
  cp_queue_wait_ms :: "real option"
  cp_status :: string
  cp_completed_at :: real
  cp_payload :: "json option"
  cp_response :: "json option"
  cp_session_id :: "string option"
  cp_turn_id :: "string option"
  cp_caller_id :: "string option"
  cp_finish_reason :: "string option"
  cp_kind :: "string option"
  cp_key_id :: "string option"
  cp_no_store :: "string option"
  cp_content_meta :: "json option"

record shadow_row =
  sh_request_id :: string
  sh_completed_at :: real
  sh_endpoint :: string
  sh_priority :: int
  sh_est_in :: int
  sh_est_out :: int
  sh_actual_out :: int
  sh_actual_total_ms :: real
  sh_applied_timeout_s :: real
  sh_recommended_ms :: real
  sh_p95_ms :: real
  sh_median_ms :: real
  sh_min_ms :: real
  sh_source :: string
  sh_would_timeout :: bool

record timeout_row =
  to_request_id :: string
  to_occurred_at :: real
  to_endpoint :: string
  to_priority :: int
  to_agent_id :: string
  to_call_site :: string
  to_layer :: string
  to_elapsed_s :: real
  to_applied_timeout_s :: real
  to_queue_wait_ms :: "real option"
  to_in_flight :: int
  to_queued :: int
  to_max_slots :: int
  to_est_in :: int
  to_est_out :: int
  to_recommended_ms :: real
  to_under_recommended :: bool
  to_session_id :: "string option"
  to_turn_id :: "string option"
  to_caller_id :: "string option"
  to_context_window :: int
  to_context_used_pct :: "real option"
  to_abort_reason :: "string option"

record maintenance_row =
  mt_endpoint :: string
  mt_started_at :: real
  mt_ended_at :: "real option"
  mt_reason :: "string option"
  mt_operator :: "string option"
  mt_source :: string

record saved_budget =
  bg_agent_id :: string
  bg_weight :: real
  bg_balance :: real
  bg_total_consumed :: real
  bg_last_replenish_at :: real

record overflow_row =
  ov_count :: int
  ov_max_est_in :: int
  ov_last_at :: real

record cache_row =
  cs_snapshot_at :: real
  cs_endpoint :: string
  cs_cum_hits :: "int option"
  cs_cum_queries :: "int option"
  cs_screen :: json

type_synonym day_key = "string \<times> int"

record proxy_db =
  db_queue :: "queue_row list"
  db_budgets :: "saved_budget list"
  db_completions :: "completion_row list"
  db_shadow :: "shadow_row list"
  db_timeouts :: "timeout_row list"
  db_maintenance :: "maintenance_row list"
  db_cache_stats :: "cache_row list"
  db_overflows :: "(string \<times> string, overflow_row) odict"
  db_kv :: "(string, json) odict"
  db_savings :: "(day_key, int \<times> int) odict"

definition empty_db :: proxy_db where
  "empty_db = \<lparr>db_queue = [], db_budgets = [], db_completions = [], db_shadow = [], db_timeouts = [], db_maintenance = [],
     db_cache_stats = [], db_overflows = [], db_kv = [], db_savings = []\<rparr>"

subsection \<open>Statements\<close>

datatype sql_write =
    Put_queue queue_row
  | Mark_dispatched string
  | Delete_queue string
  | Put_completion completion_row
  | Put_shadow shadow_row
  | Add_timeout timeout_row
  | Add_maintenance maintenance_row
  | Close_maintenance string real
  | Put_budget saved_budget
  | Delete_budget string
  | Bump_overflow string string int real
  | Put_kv string json
  | Finalise_savings
  | Prune_completions real
  | Prune_shadow real
  | Prune_timeouts real
  | Null_payloads real
  | Add_cache_stats cache_row
  | Prune_cache_stats real

text \<open>\<^verbatim>\<open>INSERT OR REPLACE\<close>: a row with the same key is removed, the new one is the last.\<close>

definition put_row :: "('a \<Rightarrow> 'k) \<Rightarrow> 'a \<Rightarrow> 'a list \<Rightarrow> 'a list" where
  "put_row key r t = filter (\<lambda>x. key x \<noteq> key r) t @ [r]"

text \<open>\<^verbatim>\<open>CAST(completed_at / 86400 AS INTEGER) * 86400\<close>, and the bucket of a completion.\<close>

definition day_bucket_sql :: "real \<Rightarrow> int" where
  "day_bucket_sql t = py_int (t / 86400) * 86400"

definition bucket_of :: "completion_row \<Rightarrow> day_key" where
  "bucket_of c = (cp_endpoint c, day_bucket_sql (cp_completed_at c))"

definition coalesce0 :: "int option \<Rightarrow> int" where
  "coalesce0 v = (case v of None \<Rightarrow> 0 | Some n \<Rightarrow> n)"

definition live_tokens :: "day_key \<Rightarrow> completion_row list \<Rightarrow> int \<times> int" where
  "live_tokens b cs = (let g = filter (\<lambda>c. bucket_of c = b) cs in
     (sum_list (map (\<lambda>c. coalesce0 (cp_input_tokens c)) g), sum_list (map (\<lambda>c. coalesce0 (cp_output_tokens c)) g)))"

definition max_pair :: "int \<times> int \<Rightarrow> int \<times> int \<Rightarrow> int \<times> int" where
  "max_pair x y = (max (fst x) (fst y), max (snd x) (snd y))"

text \<open>\<^verbatim>\<open>_FINALISE_SAVINGS_SQL\<close>: every bucket of the completions, in the order of the groups.\<close>

definition finalise_bucket ::
    "completion_row list \<Rightarrow> day_key \<Rightarrow> (day_key, int \<times> int) odict \<Rightarrow> (day_key, int \<times> int) odict" where
  "finalise_bucket cs b d = od_put b (case od_get d b of None \<Rightarrow> live_tokens b cs | Some v \<Rightarrow> max_pair v (live_tokens b cs)) d"

definition finalise_savings ::
    "completion_row list \<Rightarrow> (day_key, int \<times> int) odict \<Rightarrow> (day_key, int \<times> int) odict" where
  "finalise_savings cs d = fold (finalise_bucket cs) (sort (remdups (map bucket_of cs))) d"

definition bump_overflow ::
    "string \<Rightarrow> string \<Rightarrow> int \<Rightarrow> real \<Rightarrow> (string \<times> string, overflow_row) odict \<Rightarrow> (string \<times> string, overflow_row) odict" where
  "bump_overflow ep caller n now d = od_put (ep, caller) (case od_get d (ep, caller) of
       None \<Rightarrow> \<lparr>ov_count = 1, ov_max_est_in = n, ov_last_at = now\<rparr>
     | Some r \<Rightarrow> \<lparr>ov_count = ov_count r + 1, ov_max_est_in = max (ov_max_est_in r) n, ov_last_at = now\<rparr>) d"

fun exec_sql :: "sql_write \<Rightarrow> proxy_db \<Rightarrow> proxy_db" where
  "exec_sql (Put_queue r) db = db\<lparr>db_queue := put_row qw_request_id r (db_queue db)\<rparr>"
| "exec_sql (Mark_dispatched i) db = db\<lparr>db_queue :=
     map (\<lambda>r. if qw_request_id r = i then r\<lparr>qw_status := ''dispatched''\<rparr> else r) (db_queue db)\<rparr>"
| "exec_sql (Delete_queue i) db = db\<lparr>db_queue := filter (\<lambda>r. qw_request_id r \<noteq> i) (db_queue db)\<rparr>"
| "exec_sql (Put_completion r) db = db\<lparr>db_completions := put_row cp_request_id r (db_completions db)\<rparr>"
| "exec_sql (Put_shadow r) db = db\<lparr>db_shadow := put_row sh_request_id r (db_shadow db)\<rparr>"
| "exec_sql (Add_timeout r) db = db\<lparr>db_timeouts := db_timeouts db @ [r]\<rparr>"
| "exec_sql (Add_maintenance r) db = db\<lparr>db_maintenance := db_maintenance db @ [r]\<rparr>"
| "exec_sql (Close_maintenance ep t) db = db\<lparr>db_maintenance :=
     map (\<lambda>r. if mt_endpoint r = ep \<and> mt_ended_at r = None then r\<lparr>mt_ended_at := Some t\<rparr> else r) (db_maintenance db)\<rparr>"
| "exec_sql (Put_budget r) db = db\<lparr>db_budgets := put_row bg_agent_id r (db_budgets db)\<rparr>"
| "exec_sql (Delete_budget i) db = db\<lparr>db_budgets := filter (\<lambda>r. bg_agent_id r \<noteq> i) (db_budgets db)\<rparr>"
| "exec_sql (Bump_overflow ep caller n now) db = db\<lparr>db_overflows := bump_overflow ep caller n now (db_overflows db)\<rparr>"
| "exec_sql (Put_kv k v) db = db\<lparr>db_kv := od_put k v (db_kv db)\<rparr>"
| "exec_sql Finalise_savings db = db\<lparr>db_savings := finalise_savings (db_completions db) (db_savings db)\<rparr>"
| "exec_sql (Prune_completions cutoff) db = db\<lparr>db_completions :=
     filter (\<lambda>c. \<not> (cp_completed_at c < cutoff \<and> od_get (db_savings db) (bucket_of c) \<noteq> None)) (db_completions db)\<rparr>"
| "exec_sql (Prune_shadow cutoff) db = db\<lparr>db_shadow := filter (\<lambda>r. \<not> sh_completed_at r < cutoff) (db_shadow db)\<rparr>"
| "exec_sql (Prune_timeouts cutoff) db = db\<lparr>db_timeouts := filter (\<lambda>r. \<not> to_occurred_at r < cutoff) (db_timeouts db)\<rparr>"
| "exec_sql (Null_payloads cutoff) db = db\<lparr>db_completions :=
     map (\<lambda>c. if cp_completed_at c < cutoff \<and> (cp_payload c \<noteq> None \<or> cp_response c \<noteq> None)
              then c\<lparr>cp_payload := None, cp_response := None\<rparr> else c) (db_completions db)\<rparr>"
| "exec_sql (Add_cache_stats r) db = db\<lparr>db_cache_stats := db_cache_stats db @ [r]\<rparr>"
| "exec_sql (Prune_cache_stats cutoff) db = db\<lparr>db_cache_stats := filter (\<lambda>r. \<not> cs_snapshot_at r < cutoff) (db_cache_stats db)\<rparr>"

subsection \<open>The writer\<close>

datatype writer_state = Not_started | Running | Died

record persistent_queue =
  pq_open :: bool
  pq_db :: proxy_db
  pq_writer :: writer_state
  pq_pending :: "sql_write list"
  pq_restarts :: int
  pq_dropped :: int
  pq_maxsize :: nat

record write_env =
  we_restart_ok :: bool
  we_disk_ok :: bool

definition open_queue :: "bool \<Rightarrow> proxy_db \<Rightarrow> persistent_queue" where
  "open_queue has_path db = \<lparr>pq_open = has_path, pq_db = db, pq_writer = Not_started, pq_pending = [], pq_restarts = 0,
     pq_dropped = 0, pq_maxsize = 20000\<rparr>"

definition start_async_writer :: "persistent_queue \<Rightarrow> persistent_queue" where
  "start_async_writer q = (if \<not> pq_open q \<or> pq_writer q \<noteq> Not_started then q else q\<lparr>pq_writer := Running, pq_pending := []\<rparr>)"

text \<open>One turn of the writer thread: an error of the statement is logged and the write is lost.\<close>

definition writer_step :: "bool \<Rightarrow> persistent_queue \<Rightarrow> persistent_queue" where
  "writer_step disk_ok q = (case pq_pending q of [] \<Rightarrow> q
     | w # ws \<Rightarrow> q\<lparr>pq_pending := ws, pq_db := (if disk_ok then exec_sql w (pq_db q) else pq_db q)\<rparr>)"

definition put_nowait :: "sql_write \<Rightarrow> persistent_queue \<Rightarrow> persistent_queue" where
  "put_nowait w q = (if length (pq_pending q) < pq_maxsize q then q\<lparr>pq_pending := pq_pending q @ [w]\<rparr>
     else q\<lparr>pq_dropped := pq_dropped q + 1\<rparr>)"

definition submit_write :: "write_env \<Rightarrow> sql_write \<Rightarrow> persistent_queue \<Rightarrow> persistent_queue" where
  "submit_write e w q = (if \<not> pq_open q then q
     else case pq_writer q of
       Running \<Rightarrow> put_nowait w q
     | Not_started \<Rightarrow> q\<lparr>pq_db := exec_sql w (pq_db q)\<rparr>
     | Died \<Rightarrow> (let q = q\<lparr>pq_restarts := pq_restarts q + 1\<rparr> in
         if we_restart_ok e then put_nowait w (q\<lparr>pq_writer := Running\<rparr>)
         else if we_disk_ok e then q\<lparr>pq_db := exec_sql w (pq_db q)\<rparr> else q))"

definition writer_alive :: "persistent_queue \<Rightarrow> bool" where
  "writer_alive q \<longleftrightarrow> pq_writer q \<noteq> Died"

text \<open>Draining: the writer takes everything that is pending.\<close>

definition flush_queue :: "persistent_queue \<Rightarrow> persistent_queue" where
  "flush_queue q = (if pq_writer q = Running
     then q\<lparr>pq_pending := [], pq_db := fold exec_sql (pq_pending q) (pq_db q)\<rparr> else q)"

definition close_queue :: "persistent_queue \<Rightarrow> persistent_queue" where
  "close_queue q = (flush_queue q)\<lparr>pq_open := False\<rparr>"

subsection \<open>Operations that write\<close>

definition queue_row_of :: "real \<Rightarrow> queued_request \<Rightarrow> queue_row" where
  "queue_row_of wall r = \<lparr>qw_request_id = request_id r, qw_agent_id = agent_id r, qw_endpoint = rq_endpoint r,
     qw_priority = prio_int (rq_priority r), qw_call_site = call_site r, qw_payload_type = payload_type r,
     qw_payload = Some (rq_payload r), qw_status = ''queued'', qw_enqueued_at = enqueued_at r,
     qw_timeout_deadline = timeout_deadline r, qw_estimated_cost = Some (estimated_cost_ss r),
     qw_session_id = session_id r, qw_turn_id = turn_id r, qw_stream = rq_stream r,
     qw_enqueued_wall = Some wall, qw_timeout_s = Some (timeout_s r), qw_caller_id = caller_id r\<rparr>"

definition persist_enqueue :: "write_env \<Rightarrow> real \<Rightarrow> queued_request \<Rightarrow> persistent_queue \<Rightarrow> persistent_queue" where
  "persist_enqueue e wall r q = (if rq_no_store r then q else submit_write e (Put_queue (queue_row_of wall r)) q)"

definition persist_dispatch :: "write_env \<Rightarrow> string \<Rightarrow> persistent_queue \<Rightarrow> persistent_queue" where
  "persist_dispatch e i q = submit_write e (Mark_dispatched i) q"

definition persist_expire :: "write_env \<Rightarrow> string \<Rightarrow> persistent_queue \<Rightarrow> persistent_queue" where
  "persist_expire e i q = submit_write e (Delete_queue i) q"

text \<open>A payload or a response is kept if it is true; one that must not be stored is summarised. The
  row as given carries the two in its columns.\<close>

definition kept_json :: "json option \<Rightarrow> json option" where
  "kept_json v = (case v of None \<Rightarrow> None | Some j \<Rightarrow> if truthy j then Some j else None)"

definition or_null :: "json option \<Rightarrow> json" where
  "or_null v = (case v of None \<Rightarrow> JNull | Some j \<Rightarrow> j)"

definition completion_entry :: "real \<Rightarrow> completion_row \<Rightarrow> completion_row py" where
  "completion_entry now a = (let a = a\<lparr>cp_completed_at := now, cp_no_store := (if cp_no_store a = Some [] then None else cp_no_store a)\<rparr> in
     if cp_no_store a = Some ''honoured'' then
       (case content_summary (or_null (cp_payload a)) (or_null (cp_response a)) of
          Inl err \<Rightarrow> Inl err
        | Inr m \<Rightarrow> Inr (a\<lparr>cp_payload := None, cp_response := None, cp_content_meta := Some (JObj m)\<rparr>))
     else Inr (a\<lparr>cp_payload := kept_json (cp_payload a), cp_response := kept_json (cp_response a), cp_content_meta := None\<rparr>))"

definition persist_complete :: "write_env \<Rightarrow> real \<Rightarrow> completion_row \<Rightarrow> persistent_queue \<Rightarrow> persistent_queue py" where
  "persist_complete e now a q = (if \<not> pq_open q then Inr q
     else case completion_entry now a of
       Inl err \<Rightarrow> Inl err
     | Inr r \<Rightarrow> Inr (submit_write e (Put_completion r) (submit_write e (Delete_queue (cp_request_id a)) q)))"

definition or_none :: "string \<Rightarrow> string option" where
  "or_none s = (if s = [] then None else Some s)"

text \<open>The row of a completion as the request path records it, and the rows that replace it once an answer
  was corrected: these pass neither the credential, nor the kind, nor the cached tokens.\<close>

definition payload_kinds :: "(string, string) odict" where
  "payload_kinds = [(''chat_completion'', ''chat''), (''embedding'', ''embed''), (''rerank'', ''rerank'')]"

definition outcome_of :: "queued_request \<Rightarrow> string option" where
  "outcome_of r = (if no_store_outcome r = [] then None else Some (no_store_outcome r))"

definition request_completion ::
    "queued_request \<Rightarrow> int \<Rightarrow> int \<Rightarrow> int option \<Rightarrow> real \<Rightarrow> real \<Rightarrow> string \<Rightarrow> json option \<Rightarrow> string option \<Rightarrow> completion_row" where
  "request_completion r n_in n_out cached dur wait status response finish =
     \<lparr>cp_request_id = request_id r, cp_agent_id = agent_id r, cp_endpoint = rq_endpoint r, cp_call_site = call_site r,
      cp_priority = prio_int (rq_priority r), cp_input_tokens = Some n_in, cp_output_tokens = Some n_out, cp_cached_tokens = cached,
      cp_duration_s = Some dur, cp_queue_wait_ms = Some wait, cp_status = status, cp_completed_at = 0,
      cp_payload = (if payload_type r = ''chat_completion'' \<or> rq_no_store r then Some (JObj (rq_payload r)) else None),
      cp_response = response, cp_session_id = session_id r, cp_turn_id = turn_id r, cp_caller_id = caller_id r,
      cp_finish_reason = finish, cp_kind = Some (od_get_or ''llm'' payload_kinds (payload_type r)),
      cp_key_id = or_none (asserted_by_key_id r), cp_no_store = outcome_of r, cp_content_meta = None\<rparr>"

definition corrected_completion ::
    "queued_request \<Rightarrow> int \<Rightarrow> int \<Rightarrow> real \<Rightarrow> json \<Rightarrow> string option \<Rightarrow> completion_row" where
  "corrected_completion r n_in n_out dur body finish =
     (request_completion r n_in n_out None dur 0 ''ok'' (Some body) finish)
       \<lparr>cp_payload := Some (JObj (rq_payload r)), cp_kind := Some ''llm'', cp_key_id := None\<rparr>"

text \<open>\<^verbatim>\<open>int(usage.get(key) or 0)\<close> for the counts a backend reports, which are integers or missing.\<close>

definition usage_count :: "json \<Rightarrow> string \<Rightarrow> int" where
  "usage_count body k = (case body of JObj b \<Rightarrow> (case jget b ''usage'' of JObj u \<Rightarrow> (case jget u k of JInt n \<Rightarrow> n | _ \<Rightarrow> 0) | _ \<Rightarrow> 0) | _ \<Rightarrow> 0)"

definition schema_corrected_completion :: "queued_request \<Rightarrow> json \<Rightarrow> completion_row" where
  "schema_corrected_completion r body =
     corrected_completion r (usage_count body ''prompt_tokens'') (usage_count body ''completion_tokens'') 0 body None"

definition persist_timeout_shadow :: "write_env \<Rightarrow> real \<Rightarrow> shadow_row \<Rightarrow> persistent_queue \<Rightarrow> persistent_queue" where
  "persist_timeout_shadow e now r q = submit_write e (Put_shadow (r\<lparr>sh_completed_at := now\<rparr>)) q"

definition persist_timeout_event :: "write_env \<Rightarrow> real \<Rightarrow> timeout_row \<Rightarrow> persistent_queue \<Rightarrow> persistent_queue" where
  "persist_timeout_event e now r q = submit_write e (Add_timeout (r\<lparr>to_occurred_at := now\<rparr>)) q"

definition norm_maint_endpoint :: "(string, string) odict \<Rightarrow> string \<Rightarrow> string" where
  "norm_maint_endpoint rc ep = (if ep = ''*'' then ''*'' else normalize_endpoint rc ep)"

definition maintenance_open ::
    "(string, string) odict \<Rightarrow> write_env \<Rightarrow> real \<Rightarrow> string \<Rightarrow> string \<Rightarrow> string \<Rightarrow> string \<Rightarrow> real option \<Rightarrow> persistent_queue \<Rightarrow> persistent_queue" where
  "maintenance_open rc e now ep reason operator source started_at q =
     submit_write e (Add_maintenance \<lparr>mt_endpoint = norm_maint_endpoint rc ep,
       mt_started_at = (case started_at of None \<Rightarrow> now | Some t \<Rightarrow> t), mt_ended_at = None, mt_reason = or_none reason,
       mt_operator = or_none operator, mt_source = source\<rparr>) q"

definition maintenance_close ::
    "(string, string) odict \<Rightarrow> write_env \<Rightarrow> real \<Rightarrow> string \<Rightarrow> real option \<Rightarrow> persistent_queue \<Rightarrow> persistent_queue" where
  "maintenance_close rc e now ep ended_at q =
     submit_write e (Close_maintenance (norm_maint_endpoint rc ep) (case ended_at of None \<Rightarrow> now | Some t \<Rightarrow> t)) q"

definition maintenance_record ::
    "(string, string) odict \<Rightarrow> write_env \<Rightarrow> string \<Rightarrow> real \<Rightarrow> real \<Rightarrow> string \<Rightarrow> string \<Rightarrow> string \<Rightarrow> persistent_queue \<Rightarrow> persistent_queue" where
  "maintenance_record rc e ep started_at ended_at reason operator source q =
     submit_write e (Add_maintenance \<lparr>mt_endpoint = norm_maint_endpoint rc ep, mt_started_at = started_at,
       mt_ended_at = Some ended_at, mt_reason = or_none reason, mt_operator = or_none operator, mt_source = source\<rparr>) q"

text \<open>The budgets come with the balance, the weight and the total of \<^verbatim>\<open>snapshot\<close>; the time is that of the write.\<close>

definition save_budgets :: "write_env \<Rightarrow> real \<Rightarrow> saved_budget list \<Rightarrow> persistent_queue \<Rightarrow> persistent_queue" where
  "save_budgets e now bs q = fold (\<lambda>b. submit_write e (Put_budget (b\<lparr>bg_last_replenish_at := now\<rparr>))) bs q"

definition delete_budgets :: "write_env \<Rightarrow> string list \<Rightarrow> persistent_queue \<Rightarrow> persistent_queue" where
  "delete_budgets e ids q = fold (\<lambda>i. submit_write e (Delete_budget i)) ids q"

definition record_context_overflow ::
    "write_env \<Rightarrow> real \<Rightarrow> string \<Rightarrow> string \<Rightarrow> int \<Rightarrow> persistent_queue \<Rightarrow> persistent_queue" where
  "record_context_overflow e now ep caller n q = submit_write e (Bump_overflow ep caller n now) q"

definition kv_set :: "write_env \<Rightarrow> string \<Rightarrow> json \<Rightarrow> persistent_queue \<Rightarrow> persistent_queue" where
  "kv_set e k v q = submit_write e (Put_kv k v) q"

definition persist_cache_snapshot :: "write_env \<Rightarrow> cache_row \<Rightarrow> persistent_queue \<Rightarrow> persistent_queue" where
  "persist_cache_snapshot e r q = submit_write e (Add_cache_stats r) q"

definition prune_cache_stats :: "write_env \<Rightarrow> real \<Rightarrow> real \<Rightarrow> persistent_queue \<Rightarrow> persistent_queue" where
  "prune_cache_stats e now older_than_s q = submit_write e (Prune_cache_stats (now - older_than_s)) q"

definition persist_external_call ::
    "(string, string) odict \<Rightarrow> write_env \<Rightarrow> real \<Rightarrow> completion_row \<Rightarrow> persistent_queue \<Rightarrow> persistent_queue" where
  "persist_external_call rc e now a q = (if \<not> pq_open q then q
     else submit_write e (Put_completion (a\<lparr>cp_endpoint := normalize_endpoint rc (cp_endpoint a), cp_completed_at := now,
       cp_queue_wait_ms := Some 0, cp_cached_tokens := None, cp_payload := None, cp_response := None, cp_session_id := None,
       cp_turn_id := None, cp_finish_reason := None, cp_key_id := None, cp_no_store := None, cp_content_meta := None\<rparr>)) q)"

definition cleanup_old_completions :: "(nat \<Rightarrow> write_env) \<Rightarrow> real \<Rightarrow> real \<Rightarrow> persistent_queue \<Rightarrow> persistent_queue" where
  "cleanup_old_completions e now max_age_s q = (if \<not> pq_open q then q
     else submit_write (e 3) (Prune_timeouts (now - max_age_s))
       (submit_write (e 2) (Prune_shadow (now - max_age_s))
       (submit_write (e 1) (Prune_completions (now - max_age_s))
       (submit_write (e 0) Finalise_savings q))))"

definition cleanup_old_payloads :: "write_env \<Rightarrow> real \<Rightarrow> real \<Rightarrow> persistent_queue \<Rightarrow> persistent_queue" where
  "cleanup_old_payloads e now max_age_s q = (if \<not> pq_open q then q else submit_write e (Null_payloads (now - max_age_s)) q)"

subsection \<open>Recovery\<close>

text \<open>A row read back: nothing is restored of a request beyond the columns of its row.\<close>

definition recovered_request ::
    "(string, string) odict \<Rightarrow> llm_priority \<Rightarrow> real \<Rightarrow> real \<Rightarrow> real \<Rightarrow> queue_row \<Rightarrow> queued_request" where
  "recovered_request rc pri budget enq deadline w =
     \<lparr>request_id = qw_request_id w, agent_id = qw_agent_id w, rq_endpoint = normalize_endpoint rc (qw_endpoint w),
      rq_priority = pri, rq_band = priority_to_band pri, call_site = qw_call_site w, payload_type = qw_payload_type w,
      rq_payload = (case qw_payload w of None \<Rightarrow> [] | Some p \<Rightarrow> p), timeout_deadline = deadline, enqueued_at = enq,
      estimated_cost_ss = (case qw_estimated_cost w of None \<Rightarrow> 0 | Some c \<Rightarrow> c), est_input_tokens = 0,
      session_id = qw_session_id w, turn_id = qw_turn_id w, caller_id = qw_caller_id w, declared_agent_id = [],
      asserted_by_key_id = [], timeout_s = budget, rq_stream = qw_stream w, ctx_per_slot_at_admission = 0,
      json_object_stripped = False, forced_tool_schema = None, forced_tool_name = [], deadline_is_default = False,
      degraded_from = None, spilled_from = None, requested = [], routed_to = [], allow_degrade = None, allow_spill = None,
      no_store_outcome = []\<rparr>"

definition row_budget :: "queue_row \<Rightarrow> real" where
  "row_budget w = (case qw_timeout_s w of None \<Rightarrow> 180 | Some t \<Rightarrow> if t = 0 then 180 else t)"

text \<open>The elapsed wall-clock time and the rest of the budget, for a row that has its wall-clock time.\<close>

definition row_clock :: "real \<Rightarrow> queue_row \<Rightarrow> (real \<times> real) option" where
  "row_clock wall_now w = (case qw_enqueued_wall w of None \<Rightarrow> None
     | Some t \<Rightarrow> if t = 0 then None else Some (max 0 (wall_now - t), row_budget w - max 0 (wall_now - t)))"

definition recover_row :: "(string, string) odict \<Rightarrow> real \<Rightarrow> real \<Rightarrow> queue_row \<Rightarrow> queued_request option py" where
  "recover_row rc now wall_now w =
     (let times = (case row_clock wall_now w of
          None \<Rightarrow> Some (now, now + row_budget w)
        | Some (elapsed, remaining) \<Rightarrow> if remaining \<le> 0 then None else Some (now - elapsed, now + remaining)) in
      case times of None \<Rightarrow> Inr None
      | Some (enq, deadline) \<Rightarrow> (case prio_of_int (qw_priority w) of
            None \<Rightarrow> Inl ValueError
          | Some pri \<Rightarrow> Inr (Some (recovered_request rc pri (row_budget w) enq deadline w))))"

text \<open>The loop over the rows: an expired row is deleted at once, so an exception keeps the deletions.\<close>

fun recover_rows ::
    "(string, string) odict \<Rightarrow> real \<Rightarrow> real \<Rightarrow> queue_row list \<Rightarrow> proxy_db \<Rightarrow> proxy_db \<times> queued_request list py" where
  "recover_rows rc now wall_now [] db = (db, Inr [])"
| "recover_rows rc now wall_now (w # ws) db = (case recover_row rc now wall_now w of
     Inl err \<Rightarrow> (db, Inl err)
   | Inr None \<Rightarrow> recover_rows rc now wall_now ws (exec_sql (Delete_queue (qw_request_id w)) db)
   | Inr (Some r) \<Rightarrow> (case recover_rows rc now wall_now ws db of
         (db', Inl err) \<Rightarrow> (db', Inl err)
       | (db', Inr rs) \<Rightarrow> (db', Inr (r # rs))))"

definition drop_unrecoverable :: "queue_row list \<Rightarrow> queue_row list" where
  "drop_unrecoverable ws = filter (\<lambda>w. qw_status w \<noteq> ''dispatched'' \<and> \<not> (qw_status w = ''queued'' \<and> qw_stream w)) ws"

definition recover_queued ::
    "(string, string) odict \<Rightarrow> real \<Rightarrow> real \<Rightarrow> persistent_queue \<Rightarrow> persistent_queue \<times> queued_request list py" where
  "recover_queued rc now wall_now q = (if \<not> pq_open q then (q, Inr [])
     else (let db = (pq_db q)\<lparr>db_queue := drop_unrecoverable (db_queue (pq_db q))\<rparr> in
       case recover_rows rc now wall_now (filter (\<lambda>w. qw_status w = ''queued'') (db_queue db)) db of
         (db', res) \<Rightarrow> (q\<lparr>pq_db := db'\<rparr>, res)))"

subsection \<open>Reads\<close>

definition maintenance_windows :: "real \<Rightarrow> real \<Rightarrow> persistent_queue \<Rightarrow> maintenance_row list" where
  "maintenance_windows now hours q = (if \<not> pq_open q then []
     else sort_key mt_started_at (filter (\<lambda>r. (case mt_ended_at r of None \<Rightarrow> now | Some t \<Rightarrow> t) \<ge> now - hours * 3600)
       (db_maintenance (pq_db q))))"

definition context_overflow_seed_window_s :: real where "context_overflow_seed_window_s = 48 * 3600"

record overflow_tally =
  ot_count :: int
  ot_callers :: "(string, int) odict"
  ot_max_est_in :: int

definition add_overflow :: "(string \<times> string) \<times> overflow_row \<Rightarrow> (string, overflow_tally) odict \<Rightarrow> (string, overflow_tally) odict" where
  "add_overflow kr d = (case kr of ((ep, caller), r) \<Rightarrow>
     (let t = od_get_or \<lparr>ot_count = 0, ot_callers = [], ot_max_est_in = 0\<rparr> d ep in
      od_put ep \<lparr>ot_count = ot_count t + ov_count r, ot_callers = od_put caller (ov_count r) (ot_callers t),
                 ot_max_est_in = max (ot_max_est_in t) (ov_max_est_in r)\<rparr> d))"

definition load_context_overflows :: "real \<Rightarrow> persistent_queue \<Rightarrow> (string, overflow_tally) odict" where
  "load_context_overflows now q = (if \<not> pq_open q then []
     else fold add_overflow (filter (\<lambda>(k, r). ov_last_at r \<ge> now - context_overflow_seed_window_s) (db_overflows (pq_db q))) [])"

definition kv_get :: "string \<Rightarrow> json \<Rightarrow> persistent_queue \<Rightarrow> json" where
  "kv_get k dflt q = (if \<not> pq_open q then dflt else case od_get (db_kv (pq_db q)) k of None \<Rightarrow> dflt | Some v \<Rightarrow> v)"

definition load_budgets :: "persistent_queue \<Rightarrow> saved_budget list" where
  "load_budgets q = (if \<not> pq_open q then []
     else map (\<lambda>b. b\<lparr>bg_weight := (if bg_weight b = 0 then 1 else bg_weight b)\<rparr>) (db_budgets (pq_db q)))"

record spend_row =
  sr_agent_id :: string
  sr_endpoint :: string
  sr_requests :: int
  sr_input_tokens :: int
  sr_output_tokens :: int

definition day_spend_rollup :: "real \<Rightarrow> persistent_queue \<Rightarrow> spend_row list" where
  "day_spend_rollup since q = (if \<not> pq_open q then []
     else (let cs = filter (\<lambda>c. cp_completed_at c \<ge> since) (db_completions (pq_db q));
               grp = (\<lambda>k. filter (\<lambda>c. (cp_agent_id c, cp_endpoint c) = k) cs) in
       map (\<lambda>k. \<lparr>sr_agent_id = fst k, sr_endpoint = snd k, sr_requests = int (length (grp k)),
              sr_input_tokens = sum_list (map (\<lambda>c. coalesce0 (cp_input_tokens c)) (grp k)),
              sr_output_tokens = sum_list (map (\<lambda>c. coalesce0 (cp_output_tokens c)) (grp k))\<rparr>)
         (filter (\<lambda>k. fst k \<noteq> [] \<and> snd k \<noteq> []) (sort (remdups (map (\<lambda>c. (cp_agent_id c, cp_endpoint c)) cs))))))"

text \<open>\<^verbatim>\<open>LIKE 'prefix%'\<close> with the wildcards of the prefix escaped: SQLite compares ASCII letters without case.\<close>

definition ascii_fold :: "char \<Rightarrow> char" where
  "ascii_fold c = (if (of_char c :: nat) \<in> {65..90} then char_of ((of_char c :: nat) + 32) else c)"

definition like_prefix :: "string \<Rightarrow> string \<Rightarrow> bool" where
  "like_prefix p s \<longleftrightarrow> length p \<le> length s \<and> map ascii_fold (take (length p) s) = map ascii_fold p"

definition stall_abort_reasons :: "string list" where
  "stall_abort_reasons = [''stall'', ''ttft'', ''goodput_collapse'']"

definition stall_aborts :: "string \<Rightarrow> real \<Rightarrow> real \<Rightarrow> persistent_queue \<Rightarrow> timeout_row list" where
  "stall_aborts caller_prefix since until_t q = (if \<not> pq_open q \<or> caller_prefix = [] then []
     else sort_key to_occurred_at (filter (\<lambda>r. since \<le> to_occurred_at r \<and> to_occurred_at r \<le> until_t \<and>
       (case to_abort_reason r of None \<Rightarrow> False | Some a \<Rightarrow> a \<in> set stall_abort_reasons) \<and>
       (case to_caller_id r of None \<Rightarrow> False | Some c \<Rightarrow> like_prefix caller_prefix c)) (db_timeouts (pq_db q))))"

text \<open>The two views of a bucket compose by the larger; the savings summary adds the buckets.\<close>

definition bucket_view :: "proxy_db \<Rightarrow> day_key \<Rightarrow> int \<times> int" where
  "bucket_view db b = (case od_get (db_savings db) b of None \<Rightarrow> live_tokens b (db_completions db)
     | Some v \<Rightarrow> max_pair (live_tokens b (db_completions db)) v)"

definition all_buckets :: "proxy_db \<Rightarrow> day_key list" where
  "all_buckets db = remdups (sort (remdups (map bucket_of (db_completions db))) @ od_keys (db_savings db))"

definition lifetime_tokens :: "proxy_db \<Rightarrow> string \<Rightarrow> int \<times> int" where
  "lifetime_tokens db ep = (let bs = filter (\<lambda>b. fst b = ep) (all_buckets db) in
     (sum_list (map (\<lambda>b. fst (bucket_view db b)) bs), sum_list (map (\<lambda>b. snd (bucket_view db b)) bs)))"

definition today_tokens :: "real \<Rightarrow> proxy_db \<Rightarrow> string \<Rightarrow> int \<times> int" where
  "today_tokens start db ep = (let g = filter (\<lambda>c. cp_endpoint c = ep \<and> cp_completed_at c \<ge> start) (db_completions db) in
     (sum_list (map (\<lambda>c. coalesce0 (cp_input_tokens c)) g), sum_list (map (\<lambda>c. coalesce0 (cp_output_tokens c)) g)))"

record savings_row =
  sv_endpoint :: string
  sv_today_usd :: real
  sv_total_usd :: real
  sv_tokens_in :: int
  sv_tokens_out :: int

record savings_report =
  sm_today_usd :: real
  sm_total_usd :: real
  sm_today_tokens :: "int \<times> int"
  sm_total_tokens :: "int \<times> int"
  sm_by_endpoint :: "savings_row list"
  sm_undeclared :: "(string \<times> int \<times> int \<times> int) list"

definition usd_of :: "string \<Rightarrow> int \<times> int \<Rightarrow> real" where
  "usd_of ep t = cloud_cost_usd ep (fst t) (snd t)"

definition sum_pairs :: "(int \<times> int) list \<Rightarrow> int \<times> int" where
  "sum_pairs ts = (sum_list (map fst ts), sum_list (map snd ts))"

definition savings_summary :: "real \<Rightarrow> persistent_queue \<Rightarrow> savings_report" where
  "savings_summary start q = (if \<not> pq_open q
     then \<lparr>sm_today_usd = 0, sm_total_usd = 0, sm_today_tokens = (0, 0), sm_total_tokens = (0, 0), sm_by_endpoint = [], sm_undeclared = []\<rparr>
     else (let db = pq_db q; eps = sort (remdups (map fst (all_buckets db)));
               live_n = (\<lambda>ep. int (length (filter (\<lambda>c. cp_endpoint c = ep) (db_completions db)))) in
       \<lparr>sm_today_usd = py_round (sum_list (map (\<lambda>ep. usd_of ep (today_tokens start db ep)) eps)) 2,
        sm_total_usd = py_round (sum_list (map (\<lambda>ep. usd_of ep (lifetime_tokens db ep)) eps)) 2,
        sm_today_tokens = sum_pairs (map (today_tokens start db) eps),
        sm_total_tokens = sum_pairs (map (lifetime_tokens db) eps),
        sm_by_endpoint = sort_key (\<lambda>r. - sv_total_usd r) (map (\<lambda>ep. \<lparr>sv_endpoint = ep,
            sv_today_usd = py_round (usd_of ep (today_tokens start db ep)) 4,
            sv_total_usd = py_round (usd_of ep (lifetime_tokens db ep)) 4,
            sv_tokens_in = fst (lifetime_tokens db ep), sv_tokens_out = snd (lifetime_tokens db ep)\<rparr>) eps),
        sm_undeclared = sort_key (\<lambda>(ep, n, i, out). (- (i + out), ep))
          (map (\<lambda>ep. (ep, live_n ep, lifetime_tokens db ep)) (filter (\<lambda>ep. \<not> is_declared_endpoint ep) eps))\<rparr>))"

subsection \<open>Sums over distinct keys\<close>

lemma sum_over_one: "distinct bs \<Longrightarrow> (\<Sum>b \<leftarrow> bs. if b = x then (n :: int) else 0) = (if x \<in> set bs then n else 0)"
  by (induction bs) auto

end
