(* ===== verification/Persist_Facts.thy ===== *)
theory Persist_Facts
  imports Persist
begin

section \<open>What the persistent queue keeps\<close>

text \<open>
  The lifetime figure of the savings survives pruning, the writer applies what it accepts in the
  order of submission, and recovery brings back exactly the requests that were still waiting.
\<close>

subsection \<open>Buckets\<close>

definition le2 :: "int \<times> int \<Rightarrow> int \<times> int \<Rightarrow> bool" where
  "le2 x y \<longleftrightarrow> fst x \<le> fst y \<and> snd x \<le> snd y"

lemma le2_refl [simp]: "le2 x x"
  by (simp add: le2_def)

lemma le2_trans: "le2 x y \<Longrightarrow> le2 y z \<Longrightarrow> le2 x z"
  by (auto simp: le2_def)

lemma max_pair_le: "le2 x y \<Longrightarrow> max_pair x y = y" "le2 x y \<Longrightarrow> max_pair y x = y"
  by (auto simp: le2_def max_pair_def prod_eq_iff)

lemma max_pair_least: "le2 x z \<Longrightarrow> le2 y z \<Longrightarrow> le2 (max_pair x y) z"
  by (auto simp: le2_def max_pair_def)

definition row_tokens :: "completion_row \<Rightarrow> int \<times> int" where
  "row_tokens c = (coalesce0 (cp_input_tokens c), coalesce0 (cp_output_tokens c))"

definition tokens_ok :: "completion_row \<Rightarrow> bool" where
  "tokens_ok c \<longleftrightarrow> 0 \<le> coalesce0 (cp_input_tokens c) \<and> 0 \<le> coalesce0 (cp_output_tokens c)"

lemma live_tokens_Nil [simp]: "live_tokens b [] = (0, 0)"
  by (simp add: live_tokens_def)

lemma live_tokens_append:
  "live_tokens b (xs @ ys) = (fst (live_tokens b xs) + fst (live_tokens b ys), snd (live_tokens b xs) + snd (live_tokens b ys))"
  by (simp add: live_tokens_def Let_def)

lemma live_tokens_one [simp]: "live_tokens b [c] = (if bucket_of c = b then row_tokens c else (0, 0))"
  by (simp add: live_tokens_def row_tokens_def Let_def)

lemma live_tokens_Cons: "live_tokens b (c # cs) = (if bucket_of c = b
    then (fst (row_tokens c) + fst (live_tokens b cs), snd (row_tokens c) + snd (live_tokens b cs)) else live_tokens b cs)"
  by (simp add: live_tokens_def row_tokens_def Let_def)

lemma live_tokens_nonneg: "\<forall>c \<in> set cs. tokens_ok c \<Longrightarrow> le2 (0, 0) (live_tokens b cs)"
  by (induction cs) (auto simp: live_tokens_Cons le2_def tokens_ok_def row_tokens_def)

lemma live_tokens_filter: "\<forall>c \<in> set cs. tokens_ok c \<Longrightarrow> le2 (live_tokens b (filter P cs)) (live_tokens b cs)"
  by (induction cs) (auto simp: live_tokens_Cons le2_def tokens_ok_def row_tokens_def)

lemma live_tokens_kept: "(\<And>c. c \<in> set cs \<Longrightarrow> bucket_of c = b \<Longrightarrow> P c) \<Longrightarrow> live_tokens b (filter P cs) = live_tokens b cs"
  by (induction cs) (auto simp: live_tokens_Cons)

text \<open>The day of a time: it starts at or before it and ends after it.\<close>

lemma day_bucket_bounds: "0 \<le> t \<Longrightarrow> of_int (day_bucket_sql t) \<le> t \<and> t < of_int (day_bucket_sql t) + 86400"
  using floor_correct[of "t / 86400"] by (auto simp: day_bucket_sql_def py_int_def field_simps)

lemma fold_finalise:
  "distinct bs \<Longrightarrow> od_get (fold (finalise_bucket cs) bs d) b =
     (if b \<in> set bs then Some (case od_get d b of None \<Rightarrow> live_tokens b cs | Some v \<Rightarrow> max_pair v (live_tokens b cs)) else od_get d b)"
  by (induction bs arbitrary: d) (auto simp: finalise_bucket_def)

lemma finalise_get:
  "od_get (finalise_savings cs d) b = (if b \<in> bucket_of ` set cs
     then Some (case od_get d b of None \<Rightarrow> live_tokens b cs | Some v \<Rightarrow> max_pair v (live_tokens b cs)) else od_get d b)"
  by (simp add: finalise_savings_def fold_finalise)

subsection \<open>The lifetime figure\<close>

text \<open>What happens to the completions: one is recorded, or a sweep runs, of which the finalisation and
  the prune may each be lost.\<close>

datatype savings_event = Recorded completion_row | Swept real real bool bool

fun savings_apply :: "savings_event \<Rightarrow> proxy_db \<Rightarrow> proxy_db" where
  "savings_apply (Recorded c) db = exec_sql (Put_completion c) db"
| "savings_apply (Swept now age fin prune) db = (let db = (if fin then exec_sql Finalise_savings db else db) in
     if prune then exec_sql (Prune_completions (now - age)) db else db)"

fun recorded :: "savings_event list \<Rightarrow> completion_row list" where
  "recorded [] = []"
| "recorded (Recorded c # es) = c # recorded es"
| "recorded (Swept _ _ _ _ # es) = recorded es"

text \<open>Times do not run backwards, request identifiers are fresh, token counts are not negative, the
  retention is at least a day, and no prune lands in a sweep whose finalisation was lost.\<close>

fun event_ok :: "real \<Rightarrow> completion_row list \<Rightarrow> savings_event \<Rightarrow> bool" where
  "event_ok t cs (Recorded c) \<longleftrightarrow> t \<le> cp_completed_at c \<and> cp_request_id c \<notin> cp_request_id ` set cs \<and> tokens_ok c"
| "event_ok t cs (Swept now age fin prune) \<longleftrightarrow> t \<le> now \<and> 86400 \<le> age \<and> (prune \<longrightarrow> fin)"

fun event_time :: "savings_event \<Rightarrow> real" where
  "event_time (Recorded c) = cp_completed_at c"
| "event_time (Swept now _ _ _) = now"

fun savings_history :: "real \<Rightarrow> completion_row list \<Rightarrow> savings_event list \<Rightarrow> bool" where
  "savings_history t cs [] \<longleftrightarrow> True"
| "savings_history t cs (e # es) \<longleftrightarrow> event_ok t cs e \<and> savings_history (event_time e) (cs @ recorded [e]) es"

text \<open>A bucket is whole in the live table, or it is whole in the rollup and its day is over.\<close>

definition bucket_ok :: "real \<Rightarrow> completion_row list \<Rightarrow> proxy_db \<Rightarrow> day_key \<Rightarrow> bool" where
  "bucket_ok t cs db b \<longleftrightarrow>
     (case od_get (db_savings db) b of None \<Rightarrow> live_tokens b (db_completions db) = live_tokens b cs
      | Some v \<Rightarrow> le2 v (live_tokens b cs) \<and>
          (live_tokens b (db_completions db) = live_tokens b cs \<or> v = live_tokens b cs \<and> of_int (snd b) + 86400 \<le> t))"

definition savings_inv :: "real \<Rightarrow> completion_row list \<Rightarrow> proxy_db \<Rightarrow> bool" where
  "savings_inv t cs db \<longleftrightarrow> 0 \<le> t \<and> (\<forall>c \<in> set cs. tokens_ok c \<and> 0 \<le> cp_completed_at c) \<and> set (db_completions db) \<subseteq> set cs \<and>
     (\<forall>b. le2 (live_tokens b (db_completions db)) (live_tokens b cs)) \<and>
     (\<forall>c \<in> set cs. bucket_of c \<in> bucket_of ` set (db_completions db) \<or> od_get (db_savings db) (bucket_of c) \<noteq> None) \<and>
     (\<forall>b. bucket_ok t cs db b)"

lemma bucket_ok_later: "bucket_ok t cs db b \<Longrightarrow> t \<le> t' \<Longrightarrow> bucket_ok t' cs db b"
  by (auto simp: bucket_ok_def split: option.splits)

lemma savings_inv_later: "savings_inv t cs db \<Longrightarrow> t \<le> t' \<Longrightarrow> savings_inv t' cs db"
  unfolding savings_inv_def using bucket_ok_later by (meson order_trans)

lemma view_exact:
  assumes "savings_inv t cs db"
  shows "bucket_view db b = live_tokens b cs"
proof -
  have "bucket_ok t cs db b" "le2 (live_tokens b (db_completions db)) (live_tokens b cs)"
    using assms unfolding savings_inv_def by blast+
  then show ?thesis by (auto simp: bucket_ok_def bucket_view_def max_pair_le split: option.splits)
qed

text \<open>A completion lands in a bucket that is still whole in the live table: the others are over.\<close>

lemma recorded_step:
  assumes inv: "savings_inv t cs db" and e: "event_ok t cs (Recorded c)"
  shows "savings_inv (cp_completed_at c) (cs @ [c]) (savings_apply (Recorded c) db)"
proof -
  let ?db = "savings_apply (Recorded c) db"
  have t: "0 \<le> t" "t \<le> cp_completed_at c" "0 \<le> cp_completed_at c" using assms by (auto simp: savings_inv_def)
  have sub: "set (db_completions db) \<subseteq> set cs" using inv by (simp add: savings_inv_def)
  have db: "db_completions ?db = db_completions db @ [c]" "db_savings ?db = db_savings db"
    using e sub by (auto simp: put_row_def filter_id_conv) (metis imageI subsetD)
  have "bucket_ok (cp_completed_at c) (cs @ [c]) ?db b" for b
  proof -
    have ok: "bucket_ok t cs db b" using inv unfolding savings_inv_def by blast
    have tok: "tokens_ok c" using e by simp
    have grow: "le2 (live_tokens b cs) (live_tokens b (cs @ [c]))"
      using tok by (simp add: live_tokens_append le2_def tokens_ok_def row_tokens_def)
    have same: "live_tokens b (db_completions db) = live_tokens b cs \<Longrightarrow>
        live_tokens b (db_completions ?db) = live_tokens b (cs @ [c])" by (simp only: db live_tokens_append)
    have over: "live_tokens b (cs @ [c]) = live_tokens b cs" if "of_int (snd b) + 86400 \<le> t"
      using that day_bucket_bounds[OF t(3)] t(2) by (auto simp: live_tokens_append bucket_of_def)
    show ?thesis
      using ok grow same over t(2) unfolding bucket_ok_def db(2)
      by (auto split: option.splits intro: le2_trans)
  qed
  moreover have "le2 (live_tokens b (db_completions ?db)) (live_tokens b (cs @ [c]))" for b
  proof -
    have "le2 (live_tokens b (db_completions db)) (live_tokens b cs)" using inv unfolding savings_inv_def by blast
    then show ?thesis unfolding db(1) live_tokens_append le2_def by simp
  qed
  ultimately show ?thesis using inv e t(3) sub unfolding savings_inv_def db by auto
qed

text \<open>After a finalisation a bucket with live rows is whole in the rollup.\<close>

definition rolled_up :: "completion_row list \<Rightarrow> proxy_db \<Rightarrow> bool" where
  "rolled_up cs db \<longleftrightarrow> (\<forall>b \<in> bucket_of ` set (db_completions db). od_get (db_savings db) b = Some (live_tokens b cs))"

lemma finalise_step:
  assumes inv: "savings_inv t cs db"
  shows "savings_inv t cs (exec_sql Finalise_savings db) \<and> rolled_up cs (exec_sql Finalise_savings db)"
proof -
  let ?db = "exec_sql Finalise_savings db"
  have ok: "bucket_ok t cs db b" and le: "le2 (live_tokens b (db_completions db)) (live_tokens b cs)" for b
    using inv unfolding savings_inv_def by blast+
  have get: "od_get (db_savings ?db) b = (if b \<in> bucket_of ` set (db_completions db) then Some (live_tokens b cs)
      else od_get (db_savings db) b)" for b
    using ok[of b] le[of b] by (auto simp: finalise_get bucket_ok_def max_pair_le split: option.splits)
  have live: "db_completions ?db = db_completions db" by simp
  have "bucket_ok t cs ?db b" for b
    using ok[of b] unfolding bucket_ok_def get live by (auto split: option.splits)
  moreover have "rolled_up cs ?db" unfolding rolled_up_def live get by simp
  moreover have "\<forall>c \<in> set cs. bucket_of c \<in> bucket_of ` set (db_completions ?db) \<or> od_get (db_savings ?db) (bucket_of c) \<noteq> None"
    using inv unfolding savings_inv_def get live by auto
  ultimately show ?thesis using inv unfolding savings_inv_def live by blast
qed

lemma prune_step:
  assumes inv: "savings_inv t cs db" and up: "rolled_up cs db" and age: "86400 \<le> age"
  shows "savings_inv t cs (exec_sql (Prune_completions (t - age)) db)"
proof -
  let ?db = "exec_sql (Prune_completions (t - age)) db"
  let ?keep = "\<lambda>c. \<not> (cp_completed_at c < t - age \<and> od_get (db_savings db) (bucket_of c) \<noteq> None)"
  have live: "db_completions ?db = filter ?keep (db_completions db)" and sv: "db_savings ?db = db_savings db" by simp_all
  have sub: "set (db_completions db) \<subseteq> set cs" and toks: "\<forall>c \<in> set cs. tokens_ok c \<and> 0 \<le> cp_completed_at c"
    using inv by (auto simp: savings_inv_def)
  then have dbtok: "\<forall>c \<in> set (db_completions db). tokens_ok c" by blast
  have le: "le2 (live_tokens b (db_completions ?db)) (live_tokens b cs)" for b
    using live_tokens_filter[OF dbtok, of b ?keep] inv unfolding live savings_inv_def by (blast intro: le2_trans)
  have "bucket_ok t cs ?db b" for b
  proof (cases "\<forall>c \<in> set (db_completions db). bucket_of c = b \<longrightarrow> ?keep c")
    case True
    then have "live_tokens b (db_completions ?db) = live_tokens b (db_completions db)"
      unfolding live by (intro live_tokens_kept) blast
    moreover have "bucket_ok t cs db b" using inv unfolding savings_inv_def by blast
    ultimately show ?thesis unfolding bucket_ok_def sv by (simp only:)
  next
    case False
    then obtain c where c: "c \<in> set (db_completions db)" "bucket_of c = b" "cp_completed_at c < t - age" by auto
    then have "0 \<le> cp_completed_at c" using toks sub by blast
    then have "of_int (snd b) + 86400 \<le> t" using day_bucket_bounds c(2,3) age by (force simp: bucket_of_def)
    moreover have "od_get (db_savings db) b = Some (live_tokens b cs)" using up c(1,2) by (auto simp: rolled_up_def)
    ultimately show ?thesis by (simp add: bucket_ok_def)
  qed
  moreover have "\<forall>c \<in> set cs. bucket_of c \<in> bucket_of ` set (db_completions ?db) \<or> od_get (db_savings ?db) (bucket_of c) \<noteq> None"
  proof
    fix c assume "c \<in> set cs"
    then consider x where "x \<in> set (db_completions db)" "bucket_of x = bucket_of c" "od_get (db_savings db) (bucket_of c) = None"
      | "od_get (db_savings db) (bucket_of c) \<noteq> None" using inv unfolding savings_inv_def by (metis imageE)
    then show "bucket_of c \<in> bucket_of ` set (db_completions ?db) \<or> od_get (db_savings ?db) (bucket_of c) \<noteq> None"
      unfolding live sv by cases (auto simp: image_iff intro!: bexI)
  qed
  ultimately show ?thesis using inv le sub unfolding savings_inv_def by auto
qed

lemma savings_step:
  assumes "savings_inv t cs db" "event_ok t cs e"
  shows "savings_inv (event_time e) (cs @ recorded [e]) (savings_apply e db)"
proof (cases e)
  case (Recorded c)
  then show ?thesis using recorded_step[OF assms(1), of c] assms(2) by simp
next
  case (Swept now age fin prune)
  then have "savings_inv now cs db" using savings_inv_later[OF assms(1)] assms(2) by simp
  then show ?thesis
    using Swept assms(2) finalise_step[of now cs db] prune_step[of now cs "exec_sql Finalise_savings db" age]
    by (auto simp: Let_def simp del: exec_sql.simps)
qed

lemma savings_run:
  "savings_inv t cs db \<Longrightarrow> savings_history t cs es \<Longrightarrow> \<exists>t'. savings_inv t' (cs @ recorded es) (fold savings_apply es db)"
proof (induction es arbitrary: t cs db)
  case (Cons e es)
  have "savings_inv (event_time e) (cs @ recorded [e]) (savings_apply e db)" using savings_step Cons.prems by simp
  from Cons.IH[OF this] Cons.prems(2) obtain t' where "savings_inv t' ((cs @ recorded [e]) @ recorded es) (fold savings_apply es (savings_apply e db))"
    by auto
  moreover have "recorded [e] @ recorded es = recorded (e # es)" by (cases e) simp_all
  ultimately show ?case by auto
qed auto

text \<open>The tokens of one endpoint, bucket by bucket, are its tokens.\<close>

definition endpoint_tokens :: "string \<Rightarrow> completion_row list \<Rightarrow> int \<times> int" where
  "endpoint_tokens ep cs = sum_pairs (map row_tokens (filter (\<lambda>c. cp_endpoint c = ep) cs))"

lemma tokens_by_bucket:
  assumes "distinct bs" "\<forall>b \<in> set bs. fst b = ep" "\<forall>c \<in> set cs. cp_endpoint c = ep \<longrightarrow> bucket_of c \<in> set bs"
  shows "(sum_list (map (\<lambda>b. fst (live_tokens b cs)) bs), sum_list (map (\<lambda>b. snd (live_tokens b cs)) bs)) = endpoint_tokens ep cs"
  using assms(3)
proof (induction cs)
  case (Cons c cs)
  have "bucket_of c \<in> set bs \<longleftrightarrow> cp_endpoint c = ep" using Cons.prems assms(2) by (auto simp: bucket_of_def)
  moreover have "fst (live_tokens b (c # cs)) = (if b = bucket_of c then fst (row_tokens c) else 0) + fst (live_tokens b cs)"
    "snd (live_tokens b (c # cs)) = (if b = bucket_of c then snd (row_tokens c) else 0) + snd (live_tokens b cs)" for b
    by (auto simp: live_tokens_Cons)
  ultimately show ?case using Cons assms(1)
    by (simp add: sum_list_addf sum_over_one endpoint_tokens_def sum_pairs_def)
qed (simp add: endpoint_tokens_def sum_pairs_def)

text \<open>C14: The lifetime savings are exact although the completions they are computed from are pruned. Through
  any sequence of completions recorded under fresh identifiers, at times that do not go back, and of
  retention sweeps that prune rows at least a day old, in which every finalisation may be lost as
  long as the prune of the same sweep is lost with it, the lifetime tokens of an endpoint are the sum
  over all the completions ever recorded for it. A sweep that prunes without its finalisation does
  lose tokens (\<open>stale_rollup_loses_tokens\<close>).\<close>

theorem lifetime_savings_exact:
  assumes "savings_history 0 [] es"
  shows "lifetime_tokens (fold savings_apply es empty_db) ep = endpoint_tokens ep (recorded es)"
proof -
  let ?db = "fold savings_apply es empty_db"
  have "savings_inv 0 [] empty_db" by (simp add: savings_inv_def bucket_ok_def empty_db_def)
  from savings_run[OF this assms] obtain t where inv: "savings_inv t (recorded es) ?db" by auto
  have "distinct (filter (\<lambda>b. fst b = ep) (all_buckets ?db))" by (simp add: all_buckets_def)
  moreover have "\<forall>c \<in> set (recorded es). cp_endpoint c = ep \<longrightarrow> bucket_of c \<in> set (filter (\<lambda>b. fst b = ep) (all_buckets ?db))"
  proof (intro ballI impI)
    fix c assume c: "c \<in> set (recorded es)" "cp_endpoint c = ep"
    then have "bucket_of c \<in> bucket_of ` set (db_completions ?db) \<or> bucket_of c \<in> fst ` set (db_savings ?db)"
      using inv unfolding savings_inv_def od_get_None_iff by blast
    with c(2) show "bucket_of c \<in> set (filter (\<lambda>b. fst b = ep) (all_buckets ?db))"
      by (auto simp: all_buckets_def) (simp_all add: bucket_of_def)
  qed
  ultimately show ?thesis
    unfolding lifetime_tokens_def Let_def view_exact[OF inv] by (intro tokens_by_bucket) auto
qed

definition demo_completion :: "string \<Rightarrow> real \<Rightarrow> int \<Rightarrow> completion_row" where
  "demo_completion i t n = \<lparr>cp_request_id = i, cp_agent_id = ''a'', cp_endpoint = ''chat'', cp_call_site = ''s'', cp_priority = 1,
     cp_input_tokens = Some n, cp_output_tokens = None, cp_cached_tokens = None, cp_duration_s = Some 1, cp_queue_wait_ms = Some 0,
     cp_status = ''ok'', cp_completed_at = t, cp_payload = None, cp_response = None, cp_session_id = None, cp_turn_id = None,
     cp_caller_id = None, cp_finish_reason = None, cp_kind = Some ''llm'', cp_key_id = None, cp_no_store = None, cp_content_meta = None\<rparr>"

theorem lifetime_savings_exact_witness:
  "lifetime_tokens (fold savings_apply [Recorded (demo_completion ''x'' 10 7), Swept 20 86400 False False,
      Recorded (demo_completion ''y'' 30 5), Swept 200000 86400 True True, Recorded (demo_completion ''z'' 200001 4)] empty_db) ''chat'' = (16, 0)"
  by (subst lifetime_savings_exact)
    (simp_all add: demo_completion_def tokens_ok_def coalesce0_def endpoint_tokens_def sum_pairs_def row_tokens_def)

text \<open>The guard of the prune asks whether the rollup has the bucket, not whether it is current: a bucket
  that was finalised before its last completion loses the rest if every later finalisation is lost.\<close>

lemma stale_rollup_loses_tokens:
  "lifetime_tokens (fold savings_apply [Recorded (demo_completion ''x'' 10 7), Swept 20 86400 True True,
      Recorded (demo_completion ''y'' 30 5), Swept 200000 86400 False True] empty_db) ''chat'' = (7, 0)"
proof -
  have d: "day_bucket_sql 10 = 0" "day_bucket_sql 30 = 0" by (simp_all add: day_bucket_sql_def py_int_def)
  show ?thesis
    by (simp add: demo_completion_def empty_db_def put_row_def finalise_savings_def finalise_bucket_def live_tokens_def bucket_of_def
        coalesce0_def lifetime_tokens_def all_buckets_def bucket_view_def max_pair_def Let_def d)
qed

subsection \<open>The writer\<close>

text \<open>A run of a started writer: what was submitted; what reached the database, in order, each with
  whether it was written at once because the dead thread could not be restarted; and how many
  statements the disk refused, a number the program itself only logs.\<close>

inductive writer_run :: "persistent_queue \<Rightarrow> persistent_queue \<Rightarrow> sql_write list \<Rightarrow> (bool \<times> sql_write) list \<Rightarrow> nat \<Rightarrow> bool" for q0 where
  run_start: "writer_run q0 q0 [] [] 0"
| run_submit: "writer_run q0 q s a n \<Longrightarrow> pq_writer q = Running \<or> we_restart_ok e \<Longrightarrow> writer_run q0 (submit_write e w q) (s @ [w]) a n"
| run_degraded: "writer_run q0 q s a n \<Longrightarrow> pq_writer q = Died \<Longrightarrow> \<not> we_restart_ok e \<Longrightarrow> we_disk_ok e \<Longrightarrow>
    writer_run q0 (submit_write e w q) (s @ [w]) (a @ [(True, w)]) n"
| run_degraded_fail: "writer_run q0 q s a n \<Longrightarrow> pq_writer q = Died \<Longrightarrow> \<not> we_restart_ok e \<Longrightarrow> \<not> we_disk_ok e \<Longrightarrow>
    writer_run q0 (submit_write e w q) (s @ [w]) a (Suc n)"
| run_write: "writer_run q0 q s a n \<Longrightarrow> pq_writer q = Running \<Longrightarrow> pq_pending q = w # ws \<Longrightarrow>
    writer_run q0 (writer_step True q) s (a @ [(False, w)]) n"
| run_fail: "writer_run q0 q s a n \<Longrightarrow> pq_writer q = Running \<Longrightarrow> pq_pending q = w # ws \<Longrightarrow>
    writer_run q0 (writer_step False q) s a (Suc n)"
| run_die: "writer_run q0 q s a n \<Longrightarrow> pq_writer q = Running \<Longrightarrow> writer_run q0 (q\<lparr>pq_writer := Died\<rparr>) s a n"

definition by_thread :: "(bool \<times> sql_write) list \<Rightarrow> sql_write list" where
  "by_thread a = map snd (filter (\<lambda>x. \<not> fst x) a)"

lemma by_thread_simps [simp]:
  "by_thread [] = []" "by_thread (a @ [(True, w)]) = by_thread a" "by_thread (a @ [(False, w)]) = by_thread a @ [w]"
  by (simp_all add: by_thread_def)

definition started_queue :: "proxy_db \<Rightarrow> persistent_queue" where
  "started_queue db = start_async_writer (open_queue True db)"

lemma started_queue_simps [simp]:
  "pq_open (started_queue db)" "pq_writer (started_queue db) = Running" "pq_pending (started_queue db) = []"
  "pq_db (started_queue db) = db" "pq_dropped (started_queue db) = 0" "pq_maxsize (started_queue db) = 20000"
  by (simp_all add: started_queue_def start_async_writer_def open_queue_def)

text \<open>C13: what becomes of the writes handed to the asynchronous writer. In every run of a started
  writer, through deaths of its thread, restarts and failed restarts, the database is the result of a
  list of submitted statements, each applied once. Those the thread applied, followed by those still
  pending, are a subsequence of the submitted ones, so their order is kept; only a statement written
  at once because the thread could not be restarted overtakes the pending ones. No more than twenty
  thousand are ever pending, and every other statement was either dropped for a full queue, which the
  program counts, or refused by the disk, which it only logs and the run counts.\<close>

theorem writer_keeps_order:
  assumes "writer_run (started_queue db) q s a n"
  shows "pq_db q = fold exec_sql (map snd a) db \<and> mset (map snd a) + mset (pq_pending q) \<subseteq># mset s \<and>
    subseq (by_thread a @ pq_pending q) s \<and> length (pq_pending q) \<le> 20000 \<and>
    int (length s) = int (length a) + int n + int (length (pq_pending q)) + pq_dropped q"
proof -
  have "pq_open q \<and> pq_writer q \<noteq> Not_started \<and> pq_maxsize q = 20000 \<and> pq_db q = fold exec_sql (map snd a) db \<and>
      mset (map snd a) + mset (pq_pending q) \<subseteq># mset s \<and>
      subseq (by_thread a @ pq_pending q) s \<and> length (pq_pending q) \<le> 20000 \<and>
      int (length s) = int (length a) + int n + int (length (pq_pending q)) + pq_dropped q"
    using assms
  proof (induction rule: writer_run.induct)
    case (run_submit q s a n e w)
    have "subseq (by_thread a @ pq_pending q @ [w]) (s @ [w])" using run_submit.IH by (metis append_assoc list_emb_append_mono subseq_order.refl)
    moreover have "subseq (by_thread a @ pq_pending q) (s @ [w])" using run_submit.IH by (auto intro: subseq_order.trans)
    moreover have "mset (map snd a) + mset (pq_pending q) \<subseteq># mset s + {#w#}"
      by (rule subset_mset.order_trans[OF _ mset_subset_eq_add_left]) (use run_submit.IH in blast)
    ultimately show ?case using run_submit
      by (auto simp: submit_write_def put_nowait_def Let_def split: writer_state.split)
  next
    case (run_degraded q s a n e w)
    have "subseq (by_thread a @ pq_pending q) (s @ [w])" using run_degraded.IH by (auto intro: subseq_order.trans)
    then show ?case using run_degraded by (auto simp: submit_write_def Let_def)
  next
    case (run_degraded_fail q s a n e w)
    have "subseq (by_thread a @ pq_pending q) (s @ [w])" using run_degraded_fail.IH by (auto intro: subseq_order.trans)
    moreover have "mset (map snd a) + mset (pq_pending q) \<subseteq># mset s + {#w#}"
      by (rule subset_mset.order_trans[OF _ mset_subset_eq_add_left]) (use run_degraded_fail.IH in blast)
    ultimately show ?case using run_degraded_fail by (auto simp: submit_write_def Let_def)
  next
    case (run_write q s a n w ws)
    then show ?case by (simp add: writer_step_def)
  next
    case (run_fail q s a n w ws)
    have "subseq (by_thread a @ ws) (by_thread a @ w # ws)" by (intro list_emb_append_mono) auto
    moreover have "mset (map snd a) + mset ws \<subseteq># mset (map snd a) + mset (w # ws)" by simp
    then have "mset (map snd a) + mset ws \<subseteq># mset s"
      by (rule subset_mset.order_trans) (use run_fail.IH run_fail.hyps in auto)
    ultimately show ?case using run_fail by (auto simp: writer_step_def intro: subseq_order.trans)
  qed simp_all
  then show ?thesis by blast
qed

theorem writer_keeps_order_witness:
  "pq_db (writer_step True (submit_write \<lparr>we_restart_ok = True, we_disk_ok = True\<rparr> Finalise_savings (started_queue empty_db)))
     = fold exec_sql [Finalise_savings] empty_db"
proof -
  have "writer_run (started_queue empty_db) (writer_step True (submit_write \<lparr>we_restart_ok = True, we_disk_ok = True\<rparr> Finalise_savings (started_queue empty_db)))
      ([] @ [Finalise_savings]) ([] @ [(False, Finalise_savings)]) 0"
    by (intro run_write run_submit run_start) (simp_all add: submit_write_def put_nowait_def)
  from writer_keeps_order[OF this] show ?thesis by simp
qed

text \<open>A dead thread that cannot be restarted: the write submitted then overtakes the one pending.\<close>

lemma degraded_write_overtakes:
  "\<exists>q. writer_run (started_queue db) q [v, w] [(True, w)] 0 \<and> pq_pending q = [v]"
proof -
  let ?e = "\<lparr>we_restart_ok = False, we_disk_ok = True\<rparr>"
  let ?q1 = "(submit_write ?e v (started_queue db))\<lparr>pq_writer := Died\<rparr>"
  have q1: "writer_run (started_queue db) ?q1 ([] @ [v]) [] 0"
    by (intro run_die run_submit run_start) (simp_all add: submit_write_def put_nowait_def)
  have "writer_run (started_queue db) (submit_write ?e w ?q1) (([] @ [v]) @ [w]) ([] @ [(True, w)]) 0"
    by (rule run_degraded[OF q1]) simp_all
  moreover have "pq_pending (submit_write ?e w ?q1) = [v]" by (simp add: submit_write_def put_nowait_def Let_def)
  ultimately show ?thesis by auto
qed

subsection \<open>Recovery\<close>

text \<open>The life of a request as the write-ahead log sees it; a request leaves by completing or by expiring,
  and both delete its row.\<close>

datatype wal_event = Enqueued real queued_request | Dispatched string | Left string

fun wal_apply :: "write_env \<Rightarrow> wal_event \<Rightarrow> persistent_queue \<Rightarrow> persistent_queue" where
  "wal_apply e (Enqueued wall r) q = persist_enqueue e wall r q"
| "wal_apply e (Dispatched i) q = persist_dispatch e i q"
| "wal_apply e (Left i) q = persist_expire e i q"

fun wal_sql :: "wal_event \<Rightarrow> sql_write list" where
  "wal_sql (Enqueued wall r) = (if rq_no_store r then [] else [Put_queue (queue_row_of wall r)])"
| "wal_sql (Dispatched i) = [Mark_dispatched i]"
| "wal_sql (Left i) = [Delete_queue i]"

fun touches :: "string \<Rightarrow> wal_event \<Rightarrow> bool" where
  "touches i (Enqueued wall r) \<longleftrightarrow> \<not> rq_no_store r \<and> request_id r = i"
| "touches i (Dispatched j) \<longleftrightarrow> j = i"
| "touches i (Left j) \<longleftrightarrow> j = i"

text \<open>A request that was enqueued and neither dispatched nor gone since.\<close>

definition still_waiting :: "wal_event list \<Rightarrow> real \<Rightarrow> queued_request \<Rightarrow> bool" where
  "still_waiting hist wall r \<longleftrightarrow> \<not> rq_no_store r \<and>
     (\<exists>before after. hist = before @ Enqueued wall r # after \<and> (\<forall>ev \<in> set after. \<not> touches (request_id r) ev))"

lemma still_waiting_stored: "still_waiting hist wall r \<Longrightarrow> \<not> rq_no_store r"
  by (simp add: still_waiting_def)

lemma still_waiting_snoc:
  "still_waiting (hist @ [ev]) wall r \<longleftrightarrow> \<not> rq_no_store r \<and>
     (ev = Enqueued wall r \<or> still_waiting hist wall r \<and> \<not> touches (request_id r) ev)"
proof -
  have "(\<exists>before after. hist @ [ev] = before @ Enqueued wall r # after \<and> (\<forall>v \<in> set after. \<not> touches (request_id r) v)) \<longleftrightarrow>
      ev = Enqueued wall r \<or> (\<exists>before after. hist = before @ Enqueued wall r # after \<and>
        (\<forall>v \<in> set (after @ [ev]). \<not> touches (request_id r) v))" (is "?L \<longleftrightarrow> _ \<or> ?R")
  proof
    assume ?L
    then obtain bef aft where h: "hist @ [ev] = bef @ Enqueued wall r # aft" "\<forall>v \<in> set aft. \<not> touches (request_id r) v" by blast
    show "ev = Enqueued wall r \<or> ?R"
    proof (cases aft rule: rev_cases)
      case Nil
      then show ?thesis using h(1) by simp
    next
      case (snoc aft' v)
      then have "hist = bef @ Enqueued wall r # aft'" "v = ev" using h(1) by simp_all
      then show ?thesis using h(2) snoc by blast
    qed
  next
    assume "ev = Enqueued wall r \<or> ?R"
    then show ?L
    proof
      assume "ev = Enqueued wall r"
      then show ?L by (intro exI[of _ hist] exI[of _ "[]"]) simp
    next
      assume ?R
      then obtain bef aft where "hist = bef @ Enqueued wall r # aft" "\<forall>v \<in> set (aft @ [ev]). \<not> touches (request_id r) v" by blast
      then show ?L by (intro exI[of _ bef] exI[of _ "aft @ [ev]"]) simp
    qed
  qed
  then show ?thesis unfolding still_waiting_def by auto
qed

text \<open>The rows of the log after a history: those with the status queued are the requests still waiting.\<close>

definition wal_rows :: "wal_event list \<Rightarrow> queue_row list" where
  "wal_rows hist = db_queue (fold exec_sql (concat (map wal_sql hist)) empty_db)"

lemma wal_rows_snoc: "wal_rows (hist @ [ev]) = db_queue (fold exec_sql (wal_sql ev) (fold exec_sql (concat (map wal_sql hist)) empty_db))"
  by (simp add: wal_rows_def)

lemma queue_row_of_simps [simp]:
  "qw_request_id (queue_row_of wall r) = request_id r" "qw_status (queue_row_of wall r) = ''queued''"
  "qw_stream (queue_row_of wall r) = rq_stream r"
  by (simp_all add: queue_row_of_def)

text \<open>An event that touches one request takes its row out of the waiting ones.\<close>

lemma waiting_without:
  assumes "\<And>w. Q w \<longleftrightarrow> (\<exists>wall r. sw wall r \<and> w = queue_row_of wall r)"
    and "\<And>w. Q' w \<longleftrightarrow> Q w \<and> qw_request_id w \<noteq> i" and "\<And>wall r. sw' wall r \<longleftrightarrow> sw wall r \<and> request_id r \<noteq> i"
  shows "Q' w \<longleftrightarrow> (\<exists>wall r. sw' wall r \<and> w = queue_row_of wall r)"
  unfolding assms(2,1,3) by (metis queue_row_of_simps(1))

lemma wal_rows_queued:
  "w \<in> set (wal_rows hist) \<and> qw_status w = ''queued'' \<longleftrightarrow> (\<exists>wall r. still_waiting hist wall r \<and> w = queue_row_of wall r)"
proof (induction hist arbitrary: w rule: rev_induct)
  case Nil
  then show ?case by (simp add: wal_rows_def empty_db_def still_waiting_def)
next
  case (snoc ev hist)
  show ?case
  proof (cases ev)
    case (Enqueued wall r)
    show ?thesis
    proof (cases "rq_no_store r")
      case True
      then have "still_waiting (hist @ [ev]) wall' r' \<longleftrightarrow> still_waiting hist wall' r'" for wall' r'
        using Enqueued by (auto simp: still_waiting_snoc dest: still_waiting_stored)
      moreover have "wal_rows (hist @ [ev]) = wal_rows hist" using True Enqueued by (simp add: wal_rows_def)
      ultimately show ?thesis using snoc.IH by simp
    next
      case False
      have rows: "wal_rows (hist @ [ev]) = filter (\<lambda>x. qw_request_id x \<noteq> request_id r) (wal_rows hist) @ [queue_row_of wall r]"
        using False Enqueued by (simp add: wal_rows_snoc wal_rows_def[symmetric] put_row_def)
      have "still_waiting (hist @ [ev]) wall' r' \<longleftrightarrow> wall' = wall \<and> r' = r \<or> still_waiting hist wall' r' \<and> request_id r' \<noteq> request_id r"
        for wall' r' using False Enqueued by (auto simp: still_waiting_snoc dest: still_waiting_stored)
      moreover have "(w \<in> set (wal_rows hist) \<and> qw_status w = ''queued'') \<and> qw_request_id w \<noteq> request_id r \<longleftrightarrow>
          (\<exists>wall' r'. (still_waiting hist wall' r' \<and> request_id r' \<noteq> request_id r) \<and> w = queue_row_of wall' r')"
        by (rule waiting_without[OF snoc.IH]) simp_all
      ultimately show ?thesis unfolding rows by auto
    qed
  next
    case (Dispatched i)
    show ?thesis by (rule waiting_without[OF snoc.IH, of _ i])
      (use Dispatched in \<open>auto simp: wal_rows_snoc wal_rows_def[symmetric] still_waiting_snoc image_iff split: if_splits dest: still_waiting_stored\<close>)
  next
    case (Left i)
    show ?thesis by (rule waiting_without[OF snoc.IH, of _ i])
      (use Left in \<open>auto simp: wal_rows_snoc wal_rows_def[symmetric] still_waiting_snoc dest: still_waiting_stored\<close>)
  qed
qed

text \<open>Through a running writer with room for them and a flush, the history reaches the database.\<close>

lemma submit_running:
  "pq_open q \<Longrightarrow> pq_writer q = Running \<Longrightarrow> length (pq_pending q) < pq_maxsize q \<Longrightarrow> submit_write e w q = q\<lparr>pq_pending := pq_pending q @ [w]\<rparr>"
  by (simp add: submit_write_def put_nowait_def)

lemma wal_apply_running:
  assumes "length hist \<le> 20000"
  shows "fold (wal_apply e) hist (started_queue db) = (started_queue db)\<lparr>pq_pending := concat (map wal_sql hist)\<rparr>
    \<and> length (concat (map wal_sql hist)) \<le> length hist"
  using assms
proof (induction hist rule: rev_induct)
  case (snoc ev hist)
  then show ?case
    by (cases ev) (simp_all add: persist_enqueue_def persist_dispatch_def persist_expire_def submit_running)
qed simp

definition wal_restart :: "write_env \<Rightarrow> wal_event list \<Rightarrow> persistent_queue" where
  "wal_restart e hist = open_queue True (pq_db (flush_queue (fold (wal_apply e) hist (started_queue empty_db))))"

lemma wal_restart_rows: "length hist \<le> 20000 \<Longrightarrow> db_queue (pq_db (wal_restart e hist)) = wal_rows hist \<and> pq_open (wal_restart e hist)"
  by (simp add: wal_restart_def open_queue_def wal_apply_running flush_queue_def wal_rows_def)

text \<open>Rows that were written by the program are read back without an exception.\<close>

lemma recover_row_total:
  "wall \<noteq> 0 \<Longrightarrow> recover_row rc now wall_now (queue_row_of wall r) =
     (let budget = (if timeout_s r = 0 then 180 else timeout_s r); elapsed = max 0 (wall_now - wall) in
      Inr (if budget \<le> elapsed then None
           else Some (recovered_request rc (rq_priority r) budget (now - elapsed) (now + (budget - elapsed)) (queue_row_of wall r))))"
  by (simp add: recover_row_def row_clock_def row_budget_def queue_row_of_def Let_def del: prio_of_int.simps)

lemma recover_rows_all:
  assumes "\<forall>w \<in> set ws. \<exists>x. recover_row rc now wall_now w = Inr x"
  shows "\<exists>rs db'. recover_rows rc now wall_now ws db = (db', Inr rs) \<and>
    set rs = {r. \<exists>w \<in> set ws. recover_row rc now wall_now w = Inr (Some r)}"
  using assms
proof (induction ws arbitrary: db)
  case (Cons w ws)
  from Cons.prems have "\<exists>x. recover_row rc now wall_now w = Inr x" by simp
  then obtain x where x: "recover_row rc now wall_now w = Inr x" by blast
  have ih: "\<exists>rs db'. recover_rows rc now wall_now ws d = (db', Inr rs) \<and>
      set rs = {r. \<exists>w \<in> set ws. recover_row rc now wall_now w = Inr (Some r)}" for d
    using Cons by simp
  show ?case
  proof (cases x)
    case None
    then show ?thesis using ih[of "exec_sql (Delete_queue (qw_request_id w)) db"] x by auto
  next
    case (Some r)
    then show ?thesis using ih[of db] x by auto
  qed
qed simp

text \<open>C12: A restart recovers exactly the requests that were still waiting. After any history of at most
  twenty thousand events (what the writer can hold before it is flushed), in which requests
  were enqueued at a positive wall time, dispatched or left, written through the writer and flushed, recovery raises
  nothing and returns one request for every enqueued one that was neither dispatched nor left since,
  that is stored at all, is not streaming and has time left; it keeps what was left of its budget,
  measured by the wall clock, on the clock of the new process.\<close>

theorem restart_recovers_exactly:
  assumes "length hist \<le> 20000" "\<forall>wall r. Enqueued wall r \<in> set hist \<longrightarrow> 0 < wall"
  shows "\<exists>q rs. recover_queued rc now wall_now (wal_restart e hist) = (q, Inr rs) \<and>
    set rs = {recovered_request rc (rq_priority r) b (now - d) (now + (b - d)) (queue_row_of wall r) | wall r b d.
      still_waiting hist wall r \<and> \<not> rq_stream r \<and>
      b = (if timeout_s r = 0 then 180 else timeout_s r) \<and> d = max 0 (wall_now - wall) \<and> d < b}"
proof -
  let ?ws = "filter (\<lambda>w. qw_status w = ''queued'') (drop_unrecoverable (wal_rows hist))"
  have ws: "w \<in> set ?ws \<longleftrightarrow> (\<exists>wall r. still_waiting hist wall r \<and> \<not> rq_stream r \<and> w = queue_row_of wall r)" for w
  proof -
    have "w \<in> set ?ws \<longleftrightarrow> (w \<in> set (wal_rows hist) \<and> qw_status w = ''queued'') \<and> \<not> qw_stream w"
      by (auto simp: drop_unrecoverable_def)
    also have "\<dots> \<longleftrightarrow> (\<exists>wall r. still_waiting hist wall r \<and> \<not> rq_stream r \<and> w = queue_row_of wall r)"
      unfolding wal_rows_queued by (metis queue_row_of_simps(3))
    finally show ?thesis .
  qed
  have pos: "wall \<noteq> 0" if "still_waiting hist wall r" for wall r
    using assms(2) that by (fastforce simp: still_waiting_def)
  have "\<forall>w \<in> set ?ws. \<exists>x. recover_row rc now wall_now w = Inr x"
  proof
    fix w assume "w \<in> set ?ws"
    then obtain wall r where "still_waiting hist wall r" "w = queue_row_of wall r" unfolding ws by blast
    then show "\<exists>x. recover_row rc now wall_now w = Inr x" using pos by (simp add: recover_row_total Let_def)
  qed
  from recover_rows_all[OF this] obtain rs db' where rec:
      "recover_rows rc now wall_now ?ws ((pq_db (wal_restart e hist))\<lparr>db_queue := drop_unrecoverable (wal_rows hist)\<rparr>) = (db', Inr rs)"
      "set rs = {r. \<exists>w \<in> set ?ws. recover_row rc now wall_now w = Inr (Some r)}" by blast
  have rcv: "recover_queued rc now wall_now (wal_restart e hist) = ((wal_restart e hist)\<lparr>pq_db := db'\<rparr>, Inr rs)"
    using wal_restart_rows[OF assms(1), of e] rec(1) by (simp add: recover_queued_def Let_def)
  have mem: "x \<in> set rs \<longleftrightarrow> (\<exists>wall r. still_waiting hist wall r \<and> \<not> rq_stream r \<and>
      recover_row rc now wall_now (queue_row_of wall r) = Inr (Some x))" for x
    unfolding rec(2) Bex_def ws by blast
  have eq: "recover_row rc now wall_now (queue_row_of wall r) = Inr (Some x) \<longleftrightarrow>
      (\<exists>b d. b = (if timeout_s r = 0 then 180 else timeout_s r) \<and> d = max 0 (wall_now - wall) \<and> d < b \<and>
        x = recovered_request rc (rq_priority r) b (now - d) (now + (b - d)) (queue_row_of wall r))"
    if "still_waiting hist wall r" for wall r x using pos[OF that] by (auto simp: recover_row_total Let_def)
  have "set rs = {recovered_request rc (rq_priority r) b (now - d) (now + (b - d)) (queue_row_of wall r) | wall r b d.
      still_waiting hist wall r \<and> \<not> rq_stream r \<and>
      b = (if timeout_s r = 0 then 180 else timeout_s r) \<and> d = max 0 (wall_now - wall) \<and> d < b}"
    (is "_ = ?S")
  proof (intro set_eqI iffI)
    fix x assume "x \<in> set rs"
    then obtain wall r where "still_waiting hist wall r" "\<not> rq_stream r" "recover_row rc now wall_now (queue_row_of wall r) = Inr (Some x)"
      unfolding mem by blast
    then show "x \<in> ?S" unfolding eq[OF \<open>still_waiting hist wall r\<close>] by blast
  next
    fix x assume "x \<in> ?S"
    then obtain wall r b d where "still_waiting hist wall r" "\<not> rq_stream r" "b = (if timeout_s r = 0 then 180 else timeout_s r)"
        "d = max 0 (wall_now - wall)" "d < b" "x = recovered_request rc (rq_priority r) b (now - d) (now + (b - d)) (queue_row_of wall r)"
      by blast
    then show "x \<in> set rs" unfolding mem using eq by blast
  qed
  with rcv show ?thesis by blast
qed

definition demo_waiting :: queued_request where
  "demo_waiting = \<lparr>request_id = ''r1'', agent_id = ''a'', rq_endpoint = ''chat'', rq_priority = P1_TURN_SUPPORT,
     rq_band = priority_to_band P1_TURN_SUPPORT, call_site = ''s'', payload_type = ''chat_completion'', rq_payload = [],
     timeout_deadline = 170, enqueued_at = 50, estimated_cost_ss = 1, est_input_tokens = 0, session_id = None, turn_id = None,
     caller_id = None, declared_agent_id = [], asserted_by_key_id = [], timeout_s = 120, rq_stream = False,
     ctx_per_slot_at_admission = 0, json_object_stripped = False, forced_tool_schema = None, forced_tool_name = [],
     deadline_is_default = False, degraded_from = None, spilled_from = None, requested = ''chat'', routed_to = ''chat'',
     allow_degrade = None, allow_spill = Some False, no_store_outcome = []\<rparr>"

lemma demo_still_waiting: "still_waiting [Enqueued 1000 demo_waiting, Enqueued 1001 (demo_waiting\<lparr>request_id := ''r2''\<rparr>), Dispatched ''r2''] 1000 demo_waiting"
  unfolding still_waiting_def
  by (intro conjI exI[of _ "[]"] exI[of _ "[Enqueued 1001 (demo_waiting\<lparr>request_id := ''r2''\<rparr>), Dispatched ''r2'']"])
    (simp_all add: demo_waiting_def rq_no_store_def)

theorem restart_recovers_exactly_witness:
  "\<exists>q rs. recover_queued [] 5 1030 (wal_restart \<lparr>we_restart_ok = True, we_disk_ok = True\<rparr>
      [Enqueued 1000 demo_waiting, Enqueued 1001 (demo_waiting\<lparr>request_id := ''r2''\<rparr>), Dispatched ''r2'']) = (q, Inr rs) \<and>
    (\<exists>r \<in> set rs. request_id r = ''r1'' \<and> timeout_deadline r = 95)"
proof -
  let ?h = "[Enqueued 1000 demo_waiting, Enqueued 1001 (demo_waiting\<lparr>request_id := ''r2''\<rparr>), Dispatched ''r2'']"
  obtain q rs where rs: "recover_queued [] 5 1030 (wal_restart \<lparr>we_restart_ok = True, we_disk_ok = True\<rparr> ?h) = (q, Inr rs)"
    "set rs = {recovered_request [] (rq_priority r) b (5 - d) (5 + (b - d)) (queue_row_of wall r) | wall r b d.
      still_waiting ?h wall r \<and> \<not> rq_stream r \<and> b = (if timeout_s r = 0 then 180 else timeout_s r) \<and> d = max 0 (1030 - wall) \<and> d < b}"
    using restart_recovers_exactly[of ?h "[]" 5 1030 "\<lparr>we_restart_ok = True, we_disk_ok = True\<rparr>"] by auto
  have "recovered_request [] P1_TURN_SUPPORT 120 (5 - 30) (5 + (120 - 30)) (queue_row_of 1000 demo_waiting) \<in> set rs"
    unfolding rs(2) using demo_still_waiting
    by (intro CollectI exI[of _ 1000] exI[of _ demo_waiting] exI[of _ 120] exI[of _ 30]) (simp add: demo_waiting_def)
  then have "\<exists>r \<in> set rs. request_id r = ''r1'' \<and> timeout_deadline r = 95"
    by (rule bexI[rotated]) (simp add: recovered_request_def queue_row_of_def demo_waiting_def)
  with rs(1) show ?thesis by blast
qed

text \<open>The log does not keep what the caller decided about substitutes: a request that refuses to be
  spilled, or to be degraded, comes back without its refusal.\<close>

lemma refusal_lost_by_recovery:
  "allow_spill r = Some False \<Longrightarrow> allow_spill (recovered_request rc pri b enq dl (queue_row_of wall r)) = None"
  "allow_degrade r = Some False \<Longrightarrow> allow_degrade (recovered_request rc pri b enq dl (queue_row_of wall r)) = None"
  by (simp_all add: recovered_request_def)

subsection \<open>No content of a request that is not to be stored\<close>

text \<open>A request whose wish is granted leaves no row in the log, and its completion keeps neither payload
  nor response.\<close>

lemma no_store_row_free:
  "rq_no_store r \<Longrightarrow> persist_enqueue e wall r q = q"
  "completion_entry now a = Inr c \<Longrightarrow> cp_no_store a = Some ''honoured'' \<Longrightarrow> cp_payload c = None \<and> cp_response c = None"
  by (auto simp: persist_enqueue_def completion_entry_def Let_def split: sum.splits if_splits)

subsection \<open>Stalls of one caller\<close>

text \<open>A read of the stalls of one caller reports nothing of an empty prefix, and otherwise the stalls in the
  window, both ends included, of every caller whose name starts with the prefix up to the case of its
  letters.\<close>

lemma stall_aborts_exact:
  "t \<in> set (stall_aborts p since until_t q) \<longleftrightarrow> pq_open q \<and> p \<noteq> [] \<and> t \<in> set (db_timeouts (pq_db q)) \<and>
     since \<le> to_occurred_at t \<and> to_occurred_at t \<le> until_t \<and> (\<exists>a. to_abort_reason t = Some a \<and> a \<in> set stall_abort_reasons) \<and>
     (\<exists>c. to_caller_id t = Some c \<and> like_prefix p c)"
  by (auto simp: stall_aborts_def split: option.splits)

lemma like_prefix_refl: "like_prefix p (p @ s)"
  by (simp add: like_prefix_def)

text \<open>Two callers that differ in case are one to the query.\<close>

lemma like_ignores_case: "like_prefix ''job_a'' ''JOB_A.7''"
  by code_simp

subsection \<open>Corrected answers\<close>

text \<open>Recording a corrected answer replaces the row of the request: a delegated call, for which the row is
  the only record of the credential that made it, reads afterwards as one of the agent itself, and
  what the first answer consumed is gone from the table the ledger of the day is restored from.\<close>

lemma correction_forgets_key:
  assumes "pq_open q" "pq_writer q = Not_started" "\<not> rq_no_store r" "no_store_outcome r = []" "asserted_by_key_id r = ''k''"
    and "persist_complete e t1 (request_completion r 100 20 (Some 7) 1 0 ''ok'' (Some body) None) q = Inr q1"
    and "persist_complete e t2 (schema_corrected_completion r (JObj [])) q1 = Inr q2"
  shows "(\<exists>c \<in> set (db_completions (pq_db q1)). cp_request_id c = request_id r \<and> cp_key_id c = Some ''k'' \<and> cp_input_tokens c = Some 100)
    \<and> (\<forall>c \<in> set (db_completions (pq_db q2)). cp_request_id c = request_id r \<longrightarrow> cp_key_id c = None \<and> cp_input_tokens c = Some 0)"
  using assms
  by (auto simp: persist_complete_def completion_entry_def request_completion_def schema_corrected_completion_def
      corrected_completion_def submit_write_def put_row_def outcome_of_def or_none_def usage_count_def Let_def)

end
