(* ===== verification/Persist_Reads.thy ===== *)
theory Persist_Reads
  imports Persist Timeout_Model
begin

section \<open>Reports over the persistent queue (queue.py)\<close>

text \<open>
  The aggregations the dashboards and the bootstraps read. A group of a \<^verbatim>\<open>GROUP BY\<close> is the list of its rows;
  the groups come in the order of their keys. Timestamps are left as numbers where the code prints
  them, and an average or a percentile is taken over the values of the rows, as SQLite and
  \<^verbatim>\<open>percentile\<close> do. A closed database answers every read with an empty result, which is not repeated here:
  the reports are functions of the tables.
\<close>

subsection \<open>SQL helpers\<close>

definition groups_by :: "('a \<Rightarrow> 'k::linorder) \<Rightarrow> 'a list \<Rightarrow> ('k \<times> 'a list) list" where
  "groups_by key xs = map (\<lambda>k. (k, filter (\<lambda>x. key x = k) xs)) (sort (remdups (map key xs)))"

definition sql_sum :: "('a \<Rightarrow> int option) \<Rightarrow> 'a list \<Rightarrow> int" where
  "sql_sum f xs = sum_list (map (\<lambda>x. coalesce0 (f x)) xs)"

definition known :: "('a \<Rightarrow> 'b option) \<Rightarrow> 'a list \<Rightarrow> 'b list" where
  "known f xs = List.map_filter f xs"

text \<open>\<^verbatim>\<open>AVG\<close> leaves out the missing values and is missing without any.\<close>

definition sql_avg :: "('a \<Rightarrow> real option) \<Rightarrow> 'a list \<Rightarrow> real option" where
  "sql_avg f xs = (let vs = known f xs in if vs = [] then None else Some (sum_list vs / real (length vs)))"

definition count_ok :: "completion_row list \<Rightarrow> int" where
  "count_ok cs = int (length (filter (\<lambda>c. cp_status c = ''ok'') cs))"

definition since_rows :: "real \<Rightarrow> proxy_db \<Rightarrow> completion_row list" where
  "since_rows cutoff db = filter (\<lambda>c. cp_completed_at c \<ge> cutoff) (db_completions db)"

text \<open>The latencies of a group in whole milliseconds, sorted.\<close>

definition latencies :: "(completion_row \<Rightarrow> real option) \<Rightarrow> completion_row list \<Rightarrow> real list" where
  "latencies f cs = sort (map (\<lambda>x. of_int (py_int x)) (known f cs))"

definition dur_ms :: "completion_row \<Rightarrow> real option" where
  "dur_ms c = map_option (\<lambda>d. d * 1000) (cp_duration_s c)"

definition total_ms :: "completion_row \<Rightarrow> real option" where
  "total_ms c = map_option (\<lambda>d. d * 1000 + (case cp_queue_wait_ms c of None \<Rightarrow> 0 | Some w \<Rightarrow> w)) (cp_duration_s c)"

definition pct :: "real list \<Rightarrow> nat \<Rightarrow> real" where
  "pct vs p = py_round (percentile vs p) 1"

subsection \<open>Buckets of the recent history\<close>

record endpoint_bucket =
  eb_requests :: int
  eb_ok :: int
  eb_errors :: int
  eb_avg_duration_s :: real
  eb_in :: int
  eb_out :: int

record agent_bucket =
  ab_requests :: int
  ab_slot_seconds :: real

record history_bucket =
  hb_start :: real
  hb_end :: real
  hb_endpoints :: "(string, endpoint_bucket) odict"
  hb_agents :: "(string, agent_bucket) odict"

definition history_idx :: "real \<Rightarrow> real \<Rightarrow> completion_row \<Rightarrow> int" where
  "history_idx cutoff bucket_s c = py_int ((cp_completed_at c - cutoff) / bucket_s)"

definition add_group ::
    "real \<Rightarrow> real \<Rightarrow> (int \<times> string \<times> string) \<times> completion_row list \<Rightarrow> (int, history_bucket) odict \<Rightarrow> (int, history_bucket) odict" where
  "add_group cutoff bucket_s g bm = (case g of ((idx, ep, aid), cs) \<Rightarrow>
     (let b = od_get_or \<lparr>hb_start = cutoff + of_int idx * bucket_s, hb_end = cutoff + of_int idx * bucket_s + bucket_s,
                         hb_endpoints = [], hb_agents = []\<rparr> bm idx;
          e = od_get_or \<lparr>eb_requests = 0, eb_ok = 0, eb_errors = 0, eb_avg_duration_s = 0, eb_in = 0, eb_out = 0\<rparr> (hb_endpoints b) ep;
          a = od_get_or \<lparr>ab_requests = 0, ab_slot_seconds = 0\<rparr> (hb_agents b) aid;
          n = int (length cs) in
      od_put idx (b\<lparr>
        hb_endpoints := od_put ep \<lparr>eb_requests = eb_requests e + n, eb_ok = eb_ok e + count_ok cs,
           eb_errors = eb_errors e + (n - count_ok cs),
           eb_avg_duration_s = py_round (case sql_avg cp_duration_s cs of None \<Rightarrow> 0 | Some v \<Rightarrow> v) 2,
           eb_in = eb_in e + sql_sum cp_input_tokens cs, eb_out = eb_out e + sql_sum cp_output_tokens cs\<rparr> (hb_endpoints b),
        hb_agents := od_put aid \<lparr>ab_requests = ab_requests a + n,
           ab_slot_seconds = py_round (ab_slot_seconds a + sum_list (known cp_duration_s cs)) 1\<rparr> (hb_agents b)\<rparr>) bm))"

definition history_buckets :: "real \<Rightarrow> real \<Rightarrow> int \<Rightarrow> proxy_db \<Rightarrow> history_bucket list" where
  "history_buckets now hours bucket_minutes db =
     (let cutoff = now - hours * 3600; bucket_s = of_int (bucket_minutes * 60) :: real;
          gs = groups_by (\<lambda>c. (history_idx cutoff bucket_s c, cp_endpoint c, cp_agent_id c)) (since_rows cutoff db);
          bm = fold (add_group cutoff bucket_s) gs [] in
      map (\<lambda>k. the (od_get bm k)) (sort (od_keys bm)))"

definition recent_requests :: "nat \<Rightarrow> proxy_db \<Rightarrow> completion_row list" where
  "recent_requests limit db = take limit (rev (sort_key cp_completed_at (db_completions db)))"

definition cache_screen_payloads :: "real \<Rightarrow> string \<Rightarrow> real \<Rightarrow> nat \<Rightarrow> proxy_db \<Rightarrow> (string \<times> json) list" where
  "cache_screen_payloads now ep hours limit db = map (\<lambda>c. (cp_call_site c, the (cp_payload c)))
     (take limit (rev (sort_key cp_completed_at (filter (\<lambda>c. cp_endpoint c = ep \<and> cp_payload c \<noteq> None \<and>
        cp_completed_at c > now - hours * 3600) (db_completions db)))))"

definition cache_stats_snapshots :: "real \<Rightarrow> real \<Rightarrow> proxy_db \<Rightarrow> cache_row list" where
  "cache_stats_snapshots now win db = sort_key cs_snapshot_at (filter (\<lambda>r. cs_snapshot_at r > now - win) (db_cache_stats db))"

subsection \<open>Fleet activity\<close>

record activity_bin =
  av_ts :: int
  av_n :: int
  av_fails :: int
  av_in :: int
  av_out :: int
  av_p95 :: real

definition bin_ts :: "int \<Rightarrow> completion_row \<Rightarrow> int" where
  "bin_ts bin_s c = py_int (cp_completed_at c / of_int bin_s) * bin_s"

definition activity_of :: "int \<times> completion_row list \<Rightarrow> activity_bin" where
  "activity_of g = (case g of (ts, cs) \<Rightarrow> \<lparr>av_ts = ts, av_n = int (length cs), av_fails = int (length cs) - count_ok cs,
     av_in = sql_sum cp_input_tokens cs, av_out = sql_sum cp_output_tokens cs,
     av_p95 = (if latencies dur_ms cs = [] then 0 else pct (latencies dur_ms cs) 95)\<rparr>)"

definition fleet_activity :: "real \<Rightarrow> real \<Rightarrow> int \<Rightarrow> proxy_db \<Rightarrow> activity_bin list" where
  "fleet_activity now win bin_s db = map activity_of (groups_by (bin_ts bin_s) (since_rows (now - win) db))"

text \<open>The sixteen busiest endpoints of the last hour, in the order of their volume.\<close>

definition busiest_endpoints :: "real \<Rightarrow> proxy_db \<Rightarrow> (string \<times> int \<times> int \<times> real) list" where
  "busiest_endpoints now db = take 16 (sort_key (\<lambda>(ep, n, _). - n) (map (\<lambda>(ep, cs). (ep, int (length cs), int (length cs) - count_ok cs,
       if latencies dur_ms cs = [] then 0 else pct (latencies dur_ms cs) 95)) (groups_by cp_endpoint (since_rows (now - 3600) db))))"

record series_bin =
  sb_ts :: int
  sb_n :: int
  sb_fail_pct :: real
  sb_in :: int
  sb_out :: int
  sb_p50 :: "real option"
  sb_p95 :: "real option"
  sb_p99 :: "real option"
  sb_avg_in :: "int option"

definition opt_pct :: "real list \<Rightarrow> nat \<Rightarrow> real option" where
  "opt_pct vs p = (if vs = [] then None else Some (pct vs p))"

definition series_of :: "int \<times> completion_row list \<Rightarrow> series_bin" where
  "series_of g = (case g of (ts, cs) \<Rightarrow> (let n = int (length cs); lats = latencies dur_ms cs in
     \<lparr>sb_ts = ts, sb_n = n, sb_fail_pct = (if n = 0 then 0 else py_round (100 * of_int (n - count_ok cs) / of_int n) 1),
      sb_in = sql_sum cp_input_tokens cs, sb_out = sql_sum cp_output_tokens cs,
      sb_p50 = opt_pct lats 50, sb_p95 = opt_pct lats 95, sb_p99 = opt_pct lats 99,
      sb_avg_in = map_option round_half_even (sql_avg (\<lambda>c. map_option of_int (cp_input_tokens c)) cs)\<rparr>))"

definition endpoint_series :: "(string, string) odict \<Rightarrow> real \<Rightarrow> string \<Rightarrow> real \<Rightarrow> int \<Rightarrow> proxy_db \<Rightarrow> series_bin list" where
  "endpoint_series rc now ep win bin_s db = map series_of (groups_by (bin_ts bin_s)
     (filter (\<lambda>c. cp_endpoint c = normalize_endpoint rc ep) (since_rows (now - win) db)))"

subsection \<open>Attribution of the prefix cache\<close>

record attribution =
  at_calls :: int
  at_attributed :: int
  at_unattributed :: int
  at_cached :: int
  at_attributable_in :: int
  at_hit_rate :: "real option"

definition attribution_of :: "completion_row list \<Rightarrow> attribution" where
  "attribution_of cs = (let rep = filter (\<lambda>c. cp_cached_tokens c \<noteq> None) cs;
       cached = sql_sum cp_cached_tokens cs; attr = sql_sum cp_input_tokens rep in
     \<lparr>at_calls = int (length cs), at_attributed = int (length rep), at_unattributed = int (length cs) - int (length rep),
      at_cached = cached, at_attributable_in = attr,
      at_hit_rate = (if attr > 0 then Some (py_round (of_int cached / of_int attr) 4) else None)\<rparr>)"

definition chat_rows :: "real \<Rightarrow> proxy_db \<Rightarrow> completion_row list" where
  "chat_rows cutoff db = filter (\<lambda>c. cp_kind c = Some ''chat'') (since_rows cutoff db)"

definition by_calls :: "('k \<times> attribution) list \<Rightarrow> ('k \<times> attribution) list" where
  "by_calls = sort_key (\<lambda>(k, a). - at_calls a)"

record attribution_report =
  ar_by_call_site :: "((string \<times> string) \<times> attribution) list"
  ar_by_endpoint :: "(string \<times> attribution) list"
  ar_fleet :: attribution

definition cache_attribution :: "real \<Rightarrow> real \<Rightarrow> nat \<Rightarrow> proxy_db \<Rightarrow> attribution_report" where
  "cache_attribution now win limit db = (let cs = chat_rows (now - win) db in
     \<lparr>ar_by_call_site = take limit (by_calls (map (\<lambda>(k, g). (k, attribution_of g)) (groups_by (\<lambda>c. (cp_call_site c, cp_endpoint c)) cs))),
      ar_by_endpoint = by_calls (map (\<lambda>(k, g). (k, attribution_of g)) (groups_by cp_endpoint cs)),
      ar_fleet = attribution_of cs\<rparr>)"

subsection \<open>Callers and usage\<close>

record caller_row =
  cl_agent :: string
  cl_n :: int
  cl_in :: int
  cl_out :: int

text \<open>The missing name of an agent is shown as a dash.\<close>

definition caller_of :: "string \<times> completion_row list \<Rightarrow> caller_row" where
  "caller_of g = (case g of (aid, cs) \<Rightarrow> \<lparr>cl_agent = (if aid = [] then ''-'' else aid), cl_n = int (length cs),
     cl_in = sql_sum cp_input_tokens cs, cl_out = sql_sum cp_output_tokens cs\<rparr>)"

definition top_callers :: "real \<Rightarrow> real \<Rightarrow> nat \<Rightarrow> proxy_db \<Rightarrow> (string \<times> caller_row list) list" where
  "top_callers now win per_endpoint db = map (\<lambda>(ep, cs). (ep, take per_endpoint (sort_key (\<lambda>r. - cl_n r) (map caller_of (groups_by cp_agent_id cs)))))
     (groups_by cp_endpoint (since_rows (now - win) db))"

datatype dimension = By_agent | By_call_site | By_endpoint

definition dimension_named :: "string \<Rightarrow> dimension" where
  "dimension_named d = (if d = ''call_site'' then By_call_site else if d = ''endpoint'' \<or> d = ''provider'' then By_endpoint else By_agent)"

fun dim_col :: "dimension \<Rightarrow> completion_row \<Rightarrow> string" where
  "dim_col By_agent c = cp_agent_id c"
| "dim_col By_call_site c = cp_call_site c"
| "dim_col By_endpoint c = cp_endpoint c"

record usage_acc =
  ua_requests :: int
  ua_ok :: int
  ua_errors :: int
  ua_in :: int
  ua_out :: int
  ua_cost_usd :: real
  ua_lats :: "real list"

definition no_usage :: usage_acc where
  "no_usage = \<lparr>ua_requests = 0, ua_ok = 0, ua_errors = 0, ua_in = 0, ua_out = 0, ua_cost_usd = 0, ua_lats = []\<rparr>"

definition add_usage :: "(string \<times> string) \<times> completion_row list \<Rightarrow> (string, usage_acc) odict \<Rightarrow> (string, usage_acc) odict" where
  "add_usage g d = (case g of ((k, ep), cs) \<Rightarrow>
     (let a = od_get_or no_usage d k; n = int (length cs); ti = sql_sum cp_input_tokens cs; tout = sql_sum cp_output_tokens cs in
      od_put k \<lparr>ua_requests = ua_requests a + n, ua_ok = ua_ok a + count_ok cs, ua_errors = ua_errors a + (n - count_ok cs),
        ua_in = ua_in a + ti, ua_out = ua_out a + tout, ua_cost_usd = ua_cost_usd a + cloud_cost_usd ep ti tout,
        ua_lats = ua_lats a @ map (\<lambda>x. of_int (py_int x)) (known total_ms cs)\<rparr> d))"

record usage_row =
  uz_key :: string
  uz_requests :: int
  uz_ok :: int
  uz_errors :: int
  uz_in :: int
  uz_out :: int
  uz_cost_usd :: real
  uz_p50_ms :: real
  uz_p95_ms :: real

definition usage_of :: "string \<times> usage_acc \<Rightarrow> usage_row" where
  "usage_of ka = (case ka of (k, a) \<Rightarrow> (let lats = sort (ua_lats a) in
     \<lparr>uz_key = k, uz_requests = ua_requests a, uz_ok = ua_ok a, uz_errors = ua_errors a, uz_in = ua_in a, uz_out = ua_out a,
      uz_cost_usd = py_round (ua_cost_usd a) 4, uz_p50_ms = (if lats = [] then 0 else pct lats 50),
      uz_p95_ms = (if lats = [] then 0 else pct lats 95)\<rparr>))"

definition usage_rollup :: "real \<Rightarrow> string \<Rightarrow> real \<Rightarrow> proxy_db \<Rightarrow> usage_row list" where
  "usage_rollup now d hours db = sort_key (\<lambda>r. - uz_requests r) (map usage_of
     (fold add_usage (groups_by (\<lambda>c. (dim_col (dimension_named d) c, cp_endpoint c)) (since_rows (now - hours * 3600) db)) []))"

subsection \<open>Timeouts\<close>

definition is_planned :: "real \<Rightarrow> maintenance_row list \<Rightarrow> timeout_row \<Rightarrow> bool" where
  "is_planned now ws t \<longleftrightarrow> list_ex (\<lambda>m. mt_endpoint m \<in> {to_endpoint t, ''*''} \<and> mt_started_at m \<le> to_occurred_at t \<and>
     to_occurred_at t \<le> (case mt_ended_at m of None \<Rightarrow> now | Some e \<Rightarrow> e)) ws"

definition count_if :: "('a \<Rightarrow> bool) \<Rightarrow> 'a list \<Rightarrow> int" where
  "count_if P xs = int (length (filter P xs))"

record timeout_group =
  tg_endpoint :: string
  tg_priority :: int
  tg_layer :: string
  tg_count :: int
  tg_premature :: int
  tg_planned :: int
  tg_elapsed_p50 :: real
  tg_elapsed_p95 :: real
  tg_avg_in_flight :: real
  tg_avg_queued :: real
  tg_recommended_p50 :: real
  tg_avg_context_pct :: "real option"
  tg_top_callers :: "(string, int) odict"
  tg_abort_reasons :: "(string, int) odict"

definition tally_names :: "string option list \<Rightarrow> (string, int) odict" where
  "tally_names ns = fold (\<lambda>n d. case n of None \<Rightarrow> d | Some s \<Rightarrow> if s = [] then d else od_put s (od_get_or 0 d s + 1) d) ns []"

definition group_of_timeouts :: "real \<Rightarrow> maintenance_row list \<Rightarrow> (string \<times> int \<times> string) \<times> timeout_row list \<Rightarrow> timeout_group" where
  "group_of_timeouts now ws g = (case g of ((ep, pri, layer), ts) \<Rightarrow>
     (let n = real (length ts); el = sort (map to_elapsed_s ts); pcts = known to_context_used_pct ts in
      \<lparr>tg_endpoint = ep, tg_priority = pri, tg_layer = layer, tg_count = int (length ts),
       tg_premature = count_if to_under_recommended ts, tg_planned = count_if (is_planned now ws) ts,
       tg_elapsed_p50 = py_round (percentile el 50) 2, tg_elapsed_p95 = py_round (percentile el 95) 2,
       tg_avg_in_flight = py_round (sum_list (map (\<lambda>t. of_int (to_in_flight t)) ts) / n) 1,
       tg_avg_queued = py_round (sum_list (map (\<lambda>t. of_int (to_queued t)) ts) / n) 1,
       tg_recommended_p50 = pct (sort (map to_recommended_ms ts)) 50,
       tg_avg_context_pct = (if pcts = [] then None else Some (py_round (sum_list pcts / real (length pcts)) 1)),
       tg_top_callers = take 3 (sort_key (\<lambda>(k, v). - v) (tally_names (map to_caller_id ts))),
       tg_abort_reasons = tally_names (map to_abort_reason ts)\<rparr>))"

record timeouts_summary =
  ts_total :: int
  ts_premature :: int
  ts_premature_unplanned :: int
  ts_premature_foreground_unplanned :: int
  ts_planned :: int
  ts_by_abort_reason :: "(string, int) odict"
  ts_rows :: "timeout_group list"
  ts_windows :: "maintenance_row list"

text \<open>The groups in the order in which their first row was met.\<close>

definition groups_seen :: "('a \<Rightarrow> 'k) \<Rightarrow> 'a list \<Rightarrow> ('k \<times> 'a list) list" where
  "groups_seen key xs = map (\<lambda>k. (k, filter (\<lambda>x. key x = k) xs)) (rev (remdups (rev (map key xs))))"

definition timeouts_report :: "real \<Rightarrow> real \<Rightarrow> persistent_queue \<Rightarrow> timeouts_summary" where
  "timeouts_report now hours q =
     (let ts = filter (\<lambda>t. to_occurred_at t \<ge> now - hours * 3600) (db_timeouts (pq_db q));
          ws = maintenance_windows now hours q;
          unplanned = filter (\<lambda>t. to_under_recommended t \<and> \<not> is_planned now ws t) ts in
      \<lparr>ts_total = int (length ts), ts_premature = count_if to_under_recommended ts,
       ts_premature_unplanned = int (length unplanned),
       ts_premature_foreground_unplanned = count_if (\<lambda>t. to_priority t \<le> 2) unplanned,
       ts_planned = count_if (is_planned now ws) ts, ts_by_abort_reason = tally_names (map to_abort_reason ts),
       ts_rows = sort_key (\<lambda>g. (- tg_count g, tg_endpoint g, tg_priority g, tg_layer g))
         (map (group_of_timeouts now ws) (groups_seen (\<lambda>t. (to_endpoint t, to_priority t, to_layer t)) ts)),
       ts_windows = ws\<rparr>)"

record shadow_detail =
  sd_recommended :: "real \<times> real"
  sd_actual :: "real \<times> real"
  sd_headroom :: "real \<times> real"
  sd_sources :: "(string, int) odict"

definition both_pcts :: "real list \<Rightarrow> real \<times> real" where
  "both_pcts vs = (pct (sort vs) 50, pct (sort vs) 95)"

definition shadow_detail_of :: "shadow_row list \<Rightarrow> shadow_detail" where
  "shadow_detail_of g = \<lparr>sd_recommended = both_pcts (map sh_recommended_ms g), sd_actual = both_pcts (map sh_actual_total_ms g),
     sd_headroom = both_pcts (map (\<lambda>s. sh_applied_timeout_s s * 1000 - sh_recommended_ms s) g),
     sd_sources = fold (\<lambda>s d. od_put (sh_source s) (od_get_or 0 d (sh_source s) + 1) d) g []\<rparr>"

record shadow_group =
  sg_endpoint :: string
  sg_priority :: int
  sg_samples :: int
  sg_actual_timeouts :: int
  sg_would_timeout :: int
  sg_would_rate :: real
  sg_observed_rate :: real
  sg_detail :: "shadow_detail option"

definition shadow_group_of :: "shadow_row list \<Rightarrow> timeout_row list \<Rightarrow> string \<times> int \<Rightarrow> shadow_group" where
  "shadow_group_of shs tos k = (let g = filter (\<lambda>s. (sh_endpoint s, sh_priority s) = k) shs;
       n = length g; n_to = length (filter (\<lambda>t. (to_endpoint t, to_priority t) = k) tos);
       would = count_if sh_would_timeout g in
     \<lparr>sg_endpoint = fst k, sg_priority = snd k, sg_samples = int n, sg_actual_timeouts = int n_to, sg_would_timeout = would,
      sg_would_rate = (if n = 0 then 0 else py_round (of_int would / real n) 4),
      sg_observed_rate = (if n + n_to = 0 then 0 else py_round (real n_to / real (n + n_to)) 4),
      sg_detail = (if n = 0 then None else Some (shadow_detail_of g))\<rparr>)"

definition timeout_shadow_report :: "real \<Rightarrow> real \<Rightarrow> proxy_db \<Rightarrow> shadow_group list" where
  "timeout_shadow_report now hours db =
     (let shs = filter (\<lambda>s. sh_completed_at s \<ge> now - hours * 3600) (db_shadow db);
          tos = filter (\<lambda>t. to_occurred_at t \<ge> now - hours * 3600) (db_timeouts db) in
      map (shadow_group_of shs tos)
        (sort (remdups (map (\<lambda>s. (sh_endpoint s, sh_priority s)) shs @ map (\<lambda>t. (to_endpoint t, to_priority t)) tos))))"

subsection \<open>Samples for the bootstraps\<close>

definition timeout_samples :: "real \<Rightarrow> real \<Rightarrow> proxy_db \<Rightarrow> completion_row list" where
  "timeout_samples now hours db = sort_key cp_completed_at
     (filter (\<lambda>c. cp_status c = ''ok'' \<and> (\<exists>d \<in> set_option (cp_duration_s c). d > 0)) (since_rows (now - hours * 3600) db))"

definition completions_for_calibration :: "real \<Rightarrow> real \<Rightarrow> proxy_db \<Rightarrow> completion_row list" where
  "completions_for_calibration now hours db = sort_key cp_completed_at
     (filter (\<lambda>c. cp_status c = ''ok'' \<and> (\<exists>n \<in> set_option (cp_output_tokens c). n > 0) \<and>
        (\<exists>d \<in> set_option (cp_duration_s c). d > 0)) (since_rows (now - hours * 3600) db))"

text \<open>\<^verbatim>\<open>LIKE\<close> without an escape: \<^verbatim>\<open>%\<close> is any text, \<^verbatim>\<open>_\<close> any character, letters are compared without case.\<close>

fun sql_like :: "string \<Rightarrow> string \<Rightarrow> bool" where
  "sql_like [] s \<longleftrightarrow> s = []"
| "sql_like (p # ps) s \<longleftrightarrow> (if p = CHR ''%'' then sql_like ps s \<or> (case s of [] \<Rightarrow> False | c # cs \<Rightarrow> sql_like (p # ps) cs)
     else case s of [] \<Rightarrow> False | c # cs \<Rightarrow> (p = CHR ''_'' \<or> ascii_fold p = ascii_fold c) \<and> sql_like ps cs)"

definition export_corpus :: "real \<Rightarrow> real \<Rightarrow> string \<Rightarrow> string \<Rightarrow> proxy_db \<Rightarrow> completion_row list" where
  "export_corpus now hours ep site db = sort_key cp_completed_at
     (filter (\<lambda>c. cp_status c = ''ok'' \<and> cp_payload c \<noteq> None \<and> (ep = [] \<or> cp_endpoint c = ep) \<and>
        (site = [] \<or> sql_like (map (\<lambda>x. if x = CHR ''*'' then CHR ''%'' else x) site) (cp_call_site c)))
      (since_rows (now - hours * 3600) db))"

subsection \<open>Every row is counted once\<close>

lemma sum_by_keys:
  assumes "distinct ks" "\<forall>x \<in> set xs. key x \<in> set ks"
  shows "(\<Sum>k \<leftarrow> ks. \<Sum>x \<leftarrow> filter (\<lambda>x. key x = k) xs. (f x :: int)) = (\<Sum>x \<leftarrow> xs. f x)"
  using assms(2)
proof (induction xs)
  case (Cons x xs)
  have "(\<Sum>k \<leftarrow> ks. if key x = k then f x else 0) = f x"
    using sum_over_one[OF assms(1), of "key x" "f x"] Cons.prems by (simp add: eq_commute)
  moreover have "(\<Sum>k \<leftarrow> ks. \<Sum>y \<leftarrow> filter (\<lambda>y. key y = k) (x # xs). f y) =
      (\<Sum>k \<leftarrow> ks. (if key x = k then f x else 0) + (\<Sum>y \<leftarrow> filter (\<lambda>y. key y = k) xs. f y))"
    by (intro arg_cong[where f = sum_list] map_cong) auto
  ultimately show ?case using Cons by (simp add: sum_list_addf)
qed simp

lemma sum_groups_by: "(\<Sum>g \<leftarrow> groups_by key xs. \<Sum>x \<leftarrow> snd g. (f x :: int)) = (\<Sum>x \<leftarrow> xs. f x)"
  using sum_by_keys[of "sort (remdups (map key xs))" xs key f] by (simp add: groups_by_def o_def)

lemma sum_groups_seen: "(\<Sum>g \<leftarrow> groups_seen key xs. \<Sum>x \<leftarrow> snd g. (f x :: int)) = (\<Sum>x \<leftarrow> xs. f x)"
  using sum_by_keys[of "rev (remdups (rev (map key xs)))" xs key f] by (simp add: groups_seen_def o_def)

lemma sum_sort_key: "(\<Sum>x \<leftarrow> sort_key k xs. (f x :: int)) = (\<Sum>x \<leftarrow> xs. f x)"
  by (metis mset_map mset_sort sum_mset_sum_list)

lemma int_length_sum: "int (length xs) = (\<Sum>x \<leftarrow> xs. 1)"
  by (induction xs) simp_all

lemma count_if_sum: "count_if P xs = (\<Sum>x \<leftarrow> xs. if P x then 1 else 0)"
  by (induction xs) (simp_all add: count_if_def)

lemma count_ok_sum: "count_ok cs = (\<Sum>c \<leftarrow> cs. if cp_status c = ''ok'' then 1 else 0)"
  by (induction cs) (simp_all add: count_ok_def)

text \<open>A tally that is kept in a dict: what one entry gains the whole gains.\<close>

lemma sum_od_update:
  assumes "od_ok d" "F z = (0 :: int)" "F (g (od_get_or z d k)) = F (od_get_or z d k) + x"
  shows "(\<Sum>kv \<leftarrow> od_put k (g (od_get_or z d k)) d. F (snd kv)) = (\<Sum>kv \<leftarrow> d. F (snd kv)) + x"
proof (cases "od_get d k")
  case None
  then have "k \<notin> fst ` set d" by (simp add: od_get_None_iff)
  from sum_list_od_put_new[OF this, of "\<lambda>kv. F (snd kv)"] None assms(2,3) show ?thesis by (simp add: od_get_or_def)
next
  case (Some v)
  from sum_list_od_put_old[OF assms(1) Some, of "\<lambda>kv. F (snd kv)" "g v"] Some assms(3) show ?thesis by (simp add: od_get_or_def)
qed

lemma usage_fold:
  assumes "od_ok d" "F no_usage = (0 :: int)"
    and "\<And>g d. od_ok d \<Longrightarrow> (\<Sum>kv \<leftarrow> add_usage g d. F (snd kv)) = (\<Sum>kv \<leftarrow> d. F (snd kv)) + (\<Sum>c \<leftarrow> snd g. f c)"
  shows "(\<Sum>kv \<leftarrow> fold add_usage gs d. F (snd kv)) = (\<Sum>kv \<leftarrow> d. F (snd kv)) + (\<Sum>g \<leftarrow> gs. \<Sum>c \<leftarrow> snd g. f c)"
  using assms(1)
proof (induction gs arbitrary: d)
  case (Cons g gs)
  have "od_ok (add_usage g d)" using Cons.prems by (simp add: add_usage_def Let_def split_beta)
  from Cons.IH[OF this] assms(3)[OF Cons.prems, of g] show ?case by simp
qed simp

lemma add_usage_sum:
  assumes "od_ok d"
  shows "(\<Sum>kv \<leftarrow> add_usage g d. ua_requests (snd kv)) = (\<Sum>kv \<leftarrow> d. ua_requests (snd kv)) + (\<Sum>c \<leftarrow> snd g. 1)"
    "(\<Sum>kv \<leftarrow> add_usage g d. ua_ok (snd kv)) = (\<Sum>kv \<leftarrow> d. ua_ok (snd kv)) + (\<Sum>c \<leftarrow> snd g. if cp_status c = ''ok'' then 1 else 0)"
    "(\<Sum>kv \<leftarrow> add_usage g d. ua_errors (snd kv)) = (\<Sum>kv \<leftarrow> d. ua_errors (snd kv)) + (\<Sum>c \<leftarrow> snd g. 1 - (if cp_status c = ''ok'' then 1 else 0))"
    "(\<Sum>kv \<leftarrow> add_usage g d. ua_in (snd kv)) = (\<Sum>kv \<leftarrow> d. ua_in (snd kv)) + (\<Sum>c \<leftarrow> snd g. coalesce0 (cp_input_tokens c))"
    "(\<Sum>kv \<leftarrow> add_usage g d. ua_out (snd kv)) = (\<Sum>kv \<leftarrow> d. ua_out (snd kv)) + (\<Sum>c \<leftarrow> snd g. coalesce0 (cp_output_tokens c))"
  unfolding add_usage_def Let_def split_beta
  by (subst sum_od_update[OF assms, where z = no_usage]; simp add: no_usage_def int_length_sum count_ok_sum sql_sum_def sum_list_subtractf)+

text \<open>A usage rollup accounts for every completion of its window exactly once, whatever it groups by.
  The rows of the report add up to the number of completions, of successes, of failures and of
  tokens in the window.\<close>

theorem usage_rollup_exact:
  "sum_list (map uz_requests (usage_rollup now d hours db)) = int (length (since_rows (now - hours * 3600) db)) \<and>
   sum_list (map uz_ok (usage_rollup now d hours db)) = count_ok (since_rows (now - hours * 3600) db) \<and>
   sum_list (map uz_errors (usage_rollup now d hours db))
     = int (length (since_rows (now - hours * 3600) db)) - count_ok (since_rows (now - hours * 3600) db) \<and>
   sum_list (map uz_in (usage_rollup now d hours db)) = sql_sum cp_input_tokens (since_rows (now - hours * 3600) db) \<and>
   sum_list (map uz_out (usage_rollup now d hours db)) = sql_sum cp_output_tokens (since_rows (now - hours * 3600) db)"
proof -
  let ?cs = "since_rows (now - hours * 3600) db"
  let ?gs = "groups_by (\<lambda>c. (dim_col (dimension_named d) c, cp_endpoint c)) ?cs"
  let ?d = "fold add_usage ?gs []"
  have "sum_list (map F (usage_rollup now d hours db)) = (\<Sum>kv \<leftarrow> ?d. F (usage_of kv))" for F :: "usage_row \<Rightarrow> int"
    by (simp add: usage_rollup_def sum_sort_key o_def)
  moreover have "uz_requests (usage_of kv) = ua_requests (snd kv)" "uz_ok (usage_of kv) = ua_ok (snd kv)" "uz_errors (usage_of kv) = ua_errors (snd kv)"
    "uz_in (usage_of kv) = ua_in (snd kv)" "uz_out (usage_of kv) = ua_out (snd kv)" for kv
    by (simp_all add: usage_of_def split_beta Let_def)
  moreover have "(\<Sum>kv \<leftarrow> ?d. ua_requests (snd kv)) = (\<Sum>c \<leftarrow> ?cs. 1)"
    by (subst usage_fold[OF _ _ add_usage_sum(1)]) (simp_all only: sum_groups_by, simp_all add: no_usage_def)
  moreover have "(\<Sum>kv \<leftarrow> ?d. ua_ok (snd kv)) = (\<Sum>c \<leftarrow> ?cs. if cp_status c = ''ok'' then 1 else 0)"
    by (subst usage_fold[OF _ _ add_usage_sum(2)]) (simp_all only: sum_groups_by, simp_all add: no_usage_def)
  moreover have "(\<Sum>kv \<leftarrow> ?d. ua_errors (snd kv)) = (\<Sum>c \<leftarrow> ?cs. 1 - (if cp_status c = ''ok'' then 1 else 0))"
    by (subst usage_fold[OF _ _ add_usage_sum(3)]) (simp_all only: sum_groups_by, simp_all add: no_usage_def)
  moreover have "(\<Sum>kv \<leftarrow> ?d. ua_in (snd kv)) = (\<Sum>c \<leftarrow> ?cs. coalesce0 (cp_input_tokens c))"
    by (subst usage_fold[OF _ _ add_usage_sum(4)]) (simp_all only: sum_groups_by, simp_all add: no_usage_def)
  moreover have "(\<Sum>kv \<leftarrow> ?d. ua_out (snd kv)) = (\<Sum>c \<leftarrow> ?cs. coalesce0 (cp_output_tokens c))"
    by (subst usage_fold[OF _ _ add_usage_sum(5)]) (simp_all only: sum_groups_by, simp_all add: no_usage_def)
  ultimately show ?thesis
    by (simp add: int_length_sum count_ok_sum sql_sum_def sum_list_subtractf)
qed

lemma filter_narrower: "(\<And>x. P x \<Longrightarrow> Q x) \<Longrightarrow> length (filter P xs) \<le> length (filter Q xs)"
  by (induction xs) (auto intro: le_SucI)

text \<open>The rows of the timeout report add up to its totals, and the narrower counts are within the wider.\<close>

lemma timeouts_report_consistent:
  "sum_list (map tg_count (ts_rows (timeouts_report now hours q))) = ts_total (timeouts_report now hours q)"
  "sum_list (map tg_premature (ts_rows (timeouts_report now hours q))) = ts_premature (timeouts_report now hours q)"
  "sum_list (map tg_planned (ts_rows (timeouts_report now hours q))) = ts_planned (timeouts_report now hours q)"
  "ts_premature_foreground_unplanned (timeouts_report now hours q) \<le> ts_premature_unplanned (timeouts_report now hours q)"
  "ts_premature_unplanned (timeouts_report now hours q) \<le> ts_premature (timeouts_report now hours q)"
  "ts_premature (timeouts_report now hours q) \<le> ts_total (timeouts_report now hours q)"
proof -
  have g: "tg_count (group_of_timeouts now ws g) = (\<Sum>t \<leftarrow> snd g. 1)"
    "tg_premature (group_of_timeouts now ws g) = (\<Sum>t \<leftarrow> snd g. if to_under_recommended t then 1 else 0)"
    "tg_planned (group_of_timeouts now ws g) = (\<Sum>t \<leftarrow> snd g. if is_planned now ws t then 1 else 0)" for ws g
    by (simp_all add: group_of_timeouts_def split_beta Let_def int_length_sum count_if_sum)
  show "sum_list (map tg_count (ts_rows (timeouts_report now hours q))) = ts_total (timeouts_report now hours q)"
    "sum_list (map tg_premature (ts_rows (timeouts_report now hours q))) = ts_premature (timeouts_report now hours q)"
    "sum_list (map tg_planned (ts_rows (timeouts_report now hours q))) = ts_planned (timeouts_report now hours q)"
    by (simp_all add: timeouts_report_def Let_def sum_sort_key o_def g sum_groups_seen int_length_sum count_if_sum)
  show "ts_premature_foreground_unplanned (timeouts_report now hours q) \<le> ts_premature_unplanned (timeouts_report now hours q)"
    "ts_premature_unplanned (timeouts_report now hours q) \<le> ts_premature (timeouts_report now hours q)"
    "ts_premature (timeouts_report now hours q) \<le> ts_total (timeouts_report now hours q)"
    by (simp_all add: timeouts_report_def Let_def count_if_def) (rule filter_narrower, simp)+
qed

subsection \<open>The hit rate speaks of reported counts only\<close>

text \<open>Rows without a reported count change neither the numerator nor the denominator.\<close>

lemma hit_rate_reported_only:
  "at_hit_rate (attribution_of cs) = at_hit_rate (attribution_of (filter (\<lambda>c. cp_cached_tokens c \<noteq> None) cs)) \<and>
   at_attributed (attribution_of cs) + at_unattributed (attribution_of cs) = at_calls (attribution_of cs)"
proof -
  have "sql_sum cp_cached_tokens cs = sql_sum cp_cached_tokens (filter (\<lambda>c. cp_cached_tokens c \<noteq> None) cs)"
    by (induction cs) (auto simp: sql_sum_def coalesce0_def)
  then show ?thesis by (simp add: attribution_of_def Let_def)
qed

subsection \<open>The average of an endpoint is that of its last agent\<close>

text \<open>Each group of one agent overwrites the average duration of its endpoint, while the counts add up: of two
  agents with durations of 10 and 2 seconds the bucket reports 2.\<close>

lemma average_is_of_the_last_agent:
  "eb_avg_duration_s (the (od_get (hb_endpoints (the (od_get (add_group 0 300 ((0, ''chat'', ''b''), [c2])
      (add_group 0 300 ((0, ''chat'', ''a''), [c1]) [])) 0))) ''chat'')) = 2 \<and>
   eb_requests (the (od_get (hb_endpoints (the (od_get (add_group 0 300 ((0, ''chat'', ''b''), [c2])
      (add_group 0 300 ((0, ''chat'', ''a''), [c1]) [])) 0))) ''chat'')) = 2"
  if "cp_duration_s c1 = Some 10" "cp_duration_s c2 = Some 2"
proof -
  have "round_half_even (200 :: real) = 200" using round_half_even_of_int[of 200] by simp
  then show ?thesis using that
    by (simp add: add_group_def Let_def sql_avg_def known_def List.map_filter_simps py_round_def od_get_or_def)
qed

end
