(* ===== verification/Request_Guards.thy ===== *)
theory Request_Guards
  imports Grammar Think_Switch
begin

section \<open>What the proxy rewrites in a request (correction.py, request side)\<close>

text \<open>
  The corrections a chat request passes between admission and dispatch, in the order of
  \<^verbatim>\<open>lifecycle.py\<close>: the caller's thinking switch under the declared name, the effort and head room of a
  model that always reasons, the bare \<^verbatim>\<open>json_object\<close> a whitespace-banning backend cannot honour, a
  JSON schema handed over as a forced tool call, the \<^verbatim>\<open>thinking\<close> opt-in, and the map of effort words.
  With them the predicates the response side reads: whether the request is structured, whether its
  answer must be JSON, which schema it declared.

  A request is the part of \<^verbatim>\<open>QueuedRequest\<close> these methods read and write; the endpoint is the part of
  \<^verbatim>\<open>EndpointConfig\<close> they read, \<open>None\<close> when the registry has no such endpoint. The source edits the
  payload in place; here each step returns the new payload. Log lines are left out.
\<close>

record chat_request =
  gu_payload :: json
  gu_type :: string
  gu_stream :: bool
  gu_id :: string
  gu_endpoint :: string
  gu_agent :: string
  gu_site :: string
  gu_stripped :: bool
  gu_schema :: "payload option"
  gu_tool :: string

record guard_endpoint =
  ge_label :: string
  ge_forces_reasoning :: bool
  ge_effort :: string
  ge_switches :: "string list"
  ge_switchless_effort :: string
  ge_forced_budget :: int
  ge_think_budget :: int
  ge_effort_map :: "(string, string) odict"
  ge_no_whitespace :: bool
  ge_not_implemented :: "string list"

record remap_row =
  rm_endpoint :: string
  rm_from :: string
  rm_to :: "string option"
  rm_count :: int

record guard_state =
  gs_think :: think_stats
  gs_active :: "(string, string list) odict"
  gs_remaps :: "(string, remap_row) odict"
  gs_logged :: "(string \<times> string) list"

text \<open>The flags and budgets that come from the environment.\<close>

record guard_flags =
  gf_thinking_enabled :: bool
  gf_think_budget :: int
  gf_forced_budget :: int

definition chat_payload :: "chat_request \<Rightarrow> payload option" where
  "chat_payload r = (case gu_payload r of
     JObj p \<Rightarrow> if gu_type r = ''chat_completion'' then Some p else None | _ \<Rightarrow> None)"

definition with_payload :: "payload \<Rightarrow> chat_request \<Rightarrow> chat_request" where
  "with_payload p r = r\<lparr>gu_payload := JObj p\<rparr>"

text \<open>\<^verbatim>\<open>isinstance(x, int) and x > 0\<close>; a Python \<^verbatim>\<open>bool\<close> is an \<^verbatim>\<open>int\<close>.\<close>

fun positive_int :: "json \<Rightarrow> int option" where
  "positive_int (JInt n) = (if 0 < n then Some n else None)"
| "positive_int (JBool b) = (if b then Some 1 else None)"
| "positive_int _ = None"

definition extra_body :: "payload \<Rightarrow> payload option" where
  "extra_body p = (case jget p ''extra_body'' of JObj eb \<Rightarrow> Some eb | _ \<Rightarrow> None)"

definition put_extra :: "payload \<Rightarrow> payload \<Rightarrow> payload" where
  "put_extra eb p = od_put ''extra_body'' (JObj eb) p"

text \<open>The payload and, when there is one, its \<^verbatim>\<open>extra_body\<close>.\<close>

definition containers :: "payload \<Rightarrow> payload list" where
  "containers p = p # (case extra_body p of Some eb \<Rightarrow> [eb] | None \<Rightarrow> [])"

definition kwargs_of :: "payload \<Rightarrow> payload" where
  "kwargs_of p = (case jget p ctk of JObj ck \<Rightarrow> ck | _ \<Rightarrow> [])"

definition set_default :: "json \<Rightarrow> payload \<Rightarrow> string \<Rightarrow> payload" where
  "set_default v ck k = (if k \<in> set (od_keys ck) then ck else od_put k v ck)"

subsection \<open>The caller's own effort\<close>

datatype effort_outcome = Effort_absent | Effort_folded | Effort_off | Effort_left

definition effort_key :: string where "effort_key = ''reasoning_effort''"

definition effort_word :: "json \<Rightarrow> string option" where
  "effort_word v = (case v of JStr s \<Rightarrow> if py_strip s \<noteq> [] then Some (py_strip s) else None | _ \<Rightarrow> None)"

definition nested_effort :: "payload \<Rightarrow> json" where
  "nested_effort p = (case jget p ''reasoning'' of JObj d \<Rightarrow> jget d ''effort'' | _ \<Rightarrow> JNull)"

definition caller_efforts :: "payload \<Rightarrow> string list" where
  "caller_efforts p = remdups (List.map_filter effort_word [jget p effort_key, nested_effort p])"

definition drop_nested_effort :: "payload \<Rightarrow> payload \<Rightarrow> payload" where
  "drop_nested_effort p q = (case jget p ''reasoning'' of
     JObj d \<Rightarrow> (case jget d ''effort'' of
        JStr _ \<Rightarrow> put_or_del ''reasoning'' (filter (\<lambda>(k, v). k \<noteq> ''effort'') d) q | _ \<Rightarrow> q)
   | _ \<Rightarrow> q)"

definition drop_effort_aliases :: "payload \<Rightarrow> payload" where
  "drop_effort_aliases p = drop_nested_effort p
     (case jget p effort_key of JStr _ \<Rightarrow> od_del effort_key p | _ \<Rightarrow> p)"

definition fold_caller_effort :: "payload \<Rightarrow> payload \<Rightarrow> string list \<Rightarrow> payload \<times> payload \<times> effort_outcome" where
  "fold_caller_effort p ck switches =
     (if effort_key \<in> set (od_keys ck) then (p, ck, Effort_left)
      else case caller_efforts p of
        [] \<Rightarrow> (p, ck, Effort_absent)
      | [e] \<Rightarrow> if e = ''none''
               then (drop_effort_aliases p, foldl (set_default (JBool False)) ck switches, Effort_off)
               else (drop_effort_aliases p, od_put effort_key (JStr e) ck, Effort_folded)
      | _ \<Rightarrow> (p, ck, Effort_left))"

definition takes_default :: "effort_outcome \<Rightarrow> bool" where
  "takes_default e \<longleftrightarrow> e = Effort_absent \<or> e = Effort_off"

subsection \<open>A model that always reasons\<close>

definition inject_effort :: "string \<Rightarrow> string list \<Rightarrow> payload \<Rightarrow> payload" where
  "inject_effort declared switches p =
     (case fold_caller_effort p (kwargs_of p) switches of (p', ck, outcome) \<Rightarrow>
        let ck = foldl (set_default (JBool True)) ck switches;
            ck = (if takes_default outcome then od_put effort_key (JStr declared) ck else ck)
        in od_put ctk (JObj ck) p')"

definition pad_tokens :: "int \<Rightarrow> payload \<Rightarrow> payload" where
  "pad_tokens extra p = (case positive_int (jget p ''max_tokens'') of
     None \<Rightarrow> p | Some n \<Rightarrow> od_put ''max_tokens'' (JInt (n + extra)) p)"

definition declared_or :: "int \<Rightarrow> int \<Rightarrow> int" where
  "declared_or declared global = (if 0 < declared then declared else global)"

definition apply_forced_reasoning_budget :: "guard_flags \<Rightarrow> guard_endpoint option \<Rightarrow> chat_request \<Rightarrow> chat_request" where
  "apply_forced_reasoning_budget f ep r =
     (case (chat_payload r, ep) of
        (Some p, Some e) \<Rightarrow>
          if \<not> ge_forces_reasoning e then r
          else let p = (if ge_effort e \<noteq> [] \<and> ge_switches e \<noteq> [] then inject_effort (ge_effort e) (ge_switches e) p else p)
               in with_payload (pad_tokens (declared_or (ge_forced_budget e) (gf_forced_budget f)) p) r
      | _ \<Rightarrow> r)"

definition canonicalize_thinking_switch ::
    "real \<Rightarrow> guard_endpoint option \<Rightarrow> chat_request \<Rightarrow> guard_state \<Rightarrow> chat_request \<times> guard_state" where
  "canonicalize_thinking_switch now ep r s =
     (case (chat_payload r, ep) of
        (Some p, Some e) \<Rightarrow>
          if ge_switches e = [] then (r, s)
          else (case rename_thinking_switch (JObj p) (ge_switches e) of (q, found) \<Rightarrow>
             if found = [] then (r, s)
             else (r\<lparr>gu_payload := q\<rparr>, s\<lparr>gs_think := snd (note_renamed now (ge_label e) found (gs_think s))\<rparr>))
      | _ \<Rightarrow> (r, s))"

subsection \<open>A bare JSON object request on a backend that bans whitespace\<close>

definition constraint_keys :: "string list" where
  "constraint_keys = [''grammar'', ''guided_grammar'', ''guided_json'', ''guided_choice'', ''guided_regex'', ''structured_outputs'']"

definition pins_grammar :: "payload \<Rightarrow> bool" where
  "pins_grammar c = list_ex (\<lambda>k. truthy (jget c k)) constraint_keys"

definition rf_key :: string where "rf_key = ''response_format''"

definition format_type :: "payload \<Rightarrow> string" where
  "format_type rf = py_str (or_empty (jget rf ''type''))"

definition is_bare_json_object :: "json \<Rightarrow> bool" where
  "is_bare_json_object v = (case v of
     JObj rf \<Rightarrow> py_strip (format_type rf) = ''json_object'' \<and>
       \<not> truthy (jget rf ''schema'') \<and> \<not> truthy (jget rf ''json_schema'')
   | _ \<Rightarrow> False)"

definition is_json_schema :: "json \<Rightarrow> bool" where
  "is_json_schema v = (case v of JObj rf \<Rightarrow> format_type rf = ''json_schema'' | _ \<Rightarrow> False)"

definition drop_bare_formats :: "payload \<Rightarrow> payload" where
  "drop_bare_formats p =
     (let q = (case extra_body p of
          Some eb \<Rightarrow> if is_bare_json_object (jget eb rf_key) then put_extra (od_del rf_key eb) p else p
        | None \<Rightarrow> p)
      in if is_bare_json_object (jget p rf_key) then od_del rf_key q else q)"

definition apply_json_object_guard :: "guard_endpoint option \<Rightarrow> chat_request \<Rightarrow> chat_request" where
  "apply_json_object_guard ep r =
     (case (chat_payload r, ep) of
        (Some p, Some e) \<Rightarrow>
          if \<not> ge_no_whitespace e then r
          else if list_ex pins_grammar (containers p) then r
          else if list_ex (\<lambda>c. is_json_schema (jget c rf_key)) (containers p) then r
          else if \<not> list_ex (\<lambda>c. is_bare_json_object (jget c rf_key)) (containers p) then r
          else (with_payload (drop_bare_formats p) r)\<lparr>gu_stripped := True\<rparr>
      | _ \<Rightarrow> r)"

subsection \<open>A schema as a forced tool call\<close>

definition tool_name_char :: "char \<Rightarrow> bool" where
  "tool_name_char c \<longleftrightarrow> ascii_alpha c \<or> ascii_digit c \<or> c = CHR ''_'' \<or> c = CHR ''-''"

definition trim_underscores :: "string \<Rightarrow> string" where
  "trim_underscores s = rev (dropWhile (\<lambda>c. c = CHR ''_'') (rev (dropWhile (\<lambda>c. c = CHR ''_'') s)))"

definition forced_tool_name :: "json \<Rightarrow> string" where
  "forced_tool_name v =
     (let cleaned = trim_underscores (take 64 (map (\<lambda>c. if tool_name_char c then c else CHR ''_'') (py_str (or_empty v))))
      in if cleaned = [] then ''structured_response'' else cleaned)"

definition json_schema_response_format :: "json \<Rightarrow> (payload \<times> payload) option" where
  "json_schema_response_format v = (case v of
     JObj rf \<Rightarrow>
       if py_strip (format_type rf) \<noteq> ''json_schema'' then None
       else (case jget rf ''json_schema'' of
         JObj js \<Rightarrow> (case jget js ''schema'' of
            JObj schema \<Rightarrow> if schema \<noteq> [] \<and> py_str (or_empty (jget schema ''type'')) = ''object''
                            then Some (js, schema) else None
          | _ \<Rightarrow> None)
       | _ \<Rightarrow> None)
   | _ \<Rightarrow> None)"

text \<open>The block to translate, the schema in it, and the payload without that \<^verbatim>\<open>response_format\<close>.\<close>

definition schema_target :: "payload \<Rightarrow> (payload \<times> payload \<times> payload) option" where
  "schema_target p = (case json_schema_response_format (jget p rf_key) of
     Some (js, schema) \<Rightarrow> Some (js, schema, od_del rf_key p)
   | None \<Rightarrow> (case extra_body p of
       Some eb \<Rightarrow> (case json_schema_response_format (jget eb rf_key) of
          Some (js, schema) \<Rightarrow> Some (js, schema, put_extra (od_del rf_key eb) p)
        | None \<Rightarrow> None)
     | None \<Rightarrow> None))"

definition forced_function :: "string \<Rightarrow> payload \<Rightarrow> payload \<Rightarrow> payload" where
  "forced_function name js schema =
     [(''name'', JStr name), (''parameters'', JObj schema)] @
     (case jget js ''description'' of
        JStr d \<Rightarrow> if py_strip d \<noteq> [] then [(''description'', JStr d)] else []
      | _ \<Rightarrow> [])"

definition function_ref :: "payload \<Rightarrow> json" where
  "function_ref f = JObj [(''type'', JStr ''function''), (''function'', JObj f)]"

definition with_forced_tool :: "string \<Rightarrow> payload \<Rightarrow> payload \<Rightarrow> payload \<Rightarrow> payload" where
  "with_forced_tool name js schema q =
     od_put ''tool_choice'' (function_ref [(''name'', JStr name)])
       (od_put ''tools'' (JList [function_ref (forced_function name js schema)]) q)"

definition declares_tools :: "payload \<Rightarrow> bool" where
  "declares_tools c \<longleftrightarrow> truthy (jget c ''tools'') \<or> truthy (jget c ''tool_choice'')"

definition apply_forced_tool_schema :: "guard_endpoint option \<Rightarrow> chat_request \<Rightarrow> chat_request" where
  "apply_forced_tool_schema ep r =
     (case (chat_payload r, ep) of
        (Some p, Some e) \<Rightarrow>
          if gu_stream r then r
          else if ''response_format'' \<notin> set (ge_not_implemented e) then r
          else if list_ex pins_grammar (containers p) then r
          else if list_ex declares_tools (containers p) then r
          else (case schema_target p of None \<Rightarrow> r
            | Some (js, schema, q) \<Rightarrow>
                let name = forced_tool_name (jget js ''name'') in
                (with_payload (with_forced_tool name js schema q) r)\<lparr>gu_schema := Some schema, gu_tool := name\<rparr>)
      | _ \<Rightarrow> r)"

subsection \<open>The thinking opt-in\<close>

text \<open>\<^verbatim>\<open>(rf.get("json_schema") or {}).get("schema")\<close>, which raises on a value that is neither an object nor
  false.\<close>

definition get_or_empty :: "json \<Rightarrow> string \<Rightarrow> json py" where
  "get_or_empty v k = (case v of JObj d \<Rightarrow> Inr (jget d k)
     | _ \<Rightarrow> if truthy v then Inl AttributeError else Inr JNull)"

definition constraint_grammar :: "payload \<Rightarrow> string option" where
  "constraint_grammar p = (case extract_grammar p of Some (g, _) \<Rightarrow> Some g
     | None \<Rightarrow> (case jget p ''structured_outputs'' of
         JObj so \<Rightarrow> (case jget so ''grammar'' of JStr g \<Rightarrow> Some g | _ \<Rightarrow> None) | _ \<Rightarrow> None))"

definition live_grammar :: "payload \<Rightarrow> string option" where
  "live_grammar p = (case constraint_grammar p of Some g \<Rightarrow> if py_strip g \<noteq> [] then Some g else None | None \<Rightarrow> None)"

definition thinking_allowed_keys :: "payload \<Rightarrow> string list py" where
  "thinking_allowed_keys p = (case live_grammar p of
     Some g \<Rightarrow> Inr (root_object_keys g)
   | None \<Rightarrow> (case jget p rf_key of
       JObj rf \<Rightarrow>
         if jget rf ''type'' = JStr ''json_schema''
         then py_bind (get_or_empty (jget rf ''json_schema'') ''schema'') (\<lambda>sch.
              py_bind (get_or_empty sch ''properties'') (\<lambda>props.
              Inr (case props of JObj ps \<Rightarrow> od_keys ps | _ \<Rightarrow> [])))
         else Inr []
     | _ \<Rightarrow> Inr []))"

text \<open>The opt-in is a control field of the proxy: it is read and removed, wherever it stands.\<close>

definition thinking_wish :: "payload \<Rightarrow> json" where
  "thinking_wish p = (let want = jget p ''thinking'' in
     case extra_body p of Some eb \<Rightarrow> if truthy want then want else jget eb ''thinking'' | None \<Rightarrow> want)"

definition without_wish :: "payload \<Rightarrow> payload" where
  "without_wish p = od_del ''thinking''
     (case extra_body p of Some eb \<Rightarrow> put_extra (od_del ''thinking'' eb) p | None \<Rightarrow> p)"

definition head_room :: "int \<Rightarrow> json \<Rightarrow> int" where
  "head_room most want = (case want of JInt n \<Rightarrow> if 0 < n then min n most else most | _ \<Rightarrow> most)"

definition think_kwargs :: "guard_endpoint \<Rightarrow> payload \<Rightarrow> payload \<times> payload" where
  "think_kwargs e p =
     (let ck = foldl (\<lambda>ck k. od_put k (JBool True) ck) (kwargs_of p) (ge_switches e);
          declared = (if ge_effort e \<noteq> [] then ge_effort e else ge_switchless_effort e)
      in if declared = [] then (p, ck)
         else (case fold_caller_effort p ck [] of (p', ck', outcome) \<Rightarrow>
                 (p', if takes_default outcome then od_put effort_key (JStr declared) ck' else ck')))"

definition think_payload :: "guard_flags \<Rightarrow> guard_endpoint \<Rightarrow> json \<Rightarrow> payload \<Rightarrow> payload" where
  "think_payload f e want p =
     (case think_kwargs e p of (p', ck) \<Rightarrow>
        let room = head_room (declared_or (ge_think_budget e) (gf_think_budget f)) want;
            base = (case positive_int (jget p' ''max_tokens'') of Some n \<Rightarrow> n | None \<Rightarrow> 800)
        in od_put ''max_tokens'' (JInt (base + room)) (od_put ctk (JObj ck) p'))"

definition switch_known :: "guard_endpoint option \<Rightarrow> bool" where
  "switch_known ep = (case ep of Some e \<Rightarrow> ge_switches e \<noteq> [] \<or> ge_switchless_effort e \<noteq> [] | None \<Rightarrow> False)"

definition apply_thinking ::
    "guard_flags \<Rightarrow> guard_endpoint option \<Rightarrow> chat_request \<Rightarrow> guard_state \<Rightarrow> (chat_request \<times> guard_state) py" where
  "apply_thinking f ep r s =
     (case gu_payload r of
        JObj p \<Rightarrow>
          (let want = thinking_wish p; p = without_wish p; r = with_payload p r in
           if \<not> truthy want \<or> gu_type r \<noteq> ''chat_completion'' then Inr (r, s)
           else if \<not> gf_thinking_enabled f then Inr (r, s)
           else if \<not> switch_known ep then Inr (r, s)
           else let p = think_payload f (the ep) want p; r = with_payload p r in
                if gu_stream r then Inr (r, s)
                else py_bind (thinking_allowed_keys p) (\<lambda>ks.
                       Inr (r, s\<lparr>gs_active := od_put (gu_id r) ks (gs_active s)\<rparr>)))
      | _ \<Rightarrow> Inr (r, s))"

subsection \<open>The map of effort words\<close>

text \<open>The first declared word the requested one agrees with, up to case and surrounding space.\<close>

definition resolve_reasoning_effort_map :: "string \<Rightarrow> (string, string) odict \<Rightarrow> string option" where
  "resolve_reasoning_effort_map v m =
     map_option snd (find (\<lambda>(k, w). py_lower (py_strip k) = py_lower (py_strip v)) m)"

definition note_remap :: "string \<Rightarrow> string \<Rightarrow> string \<Rightarrow> string \<Rightarrow> guard_state \<Rightarrow> guard_state" where
  "note_remap endpoint agent requested sent s =
     (let key = endpoint @ ''|'' @ requested @ ''->'' @ sent;
          row = od_get_or \<lparr>rm_endpoint = endpoint, rm_from = requested,
                  rm_to = (if sent = [] then None else Some sent), rm_count = 0\<rparr> (gs_remaps s) key;
          s = s\<lparr>gs_remaps := od_put key (row\<lparr>rm_count := rm_count row + 1\<rparr>) (gs_remaps s)\<rparr>
      in if (agent, requested) \<in> set (gs_logged s) then s
         else s\<lparr>gs_logged := (agent, requested) # gs_logged s\<rparr>)"

definition remap_one_effort_field ::
    "chat_request \<Rightarrow> (string, string) odict \<Rightarrow> payload \<Rightarrow> guard_state \<Rightarrow> payload \<times> guard_state" where
  "remap_one_effort_field r m c s = (case jget c effort_key of
     JStr requested \<Rightarrow>
       (case resolve_reasoning_effort_map requested m of
          Some w \<Rightarrow> (od_put effort_key (JStr w) c, note_remap (gu_endpoint r) (gu_agent r) requested w s)
        | None \<Rightarrow> (od_del effort_key c, note_remap (gu_endpoint r) (gu_agent r) requested [] s))
   | _ \<Rightarrow> (c, s))"

definition remap_kwargs ::
    "chat_request \<Rightarrow> (string, string) odict \<Rightarrow> payload \<Rightarrow> guard_state \<Rightarrow> payload \<times> guard_state" where
  "remap_kwargs r m p s = (case jget p ctk of
     JObj ck \<Rightarrow> (case jget ck effort_key of
        JStr _ \<Rightarrow> (case remap_one_effort_field r m ck s of (ck', s') \<Rightarrow> (od_put ctk (JObj ck') p, s'))
      | _ \<Rightarrow> (p, s))
   | _ \<Rightarrow> (p, s))"

definition apply_reasoning_effort_map ::
    "guard_endpoint option \<Rightarrow> chat_request \<Rightarrow> guard_state \<Rightarrow> chat_request \<times> guard_state" where
  "apply_reasoning_effort_map ep r s =
     (case (chat_payload r, ep) of
        (Some p, Some e) \<Rightarrow>
          if ge_effort_map e = [] then (r, s)
          else (case remap_kwargs r (ge_effort_map e) p s of (p, s) \<Rightarrow>
                case remap_one_effort_field r (ge_effort_map e) p s of (p, s) \<Rightarrow> (with_payload p r, s))
      | _ \<Rightarrow> (r, s))"

subsection \<open>All of them, in the order of a submission\<close>

definition request_corrections ::
    "guard_flags \<Rightarrow> real \<Rightarrow> guard_endpoint option \<Rightarrow> chat_request \<Rightarrow> guard_state \<Rightarrow> (chat_request \<times> guard_state) py" where
  "request_corrections f now ep r s =
     (case canonicalize_thinking_switch now ep r s of (r, s) \<Rightarrow>
        let r = apply_forced_tool_schema ep (apply_json_object_guard ep (apply_forced_reasoning_budget f ep r)) in
        py_bind (apply_thinking f ep r s) (\<lambda>(r, s). Inr (apply_reasoning_effort_map ep r s)))"

subsection \<open>What the response side asks of the request\<close>

definition extract_declared_schema :: "payload \<Rightarrow> payload option py" where
  "extract_declared_schema p = foldr (\<lambda>c rest.
      py_bind (case jget c rf_key of
          JObj rf \<Rightarrow> if jget rf ''type'' = JStr ''json_schema''
                      then py_bind (get_or_empty (jget rf ''json_schema'') ''schema'')
                             (\<lambda>v. Inr (case v of JObj sch \<Rightarrow> Some sch | _ \<Rightarrow> None))
                      else Inr None
        | _ \<Rightarrow> Inr None)
        (\<lambda>found. case found of Some sch \<Rightarrow> Inr (Some sch)
          | None \<Rightarrow> (case jget c ''guided_json'' of JObj gj \<Rightarrow> Inr (Some gj) | _ \<Rightarrow> rest)))
      (containers p) (Inr None)"

definition declared_schema :: "chat_request \<Rightarrow> payload option py" where
  "declared_schema r = (case gu_schema r of Some sch \<Rightarrow> Inr (Some sch)
     | None \<Rightarrow> extract_declared_schema (case gu_payload r of JObj p \<Rightarrow> p | _ \<Rightarrow> []))"

definition extra_constraint_keys :: "string list" where
  "extra_constraint_keys = [''response_format'', ''structured_outputs'', ''guided_grammar'', ''guided_json'', ''guided_choice'']"

definition looks_structured :: "payload \<Rightarrow> bool" where
  "looks_structured p \<longleftrightarrow> extract_grammar p \<noteq> None \<or> truthy (jget p rf_key) \<or> truthy (jget p ''structured_outputs'') \<or>
     (case extra_body p of Some eb \<Rightarrow> list_ex (\<lambda>k. truthy (jget eb k)) extra_constraint_keys | None \<Rightarrow> False)"

definition request_is_structured :: "chat_request \<Rightarrow> bool" where
  "request_is_structured r = (case chat_payload r of None \<Rightarrow> False
     | Some p \<Rightarrow> gu_stripped r \<or> gu_schema r \<noteq> None \<or> looks_structured p)"

definition format_implies_json :: "payload \<Rightarrow> bool" where
  "format_implies_json c \<longleftrightarrow>
     (case jget c rf_key of JObj rf \<Rightarrow> jget rf ''type'' \<in> {JStr ''json_object'', JStr ''json_schema''} | _ \<Rightarrow> False) \<or>
     (case jget c ''guided_json'' of JObj _ \<Rightarrow> True | _ \<Rightarrow> False)"

definition implies_json :: "payload \<Rightarrow> bool" where
  "implies_json p \<longleftrightarrow> list_ex format_implies_json (containers p) \<or>
     (case live_grammar p of Some g \<Rightarrow> root_object_keys g \<noteq> [] | None \<Rightarrow> False)"

definition request_expects_json :: "chat_request \<Rightarrow> bool" where
  "request_expects_json r = (case chat_payload r of None \<Rightarrow> False
     | Some p \<Rightarrow> gu_stripped r \<or> gu_schema r \<noteq> None \<or> implies_json p)"


subsection \<open>Requests and endpoints for the examples\<close>

definition guard_demo_request :: chat_request where
  "guard_demo_request = \<lparr>gu_payload = JObj [(''model'', JStr ''m''), (rf_key, JObj [(''type'', JStr ''json_object'')])],
     gu_type = ''chat_completion'', gu_stream = False, gu_id = ''r1'', gu_endpoint = ''tier3'', gu_agent = ''bot'', gu_site = ''critic'',
     gu_stripped = False, gu_schema = None, gu_tool = []\<rparr>"

definition guard_demo_endpoint :: guard_endpoint where
  "guard_demo_endpoint = \<lparr>ge_label = ''tier3'', ge_forces_reasoning = False, ge_effort = [], ge_switches = [''thinking''],
     ge_switchless_effort = [], ge_forced_budget = 0, ge_think_budget = 0, ge_effort_map = [], ge_no_whitespace = True,
     ge_not_implemented = []\<rparr>"

text \<open>A model with no switch and three rungs.\<close>

definition guard_demo_glm :: guard_endpoint where
  "guard_demo_glm = guard_demo_endpoint\<lparr>ge_switches := [], ge_switchless_effort := ''low'', ge_no_whitespace := False,
     ge_effort_map := [(''medium'', ''high''), (''low'', ''low'')]\<rparr>"

definition guard_demo_forced :: guard_endpoint where
  "guard_demo_forced = guard_demo_endpoint\<lparr>ge_forces_reasoning := True, ge_effort := ''low'', ge_no_whitespace := False\<rparr>"

definition guard_demo_flags :: guard_flags where
  "guard_demo_flags = \<lparr>gf_thinking_enabled = True, gf_think_budget = 8000, gf_forced_budget = 1536\<rparr>"

definition guard_demo_state :: guard_state where
  "guard_demo_state = \<lparr>gs_think = new_think_stats, gs_active = [], gs_remaps = [], gs_logged = []\<rparr>"

subsection \<open>Lemmas: what a rewrite leaves alone\<close>

text \<open>Of the two containers, every key but the ones a reasoning or tool rewrite may write.\<close>

definition rewrite_keys :: "string set" where
  "rewrite_keys = {ctk, effort_key, ''reasoning'', ''max_tokens'', ''thinking'', ''tools'', ''tool_choice''}"

lemmas rewrite_key_simps = rewrite_keys_def ctk_def effort_key_def

lemma is_rewrite_key [simp]:
  "ctk \<in> rewrite_keys" "effort_key \<in> rewrite_keys" "''max_tokens'' \<in> rewrite_keys" "''tools'' \<in> rewrite_keys"
  "''tool_choice'' \<in> rewrite_keys" "''thinking'' \<in> rewrite_keys"
  by (simp_all add: rewrite_keys_def)

abbreviation kept_outside :: "payload \<Rightarrow> payload \<Rightarrow> bool" where
  "kept_outside p q \<equiv> same_outside rewrite_keys (JObj p) (JObj q)"

lemma kept_outside_refl [simp]: "kept_outside p p"
  by (auto simp: same_outside_def split: json.split)

lemma kept_outside_trans: "kept_outside p q \<Longrightarrow> kept_outside q q' \<Longrightarrow> kept_outside p q'"
  by (auto simp: same_outside_def split: json.splits)

lemma kept_outside_local:
  "(\<And>k. k \<notin> rewrite_keys \<Longrightarrow> jget q k = jget p k) \<Longrightarrow> kept_outside p q"
  by (auto simp: same_outside_def rewrite_key_simps split: json.splits)

lemma kept_outside_extra:
  assumes "extra_body p = Some eb" "\<And>k. k \<notin> rewrite_keys \<Longrightarrow> jget eb' k = jget eb k"
    "\<And>k. k \<notin> rewrite_keys \<Longrightarrow> k \<noteq> ''extra_body'' \<Longrightarrow> jget q k = jget p k" "jget q ''extra_body'' = JObj eb'"
  shows "kept_outside p q"
  using assms by (auto simp: same_outside_def extra_body_def split: json.splits)

lemma kept_key: "kept_outside p q \<Longrightarrow> k \<notin> rewrite_keys \<Longrightarrow> k \<noteq> ''extra_body'' \<Longrightarrow> jget q k = jget p k"
  by (simp add: same_outside_def)

lemma kept_extra:
  assumes "kept_outside p q"
  shows "case extra_body p of None \<Rightarrow> extra_body q = None
    | Some eb \<Rightarrow> \<exists>eb'. extra_body q = Some eb' \<and> (\<forall>k. k \<notin> rewrite_keys \<longrightarrow> jget eb' k = jget eb k)"
  using assms by (auto simp: same_outside_def extra_body_def split: json.splits)

definition grammar_in :: "json \<Rightarrow> string option" where
  "grammar_in v = (case v of JStr g \<Rightarrow> if py_strip g \<noteq> [] then Some g else None | _ \<Rightarrow> None)"

lemma extract_grammar_alt:
  "extract_grammar p = (case grammar_in (jget p ''grammar'') of Some g \<Rightarrow> Some (g, TopLevel)
     | None \<Rightarrow> (case extra_body p of None \<Rightarrow> None
         | Some eb \<Rightarrow> map_option (\<lambda>h. (h, InExtraBody)) (grammar_in (jget eb ''grammar''))))"
  by (cases "jget p ''extra_body''"; cases "jget p ''grammar''")
    (simp_all add: extract_grammar_def grammar_in_def extra_body_def split: json.split)

lemma structured_kept:
  assumes "kept_outside p q"
  shows "looks_structured q = looks_structured p" "implies_json q = implies_json p"
proof -
  have k: "jget q ''grammar'' = jget p ''grammar''" "jget q rf_key = jget p rf_key"
      "jget q ''structured_outputs'' = jget p ''structured_outputs''" "jget q ''guided_json'' = jget p ''guided_json''"
    by (rule kept_key[OF assms]; simp add: rewrite_key_simps rf_key_def)+
  have e: "case extra_body p of None \<Rightarrow> extra_body q = None | Some eb \<Rightarrow> \<exists>eb'. extra_body q = Some eb' \<and>
      (\<forall>k \<in> {''grammar'', rf_key, ''structured_outputs'', ''guided_grammar'', ''guided_json'', ''guided_choice''}. jget eb' k = jget eb k)"
    using kept_extra[OF assms] by (fastforce simp: rewrite_key_simps rf_key_def split: option.splits)
  have g: "extract_grammar q = extract_grammar p"
    using k(1) e by (auto simp: extract_grammar_alt split: option.split)
  show "looks_structured q = looks_structured p"
    using k(2,3) e g
    by (auto simp: looks_structured_def extra_constraint_keys_def rf_key_def split: option.splits)
  have l: "live_grammar q = live_grammar p" by (simp only: live_grammar_def constraint_grammar_def g k(3))
  show "implies_json q = implies_json p"
    using k(2,4) e l
    by (auto simp: implies_json_def containers_def format_implies_json_def split: option.splits)
qed

subsection \<open>Lemmas: one step at a time\<close>

lemma drop_aliases_kept: "kept_outside p (drop_effort_aliases p)"
  by (rule kept_outside_local) (auto simp: drop_effort_aliases_def drop_nested_effort_def rewrite_key_simps split: json.split)

lemma fold_caller_effort_kept: "fold_caller_effort p ck ks = (p', ck', e) \<Longrightarrow> kept_outside p p'"
  using drop_aliases_kept by (auto simp: fold_caller_effort_def split: if_splits list.splits)

lemma kept_put: "k \<in> rewrite_keys \<Longrightarrow> kept_outside p q \<Longrightarrow> kept_outside p (od_put k v q)"
  by (erule kept_outside_trans, rule kept_outside_local) auto

lemma kept_del: "k \<in> rewrite_keys \<Longrightarrow> kept_outside p q \<Longrightarrow> kept_outside p (od_del k q)"
  by (erule kept_outside_trans, rule kept_outside_local) auto

lemma inject_effort_kept: "kept_outside p (inject_effort d ks p)"
  by (auto simp: inject_effort_def Let_def intro!: kept_put intro: fold_caller_effort_kept split: prod.split)

lemma pad_tokens_kept: "kept_outside p (pad_tokens n p)"
  by (auto simp: pad_tokens_def intro!: kept_put split: option.split)

lemma without_wish_kept: "kept_outside p (without_wish p)"
proof (cases "extra_body p")
  case None
  then show ?thesis by (simp add: without_wish_def kept_del)
next
  case (Some eb)
  then show ?thesis
    by (intro kept_outside_extra[OF Some, of "od_del ''thinking'' eb"]) (auto simp: without_wish_def put_extra_def rewrite_key_simps)
qed

lemma think_payload_kept: "kept_outside p (think_payload f e want p)"
proof -
  obtain p' ck where k: "think_kwargs e p = (p', ck)" by force
  then have "kept_outside p p'"
    by (auto simp: think_kwargs_def Let_def intro: fold_caller_effort_kept split: if_splits prod.splits)
  then show ?thesis by (auto simp: think_payload_def k Let_def intro!: kept_put)
qed

lemma remap_field_kept: "remap_one_effort_field r m p s = (p', s') \<Longrightarrow> kept_outside p p'"
  by (auto simp: remap_one_effort_field_def intro!: kept_put kept_del split: json.splits option.splits)

lemma remap_kwargs_kept: "remap_kwargs r m p s = (p', s') \<Longrightarrow> kept_outside p p'"
  by (auto simp: remap_kwargs_def intro!: kept_put split: json.splits prod.splits)

lemma rename_container_kept:
  "rename_container pre ks c = (c', f) \<Longrightarrow> k \<noteq> ctk \<Longrightarrow> jget c' k = jget c k"
  by (auto simp: rename_container_def Let_def split: json.splits if_splits prod.splits)

lemma rename_switch_kept:
  assumes "rename_thinking_switch (JObj p) ks = (q, f)"
  shows "\<exists>p'. q = JObj p' \<and> kept_outside p p'"
proof (cases "ks = []")
  case True
  then show ?thesis using assms by (auto simp: rename_thinking_switch_def)
next
  case False
  obtain c1 f1 where c1: "rename_container [] ks p = (c1, f1)" by force
  have k1: "jget c1 k = jget p k" if "k \<notin> rewrite_keys" for k
    using rename_container_kept[OF c1, of k] that by (auto simp: rewrite_keys_def)
  have l1: "kept_outside p c1" using k1 by (rule kept_outside_local)
  have xb: "jget c1 ''extra_body'' = jget p ''extra_body''" using k1 by (simp add: rewrite_key_simps)
  show ?thesis
  proof (cases "extra_body p")
    case None
    then show ?thesis using assms False c1 l1 xb by (auto simp: rename_thinking_switch_def extra_body_def split: json.splits)
  next
    case (Some eb)
    obtain nb f2 where c2: "rename_container ''extra_body.'' ks eb = (nb, f2)" by force
    have "kept_outside p (od_put ''extra_body'' (JObj nb) c1)"
    proof (rule kept_outside_extra[OF Some, of nb])
      show "jget nb k = jget eb k" if "k \<notin> rewrite_keys" for k
        using rename_container_kept[OF c2, of k] that by (auto simp: rewrite_keys_def)
    qed (use k1 in auto)
    then show ?thesis using assms False c1 c2 l1 xb Some
      by (auto simp: rename_thinking_switch_def extra_body_def split: json.splits if_splits)
  qed
qed


subsection \<open>No rewrite disarms a response gate\<close>

definition same_request :: "chat_request \<Rightarrow> chat_request \<Rightarrow> bool" where
  "same_request r r' \<longleftrightarrow> gu_type r' = gu_type r \<and> gu_stream r' = gu_stream r \<and> gu_id r' = gu_id r \<and>
     gu_endpoint r' = gu_endpoint r \<and> gu_agent r' = gu_agent r \<and> gu_site r' = gu_site r"

text \<open>A step keeps the gates if it keeps the request, and the answer both predicates give; a request
  that was JSON may also become JSON by the proxy's own mark.\<close>

definition keeps_gates :: "chat_request \<Rightarrow> chat_request \<Rightarrow> bool" where
  "keeps_gates r r' \<longleftrightarrow> same_request r r' \<and> request_is_structured r' = request_is_structured r \<and>
     (request_expects_json r \<longrightarrow> request_expects_json r')"

lemma keeps_gates_refl [simp]: "keeps_gates r r"
  by (simp add: keeps_gates_def same_request_def)

lemma keeps_gates_trans [trans]: "keeps_gates a b \<Longrightarrow> keeps_gates b c \<Longrightarrow> keeps_gates a c"
  by (simp add: keeps_gates_def same_request_def)

lemma chat_payload_iff: "chat_payload r = Some p \<longleftrightarrow> gu_payload r = JObj p \<and> gu_type r = ''chat_completion''"
  by (auto simp: chat_payload_def split: json.splits)

lemma chat_payload_with [simp]: "chat_payload r = Some p \<Longrightarrow> chat_payload (with_payload q r) = Some q"
  by (simp add: chat_payload_iff with_payload_def)

lemma keeps_gates_payload:
  assumes "gu_payload r = JObj p" "kept_outside p q"
  shows "keeps_gates r (r\<lparr>gu_payload := JObj q\<rparr>)"
  using assms structured_kept[OF assms(2)]
  by (simp add: keeps_gates_def same_request_def request_is_structured_def request_expects_json_def chat_payload_def)

lemma keeps_gates_flagged:
  assumes "chat_payload r = Some p" "request_is_structured r" "same_request r r'" "chat_payload r' = Some q"
    "gu_stripped r' \<or> gu_schema r' \<noteq> None"
  shows "keeps_gates r r'"
  using assms by (auto simp: keeps_gates_def request_is_structured_def request_expects_json_def)

lemma structured_by_payload: "chat_payload r = Some p \<Longrightarrow> looks_structured p \<Longrightarrow> request_is_structured r"
  by (simp add: request_is_structured_def)

lemma format_structured:
  assumes "c \<in> set (containers p)" "truthy (jget c rf_key)"
  shows "looks_structured p"
  using assms by (auto simp: looks_structured_def containers_def extra_constraint_keys_def rf_key_def split: option.splits)

lemma bare_truthy: "is_bare_json_object v \<Longrightarrow> truthy v"
  by (auto simp: is_bare_json_object_def format_type_def or_empty_def py_str_def py_strip_def split: json.splits)

lemma schema_format_truthy: "json_schema_response_format v = Some x \<Longrightarrow> truthy v"
  by (auto simp: json_schema_response_format_def split: json.splits if_splits)

lemma schema_target_structured: "schema_target p = Some x \<Longrightarrow> looks_structured p"
  by (rule format_structured[of "if json_schema_response_format (jget p rf_key) = None then the (extra_body p) else p"])
    (auto simp: schema_target_def containers_def intro: schema_format_truthy split: option.splits prod.splits)

lemma json_object_guard_keeps: "keeps_gates r (apply_json_object_guard ep r)"
proof (cases "apply_json_object_guard ep r = r")
  case False
  then obtain p e where p: "chat_payload r = Some p" "ep = Some e"
    by (auto simp: apply_json_object_guard_def split: option.splits)
  then have g: "apply_json_object_guard ep r = (with_payload (drop_bare_formats p) r)\<lparr>gu_stripped := True\<rparr>"
    and b: "list_ex (\<lambda>c. is_bare_json_object (jget c rf_key)) (containers p)"
    using False by (auto simp: apply_json_object_guard_def split: if_splits)
  have "looks_structured p" using b bare_truthy format_structured by (auto simp: list_ex_iff)
  then have "request_is_structured r" by (rule structured_by_payload[OF p(1)])
  then show ?thesis using p(1) unfolding g
    by (intro keeps_gates_flagged[OF p(1)]) (auto simp: same_request_def with_payload_def chat_payload_iff)
qed simp

lemma forced_tool_keeps: "keeps_gates r (apply_forced_tool_schema ep r)"
proof (cases "apply_forced_tool_schema ep r = r")
  case False
  then obtain p e where p: "chat_payload r = Some p" "ep = Some e"
    by (auto simp: apply_forced_tool_schema_def split: option.splits)
  then obtain js sch q where t: "schema_target p = Some (js, sch, q)"
    using False by (auto simp: apply_forced_tool_schema_def split: if_splits option.splits)
  then have "request_is_structured r" using structured_by_payload[OF p(1)] schema_target_structured by blast
  moreover have "apply_forced_tool_schema ep r = (let name = forced_tool_name (jget js ''name'') in
      (with_payload (with_forced_tool name js sch q) r)\<lparr>gu_schema := Some sch, gu_tool := name\<rparr>)"
    using False p t by (auto simp: apply_forced_tool_schema_def split: if_splits)
  ultimately show ?thesis using p(1)
    by (intro keeps_gates_flagged[OF p(1)]) (auto simp: Let_def same_request_def with_payload_def chat_payload_iff)
qed simp

lemma forced_budget_keeps: "keeps_gates r (apply_forced_reasoning_budget f ep r)"
  by (auto simp: apply_forced_reasoning_budget_def with_payload_def chat_payload_iff Let_def
      intro!: keeps_gates_payload intro: kept_outside_trans[OF inject_effort_kept pad_tokens_kept] pad_tokens_kept split: option.split)

lemma canonicalize_keeps: "canonicalize_thinking_switch now ep r s = (r', s') \<Longrightarrow> keeps_gates r r'"
  by (auto simp: canonicalize_thinking_switch_def chat_payload_iff dest!: rename_switch_kept intro: keeps_gates_payload
      split: option.splits if_splits prod.splits)

lemma apply_thinking_keeps:
  assumes "apply_thinking f ep r s = Inr (r', s')"
  shows "keeps_gates r r'"
proof (cases "\<exists>p. gu_payload r = JObj p")
  case True
  then obtain p where p: "gu_payload r = JObj p" by blast
  have "\<exists>q. r' = r\<lparr>gu_payload := JObj q\<rparr> \<and> kept_outside p q"
    using assms p without_wish_kept[of p] kept_outside_trans[OF without_wish_kept[of p] think_payload_kept]
    by (auto simp: apply_thinking_def with_payload_def Let_def py_bind_def split: if_splits sum.splits)
  then show ?thesis using p keeps_gates_payload by blast
next
  case False
  then show ?thesis using assms by (auto simp: apply_thinking_def split: json.splits)
qed

lemma effort_map_keeps: "apply_reasoning_effort_map ep r s = (r', s') \<Longrightarrow> keeps_gates r r'"
  by (auto simp: apply_reasoning_effort_map_def with_payload_def chat_payload_iff intro!: keeps_gates_payload
      dest!: remap_kwargs_kept remap_field_kept intro: kept_outside_trans split: option.splits if_splits prod.splits)

lemma request_corrections_keep_gates:
  assumes "request_corrections f now ep r s = Inr (r', s')"
  shows "keeps_gates r r'"
proof -
  obtain r1 s1 where 1: "canonicalize_thinking_switch now ep r s = (r1, s1)" by force
  define r4 where "r4 = apply_forced_tool_schema ep (apply_json_object_guard ep (apply_forced_reasoning_budget f ep r1))"
  obtain r5 s5 where 5: "apply_thinking f ep r4 s1 = Inr (r5, s5)" "apply_reasoning_effort_map ep r5 s5 = (r', s')"
    using assms 1 by (auto simp: request_corrections_def r4_def py_bind_def split: sum.splits)
  have "keeps_gates r r1" using 1 by (rule canonicalize_keeps)
  also have "keeps_gates r1 (apply_forced_reasoning_budget f ep r1)" by (rule forced_budget_keeps)
  also have "keeps_gates \<dots> (apply_json_object_guard ep (apply_forced_reasoning_budget f ep r1))" by (rule json_object_guard_keeps)
  also have "keeps_gates \<dots> r4" unfolding r4_def by (rule forced_tool_keeps)
  also have "keeps_gates r4 r5" using 5(1) by (rule apply_thinking_keeps)
  also have "keeps_gates r5 r'" using 5(2) by (rule effort_map_keeps)
  finally show ?thesis .
qed

text \<open>No correction of a request disarms a gate on its response. Whatever the proxy rewrites on
  the way to the backend, the request stays structured exactly if the caller's payload was (so a cut
  answer is still an error), and one whose answer had to be JSON still has to be JSON.\<close>

theorem rewrites_keep_gates:
  assumes "request_corrections f now ep r s = Inr (r', s')"
  shows "request_is_structured r' = request_is_structured r \<and> (request_expects_json r \<longrightarrow> request_expects_json r')"
  using request_corrections_keep_gates [OF assms] by (simp add: keeps_gates_def)

lemma rewrites_keep_gates_witness:
  "\<exists>r s. request_corrections guard_demo_flags 0 (Some guard_demo_endpoint) guard_demo_request guard_demo_state = Inr (r, s) \<and>
     gu_payload r = JObj [(''model'', JStr ''m'')] \<and> request_is_structured r \<and> request_expects_json r"
proof -
  let ?r = "guard_demo_request\<lparr>gu_payload := JObj [(''model'', JStr ''m'')], gu_stripped := True\<rparr>"
  have c: "request_corrections guard_demo_flags 0 (Some guard_demo_endpoint) guard_demo_request guard_demo_state = Inr (?r, guard_demo_state)"
    by code_simp
  have "request_is_structured guard_demo_request \<and> request_expects_json guard_demo_request" by code_simp
  then have "request_is_structured ?r \<and> request_expects_json ?r" using rewrites_keep_gates[OF c] by blast
  then show ?thesis using c by auto
qed

subsection \<open>The effort that reaches the backend\<close>

text \<open>A text is one of the declared words; a value that is not a text is not looked at.\<close>

definition word_declared :: "(string, string) odict \<Rightarrow> json \<Rightarrow> bool" where
  "word_declared m v = (case v of JStr w \<Rightarrow> w \<in> set (od_vals m) | _ \<Rightarrow> True)"

lemma resolve_in_map: "resolve_reasoning_effort_map v m = Some w \<Longrightarrow> w \<in> set (od_vals m)"
  by (auto simp: resolve_reasoning_effort_map_def find_Some_iff) (metis image_eqI nth_mem snd_conv)

lemma remap_field_maps:
  "remap_one_effort_field r m c s = (c', s') \<Longrightarrow>
     word_declared m (jget c' effort_key) \<and> (\<forall>k. k \<noteq> effort_key \<longrightarrow> jget c' k = jget c k)"
  by (auto simp: remap_one_effort_field_def word_declared_def dest: resolve_in_map split: json.splits option.splits)

lemma remap_kwargs_maps:
  "remap_kwargs r m p s = (p', s') \<Longrightarrow> word_declared m (jget (kwargs_of p') effort_key)"
  by (auto simp: remap_kwargs_def kwargs_of_def word_declared_def dest!: remap_field_maps split: json.splits prod.splits)

text \<open>C20: on an endpoint with an effort map, no other word reaches the backend: in the payload a
  request leaves with, a text in the effort field at the top level or in the one among the template
  arguments is a word the operator declared, whatever the caller, the endpoint's default or a
  thinking opt-in had put there; a word the map does not know is removed. A value that is not a text
  is neither mapped nor removed (\<open>numeric_effort_passes\<close>).\<close>

theorem effort_is_declared:
  assumes "request_corrections f now (Some e) r s = Inr (r', s')" "ge_effort_map e \<noteq> []" "chat_payload r' = Some p"
  shows "word_declared (ge_effort_map e) (jget p effort_key) \<and> word_declared (ge_effort_map e) (jget (kwargs_of p) effort_key)"
proof -
  obtain r5 s5 where 5: "apply_reasoning_effort_map (Some e) r5 s5 = (r', s')"
    using assms(1) by (auto simp: request_corrections_def py_bind_def Let_def split: sum.splits prod.splits)
  show ?thesis
  proof (cases "chat_payload r5")
    case None
    then show ?thesis using 5 assms(3) by (simp add: apply_reasoning_effort_map_def)
  next
    case (Some q)
    obtain q1 s1 where 1: "remap_kwargs r5 (ge_effort_map e) q s5 = (q1, s1)" by force
    obtain q2 s2 where 2: "remap_one_effort_field r5 (ge_effort_map e) q1 s1 = (q2, s2)" by force
    have p: "p = q2" using 5 1 2 assms(2,3) Some by (auto simp: apply_reasoning_effort_map_def with_payload_def chat_payload_iff)
    have "kwargs_of q2 = kwargs_of q1" using remap_field_maps[OF 2] by (simp add: kwargs_of_def ctk_def effort_key_def)
    then show ?thesis using remap_kwargs_maps[OF 1] remap_field_maps[OF 2] p by simp
  qed
qed

lemma effort_is_declared_witness:
  "\<exists>r s p. request_corrections guard_demo_flags 0 (Some guard_demo_glm)
       (guard_demo_request\<lparr>gu_payload := JObj [(effort_key, JStr '' Medium'')]\<rparr>) guard_demo_state = Inr (r, s) \<and>
     chat_payload r = Some p \<and> jget p effort_key = JStr ''high'' \<and> word_declared [(''medium'', ''high''), (''low'', ''low'')] (jget p effort_key)"
proof -
  let ?q = "guard_demo_request\<lparr>gu_payload := JObj [(effort_key, JStr '' Medium'')]\<rparr>"
  let ?r = "guard_demo_request\<lparr>gu_payload := JObj [(effort_key, JStr ''high'')]\<rparr>"
  let ?s = "note_remap ''tier3'' ''bot'' '' Medium'' ''high'' guard_demo_state"
  have c: "request_corrections guard_demo_flags 0 (Some guard_demo_glm) ?q guard_demo_state = Inr (?r, ?s)" by code_simp
  have p: "chat_payload ?r = Some [(effort_key, JStr ''high'')]" by code_simp
  have m: "ge_effort_map guard_demo_glm = [(''medium'', ''high''), (''low'', ''low'')]" by code_simp
  show ?thesis using c p effort_is_declared[OF c _ p] by (intro exI[of _ ?r] exI[of _ ?s]) (simp add: m)
qed

text \<open>An effort that is not a text is neither mapped nor removed.\<close>

lemma numeric_effort_passes:
  "map_sum id fst (request_corrections guard_demo_flags 0 (Some guard_demo_glm)
       (guard_demo_request\<lparr>gu_payload := JObj [(effort_key, JInt 9)]\<rparr>) guard_demo_state) =
     Inr (guard_demo_request\<lparr>gu_payload := JObj [(effort_key, JInt 9)]\<rparr>)"
  by code_simp

text \<open>A declared effort does not bind the third spelling: the effort inside the \<^verbatim>\<open>reasoning\<close> object is
  folded only where a default is injected, and the map does not read it.\<close>

lemma nested_effort_escapes_the_map:
  "map_sum id fst (request_corrections guard_demo_flags 0 (Some guard_demo_glm)
       (guard_demo_request\<lparr>gu_payload := JObj [(''reasoning'', JObj [(''effort'', JStr ''extreme'')])]\<rparr>) guard_demo_state) =
     Inr (guard_demo_request\<lparr>gu_payload := JObj [(''reasoning'', JObj [(''effort'', JStr ''extreme'')])]\<rparr>) \<and>
   resolve_reasoning_effort_map ''extreme'' (ge_effort_map guard_demo_glm) = None"
  by code_simp


lemma get_set_defaults:
  "od_get (foldl (set_default v) ck ks) k =
     (case od_get ck k of Some x \<Rightarrow> Some x | None \<Rightarrow> if k \<in> set ks then Some v else None)"
proof (induction ks arbitrary: ck)
  case (Cons a ks)
  have "od_get (set_default v ck a) k = (case od_get ck k of Some x \<Rightarrow> Some x | None \<Rightarrow> if k = a then Some v else None)"
    using od_get_None_iff[of ck a] by (auto simp: set_default_def split: option.splits)
  then show ?case using Cons.IH[of "set_default v ck a"] by (auto split: option.splits)
qed (simp split: option.split)

lemma jget_set_defaults:
  "jget (foldl (set_default v) ck ks) k = (if k \<notin> set (od_keys ck) \<and> k \<in> set ks then v else jget ck k)"
  using get_set_defaults[of v ck ks k] od_get_None_iff[of ck k]
  by (auto simp: jget_def od_get_or_def split: option.splits)

lemma aliases_dropped: "caller_efforts (drop_effort_aliases p) = []"
proof -
  have "effort_word (jget (drop_effort_aliases p) effort_key) = None"
    by (auto simp: drop_effort_aliases_def drop_nested_effort_def effort_word_def effort_key_def split: json.splits)
  moreover have "effort_word (nested_effort (drop_effort_aliases p)) = None"
    by (auto simp: drop_effort_aliases_def drop_nested_effort_def effort_word_def nested_effort_def effort_key_def
        jget_filter_out[where P = "\<lambda>k. k \<noteq> ''effort''"] split: json.splits)
  ultimately show ?thesis by (simp add: caller_efforts_def List.map_filter_simps)
qed

lemma caller_efforts_put: "k \<notin> {effort_key, ''reasoning''} \<Longrightarrow> caller_efforts (od_put k v p) = caller_efforts p"
  by (auto simp: caller_efforts_def nested_effort_def)

text \<open>What a forced endpoint ends up with, given what the caller said.\<close>

definition settled_effort :: "string \<Rightarrow> string list \<Rightarrow> string" where
  "settled_effort declared said = (case said of [] \<Rightarrow> declared | e # _ \<Rightarrow> if e = ''none'' then declared else e)"

lemma pad_tokens_other: "k \<noteq> ''max_tokens'' \<Longrightarrow> jget (pad_tokens n p) k = jget p k"
  by (simp add: pad_tokens_def split: option.split)

lemma keys_set_defaults: "set (od_keys (foldl (set_default v) ck ks)) = set (od_keys ck) \<union> set ks"
  by (induction ks arbitrary: ck) (auto simp: set_default_def)

lemma inject_effort_settles:
  fixes d :: string
  assumes "effort_key \<notin> set ks" "effort_key \<notin> set (od_keys (kwargs_of p))" "length (caller_efforts p) \<le> 1"
  defines "q \<equiv> inject_effort d ks p"
  shows "caller_efforts q = [] \<and> jget (kwargs_of q) effort_key = JStr (settled_effort d (caller_efforts p)) \<and>
    (\<forall>k \<in> set ks. jget (kwargs_of q) k =
       (if k \<in> set (od_keys (kwargs_of p)) then jget (kwargs_of p) k else JBool (caller_efforts p \<noteq> [''none''])))"
proof -
  have ctk: "ctk \<notin> {effort_key, ''reasoning''}" by (simp add: ctk_def effort_key_def)
  have kw: "kwargs_of (od_put ctk (JObj ck) c) = ck" for ck c by (simp add: kwargs_of_def)
  consider "caller_efforts p = []" | e where "caller_efforts p = [e]"
    using assms(3) by (cases "caller_efforts p") auto
  then show ?thesis
  proof cases
    case 1
    then show ?thesis using assms(1,2) caller_efforts_put[OF ctk]
      by (auto simp: q_def inject_effort_def fold_caller_effort_def takes_default_def settled_effort_def kw jget_set_defaults Let_def)
  next
    case 2
    then show ?thesis using assms(1,2) caller_efforts_put[OF ctk] aliases_dropped[of p] keys_set_defaults[of "JBool False" "kwargs_of p" ks]
      by (auto simp: q_def inject_effort_def fold_caller_effort_def takes_default_def settled_effort_def kw jget_set_defaults Let_def)
  qed
qed

text \<open>C21: on an endpoint that always reasons and declares an effort and switches (none of them named as
  the effort), the caller's own effort wins and arrives under one name, when it has put no effort
  among the template arguments and has not spelled two different ones. A caller that spells it at the top level or in the \<^verbatim>\<open>reasoning\<close> object, and not among the template
  arguments, has it there alone when the request leaves; one that said nothing, or said
  \<^verbatim>\<open>none\<close>, leaves with the endpoint's effort; every declared switch is the caller's, or on, or off
  exactly if the caller said \<^verbatim>\<open>none\<close>.\<close>

theorem callers_effort_under_one_name:
  assumes "chat_payload r = Some p" "ge_forces_reasoning e" "ge_effort e \<noteq> []" "ge_switches e \<noteq> []"
    "effort_key \<notin> set (ge_switches e)" "effort_key \<notin> set (od_keys (kwargs_of p))" "length (caller_efforts p) \<le> 1"
  shows "\<exists>q. chat_payload (apply_forced_reasoning_budget f (Some e) r) = Some q \<and> caller_efforts q = [] \<and>
    jget (kwargs_of q) effort_key = JStr (settled_effort (ge_effort e) (caller_efforts p)) \<and>
    (\<forall>k \<in> set (ge_switches e). jget (kwargs_of q) k =
       (if k \<in> set (od_keys (kwargs_of p)) then jget (kwargs_of p) k else JBool (caller_efforts p \<noteq> [''none''])))"
proof -
  let ?i = "inject_effort (ge_effort e) (ge_switches e) p"
  let ?q = "pad_tokens (declared_or (ge_forced_budget e) (gf_forced_budget f)) ?i"
  have "chat_payload (apply_forced_reasoning_budget f (Some e) r) = Some ?q"
    using assms(1-4) by (simp add: apply_forced_reasoning_budget_def)
  moreover have "kwargs_of ?q = kwargs_of ?i" "caller_efforts ?q = caller_efforts ?i"
    by (simp_all add: kwargs_of_def caller_efforts_def nested_effort_def pad_tokens_other ctk_def effort_key_def)
  ultimately show ?thesis using inject_effort_settles[OF assms(5-7), of "ge_effort e"] by auto
qed

lemma callers_effort_under_one_name_witness:
  "\<exists>q. chat_payload (apply_forced_reasoning_budget guard_demo_flags (Some guard_demo_forced)
       (guard_demo_request\<lparr>gu_payload := JObj [(effort_key, JStr ''high''), (''reasoning'', JObj [(''effort'', JStr '' high'')])]\<rparr>)) = Some q \<and>
     caller_efforts q = [] \<and> jget (kwargs_of q) effort_key = JStr ''high'' \<and> jget (kwargs_of q) ''thinking'' = JBool True"
proof -
  let ?p = "[(effort_key, JStr ''high''), (''reasoning'', JObj [(''effort'', JStr '' high'')])]"
  have p: "chat_payload (guard_demo_request\<lparr>gu_payload := JObj ?p\<rparr>) = Some ?p" by code_simp
  have e: "ge_forces_reasoning guard_demo_forced" "ge_effort guard_demo_forced = ''low''" "ge_switches guard_demo_forced = [''thinking'']"
    by code_simp+
  have c: "caller_efforts ?p = [''high'']" "effort_key \<noteq> ''thinking''" "kwargs_of ?p = []" by code_simp+
  have s: "settled_effort ''low'' [''high''] = ''high''" by code_simp
  show ?thesis
    using callers_effort_under_one_name[OF p e(1), of guard_demo_flags] by (simp add: e c s)
qed


subsection \<open>The other rewrites, exactly\<close>

lemma extra_body_put_extra [simp]: "extra_body (put_extra eb p) = Some eb"
  by (simp add: extra_body_def put_extra_def)

lemma extra_body_del [simp]: "extra_body (od_del rf_key p) = extra_body p"
  by (simp add: extra_body_def rf_key_def)

lemma extra_body_del_thinking [simp]: "extra_body (od_del ''thinking'' p) = extra_body p"
  by (simp add: extra_body_def)

lemma jget_put_extra [simp]: "k \<noteq> ''extra_body'' \<Longrightarrow> jget (put_extra eb p) k = jget p k"
  by (simp add: put_extra_def)

lemma rf_key_not_extra [simp]: "rf_key \<noteq> ''extra_body''"
  by (simp add: rf_key_def)

lemma not_bare_null [simp]: "\<not> is_bare_json_object JNull"
  by (simp add: is_bare_json_object_def)

lemma bare_formats_dropped: "\<not> list_ex (\<lambda>c. is_bare_json_object (jget c rf_key)) (containers (drop_bare_formats p))"
  by (cases "extra_body p") (auto simp: containers_def drop_bare_formats_def Let_def)

lemma bare_formats_only:
  "k \<notin> {rf_key, ''extra_body''} \<Longrightarrow> jget (drop_bare_formats p) k = jget p k"
  "extra_body p = Some eb \<Longrightarrow> \<exists>eb'. extra_body (drop_bare_formats p) = Some eb' \<and> (\<forall>k. k \<noteq> rf_key \<longrightarrow> jget eb' k = jget eb k)"
  "extra_body p = None \<Longrightarrow> extra_body (drop_bare_formats p) = None"
  by (auto simp: drop_bare_formats_def Let_def split: option.split)

text \<open>On a backend that bans whitespace a bare \<^verbatim>\<open>json_object\<close> never arrives, unless the caller pinned a
  grammar or a schema beside it, and the guard changes nothing else of the payload: the other keys of
  both containers are the caller's.\<close>

theorem json_object_guard_exact:
  assumes "chat_payload r = Some p" "ge_no_whitespace e"
  obtains q where "chat_payload (apply_json_object_guard (Some e) r) = Some q"
    "list_ex pins_grammar (containers p) \<or> list_ex (\<lambda>c. is_json_schema (jget c rf_key)) (containers p) \<or>
       \<not> list_ex (\<lambda>c. is_bare_json_object (jget c rf_key)) (containers q)"
    "\<And>k. k \<notin> {rf_key, ''extra_body''} \<Longrightarrow> jget q k = jget p k"
    "\<And>eb. extra_body p = Some eb \<Longrightarrow> \<exists>eb'. extra_body q = Some eb' \<and> (\<forall>k. k \<noteq> rf_key \<longrightarrow> jget eb' k = jget eb k)"
proof (cases "list_ex pins_grammar (containers p) \<or> list_ex (\<lambda>c. is_json_schema (jget c rf_key)) (containers p) \<or>
    \<not> list_ex (\<lambda>c. is_bare_json_object (jget c rf_key)) (containers p)")
  case True
  then have "apply_json_object_guard (Some e) r = r" using assms by (auto simp: apply_json_object_guard_def)
  then show ?thesis using True assms(1) by (intro that[of p]) auto
next
  case False
  then have g: "apply_json_object_guard (Some e) r = (with_payload (drop_bare_formats p) r)\<lparr>gu_stripped := True\<rparr>"
    using assms by (simp add: apply_json_object_guard_def)
  have c: "chat_payload (r'\<lparr>gu_stripped := True\<rparr>) = chat_payload r'" for r' by (simp add: chat_payload_def cong: json.case_cong)
  show ?thesis
    using assms(1) by (intro that[of "drop_bare_formats p"])
      (auto simp: g c bare_formats_dropped bare_formats_only)
qed

text \<open>The name of a forced tool is one the wire allows: one to 64 letters, digits, hyphens and
  underscores.\<close>

lemma trim_underscores_sub: "set (trim_underscores s) \<subseteq> set s" "length (trim_underscores s) \<le> length s"
proof -
  have d: "length (dropWhile P xs) \<le> length xs" for P :: "char \<Rightarrow> bool" and xs by (rule length_dropWhile_le)
  show "set (trim_underscores s) \<subseteq> set s" by (auto simp: trim_underscores_def dest!: set_dropWhileD)
  show "length (trim_underscores s) \<le> length s"
    unfolding trim_underscores_def length_rev by (rule le_trans [OF d]) (simp add: d)
qed

lemma forced_tool_name_legal:
  "list_all tool_name_char (forced_tool_name v) \<and> forced_tool_name v \<noteq> [] \<and> length (forced_tool_name v) \<le> 64"
proof -
  define t where "t = take 64 (map (\<lambda>c. if tool_name_char c then c else CHR ''_'') (py_str (or_empty v)))"
  have u: "tool_name_char CHR ''_''" by (simp add: tool_name_char_def)
  have "tool_name_char c" if "c \<in> set t" for c
    using in_set_takeD [OF that [unfolded t_def]] u by (auto split: if_splits)
  then have t: "list_all tool_name_char (trim_underscores t)"
    using trim_underscores_sub(1) [of t] unfolding list_all_iff by blast
  have "length t \<le> 64" unfolding t_def length_take by (rule min.cobounded2)
  then have len: "length (trim_underscores t) \<le> 64" using trim_underscores_sub(2) [of t] by (rule order.trans [rotated])
  have d: "list_all tool_name_char ''structured_response'' \<and> ''structured_response'' \<noteq> [] \<and> length ''structured_response'' \<le> 64"
    by code_simp
  show ?thesis
  proof (cases "trim_underscores t = []")
    case True
    then have "forced_tool_name v = ''structured_response''" unfolding forced_tool_name_def t_def [symmetric] Let_def by simp
    then show ?thesis using d by simp
  next
    case False
    then have "forced_tool_name v = trim_underscores t" unfolding forced_tool_name_def t_def [symmetric] Let_def by simp
    then show ?thesis using t len False by simp
  qed
qed

lemma aliases_other: "k \<notin> {effort_key, ''reasoning''} \<Longrightarrow> jget (drop_effort_aliases p) k = jget p k"
  by (auto simp: drop_effort_aliases_def drop_nested_effort_def split: json.split)

lemma think_kwargs_other:
  "think_kwargs e p = (q, ck) \<Longrightarrow> k \<notin> {effort_key, ''reasoning''} \<Longrightarrow> jget q k = jget p k"
  using aliases_other [of k p]
  by (auto simp: think_kwargs_def fold_caller_effort_def Let_def split: if_splits prod.splits list.splits)

text \<open>The opt-in is consumed, and it buys a bounded head room: the request leaves without the
  \<^verbatim>\<open>thinking\<close> field in either container, and when the opt-in took effect, with the caller's token limit
  (800 without one) raised by at most the endpoint's allowance, which a number can only lower.\<close>

theorem thinking_head_room:
  assumes "apply_thinking f (Some e) r s = Inr (r', s')" "gu_payload r = JObj p"
    "0 \<le> gf_think_budget f"
  defines "most \<equiv> declared_or (ge_think_budget e) (gf_think_budget f)"
  shows "\<exists>q. gu_payload r' = JObj q \<and> jget q ''thinking'' = JNull \<and>
    (\<forall>eb. extra_body q = Some eb \<longrightarrow> jget eb ''thinking'' = JNull) \<and>
    (jget q ''max_tokens'' = jget p ''max_tokens'' \<or>
     (\<exists>n. jget q ''max_tokens'' = JInt (n + head_room most (thinking_wish p)) \<and>
        n = (case positive_int (jget p ''max_tokens'') of Some m \<Rightarrow> m | None \<Rightarrow> 800) \<and>
        0 \<le> head_room most (thinking_wish p) \<and> head_room most (thinking_wish p) \<le> most))"
proof -
  let ?w = "without_wish p" and ?t = "think_payload f e (thinking_wish p) (without_wish p)"
  have w: "jget ?w ''thinking'' = JNull" "\<forall>eb. extra_body ?w = Some eb \<longrightarrow> jget eb ''thinking'' = JNull"
      "jget ?w ''max_tokens'' = jget p ''max_tokens''"
    by (auto simp: without_wish_def split: option.split)
  obtain c ck where k: "think_kwargs e ?w = (c, ck)" by force
  have t: "jget c ''thinking'' = jget ?w ''thinking''" "jget c ''extra_body'' = jget ?w ''extra_body''"
      "jget c ''max_tokens'' = jget ?w ''max_tokens''"
    by (rule think_kwargs_other [OF k]; simp add: effort_key_def)+
  have "jget ?t ''thinking'' = JNull" "\<forall>eb. extra_body ?t = Some eb \<longrightarrow> jget eb ''thinking'' = JNull"
      "jget ?t ''max_tokens'' = JInt ((case positive_int (jget p ''max_tokens'') of Some m \<Rightarrow> m | None \<Rightarrow> 800) + head_room most (thinking_wish p))"
    using t w k
    by (simp_all add: think_payload_def most_def Let_def extra_body_def effort_key_def ctk_def)
  moreover have "gu_payload r' = JObj ?w \<or> gu_payload r' = JObj ?t"
    using assms(1,2) by (auto simp: apply_thinking_def with_payload_def Let_def py_bind_def split: if_splits sum.splits)
  moreover have "0 \<le> head_room most (thinking_wish p) \<and> head_room most (thinking_wish p) \<le> most"
    using assms(3) by (auto simp: head_room_def most_def declared_or_def split: json.split)
  ultimately show ?thesis using w by auto
qed


subsection \<open>Where the corrections disagree with their own description\<close>

text \<open>\<open>request_expects_json\<close> is described as narrower than \<open>request_is_structured\<close>. It is not: a schema in a
  top-level \<^verbatim>\<open>guided_json\<close> makes the answer JSON while the truncation gate does not see a structured
  request.\<close>

lemma guided_json_is_not_structured:
  "let r = guard_demo_request\<lparr>gu_payload := JObj [(''guided_json'', JObj [(''type'', JStr ''object'')])]\<rparr>
   in request_expects_json r \<and> \<not> request_is_structured r"
  by code_simp

text \<open>A payload with a schema in both containers is translated by half: the tool call is forced and the
  second \<^verbatim>\<open>response_format\<close> still goes to the backend that said it has none.\<close>

lemma half_translated:
  "let rf = JObj [(''type'', JStr ''json_schema''), (''json_schema'', JObj [(''schema'', JObj [(''type'', JStr ''object'')])])];
       e = guard_demo_endpoint\<lparr>ge_not_implemented := [''response_format'']\<rparr>;
       r = apply_forced_tool_schema (Some e) (guard_demo_request\<lparr>gu_payload := JObj [(rf_key, rf), (''extra_body'', JObj [(rf_key, rf)])]\<rparr>)
   in gu_schema r \<noteq> None \<and> (\<exists>p eb. gu_payload r = JObj p \<and> extra_body p = Some eb \<and> jget eb rf_key = rf)"
  by (simp add: Let_def apply_forced_tool_schema_def guard_demo_request_def guard_demo_endpoint_def chat_payload_def containers_def
      pins_grammar_def constraint_keys_def declares_tools_def extra_body_def schema_target_def json_schema_response_format_def
      format_type_def or_empty_def py_str_def py_strip_def py_isspace_def with_payload_def with_forced_tool_def put_extra_def rf_key_def)

text \<open>A thinking opt-in raises on a \<^verbatim>\<open>json_schema\<close> that is not an object, which no caller of it catches.\<close>

lemma opt_in_raises_on_a_bad_schema:
  "apply_thinking guard_demo_flags (Some guard_demo_endpoint)
     (guard_demo_request\<lparr>gu_payload := JObj [(''thinking'', JBool True),
        (rf_key, JObj [(''type'', JStr ''json_schema''), (''json_schema'', JStr ''person'')])]\<rparr>) guard_demo_state = Inl AttributeError"
  by code_simp

text \<open>\<^verbatim>\<open>None\<close> is the switch to the last hop, which compares without case, and a rung to the fold, which
  compares as it is: the same word turns reasoning off on one endpoint and is sent as an effort on
  another.\<close>

lemma none_is_a_rung_when_capitalised:
  "is_none_effort (JStr ''None'') \<and>
   fold_caller_effort [(effort_key, JStr ''None'')] [] [''thinking''] = ([], [(effort_key, JStr ''None'')], Effort_folded) \<and>
   fold_caller_effort [(effort_key, JStr ''none'')] [] [''thinking''] = ([], [(''thinking'', JBool False)], Effort_off)"
  by code_simp

end
