(* ===== verification/Response_Guards.thy ===== *)
theory Response_Guards
  imports Request_Guards Tool_Stream Degeneration Intent Observability
begin

section \<open>What the proxy checks in an answer (correction.py, response side)\<close>

text \<open>
  \<^verbatim>\<open>Correction.apply\<close>: the guards a finished answer passes before the caller sees it, in the order the
  code runs them. The forced tool call is turned back into content, a thinking answer is cleaned or
  refused, a repetition loop is asked for again, a cut tool call is refused, an answer that misses its
  schema is repaired, asked for once more or refused, a grammar drop is counted, and an answer that
  had to be JSON and does not parse is refused; last, an answer without content is counted.

  A result is the dictionary the guards edit, with the keys they read as fields. The environment
  holds what the source only calls: \<^verbatim>\<open>json.loads\<close> and \<^verbatim>\<open>raw_decode\<close> as decoders (whether a text parses is
  decided by the scanner of \<open>Json_Scan\<close>), \<^verbatim>\<open>json_repair\<close>, \<^verbatim>\<open>jsonschema\<close> and the backend, which
  answers a request id and a payload with a body or fails; and the clock, as the time left before each
  re-dispatch. Every guard swallows its exceptions: where an expression can raise, the model returns
  what the result and the counters had become.
\<close>

record sync_result =
  sr_status :: string
  sr_response :: json
  sr_error :: string
  sr_code :: string
  sr_forced :: bool
  sr_repaired :: bool
  sr_retried :: bool
  sr_unrecoverable :: bool
  sr_degenerate :: bool

record resp_env =
  rv_loads :: "string \<Rightarrow> json option"
  rv_decode :: "string \<Rightarrow> json option"
  rv_repair :: "string \<Rightarrow> json option"
  rv_has_schema_lib :: bool
  rv_schema_compiles :: "payload \<Rightarrow> bool"
  rv_schema_accepts :: "payload \<Rightarrow> json \<Rightarrow> bool"
  rv_schema_message :: "payload \<Rightarrow> json \<Rightarrow> string"
  rv_call :: "string \<Rightarrow> payload \<Rightarrow> payload option"
  rv_left :: "nat \<Rightarrow> real"
  rv_now :: real
  rv_endpoint_known :: bool
  rv_mislabels_cut :: bool

record resp_flags =
  rf_validity :: bool
  rf_degeneration :: bool
  rf_degeneration_shadow :: bool
  rf_backstop :: bool
  rf_backstop_shadow :: bool
  rf_shadow_egress :: bool
  rf_uniform :: bool

record trunc_row =
  tr_count :: int
  tr_structured :: int
  tr_freetext :: int

record degen_row =
  dg_detected :: int
  dg_recovered :: int

record schema_row =
  sc_detected :: int
  sc_repaired :: int
  sc_retried :: int
  sc_unrecoverable :: int

record resp_state =
  ws_active :: "(string, string list) odict"
  ws_requests :: int
  ws_noop :: int
  ws_clean :: int
  ws_recovered :: int
  ws_truncated :: int
  ws_fallback :: int
  ws_trunc_total :: int
  ws_trunc_by :: "(string, trunc_row) odict"
  ws_tool_turns :: int
  ws_tool_turns_by :: "(string, int) odict"
  ws_degen_detected :: int
  ws_degen_recovered :: int
  ws_degen_unrecovered :: int
  ws_degen_by :: "(string, degen_row) odict"
  ws_degen_inflight :: int
  ws_schema_detected :: int
  ws_schema_repaired :: int
  ws_schema_retried :: int
  ws_schema_unrecoverable :: int
  ws_schema_stream :: int
  ws_schema_by :: "(string, schema_row) odict"
  ws_schema_inflight :: int
  ws_shadow :: "(string, int \<times> int) odict"
  ws_parse_fail :: int
  ws_parse_fail_by :: "(string, int) odict"
  ws_empty :: int
  ws_empty_by :: "(string, int) odict"
  ws_window :: outcome_window
  ws_samples :: "string list"
  ws_persisted :: "json list"

subsection \<open>Reading and editing a body\<close>

definition body_choice :: "payload \<Rightarrow> payload option" where
  "body_choice b = (case jget b ''choices'' of JList (JObj c # _) \<Rightarrow> Some c | _ \<Rightarrow> None)"

definition body_message :: "payload \<Rightarrow> payload option" where
  "body_message b = (case body_choice b of None \<Rightarrow> None
     | Some c \<Rightarrow> (case jget c ''message'' of JObj m \<Rightarrow> Some m | _ \<Rightarrow> None))"

text \<open>The text of an answer; a content that is neither a string nor false stays what it is.\<close>

definition chat_completion_text :: "payload \<Rightarrow> json" where
  "chat_completion_text b = (case body_message b of None \<Rightarrow> JStr [] | Some m \<Rightarrow> or_empty (jget m ''content''))"

definition response_tool_calls :: "payload \<Rightarrow> json list" where
  "response_tool_calls b = (case body_message b of None \<Rightarrow> []
     | Some m \<Rightarrow> (case jget m ''tool_calls'' of JList tcs \<Rightarrow> tcs | _ \<Rightarrow> []))"

definition is_obj :: "json \<Rightarrow> bool" where
  "is_obj v = (case v of JObj _ \<Rightarrow> True | _ \<Rightarrow> False)"

definition object_calls :: "payload \<Rightarrow> json list" where
  "object_calls b = filter is_obj (response_tool_calls b)"

definition put_choice :: "payload \<Rightarrow> payload \<Rightarrow> payload" where
  "put_choice c b = od_put ''choices'' (case jget b ''choices'' of JList (_ # cs) \<Rightarrow> JList (JObj c # cs) | v \<Rightarrow> v) b"

definition put_message :: "payload \<Rightarrow> payload \<Rightarrow> payload" where
  "put_message m b = (case body_choice b of Some c \<Rightarrow> put_choice (od_put ''message'' (JObj m) c) b | None \<Rightarrow> b)"

definition put_content :: "string \<Rightarrow> payload \<Rightarrow> payload" where
  "put_content s b = (case body_message b of Some m \<Rightarrow> put_message (od_put ''content'' (JStr s) m) b | None \<Rightarrow> b)"

text \<open>\<^verbatim>\<open>int(usage.get("completion_tokens") or 0)\<close>; \<open>None\<close> when it raises.\<close>

definition completion_tokens :: "payload \<Rightarrow> int option" where
  "completion_tokens b = (case jget b ''usage'' of JObj u \<Rightarrow> int_or_zero (jget u ''completion_tokens'') | _ \<Rightarrow> Some 0)"

definition failed :: "string \<Rightarrow> string \<Rightarrow> sync_result \<Rightarrow> sync_result" where
  "failed code err res = res\<lparr>sr_status := ''error'', sr_error := err, sr_code := code, sr_response := JNull\<rparr>"

definition live_body :: "chat_request \<Rightarrow> sync_result \<Rightarrow> payload option" where
  "live_body r res = (if sr_status res = ''ok'' \<and> gu_type r = ''chat_completion''
     then (case sr_response res of JObj b \<Rightarrow> Some b | _ \<Rightarrow> None) else None)"

definition payload_of :: "chat_request \<Rightarrow> payload" where
  "payload_of r = (case gu_payload r of JObj p \<Rightarrow> p | _ \<Rightarrow> [])"

definition site_or :: "string \<Rightarrow> chat_request \<Rightarrow> string" where
  "site_or dflt r = (if gu_site r \<noteq> [] then gu_site r else dflt)"

subsection \<open>Counting a truncation\<close>

definition model_caller :: "chat_request \<Rightarrow> string" where
  "model_caller r = gu_endpoint r @ ''|'' @ gu_agent r"

definition record_truncation_event :: "chat_request \<Rightarrow> bool \<Rightarrow> resp_state \<Rightarrow> resp_state option" where
  "record_truncation_event r structured s = (case int_or_zero (jget (payload_of r) ''max_tokens'') of None \<Rightarrow> None
     | Some n \<Rightarrow>
       if \<not> structured \<and> 0 < n \<and> n \<le> 16 then Some s
       else let row = od_get_or \<lparr>tr_count = 0, tr_structured = 0, tr_freetext = 0\<rparr> (ws_trunc_by s) (model_caller r);
                row = row\<lparr>tr_count := tr_count row + 1\<rparr>;
                row = (if structured then row\<lparr>tr_structured := tr_structured row + 1\<rparr>
                       else row\<lparr>tr_freetext := tr_freetext row + 1\<rparr>)
            in Some (s\<lparr>ws_trunc_by := od_put (model_caller r) row (ws_trunc_by s), ws_trunc_total := ws_trunc_total s + 1\<rparr>))"

text \<open>A turn that declared tools and ran out of tokens before a call a caller can trust.\<close>

definition is_truncated_tool_turn :: "chat_request \<Rightarrow> string \<Rightarrow> json list \<Rightarrow> int \<Rightarrow> bool" where
  "is_truncated_tool_turn r finish calls out_tok =
     (if gu_type r \<noteq> ''chat_completion'' \<or> \<not> request_declares_tools (gu_payload r) then False
      else if finish = ''length'' then \<not> list_ex tool_call_is_complete calls
      else if (finish = ''tool_calls'' \<or> finish = ''stop'') \<and> calls \<noteq> []
      then (case jget (payload_of r) ''max_tokens'' of JInt cap \<Rightarrow> 0 < cap \<and> cap \<le> out_tok | _ \<Rightarrow> False)
      else False)"

definition record_truncated_tool_turn :: "string \<Rightarrow> chat_request \<Rightarrow> string \<Rightarrow> resp_state \<Rightarrow> resp_state option" where
  "record_truncated_tool_turn endpoint r finish s =
     (let s = s\<lparr>ws_tool_turns := ws_tool_turns s + 1,
                ws_tool_turns_by := od_put endpoint (od_get_or 0 (ws_tool_turns_by s) endpoint + 1) (ws_tool_turns_by s)\<rparr>
      in if finish \<noteq> ''length'' then record_truncation_event r False s else Some s)"

subsection \<open>The forced tool call, back to content\<close>

datatype forced_outcome = Translated payload | Absent | Unusable | Malformed

definition forced_tool_arguments :: "json \<Rightarrow> string option" where
  "forced_tool_arguments tc = (case call_arguments tc of
     Some (JObj d) \<Rightarrow> Some (json_dumps_raw (JObj d))
   | Some (JStr a) \<Rightarrow> if py_strip a \<noteq> [] \<and> loads_object a then Some a else None
   | _ \<Rightarrow> None)"

text \<open>\<^verbatim>\<open>str((tc.get("function") or {}).get("name") or "")\<close>; \<open>None\<close> when it raises.\<close>

definition call_name :: "json \<Rightarrow> string option" where
  "call_name tc = (case tc of
     JObj d \<Rightarrow> (case jget d ''function'' of JObj f \<Rightarrow> Some (py_str (or_empty (jget f ''name'')))
                | v \<Rightarrow> if truthy v then None else Some [])
   | _ \<Rightarrow> None)"

definition answer_with :: "string \<Rightarrow> payload \<Rightarrow> payload \<Rightarrow> payload \<Rightarrow> payload" where
  "answer_with args m c b =
     (let c = od_put ''message'' (JObj (od_del ''tool_calls'' (od_put ''content'' (JStr args) m))) c;
          c = (if jget c ''finish_reason'' \<in> {JNull, JStr [], JStr ''tool_calls''} then od_put ''finish_reason'' (JStr ''stop'') c else c)
      in put_choice c b)"

definition apply_forced_tool_answer :: "payload \<Rightarrow> string \<Rightarrow> forced_outcome" where
  "apply_forced_tool_answer b name = (case body_choice b of None \<Rightarrow> Malformed
     | Some c \<Rightarrow> (case body_message b of None \<Rightarrow> Malformed
       | Some m \<Rightarrow>
           if list_ex (\<lambda>tc. call_name tc = None) (object_calls b) then Malformed
           else (case filter (\<lambda>tc. call_name tc = Some name) (object_calls b) of
              [] \<Rightarrow> Absent
            | tc # _ \<Rightarrow> (case forced_tool_arguments tc of None \<Rightarrow> Unusable
               | Some args \<Rightarrow> Translated (answer_with args m c b)))))"

definition finalize_forced_tool_schema :: "chat_request \<Rightarrow> sync_result \<Rightarrow> resp_state \<Rightarrow> sync_result \<times> resp_state" where
  "finalize_forced_tool_schema r res s =
     (if gu_schema r = None then (res, s)
      else case live_body r res of None \<Rightarrow> (res, s)
        | Some b \<Rightarrow> (case apply_forced_tool_answer b (gu_tool r) of
            Malformed \<Rightarrow> (res, s)
          | Absent \<Rightarrow> (res, s)
          | Unusable \<Rightarrow>
              (case completion_tokens b of None \<Rightarrow> (res, s)
               | Some n \<Rightarrow> (case record_truncation_event r True s of None \<Rightarrow> (res, s)
                 | Some s \<Rightarrow> (failed ''toolcall_truncated''
                     (''backend '' @ gu_endpoint r @ '' truncated structured output (the forced tool call carried no parseable JSON object in its arguments, output_tokens=''
                      @ show_int n @ '')'') res, s)))
          | Translated b' \<Rightarrow> (res\<lparr>sr_response := JObj b', sr_forced := True\<rparr>, s)))"

subsection \<open>A thinking answer\<close>

definition reasoning_of :: "payload \<Rightarrow> json" where
  "reasoning_of m = (if truthy (jget m ''reasoning'') then jget m ''reasoning'' else or_empty (jget m ''reasoning_content''))"

definition has_reasoning :: "payload \<Rightarrow> bool" where
  "has_reasoning m = (case reasoning_of m of JStr t \<Rightarrow> py_strip t \<noteq> [] | _ \<Rightarrow> False)"

definition within_keys :: "(string \<Rightarrow> json option) \<Rightarrow> string list \<Rightarrow> string \<Rightarrow> bool" where
  "within_keys loads allowed content = (case loads content of
     Some (JObj d) \<Rightarrow> set (od_keys d) \<subseteq> set allowed | _ \<Rightarrow> False)"

definition finalize_thinking :: "resp_env \<Rightarrow> chat_request \<Rightarrow> sync_result \<Rightarrow> resp_state \<Rightarrow> sync_result \<times> resp_state" where
  "finalize_thinking e r res s =
     (case od_get (ws_active s) (gu_id r) of None \<Rightarrow> (res, s)
      | Some allowed \<Rightarrow>
        let s = s\<lparr>ws_active := od_del (gu_id r) (ws_active s)\<rparr> in
        if sr_status res \<noteq> ''ok'' then (res, s)
        else case sr_response res of
          JObj b \<Rightarrow> (case (body_choice b, body_message b) of
            (Some c, Some m) \<Rightarrow> (case jget m ''content'' of
              JStr content \<Rightarrow>
                (let s = s\<lparr>ws_requests := ws_requests s + 1\<rparr>;
                     s = (if has_reasoning m then s else s\<lparr>ws_noop := ws_noop s + 1\<rparr>) in
                 if allowed = [] then (res, s)
                 else if within_keys (rv_loads e) allowed content then (res, s\<lparr>ws_clean := ws_clean s + 1\<rparr>)
                 else case recover_structured_object (rv_decode e) content None (Some allowed) of
                   Some clean \<Rightarrow> (res\<lparr>sr_response := JObj (put_content clean b)\<rparr>, s\<lparr>ws_recovered := ws_recovered s + 1\<rparr>)
                 | None \<Rightarrow>
                     if jget c ''finish_reason'' = JStr ''length''
                     then (res\<lparr>sr_status := ''error'', sr_response := JNull,
                             sr_error := ''thinking structured-output recovery failed: thinking output truncated (finish=length) - raise ROADSTEAD_PROXY_THINKING_BUDGET''\<rparr>,
                           s\<lparr>ws_truncated := ws_truncated s + 1\<rparr>)
                     else (res\<lparr>sr_status := ''error'', sr_response := JNull,
                             sr_error := ''thinking structured-output recovery failed: thinking structured output unrecoverable''\<rparr>,
                           s\<lparr>ws_fallback := ws_fallback s + 1\<rparr>))
            | _ \<Rightarrow> (res, s))
          | _ \<Rightarrow> (res, s))
        | _ \<Rightarrow> (res, s))"


subsection \<open>A repetition loop is asked for again\<close>

definition utext_of :: "string \<Rightarrow> utext" where
  "utext_of s = map of_char s"

definition loops :: "string \<Rightarrow> bool" where
  "loops s = is_degenerate_text (utext_of s)"

definition penalties :: "(nat \<times> payload) list" where
  "penalties =
     [(1, [(''frequency_penalty'', JFloat (6 / 10) ''0.6''), (''presence_penalty'', JFloat (3 / 10) ''0.3'')]),
      (2, [(''frequency_penalty'', JFloat 1 ''1.0''), (''presence_penalty'', JFloat (5 / 10) ''0.5'')])]"

definition min_retry_budget_s :: real where "min_retry_budget_s = 5"

definition merged :: "payload \<Rightarrow> payload \<Rightarrow> payload" where
  "merged p extra = foldl (\<lambda>p (k, v). od_put k v p) p extra"

definition note_sample :: "string \<Rightarrow> resp_state \<Rightarrow> resp_state" where
  "note_sample kind s = s\<lparr>ws_samples := ws_samples s @ [kind]\<rparr>"

text \<open>The attempts in turn; the first body that has text and does not loop is the answer. A text that is
  no string raises and ends the guard with the flag unset, as does a payload that is no object.\<close>

datatype attempt = Clean payload | Exhausted | Broke

fun degen_attempts :: "resp_env \<Rightarrow> chat_request \<Rightarrow> (nat \<times> payload) list \<Rightarrow> resp_state \<Rightarrow> attempt \<times> resp_state" where
  "degen_attempts e r [] s = (Exhausted, s)"
| "degen_attempts e r ((i, extra) # rest) s =
     (if rv_left e i < min_retry_budget_s then (Exhausted, s)
      else if \<not> is_obj (gu_payload r) then (Broke, s)
      else let s = note_sample ''degen_retry'' s in
        case rv_call e (gu_id r @ ''-degen'' @ show_nat i) (merged (payload_of r) extra) of
          None \<Rightarrow> degen_attempts e r rest s
        | Some b \<Rightarrow> (case chat_completion_text b of
            JStr t \<Rightarrow> if t \<noteq> [] \<and> \<not> loops t then (Clean b, s) else degen_attempts e r rest s
          | _ \<Rightarrow> (Broke, s)))"

definition degen_seen :: "chat_request \<Rightarrow> resp_state \<Rightarrow> resp_state" where
  "degen_seen r s = (let cs = site_or ''?'' r; row = od_get_or \<lparr>dg_detected = 0, dg_recovered = 0\<rparr> (ws_degen_by s) cs in
     s\<lparr>ws_degen_detected := ws_degen_detected s + 1,
       ws_degen_by := od_put cs (row\<lparr>dg_detected := dg_detected row + 1\<rparr>) (ws_degen_by s)\<rparr>)"

definition degen_kept :: "sync_result \<Rightarrow> resp_state \<Rightarrow> sync_result \<times> resp_state" where
  "degen_kept res s = (res\<lparr>sr_degenerate := True\<rparr>, s\<lparr>ws_degen_unrecovered := ws_degen_unrecovered s + 1\<rparr>)"

definition degen_recovered :: "chat_request \<Rightarrow> payload \<Rightarrow> sync_result \<Rightarrow> resp_state \<Rightarrow> sync_result \<times> resp_state" where
  "degen_recovered r body res s =
     (let cs = site_or ''?'' r; row = od_get_or \<lparr>dg_detected = 0, dg_recovered = 0\<rparr> (ws_degen_by s) cs in
      (res\<lparr>sr_response := JObj body\<rparr>,
       s\<lparr>ws_degen_recovered := ws_degen_recovered s + 1, ws_persisted := ws_persisted s @ [JObj body],
         ws_degen_by := od_put cs (row\<lparr>dg_recovered := dg_recovered row + 1\<rparr>) (ws_degen_by s)\<rparr>))"

definition body_finish :: "payload \<Rightarrow> json" where
  "body_finish b = (case body_choice b of Some c \<Rightarrow> jget c ''finish_reason'' | None \<Rightarrow> JNull)"

definition maybe_correct_degenerate ::
    "resp_flags \<Rightarrow> resp_env \<Rightarrow> chat_request \<Rightarrow> sync_result \<Rightarrow> resp_state \<Rightarrow> sync_result \<times> resp_state" where
  "maybe_correct_degenerate f e r res s =
     (if \<not> rf_degeneration f then (res, s)
      else case live_body r res of None \<Rightarrow> (res, s)
      | Some b \<Rightarrow> (case chat_completion_text b of
          JStr t \<Rightarrow>
            if \<not> loops t then (res, s)
            else let s = degen_seen r s in
              if rf_degeneration_shadow f then (res, s)
              else if body_finish b = JStr ''length'' then degen_kept res s
              else if \<not> rv_endpoint_known e then (res, s)
              else if 2 \<le> ws_degen_inflight s then degen_kept res s
              else (case degen_attempts e r penalties s of
                  (Clean body, s) \<Rightarrow> degen_recovered r body res s
                | (Exhausted, s) \<Rightarrow> degen_kept res s
                | (Broke, s) \<Rightarrow> (res, s))
        | _ \<Rightarrow> (res, s)))"

subsection \<open>A cut tool call\<close>

definition enforce_toolcall_truncation ::
    "resp_flags \<Rightarrow> resp_env \<Rightarrow> chat_request \<Rightarrow> sync_result \<Rightarrow> resp_state \<Rightarrow> sync_result \<times> resp_state" where
  "enforce_toolcall_truncation f e r res s =
     (if \<not> rf_validity f then (res, s)
      else case live_body r res of None \<Rightarrow> (res, s)
      | Some b \<Rightarrow>
          if \<not> rv_mislabels_cut e \<or> list_all arg_str_valid (object_calls b) then (res, s)
          else (case completion_tokens b of None \<Rightarrow> (res, s)
            | Some n \<Rightarrow> (case record_truncation_event r True s of None \<Rightarrow> (res, s)
              | Some s \<Rightarrow> (failed ''toolcall_truncated''
                  (''backend '' @ gu_endpoint r @ '' truncated structured output (finish_reason=tool_calls mislabel - tool_call arguments cut mid-JSON, output_tokens=''
                   @ show_int n @ '')'') res, s))))"

subsection \<open>The schema backstop\<close>

definition schema_valid :: "resp_env \<Rightarrow> json \<Rightarrow> payload option \<Rightarrow> bool" where
  "schema_valid e v schema = (case schema of None \<Rightarrow> True
     | Some sch \<Rightarrow> \<not> rv_has_schema_lib e \<or> \<not> rv_schema_compiles e sch \<or> rv_schema_accepts e sch v)"

definition content_valid :: "resp_env \<Rightarrow> string \<Rightarrow> payload option \<Rightarrow> bool" where
  "content_valid e s schema = (case rv_loads e s of None \<Rightarrow> False | Some v \<Rightarrow> schema_valid e v schema)"

definition repair_json_text :: "resp_env \<Rightarrow> string \<Rightarrow> json option" where
  "repair_json_text e s = (if py_strip s = [] then None
     else case rv_repair e s of Some v \<Rightarrow> if v = JStr [] \<or> v = JNull then None else Some v | None \<Rightarrow> None)"

text \<open>One tool call with its arguments repaired; \<open>None\<close> if they cannot be.\<close>

definition repair_call :: "resp_env \<Rightarrow> json \<Rightarrow> json option" where
  "repair_call e tc = (case tc of
     JObj d \<Rightarrow> (case jget d ''function'' of
        JObj f \<Rightarrow> (case jget f ''arguments'' of
           JStr a \<Rightarrow>
             if py_strip a = [] \<or> loads_ok a then Some tc
             else map_option (\<lambda>v. JObj (od_put ''function'' (JObj (od_put ''arguments'' (JStr (json_dumps_raw v)) f)) d)) (repair_json_text e a)
         | _ \<Rightarrow> Some tc)
      | _ \<Rightarrow> Some tc)
   | _ \<Rightarrow> Some tc)"

fun repair_calls :: "resp_env \<Rightarrow> json list \<Rightarrow> json list option" where
  "repair_calls e [] = Some []"
| "repair_calls e (tc # tcs) = (case repair_call e tc of None \<Rightarrow> None
     | Some tc' \<Rightarrow> map_option ((#) tc') (repair_calls e tcs))"

definition clone_with_repaired_args :: "resp_env \<Rightarrow> payload \<Rightarrow> payload option" where
  "clone_with_repaired_args e b = (case body_message b of None \<Rightarrow> None
     | Some m \<Rightarrow> (case jget m ''tool_calls'' of
         JList tcs \<Rightarrow> map_option (\<lambda>tcs'. put_message (od_put ''tool_calls'' (JList tcs') m) b) (repair_calls e tcs)
       | _ \<Rightarrow> None))"

datatype conformed = Conf_ok | Conf_repaired payload | Conf_failed

definition content_ok :: "resp_env \<Rightarrow> payload \<Rightarrow> payload option \<Rightarrow> bool \<Rightarrow> bool py" where
  "content_ok e b schema expect = (if \<not> expect then Inr True
     else case chat_completion_text b of
       JStr s \<Rightarrow> Inr (py_strip s = [] \<or> content_valid e s schema) | _ \<Rightarrow> Inl AttributeError)"

definition repair_content :: "resp_env \<Rightarrow> payload \<Rightarrow> payload option \<Rightarrow> payload option" where
  "repair_content e b schema = (case chat_completion_text b of
     JStr s \<Rightarrow> (case repair_json_text e s of
        Some v \<Rightarrow> if schema_valid e v schema then Some (put_content (json_dumps_raw v) b) else None
      | None \<Rightarrow> None)
   | _ \<Rightarrow> None)"

definition conform_body :: "resp_env \<Rightarrow> payload \<Rightarrow> payload option \<Rightarrow> bool \<Rightarrow> conformed py" where
  "conform_body e b schema expect = py_bind (content_ok e b schema expect) (\<lambda>c_ok.
     let a_ok = list_all arg_str_valid (object_calls b) in
     Inr (if c_ok \<and> a_ok then Conf_ok
          else case (if c_ok then Some b else repair_content e b schema) of
            None \<Rightarrow> Conf_failed
          | Some b1 \<Rightarrow> if a_ok then Conf_repaired b1
              else (case clone_with_repaired_args e b1 of None \<Rightarrow> Conf_failed | Some b2 \<Rightarrow> Conf_repaired b2)))"

definition validation_error :: "resp_env \<Rightarrow> payload \<Rightarrow> payload option \<Rightarrow> string" where
  "validation_error e b schema =
     (case (case chat_completion_text b of JStr s \<Rightarrow> rv_loads e s | _ \<Rightarrow> None) of
        None \<Rightarrow> ''the output was not valid JSON''
      | Some v \<Rightarrow> (case schema of
          Some sch \<Rightarrow>
            if rv_has_schema_lib e \<and> \<not> rv_schema_accepts e sch v
            then ''the JSON did not match the schema ('' @ take 200 (rv_schema_message e sch v) @ '')''
            else if list_ex (\<lambda>tc. \<not> arg_str_valid tc) (object_calls b) then ''a tool call'' @ [char_of (39 :: nat)] @ ''s arguments were not valid JSON''
            else ''the output did not satisfy the required format''
        | None \<Rightarrow>
            if list_ex (\<lambda>tc. \<not> arg_str_valid tc) (object_calls b) then ''a tool call'' @ [char_of (39 :: nat)] @ ''s arguments were not valid JSON''
            else ''the output did not satisfy the required format''))"

definition with_error_feedback :: "payload \<Rightarrow> string \<Rightarrow> payload" where
  "with_error_feedback p err = (case jget p ''messages'' of
     JList ms \<Rightarrow> od_put ''messages'' (JList (ms @ [JObj [(''role'', JStr ''user''),
       (''content'', JStr (''Your previous response was rejected: '' @ err @
          ''. Return ONLY the JSON that satisfies the required format - no prose, no markdown fences, no commentary.''))]])) p
   | _ \<Rightarrow> p)"

text \<open>The answer of the backend as the first one was read: a translated request's reply is a tool call
  too.\<close>

definition retry_body :: "chat_request \<Rightarrow> payload \<Rightarrow> payload" where
  "retry_body r b = (if gu_schema r \<noteq> None \<and> gu_tool r \<noteq> []
     then (case apply_forced_tool_answer b (gu_tool r) of Translated b' \<Rightarrow> b' | _ \<Rightarrow> b) else b)"

definition schema_retry ::
    "resp_env \<Rightarrow> chat_request \<Rightarrow> payload \<Rightarrow> payload option \<Rightarrow> string \<Rightarrow> bool \<Rightarrow> resp_state \<Rightarrow> payload option \<times> resp_state" where
  "schema_retry e r p schema err expect s =
     (if 2 \<le> ws_schema_inflight s \<or> rv_left e 3 < min_retry_budget_s \<or> \<not> rv_endpoint_known e then (None, s)
      else let s = note_sample ''schema_retry'' s in
        case rv_call e (gu_id r @ ''-schema'') (with_error_feedback p err) of
          Some b \<Rightarrow>
            (case conform_body e (retry_body r b) schema expect of
               Inr Conf_ok \<Rightarrow> (Some (retry_body r b), s)
             | Inr (Conf_repaired b') \<Rightarrow> (Some b', s)
             | Inr Conf_failed \<Rightarrow> (None, s)
             | Inl _ \<Rightarrow> (None, note_sample ''schema_retry'' s))
        | None \<Rightarrow> (None, s))"

definition new_schema_row :: schema_row where
  "new_schema_row = \<lparr>sc_detected = 0, sc_repaired = 0, sc_retried = 0, sc_unrecoverable = 0\<rparr>"

definition tally_schema :: "chat_request \<Rightarrow> (schema_row \<Rightarrow> schema_row) \<Rightarrow> resp_state \<Rightarrow> resp_state" where
  "tally_schema r g s = s\<lparr>ws_schema_by := od_put (site_or ''?'' r) (g (od_get_or new_schema_row (ws_schema_by s) (site_or ''?'' r))) (ws_schema_by s)\<rparr>"

definition schema_seen :: "chat_request \<Rightarrow> resp_state \<Rightarrow> resp_state" where
  "schema_seen r s = tally_schema r (\<lambda>t. t\<lparr>sc_detected := sc_detected t + 1\<rparr>) (s\<lparr>ws_schema_detected := ws_schema_detected s + 1\<rparr>)"

definition schema_fixed :: "chat_request \<Rightarrow> payload \<Rightarrow> sync_result \<Rightarrow> resp_state \<Rightarrow> sync_result \<times> resp_state" where
  "schema_fixed r b res s = (res\<lparr>sr_response := JObj b, sr_repaired := True\<rparr>,
     tally_schema r (\<lambda>t. t\<lparr>sc_repaired := sc_repaired t + 1\<rparr>)
       (s\<lparr>ws_schema_repaired := ws_schema_repaired s + 1, ws_persisted := ws_persisted s @ [JObj b]\<rparr>))"

definition schema_redone :: "chat_request \<Rightarrow> payload \<Rightarrow> sync_result \<Rightarrow> resp_state \<Rightarrow> sync_result \<times> resp_state" where
  "schema_redone r b res s = (res\<lparr>sr_response := JObj b, sr_retried := True\<rparr>,
     tally_schema r (\<lambda>t. t\<lparr>sc_retried := sc_retried t + 1\<rparr>)
       (s\<lparr>ws_schema_retried := ws_schema_retried s + 1, ws_persisted := ws_persisted s @ [JObj b]\<rparr>))"

definition schema_refused :: "chat_request \<Rightarrow> string \<Rightarrow> sync_result \<Rightarrow> resp_state \<Rightarrow> sync_result \<times> resp_state" where
  "schema_refused r err res s = ((failed ''schema_invalid''
       (''backend '' @ gu_endpoint r @ '' produced schema-invalid structured output ('' @ err @ ''); repair + one retry failed'') res)
       \<lparr>sr_unrecoverable := True\<rparr>,
     tally_schema r (\<lambda>t. t\<lparr>sc_unrecoverable := sc_unrecoverable t + 1\<rparr>)
       (s\<lparr>ws_schema_unrecoverable := ws_schema_unrecoverable s + 1\<rparr>))"

definition maybe_repair_schema ::
    "resp_flags \<Rightarrow> resp_env \<Rightarrow> chat_request \<Rightarrow> sync_result \<Rightarrow> resp_state \<Rightarrow> sync_result \<times> resp_state" where
  "maybe_repair_schema f e r res s =
     (if \<not> rf_backstop f then (res, s)
      else case live_body r res of None \<Rightarrow> (res, s)
      | Some b \<Rightarrow>
          if \<not> request_is_structured r \<and> \<not> declares_tools (payload_of r) then (res, s)
          else (case declared_schema r of Inl _ \<Rightarrow> (res, s)
            | Inr schema \<Rightarrow> (case conform_body e b schema (request_expects_json r) of
                Inl _ \<Rightarrow> (res, s)
              | Inr Conf_ok \<Rightarrow> (res, s)
              | Inr (Conf_repaired b') \<Rightarrow>
                  if rf_backstop_shadow f then (res, schema_seen r s) else schema_fixed r b' res (schema_seen r s)
              | Inr Conf_failed \<Rightarrow>
                  if rf_backstop_shadow f then (res, schema_seen r s)
                  else (case schema_retry e r (payload_of r) schema (validation_error e b schema) (request_is_structured r) (schema_seen r s) of
                      (Some b', s) \<Rightarrow> schema_redone r b' res s
                    | (None, s) \<Rightarrow> schema_refused r (validation_error e b schema) res s))))"


subsection \<open>Counting grammar drops\<close>

definition conforms :: "conformance \<Rightarrow> bool" where
  "conforms c \<longleftrightarrow> c = OkNonObjectRoot \<or> c = OkObject"

definition shadow_egress_check :: "resp_env \<Rightarrow> chat_request \<Rightarrow> json \<Rightarrow> resp_state \<Rightarrow> resp_state" where
  "shadow_egress_check e r content s = (case extract_grammar (payload_of r) of None \<Rightarrow> s
     | Some (g, _) \<Rightarrow> (case content of
         JStr t \<Rightarrow>
           if t = [] then s
           else let cs = site_or ''unknown'' r; (checked, dropped) = od_get_or (0, 0) (ws_shadow s) cs;
                    ok = conforms (verify_conformance (rv_loads e) t g None)
                in s\<lparr>ws_shadow := od_put cs (checked + 1, if ok then dropped else dropped + 1) (ws_shadow s)\<rparr>
       | _ \<Rightarrow> s))"

definition shadow_egress_detect ::
    "resp_flags \<Rightarrow> resp_env \<Rightarrow> chat_request \<Rightarrow> sync_result \<Rightarrow> resp_state \<Rightarrow> resp_state" where
  "shadow_egress_detect f e r res s =
     (if \<not> rf_shadow_egress f \<or> gu_stream r then s
      else case live_body r res of None \<Rightarrow> s
        | Some b \<Rightarrow> (case body_message b of None \<Rightarrow> s | Some m \<Rightarrow> shadow_egress_check e r (jget m ''content'') s))"

subsection \<open>The floor under structured answers\<close>

definition record_structured_parse_failure :: "chat_request \<Rightarrow> resp_state \<Rightarrow> resp_state" where
  "record_structured_parse_failure r s = s\<lparr>ws_parse_fail := ws_parse_fail s + 1,
     ws_parse_fail_by := od_put (model_caller r) (od_get_or 0 (ws_parse_fail_by s) (model_caller r) + 1) (ws_parse_fail_by s)\<rparr>"

definition enforce_structured_validity ::
    "resp_flags \<Rightarrow> chat_request \<Rightarrow> sync_result \<Rightarrow> resp_state \<Rightarrow> sync_result \<times> resp_state" where
  "enforce_structured_validity f r res s =
     (if \<not> rf_validity f \<or> \<not> request_expects_json r then (res, s)
      else case live_body r res of None \<Rightarrow> (res, s)
      | Some b \<Rightarrow> (case chat_completion_text b of
          JStr t \<Rightarrow>
            if py_strip t = [] \<or> loads_ok t then (res, s)
            else (case completion_tokens b of None \<Rightarrow> (res, s)
              | Some n \<Rightarrow> (failed ''structured_invalid_json''
                  (''backend '' @ gu_endpoint r @ '' returned invalid JSON for a structured request (content does not parse; output_tokens=''
                   @ show_int n @ '')'') res, record_structured_parse_failure r s))
        | _ \<Rightarrow> (res, s)))"

subsection \<open>Counting answers without an answer\<close>

definition schema_required_keys :: "payload option \<Rightarrow> string list" where
  "schema_required_keys schema = (case schema of None \<Rightarrow> []
     | Some sch \<Rightarrow> (case jget sch ''required'' of
         JList ks \<Rightarrow> List.map_filter (\<lambda>k. case k of JStr t \<Rightarrow> Some t | _ \<Rightarrow> None) ks | _ \<Rightarrow> []))"

definition is_answerless_object :: "json \<Rightarrow> payload option \<Rightarrow> bool" where
  "is_answerless_object v schema = (case v of
     JObj d \<Rightarrow> d = [] \<or> (schema_required_keys schema = [] \<and> list_all (\<lambda>x. x \<in> {JNull, JStr [], JList [], JObj []}) (od_vals d))
   | _ \<Rightarrow> False)"

definition detect_content :: "resp_env \<Rightarrow> chat_request \<Rightarrow> json \<Rightarrow> resp_state \<Rightarrow> resp_state" where
  "detect_content e r content s = (case content of
     JStr t \<Rightarrow>
       if py_strip t = [] then s
       else (case rv_loads e t of None \<Rightarrow> s
         | Some v \<Rightarrow> (case declared_schema r of Inl _ \<Rightarrow> s
           | Inr schema \<Rightarrow>
               let cs = site_or ''?'' r in
               if \<not> is_answerless_object v schema
               then s\<lparr>ws_window := record_structured_outcome (gu_endpoint r) False cs (rv_now e) (ws_window s)\<rparr>
               else if schema \<noteq> None \<and> \<not> schema_valid e v schema then s
               else s\<lparr>ws_empty := ws_empty s + 1, ws_empty_by := od_put cs (od_get_or 0 (ws_empty_by s) cs + 1) (ws_empty_by s),
                      ws_window := record_structured_outcome (gu_endpoint r) True cs (rv_now e) (ws_window s)\<rparr>))
   | _ \<Rightarrow> s)"

definition detect_structured_empty :: "resp_env \<Rightarrow> chat_request \<Rightarrow> sync_result \<Rightarrow> resp_state \<Rightarrow> resp_state" where
  "detect_structured_empty e r res s =
     (if \<not> request_is_structured r then s
      else case live_body r res of None \<Rightarrow> s | Some b \<Rightarrow> detect_content e r (chat_completion_text b) s)"

subsection \<open>All of them\<close>

definition apply_corrections ::
    "resp_flags \<Rightarrow> resp_env \<Rightarrow> chat_request \<Rightarrow> sync_result \<Rightarrow> resp_state \<Rightarrow> sync_result \<times> resp_state" where
  "apply_corrections f e r res s =
     (case finalize_forced_tool_schema r res s of (res, s) \<Rightarrow>
      case finalize_thinking e r res s of (res, s) \<Rightarrow>
      case maybe_correct_degenerate f e r res s of (res, s) \<Rightarrow>
      case enforce_toolcall_truncation f e r res s of (res, s) \<Rightarrow>
      case maybe_repair_schema f e r res s of (res, s) \<Rightarrow>
      case enforce_structured_validity f r res (shadow_egress_detect f e r res s) of (res, s) \<Rightarrow>
      (res, detect_structured_empty e r res s))"

definition corrections_applied :: "chat_request \<Rightarrow> sync_result \<Rightarrow> string list" where
  "corrections_applied r res =
     (if gu_stripped r then [''json_object_stripped''] else []) @
     (if sr_forced res then [''forced_tool_schema''] else []) @
     (if sr_repaired res then [''schema_repaired''] else []) @
     (if sr_retried res then [''schema_retried''] else []) @
     (if sr_unrecoverable res then [''schema_unrecoverable''] else []) @
     (if sr_degenerate res then [''degenerate_unrecovered''] else []) @
     (if sr_code res = ''toolcall_truncated'' then [''toolcall_truncated''] else [])"

text \<open>A stream cannot be taken back: the same detectors, over the text that went out.\<close>

definition schema_invalid_stream :: "resp_flags \<Rightarrow> resp_env \<Rightarrow> chat_request \<Rightarrow> string \<Rightarrow> resp_state \<Rightarrow> resp_state py" where
  "schema_invalid_stream f e r content s =
     (if rf_backstop f \<and> content \<noteq> [] \<and> request_is_structured r
      then py_bind (declared_schema r) (\<lambda>schema.
        Inr (if content_valid e content schema then s
             else tally_schema r (\<lambda>t. t\<lparr>sc_detected := sc_detected t + 1\<rparr>) (s\<lparr>ws_schema_stream := ws_schema_stream s + 1\<rparr>)))
      else Inr s)"

definition finalize_stream :: "resp_flags \<Rightarrow> resp_env \<Rightarrow> chat_request \<Rightarrow> string \<Rightarrow> resp_state \<Rightarrow> resp_state" where
  "finalize_stream f e r content s =
     (if \<not> rf_uniform f \<or> gu_type r \<noteq> ''chat_completion'' then s
      else let s = (if content \<noteq> [] \<and> loops content then degen_seen r s else s);
               s = (if rf_shadow_egress f then shadow_egress_check e r (JStr content) s else s)
           in case schema_invalid_stream f e r content s of Inl _ \<Rightarrow> s
              | Inr s \<Rightarrow> if request_is_structured r then detect_content e r (JStr content) s else s)"


subsection \<open>Lemmas: bodies\<close>

lemma body_choice_put [simp]: "body_choice b = Some c \<Longrightarrow> body_choice (put_choice c' b) = Some c'"
  by (auto simp: body_choice_def put_choice_def split: json.splits list.splits)

lemma body_message_choice: "body_message b = Some m \<Longrightarrow> \<exists>c. body_choice b = Some c \<and> jget c ''message'' = JObj m"
  by (auto simp: body_message_def split: option.splits json.splits)

lemma body_message_put [simp]: "body_message b = Some m \<Longrightarrow> body_message (put_message m' b) = Some m'"
  by (drule body_message_choice) (auto simp: put_message_def body_message_def)

lemma text_put_content [simp]: "body_message b = Some m \<Longrightarrow> chat_completion_text (put_content t b) = JStr t"
  by (simp add: put_content_def chat_completion_text_def or_empty_def)

lemma text_message: "chat_completion_text b = JStr t \<Longrightarrow> t \<noteq> [] \<Longrightarrow> \<exists>m. body_message b = Some m \<and> jget m ''content'' = JStr t"
  by (auto simp: chat_completion_text_def or_empty_def split: option.splits if_splits)

lemma live_body_iff:
  "live_body r res = Some b \<longleftrightarrow> sr_status res = ''ok'' \<and> gu_type r = ''chat_completion'' \<and> sr_response res = JObj b"
  by (auto simp: live_body_def split: json.splits)

lemma live_body_not_ok [simp]: "sr_status res \<noteq> ''ok'' \<Longrightarrow> live_body r res = None"
  by (simp add: live_body_def)

subsection \<open>A guard lets an answer through, replaces it or refuses it\<close>

definition fails_closed :: "sync_result \<Rightarrow> sync_result \<Rightarrow> bool" where
  "fails_closed res res' \<longleftrightarrow> (sr_status res \<noteq> ''ok'' \<longrightarrow> res' = res) \<and>
     (sr_status res' \<noteq> sr_status res \<longrightarrow> sr_status res' = ''error'' \<and> sr_response res' = JNull)"

lemma fails_closed_refl [simp]: "fails_closed res res"
  by (simp add: fails_closed_def)

lemma fails_closed_trans [trans]: "fails_closed a b \<Longrightarrow> fails_closed b c \<Longrightarrow> fails_closed a c"
  unfolding fails_closed_def by metis

lemma fails_closed_failed [simp]: "sr_status res = ''ok'' \<Longrightarrow> fails_closed res (failed code err res)"
  by (simp add: fails_closed_def failed_def)

lemma fails_closed_swap [simp]: "sr_status res = ''ok'' \<Longrightarrow> sr_status res' = sr_status res \<Longrightarrow> fails_closed res res'"
  by (simp add: fails_closed_def)

lemma forced_closed: "fails_closed res (fst (finalize_forced_tool_schema r res s))"
  by (auto simp: finalize_forced_tool_schema_def live_body_iff split: option.split forced_outcome.split)

lemma thinking_closed: "fails_closed res (fst (finalize_thinking e r res s))"
  by (auto simp: finalize_thinking_def Let_def fails_closed_def split: option.split json.split)

lemma degen_kept_closed: "sr_status res = ''ok'' \<Longrightarrow> fails_closed res (fst (degen_kept res s))"
  by (simp add: degen_kept_def)

lemma degen_recovered_closed: "sr_status res = ''ok'' \<Longrightarrow> fails_closed res (fst (degen_recovered r b res s))"
  by (simp add: degen_recovered_def Let_def)

lemma degenerate_closed: "fails_closed res (fst (maybe_correct_degenerate f e r res s))"
  by (auto simp: maybe_correct_degenerate_def Let_def live_body_iff degen_kept_closed degen_recovered_closed
      split: option.split json.split prod.split attempt.split)

lemma truncation_closed: "fails_closed res (fst (enforce_toolcall_truncation f e r res s))"
  by (auto simp: enforce_toolcall_truncation_def live_body_iff split: option.split)

lemma schema_steps_closed:
  assumes "sr_status res = ''ok''"
  shows "fails_closed res (fst (schema_fixed r b res s))" "fails_closed res (fst (schema_redone r b res s))"
    "fails_closed res (fst (schema_refused r err res s))"
  using assms by (simp_all add: schema_fixed_def schema_redone_def schema_refused_def fails_closed_def failed_def)

lemma schema_closed: "fails_closed res (fst (maybe_repair_schema f e r res s))"
  by (auto simp: maybe_repair_schema_def live_body_iff schema_steps_closed
      split: option.split sum.split conformed.split prod.split)

lemma validity_closed: "fails_closed res (fst (enforce_structured_validity f r res s))"
  by (auto simp: enforce_structured_validity_def live_body_iff split: option.split json.split)

text \<open>The chain, step by step.\<close>

lemma apply_corrections_steps:
  obtains r1 s1 r2 s2 r3 s3 r4 s4 r5 s5 s6 where
    "finalize_forced_tool_schema r res s = (r1, s1)" "finalize_thinking e r r1 s1 = (r2, s2)"
    "maybe_correct_degenerate f e r r2 s2 = (r3, s3)" "enforce_toolcall_truncation f e r r3 s3 = (r4, s4)"
    "maybe_repair_schema f e r r4 s4 = (r5, s5)"
    "enforce_structured_validity f r r5 (shadow_egress_detect f e r r5 s5) = (fst (apply_corrections f e r res s), s6)"
proof -
  obtain r1 s1 where 1: "finalize_forced_tool_schema r res s = (r1, s1)" by fastforce
  obtain r2 s2 where 2: "finalize_thinking e r r1 s1 = (r2, s2)" by fastforce
  obtain r3 s3 where 3: "maybe_correct_degenerate f e r r2 s2 = (r3, s3)" by fastforce
  obtain r4 s4 where 4: "enforce_toolcall_truncation f e r r3 s3 = (r4, s4)" by fastforce
  obtain r5 s5 where 5: "maybe_repair_schema f e r r4 s4 = (r5, s5)" by fastforce
  obtain r6 s6 where 6: "enforce_structured_validity f r r5 (shadow_egress_detect f e r r5 s5) = (r6, s6)" by fastforce
  have "fst (apply_corrections f e r res s) = r6" by (simp add: apply_corrections_def 1 2 3 4 5 6)
  then show thesis using that [OF 1 2 3 4 5] 6 by simp
qed

text \<open>No guard turns a failure into an answer, and none leaves half of one: a result that was not \<^verbatim>\<open>ok\<close>
  leaves the chain untouched, and one that is refused on the way leaves as an error with no body.\<close>

theorem guards_fail_closed: "fails_closed res (fst (apply_corrections f e r res s))"
proof -
  obtain r1 s1 r2 s2 r3 s3 r4 s4 r5 s5 s6 where
    "finalize_forced_tool_schema r res s = (r1, s1)" "finalize_thinking e r r1 s1 = (r2, s2)"
    "maybe_correct_degenerate f e r r2 s2 = (r3, s3)" "enforce_toolcall_truncation f e r r3 s3 = (r4, s4)"
    "maybe_repair_schema f e r r4 s4 = (r5, s5)"
    "enforce_structured_validity f r r5 (shadow_egress_detect f e r r5 s5) = (fst (apply_corrections f e r res s), s6)"
    by (rule apply_corrections_steps)
  then have "fails_closed res r1" "fails_closed r1 r2" "fails_closed r2 r3" "fails_closed r3 r4" "fails_closed r4 r5"
      "fails_closed r5 (fst (apply_corrections f e r res s))"
    using forced_closed thinking_closed degenerate_closed truncation_closed schema_closed validity_closed by (metis fst_conv)+
  then show ?thesis by (blast intro: fails_closed_trans)
qed


subsection \<open>An answer that had to be JSON is JSON\<close>

lemma failed_status [simp]: "sr_status (failed code err res) = ''error''"
  by (simp add: failed_def)

lemma validity_floor:
  assumes "enforce_structured_validity f r res s = (res', s')" "rf_validity f" "request_expects_json r"
    "live_body r res' = Some b" "chat_completion_text b = JStr t" "completion_tokens b \<noteq> None"
  shows "py_strip t = [] \<or> loads_ok t"
proof (cases "live_body r res")
  case None
  then show ?thesis using assms by (auto simp: enforce_structured_validity_def)
next
  case (Some b0)
  show ?thesis
  proof (rule ccontr)
    assume bad: "\<not> ?thesis"
    have ok: "sr_status res' = ''ok''" using assms(4) by (simp add: live_body_iff)
    have "res' = res"
    proof (rule ccontr)
      assume "res' \<noteq> res"
      then have "\<exists>code err. res' = failed code err res"
        using assms(1) Some by (auto simp: enforce_structured_validity_def split: json.splits if_splits option.splits)
      then show False using ok by auto
    qed
    then have "b0 = b" using Some assms(4) by simp
    then have "sr_status res' = ''error''"
      using assms Some bad by (auto simp: enforce_structured_validity_def)
    then show False using ok by simp
  qed
qed

text \<open>C16: with the validity floor on, a request for JSON is answered with JSON or refused. Whatever the
  corrections made of the request, and whatever the backend, the repairs and the re-dispatches then
  produced: if the caller's payload asked for a JSON answer and the result leaves the proxy as \<^verbatim>\<open>ok\<close>
  with a text and a token count that can be read, the text is blank (a tool call) or parses. A body
  whose token count cannot be read passes (\<open>floor_passes_on_a_bad_count\<close>).\<close>

theorem json_request_gets_json:
  assumes "request_corrections g now ep r s0 = Inr (r', s1)" "request_expects_json r" "rf_validity f"
    "apply_corrections f e r' res s = (res', s')" "live_body r' res' = Some b"
    "chat_completion_text b = JStr t" "completion_tokens b \<noteq> None"
  shows "py_strip t = [] \<or> loads_ok t"
proof -
  obtain r5 s5 s6 where "enforce_structured_validity f r' r5 (shadow_egress_detect f e r' r5 s5) = (res', s6)"
    by (rule apply_corrections_steps [where r = r' and res = res and s = s and e = e and f = f]) (use assms(4) in auto)
  then show ?thesis
    using validity_floor assms(2,3,5-7) request_corrections_keep_gates [OF assms(1)] unfolding keeps_gates_def by blast
qed

subsection \<open>A schema handed over as a tool call comes back as content\<close>

lemma forced_answer_content:
  assumes "body_choice b = Some c"
  shows "body_message (answer_with args m c b) = Some (od_del ''tool_calls'' (od_put ''content'' (JStr args) m))"
  using assms by (simp add: answer_with_def Let_def body_message_def)

lemma translated_request:
  assumes "chat_payload r = Some p" "gu_schema r = None" "gu_schema (apply_forced_tool_schema ep r) = Some sch"
  obtains js q where "schema_target p = Some (js, sch, q)" "\<not> list_ex declares_tools (containers p)"
    "apply_forced_tool_schema ep r = (with_payload (with_forced_tool (forced_tool_name (jget js ''name'')) js sch q) r)
       \<lparr>gu_schema := Some sch, gu_tool := forced_tool_name (jget js ''name'')\<rparr>"
  using assms by (auto simp: apply_forced_tool_schema_def Let_def split: option.splits if_splits prod.splits)

text \<open>C17: the translation of a schema into a forced tool call is undone in the answer. For every request
  the proxy translates, the backend is sent one tool, whose parameters are the caller's schema, and
  is told to call it; and if it calls it with arguments that are a JSON object, the caller finds
  exactly that text as the content, no tool call, and a finish reason that is not \<^verbatim>\<open>tool_calls\<close>. The
  caller had declared no tools of its own.\<close>

theorem forced_schema_round_trip:
  assumes "chat_payload r = Some p" "gu_schema r = None" "r' = apply_forced_tool_schema ep r" "gu_schema r' = Some sch"
    and "sr_status res = ''ok''" "sr_response res = JObj b" "body_choice b = Some c" "body_message b = Some m"
    and "object_calls b = tc # tcs" "call_name tc = Some (gu_tool r')" "list_all (\<lambda>t. call_name t \<noteq> None) tcs"
    and "call_arguments tc = Some (JStr a)" "loads_object a" "py_strip a \<noteq> []"
  shows "\<exists>js q b' c'. chat_payload r' = Some q \<and>
    jget q ''tools'' = JList [function_ref (forced_function (gu_tool r') js sch)] \<and>
    jget q ''tool_choice'' = function_ref [(''name'', JStr (gu_tool r'))] \<and> \<not> list_ex declares_tools (containers p) \<and>
    finalize_forced_tool_schema r' res s = (res\<lparr>sr_response := JObj b', sr_forced := True\<rparr>, s) \<and>
    chat_completion_text b' = JStr a \<and> response_tool_calls b' = [] \<and>
    body_choice b' = Some c' \<and> jget c' ''finish_reason'' \<noteq> JStr ''tool_calls''"
proof -
  obtain js q where t: "schema_target p = Some (js, sch, q)" "\<not> list_ex declares_tools (containers p)"
      and r': "r' = (with_payload (with_forced_tool (forced_tool_name (jget js ''name'')) js sch q) r)
        \<lparr>gu_schema := Some sch, gu_tool := forced_tool_name (jget js ''name'')\<rparr>"
    using translated_request [OF assms(1,2)] assms(3,4) by metis
  let ?q = "with_forced_tool (gu_tool r') js sch q" and ?b = "answer_with a m c b"
  have q: "chat_payload r' = Some ?q" using assms(1) by (simp add: r' chat_payload_iff with_payload_def)
  have "apply_forced_tool_answer b (gu_tool r') = Translated ?b"
    using assms(7-14) by (simp add: apply_forced_tool_answer_def forced_tool_arguments_def list_ex_iff list_all_iff)
  moreover have "live_body r' res = Some b" using assms(1,5,6) by (simp add: live_body_iff r' chat_payload_iff with_payload_def)
  ultimately have "finalize_forced_tool_schema r' res s = (res\<lparr>sr_response := JObj ?b, sr_forced := True\<rparr>, s)"
    using assms(4) by (simp add: finalize_forced_tool_schema_def)
  moreover have "chat_completion_text ?b = JStr a" "response_tool_calls ?b = []"
    using assms(14) by (auto simp: chat_completion_text_def response_tool_calls_def forced_answer_content [OF assms(7)]
        or_empty_def py_strip_def)
  moreover have "\<exists>c'. body_choice ?b = Some c' \<and> jget c' ''finish_reason'' \<noteq> JStr ''tool_calls''"
    using assms(7) by (simp add: answer_with_def Let_def)
  ultimately show ?thesis using q t(2) by (auto simp: with_forced_tool_def)
qed


definition resp_demo_env :: resp_env where
  "resp_demo_env = \<lparr>rv_loads = (\<lambda>t. if t = ''{}'' then Some (JObj []) else if t = ''{1'' then None else Some (JInt 1)),
     rv_decode = (\<lambda>t. None), rv_repair = (\<lambda>t. None), rv_has_schema_lib = False, rv_schema_compiles = (\<lambda>_. True),
     rv_schema_accepts = (\<lambda>_ _. True), rv_schema_message = (\<lambda>_ _. []), rv_call = (\<lambda>_ _. None), rv_left = (\<lambda>_. 60), rv_now = 0,
     rv_endpoint_known = True, rv_mislabels_cut = False\<rparr>"

definition resp_demo_flags :: resp_flags where
  "resp_demo_flags = \<lparr>rf_validity = True, rf_degeneration = False, rf_degeneration_shadow = False, rf_backstop = False,
     rf_backstop_shadow = False, rf_shadow_egress = True, rf_uniform = True\<rparr>"

definition resp_demo_state :: resp_state where
  "resp_demo_state = \<lparr>ws_active = [], ws_requests = 0, ws_noop = 0, ws_clean = 0, ws_recovered = 0, ws_truncated = 0, ws_fallback = 0,
     ws_trunc_total = 0, ws_trunc_by = [], ws_tool_turns = 0, ws_tool_turns_by = [], ws_degen_detected = 0, ws_degen_recovered = 0,
     ws_degen_unrecovered = 0, ws_degen_by = [], ws_degen_inflight = 0, ws_schema_detected = 0, ws_schema_repaired = 0,
     ws_schema_retried = 0, ws_schema_unrecoverable = 0, ws_schema_stream = 0, ws_schema_by = [], ws_schema_inflight = 0,
     ws_shadow = [], ws_parse_fail = 0, ws_parse_fail_by = [], ws_empty = 0, ws_empty_by = [], ws_window = [], ws_samples = [],
     ws_persisted = []\<rparr>"

definition resp_demo_body :: "string \<Rightarrow> payload" where
  "resp_demo_body t = [(''choices'', JList [JObj [(''message'', JObj [(''content'', JStr t)]), (''finish_reason'', JStr ''stop'')]])]"

definition resp_demo_result :: "string \<Rightarrow> sync_result" where
  "resp_demo_result t = \<lparr>sr_status = ''ok'', sr_response = JObj (resp_demo_body t), sr_error = [], sr_code = [], sr_forced = False,
     sr_repaired = False, sr_retried = False, sr_unrecoverable = False, sr_degenerate = False\<rparr>"

lemma json_request_gets_json_witness:
  "\<exists>r' s1 s'. request_corrections guard_demo_flags 0 (Some guard_demo_endpoint) guard_demo_request guard_demo_state = Inr (r', s1) \<and>
     apply_corrections resp_demo_flags resp_demo_env r' (resp_demo_result ''{}'') resp_demo_state = (resp_demo_result ''{}'', s') \<and> loads_ok ''{}'' \<and>
     sr_status (fst (apply_corrections resp_demo_flags resp_demo_env r' (resp_demo_result ''{1'') resp_demo_state)) = ''error''"
proof -
  let ?r = "guard_demo_request\<lparr>gu_payload := JObj [(''model'', JStr ''m'')], gu_stripped := True\<rparr>"
  have c: "request_corrections guard_demo_flags 0 (Some guard_demo_endpoint) guard_demo_request guard_demo_state = Inr (?r, guard_demo_state)"
    by code_simp
  have x: "request_expects_json guard_demo_request" "rf_validity resp_demo_flags" by code_simp+
  have a: "fst (apply_corrections resp_demo_flags resp_demo_env ?r (resp_demo_result ''{}'') resp_demo_state) = resp_demo_result ''{}''"
    by code_simp
  obtain s' where s': "apply_corrections resp_demo_flags resp_demo_env ?r (resp_demo_result ''{}'') resp_demo_state = (resp_demo_result ''{}'', s')"
    using a by (metis prod.collapse)
  have b: "live_body ?r (resp_demo_result ''{}'') = Some (resp_demo_body ''{}'')" "chat_completion_text (resp_demo_body ''{}'') = JStr ''{}''"
      "completion_tokens (resp_demo_body ''{}'') \<noteq> None" "py_strip ''{}'' \<noteq> []" by code_simp+
  have "sr_status (fst (apply_corrections resp_demo_flags resp_demo_env ?r (resp_demo_result ''{1'') resp_demo_state)) = ''error''" by code_simp
  moreover have "loads_ok ''{}''" using json_request_gets_json [OF c x s' b(1-3)] b(4) by blast
  ultimately show ?thesis using c s' by blast
qed

definition forced_demo_request :: chat_request where
  "forced_demo_request = guard_demo_request\<lparr>gu_payload := JObj [(rf_key, JObj [(''type'', JStr ''json_schema''),
     (''json_schema'', JObj [(''name'', JStr ''my card''), (''schema'', JObj [(''type'', JStr ''object'')])])])]\<rparr>"

definition forced_demo_endpoint :: guard_endpoint where
  "forced_demo_endpoint = guard_demo_endpoint\<lparr>ge_not_implemented := [''response_format'']\<rparr>"

definition forced_demo_call :: json where
  "forced_demo_call = JObj [(''function'', JObj [(''name'', JStr ''my_card''), (''arguments'', JStr ''{}'')])]"

definition forced_demo_message :: payload where
  "forced_demo_message = [(''content'', JNull), (''tool_calls'', JList [forced_demo_call])]"

definition forced_demo_choice :: payload where
  "forced_demo_choice = [(''message'', JObj forced_demo_message), (''finish_reason'', JStr ''tool_calls'')]"

definition forced_demo_result :: sync_result where
  "forced_demo_result = (resp_demo_result [])\<lparr>sr_response := JObj [(''choices'', JList [JObj forced_demo_choice])]\<rparr>"

lemma forced_schema_round_trip_witness:
  "\<exists>b'. finalize_forced_tool_schema (apply_forced_tool_schema (Some forced_demo_endpoint) forced_demo_request) forced_demo_result resp_demo_state
     = (forced_demo_result\<lparr>sr_response := JObj b', sr_forced := True\<rparr>, resp_demo_state) \<and> chat_completion_text b' = JStr ''{}''"
proof -
  let ?r' = "apply_forced_tool_schema (Some forced_demo_endpoint) forced_demo_request"
  let ?b = "[(''choices'', JList [JObj forced_demo_choice])]"
  obtain p where p: "chat_payload forced_demo_request = Some p" by (simp add: forced_demo_request_def guard_demo_request_def chat_payload_def)
  have g: "gu_schema forced_demo_request = None" "gu_schema ?r' = Some [(''type'', JStr ''object'')]" "gu_tool ?r' = ''my_card''" by code_simp+
  have b: "sr_status forced_demo_result = ''ok''" "sr_response forced_demo_result = JObj ?b" "body_choice ?b = Some forced_demo_choice"
      "body_message ?b = Some forced_demo_message" "object_calls ?b = forced_demo_call # []" by code_simp+
  have c: "call_name forced_demo_call = Some ''my_card''" "list_all (\<lambda>t. call_name t \<noteq> None) []"
      "call_arguments forced_demo_call = Some (JStr ''{}'')" "loads_object ''{}''" "py_strip ''{}'' \<noteq> []" by code_simp+
  show ?thesis
    using forced_schema_round_trip [OF p g(1) refl g(2) b c(1)[folded g(3)] c(2-5), of resp_demo_state] by auto
qed

subsection \<open>A thinking answer is clean or refused\<close>

lemma recover_scan_keys:
  "recover_scan decode allowed t = Some u \<Longrightarrow> \<exists>d. u = json_dumps_raw (JObj d) \<and> d \<noteq> [] \<and> set (od_keys d) \<subseteq> set allowed"
  by (induction t) (auto split: if_splits option.splits json.splits)

lemma thinking_pops:
  assumes "finalize_thinking e r res s = (res', s')" "od_get (ws_active s) (gu_id r) = Some allowed"
  shows "ws_active s' = od_del (gu_id r) (ws_active s)"
  using assms by (auto simp: finalize_thinking_def Let_def split: if_splits json.splits option.splits)

definition string_content :: "json \<Rightarrow> (payload \<times> string) option" where
  "string_content v = (case v of
     JObj b \<Rightarrow> (case body_message b of
        Some m \<Rightarrow> (case jget m ''content'' of JStr t \<Rightarrow> Some (b, t) | _ \<Rightarrow> None) | None \<Rightarrow> None)
   | _ \<Rightarrow> None)"

lemma string_content_iff:
  "string_content v = Some (b, t) \<longleftrightarrow> v = JObj b \<and> (\<exists>m. body_message b = Some m \<and> jget m ''content'' = JStr t)"
  by (auto simp: string_content_def split: json.splits option.splits)

lemma thinking_no_content:
  assumes "finalize_thinking e r res s = (res', s')" "string_content (sr_response res) = None"
  shows "res' = res"
  using assms by (auto simp: finalize_thinking_def string_content_def Let_def split: if_splits json.splits option.splits)

lemma thinking_content:
  assumes "finalize_thinking e r res s = (res', s')" "od_get (ws_active s) (gu_id r) = Some allowed" "allowed \<noteq> []"
    "string_content (sr_response res) = Some (b, t)" "sr_status res' = ''ok''"
  shows "within_keys (rv_loads e) allowed t \<and> res' = res \<or>
    (\<exists>u. recover_structured_object (rv_decode e) t None (Some allowed) = Some u \<and> res' = res\<lparr>sr_response := JObj (put_content u b)\<rparr>)"
proof -
  have ok: "sr_status res = ''ok''" using thinking_closed [of res e r s] assms(1,5) by (auto simp: fails_closed_def)
  obtain m where m: "sr_response res = JObj b" "body_message b = Some m" "jget m ''content'' = JStr t"
    using assms(4) by (auto simp: string_content_iff)
  obtain c where c: "body_choice b = Some c" using body_message_choice [OF m(2)] by blast
  show ?thesis
  proof (cases "within_keys (rv_loads e) allowed t")
    case True
    then show ?thesis using assms(1-3) ok m c by (auto simp: finalize_thinking_def Let_def split: if_splits)
  next
    case no: False
    show ?thesis
    proof (cases "recover_structured_object (rv_decode e) t None (Some allowed)")
      case None
      then have "sr_status res' = ''error''"
        using assms(1-3) ok m c no by (auto simp: finalize_thinking_def Let_def split: if_splits)
      then show ?thesis using assms(5) by simp
    next
      case (Some u)
      then show ?thesis using assms(1-3) ok m c no by (auto simp: finalize_thinking_def Let_def split: if_splits)
    qed
  qed
qed

text \<open>C19: a thinking request that constrained its answer to an object never receives noise as its text.
  When the finaliser lets its answer through and the content is a text, that text loads as an object,
  or is the print of an object found in it, with no key the constraint does not name; whatever the
  outcome, the request is no longer waited for. An answer whose content is null or absent, as when
  the reasoning used up the budget, is not looked at.\<close>

theorem thinking_answer_clean:
  assumes "od_get (ws_active s) (gu_id r) = Some allowed" "allowed \<noteq> []"
    and "finalize_thinking e r res s = (res', s')"
  shows "gu_id r \<notin> set (od_keys (ws_active s')) \<and>
    (\<forall>b t. sr_status res' = ''ok'' \<longrightarrow> string_content (sr_response res') = Some (b, t) \<longrightarrow>
      (\<exists>d. (rv_loads e t = Some (JObj d) \<or> t = json_dumps_raw (JObj d)) \<and> set (od_keys d) \<subseteq> set allowed))"
proof (intro conjI allI impI)
  have "gu_id r \<notin> fst ` set (od_del (gu_id r) (ws_active s))" by simp
  then show "gu_id r \<notin> set (od_keys (ws_active s'))" using thinking_pops [OF assms(3,1)] by simp
next
  fix b t assume ok: "sr_status res' = ''ok''" and t: "string_content (sr_response res') = Some (b, t)"
  show "\<exists>d. (rv_loads e t = Some (JObj d) \<or> t = json_dumps_raw (JObj d)) \<and> set (od_keys d) \<subseteq> set allowed"
  proof (cases "string_content (sr_response res)")
    case None
    then show ?thesis using thinking_no_content [OF assms(3)] t by simp
  next
    case (Some bt)
    obtain b0 t0 where s0: "string_content (sr_response res) = Some (b0, t0)" using Some by (cases bt) auto
    obtain m where m: "body_message b0 = Some m" using s0 by (auto simp: string_content_iff)
    from thinking_content [OF assms(3,1,2) s0 ok] show ?thesis
    proof (elim disjE conjE exE)
      assume "within_keys (rv_loads e) allowed t0" "res' = res"
      then show ?thesis using s0 t by (auto simp: within_keys_def split: option.splits json.splits)
    next
      fix u assume u: "recover_structured_object (rv_decode e) t0 None (Some allowed) = Some u"
        "res' = res\<lparr>sr_response := JObj (put_content u b0)\<rparr>"
      then have "t = u" using t m by (auto simp: string_content_iff put_content_def)
      moreover have "recover_scan (rv_decode e) allowed t0 = Some u" using u(1) assms(2) by (simp add: recover_structured_object_def)
      ultimately show ?thesis using recover_scan_keys by metis
    qed
  qed
qed


lemma thinking_answer_clean_witness:
  "gu_id guard_demo_request \<notin> set (od_keys (ws_active (snd (finalize_thinking
       (resp_demo_env\<lparr>rv_decode := (\<lambda>t. if t = ''{1'' then Some (JObj [(''a'', JInt 1)]) else None)\<rparr>) guard_demo_request
       (resp_demo_result ''{{1'') (resp_demo_state\<lparr>ws_active := [(''r1'', [''a''])]\<rparr>))))) \<and>
   sr_response (fst (finalize_thinking
       (resp_demo_env\<lparr>rv_decode := (\<lambda>t. if t = ''{1'' then Some (JObj [(''a'', JInt 1)]) else None)\<rparr>) guard_demo_request
       (resp_demo_result ''{{1'') (resp_demo_state\<lparr>ws_active := [(''r1'', [''a''])]\<rparr>))) = JObj (resp_demo_body (json_dumps_raw (JObj [(''a'', JInt 1)])))"
  (is "_ \<notin> set (od_keys (ws_active (snd ?f))) \<and> ?b")
proof
  have a: "od_get (ws_active (resp_demo_state\<lparr>ws_active := [(''r1'', [''a''])]\<rparr>)) (gu_id guard_demo_request) = Some [''a'']" by code_simp
  show "gu_id guard_demo_request \<notin> set (od_keys (ws_active (snd ?f)))"
    using thinking_answer_clean [OF a, of _ _ "fst ?f" "snd ?f"] by auto
  show ?b by code_simp
qed

subsection \<open>What the backstop releases satisfies the schema\<close>

lemma text_put_message:
  assumes "body_message b = Some m" "jget m' ''content'' = jget m ''content''"
  shows "chat_completion_text (put_message m' b) = chat_completion_text b"
  using assms by (simp add: chat_completion_text_def)

lemma text_repaired_args: "clone_with_repaired_args e b = Some b' \<Longrightarrow> chat_completion_text b' = chat_completion_text b"
  by (auto simp: clone_with_repaired_args_def intro!: text_put_message split: option.splits json.splits)

text \<open>A repaired value prints to a text that reads back as it.\<close>

definition repairs_print :: "resp_env \<Rightarrow> bool" where
  "repairs_print e \<longleftrightarrow> (\<forall>u v. rv_repair e u = Some v \<longrightarrow> rv_loads e (json_dumps_raw v) = Some v)"

lemma repair_content_valid:
  assumes "repairs_print e"
    and "repair_content e b schema = Some b'"
  shows "\<exists>t. chat_completion_text b' = JStr t \<and> content_valid e t schema"
proof -
  obtain t v where t: "chat_completion_text b = JStr t" and v: "repair_json_text e t = Some v" "schema_valid e v schema"
      and b': "b' = put_content (json_dumps_raw v) b"
    using assms(2) by (auto simp: repair_content_def split: json.splits option.splits if_splits)
  have "rv_repair e t = Some v" "py_strip t \<noteq> []" using v(1) by (auto simp: repair_json_text_def split: if_splits option.splits)
  moreover have "t \<noteq> []" using \<open>py_strip t \<noteq> []\<close> by (auto simp: py_strip_def)
  moreover obtain m where "body_message b = Some m" using text_message [OF t \<open>t \<noteq> []\<close>] by blast
  ultimately show ?thesis using assms(1) v(2) b' by (auto simp: content_valid_def repairs_print_def)
qed

text \<open>The body a conforming check lets through, whole or repaired.\<close>

lemma conform_valid:
  assumes "repairs_print e"
    and "conform_body e b schema True = Inr c" "c = Conf_ok \<and> b' = b \<or> c = Conf_repaired b'"
    and "chat_completion_text b' = JStr t" "py_strip t \<noteq> []"
  shows "content_valid e t schema"
proof -
  obtain ok where ok: "content_ok e b schema True = Inr ok" using assms(2) by (auto simp: conform_body_def py_bind_def split: sum.splits)
  show ?thesis
  proof (cases ok)
    case True
    then have "chat_completion_text b' = chat_completion_text b"
      using assms(2,3) ok by (auto simp: conform_body_def Let_def text_repaired_args split: if_splits option.splits)
    then have "chat_completion_text b = JStr t" using assms(4) by simp
    then show ?thesis using True ok assms(5) by (auto simp: content_ok_def)
  next
    case False
    then obtain b1 where b1: "repair_content e b schema = Some b1" "chat_completion_text b' = chat_completion_text b1"
      using assms(2,3) ok by (auto simp: conform_body_def Let_def text_repaired_args split: if_splits option.splits)
    then show ?thesis using repair_content_valid [OF assms(1) b1(1)] assms(4) by auto
  qed
qed

lemma schema_retry_valid:
  assumes "repairs_print e" "schema_retry e r p schema err True s = (Some b', s')"
    and "chat_completion_text b' = JStr t" "py_strip t \<noteq> []"
  shows "content_valid e t schema"
proof -
  obtain b c where "conform_body e (retry_body r b) schema True = Inr c"
      "c = Conf_ok \<and> b' = retry_body r b \<or> c = Conf_repaired b'"
    using assms(2) by (auto simp: schema_retry_def Let_def split: if_splits option.splits sum.splits conformed.splits)
  then show ?thesis using conform_valid [OF assms(1) _ _ assms(3,4)] by blast
qed

lemma refused_not_live: "live_body r' (fst (schema_refused r err res s)) = None"
  by (simp add: schema_refused_def failed_def live_body_def)

text \<open>C18: the schema backstop releases only what satisfies the schema. When it is on and not in shadow,
  the request is structured and had to be answered in JSON, its declared schema can be read and the
  answer that came in is a text, then the text of a result that leaves it as \<^verbatim>\<open>ok\<close> is blank or
  loads as a value the schema check accepts, whether the answer was valid, repaired, or asked for
  again. With no schema, or with one the library cannot use, the check accepts every value. The
  repair library is taken to return values that print to a text which reads back as them.\<close>

theorem backstop_releases_valid:
  assumes "repairs_print e"
    and "rf_backstop f" "\<not> rf_backstop_shadow f" "request_is_structured r" "request_expects_json r"
    and "live_body r res = Some b0" "chat_completion_text b0 = JStr t0" "declared_schema r = Inr schema"
    and "maybe_repair_schema f e r res s = (res', s')" "live_body r res' = Some b'"
    and "chat_completion_text b' = JStr t" "py_strip t \<noteq> []"
  shows "content_valid e t schema"
proof -
  have "\<exists>c. conform_body e b0 schema True = Inr c" using assms(7) by (simp add: conform_body_def content_ok_def Let_def)
  then obtain c where c: "conform_body e b0 schema True = Inr c" by blast
  note valid = conform_valid [OF assms(1) c _ assms(11,12)]
  have step: "(case c of Conf_ok \<Rightarrow> (res, s) | Conf_repaired b1 \<Rightarrow> schema_fixed r b1 res (schema_seen r s)
      | Conf_failed \<Rightarrow> (case schema_retry e r (payload_of r) schema (validation_error e b0 schema) True (schema_seen r s) of
            (Some b1, s) \<Rightarrow> schema_redone r b1 res s
          | (None, s) \<Rightarrow> schema_refused r (validation_error e b0 schema) res s)) = (res', s')"
    using assms(9) by (cases c) (simp_all add: maybe_repair_schema_def assms(2-6,8) c)
  show ?thesis
  proof (cases c)
    case Conf_ok
    then show ?thesis using valid step assms(6,10) by simp
  next
    case (Conf_repaired b1)
    then show ?thesis using valid step assms(10) by (auto simp: schema_fixed_def live_body_iff)
  next
    case Conf_failed
    obtain x s1 where x: "schema_retry e r (payload_of r) schema (validation_error e b0 schema) True (schema_seen r s) = (x, s1)"
      by fastforce
    show ?thesis
    proof (cases x)
      case None
      then have "res' = fst (schema_refused r (validation_error e b0 schema) res s1)" using step Conf_failed x by simp
      then show ?thesis using assms(10) refused_not_live by simp
    next
      case (Some b1)
      then have "b1 = b'" using step Conf_failed x assms(10) by (auto simp: schema_redone_def live_body_iff)
      then show ?thesis using schema_retry_valid [OF assms(1) x [unfolded Some]] assms(11,12) by simp
    qed
  qed
qed


definition backstop_demo_env :: resp_env where
  "backstop_demo_env = resp_demo_env\<lparr>rv_repair := (\<lambda>t. if t = ''{1'' then Some (JObj []) else None), rv_has_schema_lib := True,
     rv_schema_accepts := (\<lambda>_ v. is_obj v), rv_call := (\<lambda>_ _. Some (resp_demo_body ''1''))\<rparr>"

definition backstop_demo_flags :: resp_flags where
  "backstop_demo_flags = resp_demo_flags\<lparr>rf_backstop := True\<rparr>"

lemma backstop_releases_valid_witness:
  "sr_response (fst (maybe_repair_schema backstop_demo_flags backstop_demo_env guard_demo_request (resp_demo_result ''{1'') resp_demo_state))
     = JObj (resp_demo_body ''{}'') \<and> content_valid backstop_demo_env ''{}'' None"
proof -
  let ?f = "maybe_repair_schema backstop_demo_flags backstop_demo_env guard_demo_request (resp_demo_result ''{1'') resp_demo_state"
  have p: "repairs_print backstop_demo_env"
    by (simp add: repairs_print_def backstop_demo_env_def resp_demo_env_def)
  have g: "rf_backstop backstop_demo_flags" "\<not> rf_backstop_shadow backstop_demo_flags" "request_is_structured guard_demo_request"
      "request_expects_json guard_demo_request" "live_body guard_demo_request (resp_demo_result ''{1'') = Some (resp_demo_body ''{1'')"
      "chat_completion_text (resp_demo_body ''{1'') = JStr ''{1''" "declared_schema guard_demo_request = Inr None" by code_simp+
  have a: "live_body guard_demo_request (fst ?f) = Some (resp_demo_body ''{}'')" "chat_completion_text (resp_demo_body ''{}'') = JStr ''{}''"
      "py_strip ''{}'' \<noteq> []" by code_simp+
  have "sr_response (fst ?f) = JObj (resp_demo_body ''{}'')" by code_simp
  moreover have "content_valid backstop_demo_env ''{}'' None"
    by (rule backstop_releases_valid [OF p g _ a]) (rule prod.collapse [symmetric])
  ultimately show ?thesis by simp
qed

subsection \<open>Where the guards disagree with their own description\<close>

text \<open>The one retry is judged by whether the request is structured, not by whether its answer must be
  JSON. A request with a top-level \<^verbatim>\<open>guided_json\<close> is JSON and not structured, so its retry is released
  unread: here a number for a schema that asks for an object.\<close>

lemma guided_json_retry_unchecked:
  "let r = guard_demo_request\<lparr>gu_payload := JObj [(''guided_json'', JObj [(''type'', JStr ''object'')]), (''tools'', JList [JNull])]\<rparr>;
       res = fst (maybe_repair_schema backstop_demo_flags backstop_demo_env r (resp_demo_result ''0'') resp_demo_state)
   in request_expects_json r \<and> sr_retried res \<and> sr_response res = JObj (resp_demo_body ''1'') \<and>
      \<not> content_valid backstop_demo_env ''1'' (Some [(''type'', JStr ''object'')])"
  by code_simp

text \<open>The other way round, a grammar of bare words is structured and not JSON: an answer with a broken
  tool call is asked for again, and the good answer that comes back is refused because its content is
  the word the grammar asked for.\<close>

definition bare_word_request :: chat_request where
  "bare_word_request = guard_demo_request\<lparr>gu_payload := JObj [(''grammar'', JStr (''root ::= '' @ [dquote] @ ''yes'' @ [dquote]))]\<rparr>"

definition bare_word_env :: resp_env where
  "bare_word_env = resp_demo_env\<lparr>rv_loads := (\<lambda>_. None), rv_call := (\<lambda>_ _. Some (resp_demo_body ''yes''))\<rparr>"

definition broken_call_result :: sync_result where
  "broken_call_result = (resp_demo_result [])\<lparr>sr_response := JObj [(''choices'', JList [JObj [(''message'', JObj [(''content'', JStr ''yes''),
     (''tool_calls'', JList [JObj [(''function'', JObj [(''name'', JStr ''f''), (''arguments'', JStr ''{1'')])]])])]])]\<rparr>"

lemma good_retry_refused:
  "conform_body bare_word_env (resp_demo_body ''yes'') None (request_expects_json bare_word_request) = Inr Conf_ok \<and>
   sr_code (fst (maybe_repair_schema backstop_demo_flags bare_word_env bare_word_request broken_call_result resp_demo_state)) = ''schema_invalid''"
  by code_simp

text \<open>The reply to a translated request is a tool call. The backstop's retry is translated back, the
  re-dispatch of a repetition loop is not: it finds no text in either reply, and two backend calls are
  spent on what cannot succeed.\<close>

lemma translated_loop_never_recovers:
  assumes "gu_payload r = JObj p" "\<And>i. min_retry_budget_s \<le> rv_left e i"
    and "\<And>i q. \<exists>b. rv_call e i q = Some b \<and> chat_completion_text b = JStr []"
  shows "degen_attempts e r penalties s = (Exhausted, note_sample ''degen_retry'' (note_sample ''degen_retry'' s))"
proof -
  have step: "degen_attempts e r ((i, x) # rest) s = degen_attempts e r rest (note_sample ''degen_retry'' s)" for i x rest s
    using assms(1) assms(2) [of i] assms(3) [of "gu_id r @ ''-degen'' @ show_nat i" "merged (payload_of r) x"]
    by (auto simp: Let_def is_obj_def)
  show ?thesis unfolding penalties_def step by simp
qed

lemma forced_call_has_no_text:
  "chat_completion_text [(''choices'', JList [JObj forced_demo_choice])] = JStr []"
  by code_simp

text \<open>The floor reads the token count before it refuses, and swallows the exception of one that is no
  number: the answer that does not parse leaves as \<^verbatim>\<open>ok\<close>.\<close>

lemma floor_passes_on_a_bad_count:
  "let b = (''usage'', JObj [(''completion_tokens'', JStr ''many'')]) # resp_demo_body ''{1'';
       res = (resp_demo_result [])\<lparr>sr_response := JObj b\<rparr>
   in request_expects_json guard_demo_request \<and> \<not> loads_ok ''{1'' \<and>
      enforce_structured_validity resp_demo_flags guard_demo_request res resp_demo_state = (res, resp_demo_state)"
  by code_simp

end
