(* ===== verification/Deadline_Grant.thy ===== *)
theory Deadline_Grant
  imports Submit Request_Guards Replay
begin

section \<open>From admission to the queue (lifecycle.py, the end of handle_submit)\<close>

text \<open>
  What happens to an admitted request before it is queued: the reasoning of earlier turns is put
  back, the corrections of \<^verbatim>\<open>correction.py\<close> rewrite the payload, and because they may raise
  \<^verbatim>\<open>max_tokens\<close> after the deadline was chosen, \<^verbatim>\<open>extend_deadline_for_granted_budget\<close> derives it again. With
  \<open>handle_submit\<close> of \<open>Submit\<close> this is the whole of the source's method up to the two branches that wait
  for the answer.
\<close>

subsection \<open>The deadline of a granted budget\<close>

text \<open>The advice for the request as it is now, when a correction raised a positive whole \<^verbatim>\<open>max_tokens\<close> and
  the prompt can be sized; every other case, an exception included, leaves the deadline alone.\<close>

definition granted_advice :: "submit_env \<Rightarrow> gateway \<Rightarrow> json \<Rightarrow> queued_request \<Rightarrow> int option" where
  "granted_advice e g mt_before r =
     (case (positive_int (jget (rq_payload r) ''max_tokens''), positive_int mt_before) of
        (Some mt_after, Some before) \<Rightarrow>
          if mt_after \<le> before then None
          else (case estimate_input_tokens (rq_payload r) of
             Inl _ \<Rightarrow> None
           | Inr n \<Rightarrow> Some (recommended_timeout_s (effective_timeout_advice (sv_roles e) (sv_deadlines e) (gw_timeouts g)
               (px_sched (gw_proxy g)) (rq_endpoint r) (prio_int (rq_priority r)) n mt_after)))
      | _ \<Rightarrow> None)"

definition extend_deadline_for_granted_budget :: "submit_env \<Rightarrow> gateway \<Rightarrow> json \<Rightarrow> queued_request \<Rightarrow> queued_request" where
  "extend_deadline_for_granted_budget e g mt_before r =
     (case granted_advice e g mt_before r of
        None \<Rightarrow> r
      | Some rec \<Rightarrow> if rec = 0 \<or> of_int rec \<le> timeout_s r then r else r\<lparr>timeout_s := of_int rec\<rparr>)"

subsection \<open>The corrections of an admitted request\<close>

text \<open>What the corrections read besides the request: the declared behaviour of the endpoint, the
  replay opt-in, the flags, the JSON reader of the replay keys, the clock.\<close>

record correction_env =
  ce_endpoint :: "string \<Rightarrow> guard_endpoint option"
  ce_replays :: "string \<Rightarrow> bool"
  ce_flags :: guard_flags
  ce_loads :: "string \<Rightarrow> json option"
  ce_now :: real

definition chat_view :: "queued_request \<Rightarrow> chat_request" where
  "chat_view r =
     \<lparr>gu_payload = JObj (rq_payload r), gu_type = payload_type r, gu_stream = rq_stream r, gu_id = request_id r,
      gu_endpoint = rq_endpoint r, gu_agent = agent_id r, gu_site = call_site r, gu_stripped = json_object_stripped r,
      gu_schema = forced_tool_schema r, gu_tool = queued_request.forced_tool_name r\<rparr>"

definition view_payload :: "chat_request \<Rightarrow> payload" where
  "view_payload v = (case gu_payload v of JObj p \<Rightarrow> p | _ \<Rightarrow> [])"

definition with_view :: "chat_request \<Rightarrow> queued_request \<Rightarrow> queued_request" where
  "with_view v r = r\<lparr>rq_payload := view_payload v, json_object_stripped := gu_stripped v,
     forced_tool_schema := gu_schema v, forced_tool_name := gu_tool v\<rparr>"

record correction_state =
  cs_guards :: guard_state
  cs_replay :: replay_state

definition correct_admitted ::
    "submit_env \<Rightarrow> correction_env \<Rightarrow> gateway \<Rightarrow> queued_request \<Rightarrow> correction_state \<Rightarrow> (queued_request \<times> correction_state) py" where
  "correct_admitted e c g r s =
     (case apply_reasoning_replay_restore (sv_sha e) (ce_loads c) (ce_replays c (rq_endpoint r)) (rq_endpoint r) (ce_now c)
             (rq_payload r) (cs_replay s) of
        (p, rs) \<Rightarrow>
          let v = chat_view (r\<lparr>rq_payload := p\<rparr>);
              ep = ce_endpoint c (rq_endpoint r);
              mt_before = jget (view_payload (fst (canonicalize_thinking_switch (ce_now c) ep v (cs_guards s)))) ''max_tokens''
          in py_bind (request_corrections (ce_flags c) (ce_now c) ep v (cs_guards s)) (\<lambda>(v', gs).
               Inr (extend_deadline_for_granted_budget e g mt_before (with_view v' r), \<lparr>cs_guards = gs, cs_replay = rs\<rparr>)))"

text \<open>The request as it is handed to the queue, with the key under which its answer is cached.\<close>

definition submit_corrected ::
    "submit_env \<Rightarrow> correction_env \<Rightarrow> wire \<Rightarrow> payload \<Rightarrow> request \<Rightarrow> gateway \<Rightarrow> correction_state
     \<Rightarrow> (queued_request \<times> string option \<times> correction_state) gated" where
  "submit_corrected e c w body rq g s =
     gate_bind (handle_submit e w body rq g) (\<lambda>g1 (r, key).
       case correct_admitted e c g1 r s of
         Inl err \<Rightarrow> (g1, Inl (Raised err))
       | Inr (r', s') \<Rightarrow> (g1, Inr (r', key, s')))"

subsection \<open>Lemmas\<close>

lemma extend_fields:
  "timeout_deadline (extend_deadline_for_granted_budget e g b r) = timeout_deadline r"
  "deadline_is_default (extend_deadline_for_granted_budget e g b r) = deadline_is_default r"
  "rq_payload (extend_deadline_for_granted_budget e g b r) = rq_payload r"
  "rq_endpoint (extend_deadline_for_granted_budget e g b r) = rq_endpoint r"
  "rq_priority (extend_deadline_for_granted_budget e g b r) = rq_priority r"
  by (simp_all add: extend_deadline_for_granted_budget_def split: option.split)



lemma with_view_fields [simp]:
  "timeout_s (with_view v r) = timeout_s r" "timeout_deadline (with_view v r) = timeout_deadline r"
  "deadline_is_default (with_view v r) = deadline_is_default r" "rq_endpoint (with_view v r) = rq_endpoint r"
  "rq_priority (with_view v r) = rq_priority r" "rq_payload (with_view v r) = view_payload v"
  by (simp_all add: with_view_def)


text \<open>The budget the deadline is compared with is the caller's: neither the restored reasoning nor the
  renamed switch touches it.\<close>

lemma rename_switch_max_tokens:
  assumes "rename_thinking_switch (JObj p) ks = (q, f)" shows "\<exists>p'. q = JObj p' \<and> jget p' ''max_tokens'' = jget p ''max_tokens''"
proof -
  obtain c1 f1 where c1: "rename_container [] ks p = (c1, f1)" by force
  have "jget c1 ''max_tokens'' = jget p ''max_tokens''" by (rule rename_container_kept[OF c1]) (simp add: ctk_def)
  then show ?thesis using assms c1
    by (auto simp: rename_thinking_switch_def split: if_splits json.splits prod.splits)
qed

lemma canonical_max_tokens:
  "jget (view_payload (fst (canonicalize_thinking_switch now ep v s))) ''max_tokens'' = jget (view_payload v) ''max_tokens''"
proof (cases "chat_payload v")
  case (Some p)
  then have v: "view_payload v = p" by (simp add: view_payload_def chat_payload_iff)
  show ?thesis
  proof (cases ep)
    case (Some g)
    obtain q f where q: "rename_thinking_switch (JObj p) (ge_switches g) = (q, f)" by force
    show ?thesis
      using rename_switch_max_tokens[OF q] v q \<open>chat_payload v = Some p\<close> Some
      by (auto simp: canonicalize_thinking_switch_def view_payload_def)
  qed (simp add: canonicalize_thinking_switch_def split: option.split)
qed (simp add: canonicalize_thinking_switch_def)

lemma restore_max_tokens:
  "jget (fst (apply_reasoning_replay_restore sha loads gate ep now p st)) ''max_tokens'' = jget p ''max_tokens''"
  by (auto simp: apply_reasoning_replay_restore_def split: json.split prod.split)

lemma submit_corrected_cases:
  assumes "submit_corrected e c w body rq g s = (g', Inr (r, key, s'))"
  obtains r0 v where "handle_submit e w body rq g = (g', Inr (r0, key))"
    "r = extend_deadline_for_granted_budget e g' (jget (rq_payload r0) ''max_tokens'') (with_view v r0)"
proof -
  obtain g1 r0 k where x: "handle_submit e w body rq g = (g1, Inr (r0, k))"
    "(case correct_admitted e c g1 r0 s of Inl err \<Rightarrow> (g1, Inl (Raised err)) | Inr (r', s') \<Rightarrow> (g1, Inr (r', k, s')))
      = (g', Inr (r, key, s'))"
    using assms unfolding submit_corrected_def gate_bind_Inr by auto
  then have h: "handle_submit e w body rq g = (g', Inr (r0, key))" "correct_admitted e c g' r0 s = Inr (r, s')"
    by (auto split: sum.splits prod.splits)
  let ?x = "apply_reasoning_replay_restore (sv_sha e) (ce_loads c) (ce_replays c (rq_endpoint r0)) (rq_endpoint r0) (ce_now c)
      (rq_payload r0) (cs_replay s)"
  have "view_payload (chat_view (r0\<lparr>rq_payload := fst ?x\<rparr>)) = fst ?x" by (simp add: view_payload_def chat_view_def)
  then have b: "jget (view_payload (fst (canonicalize_thinking_switch (ce_now c) (ce_endpoint c (rq_endpoint r0))
      (chat_view (r0\<lparr>rq_payload := fst ?x\<rparr>)) (cs_guards s)))) ''max_tokens'' = jget (rq_payload r0) ''max_tokens''"
    by (simp add: canonical_max_tokens restore_max_tokens)
  obtain v where "r = extend_deadline_for_granted_budget e g' (jget (rq_payload r0) ''max_tokens'') (with_view v r0)"
    using h(2) by (auto simp: correct_admitted_def Let_def py_bind_Inr case_prod_unfold b)
  with h(1) show thesis by (rule that)
qed

subsection \<open>Whose deadline a request runs under\<close>


text \<open>For evaluation on concrete inputs: the advice contains a logarithm, which does not evaluate.\<close>

lemma granted_advice_code [code]:
  "granted_advice e g mt_before r =
     (case (positive_int (jget (rq_payload r) ''max_tokens''), positive_int mt_before) of
        (Some mt_after, Some before) \<Rightarrow>
          if mt_after \<le> before then None else Code.abort (STR ''log'') (\<lambda>_. granted_advice e g mt_before r)
      | _ \<Rightarrow> None)"
  by (simp add: granted_advice_def split: option.split)





text \<open>The instant the queue and the backend calls work by is not moved: a budget that was granted more
  time to wait for is still cut where it was.\<close>

lemma granted_budget_is_still_cut:
  assumes "submit_corrected e c w body rq g s = (g', Inr (r, key, s'))"
  shows "\<exists>r0. handle_submit e w body rq g = (g', Inr (r0, key)) \<and> timeout_deadline r = timeout_deadline r0"
  by (rule submit_corrected_cases[OF assms]) (auto simp: extend_fields)

end
