(* ===== verification/Spec2Isabelle.thy ===== *)
theory Spec2Isabelle
  imports Scheduler_Progress Goodput Intent Key_Restart Submit Degeneration Grammar Tool_Stream Replay Observability Persist_Facts Persist_Reads Response_Guards Deadline_Grant
begin

text \<open>
  A verification development for roadstead (\<^verbatim>\<open>src/roadstead\<close>), a proxy that schedules requests of
  many callers onto a small fleet of language-model backends.

  \<^bold>\<open>The program and its parts.\<close> A request arrives with a payload, a priority and a caller, and passes
  the gates of one handler (\<^verbatim>\<open>lifecycle.py\<close>) before it is queued. The
  identity layer (\<^verbatim>\<open>identity.py\<close>, \<^verbatim>\<open>acl.py\<close>) decides who the caller is, from an API key or, if it
  presents none, from its address, and who may use the admin plane, where keys are enrolled,
  rotated and revoked (\<^verbatim>\<open>management.py\<close>). The
  intent resolver (\<^verbatim>\<open>intent.py\<close>) turns what the caller asked for into an endpoint; the response
  cache (\<^verbatim>\<open>coalesce.py\<close>) may answer at once; an on-demand endpoint is first loaded under a lease
  (\<^verbatim>\<open>on_demand.py\<close>); a sick endpoint may be stood in for by another (\<^verbatim>\<open>failover.py\<close>); the standing
  of the caller against its money cap and request rate (\<^verbatim>\<open>spend.py\<close>, \<^verbatim>\<open>rate.py\<close>, \<^verbatim>\<open>state.py\<close>) may
  lower its priority; then the scheduler (\<^verbatim>\<open>scheduler.py\<close>) queues it per endpoint, band and agent,
  and a periodic tick dispatches queued requests into free slots, choosing the agent by deficit
  round robin (\<^verbatim>\<open>agent_budget.py\<close>) with costs estimated by the cost model (\<^verbatim>\<open>cost_model.py\<close>). The
  timeout model (\<^verbatim>\<open>timeout_model.py\<close>) learns latencies and advises deadlines, and the poller watches
  the goodput of each backend (\<^verbatim>\<open>goodput.py\<close>) and drives its circuit breaker (\<^verbatim>\<open>health.py\<close>). At the
  last hop the thinking switch of the payload is put in the form the endpoint reads, and a reasoning
  trace left in the answer is moved out of it (\<^verbatim>\<open>think_bleed.py\<close>). A grammar the request carries is
  normalised and validated first (\<^verbatim>\<open>grammar.py\<close>); answers and streams are watched for loops, blank
  runs and broken tool calls (\<^verbatim>\<open>correction.py\<close>). A caller its operator granted it
  to may ask that its content is kept nowhere (\<^verbatim>\<open>no_store.py\<close>).

  \<^bold>\<open>Conventions.\<close> A Python float is a \<open>real\<close>, an int an \<open>int\<close>; rounding and truncation are written
  out, NaN and infinities occur only where the code handles them (\<open>Intent\<close>, \<open>Access_Control\<close>). A dict is an
  association list in insertion order (\<open>odict\<close> of \<open>Prelude\<close>). An exception is a value of a sum type
  with the state it leaves behind where that matters. Clocks, callbacks, health signals, HTTP
  answers, the hash function and the alias table of the catalog are arguments. Strings are lists of
  characters below 256. Loops are structural recursions over the lists or the attempt counts that
  the code computes before it enters them; general recursions (nested JSON, scanners that skip over a
  literal) have termination proofs. The one fuel is that of the JSON scanner \<open>jscan\<close>, supplied from the
  length of the text and shown to be enough for every text (\<open>jscan_fuel\<close>).

  \<^bold>\<open>Theories.\<close>
  \<^item> \<open>Prelude\<close>: the dict and numeric primitives with their lemmas, and the two locales
    \<open>event_system\<close> and \<open>step_system\<close> in which an invariant of single operations becomes one of
    runs. \<open>Json\<close>: JSON values, truth values and printing.
  \<^item> \<open>Config\<close> (\<^verbatim>\<open>config.py\<close>): priorities, bands, coercion of a priority, endpoint slots, quotas.
  \<^item> \<open>Agent_Budget\<close>: balances, weights, replenishing, charging and the choice of the next agent.
    Shown: starving agents are rescued, otherwise the most deserving is picked.
  \<^item> \<open>Rate\<close>, \<open>Usage_Rates\<close>, \<open>Spend\<close>, \<open>Standing\<close>: the sliding window of requests, prices, the spend
    ledger, and what crossing a threshold does. The locale \<open>threshold_standing\<close> states what a
    standing promises and is interpreted for money and for rate. Shown: windows and days are
    counted exactly, real money and avoided cost never mix, demotion never stacks.
  \<^item> \<open>Cost_Model\<close>: averages, calibration, estimates, token counts and the context gate.
  \<^item> \<open>Requests\<close>, \<open>Endpoint_Queue\<close>, \<open>Scheduler\<close>: the request value, the per-agent queues (locale
    \<open>agent_queue\<close>, interpreted as \<open>fifo\<close>), and the scheduler with enqueue, tick, complete, cancel.
    \<open>Scheduler_Facts\<close> holds the well-formedness invariant and the locale \<open>pass_invariant\<close> that lifts
    a step of the dispatch loop to a tick; \<open>Scheduler_Safety\<close> instantiates it for slots, request
    conservation and consent to spill; \<open>Scheduler_Runs\<close> has the step relation, with capacity that
    changes while requests run, and the bound on running requests in every run;
    \<open>Scheduler_Progress\<close> totality and progress.
  \<^item> \<open>Timeout_Model\<close>, \<open>Deadlines\<close>: the latency cells, the fallback ladder, the monotonicity guard,
    and the deadline a caller is advised under load. Shown: monotone in the request, above the
    floors, below the ceiling.
  \<^item> \<open>On_Demand\<close>: leases with their await points, and residency. \<open>Failover\<close>: degraded mode, its
    gates and counters, over the scheduler and the lease manager.
  \<^item> \<open>Goodput\<close>: sample rings, the three-valued verdict, the latch and the poller's tick.
  \<^item> \<open>Intent\<close>: parsing and resolution. \<open>Response_Cache\<close>: the cache and its canonical key.
  \<^item> \<open>Addresses\<close>: the part of Python's \<^verbatim>\<open>ipaddress\<close> the identity layer uses, on 32 and 128 bit words,
    with the round trip of printing and parsing. \<open>Access_Control\<close> (\<^verbatim>\<open>acl.py\<close>): the identity grammar
    and the address map. \<open>Identity\<close>: principals and the key registry. \<open>Resolver\<close>: what a request
    presents, whose address it has, who it is, and the gates of the admin plane. Shown: a wrong
    key never falls back to the address, a forwarded address cannot be claimed, the gates open
    exactly on the documented conditions.
  \<^item> \<open>Key_Admin\<close>: validation and the handlers that enrol, revoke and rotate keys. \<open>Key_Restart\<close>:
    replaying what they stored reproduces the running registry, unless a label is used twice.

  \<^item> \<open>Think_Switch\<close>, \<open>Think_Stream\<close>: removing and renaming the switch, and repairing whole responses and
    streams. Shown: no switch reaches an endpoint without one and nothing but the switch is removed,
    and a stream of plain frames says the same however it was cut into chunks.
  \<^item> \<open>No_Store\<close>: the header, the decision and the summary that is kept. Shown: the summary does not
    depend on the content.
  \<^item> \<open>Health\<close>: the health admission reads, the breaker, the cooldown and the release of a sick
    endpoint's queue. Shown: the breaker is no latch and trips at its threshold, the cooldown is exact,
    a release loses nobody.
  \<^item> \<open>Submit\<close>: every gate of \<^verbatim>\<open>handle_submit\<close> in order, over the state of the components above. Shown: who
    an admitted request belongs to, that lease counts balance on every path that raises nothing,
    and that a request not to be stored is neither cached nor spilled. \<open>Deadline_Grant\<close>: the rest of
    the method, the corrections and the deadline derived again for a raised budget. Shown: whose
    deadline a request runs under and what lengthens it.

  \<^item> \<open>Degeneration\<close>: the measures of a finished text and the two detectors of a live stream, over code
    points. Shown: the loop detector's bounded buffer changes no verdict, a cycle is reported within
    one check interval, blank runs are found exactly.
  \<^item> \<open>Grammar\<close>: tokens, validation, normalisation and the memo of grammars, and the two readings of an
    answer against a grammar. Shown: what is dispatched obeys the encoded rules, recovery of an
    object is exact, the hyphen fix keeps the members of ordinary classes.
  \<^item> \<open>Json_Scan\<close>, \<open>Tool_Stream\<close>: where a JSON value ends, and the sanitizer of streamed tool calls. Shown:
    no half call is relayed, none is sent twice, a cut call is reported as a truncation.
  \<^item> \<open>Replay\<close> (\<^verbatim>\<open>reasoning_replay.py\<close>): the bounded store of reasoning and its use before a dispatch and
    after an answer. Shown: a reasoning text returns to the turn it came from, and only there.
  \<^item> \<open>Observability\<close>: the rolling window, the fairness index, the alerts and the request log. Shown:
    the windows hold exactly the recent samples, so the alerts tell the truth about the history; the
    index lies between one share in \<open>n\<close> and one; the log is bounded and keeps the newest lines.
  \<^item> \<open>Persist\<close> (\<^verbatim>\<open>queue.py\<close>): the tables, every statement that writes to them, the writer thread and its
    bounded queue, the operations, recovery and the savings. \<open>Persist_Facts\<close>: a restart recovers exactly
    what was waiting, the writer thread keeps the order of submission, the lifetime savings survive pruning.
    \<open>Persist_Reads\<close>: the reports, which count every row once.
  \<^item> \<open>Request_Guards\<close> (\<^verbatim>\<open>correction.py\<close>): every rewrite of a chat request between admission and dispatch, in
    the order of \<^verbatim>\<open>lifecycle.py\<close>, and what the response side asks of a request. Shown: no rewrite disarms
    a gate on the response, the effort that leaves is the caller's under one name, a word of it a
    declared one, and what each rewrite leaves alone.
  \<^item> \<open>Response_Guards\<close>: the chain of guards over a finished answer, with its retries and counters; the
    backend, the repair library and the schema validator are arguments. Shown: a request for JSON gets
    JSON or an error, a schema sent as a tool call comes back as content, the backstop releases only
    what the schema accepts, and a refused answer leaves no body.

  \<^bold>\<open>Not modelled.\<close> What happens to a request after admission (execution, retries, streaming, accounting),
  the HTTP surface, the rest of the management plane, schema migrations, the provider adapters, the YAML
  catalog, the probes of capacity discovery, the export of metrics and the client library are input and output around the
  components above. The grammar gate is an argument of \<open>Submit\<close>, and \<open>process_grammar\<close> is what it is in
  the program.
\<close>

end
